(* ===== verification/Prelude.thy ===== *)
theory Prelude
  imports Main "HOL-Library.List_Lexorder" "HOL-Library.Char_ord" "HOL-Library.Word"
begin

text \<open>
  The prelude of the development of the FutureOS goal control plane: the Rust strings,
  clocks and collections the components share, and the generic lemmas about them.

  A Rust \<open>String\<close> is its UTF-8 byte sequence, a \<^typ>\<open>string\<close>; \<open>chars\<close> cuts it into code
  points (a lead byte and its continuation bytes), which is what \<open>str::chars\<close>,
  \<open>trim\<close> and the character-counting truncation of the kernel work on. Byte-wise
  lexicographic order (\<open>List_Lexorder\<close> over \<open>Char_ord\<close>) is the order of Rust strings.

  The unsigned integers of the code are natural numbers where the code only compares and
  increments them; an operation that saturates, checks or wraps is written out where it is
  used (\<open>saturating_add_u64\<close> below, the 64-bit word of the ledger digest).
\<close>

section \<open>Fact collections\<close>

named_theorems kernel_simps \<open>unfolding rules of the small predicates of the kernel\<close>
named_theorems frame_simps \<open>what an operation leaves unchanged\<close>

section \<open>Machine integers and clocks\<close>

type_synonym u32 = nat
type_synonym u64 = nat
type_synonym usize = nat

text \<open>A \<open>SystemTime\<close>: nanoseconds since the Unix epoch, negative before it.\<close>

type_synonym sys_time = int

text \<open>The bits of an IEEE double the model only stores (costs, the compute factor).\<close>

type_synonym f64 = "64 word"

definition u64_max :: u64 where
  "u64_max = 2 ^ 64 - 1"

definition saturating_add_u64 :: "u64 \<Rightarrow> u64 \<Rightarrow> u64" where
  "saturating_add_u64 a b = min (a + b) u64_max"

definition saturating_mul_u64 :: "u64 \<Rightarrow> u64 \<Rightarrow> u64" where
  "saturating_mul_u64 a b = min (a * b) u64_max"

definition saturating_add_u32 :: "u32 \<Rightarrow> u32 \<Rightarrow> u32" where
  "saturating_add_u32 a b = min (a + b) (2 ^ 32 - 1)"

definition checked_mul_u64 :: "u64 \<Rightarrow> u64 \<Rightarrow> u64 option" where
  "checked_mul_u64 a b = (if a * b \<le> u64_max then Some (a * b) else None)"

text \<open>\<open>now.duration_since(UNIX_EPOCH).unwrap_or_default().as_secs()\<close>\<close>

definition secs_of :: "sys_time \<Rightarrow> u64" where
  "secs_of now = (if now < 0 then 0 else nat (now div 1000000000))"

definition time_of_secs :: "u64 \<Rightarrow> sys_time" where
  "time_of_secs s = int s * 1000000000"

lemma secs_of_time_of_secs [simp]: "secs_of (time_of_secs s) = s"
  by (simp add: secs_of_def time_of_secs_def)

lemma secs_of_mono: "a \<le> b \<Longrightarrow> secs_of a \<le> secs_of b"
  by (auto simp: secs_of_def intro: nat_mono zdiv_mono1)

section \<open>Strings\<close>

definition is_continuation :: "char \<Rightarrow> bool" where
  "is_continuation c \<longleftrightarrow> 128 \<le> (of_char c :: nat) \<and> (of_char c :: nat) < 192"

text \<open>Code points, each with its bytes. Total: a stray continuation byte stands alone.\<close>

function chars :: "string \<Rightarrow> string list" where
  "chars [] = []"
| "chars (c # cs) =
     (c # takeWhile is_continuation cs) # chars (dropWhile is_continuation cs)"
  by pat_completeness auto
termination
  by (relation "measure length") (auto simp: less_Suc_eq_le length_dropWhile_le)

lemma concat_chars [simp]: "concat (chars s) = s"
  by (induction s rule: chars.induct) auto

lemma chars_eq_Nil_iff [simp]: "chars s = [] \<longleftrightarrow> s = []"
  by (cases s) auto

text \<open>The \<open>White_Space\<close> code points, which \<open>char::is_whitespace\<close> and \<open>trim\<close> use.\<close>

definition is_whitespace :: "string \<Rightarrow> bool" where
  "is_whitespace u \<longleftrightarrow>
     (let b = map (of_char :: char \<Rightarrow> nat) u in
        b \<in> set [[9], [10], [11], [12], [13], [32], [194, 133], [194, 160],
                  [225, 154, 128], [226, 128, 168], [226, 128, 169], [226, 128, 175],
                  [226, 129, 159], [227, 128, 128]]
        \<or> b \<in> set (map (\<lambda>k. [226, 128, k]) [128 ..< 139]))"

definition trim :: "string \<Rightarrow> string" where
  "trim s = concat (rev (dropWhile is_whitespace (rev (dropWhile is_whitespace (chars s)))))"

definition blank :: "string \<Rightarrow> bool" where
  "blank s \<longleftrightarrow> trim s = []"

text \<open>\<open>s.split(c)\<close> for an ASCII separator: never empty.\<close>

fun split_on :: "char \<Rightarrow> string \<Rightarrow> string list" where
  "split_on c [] = [[]]"
| "split_on c (x # xs) =
     (if x = c then [] # split_on c xs
      else (case split_on c xs of [] \<Rightarrow> [[x]] | y # ys \<Rightarrow> (x # y) # ys))"

fun join :: "string \<Rightarrow> string list \<Rightarrow> string" where
  "join sep [] = []"
| "join sep [x] = x"
| "join sep (x # y # ys) = x @ sep @ join sep (y # ys)"

lemma split_on_not_Nil [simp]: "split_on c s \<noteq> []"
  by (induction s) (auto split: list.splits)

lemma split_on_no_sep: "c \<notin> set x \<Longrightarrow> split_on c x = [x]"
  by (induction x) auto

lemma split_on_append: "c \<notin> set x \<Longrightarrow> split_on c (x @ c # ys) = x # split_on c ys"
  by (induction x) auto

lemma split_on_join:
  "xs \<noteq> [] \<Longrightarrow> \<forall>x \<in> set xs. c \<notin> set x \<Longrightarrow> split_on c (join [c] xs) = xs"
  by (induction "[c]" xs rule: join.induct) (auto simp: split_on_no_sep split_on_append)

definition starts_with :: "string \<Rightarrow> string \<Rightarrow> bool" where
  "starts_with p s \<longleftrightarrow> take (length p) s = p"

fun contains_str :: "string \<Rightarrow> string \<Rightarrow> bool" where
  "contains_str p [] \<longleftrightarrow> p = []"
| "contains_str p (c # cs) \<longleftrightarrow> starts_with p (c # cs) \<or> contains_str p cs"

lemma contains_str_iff: "contains_str p s \<longleftrightarrow> (\<exists>a b. s = a @ p @ b)"
proof (induction s)
  case Nil
  then show ?case by auto
next
  case (Cons c cs)
  have "starts_with p (c # cs) \<longleftrightarrow> (\<exists>b. c # cs = p @ b)"
    unfolding starts_with_def
    by (metis append_eq_conv_conj append_take_drop_id)
  then show ?case
    using Cons.IH by (auto simp: Cons_eq_append_conv)
qed

text \<open>Decimal digits, as \<open>format!("{n}")\<close> writes them.\<close>

definition digit :: "nat \<Rightarrow> char" where
  "digit d = char_of (48 + d)"

fun dec :: "nat \<Rightarrow> string" where
  "dec n = (if n < 10 then [digit n] else dec (n div 10) @ [digit (n mod 10)])"

declare dec.simps [simp del]

definition dec_int :: "int \<Rightarrow> string" where
  "dec_int n = (if n < 0 then CHR ''-'' # dec (nat (- n)) else dec (nat n))"

definition is_ascii_digit :: "char \<Rightarrow> bool" where
  "is_ascii_digit c \<longleftrightarrow> 48 \<le> (of_char c :: nat) \<and> (of_char c :: nat) \<le> 57"

text \<open>\<open>str::parse\<close> of an unsigned integer: digits only (Rust also takes a leading
  \<open>+\<close>), \<open>None\<close> on an empty or overflowing number.\<close>

definition digits_value :: "string \<Rightarrow> nat" where
  "digits_value ds = foldl (\<lambda>n c. 10 * n + (of_char c - 48)) 0 ds"

definition parse_u64 :: "string \<Rightarrow> u64 option" where
  "parse_u64 s =
     (let ds = (case s of c # cs \<Rightarrow> if c = CHR ''+'' then cs else s | [] \<Rightarrow> s) in
      if ds = [] \<or> \<not> list_all is_ascii_digit ds then None
      else if digits_value ds \<le> u64_max then Some (digits_value ds) else None)"

text \<open>ASCII letter case (\<open>to_ascii_lowercase\<close>); full Unicode lowering is a parameter of
  the definitions that use it.\<close>

definition ascii_lower_char :: "char \<Rightarrow> char" where
  "ascii_lower_char c =
     (let n = (of_char c :: nat) in if 65 \<le> n \<and> n \<le> 90 then char_of (n + 32) else c)"

definition ascii_upper_char :: "char \<Rightarrow> char" where
  "ascii_upper_char c =
     (let n = (of_char c :: nat) in if 97 \<le> n \<and> n \<le> 122 then char_of (n - 32) else c)"

definition ascii_lower :: "string \<Rightarrow> string" where
  "ascii_lower s = map ascii_lower_char s"

definition is_ascii_alphanumeric :: "char \<Rightarrow> bool" where
  "is_ascii_alphanumeric c \<longleftrightarrow>
     (let n = (of_char c :: nat) in
        (48 \<le> n \<and> n \<le> 57) \<or> (65 \<le> n \<and> n \<le> 90) \<or> (97 \<le> n \<and> n \<le> 122))"

text \<open>The non-ASCII literals of the messages.\<close>

definition newline :: string where
  "newline = [CHR 0x0A]"

definition em_dash :: string where
  "em_dash = [CHR 0xE2, CHR 0x80, CHR 0x94]"

definition ellipsis :: string where
  "ellipsis = [CHR 0xE2, CHR 0x80, CHR 0xA6]"

definition right_arrow :: string where
  "right_arrow = [CHR 0xE2, CHR 0x86, CHR 0x92]"

section \<open>Errors in sequence\<close>

text \<open>The \<open>?\<close> operator, and a loop whose body can fail.\<close>

definition and_then :: "'e + 'a \<Rightarrow> ('a \<Rightarrow> 'e + 'b) \<Rightarrow> 'e + 'b" where
  "and_then r f = (case r of Inl e \<Rightarrow> Inl e | Inr x \<Rightarrow> f x)"

lemma and_then_simps [simp]: "and_then (Inl e) f = Inl e" "and_then (Inr x) f = f x"
  by (simp_all add: and_then_def)

lemma and_then_Inr: "and_then r f = Inr y \<longleftrightarrow> (\<exists>x. r = Inr x \<and> f x = Inr y)"
  by (cases r) simp_all

fun fold_res :: "('a \<Rightarrow> 's \<Rightarrow> 'e + 's) \<Rightarrow> 'a list \<Rightarrow> 's \<Rightarrow> 'e + 's" where
  "fold_res f [] s = Inr s"
| "fold_res f (x # xs) s = and_then (f x s) (fold_res f xs)"

lemma fold_res_append: "fold_res f (xs @ ys) s = and_then (fold_res f xs s) (fold_res f ys)"
proof (induction xs arbitrary: s)
  case (Cons x xs)
  then show ?case by (cases "f x s") simp_all
qed simp

text \<open>An accumulator that a successful body only adds to.\<close>

lemma fold_res_invariant:
  assumes "fold_res f xs s = Inr s'" "Q s"
    and "\<And>x s s'. x \<in> set xs \<Longrightarrow> Q s \<Longrightarrow> f x s = Inr s' \<Longrightarrow> Q s'"
  shows "Q s'"
  using assms
proof (induction xs arbitrary: s)
  case (Cons x xs)
  then obtain t where "f x s = Inr t" "fold_res f xs t = Inr s'" by (auto simp: and_then_Inr)
  then show ?case using Cons.IH [of t] Cons.prems(2,3) by (metis list.set_intros)
qed simp

section \<open>Lists\<close>

text \<open>\<open>iter().find(p)\<close>, and the update of the first match (\<open>todo_mut\<close> and its kin).\<close>

fun update_first :: "('a \<Rightarrow> bool) \<Rightarrow> ('a \<Rightarrow> 'a) \<Rightarrow> 'a list \<Rightarrow> 'a list" where
  "update_first p f [] = []"
| "update_first p f (x # xs) = (if p x then f x # xs else x # update_first p f xs)"

lemma length_update_first [simp]: "length (update_first p f xs) = length xs"
  by (induction xs) auto

lemma map_update_first:
  "(\<And>x. g (f x) = g x) \<Longrightarrow> map g (update_first p f xs) = map g xs"
  by (induction xs) auto

lemma set_update_first_subset: "set (update_first p f xs) \<subseteq> set xs \<union> f ` {x \<in> set xs. p x}"
  by (induction xs) auto

lemma update_first_nomatch: "\<forall>x \<in> set xs. \<not> p x \<Longrightarrow> update_first p f xs = xs"
  by (induction xs) auto

lemma find_update_first_same:
  "(\<And>x. p x \<Longrightarrow> p (f x)) \<Longrightarrow> find p (update_first p f xs) = map_option f (find p xs)"
  by (induction xs) auto

lemma find_update_first_other:
  "(\<And>x. p x \<Longrightarrow> \<not> q x \<and> \<not> q (f x)) \<Longrightarrow> find q (update_first p f xs) = find q xs"
  by (induction xs) auto

lemma find_append: "find p (xs @ ys) = (case find p xs of None \<Rightarrow> find p ys | Some x \<Rightarrow> Some x)"
  by (induction xs) auto

lemma find_SomeD: "find p xs = Some x \<Longrightarrow> x \<in> set xs \<and> p x"
  by (induction xs) (auto split: if_splits)

lemma filter_eq_Nil_iff: "filter p xs = [] \<longleftrightarrow> (\<forall>x \<in> set xs. \<not> p x)"
  by (induction xs) auto

lemma hd_filter_mem: "filter p xs = y # ys \<Longrightarrow> y \<in> set xs \<and> p y"
  by (auto simp: filter_eq_Cons_iff)

text \<open>A loop that pushes the items it selects onto one of its accumulators.\<close>

lemma foldl_collect:
  assumes "\<And>a t. acc (step a t) = acc a @ (if p t then [g t] else [])"
  shows "acc (foldl step a ts) = acc a @ map g (filter p ts)"
  by (induction ts arbitrary: a) (simp_all add: assms)

lemma foldl_count:
  assumes "\<And>a t. acc (step a t) = acc a + (if p t then 1 else (0::nat))"
  shows "acc (foldl step a ts) = acc a + length (filter p ts)"
  by (induction ts arbitrary: a) (simp_all add: assms)

lemma foldl_invariant:
  "I a \<Longrightarrow> (\<And>a t. I a \<Longrightarrow> t \<in> set ts \<Longrightarrow> I (step a t)) \<Longrightarrow> I (foldl step a ts)"
  by (induction ts arbitrary: a) auto

text \<open>The newest \<open>n\<close> elements: \<open>drain(..overflow)\<close> of the bounded rings.\<close>

definition keep_last :: "nat \<Rightarrow> 'a list \<Rightarrow> 'a list" where
  "keep_last n xs = drop (length xs - n) xs"

lemma length_keep_last [simp]: "length (keep_last n xs) = min n (length xs)"
  by (simp add: keep_last_def)

lemma keep_last_id: "length xs \<le> n \<Longrightarrow> keep_last n xs = xs"
  by (simp add: keep_last_def)

lemma set_keep_last: "set (keep_last n xs) \<subseteq> set xs"
  by (simp add: keep_last_def set_drop_subset)

lemma keep_last_append_keep_last:
  "keep_last n (keep_last n xs @ ys) = keep_last n (xs @ ys)"
proof (cases "length xs \<le> n")
  case True
  then show ?thesis by (simp add: keep_last_id)
next
  case False
  then have "length (keep_last n xs @ ys) - n + (length xs - n) = length xs + length ys - n"
    by simp
  with False show ?thesis
    by (cases "length ys \<le> n") (auto simp: keep_last_def)
qed

end
