(* ===== verification/Goal_State.thy ===== *)
theory Goal_State
  imports Prelude
begin

text \<open>
  The durable goal state of \<open>orchestration/goal/src/state.rs\<close>: todos and their lifecycle,
  validation receipts, run records, acceptance gaps, delivery states, agent profiles and
  the goal that owns them, with every operation \<open>state.rs\<close> defines on them.

  Record fields carry a short prefix (\<open>t_\<close> for \<open>Todo\<close>, \<open>r_\<close> for \<open>RunRecord\<close>, \<open>g_\<close> for
  \<open>Goal\<close>, ...). A method on \<open>&mut self\<close> is a function returning the new record. A clock
  read is an argument \<open>now\<close>; the probe of a process id and the home directory are
  arguments \<open>alive\<close> and \<open>home\<close>.
\<close>

section \<open>JSON values\<close>

datatype json =
    JNull
  | JBool bool
  | JNum int
  | JFloat f64
  | JStr string
  | JArr "json list"
  | JObj "(string \<times> json) list"

section \<open>Todos\<close>

datatype priority = P0 | P1 | P2

instantiation priority :: linorder
begin

definition less_eq_priority :: "priority \<Rightarrow> priority \<Rightarrow> bool" where
  "less_eq_priority p q \<longleftrightarrow> p = P0 \<or> q = P2 \<or> p = q"

definition less_priority :: "priority \<Rightarrow> priority \<Rightarrow> bool" where
  "less_priority p q \<longleftrightarrow> (p = P0 \<and> q \<noteq> P0) \<or> (p = P1 \<and> q = P2)"

instance
proof
  fix p q r :: priority
  show "p < q \<longleftrightarrow> p \<le> q \<and> \<not> q \<le> p"
    by (cases p; cases q) (auto simp: less_eq_priority_def less_priority_def)
  show "p \<le> p" by (simp add: less_eq_priority_def)
  show "p \<le> q \<Longrightarrow> q \<le> r \<Longrightarrow> p \<le> r"
    by (cases p; cases q; cases r) (auto simp: less_eq_priority_def)
  show "p \<le> q \<Longrightarrow> q \<le> p \<Longrightarrow> p = q"
    by (cases p; cases q) (auto simp: less_eq_priority_def)
  show "p \<le> q \<or> q \<le> p"
    by (cases p; cases q) (auto simp: less_eq_priority_def)
qed

end

fun priority_display :: "priority \<Rightarrow> string" where
  "priority_display P0 = ''P0''"
| "priority_display P1 = ''P1''"
| "priority_display P2 = ''P2''"

datatype task_class = Advancement | UserGate | UserAction | Monitor | Blocker | Coordination

datatype todo_status = Open | Done | Superseded | Deferred | Blocked

datatype todo_role = Agent | User

record todo =
  t_id :: string
  t_parent_id :: "string option"
  t_text :: string
  t_title :: string
  t_class :: task_class
  t_status :: todo_status
  t_priority :: priority
  t_role :: todo_role
  t_index :: u32
  t_action_kind :: "string option"
  t_gate_question :: "string option"
  t_decision :: "string option"
  t_note :: "string option"
  t_resume_when_text :: "string option"
  t_resume_when :: "sys_time option"
  t_consecutive_no_change :: u32
  t_monitor_target :: "string option"
  t_monitor_policy :: "string option"
  t_monitor_cadence :: "string option"
  t_blocked_by_gate :: "string option"
  t_failed_attempts :: u32
  t_successor_ids :: "string list"
  t_no_follow_up :: bool
  t_evidence :: "string option"
  t_owner :: "string option"
  t_claimed_by :: "string option"
  t_lease_expires_at :: "u64 option"
  t_holder_pid :: "u32 option"
  t_goal_bound :: bool
  t_global_gate :: bool
  t_updated_at :: u64
  t_completed_at :: "u64 option"
  t_archive_state :: string
  t_task_repository :: "string option"
  t_continuation_policy :: "string option"
  t_required_write_scope :: "string list"
  t_validator :: "string option"
  t_acceptance :: "string option"
  t_max_validation_attempts :: u32

definition default_max_validation_attempts :: u32 where
  "default_max_validation_attempts = 3"

definition todo_new :: "sys_time \<Rightarrow> string \<Rightarrow> string \<Rightarrow> task_class \<Rightarrow> todo" where
  "todo_new now tid text cls =
     \<lparr>t_id = tid, t_parent_id = None, t_text = text, t_title = text, t_class = cls,
      t_status = Open, t_priority = P1,
      t_role = (case cls of UserGate \<Rightarrow> User | UserAction \<Rightarrow> User | _ \<Rightarrow> Agent),
      t_index = 0, t_action_kind = None, t_gate_question = None, t_decision = None,
      t_note = None, t_resume_when_text = None, t_resume_when = None,
      t_consecutive_no_change = 0, t_monitor_target = None, t_monitor_policy = None,
      t_monitor_cadence = None, t_blocked_by_gate = None, t_failed_attempts = 0,
      t_successor_ids = [], t_no_follow_up = False, t_evidence = None, t_owner = None,
      t_claimed_by = None, t_lease_expires_at = None, t_holder_pid = None,
      t_goal_bound = False, t_global_gate = False, t_updated_at = secs_of now,
      t_completed_at = None, t_archive_state = ''active'', t_task_repository = None,
      t_continuation_policy = None, t_required_write_scope = [], t_validator = None,
      t_acceptance = None, t_max_validation_attempts = default_max_validation_attempts\<rparr>"

definition blocking :: "string list \<Rightarrow> todo \<Rightarrow> todo" where
  "blocking gate_ids t =
     (if gate_ids \<noteq> [] then t\<lparr>t_blocked_by_gate := Some (join '','' gate_ids)\<rparr> else t)"

definition advancement :: "sys_time \<Rightarrow> string \<Rightarrow> string \<Rightarrow> todo" where
  "advancement now tid text = todo_new now tid text Advancement"

definition user_gate :: "sys_time \<Rightarrow> string \<Rightarrow> string \<Rightarrow> string list \<Rightarrow> todo" where
  "user_gate now tid question blocks =
     blocking blocks ((todo_new now tid question UserGate)\<lparr>t_gate_question := Some question\<rparr>)"

text \<open>Durations are nanoseconds.\<close>

definition monitor :: "sys_time \<Rightarrow> string \<Rightarrow> string \<Rightarrow> nat \<Rightarrow> todo" where
  "monitor now tid text due_in =
     (todo_new now tid text Monitor)\<lparr>t_resume_when := Some (now + int due_in)\<rparr>"

definition blocker :: "sys_time \<Rightarrow> string \<Rightarrow> string \<Rightarrow> string list \<Rightarrow> todo" where
  "blocker now tid text blocks = blocking blocks (todo_new now tid text Blocker)"

definition coordination :: "sys_time \<Rightarrow> string \<Rightarrow> string \<Rightarrow> todo" where
  "coordination now tid text = todo_new now tid text Coordination"

definition user_action :: "sys_time \<Rightarrow> string \<Rightarrow> string \<Rightarrow> todo" where
  "user_action now tid text = todo_new now tid text UserAction"

definition deferred :: "sys_time \<Rightarrow> string \<Rightarrow> string \<Rightarrow> nat \<Rightarrow> todo" where
  "deferred now tid text resume_in =
     (todo_new now tid text Advancement)
       \<lparr>t_status := Deferred, t_resume_when := Some (now + int resume_in)\<rparr>"

definition owned_by :: "string \<Rightarrow> todo \<Rightarrow> todo" where
  "owned_by agent t = t\<lparr>t_owner := Some agent\<rparr>"

definition archive :: "u64 \<Rightarrow> todo \<Rightarrow> todo" where
  "archive now t = t\<lparr>t_archive_state := ''archived'', t_updated_at := now\<rparr>"

definition is_due_deferred :: "sys_time \<Rightarrow> todo \<Rightarrow> bool" where
  "is_due_deferred now t \<longleftrightarrow>
     t_status t = Deferred \<and> (case t_resume_when t of None \<Rightarrow> False | Some d \<Rightarrow> d \<le> now)"

text \<open>\<open>Todo::claim\<close>: the returned flag and the todo after the call.\<close>

definition todo_claim ::
  "(u32 \<Rightarrow> bool) \<Rightarrow> string \<Rightarrow> u64 \<Rightarrow> u64 \<Rightarrow> todo \<Rightarrow> bool \<times> todo" where
  "todo_claim alive agent lease_secs now t =
     (if t_status t \<noteq> Open then (False, t)
      else if (case t_lease_expires_at t of
                 None \<Rightarrow> False
               | Some expires \<Rightarrow>
                   expires > now \<and> t_claimed_by t \<noteq> Some agent
                   \<and> \<not> (case t_holder_pid t of Some pid \<Rightarrow> \<not> alive pid | None \<Rightarrow> False))
           then (False, t)
      else (True, t\<lparr>t_claimed_by := Some agent,
                     t_lease_expires_at := Some (now + lease_secs)\<rparr>))"

definition claimed_by_other :: "string option \<Rightarrow> u64 \<Rightarrow> todo \<Rightarrow> bool" where
  "claimed_by_other agent now t \<longleftrightarrow>
     (case (t_claimed_by t, t_lease_expires_at t) of
        (Some owner, Some expires) \<Rightarrow> expires > now \<and> agent \<noteq> Some owner
      | _ \<Rightarrow> False)"

definition todo_complete :: "u64 \<Rightarrow> bool \<Rightarrow> string list \<Rightarrow> todo \<Rightarrow> todo" where
  "todo_complete now no_follow_up successor_ids t =
     t\<lparr>t_status := Done, t_claimed_by := None, t_lease_expires_at := None,
       t_holder_pid := None, t_no_follow_up := no_follow_up,
       t_successor_ids := successor_ids, t_completed_at := Some now, t_updated_at := now\<rparr>"

definition set_evidence :: "u64 \<Rightarrow> string \<Rightarrow> todo \<Rightarrow> todo" where
  "set_evidence now evidence t = t\<lparr>t_evidence := Some evidence, t_updated_at := now\<rparr>"

section \<open>Validation receipts\<close>

datatype validation_status =
    Passed | Progress | Failed | Inconclusive | Unavailable | NotRequired

datatype recovery_kind = RepairRequired | ReplanRequired

record task_validation =
  v_schema_version :: string
  v_status :: validation_status
  v_validator_kind :: string
  v_summary :: string
  v_recovery_kind :: "recovery_kind option"
  v_exit_code :: "int option"
  v_ok :: bool

definition MAX_VALIDATION_SCHEMA_VERSION :: string where
  "MAX_VALIDATION_SCHEMA_VERSION = ''future_goal_turn_task_validation_v0''"

definition task_validation_receipt ::
  "validation_status \<Rightarrow> string \<Rightarrow> string \<Rightarrow> recovery_kind option \<Rightarrow> int option \<Rightarrow> task_validation"
where
  "task_validation_receipt st kind summary recovery exit_code =
     \<lparr>v_schema_version = MAX_VALIDATION_SCHEMA_VERSION, v_status = st,
      v_validator_kind = kind, v_summary = summary,
      v_recovery_kind =
        (if st = Failed \<or> st = Inconclusive \<or> st = Unavailable
         then Some (case recovery of Some r \<Rightarrow> r | None \<Rightarrow> RepairRequired) else None),
      v_exit_code = exit_code, v_ok = (st = Passed \<or> st = NotRequired)\<rparr>"

section \<open>Runs\<close>

datatype failure_kind = NoFailure | InfraRecoverable | ScienceVerifyFailed | HardError

fun failure_label :: "failure_kind \<Rightarrow> string" where
  "failure_label NoFailure = ''succeeded''"
| "failure_label InfraRecoverable = ''infra-recoverable (retry is safe)''"
| "failure_label ScienceVerifyFailed = ''verify-gate rejected the output''"
| "failure_label HardError = ''hard error (no recoverable infra cause)''"

record run_record =
  r_agent_id :: "string option"
  r_turn :: u32
  r_todo_id :: string
  r_run_id :: string
  r_validation :: "task_validation option"
  r_terminal_state :: string
  r_error :: "string option"
  r_tokens_in_delta :: u64
  r_tokens_out_delta :: u64
  r_cost_delta :: f64
  r_tools :: "string list"
  r_evidence :: string
  r_recorded_at :: u64
  r_spend_source :: "string option"
  r_failure_kind :: "failure_kind option"
  r_truncation :: "json option"

section \<open>The parts of a goal\<close>

record acceptance_gap =
  a_id :: string
  a_description :: string
  a_satisfied :: bool

record execution_profile =
  x_cadence :: string
  x_spend_rule :: string
  x_outcome_floor_streak_threshold :: u32

definition default_execution_profile :: execution_profile where
  "default_execution_profile =
     \<lparr>x_cadence = ''bounded_progress_segment'',
      x_spend_rule = ''spend_only_after_artifact_validation_writeback'',
      x_outcome_floor_streak_threshold = 0\<rparr>"

record replan_ack =
  k_recorded :: bool
  k_delta_kinds :: "string list"
  k_at :: u64

definition has_frontier_delta :: "replan_ack \<Rightarrow> bool" where
  "has_frontier_delta ack \<longleftrightarrow>
     k_recorded ack
     \<and> list_ex (\<lambda>k. k = ''vision_patch'' \<or> k = ''no_followup''
                    \<or> k = ''successor_or_supersede'' \<or> k = ''runnable_todo_set'')
         (k_delta_kinds ack)"

definition delta_kind_changes_frontier :: "string \<Rightarrow> bool" where
  "delta_kind_changes_frontier kind \<longleftrightarrow>
     kind \<in> set [''vision_patch'', ''no_followup'', ''successor_or_supersede'',
                 ''runnable_todo_set'', ''user_gate'', ''blocker'', ''monitor_target'',
                 ''active_state_next_action'', ''goal_boundary_projection'']"

record delivery_state =
  d_todo_id :: string
  d_outcome :: string
  d_note :: "string option"
  d_delivered_turn :: u32
  d_followthrough_todo_id :: "string option"
  d_seq :: u32
  d_updated_at :: u64

record agent_profile =
  ap_id :: string
  ap_capabilities :: "string list"
  ap_workspaces :: "string list"

definition profile_has :: "agent_profile \<Rightarrow> string \<Rightarrow> bool" where
  "profile_has p cap \<longleftrightarrow> list_ex (\<lambda>c. c = cap) (ap_capabilities p)"

record authority =
  au_write_scope :: "string list"
  au_requires_approval :: "string list"

definition default_authority :: authority where
  "default_authority =
     \<lparr>au_write_scope = [],
      au_requires_approval = [''publish'', ''production-action'', ''merge'']\<rparr>"

definition approval_required_for :: "authority \<Rightarrow> string \<Rightarrow> bool" where
  "approval_required_for a kind \<longleftrightarrow> list_ex (\<lambda>k. k = kind) (au_requires_approval a)"

definition boundary_scan_leaks :: "string \<Rightarrow> string \<Rightarrow> string list" where
  "boundary_scan_leaks home text =
     (if home \<noteq> [] \<and> contains_str home text
      then [''absolute home path leak: '' @ home] else [])
     @ map (\<lambda>marker. ''sensitive marker `'' @ marker @ ''` in evidence'')
         (filter (\<lambda>marker. contains_str marker text)
            [''.ssh'', ''auth.json'', ''token='', ''api_key''])"

record steer_instruction =
  si_agent_id :: "string option"
  si_instruction :: string
  si_ts :: u64

record session_retention =
  sr_session_id :: string
  sr_failure_kind :: failure_kind
  sr_resumable :: bool
  sr_reason :: string
  sr_ended_at :: u64

record liveness_alert =
  la_agent_id :: string
  la_elapsed_secs :: u64
  la_threshold_secs :: u64
  la_consecutive :: u32
  la_ts :: u64

record turn_no_progress_record =
  np_goal_id :: string
  np_todo_id :: string
  np_agent_id :: "string option"
  np_idle_secs :: u64
  np_tool_calls_total :: u32
  np_ts :: u64

record decision_freshness =
  df_events_max_seq :: u64
  df_events_max_ts :: "u64 option"
  df_read_at :: u64

record semantic_event =
  se_kind :: string
  se_todo_id :: "string option"
  se_summary :: string
  se_ts :: u64

record replan_rule_set =
  rs_schema_version :: string
  rs_rule_ids :: "string list"

section \<open>Goals\<close>

record goal =
  g_goal_id :: string
  g_objective :: string
  g_cwd :: string
  g_status :: string
  g_acceptance :: "acceptance_gap list"
  g_todos :: "todo list"
  g_history :: "run_record list"
  g_next_action :: "string option"
  g_registered_agents :: "string list"
  g_agent_profiles :: "agent_profile list"
  g_execution_profile :: execution_profile
  g_outcome_streak :: u32
  g_replan_ack :: "replan_ack option"
  g_authority :: authority
  g_created_at :: u64
  g_next_index :: u32
  g_quota_spent_slots :: u32
  g_delivery_states :: "delivery_state list"
  g_decision_freshness :: "decision_freshness option"
  g_scheduler_heartbeats :: "string \<rightharpoonup> u64"
  g_liveness_alerts :: "liveness_alert list"
  g_turn_no_progress :: "turn_no_progress_record list"
  g_frontier_change_ts :: "u64 list"
  g_semantic_history :: "semantic_event list"
  g_replan_rule_set :: "replan_rule_set option"
  g_session_retention :: "session_retention option"
  g_worker_sessions :: "string \<rightharpoonup> string"
  g_supervisor_session_id :: "string option"
  g_pending_steer :: "steer_instruction option"

definition goal_new :: "u64 \<Rightarrow> string \<Rightarrow> string \<Rightarrow> string \<Rightarrow> goal" where
  "goal_new now gid objective cwd =
     \<lparr>g_goal_id = gid, g_objective = objective, g_cwd = cwd, g_status = ''active'',
      g_acceptance = [], g_todos = [], g_history = [], g_next_action = None,
      g_registered_agents = [], g_agent_profiles = [],
      g_execution_profile = default_execution_profile, g_outcome_streak = 0,
      g_replan_ack = None, g_authority = default_authority, g_created_at = now,
      g_next_index = 0, g_quota_spent_slots = 0, g_delivery_states = [],
      g_decision_freshness = None, g_scheduler_heartbeats = Map.empty,
      g_liveness_alerts = [], g_turn_no_progress = [], g_frontier_change_ts = [],
      g_semantic_history = [], g_replan_rule_set = None, g_session_retention = None,
      g_worker_sessions = Map.empty, g_supervisor_session_id = None,
      g_pending_steer = None\<rparr>"

definition with_acceptance :: "(string \<times> string) list \<Rightarrow> goal \<Rightarrow> goal" where
  "with_acceptance gaps g =
     g\<lparr>g_acceptance :=
         map (\<lambda>(i, desc). \<lparr>a_id = i, a_description = desc, a_satisfied = False\<rparr>) gaps\<rparr>"

definition goal_add :: "todo \<Rightarrow> goal \<Rightarrow> goal" where
  "goal_add t g =
     (let n = g_next_index g + 1;
          t' = (if t_index t = 0 then t\<lparr>t_index := n\<rparr> else t)
      in g\<lparr>g_next_index := n, g_todos := g_todos g @ [t']\<rparr>)"

definition find_todo :: "goal \<Rightarrow> string \<Rightarrow> todo option" where
  "find_todo g tid = find (\<lambda>t. t_id t = tid) (g_todos g)"

text \<open>\<open>if let Some(t) = goal.todo_mut(id) { ... }\<close>\<close>

definition on_todo :: "string \<Rightarrow> (todo \<Rightarrow> todo) \<Rightarrow> goal \<Rightarrow> goal" where
  "on_todo tid f g = g\<lparr>g_todos := update_first (\<lambda>t. t_id t = tid) f (g_todos g)\<rparr>"

definition archive_todo :: "u64 \<Rightarrow> string \<Rightarrow> goal \<Rightarrow> goal" where
  "archive_todo now tid g = on_todo tid (archive now) g"

section \<open>Frontier queries\<close>

definition live_at :: "sys_time \<Rightarrow> todo \<Rightarrow> bool" where
  "live_at now t \<longleftrightarrow> t_status t = Open \<or> is_due_deferred now t"

definition open_of_at :: "goal \<Rightarrow> task_class \<Rightarrow> sys_time \<Rightarrow> todo list" where
  "open_of_at g cls now = filter (\<lambda>t. t_class t = cls \<and> live_at now t) (g_todos g)"

definition open_gates_at :: "goal \<Rightarrow> sys_time \<Rightarrow> todo list" where
  "open_gates_at g now = open_of_at g UserGate now"

definition open_blocking_sources_at :: "goal \<Rightarrow> sys_time \<Rightarrow> todo list" where
  "open_blocking_sources_at g now =
     filter (\<lambda>t. (t_class t = UserGate \<or> t_class t = Blocker) \<and> live_at now t) (g_todos g)"

definition open_monitors_at :: "goal \<Rightarrow> sys_time \<Rightarrow> todo list" where
  "open_monitors_at g now = filter (\<lambda>t. t_class t = Monitor \<and> live_at now t) (g_todos g)"

text \<open>The comma-joined ids of \<open>blocked_by_gate\<close>, each trimmed.\<close>

definition listed_ids :: "string \<Rightarrow> string list" where
  "listed_ids s = map trim (split_on CHR '','' s)"

text \<open>An unresolved predecessor: an open (or due) gate or blocker, or any other todo that is
  neither done nor superseded. An unknown id does not block.\<close>

definition pred_blocks :: "goal \<Rightarrow> sys_time \<Rightarrow> string \<Rightarrow> bool" where
  "pred_blocks g now gid \<longleftrightarrow>
     gid \<noteq> [] \<and>
     (case find_todo g gid of
        None \<Rightarrow> False
      | Some p \<Rightarrow>
          (if t_class p = UserGate \<or> t_class p = Blocker
           then t_status p = Open \<or> is_due_deferred now p
           else t_status p \<noteq> Done \<and> t_status p \<noteq> Superseded))"

definition is_blocked_at :: "goal \<Rightarrow> todo \<Rightarrow> sys_time \<Rightarrow> bool" where
  "is_blocked_at g t now \<longleftrightarrow>
     list_ex (\<lambda>s. t_id s \<noteq> t_id t
                  \<and> (t_global_gate s
                     \<or> (case t_blocked_by_gate s of
                          None \<Rightarrow> False
                        | Some ids \<Rightarrow> list_ex (\<lambda>i. i = t_id t) (listed_ids ids))))
       (open_blocking_sources_at g now)
     \<or> (case t_blocked_by_gate t of
          None \<Rightarrow> False
        | Some ids \<Rightarrow> list_ex (pred_blocks g now) (listed_ids ids))"

definition runnable_advancement_for_at ::
  "goal \<Rightarrow> string option \<Rightarrow> sys_time \<Rightarrow> todo list" where
  "runnable_advancement_for_at g agent now =
     filter (\<lambda>t. (t_class t = Advancement \<and> live_at now t)
                 \<and> \<not> claimed_by_other agent (secs_of now) t
                 \<and> (t_owner t = None \<or> t_owner t = agent)
                 \<and> \<not> is_blocked_at g t now)
       (g_todos g)"

definition pending_advancement_owner_aware_at ::
  "goal \<Rightarrow> sys_time \<Rightarrow> todo list \<times> todo list" where
  "pending_advancement_owner_aware_at g now =
     (let opened = filter (\<lambda>t. t_class t = Advancement \<and> live_at now t
                               \<and> \<not> is_blocked_at g t now) (g_todos g)
      in (filter (\<lambda>t. t_owner t = None \<and> \<not> claimed_by_other None (secs_of now) t) opened,
          filter (\<lambda>t. t_owner t \<noteq> None) opened))"

section \<open>Agents\<close>

definition is_registered_agent :: "goal \<Rightarrow> string option \<Rightarrow> bool" where
  "is_registered_agent g agent \<longleftrightarrow>
     (case agent of None \<Rightarrow> True | Some a \<Rightarrow> list_ex (\<lambda>r. r = a) (g_registered_agents g))"

definition agent_capabilities :: "goal \<Rightarrow> string \<Rightarrow> string list" where
  "agent_capabilities g agent =
     (case find (\<lambda>p. ap_id p = agent) (g_agent_profiles g) of
        None \<Rightarrow> [] | Some p \<Rightarrow> ap_capabilities p)"

definition set_profile :: "string \<Rightarrow> string list \<Rightarrow> string list \<Rightarrow> goal \<Rightarrow> goal" where
  "set_profile agent caps workspaces g =
     g\<lparr>g_registered_agents :=
         (if list_ex (\<lambda>r. r = agent) (g_registered_agents g) then g_registered_agents g
          else g_registered_agents g @ [agent]),
       g_agent_profiles :=
         filter (\<lambda>p. ap_id p \<noteq> agent) (g_agent_profiles g)
         @ [\<lparr>ap_id = agent, ap_capabilities = caps, ap_workspaces = workspaces\<rparr>]\<rparr>"

definition register_agent :: "string \<Rightarrow> string list \<Rightarrow> goal \<Rightarrow> goal" where
  "register_agent agent caps g = set_profile agent caps [] g"

section \<open>Deliveries\<close>

definition OUTCOME_DELIVERED :: string where "OUTCOME_DELIVERED = ''delivered''"
definition OUTCOME_VERIFIED :: string where "OUTCOME_VERIFIED = ''verified''"
definition OUTCOME_FAILED :: string where "OUTCOME_FAILED = ''failed''"
definition OUTCOME_REWORK :: string where "OUTCOME_REWORK = ''rework''"

definition find_delivery :: "goal \<Rightarrow> string \<Rightarrow> delivery_state option" where
  "find_delivery g tid = find (\<lambda>d. d_todo_id d = tid) (g_delivery_states g)"

definition apply_delivery_outcome ::
  "string \<Rightarrow> string \<Rightarrow> string option \<Rightarrow> u32 \<Rightarrow> u32 \<Rightarrow> u64 \<Rightarrow> goal \<Rightarrow> goal" where
  "apply_delivery_outcome tid outcome note delivered_turn seq ts g =
     (let fresh = (outcome = OUTCOME_DELIVERED) in
      case find_delivery g tid of
        Some _ \<Rightarrow>
          g\<lparr>g_delivery_states :=
              update_first (\<lambda>d. d_todo_id d = tid)
                (\<lambda>d. (let d1 = d\<lparr>d_outcome := outcome\<rparr>;
                          d2 = (if note \<noteq> None then d1\<lparr>d_note := note\<rparr> else d1);
                          d3 = (if fresh then d2\<lparr>d_delivered_turn := delivered_turn,
                                                 d_followthrough_todo_id := None\<rparr> else d2)
                      in d3\<lparr>d_seq := seq, d_updated_at := ts\<rparr>))
                (g_delivery_states g)\<rparr>
      | None \<Rightarrow>
          g\<lparr>g_delivery_states := g_delivery_states g @
              [\<lparr>d_todo_id = tid, d_outcome = outcome, d_note = note,
                d_delivered_turn = (if fresh then delivered_turn else 0),
                d_followthrough_todo_id = None, d_seq = seq, d_updated_at = ts\<rparr>]\<rparr>)"

definition apply_followthrough :: "string \<Rightarrow> string \<Rightarrow> u64 \<Rightarrow> goal \<Rightarrow> goal" where
  "apply_followthrough source followup ts g =
     g\<lparr>g_delivery_states :=
         update_first (\<lambda>d. d_todo_id d = source)
           (\<lambda>d. d\<lparr>d_followthrough_todo_id := Some followup, d_updated_at := ts\<rparr>)
           (g_delivery_states g)\<rparr>"

section \<open>Closure\<close>

definition completed_without_closure_intent :: "goal \<Rightarrow> todo list" where
  "completed_without_closure_intent g =
     filter (\<lambda>t. t_class t = Advancement \<and> t_status t = Done
                 \<and> t_successor_ids t = [] \<and> \<not> t_no_follow_up t) (g_todos g)"

definition has_passed_validation :: "goal \<Rightarrow> string \<Rightarrow> bool" where
  "has_passed_validation g tid \<longleftrightarrow>
     list_ex (\<lambda>r. r_todo_id r = tid
                  \<and> (case r_validation r of None \<Rightarrow> False | Some v \<Rightarrow> v_status v = Passed))
       (g_history g)"

definition is_delivery_verified :: "goal \<Rightarrow> string \<Rightarrow> bool" where
  "is_delivery_verified g tid \<longleftrightarrow>
     (case find_delivery g tid of None \<Rightarrow> False | Some d \<Rightarrow> d_outcome d = OUTCOME_VERIFIED)"

definition unvalidated_deliveries :: "goal \<Rightarrow> todo list" where
  "unvalidated_deliveries g =
     filter (\<lambda>t. t_class t = Advancement \<and> t_status t = Done \<and> t_validator t \<noteq> None
                 \<and> \<not> has_passed_validation g (t_id t) \<and> \<not> is_delivery_verified g (t_id t))
       (g_todos g)"

definition unsatisfied_gaps :: "goal \<Rightarrow> acceptance_gap list" where
  "unsatisfied_gaps g = filter (\<lambda>a. \<not> a_satisfied a) (g_acceptance g)"

definition satisfy_gap :: "string \<Rightarrow> goal \<Rightarrow> goal" where
  "satisfy_gap gid g =
     g\<lparr>g_acceptance :=
         update_first (\<lambda>a. a_id a = gid) (\<lambda>a. a\<lparr>a_satisfied := True\<rparr>) (g_acceptance g)\<rparr>"

definition supersede :: "string \<Rightarrow> goal \<Rightarrow> goal" where
  "supersede tid g = on_todo tid (\<lambda>t. t\<lparr>t_status := Superseded\<rparr>) g"

definition is_terminal :: "goal \<Rightarrow> bool" where
  "is_terminal g \<longleftrightarrow>
     list_all (\<lambda>t. t_status t = Done \<or> t_status t = Superseded) (g_todos g)
     \<and> unsatisfied_gaps g = []
     \<and> completed_without_closure_intent g = []
     \<and> unvalidated_deliveries g = []"

definition terminal_closure :: "goal \<Rightarrow> unit option" where
  "terminal_closure g = (if is_terminal g then Some () else None)"

section \<open>The todo summary projection\<close>

record todo_source_proof =
  sp_derived :: bool
  sp_item_count :: u32
  sp_schema_version :: string

record terminal_closure_proof =
  cp_all_todos_done :: bool
  cp_derived :: bool
  cp_no_followup_count :: u32
  cp_monitor_open_count :: u32
  cp_successor_gap_count :: u32
  cp_schema_version :: string

record todo_summary =
  ts_schema_version :: string
  ts_user_open :: usize
  ts_user_done :: usize
  ts_agent_open :: usize
  ts_agent_done :: usize
  ts_monitor_open :: usize
  ts_source_proof :: todo_source_proof
  ts_terminal_closure_proof :: terminal_closure_proof

definition todo_summary_at :: "goal \<Rightarrow> sys_time \<Rightarrow> todo_summary" where
  "todo_summary_at g now =
     (let count = (\<lambda>p. length (filter p (g_todos g)));
          monitor_open = count (\<lambda>t. t_class t = Monitor \<and> live_at now t)
      in \<lparr>ts_schema_version = ''todo_summary_v0'',
          ts_user_open = count (\<lambda>t. t_role t = User \<and> live_at now t),
          ts_user_done = count (\<lambda>t. t_role t = User \<and> t_status t = Done),
          ts_agent_open = count (\<lambda>t. t_role t = Agent \<and> live_at now t),
          ts_agent_done = count (\<lambda>t. t_role t = Agent \<and> t_status t = Done),
          ts_monitor_open = monitor_open,
          ts_source_proof =
            \<lparr>sp_derived = True, sp_item_count = length (g_todos g),
             sp_schema_version = ''todo_source_proof_v0''\<rparr>,
          ts_terminal_closure_proof =
            \<lparr>cp_all_todos_done =
               (if is_terminal g then True
                else list_all (\<lambda>t. t_status t = Done) (g_todos g)),
             cp_derived = True,
             cp_no_followup_count = count t_no_follow_up,
             cp_monitor_open_count = monitor_open,
             cp_successor_gap_count = length (completed_without_closure_intent g),
             cp_schema_version = ''todo_terminal_closure_proof_v0''\<rparr>\<rparr>)"

end
