(* ===== verification/Contract.thy ===== *)
theory Contract
  imports Goal_State
begin

text \<open>
  The typed decision protocol: the \<open>should-run\<close> packet of
  \<open>orchestration/goal/src/contract.rs\<close> and the machine-readable reason codes of
  \<open>orchestration/goal/src/quota/error_codes.rs\<close>.

  Field prefixes: \<open>uc_\<close> user channel, \<open>ac_\<close> agent channel, \<open>cc_\<close> CLI channel, \<open>ic_\<close>
  interaction contract, \<open>wl_\<close> work lane, \<open>p_\<close> the packet itself.
\<close>

section \<open>Turn modes and channels\<close>

datatype turn_mode = BoundedDelivery | AskUser | MonitorPoll | WaitMonitor | Replan | Terminal

fun turn_mode_str :: "turn_mode \<Rightarrow> string" where
  "turn_mode_str BoundedDelivery = ''bounded_delivery''"
| "turn_mode_str AskUser = ''ask_user''"
| "turn_mode_str MonitorPoll = ''monitor_poll''"
| "turn_mode_str WaitMonitor = ''wait_monitor''"
| "turn_mode_str Replan = ''replan''"
| "turn_mode_str Terminal = ''terminal''"

definition INTERACTION_CONTRACT_SCHEMA_VERSION :: string where
  "INTERACTION_CONTRACT_SCHEMA_VERSION = ''future_goal_interaction_contract_v0''"

record user_channel =
  uc_action_required :: bool
  uc_notify :: string
  uc_question :: "string option"
  uc_todo_ids :: "string list"

definition user_channel_none :: user_channel where
  "user_channel_none =
     \<lparr>uc_action_required = False, uc_notify = ''DONT_NOTIFY'', uc_question = None,
      uc_todo_ids = []\<rparr>"

record agent_channel =
  ac_must_attempt :: bool
  ac_delivery_allowed :: bool
  ac_quiet_noop_allowed :: bool
  ac_primary_action :: "string option"
  ac_selected_todo :: "string option"
  ac_fallback_todo :: "string option"

record cli_channel =
  cc_next_cli_actions :: "string list"
  cc_spend_allowed_now :: bool
  cc_spend_after_validation :: bool
  cc_spend_policy :: string

record interaction_contract =
  ic_schema_version :: string
  ic_mode :: turn_mode
  ic_user_channel :: user_channel
  ic_agent_channel :: agent_channel
  ic_cli_channel :: cli_channel

section \<open>The auxiliary contracts\<close>

record work_lane_contract =
  wl_schema_version :: string
  wl_lane :: string
  wl_obligation :: string
  wl_must_attempt_work :: bool
  wl_reason_codes :: "string list"

record execution_obligation =
  eo_must_attempt_work :: bool
  eo_kind :: string
  eo_reason :: string

record automation_liveness =
  al_keep_active :: bool
  al_pause_allowed :: bool
  al_action :: string
  al_reason :: string
  al_pause_policy :: string

record heartbeat_recommendation =
  hr_recommended_mode :: string
  hr_notify :: string
  hr_spend_policy :: string
  hr_reason :: string

record scheduler_hint =
  sh_schema_version :: string
  sh_action :: string
  sh_cadence_class :: string
  sh_next_due_ms :: "u64 option"

record quota_snapshot =
  qs_compute :: f64
  qs_allowed_slots :: u64
  qs_spent_slots :: u64
  qs_state :: string

record execution_profile_snapshot =
  es_cadence :: string
  es_spend_rule :: string
  es_outcome_floor_streak_threshold :: u32
  es_surface_streak :: u32

record replan_ack_snapshot =
  ra_recorded :: bool
  ra_delta_kinds :: "string list"
  ra_frontier_delta_present :: bool

record authority_snapshot =
  as_write_scope :: "string list"
  as_requires_approval :: "string list"
  as_pending_approvals :: "string list"

record boundary_snapshot_rec =
  bs_leaks :: "string list"
  bs_public_safe :: bool

record frontier_projection_rec =
  fp_replan_required :: bool
  fp_current_agent_advancement :: usize
  fp_unclaimed_advancement :: usize
  fp_acceptance_gaps :: usize
  fp_monitors_open :: usize
  fp_monitors_due :: usize

record terminal_closure_rec =
  tc_kind :: string
  tc_derived :: bool
  tc_source :: string

record rollout_event =
  re_schema_version :: string
  re_event_id :: string
  re_event_kind :: string
  re_recorded_at :: string
  re_status :: string

section \<open>Scheduler arbitration records\<close>

datatype scheduler_disposition =
    TerminalStop | AgentMonitorOnlyWait | ActiveWork | AgentScopeWait | ConsistencyRepair
  | HumanGate | MonitorWait | QuietWait | UnchangedWait

record scheduler_arbitration =
  sa_disposition :: scheduler_disposition
  sa_reason_code :: string
  sa_mode :: string
  sa_errors :: "string list"

section \<open>Reason codes\<close>

datatype decision_reason_code =
    GoalCancelled | IdentityNotRegistered | OpenUserGate | RunnableTodo | RepairAttempt
  | OutcomeFloorBreach | RepairBudgetExhausted | BlockedNoFallback | SuccessionClosureMissing
  | MonitorStalled | MonitorDue | MonitorBackoff | AcceptanceGapOpen | DeferredNotDue
  | WorkLeasedToOthers | ValidatedClosure | OscillationDetected

fun reason_code_str :: "decision_reason_code \<Rightarrow> string" where
  "reason_code_str GoalCancelled = ''goal_cancelled''"
| "reason_code_str IdentityNotRegistered = ''identity_not_registered''"
| "reason_code_str OpenUserGate = ''open_user_gate''"
| "reason_code_str RunnableTodo = ''runnable_todo''"
| "reason_code_str RepairAttempt = ''repair_attempt''"
| "reason_code_str OutcomeFloorBreach = ''outcome_floor_breach''"
| "reason_code_str RepairBudgetExhausted = ''repair_budget_exhausted''"
| "reason_code_str BlockedNoFallback = ''blocked_no_fallback''"
| "reason_code_str SuccessionClosureMissing = ''succession_closure_missing''"
| "reason_code_str MonitorStalled = ''monitor_stalled''"
| "reason_code_str MonitorDue = ''monitor_due''"
| "reason_code_str MonitorBackoff = ''monitor_backoff''"
| "reason_code_str AcceptanceGapOpen = ''acceptance_gap_open''"
| "reason_code_str DeferredNotDue = ''deferred_not_due''"
| "reason_code_str WorkLeasedToOthers = ''work_leased_to_others''"
| "reason_code_str ValidatedClosure = ''validated_closure''"
| "reason_code_str OscillationDetected = ''oscillation_detected''"

definition all_reason_codes :: "decision_reason_code list" where
  "all_reason_codes =
     [GoalCancelled, IdentityNotRegistered, OpenUserGate, RunnableTodo, RepairAttempt,
      OutcomeFloorBreach, RepairBudgetExhausted, BlockedNoFallback, SuccessionClosureMissing,
      MonitorStalled, MonitorDue, MonitorBackoff, AcceptanceGapOpen, DeferredNotDue,
      WorkLeasedToOthers, ValidatedClosure, OscillationDetected]"

text \<open>Serde reads a unit variant by its snake-case name, the same string \<open>as_str\<close> writes.\<close>

definition reason_code_parse :: "string \<Rightarrow> decision_reason_code option" where
  "reason_code_parse s = find (\<lambda>c. reason_code_str c = s) all_reason_codes"

datatype quota_error_code =
    QuotaStateInvalidJson | QuotaInvalidArguments | QuotaStatePermissionDenied
  | QuotaStateIoFailed | QuotaStateMissingField | QuotaStateShapeError
  | QuotaUnexpectedCollectionError

fun quota_error_str :: "quota_error_code \<Rightarrow> string" where
  "quota_error_str QuotaStateInvalidJson = ''quota_state_invalid_json''"
| "quota_error_str QuotaInvalidArguments = ''quota_invalid_arguments''"
| "quota_error_str QuotaStatePermissionDenied = ''quota_state_permission_denied''"
| "quota_error_str QuotaStateIoFailed = ''quota_state_io_failed''"
| "quota_error_str QuotaStateMissingField = ''quota_state_missing_field''"
| "quota_error_str QuotaStateShapeError = ''quota_state_shape_error''"
| "quota_error_str QuotaUnexpectedCollectionError = ''quota_unexpected_collection_error''"

text \<open>The kinds of \<open>std::io::ErrorKind\<close> the code tells apart.\<close>

datatype io_error_kind = NotFound | PermissionDenied | OtherIoError

fun quota_error_from_io :: "io_error_kind \<Rightarrow> quota_error_code" where
  "quota_error_from_io NotFound = QuotaStateMissingField"
| "quota_error_from_io PermissionDenied = QuotaStatePermissionDenied"
| "quota_error_from_io OtherIoError = QuotaStateIoFailed"

section \<open>The packet\<close>

record should_run_packet =
  p_ok :: bool
  p_mode :: string
  p_goal_id :: string
  p_decision :: string
  p_should_run :: bool
  p_effective_action :: string
  p_reason :: string
  p_reason_code :: string
  p_state :: string
  p_waiting_on :: string
  p_status :: string
  p_source :: string
  p_recommended_action :: string
  p_rollout_event :: "rollout_event option"
  p_status_health_ok :: bool
  p_normal_delivery_allowed :: bool
  p_recovery_delivery_allowed :: bool
  p_self_repair_allowed :: bool
  p_capability_repair_allowed :: bool
  p_workspace_repair_allowed :: bool
  p_actionable_by_codex :: bool
  p_requires_user_action :: bool
  p_action_required :: bool
  p_selected_todo :: "json option"
  p_open_count :: usize
  p_blocked_action_scope :: "string option"
  p_safe_bypass_allowed :: bool
  p_safe_bypass_kind :: "string option"
  p_safe_bypass_policy :: "string option"
  p_lifecycle_phase :: string
  p_lifecycle_flags :: "string list"
  p_project_asset_source :: "string option"
  p_active_state_next_action :: "string option"
  p_latest_run_recommended_action :: "string option"
  p_interaction_contract :: interaction_contract
  p_work_lane_contract :: work_lane_contract
  p_execution_obligation :: execution_obligation
  p_automation_liveness :: automation_liveness
  p_heartbeat_recommendation :: heartbeat_recommendation
  p_scheduler_hint :: scheduler_hint
  p_quota :: quota_snapshot
  p_execution_profile :: execution_profile_snapshot
  p_replan_ack :: replan_ack_snapshot
  p_authority :: authority_snapshot
  p_boundary :: boundary_snapshot_rec
  p_frontier_projection :: frontier_projection_rec
  p_agent_todo_summary :: "todo_summary option"
  p_user_todo_summary :: "todo_summary option"
  p_todo_summary_projection :: "json option"
  p_goal_boundary :: "json option"
  p_plan_summary :: "json option"
  p_todo_write_hint :: "string option"
  p_agent_identity :: "json option"
  p_agent_lane_frontier_hint :: "string option"
  p_agent_lane_next_action :: "string option"
  p_goal_route_hint :: "string option"
  p_task_scope :: "string option"
  p_handoff_readiness :: "json option"
  p_long_task_cadence_hint :: "json option"
  p_promotion_readiness_warning :: "string option"
  p_autonomous_backlog_candidates :: "json option"
  p_protocol_action_packet :: "json option"
  p_scheduler_arbitration :: "scheduler_arbitration option"
  p_terminal_closure :: "terminal_closure_rec option"
  p_decision_freshness :: "decision_freshness option"

section \<open>Wire names\<close>

text \<open>\<open>compat.rs\<close>: the reference names of classes and statuses.\<close>

fun future_goal_task_class :: "task_class \<Rightarrow> string" where
  "future_goal_task_class Advancement = ''advancement_task''"
| "future_goal_task_class UserGate = ''user_gate''"
| "future_goal_task_class UserAction = ''user_action''"
| "future_goal_task_class Monitor = ''continuous_monitor''"
| "future_goal_task_class Blocker = ''blocker''"
| "future_goal_task_class Coordination = ''coordination''"

fun future_goal_status :: "todo_status \<Rightarrow> string" where
  "future_goal_status Open = ''open''"
| "future_goal_status Done = ''done''"
| "future_goal_status Superseded = ''superseded''"
| "future_goal_status Deferred = ''deferred''"
| "future_goal_status Blocked = ''blocked''"

section \<open>Round trips\<close>

lemma all_reason_codes_complete: "c \<in> set all_reason_codes"
  by (cases c) (auto simp: all_reason_codes_def)

lemma reason_code_str_inject [simp]: "reason_code_str a = reason_code_str b \<longleftrightarrow> a = b"
  by (cases a; cases b) auto

end
