(* ===== verification/Slot_Accounting.thy ===== *)
theory Slot_Accounting
  imports Contract
begin

text \<open>
  Slot accounting, \<open>orchestration/goal/src/quota/slot_accounting.rs\<close>: which recorded runs
  consume a quota slot, and the split of a goal's spend by source.
\<close>

section \<open>Definitions\<close>

definition QUOTA_ALLOWED_SLOTS :: u64 where
  "QUOTA_ALLOWED_SLOTS = 1440"

datatype slot_spend_source = Run | Agent_Spend | Heartbeat

fun spend_source_str :: "slot_spend_source \<Rightarrow> string" where
  "spend_source_str Run = ''run''"
| "spend_source_str Agent_Spend = ''agent''"
| "spend_source_str Heartbeat = ''heartbeat''"

definition spend_source_parse :: "string \<Rightarrow> slot_spend_source option" where
  "spend_source_parse s =
     (if s = ''run'' then Some Run
      else if s = ''agent'' then Some Agent_Spend
      else if s = ''heartbeat'' then Some Heartbeat
      else None)"

fun classify_mode :: "turn_mode \<Rightarrow> slot_spend_source" where
  "classify_mode BoundedDelivery = Run"
| "classify_mode MonitorPoll = Heartbeat"
| "classify_mode AskUser = Heartbeat"
| "classify_mode WaitMonitor = Heartbeat"
| "classify_mode Replan = Heartbeat"
| "classify_mode Terminal = Heartbeat"

definition classify_record :: "run_record \<Rightarrow> slot_spend_source" where
  "classify_record r =
     (case Option.bind (r_spend_source r) spend_source_parse of
        Some source \<Rightarrow> source
      | None \<Rightarrow> (if r_terminal_state r = ''completed'' then Run else Heartbeat))"

definition slot_spend :: "run_record \<Rightarrow> u64" where
  "slot_spend r =
     (case classify_record r of Heartbeat \<Rightarrow> 0 | Run \<Rightarrow> 1 | Agent_Spend \<Rightarrow> 1)"

record spend_breakdown =
  sb_allowed_slots :: u64
  sb_spent_slots :: u64
  sb_by_source :: "(slot_spend_source \<times> u64) list"

definition source_count :: "spend_breakdown \<Rightarrow> slot_spend_source \<Rightarrow> u64" where
  "source_count b src =
     (case find (\<lambda>(s, _). s = src) (sb_by_source b) of None \<Rightarrow> 0 | Some (_, n) \<Rightarrow> n)"

text \<open>The loop body: the three counters \<open>run\<close>, \<open>agent\<close>, \<open>heartbeat\<close>.\<close>

definition account_step :: "u64 \<times> u64 \<times> u64 \<Rightarrow> run_record \<Rightarrow> u64 \<times> u64 \<times> u64" where
  "account_step acc r =
     (case acc of (run, agent, heartbeat) \<Rightarrow>
        (case classify_record r of
           Run \<Rightarrow> (run + slot_spend r, agent, heartbeat)
         | Agent_Spend \<Rightarrow> (run, agent + slot_spend r, heartbeat)
         | Heartbeat \<Rightarrow> (run, agent, heartbeat + slot_spend r)))"

definition account_history :: "run_record list \<Rightarrow> spend_breakdown" where
  "account_history history =
     (case foldl account_step (0, 0, 0) history of (run, agent, heartbeat) \<Rightarrow>
        \<lparr>sb_allowed_slots = QUOTA_ALLOWED_SLOTS,
         sb_spent_slots = run + agent + heartbeat,
         sb_by_source = [(Run, run), (Agent_Spend, agent), (Heartbeat, heartbeat)]\<rparr>)"

section \<open>What the accounting computes\<close>

lemma slot_spend_alt: "slot_spend r = (if classify_record r = Heartbeat then 0 else 1)"
  by (simp add: slot_spend_def split: slot_spend_source.split)

lemma spend_source_round_trip: "spend_source_parse (spend_source_str s) = Some s"
  by (cases s) (simp_all add: spend_source_parse_def)

definition count_source :: "slot_spend_source \<Rightarrow> run_record list \<Rightarrow> nat" where
  "count_source s h = length (filter (\<lambda>r. classify_record r = s) h)"

lemma count_source_append:
  "count_source s (xs @ ys) = count_source s xs + count_source s ys"
  by (simp add: count_source_def)

lemma foldl_account_step:
  "foldl account_step (0, 0, 0) h = (count_source Run h, count_source Agent_Spend h, 0)"
proof (induction h rule: rev_induct)
  case Nil
  then show ?case by (simp add: count_source_def)
next
  case (snoc r h)
  then show ?case
    by (cases "classify_record r")
       (simp_all add: account_step_def slot_spend_alt count_source_append count_source_def)
qed

lemma account_history_eq:
  "account_history h =
     \<lparr>sb_allowed_slots = QUOTA_ALLOWED_SLOTS,
      sb_spent_slots = count_source Run h + count_source Agent_Spend h,
      sb_by_source = [(Run, count_source Run h), (Agent_Spend, count_source Agent_Spend h),
                      (Heartbeat, 0)]\<rparr>"
  by (simp add: account_history_def foldl_account_step)

lemma spent_slots_sum: "sb_spent_slots (account_history h) = sum_list (map slot_spend h)"
proof (induction h)
  case Nil
  then show ?case by (simp add: account_history_eq count_source_def)
next
  case (Cons r h)
  then show ?case
    by (cases "classify_record r")
       (simp_all add: account_history_eq count_source_def slot_spend_alt)
qed

lemma spent_slots_bounded: "sb_spent_slots (account_history h) \<le> length h"
  unfolding spent_slots_sum by (induction h) (auto simp: slot_spend_alt)

lemma source_count_account:
  "source_count (account_history h) s = (if s = Heartbeat then 0 else count_source s h)"
  by (cases s) (simp_all add: source_count_def account_history_eq)

section \<open>Properties\<close>

text \<open>The accounted spend of a history is the sum of the slots its records spend, it is
  split without loss over the three sources, quota-neutral records never contribute, and it
  never exceeds the number of records.\<close>

theorem account_history_exact:
  "sb_spent_slots (account_history h) = sum_list (map slot_spend h)
   \<and> sb_spent_slots (account_history h)
       = source_count (account_history h) Run + source_count (account_history h) Agent_Spend
         + source_count (account_history h) Heartbeat
   \<and> source_count (account_history h) Heartbeat = 0
   \<and> sb_spent_slots (account_history h) \<le> length h"
  using spent_slots_sum [of h] spent_slots_bounded [of h]
  by (simp add: source_count_account) (simp add: account_history_eq)

end
