(* ===== verification/Signals.thy ===== *)
theory Signals
  imports Slot_Accounting
begin

text \<open>
  The signals of the decision kernel: the action/verify oscillation detector
  (\<open>decision/oscillation.rs\<close>), the stall predicates and the advisory texts
  (\<open>decision/stall.rs\<close>) and the monitor lane (\<open>decision/monitor.rs\<close>), all under
  \<open>orchestration/goal/src\<close>.
\<close>

section \<open>Oscillation\<close>

definition OSCILLATION_PATTERN_LEN :: usize where
  "OSCILLATION_PATTERN_LEN = 4"

datatype run_signature = Accepted | Rejected

fun signature_symbol :: "run_signature \<Rightarrow> string" where
  "signature_symbol Accepted = ''A''"
| "signature_symbol Rejected = ''V''"

record oscillation_report =
  or_alternating_len :: usize
  or_pattern :: string
  or_newest_recorded_at :: u64

definition signature_of :: "run_record \<Rightarrow> run_signature option" where
  "signature_of r =
     (if classify_record r = Heartbeat then None
      else if r_terminal_state r \<noteq> ''completed'' then None
      else Some (case r_validation r of
                   Some v \<Rightarrow> (if \<not> v_ok v then Rejected else Accepted)
                 | None \<Rightarrow> Accepted))"

text \<open>\<open>signatures.windows(2)\<close>, and the loop over them from the newest pair.\<close>

definition windows2 :: "'a list \<Rightarrow> ('a \<times> 'a) list" where
  "windows2 xs = zip xs (tl xs)"

fun alternation_loop :: "usize \<Rightarrow> ('a \<times> 'a) list \<Rightarrow> usize" where
  "alternation_loop n [] = n"
| "alternation_loop n ((a, b) # ps) = (if a = b then n else alternation_loop (n + 1) ps)"

definition alternating_suffix_len :: "'a list \<Rightarrow> usize" where
  "alternating_suffix_len sigs =
     alternation_loop (min (length sigs) 1) (rev (windows2 sigs))"

definition delivery_signatures :: "run_record list \<Rightarrow> u64 \<Rightarrow> (u64 \<times> run_signature) list" where
  "delivery_signatures history since =
     sort_key fst
       (List.map_filter (\<lambda>r. map_option (\<lambda>s. (r_recorded_at r, s)) (signature_of r))
          (filter (\<lambda>r. r_recorded_at r > since) history))"

definition detect :: "run_record list \<Rightarrow> u64 \<Rightarrow> oscillation_report option" where
  "detect history since =
     (let signatures = delivery_signatures history since;
          len = alternating_suffix_len (map snd signatures)
      in if len < OSCILLATION_PATTERN_LEN then None
         else (let suffix = drop (length signatures - len) signatures
               in Some \<lparr>or_alternating_len = len,
                        or_pattern = join right_arrow (map (signature_symbol \<circ> snd) suffix),
                        or_newest_recorded_at =
                          (if suffix = [] then 0 else fst (last suffix))\<rparr>))"

definition oscillation_replan_reason :: "goal \<Rightarrow> string option" where
  "oscillation_replan_reason g =
     (let since = (case g_replan_ack g of None \<Rightarrow> 0 | Some a \<Rightarrow> k_at a) in
      map_option (\<lambda>report.
          ''oscillation detected: delivery outcomes flip-flop '' @ or_pattern report
          @ '' ('' @ dec (or_alternating_len report) @ '' consecutive alternating turns) ''
          @ em_dash
          @ '' record a frontier-changing replan delta to break the action/verify loop'')
        (detect (g_history g) since))"

section \<open>Stalls and advisories\<close>

definition MONITOR_NO_CHANGE_REPLAN_THRESHOLD :: u32 where
  "MONITOR_NO_CHANGE_REPLAN_THRESHOLD = 3"

definition MAX_REPAIR_ATTEMPTS :: u32 where
  "MAX_REPAIR_ATTEMPTS = 1"

definition LLM_ZOMBIE_TURN_THRESHOLD :: u32 where
  "LLM_ZOMBIE_TURN_THRESHOLD = 2"

definition is_monitor_stalled :: "todo \<Rightarrow> bool" where
  "is_monitor_stalled m \<longleftrightarrow> t_consecutive_no_change m \<ge> MONITOR_NO_CHANGE_REPLAN_THRESHOLD"

definition outcome_floor_breach :: "goal \<Rightarrow> string option" where
  "outcome_floor_breach g =
     (let threshold = x_outcome_floor_streak_threshold (g_execution_profile g) in
      if threshold > 0 \<and> g_outcome_streak g \<ge> threshold
      then Some (''outcome floor: '' @ dec (g_outcome_streak g)
                 @ '' consecutive turns without a material outcome (threshold ''
                 @ dec threshold @ '')'')
      else None)"

definition no_progress_turns :: "goal \<Rightarrow> todo \<Rightarrow> u32" where
  "no_progress_turns g t =
     length (filter (\<lambda>np. np_todo_id np = t_id t) (g_turn_no_progress g)) mod 2 ^ 32"

definition todo_signals :: "goal \<Rightarrow> todo \<Rightarrow> string list" where
  "todo_signals g t =
     (case outcome_floor_breach g of
        None \<Rightarrow> []
      | Some s \<Rightarrow> [''[signal: '' @ s @ '' '' @ em_dash
                   @ '' consider changing strategy or superseding a stale todo]''])
     @ (case oscillation_replan_reason g of
          None \<Rightarrow> []
        | Some s \<Rightarrow> [''[signal: '' @ s @ '' '' @ em_dash
                     @ '' inspect artifacts and split work if useful; do not weaken acceptance criteria to obtain a pass]''])
     @ (if t_failed_attempts t > 0
        then [''[signal: todo '' @ t_id t @ '' has '' @ dec (t_failed_attempts t)
              @ '' failed attempt(s) '' @ em_dash
              @ '' consider superseding or asking the operator]'']
        else [])
     @ (if no_progress_turns g t \<ge> LLM_ZOMBIE_TURN_THRESHOLD
        then [''[signal: '' @ dec (no_progress_turns g t)
              @ '' turns with no write-class tool (write/edit) '' @ em_dash
              @ '' activity is not progress; shell/read-only research may be productive. Inspect evidence, validation and reported milestones before deciding whether to restart]'']
        else [])"

text \<open>\<open>repair_exhausted\<close> reads the clock through \<open>open_of\<close>.\<close>

definition repair_exhausted :: "goal \<Rightarrow> sys_time \<Rightarrow> bool" where
  "repair_exhausted g now \<longleftrightarrow>
     list_ex (\<lambda>t. t_failed_attempts t > MAX_REPAIR_ATTEMPTS) (open_of_at g Advancement now)"

definition repair_exhausted_reason :: "goal \<Rightarrow> sys_time \<Rightarrow> string option" where
  "repair_exhausted_reason g now =
     (let exhausted = filter (\<lambda>t. t_failed_attempts t > MAX_REPAIR_ATTEMPTS)
                        (open_of_at g Advancement now)
      in if exhausted = [] then None
         else Some (''advancement todo(s) exhausted repair budget: ''
           @ join ''; ''
               (map (\<lambda>t. t_id t
                    @ (case t_validator t of
                         Some v \<Rightarrow> '' (--verify `'' @ v @ ''` failed ''
                                   @ dec (t_failed_attempts t) @ '')''
                       | None \<Rightarrow> '' (no --verify; '' @ dec (t_failed_attempts t)
                                 @ '' failed attempts)'')) exhausted
                @ [''check (a) is the --verify gate tautological/always-false (e.g. `test -n \"\"` from an empty $() expansion), or (b) does it assert a file only present at grading time (data injected into /app/data)? Fix the gate or supersede the todo '' @ em_dash @ '' don''
                   @ [CHR 0x27] @ ''t relaunch the same turn''])))"

section \<open>Monitors\<close>

definition MONITOR_NO_CHANGE_BACKOFF_SECS :: u64 where
  "MONITOR_NO_CHANGE_BACKOFF_SECS = 12"

definition monitor_poll_classification :: "bool \<Rightarrow> u32 \<Rightarrow> string \<times> u32" where
  "monitor_poll_classification changed consecutive_no_change =
     (if changed then (''changed'', 0) else (''no_change'', consecutive_no_change + 1))"

datatype monitor_outcome =
    Stalled todo
  | Due "todo list"
  | Waiting "u64 option"
  | NoMonitors

definition monitor_due :: "sys_time \<Rightarrow> todo \<Rightarrow> bool" where
  "monitor_due now m \<longleftrightarrow> (case t_resume_when m of None \<Rightarrow> False | Some d \<Rightarrow> d \<le> now)"

text \<open>\<open>d.duration_since(now).ok()\<close> in whole milliseconds, cast to 64 bits.\<close>

definition millis_until :: "sys_time \<Rightarrow> sys_time \<Rightarrow> u64 option" where
  "millis_until now d =
     (if d < now then None else Some (nat ((d - now) div 1000000) mod 2 ^ 64))"

definition eval_monitors :: "goal \<Rightarrow> sys_time \<Rightarrow> monitor_outcome" where
  "eval_monitors g now =
     (let monitors = open_monitors_at g now;
          due = filter (monitor_due now) monitors
      in case find is_monitor_stalled monitors of
           Some stalled \<Rightarrow> Stalled stalled
         | None \<Rightarrow>
             (if due \<noteq> [] then Due due
              else if monitors \<noteq> []
              then Waiting (let times = List.map_filter t_resume_when monitors in
                            if times = [] then None
                            else millis_until now (Min (set times)))
              else NoMonitors))"

section \<open>The detector finds exactly the alternating tails\<close>

lemma windows2_snoc:
  "windows2 (xs @ [x, y]) = windows2 (xs @ [x]) @ [(x, y)]"
  by (induction xs rule: induct_list012) (auto simp: windows2_def)

lemma alternation_loop_add: "alternation_loop (n + k) ps = alternation_loop n ps + k"
  by (induction n ps rule: alternation_loop.induct) auto

lemma alternating_suffix_len_Nil [simp]: "alternating_suffix_len [] = 0"
  by (simp add: alternating_suffix_len_def windows2_def)

lemma alternating_suffix_len_single [simp]: "alternating_suffix_len [x] = 1"
  by (simp add: alternating_suffix_len_def windows2_def)

lemma alternating_suffix_len_snoc2:
  "alternating_suffix_len (xs @ [x, y]) =
     (if x = y then 1 else Suc (alternating_suffix_len (xs @ [x])))"
  using alternation_loop_add [of 1 1 "rev (windows2 (xs @ [x]))"]
  by (simp add: alternating_suffix_len_def windows2_snoc min_def)

lemma snoc2_induct [case_names Nil single snoc2]:
  assumes "P []" "\<And>x. P [x]" "\<And>xs x y. P (xs @ [x]) \<Longrightarrow> P (xs @ [x, y])"
  shows "P xs"
proof (induction xs rule: rev_induct)
  case Nil
  show ?case by (rule assms(1))
next
  case (snoc y ys)
  show ?case
  proof (cases ys rule: rev_cases)
    case Nil
    with assms(2) show ?thesis by simp
  next
    case (snoc zs z)
    with \<open>P ys\<close> assms(3) [of zs z y] show ?thesis by simp
  qed
qed

lemma alternating_suffix_len_bound: "alternating_suffix_len xs \<le> length xs"
  by (induction xs rule: snoc2_induct) (auto simp: alternating_suffix_len_snoc2)

lemma keep_last_snoc: "keep_last (Suc n) (xs @ [x]) = keep_last n xs @ [x]"
  by (simp add: keep_last_def Suc_diff_le)

lemma alternating_suffix_len_pos: "xs \<noteq> [] \<Longrightarrow> 0 < alternating_suffix_len xs"
  by (induction xs rule: snoc2_induct) (auto simp: alternating_suffix_len_snoc2)

lemma successively_keep_last_iff:
  "successively (\<noteq>) (keep_last n xs) \<longleftrightarrow> n \<le> alternating_suffix_len xs \<or> length xs \<le> alternating_suffix_len xs"
proof (induction xs arbitrary: n rule: snoc2_induct)
  case Nil
  then show ?case by (simp add: keep_last_def)
next
  case (single x)
  then show ?case by (cases n) (auto simp: keep_last_def)
next
  case (snoc2 xs x y)
  show ?case
  proof (cases n)
    case 0
    then show ?thesis by (simp add: keep_last_def)
  next
    case (Suc m)
    have split: "keep_last n (xs @ [x, y]) = keep_last m (xs @ [x]) @ [y]"
      using keep_last_snoc [of m "xs @ [x]" y] Suc by simp
    show ?thesis
    proof (cases m)
      case 0
      then show ?thesis
        using Suc by (simp add: split keep_last_def alternating_suffix_len_snoc2 Suc_le_eq)
    next
      case (Suc k)
      then have eq: "keep_last m (xs @ [x]) = keep_last k xs @ [x]"
        by (simp add: keep_last_snoc)
      have "successively (\<noteq>) (keep_last n (xs @ [x, y]))
              \<longleftrightarrow> successively (\<noteq>) (keep_last m (xs @ [x])) \<and> x \<noteq> y"
        unfolding split eq
        using successively_append_iff [of "(\<noteq>)" "keep_last k xs @ [x]" "[y]"] by simp
      then show ?thesis
        using snoc2.IH [of m] \<open>n = Suc m\<close> Suc alternating_suffix_len_bound [of "xs @ [x]"]
        by (auto simp: alternating_suffix_len_snoc2)
    qed
  qed
qed

lemma le_alternating_suffix_len_iff:
  "n \<le> alternating_suffix_len xs \<longleftrightarrow> n \<le> length xs \<and> successively (\<noteq>) (keep_last n xs)"
  using successively_keep_last_iff [of n xs] alternating_suffix_len_bound [of xs] by auto

text \<open>The detector fires exactly when the newest four verdicts alternate, and it reports the
  longest alternating tail.\<close>

definition verdicts :: "run_record list \<Rightarrow> u64 \<Rightarrow> run_signature list" where
  "verdicts h since = map snd (delivery_signatures h since)"

lemma detect_iff:
  "detect h since \<noteq> None \<longleftrightarrow>
     4 \<le> length (verdicts h since) \<and> successively (\<noteq>) (keep_last 4 (verdicts h since))"
  using le_alternating_suffix_len_iff [of 4 "verdicts h since"]
  by (auto simp: detect_def Let_def OSCILLATION_PATTERN_LEN_def verdicts_def not_le [symmetric])

lemma detect_len:
  "detect h since = Some r \<Longrightarrow>
     or_alternating_len r = alternating_suffix_len (verdicts h since)"
  by (auto simp: detect_def Let_def verdicts_def split: if_splits)

lemma sorted_delivery_signatures: "sorted (map fst (delivery_signatures h since))"
  by (simp add: delivery_signatures_def)

lemma delivery_signatures_after: "p \<in> set (delivery_signatures h since) \<Longrightarrow> since < fst p"
  by (auto simp: delivery_signatures_def List.map_filter_def)

lemma signature_of_heartbeat: "classify_record r = Heartbeat \<Longrightarrow> signature_of r = None"
  by (simp add: signature_of_def)

lemma verdicts_drop_neutral:
  "verdicts (filter (\<lambda>r. classify_record r \<noteq> Heartbeat) h) since = verdicts h since"
proof -
  have "List.map_filter (\<lambda>r. map_option (\<lambda>s. (r_recorded_at r, s)) (signature_of r))
          (filter (\<lambda>r. r_recorded_at r > since) (filter (\<lambda>r. classify_record r \<noteq> Heartbeat) h))
        = List.map_filter (\<lambda>r. map_option (\<lambda>s. (r_recorded_at r, s)) (signature_of r))
          (filter (\<lambda>r. r_recorded_at r > since) h)"
    by (induction h) (auto simp: List.map_filter_simps signature_of_heartbeat split: option.split)
  then show ?thesis by (simp add: verdicts_def delivery_signatures_def)
qed

section \<open>Monitor outcomes\<close>

lemma eval_monitors_None_iff: "eval_monitors g now = NoMonitors \<longleftrightarrow> open_monitors_at g now = []"
  by (auto simp: eval_monitors_def Let_def split: option.splits)

lemma eval_monitors_Due:
  assumes "eval_monitors g now = Due due"
  shows "due \<noteq> []" "set due = {m \<in> set (open_monitors_at g now). monitor_due now m}"
  using assms by (auto simp: eval_monitors_def Let_def split: option.splits if_splits)

lemma eval_monitors_Stalled:
  "eval_monitors g now = Stalled m \<Longrightarrow>
     m \<in> set (open_monitors_at g now) \<and> is_monitor_stalled m"
  by (auto simp: eval_monitors_def Let_def dest: find_SomeD split: option.splits if_splits)

section \<open>Properties\<close>

text \<open>the oscillation detector fires exactly when at least four delivery verdicts were
  recorded after the last replan acknowledgement and the newest four, in chronological
  order, strictly alternate.\<close>

theorem oscillation_detected_iff:
  "detect h since \<noteq> None \<longleftrightarrow>
     4 \<le> length (verdicts h since) \<and> successively (\<noteq>) (keep_last 4 (verdicts h since))"
  by (rule detect_iff)

text \<open>A report carries the longest alternating tail: its length is at least four, the tail
  of that length alternates, and no longer tail does.\<close>

theorem oscillation_report_maximal:
  assumes "detect h since = Some r"
  shows "4 \<le> or_alternating_len r \<and> or_alternating_len r \<le> length (verdicts h since)
    \<and> (\<forall>n \<le> length (verdicts h since).
         successively (\<noteq>) (keep_last n (verdicts h since)) \<longleftrightarrow> n \<le> or_alternating_len r)"
proof -
  have r: "or_alternating_len r = alternating_suffix_len (verdicts h since)"
    by (rule detect_len [OF assms])
  then have "4 \<le> alternating_suffix_len (verdicts h since)"
    using assms detect_iff [of h since]
    by (simp add: le_alternating_suffix_len_iff)
  then show ?thesis
    unfolding r using alternating_suffix_len_bound le_alternating_suffix_len_iff by blast
qed

text \<open>Quota-neutral records (monitor polls, heartbeats, crashed turns without a source)
  neither fabricate nor break an alternation: dropping them changes no detection.\<close>

theorem oscillation_ignores_neutral_records:
  "detect (filter (\<lambda>r. classify_record r \<noteq> Heartbeat) h) since = None \<longleftrightarrow>
   detect h since = None"
  using detect_iff [of h since] verdicts_drop_neutral [of h since]
    detect_iff [of "filter (\<lambda>r. classify_record r \<noteq> Heartbeat) h" since]
  by auto

definition demo_run :: "u64 \<Rightarrow> bool \<Rightarrow> run_record" where
  "demo_run ts accepted =
     \<lparr>r_agent_id = None, r_turn = ts, r_todo_id = ''T1'', r_run_id = ''run'',
      r_validation = Some (task_validation_receipt (if accepted then Passed else Failed)
                             ''v'' ''s'' None None),
      r_terminal_state = ''completed'', r_error = None, r_tokens_in_delta = 0,
      r_tokens_out_delta = 0, r_cost_delta = 0, r_tools = [], r_evidence = [],
      r_recorded_at = ts, r_spend_source = Some ''run'', r_failure_kind = None,
      r_truncation = None\<rparr>"

definition demo_flip_flop :: "run_record list" where
  "demo_flip_flop =
     [demo_run 1 True, demo_run 3 False, demo_run 2 True, demo_run 4 True, demo_run 5 False,
      demo_run 6 True]"

lemma oscillation_report_maximal_witness:
  "\<exists>r. detect demo_flip_flop 0 = Some r \<and> 4 \<le> or_alternating_len r"
proof -
  have "detect demo_flip_flop 0 \<noteq> None"
    unfolding detect_iff verdicts_def demo_flip_flop_def demo_run_def by code_simp
  then show ?thesis using oscillation_report_maximal [of demo_flip_flop 0] by blast
qed

end
