(* ===== verification/Frontier.thy ===== *)
theory Frontier
  imports Signals
begin

text \<open>
  The runnable frontier: the priority-sorted advancement lane and the frontier projection
  (\<open>decision/frontier.rs\<close>), and the identity-scoped view of one agent session
  (\<open>agents/scope.rs\<close>), under \<open>orchestration/goal/src\<close>.
\<close>

section \<open>The sorted frontier\<close>

text \<open>\<open>Vec::sort_by_key\<close> is stable, as \<^const>\<open>sort_key\<close> is.\<close>

definition sorted_runnable_at :: "goal \<Rightarrow> string option \<Rightarrow> sys_time \<Rightarrow> todo list" where
  "sorted_runnable_at g agent now =
     sort_key t_priority (runnable_advancement_for_at g agent now)"

definition lane_at :: "goal \<Rightarrow> sys_time \<Rightarrow> string" where
  "lane_at g now =
     (if open_of_at g Monitor now \<noteq> [] then ''monitor'' else ''advancement_task'')"

definition frontier_projection_at :: "goal \<Rightarrow> bool \<Rightarrow> sys_time \<Rightarrow> frontier_projection_rec" where
  "frontier_projection_at g replan_required now =
     (case pending_advancement_owner_aware_at g now of (claimable, owner_scoped) \<Rightarrow>
        \<lparr>fp_replan_required = replan_required,
         fp_current_agent_advancement =
           length (filter (\<lambda>t. t_failed_attempts t > 0)
                     (runnable_advancement_for_at g None now)),
         fp_unclaimed_advancement = length claimable + length owner_scoped,
         fp_acceptance_gaps = length (unsatisfied_gaps g),
         fp_monitors_open = length (open_monitors_at g now),
         fp_monitors_due = length (filter (monitor_due now) (open_monitors_at g now))\<rparr>)"

section \<open>The identity-scoped frontier\<close>

record agent_scope_boundary =
  sbd_policy :: string
  sbd_visible_count :: usize
  sbd_other_agent_claimed_count :: usize
  sbd_excluded_agents :: "string list"

record agent_scope_projection =
  sc_schema_version :: string
  sc_agent_id :: string
  sc_task_scope :: string
  sc_visible_agent_todo_ids :: "string list"
  sc_claimed_todo_ids :: "string list"
  sc_other_agent_claimed_ids :: "string list"
  sc_open_user_gate_ids :: "string list"
  sc_other_agent_bound_user_action_ids :: "string list"
  sc_unclaimed_advancement_count :: usize
  sc_boundary :: agent_scope_boundary

definition scope_contains :: "agent_scope_projection \<Rightarrow> string \<Rightarrow> bool" where
  "scope_contains p tid \<longleftrightarrow>
     list_ex (\<lambda>i. i = tid) (sc_visible_agent_todo_ids p)
     \<or> list_ex (\<lambda>i. i = tid) (sc_open_user_gate_ids p)"

definition is_agent_work :: "todo \<Rightarrow> bool" where
  "is_agent_work t \<longleftrightarrow> t_class t \<in> set [Advancement, Monitor, Blocker]"

definition is_frontier_active :: "todo \<Rightarrow> bool" where
  "is_frontier_active t \<longleftrightarrow>
     (case t_status t of Open \<Rightarrow> True | Deferred \<Rightarrow> True | Blocked \<Rightarrow> True | _ \<Rightarrow> False)"

text \<open>The accumulators of the loop, in the order the code declares them.\<close>

record scope_acc =
  xa_visible :: "string list"
  xa_claimed :: "string list"
  xa_other :: "string list"
  xa_gates :: "string list"
  xa_other_actions :: "string list"
  xa_unclaimed :: usize

definition scope_step ::
  "string \<Rightarrow> string list \<Rightarrow> scope_acc \<Rightarrow> todo \<Rightarrow> scope_acc" where
  "scope_step agent excluded a t =
     (if list_ex (\<lambda>e. e = agent) excluded then a
      else if t_role t = User then
        (case t_class t of
           UserGate \<Rightarrow>
             (if t_status t = Open then a\<lparr>xa_gates := xa_gates a @ [t_id t]\<rparr> else a)
         | UserAction \<Rightarrow>
             (case t_claimed_by t of
                Some owner \<Rightarrow>
                  (if owner \<noteq> agent \<and> t_status t = Open
                   then a\<lparr>xa_other_actions := xa_other_actions a @ [t_id t]\<rparr> else a)
              | None \<Rightarrow> a)
         | _ \<Rightarrow> a)
      else if \<not> is_agent_work t \<or> \<not> is_frontier_active t then a
      else if (case t_owner t of Some w \<Rightarrow> w \<noteq> agent | None \<Rightarrow> False)
      then a\<lparr>xa_other := xa_other a @ [t_id t]\<rparr>
      else (case t_claimed_by t of
              None \<Rightarrow>
                a\<lparr>xa_visible := xa_visible a @ [t_id t],
                  xa_unclaimed :=
                    (if t_class t = Advancement then xa_unclaimed a + 1 else xa_unclaimed a)\<rparr>
            | Some owner \<Rightarrow>
                (if owner = agent
                 then a\<lparr>xa_visible := xa_visible a @ [t_id t],
                        xa_claimed := xa_claimed a @ [t_id t]\<rparr>
                 else a\<lparr>xa_other := xa_other a @ [t_id t]\<rparr>)))"

definition scope_loop :: "goal \<Rightarrow> string \<Rightarrow> string list \<Rightarrow> scope_acc" where
  "scope_loop g agent excluded =
     foldl (scope_step agent excluded)
       \<lparr>xa_visible = [], xa_claimed = [], xa_other = [], xa_gates = [],
        xa_other_actions = [], xa_unclaimed = 0\<rparr> (g_todos g)"

definition identity_scoped_frontier ::
  "goal \<Rightarrow> string \<Rightarrow> string list \<Rightarrow> agent_scope_projection" where
  "identity_scoped_frontier g agent excluded =
     (let a = scope_loop g agent excluded in
      \<lparr>sc_schema_version = ''agent_scope_frontier_v0'',
       sc_agent_id = agent,
       sc_task_scope = ''goal_all_read_claimed_run_global_read_v0'',
       sc_visible_agent_todo_ids = xa_visible a,
       sc_claimed_todo_ids = xa_claimed a,
       sc_other_agent_claimed_ids = xa_other a,
       sc_open_user_gate_ids = xa_gates a,
       sc_other_agent_bound_user_action_ids = xa_other_actions a,
       sc_unclaimed_advancement_count = xa_unclaimed a,
       sc_boundary =
         \<lparr>sbd_policy =
            ''identity-scoped: unclaimed + own claims; other agents'' @ [CHR 0x27]
            @ '' claims are never visible'',
          sbd_visible_count = length (xa_visible a),
          sbd_other_agent_claimed_count = length (xa_other a),
          sbd_excluded_agents = excluded\<rparr>\<rparr>)"

definition todo_matches_agent :: "todo \<Rightarrow> string \<Rightarrow> bool" where
  "todo_matches_agent t agent \<longleftrightarrow>
     (case t_claimed_by t of None \<Rightarrow> True | Some owner \<Rightarrow> owner = agent)"

section \<open>What is runnable, and what is selected\<close>

lemma runnableD:
  assumes "t \<in> set (runnable_advancement_for_at g agent now)"
  shows "t \<in> set (g_todos g)" "t_class t = Advancement" "live_at now t"
    "\<not> claimed_by_other agent (secs_of now) t" "t_owner t = None \<or> t_owner t = agent"
    "\<not> is_blocked_at g t now"
  using assms by (auto simp: runnable_advancement_for_at_def)

lemma set_sorted_runnable [simp]:
  "set (sorted_runnable_at g agent now) = set (runnable_advancement_for_at g agent now)"
  by (simp add: sorted_runnable_at_def)

lemma sorted_runnable_Nil_iff:
  "sorted_runnable_at g agent now = [] \<longleftrightarrow> runnable_advancement_for_at g agent now = []"
  by (metis set_empty set_sorted_runnable)

lemma hd_sort_key_min:
  assumes "sort_key f xs = y # ys"
  shows "\<forall>x \<in> set xs. f y \<le> f x"
proof -
  have "sorted (map f (y # ys))" using assms sorted_sort_key [of f xs] by simp
  moreover have "set xs = set (y # ys)" using assms set_sort [of f xs] by simp
  ultimately show ?thesis by auto
qed

text \<open>Stability: among the elements of its own key, the head of the sorted list comes first
  in the original list.\<close>

lemma hd_sort_key_first:
  assumes "sort_key f xs = y # ys"
  shows "find (\<lambda>x. f x = f y) xs = Some y"
proof -
  have "filter (\<lambda>x. f x = f y) xs = filter (\<lambda>x. f x = f y) (sort_key f xs)"
    using sort_key_stable [of f "f y" xs] by metis
  also have "\<dots> = y # filter (\<lambda>x. f x = f y) ys" using assms by simp
  finally have *: "filter (\<lambda>x. f x = f y) xs = y # filter (\<lambda>x. f x = f y) ys" .
  have "find (\<lambda>x. f x = f y) xs = (case filter (\<lambda>x. f x = f y) xs of [] \<Rightarrow> None | z # _ \<Rightarrow> Some z)"
    by (induction xs) auto
  with * show ?thesis by simp
qed

section \<open>Scoped frontiers of two agents\<close>

text \<open>The todo that an agent's view puts inside (visible) or outside (another agent's).\<close>

definition scope_candidate :: "todo \<Rightarrow> bool" where
  "scope_candidate t \<longleftrightarrow> t_role t \<noteq> User \<and> is_agent_work t \<and> is_frontier_active t"

definition scope_visible :: "string \<Rightarrow> todo \<Rightarrow> bool" where
  "scope_visible agent t \<longleftrightarrow>
     scope_candidate t \<and> (t_owner t = None \<or> t_owner t = Some agent)
     \<and> (t_claimed_by t = None \<or> t_claimed_by t = Some agent)"

lemma scope_step_excluded: "agent \<in> set excluded \<Longrightarrow> scope_step agent excluded a t = a"
  by (auto simp: scope_step_def list_ex_iff)

lemma foldl_scope_excluded:
  "agent \<in> set excluded \<Longrightarrow> foldl (scope_step agent excluded) a ts = a"
  by (induction ts arbitrary: a) (simp_all add: scope_step_excluded)

lemma scope_step_visible:
  "agent \<notin> set excluded \<Longrightarrow>
     xa_visible (scope_step agent excluded a t)
       = xa_visible a @ (if scope_visible agent t then [t_id t] else [])"
  by (auto simp: scope_step_def list_ex_iff scope_visible_def scope_candidate_def
           split: task_class.splits option.splits)

lemma scope_step_other:
  "agent \<notin> set excluded \<Longrightarrow>
     xa_other (scope_step agent excluded a t)
       = xa_other a @ (if scope_candidate t \<and> \<not> scope_visible agent t then [t_id t] else [])"
  by (auto simp: scope_step_def list_ex_iff scope_visible_def scope_candidate_def
           split: task_class.splits option.splits)

lemma scope_step_claimed:
  "agent \<notin> set excluded \<Longrightarrow>
     xa_claimed (scope_step agent excluded a t)
       = xa_claimed a
         @ (if scope_visible agent t \<and> t_claimed_by t = Some agent then [t_id t] else [])"
  by (auto simp: scope_step_def list_ex_iff scope_visible_def scope_candidate_def
           split: task_class.splits option.splits)

lemma scope_step_unclaimed:
  "agent \<notin> set excluded \<Longrightarrow>
     xa_unclaimed (scope_step agent excluded a t)
       = xa_unclaimed a
         + (if scope_visible agent t \<and> t_claimed_by t = None \<and> t_class t = Advancement
            then 1 else 0)"
  by (auto simp: scope_step_def list_ex_iff scope_visible_def scope_candidate_def
           split: task_class.splits option.splits)

lemma scope_loop_lists:
  assumes "agent \<notin> set excluded"
  shows "xa_visible (scope_loop g agent excluded)
           = map t_id (filter (scope_visible agent) (g_todos g))"
    and "xa_other (scope_loop g agent excluded)
           = map t_id (filter (\<lambda>t. scope_candidate t \<and> \<not> scope_visible agent t) (g_todos g))"
    and "xa_claimed (scope_loop g agent excluded)
           = map t_id (filter (\<lambda>t. scope_visible agent t \<and> t_claimed_by t = Some agent)
               (g_todos g))"
    and "xa_unclaimed (scope_loop g agent excluded)
           = length (filter (\<lambda>t. scope_visible agent t \<and> t_claimed_by t = None
                                  \<and> t_class t = Advancement) (g_todos g))"
  unfolding scope_loop_def
  by (simp_all
        add: foldl_collect [of xa_visible, OF scope_step_visible [OF assms]]
             foldl_collect [of xa_other, OF scope_step_other [OF assms]]
             foldl_collect [of xa_claimed, OF scope_step_claimed [OF assms]]
             foldl_count [of xa_unclaimed, OF scope_step_unclaimed [OF assms]])

section \<open>Properties\<close>

text \<open>Equal peers never see each other's claims: for two different, non-excluded agents, a
  todo claimed by the one is in its own claimed list and never in the visible list of the
  other, provided todo ids are unique.\<close>

theorem scoped_claims_disjoint:
  assumes "distinct (map t_id (g_todos g))" "a \<noteq> b" "a \<notin> set ex" "b \<notin> set ex'"
  shows "set (sc_claimed_todo_ids (identity_scoped_frontier g a ex))
           \<inter> set (sc_visible_agent_todo_ids (identity_scoped_frontier g b ex')) = {}"
proof -
  have "t_id t \<noteq> t_id u" if "t \<in> set (g_todos g)" "u \<in> set (g_todos g)"
    "t_claimed_by t = Some a" "scope_visible b u" for t u
  proof
    assume "t_id t = t_id u"
    with that assms(1) have "t = u" by (auto simp: distinct_map dest: inj_onD)
    with that assms(2) show False by (auto simp: scope_visible_def)
  qed
  then show ?thesis
    by (auto simp: identity_scoped_frontier_def Let_def scope_loop_lists assms(3,4))
qed

text \<open>the scoped view of an agent is a partition: every agent work item on the frontier
  (advancement, monitor or blocker that is open, deferred or blocked) is either visible to
  the agent or counted as another agent's, never both, and nothing else is; an excluded
  agent sees nothing.\<close>

theorem scoped_frontier_partition:
  assumes "distinct (map t_id (g_todos g))"
  shows "(if a \<in> set ex
          then sc_visible_agent_todo_ids (identity_scoped_frontier g a ex) = []
               \<and> sc_open_user_gate_ids (identity_scoped_frontier g a ex) = []
          else set (sc_visible_agent_todo_ids (identity_scoped_frontier g a ex))
                 \<union> set (sc_other_agent_claimed_ids (identity_scoped_frontier g a ex))
                 = t_id ` {t \<in> set (g_todos g). scope_candidate t}
               \<and> set (sc_visible_agent_todo_ids (identity_scoped_frontier g a ex))
                   \<inter> set (sc_other_agent_claimed_ids (identity_scoped_frontier g a ex)) = {})"
proof (cases "a \<in> set ex")
  case True
  then show ?thesis
    by (simp add: identity_scoped_frontier_def Let_def scope_loop_def foldl_scope_excluded)
next
  case False
  have inj: "inj_on t_id (set (g_todos g))" using assms by (simp add: distinct_map)
  have "scope_candidate t" if "scope_visible a t" for t
    using that by (simp add: scope_visible_def)
  with False inj show ?thesis
    by (auto simp: identity_scoped_frontier_def Let_def scope_loop_lists dest: inj_onD)
qed

definition demo_scope_goal :: goal where
  "demo_scope_goal =
     goal_add ((advancement 0 ''T3'' ''free''))
     (goal_add ((advancement 0 ''T2'' ''b work'')\<lparr>t_claimed_by := Some ''b''\<rparr>)
     (goal_add ((advancement 0 ''T1'' ''a work'')\<lparr>t_claimed_by := Some ''a''\<rparr>)
        (goal_new 0 ''g'' ''objective'' ''/tmp'')))"

lemma demo_scope_distinct: "distinct (map t_id (g_todos demo_scope_goal))"
  by code_simp

lemma scoped_claims_disjoint_witness:
  "set (sc_claimed_todo_ids (identity_scoped_frontier demo_scope_goal ''a'' []))
     \<inter> set (sc_visible_agent_todo_ids (identity_scoped_frontier demo_scope_goal ''b'' [])) = {}"
  by (rule scoped_claims_disjoint [OF demo_scope_distinct]) simp_all

lemma scoped_frontier_partition_witness:
  "set (sc_visible_agent_todo_ids (identity_scoped_frontier demo_scope_goal ''a'' []))
     \<union> set (sc_other_agent_claimed_ids (identity_scoped_frontier demo_scope_goal ''a'' []))
     = t_id ` {t \<in> set (g_todos demo_scope_goal). scope_candidate t}"
  using scoped_frontier_partition [OF demo_scope_distinct, of "''a''" "[]"] by simp

end
