(* ===== verification/Arbitration.thy ===== *)
theory Arbitration
  imports Frontier
begin

text \<open>
  Scheduler arbitration, \<open>orchestration/goal/src/decision/arbitration.rs\<close>: the nine
  dispositions, the structural checks on an interaction contract, and the fail-closed
  rewriting of a packet whose contract is inconsistent.
\<close>

section \<open>Definitions\<close>

definition CONSISTENCY_REPAIR_ACTION :: string where
  "CONSISTENCY_REPAIR_ACTION =
     ''rebuild interaction_contract from the current quota decision, then rerun quota before applying scheduler cadence''"

definition ARBITRATION_ENFORCEMENT :: bool where
  "ARBITRATION_ENFORCEMENT = True"

fun disposition_str :: "scheduler_disposition \<Rightarrow> string" where
  "disposition_str TerminalStop = ''terminal_stop''"
| "disposition_str AgentMonitorOnlyWait = ''agent_monitor_only_wait''"
| "disposition_str ActiveWork = ''active_work''"
| "disposition_str AgentScopeWait = ''agent_scope_wait''"
| "disposition_str ConsistencyRepair = ''consistency_repair''"
| "disposition_str HumanGate = ''human_gate''"
| "disposition_str MonitorWait = ''monitor_wait''"
| "disposition_str QuietWait = ''quiet_wait''"
| "disposition_str UnchangedWait = ''unchanged_wait''"

definition arbitration_ok :: "scheduler_arbitration \<Rightarrow> bool" where
  "arbitration_ok a \<longleftrightarrow> sa_errors a = []"

definition consistency_error :: "scheduler_arbitration \<Rightarrow> json option" where
  "consistency_error a =
     (if arbitration_ok a then None
      else Some (JObj
        [(''schema_version'', JStr ''scheduler_arbitration_v0''),
         (''reason_code'', JStr (sa_reason_code a)),
         (''mode'', if sa_mode a = [] then JNull else JStr (sa_mode a)),
         (''errors'', JArr (map JStr (sa_errors a))),
         (''repair_action'', JStr CONSISTENCY_REPAIR_ACTION)]))"

fun future_goal_mode :: "turn_mode \<Rightarrow> string" where
  "future_goal_mode BoundedDelivery = ''bounded_delivery''"
| "future_goal_mode AskUser = ''user_gate''"
| "future_goal_mode MonitorPoll = ''monitor_due''"
| "future_goal_mode WaitMonitor = ''monitor_quiet_skip''"
| "future_goal_mode Replan = ''successor_replan_required''"
| "future_goal_mode Terminal = ''terminal_no_followup''"

definition classify_disposition ::
  "string \<Rightarrow> bool \<Rightarrow> bool \<Rightarrow> bool \<Rightarrow> string list \<Rightarrow> scheduler_disposition \<times> string" where
  "classify_disposition mode user_required must_attempt quiet_noop_allowed scope_actions =
     (if mode = ''terminal_no_followup'' then (TerminalStop, mode)
      else if mode = ''agent_monitor_only'' then (AgentMonitorOnlyWait, mode)
      else if user_required \<and> \<not> must_attempt
        then (HumanGate, ''interaction_blocking_user_gate'')
      else if mode = ''monitor_quiet_skip''
        then (MonitorWait, ''interaction_monitor_quiet_wait'')
      else if mode = ''successor_replan_required'' \<and> must_attempt
        then (ActiveWork, ''interaction_successor_replan_required'')
      else if mode \<in> set scope_actions
        then (AgentScopeWait, ''interaction_agent_scope_wait'')
      else if mode = ''mapped_noop_if_unchanged''
        then (UnchangedWait, ''interaction_unchanged_wait'')
      else if must_attempt then (ActiveWork, ''interaction_agent_attempt_required'')
      else if quiet_noop_allowed then (QuietWait, ''interaction_quiet_noop_allowed'')
      else (QuietWait, ''interaction_delivery_not_allowed''))"

definition contract_errors :: "interaction_contract \<Rightarrow> string list" where
  "contract_errors c =
     (let mode = future_goal_mode (ic_mode c);
          user_required = uc_action_required (ic_user_channel c);
          must_attempt = ac_must_attempt (ic_agent_channel c);
          delivery_allowed = ac_delivery_allowed (ic_agent_channel c);
          quiet = ac_quiet_noop_allowed (ic_agent_channel c)
      in (if ic_schema_version c \<noteq> INTERACTION_CONTRACT_SCHEMA_VERSION
          then [''interaction_contract.schema_version_mismatch''] else [])
         @ (if delivery_allowed \<and> \<not> must_attempt
            then [''interaction_contract.delivery_without_attempt''] else [])
         @ (if quiet \<and> (must_attempt \<or> delivery_allowed \<or> user_required)
            then [''interaction_contract.quiet_noop_conflicts_with_required_action''] else [])
         @ (if (mode = ''terminal_no_followup'' \<or> mode = ''agent_monitor_only'')
               \<and> (user_required \<or> must_attempt \<or> delivery_allowed \<or> \<not> quiet)
            then [''interaction_contract.terminal_conflicts_with_open_action''] else []))"

text \<open>\<open>errors.retain(|e| seen.insert(e.clone()))\<close>\<close>

fun retain_first :: "'a set \<Rightarrow> 'a list \<Rightarrow> 'a list" where
  "retain_first seen [] = []"
| "retain_first seen (x # xs) =
     (if x \<in> seen then retain_first seen xs else x # retain_first (insert x seen) xs)"

definition build_scheduler_arbitration ::
  "interaction_contract \<Rightarrow> string list \<Rightarrow> scheduler_arbitration" where
  "build_scheduler_arbitration c scope_actions =
     (let errors = contract_errors c;
          mode = future_goal_mode (ic_mode c);
          (disposition, reason_code) =
            classify_disposition mode (uc_action_required (ic_user_channel c))
              (ac_must_attempt (ic_agent_channel c))
              (ac_quiet_noop_allowed (ic_agent_channel c)) scope_actions
      in if errors = []
         then \<lparr>sa_disposition = disposition, sa_reason_code = reason_code, sa_mode = mode,
               sa_errors = []\<rparr>
         else \<lparr>sa_disposition = ConsistencyRepair,
               sa_reason_code = ''scheduler_interaction_contract_inconsistent'',
               sa_mode = mode, sa_errors = retain_first {} errors\<rparr>)"

definition apply_arbitration :: "bool \<Rightarrow> should_run_packet \<Rightarrow> should_run_packet" where
  "apply_arbitration enforce p =
     (let arbitration = build_scheduler_arbitration (p_interaction_contract p) [];
          p1 = p\<lparr>p_scheduler_arbitration := Some arbitration\<rparr>
      in if enforce \<and> sa_disposition arbitration = ConsistencyRepair
         then p1\<lparr>p_ok := False, p_should_run := False,
                 p_decision := ''consistency_repair'',
                 p_effective_action := ''consistency_repair'',
                 p_state := ''waiting'', p_status := ''consistency_repair'',
                 p_recommended_action := CONSISTENCY_REPAIR_ACTION,
                 p_normal_delivery_allowed := False, p_actionable_by_codex := False,
                 p_scheduler_hint := (p_scheduler_hint p1)
                   \<lparr>sh_action := ''repair_interaction_contract_projection'',
                    sh_cadence_class := ''control_plane_repair''\<rparr>\<rparr>
         else p1)"

section \<open>Consistency\<close>

text \<open>A contract is structurally sound when its channels agree with its mode.\<close>

definition contract_sound :: "interaction_contract \<Rightarrow> bool" where
  "contract_sound c \<longleftrightarrow>
     ic_schema_version c = INTERACTION_CONTRACT_SCHEMA_VERSION
     \<and> (ac_delivery_allowed (ic_agent_channel c) \<longrightarrow> ac_must_attempt (ic_agent_channel c))
     \<and> (ac_quiet_noop_allowed (ic_agent_channel c) \<longrightarrow>
          \<not> ac_must_attempt (ic_agent_channel c) \<and> \<not> uc_action_required (ic_user_channel c))
     \<and> (ic_mode c = Terminal \<longrightarrow>
          ac_quiet_noop_allowed (ic_agent_channel c)
          \<and> \<not> ac_must_attempt (ic_agent_channel c)
          \<and> \<not> uc_action_required (ic_user_channel c))"

lemma future_goal_mode_Terminal [simp]:
  "future_goal_mode m = ''terminal_no_followup'' \<longleftrightarrow> m = Terminal"
  "future_goal_mode m \<noteq> ''agent_monitor_only''"
  by (cases m; simp)+

lemma contract_errors_Nil_iff: "contract_errors c = [] \<longleftrightarrow> contract_sound c"
  by (auto simp: contract_errors_def contract_sound_def Let_def)

lemma classify_not_repair: "fst (classify_disposition m u a q s) \<noteq> ConsistencyRepair"
  by (simp add: classify_disposition_def)

lemma retain_first_Nil_iff: "retain_first {} xs = [] \<longleftrightarrow> xs = []"
  by (cases xs) auto

lemma arbitration_repair_iff:
  "sa_disposition (build_scheduler_arbitration c s) = ConsistencyRepair
     \<longleftrightarrow> \<not> contract_sound c"
  using classify_not_repair
  by (simp add: build_scheduler_arbitration_def contract_errors_Nil_iff Let_def
      split: prod.split) (metis fst_conv)

lemma arbitration_ok_iff: "arbitration_ok (build_scheduler_arbitration c s) \<longleftrightarrow> contract_sound c"
  by (simp add: arbitration_ok_def build_scheduler_arbitration_def contract_errors_Nil_iff
      retain_first_Nil_iff Let_def split: prod.split)

lemma apply_arbitration_sound:
  "contract_sound (p_interaction_contract p) \<Longrightarrow>
     apply_arbitration e p
       = p\<lparr>p_scheduler_arbitration :=
             Some (build_scheduler_arbitration (p_interaction_contract p) [])\<rparr>"
  by (simp add: apply_arbitration_def Let_def arbitration_repair_iff)

lemma apply_arbitration_unsound:
  assumes "\<not> contract_sound (p_interaction_contract p)"
  shows "\<not> p_ok (apply_arbitration True p)" "\<not> p_should_run (apply_arbitration True p)"
    "\<not> p_normal_delivery_allowed (apply_arbitration True p)"
    "p_decision (apply_arbitration True p) = ''consistency_repair''"
  using assms by (simp_all add: apply_arbitration_def Let_def arbitration_repair_iff)

lemma apply_arbitration_contract [simp]:
  "p_interaction_contract (apply_arbitration e p) = p_interaction_contract p"
  by (simp add: apply_arbitration_def Let_def)

end
