(* ===== verification/Goal_Frontier.thy ===== *)
theory Goal_Frontier
  imports Frontier
begin

text \<open>
  The goal frontier package \<open>orchestration/goal/src/decision/goal_frontier\<close>: outcome
  segments (\<open>outcome_continuity.rs\<close>), the bounded semantic history
  (\<open>semantic_history.rs\<close>), the terminal judgement (\<open>terminal.rs\<close>) and the ordered replan
  rules (\<open>replan_rules.rs\<close>), together with the replan obligations they read
  (\<open>work_items/replan_obligation.rs\<close>) and the \<open>frontier show\<close> view (\<open>mod.rs\<close>).
\<close>

section \<open>Outcome segments\<close>

record outcome_segment =
  os_segment_id :: string
  os_start_turn :: u32
  os_length :: u32
  os_kind :: string

definition run_is_material :: "run_record \<Rightarrow> bool" where
  "run_is_material r \<longleftrightarrow> r_tools r \<noteq> [] \<and> \<not> blank (r_evidence r)"

definition kind_of :: "run_record \<Rightarrow> string" where
  "kind_of r = (if run_is_material r then ''material'' else ''surface_only'')"

definition frontier_changed_between :: "goal \<Rightarrow> u64 \<Rightarrow> u64 \<Rightarrow> bool" where
  "frontier_changed_between g prev_at at \<longleftrightarrow>
     list_ex (\<lambda>ts. ts > prev_at \<and> ts \<le> at) (g_frontier_change_ts g)"

text \<open>The loop state: segments so far, \<open>current_kind\<close> and \<open>prev_at\<close>.\<close>

record segment_acc =
  ga_segments :: "outcome_segment list"
  ga_kind :: "string option"
  ga_prev_at :: "u64 option"

definition bump_last :: "outcome_segment list \<Rightarrow> outcome_segment list" where
  "bump_last ss =
     (if ss = [] then [] else butlast ss @ [(last ss)\<lparr>os_length := os_length (last ss) + 1\<rparr>])"

definition segment_step :: "goal \<Rightarrow> segment_acc \<Rightarrow> run_record \<Rightarrow> segment_acc" where
  "segment_step g a r =
     (let kind = kind_of r;
          reset = (case ga_prev_at a of
                     None \<Rightarrow> False
                   | Some prev \<Rightarrow> frontier_changed_between g prev (r_recorded_at r));
          a' = (if ga_kind a = Some kind \<and> \<not> reset
                then a\<lparr>ga_segments := bump_last (ga_segments a)\<rparr>
                else a\<lparr>ga_segments := ga_segments a
                         @ [\<lparr>os_segment_id = ''seg_'' @ dec (r_turn r),
                             os_start_turn = r_turn r, os_length = 1, os_kind = kind\<rparr>],
                       ga_kind := Some kind\<rparr>)
      in a'\<lparr>ga_prev_at := Some (r_recorded_at r)\<rparr>)"

definition outcome_segments :: "goal \<Rightarrow> outcome_segment list" where
  "outcome_segments g =
     ga_segments (foldl (segment_step g)
       \<lparr>ga_segments = [], ga_kind = None, ga_prev_at = None\<rparr> (g_history g))"

section \<open>Semantic history\<close>

text \<open>\<open>decision::truncate\<close>, in characters.\<close>

definition truncate_chars :: "string \<Rightarrow> nat \<Rightarrow> string" where
  "truncate_chars s limit =
     (if length (chars s) \<le> limit then s else concat (take limit (chars s)) @ ellipsis)"

definition SEMANTIC_HISTORY_CAP :: usize where
  "SEMANTIC_HISTORY_CAP = 50"

definition SEMANTIC_SUMMARY_MAX_CHARS :: usize where
  "SEMANTIC_SUMMARY_MAX_CHARS = 200"

definition truncate_summary :: "string \<Rightarrow> string" where
  "truncate_summary text = truncate_chars text SEMANTIC_SUMMARY_MAX_CHARS"

definition record_semantic_event ::
  "string \<Rightarrow> string option \<Rightarrow> string \<Rightarrow> u64 \<Rightarrow> goal \<Rightarrow> goal" where
  "record_semantic_event kind tid summary ts g =
     g\<lparr>g_semantic_history :=
         keep_last SEMANTIC_HISTORY_CAP
           (g_semantic_history g
            @ [\<lparr>se_kind = kind, se_todo_id = tid, se_summary = truncate_summary summary,
                se_ts = ts\<rparr>])\<rparr>"

section \<open>Terminal judgement\<close>

record terminal_gap =
  tg_kind :: string
  tg_todo_id :: "string option"
  tg_gap_id :: "string option"
  tg_description :: string
  tg_satisfied :: bool

record terminal_judgement =
  tj_schema_version :: string
  tj_terminal :: bool
  tj_kind :: "string option"
  tj_source :: "string option"
  tj_gaps :: "terminal_gap list"
  tj_closure_proof :: terminal_closure_proof

definition not_done :: "todo \<Rightarrow> bool" where
  "not_done t \<longleftrightarrow> \<not> (t_status t = Done \<or> t_status t = Superseded)"

definition todo_gap :: "sys_time \<Rightarrow> todo \<Rightarrow> terminal_gap" where
  "todo_gap now t =
     (if t_status t = Deferred \<and> \<not> is_due_deferred now t
      then \<lparr>tg_kind = ''pending_deferred'', tg_todo_id = Some (t_id t), tg_gap_id = None,
            tg_description = ''deferred todo '' @ t_id t @ '' not yet due'',
            tg_satisfied = False\<rparr>
      else \<lparr>tg_kind = (if t_class t = Monitor then ''open_monitor'' else ''open_todo''),
            tg_todo_id = Some (t_id t), tg_gap_id = None,
            tg_description = ''todo '' @ t_id t @ '' still '' @ future_goal_status (t_status t)
                             @ '' (class '' @ future_goal_task_class (t_class t) @ '')'',
            tg_satisfied = False\<rparr>)"

definition terminal_gaps :: "goal \<Rightarrow> sys_time \<Rightarrow> terminal_gap list" where
  "terminal_gaps g now =
     map (todo_gap now) (filter not_done (g_todos g))
     @ map (\<lambda>gap. \<lparr>tg_kind = ''unsatisfied_acceptance'', tg_todo_id = None,
                    tg_gap_id = Some (a_id gap), tg_description = a_description gap,
                    tg_satisfied = False\<rparr>) (unsatisfied_gaps g)
     @ map (\<lambda>t. \<lparr>tg_kind = ''succession_gap'', tg_todo_id = Some (t_id t), tg_gap_id = None,
                  tg_description = ''todo '' @ t_id t
                                   @ '' completed without successor or no-follow-up'',
                  tg_satisfied = False\<rparr>) (completed_without_closure_intent g)
     @ map (\<lambda>t. \<lparr>tg_kind = ''unvalidated_delivery'', tg_todo_id = Some (t_id t),
                  tg_gap_id = None,
                  tg_description = ''todo '' @ t_id t
                                   @ '' has no passed validation or verified delivery'',
                  tg_satisfied = False\<rparr>) (unvalidated_deliveries g)"

definition terminal_judgement_at :: "goal \<Rightarrow> sys_time \<Rightarrow> terminal_judgement" where
  "terminal_judgement_at g now =
     (let gaps = terminal_gaps g now in
      \<lparr>tj_schema_version = ''goal_terminal_judgement_v0'',
       tj_terminal = (gaps = []),
       tj_kind = (if gaps = [] then Some ''no_followup'' else None),
       tj_source = (if gaps = [] then Some ''validated_goal_closure'' else None),
       tj_gaps = gaps,
       tj_closure_proof = ts_terminal_closure_proof (todo_summary_at g now)\<rparr>)"

section \<open>Replan obligations\<close>

record replan_obligation =
  ro_schema_version :: string
  ro_kind :: string
  ro_goal_id :: string
  ro_todo_id :: "string option"
  ro_raised_at :: u64
  ro_evidence :: string
  ro_cleared :: bool
  ro_cleared_reason :: "string option"
  ro_cleared_at :: "u64 option"

definition MONITOR_NO_CHANGE_OBLIGATION_THRESHOLD :: u32 where
  "MONITOR_NO_CHANGE_OBLIGATION_THRESHOLD = 3"

definition ack_clears :: "goal \<Rightarrow> u64 \<Rightarrow> u64 option" where
  "ack_clears g raised_at =
     (case g_replan_ack g of
        None \<Rightarrow> None
      | Some ack \<Rightarrow> if has_frontier_delta ack \<and> k_at ack \<ge> raised_at
                    then Some (k_at ack) else None)"

definition acked_obligation ::
  "goal \<Rightarrow> string \<Rightarrow> string \<Rightarrow> u64 \<Rightarrow> string \<Rightarrow> replan_obligation" where
  "acked_obligation g kind tid raised_at evidence =
     (let cleared_at = ack_clears g raised_at in
      \<lparr>ro_schema_version = ''replan_obligation_v0'', ro_kind = kind,
       ro_goal_id = g_goal_id g, ro_todo_id = Some tid, ro_raised_at = raised_at,
       ro_evidence = evidence, ro_cleared = (cleared_at \<noteq> None),
       ro_cleared_reason = map_option (\<lambda>_. ''replan_ack'') cleared_at,
       ro_cleared_at = cleared_at\<rparr>)"

definition monitor_obligations :: "goal \<Rightarrow> replan_obligation list" where
  "monitor_obligations g =
     map (\<lambda>t. acked_obligation g ''monitor_no_change_streak'' (t_id t) (t_updated_at t)
                (''monitor '' @ t_id t @ '' recorded '' @ dec (t_consecutive_no_change t)
                 @ '' consecutive unchanged polls without a material transition''))
       (filter (\<lambda>t. t_consecutive_no_change t \<ge> MONITOR_NO_CHANGE_OBLIGATION_THRESHOLD)
         (filter (\<lambda>t. t_class t = Monitor \<and> t_status t = Open) (g_todos g)))"

definition surface_obligations :: "goal \<Rightarrow> replan_obligation list" where
  "surface_obligations g =
     (let threshold = x_outcome_floor_streak_threshold (g_execution_profile g) in
      if threshold > 0 \<and> g_outcome_streak g \<ge> threshold
      then [\<lparr>ro_schema_version = ''replan_obligation_v0'',
             ro_kind = ''surface_only_progress_streak'', ro_goal_id = g_goal_id g,
             ro_todo_id = None,
             ro_raised_at =
               (case find (\<lambda>r. r_tools r \<noteq> [] \<and> \<not> blank (r_evidence r)) (rev (g_history g)) of
                  None \<Rightarrow> g_created_at g | Some r \<Rightarrow> r_recorded_at r),
             ro_evidence = dec (g_outcome_streak g)
               @ '' consecutive surface-only turns without a material outcome (floor=''
               @ dec threshold @ '')'',
             ro_cleared = False, ro_cleared_reason = None, ro_cleared_at = None\<rparr>]
      else [])"

definition succession_obligations :: "goal \<Rightarrow> replan_obligation list" where
  "succession_obligations g =
     map (\<lambda>t. acked_obligation g ''succession_gap'' (t_id t)
                (case t_completed_at t of Some at \<Rightarrow> at | None \<Rightarrow> t_updated_at t)
                (''todo '' @ t_id t
                 @ '' completed without declaring a successor or no-follow-up''))
       (completed_without_closure_intent g)"

definition detect_obligations :: "goal \<Rightarrow> replan_obligation list" where
  "detect_obligations g =
     monitor_obligations g @ surface_obligations g @ succession_obligations g"

definition unfulfilled_obligations :: "goal \<Rightarrow> replan_obligation list" where
  "unfulfilled_obligations g = filter (\<lambda>ob. \<not> ro_cleared ob) (detect_obligations g)"

definition has_unfulfilled_obligation :: "goal \<Rightarrow> bool" where
  "has_unfulfilled_obligation g \<longleftrightarrow> unfulfilled_obligations g \<noteq> []"

section \<open>Replan rules\<close>

definition known_rules :: "string list" where
  "known_rules =
     [''existing_obligation'', ''open_user_todo'', ''todo_succession_gap'',
      ''vision_acceptance_gap'', ''monitor_no_change_streak'', ''not_monitor_only'',
      ''no_open_monitor'', ''advancement_remains'', ''monitor_frontier_exhausted'']"

definition default_rule_set :: replan_rule_set where
  "default_rule_set =
     \<lparr>rs_schema_version = ''goal_frontier_replan_rules_v0'', rs_rule_ids = known_rules\<rparr>"

definition is_known_rule :: "string \<Rightarrow> bool" where
  "is_known_rule rid \<longleftrightarrow> rid \<in> set known_rules"

definition effective_rule_ids :: "replan_rule_set \<Rightarrow> string list" where
  "effective_rule_ids s =
     (if list_ex is_known_rule (rs_rule_ids s) then rs_rule_ids s
      else rs_rule_ids default_rule_set)"

record replan_facts =
  rf_existing_replan_required :: bool
  rf_blocking_user_open_count :: usize
  rf_succession_gap_count :: usize
  rf_acceptance_gap_count :: usize
  rf_selectable_frontier_advancement :: usize
  rf_advancement_open_count :: usize
  rf_monitor_count :: usize
  rf_monitor_no_change_streak_triggered :: bool
  rf_monitor_only_lane :: bool

text \<open>The code reads the clock once per query; the model takes one instant for all.\<close>

definition facts_for_goal :: "goal \<Rightarrow> sys_time \<Rightarrow> replan_facts" where
  "facts_for_goal g now =
     (let runnable = length (runnable_advancement_for_at g None now) in
      \<lparr>rf_existing_replan_required =
         list_ex (\<lambda>ob. ro_kind ob = ''surface_only_progress_streak'')
           (unfulfilled_obligations g),
       rf_blocking_user_open_count =
         length (open_gates_at g now) + length (open_of_at g UserAction now),
       rf_succession_gap_count = length (completed_without_closure_intent g),
       rf_acceptance_gap_count = length (unsatisfied_gaps g),
       rf_selectable_frontier_advancement = runnable,
       rf_advancement_open_count =
         length (filter (\<lambda>t. t_class t = Advancement \<and> not_done t) (g_todos g)),
       rf_monitor_count = length (open_monitors_at g now),
       rf_monitor_no_change_streak_triggered =
         list_ex (\<lambda>m. t_consecutive_no_change m \<ge> MONITOR_NO_CHANGE_OBLIGATION_THRESHOLD)
           (open_monitors_at g now),
       rf_monitor_only_lane = (runnable = 0)\<rparr>)"

record replan_rule_decision =
  rd_schema_version :: string
  rd_rule :: string
  rd_rule_index :: u32
  rd_derives_obligation :: bool
  rd_obligation_kind :: "string option"
  rd_reason :: string

definition rule_obligation :: "string \<Rightarrow> string option" where
  "rule_obligation rule =
     (if rule = ''todo_succession_gap'' then Some ''succession_gap''
      else if rule = ''vision_acceptance_gap'' then Some ''vision_acceptance_gap''
      else if rule = ''monitor_no_change_streak'' then Some ''monitor_no_change_streak''
      else if rule = ''monitor_frontier_exhausted'' then Some ''surface_only_progress_streak''
      else None)"

definition rule_decision :: "string \<Rightarrow> u32 \<Rightarrow> string \<Rightarrow> replan_rule_decision" where
  "rule_decision rule i reason =
     \<lparr>rd_schema_version = ''goal_frontier_replan_rule_decision_v0'', rd_rule = rule,
      rd_rule_index = i, rd_derives_obligation = (rule_obligation rule \<noteq> None),
      rd_obligation_kind = rule_obligation rule, rd_reason = reason\<rparr>"

text \<open>The reason of a matching rule, \<open>None\<close> when the rule does not match.\<close>

definition matching_rule :: "replan_facts \<Rightarrow> string \<Rightarrow> string option" where
  "matching_rule f rule =
     (if rule = ''existing_obligation'' \<and> rf_existing_replan_required f
      then Some ''an existing scoped obligation remains authoritative''
      else if rule = ''open_user_todo'' \<and> rf_blocking_user_open_count f > 0
      then Some ''open blocking user work owns the frontier''
      else if rule = ''todo_succession_gap'' \<and> rf_succession_gap_count f > 0
              \<and> rf_selectable_frontier_advancement f = 0 \<and> rf_advancement_open_count f = 0
      then Some ''completed advancement work lacks a successor or no-followup rationale''
      else if rule = ''vision_acceptance_gap'' \<and> rf_acceptance_gap_count f > 0
              \<and> rf_selectable_frontier_advancement f = 0
      then Some ''the scoped vision gap lacks a satisfying runnable frontier''
      else if rule = ''monitor_no_change_streak'' \<and> rf_monitor_only_lane f
              \<and> rf_monitor_count f > 0 \<and> rf_monitor_no_change_streak_triggered f
      then Some ''the current agent monitor crossed the no-change replan threshold''
      else if rule = ''not_monitor_only'' \<and> \<not> rf_monitor_only_lane f
      then Some ''the selected lane is not monitor-only''
      else if rule = ''no_open_monitor'' \<and> rf_monitor_count f = 0
      then Some ''no open monitor remains''
      else if rule = ''advancement_remains'' \<and> rf_advancement_open_count f > 0
      then Some ''advancement work remains on the frontier''
      else if rule = ''monitor_frontier_exhausted''
      then Some ''only monitor work remains on an empty advancement frontier''
      else None)"

fun first_match ::
  "replan_facts \<Rightarrow> (u32 \<times> string) list \<Rightarrow> replan_rule_decision option" where
  "first_match f [] = None"
| "first_match f ((i, rule) # rest) =
     (case matching_rule f rule of
        Some reason \<Rightarrow> Some (rule_decision rule i reason)
      | None \<Rightarrow> first_match f rest)"

text \<open>\<open>None\<close> is the \<open>unreachable!\<close> panic at the end of the function.\<close>

definition select_replan_rule_with_set ::
  "replan_facts \<Rightarrow> string list \<Rightarrow> replan_rule_decision option" where
  "select_replan_rule_with_set f rule_ids =
     (let ordered = filter (\<lambda>(_, rid). is_known_rule rid) (enumerate 0 rule_ids) in
      case first_match f ordered of
        Some d \<Rightarrow> Some d
      | None \<Rightarrow> first_match f (enumerate 0 (rs_rule_ids default_rule_set)))"

definition goal_rule_ids :: "goal \<Rightarrow> string list" where
  "goal_rule_ids g =
     (case g_replan_rule_set g of
        Some s \<Rightarrow> effective_rule_ids s | None \<Rightarrow> rs_rule_ids default_rule_set)"

definition select_replan_rule :: "goal \<Rightarrow> sys_time \<Rightarrow> replan_rule_decision option" where
  "select_replan_rule g now =
     select_replan_rule_with_set (facts_for_goal g now) (goal_rule_ids g)"

definition active_rule_set :: "goal \<Rightarrow> replan_rule_set" where
  "active_rule_set g = (case g_replan_rule_set g of Some s \<Rightarrow> s | None \<Rightarrow> default_rule_set)"

section \<open>The frontier view\<close>

record todo_assignment =
  ta_todo_id :: string
  ta_owner :: "string option"
  ta_owner_registered :: "bool option"
  ta_claimed_by :: "string option"
  ta_lease_expires_at :: "u64 option"

record frontier_show_rec =
  fs_schema_version :: string
  fs_goal_id :: string
  fs_lane :: string
  fs_frontier_projection :: frontier_projection_rec
  fs_todo_assignments :: "todo_assignment list"
  fs_outcome_segments :: "outcome_segment list"
  fs_replan_rule :: "replan_rule_decision option"
  fs_terminal_judgement :: terminal_judgement
  fs_semantic_history :: "semantic_event list"

definition frontier_replan_required :: "goal \<Rightarrow> sys_time \<Rightarrow> bool" where
  "frontier_replan_required g now \<longleftrightarrow>
     open_gates_at g now \<noteq> [] \<or> completed_without_closure_intent g \<noteq> []
     \<or> list_ex is_monitor_stalled (open_monitors_at g now) \<or> unsatisfied_gaps g \<noteq> []"

definition frontier_show :: "goal \<Rightarrow> sys_time \<Rightarrow> frontier_show_rec" where
  "frontier_show g now =
     \<lparr>fs_schema_version = ''goal_frontier_show_v0'', fs_goal_id = g_goal_id g,
      fs_lane = lane_at g now,
      fs_frontier_projection =
        frontier_projection_at g (frontier_replan_required g now) now,
      fs_todo_assignments =
        map (\<lambda>t. \<lparr>ta_todo_id = t_id t, ta_owner = t_owner t,
                   ta_owner_registered =
                     map_option (\<lambda>w. is_registered_agent g (Some w)) (t_owner t),
                   ta_claimed_by = t_claimed_by t,
                   ta_lease_expires_at = t_lease_expires_at t\<rparr>)
          (filter not_done (g_todos g)),
      fs_outcome_segments = outcome_segments g,
      fs_replan_rule = select_replan_rule g now,
      fs_terminal_judgement = terminal_judgement_at g now,
      fs_semantic_history = g_semantic_history g\<rparr>"

section \<open>Facts about the four layers\<close>

lemma not_done_iff: "not_done t \<longleftrightarrow> t_status t \<noteq> Done \<and> t_status t \<noteq> Superseded"
  by (simp add: not_done_def)

lemma terminal_gaps_Nil_iff: "terminal_gaps g now = [] \<longleftrightarrow> is_terminal g"
  by (simp add: terminal_gaps_def is_terminal_def not_done_def filter_eq_Nil_iff list_all_iff)

lemma terminal_judgement_iff: "tj_terminal (terminal_judgement_at g now) \<longleftrightarrow> is_terminal g"
  by (simp add: terminal_judgement_at_def Let_def terminal_gaps_Nil_iff)

lemma length_record_semantic_event:
  "length (g_semantic_history (record_semantic_event kind tid summary ts g))
     = min 50 (Suc (length (g_semantic_history g)))"
  by (simp add: record_semantic_event_def SEMANTIC_HISTORY_CAP_def)

lemma sum_list_bump_last:
  "ss \<noteq> [] \<Longrightarrow>
     sum_list (map os_length (bump_last ss)) = Suc (sum_list (map os_length ss))"
  by (cases ss rule: rev_cases) (auto simp: bump_last_def)

lemma first_match_find:
  "first_match f rs =
     map_option (\<lambda>(i, r). rule_decision r i (the (matching_rule f r)))
       (find (\<lambda>(i, r). matching_rule f r \<noteq> None) rs)"
  by (induction f rs rule: first_match.induct) (auto split: option.splits)

lemma first_match_None_iff:
  "first_match f rs = None \<longleftrightarrow> (\<forall>(i, r) \<in> set rs. matching_rule f r = None)"
  by (auto simp: first_match_find find_None_iff)

lemma terminal_rule_matches: "matching_rule f ''monitor_frontier_exhausted'' \<noteq> None"
  by (simp add: matching_rule_def)

lemma terminal_rule_default:
  "\<exists>i. (i, ''monitor_frontier_exhausted'') \<in> set (enumerate 0 (rs_rule_ids default_rule_set))"
  by (simp add: default_rule_set_def known_rules_def)

lemma default_first_match: "first_match f (enumerate 0 (rs_rule_ids default_rule_set)) \<noteq> None"
proof
  assume "first_match f (enumerate 0 (rs_rule_ids default_rule_set)) = None"
  then have "\<forall>(i, r) \<in> set (enumerate 0 (rs_rule_ids default_rule_set)). matching_rule f r = None"
    by (simp only: first_match_None_iff)
  moreover obtain i where "(i, ''monitor_frontier_exhausted'')
      \<in> set (enumerate 0 (rs_rule_ids default_rule_set))"
    using terminal_rule_default by blast
  ultimately show False using terminal_rule_matches [of f] by auto
qed

lemma select_replan_rule_total: "select_replan_rule_with_set f ids \<noteq> None"
  using default_first_match
  by (simp add: select_replan_rule_with_set_def Let_def split: option.split)

lemma find_filter: "find p (filter q xs) = find (\<lambda>x. q x \<and> p x) xs"
  by (induction xs) auto

lemma find_enumerate_iff:
  "find (\<lambda>(i, x). p x) (enumerate 0 xs) = Some (k, y) \<longleftrightarrow>
     k < length xs \<and> y = xs ! k \<and> p y \<and> (\<forall>j < k. \<not> p (xs ! j))"
  by (auto simp: find_Some_iff nth_enumerate_eq)

text \<open>The selection in terms of positions of the active rule list.\<close>

lemma select_replan_rule_first:
  assumes "select_replan_rule_with_set f ids = Some d"
    and "\<exists>r \<in> set ids. is_known_rule r \<and> matching_rule f r \<noteq> None"
  shows "rd_rule_index d < length ids \<and> rd_rule d = ids ! rd_rule_index d
         \<and> is_known_rule (rd_rule d)
         \<and> matching_rule f (rd_rule d) = Some (rd_reason d)
         \<and> (\<forall>j < rd_rule_index d. \<not> (is_known_rule (ids ! j) \<and> matching_rule f (ids ! j) \<noteq> None))"
proof -
  let ?p = "\<lambda>r. is_known_rule r \<and> matching_rule f r \<noteq> None"
  have find_eq: "find (\<lambda>(i, r). matching_rule f r \<noteq> None)
      (filter (\<lambda>(_, rid). is_known_rule rid) (enumerate 0 ids))
      = find (\<lambda>(i, r). ?p r) (enumerate 0 ids)"
    by (simp add: find_filter case_prod_unfold)
  have "find (\<lambda>(i, r). ?p r) (enumerate 0 ids) \<noteq> None"
  proof -
    obtain k where "k < length ids" "?p (ids ! k)"
      using assms(2) by (metis in_set_conv_nth)
    then have "(k, ids ! k) \<in> set (enumerate 0 ids)"
      by (metis add_0 in_set_conv_nth length_enumerate nth_enumerate_eq)
    with \<open>?p (ids ! k)\<close> show ?thesis
      by (auto simp: find_None_iff)
  qed
  then obtain k y where ky: "find (\<lambda>(i, r). ?p r) (enumerate 0 ids) = Some (k, y)"
    by auto
  then have d: "d = rule_decision y k (the (matching_rule f y))"
    using assms(1) unfolding select_replan_rule_with_set_def Let_def first_match_find find_eq
    by simp
  from ky have "k < length ids \<and> y = ids ! k \<and> ?p y \<and> (\<forall>j < k. \<not> ?p (ids ! j))"
    unfolding find_enumerate_iff [of ?p ids k y] .
  then show ?thesis by (auto simp: d rule_decision_def)
qed

section \<open>Segments cover the history\<close>

text \<open>The loop invariant: the lengths add up to the records consumed, every segment is
  non-empty, and the kind of the open segment is the one remembered.\<close>

definition segments_ok :: "nat \<Rightarrow> segment_acc \<Rightarrow> bool" where
  "segments_ok n a \<longleftrightarrow>
     sum_list (map os_length (ga_segments a)) = n
     \<and> list_all (\<lambda>s. 0 < os_length s) (ga_segments a)
     \<and> (ga_segments a = [] \<longleftrightarrow> ga_kind a = None)
     \<and> (case ga_kind a of None \<Rightarrow> True | Some k \<Rightarrow> os_kind (last (ga_segments a)) = k)"

lemma segment_step_ok: "segments_ok n a \<Longrightarrow> segments_ok (Suc n) (segment_step g a r)"
  by (cases "ga_segments a" rule: rev_cases)
     (auto simp: segments_ok_def segment_step_def Let_def bump_last_def split: option.splits)

lemma foldl_segments_ok:
  "segments_ok n a \<Longrightarrow> segments_ok (n + length rs) (foldl (segment_step g) a rs)"
proof (induction rs arbitrary: n a)
  case Nil
  then show ?case by simp
next
  case (Cons r rs)
  from Cons.IH [OF segment_step_ok [OF Cons.prems]] show ?case by simp
qed

lemma outcome_segments_ok:
  "sum_list (map os_length (outcome_segments g)) = length (g_history g)"
  "list_all (\<lambda>s. 0 < os_length s) (outcome_segments g)"
  using foldl_segments_ok [of 0 "\<lparr>ga_segments = [], ga_kind = None, ga_prev_at = None\<rparr>"
      "g_history g" g]
  by (simp_all add: segments_ok_def outcome_segments_def)

section \<open>Truncation and the ring\<close>

lemma length_semantic_summary:
  "length (chars s) \<le> n \<Longrightarrow> truncate_chars s n = s"
  by (simp add: truncate_chars_def)

lemma semantic_history_bounded:
  "length (g_semantic_history g) \<le> SEMANTIC_HISTORY_CAP \<Longrightarrow>
     length (g_semantic_history (record_semantic_event kind tid summary ts g)) \<le> SEMANTIC_HISTORY_CAP"
  by (simp add: record_semantic_event_def)

section \<open>Properties\<close>

lemma todo_gap_ids [simp]:
  "tg_todo_id (todo_gap now t) = Some (t_id t)" "tg_gap_id (todo_gap now t) = None"
  by (simp_all add: todo_gap_def)

lemma terminal_gaps_todo_ids:
  "List.map_filter tg_todo_id (terminal_gaps g now) =
     map t_id (filter not_done (g_todos g)) @ map t_id (completed_without_closure_intent g)
     @ map t_id (unvalidated_deliveries g)"
  by (simp add: List.map_filter_def terminal_gaps_def filter_map comp_def)

lemma terminal_gaps_gap_ids:
  "List.map_filter tg_gap_id (terminal_gaps g now) = map a_id (unsatisfied_gaps g)"
  by (simp add: List.map_filter_def terminal_gaps_def filter_map comp_def)

text \<open>the terminal judgement is exact: it calls a goal terminal if and only if
  \<open>is_terminal\<close> holds, its gap list is empty exactly then, and the gaps name, in order, every
  todo that is neither done nor superseded, every undeclared closure, every unvalidated
  delivery, and every unsatisfied acceptance gap - and nothing else.\<close>

theorem terminal_judgement_exact:
  "(tj_terminal (terminal_judgement_at g now) \<longleftrightarrow> is_terminal g)
   \<and> (tj_gaps (terminal_judgement_at g now) = [] \<longleftrightarrow> is_terminal g)
   \<and> List.map_filter tg_todo_id (tj_gaps (terminal_judgement_at g now))
       = map t_id (filter not_done (g_todos g)) @ map t_id (completed_without_closure_intent g)
         @ map t_id (unvalidated_deliveries g)
   \<and> List.map_filter tg_gap_id (tj_gaps (terminal_judgement_at g now))
       = map a_id (unsatisfied_gaps g)"
  by (simp add: terminal_judgement_at_def Let_def terminal_gaps_Nil_iff terminal_gaps_todo_ids
      terminal_gaps_gap_ids)

text \<open>The outcome segments cover the run history exactly: their lengths are positive and
  add up to the number of recorded runs.\<close>

theorem outcome_segments_cover_history:
  "sum_list (map os_length (outcome_segments g)) = length (g_history g)
   \<and> list_all (\<lambda>s. 0 < os_length s) (outcome_segments g)"
  using outcome_segments_ok by blast

text \<open>Rule selection is total and first-match: the \<open>unreachable!\<close> panic is never reached,
  and when a known rule of the given list matches, the decision names the first such rule by
  its position, with the reason of that rule.\<close>

theorem replan_rule_first_match:
  "select_replan_rule_with_set f ids \<noteq> None
   \<and> (\<forall>d. select_replan_rule_with_set f ids = Some d
        \<and> (\<exists>r \<in> set ids. is_known_rule r \<and> matching_rule f r \<noteq> None) \<longrightarrow>
          rd_rule_index d < length ids \<and> rd_rule d = ids ! rd_rule_index d
          \<and> is_known_rule (rd_rule d) \<and> matching_rule f (rd_rule d) = Some (rd_reason d)
          \<and> (\<forall>j < rd_rule_index d.
               \<not> (is_known_rule (ids ! j) \<and> matching_rule f (ids ! j) \<noteq> None)))"
  using select_replan_rule_total [of f ids] select_replan_rule_first [of f ids] by blast

definition demo_facts :: replan_facts where
  "demo_facts =
     \<lparr>rf_existing_replan_required = False, rf_blocking_user_open_count = 0,
      rf_succession_gap_count = 1, rf_acceptance_gap_count = 1,
      rf_selectable_frontier_advancement = 0, rf_advancement_open_count = 0,
      rf_monitor_count = 0, rf_monitor_no_change_streak_triggered = False,
      rf_monitor_only_lane = True\<rparr>"

lemma replan_rule_first_match_witness:
  "\<exists>d. select_replan_rule_with_set demo_facts [''nonsense'', ''vision_acceptance_gap'', ''no_open_monitor'']
         = Some d \<and> rd_rule_index d < 3"
proof -
  let ?ids = "[''nonsense'', ''vision_acceptance_gap'', ''no_open_monitor'']"
  have "\<exists>r \<in> set ?ids. is_known_rule r \<and> matching_rule demo_facts r \<noteq> None"
    by code_simp
  then show ?thesis
    using replan_rule_first_match [of demo_facts ?ids] by fastforce
qed

end
