(* ===== verification/Decision.thy ===== *)
theory Decision
  imports Arbitration Goal_Frontier
begin

text \<open>
  The decision kernel: \<open>decide_for\<close> of \<open>orchestration/goal/src/decision/mod.rs\<close> with the
  compositions it calls (\<open>identity.rs\<close>, \<open>boundary.rs\<close>, \<open>goal_boundary.rs\<close>,
  \<open>heartbeat_recommendation.rs\<close>, \<open>primary_action.rs\<close>). The steps are numbered as in the
  source.

  What the kernel reads from outside its arguments is the record \<open>kernel_env\<close>: the home
  directory of the leak scan, the fresh event id and the local-time rendering of the clock
  (the \<open>uuid\<close> and \<open>chrono\<close> packages).
\<close>

section \<open>Packet parts\<close>

record kernel_env =
  ke_home :: string
  ke_uuid :: string
  ke_rfc3339 :: "u64 \<Rightarrow> string"

definition boundary_snapshot :: "string \<Rightarrow> goal \<Rightarrow> boundary_snapshot_rec" where
  "boundary_snapshot home g =
     \<lparr>bs_leaks = boundary_scan_leaks home (g_objective g),
      bs_public_safe = (boundary_scan_leaks home (g_objective g) = [])\<rparr>"

definition quote :: string where
  "quote = [CHR 0x27]"

definition compose_goal_boundary :: "goal \<Rightarrow> string" where
  "compose_goal_boundary g =
     (let acceptance =
        (if g_acceptance g = [] then ''see per-todo acceptance''
         else join newline
                (map (\<lambda>a. ''- '' @ a_description a @ '' ('' @ a_id a @ '')'') (g_acceptance g)))
      in ''You are an executor working under a deterministic control plane.'' @ newline
         @ newline
         @ ''GOAL: '' @ g_objective g @ newline
         @ ''ACCEPTANCE (what '' @ quote @ ''done'' @ quote @ '' means):'' @ newline
         @ acceptance @ newline
         @ newline
         @ ''Rules:'' @ newline
         @ ''- Work exactly one todo per turn. Do not invent work outside the goal.'' @ newline
         @ ''- Write evidence: report concrete results (file paths, values, diffs).'' @ newline
         @ ''- When the todo is complete, stop '' @ em_dash
         @ '' do not continue into extra work.'' @ newline
         @ ''- You cannot change the goal or its acceptance.'')"

definition goal_boundary_json :: "goal \<Rightarrow> json" where
  "goal_boundary_json g =
     JObj [(''repo'', JStr (g_cwd g)),
           (''write_scope'', JArr (map JStr (au_write_scope (g_authority g))))]"

definition recommendation :: "turn_mode \<Rightarrow> bool \<Rightarrow> heartbeat_recommendation" where
  "recommendation mode must_attempt =
     \<lparr>hr_recommended_mode =
        (case mode of
           Terminal \<Rightarrow> ''terminal_no_followup''
         | WaitMonitor \<Rightarrow> ''quiet_wait''
         | AskUser \<Rightarrow> ''ask_user''
         | _ \<Rightarrow> ''steering_audit_then_one_step''),
      hr_notify = (if must_attempt then ''DONT_NOTIFY'' else ''NOTIFY_ON_GATE''),
      hr_spend_policy =
        ''append exactly one heartbeat spend only after a bounded progress segment is validated and written back'',
      hr_reason = ''eligible goal requires the standard steering audit before delivery''\<rparr>"

definition agent_channel ::
  "string option \<Rightarrow> string option \<Rightarrow> string option \<Rightarrow> bool \<Rightarrow> bool \<Rightarrow> bool \<Rightarrow> agent_channel" where
  "agent_channel primary selected fallback must_attempt delivery_allowed quiet =
     \<lparr>ac_must_attempt = must_attempt, ac_delivery_allowed = delivery_allowed,
      ac_quiet_noop_allowed = quiet, ac_primary_action = primary,
      ac_selected_todo = selected, ac_fallback_todo = fallback\<rparr>"

definition opt_str :: "string option \<Rightarrow> string" where
  "opt_str s = (case s of None \<Rightarrow> [] | Some x \<Rightarrow> x)"

definition selected_todo_json :: "goal \<Rightarrow> string \<Rightarrow> json" where
  "selected_todo_json g tid =
     (let todo = find_todo g tid in
      JObj [(''schema_version'', JStr ''quota_selected_todo_v0''),
            (''source'', JStr ''agent_todo_summary.first_executable_items''),
            (''todo_id'', JStr tid),
            (''index'', JNum (case todo of None \<Rightarrow> 0 | Some t \<Rightarrow> int (t_index t))),
            (''role'', JStr ''agent''),
            (''priority'',
               JStr (case todo of None \<Rightarrow> [] | Some t \<Rightarrow> priority_display (t_priority t))),
            (''status'', JStr ''open''),
            (''task_class'',
               JStr (case todo of None \<Rightarrow> [] | Some t \<Rightarrow> future_goal_task_class (t_class t))),
            (''action_kind'', JStr (opt_str (Option.bind todo t_action_kind))),
            (''text'', JStr (case todo of None \<Rightarrow> [] | Some t \<Rightarrow> t_text t)),
            (''agent_id'', JStr []),
            (''selected_by'', JStr ''unclaimed_todo''),
            (''confidence'', JStr ''candidate''),
            (''claim_required_before_work'', JBool True)])"

section \<open>The packet\<close>

definition one_f64 :: f64 where
  "one_f64 = 0x3FF0000000000000"

definition packet_replan_required :: "goal \<Rightarrow> sys_time \<Rightarrow> turn_mode \<Rightarrow> bool" where
  "packet_replan_required g now mode \<longleftrightarrow>
     (case mode of
        Replan \<Rightarrow> True
      | _ \<Rightarrow> length (open_gates_at g now) > 0 \<or> length (completed_without_closure_intent g) > 0
            \<or> list_ex is_monitor_stalled (open_monitors_at g now) \<or> unsatisfied_gaps g \<noteq> [])"

definition packet_contract :: "turn_mode \<Rightarrow> user_channel \<Rightarrow> agent_channel \<Rightarrow> interaction_contract"
where
  "packet_contract mode uc ac =
     \<lparr>ic_schema_version = INTERACTION_CONTRACT_SCHEMA_VERSION, ic_mode = mode,
      ic_user_channel = uc, ic_agent_channel = ac,
      ic_cli_channel =
        \<lparr>cc_next_cli_actions = [''loopx refresh-state'', ''loopx quota spend-slot''],
         cc_spend_allowed_now = False, cc_spend_after_validation = True,
         cc_spend_policy = ''spend once after validated writeback''\<rparr>\<rparr>"

text \<open>The struct literal \<open>packet\<close> builds, before the arbitration is applied.\<close>

definition packet_raw ::
  "kernel_env \<Rightarrow> goal \<Rightarrow> sys_time \<Rightarrow> decision_reason_code \<Rightarrow> string \<Rightarrow> bool \<Rightarrow> string
   \<Rightarrow> turn_mode \<Rightarrow> string \<Rightarrow> user_channel \<Rightarrow> agent_channel \<Rightarrow> should_run_packet" where
  "packet_raw e g now reason_code decision should_run effective_action mode reason uc ac =
     (let must_attempt = ac_must_attempt ac;
          gates = length (open_gates_at g now);
          summary = todo_summary_at g now in
      \<lparr>p_ok = True, p_mode = ''should-run'', p_goal_id = g_goal_id g, p_decision = decision,
       p_should_run = should_run, p_effective_action = effective_action, p_reason = reason,
       p_reason_code = reason_code_str reason_code,
       p_state = (if should_run then ''eligible'' else ''waiting''),
       p_waiting_on = ''codex'',
       p_status =
         (case mode of
            Terminal \<Rightarrow> ''validated_closure''
          | Replan \<Rightarrow> ''replan_required''
          | AskUser \<Rightarrow> ''waiting_on_user''
          | WaitMonitor \<Rightarrow> ''quiet_wait''
          | _ \<Rightarrow> ''connected_without_run''),
       p_source = ''run_history'',
       p_recommended_action =
         (case mode of
            Terminal \<Rightarrow> ''validated closure; stop recurring automation''
          | AskUser \<Rightarrow> ''resolve the user gate before gated work''
          | Replan \<Rightarrow> ''record a frontier-changing replan delta''
          | _ \<Rightarrow> reason),
       p_rollout_event =
         Some \<lparr>re_schema_version = ''future_goal_rollout_event_v0'', re_event_id = ke_uuid e,
               re_event_kind = ''quota_should_run'',
               re_recorded_at = ke_rfc3339 e (secs_of now), re_status = decision\<rparr>,
       p_status_health_ok = True,
       p_normal_delivery_allowed = (mode = BoundedDelivery),
       p_recovery_delivery_allowed = False,
       p_self_repair_allowed = (mode = Replan),
       p_capability_repair_allowed = False,
       p_workspace_repair_allowed = False,
       p_actionable_by_codex = should_run,
       p_requires_user_action = (mode = AskUser),
       p_action_required = (mode = AskUser),
       p_selected_todo = map_option (selected_todo_json g) (ac_selected_todo ac),
       p_open_count =
         length (filter (\<lambda>t. t_role t = User \<and> t_status t = Open) (g_todos g)),
       p_blocked_action_scope = None,
       p_safe_bypass_allowed = False,
       p_safe_bypass_kind = None,
       p_safe_bypass_policy = None,
       p_lifecycle_phase = (if mode = Terminal then ''closed'' else ''connected''),
       p_lifecycle_flags = (if mode = Terminal then [''closed''] else [''connected'']),
       p_project_asset_source = Some ''project_asset'',
       p_active_state_next_action = g_next_action g,
       p_latest_run_recommended_action = g_next_action g,
       p_interaction_contract = packet_contract mode uc ac,
       p_work_lane_contract =
         \<lparr>wl_schema_version = ''work_lane_contract_v1'', wl_lane = lane_at g now,
          wl_obligation = ''advance_one_bounded_segment'',
          wl_must_attempt_work = must_attempt,
          wl_reason_codes =
            (if ac_selected_todo ac \<noteq> None then [''open_agent_todo'']
             else if gates > 0 then [''open_user_gate'']
             else if unsatisfied_gaps g \<noteq> [] then [''acceptance_gap'']
             else [''no_runnable_work''])\<rparr>,
       p_execution_obligation =
         \<lparr>eo_must_attempt_work = must_attempt, eo_kind = ''work_lane_contract'',
          eo_reason = ''work_lane_contract.obligation is the machine execution contract''\<rparr>,
       p_automation_liveness =
         \<lparr>al_keep_active = (mode \<noteq> Terminal), al_pause_allowed = (mode = Terminal),
          al_action =
            (case mode of
               Terminal \<Rightarrow> ''pause''
             | WaitMonitor \<Rightarrow> ''quiet_wait''
             | _ \<Rightarrow> ''execute_bounded_work''),
          al_reason =
            (if mode = Terminal
             then ''validated closure '' @ em_dash @ '' no recurring automation''
             else ''execution obligation keeps the loop alive''),
          al_pause_policy =
            ''pause/delete only after a bounded self-repair or replan path is itself stuck for more eligible turns''\<rparr>,
       p_heartbeat_recommendation = recommendation mode must_attempt,
       p_scheduler_hint =
         \<lparr>sh_schema_version = ''scheduler_hint_v0'',
          sh_action =
            (case mode of
               Terminal \<Rightarrow> ''stop''
             | WaitMonitor \<Rightarrow> ''wait_until_due''
             | _ \<Rightarrow> ''tick_next''),
          sh_cadence_class =
            (case mode of
               Terminal \<Rightarrow> ''terminal''
             | WaitMonitor \<Rightarrow> ''monitor_backoff''
             | _ \<Rightarrow> ''bounded_segment''),
          sh_next_due_ms = None\<rparr>,
       p_quota =
         \<lparr>qs_compute = one_f64, qs_allowed_slots = QUOTA_ALLOWED_SLOTS,
          qs_spent_slots = length (g_history g),
          qs_state = (if should_run then ''eligible'' else ''waiting'')\<rparr>,
       p_execution_profile =
         \<lparr>es_cadence = x_cadence (g_execution_profile g),
          es_spend_rule = x_spend_rule (g_execution_profile g),
          es_outcome_floor_streak_threshold =
            x_outcome_floor_streak_threshold (g_execution_profile g),
          es_surface_streak = g_outcome_streak g\<rparr>,
       p_replan_ack =
         \<lparr>ra_recorded = (case g_replan_ack g of None \<Rightarrow> False | Some a \<Rightarrow> k_recorded a),
          ra_delta_kinds = (case g_replan_ack g of None \<Rightarrow> [] | Some a \<Rightarrow> k_delta_kinds a),
          ra_frontier_delta_present =
            (case g_replan_ack g of None \<Rightarrow> False | Some a \<Rightarrow> has_frontier_delta a)\<rparr>,
       p_authority =
         \<lparr>as_write_scope = au_write_scope (g_authority g),
          as_requires_approval = au_requires_approval (g_authority g),
          as_pending_approvals = []\<rparr>,
       p_boundary = boundary_snapshot (ke_home e) g,
       p_frontier_projection =
         frontier_projection_at g (packet_replan_required g now mode) now,
       p_agent_todo_summary = Some summary,
       p_user_todo_summary = Some summary,
       p_todo_summary_projection = None,
       p_goal_boundary = Some (goal_boundary_json g),
       p_plan_summary = None,
       p_todo_write_hint = Some ''loopx todo update'',
       p_agent_identity = Some (JObj []),
       p_agent_lane_frontier_hint = None,
       p_agent_lane_next_action = None,
       p_goal_route_hint = Some (turn_mode_str mode),
       p_task_scope = Some ''goal'',
       p_handoff_readiness = None,
       p_long_task_cadence_hint = None,
       p_promotion_readiness_warning = None,
       p_autonomous_backlog_candidates = None,
       p_protocol_action_packet = None,
       p_scheduler_arbitration = None,
       p_terminal_closure = None,
       p_decision_freshness = g_decision_freshness g\<rparr>)"

definition packet ::
  "kernel_env \<Rightarrow> goal \<Rightarrow> sys_time \<Rightarrow> decision_reason_code \<Rightarrow> string \<Rightarrow> bool \<Rightarrow> string
   \<Rightarrow> turn_mode \<Rightarrow> string \<Rightarrow> user_channel \<Rightarrow> agent_channel \<Rightarrow> should_run_packet" where
  "packet e g now reason_code decision should_run effective_action mode reason uc ac =
     apply_arbitration ARBITRATION_ENFORCEMENT
       (packet_raw e g now reason_code decision should_run effective_action mode reason uc ac)"

definition replan_packet ::
  "kernel_env \<Rightarrow> goal \<Rightarrow> sys_time \<Rightarrow> decision_reason_code \<Rightarrow> string \<Rightarrow> should_run_packet" where
  "replan_packet e g now code reason =
     packet e g now code ''replan'' True ''replan'' Replan reason user_channel_none
       (agent_channel None None None True False False)"

definition with_next_due_ms :: "u64 option \<Rightarrow> should_run_packet \<Rightarrow> should_run_packet" where
  "with_next_due_ms ms p =
     p\<lparr>p_scheduler_hint := (p_scheduler_hint p)\<lparr>sh_next_due_ms := ms\<rparr>\<rparr>"

definition identity_gate ::
  "kernel_env \<Rightarrow> goal \<Rightarrow> string option \<Rightarrow> sys_time \<Rightarrow> should_run_packet option" where
  "identity_gate e g agent now =
     (if is_registered_agent g agent then None
      else Some ((packet e g now IdentityNotRegistered ''skip'' False
                   ''automation_prompt_upgrade_required'' WaitMonitor
                   ''quota should-run --agent-id requires coordination.registered_agents; register this agent identity first''
                   user_channel_none (agent_channel None None None False False True))
                 \<lparr>p_ok := False, p_state := ''blocked_health'',
                  p_status := ''quota_collection_failed''\<rparr>))"

section \<open>The pipeline\<close>

text \<open>The quiet-wait packet of steps 2c, 4, 5b and 5c.\<close>

definition wait_packet ::
  "kernel_env \<Rightarrow> goal \<Rightarrow> sys_time \<Rightarrow> decision_reason_code \<Rightarrow> string \<Rightarrow> should_run_packet" where
  "wait_packet e g now code reason =
     packet e g now code ''wait'' False ''quiet_wait'' WaitMonitor reason user_channel_none
       (agent_channel None None None False False True)"

text \<open>Step 0a.\<close>

definition cancelled_packet :: "kernel_env \<Rightarrow> goal \<Rightarrow> sys_time \<Rightarrow> should_run_packet" where
  "cancelled_packet e g now =
     (packet e g now GoalCancelled ''skip'' False ''cancelled'' Terminal
        (''goal was cancelled '' @ em_dash
         @ '' automation stopped, state retained for audit'')
        user_channel_none (agent_channel None None None False False True))
     \<lparr>p_status := ''cancelled''\<rparr>"

text \<open>Step 1: open user gates.\<close>

definition gate_question_text :: "todo \<Rightarrow> string" where
  "gate_question_text t = (case t_gate_question t of Some q \<Rightarrow> q | None \<Rightarrow> t_text t)"

definition gate_packet ::
  "kernel_env \<Rightarrow> goal \<Rightarrow> sys_time \<Rightarrow> todo list \<Rightarrow> todo list \<Rightarrow> todo list \<Rightarrow> should_run_packet" where
  "gate_packet e g now gates user_actions runnable =
     (let question0 = join '' | '' (map gate_question_text gates);
          question = (if user_actions \<noteq> []
                      then question0 @ '' | (actions) '' @ join '' | '' (map t_text user_actions)
                      else question0);
          first = (case runnable of [] \<Rightarrow> None | t # _ \<Rightarrow> Some t);
          fallback = map_option t_id first;
          has_fallback = (fallback \<noteq> None)
      in packet e g now OpenUserGate ''run'' True ''ask_user'' AskUser
           (''open user gate(s): '' @ join '', '' (map t_id gates))
           \<lparr>uc_action_required = True, uc_notify = ''NOTIFY'', uc_question = Some question,
            uc_todo_ids = map t_id gates\<rparr>
           (agent_channel (map_option t_text first) None fallback has_fallback has_fallback
              False))"

text \<open>Step 2: the first runnable todo, with the advisories in its reason.\<close>

definition delivery_packet ::
  "kernel_env \<Rightarrow> goal \<Rightarrow> sys_time \<Rightarrow> todo list \<Rightarrow> todo \<Rightarrow> should_run_packet" where
  "delivery_packet e g now user_actions t =
     (let advisories = todo_signals g t;
          attempt = t_failed_attempts t + 1;
          (reason0, code) =
            (if attempt > 1
             then (''repair attempt '' @ dec attempt @ '' for todo '' @ t_id t, RepairAttempt)
             else (''runnable todo '' @ t_id t, RunnableTodo));
          reason = (if advisories = [] then reason0
                    else reason0 @ '' '' @ join '' '' advisories);
          uc = (if user_actions \<noteq> []
                then \<lparr>uc_action_required = True, uc_notify = ''NOTIFY'',
                      uc_question = Some (join '' | '' (map t_text user_actions)),
                      uc_todo_ids = map t_id user_actions\<rparr>
                else user_channel_none)
      in packet e g now code ''run'' True ''normal_run'' BoundedDelivery reason uc
           (agent_channel (Some (t_text t)) (Some (t_id t)) None True True False))"

text \<open>Step 4, for the outcome of the monitor lane.\<close>

definition monitor_packet ::
  "kernel_env \<Rightarrow> goal \<Rightarrow> sys_time \<Rightarrow> monitor_outcome \<Rightarrow> should_run_packet option" where
  "monitor_packet e g now outcome =
     (case outcome of
        Stalled m \<Rightarrow>
          Some (wait_packet e g now MonitorStalled
            (''monitor '' @ t_id m @ '' stalled ('' @ dec (t_consecutive_no_change m)
             @ '' consecutive no-change polls) '' @ em_dash
             @ '' signal, not a directive: consider watch-lane expiry, a blocker, or superseding the monitor''))
      | Due due \<Rightarrow>
          Some (packet e g now MonitorDue ''run'' True ''monitor_poll'' MonitorPoll
            (''monitor '' @ t_id (hd due) @ '' due '' @ em_dash
             @ '' one read-only poll, no spend on no-change'')
            user_channel_none
            (agent_channel (Some (t_text (hd due))) (Some (t_id (hd due))) None True True False))
      | Waiting ms \<Rightarrow>
          Some (with_next_due_ms ms
            (wait_packet e g now MonitorBackoff
               (''monitor(s) present, none due '' @ em_dash @ '' quiet wait with backoff'')))
      | NoMonitors \<Rightarrow> None)"

text \<open>Steps 5b and 5c: work that is pending, but not for this agent or not yet.\<close>

definition deferred_not_due :: "goal \<Rightarrow> sys_time \<Rightarrow> bool" where
  "deferred_not_due g now \<longleftrightarrow>
     list_ex (\<lambda>t. t_status t = Deferred \<and> \<not> is_due_deferred now t) (g_todos g)"

definition unavailable_work :: "goal \<Rightarrow> sys_time \<Rightarrow> bool" where
  "unavailable_work g now \<longleftrightarrow>
     list_ex (\<lambda>t. t_class t = Advancement
                  \<and> (t_status t = Open \<or> (t_status t = Deferred \<and> is_due_deferred now t)))
       (g_todos g)"

definition owner_ids :: "goal \<Rightarrow> string list" where
  "owner_ids g = sorted_list_of_set (set (List.map_filter t_owner (g_todos g)))"

text \<open>Step 6: the terminal judgement.\<close>

definition gap_label :: "terminal_gap \<Rightarrow> string" where
  "gap_label gap =
     tg_kind gap @ '':''
     @ (case tg_gap_id gap of
          Some i \<Rightarrow> i
        | None \<Rightarrow> (case tg_todo_id gap of Some i \<Rightarrow> i | None \<Rightarrow> ''-''))"

definition closure_packet :: "kernel_env \<Rightarrow> goal \<Rightarrow> sys_time \<Rightarrow> should_run_packet" where
  "closure_packet e g now =
     (packet e g now ValidatedClosure ''skip'' False ''terminal_no_followup'' Terminal
        (''validated closure: todos done, gaps closed, closure intent declared '' @ em_dash
         @ '' stop recurring automation until an explicit resume'')
        user_channel_none (agent_channel None None None False False True))
     \<lparr>p_terminal_closure :=
         Some \<lparr>tc_kind = ''no_followup'', tc_derived = True,
               tc_source = ''validated_goal_closure''\<rparr>\<rparr>"

definition terminal_packet :: "kernel_env \<Rightarrow> goal \<Rightarrow> sys_time \<Rightarrow> should_run_packet" where
  "terminal_packet e g now =
     (let judgement = terminal_judgement_at g now in
      if \<not> tj_terminal judgement
      then replan_packet e g now AcceptanceGapOpen
             (''terminal judgement open gaps: '' @ join '', '' (map gap_label (tj_gaps judgement)))
      else closure_packet e g now)"

text \<open>Steps 2c to 6: nothing is runnable and no gate is open.\<close>

definition idle_packet :: "kernel_env \<Rightarrow> goal \<Rightarrow> sys_time \<Rightarrow> should_run_packet" where
  "idle_packet e g now =
     (let blockers = open_of_at g Blocker now;
          unclosed = completed_without_closure_intent g;
          gaps = unsatisfied_gaps g
      in if blockers \<noteq> []
         then wait_packet e g now BlockedNoFallback
                (''waiting on blocker(s): '' @ join '', '' (map t_id blockers) @ '' '' @ em_dash
                 @ '' no runnable fallback'')
         else if unclosed \<noteq> []
         then replan_packet e g now SuccessionClosureMissing
                (''completed advancement without closure intent: ''
                 @ join '', '' (map t_id unclosed) @ '' '' @ em_dash
                 @ '' complete must declare successor or --no-follow-up'')
         else (case monitor_packet e g now (eval_monitors g now) of
                 Some p \<Rightarrow> p
               | None \<Rightarrow>
                   if gaps \<noteq> []
                   then replan_packet e g now AcceptanceGapOpen
                          (''acceptance gap(s) open with no runnable work: ''
                           @ join '', '' (map a_id gaps))
                   else if deferred_not_due g now
                   then wait_packet e g now DeferredNotDue
                          (''deferred todo(s) not yet due '' @ em_dash
                           @ '' quiet wait with backoff'')
                   else if unavailable_work g now
                   then wait_packet e g now WorkLeasedToOthers
                          (''open advancement(s) unavailable to this agent (blocked, leased to other agents, or owner-scoped); owner IDs are case-sensitive: ''
                           @ join '', '' (owner_ids g) @ '' '' @ em_dash
                           @ '' goal is not closed'')
                   else terminal_packet e g now))"

definition decide_for ::
  "kernel_env \<Rightarrow> goal \<Rightarrow> sys_time \<Rightarrow> string option \<Rightarrow> should_run_packet" where
  "decide_for e g now agent =
     (if g_status g = ''cancelled'' then cancelled_packet e g now
      else (case identity_gate e g agent now of
              Some p \<Rightarrow> p
            | None \<Rightarrow>
                let gates = open_gates_at g now;
                    user_actions = open_of_at g UserAction now;
                    runnable = sorted_runnable_at g agent now
                in if gates \<noteq> [] then gate_packet e g now gates user_actions runnable
                   else (case runnable of
                           t # _ \<Rightarrow> delivery_packet e g now user_actions t
                         | [] \<Rightarrow> idle_packet e g now)))"

definition decide :: "kernel_env \<Rightarrow> goal \<Rightarrow> sys_time \<Rightarrow> should_run_packet" where
  "decide e g now = decide_for e g now None"

text \<open>\<open>complete_todo\<close>: the completion helper of the kernel.\<close>

definition complete_todo :: "u64 \<Rightarrow> string \<Rightarrow> bool \<Rightarrow> string list \<Rightarrow> goal \<Rightarrow> goal" where
  "complete_todo now tid no_follow_up successors g =
     on_todo tid (todo_complete now no_follow_up successors) g"

section \<open>Every contract the kernel builds is sound\<close>

definition view ::
  "should_run_packet \<Rightarrow> turn_mode \<times> string \<times> string option \<times> string option" where
  "view p = (let c = p_interaction_contract p in
     (ic_mode c, p_reason_code p, ac_selected_todo (ic_agent_channel c),
      ac_fallback_todo (ic_agent_channel c)))"

text \<open>What every decision promises about its own fields.\<close>

definition coherent :: "should_run_packet \<Rightarrow> bool" where
  "coherent p \<longleftrightarrow>
     contract_sound (p_interaction_contract p)
     \<and> (let mode = ic_mode (p_interaction_contract p) in
          p_should_run p = (mode \<noteq> WaitMonitor \<and> mode \<noteq> Terminal)
          \<and> p_normal_delivery_allowed p = (mode = BoundedDelivery)
          \<and> p_self_repair_allowed p = (mode = Replan)
          \<and> p_requires_user_action p = (mode = AskUser)
          \<and> al_keep_active (p_automation_liveness p) = (mode \<noteq> Terminal)
          \<and> al_pause_allowed (p_automation_liveness p) = (mode = Terminal)
          \<and> (sh_action (p_scheduler_hint p) = ''stop'') = (mode = Terminal))
     \<and> p_scheduler_arbitration p
         = Some (build_scheduler_arbitration (p_interaction_contract p) [])
     \<and> p_decision p \<noteq> ''consistency_repair''"

definition mode_runs :: "turn_mode \<Rightarrow> bool" where
  "mode_runs m \<longleftrightarrow> m \<noteq> WaitMonitor \<and> m \<noteq> Terminal"

lemma contract_sound_packet:
  "contract_sound (packet_contract mode uc ac) \<longleftrightarrow>
     (ac_delivery_allowed ac \<longrightarrow> ac_must_attempt ac)
     \<and> (ac_quiet_noop_allowed ac \<longrightarrow> \<not> ac_must_attempt ac \<and> \<not> uc_action_required uc)
     \<and> (mode = Terminal \<longrightarrow>
          ac_quiet_noop_allowed ac \<and> \<not> ac_must_attempt ac \<and> \<not> uc_action_required uc)"
  by (simp add: contract_sound_def packet_contract_def)

lemma packet_raw_contract [simp]:
  "p_interaction_contract (packet_raw e g now code d sr eff mode reason uc ac)
     = packet_contract mode uc ac"
  by (simp add: packet_raw_def Let_def)

lemma packet_sound:
  assumes "contract_sound (packet_contract mode uc ac)"
  shows "packet e g now code d sr eff mode reason uc ac
    = (packet_raw e g now code d sr eff mode reason uc ac)
        \<lparr>p_scheduler_arbitration :=
            Some (build_scheduler_arbitration (packet_contract mode uc ac) [])\<rparr>"
  using assms by (simp add: packet_def apply_arbitration_sound)

lemma view_packet:
  assumes "contract_sound (packet_contract mode uc ac)"
  shows "view (packet e g now code d sr eff mode reason uc ac)
    = (mode, reason_code_str code, ac_selected_todo ac, ac_fallback_todo ac)"
  unfolding packet_sound [OF assms] view_def Let_def
  by (simp add: packet_raw_def Let_def packet_contract_def)

lemma coherent_packet:
  assumes "contract_sound (packet_contract mode uc ac)" "sr = mode_runs mode"
    "d \<noteq> ''consistency_repair''"
  shows "coherent (packet e g now code d sr eff mode reason uc ac)"
  unfolding packet_sound [OF assms(1)] coherent_def Let_def
  using assms
  by (cases mode) (simp_all add: packet_raw_def Let_def packet_contract_def mode_runs_def)

lemma agent_channel_simps [simp]:
  "ac_must_attempt (agent_channel p s f m d q) = m"
  "ac_delivery_allowed (agent_channel p s f m d q) = d"
  "ac_quiet_noop_allowed (agent_channel p s f m d q) = q"
  "ac_primary_action (agent_channel p s f m d q) = p"
  "ac_selected_todo (agent_channel p s f m d q) = s"
  "ac_fallback_todo (agent_channel p s f m d q) = f"
  by (simp_all add: agent_channel_def)

lemma user_channel_none_quiet [simp]: "\<not> uc_action_required user_channel_none"
  by (simp add: user_channel_none_def)

named_theorems step_defs \<open>the packets of the pipeline steps\<close>

lemmas [step_defs] = cancelled_packet_def wait_packet_def gate_packet_def delivery_packet_def
  replan_packet_def closure_packet_def with_next_due_ms_def

lemma view_ignores [simp]:
  "view (p\<lparr>p_status := x\<rparr>) = view p" "view (p\<lparr>p_ok := b\<rparr>) = view p"
  "view (p\<lparr>p_state := x\<rparr>) = view p" "view (p\<lparr>p_terminal_closure := c\<rparr>) = view p"
  "view (p\<lparr>p_scheduler_hint := h\<rparr>) = view p"
  by (simp_all add: view_def)

lemma coherent_ignores [simp]:
  "coherent (p\<lparr>p_status := x\<rparr>) = coherent p" "coherent (p\<lparr>p_ok := b\<rparr>) = coherent p"
  "coherent (p\<lparr>p_state := x\<rparr>) = coherent p"
  "coherent (p\<lparr>p_terminal_closure := c\<rparr>) = coherent p"
  "coherent (with_next_due_ms ms p) = coherent p"
  by (simp_all add: coherent_def with_next_due_ms_def)

lemma step_views:
  "view (cancelled_packet e g now) = (Terminal, ''goal_cancelled'', None, None)"
  "view (wait_packet e g now code reason) = (WaitMonitor, reason_code_str code, None, None)"
  "view (replan_packet e g now code reason) = (Replan, reason_code_str code, None, None)"
  "view (closure_packet e g now) = (Terminal, ''validated_closure'', None, None)"
  "view (gate_packet e g now gates actions runnable)
     = (AskUser, ''open_user_gate'', None,
        map_option t_id (case runnable of [] \<Rightarrow> None | t # _ \<Rightarrow> Some t))"
  "view (delivery_packet e g now actions t)
     = (BoundedDelivery,
        (if t_failed_attempts t > 0 then ''repair_attempt'' else ''runnable_todo''),
        Some (t_id t), None)"
  "view (with_next_due_ms ms p) = view p"
  by (simp_all add: step_defs view_packet contract_sound_packet Let_def split: list.split)

lemma step_coherent:
  "coherent (cancelled_packet e g now)" "coherent (wait_packet e g now code reason)"
  "coherent (replan_packet e g now code reason)" "coherent (closure_packet e g now)"
  "coherent (gate_packet e g now gates actions runnable)"
  "coherent (delivery_packet e g now actions t)"
  by (simp_all add: step_defs coherent_packet contract_sound_packet mode_runs_def Let_def
      split: list.split)

lemma monitor_packet_coherent: "monitor_packet e g now m = Some p \<Longrightarrow> coherent p"
  by (auto simp: monitor_packet_def coherent_packet contract_sound_packet mode_runs_def
        step_coherent split: monitor_outcome.splits)

lemma identity_gate_coherent: "identity_gate e g agent now = Some p \<Longrightarrow> coherent p"
  by (auto simp: identity_gate_def coherent_packet contract_sound_packet mode_runs_def
      split: if_splits)

lemma idle_coherent: "coherent (idle_packet e g now)"
  by (auto simp: idle_packet_def Let_def step_coherent terminal_packet_def
      dest: monitor_packet_coherent split: option.split)

lemma decide_coherent: "coherent (decide_for e g now agent)"
  by (auto simp: decide_for_def Let_def step_coherent idle_coherent
      dest: identity_gate_coherent split: option.split list.split)

section \<open>The pipeline as an ordered table\<close>

text \<open>The abstract specification of one decision: which mode, under which code, selecting
  which todo. The first row that applies wins.\<close>

definition monitor_verdict ::
  "monitor_outcome \<Rightarrow> (turn_mode \<times> string \<times> string option \<times> string option) option" where
  "monitor_verdict outcome =
     (case outcome of
        Stalled m \<Rightarrow> Some (WaitMonitor, ''monitor_stalled'', None, None)
      | Due due \<Rightarrow> Some (MonitorPoll, ''monitor_due'', Some (t_id (hd due)), None)
      | Waiting ms \<Rightarrow> Some (WaitMonitor, ''monitor_backoff'', None, None)
      | NoMonitors \<Rightarrow> None)"

definition idle_verdict ::
  "goal \<Rightarrow> sys_time \<Rightarrow> turn_mode \<times> string \<times> string option \<times> string option" where
  "idle_verdict g now =
     (if open_of_at g Blocker now \<noteq> [] then (WaitMonitor, ''blocked_no_fallback'', None, None)
      else if completed_without_closure_intent g \<noteq> []
      then (Replan, ''succession_closure_missing'', None, None)
      else (case monitor_verdict (eval_monitors g now) of
              Some v \<Rightarrow> v
            | None \<Rightarrow>
                if unsatisfied_gaps g \<noteq> [] then (Replan, ''acceptance_gap_open'', None, None)
                else if deferred_not_due g now
                then (WaitMonitor, ''deferred_not_due'', None, None)
                else if unavailable_work g now
                then (WaitMonitor, ''work_leased_to_others'', None, None)
                else if \<not> is_terminal g then (Replan, ''acceptance_gap_open'', None, None)
                else (Terminal, ''validated_closure'', None, None)))"

definition verdict ::
  "goal \<Rightarrow> sys_time \<Rightarrow> string option
   \<Rightarrow> turn_mode \<times> string \<times> string option \<times> string option" where
  "verdict g now agent =
     (let runnable = sorted_runnable_at g agent now in
      if g_status g = ''cancelled'' then (Terminal, ''goal_cancelled'', None, None)
      else if \<not> is_registered_agent g agent
      then (WaitMonitor, ''identity_not_registered'', None, None)
      else if open_gates_at g now \<noteq> []
      then (AskUser, ''open_user_gate'', None,
            (if runnable = [] then None else Some (t_id (hd runnable))))
      else if runnable \<noteq> []
      then (BoundedDelivery,
            (if t_failed_attempts (hd runnable) > 0 then ''repair_attempt''
             else ''runnable_todo''),
            Some (t_id (hd runnable)), None)
      else idle_verdict g now)"

lemma monitor_packet_view:
  "map_option view (monitor_packet e g now m) = monitor_verdict m"
  by (cases m)
     (simp_all add: monitor_packet_def monitor_verdict_def step_views view_packet
        contract_sound_packet)

lemma idle_packet_view: "view (idle_packet e g now) = idle_verdict g now"
proof (cases "monitor_packet e g now (eval_monitors g now)")
  case None
  then have "monitor_verdict (eval_monitors g now) = None"
    using monitor_packet_view [of e g now "eval_monitors g now"] by simp
  with None show ?thesis
    by (simp add: idle_packet_def idle_verdict_def Let_def step_views terminal_packet_def
        terminal_judgement_iff)
next
  case (Some p)
  then have "monitor_verdict (eval_monitors g now) = Some (view p)"
    using monitor_packet_view [of e g now "eval_monitors g now"] by simp
  with Some show ?thesis
    by (simp add: idle_packet_def idle_verdict_def Let_def step_views)
qed

lemma decide_view: "view (decide_for e g now agent) = verdict g now agent"
  by (auto simp: decide_for_def verdict_def identity_gate_def Let_def step_views
        idle_packet_view view_packet contract_sound_packet split: list.split)

definition mode_of :: "should_run_packet \<Rightarrow> turn_mode" where
  "mode_of p = ic_mode (p_interaction_contract p)"

definition selected_of :: "should_run_packet \<Rightarrow> string option" where
  "selected_of p = ac_selected_todo (ic_agent_channel (p_interaction_contract p))"

definition fallback_of :: "should_run_packet \<Rightarrow> string option" where
  "fallback_of p = ac_fallback_todo (ic_agent_channel (p_interaction_contract p))"

lemma view_parts: "view p = (mode_of p, p_reason_code p, selected_of p, fallback_of p)"
  by (simp add: view_def mode_of_def selected_of_def fallback_of_def Let_def)

lemma mode_of_decide: "mode_of (decide_for e g now agent) = fst (verdict g now agent)"
  by (metis decide_view view_parts fst_conv)

lemma selected_of_decide:
  "selected_of (decide_for e g now agent) = fst (snd (snd (verdict g now agent)))"
  by (metis decide_view view_parts fst_conv snd_conv)

lemma fallback_of_decide:
  "fallback_of (decide_for e g now agent) = snd (snd (snd (verdict g now agent)))"
  by (metis decide_view view_parts snd_conv)

lemma monitor_verdict_modes:
  "monitor_verdict m = Some v \<Longrightarrow> fst v = WaitMonitor \<or> fst v = MonitorPoll"
  by (cases m) (auto simp: monitor_verdict_def)

lemma monitor_verdict_None_iff: "monitor_verdict m = None \<longleftrightarrow> m = NoMonitors"
  by (cases m) (auto simp: monitor_verdict_def)

lemma idle_verdict_not_delivery:
  "fst (idle_verdict g now) \<noteq> BoundedDelivery" "fst (idle_verdict g now) \<noteq> AskUser"
  by (auto simp: idle_verdict_def dest: monitor_verdict_modes split: option.split)

lemma terminal_goal_idle:
  assumes "is_terminal g"
  shows "open_of_at g cls now = []" "open_monitors_at g now = []" "open_gates_at g now = []"
    "runnable_advancement_for_at g agent now = []" "\<not> deferred_not_due g now"
    "\<not> unavailable_work g now"
proof -
  have fin: "\<forall>t \<in> set (g_todos g). t_status t = Done \<or> t_status t = Superseded"
    using assms by (simp add: is_terminal_def list_all_iff)
  then have dead: "\<forall>t \<in> set (g_todos g). \<not> live_at now t"
    by (auto simp: live_at_def is_due_deferred_def)
  then show "open_of_at g cls now = []" "open_monitors_at g now = []"
    "open_gates_at g now = []" "runnable_advancement_for_at g agent now = []"
    by (auto simp: open_of_at_def open_monitors_at_def open_gates_at_def
        runnable_advancement_for_at_def filter_eq_Nil_iff)
  show "\<not> deferred_not_due g now" "\<not> unavailable_work g now"
    using fin by (auto simp: deferred_not_due_def unavailable_work_def list_ex_iff)
qed

lemma idle_verdict_Terminal_iff: "fst (idle_verdict g now) = Terminal \<longleftrightarrow> is_terminal g"
proof
  show "is_terminal g" if "fst (idle_verdict g now) = Terminal"
    using that monitor_verdict_modes
    by (fastforce simp: idle_verdict_def split: if_splits option.splits)
next
  assume t: "is_terminal g"
  then have "completed_without_closure_intent g = []" "unsatisfied_gaps g = []"
    by (simp_all add: is_terminal_def)
  moreover have "eval_monitors g now = NoMonitors"
    by (simp add: eval_monitors_None_iff terminal_goal_idle [OF t])
  ultimately show "fst (idle_verdict g now) = Terminal"
    by (simp add: idle_verdict_def terminal_goal_idle [OF t] t monitor_verdict_def)
qed

lemma verdict_Terminal_iff:
  "fst (verdict g now agent) = Terminal \<longleftrightarrow>
     g_status g = ''cancelled'' \<or> (is_registered_agent g agent \<and> is_terminal g)"
  using terminal_goal_idle [of g]
  by (auto simp: verdict_def Let_def idle_verdict_Terminal_iff sorted_runnable_Nil_iff)

lemma verdict_AskUser_iff:
  "fst (verdict g now agent) = AskUser \<longleftrightarrow>
     g_status g \<noteq> ''cancelled'' \<and> is_registered_agent g agent \<and> open_gates_at g now \<noteq> []"
  using idle_verdict_not_delivery by (auto simp: verdict_def Let_def)

lemma verdict_delivery_iff:
  "fst (verdict g now agent) = BoundedDelivery \<longleftrightarrow>
     g_status g \<noteq> ''cancelled'' \<and> is_registered_agent g agent \<and> open_gates_at g now = []
     \<and> runnable_advancement_for_at g agent now \<noteq> []"
  using idle_verdict_not_delivery by (auto simp: verdict_def Let_def sorted_runnable_Nil_iff)

lemma sorted_runnable_hd:
  assumes "runnable_advancement_for_at g agent now \<noteq> []"
  obtains t where "hd (sorted_runnable_at g agent now) = t"
    "t \<in> set (runnable_advancement_for_at g agent now)"
    "\<forall>u \<in> set (runnable_advancement_for_at g agent now). t_priority t \<le> t_priority u"
    "find (\<lambda>u. t_priority u = t_priority t) (runnable_advancement_for_at g agent now) = Some t"
proof -
  obtain t ts where s: "sorted_runnable_at g agent now = t # ts"
    using assms sorted_runnable_Nil_iff [of g agent now] by (meson list.exhaust)
  then have "t \<in> set (runnable_advancement_for_at g agent now)"
    using set_sorted_runnable [of g agent now] by auto
  then show ?thesis
    using that [of t] s hd_sort_key_min [OF s [unfolded sorted_runnable_at_def]]
      hd_sort_key_first [OF s [unfolded sorted_runnable_at_def]] by simp
qed

section \<open>The end of a backoff wait\<close>

text \<open>The state in which the monitor lane decides.\<close>

definition quiet_backoff :: "goal \<Rightarrow> sys_time \<Rightarrow> string option \<Rightarrow> bool" where
  "quiet_backoff g now agent \<longleftrightarrow>
     g_status g \<noteq> ''cancelled'' \<and> is_registered_agent g agent
     \<and> open_of_at g Blocker now = [] \<and> completed_without_closure_intent g = []
     \<and> find is_monitor_stalled (open_monitors_at g now) = None"

lemma eval_monitors_Waiting:
  "eval_monitors g now = Waiting ms \<longleftrightarrow>
     find is_monitor_stalled (open_monitors_at g now) = None
     \<and> filter (monitor_due now) (open_monitors_at g now) = [] \<and> open_monitors_at g now \<noteq> []
     \<and> ms = (let times = List.map_filter t_resume_when (open_monitors_at g now) in
             if times = [] then None else millis_until now (Min (set times)))"
  by (auto simp: eval_monitors_def Let_def split: option.splits)

lemma verdict_backoff:
  assumes "fst (snd (verdict g now agent)) = ''monitor_backoff''"
  shows "g_status g \<noteq> ''cancelled'' \<and> is_registered_agent g agent \<and> open_gates_at g now = []
    \<and> sorted_runnable_at g agent now = [] \<and> open_of_at g Blocker now = []
    \<and> completed_without_closure_intent g = [] \<and> (\<exists>ms. eval_monitors g now = Waiting ms)"
  using assms
  by (auto simp: verdict_def idle_verdict_def monitor_verdict_def Let_def
      split: if_splits option.splits monitor_outcome.splits)

lemma backoff_hint:
  "sh_next_due_ms (p_scheduler_hint (with_next_due_ms ms p)) = ms"
  by (simp add: with_next_due_ms_def)

lemma backoff_decision:
  assumes "p_reason_code (decide_for e g now agent) = ''monitor_backoff''"
  obtains ms where "quiet_backoff g now agent" "eval_monitors g now = Waiting ms"
    "sh_next_due_ms (p_scheduler_hint (decide_for e g now agent)) = ms"
proof -
  have "fst (snd (verdict g now agent)) = ''monitor_backoff''"
    using assms decide_view [of e g now agent] by (metis view_parts fst_conv snd_conv)
  note v = verdict_backoff [OF this]
  then obtain ms where ms: "eval_monitors g now = Waiting ms" by blast
  have "decide_for e g now agent = idle_packet e g now"
    using v by (simp add: decide_for_def identity_gate_def Let_def)
  also have "\<dots> = with_next_due_ms ms
      (wait_packet e g now MonitorBackoff
         (''monitor(s) present, none due '' @ em_dash @ '' quiet wait with backoff''))"
    using v ms by (simp add: idle_packet_def Let_def monitor_packet_def)
  finally have d: "decide_for e g now agent = with_next_due_ms ms
      (wait_packet e g now MonitorBackoff
         (''monitor(s) present, none due '' @ em_dash @ '' quiet wait with backoff''))" .
  show ?thesis
  proof (rule that [OF _ ms])
    show "quiet_backoff g now agent"
      using v ms by (simp add: quiet_backoff_def eval_monitors_Waiting)
    show "sh_next_due_ms (p_scheduler_hint (decide_for e g now agent)) = ms"
      by (simp add: d backoff_hint)
  qed
qed

lemma waiting_monitor_open:
  assumes "eval_monitors g now = Waiting ms" "m \<in> set (open_monitors_at g now)"
  shows "t_status m = Open" "\<And>d. t_resume_when m = Some d \<Longrightarrow> now < d"
proof -
  have nd: "\<not> monitor_due now m"
    using assms by (auto simp: eval_monitors_Waiting filter_empty_conv)
  then show "t_status m = Open"
    using assms(2) by (auto simp: open_monitors_at_def live_at_def is_due_deferred_def
        monitor_due_def split: option.splits)
  show "now < d" if "t_resume_when m = Some d" for d
    using nd that by (simp add: monitor_due_def)
qed

lemma set_map_filter: "set (List.map_filter f xs) = {y. \<exists>x \<in> set xs. f x = Some y}"
  by (force simp: List.map_filter_def)

lemma waiting_None:
  assumes "eval_monitors g now = Waiting None"
  shows "\<forall>m \<in> set (open_monitors_at g now). t_resume_when m = None"
proof (rule ccontr)
  let ?times = "List.map_filter t_resume_when (open_monitors_at g now)"
  assume "\<not> ?thesis"
  then have ne: "?times \<noteq> []"
    using set_map_filter [of t_resume_when "open_monitors_at g now"] by force
  then have "Min (set ?times) \<in> set ?times" by simp
  then obtain m where "m \<in> set (open_monitors_at g now)" "t_resume_when m = Some (Min (set ?times))"
    by (auto simp: set_map_filter)
  then have "now < Min (set ?times)" using waiting_monitor_open [OF assms] by blast
  then have "millis_until now (Min (set ?times)) \<noteq> None"
    by (simp add: millis_until_def)
  then show False
    using assms ne by (simp add: eval_monitors_Waiting Let_def)
qed

lemma millis_bounds:
  "x div 1000000 * 1000000 \<le> x" "x \<le> (x div 1000000 + 1) * 1000000" for x :: int
  by (presburger, presburger)

lemma millis_fit: "x div 1000000 < 2 ^ 64" if "x < 2 ^ 64 * 1000000" for x :: int
  using that by simp

lemma waiting_Some:
  assumes "eval_monitors g now = Waiting (Some k)"
    and "\<forall>m \<in> set (open_monitors_at g now).
           \<forall>d. t_resume_when m = Some d \<longrightarrow> d - now < 2 ^ 64 * 1000000"
  shows "\<exists>m \<in> set (open_monitors_at g now). t_status m = Open
      \<and> (\<forall>later \<ge> now + (int k + 1) * 1000000. monitor_due later m)"
    and "\<forall>m \<in> set (open_monitors_at g now). \<forall>later < now + int k * 1000000.
           \<not> monitor_due later m"
proof -
  let ?ms = "open_monitors_at g now"
  let ?times = "List.map_filter t_resume_when ?ms"
  let ?d = "Min (set ?times)"
  have ne: "?times \<noteq> []" and mu: "millis_until now ?d = Some k"
    using assms(1) by (auto simp: eval_monitors_Waiting Let_def split: if_splits)
  from ne have "?d \<in> set ?times" by simp
  then obtain m where m: "m \<in> set ?ms" "t_resume_when m = Some ?d"
    by (auto simp: set_map_filter)
  note o = waiting_monitor_open [OF assms(1) m(1)]
  have "?d - now < 2 ^ 64 * 1000000"
    using assms(2) m by blast
  note b = millis_bounds [of "?d - now"] millis_fit [OF this]
  have k: "int k = (?d - now) div 1000000"
    using mu o(2) [OF m(2)] b(3)
    by (auto simp: millis_until_def nat_less_iff simp del: power_numeral split: if_splits)
  have lo: "now + int k * 1000000 \<le> ?d" and hi: "?d \<le> now + (int k + 1) * 1000000"
    using b(1,2) unfolding k by linarith+
  show "\<exists>m \<in> set ?ms. t_status m = Open
      \<and> (\<forall>later \<ge> now + (int k + 1) * 1000000. monitor_due later m)"
    using m o(1) hi by (auto simp: monitor_due_def intro!: bexI [of _ m])
  show "\<forall>m \<in> set ?ms. \<forall>later < now + int k * 1000000. \<not> monitor_due later m"
  proof (intro ballI allI impI)
    fix m' later
    assume m': "m' \<in> set ?ms" and l: "later < now + int k * 1000000"
    show "\<not> monitor_due later m'"
    proof (cases "t_resume_when m'")
      case (Some d)
      then have "d \<in> set ?times" using m' by (auto simp: set_map_filter)
      then have "?d \<le> d" by simp
      with l lo Some show ?thesis by (simp add: monitor_due_def)
    qed (simp add: monitor_due_def)
  qed
qed

lemma became_live:
  assumes "\<not> live_at now t" "live_at later t"
  shows "is_due_deferred later t"
  using assms by (auto simp: live_at_def)

text \<open>Once one of the open monitors is due, the kernel runs or something has become due that
  holds the monitor lane.\<close>

lemma backoff_over:
  assumes idle: "quiet_backoff g now agent"
    and m: "m \<in> set (open_monitors_at g now)" "t_status m = Open" "monitor_due later m"
  shows "p_should_run (decide_for e g later agent)
    \<or> (\<exists>t \<in> set (g_todos g). \<not> live_at now t \<and> is_due_deferred later t
         \<and> (t_class t = Blocker \<or> t_class t = Monitor \<and> is_monitor_stalled t))"
proof (rule disjCI)
  assume no: "\<not> (\<exists>t \<in> set (g_todos g). \<not> live_at now t \<and> is_due_deferred later t
         \<and> (t_class t = Blocker \<or> t_class t = Monitor \<and> is_monitor_stalled t))"
  have "open_of_at g Blocker later = []"
    using idle no became_live
    by (fastforce simp: quiet_backoff_def open_of_at_def filter_empty_conv)
  moreover have "find is_monitor_stalled (open_monitors_at g later) = None"
    using idle no became_live
    by (fastforce simp: quiet_backoff_def open_monitors_at_def find_None_iff)
  moreover have "m \<in> set (filter (monitor_due later) (open_monitors_at g later))"
    using m by (auto simp: open_monitors_at_def live_at_def)
  ultimately have "fst (verdict g later agent) \<notin> {WaitMonitor, Terminal}"
    using idle by (auto simp: quiet_backoff_def verdict_def idle_verdict_def monitor_verdict_def
        eval_monitors_def Let_def filter_empty_conv)
  then have "mode_of (decide_for e g later agent) \<notin> {WaitMonitor, Terminal}"
    by (simp add: mode_of_decide)
  then show "p_should_run (decide_for e g later agent)"
    using decide_coherent [of e g later agent] by (simp add: coherent_def mode_of_def Let_def)
qed

section \<open>Properties of the kernel\<close>

text \<open>The packet the kernel emits is the first row of the table that applies: the same turn
  mode, reason code, selected todo and fallback.\<close>

theorem decide_refines_table: "view (decide_for e g now agent) = verdict g now agent"
  by (rule decide_view)

text \<open>A stalled monitor is a quiet wait, although the comments of the module and of the reason
  code announce a replan: the kernel leaves the choice to the agent.\<close>

lemma stalled_monitor_waits:
  assumes "eval_monitors g now = Stalled m" "g_status g \<noteq> ''cancelled''"
    "is_registered_agent g agent" "open_gates_at g now = []"
    "runnable_advancement_for_at g agent now = []" "open_of_at g Blocker now = []"
    "completed_without_closure_intent g = []"
  shows "mode_of (decide_for e g now agent) = WaitMonitor
    \<and> \<not> p_should_run (decide_for e g now agent)"
proof -
  have "mode_of (decide_for e g now agent) = WaitMonitor"
    using assms by (simp add: mode_of_decide verdict_def idle_verdict_def monitor_verdict_def
        sorted_runnable_Nil_iff)
  with decide_coherent [of e g now agent] show ?thesis
    by (simp add: coherent_def mode_of_def Let_def)
qed

text \<open>C1: a backoff wait announces when it ends, and it ends then: with a wake-up \<open>ms\<close> in the
  packet, none of the open monitors is due before \<open>ms\<close> milliseconds are over, and at any clock
  from the next millisecond on the kernel asks the same agent to run, unless a deferred blocker
  or a deferred stalled monitor has become due in between; without a wake-up, no open monitor
  has a time at which it would be due. The waits lie within the 64 bits of the wake-up.\<close>

theorem backoff_wait_ends_as_announced:
  assumes "p_reason_code (decide_for e g now agent) = ''monitor_backoff''"
    and "\<forall>m \<in> set (open_monitors_at g now).
           \<forall>d. t_resume_when m = Some d \<longrightarrow> d - now < 2 ^ 64 * 1000000"
  shows "case sh_next_due_ms (p_scheduler_hint (decide_for e g now agent)) of
      None \<Rightarrow> \<forall>m \<in> set (open_monitors_at g now). t_resume_when m = None
    | Some ms \<Rightarrow>
        (\<forall>m \<in> set (open_monitors_at g now).
           \<forall>later < now + int ms * 1000000. \<not> monitor_due later m)
        \<and> (\<forall>later \<ge> now + (int ms + 1) * 1000000.
             p_should_run (decide_for e g later agent)
             \<or> (\<exists>t \<in> set (g_todos g). \<not> live_at now t \<and> is_due_deferred later t
                  \<and> (t_class t = Blocker \<or> t_class t = Monitor \<and> is_monitor_stalled t)))"
proof -
  obtain ms where idle: "quiet_backoff g now agent" and ms: "eval_monitors g now = Waiting ms"
    and hint: "sh_next_due_ms (p_scheduler_hint (decide_for e g now agent)) = ms"
    using assms(1) by (elim backoff_decision)
  show ?thesis
  proof (cases ms)
    case None
    with waiting_None [OF ms [unfolded None]] hint show ?thesis by simp
  next
    case (Some k)
    with waiting_Some [OF ms [unfolded Some] assms(2)] obtain m where
      early: "\<forall>m \<in> set (open_monitors_at g now). \<forall>later < now + int k * 1000000. \<not> monitor_due later m"
      and m: "m \<in> set (open_monitors_at g now)" "t_status m = Open"
        "\<forall>later \<ge> now + (int k + 1) * 1000000. monitor_due later m"
      by blast
    with backoff_over [OF idle m(1,2)] early hint Some show ?thesis by simp
  qed
qed

text \<open>C2: every packet the kernel emits is coherent: its interaction contract passes the
  arbitration (so the fail-closed consistency repair never rewrites a kernel decision), it
  asks to run exactly outside the wait and terminal modes, and the delivery, repair, user,
  liveness and scheduler fields agree with the mode.\<close>

theorem decide_always_coherent: "coherent (decide_for e g now agent)"
  by (rule decide_coherent)

text \<open>C3: the kernel stops a goal in exactly two cases: it was cancelled, or the identity may
  ask and the goal satisfies \<open>is_terminal\<close> (every todo done or superseded, no acceptance gap,
  no undeclared closure, no unvalidated delivery). Open, deferred, blocked or leased work
  therefore never reads as closed.\<close>

theorem decide_terminal_iff:
  "mode_of (decide_for e g now agent) = Terminal \<longleftrightarrow>
     g_status g = ''cancelled'' \<or> (is_registered_agent g agent \<and> is_terminal g)"
  by (simp add: mode_of_decide verdict_Terminal_iff)

text \<open>C4: a bounded delivery selects a todo of the goal that the asking agent may work on now:
  an advancement todo that is live, not under an unexpired lease of another agent, not owned
  by someone else and not blocked by any gate, blocker or predecessor; no runnable todo has a
  stronger priority, and among those of its priority it comes first in the ledger.\<close>

theorem decide_delivery_selection:
  assumes "mode_of (decide_for e g now agent) = BoundedDelivery"
  shows "\<exists>t. selected_of (decide_for e g now agent) = Some (t_id t) \<and> t \<in> set (g_todos g)
    \<and> t_class t = Advancement \<and> live_at now t \<and> \<not> claimed_by_other agent (secs_of now) t
    \<and> (t_owner t = None \<or> t_owner t = agent) \<and> \<not> is_blocked_at g t now
    \<and> (\<forall>u \<in> set (runnable_advancement_for_at g agent now). t_priority t \<le> t_priority u)
    \<and> find (\<lambda>u. t_priority u = t_priority t) (runnable_advancement_for_at g agent now) = Some t"
proof -
  have v: "g_status g \<noteq> ''cancelled''" "is_registered_agent g agent" "open_gates_at g now = []"
    "runnable_advancement_for_at g agent now \<noteq> []"
    using assms by (simp_all add: mode_of_decide verdict_delivery_iff)
  then obtain t where t: "hd (sorted_runnable_at g agent now) = t"
    "t \<in> set (runnable_advancement_for_at g agent now)"
    "\<forall>u \<in> set (runnable_advancement_for_at g agent now). t_priority t \<le> t_priority u"
    "find (\<lambda>u. t_priority u = t_priority t) (runnable_advancement_for_at g agent now) = Some t"
    by (elim sorted_runnable_hd)
  have "selected_of (decide_for e g now agent) = Some (t_id t)"
    using v t(1) by (simp add: selected_of_decide verdict_def Let_def sorted_runnable_Nil_iff)
  with t(2-4) runnableD [OF t(2)] show ?thesis by blast
qed

text \<open>the ask channel owns the turn exactly while a user gate is open, and the fallback it
  offers is a runnable todo that no open gate blocks.\<close>

theorem decide_gate_scoped:
  "(mode_of (decide_for e g now agent) = AskUser \<longleftrightarrow>
      g_status g \<noteq> ''cancelled'' \<and> is_registered_agent g agent \<and> open_gates_at g now \<noteq> [])
   \<and> (\<forall>i. fallback_of (decide_for e g now agent) = Some i \<longrightarrow>
        (\<exists>t \<in> set (runnable_advancement_for_at g agent now).
           t_id t = i \<and> \<not> is_blocked_at g t now))"
proof
  show "mode_of (decide_for e g now agent) = AskUser \<longleftrightarrow>
      g_status g \<noteq> ''cancelled'' \<and> is_registered_agent g agent \<and> open_gates_at g now \<noteq> []"
    by (simp add: mode_of_decide verdict_AskUser_iff)
  have idle: "snd (snd (snd (idle_verdict g now))) = None"
    by (auto simp: idle_verdict_def monitor_verdict_def split: option.split monitor_outcome.splits)
  show "\<forall>i. fallback_of (decide_for e g now agent) = Some i \<longrightarrow>
      (\<exists>t \<in> set (runnable_advancement_for_at g agent now).
         t_id t = i \<and> \<not> is_blocked_at g t now)"
    using idle set_sorted_runnable [of g agent now] runnableD(6)
    by (auto simp: fallback_of_decide verdict_def Let_def split: if_splits)
      (metis hd_in_set set_sorted_runnable)+
qed

text \<open>C5: the identity gate fails closed: a cancelled goal or an unregistered identity gets a
  packet that neither runs nor delivers nor names a todo.\<close>

theorem decide_identity_fail_closed:
  assumes "g_status g = ''cancelled'' \<or> \<not> is_registered_agent g agent"
  shows "\<not> p_should_run (decide_for e g now agent)
    \<and> \<not> p_normal_delivery_allowed (decide_for e g now agent)
    \<and> selected_of (decide_for e g now agent) = None
    \<and> fallback_of (decide_for e g now agent) = None"
proof -
  have "mode_of (decide_for e g now agent) = Terminal
        \<or> mode_of (decide_for e g now agent) = WaitMonitor"
    using assms by (auto simp: mode_of_decide verdict_def Let_def)
  with decide_coherent [of e g now agent] assms show ?thesis
    by (auto simp: coherent_def mode_of_def selected_of_decide fallback_of_decide verdict_def
        Let_def)
qed

section \<open>Concrete goals\<close>

definition demo_env :: kernel_env where
  "demo_env = \<lparr>ke_home = ''/home/u'', ke_uuid = ''0'', ke_rfc3339 = (\<lambda>s. dec s)\<rparr>"

text \<open>Two advancement todos, the second of priority \<open>P0\<close>.\<close>

definition demo_goal :: goal where
  "demo_goal =
     goal_add ((advancement 0 ''T2'' ''urgent'')\<lparr>t_priority := P0\<rparr>)
       (goal_add (advancement 0 ''T1'' ''work'') (goal_new 0 ''g'' ''objective'' ''/tmp''))"

text \<open>A user gate that blocks \<open>T1\<close> only.\<close>

definition demo_gated_goal :: goal where
  "demo_gated_goal = goal_add (user_gate 0 ''G1'' ''approve?'' [''T1'']) demo_goal"

lemma demo_delivery: "mode_of (decide_for demo_env demo_goal 0 None) = BoundedDelivery"
  unfolding mode_of_decide by code_simp

lemma demo_gated: "fallback_of (decide_for demo_env demo_gated_goal 0 None) = Some ''T2''"
  unfolding fallback_of_decide by code_simp

text \<open>A goal that only watches: its monitor is due in five seconds.\<close>

definition demo_watching_goal :: goal where
  "demo_watching_goal =
     goal_add ((monitor 0 ''M1'' ''watch'' 0)\<lparr>t_resume_when := Some 5000000000\<rparr>)
       (goal_new 0 ''g'' ''objective'' ''/tmp'')"

lemma demo_watching_frontier:
  "g_status demo_watching_goal \<noteq> ''cancelled''" "is_registered_agent demo_watching_goal None"
  "open_gates_at demo_watching_goal 0 = []" "sorted_runnable_at demo_watching_goal None 0 = []"
  "open_of_at demo_watching_goal Blocker 0 = []"
  "completed_without_closure_intent demo_watching_goal = []"
  "find is_monitor_stalled (open_monitors_at demo_watching_goal 0) = None"
  "filter (monitor_due 0) (open_monitors_at demo_watching_goal 0) = []"
  "open_monitors_at demo_watching_goal 0 \<noteq> []"
  by code_simp+

lemma demo_watching:
  "verdict demo_watching_goal 0 None = (WaitMonitor, ''monitor_backoff'', None, None)"
  by (simp add: verdict_def idle_verdict_def monitor_verdict_def eval_monitors_def
      demo_watching_frontier Let_def)

lemma demo_watching_todos:
  "\<forall>t \<in> set (g_todos demo_watching_goal).
     t_status t = Open \<and> t_resume_when t = Some 5000000000 \<and> t_class t = Monitor"
  by (simp add: demo_watching_goal_def goal_add_def monitor_def todo_new_def goal_new_def Let_def)

lemma backoff_wait_ends_as_announced_witness:
  "\<exists>ms. sh_next_due_ms (p_scheduler_hint (decide_for demo_env demo_watching_goal 0 None)) = Some ms
     \<and> (\<forall>later \<ge> (int ms + 1) * 1000000.
          p_should_run (decide_for demo_env demo_watching_goal later None))"
proof -
  have rc: "p_reason_code (decide_for demo_env demo_watching_goal 0 None) = ''monitor_backoff''"
    using decide_view [of demo_env demo_watching_goal 0 None]
    by (simp add: demo_watching view_parts)
  have mem: "\<forall>m \<in> set (open_monitors_at demo_watching_goal 0).
      t_resume_when m = Some 5000000000"
    using demo_watching_todos by (simp add: open_monitors_at_def)
  have dead: "\<not> is_due_deferred later t" if "t \<in> set (g_todos demo_watching_goal)" for later t
    using that demo_watching_todos by (simp add: is_due_deferred_def)
  from backoff_wait_ends_as_announced [OF rc] mem demo_watching_frontier(9) dead
  show ?thesis by (fastforce split: option.splits)
qed

lemma decide_delivery_selection_witness:
  "\<exists>t. selected_of (decide_for demo_env demo_goal 0 None) = Some (t_id t)
     \<and> t \<in> set (g_todos demo_goal) \<and> \<not> is_blocked_at demo_goal t 0"
  using decide_delivery_selection [OF demo_delivery] by blast

lemma decide_gate_scoped_witness:
  "\<exists>t \<in> set (runnable_advancement_for_at demo_gated_goal None 0).
     t_id t = ''T2'' \<and> \<not> is_blocked_at demo_gated_goal t 0"
  using decide_gate_scoped [of demo_env demo_gated_goal 0 None] demo_gated by blast

lemma decide_identity_fail_closed_witness:
  "\<not> p_should_run (decide_for demo_env demo_goal 0 (Some ''ghost''))"
proof -
  have "\<not> is_registered_agent demo_goal (Some ''ghost'')" by code_simp
  then show ?thesis
    using decide_identity_fail_closed [of demo_goal "Some ''ghost''" demo_env 0] by blast
qed

end
