(* ===== verification/Scheduler_State.thy ===== *)
theory Scheduler_State
  imports Signals
begin

text \<open>
  The scheduler of \<open>orchestration/goal/src/scheduler/\<close>: cadences and recurrence rules, the
  retained host update failures and the progression cursor of \<open>state.rs\<close>, and the cadence-aware
  next due time of \<open>monitor_poll.rs\<close>.

  Signed 64-bit minutes are \<open>int\<close>. The hasher of the standard library, whose algorithm is not
  specified, and the RFC 3339 parser are parameters (\<open>hash\<close>, \<open>rfc3339\<close>). The arithmetic of
  the poll interval wraps as in the release build.
\<close>

section \<open>String helpers of the parsers\<close>

definition strip_prefix :: "string \<Rightarrow> string \<Rightarrow> string option" where
  "strip_prefix p s = (if starts_with p s then Some (drop (length p) s) else None)"

fun split_once :: "char \<Rightarrow> string \<Rightarrow> (string \<times> string) option" where
  "split_once c [] = None"
| "split_once c (x # xs) =
     (if x = c then Some ([], xs) else map_option (\<lambda>(a, b). (x # a, b)) (split_once c xs))"

fun words_of :: "string list \<Rightarrow> string \<Rightarrow> string list" where
  "words_of [] w = (if w = [] then [] else [w])"
| "words_of (u # us) w =
     (if is_whitespace u then (if w = [] then [] else [w]) @ words_of us [] else words_of us (w @ u))"

definition split_whitespace :: "string \<Rightarrow> string list" where
  "split_whitespace s = words_of (chars s) []"

text \<open>\<open>to_uppercase\<close>, as far as the comparisons with the ASCII words \<open>FREQ\<close>, \<open>INTERVAL\<close>,
  \<open>MINUTELY\<close>, \<open>P0\<close> and \<open>P2\<close> can see it: besides the ASCII letters only the dotless i becomes one
  of their letters.\<close>

definition upper_unit :: "string \<Rightarrow> string" where
  "upper_unit u = (if u = [CHR 0xC4, CHR 0xB1] then ''I'' else map ascii_upper_char u)"

definition upper :: "string \<Rightarrow> string" where
  "upper s = concat (map upper_unit (chars s))"

definition i64_max :: int where
  "i64_max = 2 ^ 63 - 1"

definition parse_i64 :: "string \<Rightarrow> int option" where
  "parse_i64 s =
     (let neg = (s \<noteq> [] \<and> hd s = CHR ''-'');
          ds = (if s \<noteq> [] \<and> (hd s = CHR ''-'' \<or> hd s = CHR ''+'') then tl s else s);
          v = (if neg then - int (digits_value ds) else int (digits_value ds))
      in if ds = [] \<or> \<not> list_all is_ascii_digit ds then None
         else if - i64_max - 1 \<le> v \<and> v \<le> i64_max then Some v else None)"

section \<open>Cadences and recurrence rules\<close>

definition rrule_for_minutes :: "int \<Rightarrow> string" where
  "rrule_for_minutes minutes = ''FREQ=MINUTELY;INTERVAL='' @ dec_int (max minutes 1)"

definition normalize_scheduler_rrule :: "string \<Rightarrow> string" where
  "normalize_scheduler_rrule value =
     (let text = join '' '' (split_whitespace value) in
      case strip_prefix ''RRULE:'' text of Some t \<Rightarrow> trim t | None \<Rightarrow> text)"

text \<open>The loop over the parts; a part without \<open>=\<close> returns from the function.\<close>

fun rrule_parts ::
  "string list \<Rightarrow> string option \<Rightarrow> int option \<Rightarrow> (string option \<times> int option) option" where
  "rrule_parts [] freq interval = Some (freq, interval)"
| "rrule_parts (part # parts) freq interval =
     (case split_once CHR ''='' part of
        None \<Rightarrow> None
      | Some (key, v) \<Rightarrow>
          (if upper (trim key) = ''FREQ'' then rrule_parts parts (Some (upper (trim v))) interval
           else if upper (trim key) = ''INTERVAL'' then rrule_parts parts freq (parse_i64 (trim v))
           else rrule_parts parts freq interval))"

definition scheduler_rrule_interval_minutes :: "string \<Rightarrow> int option" where
  "scheduler_rrule_interval_minutes value =
     (case rrule_parts (split_on CHR '';'' (normalize_scheduler_rrule value)) None None of
        None \<Rightarrow> None
      | Some (freq, interval) \<Rightarrow>
          (if freq \<noteq> Some ''MINUTELY'' then None
           else case interval of None \<Rightarrow> None | Some i \<Rightarrow> if i > 0 then Some i else None))"

definition rrule_for_cadence_class :: "string \<Rightarrow> string option" where
  "rrule_for_cadence_class cadence_class =
     (let text = ascii_lower (normalize_scheduler_rrule cadence_class) in
      if text \<in> set [''hourly'', ''hour'', ''1h''] then Some (rrule_for_minutes 60)
      else if text \<in> set [''daily'', ''day'', ''1d''] then Some (rrule_for_minutes (24 * 60))
      else if text \<in> set [''weekly'', ''week''] then Some (rrule_for_minutes (7 * 24 * 60))
      else if text \<in> set [''once'', '''', ''none''] then None
      else if starts_with ''freq='' text then Some (normalize_scheduler_rrule cadence_class)
      else None)"

definition cadence_label :: "int \<Rightarrow> string" where
  "cadence_label m =
     (if m mod (7 * 24 * 60) = 0 then dec_int (m div (7 * 24 * 60)) @ ''w''
      else if m mod (24 * 60) = 0 then dec_int (m div (24 * 60)) @ ''d''
      else if m mod 60 = 0 then dec_int (m div 60) @ ''h''
      else dec_int m @ ''m'')"

definition monitor_cadence_secs :: "string \<Rightarrow> u64 option" where
  "monitor_cadence_secs value =
     (let text = trim value;
          digits = takeWhile is_ascii_digit text;
          rest = dropWhile is_ascii_digit text
      in if text = [] \<or> rest = [] then None
         else case parse_u64 digits of
           None \<Rightarrow> None
         | Some n \<Rightarrow>
             (if n = 0 then None
              else (let unit = ascii_lower (trim rest) in
                    if starts_with ''s'' unit then Some n
                    else if starts_with ''m'' unit then checked_mul_u64 n 60
                    else if starts_with ''h'' unit then checked_mul_u64 n 3600
                    else if starts_with ''d'' unit then checked_mul_u64 n 86400
                    else None)))"

definition cadence_poll_interval_secs :: "string option \<Rightarrow> u64 option" where
  "cadence_poll_interval_secs cadence =
     (case map_option trim cadence of
        None \<Rightarrow> None
      | Some cad \<Rightarrow>
          (if cad = [] then None
           else case monitor_cadence_secs cad of
                  Some secs \<Rightarrow> Some secs
                | None \<Rightarrow>
                    map_option (\<lambda>m. nat (max m 1) * 60 mod 2 ^ 64)
                      (Option.bind (rrule_for_cadence_class cad) scheduler_rrule_interval_minutes)))"

definition next_poll_due_epoch :: "u64 \<Rightarrow> string option \<Rightarrow> u64" where
  "next_poll_due_epoch polled_at cadence =
     (polled_at + (case cadence_poll_interval_secs cadence of
                     None \<Rightarrow> MONITOR_NO_CHANGE_BACKOFF_SECS | Some secs \<Rightarrow> secs)) mod 2 ^ 64"

section \<open>Host update failures\<close>

definition SCHEDULER_STATE_SCHEMA_VERSION :: string where
  "SCHEDULER_STATE_SCHEMA_VERSION = ''future_goal_scheduler_state_v0''"

definition SCHEDULER_HOST_UPDATE_FAILURE_SCHEMA_VERSION :: string where
  "SCHEDULER_HOST_UPDATE_FAILURE_SCHEMA_VERSION = ''scheduler_host_update_failure_v0''"

definition SCHEDULER_HOST_UPDATE_FAILURE_CACHE_LIMIT :: usize where
  "SCHEDULER_HOST_UPDATE_FAILURE_CACHE_LIMIT = 4"

definition SCHEDULER_HOST_UPDATE_FAILURE_TTL_SECS :: u64 where
  "SCHEDULER_HOST_UPDATE_FAILURE_TTL_SECS = 24 * 60 * 60"

record host_update_failure =
  hf_schema_version :: string
  hf_target_rrule :: string
  hf_observed_host_rrule :: string
  hf_failure_kind :: string
  hf_failed_at :: string
  hf_failure_count :: u32

definition hf_pair :: "host_update_failure \<Rightarrow> string \<times> string" where
  "hf_pair f = (hf_target_rrule f, hf_observed_host_rrule f)"

text \<open>\<open>obj.get(key)?.as_str()?\<close> and \<open>obj.get(key)?.as_u64()?\<close> on a JSON value.\<close>

fun get_field :: "string \<Rightarrow> json \<Rightarrow> json option" where
  "get_field key (JObj kvs) = map_of kvs key"
| "get_field key _ = None"

fun as_str :: "json \<Rightarrow> string option" where
  "as_str (JStr s) = Some s"
| "as_str _ = None"

fun as_u64 :: "json \<Rightarrow> u64 option" where
  "as_u64 (JNum n) = (if 0 \<le> n \<and> n \<le> int u64_max then Some (nat n) else None)"
| "as_u64 _ = None"

definition str_field :: "string \<Rightarrow> json \<Rightarrow> string option" where
  "str_field key v = Option.bind (get_field key v) as_str"

definition normalize_host_update_failure :: "json \<Rightarrow> host_update_failure option" where
  "normalize_host_update_failure value =
     (if str_field ''schema_version'' value \<noteq> Some SCHEDULER_HOST_UPDATE_FAILURE_SCHEMA_VERSION
      then None
      else case (str_field ''target_rrule'' value, str_field ''failure_kind'' value,
                 str_field ''failed_at'' value,
                 Option.bind (get_field ''failure_count'' value) as_u64) of
        (Some target, Some kind, Some failed, Some n) \<Rightarrow>
          (let f = \<lparr>hf_schema_version = SCHEDULER_HOST_UPDATE_FAILURE_SCHEMA_VERSION,
                    hf_target_rrule = normalize_scheduler_rrule target,
                    hf_observed_host_rrule =
                      normalize_scheduler_rrule
                        (case str_field ''observed_host_rrule'' value of
                           None \<Rightarrow> [] | Some s \<Rightarrow> s),
                    hf_failure_kind = trim kind, hf_failed_at = trim failed,
                    hf_failure_count = n mod 2 ^ 32\<rparr>
           in if hf_target_rrule f = [] \<or> hf_failure_kind f = [] \<or> hf_failed_at f = []
                 \<or> hf_failure_count f < 1
              then None else Some f)
      | _ \<Rightarrow> None)"

text \<open>Remove the old record of the pair, then append.\<close>

definition push_latest :: "host_update_failure list \<Rightarrow> host_update_failure \<Rightarrow> host_update_failure list" where
  "push_latest fs f = filter (\<lambda>x. hf_pair x \<noteq> hf_pair f) fs @ [f]"

definition normalize_host_update_failures :: "json list \<Rightarrow> host_update_failure list" where
  "normalize_host_update_failures values =
     rev (take SCHEDULER_HOST_UPDATE_FAILURE_CACHE_LIMIT
            (rev (foldl push_latest []
                    (List.map_filter normalize_host_update_failure values))))"

definition parse_epoch :: "(string \<Rightarrow> int option) \<Rightarrow> string \<Rightarrow> u64 option" where
  "parse_epoch rfc3339 stamp = map_option (\<lambda>ts. nat (max ts 0)) (rfc3339 stamp)"

definition retained_host_update_failures ::
  "(string \<Rightarrow> int option) \<Rightarrow> host_update_failure list \<Rightarrow> u64 \<Rightarrow> string option \<Rightarrow>
     host_update_failure list" where
  "retained_host_update_failures rfc3339 fs now expected =
     (let cutoff = now - SCHEDULER_HOST_UPDATE_FAILURE_TTL_SECS in
      filter (\<lambda>f. (case parse_epoch rfc3339 (hf_failed_at f) of None \<Rightarrow> 0 | Some e \<Rightarrow> e) \<ge> cutoff
                  \<and> (case expected of
                       None \<Rightarrow> True
                     | Some r \<Rightarrow> normalize_scheduler_rrule (hf_observed_host_rrule f)
                                 = normalize_scheduler_rrule r)) fs)"

text \<open>The loop over the reversed list that keeps the first record of each pair.\<close>

fun first_of_pair :: "(string \<times> string) set \<Rightarrow> host_update_failure list \<Rightarrow> host_update_failure list" where
  "first_of_pair seen [] = []"
| "first_of_pair seen (f # fs) =
     (if hf_pair f \<in> seen then first_of_pair seen fs
      else f # first_of_pair (insert (hf_pair f) seen) fs)"

definition merge_host_update_failure ::
  "(string \<Rightarrow> int option) \<Rightarrow> host_update_failure list \<Rightarrow> host_update_failure \<Rightarrow> u64 \<Rightarrow>
     host_update_failure list" where
  "merge_host_update_failure rfc3339 fs f now =
     (let retained = retained_host_update_failures rfc3339 fs now (Some (hf_observed_host_rrule f));
          combined = retained @ [f]
      in rev (take SCHEDULER_HOST_UPDATE_FAILURE_CACHE_LIMIT (first_of_pair {} (rev combined))))"

section \<open>The persisted scheduler state\<close>

record scheduler_state =
  sc_schema_version :: string
  sc_goal_id :: string
  sc_agent_id :: string
  sc_surface :: string
  sc_state_key :: string
  sc_reset_token :: string
  sc_identity_signature :: string
  sc_progression_index :: usize
  sc_progression_minutes :: "int list"
  sc_last_applied_rrule :: string
  sc_updated_at :: u64
  sc_host_update_failures :: "host_update_failure list"

definition normalize_scheduler_state ::
  "scheduler_state \<Rightarrow> string \<Rightarrow> string \<Rightarrow> string \<Rightarrow> string \<Rightarrow> scheduler_state option" where
  "normalize_scheduler_state s gid agent surface key =
     (if sc_schema_version s \<noteq> SCHEDULER_STATE_SCHEMA_VERSION
         \<and> sc_schema_version s \<noteq> ''loopx_scheduler_state_v0'' then None
      else if sc_goal_id s \<noteq> gid \<or> sc_agent_id s \<noteq> agent then None
      else if sc_surface s \<noteq> surface \<or> sc_state_key s \<noteq> key then None
      else if blank (sc_reset_token s) \<or> blank (sc_identity_signature s) then None
      else if blank (sc_last_applied_rrule s) \<and> sc_host_update_failures s = [] then None
      else if list_ex (\<lambda>m. m \<le> 0) (sc_progression_minutes s) then None
      else Some (s\<lparr>sc_host_update_failures :=
                     keep_last SCHEDULER_HOST_UPDATE_FAILURE_CACHE_LIMIT
                       (sc_host_update_failures s)\<rparr>))"

definition build_scheduler_state ::
  "string \<Rightarrow> string \<Rightarrow> string \<Rightarrow> string \<Rightarrow> string \<Rightarrow> string \<Rightarrow> usize \<Rightarrow> int list \<Rightarrow> string \<Rightarrow> u64 \<Rightarrow>
     host_update_failure list \<Rightarrow> string + scheduler_state" where
  "build_scheduler_state gid agent surface key token sig index minutes rrule updated fs =
     (case normalize_scheduler_state
             \<lparr>sc_schema_version = SCHEDULER_STATE_SCHEMA_VERSION, sc_goal_id = gid,
              sc_agent_id = agent, sc_surface = surface, sc_state_key = key,
              sc_reset_token = token, sc_identity_signature = sig,
              sc_progression_index = index, sc_progression_minutes = minutes,
              sc_last_applied_rrule = rrule, sc_updated_at = updated,
              sc_host_update_failures = fs\<rparr> gid agent surface key of
        None \<Rightarrow> Inl ''scheduler state is missing required persisted-state fields''
      | Some s \<Rightarrow> Inr s)"

text \<open>\<open>format!("{x:016x}")\<close>: sixteen lower-case hexadecimal digits.\<close>

definition hex_digit :: "nat \<Rightarrow> char" where
  "hex_digit d = (if d < 10 then char_of (48 + d) else char_of (87 + d))"

definition hex16 :: "64 word \<Rightarrow> string" where
  "hex16 w = map (\<lambda>i. hex_digit (unat (and (drop_bit (4 * i) w) 15))) (rev [0..<16])"

definition stable_digest :: "(string list \<Rightarrow> 64 word) \<Rightarrow> string list \<Rightarrow> usize \<Rightarrow> string" where
  "stable_digest hash parts len =
     take (min len 16) (hex16 (hash (concat (map (\<lambda>p. [p, [CHR 0x1F]]) parts))))"

definition identity_signature ::
  "(string list \<Rightarrow> 64 word) \<Rightarrow> string \<Rightarrow> string \<Rightarrow> string \<Rightarrow> string" where
  "identity_signature hash gid agent surface = stable_digest hash [gid, agent, surface] 12"

definition reset_token ::
  "(string list \<Rightarrow> 64 word) \<Rightarrow> string \<Rightarrow> string \<Rightarrow> string \<Rightarrow> string" where
  "reset_token hash action sig initial_rrule = stable_digest hash [action, sig, initial_rrule] 16"

definition current_progression_minutes :: "scheduler_state \<Rightarrow> int option" where
  "current_progression_minutes s =
     (if sc_progression_index s < length (sc_progression_minutes s)
      then Some (sc_progression_minutes s ! sc_progression_index s) else None)"

definition current_rrule :: "scheduler_state \<Rightarrow> string option" where
  "current_rrule s = map_option rrule_for_minutes (current_progression_minutes s)"

text \<open>The flag (the cursor wrapped) and the state after the call.\<close>

definition advance_progression :: "scheduler_state \<Rightarrow> bool \<times> scheduler_state" where
  "advance_progression s =
     (if sc_progression_minutes s = [] then (False, s)
      else (let i = sc_progression_index s + 1 in
            if i \<ge> length (sc_progression_minutes s)
            then (True, s\<lparr>sc_progression_index := 0\<rparr>)
            else (False, s\<lparr>sc_progression_index := i\<rparr>)))"

definition apply_next_progression :: "scheduler_state \<Rightarrow> u64 \<Rightarrow> string option \<times> scheduler_state" where
  "apply_next_progression s now =
     (if sc_progression_minutes s = [] then (None, s)
      else (let s1 = snd (advance_progression s) in
            case current_rrule s1 of
              None \<Rightarrow> (None, s1)
            | Some r \<Rightarrow> (Some r, s1\<lparr>sc_last_applied_rrule := r, sc_updated_at := now\<rparr>)))"

text \<open>The file name part of a scheduler state path.\<close>

definition safe_char :: "string \<Rightarrow> bool" where
  "safe_char u \<longleftrightarrow>
     (case u of [c] \<Rightarrow> is_ascii_alphanumeric c \<or> c = CHR ''_'' \<or> c = CHR ''-'' \<or> c = CHR ''.''
      | _ \<Rightarrow> False)"

definition safe_segment :: "string \<Rightarrow> string" where
  "safe_segment value =
     (let cleaned = map (\<lambda>u. if safe_char u then hd u else CHR ''-'') (chars value);
          edge = (\<lambda>c. c = CHR ''-'' \<or> c = CHR ''_'' \<or> c = CHR ''.'');
          trimmed = rev (dropWhile edge (rev (dropWhile edge cleaned)))
      in if trimmed = [] then ''default'' else trimmed)"

section \<open>ASCII text\<close>

definition plain :: "char \<Rightarrow> bool" where
  "plain c \<longleftrightarrow> 33 \<le> (of_char c :: nat) \<and> (of_char c :: nat) < 127"

lemma chars_plain: "list_all plain s \<Longrightarrow> chars s = map (\<lambda>c. [c]) s"
proof (induction s)
  case (Cons c cs)
  then have "list_all (\<lambda>c. \<not> is_continuation c) cs"
    by (auto simp: plain_def is_continuation_def list_all_iff)
  then have "takeWhile is_continuation cs = [] \<and> dropWhile is_continuation cs = cs"
    by (cases cs) auto
  with Cons show ?case by simp
qed simp

lemma plain_not_whitespace: "plain c \<Longrightarrow> \<not> is_whitespace [c]"
  by (auto simp: plain_def is_whitespace_def Let_def)

lemma words_of_plain:
  "list_all plain s \<Longrightarrow> words_of (map (\<lambda>c. [c]) s) w = (if w @ s = [] then [] else [w @ s])"
  by (induction s arbitrary: w) (auto simp: plain_not_whitespace)

lemma split_whitespace_plain: "list_all plain s \<Longrightarrow> s \<noteq> [] \<Longrightarrow> split_whitespace s = [s]"
  by (simp add: split_whitespace_def chars_plain words_of_plain)

lemma dropWhile_plain:
  "list_all plain s \<Longrightarrow> dropWhile is_whitespace (map (\<lambda>c. [c]) s) = map (\<lambda>c. [c]) s"
  by (cases s) (auto simp: plain_not_whitespace)

lemma trim_plain: "list_all plain s \<Longrightarrow> trim s = s"
  using dropWhile_plain [of "rev s"]
  by (simp add: trim_def chars_plain dropWhile_plain rev_map list_all_rev)

lemma of_char_digit: "d < 10 \<Longrightarrow> (of_char (digit d) :: nat) = 48 + d"
  by (simp add: digit_def)

lemma digits_value_append: "digits_value (xs @ [c]) = 10 * digits_value xs + (of_char c - 48)"
  by (simp add: digits_value_def)

lemma digits_value_dec [simp]: "digits_value (dec n) = n"
proof (induction n rule: dec.induct)
  case (1 n)
  then show ?case
    by (subst dec.simps) (simp add: digits_value_append of_char_digit digits_value_def)
qed

lemma is_ascii_digit_digit: "d < 10 \<Longrightarrow> is_ascii_digit (digit d)"
  by (simp add: is_ascii_digit_def of_char_digit)

lemma digits_dec: "list_all is_ascii_digit (dec n)"
proof (induction n rule: dec.induct)
  case (1 n)
  then show ?case
    by (subst dec.simps) (simp add: is_ascii_digit_digit)
qed

lemma dec_not_Nil [simp]: "dec n \<noteq> []"
  by (subst dec.simps) simp

lemma digit_plain: "is_ascii_digit c \<Longrightarrow> plain c"
  by (simp add: is_ascii_digit_def plain_def)

lemma dec_plain: "list_all plain (dec n)"
  using digits_dec [of n] by (auto simp: list_all_iff digit_plain)

lemma hd_dec_digit: "is_ascii_digit (hd (dec n))"
  using digits_dec [of n] by (cases "dec n") auto

lemma parse_u64_dec: "parse_u64 (dec n) = (if n \<le> u64_max then Some n else None)"
proof -
  have "hd (dec n) \<noteq> CHR ''+''"
    using hd_dec_digit [of n] by (auto simp: is_ascii_digit_def)
  then have "(case dec n of [] \<Rightarrow> dec n | c # cs \<Rightarrow> if c = CHR ''+'' then cs else dec n) = dec n"
    by (cases "dec n") auto
  then show ?thesis
    using digits_dec [of n] by (simp add: parse_u64_def)
qed

lemma parse_i64_dec: "parse_i64 (dec n) = (if int n \<le> i64_max then Some (int n) else None)"
proof -
  have "hd (dec n) \<noteq> CHR ''+'' \<and> hd (dec n) \<noteq> CHR ''-''"
    using hd_dec_digit [of n] by (auto simp: is_ascii_digit_def)
  then show ?thesis
    using digits_dec [of n] by (simp add: parse_i64_def Let_def i64_max_def)
qed

section \<open>Recurrence rules\<close>

lemma rrule_for_minutes_plain: "list_all plain (rrule_for_minutes m)"
proof -
  have "list_all plain ''FREQ=MINUTELY;INTERVAL=''" by code_simp
  then show ?thesis by (simp add: rrule_for_minutes_def dec_int_def dec_plain)
qed

lemma normalize_rrule_for_minutes: "normalize_scheduler_rrule (rrule_for_minutes m) = rrule_for_minutes m"
proof -
  have "rrule_for_minutes m \<noteq> []" by (simp add: rrule_for_minutes_def)
  moreover have "\<not> starts_with ''RRULE:'' (rrule_for_minutes m)"
    by (simp add: starts_with_def rrule_for_minutes_def)
  ultimately show ?thesis
    by (simp add: normalize_scheduler_rrule_def split_whitespace_plain rrule_for_minutes_plain
        strip_prefix_def)
qed

lemma dec_no_sep: "CHR '';'' \<notin> set (dec n)"
  using digits_dec [of n] by (auto simp: list_all_iff is_ascii_digit_def)

lemma parts_rrule_for_minutes:
  "split_on CHR '';'' (rrule_for_minutes m)
   = [''FREQ=MINUTELY'', ''INTERVAL='' @ dec (nat (max m 1))]"
proof -
  have "rrule_for_minutes m
        = ''FREQ=MINUTELY'' @ CHR '';'' # (''INTERVAL='' @ dec (nat (max m 1)))"
    by (simp add: rrule_for_minutes_def dec_int_def)
  then show ?thesis
    by (simp only:) (subst split_on_append, simp, subst split_on_no_sep, simp add: dec_no_sep, simp)
qed

lemma upper_words:
  "upper (trim ''FREQ'') = ''FREQ''" "upper (trim ''INTERVAL'') = ''INTERVAL''"
  "upper (trim ''MINUTELY'') = ''MINUTELY''"
  by code_simp+

lemma interval_rrule_for_minutes:
  assumes "m \<le> i64_max"
  shows "scheduler_rrule_interval_minutes (rrule_for_minutes m) = Some (max m 1)"
proof -
  let ?d = "dec (nat (max m 1))"
  have once: "split_once CHR ''='' ''FREQ=MINUTELY'' = Some (''FREQ'', ''MINUTELY'')"
    "split_once CHR ''='' (''INTERVAL='' @ ?d) = Some (''INTERVAL'', ?d)"
    by simp_all
  have "parse_i64 (trim ?d) = Some (max m 1)"
    using assms by (simp add: trim_plain dec_plain parse_i64_dec i64_max_def max_def)
  then have "rrule_parts [''FREQ=MINUTELY'', ''INTERVAL='' @ ?d] None None
             = Some (Some ''MINUTELY'', Some (max m 1))"
    by (simp only: rrule_parts.simps once option.case prod.case upper_words) simp
  then show ?thesis
    by (simp add: scheduler_rrule_interval_minutes_def normalize_rrule_for_minutes
        parts_rrule_for_minutes)
qed

lemma interval_class_rrule:
  "rrule_for_cadence_class (rrule_for_minutes m) = Some (rrule_for_minutes m)"
proof -
  have "ascii_lower ''FREQ=MINUTELY;INTERVAL='' = ''freq=minutely;interval=''" by code_simp
  then have "ascii_lower (rrule_for_minutes m)
        = ''freq=minutely;interval='' @ ascii_lower (dec_int (max m 1))"
    by (simp add: rrule_for_minutes_def ascii_lower_def)
  then show ?thesis
    by (simp add: rrule_for_cadence_class_def normalize_rrule_for_minutes starts_with_def)
qed

lemma rrule_no_monitor_cadence: "monitor_cadence_secs (rrule_for_minutes m) = None"
proof -
  have "trim (rrule_for_minutes m) = rrule_for_minutes m"
    by (rule trim_plain [OF rrule_for_minutes_plain])
  moreover have "takeWhile is_ascii_digit (rrule_for_minutes m) = []"
    by (simp add: rrule_for_minutes_def is_ascii_digit_def)
  moreover have "parse_u64 [] = None" by (simp add: parse_u64_def)
  ultimately show ?thesis
    by (simp only: monitor_cadence_secs_def Let_def option.case if_cancel)
qed

lemma cadence_interval_rrule:
  assumes "m \<le> i64_max"
  shows "cadence_poll_interval_secs (Some (rrule_for_minutes m)) = Some (nat (max m 1) * 60 mod 2 ^ 64)"
proof -
  have "rrule_for_minutes m \<noteq> []" by (simp add: rrule_for_minutes_def)
  then show ?thesis
    using assms
    by (simp add: cadence_poll_interval_secs_def trim_plain rrule_for_minutes_plain
        rrule_no_monitor_cadence interval_class_rrule interval_rrule_for_minutes max_def)
qed

lemma monitor_cadence_unit:
  assumes "plain c" "\<not> is_ascii_digit c"
  shows "monitor_cadence_secs (dec n @ [c])
         = (if n = 0 \<or> n > u64_max then None
            else (let unit = ascii_lower [c] in
                    if starts_with ''s'' unit then Some n
                    else if starts_with ''m'' unit then checked_mul_u64 n 60
                    else if starts_with ''h'' unit then checked_mul_u64 n 3600
                    else if starts_with ''d'' unit then checked_mul_u64 n 86400
                    else None))"
proof -
  have "takeWhile is_ascii_digit (dec n @ [c]) = dec n"
    "dropWhile is_ascii_digit (dec n @ [c]) = [c]"
    using digits_dec [of n] assms(2) by (auto simp: list_all_iff takeWhile_append2 dropWhile_append2)
  moreover have "trim (dec n @ [c]) = dec n @ [c]" "trim [c] = [c]"
    using assms(1) by (simp_all add: trim_plain dec_plain)
  ultimately show ?thesis
    by (simp only: monitor_cadence_secs_def Let_def parse_u64_dec) auto
qed

text \<open>Cadences round trip: the interval of a rule built for \<open>m\<close> minutes is \<open>m\<close> (at least one),
  and a cadence printed as a number with the unit s, m, h or d is read as that many seconds,
  refused exactly when it is zero or the product leaves 64 bits.\<close>

theorem cadence_roundtrip:
  "(\<forall>m \<le> i64_max. scheduler_rrule_interval_minutes (rrule_for_minutes m) = Some (max m 1))
   \<and> (\<forall>n. \<forall>(c, k) \<in> set [(CHR ''s'', 1), (CHR ''m'', 60), (CHR ''h'', 3600), (CHR ''d'', 86400)].
        monitor_cadence_secs (dec n @ [c])
        = (if n = 0 \<or> n * k > u64_max then None else Some (n * k)))"
proof (intro conjI allI impI ballI)
  show "scheduler_rrule_interval_minutes (rrule_for_minutes m) = Some (max m 1)"
    if "m \<le> i64_max" for m
    using that by (rule interval_rrule_for_minutes)
next
  fix n :: nat and ck :: "char \<times> nat"
  assume "ck \<in> set [(CHR ''s'', 1), (CHR ''m'', 60), (CHR ''h'', 3600), (CHR ''d'', 86400)]"
  then consider "ck = (CHR ''s'', 1)" | "ck = (CHR ''m'', 60)" | "ck = (CHR ''h'', 3600)"
    | "ck = (CHR ''d'', 86400)" by auto
  then show "case ck of (c, k) \<Rightarrow> monitor_cadence_secs (dec n @ [c])
               = (if n = 0 \<or> n * k > u64_max then None else Some (n * k))"
    by cases (simp_all add: monitor_cadence_unit plain_def is_ascii_digit_def ascii_lower_def
        ascii_lower_char_def starts_with_def checked_mul_u64_def)
qed

lemma cadence_roundtrip_witness:
  "scheduler_rrule_interval_minutes (rrule_for_minutes 45) = Some 45
   \<and> monitor_cadence_secs (dec 15 @ [CHR ''m'']) = Some 900"
  using spec [OF conjunct1 [OF cadence_roundtrip], of 45]
    bspec [OF spec [OF conjunct2 [OF cadence_roundtrip], of 15], of "(CHR ''m'', 60)"]
  by (simp add: i64_max_def u64_max_def)

section \<open>The progression cursor\<close>

definition advances :: "nat \<Rightarrow> scheduler_state \<Rightarrow> scheduler_state" where
  "advances n = (snd \<circ> advance_progression) ^^ n"

lemma advance_minutes [simp]:
  "sc_progression_minutes (snd (advance_progression s)) = sc_progression_minutes s"
  by (simp add: advance_progression_def Let_def)

lemma advance_index:
  assumes "sc_progression_index s < length (sc_progression_minutes s)"
  shows "sc_progression_index (snd (advance_progression s))
         = Suc (sc_progression_index s) mod length (sc_progression_minutes s)"
  using assms by (auto simp: advance_progression_def Let_def mod_less le_Suc_eq)

lemma advances_spec:
  assumes "sc_progression_index s < length (sc_progression_minutes s)"
  shows "sc_progression_minutes (advances n s) = sc_progression_minutes s
         \<and> sc_progression_index (advances n s)
           = (sc_progression_index s + n) mod length (sc_progression_minutes s)"
proof (induction n)
  case 0
  then show ?case using assms by (simp add: advances_def)
next
  case (Suc n)
  then have "sc_progression_index (advances n s) < length (sc_progression_minutes (advances n s))"
    using assms by (metis mod_less_divisor gr_zeroI not_less0)
  from advance_index [OF this] Suc show ?case
    by (simp add: advances_def mod_Suc_eq)
qed

lemma advance_flag:
  assumes "sc_progression_index s < length (sc_progression_minutes s)"
  shows "fst (advance_progression s) \<longleftrightarrow>
           Suc (sc_progression_index s) = length (sc_progression_minutes s)"
  using assms by (auto simp: advance_progression_def Let_def)

lemma apply_next_spec:
  assumes "sc_progression_minutes s \<noteq> []"
  shows "\<exists>m \<in> set (sc_progression_minutes s).
           fst (apply_next_progression s now) = Some (rrule_for_minutes m)
           \<and> sc_last_applied_rrule (snd (apply_next_progression s now)) = rrule_for_minutes m
           \<and> current_rrule (snd (apply_next_progression s now)) = Some (rrule_for_minutes m)"
proof -
  define s1 where "s1 = snd (advance_progression s)"
  have ok: "sc_progression_index s1 < length (sc_progression_minutes s1)"
    using assms by (auto simp: s1_def advance_progression_def Let_def)
  then have "sc_progression_minutes s1 ! sc_progression_index s1 \<in> set (sc_progression_minutes s)"
    by (metis advance_minutes nth_mem s1_def)
  with ok assms show ?thesis
    by (intro bexI [of _ "sc_progression_minutes s1 ! sc_progression_index s1"])
      (simp_all add: apply_next_progression_def current_rrule_def
        current_progression_minutes_def flip: s1_def)
qed

text \<open>The progression is a cycle: from a cursor inside the list, \<open>n\<close> advances lead to the
  \<open>n\<close>-th following interval, counted around the end, and an advance reports a wrap exactly at the last
  interval. A cursor outside the list, which loading does not reject, is inside after one step, and
  every applied step records the rule of an interval of the list.\<close>

theorem progression_cycles:
  assumes "sc_progression_minutes s \<noteq> []"
  shows "(sc_progression_index s < length (sc_progression_minutes s) \<longrightarrow>
            (\<forall>n. sc_progression_index (((snd \<circ> advance_progression) ^^ n) s)
                 = (sc_progression_index s + n) mod length (sc_progression_minutes s)))
         \<and> (sc_progression_index s < length (sc_progression_minutes s) \<longrightarrow>
              (fst (advance_progression s) \<longleftrightarrow>
                 Suc (sc_progression_index s) = length (sc_progression_minutes s)))
         \<and> sc_progression_index (snd (advance_progression s)) < length (sc_progression_minutes s)
         \<and> (\<exists>m \<in> set (sc_progression_minutes s).
              fst (apply_next_progression s now) = Some (rrule_for_minutes m)
              \<and> current_rrule (snd (apply_next_progression s now)) = Some (rrule_for_minutes m))"
proof (intro conjI impI allI)
  show "sc_progression_index (((snd \<circ> advance_progression) ^^ n) s)
        = (sc_progression_index s + n) mod length (sc_progression_minutes s)"
    if "sc_progression_index s < length (sc_progression_minutes s)" for n
    using advances_spec [OF that, of n] by (simp add: advances_def)
  show "fst (advance_progression s) \<longleftrightarrow>
          Suc (sc_progression_index s) = length (sc_progression_minutes s)"
    if "sc_progression_index s < length (sc_progression_minutes s)"
    using that by (rule advance_flag)
  show "sc_progression_index (snd (advance_progression s)) < length (sc_progression_minutes s)"
    using assms by (auto simp: advance_progression_def Let_def)
qed (use apply_next_spec [OF assms, of now] in blast)

definition demo_progression :: scheduler_state where
  "demo_progression =
     \<lparr>sc_schema_version = SCHEDULER_STATE_SCHEMA_VERSION, sc_goal_id = ''g'', sc_agent_id = ''a'',
      sc_surface = ''codex_app'', sc_state_key = ''k'', sc_reset_token = ''r'',
      sc_identity_signature = ''i'', sc_progression_index = 2,
      sc_progression_minutes = [15, 30, 60], sc_last_applied_rrule = ''x'', sc_updated_at = 0,
      sc_host_update_failures = []\<rparr>"

lemma progression_cycles_witness:
  "fst (advance_progression demo_progression)
   \<and> sc_progression_index (((snd \<circ> advance_progression) ^^ 5) demo_progression) = 1"
  using progression_cycles [of demo_progression 0] by (simp add: demo_progression_def)

section \<open>Merging host update failures\<close>

lemma first_of_pair_insert:
  "first_of_pair (insert p seen) fs = filter (\<lambda>x. hf_pair x \<noteq> p) (first_of_pair seen fs)"
proof (induction fs arbitrary: seen)
  case (Cons f fs)
  show ?case
  proof (cases "hf_pair f = p")
    case True
    then show ?thesis
      using Cons [of seen] Cons [of "insert p seen"] by (simp add: insert_absorb)
  next
    case False
    then show ?thesis
      using Cons [of "insert (hf_pair f) seen"] Cons [of seen] by (simp add: insert_commute)
  qed
qed simp

lemma first_of_pair_rev: "rev (first_of_pair {} (rev fs)) = foldl push_latest [] fs"
  by (induction fs rule: rev_induct) (simp_all add: first_of_pair_insert push_latest_def rev_filter)

lemma push_latest_distinct: "distinct (map hf_pair (foldl push_latest [] fs))"
  by (induction fs rule: rev_induct) (auto simp: push_latest_def distinct_map_filter)

lemma push_latest_subset: "set (foldl push_latest [] fs) \<subseteq> set fs"
  by (induction fs rule: rev_induct) (auto simp: push_latest_def)

lemma keep_last_rev: "rev (take n (rev xs)) = keep_last n xs"
  by (simp add: keep_last_def take_rev)

lemma take_first_of_pair:
  "rev (take n (first_of_pair {} (rev fs))) = keep_last n (foldl push_latest [] fs)"
  by (metis first_of_pair_rev keep_last_rev rev_rev_ident)

lemma merge_as_push_latest:
  "merge_host_update_failure rfc3339 fs f now
   = keep_last 4 (foldl push_latest []
       (retained_host_update_failures rfc3339 fs now (Some (hf_observed_host_rrule f)) @ [f]))"
  unfolding merge_host_update_failure_def Let_def SCHEDULER_HOST_UPDATE_FAILURE_CACHE_LIMIT_def
  by (rule take_first_of_pair)

lemma normalize_as_push_latest:
  "normalize_host_update_failures vs
   = keep_last 4 (foldl push_latest [] (List.map_filter normalize_host_update_failure vs))"
  by (simp add: normalize_host_update_failures_def SCHEDULER_HOST_UPDATE_FAILURE_CACHE_LIMIT_def
      keep_last_def take_rev)

text \<open>Recording a host update failure keeps the cache bounded and fresh: at most four records,
  one for each target and observed rule, the new record last; every other record was there before,
  is younger than the retention period and has the same observed rule, and the reversed scan that
  drops duplicates computes the same list as the loop that loads the records.\<close>

theorem host_failure_cache_bounded:
  "let r = merge_host_update_failure rfc3339 fs f now;
       retained = retained_host_update_failures rfc3339 fs now (Some (hf_observed_host_rrule f))
   in length r \<le> 4 \<and> distinct (map hf_pair r) \<and> r \<noteq> [] \<and> last r = f
      \<and> set r \<subseteq> insert f (set retained)
      \<and> r = rev (take 4 (rev (foldl push_latest [] (retained @ [f]))))"
proof -
  define kept where
    "kept = retained_host_update_failures rfc3339 fs now (Some (hf_observed_host_rrule f))"
  define all where "all = foldl push_latest [] (kept @ [f])"
  define r where "r = keep_last 4 all"
  have r: "merge_host_update_failure rfc3339 fs f now = r"
    by (simp add: merge_as_push_latest r_def all_def kept_def)
  have all: "all \<noteq> []" "last all = f" by (simp_all add: all_def push_latest_def)
  then have "0 < length all" by simp
  then have "\<not> length all \<le> length all - 4" by arith
  with all have "r \<noteq> []" "last r = f" by (simp_all add: r_def keep_last_def)
  moreover have "distinct (map hf_pair r)"
    using push_latest_distinct [of "kept @ [f]"]
    by (simp add: r_def keep_last_def all_def drop_map [symmetric] distinct_drop del: foldl_append)
  moreover have "set r \<subseteq> insert f (set kept)"
    using set_keep_last [of 4 all] push_latest_subset [of "kept @ [f]"] by (auto simp: r_def all_def)
  moreover have "r = rev (take 4 (rev all))" by (simp add: r_def keep_last_def take_rev)
  moreover have "length r \<le> 4" by (simp add: r_def)
  ultimately show ?thesis
    unfolding r Let_def kept_def [symmetric] all_def [symmetric] by blast
qed

end
