(* ===== verification/Events.thy ===== *)
theory Events
  imports Scheduler_State
begin

text \<open>
  The event ledger's data of \<open>orchestration/goal/src/store.rs\<close>: the event type with its 44
  variants, the stored line, the content digest and the ids derived from it, fingerprints, and
  the migration of a legacy line (\<open>migration.rs\<close>).

  The serializer (serde) is outside the sources: a \<open>codec\<close> is a parameter. \<open>codec_ok\<close> states
  what the ledger relies on; theorems that need it have a witness with a concrete codec.
\<close>

section \<open>Events\<close>

record decision_summary =
  ds_schema_version :: string
  ds_goal_id :: string
  ds_agent_id :: "string option"
  ds_decision :: string
  ds_should_run :: bool
  ds_effective_action :: string
  ds_reason_code :: string
  ds_mode :: string
  ds_state :: string
  ds_selected_todo :: "string option"
  ds_spent_slots :: u64
  ds_allowed_slots :: u64
  ds_normal_delivery_allowed :: bool
  ds_recovery_delivery_allowed :: bool
  ds_self_repair_allowed :: bool
  ds_safe_bypass_allowed :: bool
  ds_safe_bypass_kind :: "string option"
  ds_blocked_action_scope :: "string option"
  ds_turn :: u32

record instruction =
  in_id :: string
  in_agent_id :: "string option"
  in_text :: string
  in_interrupt :: bool

text \<open>The fields of \<open>TodoUpdated\<close> besides the ids and the time.\<close>

record todo_patch =
  up_text :: "string option"
  up_status :: "string option"
  up_evidence :: "string option"
  up_note :: "string option"
  up_priority :: "string option"
  up_resume_when :: "string option"
  up_blocks :: "string list option"
  up_acceptance :: "string option"
  up_owner :: "string option"
  up_resume_at_ms :: "u64 option"

text \<open>What each variant carries besides its goal and its time, which all have.\<close>

datatype (plugins only: code size) event_kind =
    GoalStarted
  | TodoAdded todo
  | TodoCompleted string bool "string list" "string option"
  | TodoSuperseded string
  | TodoUpdated string todo_patch
  | GoalCancelled string
  | GateResolved string string "string option"
  | GapSatisfied string
  | RunRecorded run_record
  | TodoClaimed string string u64 "u32 option"
  | AgentRegistered string "string list"
  | AgentOnboarded string "string list" "string list"
  | WorkerSessionBound string string
  | WorkspaceLockAcquired string string "string list" bool
  | ReplanAcked "string list"
  | ProfileSet u32
  | AuthoritySet "string list" "string list"
  | TodoArchived string
  | MonitorPolled string string u32
  | TurnNoProgress string "string option" u64 u32
  | QuotaSpent string string string u32
  | EvidenceAttached string string
  | TodoRenewed string string u64
  | TodoReleased string string
  | TodoExpired string
  | DeliveryOutcomeRecorded string string "string option" u32 u32
  | ProgressReported string string string
  | SupervisorNote string string string string
  | FollowthroughCreated string string u32
  | DecisionSummaryRecorded decision_summary
  | HeartbeatReceiptRecorded "string option" string "string option" string string
  | SchedulerAcked string string string "string option" string
  | SchedulerTicked string string "string option"
  | AutomationLivenessAlert string u64 u64 u32
  | ProjectionRepaired string usize usize usize usize usize string
  | ReplanRuleSetUpdated string "string list"
  | SupervisorRegistered string
  | WorkerSteered "string option" string
  | SteerConsumed "string option" u64
  | ControlIssued instruction
  | ControlAcknowledged string "string option"
  | SupervisorBatchPrepared string string "string list" string
  | SupervisorBatchDelivered string
  | WorkerStopped "string option"

record event =
  ev_kind :: event_kind
  ev_goal_id :: string
  ev_ts :: u64

record stored_event =
  sd_event_id :: string
  sd_producer :: "string option"
  sd_source_ref :: "string option"
  sd_source_section :: "string option"
  sd_source_line :: "u64 option"
  sd_privacy :: "string option"
  sd_fencing_token :: "u64 option"
  sd_event :: event

section \<open>The serializer\<close>

text \<open>What the code calls of serde: the text and the value of an event, the text of a line, the
  text of a value, the two readers, and the reader and writer of run records. A failed typed read
  gives the error text.\<close>

record codec =
  cd_event_text :: "event \<Rightarrow> string"
  cd_event_value :: "event \<Rightarrow> json"
  cd_line_text :: "stored_event \<Rightarrow> string"
  cd_value_text :: "json \<Rightarrow> string"
  cd_parse :: "string \<Rightarrow> json option"
  cd_typed :: "json \<Rightarrow> string + stored_event"
  cd_pretty :: "json \<Rightarrow> string"
  cd_run_text :: "run_record \<Rightarrow> string"
  cd_run :: "string \<Rightarrow> run_record option"

section \<open>Digests and ids\<close>

definition fnv_step :: "64 word \<Rightarrow> char \<Rightarrow> 64 word" where
  "fnv_step h b = (xor h (of_char b)) * 0x100000001b3"

definition content_digest :: "string \<Rightarrow> string" where
  "content_digest bytes = hex16 (foldl fnv_step 0xcbf29ce484222325 bytes)"

definition derive_event_id :: "codec \<Rightarrow> event \<Rightarrow> string" where
  "derive_event_id cd e = ''evt-'' @ take 16 (content_digest (cd_event_text cd e))"

definition derive_event_id_from_value :: "codec \<Rightarrow> json \<Rightarrow> string" where
  "derive_event_id_from_value cd v = ''evt-'' @ take 16 (content_digest (cd_value_text cd v))"

definition effective_id :: "codec \<Rightarrow> stored_event \<Rightarrow> string" where
  "effective_id cd s = (if sd_event_id s = [] then derive_event_id cd (sd_event s) else sd_event_id s)"

definition envelope_keys :: "string list" where
  "envelope_keys = [''event_id'', ''producer'', ''source_ref'', ''source_section'', ''source_line'',
                    ''privacy'', ''fencing_token'']"

fun event_part :: "json \<Rightarrow> json" where
  "event_part (JObj kvs) = JObj (filter (\<lambda>(k, v). k \<notin> set envelope_keys) kvs)"
| "event_part _ = JObj []"

definition event_fingerprint :: "codec \<Rightarrow> json \<Rightarrow> string" where
  "event_fingerprint cd v = cd_value_text cd (event_part v)"

text \<open>\<open>value.get("event_id").and_then(as_str).unwrap_or("")\<close>\<close>

definition raw_event_id :: "json \<Rightarrow> string" where
  "raw_event_id v = (case str_field ''event_id'' v of None \<Rightarrow> [] | Some s \<Rightarrow> s)"

definition is_unknown_kind_error :: "json \<Rightarrow> string \<Rightarrow> string option" where
  "is_unknown_kind_error v err =
     (let kind = (case str_field ''kind'' v of None \<Rightarrow> [] | Some k \<Rightarrow> k) in
      if kind = [] then None
      else if contains_str ''unknown variant'' err then Some kind else None)"

section \<open>Migration of one line\<close>

definition EVENT_STORE_SCHEMA_VERSION :: string where
  "EVENT_STORE_SCHEMA_VERSION = ''future_goal_event_store_v1''"

definition LEGACY_EVENT_STORE_SCHEMA_VERSION :: string where
  "LEGACY_EVENT_STORE_SCHEMA_VERSION = ''future_goal_event_store_v0''"

text \<open>Insertion into the ordered map of an object.\<close>

fun insert_field :: "string \<Rightarrow> json \<Rightarrow> (string \<times> json) list \<Rightarrow> (string \<times> json) list" where
  "insert_field k v [] = [(k, v)]"
| "insert_field k v ((k', v') # kvs) =
     (if k = k' then (k, v) # kvs
      else if k < k' then (k, v) # (k', v') # kvs
      else (k', v') # insert_field k v kvs)"

fun set_field :: "string \<Rightarrow> json \<Rightarrow> json \<Rightarrow> json" where
  "set_field k v (JObj kvs) = JObj (insert_field k v kvs)"
| "set_field k v other = other"

definition ensure_event_id :: "codec \<Rightarrow> json \<Rightarrow> json" where
  "ensure_event_id cd v =
     (if raw_event_id v \<noteq> [] then v
      else set_field ''event_id'' (JStr (derive_event_id_from_value cd v)) v)"

datatype migration_kind = AddEventType | AddField | Envelope

record migration_step =
  ms_from :: string
  ms_to :: string
  ms_kind :: migration_kind
  ms_transform :: "json \<Rightarrow> json"

definition migration_steps :: "codec \<Rightarrow> migration_step list" where
  "migration_steps cd =
     (let step = (\<lambda>k f. \<lparr>ms_from = LEGACY_EVENT_STORE_SCHEMA_VERSION,
                          ms_to = EVENT_STORE_SCHEMA_VERSION, ms_kind = k, ms_transform = f\<rparr>) in
      [step Envelope (ensure_event_id cd), step AddEventType id, step AddField id,
       step AddEventType id])"

definition applicable_steps :: "codec \<Rightarrow> string \<Rightarrow> string \<Rightarrow> migration_step list" where
  "applicable_steps cd from to =
     filter (\<lambda>s. ms_from s = from \<and> ms_to s = to) (migration_steps cd)"

definition migrate_event_line :: "codec \<Rightarrow> json \<Rightarrow> string \<Rightarrow> string \<Rightarrow> json" where
  "migrate_event_line cd v from_v to_v =
     (if from_v = to_v then v
      else foldl (\<lambda>v s. ms_transform s v) v (applicable_steps cd from_v to_v))"

lemma migrate_current [simp]:
  "migrate_event_line cd v EVENT_STORE_SCHEMA_VERSION EVENT_STORE_SCHEMA_VERSION = v"
  by (simp add: migrate_event_line_def)

lemma migrate_legacy:
  "migrate_event_line cd v LEGACY_EVENT_STORE_SCHEMA_VERSION EVENT_STORE_SCHEMA_VERSION
   = ensure_event_id cd v"
  by (simp add: migrate_event_line_def applicable_steps_def migration_steps_def Let_def
      LEGACY_EVENT_STORE_SCHEMA_VERSION_def EVENT_STORE_SCHEMA_VERSION_def)

section \<open>Goal ids and paths\<close>

definition valid_goal_id :: "string \<Rightarrow> bool" where
  "valid_goal_id i \<longleftrightarrow>
     i \<noteq> [] \<and> i \<noteq> ''.'' \<and> i \<noteq> ''..''
     \<and> list_all (\<lambda>b. is_ascii_alphanumeric b \<or> b = CHR ''.'' \<or> b = CHR ''_'' \<or> b = CHR ''-'') i"

definition hex2 :: "char \<Rightarrow> string" where
  "hex2 b = [hex_digit (of_char b div 16), hex_digit (of_char b mod 16)]"

definition goal_path_segment :: "string \<Rightarrow> string" where
  "goal_path_segment i = (if valid_goal_id i then i else CHR 0x25 # concat (map hex2 i))"

lemma hex_digit_inj: "a < 16 \<Longrightarrow> b < 16 \<Longrightarrow> hex_digit a = hex_digit b \<Longrightarrow> a = b"
proof -
  assume *: "a < 16" "b < 16" "hex_digit a = hex_digit b"
  then have "(of_char (hex_digit a) :: nat) = of_char (hex_digit b)" by simp
  with *(1,2) show ?thesis by (simp add: hex_digit_def split: if_splits)
qed

lemma hex_digit_alnum: "a < 16 \<Longrightarrow> is_ascii_alphanumeric (hex_digit a)"
  by (simp add: hex_digit_def is_ascii_alphanumeric_def)

lemma of_char_less: "(of_char (b :: char) :: nat) < 256"
  by (metis nat_of_char_less_256)

lemma nibble: "(of_char (b :: char) :: nat) div 16 < 16"
  using of_char_less [of b] by (simp add: less_mult_imp_div_less)

lemma hex2_inj: "hex2 a = hex2 b \<Longrightarrow> a = b"
proof -
  assume "hex2 a = hex2 b"
  then have "(of_char a :: nat) div 16 = of_char b div 16" "(of_char a :: nat) mod 16 = of_char b mod 16"
    using nibble [of a] nibble [of b] by (auto simp: hex2_def intro!: hex_digit_inj)
  then have "(of_char a :: nat) = of_char b" by (metis div_mult_mod_eq)
  then show ?thesis by simp
qed

lemma length_hex2: "length (hex2 b) = 2"
  by (simp add: hex2_def)

lemma concat_hex2_inj: "concat (map hex2 x) = concat (map hex2 y) \<Longrightarrow> x = y"
proof (induction x arbitrary: y)
  case Nil
  then show ?case by (cases y) (auto simp: hex2_def)
next
  case (Cons a x)
  then obtain b y' where y: "y = b # y'" by (cases y) (auto simp: hex2_def)
  with Cons.prems have "hex2 a = hex2 b \<and> concat (map hex2 x) = concat (map hex2 y')"
    by (simp add: length_hex2)
  then show ?case using Cons.IH y hex2_inj by blast
qed

lemma hex2_alnum: "c \<in> set (concat (map hex2 i)) \<Longrightarrow> is_ascii_alphanumeric c"
  using nibble by (auto simp: hex2_def intro!: hex_digit_alnum)

lemma valid_goal_id_chars:
  assumes "valid_goal_id k"
  shows "CHR ''/'' \<notin> set k" "CHR 0x5C \<notin> set k" "CHR 0x25 \<notin> set k"
  using assms by (auto simp: valid_goal_id_def list_all_iff is_ascii_alphanumeric_def)

lemma hex2_chars:
  "CHR ''/'' \<notin> set (concat (map hex2 i))" "CHR 0x5C \<notin> set (concat (map hex2 i))"
  using hex2_alnum [of "CHR ''/''" i] hex2_alnum [of "CHR 0x5C" i]
  by (auto simp: is_ascii_alphanumeric_def simp del: set_concat)

lemma goal_path_segment_inj: "goal_path_segment i = goal_path_segment j \<Longrightarrow> i = j"
proof (cases "valid_goal_id i"; cases "valid_goal_id j")
  assume "goal_path_segment i = goal_path_segment j" "\<not> valid_goal_id i" "\<not> valid_goal_id j"
  then show "i = j" using concat_hex2_inj [of i j] by (simp add: goal_path_segment_def)
next
  assume *: "goal_path_segment i = goal_path_segment j" "\<not> valid_goal_id i" "valid_goal_id j"
  then have "CHR 0x25 \<in> set j" by (metis goal_path_segment_def list.set_intros(1))
  with valid_goal_id_chars(3) [OF *(3)] show "i = j" by simp
next
  assume *: "goal_path_segment i = goal_path_segment j" "valid_goal_id i" "\<not> valid_goal_id j"
  then have "CHR 0x25 \<in> set i" by (metis goal_path_segment_def list.set_intros(1))
  with valid_goal_id_chars(3) [OF *(2)] show "i = j" by simp
next
  assume "goal_path_segment i = goal_path_segment j" "valid_goal_id i" "valid_goal_id j"
  then show "i = j" by (simp add: goal_path_segment_def)
qed

lemma goal_path_segment_chars:
  "CHR ''/'' \<notin> set (goal_path_segment i)" "CHR 0x5C \<notin> set (goal_path_segment i)"
  using valid_goal_id_chars [of i] hex2_chars [of i]
  by (simp_all add: goal_path_segment_def del: set_concat)

lemma goal_path_segment_names:
  "goal_path_segment i \<noteq> []" "goal_path_segment i \<noteq> ''.''" "goal_path_segment i \<noteq> ''..''"
  by (auto simp: goal_path_segment_def valid_goal_id_def)

text \<open>the directory name of a goal is safe for every id, valid or not: it is a single path
  component that is never empty, a dot or two dots and holds no separator, and different ids never
  share a directory.\<close>

theorem goal_path_segment_safe:
  "goal_path_segment i \<noteq> [] \<and> goal_path_segment i \<noteq> ''.'' \<and> goal_path_segment i \<noteq> ''..''
   \<and> CHR ''/'' \<notin> set (goal_path_segment i) \<and> CHR 0x5C \<notin> set (goal_path_segment i)
   \<and> (goal_path_segment i = goal_path_segment j \<longleftrightarrow> i = j)"
  using goal_path_segment_names [of i] goal_path_segment_chars [of i] goal_path_segment_inj [of i j]
  by auto

end
