(* ===== verification/Replay.thy ===== *)
theory Replay
  imports Events Goal_Frontier
begin

text \<open>
  The replay fold of \<open>orchestration/goal/src/store.rs\<close>: \<open>apply\<close>, one event at a time, from the
  ledger to the active goal, and the projection gap check.

  \<open>now\<close> is the clock of the reading process. A panic is \<open>None\<close>: the only one is the sum of the
  epoch and a next due time beyond the range of \<open>SystemTime\<close>.
\<close>

section \<open>The arms of \<open>apply\<close>\<close>

definition is_write_class_tool :: "string \<Rightarrow> bool" where
  "is_write_class_tool name \<longleftrightarrow> name = ''write'' \<or> name = ''edit''"

definition epoch_millis_as_time :: "u64 \<Rightarrow> sys_time" where
  "epoch_millis_as_time ms = int ms * 1000000"

definition epoch_plus_secs :: "u64 \<Rightarrow> sys_time option" where
  "epoch_plus_secs s = (if int s \<le> i64_max then Some (time_of_secs s) else None)"

definition touch_frontier :: "u64 \<Rightarrow> goal \<Rightarrow> goal" where
  "touch_frontier ts g = g\<lparr>g_frontier_change_ts := g_frontier_change_ts g @ [ts]\<rparr>"

definition add_replayed :: "todo \<Rightarrow> goal \<Rightarrow> goal" where
  "add_replayed t g =
     (if t_index t = 0
      then g\<lparr>g_next_index := g_next_index g + 1,
             g_todos := g_todos g @ [t\<lparr>t_index := g_next_index g + 1\<rparr>]\<rparr>
      else g\<lparr>g_todos := g_todos g @ [t]\<rparr>)"

definition completion_summary :: "bool \<Rightarrow> string list \<Rightarrow> string" where
  "completion_summary no_follow_up successors =
     (if no_follow_up then ''no-follow-up''
      else if successors \<noteq> [] then ''successor '' @ join '','' successors
      else ''completed'')"

definition complete_replayed ::
  "u64 \<Rightarrow> u64 \<Rightarrow> bool \<Rightarrow> string list \<Rightarrow> string option \<Rightarrow> todo \<Rightarrow> todo" where
  "complete_replayed now ts no_follow_up successors evidence t =
     (if t_status t = Superseded then t
      else (let t1 = (todo_complete now no_follow_up successors t)
                       \<lparr>t_completed_at := Some ts, t_updated_at := ts\<rparr>
            in if evidence \<noteq> None then t1\<lparr>t_evidence := evidence\<rparr> else t1))"

definition blank_to_none :: "string \<Rightarrow> string option" where
  "blank_to_none s = (if blank s then None else Some s)"

definition set_opt :: "'a option \<Rightarrow> ('a \<Rightarrow> 't \<Rightarrow> 't) \<Rightarrow> 't \<Rightarrow> 't" where
  "set_opt x f t = (case x of None \<Rightarrow> t | Some v \<Rightarrow> f v t)"

definition patch_priority :: "string \<Rightarrow> priority" where
  "patch_priority p = (if upper p = ''P0'' then P0 else if upper p = ''P2'' then P2 else P1)"

definition patch_deferral :: "u64 \<Rightarrow> u64 option \<Rightarrow> string \<Rightarrow> todo \<Rightarrow> todo" where
  "patch_deferral ts at_ms rw t =
     (let t1 = t\<lparr>t_resume_when_text := Some rw, t_status := Deferred\<rparr> in
      case at_ms of
        Some ms \<Rightarrow> t1\<lparr>t_resume_when := Some (epoch_millis_as_time ms)\<rparr>
      | None \<Rightarrow>
          (case Option.bind (strip_prefix ''defer:'' rw) parse_u64 of
             Some secs \<Rightarrow>
               t1\<lparr>t_resume_when := Some (epoch_millis_as_time
                    (saturating_add_u64 (saturating_mul_u64 ts 1000) (saturating_mul_u64 secs 1000)))\<rparr>
           | None \<Rightarrow> t1))"

definition patch_status :: "string \<Rightarrow> todo \<Rightarrow> todo" where
  "patch_status st t =
     (if st = ''open'' then t\<lparr>t_status := Open\<rparr>
      else if st = ''blocked'' then t\<lparr>t_status := Blocked\<rparr>
      else if st = ''deferred'' then t\<lparr>t_status := Deferred\<rparr>
      else if st = ''superseded'' then t\<lparr>t_status := Superseded\<rparr>
      else t)"

definition patch_todo :: "u64 \<Rightarrow> todo_patch \<Rightarrow> todo \<Rightarrow> todo" where
  "patch_todo ts u t =
     (let t1 = set_opt (up_text u) (\<lambda>x t. t\<lparr>t_text := x\<rparr>) t;
          t2 = set_opt (up_owner u) (\<lambda>x t. t\<lparr>t_owner := blank_to_none x\<rparr>) t1;
          t3 = set_opt (up_evidence u) (\<lambda>x t. t\<lparr>t_evidence := Some x\<rparr>) t2;
          t4 = set_opt (up_note u) (\<lambda>x t. t\<lparr>t_note := Some x\<rparr>) t3;
          t5 = set_opt (up_acceptance u) (\<lambda>x t. t\<lparr>t_acceptance := blank_to_none x\<rparr>) t4;
          t6 = set_opt (up_blocks u)
                 (\<lambda>b t. t\<lparr>t_blocked_by_gate := (if b = [] then None else Some (join '','' b))\<rparr>) t5;
          t7 = set_opt (up_priority u) (\<lambda>p t. t\<lparr>t_priority := patch_priority p\<rparr>) t6;
          t8 = set_opt (up_resume_when u) (patch_deferral ts (up_resume_at_ms u)) t7;
          t9 = set_opt (up_status u) patch_status t8
      in t9\<lparr>t_updated_at := ts\<rparr>)"

definition resolve_gate :: "u64 \<Rightarrow> string \<Rightarrow> string option \<Rightarrow> todo \<Rightarrow> todo" where
  "resolve_gate ts decision note t =
     (let t1 = t\<lparr>t_status := Done, t_decision := Some decision, t_completed_at := Some ts,
                 t_updated_at := ts\<rparr>
      in if note \<noteq> None then t1\<lparr>t_note := note\<rparr> else t1)"

definition run_summary :: "run_record \<Rightarrow> string" where
  "run_summary r =
     (if blank (r_evidence r) then r_terminal_state r
      else r_terminal_state r @ '' '' @ em_dash @ '' '' @ truncate_chars (r_evidence r) 120)"

definition drop_no_progress :: "run_record \<Rightarrow> goal \<Rightarrow> goal" where
  "drop_no_progress r g =
     (if list_ex is_write_class_tool (r_tools r)
      then g\<lparr>g_turn_no_progress :=
               filter (\<lambda>np. np_todo_id np \<noteq> r_todo_id r) (g_turn_no_progress g)\<rparr>
      else g)"

definition ack_replan :: "u64 \<Rightarrow> string list \<Rightarrow> goal \<Rightarrow> goal" where
  "ack_replan ts kinds g =
     (let ack = \<lparr>k_recorded = True, k_delta_kinds = kinds, k_at = ts\<rparr>;
          g1 = g\<lparr>g_replan_ack := Some ack\<rparr>
      in if has_frontier_delta ack then touch_frontier ts g1 else g1)"

text \<open>A poll: \<open>None\<close> when the next due time cannot be represented.\<close>

definition poll_todo :: "u64 \<Rightarrow> string \<Rightarrow> u32 \<Rightarrow> todo \<Rightarrow> todo option" where
  "poll_todo ts result no_change_count m =
     (if result = ''changed''
      then Some (m\<lparr>t_consecutive_no_change := 0, t_status := Done, t_updated_at := ts\<rparr>)
      else map_option (\<lambda>due. m\<lparr>t_consecutive_no_change := no_change_count,
                                t_resume_when := Some due, t_updated_at := ts\<rparr>)
             (epoch_plus_secs (next_poll_due_epoch ts (t_monitor_cadence m))))"

definition poll_goal :: "u64 \<Rightarrow> string \<Rightarrow> string \<Rightarrow> u32 \<Rightarrow> goal \<Rightarrow> goal option" where
  "poll_goal ts tid result no_change_count g =
     (case find_todo g tid of
        None \<Rightarrow> Some g
      | Some m \<Rightarrow>
          map_option (\<lambda>m'. on_todo tid (\<lambda>_. m') g) (poll_todo ts result no_change_count m))"

definition renew_replayed :: "u64 \<Rightarrow> string \<Rightarrow> u64 \<Rightarrow> todo \<Rightarrow> todo" where
  "renew_replayed ts agent expires t =
     (if t_claimed_by t = None then t\<lparr>t_claimed_by := Some agent\<rparr> else t)
       \<lparr>t_lease_expires_at := Some expires, t_updated_at := ts\<rparr>"

definition release_replayed :: "u64 \<Rightarrow> string \<Rightarrow> todo \<Rightarrow> todo" where
  "release_replayed ts agent t =
     (if t_claimed_by t = Some agent
      then t\<lparr>t_claimed_by := None, t_lease_expires_at := None, t_updated_at := ts\<rparr> else t)"

definition expire_replayed :: "u64 \<Rightarrow> todo \<Rightarrow> todo" where
  "expire_replayed ts t =
     (if t_claimed_by t \<noteq> None
      then t\<lparr>t_claimed_by := None, t_lease_expires_at := None, t_updated_at := ts\<rparr> else t)"

definition tick_heartbeat :: "u64 \<Rightarrow> string \<Rightarrow> goal \<Rightarrow> goal" where
  "tick_heartbeat ts agent g =
     g\<lparr>g_scheduler_heartbeats :=
         (g_scheduler_heartbeats g)
           (agent \<mapsto> max (case g_scheduler_heartbeats g agent of None \<Rightarrow> ts | Some h \<Rightarrow> h) ts)\<rparr>"

definition consume_steer :: "string option \<Rightarrow> u64 \<Rightarrow> goal \<Rightarrow> goal" where
  "consume_steer agent steer_ts g =
     (case g_pending_steer g of
        Some s \<Rightarrow>
          (if si_ts s = steer_ts \<and> si_agent_id s = agent then g\<lparr>g_pending_steer := None\<rparr> else g)
      | None \<Rightarrow> g)"

section \<open>The fold\<close>

definition KIND_RUN_LANDED :: string where "KIND_RUN_LANDED = ''run_landed''"
definition KIND_TODO_COMPLETED :: string where "KIND_TODO_COMPLETED = ''todo_completed''"
definition KIND_TODO_SUPERSEDED :: string where "KIND_TODO_SUPERSEDED = ''todo_superseded''"
definition KIND_ACCEPTANCE_GAP_SATISFIED :: string where
  "KIND_ACCEPTANCE_GAP_SATISFIED = ''acceptance_gap_satisfied''"
definition KIND_REPLAN_ACKED :: string where "KIND_REPLAN_ACKED = ''replan_acked''"
definition KIND_MONITOR_POLL :: string where "KIND_MONITOR_POLL = ''monitor_poll''"
definition KIND_GATE_RESOLVED :: string where "KIND_GATE_RESOLVED = ''gate_resolved''"
definition KIND_DELIVERY_OUTCOME :: string where "KIND_DELIVERY_OUTCOME = ''delivery_outcome''"
definition KIND_TURN_NO_PROGRESS :: string where "KIND_TURN_NO_PROGRESS = ''turn_no_progress''"

definition apply_kind :: "u64 \<Rightarrow> string \<Rightarrow> u64 \<Rightarrow> event_kind \<Rightarrow> goal \<Rightarrow> goal option" where
  "apply_kind now gid ts k g =
     (case k of
        GoalStarted \<Rightarrow> Some (g\<lparr>g_created_at := ts\<rparr>)
      | TodoAdded t \<Rightarrow> Some (touch_frontier ts (add_replayed t g))
      | TodoCompleted tid no_follow_up successors evidence \<Rightarrow>
          Some (record_semantic_event KIND_TODO_COMPLETED (Some tid)
                  (completion_summary no_follow_up successors) ts
                  (touch_frontier ts
                     (on_todo tid (complete_replayed now ts no_follow_up successors evidence) g)))
      | TodoSuperseded tid \<Rightarrow>
          Some (record_semantic_event KIND_TODO_SUPERSEDED (Some tid) ''superseded'' ts
                  (touch_frontier ts (supersede tid g)))
      | TodoUpdated tid u \<Rightarrow> Some (on_todo tid (patch_todo ts u) g)
      | GoalCancelled reason \<Rightarrow> Some (g\<lparr>g_status := ''cancelled''\<rparr>)
      | GateResolved tid decision note \<Rightarrow>
          Some (record_semantic_event KIND_GATE_RESOLVED (Some tid) ''gate resolved'' ts
                  (touch_frontier ts (on_todo tid (resolve_gate ts decision note) g)))
      | GapSatisfied gap \<Rightarrow>
          Some (record_semantic_event KIND_ACCEPTANCE_GAP_SATISFIED None
                  (''acceptance gap '' @ gap @ '' satisfied'') ts (satisfy_gap gap g))
      | RunRecorded r \<Rightarrow>
          Some (drop_no_progress r
                  (record_semantic_event KIND_RUN_LANDED (Some (r_todo_id r)) (run_summary r) ts g))
      | TodoClaimed tid agent expires pid \<Rightarrow>
          Some (on_todo tid (\<lambda>t. t\<lparr>t_claimed_by := Some agent, t_lease_expires_at := Some expires,
                                   t_holder_pid := pid\<rparr>) g)
      | AgentRegistered agent workspaces \<Rightarrow> Some (set_profile agent [] workspaces g)
      | AgentOnboarded agent caps workspaces \<Rightarrow> Some (set_profile agent caps workspaces g)
      | WorkerSessionBound agent session \<Rightarrow>
          Some (g\<lparr>g_worker_sessions := (g_worker_sessions g)(agent \<mapsto> session)\<rparr>)
      | WorkspaceLockAcquired agent tid paths forced \<Rightarrow> Some g
      | ReplanAcked kinds \<Rightarrow>
          Some (record_semantic_event KIND_REPLAN_ACKED None
                  (''delta kinds: '' @ join '','' kinds) ts (ack_replan ts kinds g))
      | ProfileSet threshold \<Rightarrow>
          Some (g\<lparr>g_execution_profile :=
                    (g_execution_profile g)\<lparr>x_outcome_floor_streak_threshold := threshold\<rparr>\<rparr>)
      | AuthoritySet scope approvals \<Rightarrow>
          Some (g\<lparr>g_authority := (g_authority g)\<lparr>au_write_scope := scope,
                                                   au_requires_approval := approvals\<rparr>\<rparr>)
      | TodoArchived tid \<Rightarrow> Some (touch_frontier ts (archive_todo now tid g))
      | MonitorPolled tid result no_change_count \<Rightarrow>
          map_option (record_semantic_event KIND_MONITOR_POLL (Some tid) result ts)
            (poll_goal ts tid result no_change_count g)
      | TurnNoProgress tid agent idle tools \<Rightarrow>
          Some (record_semantic_event KIND_TURN_NO_PROGRESS None
                  (dec idle @ ''s idle after '' @ dec tools @ '' tool calls'') ts
                  (g\<lparr>g_turn_no_progress := g_turn_no_progress g @
                       [\<lparr>np_goal_id = gid, np_todo_id = tid, np_agent_id = agent,
                         np_idle_secs = idle, np_tool_calls_total = tools, np_ts = ts\<rparr>]\<rparr>))
      | QuotaSpent run_id tid source slots \<Rightarrow>
          Some (g\<lparr>g_quota_spent_slots := saturating_add_u32 (g_quota_spent_slots g) slots\<rparr>)
      | EvidenceAttached tid evidence \<Rightarrow> Some (on_todo tid (set_evidence ts evidence) g)
      | TodoRenewed tid agent expires \<Rightarrow> Some (on_todo tid (renew_replayed ts agent expires) g)
      | TodoReleased tid agent \<Rightarrow> Some (on_todo tid (release_replayed ts agent) g)
      | TodoExpired tid \<Rightarrow> Some (on_todo tid (expire_replayed ts) g)
      | DeliveryOutcomeRecorded tid outcome note turn seq \<Rightarrow>
          Some (record_semantic_event KIND_DELIVERY_OUTCOME (Some tid) outcome ts
                  (apply_delivery_outcome tid outcome note turn seq ts g))
      | FollowthroughCreated source followup overdue \<Rightarrow>
          Some (apply_followthrough source followup ts g)
      | SchedulerTicked agent action rrule \<Rightarrow> Some (tick_heartbeat ts agent g)
      | AutomationLivenessAlert agent elapsed threshold consecutive \<Rightarrow>
          Some (g\<lparr>g_liveness_alerts := g_liveness_alerts g @
                    [\<lparr>la_agent_id = agent, la_elapsed_secs = elapsed,
                      la_threshold_secs = threshold, la_consecutive = consecutive,
                      la_ts = ts\<rparr>]\<rparr>)
      | ReplanRuleSetUpdated version ids \<Rightarrow>
          Some (record_semantic_event KIND_REPLAN_ACKED None ''replan rule set updated'' ts
                  (g\<lparr>g_replan_rule_set :=
                       (if ids = [] then None
                        else Some \<lparr>rs_schema_version = version, rs_rule_ids = ids\<rparr>)\<rparr>))
      | SupervisorRegistered session \<Rightarrow> Some (g\<lparr>g_supervisor_session_id := Some session\<rparr>)
      | WorkerSteered agent text \<Rightarrow>
          Some (g\<lparr>g_pending_steer :=
                    Some \<lparr>si_agent_id = agent, si_instruction = text, si_ts = ts\<rparr>\<rparr>)
      | SteerConsumed agent steer_ts \<Rightarrow> Some (consume_steer agent steer_ts g)
      | _ \<Rightarrow> Some g)"

definition apply_event :: "u64 \<Rightarrow> event \<Rightarrow> goal \<Rightarrow> goal option" where
  "apply_event now e g = apply_kind now (ev_goal_id e) (ev_ts e) (ev_kind e) g"

fun apply_all :: "u64 \<Rightarrow> event list \<Rightarrow> goal \<Rightarrow> goal option" where
  "apply_all now [] g = Some g"
| "apply_all now (e # es) g =
     (case apply_event now e g of None \<Rightarrow> None | Some g' \<Rightarrow> apply_all now es g')"

section \<open>The projection gap\<close>

definition lower_unit :: "string \<Rightarrow> string" where
  "lower_unit u = (if u = [CHR 0xE2, CHR 0x84, CHR 0xAA] then ''k'' else map ascii_lower_char u)"

text \<open>\<open>to_lowercase\<close>, as far as a search for an ASCII word can see it (the Kelvin sign is the only
  other character whose lower case is one ASCII letter).\<close>

definition lower :: "string \<Rightarrow> string" where
  "lower s = concat (map lower_unit (chars s))"

definition projection_gap :: "sys_time \<Rightarrow> goal \<Rightarrow> string option" where
  "projection_gap now g =
     (case g_next_action g of
        None \<Rightarrow> None
      | Some na \<Rightarrow>
          (if blank na then None
           else if contains_str ''complete; no further'' na then None
           else if open_of_at g Advancement now = [] \<and> \<not> starts_with ''[P1]'' na
                   \<and> \<not> contains_str ''waiting'' na
           then Some (''active-state Next Action `'' @ na @ ''` has no matching open agent todo'')
           else if open_gates_at g now = [] \<and> contains_str ''decide'' (lower na)
           then Some (''active-state Next Action `'' @ na
                      @ ''` waits on a decision with no open user gate'')
           else None))"

section \<open>What the arms leave alone\<close>

definition identity_of :: "todo \<Rightarrow> string \<times> task_class \<times> string option \<times> string option" where
  "identity_of t = (t_id t, t_class t, t_parent_id t, t_monitor_cadence t)"

lemma todos_frames [frame_simps]:
  "g_todos (touch_frontier ts g) = g_todos g"
  "g_todos (record_semantic_event kind tid s ts g) = g_todos g"
  "g_todos (drop_no_progress r g) = g_todos g"
  "g_todos (ack_replan ts kinds g) = g_todos g"
  "g_todos (satisfy_gap gap g) = g_todos g"
  "g_todos (set_profile a caps ws g) = g_todos g"
  "g_todos (apply_delivery_outcome i outc note turn sq ts g) = g_todos g"
  "g_todos (apply_followthrough a b ts g) = g_todos g"
  "g_todos (tick_heartbeat ts a g) = g_todos g"
  "g_todos (consume_steer ag st g) = g_todos g"
  by (simp_all add: touch_frontier_def record_semantic_event_def drop_no_progress_def
      ack_replan_def satisfy_gap_def set_profile_def apply_delivery_outcome_def
      apply_followthrough_def tick_heartbeat_def consume_steer_def Let_def split: option.splits)

lemma g_todos_on_todo: "g_todos (on_todo tid f g) = update_first (\<lambda>t. t_id t = tid) f (g_todos g)"
  by (simp add: on_todo_def)

lemma set_opt_frame: "(\<And>x t. h (f x t) = h t) \<Longrightarrow> h (set_opt v f t) = h t"
  by (simp add: set_opt_def split: option.splits)

lemma identity_updates [frame_simps]:
  "identity_of (t\<lparr>t_text := v0\<rparr>) = identity_of t"
  "identity_of (t\<lparr>t_owner := v1\<rparr>) = identity_of t"
  "identity_of (t\<lparr>t_evidence := v2\<rparr>) = identity_of t"
  "identity_of (t\<lparr>t_note := v3\<rparr>) = identity_of t"
  "identity_of (t\<lparr>t_acceptance := v4\<rparr>) = identity_of t"
  "identity_of (t\<lparr>t_blocked_by_gate := v5\<rparr>) = identity_of t"
  "identity_of (t\<lparr>t_priority := v6\<rparr>) = identity_of t"
  "identity_of (t\<lparr>t_resume_when_text := v7\<rparr>) = identity_of t"
  "identity_of (t\<lparr>t_status := v8\<rparr>) = identity_of t"
  "identity_of (t\<lparr>t_resume_when := v9\<rparr>) = identity_of t"
  "identity_of (t\<lparr>t_updated_at := v10\<rparr>) = identity_of t"
  "identity_of (t\<lparr>t_completed_at := v11\<rparr>) = identity_of t"
  "identity_of (t\<lparr>t_decision := v12\<rparr>) = identity_of t"
  "identity_of (t\<lparr>t_claimed_by := v13\<rparr>) = identity_of t"
  "identity_of (t\<lparr>t_lease_expires_at := v14\<rparr>) = identity_of t"
  "identity_of (t\<lparr>t_holder_pid := v15\<rparr>) = identity_of t"
  "identity_of (t\<lparr>t_archive_state := v16\<rparr>) = identity_of t"
  "identity_of (t\<lparr>t_consecutive_no_change := v17\<rparr>) = identity_of t"
  "identity_of (t\<lparr>t_successor_ids := v18\<rparr>) = identity_of t"
  "identity_of (t\<lparr>t_no_follow_up := v19\<rparr>) = identity_of t"
  "identity_of (t\<lparr>t_index := v20\<rparr>) = identity_of t"
  by (simp_all add: identity_of_def)

lemma identity_patch_parts [frame_simps]:
  "identity_of (patch_deferral ts at_ms rw t) = identity_of t"
  "identity_of (patch_status st t) = identity_of t"
  by (simp_all add: patch_deferral_def patch_status_def Let_def frame_simps split: option.splits)

lemma identity_patch [frame_simps]: "identity_of (patch_todo ts u t) = identity_of t"
  by (simp add: patch_todo_def Let_def set_opt_frame [where h = identity_of] frame_simps)

lemma identity_frames [frame_simps]:
  "identity_of (complete_replayed now ts nf succ ev t) = identity_of t"
  "identity_of (resolve_gate ts decision note t) = identity_of t"
  "identity_of (renew_replayed ts a x t) = identity_of t"
  "identity_of (release_replayed ts a t) = identity_of t"
  "identity_of (expire_replayed ts t) = identity_of t"
  "identity_of (set_evidence ts txt t) = identity_of t"
  "identity_of (archive now t) = identity_of t"
  by (simp_all add: complete_replayed_def resolve_gate_def renew_replayed_def release_replayed_def
      expire_replayed_def set_evidence_def archive_def todo_complete_def Let_def frame_simps)

lemma identity_poll: "poll_todo ts r n m = Some m' \<Longrightarrow> identity_of m' = identity_of m"
  by (auto simp: poll_todo_def identity_of_def split: if_splits)

lemma map_identity_on_todo:
  "(\<And>t. identity_of (f t) = identity_of t) \<Longrightarrow>
     map identity_of (g_todos (on_todo tid f g)) = map identity_of (g_todos g)"
  by (simp add: g_todos_on_todo map_update_first)

lemma map_update_first_find:
  "find p xs = Some m \<Longrightarrow> h m' = h m \<Longrightarrow> map h (update_first p (\<lambda>_. m') xs) = map h xs"
  by (induction xs) (auto split: if_splits)

lemma map_identity_set:
  "find_todo g tid = Some m \<Longrightarrow> identity_of m' = identity_of m \<Longrightarrow>
     map identity_of (g_todos (on_todo tid (\<lambda>_. m') g)) = map identity_of (g_todos g)"
  unfolding find_todo_def g_todos_on_todo by (rule map_update_first_find)

definition added_by :: "event_kind \<Rightarrow> (string \<times> task_class \<times> string option \<times> string option) list" where
  "added_by k = (case k of TodoAdded t \<Rightarrow> [identity_of t] | _ \<Rightarrow> [])"

lemma identity_add_replayed:
  "map identity_of (g_todos (add_replayed t g)) = map identity_of (g_todos g) @ [identity_of t]"
  by (simp add: add_replayed_def frame_simps)

lemma poll_goal_identities:
  "poll_goal ts tid r n g = Some g' \<Longrightarrow> map identity_of (g_todos g') = map identity_of (g_todos g)"
  by (auto simp: poll_goal_def map_identity_set dest: identity_poll split: option.splits)

lemma apply_kind_identities:
  "apply_kind now gid ts k g = Some g' \<Longrightarrow>
     map identity_of (g_todos g') = map identity_of (g_todos g) @ added_by k"
  by (cases k)
    (auto simp: apply_kind_def added_by_def frame_simps map_identity_on_todo supersede_def
      archive_todo_def identity_add_replayed dest: poll_goal_identities)

section \<open>Looking a todo up after an event\<close>

lemma identity_of_id: "identity_of t' = identity_of t \<Longrightarrow> t_id t' = t_id t"
  by (simp add: identity_of_def)

lemma find_todo_frames [frame_simps]:
  "find_todo (touch_frontier ts g) i = find_todo g i"
  "find_todo (record_semantic_event kind tid s ts g) i = find_todo g i"
  "find_todo (drop_no_progress r g) i = find_todo g i"
  "find_todo (ack_replan ts kinds g) i = find_todo g i"
  "find_todo (satisfy_gap gap g) i = find_todo g i"
  "find_todo (set_profile a caps ws g) i = find_todo g i"
  "find_todo (apply_delivery_outcome j outc note turn sq ts g) i = find_todo g i"
  "find_todo (apply_followthrough a b ts g) i = find_todo g i"
  "find_todo (tick_heartbeat ts a g) i = find_todo g i"
  "find_todo (consume_steer ag st g) i = find_todo g i"
  by (simp_all add: find_todo_def todos_frames)

lemma find_todo_updates [frame_simps]:
  "find_todo (g\<lparr>g_created_at := v0\<rparr>) j = find_todo g j"
  "find_todo (g\<lparr>g_status := v1\<rparr>) j = find_todo g j"
  "find_todo (g\<lparr>g_worker_sessions := v2\<rparr>) j = find_todo g j"
  "find_todo (g\<lparr>g_execution_profile := v3\<rparr>) j = find_todo g j"
  "find_todo (g\<lparr>g_authority := v4\<rparr>) j = find_todo g j"
  "find_todo (g\<lparr>g_turn_no_progress := v5\<rparr>) j = find_todo g j"
  "find_todo (g\<lparr>g_quota_spent_slots := v6\<rparr>) j = find_todo g j"
  "find_todo (g\<lparr>g_liveness_alerts := v7\<rparr>) j = find_todo g j"
  "find_todo (g\<lparr>g_replan_rule_set := v8\<rparr>) j = find_todo g j"
  "find_todo (g\<lparr>g_supervisor_session_id := v9\<rparr>) j = find_todo g j"
  "find_todo (g\<lparr>g_pending_steer := v10\<rparr>) j = find_todo g j"
  by (simp_all add: find_todo_def)

lemma find_todo_on_todo:
  assumes "\<And>t. identity_of (f t) = identity_of t"
  shows "find_todo (on_todo j f g) i = (if i = j then map_option f (find_todo g i) else find_todo g i)"
  using assms [THEN identity_of_id]
  by (auto simp: find_todo_def g_todos_on_todo find_update_first_same find_update_first_other)

lemma find_todo_add: "find_todo g i = Some t \<Longrightarrow> find_todo (add_replayed u g) i = Some t"
proof -
  have "find p xs = Some t \<Longrightarrow> find p (xs @ ys) = Some t" for p and xs ys :: "todo list"
    by (induction xs) auto
  then show "find_todo g i = Some t \<Longrightarrow> find_todo (add_replayed u g) i = Some t"
    by (auto simp: find_todo_def add_replayed_def)
qed

lemma find_todo_poll:
  assumes "poll_goal ts j r n g = Some g'"
  shows "find_todo g' i
         = (if i = j then Option.bind (find_todo g i) (poll_todo ts r n) else find_todo g i)"
proof (cases "find_todo g j")
  case None
  then show ?thesis using assms by (auto simp: poll_goal_def)
next
  case (Some m)
  then obtain m' where m': "poll_todo ts r n m = Some m'" "g' = on_todo j (\<lambda>_. m') g"
    using assms by (auto simp: poll_goal_def)
  have "t_id m' = j"
    using Some identity_of_id [OF identity_poll [OF m'(1)]]
    by (auto simp: find_todo_def dest: find_SomeD)
  then show ?thesis
    using Some m' by (auto simp: find_todo_def g_todos_on_todo find_update_first_same
        find_update_first_other)
qed

lemma find_todo_apply:
  assumes "apply_kind now gid ts k g = Some g'" "find_todo g i = Some t"
  shows "find_todo g' i = Some
    (case k of
       TodoCompleted j nf succ ev \<Rightarrow> if i = j then complete_replayed now ts nf succ ev t else t
     | TodoSuperseded j \<Rightarrow> if i = j then t\<lparr>t_status := Superseded\<rparr> else t
     | TodoUpdated j u \<Rightarrow> if i = j then patch_todo ts u t else t
     | GateResolved j decision note \<Rightarrow> if i = j then resolve_gate ts decision note t else t
     | TodoClaimed j a x p \<Rightarrow>
         if i = j then t\<lparr>t_claimed_by := Some a, t_lease_expires_at := Some x, t_holder_pid := p\<rparr> else t
     | TodoArchived j \<Rightarrow> if i = j then archive now t else t
     | MonitorPolled j r n \<Rightarrow> if i = j then the (poll_todo ts r n t) else t
     | EvidenceAttached j txt \<Rightarrow> if i = j then set_evidence ts txt t else t
     | TodoRenewed j a x \<Rightarrow> if i = j then renew_replayed ts a x t else t
     | TodoReleased j a \<Rightarrow> if i = j then release_replayed ts a t else t
     | TodoExpired j \<Rightarrow> if i = j then expire_replayed ts t else t
     | _ \<Rightarrow> t)"
proof (cases k)
  case (MonitorPolled j r n)
  then obtain g1 where g1: "poll_goal ts j r n g = Some g1" "find_todo g' i = find_todo g1 i"
    using assms(1) by (auto simp: apply_kind_def frame_simps)
  then show ?thesis
    using find_todo_poll [OF g1(1), of i] assms(2) MonitorPolled g1(1)
    by (auto simp: poll_goal_def)
next
  case (TodoAdded u)
  then show ?thesis using assms by (auto simp: apply_kind_def frame_simps find_todo_add)
qed (use assms in \<open>auto simp: apply_kind_def frame_simps find_todo_on_todo supersede_def
      archive_todo_def\<close>)

section \<open>Invariants of the fold\<close>

text \<open>The read model a replay maintains: bounded history and counters, one profile for each
  registered agent, one delivery state for each todo, no empty rule set.\<close>

definition replay_wf :: "goal \<Rightarrow> bool" where
  "replay_wf g \<longleftrightarrow>
     length (g_semantic_history g) \<le> 50
     \<and> g_quota_spent_slots g < 2 ^ 32
     \<and> distinct (g_registered_agents g)
     \<and> distinct (map ap_id (g_agent_profiles g))
     \<and> set (map ap_id (g_agent_profiles g)) = set (g_registered_agents g)
     \<and> distinct (map d_todo_id (g_delivery_states g))
     \<and> (\<forall>rs. g_replan_rule_set g = Some rs \<longrightarrow> rs_rule_ids rs \<noteq> [])"

lemma replay_wf_new: "replay_wf (goal_new now gid obj cwd)"
  by (simp add: replay_wf_def goal_new_def)

lemma replay_wf_record [simp]: "replay_wf g \<Longrightarrow> replay_wf (record_semantic_event kind tid s ts g)"
  by (simp add: replay_wf_def length_record_semantic_event) (simp add: record_semantic_event_def)

lemma replay_wf_touch [simp]: "replay_wf (touch_frontier ts g) = replay_wf g"
  by (simp add: replay_wf_def touch_frontier_def)

lemma replay_wf_on_todo [simp]: "replay_wf (on_todo i f g) = replay_wf g"
  by (simp add: replay_wf_def on_todo_def)

lemma replay_wf_add [simp]: "replay_wf (add_replayed t g) = replay_wf g"
  by (simp add: replay_wf_def add_replayed_def)

lemma replay_wf_profile:
  assumes "replay_wf g"
  shows "replay_wf (set_profile a caps ws g)"
proof -
  have "set (map ap_id (filter (\<lambda>p. ap_id p \<noteq> a) (g_agent_profiles g))) = set (g_registered_agents g) - {a}"
    using assms by (auto simp: replay_wf_def)
  then show ?thesis
    using assms by (auto simp: replay_wf_def set_profile_def list_ex_iff distinct_map_filter)
qed

lemma find_None_ids: "find_delivery g tid = None \<Longrightarrow> tid \<notin> set (map d_todo_id (g_delivery_states g))"
  by (auto simp: find_delivery_def find_None_iff)

lemma delivery_ids_outcome:
  "map d_todo_id (g_delivery_states (apply_delivery_outcome tid outc note turn sq ts g))
   = map d_todo_id (g_delivery_states g) @ (if find_delivery g tid = None then [tid] else [])"
  by (simp add: apply_delivery_outcome_def Let_def map_update_first split: option.splits)

lemma replay_wf_delivery:
  "replay_wf g \<Longrightarrow> replay_wf (apply_delivery_outcome tid outc note turn sq ts g)"
proof -
  assume "replay_wf g"
  moreover have "g_semantic_history (apply_delivery_outcome tid outc note turn sq ts g) = g_semantic_history g
    \<and> g_quota_spent_slots (apply_delivery_outcome tid outc note turn sq ts g) = g_quota_spent_slots g
    \<and> g_registered_agents (apply_delivery_outcome tid outc note turn sq ts g) = g_registered_agents g
    \<and> g_agent_profiles (apply_delivery_outcome tid outc note turn sq ts g) = g_agent_profiles g
    \<and> g_replan_rule_set (apply_delivery_outcome tid outc note turn sq ts g) = g_replan_rule_set g"
    by (simp add: apply_delivery_outcome_def Let_def split: option.splits)
  ultimately show ?thesis
    using find_None_ids [of g tid]
    by (simp only: replay_wf_def delivery_ids_outcome) auto
qed

lemma replay_wf_poll: "replay_wf g \<Longrightarrow> poll_goal ts tid r n g = Some g' \<Longrightarrow> replay_wf g'"
  by (auto simp: poll_goal_def split: option.splits)

lemma replay_wf_plain [simp]:
  "replay_wf (g\<lparr>g_created_at := a\<rparr>) = replay_wf g"
  "replay_wf (g\<lparr>g_status := b\<rparr>) = replay_wf g"
  "replay_wf (g\<lparr>g_worker_sessions := c\<rparr>) = replay_wf g"
  "replay_wf (g\<lparr>g_execution_profile := d\<rparr>) = replay_wf g"
  "replay_wf (g\<lparr>g_authority := e\<rparr>) = replay_wf g"
  "replay_wf (g\<lparr>g_turn_no_progress := f\<rparr>) = replay_wf g"
  "replay_wf (g\<lparr>g_liveness_alerts := h\<rparr>) = replay_wf g"
  "replay_wf (g\<lparr>g_supervisor_session_id := i\<rparr>) = replay_wf g"
  "replay_wf (g\<lparr>g_pending_steer := j\<rparr>) = replay_wf g"
  "replay_wf (g\<lparr>g_replan_ack := k\<rparr>) = replay_wf g"
  "replay_wf (g\<lparr>g_scheduler_heartbeats := l\<rparr>) = replay_wf g"
  "replay_wf (g\<lparr>g_acceptance := m\<rparr>) = replay_wf g"
  by (simp_all add: replay_wf_def)

lemma replay_wf_arms:
  assumes "replay_wf g"
  shows "replay_wf (drop_no_progress r g)" "replay_wf (ack_replan ts kinds g)"
    "replay_wf (satisfy_gap gap g)" "replay_wf (apply_followthrough a b ts g)"
    "replay_wf (tick_heartbeat ts a g)" "replay_wf (consume_steer ag st g)"
    "replay_wf (supersede i g)" "replay_wf (archive_todo now i g)"
    "replay_wf (g\<lparr>g_quota_spent_slots := saturating_add_u32 (g_quota_spent_slots g) slots\<rparr>)"
    "replay_wf (g\<lparr>g_replan_rule_set :=
       (if ids = [] then None else Some \<lparr>rs_schema_version = v, rs_rule_ids = ids\<rparr>)\<rparr>)"
proof -
  show "replay_wf (apply_followthrough a b ts g)"
    using assms by (simp add: replay_wf_def apply_followthrough_def map_update_first)
  show "replay_wf (g\<lparr>g_quota_spent_slots := saturating_add_u32 (g_quota_spent_slots g) slots\<rparr>)"
    using assms by (auto simp: replay_wf_def saturating_add_u32_def)
  show "replay_wf (g\<lparr>g_replan_rule_set :=
       (if ids = [] then None else Some \<lparr>rs_schema_version = v, rs_rule_ids = ids\<rparr>)\<rparr>)"
    using assms by (auto simp: replay_wf_def)
qed (use assms in \<open>simp_all add: drop_no_progress_def ack_replan_def satisfy_gap_def
    tick_heartbeat_def consume_steer_def supersede_def archive_todo_def Let_def split: option.splits\<close>)

lemma replay_wf_apply:
  "replay_wf g \<Longrightarrow> apply_kind now gid ts k g = Some g' \<Longrightarrow> replay_wf g'"
  by (cases k)
    (auto simp: apply_kind_def replay_wf_arms replay_wf_profile replay_wf_delivery
      dest: replay_wf_poll)

text \<open>C34: a replay keeps the read model well-formed: at most 50 semantic events, a quota counter that
  saturates instead of wrapping, registered agents without repetition and exactly one profile for each,
  one delivery state for each todo and never an empty rule set; and it neither drops, renames, reorders,
  reclassifies, reschedules nor re-parents a todo: the todos are those it started from, then the added ones in ledger order.\<close>

theorem replay_keeps_read_model:
  assumes "replay_wf g" "apply_all now es g = Some g'"
  shows "replay_wf g'
    \<and> map (\<lambda>t. (t_id t, t_class t, t_parent_id t, t_monitor_cadence t)) (g_todos g')
      = map (\<lambda>t. (t_id t, t_class t, t_parent_id t, t_monitor_cadence t)) (g_todos g)
        @ concat (map (\<lambda>e. case ev_kind e of TodoAdded t \<Rightarrow> [(t_id t, t_class t, t_parent_id t, t_monitor_cadence t)] | _ \<Rightarrow> []) es)"
proof -
  have "replay_wf g' \<and> map identity_of (g_todos g')
      = map identity_of (g_todos g) @ concat (map (\<lambda>e. added_by (ev_kind e)) es)"
    using assms
  proof (induction es arbitrary: g)
    case (Cons e es)
    then obtain g1 where g1: "apply_event now e g = Some g1" "apply_all now es g1 = Some g'"
      by (auto split: option.splits)
    then have "replay_wf g1"
      "map identity_of (g_todos g1) = map identity_of (g_todos g) @ added_by (ev_kind e)"
      using Cons.prems(1) by (auto simp: apply_event_def dest: replay_wf_apply apply_kind_identities)
    then show ?case using Cons.IH [OF _ g1(2)] by simp
  qed simp
  then show ?thesis by (simp add: identity_of_def [abs_def] added_by_def cong: event_kind.case_cong)
qed

definition demo_ledger :: "event list" where
  "demo_ledger =
     [\<lparr>ev_kind = GoalStarted, ev_goal_id = ''g'', ev_ts = 5\<rparr>,
      \<lparr>ev_kind = TodoAdded (advancement 0 ''T1'' ''w''), ev_goal_id = ''g'', ev_ts = 6\<rparr>,
      \<lparr>ev_kind = AgentRegistered ''ann'' [], ev_goal_id = ''g'', ev_ts = 7\<rparr>,
      \<lparr>ev_kind = TodoSuperseded ''T1'', ev_goal_id = ''g'', ev_ts = 8\<rparr>]"

definition demo_start :: goal where
  "demo_start = goal_new 0 ''g'' ''o'' ''/r''"

definition demo_replayed :: goal where
  "demo_replayed = the (apply_all 9 demo_ledger demo_start)"

lemma demo_replays: "apply_all 9 demo_ledger demo_start = Some demo_replayed"
  by (simp add: demo_replayed_def demo_ledger_def apply_event_def apply_kind_def)

lemma replay_keeps_read_model_witness:
  "replay_wf demo_replayed
   \<and> map (\<lambda>t. (t_id t, t_class t, t_parent_id t, t_monitor_cadence t)) (g_todos demo_replayed) = [(''T1'', Advancement, None, None)]"
  using replay_keeps_read_model [OF _ demo_replays] replay_wf_new [of 0 "''g''" "''o''" "''/r''"]
  by (simp add: demo_start_def demo_ledger_def goal_new_def advancement_def todo_new_def)

section \<open>Terminal states\<close>

text \<open>The events that move a superseded todo to another state.\<close>

definition reopens :: "event_kind \<Rightarrow> string \<Rightarrow> bool" where
  "reopens k tid \<longleftrightarrow>
     (case k of
        TodoUpdated i u \<Rightarrow>
          i = tid \<and> (case up_status u of
                       Some st \<Rightarrow>
                         st = ''open'' \<or> st = ''blocked'' \<or> st = ''deferred''
                         \<or> st \<noteq> ''superseded'' \<and> up_resume_when u \<noteq> None
                     | None \<Rightarrow> up_resume_when u \<noteq> None)
      | GateResolved i _ _ \<Rightarrow> i = tid
      | MonitorPolled i r _ \<Rightarrow> i = tid \<and> r = ''changed''
      | _ \<Rightarrow> False)"

lemma status_set_opt:
  "(\<And>x t. t_status (f x t) = t_status t) \<Longrightarrow> t_status (set_opt v f t) = t_status t"
  by (rule set_opt_frame)

lemma status_patch:
  "t_status (patch_todo ts u t)
   = (let st = (if up_resume_when u \<noteq> None then Deferred else t_status t) in
      case up_status u of
        None \<Rightarrow> st
      | Some s \<Rightarrow> (if s = ''open'' then Open else if s = ''blocked'' then Blocked
                   else if s = ''deferred'' then Deferred
                   else if s = ''superseded'' then Superseded else st))"
proof -
  have deferral: "t_status (patch_deferral ts a rw t) = Deferred" for a rw t
    by (simp add: patch_deferral_def Let_def split: option.splits)
  show ?thesis
    unfolding patch_todo_def Let_def
    by (simp add: set_opt_def [of "up_resume_when u"] set_opt_def [of "up_status u"] status_set_opt
        deferral patch_status_def split: option.split)
qed

lemma status_arms:
  "t_status (complete_replayed now ts nf succ ev t) = (if t_status t = Superseded then Superseded else Done)"
  "t_status (resolve_gate ts decision note t) = Done"
  "t_status (archive now t) = t_status t"
  "t_status (set_evidence ts txt t) = t_status t"
  "t_status (renew_replayed ts a x t) = t_status t"
  "t_status (release_replayed ts a t) = t_status t"
  "t_status (expire_replayed ts t) = t_status t"
  by (simp_all add: complete_replayed_def resolve_gate_def archive_def set_evidence_def
      renew_replayed_def release_replayed_def expire_replayed_def todo_complete_def Let_def)

lemma status_poll: "poll_todo ts r n t = Some t' \<Longrightarrow> t_status t' = (if r = ''changed'' then Done else t_status t)"
  by (auto simp: poll_todo_def)

lemma poll_applies:
  assumes "apply_kind now gid ts (MonitorPolled i r n) g = Some g'" "find_todo g i = Some t"
  shows "\<exists>t'. poll_todo ts r n t = Some t'"
  using assms by (auto simp: apply_kind_def poll_goal_def)

text \<open>supersession wins over a late completion, but is not final: replaying a completion leaves a
  superseded todo exactly as it was, and among all events precisely a status or deferral update, a gate
  resolution and a changed poll of that todo move it to another state.\<close>

theorem superseded_left_exactly_by:
  assumes "apply_event now e g = Some g'" "find_todo g tid = Some t" "t_status t = Superseded"
  shows "(\<exists>t'. find_todo g' tid = Some t' \<and> (t_status t' \<noteq> Superseded \<longleftrightarrow> reopens (ev_kind e) tid))
    \<and> (\<forall>nf succ ev. ev_kind e = TodoCompleted tid nf succ ev \<longrightarrow> find_todo g' tid = Some t)"
proof (intro conjI allI impI)
  note step = find_todo_apply [OF assms(1) [unfolded apply_event_def] assms(2)]
  show "\<exists>t'. find_todo g' tid = Some t' \<and> (t_status t' \<noteq> Superseded \<longleftrightarrow> reopens (ev_kind e) tid)"
  proof (cases "ev_kind e")
    case (MonitorPolled i r n)
    show ?thesis
    proof (cases "i = tid")
      case True
      obtain t' where t': "poll_todo (ev_ts e) r n t = Some t'"
        using poll_applies assms(1,2) MonitorPolled True unfolding apply_event_def by metis
      show ?thesis
        using step MonitorPolled True t' status_poll [OF t'] assms(3) by (simp add: reopens_def)
    next
      case False
      then show ?thesis using step MonitorPolled assms(3) by (simp add: reopens_def)
    qed
  next
    case (TodoUpdated i u)
    then show ?thesis
      using step assms(3) by (auto simp: reopens_def status_patch Let_def split: option.splits)
  qed (use step assms(3) in \<open>auto simp: reopens_def status_arms\<close>)
  show "find_todo g' tid = Some t" if "ev_kind e = TodoCompleted tid nf succ ev" for nf succ ev
    using step that assms(3) by (simp add: complete_replayed_def)
qed

definition demo_late_completion :: event where
  "demo_late_completion =
     \<lparr>ev_kind = TodoCompleted ''T1'' True [] None, ev_goal_id = ''g'', ev_ts = 10\<rparr>"

lemma superseded_left_exactly_by_witness:
  "find_todo (the (apply_event 9 demo_late_completion demo_replayed)) ''T1''
   = find_todo demo_replayed ''T1''"
proof -
  obtain t where t: "find_todo demo_replayed ''T1'' = Some t" "t_status t = Superseded"
    by (simp add: demo_replayed_def demo_ledger_def demo_start_def apply_event_def apply_kind_def
        find_todo_def add_replayed_def touch_frontier_def supersede_def on_todo_def
        record_semantic_event_def set_profile_def goal_new_def advancement_def todo_new_def)
  have "apply_event 9 demo_late_completion demo_replayed
        = Some (the (apply_event 9 demo_late_completion demo_replayed))"
    by (simp add: demo_late_completion_def apply_event_def apply_kind_def)
  from conjunct2 [OF superseded_left_exactly_by [OF this t]]
  have "ev_kind demo_late_completion = TodoCompleted ''T1'' True [] None \<longrightarrow>
      find_todo (the (apply_event 9 demo_late_completion demo_replayed)) ''T1'' = Some t"
    by blast
  then show ?thesis by (simp add: demo_late_completion_def t(1))
qed

section \<open>What a replay depends on\<close>

lemma complete_replayed_clock:
  "complete_replayed now ts nf succ ev t = complete_replayed now' ts nf succ ev t"
  by (simp add: complete_replayed_def todo_complete_def Let_def)

lemma apply_clock:
  assumes "\<And>i. k \<noteq> TodoArchived i"
  shows "apply_kind now gid ts k g = apply_kind now' gid ts k g"
proof (cases k)
  case (TodoCompleted i nf succ ev)
  have "complete_replayed now ts nf succ ev = complete_replayed now' ts nf succ ev"
    by (rule ext) (rule complete_replayed_clock)
  then show ?thesis using TodoCompleted by (simp add: apply_kind_def)
qed (use assms in \<open>simp_all add: apply_kind_def\<close>)

text \<open>a replay does not depend on the clock of the reader as long as no todo was archived:
  folding the same ledger at two different times gives the same goal.\<close>

theorem replay_clock_independent:
  assumes "\<forall>e \<in> set es. \<forall>i. ev_kind e \<noteq> TodoArchived i"
  shows "apply_all now es g = apply_all now' es g"
  using assms
proof (induction es arbitrary: g)
  case (Cons e es)
  then have "apply_event now e g = apply_event now' e g"
    using apply_clock [of "ev_kind e" now "ev_goal_id e" "ev_ts e" g now'] by (simp add: apply_event_def)
  then show ?case using Cons by (simp split: option.splits)
qed simp

lemma replay_clock_independent_witness:
  "apply_all 9 demo_ledger demo_start = apply_all 12345 demo_ledger demo_start"
  by (rule replay_clock_independent) (simp add: demo_ledger_def)

text \<open>An archived todo is dated by the reader: replaying an archive event stamps the todo with the
  time of the read, not of the event, so each later read moves its update time.\<close>

theorem archived_todo_redated:
  assumes "find_todo g tid = Some t" "ev_kind e = TodoArchived tid"
  shows "\<exists>g'. apply_event now e g = Some g'
    \<and> (\<exists>t'. find_todo g' tid = Some t' \<and> t_archive_state t' = ''archived'' \<and> t_updated_at t' = now)"
proof -
  obtain g' where g': "apply_event now e g = Some g'"
    using assms(2) by (simp add: apply_event_def apply_kind_def)
  have "find_todo g' tid = Some (archive now t)"
    using find_todo_apply [OF g' [unfolded apply_event_def] assms(1)] assms(2) by simp
  then show ?thesis using g' by (simp add: archive_def)
qed

lemma archived_todo_redated_witness:
  "\<exists>g' t'. apply_event 99 \<lparr>ev_kind = TodoArchived ''T1'', ev_goal_id = ''g'', ev_ts = 10\<rparr> demo_replayed
             = Some g' \<and> find_todo g' ''T1'' = Some t' \<and> t_updated_at t' = 99"
proof -
  obtain t where "find_todo demo_replayed ''T1'' = Some t"
    by (simp add: demo_replayed_def demo_ledger_def demo_start_def apply_event_def apply_kind_def
        find_todo_def add_replayed_def touch_frontier_def supersede_def on_todo_def
        record_semantic_event_def set_profile_def goal_new_def advancement_def todo_new_def)
  from archived_todo_redated [OF this, of "\<lparr>ev_kind = TodoArchived ''T1'', ev_goal_id = ''g'', ev_ts = 10\<rparr>" 99]
  show ?thesis by auto
qed

section \<open>Panics\<close>

text \<open>A cadence whose next due time stays in range for every poll before the year 146 billion.\<close>

definition sane_cadence :: "string option \<Rightarrow> bool" where
  "sane_cadence c \<longleftrightarrow>
     (case cadence_poll_interval_secs c of None \<Rightarrow> True | Some secs \<Rightarrow> secs \<le> 2 ^ 62)"

lemma sane_cadence_due:
  assumes "sane_cadence c" "ts < 2 ^ 62"
  shows "\<exists>due. epoch_plus_secs (next_poll_due_epoch ts c) = Some due"
proof -
  have "ts + (case cadence_poll_interval_secs c of
                None \<Rightarrow> MONITOR_NO_CHANGE_BACKOFF_SECS | Some secs \<Rightarrow> secs) < 2 ^ 63"
    using assms by (auto simp: sane_cadence_def MONITOR_NO_CHANGE_BACKOFF_SECS_def split: option.splits)
  then have "next_poll_due_epoch ts c < 2 ^ 63" by (simp add: next_poll_due_epoch_def)
  then show ?thesis by (simp add: epoch_plus_secs_def i64_max_def)
qed

lemma apply_total:
  assumes "\<forall>t \<in> set (g_todos g). sane_cadence (t_monitor_cadence t)" "ts < 2 ^ 62"
  shows "\<exists>g'. apply_kind now gid ts k g = Some g'"
proof (cases k)
  case (MonitorPolled i r n)
  have "\<exists>m'. poll_todo ts r n m = Some m'" if "find_todo g i = Some m" for m
  proof -
    have "m \<in> set (g_todos g)" using that by (auto simp: find_todo_def dest: find_SomeD)
    then obtain due where "epoch_plus_secs (next_poll_due_epoch ts (t_monitor_cadence m)) = Some due"
      using sane_cadence_due assms by blast
    then show ?thesis by (simp add: poll_todo_def)
  qed
  then show ?thesis using MonitorPolled by (auto simp: apply_kind_def poll_goal_def split: option.splits)
qed (simp_all add: apply_kind_def)

lemma sane_identities:
  "(\<forall>t \<in> set (g_todos g). sane_cadence (t_monitor_cadence t)) \<longleftrightarrow>
     (\<forall>x \<in> set (map identity_of (g_todos g)). sane_cadence (snd (snd (snd x))))"
  by (simp add: identity_of_def)

text \<open>a replay is total for ordinary cadences: when the poll interval of every todo, initial or
  added, fits 62 bits and so does every time, the fold never panics and yields a goal.\<close>

theorem replay_total:
  assumes "\<forall>t \<in> set (g_todos g). sane_cadence (t_monitor_cadence t)"
    and "\<forall>e \<in> set es. ev_ts e < 2 ^ 62
           \<and> (\<forall>t. ev_kind e = TodoAdded t \<longrightarrow> sane_cadence (t_monitor_cadence t))"
  shows "\<exists>g'. apply_all now es g = Some g'"
  using assms
proof (induction es arbitrary: g)
  case (Cons e es)
  then obtain g1 where g1: "apply_event now e g = Some g1"
    using apply_total [of g "ev_ts e" now "ev_goal_id e" "ev_kind e"] by (auto simp: apply_event_def)
  have "map identity_of (g_todos g1) = map identity_of (g_todos g) @ added_by (ev_kind e)"
    using g1 by (auto simp: apply_event_def dest: apply_kind_identities)
  moreover have "\<forall>x \<in> set (added_by (ev_kind e)). sane_cadence (snd (snd (snd x)))"
    using Cons.prems(2) by (auto simp: added_by_def identity_of_def split: event_kind.splits)
  ultimately have "\<forall>t \<in> set (g_todos g1). sane_cadence (t_monitor_cadence t)"
    using Cons.prems(1) unfolding sane_identities by auto
  from Cons.IH [OF this] Cons.prems(2) g1 show ?case by simp
qed simp

lemma replay_total_witness: "\<exists>g'. apply_all 9 demo_ledger demo_start = Some g'"
proof (rule replay_total)
  have "sane_cadence None" by (simp add: sane_cadence_def cadence_poll_interval_secs_def)
  then show "\<forall>e \<in> set demo_ledger. ev_ts e < 2 ^ 62
           \<and> (\<forall>t. ev_kind e = TodoAdded t \<longrightarrow> sane_cadence (t_monitor_cadence t))"
    by (simp add: demo_ledger_def advancement_def todo_new_def)
qed (simp add: demo_start_def goal_new_def)

definition poison_monitor :: todo where
  "poison_monitor = (todo_new 0 ''M1'' ''watch'' Monitor)
     \<lparr>t_monitor_cadence := Some (rrule_for_minutes 200000000000000000)\<rparr>"

text \<open>One monitor can make a ledger unreadable: adding a monitor whose cadence is the recurrence rule
  of a huge interval is accepted by the fold, but replaying the first unchanged poll of it panics, at
  every clock.\<close>

theorem poison_cadence_panics:
  "\<exists>g. apply_all now [\<lparr>ev_kind = TodoAdded poison_monitor, ev_goal_id = ''g'', ev_ts = 5\<rparr>] demo_start
         = Some g
       \<and> apply_event now \<lparr>ev_kind = MonitorPolled ''M1'' ''no_change'' 1, ev_goal_id = ''g'', ev_ts = 6\<rparr> g
         = None"
proof -
  have cad: "next_poll_due_epoch 6 (Some (rrule_for_minutes 200000000000000000))
             = 12000000000000000006"
    by (simp add: next_poll_due_epoch_def cadence_interval_rrule i64_max_def)
  show ?thesis
    by (simp add: apply_event_def apply_kind_def poll_goal_def poll_todo_def find_todo_def
        add_replayed_def touch_frontier_def demo_start_def goal_new_def poison_monitor_def
        todo_new_def cad epoch_plus_secs_def i64_max_def)
qed

end
