(* ===== verification/Task_Graph.thy ===== *)
theory Task_Graph
  imports Goal_State "HOL-Library.Product_Lexorder" "HOL-Library.Multiset"
begin

text \<open>
  The dependency graph of \<open>orchestration/goal/src/work_items/task_graph.rs\<close>: the validation of
  a changed todo (a depth-first search for a cycle through it), the whole graph with its
  fail-closed reference checks, and Kahn's topological sort with the walk that reports a
  leftover path.

  The \<open>BTreeMap\<close>s of the sort are maps; a decrement below zero and a missing entry are the
  panics of the code, modelled as \<open>None\<close> and proved unreachable.
\<close>

section \<open>References and edges\<close>

definition predecessor_ids :: "todo \<Rightarrow> string list" where
  "predecessor_ids t =
     (case t_blocked_by_gate t of
        None \<Rightarrow> []
      | Some s \<Rightarrow> filter (\<lambda>p. p \<noteq> []) (map trim (split_on CHR '','' s)))"

definition is_blocking_source :: "todo \<Rightarrow> bool" where
  "is_blocking_source t \<longleftrightarrow> t_class t = UserGate \<or> t_class t = Blocker"

text \<open>The directed edge one reference of a todo declares: predecessor, then successor.\<close>

definition edge_of :: "todo \<Rightarrow> string \<Rightarrow> string \<times> string" where
  "edge_of t other = (if is_blocking_source t then (t_id t, other) else (other, t_id t))"

definition todo_edges :: "todo \<Rightarrow> (string \<times> string) list" where
  "todo_edges t = map (edge_of t) (predecessor_ids t)"

definition goal_edges :: "goal \<Rightarrow> (string \<times> string) list" where
  "goal_edges g = concat (map todo_edges (g_todos g))"

text \<open>The adjacency list of a node: \<open>entry(from).or_default().push(to)\<close> over all edges.\<close>

definition adjacent :: "(string \<times> string) list \<Rightarrow> string \<Rightarrow> string list" where
  "adjacent es from_id = map snd (filter (\<lambda>e. fst e = from_id) es)"

section \<open>Validation of one changed todo\<close>

text \<open>The search loop. The top of the stack \<open>pending\<close> is the head of the list; \<open>pop\<close> takes
  it, \<open>extend\<close> pushes the successors in order. \<open>True\<close>: the target was reached.\<close>

function cycle_search ::
  "(string \<times> string) list \<Rightarrow> string \<Rightarrow> string list \<Rightarrow> string set \<Rightarrow> bool" where
  "cycle_search es target [] visited = False"
| "cycle_search es target (i # pending) visited =
     (if i = target then True
      else if i \<in> visited then cycle_search es target pending visited
      else cycle_search es target (rev (adjacent es i) @ pending) (insert i visited))"
  by pat_completeness auto

lemma unvisited_shrinks:
  assumes "i \<notin> visited" "adjacent es i \<noteq> []"
  shows "length (filter (\<lambda>e. fst e \<notin> insert i visited) es)
         < length (filter (\<lambda>e. fst e \<notin> visited) es)"
proof -
  obtain e where "e \<in> set es" "fst e = i"
    using assms(2) by (auto simp: adjacent_def filter_empty_conv)
  with assms(1) show ?thesis
  proof (induction es)
    case (Cons x xs)
    have "length (filter (\<lambda>e. fst e \<notin> insert i visited) xs)
          \<le> length (filter (\<lambda>e. fst e \<notin> visited) xs)"
      by (induction xs) auto
    with Cons show ?case by auto
  qed simp
qed

lemma unvisited_mono:
  "length (filter (\<lambda>e. fst e \<notin> insert i visited) es) \<le> length (filter (\<lambda>e. fst e \<notin> visited) es)"
  by (induction es) auto

termination cycle_search
proof (relation "measures [\<lambda>(es, target, pending, visited). length (filter (\<lambda>e. fst e \<notin> visited) es),
                           \<lambda>(es, target, pending, visited). length pending]")
  fix es and target i :: string and pending visited
  assume "i \<noteq> target" "i \<notin> visited"
  then show "((es, target, rev (adjacent es i) @ pending, insert i visited), es, target,
          i # pending, visited)
         \<in> measures [\<lambda>(es, target, pending, visited). length (filter (\<lambda>e. fst e \<notin> visited) es),
                      \<lambda>(es, target, pending, visited). length pending]"
    using unvisited_shrinks [of i visited es] unvisited_mono [of i visited es]
    by (cases "adjacent es i = []") (auto simp: le_less)
qed auto

text \<open>The first reference that names the todo itself or an unknown todo.\<close>

fun reference_error :: "goal \<Rightarrow> string \<Rightarrow> string list \<Rightarrow> string option" where
  "reference_error g tid [] = None"
| "reference_error g tid (i # ids) =
     (if i = tid then Some (''todo `'' @ tid @ ''` cannot reference itself'')
      else if find_todo g i = None
      then Some (''todo `'' @ tid @ ''` references unknown todo `'' @ i @ ''`'')
      else reference_error g tid ids)"

definition validate_dependency_change :: "goal \<Rightarrow> string \<Rightarrow> string + unit" where
  "validate_dependency_change g tid =
     (case find_todo g tid of
        None \<Rightarrow> Inl (''unknown todo `'' @ tid @ ''`'')
      | Some t \<Rightarrow>
          (case reference_error g tid (predecessor_ids t) of
             Some err \<Rightarrow> Inl err
           | None \<Rightarrow>
               (if cycle_search (goal_edges g) tid (rev (adjacent (goal_edges g) tid)) {}
                then Inl (''dependency cycle involving todo `'' @ tid @ ''`'')
                else Inr ())))"

section \<open>Kahn's topological sort\<close>

text \<open>The body of the inner \<open>for n in next\<close> loop.\<close>

fun relax ::
  "string list \<Rightarrow> (string \<rightharpoonup> nat) \<Rightarrow> string list \<Rightarrow> ((string \<rightharpoonup> nat) \<times> string list) option" where
  "relax [] indeg queue = Some (indeg, queue)"
| "relax (n # ns) indeg queue =
     (case indeg n of
        None \<Rightarrow> None
      | Some 0 \<Rightarrow> None
      | Some (Suc d) \<Rightarrow>
          relax ns (indeg(n \<mapsto> d)) (if d = 0 then sort (queue @ [n]) else queue))"

partial_function (option) kahn ::
  "(string \<times> string) list \<Rightarrow> (string \<rightharpoonup> nat) \<Rightarrow> string list \<Rightarrow> string list \<Rightarrow> string list option"
where
  "kahn es indeg queue order =
     (case queue of
        [] \<Rightarrow> Some order
      | i # rest \<Rightarrow>
          (case relax (adjacent es i) indeg rest of
             None \<Rightarrow> None
           | Some (indeg', queue') \<Rightarrow> kahn es indeg' queue' (order @ [i])))"

text \<open>The walk along leftover nodes after the sort got stuck.\<close>

function leftover_walk ::
  "(string \<times> string) list \<Rightarrow> string list \<Rightarrow> string \<Rightarrow> string set \<Rightarrow> string \<Rightarrow> string list \<Rightarrow> string list"
where
  "leftover_walk es leftover start seen current path =
     (case find (\<lambda>n. n \<in> set leftover) (adjacent es current) of
        None \<Rightarrow> path
      | Some n \<Rightarrow>
          (if n = start then path @ [n]
           else if n \<in> seen then path
           else leftover_walk es leftover start (insert n seen) n (path @ [n])))"
  by pat_completeness auto

termination leftover_walk
proof (relation "measure (\<lambda>(es, leftover, start, seen, current, path). card (set leftover - seen))")
  fix es leftover seen path and start current n :: string
  assume "find (\<lambda>n. n \<in> set leftover) (adjacent es current) = Some n" "n \<notin> seen"
  then have "n \<in> set leftover - seen" by (auto dest: find_SomeD)
  then have "card (set leftover - insert n seen) < card (set leftover - seen)"
    by (intro psubset_card_mono) auto
  then show "((es, leftover, start, insert n seen, n, path @ [n]), es, leftover, start, seen,
          current, path)
         \<in> measure (\<lambda>(es, leftover, start, seen, current, path). card (set leftover - seen))"
    by simp
qed auto

declare leftover_walk.simps [simp del]
declare kahn.simps [code]

definition known_edges :: "string set \<Rightarrow> (string \<times> string) list \<Rightarrow> (string \<times> string) list" where
  "known_edges ids es = filter (\<lambda>(f, t). f \<in> ids \<and> t \<in> ids) es"

definition initial_indegree :: "string set \<Rightarrow> (string \<times> string) list \<Rightarrow> string \<rightharpoonup> nat" where
  "initial_indegree ids es =
     (\<lambda>i. if i \<in> ids then Some (length (filter (\<lambda>e. snd e = i) es)) else None)"

text \<open>\<open>None\<close> is a panic or a loop that never ends; otherwise the order and the leftover path,
  empty when the graph is acyclic.\<close>

definition topological_sort ::
  "todo list \<Rightarrow> (string \<times> string) list \<Rightarrow> (string list \<times> string list) option" where
  "topological_sort todos edges =
     (let ids = set (map t_id todos);
          sorted_ids = sorted_list_of_set ids;
          es = known_edges ids edges;
          indeg = initial_indegree ids es;
          queue = filter (\<lambda>i. indeg i = Some 0) sorted_ids
      in case kahn es indeg queue [] of
           None \<Rightarrow> None
         | Some order \<Rightarrow>
             (if length order = length sorted_ids then Some (order, [])
              else (let leftover = filter (\<lambda>i. i \<notin> set order) sorted_ids in
                    case leftover of
                      [] \<Rightarrow> None
                    | start # _ \<Rightarrow>
                        Some (order, leftover_walk es leftover start {start} start [start]))))"

section \<open>The graph of a goal\<close>

record task_graph_node =
  gn_todo_id :: string
  gn_class :: string
  gn_status :: string
  gn_text :: string

record task_graph_edge =
  ge_from :: string
  ge_to :: string
  ge_relation :: string

record task_graph =
  tgr_schema_version :: string
  tgr_nodes :: "task_graph_node list"
  tgr_edges :: "task_graph_edge list"
  tgr_topological_order :: "string list option"
  tgr_cycle :: "string list option"

text \<open>\<open>format!("{:?}", x).to_lowercase()\<close>\<close>

fun class_debug_lower :: "task_class \<Rightarrow> string" where
  "class_debug_lower Advancement = ''advancement''"
| "class_debug_lower UserGate = ''usergate''"
| "class_debug_lower UserAction = ''useraction''"
| "class_debug_lower Monitor = ''monitor''"
| "class_debug_lower Blocker = ''blocker''"
| "class_debug_lower Coordination = ''coordination''"

fun status_debug_lower :: "todo_status \<Rightarrow> string" where
  "status_debug_lower Open = ''open''"
| "status_debug_lower Done = ''done''"
| "status_debug_lower Superseded = ''superseded''"
| "status_debug_lower Deferred = ''deferred''"
| "status_debug_lower Blocked = ''blocked''"

fun collect_edges ::
  "string set \<Rightarrow> todo list \<Rightarrow> (string \<times> string) list \<Rightarrow> string + (string \<times> string) list" where
  "collect_edges known [] acc = Inr acc"
| "collect_edges known (t # ts) acc =
     (case find (\<lambda>other. other = t_id t \<or> other \<notin> known) (predecessor_ids t) of
        Some other \<Rightarrow>
          Inl (if other = t_id t then ''todo `'' @ t_id t @ ''` cannot reference itself''
               else ''todo `'' @ t_id t @ ''` references unknown todo `'' @ other @ ''`'')
      | None \<Rightarrow> collect_edges known ts (acc @ todo_edges t))"

text \<open>Outer \<open>None\<close>: a panic of the sort.\<close>

definition build_task_graph :: "goal \<Rightarrow> (string + task_graph) option" where
  "build_task_graph g =
     (case collect_edges (set (map t_id (g_todos g))) (g_todos g) [] of
        Inl err \<Rightarrow> Some (Inl err)
      | Inr edges0 \<Rightarrow>
          (let edges = remdups_adj (sort edges0) in
           case topological_sort (g_todos g) edges of
             None \<Rightarrow> None
           | Some (order, cycle) \<Rightarrow>
               Some (Inr
                 \<lparr>tgr_schema_version = ''task_graph_v0'',
                  tgr_nodes = map (\<lambda>t. \<lparr>gn_todo_id = t_id t,
                                         gn_class = class_debug_lower (t_class t),
                                         gn_status = status_debug_lower (t_status t),
                                         gn_text = t_text t\<rparr>) (g_todos g),
                  tgr_edges = map (\<lambda>(f, t). \<lparr>ge_from = f, ge_to = t, ge_relation = ''blocks''\<rparr>) edges,
                  tgr_topological_order = (if cycle = [] then Some order else None),
                  tgr_cycle = (if cycle = [] then None else Some cycle)\<rparr>)))"

definition successors_of :: "goal \<Rightarrow> string \<Rightarrow> string list" where
  "successors_of g tid =
     (case find_todo g tid of
        None \<Rightarrow> []
      | Some t \<Rightarrow>
          (if is_blocking_source t then predecessor_ids t
           else map t_id (filter (\<lambda>u. \<not> is_blocking_source u
                                      \<and> list_ex (\<lambda>p. p = tid) (predecessor_ids u))
                            (g_todos g))))"

definition predecessors_of :: "todo \<Rightarrow> string list" where
  "predecessors_of t = predecessor_ids t"

section \<open>The search decides reachability\<close>

lemma set_adjacent: "set (adjacent es i) = {j. (i, j) \<in> set es}"
  by (force simp: adjacent_def)

lemma cycle_search_sound:
  "cycle_search es target pending visited \<Longrightarrow>
     \<exists>i \<in> set pending. (i, target) \<in> (set es)\<^sup>*"
proof (induction es target pending visited rule: cycle_search.induct)
  case (1 es target visited)
  then show ?case by simp
next
  case (2 es target i pending visited)
  consider "i = target" | "i \<noteq> target" "i \<in> visited" | "i \<noteq> target" "i \<notin> visited" by blast
  then show ?case
  proof cases
    case 3
    then obtain j where "j \<in> set (rev (adjacent es i) @ pending)" "(j, target) \<in> (set es)\<^sup>*"
      using 2 by auto
    then show ?thesis by (auto simp: set_adjacent intro: converse_rtrancl_into_rtrancl)
  qed (use 2 in auto)
qed

lemma cycle_search_complete:
  "\<not> cycle_search es target pending visited \<Longrightarrow> target \<notin> visited \<Longrightarrow>
     (set es) `` visited \<subseteq> visited \<union> set pending \<Longrightarrow>
     \<exists>V. visited \<union> set pending \<subseteq> V \<and> target \<notin> V \<and> (set es) `` V \<subseteq> V"
proof (induction es target pending visited rule: cycle_search.induct)
  case (1 es target visited)
  then show ?case by (intro exI [of _ visited]) auto
next
  case (2 es target i pending visited)
  have "i \<noteq> target" using "2.prems"(1) by auto
  show ?case
  proof (cases "i \<in> visited")
    case True
    then have "visited \<union> set (i # pending) = visited \<union> set pending" by auto
    with 2 True \<open>i \<noteq> target\<close> show ?thesis by simp
  next
    case False
    have "(set es) `` (insert i visited) \<subseteq> insert i visited \<union> set (rev (adjacent es i) @ pending)"
      using "2.prems"(3) by (auto simp: set_adjacent)
    then obtain V where "insert i visited \<union> set (rev (adjacent es i) @ pending) \<subseteq> V"
      "target \<notin> V" "(set es) `` V \<subseteq> V"
      using "2.IH"(2) [OF \<open>i \<noteq> target\<close> False] "2.prems" False \<open>i \<noteq> target\<close> by auto
    then show ?thesis by (intro exI [of _ V]) auto
  qed
qed

lemma closed_rtrancl: "(i, j) \<in> E\<^sup>* \<Longrightarrow> i \<in> V \<Longrightarrow> E `` V \<subseteq> V \<Longrightarrow> j \<in> V"
  by (induction rule: rtrancl_induct) auto

lemma cycle_search_iff:
  "cycle_search es target pending {} \<longleftrightarrow> (\<exists>i \<in> set pending. (i, target) \<in> (set es)\<^sup>*)"
proof
  show "cycle_search es target pending {} \<Longrightarrow> \<exists>i \<in> set pending. (i, target) \<in> (set es)\<^sup>*"
    by (rule cycle_search_sound)
next
  assume "\<exists>i \<in> set pending. (i, target) \<in> (set es)\<^sup>*"
  then obtain i where i: "i \<in> set pending" "(i, target) \<in> (set es)\<^sup>*" by blast
  show "cycle_search es target pending {}"
  proof (rule ccontr)
    assume "\<not> cycle_search es target pending {}"
    then obtain V where "set pending \<subseteq> V" "target \<notin> V" "(set es) `` V \<subseteq> V"
      using cycle_search_complete [of es target pending "{}"] by auto
    with i closed_rtrancl [OF i(2), of V] show False by blast
  qed
qed

lemma cycle_through_iff:
  "cycle_search es i (rev (adjacent es i)) {} \<longleftrightarrow> (i, i) \<in> (set es)\<^sup>+"
  unfolding cycle_search_iff by (auto simp: set_adjacent trancl_unfold_left)

section \<open>Kahn's invariant\<close>

text \<open>The edges into \<open>i\<close> whose source has not been emitted yet.\<close>

definition pend :: "(string \<times> string) list \<Rightarrow> string list \<Rightarrow> string \<Rightarrow> nat" where
  "pend es order i = length (filter (\<lambda>e. snd e = i \<and> fst e \<notin> set order) es)"

definition emitted_in_order :: "(string \<times> string) list \<Rightarrow> string list \<Rightarrow> bool" where
  "emitted_in_order es order \<longleftrightarrow>
     (\<forall>k < length order. \<forall>f. (f, order ! k) \<in> set es \<longrightarrow> f \<in> set (take k order))"

definition kahn_inv ::
  "string set \<Rightarrow> (string \<times> string) list \<Rightarrow> (string \<rightharpoonup> nat) \<Rightarrow> string list \<Rightarrow> string list \<Rightarrow> bool" where
  "kahn_inv ids es indeg queue order \<longleftrightarrow>
     indeg = (\<lambda>i. if i \<in> ids then Some (pend es order i) else None)
     \<and> distinct (order @ queue)
     \<and> set (order @ queue) = {i \<in> ids. pend es order i = 0}
     \<and> emitted_in_order es order"

lemma relax_spec:
  "\<forall>m \<in> set ns. indeg m = Some (d m) \<and> count_list ns m \<le> d m \<and> m \<notin> set q \<Longrightarrow> distinct q \<Longrightarrow>
   \<exists>q'. relax ns indeg q
          = Some (\<lambda>m. if m \<in> set ns then Some (d m - count_list ns m) else indeg m, q')
        \<and> distinct q' \<and> set q' = set q \<union> {m \<in> set ns. d m = count_list ns m}"
proof (induction ns arbitrary: indeg d q)
  case Nil
  then show ?case by simp
next
  case (Cons n ns)
  then have n: "indeg n = Some (d n)" "Suc (count_list ns n) \<le> d n" "n \<notin> set q" by auto
  then obtain d' where d': "d n = Suc d'" "count_list ns n \<le> d'" by (cases "d n") auto
  define q2 where "q2 = (if d' = 0 then sort (q @ [n]) else q)"
  define d2 where "d2 = d(n := d')"
  have zero: "n \<notin> set ns" if "d' = 0"
    using that d' count_list_0_iff [of ns n] by simp
  have "\<forall>m \<in> set ns. (indeg(n \<mapsto> d')) m = Some (d2 m) \<and> count_list ns m \<le> d2 m \<and> m \<notin> set q2"
    using Cons.prems(1) d' zero by (auto simp: d2_def q2_def split: if_splits)
  moreover have "distinct q2" using Cons.prems(2) n(3) by (simp add: q2_def)
  ultimately obtain q' where q': "relax ns (indeg(n \<mapsto> d')) q2
        = Some (\<lambda>m. if m \<in> set ns then Some (d2 m - count_list ns m) else (indeg(n \<mapsto> d')) m, q')"
      "distinct q'" "set q' = set q2 \<union> {m \<in> set ns. d2 m = count_list ns m}"
    using Cons.IH by blast
  have "relax (n # ns) indeg q = relax ns (indeg(n \<mapsto> d')) q2"
    using n d' by (simp add: q2_def)
  moreover have "(\<lambda>m. if m \<in> set ns then Some (d2 m - count_list ns m) else (indeg(n \<mapsto> d')) m)
      = (\<lambda>m. if m \<in> set (n # ns) then Some (d m - count_list (n # ns) m) else indeg m)"
    using d' n by (auto simp: fun_eq_iff d2_def count_list_0_iff)
  moreover have "set q' = set q \<union> {m \<in> set (n # ns). d m = count_list (n # ns) m}"
  proof (rule set_eqI)
    fix m
    have zn: "n \<notin> set ns \<Longrightarrow> count_list ns n = 0" by (simp add: count_list_0_iff)
    show "m \<in> set q' \<longleftrightarrow> m \<in> set q \<union> {m \<in> set (n # ns). d m = count_list (n # ns) m}"
    proof (cases "m = n")
      case True
      show ?thesis
        unfolding q'(3) True using d' zn n(3) zero
        by (cases "d' = 0"; cases "n \<in> set ns") (simp_all add: q2_def d2_def)
    next
      case False
      then show ?thesis unfolding q'(3) by (simp add: q2_def d2_def)
    qed
  qed
  ultimately show ?case using q'(1,2) by (metis (no_types, lifting))
qed

lemma count_adjacent: "count_list (adjacent es i) j = length (filter (\<lambda>e. fst e = i \<and> snd e = j) es)"
  by (induction es) (auto simp: adjacent_def)

lemma pend_snoc:
  assumes "i \<notin> set order"
  shows "pend es order j = pend es (order @ [i]) j + count_list (adjacent es i) j"
  unfolding count_adjacent pend_def using assms by (induction es) auto

lemma pend_0_iff: "pend es order i = 0 \<longleftrightarrow> (\<forall>f. (f, i) \<in> set es \<longrightarrow> f \<in> set order)"
  by (auto simp: pend_def filter_empty_conv)

lemma emitted_snoc:
  "emitted_in_order es order \<Longrightarrow> pend es order i = 0 \<Longrightarrow> emitted_in_order es (order @ [i])"
  unfolding emitted_in_order_def pend_0_iff
  by (auto simp: nth_append less_Suc_eq)

lemma kahn_step:
  assumes inv: "kahn_inv ids es indeg (i # rest) order"
    and known: "set es \<subseteq> ids \<times> ids"
  obtains indeg' queue' where "relax (adjacent es i) indeg rest = Some (indeg', queue')"
    "kahn_inv ids es indeg' queue' (order @ [i])"
proof -
  have i: "i \<in> ids" "pend es order i = 0" "i \<notin> set order" "i \<notin> set rest" "distinct rest"
    and eq: "set (order @ i # rest) = {i \<in> ids. pend es order i = 0}"
    and indeg: "indeg = (\<lambda>i. if i \<in> ids then Some (pend es order i) else None)"
    and dist: "distinct (order @ i # rest)" and emit: "emitted_in_order es order"
    using inv unfolding kahn_inv_def by auto
  have adj: "m \<in> ids" "0 < count_list (adjacent es i) m" "0 < pend es order m"
    if "m \<in> set (adjacent es i)" for m
  proof -
    show "m \<in> ids" using that known by (auto simp: set_adjacent)
    show c: "0 < count_list (adjacent es i) m"
      using that count_list_0_iff [of "adjacent es i" m] by auto
    with pend_snoc [OF i(3), of es m] show "0 < pend es order m" by simp
  qed
  have "\<forall>m \<in> set (adjacent es i). indeg m = Some (pend es order m)
          \<and> count_list (adjacent es i) m \<le> pend es order m \<and> m \<notin> set rest"
  proof
    fix m assume m: "m \<in> set (adjacent es i)"
    have "m \<in> {i \<in> ids. pend es order i = 0}" if "m \<in> set rest"
      using that unfolding eq [symmetric] by simp
    then have "m \<notin> set rest" using adj(3) [OF m] by auto
    with m adj(1) [OF m] pend_snoc [OF i(3), of es m] indeg
    show "indeg m = Some (pend es order m)
          \<and> count_list (adjacent es i) m \<le> pend es order m \<and> m \<notin> set rest" by simp
  qed
  from relax_spec [OF this i(5)] obtain q' where q':
    "relax (adjacent es i) indeg rest
       = Some (\<lambda>m. if m \<in> set (adjacent es i)
                   then Some (pend es order m - count_list (adjacent es i) m) else indeg m, q')"
    "distinct q'"
    "set q' = set rest
       \<union> {m \<in> set (adjacent es i). pend es order m = count_list (adjacent es i) m}"
    by blast
  have zero_iff: "pend es (order @ [i]) m = 0
      \<longleftrightarrow> pend es order m = 0 \<or> m \<in> set (adjacent es i)
           \<and> pend es order m = count_list (adjacent es i) m" for m
    using pend_snoc [OF i(3), of es m] count_list_0_iff [of "adjacent es i" m] by auto
  have "kahn_inv ids es (\<lambda>m. if m \<in> ids then Some (pend es (order @ [i]) m) else None) q' (order @ [i])"
    unfolding kahn_inv_def
  proof (intro conjI)
    show "set ((order @ [i]) @ q') = {m \<in> ids. pend es (order @ [i]) m = 0}"
    proof (rule set_eqI)
      fix x
      have "x \<in> set (order @ i # rest) \<longleftrightarrow> x \<in> ids \<and> pend es order x = 0"
        unfolding eq by simp
      then show "x \<in> set ((order @ [i]) @ q')
            \<longleftrightarrow> x \<in> {m \<in> ids. pend es (order @ [i]) m = 0}"
        using adj(1) [of x] by (auto simp: zero_iff q'(3))
    qed
    have "x \<notin> set (adjacent es i)" if "x \<in> set (order @ i # rest)" for x
      using that adj(3) [of x] unfolding eq by auto
    then show "distinct ((order @ [i]) @ q')"
      using dist q'(2,3) by auto
  qed (simp_all add: emitted_snoc [OF emit i(2)])
  moreover have "(\<lambda>m. if m \<in> set (adjacent es i)
                   then Some (pend es order m - count_list (adjacent es i) m) else indeg m)
      = (\<lambda>m. if m \<in> ids then Some (pend es (order @ [i]) m) else None)"
    using adj(1) indeg pend_snoc [OF i(3), of es] count_list_0_iff [of "adjacent es i"]
    by (auto simp: fun_eq_iff)
  ultimately show ?thesis using that q'(1) by simp
qed

lemma kahn_result:
  assumes "finite ids" "set es \<subseteq> ids \<times> ids" "kahn_inv ids es indeg queue order"
  shows "\<exists>indeg' order'. kahn es indeg queue order = Some order'
           \<and> kahn_inv ids es indeg' [] order'"
  using assms(3)
proof (induction "card ids - length order" arbitrary: indeg queue order rule: less_induct)
  case less
  show ?case
  proof (cases queue)
    case Nil
    with less.prems show ?thesis by (auto simp: kahn.simps)
  next
    case (Cons i rest)
    obtain indeg' queue' where
      step: "relax (adjacent es i) indeg rest = Some (indeg', queue')"
        "kahn_inv ids es indeg' queue' (order @ [i])"
      by (rule kahn_step [OF less.prems [unfolded Cons] assms(2)])
    have "set (order @ i # rest) \<subseteq> ids" "distinct (order @ i # rest)"
      using less.prems Cons unfolding kahn_inv_def by auto
    then have "length (order @ i # rest) \<le> card ids"
      using distinct_card card_mono [OF assms(1)] by metis
    then have "card ids - length (order @ [i]) < card ids - length order" by simp
    from less.hyps [OF this step(2)] Cons step(1) show ?thesis by (simp add: kahn.simps)
  qed
qed

lemma stuck_iff_cyclic:
  assumes "finite ids" "set es \<subseteq> ids \<times> ids" "kahn_inv ids es indeg [] order"
  shows "set order = ids \<longleftrightarrow> acyclic (set es)"
proof
  assume all: "set order = ids"
  define pos where "pos x = length (takeWhile (\<lambda>y. y \<noteq> x) order)" for x
  have "pos f < pos t" if "(f, t) \<in> set es" for f t
  proof -
    have "t \<in> set order" using that assms(2) all by auto
    then obtain k where k: "k < length order" "order ! k = t" by (auto simp: in_set_conv_nth)
    have "distinct order" using assms(3) by (simp add: kahn_inv_def)
    then have "takeWhile (\<lambda>y. y \<noteq> order ! j) order = take j order" if "j < length order" for j
      using that by (intro takeWhile_eq_take_P_nth) (auto simp: nth_eq_iff_index_eq)
    then have pos_nth: "pos (order ! j) = j" if "j < length order" for j
      using that by (simp add: pos_def)
    have "f \<in> set (take k order)"
      using assms(3) k that unfolding kahn_inv_def emitted_in_order_def by blast
    then obtain j where "j < k" "order ! j = f" by (auto simp: in_set_conv_nth)
    with pos_nth k show ?thesis by (metis order_less_trans)
  qed
  then have "acyclic ((set es)\<inverse>)" by (intro acyclicI_order [of _ pos]) auto
  then show "acyclic (set es)" by simp
next
  assume acyc: "acyclic (set es)"
  have sub: "set order \<subseteq> ids" using assms(3) unfolding kahn_inv_def by auto
  show "set order = ids"
  proof (rule ccontr)
    assume "set order \<noteq> ids"
    with sub obtain x where "x \<in> ids - set order" by blast
    moreover have "wf (set es)" using acyc by (simp add: finite_acyclic_wf)
    ultimately obtain z where z: "z \<in> ids - set order"
      "\<And>y. (y, z) \<in> set es \<Longrightarrow> y \<notin> ids - set order"
      by (metis wfE_min)
    have "pend es order z \<noteq> 0" using z(1) assms(3) unfolding kahn_inv_def by auto
    then obtain f where "(f, z) \<in> set es" "f \<notin> set order" by (auto simp: pend_0_iff)
    with z(2) assms(2) show False by blast
  qed
qed

section \<open>The sort as a whole\<close>

lemma known_edges_subset: "set (known_edges ids es) \<subseteq> ids \<times> ids"
  by (auto simp: known_edges_def)

lemma kahn_inv_initial:
  "set es \<subseteq> ids \<times> ids \<Longrightarrow> finite ids \<Longrightarrow>
     kahn_inv ids es (initial_indegree ids es)
       (filter (\<lambda>i. initial_indegree ids es i = Some 0) (sorted_list_of_set ids)) []"
  by (auto simp: kahn_inv_def initial_indegree_def pend_def emitted_in_order_def fun_eq_iff)

lemma leftover_walk_not_Nil: "path \<noteq> [] \<Longrightarrow> leftover_walk es l s seen c path \<noteq> []"
proof (induction es l s seen c path rule: leftover_walk.induct)
  case (1 es leftover start seen current path)
  show ?case
    using "1.prems" "1.IH"
    by (subst leftover_walk.simps) (auto split: option.split)
qed

lemma topological_sort_spec:
  fixes todos :: "todo list" and edges :: "(string \<times> string) list"
  defines "ids \<equiv> set (map t_id todos)" and "es \<equiv> known_edges (set (map t_id todos)) edges"
  obtains order path where "topological_sort todos edges = Some (order, path)"
    "distinct order" "set order \<subseteq> ids" "emitted_in_order es order"
    "path = [] \<longleftrightarrow> acyclic (set es)" "path = [] \<longleftrightarrow> set order = ids"
proof -
  have fin: "finite ids" and sub: "set es \<subseteq> ids \<times> ids"
    by (simp_all add: ids_def es_def known_edges_subset)
  obtain indeg order where k: "kahn es (initial_indegree ids es)
      (filter (\<lambda>i. initial_indegree ids es i = Some 0) (sorted_list_of_set ids)) [] = Some order"
    "kahn_inv ids es indeg [] order"
    using kahn_result [OF fin sub kahn_inv_initial [OF sub fin]] by blast
  then have order: "distinct order" "set order \<subseteq> ids" "emitted_in_order es order"
    by (auto simp: kahn_inv_def)
  have len: "length order = length (sorted_list_of_set ids) \<longleftrightarrow> set order = ids"
    using order(1,2) fin distinct_card [OF order(1)]
    by (metis card_subset_eq length_sorted_list_of_set)
  define leftover where "leftover = filter (\<lambda>i. i \<notin> set order) (sorted_list_of_set ids)"
  show ?thesis
  proof (cases "set order = ids")
    case True
    then have "topological_sort todos edges = Some (order, [])"
      using k(1) len by (simp add: topological_sort_def Let_def ids_def es_def)
    then show ?thesis
      using that order stuck_iff_cyclic [OF fin sub k(2)] True by blast
  next
    case False
    then have "leftover \<noteq> []"
      using order(2) fin by (auto simp: leftover_def filter_empty_conv)
    then obtain start rest where l: "leftover = start # rest" by (cases leftover) auto
    then have "topological_sort todos edges
        = Some (order, leftover_walk es leftover start {start} start [start])"
      using k(1) len False
      by (simp add: topological_sort_def Let_def ids_def es_def leftover_def)
    then show ?thesis
      using that order stuck_iff_cyclic [OF fin sub k(2)] False leftover_walk_not_Nil
      by blast
  qed
qed

lemma collect_edges_spec:
  "collect_edges known ts acc =
     (case find (\<lambda>t. \<exists>p \<in> set (predecessor_ids t). p = t_id t \<or> p \<notin> known) ts of
        None \<Rightarrow> Inr (acc @ concat (map todo_edges ts))
      | Some t \<Rightarrow> Inl (projl (collect_edges known [t] [])))"
proof (induction ts arbitrary: acc)
  case Nil
  then show ?case by simp
next
  case (Cons t ts)
  have "find (\<lambda>other. other = t_id t \<or> other \<notin> known) (predecessor_ids t) = None
        \<longleftrightarrow> \<not> (\<exists>p \<in> set (predecessor_ids t). p = t_id t \<or> p \<notin> known)"
    by (auto simp: find_None_iff)
  with Cons show ?case by (auto split: option.splits)
qed

lemma known_edges_all:
  assumes "\<forall>t \<in> set todos. \<forall>p \<in> set (predecessor_ids t). p \<in> set (map t_id todos)"
  shows "set (known_edges (set (map t_id todos)) (remdups_adj (sort (concat (map todo_edges todos)))))
    = set (concat (map todo_edges todos))"
  using assms by (auto simp: known_edges_def todo_edges_def edge_of_def)

lemma reference_error_None_iff:
  "reference_error g tid ps = None \<longleftrightarrow> (\<forall>p \<in> set ps. p \<noteq> tid \<and> find_todo g p \<noteq> None)"
  by (induction ps) auto

lemma edges_from_source:
  "is_blocking_source t \<Longrightarrow> (i, j) \<in> set (todo_edges t) \<longleftrightarrow> i = t_id t \<and> j \<in> set (predecessor_ids t)"
  by (auto simp: todo_edges_def edge_of_def)

lemma edges_from_ordinary:
  "\<not> is_blocking_source t \<Longrightarrow>
     (i, j) \<in> set (todo_edges t) \<longleftrightarrow> j = t_id t \<and> i \<in> set (predecessor_ids t)"
  by (auto simp: todo_edges_def edge_of_def)

section \<open>Properties\<close>

text \<open>C36: a proposed dependency change is accepted exactly when the todo exists, none of its
  references is itself or unknown, and no cycle of the goal's dependency edges runs through
  it; in particular the depth-first search terminates and misses no cycle.\<close>

theorem validate_dependency_change_exact:
  "validate_dependency_change g tid = Inr () \<longleftrightarrow>
     (\<exists>t. find_todo g tid = Some t
          \<and> (\<forall>p \<in> set (predecessor_ids t). p \<noteq> tid \<and> find_todo g p \<noteq> None))
     \<and> (tid, tid) \<notin> (set (goal_edges g))\<^sup>+"
  unfolding reference_error_None_iff [symmetric] cycle_through_iff [symmetric]
  by (auto simp: validate_dependency_change_def split: option.splits)

text \<open>C37: the topological sort is total (no underflow, no missing entry, no endless loop) and
  correct: it emits known ids without repetition, every emitted todo after all its
  predecessors; the reported leftover path is empty exactly when the known edges are
  acyclic, and then every id is emitted.\<close>

theorem topological_sort_correct:
  "\<exists>order path. topological_sort todos edges = Some (order, path)
     \<and> distinct order \<and> set order \<subseteq> t_id ` set todos
     \<and> emitted_in_order (known_edges (set (map t_id todos)) edges) order
     \<and> (path = [] \<longleftrightarrow> acyclic (set (known_edges (set (map t_id todos)) edges)))
     \<and> (path = [] \<longleftrightarrow> set order = t_id ` set todos)"
  by (rule topological_sort_spec [of todos edges]) auto

text \<open>The task graph fails closed: building it never panics; it is refused exactly when
  some todo references itself or an unknown id, and otherwise the graph has an order and no
  reported cycle exactly when the dependency edges of the goal are acyclic.\<close>

theorem task_graph_fail_closed:
  "\<exists>r. build_task_graph g = Some r
    \<and> ((\<exists>err. r = Inl err) \<longleftrightarrow>
         (\<exists>t \<in> set (g_todos g). \<exists>p \<in> set (predecessor_ids t).
            p = t_id t \<or> p \<notin> t_id ` set (g_todos g)))
    \<and> (\<forall>graph. r = Inr graph \<longrightarrow>
         (tgr_topological_order graph \<noteq> None \<longleftrightarrow> acyclic (set (goal_edges g)))
         \<and> (tgr_cycle graph = None \<longleftrightarrow> acyclic (set (goal_edges g))))"
proof (cases "find (\<lambda>t. \<exists>p \<in> set (predecessor_ids t). p = t_id t \<or> p \<notin> set (map t_id (g_todos g)))
                (g_todos g)")
  case None
  then have ok: "\<forall>t \<in> set (g_todos g). \<forall>p \<in> set (predecessor_ids t).
      p \<noteq> t_id t \<and> p \<in> set (map t_id (g_todos g))"
    by (fastforce simp: find_None_iff)
  let ?es = "remdups_adj (sort (concat (map todo_edges (g_todos g))))"
  obtain order path where tsort: "topological_sort (g_todos g) ?es = Some (order, path)"
    "path = [] \<longleftrightarrow> acyclic (set (known_edges (set (map t_id (g_todos g))) ?es))"
    by (rule topological_sort_spec [of "g_todos g" ?es])
  have "set (known_edges (set (map t_id (g_todos g))) ?es) = set (goal_edges g)"
    unfolding goal_edges_def using ok by (intro known_edges_all) blast
  with tsort(2) have "path = [] \<longleftrightarrow> acyclic (set (goal_edges g))" by simp
  moreover have "\<not> (\<exists>t \<in> set (g_todos g). \<exists>p \<in> set (predecessor_ids t).
            p = t_id t \<or> p \<notin> t_id ` set (g_todos g))"
    using ok by auto
  ultimately show ?thesis
    using collect_edges_spec [of "set (map t_id (g_todos g))" "g_todos g" "[]"] None tsort(1)
    by (simp add: build_task_graph_def Let_def)
next
  case (Some t)
  then have "\<exists>t \<in> set (g_todos g). \<exists>p \<in> set (predecessor_ids t).
            p = t_id t \<or> p \<notin> t_id ` set (g_todos g)"
    using find_SomeD [OF Some] by auto
  with collect_edges_spec [of "set (map t_id (g_todos g))" "g_todos g" "[]"] Some show ?thesis
    by (simp add: build_task_graph_def)
qed

text \<open>An acyclic task graph never deadlocks: when no gate or blocker is open and the
  dependency edges are acyclic, then among the todos that are neither done nor superseded
  (gates and blockers aside) at least one is not blocked.\<close>

theorem acyclic_graph_not_deadlocked:
  assumes "acyclic (set (goal_edges g))" "open_blocking_sources_at g now = []"
    and "\<exists>t \<in> set (g_todos g). \<not> is_blocking_source t \<and> t_status t \<noteq> Done \<and> t_status t \<noteq> Superseded"
  shows "\<exists>t \<in> set (g_todos g). \<not> is_blocking_source t \<and> t_status t \<noteq> Done
           \<and> t_status t \<noteq> Superseded \<and> \<not> is_blocked_at g t now"
proof -
  let ?pending = "{t \<in> set (g_todos g). \<not> is_blocking_source t \<and> t_status t \<noteq> Done
                    \<and> t_status t \<noteq> Superseded}"
  define pending_ids where "pending_ids = t_id ` ?pending"
  have "wf (set (goal_edges g))" using assms(1) by (simp add: finite_acyclic_wf)
  then have "\<exists>z \<in> Q. \<forall>y. (y, z) \<in> set (goal_edges g) \<longrightarrow> y \<notin> Q" if "x \<in> Q" for x Q
    using that unfolding wf_eq_minimal by blast
  moreover have "\<exists>x. x \<in> pending_ids" using assms(3) unfolding pending_ids_def by blast
  ultimately obtain i where i: "i \<in> pending_ids"
    "\<And>j. (j, i) \<in> set (goal_edges g) \<Longrightarrow> j \<notin> pending_ids"
    by blast
  then obtain t where t: "t \<in> ?pending" "t_id t = i" unfolding pending_ids_def by blast
  have "\<not> is_blocked_at g t now"
  proof
    assume "is_blocked_at g t now"
    then obtain s p where p: "t_blocked_by_gate t = Some s" "p \<in> set (listed_ids s)"
      "pred_blocks g now p"
      using assms(2) by (auto simp: is_blocked_at_def list_ex_iff split: option.splits)
    then obtain u where u: "p \<noteq> []" "find_todo g p = Some u"
      "if t_class u = UserGate \<or> t_class u = Blocker then t_status u = Open \<or> is_due_deferred now u
       else t_status u \<noteq> Done \<and> t_status u \<noteq> Superseded"
      by (auto simp: pred_blocks_def split: option.splits)
    have um: "u \<in> set (g_todos g)" "t_id u = p"
      using find_SomeD [OF u(2) [unfolded find_todo_def]] by auto
    have "\<not> is_blocking_source u"
      using u(3) um(1) assms(2)
      by (auto simp: is_blocking_source_def open_blocking_sources_at_def live_at_def
          filter_eq_Nil_iff)
    with u(3) um have "p \<in> pending_ids"
      unfolding pending_ids_def by (auto simp: is_blocking_source_def)
    moreover have "(p, i) \<in> set (todo_edges t)"
      using p(1,2) u(1) t
      by (auto simp: todo_edges_def predecessor_ids_def edge_of_def listed_ids_def)
    then have "(p, i) \<in> set (goal_edges g)" using t(1) by (auto simp: goal_edges_def)
    ultimately show False using i(2) by blast
  qed
  with t(1) show ?thesis by blast
qed

text \<open>\<open>successors_of\<close> agrees with the graph for ordinary todos only: with unique ids it
  returns exactly the direct successors of a todo that is no gate or blocker, but of a gate
  or blocker only the dependents that gate lists itself - not the todos that list the gate.\<close>

theorem successors_of_edges:
  assumes "distinct (map t_id (g_todos g))" "find_todo g tid = Some t"
  shows "(if is_blocking_source t
          then set (successors_of g tid) = {j. (tid, j) \<in> set (todo_edges t)}
          else set (successors_of g tid) = {j. (tid, j) \<in> set (goal_edges g)})"
proof -
  have t: "t \<in> set (g_todos g)" "t_id t = tid"
    using find_SomeD [OF assms(2) [unfolded find_todo_def]] by auto
  have uniq: "u = t" if "u \<in> set (g_todos g)" "t_id u = tid" for u
    using assms(1) that t by (auto simp: distinct_map dest: inj_onD)
  show ?thesis
  proof (cases "is_blocking_source t")
    case True
    with t assms(2) show ?thesis by (simp add: successors_of_def edges_from_source)
  next
    case False
    have "(tid, j) \<in> set (goal_edges g) \<longleftrightarrow>
        (\<exists>u \<in> set (g_todos g). \<not> is_blocking_source u \<and> tid \<in> set (predecessor_ids u) \<and> j = t_id u)"
      for j
    proof -
      have "(tid, j) \<in> set (todo_edges u) \<longleftrightarrow>
          \<not> is_blocking_source u \<and> tid \<in> set (predecessor_ids u) \<and> j = t_id u"
        if "u \<in> set (g_todos g)" for u
        using that uniq [OF that] False
        by (cases "is_blocking_source u") (auto simp: edges_from_source edges_from_ordinary)
      then show ?thesis unfolding goal_edges_def by auto
    qed
    with False assms(2) show ?thesis
      by (auto simp: successors_of_def list_ex_iff)
  qed
qed

section \<open>Concrete graphs\<close>

definition demo_graph :: goal where
  "demo_graph =
     (goal_new 0 ''g'' ''o'' ''/tmp'')\<lparr>g_todos :=
        [advancement 0 ''T1'' ''first'',
         blocking [''T1''] (advancement 0 ''T2'' ''second''),
         user_gate 0 ''G1'' ''approve?'' [''T2''],
         blocking [''G1''] (advancement 0 ''T3'' ''third'')]\<rparr>"

definition demo_graph_done_gate :: goal where
  "demo_graph_done_gate = on_todo ''G1'' (\<lambda>t. t\<lparr>t_status := Done\<rparr>) demo_graph"

lemma demo_edges:
  "goal_edges demo_graph = [(''T1'', ''T2''), (''G1'', ''T2''), (''G1'', ''T3'')]"
  "goal_edges demo_graph_done_gate = [(''T1'', ''T2''), (''G1'', ''T2''), (''G1'', ''T3'')]"
  by code_simp+

lemma demo_acyclic: "acyclic {(''T1'', ''T2''), (''G1'', ''T2''), (''G1'', ''T3'')}"
proof -
  have "acyclic ({} :: (string \<times> string) set)" by (simp add: acyclic_def)
  then show ?thesis by (simp add: acyclic_insert rtrancl_insert)
qed

lemma validate_dependency_change_exact_witness:
  "(''T2'', ''T2'') \<notin> (set (goal_edges demo_graph))\<^sup>+"
proof -
  have "validate_dependency_change demo_graph ''T2'' = Inr ()" by code_simp
  with validate_dependency_change_exact [of demo_graph "''T2''"] show ?thesis by blast
qed

lemma task_graph_fail_closed_witness:
  "\<exists>graph. build_task_graph demo_graph = Some (Inr graph) \<and> tgr_cycle graph = None"
proof -
  have "\<not> (\<exists>t \<in> set (g_todos demo_graph). \<exists>p \<in> set (predecessor_ids t).
      p = t_id t \<or> p \<notin> t_id ` set (g_todos demo_graph))"
    by code_simp
  moreover have "acyclic (set (goal_edges demo_graph))"
    using demo_acyclic by (simp add: demo_edges)
  ultimately show ?thesis
    using task_graph_fail_closed [of demo_graph] by (metis obj_sumE)
qed

lemma acyclic_graph_not_deadlocked_witness:
  "\<exists>t \<in> set (g_todos demo_graph_done_gate). \<not> is_blocking_source t \<and> t_status t \<noteq> Done
     \<and> t_status t \<noteq> Superseded \<and> \<not> is_blocked_at demo_graph_done_gate t 0"
proof (rule acyclic_graph_not_deadlocked)
  show "acyclic (set (goal_edges demo_graph_done_gate))"
    using demo_acyclic by (simp add: demo_edges)
  show "open_blocking_sources_at demo_graph_done_gate 0 = []" by code_simp
  show "\<exists>t \<in> set (g_todos demo_graph_done_gate). \<not> is_blocking_source t \<and> t_status t \<noteq> Done
     \<and> t_status t \<noteq> Superseded" by code_simp
qed

text \<open>\<open>T3\<close> lists the gate \<open>G1\<close>; the graph has the edge, \<open>successors_of\<close> does not.\<close>

lemma successors_of_edges_witness:
  "(''G1'', ''T3'') \<in> set (goal_edges demo_graph)
   \<and> ''T3'' \<notin> set (successors_of demo_graph ''G1'')"
proof -
  obtain t where "find_todo demo_graph ''G1'' = Some t" "is_blocking_source t"
    "todo_edges t = [(''G1'', ''T2'')]"
    by (rule that [of "user_gate 0 ''G1'' ''approve?'' [''T2'']"]) code_simp+
  moreover have "distinct (map t_id (g_todos demo_graph))" by code_simp
  ultimately show ?thesis
    using successors_of_edges [of demo_graph "''G1''" t] by (simp add: demo_edges)
qed

text \<open>The path reported for a cyclic graph need not be a cycle, nor touch one: with the
  two-cycle \<open>a\<close>, \<open>b\<close> and the edge from \<open>b\<close> to \<open>0c\<close>, the sort reports the single node
  \<open>0c\<close>, from which no edge leaves.\<close>

theorem reported_path_not_cyclic:
  "let todos = map (\<lambda>i. advancement 0 i ''x'') [''a'', ''b'', ''0c''];
       edges = [(''a'', ''b''), (''b'', ''a''), (''b'', ''0c'')]
   in topological_sort todos edges = Some ([], [''0c''])
      \<and> (''0c'', ''0c'') \<notin> (set edges)\<^sup>+"
proof -
  have "topological_sort (map (\<lambda>i. advancement 0 i ''x'') [''a'', ''b'', ''0c''])
          [(''a'', ''b''), (''b'', ''a''), (''b'', ''0c'')] = Some ([], [''0c''])"
    by (subst topological_sort_def) code_simp
  moreover have "(''0c'', ''0c'') \<notin> (set [(''a'', ''b''), (''b'', ''a''), (''b'', ''0c'')])\<^sup>+"
    by (auto dest: tranclD)
  ultimately show ?thesis unfolding Let_def by (intro conjI)
qed

end
