(* ===== verification/Workspace_Guard.thy ===== *)
theory Workspace_Guard
  imports Goal_State "HOL-Library.Sublist"
begin

text \<open>
  The workspace guard of \<open>orchestration/goal/src/agents/workspace_guard.rs\<close> on a Unix host: the
  component view of paths, lexical normalisation, the overlap test, and the conflicts a claim
  would have with the live leases of other agents.

  The file system enters through \<open>canonicalize\<close> only, the home directory and the process probe
  are read from the environment: the record \<open>guard_env\<close> carries the three.
\<close>

section \<open>Paths\<close>

text \<open>\<open>std::path::Component\<close> and \<open>Path::components\<close>: repeated separators and inner dots vanish,
  a leading dot of a relative path stays.\<close>

datatype component = RootDir | CurDir | ParentDir | Normal string

definition is_absolute :: "string \<Rightarrow> bool" where
  "is_absolute s \<longleftrightarrow> (case s of [] \<Rightarrow> False | c # _ \<Rightarrow> c = CHR ''/'')"

definition seg_component :: "string \<Rightarrow> component option" where
  "seg_component seg =
     (if seg = [] \<or> seg = ''.'' then None
      else if seg = ''..'' then Some ParentDir else Some (Normal seg))"

definition components :: "string \<Rightarrow> component list" where
  "components s =
     (let segs = split_on CHR ''/'' s in
      (if is_absolute s then [RootDir] else if hd segs = ''.'' then [CurDir] else [])
      @ List.map_filter seg_component segs)"

fun component_str :: "component \<Rightarrow> string" where
  "component_str RootDir = ''/''"
| "component_str CurDir = ''.''"
| "component_str ParentDir = ''..''"
| "component_str (Normal s) = s"

text \<open>\<open>PathBuf::push\<close>.\<close>

definition push_path :: "string \<Rightarrow> string \<Rightarrow> string" where
  "push_path base p =
     (if is_absolute p then p
      else if base \<noteq> [] \<and> last base \<noteq> CHR ''/'' then base @ ''/'' @ p
      else base @ p)"

definition render_path :: "component list \<Rightarrow> string" where
  "render_path cs = foldl push_path [] (map component_str cs)"

text \<open>One step of \<open>lexical_normalize\<close>; the buffer is its component list. \<open>file_name\<close> is \<open>Some\<close>
  exactly when the last component is a normal one.\<close>

fun is_normal :: "component \<Rightarrow> bool" where
  "is_normal (Normal s) \<longleftrightarrow> True"
| "is_normal _ \<longleftrightarrow> False"

fun lex_step :: "component list \<Rightarrow> component \<Rightarrow> component list" where
  "lex_step out CurDir = out"
| "lex_step out ParentDir =
     (if out \<noteq> [] \<and> is_normal (last out) then butlast out
      else if out = [] \<or> hd out \<noteq> RootDir then out @ [ParentDir] else out)"
| "lex_step out RootDir = [RootDir]"
| "lex_step out (Normal s) = out @ [Normal s]"

definition lexical_normalize :: "string \<Rightarrow> string" where
  "lexical_normalize s = render_path (foldl lex_step [] (components s))"

record guard_env =
  ge_canonicalize :: "string \<Rightarrow> string option"
  ge_home :: string
  ge_alive :: "u32 \<Rightarrow> bool"

definition expand_home_with :: "string \<Rightarrow> string \<Rightarrow> string" where
  "expand_home_with raw home =
     (let tilde = (raw = ''~'' \<or> starts_with ''~/'' raw \<or> starts_with (''~'' @ [CHR 0x5C]) raw) in
      if tilde \<and> home \<noteq> [] then home @ drop 1 raw else raw)"

definition resolve_step :: "guard_env \<Rightarrow> string \<Rightarrow> component \<Rightarrow> string" where
  "resolve_step e resolved c =
     (let r = lexical_normalize (push_path resolved (component_str c)) in
      case ge_canonicalize e r of None \<Rightarrow> r | Some canon \<Rightarrow> canon)"

definition normalize_workspace_path_at :: "guard_env \<Rightarrow> string \<Rightarrow> string \<Rightarrow> string" where
  "normalize_workspace_path_at e raw base =
     (let path = expand_home_with (trim raw) (ge_home e);
          abs = (if is_absolute path then path else push_path base path)
      in foldl (resolve_step e) [] (components abs))"

definition normalize_workspace_path :: "guard_env \<Rightarrow> string \<Rightarrow> string \<Rightarrow> string" where
  "normalize_workspace_path e current_dir raw = normalize_workspace_path_at e raw current_dir"

text \<open>\<open>Path::starts_with\<close> compares components.\<close>

definition path_starts_with :: "string \<Rightarrow> string \<Rightarrow> bool" where
  "path_starts_with a b \<longleftrightarrow> take (length (components b)) (components a) = components b"

definition paths_overlap :: "string \<Rightarrow> string \<Rightarrow> bool" where
  "paths_overlap a b \<longleftrightarrow>
     components a = components b \<or> path_starts_with a b \<or> path_starts_with b a"

section \<open>Conflicts\<close>

record workspace_conflict =
  wc_schema_version :: string
  wc_holder_agent_id :: string
  wc_holder_todo_ids :: "string list"
  wc_overlapping_paths :: "string list"
  wc_holder_lease_expires_at :: u64

definition agent_workspaces :: "goal \<Rightarrow> string \<Rightarrow> string list" where
  "agent_workspaces g agent =
     (case find (\<lambda>p. ap_id p = agent) (g_agent_profiles g) of
        None \<Rightarrow> [] | Some p \<Rightarrow> ap_workspaces p)"

definition todo_workspaces :: "guard_env \<Rightarrow> goal \<Rightarrow> string \<Rightarrow> todo \<Rightarrow> string list" where
  "todo_workspaces e g agent t =
     (let scopes = filter (\<lambda>s. \<not> blank s) (t_required_write_scope t) in
      if scopes = [] then agent_workspaces g agent
      else map (\<lambda>s. normalize_workspace_path_at e s (g_cwd g)) scopes)"

definition live_holder :: "guard_env \<Rightarrow> todo \<Rightarrow> string \<Rightarrow> u64 \<Rightarrow> bool" where
  "live_holder e t agent now \<longleftrightarrow>
     t_status t \<noteq> Done \<and> t_status t \<noteq> Superseded
     \<and> t_claimed_by t = Some agent
     \<and> (case t_lease_expires_at t of None \<Rightarrow> False | Some x \<Rightarrow> x > now)
     \<and> (case t_holder_pid t of None \<Rightarrow> True | Some p \<Rightarrow> ge_alive e p)"

text \<open>The paths of one held todo that overlap the claimer's set.\<close>

definition overlapping_of ::
  "guard_env \<Rightarrow> goal \<Rightarrow> string list \<Rightarrow> string \<Rightarrow> todo \<Rightarrow> string list" where
  "overlapping_of e g mine holder t =
     filter (\<lambda>w. list_ex (\<lambda>m. paths_overlap m w) mine) (todo_workspaces e g holder t)"

definition holder_conflict ::
  "guard_env \<Rightarrow> goal \<Rightarrow> string list \<Rightarrow> u64 \<Rightarrow> string \<Rightarrow> workspace_conflict option" where
  "holder_conflict e g mine now holder =
     (let live = filter (\<lambda>t. live_holder e t holder now) (g_todos g);
          held = filter (\<lambda>t. overlapping_of e g mine holder t \<noteq> []) live;
          overlapping = remdups_adj (sort (concat (map (overlapping_of e g mine holder) live)));
          expiries = List.map_filter t_lease_expires_at held
      in if overlapping = [] then None
         else Some \<lparr>wc_schema_version = ''agent_workspace_guard_v1'',
                    wc_holder_agent_id = holder,
                    wc_holder_todo_ids = map t_id (sort_key t_id held),
                    wc_overlapping_paths = overlapping,
                    wc_holder_lease_expires_at =
                      (if expiries = [] then now else Min (set expiries))\<rparr>)"

definition claim_holders :: "goal \<Rightarrow> string \<Rightarrow> string list" where
  "claim_holders g agent =
     sorted_list_of_set (set (filter (\<lambda>h. h \<noteq> agent) (List.map_filter t_claimed_by (g_todos g))))"

definition conflicts_for_paths ::
  "guard_env \<Rightarrow> goal \<Rightarrow> string \<Rightarrow> string list \<Rightarrow> u64 \<Rightarrow> workspace_conflict list" where
  "conflicts_for_paths e g agent mine now =
     (if mine = [] then []
      else sort_key wc_holder_agent_id
             (List.map_filter (holder_conflict e g mine now) (claim_holders g agent)))"

definition todo_workspace_conflicts ::
  "guard_env \<Rightarrow> goal \<Rightarrow> string \<Rightarrow> todo \<Rightarrow> u64 \<Rightarrow> workspace_conflict list" where
  "todo_workspace_conflicts e g agent t now =
     conflicts_for_paths e g agent (todo_workspaces e g agent t) now"

definition live_workspace_conflicts ::
  "guard_env \<Rightarrow> goal \<Rightarrow> string \<Rightarrow> u64 \<Rightarrow> workspace_conflict list" where
  "live_workspace_conflicts e g agent now =
     (let held = filter (\<lambda>t. live_holder e t agent now) (g_todos g);
          mine = (if held = [] then agent_workspaces g agent
                  else concat (map (todo_workspaces e g agent) held))
      in conflicts_for_paths e g agent mine now)"

definition warning_sign :: string where
  "warning_sign = [CHR 0xE2, CHR 0x9A, CHR 0xA0]"

definition render_conflicts :: "workspace_conflict list \<Rightarrow> u64 \<Rightarrow> string" where
  "render_conflicts cs now =
     concat (map (\<lambda>c. ''  '' @ warning_sign @ '' agent `'' @ wc_holder_agent_id c @ ''` is writing ''
                      @ join '', '' (wc_overlapping_paths c) @ '' (todos: ''
                      @ join '', '' (wc_holder_todo_ids c) @ ''; lease expires in ''
                      @ dec (wc_holder_lease_expires_at c - now) @ ''s)'' @ [CHR 0x0A]) cs)"

section \<open>Rendering and reading back\<close>

definition wf_component :: "component \<Rightarrow> bool" where
  "wf_component c \<longleftrightarrow>
     (case c of
        Normal s \<Rightarrow> s \<noteq> [] \<and> s \<noteq> ''.'' \<and> s \<noteq> ''..'' \<and> CHR ''/'' \<notin> set s
      | ParentDir \<Rightarrow> True
      | _ \<Rightarrow> False)"

lemma split_on_segments: "x \<in> set (split_on c s) \<Longrightarrow> c \<notin> set x"
  by (induction s arbitrary: x) (auto split: if_splits list.splits)

lemma wf_seg_component: "seg_component x = Some c \<Longrightarrow> CHR ''/'' \<notin> set x \<Longrightarrow> wf_component c"
  by (auto simp: seg_component_def wf_component_def split: if_splits)

lemma wf_components_tail: "\<forall>c \<in> set (List.map_filter seg_component (split_on CHR ''/'' s)). wf_component c"
  by (auto simp: map_filter_def dest!: split_on_segments intro: wf_seg_component)

lemma component_str_wf:
  assumes "wf_component c"
  shows "component_str c \<noteq> []" "CHR ''/'' \<notin> set (component_str c)"
    "\<not> is_absolute (component_str c)" "component_str c \<noteq> ''.''"
    "seg_component (component_str c) = Some c"
  using assms
  by (cases c; auto simp: wf_component_def seg_component_def is_absolute_def split: list.splits)+

lemma join_snoc_head: "join ''/'' ((x @ ''/'' @ y) # ys) = join ''/'' (x # y # ys)"
  by (cases ys) auto

lemma join_prefix: "join sep ((x @ y) # zs) = x @ join sep (y # zs)"
  by (cases zs) auto

lemma push_relative:
  "base \<noteq> [] \<Longrightarrow> last base \<noteq> CHR ''/'' \<Longrightarrow> \<forall>c \<in> set cs. wf_component c \<Longrightarrow>
     foldl push_path base (map component_str cs) = join ''/'' (base # map component_str cs)"
proof (induction cs arbitrary: base)
  case (Cons c cs)
  have c: "wf_component c" using Cons.prems by simp
  have step: "push_path base (component_str c) = base @ ''/'' @ component_str c"
    using Cons.prems component_str_wf(3) [OF c] by (simp add: push_path_def)
  have "last (base @ ''/'' @ component_str c) = last (component_str c)"
    using component_str_wf(1) [OF c] by simp
  also have "\<dots> \<noteq> CHR ''/''"
    using component_str_wf(1,2) [OF c] by (metis last_in_set)
  finally have "foldl push_path (base @ ''/'' @ component_str c) (map component_str cs)
        = join ''/'' ((base @ ''/'' @ component_str c) # map component_str cs)"
    using Cons.prems by (intro Cons.IH) auto
  then show ?case
    by (simp only: list.map foldl.simps step join_snoc_head)
qed simp

lemma render_relative:
  assumes "\<forall>c \<in> set cs. wf_component c" "cs \<noteq> []"
  shows "render_path cs = join ''/'' (map component_str cs)"
    "foldl push_path ''/'' (map component_str cs) = ''/'' @ join ''/'' (map component_str cs)"
proof -
  obtain c ds where cs: "cs = c # ds" using assms(2) by (cases cs) auto
  have c: "wf_component c" using assms by (simp add: cs)
  have last: "last (component_str c) \<noteq> CHR ''/''"
    using component_str_wf(1,2) [OF c] by (metis last_in_set)
  show "render_path cs = join ''/'' (map component_str cs)"
    using assms last component_str_wf(1,3) [OF c]
    by (simp add: render_path_def cs push_path_def push_relative)
  have "push_path ''/'' (component_str c) = ''/'' @ component_str c"
    using component_str_wf(3) [OF c] by (simp add: push_path_def)
  moreover have "foldl push_path (''/'' @ component_str c) (map component_str ds)
                 = join ''/'' ((''/'' @ component_str c) # map component_str ds)"
    using assms last component_str_wf(1) [OF c] by (intro push_relative) (auto simp: cs)
  ultimately show "foldl push_path ''/'' (map component_str cs) = ''/'' @ join ''/'' (map component_str cs)"
    by (simp only: cs list.map foldl.simps join_prefix)
qed

lemma segments_join:
  "\<forall>c \<in> set cs. wf_component c \<Longrightarrow> cs \<noteq> [] \<Longrightarrow>
     split_on CHR ''/'' (join ''/'' (map component_str cs)) = map component_str cs"
  by (rule split_on_join) (auto simp: component_str_wf(2))

lemma segments_components:
  "\<forall>c \<in> set cs. wf_component c \<Longrightarrow> List.map_filter seg_component (map component_str cs) = cs"
  by (induction cs) (auto simp: map_filter_simps component_str_wf(5))

lemma components_join:
  assumes "\<forall>c \<in> set cs. wf_component c" "cs \<noteq> []"
  shows "components (join ''/'' (map component_str cs)) = cs"
    "components (''/'' @ join ''/'' (map component_str cs)) = RootDir # cs"
proof -
  obtain c ds where cs: "cs = c # ds" using assms(2) by (cases cs) auto
  have c: "wf_component c" using assms by (simp add: cs)
  have "\<not> is_absolute (join ''/'' (map component_str cs))"
    using component_str_wf(1,3) [OF c]
    by (cases ds) (auto simp: cs is_absolute_def split: list.splits)
  then show "components (join ''/'' (map component_str cs)) = cs"
    using assms component_str_wf(4) [OF c]
    by (simp add: components_def segments_join segments_components) (simp add: cs)
  have "split_on CHR ''/'' (''/'' @ join ''/'' (map component_str cs)) = [] # map component_str cs"
    using assms by (simp add: segments_join)
  then show "components (''/'' @ join ''/'' (map component_str cs)) = RootDir # cs"
    using assms by (simp add: components_def is_absolute_def seg_component_def
        map_filter_simps(1) segments_components)
qed

section \<open>Normal forms\<close>

definition normal_form :: "component list \<Rightarrow> bool" where
  "normal_form cs \<longleftrightarrow>
     (\<exists>hd_part ns. cs = hd_part @ ns \<and> (\<forall>c \<in> set ns. is_normal c \<and> wf_component c)
        \<and> (hd_part = [RootDir] \<or> (\<exists>k. hd_part = replicate k ParentDir)))"

lemma normal_formE:
  assumes "normal_form cs"
  obtains (rooted) ns where "cs = RootDir # ns" "\<forall>c \<in> set ns. is_normal c \<and> wf_component c"
  | (relative) k ns where "cs = replicate k ParentDir @ ns"
      "\<forall>c \<in> set ns. is_normal c \<and> wf_component c"
  using assms by (auto simp: normal_form_def)

lemma normal_form_rooted: "\<forall>c \<in> set ns. is_normal c \<and> wf_component c \<Longrightarrow> normal_form (RootDir # ns)"
  unfolding normal_form_def by (intro exI [of _ "[RootDir]"] exI [of _ ns]) simp

lemma normal_form_relative:
  "\<forall>c \<in> set ns. is_normal c \<and> wf_component c \<Longrightarrow> normal_form (replicate k ParentDir @ ns)"
  unfolding normal_form_def by blast

lemma lex_step_normal_form:
  assumes "normal_form out" "wf_component c \<or> c = CurDir"
  shows "normal_form (lex_step out c)"
proof (cases c)
  case CurDir
  then show ?thesis using assms by simp
next
  case RootDir
  then show ?thesis using assms(2) by (simp add: wf_component_def)
next
  case (Normal s)
  from assms(1) show ?thesis
  proof (cases rule: normal_formE)
    case (rooted ns)
    then show ?thesis
      using assms(2) Normal normal_form_rooted [of "ns @ [c]"] by simp
  next
    case (relative k ns)
    then show ?thesis
      using assms(2) Normal normal_form_relative [of "ns @ [c]" k] by simp
  qed
next
  case ParentDir
  from assms(1) show ?thesis
  proof (cases rule: normal_formE)
    case (rooted ns)
    then show ?thesis
      using ParentDir normal_form_rooted [of "butlast ns"] normal_form_rooted [of ns]
      by (auto dest: in_set_butlastD)
  next
    case (relative k ns)
    show ?thesis
    proof (cases "ns = []")
      case True
      then show ?thesis
        using relative ParentDir normal_form_relative [of "[]" "Suc k"]
        by (cases k) (auto simp: replicate_append_same)
    next
      case False
      then have "is_normal (last ns)" using relative(2) by (simp add: last_in_set)
      then show ?thesis
        using relative False ParentDir normal_form_relative [of "butlast ns" k]
        by (auto simp: butlast_append dest: in_set_butlastD)
    qed
  qed
qed

lemma normalize_components_normal_form:
  "normal_form (foldl lex_step [] (components s))
   \<and> (is_absolute s \<longrightarrow> hd (foldl lex_step [] (components s)) = RootDir
                     \<and> foldl lex_step [] (components s) \<noteq> [])"
proof -
  define ds where "ds = List.map_filter seg_component (split_on CHR ''/'' s)"
  have ds: "\<forall>c \<in> set ds. wf_component c" unfolding ds_def by (rule wf_components_tail)
  have run: "normal_form (foldl lex_step out ds)" if "normal_form out" for out
    using that ds by (induction ds arbitrary: out) (auto intro!: lex_step_normal_form)
  have root: "foldl lex_step out ds \<noteq> [] \<and> hd (foldl lex_step out ds) = RootDir"
    if "out \<noteq> []" "hd out = RootDir" for out
    using that ds
  proof (induction ds arbitrary: out)
    case (Cons c ds)
    have "lex_step out c \<noteq> [] \<and> hd (lex_step out c) = RootDir"
      using Cons.prems by (cases c; cases out) (auto simp: wf_component_def butlast_append)
    then show ?case using Cons by simp
  qed simp
  have start: "foldl lex_step [] (components s)
               = foldl lex_step (if is_absolute s then [RootDir] else []) ds"
    by (simp add: components_def Let_def ds_def)
  have "normal_form (if is_absolute s then [RootDir] else [])"
    using normal_form_rooted [of "[]"] normal_form_relative [of "[]" 0] by simp
  then show ?thesis using run root [of "[RootDir]"] by (auto simp: start)
qed

lemma normal_wf: "is_normal c \<and> wf_component c \<Longrightarrow> wf_component c"
  by simp

lemma components_render:
  assumes "normal_form cs"
  shows "components (render_path cs) = cs"
  using assms
proof (cases rule: normal_formE)
  case (rooted ns)
  show ?thesis
  proof (cases "ns = []")
    case True
    then show ?thesis
      by (simp add: rooted render_path_def push_path_def components_def is_absolute_def
          seg_component_def map_filter_simps)
  next
    case False
    have "render_path cs = foldl push_path ''/'' (map component_str ns)"
      by (simp add: rooted render_path_def push_path_def is_absolute_def)
    also have "\<dots> = ''/'' @ join ''/'' (map component_str ns)"
      using rooted False by (intro render_relative(2)) auto
    finally show ?thesis
      using rooted False components_join(2) [of ns] by simp
  qed
next
  case (relative k ns)
  then have wf: "\<forall>c \<in> set cs. wf_component c" by (auto simp: wf_component_def)
  show ?thesis
  proof (cases "cs = []")
    case True
    then show ?thesis
      by (simp add: render_path_def components_def is_absolute_def seg_component_def map_filter_simps)
  next
    case False
    then show ?thesis using wf by (simp add: render_relative(1) components_join(1))
  qed
qed

lemma foldl_lex_normals:
  "\<forall>c \<in> set ns. is_normal c \<Longrightarrow> foldl lex_step out ns = out @ ns"
proof (induction ns arbitrary: out)
  case (Cons c ns)
  then show ?case by (cases c) auto
qed simp

lemma foldl_lex_parents: "foldl lex_step (replicate j ParentDir) (replicate k ParentDir) = replicate (j + k) ParentDir"
proof (induction k arbitrary: j)
  case (Suc k)
  have "lex_step (replicate j ParentDir) ParentDir = replicate (Suc j) ParentDir"
    by (cases j) (auto simp: replicate_append_same)
  then show ?case using Suc [of "Suc j"] by simp
qed simp

lemma normal_form_fixed:
  assumes "normal_form cs"
  shows "foldl lex_step [] cs = cs"
  using assms
proof (cases rule: normal_formE)
  case (rooted ns)
  then show ?thesis by (simp add: foldl_lex_normals)
next
  case (relative k ns)
  then show ?thesis using foldl_lex_parents [of 0 k] by (simp add: foldl_lex_normals)
qed

lemma normals_map: "\<forall>c \<in> set ns. is_normal c \<and> wf_component c \<Longrightarrow> \<exists>names. ns = map Normal names"
proof (induction ns)
  case (Cons c ns)
  then obtain x names where "c = Normal x" "ns = map Normal names" by (cases c) auto
  then show ?case by (intro exI [of _ "x # names"]) simp
qed simp

lemma hd_relative: "names \<noteq> [] \<Longrightarrow> hd (replicate k ParentDir @ map Normal names) \<noteq> RootDir"
  by (cases k; cases names) auto

lemma normalize_relative:
  assumes "\<not> is_absolute s"
  shows "foldl lex_step [] (components s) = [] \<or> hd (foldl lex_step [] (components s)) \<noteq> RootDir"
proof -
  have "RootDir \<notin> set (foldl lex_step out ds)"
    if "RootDir \<notin> set out" "RootDir \<notin> set ds" for out ds
    using that
  proof (induction ds arbitrary: out)
    case (Cons c ds)
    have "RootDir \<notin> set (lex_step out c)"
      using Cons.prems by (cases c) (auto dest: in_set_butlastD)
    then show ?case using Cons by simp
  qed simp
  moreover have "RootDir \<notin> set (components s)"
    using assms wf_components_tail [of s] by (auto simp: components_def Let_def wf_component_def)
  ultimately show ?thesis by (metis hd_in_set list.set(1) empty_iff)
qed

text \<open>Lexical normalisation is exact: the rendered path reads back as the component list that
  was computed, normalising again changes nothing, and the normal form of an absolute path is the
  root followed by ordinary names only, so no dot or parent component can lead out of it.\<close>

theorem lexical_normalize_exact:
  "components (lexical_normalize s) = foldl lex_step [] (components s)
   \<and> lexical_normalize (lexical_normalize s) = lexical_normalize s
   \<and> (if is_absolute s
      then \<exists>names. components (lexical_normalize s) = RootDir # map Normal names
      else \<exists>k names. components (lexical_normalize s) = replicate k ParentDir @ map Normal names)"
proof -
  let ?cs = "foldl lex_step [] (components s)"
  have nf: "normal_form ?cs" using normalize_components_normal_form [of s] by blast
  have reread: "components (lexical_normalize s) = ?cs"
    unfolding lexical_normalize_def by (rule components_render [OF nf])
  then have "lexical_normalize (lexical_normalize s) = lexical_normalize s"
    by (simp add: lexical_normalize_def [of "lexical_normalize s"] normal_form_fixed [OF nf])
      (simp add: lexical_normalize_def)
  moreover have "if is_absolute s then \<exists>names. ?cs = RootDir # map Normal names
        else \<exists>k names. ?cs = replicate k ParentDir @ map Normal names"
    using nf normalize_components_normal_form [of s] normalize_relative [of s]
    by (elim normal_formE) (auto dest!: normals_map simp: hd_relative)
  ultimately show ?thesis using reread by simp
qed

section \<open>Overlap and conflicts\<close>

lemma starts_with_prefix: "path_starts_with a b \<longleftrightarrow> prefix (components b) (components a)"
  by (metis append_take_drop_id path_starts_with_def prefixI append_eq_conv_conj prefix_def)

text \<open>Two workspace paths overlap exactly when some path lies at or below both; the comparison
  is by component, so it is symmetric and never confuses a directory with a sibling whose name merely
  starts alike.\<close>

theorem paths_overlap_shared_subtree:
  "(paths_overlap a b \<longleftrightarrow> (\<exists>p. path_starts_with p a \<and> path_starts_with p b))
   \<and> paths_overlap a b = paths_overlap b a \<and> paths_overlap a a
   \<and> paths_overlap ''/repo/a'' ''/repo/a/sub'' \<and> \<not> paths_overlap ''/repo/a'' ''/repo/ab''"
proof (intro conjI)
  show "paths_overlap a b \<longleftrightarrow> (\<exists>p. path_starts_with p a \<and> path_starts_with p b)"
  proof
    assume "paths_overlap a b"
    then show "\<exists>p. path_starts_with p a \<and> path_starts_with p b"
      by (auto simp: paths_overlap_def starts_with_prefix)
  next
    assume "\<exists>p. path_starts_with p a \<and> path_starts_with p b"
    then show "paths_overlap a b"
      by (auto simp: paths_overlap_def starts_with_prefix dest: prefix_same_cases)
  qed
  show "paths_overlap a b = paths_overlap b a" by (auto simp: paths_overlap_def)
  show "paths_overlap a a" by (simp add: paths_overlap_def)
qed code_simp+

definition blocks_claim :: "guard_env \<Rightarrow> goal \<Rightarrow> string list \<Rightarrow> u64 \<Rightarrow> string \<Rightarrow> todo \<Rightarrow> bool" where
  "blocks_claim e g mine now holder u \<longleftrightarrow>
     live_holder e u holder now
     \<and> (\<exists>m \<in> set mine. \<exists>w \<in> set (todo_workspaces e g holder u). paths_overlap m w)"

lemma overlapping_of_iff:
  "overlapping_of e g mine holder u \<noteq> [] \<longleftrightarrow>
     (\<exists>m \<in> set mine. \<exists>w \<in> set (todo_workspaces e g holder u). paths_overlap m w)"
  by (auto simp: overlapping_of_def filter_empty_conv list_ex_iff)

lemma sort_Nil [simp]: "sort (xs :: string list) = [] \<longleftrightarrow> xs = []"
  by (metis length_0_conv length_sort)

lemma holder_conflict_None:
  "holder_conflict e g mine now holder = None \<longleftrightarrow>
     (\<forall>u \<in> set (g_todos g). \<not> blocks_claim e g mine now holder u)"
  by (auto simp: holder_conflict_def Let_def blocks_claim_def overlapping_of_iff [symmetric])

lemma blocks_claim_lease:
  "blocks_claim e g mine now holder u \<Longrightarrow> \<exists>x. t_lease_expires_at u = Some x \<and> now < x"
  by (auto simp: blocks_claim_def live_holder_def split: option.splits)

lemma holder_conflict_Some:
  assumes "holder_conflict e g mine now holder = Some c"
  shows "wc_holder_agent_id c = holder
    \<and> set (wc_holder_todo_ids c) = t_id ` {u \<in> set (g_todos g). blocks_claim e g mine now holder u}
    \<and> now < wc_holder_lease_expires_at c
    \<and> (\<forall>u \<in> set (g_todos g). blocks_claim e g mine now holder u \<longrightarrow>
         wc_holder_lease_expires_at c \<le> the (t_lease_expires_at u))"
proof -
  define held where
    "held = filter (\<lambda>t. overlapping_of e g mine holder t \<noteq> [])
              (filter (\<lambda>t. live_holder e t holder now) (g_todos g))"
  define expiries where "expiries = List.map_filter t_lease_expires_at held"
  have held: "set held = {u \<in> set (g_todos g). blocks_claim e g mine now holder u}"
    by (auto simp: held_def blocks_claim_def overlapping_of_iff [symmetric])
  have "\<forall>u \<in> set held. \<exists>x. t_lease_expires_at u = Some x"
    using held blocks_claim_lease by blast
  then have "filter (\<lambda>u. t_lease_expires_at u \<noteq> None) held = held" by (intro filter_True) auto
  then have expiries: "set expiries = (\<lambda>u. the (t_lease_expires_at u)) ` set held"
    by (simp add: expiries_def map_filter_def)
  have "\<exists>u \<in> set (g_todos g). blocks_claim e g mine now holder u"
    using assms holder_conflict_None [of e g mine now holder] by auto
  then have ne: "expiries \<noteq> []" using expiries held by force
  have c: "wc_holder_agent_id c = holder" "wc_holder_todo_ids c = map t_id (sort_key t_id held)"
    "wc_holder_lease_expires_at c = Min (set expiries)"
    using assms ne
    by (auto simp: holder_conflict_def Let_def held_def expiries_def split: if_splits)
  have "\<forall>x \<in> set expiries. now < x"
    using expiries held blocks_claim_lease [of e g mine now holder] by fastforce
  then have "now < Min (set expiries)" using ne by simp
  moreover have "Min (set expiries) \<le> the (t_lease_expires_at u)"
    if "u \<in> set held" for u
    using that expiries by (intro Min_le) auto
  ultimately show ?thesis using c held by auto
qed

lemma blocks_claim_holder:
  "blocks_claim e g mine now holder u \<Longrightarrow> t_claimed_by u = Some holder"
  by (simp add: blocks_claim_def live_holder_def)

lemma set_claim_holders:
  "set (claim_holders g agent) = {h. h \<noteq> agent \<and> (\<exists>u \<in> set (g_todos g). t_claimed_by u = Some h)}"
  by (force simp: claim_holders_def map_filter_def)

lemma blocking_holders:
  "{h \<in> set (claim_holders g agent). holder_conflict e g mine now h \<noteq> None}
   = {h. h \<noteq> agent \<and> (\<exists>u \<in> set (g_todos g). blocks_claim e g mine now h u)}"
  unfolding set_claim_holders holder_conflict_None by (auto dest: blocks_claim_holder)

lemma map_holder_conflicts:
  "map wc_holder_agent_id (List.map_filter (holder_conflict e g mine now) hs)
   = filter (\<lambda>h. holder_conflict e g mine now h \<noteq> None) hs"
  by (induction hs) (auto simp: map_filter_simps dest: holder_conflict_Some split: option.splits)

lemma conflicts_sorted_already:
  "conflicts_for_paths e g agent mine now
   = (if mine = [] then []
      else List.map_filter (holder_conflict e g mine now) (claim_holders g agent))"
proof -
  have "sorted (map wc_holder_agent_id
          (List.map_filter (holder_conflict e g mine now) (claim_holders g agent)))"
    by (simp add: map_holder_conflicts claim_holders_def sorted_filter [of "\<lambda>x. x", simplified])
  then show ?thesis by (simp add: conflicts_for_paths_def sort_key_id_if_sorted)
qed

lemma conflicts_spec:
  "let mine = todo_workspaces e g agent t;
       cs = todo_workspace_conflicts e g agent t now;
       blocking = (\<lambda>h u. live_holder e u h now
                     \<and> (\<exists>m \<in> set mine. \<exists>w \<in> set (todo_workspaces e g h u). paths_overlap m w))
   in sorted (map wc_holder_agent_id cs) \<and> distinct (map wc_holder_agent_id cs)
      \<and> set (map wc_holder_agent_id cs)
        = {h. h \<noteq> agent \<and> (\<exists>u \<in> set (g_todos g). blocking h u)}
      \<and> (\<forall>c \<in> set cs.
           set (wc_holder_todo_ids c)
           = t_id ` {u \<in> set (g_todos g). blocking (wc_holder_agent_id c) u}
           \<and> now < wc_holder_lease_expires_at c
           \<and> (\<forall>u \<in> set (g_todos g). blocking (wc_holder_agent_id c) u \<longrightarrow>
                wc_holder_lease_expires_at c \<le> the (t_lease_expires_at u)))"
proof -
  define mine where "mine = todo_workspaces e g agent t"
  define cs where "cs = todo_workspace_conflicts e g agent t now"
  define hs where "hs = filter (\<lambda>h. holder_conflict e g mine now h \<noteq> None) (claim_holders g agent)"
  have blocking: "(live_holder e u h now
       \<and> (\<exists>m \<in> set mine. \<exists>w \<in> set (todo_workspaces e g h u). paths_overlap m w))
      = blocks_claim e g mine now h u" for h u
    by (simp add: blocks_claim_def)
  have cs: "cs = List.map_filter (holder_conflict e g mine now) (claim_holders g agent)"
  proof (cases "mine = []")
    case True
    have "holder_conflict e g mine now h = None" for h
      by (simp add: holder_conflict_None blocks_claim_def True)
    then show ?thesis
      using True by (simp add: cs_def todo_workspace_conflicts_def conflicts_sorted_already
          map_filter_def flip: mine_def)
  next
    case False
    then show ?thesis
      by (simp add: cs_def todo_workspace_conflicts_def conflicts_sorted_already flip: mine_def)
  qed
  then have names: "map wc_holder_agent_id cs = hs" by (simp add: map_holder_conflicts hs_def)
  have "sorted hs" "distinct hs"
    by (simp_all add: hs_def claim_holders_def sorted_filter [of "\<lambda>x. x", simplified])
  moreover have "set hs = {h. h \<noteq> agent \<and> (\<exists>u \<in> set (g_todos g). blocks_claim e g mine now h u)}"
    using blocking_holders [of g agent e mine now] by (simp add: hs_def)
  moreover have "set (wc_holder_todo_ids c)
        = t_id ` {u \<in> set (g_todos g). blocks_claim e g mine now (wc_holder_agent_id c) u}
      \<and> now < wc_holder_lease_expires_at c
      \<and> (\<forall>u \<in> set (g_todos g). blocks_claim e g mine now (wc_holder_agent_id c) u \<longrightarrow>
           wc_holder_lease_expires_at c \<le> the (t_lease_expires_at u))" if "c \<in> set cs" for c
  proof -
    obtain h where h: "holder_conflict e g mine now h = Some c"
      using \<open>c \<in> set cs\<close> by (auto simp: cs map_filter_def)
    from holder_conflict_Some [OF this] show ?thesis by simp
  qed
  ultimately show ?thesis
    unfolding Let_def mine_def [symmetric] cs_def [symmetric] names blocking by blast
qed

text \<open>the guard is exact: the conflicts of a claim name, sorted and once each, exactly the other
  agents that hold a live lease on some todo whose effective write set overlaps the claimer's; each names
  exactly those todos and a retry time that is in the future and not after any of their expiries. In
  particular a claim without conflicts overlaps no live peer.\<close>

theorem workspace_conflicts_exact:
  "let mine = todo_workspaces e g agent t;
       cs = todo_workspace_conflicts e g agent t now;
       blocking = (\<lambda>h u. live_holder e u h now
                     \<and> (\<exists>m \<in> set mine. \<exists>w \<in> set (todo_workspaces e g h u). paths_overlap m w))
   in sorted (map wc_holder_agent_id cs) \<and> distinct (map wc_holder_agent_id cs)
      \<and> set (map wc_holder_agent_id cs)
        = {h. h \<noteq> agent \<and> (\<exists>u \<in> set (g_todos g). blocking h u)}
      \<and> (\<forall>c \<in> set cs.
           set (wc_holder_todo_ids c)
           = t_id ` {u \<in> set (g_todos g). blocking (wc_holder_agent_id c) u}
           \<and> now < wc_holder_lease_expires_at c
           \<and> (\<forall>u \<in> set (g_todos g). blocking (wc_holder_agent_id c) u \<longrightarrow>
                wc_holder_lease_expires_at c \<le> the (t_lease_expires_at u)))"
  by (rule conflicts_spec)

definition demo_guard :: guard_env where
  "demo_guard = \<lparr>ge_canonicalize = (\<lambda>p. None), ge_home = ''/root'', ge_alive = (\<lambda>p. True)\<rparr>"

definition demo_peers :: goal where
  "demo_peers = (goal_new 0 ''g'' ''o'' ''/r'')
     \<lparr>g_todos :=
        [advancement 0 ''T1'' ''w'',
         (advancement 0 ''T2'' ''w'')\<lparr>t_claimed_by := Some ''bob'', t_lease_expires_at := Some 60\<rparr>],
      g_agent_profiles :=
        [\<lparr>ap_id = ''ann'', ap_capabilities = [], ap_workspaces = [''/r'']\<rparr>,
         \<lparr>ap_id = ''bob'', ap_capabilities = [], ap_workspaces = [''/r/d'']\<rparr>]\<rparr>"

lemma workspace_conflicts_exact_witness:
  "let cs = todo_workspace_conflicts demo_guard demo_peers ''ann'' (hd (g_todos demo_peers)) 10
   in map wc_holder_agent_id cs = [''bob''] \<and> (\<forall>c \<in> set cs. 10 < wc_holder_lease_expires_at c)"
proof -
  have "map wc_holder_agent_id
          (todo_workspace_conflicts demo_guard demo_peers ''ann'' (hd (g_todos demo_peers)) 10) = [''bob'']"
    by code_simp
  then show ?thesis
    using workspace_conflicts_exact [of demo_guard demo_peers "''ann''" "hd (g_todos demo_peers)" 10]
    by (simp add: Let_def)
qed

end
