(* ===== verification/Ledger.thy ===== *)
theory Ledger
  imports Replay Task_Graph Workspace_Guard
begin

text \<open>
  The event store of \<open>orchestration/goal/src/store.rs\<close>: the registry and the per-goal files, the
  locked append with its idempotency and conflict checks, the reader and the verifier of the
  ledger and replay. The atomic claim is theory \<open>Claim\<close>.

  A call that may create files returns its result together with the store it leaves; the result
  of a \<open>Result<T>\<close> is \<open>string + 'a\<close>. The lock makes a call one step, disk errors are not modelled.
\<close>

section \<open>Ledger text\<close>

definition newline_char :: char where
  "newline_char = CHR 0x0A"

definition strip_cr :: "string \<Rightarrow> string" where
  "strip_cr s = (if s \<noteq> [] \<and> last s = CHR 0x0D then butlast s else s)"

definition text_lines :: "string \<Rightarrow> string list" where
  "text_lines s =
     (let segs = split_on newline_char s in
      map strip_cr (butlast segs) @ (if last segs = [] then [] else [last segs]))"

definition live_lines :: "string \<Rightarrow> string list" where
  "live_lines text = filter (\<lambda>l. \<not> blank l) (text_lines text)"

definition conflict_error :: "string \<Rightarrow> string" where
  "conflict_error i =
     ''conflicting event_id `'' @ i @ ''` '' @ em_dash
     @ '' same id, different content (StateEventConflictError)''"

text \<open>The scan of the existing lines: \<open>None\<close>, no line has the id; otherwise whether the first such
  line has the same content.\<close>

fun scan_for :: "codec \<Rightarrow> string \<Rightarrow> string \<Rightarrow> string list \<Rightarrow> bool option" where
  "scan_for cd event_id fp [] = None"
| "scan_for cd event_id fp (l # ls) =
     (case cd_parse cd l of
        None \<Rightarrow> scan_for cd event_id fp ls
      | Some v \<Rightarrow>
          (if raw_event_id v \<noteq> event_id then scan_for cd event_id fp ls
           else Some (event_fingerprint cd v = fp)))"

text \<open>The new text of the file.\<close>

definition append_event_locked ::
  "codec \<Rightarrow> string \<Rightarrow> string \<Rightarrow> string \<Rightarrow> (string \<Rightarrow> string + unit) \<Rightarrow> string + string" where
  "append_event_locked cd existing line event_id validate =
     (case cd_parse cd line of
        None \<Rightarrow> Inl ''serialize event''
      | Some v \<Rightarrow>
          (case scan_for cd event_id (event_fingerprint cd v) (live_lines existing) of
             Some True \<Rightarrow> Inr existing
           | Some False \<Rightarrow> Inl (conflict_error event_id)
           | None \<Rightarrow>
               (case validate existing of
                  Inl err \<Rightarrow> Inl err
                | Inr _ \<Rightarrow> Inr (existing @ line))))"

section \<open>Reading the ledger\<close>

text \<open>The loop of \<open>parse_ledger\<close>: ids seen with their fingerprints, events kept, lines skipped.\<close>

fun parse_lines ::
  "codec \<Rightarrow> string \<Rightarrow> nat \<Rightarrow> string list \<Rightarrow> (string \<rightharpoonup> string) \<Rightarrow> stored_event list \<Rightarrow>
     (nat \<times> string) list \<Rightarrow> string + stored_event list \<times> (nat \<times> string) list" where
  "parse_lines cd from_v n [] seen out skipped = Inr (out, skipped)"
| "parse_lines cd from_v n (l # ls) seen out skipped =
     (case cd_parse cd l of
        None \<Rightarrow> Inl (''parse event line '' @ dec (n + 1))
      | Some v0 \<Rightarrow>
          (let v = migrate_event_line cd v0 from_v EVENT_STORE_SCHEMA_VERSION in
           case cd_typed cd v of
             Inl err \<Rightarrow>
               (case is_unknown_kind_error v err of
                  Some kind \<Rightarrow> parse_lines cd from_v (n + 1) ls seen out (skipped @ [(n + 1, kind)])
                | None \<Rightarrow> Inl (''parse event line '' @ dec (n + 1) @ '': '' @ err))
           | Inr s \<Rightarrow>
               (let i = effective_id cd s;
                    fp = event_fingerprint cd (cd_event_value cd (sd_event s)) in
                case seen i of
                  Some prior \<Rightarrow>
                    (if prior \<noteq> fp
                     then Inl (''conflicting event_id `'' @ i @ ''` at line '' @ dec (n + 1)
                               @ '' (StateEventConflictError)'')
                     else parse_lines cd from_v (n + 1) ls seen out skipped)
                | None \<Rightarrow> parse_lines cd from_v (n + 1) ls (seen(i \<mapsto> fp)) (out @ [s]) skipped)))"

definition parse_ledger :: "codec \<Rightarrow> string \<Rightarrow> string \<Rightarrow> string + stored_event list" where
  "parse_ledger cd from_v text =
     (case parse_lines cd from_v 0 (live_lines text) Map.empty [] [] of
        Inl err \<Rightarrow> Inl err
      | Inr (out, skipped) \<Rightarrow> Inr out)"

record ledger_report =
  lr_goal_id :: string
  lr_schema_version :: string
  lr_total_events :: usize
  lr_unique_events :: usize
  lr_idempotent_duplicates :: usize
  lr_legacy_lines_without_id :: usize
  lr_skipped_unknown_kinds :: usize
  lr_unknown_kinds :: "string list"
  lr_conflicts :: "string list"
  lr_ok :: bool

text \<open>The accumulators of \<open>verify_ledger\<close>.\<close>

record verify_acc =
  va_by_id :: "(string \<times> string) list"
  va_duplicates :: usize
  va_legacy :: usize
  va_conflicts :: "string list"
  va_total :: usize
  va_skipped :: usize
  va_kinds :: "string list"

definition note_unknown :: "codec \<Rightarrow> json \<Rightarrow> verify_acc \<Rightarrow> verify_acc" where
  "note_unknown cd v a =
     (case cd_typed cd v of
        Inr s \<Rightarrow> a
      | Inl err \<Rightarrow>
          (case is_unknown_kind_error v err of
             None \<Rightarrow> a
           | Some kind \<Rightarrow>
               a\<lparr>va_skipped := va_skipped a + 1,
                 va_kinds := (if kind \<in> set (va_kinds a) then va_kinds a else va_kinds a @ [kind])\<rparr>))"

definition note_id :: "string \<Rightarrow> string \<Rightarrow> verify_acc \<Rightarrow> verify_acc" where
  "note_id i fp a =
     (case map_of (va_by_id a) i of
        Some prior \<Rightarrow>
          (if prior = fp then a\<lparr>va_duplicates := va_duplicates a + 1\<rparr>
           else if i \<in> set (va_conflicts a) then a
           else a\<lparr>va_conflicts := va_conflicts a @ [i]\<rparr>)
      | None \<Rightarrow> a\<lparr>va_by_id := (i, fp) # va_by_id a\<rparr>)"

definition verify_step :: "codec \<Rightarrow> verify_acc \<Rightarrow> string \<Rightarrow> verify_acc" where
  "verify_step cd a0 l =
     (let a = a0\<lparr>va_total := va_total a0 + 1\<rparr> in
      case cd_parse cd l of
        None \<Rightarrow> a\<lparr>va_conflicts := va_conflicts a @ [''unparsable line'']\<rparr>
      | Some v \<Rightarrow>
          (let a1 = note_unknown cd v a in
           if raw_event_id v = []
           then note_id (derive_event_id_from_value cd v) (event_fingerprint cd v)
                  (a1\<lparr>va_legacy := va_legacy a1 + 1\<rparr>)
           else note_id (raw_event_id v) (event_fingerprint cd v) a1))"

definition verify_ledger :: "codec \<Rightarrow> string option \<Rightarrow> string \<Rightarrow> string \<Rightarrow> ledger_report" where
  "verify_ledger cd file gid schema =
     (let a = foldl (verify_step cd)
                \<lparr>va_by_id = [], va_duplicates = 0, va_legacy = 0, va_conflicts = [], va_total = 0,
                 va_skipped = 0, va_kinds = []\<rparr>
                (case file of None \<Rightarrow> [] | Some text \<Rightarrow> live_lines text)
      in \<lparr>lr_goal_id = gid, lr_schema_version = schema, lr_total_events = va_total a,
          lr_unique_events = length (va_by_id a), lr_idempotent_duplicates = va_duplicates a,
          lr_legacy_lines_without_id = va_legacy a, lr_skipped_unknown_kinds = va_skipped a,
          lr_unknown_kinds = sort (va_kinds a), lr_conflicts = va_conflicts a,
          lr_ok = (va_conflicts a = [])\<rparr>)"

section \<open>The store\<close>

record registry_entry =
  re_goal_id :: string
  re_objective :: string
  re_cwd :: string
  re_status :: string
  re_created_at :: u64

text \<open>The files of one goal directory the store reads and writes, \<open>None\<close> when absent.\<close>

record goal_files =
  gf_events :: "string option"
  gf_runs :: "string option"
  gf_next_action :: "string option"
  gf_next_action_stamp :: "string option"
  gf_schema :: "string option"

definition no_files :: goal_files where
  "no_files = \<lparr>gf_events = None, gf_runs = None, gf_next_action = None,
               gf_next_action_stamp = None, gf_schema = None\<rparr>"

record store =
  st_registry :: "registry_entry list"
  st_dirs :: "string \<rightharpoonup> goal_files"

definition goal_dir :: "store \<Rightarrow> string \<Rightarrow> goal_files" where
  "goal_dir st gid = (case st_dirs st (goal_path_segment gid) of None \<Rightarrow> no_files | Some f \<Rightarrow> f)"

definition set_goal_dir :: "string \<Rightarrow> goal_files \<Rightarrow> store \<Rightarrow> store" where
  "set_goal_dir gid f st = st\<lparr>st_dirs := (st_dirs st)(goal_path_segment gid \<mapsto> f)\<rparr>"

definition quoted :: "string \<Rightarrow> string" where
  "quoted s = [CHR 0x27] @ s @ [CHR 0x27]"

definition invalid_goal_id_error :: string where
  "invalid_goal_id_error =
     ''goal id must be a nonempty filename component (ASCII letters, digits, '' @ quoted ''.'' @ '', ''
     @ quoted ''_'' @ '' or '' @ quoted ''-'' @ '')''"

definition registered :: "store \<Rightarrow> string \<Rightarrow> bool" where
  "registered st gid \<longleftrightarrow> list_ex (\<lambda>r. re_goal_id r = gid) (st_registry st)"

definition registry_entry_of :: "store \<Rightarrow> string \<Rightarrow> registry_entry option" where
  "registry_entry_of st gid = find (\<lambda>r. re_goal_id r = gid) (st_registry st)"

definition register :: "guard_env \<Rightarrow> string \<Rightarrow> goal \<Rightarrow> store \<Rightarrow> string + store" where
  "register e current_dir g st =
     (if \<not> valid_goal_id (g_goal_id g) then Inl ''invalid goal id: must be a filename component''
      else if registered st (g_goal_id g) then Inr st
      else Inr (st\<lparr>st_registry := st_registry st @
             [\<lparr>re_goal_id = g_goal_id g, re_objective = g_objective g,
               re_cwd = normalize_workspace_path e current_dir (g_cwd g), re_status = ''active'',
               re_created_at = g_created_at g\<rparr>]\<rparr>))"

text \<open>\<open>goal_schema_version\<close>, with the tokens of the former product name mapped to the present ones.\<close>

definition goal_schema_version :: "codec \<Rightarrow> store \<Rightarrow> string \<Rightarrow> string option" where
  "goal_schema_version cd st gid =
     map_option
       (\<lambda>raw. if raw = ''loopx_event_store_v1'' then EVENT_STORE_SCHEMA_VERSION
              else if raw = ''loopx_event_store_v0'' then LEGACY_EVENT_STORE_SCHEMA_VERSION
              else raw)
       (Option.bind (Option.bind (gf_schema (goal_dir st gid)) (cd_parse cd))
          (str_field ''event_store_schema_version''))"

definition schema_or_legacy :: "codec \<Rightarrow> store \<Rightarrow> string \<Rightarrow> string" where
  "schema_or_legacy cd st gid =
     (case goal_schema_version cd st gid of
        None \<Rightarrow> LEGACY_EVENT_STORE_SCHEMA_VERSION | Some v \<Rightarrow> v)"

definition ensure_schema_stamp :: "codec \<Rightarrow> u64 \<Rightarrow> string \<Rightarrow> store \<Rightarrow> store" where
  "ensure_schema_stamp cd now gid st =
     (let f = goal_dir st gid in
      if gf_schema f \<noteq> None then st
      else set_goal_dir gid
             (f\<lparr>gf_schema := Some (cd_pretty cd
                  (JObj [(''created_at'', JNum (int now)),
                         (''event_store_schema_version'', JStr EVENT_STORE_SCHEMA_VERSION)])
                  @ [newline_char])\<rparr>) st)"

text \<open>Opening the events file for appending creates it.\<close>

definition open_events :: "string \<Rightarrow> store \<Rightarrow> string \<times> store" where
  "open_events gid st =
     (let f = goal_dir st gid in
      case gf_events f of
        Some text \<Rightarrow> (text, st)
      | None \<Rightarrow> ([], set_goal_dir gid (f\<lparr>gf_events := Some []\<rparr>) st))"

definition write_events :: "string \<Rightarrow> string \<Rightarrow> store \<Rightarrow> store" where
  "write_events gid text st = set_goal_dir gid ((goal_dir st gid)\<lparr>gf_events := Some text\<rparr>) st"

definition kernel_stored :: "codec \<Rightarrow> event \<Rightarrow> stored_event" where
  "kernel_stored cd ev =
     \<lparr>sd_event_id = derive_event_id cd ev, sd_producer = None, sd_source_ref = None,
      sd_source_section = None, sd_source_line = None, sd_privacy = None,
      sd_fencing_token = None, sd_event = ev\<rparr>"

definition line_of :: "codec \<Rightarrow> stored_event \<Rightarrow> string" where
  "line_of cd s = cd_line_text cd s @ [newline_char]"

text \<open>Append the line of a stored event under the lock, then stamp the schema.\<close>

definition append_stored ::
  "codec \<Rightarrow> u64 \<Rightarrow> string \<Rightarrow> stored_event \<Rightarrow> (string \<Rightarrow> string + unit) \<Rightarrow> store \<Rightarrow>
     (string + string) \<times> store" where
  "append_stored cd now gid s validate st =
     (case open_events gid st of
        (existing, st1) \<Rightarrow>
          (case append_event_locked cd existing (line_of cd s) (sd_event_id s) validate of
             Inl err \<Rightarrow> (Inl err, st1)
           | Inr text \<Rightarrow>
               (Inr (sd_event_id s), ensure_schema_stamp cd now gid (write_events gid text st1))))"

definition append_with_meta ::
  "codec \<Rightarrow> u64 \<Rightarrow> event \<Rightarrow> string option \<Rightarrow> string option \<Rightarrow> string option \<Rightarrow> string option \<Rightarrow>
     u64 option \<Rightarrow> string option \<Rightarrow> store \<Rightarrow> (string + string) \<times> store" where
  "append_with_meta cd now ev event_id producer src_ref src_section src_line privacy st =
     (let gid = ev_goal_id ev in
      if \<not> registered st gid
      then (Inl (''goal `'' @ gid @ ''` is not registered '' @ em_dash
                 @ '' register before appending events''), st)
      else if \<not> valid_goal_id gid then (Inl invalid_goal_id_error, st)
      else append_stored cd now gid
             \<lparr>sd_event_id = (case event_id of None \<Rightarrow> derive_event_id cd ev | Some i \<Rightarrow> i),
              sd_producer = producer, sd_source_ref = src_ref, sd_source_section = src_section,
              sd_source_line = src_line, sd_privacy = privacy, sd_fencing_token = None,
              sd_event = ev\<rparr> (\<lambda>_. Inr ()) st)"

definition store_append :: "codec \<Rightarrow> u64 \<Rightarrow> event \<Rightarrow> store \<Rightarrow> (string + string) \<times> store" where
  "store_append cd now ev st = append_with_meta cd now ev None None None None None None st"

text \<open>Fold a parsed ledger onto a fresh goal of a registry entry; \<open>None\<close> is a panic.\<close>

definition fold_ledger :: "u64 \<Rightarrow> registry_entry \<Rightarrow> stored_event list \<Rightarrow> goal option" where
  "fold_ledger now entry es =
     apply_all now (map sd_event es)
       (goal_new now (re_goal_id entry) (re_objective entry) (re_cwd entry))"

text \<open>A panic of the fold ends the surrounding call before it writes, as an error does.\<close>

definition panic_error :: string where
  "panic_error = ''panic''"

text \<open>The validation closure of \<open>append_todo_change\<close>.\<close>

definition validate_change ::
  "codec \<Rightarrow> u64 \<Rightarrow> registry_entry \<Rightarrow> string \<Rightarrow> event \<Rightarrow> string \<Rightarrow> string + unit" where
  "validate_change cd now entry from_v ev text =
     (case parse_ledger cd from_v text of
        Inl err \<Rightarrow> Inl err
      | Inr es \<Rightarrow>
          (case fold_ledger now entry es of
             None \<Rightarrow> Inl panic_error
           | Some g \<Rightarrow>
               (case (case ev_kind ev of
                        TodoAdded t \<Rightarrow> Inr (Some (t_id t))
                      | TodoUpdated tid u \<Rightarrow> Inr (if up_blocks u \<noteq> None then Some tid else None)
                      | _ \<Rightarrow> Inl ''expected a todo add/update event'') of
                  Inl err \<Rightarrow> Inl err
                | Inr changed \<Rightarrow>
                    (case apply_event now ev g of
                       None \<Rightarrow> Inl panic_error
                     | Some g' \<Rightarrow>
                         (case changed of
                            None \<Rightarrow> Inr ()
                          | Some tid \<Rightarrow> validate_dependency_change g' tid)))))"

definition append_todo_change :: "codec \<Rightarrow> u64 \<Rightarrow> event \<Rightarrow> store \<Rightarrow> (string + string) \<times> store" where
  "append_todo_change cd now ev st =
     (let gid = ev_goal_id ev in
      case registry_entry_of st gid of
        None \<Rightarrow> (Inl ''goal is not registered'', st)
      | Some entry \<Rightarrow>
          (if \<not> valid_goal_id gid then (Inl invalid_goal_id_error, st)
           else append_stored cd now gid (kernel_stored cd ev)
                  (validate_change cd now entry (schema_or_legacy cd st gid) ev) st))"

definition store_events :: "codec \<Rightarrow> string \<Rightarrow> store \<Rightarrow> string + stored_event list" where
  "store_events cd gid st =
     (case gf_events (goal_dir st gid) of
        None \<Rightarrow> Inr []
      | Some text \<Rightarrow> parse_ledger cd (schema_or_legacy cd st gid) text)"

definition store_verify :: "codec \<Rightarrow> string \<Rightarrow> store \<Rightarrow> ledger_report" where
  "store_verify cd gid st =
     verify_ledger cd (gf_events (goal_dir st gid)) gid (schema_or_legacy cd st gid)"

section \<open>Replay from the store\<close>

definition events_max_ts :: "stored_event list \<Rightarrow> u64 option" where
  "events_max_ts es =
     (let times = filter (\<lambda>ts. ts > 0) (map (\<lambda>s. ev_ts (sd_event s)) es) in
      if times = [] then None else Some (Max (set times)))"

text \<open>The run records a goal directory holds; unreadable lines are skipped.\<close>

definition runs_of :: "codec \<Rightarrow> goal_files \<Rightarrow> run_record list" where
  "runs_of cd f =
     (case gf_runs f of None \<Rightarrow> [] | Some text \<Rightarrow> List.map_filter (cd_run cd) (live_lines text))"

definition replay_store :: "codec \<Rightarrow> u64 \<Rightarrow> string \<Rightarrow> store \<Rightarrow> string + goal option" where
  "replay_store cd now gid st =
     (case registry_entry_of st gid of
        None \<Rightarrow> Inr None
      | Some entry \<Rightarrow>
          (case gf_events (goal_dir st gid) of
             None \<Rightarrow> Inr None
           | Some _ \<Rightarrow>
               (case store_events cd gid st of
                  Inl err \<Rightarrow> Inl err
                | Inr es \<Rightarrow>
                    (let g0 = goal_new now gid (re_objective entry) (re_cwd entry);
                         g1 = (if re_created_at entry > 0
                               then g0\<lparr>g_created_at := re_created_at entry\<rparr> else g0);
                         g2 = g1\<lparr>g_decision_freshness :=
                                   Some \<lparr>df_events_max_seq = length es,
                                         df_events_max_ts = events_max_ts es, df_read_at = now\<rparr>\<rparr>
                     in case apply_all now (map sd_event es) g2 of
                          None \<Rightarrow> Inl panic_error
                        | Some g3 \<Rightarrow>
                            (let f = goal_dir st gid;
                                 g4 = (case gf_next_action f of
                                         None \<Rightarrow> g3 | Some na \<Rightarrow> g3\<lparr>g_next_action := Some (trim na)\<rparr>)
                             in Inr (Some (g4\<lparr>g_history := g_history g4 @ runs_of cd f\<rparr>)))))))"

definition set_next_action :: "u64 \<Rightarrow> string \<Rightarrow> string \<Rightarrow> store \<Rightarrow> string + store" where
  "set_next_action now gid na st =
     (if \<not> valid_goal_id gid then Inl invalid_goal_id_error
      else Inr (set_goal_dir gid ((goal_dir st gid)
             \<lparr>gf_next_action := Some na, gf_next_action_stamp := Some (dec now)\<rparr>) st))"

definition append_run :: "codec \<Rightarrow> string \<Rightarrow> run_record \<Rightarrow> store \<Rightarrow> string + store" where
  "append_run cd gid r st =
     (if \<not> valid_goal_id gid then Inl invalid_goal_id_error
      else (let f = goal_dir st gid;
                old = (case gf_runs f of None \<Rightarrow> [] | Some text \<Rightarrow> text)
            in Inr (set_goal_dir gid
                      (f\<lparr>gf_runs := Some (old @ cd_run_text cd r @ [newline_char])\<rparr>) st)))"

definition delete_goal :: "string \<Rightarrow> store \<Rightarrow> string + store" where
  "delete_goal gid st =
     (let kept = filter (\<lambda>r. re_goal_id r \<noteq> gid) (st_registry st) in
      if length kept = length (st_registry st)
      then Inl (''goal `'' @ gid @ ''` not found in registry'')
      else Inr (st\<lparr>st_registry := kept, st_dirs := (st_dirs st)(goal_path_segment gid := None)\<rparr>))"

text \<open>A backup is the copy of the files; restoring overwrites those it holds, and drops a next-action
  stamp it does not hold.\<close>

definition backup_goal :: "string \<Rightarrow> store \<Rightarrow> string + goal_files" where
  "backup_goal gid st =
     (if gf_events (goal_dir st gid) = None
      then Inl (''goal '' @ gid @ '' has no state to back up'') else Inr (goal_dir st gid))"

definition restore_goal :: "string \<Rightarrow> string \<Rightarrow> goal_files \<Rightarrow> store \<Rightarrow> string + store" where
  "restore_goal gid backup_dir b st =
     (if gf_events b = None then Inl (''backup at '' @ backup_dir @ '' has no events.jsonl'')
      else if \<not> valid_goal_id gid then Inl invalid_goal_id_error
      else (let f = goal_dir st gid;
                pick = (\<lambda>new old. if new \<noteq> None then new else old)
            in Inr (set_goal_dir gid
                 \<lparr>gf_events = pick (gf_events b) (gf_events f),
                  gf_runs = pick (gf_runs b) (gf_runs f),
                  gf_next_action = pick (gf_next_action b) (gf_next_action f),
                  gf_next_action_stamp = gf_next_action_stamp b,
                  gf_schema = pick (gf_schema b) (gf_schema f)\<rparr> st)))"

section \<open>Lines of an appended text\<close>

text \<open>A ledger file is empty or ends with a newline.\<close>

definition terminated :: "string \<Rightarrow> bool" where
  "terminated text \<longleftrightarrow> text = [] \<or> last text = newline_char"

lemma split_on_middle: "split_on c (xs @ c # ys) = split_on c xs @ split_on c ys"
  by (induction xs) (auto split: list.splits)

lemma text_lines_append:
  assumes "terminated text" "newline_char \<notin> set l"
  shows "text_lines (text @ l @ [newline_char]) = text_lines text @ [strip_cr l]"
proof -
  have tail: "split_on newline_char (l @ [newline_char]) = [l, []]"
    using assms(2) split_on_middle [of newline_char l "[]"] by (simp add: split_on_no_sep)
  show ?thesis
  proof (cases "text = []")
    case True
    then show ?thesis using tail by (simp add: text_lines_def Let_def)
  next
    case False
    then obtain t0 where t0: "text = t0 @ [newline_char]"
      using assms(1) by (metis append_butlast_last_id terminated_def)
    have "split_on newline_char text = split_on newline_char t0 @ [[]]"
      using split_on_middle [of newline_char t0 "[]"] by (simp add: t0)
    moreover have "split_on newline_char (text @ l @ [newline_char])
        = split_on newline_char t0 @ [l, []]"
      using split_on_middle [of newline_char t0 "l @ [newline_char]"] tail by (simp add: t0)
    ultimately show ?thesis by (simp add: text_lines_def Let_def butlast_append)
  qed
qed

text \<open>What an append relies on: the line it writes is one non-blank line, and reading it back gives
  the event with its id and content.\<close>

definition content_of :: "codec \<Rightarrow> stored_event \<Rightarrow> string" where
  "content_of cd s = event_fingerprint cd (cd_event_value cd (sd_event s))"

definition reads_back :: "codec \<Rightarrow> stored_event \<Rightarrow> bool" where
  "reads_back cd s \<longleftrightarrow>
     newline_char \<notin> set (cd_line_text cd s) \<and> \<not> blank (cd_line_text cd s)
     \<and> strip_cr (cd_line_text cd s) = cd_line_text cd s
     \<and> sd_event_id s \<noteq> []
     \<and> (\<exists>v. cd_parse cd (cd_line_text cd s) = Some v \<and> cd_parse cd (line_of cd s) = Some v
            \<and> raw_event_id v = sd_event_id s \<and> event_fingerprint cd v = content_of cd s
            \<and> cd_typed cd v = Inr s)"

lemma live_lines_append:
  assumes "terminated text" "reads_back cd s"
  shows "live_lines (text @ line_of cd s) = live_lines text @ [cd_line_text cd s]"
    "terminated (text @ line_of cd s)"
  using assms text_lines_append [of "text" "cd_line_text cd s"]
  by (simp_all add: live_lines_def line_of_def reads_back_def terminated_def)

section \<open>What the reader keeps\<close>

definition seen_of :: "codec \<Rightarrow> stored_event list \<Rightarrow> string \<rightharpoonup> string" where
  "seen_of cd out i = map_option (content_of cd) (find (\<lambda>s. effective_id cd s = i) out)"

lemma seen_of_Nil [simp]: "seen_of cd [] = Map.empty"
  by (simp add: seen_of_def fun_eq_iff)

lemma seen_of_snoc:
  "seen_of cd out (effective_id cd s) = None \<Longrightarrow>
     seen_of cd (out @ [s]) = (seen_of cd out)(effective_id cd s \<mapsto> content_of cd s)"
  by (auto simp: seen_of_def fun_eq_iff find_append split: option.splits)

text \<open>What one line does to the events kept.\<close>

lemma parse_lines_append:
  "parse_lines cd f n (ls @ ls') (seen_of cd out) out sk
   = (case parse_lines cd f n ls (seen_of cd out) out sk of
        Inl err \<Rightarrow> Inl err
      | Inr (out', sk') \<Rightarrow> parse_lines cd f (n + length ls) ls' (seen_of cd out') out' sk')"
proof (induction ls arbitrary: n out sk)
  case (Cons l ls)
  have len: "n + length (l # ls) = n + 1 + length ls" by simp
  show ?case
  proof (cases "cd_parse cd l")
    case (Some v0)
    define v where "v = migrate_event_line cd v0 f EVENT_STORE_SCHEMA_VERSION"
    show ?thesis
    proof (cases "cd_typed cd v")
      case (Inl err)
      then show ?thesis
        using Some Cons.IH [of "n + 1", folded len] by (simp add: v_def split: option.split)
    next
      case (Inr s)
      have [simp]: "event_fingerprint cd (cd_event_value cd (sd_event s)) = content_of cd s"
        by (simp add: content_of_def)
      show ?thesis
      proof (cases "seen_of cd out (effective_id cd s)")
        case None
        have "(seen_of cd out)(effective_id cd s \<mapsto> content_of cd s) = seen_of cd (out @ [s])"
          using None by (simp add: seen_of_snoc)
        then show ?thesis
          using None Some Inr Cons.IH [of "n + 1" "out @ [s]", folded len]
          by (simp add: v_def Let_def)
      next
        case (Some fp)
        then show ?thesis
          using \<open>cd_parse cd l = Some v0\<close> Inr Cons.IH [of "n + 1", folded len] by (simp add: v_def Let_def)
      qed
    qed
  qed simp
qed simp

definition kept_wf :: "codec \<Rightarrow> stored_event list \<Rightarrow> bool" where
  "kept_wf cd out \<longleftrightarrow> distinct (map (effective_id cd) out)"

lemma seen_of_None: "seen_of cd out i = None \<longleftrightarrow> i \<notin> set (map (effective_id cd) out)"
  by (auto simp: seen_of_def find_None_iff)

lemma seen_of_member:
  "kept_wf cd out \<Longrightarrow> x \<in> set out \<Longrightarrow> seen_of cd out (effective_id cd x) = Some (content_of cd x)"
  by (induction out) (auto simp: seen_of_def kept_wf_def)

text \<open>The event a line reads as, when it does.\<close>

definition reads_as :: "codec \<Rightarrow> string \<Rightarrow> string \<Rightarrow> stored_event \<Rightarrow> bool" where
  "reads_as cd f l s \<longleftrightarrow>
     (\<exists>v. cd_parse cd l = Some v
          \<and> cd_typed cd (migrate_event_line cd v f EVENT_STORE_SCHEMA_VERSION) = Inr s)"

lemma parse_lines_kept:
  assumes "parse_lines cd f n ls (seen_of cd out) out sk = Inr (out', sk')" "kept_wf cd out"
  shows "kept_wf cd out' \<and> (\<exists>rest. out' = out @ rest \<and> (\<forall>s \<in> set rest. \<exists>l \<in> set ls. reads_as cd f l s))
    \<and> (\<forall>l \<in> set ls. \<forall>s. reads_as cd f l s \<longrightarrow> seen_of cd out' (effective_id cd s) = Some (content_of cd s))"
  using assms
proof (induction ls arbitrary: n out sk)
  case (Cons l ls)
  obtain v0 where v0: "cd_parse cd l = Some v0" using Cons.prems(1) by (auto split: option.splits)
  define v where "v = migrate_event_line cd v0 f EVENT_STORE_SCHEMA_VERSION"
  show ?case
  proof (cases "cd_typed cd v")
    case (Inl err)
    then obtain kind where "is_unknown_kind_error v err = Some kind"
      using Cons.prems(1) v0 by (auto simp: v_def split: option.splits)
    then have "parse_lines cd f (n + 1) ls (seen_of cd out) out (sk @ [(n + 1, kind)]) = Inr (out', sk')"
      using Cons.prems(1) v0 Inl by (simp add: v_def Let_def)
    moreover have "\<not> reads_as cd f l s" for s using v0 Inl by (simp add: reads_as_def v_def)
    ultimately show ?thesis using Cons.IH Cons.prems(2) by fastforce
  next
    case (Inr s)
    have fp: "event_fingerprint cd (cd_event_value cd (sd_event s)) = content_of cd s"
      by (simp add: content_of_def)
    have l: "reads_as cd f l s' \<longleftrightarrow> s' = s" for s' using v0 Inr by (auto simp: reads_as_def v_def)
    show ?thesis
    proof (cases "seen_of cd out (effective_id cd s)")
      case None
      then have "parse_lines cd f (n + 1) ls (seen_of cd (out @ [s])) (out @ [s]) sk = Inr (out', sk')"
        using Cons.prems(1) v0 Inr by (simp add: v_def Let_def seen_of_snoc fp)
      moreover have "kept_wf cd (out @ [s])"
        using Cons.prems(2) None by (auto simp: kept_wf_def seen_of_None)
      ultimately have IH: "kept_wf cd out'"
        "\<exists>rest. out' = (out @ [s]) @ rest \<and> (\<forall>x \<in> set rest. \<exists>l \<in> set ls. reads_as cd f l x)"
        "\<forall>l \<in> set ls. \<forall>x. reads_as cd f l x \<longrightarrow> seen_of cd out' (effective_id cd x) = Some (content_of cd x)"
        using Cons.IH by blast+
      then obtain rest where rest: "out' = out @ s # rest"
        "\<forall>x \<in> set rest. \<exists>l \<in> set ls. reads_as cd f l x" by auto
      have "seen_of cd out' (effective_id cd s) = Some (content_of cd s)"
        using None by (simp add: rest(1) seen_of_def find_append)
      then show ?thesis
        using IH(1,3) rest l by (intro conjI exI [of _ "s # rest"]) auto
    next
      case (Some fp0)
      then have "fp0 = content_of cd s"
        "parse_lines cd f (n + 1) ls (seen_of cd out) out sk = Inr (out', sk')"
        using Cons.prems(1) v0 Inr fp by (auto simp: v_def Let_def split: if_splits)
      with Cons.IH Cons.prems(2) have IH: "kept_wf cd out'"
        "\<exists>rest. out' = out @ rest \<and> (\<forall>x \<in> set rest. \<exists>l \<in> set ls. reads_as cd f l x)"
        "\<forall>l \<in> set ls. \<forall>x. reads_as cd f l x \<longrightarrow> seen_of cd out' (effective_id cd x) = Some (content_of cd x)"
        by blast+
      then obtain rest where rest: "out' = out @ rest"
        "\<forall>x \<in> set rest. \<exists>l \<in> set ls. reads_as cd f l x" by auto
      have "seen_of cd out' (effective_id cd s) = Some (content_of cd s)"
        using Some \<open>fp0 = _\<close> by (auto simp: rest(1) seen_of_def find_append)
      then show ?thesis using IH(1,3) rest l by (intro conjI exI [of _ rest]) auto
    qed
  qed
qed simp

text \<open>reading a ledger is exact: when it succeeds, the events have pairwise different ids, every one
  of them is read from a line of the file, and every line that reads as an event is represented by the
  event with its id, whose content is the same; so duplicates collapse and no two contents share an id.\<close>

theorem parse_ledger_exact:
  assumes "parse_ledger cd f text = Inr es"
  shows "distinct (map (effective_id cd) es)
    \<and> (\<forall>s \<in> set es. \<exists>l \<in> set (live_lines text). reads_as cd f l s)
    \<and> (\<forall>l \<in> set (live_lines text). \<forall>s. reads_as cd f l s \<longrightarrow>
         (\<exists>s' \<in> set es. effective_id cd s' = effective_id cd s \<and> content_of cd s' = content_of cd s))"
proof -
  obtain sk where "parse_lines cd f 0 (live_lines text) (seen_of cd []) [] [] = Inr (es, sk)"
    using assms by (auto simp: parse_ledger_def split: sum.splits prod.splits)
  from parse_lines_kept [OF this]
  have kept: "kept_wf cd es" "\<forall>s \<in> set es. \<exists>l \<in> set (live_lines text). reads_as cd f l s"
    "\<forall>l \<in> set (live_lines text). \<forall>s. reads_as cd f l s \<longrightarrow>
       seen_of cd es (effective_id cd s) = Some (content_of cd s)"
    by (auto simp: kept_wf_def)
  have "\<exists>s' \<in> set es. effective_id cd s' = effective_id cd s \<and> content_of cd s' = content_of cd s"
    if "l \<in> set (live_lines text)" "reads_as cd f l s" for l s
  proof -
    have "seen_of cd es (effective_id cd s) = Some (content_of cd s)" using kept(3) that by blast
    then obtain s' where "find (\<lambda>x. effective_id cd x = effective_id cd s) es = Some s'"
      "content_of cd s' = content_of cd s"
      by (auto simp: seen_of_def)
    then show ?thesis using find_SomeD by fastforce
  qed
  with kept(1,2) show ?thesis unfolding kept_wf_def by blast
qed

section \<open>Appending\<close>

definition carries_id :: "codec \<Rightarrow> string \<Rightarrow> string \<Rightarrow> bool" where
  "carries_id cd i l \<longleftrightarrow> (\<exists>v. cd_parse cd l = Some v \<and> raw_event_id v = i)"

lemma scan_for_None: "scan_for cd i fp ls = None \<longleftrightarrow> (\<forall>l \<in> set ls. \<not> carries_id cd i l)"
  by (induction ls) (auto simp: carries_id_def split: option.splits)

lemma scan_for_append:
  "scan_for cd i fp ls = None \<Longrightarrow> scan_for cd i fp (ls @ ls') = scan_for cd i fp ls'"
  by (induction ls) (auto split: option.splits)

lemma migrate_with_id:
  "raw_event_id v \<noteq> [] \<Longrightarrow> migrate_event_line cd v f EVENT_STORE_SCHEMA_VERSION = v"
  by (simp add: migrate_event_line_def applicable_steps_def migration_steps_def Let_def ensure_event_id_def)

lemma reads_as_line: "reads_back cd s \<Longrightarrow> reads_as cd f (cd_line_text cd s) s"
  by (auto simp: reads_back_def reads_as_def migrate_with_id)

lemma effective_id_line: "reads_back cd s \<Longrightarrow> effective_id cd s = sd_event_id s"
  by (simp add: reads_back_def effective_id_def)

text \<open>Reading one more line: a new event is added at the end, one already kept collapses.\<close>

lemma parse_ledger_snoc:
  assumes "reads_back cd s" "terminated text" "parse_ledger cd f text = Inr es"
    and "\<forall>x \<in> set es. effective_id cd x \<noteq> sd_event_id s"
  shows "parse_ledger cd f (text @ line_of cd s) = Inr (es @ [s])"
proof -
  obtain sk where sk: "parse_lines cd f 0 (live_lines text) (seen_of cd []) [] [] = Inr (es, sk)"
    using assms(3) by (auto simp: parse_ledger_def split: sum.splits prod.splits)
  have "seen_of cd es (effective_id cd s) = None"
    using assms(4) by (auto simp: seen_of_None effective_id_line [OF assms(1)])
  moreover obtain v where "cd_parse cd (cd_line_text cd s) = Some v"
    "cd_typed cd (migrate_event_line cd v f EVENT_STORE_SCHEMA_VERSION) = Inr s"
    using reads_as_line [OF assms(1)] by (auto simp: reads_as_def)
  ultimately have "parse_lines cd f 0 (live_lines text @ [cd_line_text cd s]) (seen_of cd []) [] []
      = Inr (es @ [s], sk)"
    using sk by (simp only: parse_lines_append) (simp add: Let_def)
  then show ?thesis
    by (simp add: parse_ledger_def live_lines_append [OF assms(2,1)])
qed

lemma parse_ledger_again:
  assumes "reads_back cd s" "terminated text" "parse_ledger cd f text = Inr es"
    and "x \<in> set es" "effective_id cd x = sd_event_id s" "content_of cd x = content_of cd s"
  shows "parse_ledger cd f (text @ line_of cd s) = Inr es"
proof -
  obtain sk where sk: "parse_lines cd f 0 (live_lines text) (seen_of cd []) [] [] = Inr (es, sk)"
    using assms(3) by (auto simp: parse_ledger_def split: sum.splits prod.splits)
  have "kept_wf cd es" using parse_lines_kept [OF sk] by (simp add: kept_wf_def)
  then have "seen_of cd es (effective_id cd s) = Some (content_of cd s)"
    using assms(4-6) seen_of_member [of cd es x] by (simp add: effective_id_line [OF assms(1)])
  moreover obtain v where "cd_parse cd (cd_line_text cd s) = Some v"
    "cd_typed cd (migrate_event_line cd v f EVENT_STORE_SCHEMA_VERSION) = Inr s"
    using reads_as_line [OF assms(1)] by (auto simp: reads_as_def)
  moreover have "event_fingerprint cd (cd_event_value cd (sd_event s)) = content_of cd s"
    by (simp add: content_of_def)
  ultimately have "parse_lines cd f 0 (live_lines text @ [cd_line_text cd s]) (seen_of cd []) [] []
      = Inr (es, sk)"
    using sk by (simp only: parse_lines_append) (simp add: Let_def)
  then show ?thesis
    by (simp add: parse_ledger_def live_lines_append [OF assms(2,1)])
qed

lemma append_fresh:
  assumes "reads_back cd s" "\<forall>l \<in> set (live_lines text). \<not> carries_id cd (sd_event_id s) l"
    "validate text = Inr ()"
  shows "append_event_locked cd text (line_of cd s) (sd_event_id s) validate = Inr (text @ line_of cd s)"
proof -
  obtain v where "cd_parse cd (line_of cd s) = Some v" using assms(1) by (auto simp: reads_back_def)
  moreover have "scan_for cd (sd_event_id s) fp (live_lines text) = None" for fp
    using assms(2) by (simp add: scan_for_None)
  ultimately show ?thesis using assms(3) by (simp add: append_event_locked_def)
qed

lemma append_again:
  assumes "reads_back cd s" "reads_back cd s'" "sd_event_id s' = sd_event_id s" "terminated text"
    "\<forall>l \<in> set (live_lines text). \<not> carries_id cd (sd_event_id s) l"
  shows "append_event_locked cd (text @ line_of cd s) (line_of cd s') (sd_event_id s') validate
         = (if content_of cd s' = content_of cd s then Inr (text @ line_of cd s)
            else Inl (conflict_error (sd_event_id s)))"
proof -
  obtain v where v: "cd_parse cd (cd_line_text cd s) = Some v" "raw_event_id v = sd_event_id s"
    "event_fingerprint cd v = content_of cd s"
    using assms(1) by (auto simp: reads_back_def)
  obtain v' where v': "cd_parse cd (line_of cd s') = Some v'" "event_fingerprint cd v' = content_of cd s'"
    using assms(2) by (auto simp: reads_back_def)
  have "scan_for cd (sd_event_id s) fp (live_lines (text @ line_of cd s))
        = Some (content_of cd s = fp)" for fp
    using assms(5) v by (simp add: live_lines_append [OF assms(4,1)] scan_for_append scan_for_None)
  then show ?thesis using v' assms(3) by (auto simp: append_event_locked_def)
qed

text \<open>C33: appending is exact: an event whose id no line carries is written as one more line, and reading
  the ledger then gives the same events and the new one at the end; appending any event under that id again
  changes nothing when the content is the same, whatever the provenance, and is refused as a conflict when it
  differs.\<close>

theorem append_reads_back:
  assumes "reads_back cd s" "terminated text"
    and "parse_ledger cd f text = Inr es"
    and "\<forall>l \<in> set (live_lines text). \<not> carries_id cd (sd_event_id s) l"
    and "\<forall>x \<in> set es. effective_id cd x \<noteq> sd_event_id s"
  shows "append_event_locked cd text (line_of cd s) (sd_event_id s) (\<lambda>_. Inr ())
           = Inr (text @ line_of cd s)
    \<and> parse_ledger cd f (text @ line_of cd s) = Inr (es @ [s])
    \<and> (\<forall>s' validate. reads_back cd s' \<and> sd_event_id s' = sd_event_id s \<longrightarrow>
         append_event_locked cd (text @ line_of cd s) (line_of cd s') (sd_event_id s') validate
         = (if content_of cd s' = content_of cd s then Inr (text @ line_of cd s)
            else Inl (conflict_error (sd_event_id s))))"
proof (intro conjI allI impI)
  show "append_event_locked cd text (line_of cd s) (sd_event_id s) (\<lambda>_. Inr ()) = Inr (text @ line_of cd s)"
    by (rule append_fresh [OF assms(1,4)]) simp
  show "parse_ledger cd f (text @ line_of cd s) = Inr (es @ [s])"
    by (rule parse_ledger_snoc [OF assms(1,2,3,5)])
  show "append_event_locked cd (text @ line_of cd s) (line_of cd s') (sd_event_id s') validate
      = (if content_of cd s' = content_of cd s then Inr (text @ line_of cd s)
         else Inl (conflict_error (sd_event_id s)))"
    if "reads_back cd s' \<and> sd_event_id s' = sd_event_id s" for s' validate
    using append_again [OF assms(1) _ _ assms(2,4)] that by blast
qed

text \<open>A codec for two versions of one event.\<close>

definition demo_stored :: "u64 \<Rightarrow> stored_event" where
  "demo_stored ts =
     \<lparr>sd_event_id = ''e1'', sd_producer = None, sd_source_ref = None, sd_source_section = None,
      sd_source_line = None, sd_privacy = None, sd_fencing_token = None,
      sd_event = \<lparr>ev_kind = GoalStarted, ev_goal_id = ''g'', ev_ts = ts\<rparr>\<rparr>"

definition demo_value :: "string \<Rightarrow> json option" where
  "demo_value l =
     (if l = ''a'' \<or> l = ''a'' @ [newline_char]
      then Some (JObj [(''event_id'', JStr ''e1''), (''ts'', JNum 5)])
      else if l = ''b'' \<or> l = ''b'' @ [newline_char]
      then Some (JObj [(''event_id'', JStr ''e1''), (''ts'', JNum 6)])
      else None)"

definition demo_ts :: "json \<Rightarrow> string" where
  "demo_ts v = (if get_field ''ts'' v = Some (JNum 5) then ''5'' else ''6'')"

definition demo_codec :: codec where
  "demo_codec =
     \<lparr>cd_event_text = (\<lambda>e. if ev_ts e = 5 then ''5'' else ''6''),
      cd_event_value = (\<lambda>e. JObj [(''ts'', JNum (int (ev_ts e)))]),
      cd_line_text = (\<lambda>s. if ev_ts (sd_event s) = 5 then ''a'' else ''b''),
      cd_value_text = demo_ts, cd_parse = demo_value,
      cd_typed = (\<lambda>v. Inr (demo_stored (if demo_ts v = ''5'' then 5 else 6))),
      cd_pretty = demo_ts, cd_run_text = (\<lambda>r. ''r''), cd_run = (\<lambda>l. None)\<rparr>"

lemma demo_reads_back: "ts \<in> {5, 6} \<Longrightarrow> reads_back demo_codec (demo_stored ts)"
  by (auto simp: reads_back_def demo_codec_def demo_stored_def demo_value_def newline_char_def
      line_of_def raw_event_id_def str_field_def content_of_def event_fingerprint_def demo_ts_def
      envelope_keys_def strip_cr_def blank_def trim_def is_continuation_def is_whitespace_def Let_def)

lemma append_reads_back_witness:
  "append_event_locked demo_codec (line_of demo_codec (demo_stored 5)) (line_of demo_codec (demo_stored 6))
     ''e1'' (\<lambda>_. Inr ()) = Inl (conflict_error ''e1'')"
proof -
  have "parse_ledger demo_codec f [] = Inr []" for f
    by (simp add: parse_ledger_def live_lines_def text_lines_def)
  moreover have "content_of demo_codec (demo_stored 6) \<noteq> content_of demo_codec (demo_stored 5)"
    by (simp add: content_of_def event_fingerprint_def demo_codec_def demo_stored_def demo_ts_def
        envelope_keys_def)
  moreover have "terminated []" "live_lines [] = []"
    by (simp_all add: terminated_def live_lines_def text_lines_def)
  moreover have "sd_event_id (demo_stored ts) = ''e1''" for ts by (simp add: demo_stored_def)
  ultimately show ?thesis
    using append_reads_back [of demo_codec "demo_stored 5" "[]" "[]"]
      demo_reads_back [of 5] demo_reads_back [of 6] by simp
qed

lemma parse_ledger_exact_witness:
  "distinct (map (effective_id demo_codec) [demo_stored 5])
   \<and> (\<exists>l \<in> set (live_lines (line_of demo_codec (demo_stored 5) @ line_of demo_codec (demo_stored 5))).
        reads_as demo_codec EVENT_STORE_SCHEMA_VERSION l (demo_stored 5))"
proof -
  have r: "reads_back demo_codec (demo_stored 5)" by (rule demo_reads_back) simp
  have "parse_ledger demo_codec EVENT_STORE_SCHEMA_VERSION [] = Inr []"
    by (simp add: parse_ledger_def live_lines_def text_lines_def)
  from parse_ledger_snoc [OF r _ this]
  have "parse_ledger demo_codec EVENT_STORE_SCHEMA_VERSION (line_of demo_codec (demo_stored 5))
      = Inr [demo_stored 5]"
    by (simp add: terminated_def)
  from parse_ledger_again [OF r _ this, of "demo_stored 5"]
  have "parse_ledger demo_codec EVENT_STORE_SCHEMA_VERSION
      (line_of demo_codec (demo_stored 5) @ line_of demo_codec (demo_stored 5)) = Inr [demo_stored 5]"
    by (simp add: terminated_def line_of_def effective_id_line [OF r])
  from parse_ledger_exact [OF this] show ?thesis by simp
qed

section \<open>Guarded todo changes\<close>

lemma via_new_edges:
  assumes "E' \<subseteq> E \<union> {e. fst e = v \<or> snd e = v}" "(x, y) \<in> E'\<^sup>+"
  shows "(x, y) \<in> E\<^sup>+ \<or> (x, v) \<in> E'\<^sup>* \<and> (v, y) \<in> E'\<^sup>*"
  using assms(2)
proof (induction rule: trancl_induct)
  case (base y)
  then have "(x, y) \<in> E \<or> x = v \<or> y = v" using assms(1) by auto
  with base show ?case by auto
next
  case (step y z)
  show ?case
  proof (cases "(y, z) \<in> E")
    case True
    with step show ?thesis by (meson rtrancl.rtrancl_into_rtrancl trancl.trancl_into_trancl)
  next
    case False
    then have "y = v \<or> z = v" using step.hyps(2) assms(1) by auto
    with step.hyps show ?thesis
      by (metis rtrancl.simps trancl_into_rtrancl)
  qed
qed

lemma acyclic_new_edges:
  assumes "acyclic E" "E' \<subseteq> E \<union> {e. fst e = v \<or> snd e = v}" "(v, v) \<notin> E'\<^sup>+"
  shows "acyclic E'"
proof (rule acyclicI, intro allI notI)
  fix x assume x: "(x, x) \<in> E'\<^sup>+"
  from via_new_edges [OF assms(2) this] have "(x, v) \<in> E'\<^sup>*" "(v, x) \<in> E'\<^sup>*"
    using assms(1) by (auto simp: acyclic_def)
  with x have "(v, v) \<in> E'\<^sup>+" by (meson rtrancl_trancl_trancl trancl_rtrancl_trancl)
  with assms(3) show False by simp
qed

lemma edges_touch: "e \<in> set (todo_edges t) \<Longrightarrow> fst e = t_id t \<or> snd e = t_id t"
  by (auto simp: todo_edges_def edge_of_def)

lemma edges_same:
  "t_id u = t_id t \<Longrightarrow> t_class u = t_class t \<Longrightarrow> t_blocked_by_gate u = t_blocked_by_gate t \<Longrightarrow>
     todo_edges u = todo_edges t"
  by (simp add: todo_edges_def edge_of_def [abs_def] is_blocking_source_def predecessor_ids_def)

lemma gate_of_patch_parts:
  "t_blocked_by_gate (patch_deferral ts at_ms rw t) = t_blocked_by_gate t"
  "t_blocked_by_gate (patch_status st t) = t_blocked_by_gate t"
  by (simp_all add: patch_deferral_def patch_status_def Let_def split: option.split)

lemma gate_of_patch:
  "up_blocks u = None \<Longrightarrow> t_blocked_by_gate (patch_todo ts u t) = t_blocked_by_gate t"
  by (simp add: patch_todo_def Let_def set_opt_frame [where h = t_blocked_by_gate]
      set_opt_def [of "None :: string list option"] gate_of_patch_parts)

lemma patch_ids: "t_id (patch_todo ts u t) = t_id t" "t_class (patch_todo ts u t) = t_class t"
  using identity_patch [of ts u t] by (simp_all add: identity_of_def)

lemma edges_update_first:
  "set (concat (map todo_edges (update_first (\<lambda>t. t_id t = i) (patch_todo ts u) xs)))
   \<subseteq> set (concat (map todo_edges xs)) \<union> {e. fst e = i \<or> snd e = i}"
proof (induction xs)
  case (Cons x xs)
  show ?case
  proof (cases "t_id x = i")
    case True
    have "set (todo_edges (patch_todo ts u x)) \<subseteq> {e. fst e = i \<or> snd e = i}"
      using edges_touch [of _ "patch_todo ts u x"] True by (auto simp: patch_ids)
    then show ?thesis using True by auto
  next
    case False
    then show ?thesis using Cons.IH by auto
  qed
qed simp

text \<open>The todo a change is validated on.\<close>

definition changed_todo :: "event_kind \<Rightarrow> string option" where
  "changed_todo k =
     (case k of
        TodoAdded t \<Rightarrow> Some (t_id t)
      | TodoUpdated tid u \<Rightarrow> if up_blocks u \<noteq> None then Some tid else None
      | _ \<Rightarrow> None)"

lemma edges_after_change:
  assumes "apply_kind now gid ts k g = Some g'" "(\<exists>t. k = TodoAdded t) \<or> (\<exists>i u. k = TodoUpdated i u)"
  shows "set (goal_edges g') \<subseteq> set (goal_edges g)
    \<union> (case changed_todo k of None \<Rightarrow> {} | Some i \<Rightarrow> {e. fst e = i \<or> snd e = i})"
  using assms(2)
proof (elim disjE exE)
  fix t assume k: "k = TodoAdded t"
  then have "goal_edges g' = goal_edges g @ todo_edges t"
    using assms(1) edges_same [of "t\<lparr>t_index := g_next_index g + 1\<rparr>" t]
    by (auto simp: apply_kind_def goal_edges_def todos_frames add_replayed_def)
  then show ?thesis using k edges_touch [of _ t] by (fastforce simp: changed_todo_def)
next
  fix i u assume k: "k = TodoUpdated i u"
  then have g': "goal_edges g' = concat (map todo_edges (update_first (\<lambda>t. t_id t = i) (patch_todo ts u) (g_todos g)))"
    using assms(1) by (auto simp: apply_kind_def goal_edges_def g_todos_on_todo)
  show ?thesis
  proof (cases "up_blocks u")
    case None
    then have "todo_edges (patch_todo ts u t) = todo_edges t" for t
      by (intro edges_same) (simp_all add: patch_ids gate_of_patch)
    then have "goal_edges g' = goal_edges g"
      unfolding g' by (simp add: map_update_first goal_edges_def)
    then show ?thesis by simp
  next
    case (Some b)
    have "set (goal_edges g') \<subseteq> set (goal_edges g) \<union> {e. fst e = i \<or> snd e = i}"
      using edges_update_first [of i ts u "g_todos g"] by (simp only: g' goal_edges_def [of g])
    with Some show ?thesis by (simp add: k changed_todo_def)
  qed
qed

lemma acyclic_after_change:
  assumes "apply_event now ev g = Some g'"
    and "(\<exists>t. ev_kind ev = TodoAdded t) \<or> (\<exists>i u. ev_kind ev = TodoUpdated i u)"
    and "case changed_todo (ev_kind ev) of None \<Rightarrow> True | Some tid \<Rightarrow> validate_dependency_change g' tid = Inr ()"
    and "acyclic (set (goal_edges g))"
  shows "acyclic (set (goal_edges g'))"
proof (cases "changed_todo (ev_kind ev)")
  case None
  then show ?thesis
    using edges_after_change [OF assms(1) [unfolded apply_event_def] assms(2)] acyclic_subset [OF assms(4)] by simp
next
  case (Some tid)
  then have "validate_dependency_change g' tid = Inr ()" using assms(3) by simp
  then have "\<not> cycle_search (goal_edges g') tid (rev (adjacent (goal_edges g') tid)) {}"
    by (auto simp: validate_dependency_change_def split: option.splits if_splits)
  then show ?thesis
    using edges_after_change [OF assms(1) [unfolded apply_event_def] assms(2)] Some
    by (intro acyclic_new_edges [OF assms(4)]) (auto simp: cycle_through_iff)
qed

lemma apply_all_append:
  "apply_all now (xs @ ys) g = Option.bind (apply_all now xs g) (apply_all now ys)"
  by (induction xs arbitrary: g) (auto split: option.splits)

lemma goal_dir_set [simp]: "goal_dir (set_goal_dir gid f st) gid = f"
  by (simp add: goal_dir_def set_goal_dir_def)

lemma goal_dir_other: "gid' \<noteq> gid \<Longrightarrow> goal_dir (set_goal_dir gid f st) gid' = goal_dir st gid'"
  using goal_path_segment_inj [of gid' gid] by (auto simp: goal_dir_def set_goal_dir_def)

lemma registry_set [simp]: "registry_entry_of (set_goal_dir gid f st) i = registry_entry_of st i"
  by (simp add: registry_entry_of_def set_goal_dir_def)

lemma registry_write [simp]:
  "registry_entry_of (write_events gid text st) i = registry_entry_of st i"
  "registry_entry_of (snd (open_events gid st)) i = registry_entry_of st i"
  by (simp_all add: write_events_def open_events_def Let_def split: option.split)

text \<open>The text an append or a claim works on.\<close>

definition events_text :: "string \<Rightarrow> store \<Rightarrow> string" where
  "events_text gid st = (case gf_events (goal_dir st gid) of None \<Rightarrow> [] | Some text \<Rightarrow> text)"

lemma open_events_text: "fst (open_events gid st) = events_text gid st"
  by (simp add: open_events_def events_text_def Let_def split: option.split)

lemma open_events_schema: "gf_schema (goal_dir (snd (open_events gid st)) gid) = gf_schema (goal_dir st gid)"
  by (simp add: open_events_def Let_def split: option.split)

lemma parse_ledger_empty [simp]: "parse_ledger cd f [] = Inr []"
  by (simp add: parse_ledger_def live_lines_def text_lines_def)

lemma store_events_text:
  "store_events cd gid st = parse_ledger cd (schema_or_legacy cd st gid) (events_text gid st)"
  by (simp add: store_events_def events_text_def split: option.split)

lemma schema_cong:
  "gf_schema (goal_dir st gid) = gf_schema (goal_dir st' gid) \<Longrightarrow>
     schema_or_legacy cd st gid = schema_or_legacy cd st' gid"
  by (simp add: schema_or_legacy_def goal_schema_version_def)

lemma store_events_written:
  "store_events cd gid (write_events gid text (snd (open_events gid st)))
   = parse_ledger cd (schema_or_legacy cd st gid) text"
proof -
  have "schema_or_legacy cd (write_events gid text (snd (open_events gid st))) gid
      = schema_or_legacy cd st gid"
    by (rule schema_cong) (simp add: write_events_def open_events_schema)
  then show ?thesis by (simp add: store_events_text) (simp add: events_text_def write_events_def)
qed

text \<open>C30: guarded changes keep the dependency graph acyclic: on a stamped goal whose todos have no
  dependency cycle, an accepted addition or update leaves a ledger that still reads, folds and has none,
  whether it was written or recognised as a repetition; the written line reads back, the ledger file
  ends in a newline and the id of the event is new.\<close>

theorem todo_changes_stay_acyclic:
  assumes "append_todo_change cd now ev st = (Inr i, st')"
    and "registry_entry_of st (ev_goal_id ev) = Some entry"
    and "store_events cd (ev_goal_id ev) st = Inr es" "fold_ledger now entry es = Some g"
    and "acyclic (set (goal_edges g))"
    and "reads_back cd (kernel_stored cd ev)" "terminated (events_text (ev_goal_id ev) st)"
    and "gf_schema (goal_dir st (ev_goal_id ev)) \<noteq> None"
    and "\<forall>x \<in> set es. effective_id cd x \<noteq> derive_event_id cd ev"
  shows "\<exists>es' g'. store_events cd (ev_goal_id ev) st' = Inr es' \<and> fold_ledger now entry es' = Some g'
    \<and> acyclic (set (goal_edges g'))"
proof -
  define gid where "gid = ev_goal_id ev"
  define s where "s = kernel_stored cd ev"
  define text0 where "text0 = events_text gid st"
  define st1 where "st1 = snd (open_events gid st)"
  define f where "f = schema_or_legacy cd st gid"
  have op: "open_events gid st = (text0, st1)"
    by (simp add: text0_def st1_def open_events_text [symmetric])
  have sd: "sd_event_id s = derive_event_id cd ev" "sd_event s = ev"
    by (simp_all add: s_def kernel_stored_def)
  obtain text1 where text1:
    "append_event_locked cd text0 (line_of cd s) (sd_event_id s) (validate_change cd now entry f ev) = Inr text1"
    "st' = ensure_schema_stamp cd now gid (write_events gid text1 st1)"
    using assms(1,2)
    by (auto simp: append_todo_change_def append_stored_def Let_def op s_def [symmetric]
        gid_def [symmetric] f_def [symmetric] split: if_splits sum.splits)
  have "gf_schema (goal_dir (write_events gid text1 st1) gid) \<noteq> None"
    using assms(8) by (simp add: write_events_def st1_def open_events_schema gid_def)
  then have "st' = write_events gid text1 st1"
    by (simp add: text1(2) ensure_schema_stamp_def Let_def)
  then have read: "store_events cd gid st' = parse_ledger cd f text1"
    by (simp add: st1_def store_events_written f_def)
  have es: "parse_ledger cd f text0 = Inr es"
    using assms(3) by (simp add: store_events_text gid_def f_def text0_def)
  obtain v where v: "cd_parse cd (line_of cd s) = Some v" using assms(6) by (auto simp: reads_back_def s_def)
  show ?thesis
  proof (cases "scan_for cd (sd_event_id s) (event_fingerprint cd v) (live_lines text0)")
    case (Some same)
    then have "text1 = text0" using text1(1) v by (auto simp: append_event_locked_def split: bool.splits)
    then show ?thesis using read es assms(4,5) by (auto simp: gid_def)
  next
    case None
    then have val: "validate_change cd now entry f ev text0 = Inr ()" "text1 = text0 @ line_of cd s"
      using text1(1) v by (auto simp: append_event_locked_def split: sum.splits)
    then obtain g' where g': "apply_event now ev g = Some g'"
      "(\<exists>t. ev_kind ev = TodoAdded t) \<or> (\<exists>i u. ev_kind ev = TodoUpdated i u)"
      "case changed_todo (ev_kind ev) of None \<Rightarrow> True | Some tid \<Rightarrow> validate_dependency_change g' tid = Inr ()"
      using es assms(4)
      by (auto simp: validate_change_def changed_todo_def split: sum.splits option.splits event_kind.splits if_splits)
    have "parse_ledger cd f (text0 @ line_of cd s) = Inr (es @ [s])"
      using assms(6,7,9) es by (intro parse_ledger_snoc) (simp_all add: s_def gid_def text0_def sd kernel_stored_def)
    then have "store_events cd gid st' = Inr (es @ [s])" using read val(2) by simp
    moreover have "fold_ledger now entry (es @ [s]) = Some g'"
      using assms(4) g'(1) by (simp add: fold_ledger_def apply_all_append sd)
    moreover have "acyclic (set (goal_edges g'))"
      using acyclic_after_change [OF g' assms(5)] .
    ultimately show ?thesis by (auto simp: gid_def)
  qed
qed

text \<open>A codec for a table of events, each written as one letter.\<close>

definition table_event :: "string \<Rightarrow> event option" where
  "table_event l =
     (if l = ''t'' then Some \<lparr>ev_kind = TodoAdded (advancement 0 ''T1'' ''w''), ev_goal_id = ''g'', ev_ts = 4\<rparr>
      else if l = ''a'' then Some \<lparr>ev_kind = TodoClaimed ''T1'' ''ann'' 65 None, ev_goal_id = ''g'', ev_ts = 5\<rparr>
      else if l = ''r'' then Some \<lparr>ev_kind = TodoReleased ''T1'' ''ann'', ev_goal_id = ''g'', ev_ts = 5\<rparr>
      else None)"

definition table_label :: "event \<Rightarrow> string" where
  "table_label ev =
     (case ev_kind ev of TodoAdded t \<Rightarrow> ''t'' | TodoClaimed i a x p \<Rightarrow> ''a'' | TodoReleased i a \<Rightarrow> ''r'' | _ \<Rightarrow> ''x'')"

definition table_value :: "string \<Rightarrow> json option" where
  "table_value l =
     (let k = takeWhile (\<lambda>c. c \<noteq> newline_char) l in
      case table_event k of
        None \<Rightarrow> None
      | Some ev \<Rightarrow> Some (JObj [(''event_id'', JStr (''evt-'' @ take 16 (content_digest k))), (''kind'', JStr k)]))"

definition table_kind :: "json \<Rightarrow> string" where
  "table_kind v = (case str_field ''kind'' v of None \<Rightarrow> [] | Some k \<Rightarrow> k)"

definition table_typed :: "json \<Rightarrow> string + stored_event" where
  "table_typed v =
     (case table_event (table_kind v) of
        None \<Rightarrow> Inl ''unknown''
      | Some ev \<Rightarrow> Inr \<lparr>sd_event_id = raw_event_id v, sd_producer = None, sd_source_ref = None,
                         sd_source_section = None, sd_source_line = None, sd_privacy = None,
                         sd_fencing_token = None, sd_event = ev\<rparr>)"

definition table_codec :: codec where
  "table_codec =
     \<lparr>cd_event_text = table_label, cd_event_value = (\<lambda>e. JObj [(''kind'', JStr (table_label e))]),
      cd_line_text = (\<lambda>s. table_label (sd_event s)), cd_value_text = table_kind, cd_parse = table_value,
      cd_typed = table_typed, cd_pretty = table_kind, cd_run_text = (\<lambda>r. ''r''), cd_run = (\<lambda>l. None)\<rparr>"

definition demo_add :: event where
  "demo_add = the (table_event ''t'')"

lemma table_labels: "table_event l = Some ev \<Longrightarrow> table_label ev = l"
  by (auto simp: table_event_def table_label_def split: if_splits)

lemma table_label_plain:
  "table_event l = Some ev \<Longrightarrow> takeWhile (\<lambda>c. c \<noteq> newline_char) (l @ [newline_char]) = l
     \<and> takeWhile (\<lambda>c. c \<noteq> newline_char) l = l \<and> newline_char \<notin> set l \<and> \<not> blank l \<and> strip_cr l = l"
  by (auto simp: table_event_def newline_char_def strip_cr_def blank_def trim_def is_continuation_def
      is_whitespace_def Let_def split: if_splits)

lemma table_reads_back:
  assumes "table_event l = Some ev"
  shows "reads_back table_codec (kernel_stored table_codec ev)"
proof -
  have tw: "takeWhile (\<lambda>c. c \<noteq> newline_char) l = l" using table_label_plain [OF assms] by blast
  show ?thesis
  using assms table_labels [OF assms] table_label_plain [OF assms]
  by (simp del: takeWhile_eq_all_conv add: tw reads_back_def table_codec_def kernel_stored_def line_of_def table_value_def Let_def
      raw_event_id_def str_field_def content_of_def event_fingerprint_def table_kind_def
      envelope_keys_def table_typed_def derive_event_id_def)
qed

definition demo_store :: store where
  "demo_store =
     \<lparr>st_registry = [\<lparr>re_goal_id = ''g'', re_objective = ''o'', re_cwd = ''/r'', re_status = ''active'',
                       re_created_at = 1\<rparr>],
      st_dirs = (\<lambda>d. if d = ''g'' then Some (no_files\<lparr>gf_schema := Some ''t''\<rparr>) else None)\<rparr>"

lemma demo_dir: "goal_dir demo_store ''g'' = no_files\<lparr>gf_schema := Some ''t''\<rparr>"
proof -
  have "goal_path_segment ''g'' = ''g''" by code_simp
  then show ?thesis by (simp add: goal_dir_def demo_store_def)
qed

lemma todo_changes_stay_acyclic_witness:
  "\<exists>i st'. append_todo_change table_codec 9 demo_add demo_store = (Inr i, st')
     \<and> (\<exists>es' g'. store_events table_codec ''g'' st' = Inr es'
          \<and> fold_ledger 9 (hd (st_registry demo_store)) es' = Some g' \<and> acyclic (set (goal_edges g')))"
proof -
  define entry where "entry = hd (st_registry demo_store)"
  have add: "table_event ''t'' = Some demo_add" "ev_goal_id demo_add = ''g''"
    by (simp_all add: demo_add_def table_event_def)
  have entry: "registry_entry_of demo_store ''g'' = Some entry"
    by (simp add: registry_entry_of_def demo_store_def entry_def)
  have empty: "events_text ''g'' demo_store = []" "terminated []" "live_lines [] = []"
    by (simp_all add: events_text_def demo_dir no_files_def terminated_def live_lines_def text_lines_def)
  then have es: "store_events table_codec ''g'' demo_store = Inr []" by (simp add: store_events_text)
  obtain g where g: "fold_ledger 9 entry [] = Some g" "acyclic (set (goal_edges g))"
    by (simp add: fold_ledger_def goal_edges_def goal_new_def acyclic_def)
  have val: "validate_change table_codec 9 entry f demo_add [] = Inr ()" for f
    by code_simp
  have "append_event_locked table_codec [] (line_of table_codec (kernel_stored table_codec demo_add))
      (sd_event_id (kernel_stored table_codec demo_add)) (validate_change table_codec 9 entry f demo_add)
      = Inr ([] @ line_of table_codec (kernel_stored table_codec demo_add))" for f
    by (rule append_fresh [OF table_reads_back [OF add(1)]]) (simp_all add: empty val)
  moreover obtain st1 where "open_events ''g'' demo_store = ([], st1)"
    using open_events_text [of "''g''" demo_store] empty(1) by (cases "open_events ''g'' demo_store") simp
  ultimately obtain i st' where r: "append_todo_change table_codec 9 demo_add demo_store = (Inr i, st')"
    using entry by (simp add: append_todo_change_def append_stored_def Let_def add(2) valid_goal_id_def
        is_ascii_alphanumeric_def)
  have "\<exists>es' g'. store_events table_codec ''g'' st' = Inr es' \<and> fold_ledger 9 entry es' = Some g'
      \<and> acyclic (set (goal_edges g'))"
    using todo_changes_stay_acyclic [OF r] entry es g empty table_reads_back [OF add(1)] add(2)
    by (simp add: demo_dir)
  then show ?thesis using r by (auto simp: entry_def)
qed

end
