(* ===== verification/Task_Lease.thy ===== *)
theory Task_Lease
  imports Goal_State
begin

text \<open>
  The lease state machine of \<open>orchestration/goal/src/work_items/task_lease.rs\<close> and the older
  claim of \<open>Todo::claim\<close> (\<open>state.rs\<close>): claim, renew, release, expire. A \<open>Result<T>\<close> is
  \<open>string + 'a\<close>; a call on \<open>&mut Todo\<close> returns the new todo with its value, and an error
  leaves the todo as it was. \<open>alive\<close> is the process probe, \<open>pid\<close> the caller's process id.

  The locale \<open>exclusive_lease\<close> states what a caller relies on when several agents race for one
  slice; both claims (and the ledger claim of theory \<open>Ledger\<close>) are interpretations of it.
\<close>

section \<open>Definitions\<close>

definition DEFAULT_TASK_LEASE_TTL_SECONDS :: u64 where
  "DEFAULT_TASK_LEASE_TTL_SECONDS = 45 * 60"

definition MAX_TASK_LEASE_TTL_SECONDS :: u64 where
  "MAX_TASK_LEASE_TTL_SECONDS = 24 * 60 * 60"

datatype lease_status =
    Free
  | Active (lease_owner: string) (lease_expiry: u64)
  | Expired (lease_owner: string) (lease_expiry: u64)

definition lease_status_of :: "todo \<Rightarrow> u64 \<Rightarrow> lease_status" where
  "lease_status_of t now =
     (case (t_claimed_by t, t_lease_expires_at t) of
        (Some owner, Some expires) \<Rightarrow>
          (if expires > now then Active owner expires else Expired owner expires)
      | _ \<Rightarrow> Free)"

definition lease_is_active :: "todo \<Rightarrow> u64 \<Rightarrow> bool" where
  "lease_is_active t now \<longleftrightarrow> (case lease_status_of t now of Active _ _ \<Rightarrow> True | _ \<Rightarrow> False)"

definition normalize_ttl :: "u64 \<Rightarrow> string + u64" where
  "normalize_ttl ttl_seconds =
     (let ttl = (if ttl_seconds = 0 then DEFAULT_TASK_LEASE_TTL_SECONDS else ttl_seconds) in
      if ttl > MAX_TASK_LEASE_TTL_SECONDS
      then Inl (''ttl seconds must be between 1 and '' @ dec MAX_TASK_LEASE_TTL_SECONDS)
      else Inr ttl)"

record claim_outcome =
  co_idempotent :: bool
  co_steal :: bool

datatype lease_op = Renewed | Released (released_missing: bool) | ExpiredOp (had_lease: bool)

text \<open>The four assignments of a fresh claim.\<close>

definition take_lease :: "string \<Rightarrow> u64 \<Rightarrow> u32 \<Rightarrow> u64 \<Rightarrow> todo \<Rightarrow> todo" where
  "take_lease agent ttl pid now t =
     t\<lparr>t_claimed_by := Some agent, t_lease_expires_at := Some (now + ttl),
       t_holder_pid := Some pid, t_updated_at := now\<rparr>"

definition lease_claim ::
  "(u32 \<Rightarrow> bool) \<Rightarrow> u32 \<Rightarrow> string \<Rightarrow> u64 \<Rightarrow> u64 \<Rightarrow> todo \<Rightarrow> string + claim_outcome \<times> todo" where
  "lease_claim alive pid agent lease_secs now t =
     (if t_status t \<noteq> Open then Inl ''task lease requires an open todo''
      else case normalize_ttl lease_secs of
        Inl err \<Rightarrow> Inl err
      | Inr ttl \<Rightarrow>
          (case lease_status_of t now of
             Active owner _ \<Rightarrow>
               (if owner = agent then Inr (\<lparr>co_idempotent = True, co_steal = False\<rparr>, t)
                else case t_holder_pid t of
                       Some p \<Rightarrow>
                         (if \<not> alive p
                          then Inr (\<lparr>co_idempotent = False, co_steal = True\<rparr>,
                                    take_lease agent ttl pid now t)
                          else Inl ''todo already has an active lease held by another agent'')
                     | None \<Rightarrow> Inl ''todo already has an active lease held by another agent'')
           | Free \<Rightarrow>
               Inr (\<lparr>co_idempotent = False, co_steal = False\<rparr>, take_lease agent ttl pid now t)
           | Expired _ _ \<Rightarrow>
               Inr (\<lparr>co_idempotent = False, co_steal = True\<rparr>, take_lease agent ttl pid now t)))"

definition lease_renew :: "string \<Rightarrow> u64 \<Rightarrow> u64 \<Rightarrow> todo \<Rightarrow> string + lease_op \<times> todo" where
  "lease_renew agent lease_secs now t =
     (case normalize_ttl lease_secs of
        Inl err \<Rightarrow> Inl err
      | Inr ttl \<Rightarrow>
          (case lease_status_of t now of
             Active owner _ \<Rightarrow>
               (if owner = agent
                then Inr (Renewed,
                          t\<lparr>t_lease_expires_at := Some (now + ttl), t_updated_at := now\<rparr>)
                else Inl ''lease owner mismatch'')
           | _ \<Rightarrow> Inl ''lease is missing or expired''))"

definition drop_lease :: "u64 \<Rightarrow> todo \<Rightarrow> todo" where
  "drop_lease now t =
     t\<lparr>t_claimed_by := None, t_lease_expires_at := None, t_updated_at := now\<rparr>"

definition lease_release :: "string \<Rightarrow> u64 \<Rightarrow> todo \<Rightarrow> string + lease_op \<times> todo" where
  "lease_release agent now t =
     (case lease_status_of t now of
        Active owner _ \<Rightarrow>
          (if owner = agent then Inr (Released False, drop_lease now t)
           else Inl ''lease owner mismatch'')
      | Free \<Rightarrow> Inr (Released True, t)
      | Expired _ _ \<Rightarrow> Inr (Released True, t))"

definition lease_expire :: "u64 \<Rightarrow> todo \<Rightarrow> string + lease_op \<times> todo" where
  "lease_expire now t =
     (case lease_status_of t now of
        Expired _ _ \<Rightarrow> Inr (ExpiredOp True, drop_lease now t)
      | Free \<Rightarrow> Inr (ExpiredOp False, t)
      | Active _ _ \<Rightarrow> Inl ''lease is still active'')"

definition dead_holder_todos :: "(u32 \<Rightarrow> bool) \<Rightarrow> goal \<Rightarrow> todo list" where
  "dead_holder_todos alive g =
     filter (\<lambda>t. t_status t = Open \<and> t_claimed_by t \<noteq> None
                 \<and> (case t_holder_pid t of None \<Rightarrow> False | Some p \<Rightarrow> \<not> alive p)) (g_todos g)"

section \<open>The interface of an exclusive lease\<close>

text \<open>\<open>acquire a s\<close> is an attempt of agent \<open>a\<close> (\<open>None\<close>: refused); \<open>protected a s\<close>: \<open>a\<close> holds a
  live lease whose holder is not known dead.\<close>

locale exclusive_lease =
  fixes acquire :: "'a \<Rightarrow> 's \<Rightarrow> 's option"
    and protected :: "'a \<Rightarrow> 's \<Rightarrow> bool"
  assumes refuse: "protected a s \<Longrightarrow> b \<noteq> a \<Longrightarrow> acquire b s = None"
    and keep: "protected a s \<Longrightarrow> acquire a s = Some s' \<Longrightarrow> protected a s'"
begin

text \<open>The agents that win in a race of attempts, in order, and the final state.\<close>

fun race :: "'a list \<Rightarrow> 's \<Rightarrow> 'a list \<times> 's" where
  "race [] s = ([], s)"
| "race (a # as) s =
     (case acquire a s of
        None \<Rightarrow> race as s
      | Some s' \<Rightarrow> (case race as s' of (ws, s'') \<Rightarrow> (a # ws, s'')))"

lemma race_protected:
  "protected a s \<Longrightarrow> set (fst (race bs s)) \<subseteq> {a} \<and> protected a (snd (race bs s))"
proof (induction bs arbitrary: s)
  case Nil
  then show ?case by simp
next
  case (Cons b bs)
  show ?case
  proof (cases "acquire b s")
    case None
    with Cons show ?thesis by simp
  next
    case (Some s')
    with Cons.prems refuse have "b = a" by force
    with Some Cons.prems keep have "protected a s'" by blast
    from Cons.IH [OF this] Some \<open>b = a\<close> show ?thesis by (auto split: prod.split)
  qed
qed

lemma protected_unique: "protected a s \<Longrightarrow> protected b s \<Longrightarrow> acquire a s \<noteq> None \<Longrightarrow> a = b"
  using refuse by force

end

text \<open>A lease that also protects whoever acquires it from a state where the grant is not stale.\<close>

locale granting_lease = exclusive_lease acquire protected
  for acquire :: "'a \<Rightarrow> 's \<Rightarrow> 's option" and protected :: "'a \<Rightarrow> 's \<Rightarrow> bool" +
  fixes stale :: "'a \<Rightarrow> 's \<Rightarrow> bool"
  assumes grant: "acquire a s = Some s' \<Longrightarrow> \<not> stale a s \<Longrightarrow> protected a s'"
begin

lemma race_single_winner:
  assumes "\<forall>a. \<not> stale a s"
  shows "\<exists>a. set (fst (race bs s)) \<subseteq> {a}"
  using assms
proof (induction bs)
  case Nil
  then show ?case by simp
next
  case (Cons b bs)
  show ?case
  proof (cases "acquire b s")
    case None
    with Cons show ?thesis by simp
  next
    case (Some s')
    with grant Cons.prems have "protected b s'" by blast
    from race_protected [OF this, of bs] Some show ?thesis
      by (auto split: prod.split)
  qed
qed

end

section \<open>Both claims provide it\<close>

definition lease_protected :: "(u32 \<Rightarrow> bool) \<Rightarrow> u64 \<Rightarrow> string \<Rightarrow> todo \<Rightarrow> bool" where
  "lease_protected alive now agent t \<longleftrightarrow>
     (case lease_status_of t now of
        Active owner _ \<Rightarrow> owner = agent
      | _ \<Rightarrow> False)
     \<and> (case t_holder_pid t of None \<Rightarrow> True | Some p \<Rightarrow> alive p)"

lemma lease_status_Active [kernel_simps]:
  "lease_status_of t now = Active a x \<longleftrightarrow>
     t_claimed_by t = Some a \<and> t_lease_expires_at t = Some x \<and> now < x"
  by (auto simp: lease_status_of_def split: option.splits)

lemma lease_status_Expired [kernel_simps]:
  "lease_status_of t now = Expired a x \<longleftrightarrow>
     t_claimed_by t = Some a \<and> t_lease_expires_at t = Some x \<and> x \<le> now"
  by (auto simp: lease_status_of_def split: option.splits)

lemma lease_status_Free [kernel_simps]:
  "lease_status_of t now = Free \<longleftrightarrow> t_claimed_by t = None \<or> t_lease_expires_at t = None"
  by (auto simp: lease_status_of_def split: option.splits)

lemma lease_protected_iff:
  "lease_protected alive now a t \<longleftrightarrow>
     t_claimed_by t = Some a \<and> (\<exists>x > now. t_lease_expires_at t = Some x)
     \<and> (case t_holder_pid t of None \<Rightarrow> True | Some p \<Rightarrow> alive p)"
  by (auto simp: lease_protected_def lease_status_of_def split: option.splits)

lemma normalize_ttl_bounds:
  "normalize_ttl s = Inr ttl \<Longrightarrow> 0 < ttl \<and> ttl \<le> MAX_TASK_LEASE_TTL_SECONDS"
  by (auto simp: normalize_ttl_def DEFAULT_TASK_LEASE_TTL_SECONDS_def Let_def
      MAX_TASK_LEASE_TTL_SECONDS_def split: if_splits)

definition sum_state :: "'e + 'a \<times> 's \<Rightarrow> 's option" where
  "sum_state r = (case r of Inl _ \<Rightarrow> None | Inr (_, s) \<Rightarrow> Some s)"

lemma take_lease_fields [simp]:
  "t_claimed_by (take_lease a ttl pid now t) = Some a"
  "t_lease_expires_at (take_lease a ttl pid now t) = Some (now + ttl)"
  "t_holder_pid (take_lease a ttl pid now t) = Some pid"
  "t_status (take_lease a ttl pid now t) = t_status t"
  by (simp_all add: take_lease_def)

lemma lease_claim_cases:
  assumes "lease_claim alive pid agent secs now t = Inr (oc, t')"
  obtains ttl where "normalize_ttl secs = Inr ttl" "t_status t = Open"
    "t' = t \<and> co_idempotent oc \<and> (\<exists>x. lease_status_of t now = Active agent x)
     \<or> t' = take_lease agent ttl pid now t \<and> \<not> co_idempotent oc
       \<and> (\<forall>b x. lease_status_of t now = Active b x \<longrightarrow>
            b \<noteq> agent \<and> (\<exists>p. t_holder_pid t = Some p \<and> \<not> alive p))"
  using assms
  by (auto simp: lease_claim_def split: if_splits sum.splits lease_status.splits option.splits)

interpretation tl: exclusive_lease
  "\<lambda>agent t. sum_state (lease_claim alive pid agent secs now t)"
  "lease_protected alive now"
  for alive pid secs now
proof
  fix a b t
  assume "lease_protected alive now a t" "b \<noteq> a"
  then show "sum_state (lease_claim alive pid b secs now t) = None"
    by (auto simp: lease_protected_iff lease_claim_def sum_state_def lease_status_of_def
        split: sum.split option.split)
next
  fix a t t'
  assume "lease_protected alive now a t"
    and "sum_state (lease_claim alive pid a secs now t) = Some t'"
  then show "lease_protected alive now a t'"
    by (auto simp: lease_protected_iff lease_claim_def sum_state_def lease_status_of_def
        split: sum.splits option.splits if_splits)
qed

text \<open>A grant of the lease protects its holder unless the holder already had the lease under a
  dead process id.\<close>

definition dead_self_lease :: "(u32 \<Rightarrow> bool) \<Rightarrow> u64 \<Rightarrow> string \<Rightarrow> todo \<Rightarrow> bool" where
  "dead_self_lease alive now agent t \<longleftrightarrow>
     (\<exists>x. lease_status_of t now = Active agent x)
     \<and> (case t_holder_pid t of None \<Rightarrow> False | Some p \<Rightarrow> \<not> alive p)"

lemma lease_claim_grants:
  assumes "lease_claim alive pid a secs now t = Inr (oc, t')" "alive pid"
    "\<not> dead_self_lease alive now a t"
  shows "lease_protected alive now a t'"
  using assms(1)
proof (rule lease_claim_cases)
  fix ttl
  assume "normalize_ttl secs = Inr ttl"
    and "t' = t \<and> co_idempotent oc \<and> (\<exists>x. lease_status_of t now = Active a x)
     \<or> t' = take_lease a ttl pid now t \<and> \<not> co_idempotent oc
       \<and> (\<forall>b x. lease_status_of t now = Active b x \<longrightarrow>
            b \<noteq> a \<and> (\<exists>p. t_holder_pid t = Some p \<and> \<not> alive p))"
  then show ?thesis
    using assms(2,3) normalize_ttl_bounds [of secs ttl]
    by (auto simp: lease_protected_iff dead_self_lease_def kernel_simps split: option.splits)
qed

interpretation tlg: granting_lease
  "\<lambda>agent t. if alive pid then sum_state (lease_claim alive pid agent secs now t) else None"
  "lease_protected alive now" "dead_self_lease alive now"
  for alive pid secs now
proof
  fix a b t
  assume "lease_protected alive now a t" "b \<noteq> a"
  then show "(if alive pid then sum_state (lease_claim alive pid b secs now t) else None) = None"
    using tl.refuse by simp
next
  fix a t t'
  assume "lease_protected alive now a t"
    "(if alive pid then sum_state (lease_claim alive pid a secs now t) else None) = Some t'"
  then show "lease_protected alive now a t'"
    using tl.keep by (simp split: if_splits)
next
  fix a t t'
  assume "(if alive pid then sum_state (lease_claim alive pid a secs now t) else None) = Some t'"
    "\<not> dead_self_lease alive now a t"
  then show "lease_protected alive now a t'"
    using lease_claim_grants by (auto simp: sum_state_def split: if_splits sum.splits)
qed

interpretation tc: exclusive_lease
  "\<lambda>agent t. case todo_claim alive agent secs now t of (ok, t') \<Rightarrow> if ok then Some t' else None"
  "\<lambda>agent t. lease_protected alive now agent t \<and> 0 < secs"
  for alive secs now
proof
  fix a b t
  assume "lease_protected alive now a t \<and> 0 < secs" "b \<noteq> a"
  then show "(case todo_claim alive b secs now t of (ok, t') \<Rightarrow> if ok then Some t' else None) = None"
    by (auto simp: lease_protected_iff todo_claim_def split: option.splits)
next
  fix a t t'
  assume "lease_protected alive now a t \<and> 0 < secs"
    "(case todo_claim alive a secs now t of (ok, t') \<Rightarrow> if ok then Some t' else None) = Some t'"
  then show "lease_protected alive now a t' \<and> 0 < secs"
    by (auto simp: lease_protected_iff todo_claim_def split: option.splits if_splits)
qed

section \<open>Runs of lease commands\<close>

datatype lease_cmd =
    CmdClaim string u32 u64
  | CmdRenew string u64
  | CmdRelease string
  | CmdExpire

definition kept :: "'a \<Rightarrow> 'e + 'b \<times> 'a \<Rightarrow> 'a" where
  "kept t r = (case r of Inl _ \<Rightarrow> t | Inr (_, t') \<Rightarrow> t')"

text \<open>The todo after a command: an error leaves it as it was.\<close>

fun exec_cmd :: "(u32 \<Rightarrow> bool) \<Rightarrow> u64 \<Rightarrow> lease_cmd \<Rightarrow> todo \<Rightarrow> todo" where
  "exec_cmd alive now (CmdClaim a pid secs) t = kept t (lease_claim alive pid a secs now t)"
| "exec_cmd alive now (CmdRenew a secs) t = kept t (lease_renew a secs now t)"
| "exec_cmd alive now (CmdRelease a) t = kept t (lease_release a now t)"
| "exec_cmd alive now CmdExpire t = kept t (lease_expire now t)"

fun cmd_actor :: "lease_cmd \<Rightarrow> string option" where
  "cmd_actor (CmdClaim a pid secs) = Some a"
| "cmd_actor (CmdRenew a secs) = Some a"
| "cmd_actor (CmdRelease a) = Some a"
| "cmd_actor CmdExpire = None"

text \<open>Any number of commands at non-decreasing times. \<open>allowed\<close> restricts the probe answers
  and the commands a run may contain.\<close>

inductive lease_run ::
  "((u32 \<Rightarrow> bool) \<Rightarrow> lease_cmd \<Rightarrow> bool) \<Rightarrow> todo \<Rightarrow> u64 \<Rightarrow> todo \<Rightarrow> u64 \<Rightarrow> bool"
  for allowed :: "(u32 \<Rightarrow> bool) \<Rightarrow> lease_cmd \<Rightarrow> bool" and t0 :: todo and n0 :: u64
where
  start: "lease_run allowed t0 n0 t0 n0"
| step: "lease_run allowed t0 n0 t n \<Longrightarrow> n \<le> m \<Longrightarrow> allowed alive cmd \<Longrightarrow>
           lease_run allowed t0 n0 (exec_cmd alive m cmd t) m"

inductive_cases lease_runE: "lease_run allowed t0 n0 t n"

definition lease_wf :: "u64 \<Rightarrow> todo \<Rightarrow> bool" where
  "lease_wf n t \<longleftrightarrow>
     (t_claimed_by t = None \<longleftrightarrow> t_lease_expires_at t = None)
     \<and> (case t_lease_expires_at t of None \<Rightarrow> True | Some x \<Rightarrow> x \<le> n + MAX_TASK_LEASE_TTL_SECONDS)"

lemma kept_simps [simp]: "kept t (Inl e) = t" "kept t (Inr (v, t')) = t'"
  by (simp_all add: kept_def)

lemma lease_wf_mono: "lease_wf n t \<Longrightarrow> n \<le> m \<Longrightarrow> lease_wf m t"
  by (auto simp: lease_wf_def split: option.splits)

lemma lease_wf_take:
  "ttl \<le> MAX_TASK_LEASE_TTL_SECONDS \<Longrightarrow> lease_wf m (take_lease a ttl pid m t)"
  by (simp add: lease_wf_def)

lemma lease_wf_claim:
  assumes "lease_wf m t" shows "lease_wf m (kept t (lease_claim alive pid a secs m t))"
proof (cases "lease_claim alive pid a secs m t")
  case (Inl e)
  with assms show ?thesis by simp
next
  case (Inr r)
  obtain oc t' where "r = (oc, t')" by fastforce
  with Inr have c: "lease_claim alive pid a secs m t = Inr (oc, t')" by simp
  then show ?thesis
  proof (rule lease_claim_cases)
    fix ttl
    assume "normalize_ttl secs = Inr ttl"
      and "t' = t \<and> co_idempotent oc \<and> (\<exists>x. lease_status_of t m = Active a x)
       \<or> t' = take_lease a ttl pid m t \<and> \<not> co_idempotent oc
         \<and> (\<forall>b x. lease_status_of t m = Active b x \<longrightarrow>
              b \<noteq> a \<and> (\<exists>p. t_holder_pid t = Some p \<and> \<not> alive p))"
    then show ?thesis
      using assms lease_wf_take [of ttl m a pid t] normalize_ttl_bounds [of secs ttl]
      by (auto simp: c)
  qed
qed

lemma lease_wf_exec: "lease_wf m t \<Longrightarrow> lease_wf m (exec_cmd alive m cmd t)"
proof (cases cmd)
  case (CmdRenew a secs)
  then show "lease_wf m t \<Longrightarrow> ?thesis"
    using normalize_ttl_bounds [of secs]
    by (auto simp: lease_renew_def lease_wf_def kernel_simps
        split: sum.split lease_status.split)
next
  case (CmdRelease a)
  then show "lease_wf m t \<Longrightarrow> ?thesis"
    by (auto simp: lease_release_def drop_lease_def lease_wf_def split: lease_status.split)
next
  case CmdExpire
  then show "lease_wf m t \<Longrightarrow> ?thesis"
    by (auto simp: lease_expire_def drop_lease_def lease_wf_def split: lease_status.split)
qed (simp add: lease_wf_claim)

lemma lease_run_wf: "lease_run allowed t0 n0 t n \<Longrightarrow> lease_wf n0 t0 \<Longrightarrow> lease_wf n t"
  by (induction rule: lease_run.induct) (auto intro: lease_wf_exec lease_wf_mono)

lemma lease_run_time: "lease_run allowed t0 n0 t n \<Longrightarrow> n0 \<le> n"
  by (induction rule: lease_run.induct) auto

text \<open>A foreign command cannot touch a protected lease.\<close>

lemma exec_cmd_foreign:
  assumes "lease_protected alive m a t" "cmd_actor cmd \<noteq> Some a"
  shows "exec_cmd alive m cmd t = t"
proof (cases cmd)
  case (CmdClaim b pid secs)
  then have "sum_state (lease_claim alive pid b secs m t) = None"
    using assms tl.refuse by simp
  with CmdClaim show ?thesis
    by (auto simp: sum_state_def kept_def split: sum.splits)
next
  case (CmdRenew b secs)
  with assms show ?thesis
    by (auto simp: lease_renew_def lease_protected_iff lease_status_of_def
        split: sum.split)
next
  case (CmdRelease b)
  with assms show ?thesis
    by (auto simp: lease_release_def lease_protected_iff lease_status_of_def)
next
  case CmdExpire
  with assms show ?thesis
    by (auto simp: lease_expire_def lease_protected_iff lease_status_of_def)
qed

section \<open>Properties\<close>

text \<open>C35: no agent can disturb another agent's live lease: while \<open>a\<close> holds the lease until
  \<open>x\<close> and its recorded process, if any, answers the probe, a run of any claims, renewals,
  releases and expiries by other agents before \<open>x\<close> leaves the todo exactly as it was.\<close>

theorem lease_not_disturbed:
  assumes "lease_run (\<lambda>alive cmd. cmd_actor cmd \<noteq> Some a
                        \<and> (case t_holder_pid t0 of None \<Rightarrow> True | Some p \<Rightarrow> alive p)) t0 n0 t n"
    and "t_claimed_by t0 = Some a" "t_lease_expires_at t0 = Some x" "n < x"
  shows "t = t0"
  using assms
proof (induction rule: lease_run.induct)
  case start
  then show ?case by simp
next
  case (step t n m alive cmd)
  then have "t = t0" by simp
  moreover have "lease_protected alive m a t0"
    using step by (simp add: lease_protected_iff split: option.splits)
  ultimately show ?case using step.hyps exec_cmd_foreign by metis
qed

text \<open>leases are bounded windows: whatever commands run, starting from an unclaimed todo,
  holder and expiry are set together, and no lease is still active a day (the maximal TTL)
  after the last command, so an abandoned slice always returns to the frontier.\<close>

theorem lease_bounded_window:
  assumes "lease_run (\<lambda>_ _. True) t0 n0 t n"
    and "t_claimed_by t0 = None" "t_lease_expires_at t0 = None"
  shows "(t_claimed_by t = None \<longleftrightarrow> t_lease_expires_at t = None)
         \<and> \<not> lease_is_active t (n + 24 * 60 * 60)"
proof -
  have "lease_wf n0 t0" using assms(2,3) by (simp add: lease_wf_def)
  with assms(1) have "lease_wf n t" by (rule lease_run_wf)
  then show ?thesis
    by (auto simp: lease_wf_def lease_is_active_def lease_status_of_def
        MAX_TASK_LEASE_TTL_SECONDS_def split: option.splits)
qed

text \<open>In a race of claim attempts on one slice at most one agent wins, provided the
  claiming process is alive and no attempt comes from an agent whose own live lease names a
  dead process.\<close>

theorem lease_race_single_winner:
  assumes "alive pid" "\<forall>a. \<not> dead_self_lease alive now a t"
  shows "\<exists>a. set (fst (tlg.race alive pid secs now bs t)) \<subseteq> {a}"
  using tlg.race_single_winner [OF assms(2)] .

text \<open>Claiming again is not a renewal: a holder that claims its own live lease succeeds
  idempotently and the todo keeps its old expiry and process id. If that process is dead
  (the holder restarted), another agent then steals the lease the holder believes it has.\<close>

theorem lease_reclaim_keeps_dead_pid:
  assumes "t_status t = Open" "lease_status_of t now = Active a x"
    "t_holder_pid t = Some p" "\<not> alive p" "b \<noteq> a" "secs \<le> 24 * 60 * 60"
  shows "lease_claim alive pid a secs now t
           = Inr (\<lparr>co_idempotent = True, co_steal = False\<rparr>, t)
    \<and> (\<exists>t'. lease_claim alive pid' b secs now t
             = Inr (\<lparr>co_idempotent = False, co_steal = True\<rparr>, t')
           \<and> t_claimed_by t' = Some b)"
proof -
  have "\<exists>ttl. normalize_ttl secs = Inr ttl"
    using assms(6) by (simp add: normalize_ttl_def Let_def MAX_TASK_LEASE_TTL_SECONDS_def
        DEFAULT_TASK_LEASE_TTL_SECONDS_def)
  with assms show ?thesis by (auto simp: lease_claim_def)
qed

section \<open>Concrete leases\<close>

definition demo_held :: todo where
  "demo_held = take_lease ''a'' 60 7 100 (advancement 0 ''T1'' ''work'')"

lemma lease_not_disturbed_witness:
  "exec_cmd (\<lambda>p. p = 7) 120 (CmdClaim ''b'' 8 0) demo_held = demo_held"
proof -
  let ?ok = "\<lambda>alive cmd. cmd_actor cmd \<noteq> Some ''a''
      \<and> (case t_holder_pid demo_held of None \<Rightarrow> True | Some p \<Rightarrow> alive p)"
  have "lease_run ?ok demo_held 100 (exec_cmd (\<lambda>p. p = 7) 120 (CmdClaim ''b'' 8 0) demo_held) 120"
    by (rule lease_run.step [OF lease_run.start]) (simp_all add: demo_held_def)
  then show ?thesis
    by (rule lease_not_disturbed [where x = 160]) (simp_all add: demo_held_def)
qed

lemma lease_bounded_window_witness:
  "\<not> lease_is_active (exec_cmd (\<lambda>_. True) 100 (CmdClaim ''a'' 7 0)
       (advancement 0 ''T1'' ''work'')) (100 + 24 * 60 * 60)"
proof -
  have "lease_run (\<lambda>_ _. True) (advancement 0 ''T1'' ''work'') 0
          (exec_cmd (\<lambda>_. True) 100 (CmdClaim ''a'' 7 0) (advancement 0 ''T1'' ''work'')) 100"
    by (rule lease_run.step [OF lease_run.start]) simp_all
  from lease_bounded_window [OF this] show ?thesis
    by (simp add: advancement_def todo_new_def)
qed

lemma lease_race_single_winner_witness:
  "\<exists>a. set (fst (tlg.race (\<lambda>_. True) 7 0 100 [''a'', ''b'', ''a''] (advancement 0 ''T1'' ''work'')))
        \<subseteq> {a}"
  by (rule lease_race_single_winner)
     (simp_all add: dead_self_lease_def advancement_def todo_new_def)

lemma lease_reclaim_keeps_dead_pid_witness:
  "\<exists>t'. lease_claim (\<lambda>p. p \<noteq> 7) 9 ''b'' 0 110 demo_held
          = Inr (\<lparr>co_idempotent = False, co_steal = True\<rparr>, t') \<and> t_claimed_by t' = Some ''b''"
proof -
  have "t_status demo_held = Open" "lease_status_of demo_held 110 = Active ''a'' 160"
    "t_holder_pid demo_held = Some 7"
    by (simp_all add: demo_held_def kernel_simps advancement_def todo_new_def)
  then show ?thesis
    using lease_reclaim_keeps_dead_pid [of demo_held 110 "''a''" 160 7 "\<lambda>p. p \<noteq> 7" "''b''" 0]
    by auto
qed

end
