(* ===== verification/Claim.thy ===== *)
theory Claim
  imports Ledger Task_Lease
begin

text \<open>
  The atomic claim of \<open>orchestration/goal/src/store.rs\<close> (\<open>try_claim_todo_with_workspace\<close> and
  its two callers): under the ledger lock it replays the goal, decides, and appends the claim.

  The decision is \<open>claim_verdict_of\<close>; on the replayed goal it is a third implementation of the
  locales \<open>exclusive_lease\<close> and \<open>granting_lease\<close>.
\<close>

section \<open>The atomic claim\<close>

record claim_result =
  cr_claimed :: bool
  cr_stolen :: bool

text \<open>What the claim decides on the replayed goal: refused, or granted with the stolen flag, the
  effective write set and the forced flag.\<close>

datatype claim_verdict = Refused | Granted (was_stolen: bool) "string list" bool

definition lease_of :: "todo \<Rightarrow> (string \<times> u64 \<times> u32 option) option" where
  "lease_of t =
     (case (t_claimed_by t, t_lease_expires_at t) of
        (Some holder, Some expiry) \<Rightarrow> Some (holder, expiry, t_holder_pid t)
      | _ \<Rightarrow> None)"

definition held_by_live_peer :: "guard_env \<Rightarrow> string \<Rightarrow> u64 \<Rightarrow> todo \<Rightarrow> bool" where
  "held_by_live_peer e agent now t \<longleftrightarrow>
     (case lease_of t of
        None \<Rightarrow> False
      | Some (holder, expiry, pid) \<Rightarrow>
          expiry > now \<and> holder \<noteq> agent
          \<and> \<not> (case pid of None \<Rightarrow> False | Some p \<Rightarrow> \<not> ge_alive e p))"

definition unresolvable_scope :: "goal \<Rightarrow> string \<Rightarrow> u64 \<Rightarrow> bool" where
  "unresolvable_scope g tid now \<longleftrightarrow>
     \<not> is_absolute (g_cwd g)
     \<and> list_ex (\<lambda>t. (t_id t = tid
                     \<or> t_claimed_by t \<noteq> None
                       \<and> (case t_lease_expires_at t of None \<Rightarrow> False | Some x \<Rightarrow> x > now)
                       \<and> t_status t \<noteq> Done \<and> t_status t \<noteq> Superseded)
                    \<and> list_ex (\<lambda>s. \<not> blank s \<and> \<not> is_absolute (trim s)) (t_required_write_scope t))
         (g_todos g)"

definition claim_verdict_of ::
  "guard_env \<Rightarrow> goal \<Rightarrow> string \<Rightarrow> string \<Rightarrow> u64 \<Rightarrow> bool \<Rightarrow> string + claim_verdict" where
  "claim_verdict_of e g tid agent now force =
     (case find_todo g tid of
        None \<Rightarrow> Inl ''unknown todo''
      | Some t \<Rightarrow>
          (if t_status t = Done \<or> t_status t = Superseded
              \<or> (case t_owner t of None \<Rightarrow> False | Some owner \<Rightarrow> owner \<noteq> agent)
           then Inr Refused
           else if held_by_live_peer e agent now t then Inr Refused
           else if unresolvable_scope g tid now
           then Inl ''cannot resolve relative task write scopes: legacy goal cwd is not absolute; recreate the goal with an absolute --cwd and re-declare its write scopes''
           else (let conflicts = todo_workspace_conflicts e g agent t now in
                 if conflicts \<noteq> [] \<and> \<not> force
                 then Inl (''workspace conflict '' @ em_dash
                           @ '' claiming would race a peer writing the same workspace:'' @ [newline_char]
                           @ render_conflicts conflicts now
                           @ ''degrade to serial: retry after the holder releases its lease; declare disjoint --required-write-scope paths (goal-relative), or override only with proven disjoint writes (--force-workspace for run, --force for claim)'')
                 else Inr (Granted
                        (case lease_of t of None \<Rightarrow> False | Some (holder, _, _) \<Rightarrow> holder \<noteq> agent)
                        (todo_workspaces e g agent t) (conflicts \<noteq> [] \<and> force)))))"

definition claim_event :: "string \<Rightarrow> string \<Rightarrow> string \<Rightarrow> u64 \<Rightarrow> u32 option \<Rightarrow> u64 \<Rightarrow> event" where
  "claim_event gid tid agent expires pid now =
     \<lparr>ev_kind = TodoClaimed tid agent expires pid, ev_goal_id = gid, ev_ts = now\<rparr>"

definition lock_event :: "string \<Rightarrow> string \<Rightarrow> string \<Rightarrow> string list \<Rightarrow> bool \<Rightarrow> u64 \<Rightarrow> event" where
  "lock_event gid tid agent paths forced now =
     \<lparr>ev_kind = WorkspaceLockAcquired agent tid paths forced, ev_goal_id = gid, ev_ts = now\<rparr>"

text \<open>The ledger entries of a granted claim: the claim and, with a write set, its audit.\<close>

definition claim_entries ::
  "codec \<Rightarrow> string \<Rightarrow> string \<Rightarrow> string \<Rightarrow> u64 \<Rightarrow> u32 option \<Rightarrow> string list \<Rightarrow> bool \<Rightarrow> u64 \<Rightarrow> stored_event list" where
  "claim_entries cd gid tid agent expires pid paths forced now =
     kernel_stored cd (claim_event gid tid agent expires pid now)
     # (if paths = [] then [] else [kernel_stored cd (lock_event gid tid agent paths forced now)])"

definition try_claim_todo_with_workspace ::
  "codec \<Rightarrow> guard_env \<Rightarrow> u64 \<Rightarrow> string \<Rightarrow> string \<Rightarrow> string \<Rightarrow> u64 \<Rightarrow> u32 option \<Rightarrow> bool \<Rightarrow> store \<Rightarrow>
     (string + claim_result) \<times> store" where
  "try_claim_todo_with_workspace cd e now gid tid agent lease_secs pid force st =
     (case normalize_ttl lease_secs of
        Inl err \<Rightarrow> (Inl err, st)
      | Inr ttl \<Rightarrow>
          (if \<not> valid_goal_id gid then (Inl invalid_goal_id_error, st)
           else (case open_events gid st of
              (text, st1) \<Rightarrow>
                (case registry_entry_of st gid of
                   None \<Rightarrow> (Inl ''goal is not registered'', st1)
                 | Some entry \<Rightarrow>
                     (case parse_ledger cd (schema_or_legacy cd st gid) text of
                        Inl err \<Rightarrow> (Inl err, st1)
                      | Inr es \<Rightarrow>
                          (case fold_ledger now entry es of
                             None \<Rightarrow> (Inl panic_error, st1)
                           | Some g \<Rightarrow>
                               (case claim_verdict_of e g tid agent now force of
                                  Inl err \<Rightarrow> (Inl err, st1)
                                | Inr Refused \<Rightarrow> (Inr \<lparr>cr_claimed = False, cr_stolen = False\<rparr>, st1)
                                | Inr (Granted stolen paths forced) \<Rightarrow>
                                    (Inr \<lparr>cr_claimed = True, cr_stolen = stolen\<rparr>,
                                     write_events gid
                                       (text
                                        @ concat (map (line_of cd)
                                            (claim_entries cd gid tid agent (now + ttl) pid paths forced now)))
                                       st1))))))))"

definition try_claim_todo_with_pid ::
  "codec \<Rightarrow> guard_env \<Rightarrow> u64 \<Rightarrow> string \<Rightarrow> string \<Rightarrow> string \<Rightarrow> u64 \<Rightarrow> u32 option \<Rightarrow> store \<Rightarrow>
     (string + claim_result) \<times> store" where
  "try_claim_todo_with_pid cd e now gid tid agent lease_secs pid st =
     try_claim_todo_with_workspace cd e now gid tid agent lease_secs pid False st"

definition try_claim_todo ::
  "codec \<Rightarrow> guard_env \<Rightarrow> u64 \<Rightarrow> string \<Rightarrow> string \<Rightarrow> string \<Rightarrow> u64 \<Rightarrow> store \<Rightarrow>
     (string + claim_result) \<times> store" where
  "try_claim_todo cd e now gid tid agent lease_secs st =
     try_claim_todo_with_pid cd e now gid tid agent lease_secs None st"

section \<open>What two readers of a ledger agree on\<close>

text \<open>Replays at different clocks agree on the leases. The row of a todo is the part of it that no
  clock changes; \<open>lease_part\<close> is the row without the status.\<close>

definition lease_part :: "todo \<Rightarrow> string option \<times> string option \<times> u64 option \<times> u32 option" where
  "lease_part t = (t_monitor_cadence t, t_claimed_by t, t_lease_expires_at t, t_holder_pid t)"

definition row_of :: "todo \<Rightarrow> string \<times> todo_status \<times> string option \<times> string option \<times> u64 option \<times> u32 option" where
  "row_of t = (t_id t, t_status t, lease_part t)"

definition same_rows :: "goal \<Rightarrow> goal \<Rightarrow> bool" where
  "same_rows g h \<longleftrightarrow> map row_of (g_todos g) = map row_of (g_todos h)"

lemma map_row_update_first:
  assumes "map row_of xs = map row_of ys" "\<And>t u. row_of t = row_of u \<Longrightarrow> row_of (f t) = row_of (f' u)"
  shows "map row_of (update_first (\<lambda>t. t_id t = i) f xs)
    = map row_of (update_first (\<lambda>t. t_id t = i) f' ys)"
  using assms(1)
proof (induction xs arbitrary: ys)
  case (Cons x xs)
  then obtain y ys' where y: "ys = y # ys'" "row_of x = row_of y" "map row_of xs = map row_of ys'"
    by (auto simp: map_eq_Cons_conv)
  then have "t_id x = t_id y" by (simp add: row_of_def)
  then show ?case using y assms(2) Cons.IH [of ys'] by simp
qed simp

lemma same_rows_on_todo:
  "same_rows g h \<Longrightarrow> (\<And>t u. row_of t = row_of u \<Longrightarrow> row_of (f t) = row_of (f' u)) \<Longrightarrow>
     same_rows (on_todo i f g) (on_todo i f' h)"
  unfolding same_rows_def g_todos_on_todo by (rule map_row_update_first)

lemma find_row: "map_option row_of (find_todo g i) = find (\<lambda>r. fst r = i) (map row_of (g_todos g))"
proof -
  have "map_option row_of (find (\<lambda>t. t_id t = i) xs) = find (\<lambda>r. fst r = i) (map row_of xs)" for xs
    by (induction xs) (auto simp: row_of_def)
  then show ?thesis by (simp add: find_todo_def)
qed

lemma find_same: "same_rows g h \<Longrightarrow> map_option row_of (find_todo g i) = map_option row_of (find_todo h i)"
  by (simp add: find_row same_rows_def)

lemma lease_part_patch: "lease_part (patch_todo ts p t) = lease_part t"
proof -
  have "lease_part (patch_deferral ts at_ms rw t) = lease_part t" "lease_part (patch_status st t) = lease_part t"
    for at_ms rw st t
    by (simp_all add: patch_deferral_def patch_status_def Let_def lease_part_def split: option.split)
  moreover have "lease_part (t\<lparr>t_text := a\<rparr>) = lease_part t" "lease_part (t\<lparr>t_owner := b\<rparr>) = lease_part t"
    "lease_part (t\<lparr>t_evidence := c\<rparr>) = lease_part t" "lease_part (t\<lparr>t_note := d\<rparr>) = lease_part t"
    "lease_part (t\<lparr>t_acceptance := e\<rparr>) = lease_part t" "lease_part (t\<lparr>t_blocked_by_gate := f\<rparr>) = lease_part t"
    "lease_part (t\<lparr>t_priority := k\<rparr>) = lease_part t" "lease_part (t\<lparr>t_updated_at := l\<rparr>) = lease_part t"
    for a b c d e f k l t
    by (simp_all add: lease_part_def)
  ultimately show ?thesis
    by (simp add: patch_todo_def Let_def set_opt_frame [where h = lease_part])
qed

lemma row_patch: "row_of t = row_of u \<Longrightarrow> row_of (patch_todo ts p t) = row_of (patch_todo ts p u)"
  using identity_patch [of ts p t] identity_patch [of ts p u]
  by (simp add: row_of_def lease_part_patch status_patch identity_of_def)

lemma row_arms:
  assumes "row_of t = row_of u"
  shows "row_of (complete_replayed now ts nf sc ev t) = row_of (complete_replayed now' ts nf sc ev u)"
    "row_of (resolve_gate ts d n t) = row_of (resolve_gate ts d n u)"
    "row_of (archive now t) = row_of (archive now' u)"
    "row_of (set_evidence ts txt t) = row_of (set_evidence ts txt u)"
    "row_of (renew_replayed ts a x t) = row_of (renew_replayed ts a x u)"
    "row_of (release_replayed ts a t) = row_of (release_replayed ts a u)"
    "row_of (expire_replayed ts t) = row_of (expire_replayed ts u)"
    "row_of (t\<lparr>t_status := Superseded\<rparr>) = row_of (u\<lparr>t_status := Superseded\<rparr>)"
    "row_of (t\<lparr>t_claimed_by := c, t_lease_expires_at := l, t_holder_pid := q\<rparr>)
       = row_of (u\<lparr>t_claimed_by := c, t_lease_expires_at := l, t_holder_pid := q\<rparr>)"
  using assms
  by (simp_all add: row_of_def lease_part_def complete_replayed_def resolve_gate_def archive_def
      set_evidence_def renew_replayed_def release_replayed_def expire_replayed_def
      todo_complete_def Let_def)

lemma row_poll:
  "row_of t = row_of u \<Longrightarrow> map_option row_of (poll_todo ts r n t) = map_option row_of (poll_todo ts r n u)"
  by (simp add: poll_todo_def row_of_def lease_part_def option.map_comp o_def)

lemma same_rows_frames [simp]:
  "same_rows (touch_frontier ts g) h = same_rows g h" "same_rows g (touch_frontier ts h) = same_rows g h"
  "same_rows (record_semantic_event k i s ts g) h = same_rows g h"
  "same_rows g (record_semantic_event k i s ts h) = same_rows g h"
  by (simp_all add: same_rows_def todos_frames)

lemma same_rows_poll:
  assumes "same_rows g h" "poll_goal ts i r n g = Some g'"
  shows "\<exists>h'. poll_goal ts i r n h = Some h' \<and> same_rows g' h'"
proof (cases "find_todo g i")
  case None
  then have "find_todo h i = None" using find_same [OF assms(1), of i] by simp
  with None show ?thesis using assms by (auto simp: poll_goal_def)
next
  case (Some m)
  then obtain q where q: "find_todo h i = Some q" "row_of m = row_of q"
    using find_same [OF assms(1), of i] by (cases "find_todo h i") auto
  obtain m' where m': "poll_todo ts r n m = Some m'" "g' = on_todo i (\<lambda>_. m') g"
    using Some assms(2) by (auto simp: poll_goal_def)
  then obtain q' where q': "poll_todo ts r n q = Some q'" "row_of m' = row_of q'"
    using row_poll [OF q(2), of ts r n] by (cases "poll_todo ts r n q") auto
  have "same_rows (on_todo i (\<lambda>_. m') g) (on_todo i (\<lambda>_. q') h)"
    by (rule same_rows_on_todo [OF assms(1)]) (simp add: q'(2))
  then show ?thesis using q(1) q'(1) m'(2) by (simp add: poll_goal_def)
qed

lemma same_rows_add: "same_rows g h \<Longrightarrow> same_rows (add_replayed t g) (add_replayed t h)"
  by (simp add: same_rows_def add_replayed_def row_of_def lease_part_def)

lemmas same_rows_arms = row_arms [THEN same_rows_on_todo [rotated]]

lemma same_rows_apply:
  assumes "same_rows g h" "apply_kind now gid ts k g = Some g'"
  shows "\<exists>h'. apply_kind now' gid ts k h = Some h' \<and> same_rows g' h'"
proof (cases k)
  case (MonitorPolled i r n)
  then show ?thesis
    using assms same_rows_poll [OF assms(1), of ts i r n] by (auto simp: apply_kind_def)
next
  case (TodoUpdated i u)
  then show ?thesis
    using assms same_rows_on_todo [OF assms(1) row_patch] by (auto simp: apply_kind_def)
next
  case (TodoAdded t)
  then show ?thesis using assms same_rows_add by (auto simp: apply_kind_def)
qed (use assms in \<open>auto simp: apply_kind_def supersede_def archive_todo_def intro: same_rows_arms;
      simp add: same_rows_def todos_frames\<close>)+

lemma same_rows_all:
  "same_rows g h \<Longrightarrow> apply_all now es g = Some g' \<Longrightarrow>
     \<exists>h'. apply_all now' es h = Some h' \<and> same_rows g' h'"
proof (induction es arbitrary: g h)
  case (Cons e es)
  then obtain g1 where g1: "apply_event now e g = Some g1" "apply_all now es g1 = Some g'"
    by (auto split: option.splits)
  then obtain h1 where "apply_event now' e h = Some h1" "same_rows g1 h1"
    using same_rows_apply [OF Cons.prems(1) g1(1) [unfolded apply_event_def], of now']
    by (auto simp: apply_event_def)
  then show ?case using Cons.IH [of g1 h1] g1(2) by simp
qed simp

lemma same_rows_fold:
  "fold_ledger now entry es = Some g \<Longrightarrow> \<exists>h. fold_ledger now' entry es = Some h \<and> same_rows g h"
  unfolding fold_ledger_def by (erule same_rows_all [rotated]) (simp add: same_rows_def goal_new_def)

section \<open>The decision\<close>

lemma claim_verdict_granted:
  assumes "claim_verdict_of e g tid agent now force = Inr (Granted stolen paths forced)"
  obtains t where "find_todo g tid = Some t" "t_status t \<noteq> Done" "t_status t \<noteq> Superseded"
    "t_owner t = None \<or> t_owner t = Some agent" "\<not> held_by_live_peer e agent now t"
    "paths = todo_workspaces e g agent t"
    "forced \<longleftrightarrow> todo_workspace_conflicts e g agent t now \<noteq> []" "forced \<longrightarrow> force"
    "stolen \<longleftrightarrow> (\<exists>h x q. lease_of t = Some (h, x, q) \<and> h \<noteq> agent)"
proof -
  obtain t where t: "find_todo g tid = Some t"
    using assms by (auto simp: claim_verdict_of_def split: option.splits)
  note claim = assms [unfolded claim_verdict_of_def t option.case Let_def]
  show thesis
    by (rule that [OF t]) (use claim in \<open>auto split: if_splits option.splits\<close>)
qed

lemma claim_verdict_held:
  "find_todo g tid = Some t \<Longrightarrow> held_by_live_peer e agent now t \<Longrightarrow>
     claim_verdict_of e g tid agent now force = Inr Refused"
  by (simp add: claim_verdict_of_def)

lemma held_by_live_peer_iff:
  "held_by_live_peer e agent now t \<longleftrightarrow>
     (\<exists>h x. t_claimed_by t = Some h \<and> t_lease_expires_at t = Some x \<and> now < x \<and> h \<noteq> agent)
     \<and> (case t_holder_pid t of None \<Rightarrow> True | Some p \<Rightarrow> ge_alive e p)"
  by (auto simp: held_by_live_peer_def lease_of_def split: option.splits)

section \<open>The ledger claim is an exclusive lease\<close>

definition claims_on :: "guard_env \<Rightarrow> string \<Rightarrow> string \<Rightarrow> u64 \<Rightarrow> u32 option \<Rightarrow> u64 \<Rightarrow> string \<Rightarrow> goal \<Rightarrow> goal option" where
  "claims_on e gid tid ttl pid now agent g =
     (case claim_verdict_of e g tid agent now False of
        Inr (Granted stolen paths forced) \<Rightarrow>
          apply_event now (claim_event gid tid agent (now + ttl) pid now) g
      | _ \<Rightarrow> None)"

definition holds_on :: "guard_env \<Rightarrow> string \<Rightarrow> u64 \<Rightarrow> string \<Rightarrow> goal \<Rightarrow> bool" where
  "holds_on e tid now agent g \<longleftrightarrow>
     (\<exists>t. find_todo g tid = Some t \<and> lease_protected (ge_alive e) now agent t)"

definition pid_answers :: "guard_env \<Rightarrow> u32 option \<Rightarrow> bool" where
  "pid_answers e pid \<longleftrightarrow> (case pid of None \<Rightarrow> True | Some p \<Rightarrow> ge_alive e p)"

lemma claims_on_Some:
  assumes "claims_on e gid tid ttl pid now agent g = Some g'"
  obtains t where "find_todo g tid = Some t" "\<not> held_by_live_peer e agent now t"
    "find_todo g' tid = Some (t\<lparr>t_claimed_by := Some agent, t_lease_expires_at := Some (now + ttl),
                                t_holder_pid := pid\<rparr>)"
proof -
  obtain stolen paths forced where v: "claim_verdict_of e g tid agent now False = Inr (Granted stolen paths forced)"
    and g': "apply_event now (claim_event gid tid agent (now + ttl) pid now) g = Some g'"
    using assms by (auto simp: claims_on_def split: sum.splits claim_verdict.splits)
  from v obtain t where t: "find_todo g tid = Some t" "\<not> held_by_live_peer e agent now t"
    by (rule claim_verdict_granted)
  show thesis
    by (rule that [OF t])
      (use find_todo_apply [OF g' [unfolded apply_event_def] t(1)] in \<open>simp add: claim_event_def\<close>)
qed

interpretation lc: exclusive_lease
  "\<lambda>agent g. if 0 < ttl \<and> pid_answers e pid then claims_on e gid tid ttl pid now agent g else None"
  "holds_on e tid now"
  for e gid tid ttl pid now
proof
  fix a b g
  assume h: "holds_on e tid now a g" "b \<noteq> a"
  then obtain t where t: "find_todo g tid = Some t" "lease_protected (ge_alive e) now a t"
    by (auto simp: holds_on_def)
  then have "held_by_live_peer e b now t"
    using h(2) by (auto simp: lease_protected_iff held_by_live_peer_iff)
  then show "(if 0 < ttl \<and> pid_answers e pid then claims_on e gid tid ttl pid now b g else None) = None"
    using t(1) by (simp add: claims_on_def claim_verdict_held)
next
  fix a g g'
  assume "(if 0 < ttl \<and> pid_answers e pid then claims_on e gid tid ttl pid now a g else None) = Some g'"
  then have "0 < ttl" "pid_answers e pid" "claims_on e gid tid ttl pid now a g = Some g'"
    by (simp_all split: if_splits)
  then show "holds_on e tid now a g'"
    by (elim claims_on_Some) (simp add: holds_on_def lease_protected_iff pid_answers_def)
qed

interpretation lcg: granting_lease
  "\<lambda>agent g. if 0 < ttl \<and> pid_answers e pid then claims_on e gid tid ttl pid now agent g else None"
  "holds_on e tid now" "\<lambda>_ _. False"
  for e gid tid ttl pid now
proof
  fix a g g'
  assume "(if 0 < ttl \<and> pid_answers e pid then claims_on e gid tid ttl pid now a g else None) = Some g'"
  then have "0 < ttl" "pid_answers e pid" "claims_on e gid tid ttl pid now a g = Some g'"
    by (simp_all split: if_splits)
  then show "holds_on e tid now a g'"
    by (elim claims_on_Some) (simp add: holds_on_def lease_protected_iff pid_answers_def)
qed

section \<open>The claim in the store\<close>

text \<open>The goal a claim at \<open>now\<close> works on.\<close>

definition claim_goal :: "codec \<Rightarrow> u64 \<Rightarrow> string \<Rightarrow> store \<Rightarrow> goal option" where
  "claim_goal cd now gid st =
     (case (registry_entry_of st gid, store_events cd gid st) of
        (Some entry, Inr es) \<Rightarrow> fold_ledger now entry es
      | _ \<Rightarrow> None)"

lemma try_claim_eq:
  assumes "claim_goal cd now gid st = Some g"
  shows "try_claim_todo_with_workspace cd e now gid tid agent secs pid force st
    = (case normalize_ttl secs of
         Inl err \<Rightarrow> (Inl err, st)
       | Inr ttl \<Rightarrow>
           (if \<not> valid_goal_id gid then (Inl invalid_goal_id_error, st)
            else case claim_verdict_of e g tid agent now force of
               Inl err \<Rightarrow> (Inl err, snd (open_events gid st))
             | Inr Refused \<Rightarrow> (Inr \<lparr>cr_claimed = False, cr_stolen = False\<rparr>, snd (open_events gid st))
             | Inr (Granted stolen paths forced) \<Rightarrow>
                 (Inr \<lparr>cr_claimed = True, cr_stolen = stolen\<rparr>,
                  write_events gid
                    (events_text gid st
                     @ concat (map (line_of cd)
                         (claim_entries cd gid tid agent (now + ttl) pid paths forced now)))
                    (snd (open_events gid st)))))"
proof -
  obtain entry es where e: "registry_entry_of st gid = Some entry"
    "parse_ledger cd (schema_or_legacy cd st gid) (events_text gid st) = Inr es"
    "fold_ledger now entry es = Some g"
    using assms by (auto simp: claim_goal_def store_events_text split: option.splits sum.splits)
  have o: "open_events gid st = (events_text gid st, snd (open_events gid st))"
    using open_events_text [of gid st] by (simp add: prod_eq_iff)
  show ?thesis
    unfolding try_claim_todo_with_workspace_def
    by (subst o) (simp only: e sum.case option.case prod.case)
qed

lemma store_events_opened: "store_events cd gid (snd (open_events gid st)) = store_events cd gid st"
proof -
  have "schema_or_legacy cd (snd (open_events gid st)) gid = schema_or_legacy cd st gid"
    by (rule schema_cong) (simp add: open_events_schema)
  moreover have "events_text gid (snd (open_events gid st)) = events_text gid st"
    by (simp add: open_events_def events_text_def Let_def split: option.split)
  ultimately show ?thesis by (simp add: store_events_text)
qed

lemma try_claim_held:
  assumes "claim_goal cd now gid st = Some g" "find_todo g tid = Some t" "held_by_live_peer e agent now t"
    and "try_claim_todo_with_workspace cd e now gid tid agent secs pid force st = (r, st')"
  shows "(\<forall>c. r = Inr c \<longrightarrow> \<not> cr_claimed c) \<and> store_events cd gid st' = store_events cd gid st"
  using assms(4)
  by (auto simp: try_claim_eq [OF assms(1)] claim_verdict_held [OF assms(2,3)] store_events_opened
      split: sum.splits if_splits)

text \<open>Reading what a claim wrote.\<close>

lemma parse_ledger_entries:
  assumes "parse_ledger cd f text = Inr es" "terminated text" "distinct (map sd_event_id ss)"
    and "\<forall>s \<in> set ss. reads_back cd s \<and> sd_event_id s \<notin> effective_id cd ` set es"
  shows "parse_ledger cd f (text @ concat (map (line_of cd) ss)) = Inr (es @ ss)"
  using assms
proof (induction ss arbitrary: "text" es)
  case (Cons s ss)
  have s: "reads_back cd s" using Cons.prems(4) by simp
  have "parse_ledger cd f (text @ line_of cd s) = Inr (es @ [s])"
    using Cons.prems by (intro parse_ledger_snoc) (auto simp: image_iff)
  moreover have "terminated (text @ line_of cd s)" by (rule live_lines_append(2) [OF Cons.prems(2) s])
  moreover have "\<forall>x \<in> set ss. reads_back cd x \<and> sd_event_id x \<notin> effective_id cd ` set (es @ [s])"
    using Cons.prems(3,4) effective_id_line [OF s] by (auto simp: image_iff)
  ultimately show ?case using Cons.IH [of "text @ line_of cd s" "es @ [s]"] Cons.prems(3) by simp
qed simp

lemma later_reader_sees_claim:
  assumes "fold_ledger now entry es = Some g" "find_todo g tid = Some t"
  shows "\<exists>h u. fold_ledger later entry (es @ claim_entries cd gid tid a x pid paths forced now) = Some h
    \<and> find_todo h tid = Some u \<and> t_claimed_by u = Some a \<and> t_lease_expires_at u = Some x
    \<and> t_holder_pid u = pid"
proof -
  obtain h where h: "fold_ledger later entry es = Some h" "same_rows g h"
    using same_rows_fold [OF assms(1), of later] by blast
  then obtain v where v: "find_todo h tid = Some v"
    using assms(2) find_same [OF h(2), of tid] by (cases "find_todo h tid") auto
  obtain h1 where h1: "apply_event later (claim_event gid tid a x pid now) h = Some h1"
    by (simp add: apply_event_def apply_kind_def claim_event_def)
  have "find_todo h1 tid = Some (v\<lparr>t_claimed_by := Some a, t_lease_expires_at := Some x, t_holder_pid := pid\<rparr>)"
    using find_todo_apply [OF h1 [unfolded apply_event_def] v] by (simp add: claim_event_def)
  moreover have "apply_event later (lock_event gid tid a paths forced now) h1 = Some h1"
    by (simp add: apply_event_def apply_kind_def lock_event_def)
  ultimately show ?thesis
    using h(1) h1 by (auto simp: fold_ledger_def apply_all_append claim_entries_def kernel_stored_def)
qed

lemma claim_writes:
  assumes "claim_goal cd now gid st = Some g" "valid_goal_id gid" "normalize_ttl secs = Inr ttl"
    and "claim_verdict_of e g tid a now force = Inr (Granted stolen paths forced)"
    and "entries = claim_entries cd gid tid a (now + ttl) pid paths forced now"
  shows "\<exists>st'. try_claim_todo_with_workspace cd e now gid tid a secs pid force st
                 = (Inr \<lparr>cr_claimed = True, cr_stolen = stolen\<rparr>, st')
    \<and> (\<forall>i. registry_entry_of st' i = registry_entry_of st i)
    \<and> store_events cd gid st' = parse_ledger cd (schema_or_legacy cd st gid)
                                (events_text gid st @ concat (map (line_of cd) entries))"
proof (intro exI conjI)
  show "try_claim_todo_with_workspace cd e now gid tid a secs pid force st
      = (Inr \<lparr>cr_claimed = True, cr_stolen = stolen\<rparr>,
         write_events gid (events_text gid st @ concat (map (line_of cd) entries)) (snd (open_events gid st)))"
    using assms(2-5) by (simp add: try_claim_eq [OF assms(1)])
qed (simp_all add: store_events_written)

lemma map_names_nonempty:
  "set (map n cs) = {h. p h \<and> (\<exists>u \<in> U. q h u)} \<Longrightarrow> cs \<noteq> [] \<longleftrightarrow> (\<exists>u \<in> U. \<exists>h. p h \<and> q h u)"
proof -
  assume "set (map n cs) = {h. p h \<and> (\<exists>u \<in> U. q h u)}"
  moreover have "cs \<noteq> [] \<longleftrightarrow> set (map n cs) \<noteq> {}" by simp
  ultimately show ?thesis by (simp only:) blast
qed

section \<open>Properties\<close>

text \<open>C7: a claim is decided exactly: it is granted precisely when the todo exists, is neither done nor
  superseded, is not reserved for another owner, is not held by a live peer, its write scopes can be resolved
  and, unless forced, its write set overlaps no other agent's live lease; the granted write set is the
  effective one, \<open>stolen\<close> says that somebody else held it, and \<open>forced\<close> that an overlap was overridden.\<close>

theorem claim_decision_exact:
  "claim_verdict_of e g tid agent now force = Inr (Granted stolen paths forced) \<longleftrightarrow>
     (\<exists>t. find_todo g tid = Some t
       \<and> t_status t \<notin> {Done, Superseded} \<and> t_owner t \<in> {None, Some agent}
       \<and> \<not> held_by_live_peer e agent now t \<and> \<not> unresolvable_scope g tid now
       \<and> paths = todo_workspaces e g agent t
       \<and> (stolen \<longleftrightarrow> t_lease_expires_at t \<noteq> None \<and> (\<exists>h. t_claimed_by t = Some h \<and> h \<noteq> agent))
       \<and> (forced \<longleftrightarrow> (\<exists>u \<in> set (g_todos g). \<exists>h. h \<noteq> agent \<and> live_holder e u h now
                       \<and> (\<exists>m \<in> set paths. \<exists>w \<in> set (todo_workspaces e g h u). paths_overlap m w)))
       \<and> (forced \<longrightarrow> force))"
proof -
  have overlap: "todo_workspace_conflicts e g agent t now \<noteq> [] \<longleftrightarrow>
      (\<exists>u \<in> set (g_todos g). \<exists>h. h \<noteq> agent \<and> live_holder e u h now
         \<and> (\<exists>m \<in> set (todo_workspaces e g agent t). \<exists>w \<in> set (todo_workspaces e g h u). paths_overlap m w))" for t
    by (rule map_names_nonempty [where n = wc_holder_agent_id])
      (use conflicts_spec [of e g agent t now] in \<open>unfold Let_def, blast\<close>)
  have stolen: "(case lease_of t of None \<Rightarrow> False | Some (holder, _, _) \<Rightarrow> holder \<noteq> agent) \<longleftrightarrow>
      t_lease_expires_at t \<noteq> None \<and> (\<exists>h. t_claimed_by t = Some h \<and> h \<noteq> agent)" for t
    by (auto simp: lease_of_def split: option.splits)
  have owner: "(case t_owner t of None \<Rightarrow> False | Some owner \<Rightarrow> owner \<noteq> agent) \<longleftrightarrow> t_owner t \<notin> {None, Some agent}" for t
    by (auto split: option.splits)
  show ?thesis
  proof (cases "find_todo g tid")
    case None
    then show ?thesis by (simp add: claim_verdict_of_def)
  next
    case (Some t)
    define cs where "cs = todo_workspace_conflicts e g agent t now"
    define S where "S \<longleftrightarrow> t_lease_expires_at t \<noteq> None \<and> (\<exists>h. t_claimed_by t = Some h \<and> h \<noteq> agent)"
    have "claim_verdict_of e g tid agent now force = Inr (Granted stolen paths forced) \<longleftrightarrow>
        t_status t \<notin> {Done, Superseded} \<and> t_owner t \<in> {None, Some agent}
        \<and> \<not> held_by_live_peer e agent now t \<and> \<not> unresolvable_scope g tid now
        \<and> paths = todo_workspaces e g agent t \<and> stolen = S \<and> (forced \<longleftrightarrow> cs \<noteq> []) \<and> (forced \<longrightarrow> force)"
      unfolding claim_verdict_of_def Some option.case Let_def cs_def [symmetric] stolen S_def [symmetric]
        owner
      by (cases force; cases "cs = []") auto
    then show ?thesis using overlap [of t] by (auto simp: Some S_def cs_def)
  qed
qed

text \<open>A race for one todo has at most one winner: whatever claims are tried on the replayed goal, one
  after the other, all those that succeed are by the same agent.\<close>

theorem claim_race_single_winner:
  assumes "0 < ttl" "pid_answers e pid"
  shows "\<exists>a. set (fst (lc.race ttl e pid gid tid now bs g)) \<subseteq> {a}"
  by (rule lcg.race_single_winner) simp

text \<open>C6: a granted claim excludes every peer until it expires: when the ids of the lines it writes are new,
  the lines read back and the ledger file ends in a newline, the claim is reported, the ledger then reads as before with exactly those entries added, and any other
  agent that claims the same todo before the expiry, with any options and at its own clock, is not granted and
  leaves the ledger unchanged, as long as the recorded process, if any, answers.\<close>

theorem claim_excludes_peers:
  assumes "claim_goal cd now gid st = Some g" "valid_goal_id gid" "normalize_ttl secs = Inr ttl"
    and "claim_verdict_of e g tid a now force = Inr (Granted stolen paths forced)"
    and "entries = claim_entries cd gid tid a (now + ttl) pid paths forced now"
    and "store_events cd gid st = Inr es" "terminated (events_text gid st)"
    and "distinct (map sd_event_id entries)"
    and "\<forall>s \<in> set entries. reads_back cd s \<and> sd_event_id s \<notin> effective_id cd ` set es"
  shows "\<exists>st'. try_claim_todo_with_workspace cd e now gid tid a secs pid force st
                 = (Inr \<lparr>cr_claimed = True, cr_stolen = stolen\<rparr>, st')
    \<and> store_events cd gid st' = Inr (es @ entries)
    \<and> (\<forall>e' later b secs' pid' force'. b \<noteq> a \<and> later < now + ttl \<and> pid_answers e' pid \<longrightarrow>
         (\<exists>r st''. try_claim_todo_with_workspace cd e' later gid tid b secs' pid' force' st' = (r, st'')
            \<and> (\<forall>c. r = Inr c \<longrightarrow> \<not> cr_claimed c) \<and> store_events cd gid st'' = Inr (es @ entries)))"
proof -
  obtain st' where st': "try_claim_todo_with_workspace cd e now gid tid a secs pid force st
        = (Inr \<lparr>cr_claimed = True, cr_stolen = stolen\<rparr>, st')"
    "\<forall>i. registry_entry_of st' i = registry_entry_of st i"
    "store_events cd gid st' = parse_ledger cd (schema_or_legacy cd st gid) (events_text gid st @ concat (map (line_of cd) entries))"
    using claim_writes [OF assms(1-5)] by blast
  have read: "store_events cd gid st' = Inr (es @ entries)"
    unfolding st'(3) using assms(6-9) by (intro parse_ledger_entries) (simp_all add: store_events_text)
  obtain entry where entry: "registry_entry_of st gid = Some entry" "fold_ledger now entry es = Some g"
    using assms(1,6) by (auto simp: claim_goal_def split: option.splits)
  obtain t where t: "find_todo g tid = Some t" by (rule claim_verdict_granted [OF assms(4)])
  have "\<exists>r st''. try_claim_todo_with_workspace cd e' later gid tid b secs' pid' force' st' = (r, st'')
       \<and> (\<forall>c. r = Inr c \<longrightarrow> \<not> cr_claimed c) \<and> store_events cd gid st'' = Inr (es @ entries)"
    if "b \<noteq> a" "later < now + ttl" "pid_answers e' pid" for e' later b secs' pid' force'
  proof -
    obtain h u where u: "fold_ledger later entry (es @ entries) = Some h" "find_todo h tid = Some u"
      "t_claimed_by u = Some a" "t_lease_expires_at u = Some (now + ttl)" "t_holder_pid u = pid"
      using later_reader_sees_claim [OF entry(2) t] assms(5) by blast
    then have "claim_goal cd later gid st' = Some h" by (simp add: claim_goal_def st'(2) entry(1) read)
    moreover have "held_by_live_peer e' b later u"
      using u that by (simp add: held_by_live_peer_iff pid_answers_def)
    ultimately show ?thesis using try_claim_held u(2) read
      by (metis (no_types, lifting) prod.exhaust)
  qed
  with st'(1) read show ?thesis by blast
qed

text \<open>A claim repeated in the second it was given up is lost: when the ledger already has the same claim
  (the agent claimed this todo in this second and released it since), claiming again reports success, but
  the new line reads as a repetition of the old one, so every later reader, and every competing claim, sees the
  ledger as it was before.\<close>

theorem same_second_reclaim_lost:
  assumes "claim_goal cd now gid st = Some g" "valid_goal_id gid" "normalize_ttl secs = Inr ttl"
    and "claim_verdict_of e g tid a now force = Inr (Granted stolen [] forced)"
    and "s = kernel_stored cd (claim_event gid tid a (now + ttl) pid now)" "reads_back cd s"
    and "store_events cd gid st = Inr es" "terminated (events_text gid st)" "s \<in> set es"
  shows "\<exists>st'. try_claim_todo_with_workspace cd e now gid tid a secs pid force st
                 = (Inr \<lparr>cr_claimed = True, cr_stolen = stolen\<rparr>, st')
    \<and> store_events cd gid st' = Inr es
    \<and> (\<forall>later. claim_goal cd later gid st' = claim_goal cd later gid st)"
proof -
  obtain st' where st': "try_claim_todo_with_workspace cd e now gid tid a secs pid force st
        = (Inr \<lparr>cr_claimed = True, cr_stolen = stolen\<rparr>, st')"
    "\<forall>i. registry_entry_of st' i = registry_entry_of st i"
    "store_events cd gid st' = parse_ledger cd (schema_or_legacy cd st gid) (events_text gid st @ line_of cd s)"
    using claim_writes [OF assms(1-4) refl, of pid] by (auto simp: claim_entries_def assms(5))
  have "store_events cd gid st' = Inr es"
    unfolding st'(3) using assms(6-9)
    by (intro parse_ledger_again [of _ s _ _ _ s]) (simp_all add: store_events_text effective_id_line)
  moreover from this have "claim_goal cd later gid st' = claim_goal cd later gid st" for later
    by (simp add: claim_goal_def st'(2) assms(7))
  ultimately show ?thesis using st'(1) by blast
qed

section \<open>The lease command\<close>

text \<open>What \<open>renew\<close>, \<open>release\<close> and \<open>expire\<close> of \<open>cmd_lease\<close> append: the operation runs on the
  replayed todo, and its event is written unless nothing changed.\<close>

datatype lease_sub = SubRenew | SubRelease | SubExpire

definition lease_change :: "lease_sub \<Rightarrow> string \<Rightarrow> string \<Rightarrow> string \<Rightarrow> u64 \<Rightarrow> u64 \<Rightarrow> todo \<Rightarrow> string + event option" where
  "lease_change sub gid tid agent secs now t =
     (case sub of
        SubRenew \<Rightarrow>
          (case lease_renew agent secs now t of
             Inl err \<Rightarrow> Inl err
           | Inr (_, t') \<Rightarrow>
               Inr (Some \<lparr>ev_kind = TodoRenewed tid agent
                                      (case t_lease_expires_at t' of None \<Rightarrow> now | Some x \<Rightarrow> x),
                          ev_goal_id = gid, ev_ts = now\<rparr>))
      | SubRelease \<Rightarrow>
          (case lease_release agent now t of
             Inl err \<Rightarrow> Inl err
           | Inr (op, _) \<Rightarrow>
               Inr (if op = Released True then None
                    else Some \<lparr>ev_kind = TodoReleased tid agent, ev_goal_id = gid, ev_ts = now\<rparr>))
      | SubExpire \<Rightarrow>
          (case lease_expire now t of
             Inl err \<Rightarrow> Inl err
           | Inr (op, _) \<Rightarrow>
               Inr (if op = ExpiredOp True
                    then Some \<lparr>ev_kind = TodoExpired tid, ev_goal_id = gid, ev_ts = now\<rparr> else None)))"

text \<open>The todo the operation leaves.\<close>

definition lease_result :: "lease_sub \<Rightarrow> string \<Rightarrow> u64 \<Rightarrow> u64 \<Rightarrow> todo \<Rightarrow> todo" where
  "lease_result sub agent secs now t =
     (case sub of SubRenew \<Rightarrow> kept t (lease_renew agent secs now t)
      | SubRelease \<Rightarrow> kept t (lease_release agent now t)
      | SubExpire \<Rightarrow> kept t (lease_expire now t))"

definition todo_not_found :: "string \<Rightarrow> string" where
  "todo_not_found tid = ''todo '' @ tid @ '' not found''"

definition replayed_todo :: "codec \<Rightarrow> u64 \<Rightarrow> string \<Rightarrow> string \<Rightarrow> store \<Rightarrow> string + todo" where
  "replayed_todo cd now gid tid st =
     (case replay_store cd now gid st of
        Inl err \<Rightarrow> Inl err
      | Inr None \<Rightarrow> Inl (''goal '' @ gid @ '' not found'')
      | Inr (Some g) \<Rightarrow>
          (case find_todo g tid of None \<Rightarrow> Inl (todo_not_found tid) | Some t \<Rightarrow> Inr t))"

definition cmd_lease_change ::
  "codec \<Rightarrow> u64 \<Rightarrow> lease_sub \<Rightarrow> string \<Rightarrow> string \<Rightarrow> string option \<Rightarrow> u64 \<Rightarrow> store \<Rightarrow> (string + unit) \<times> store" where
  "cmd_lease_change cd now sub gid tid agent_id secs st =
     (case replayed_todo cd now gid tid st of
        Inl err \<Rightarrow> (Inl err, st)
      | Inr t \<Rightarrow>
          (let agent = (case agent_id of None \<Rightarrow> ''default-agent'' | Some a \<Rightarrow> a) in
           case lease_change sub gid tid agent secs now t of
             Inl err \<Rightarrow> (Inl err, st)
           | Inr None \<Rightarrow> (Inr (), st)
           | Inr (Some ev) \<Rightarrow>
               (case store_append cd now ev st of
                  (Inl err, st') \<Rightarrow> (Inl err, st')
                | (Inr _, st') \<Rightarrow> (Inr (), st'))))"

text \<open>The result of \<open>claim\<close>: whether the lease was stolen, and the expiry it reports.\<close>

definition cmd_lease_claim ::
  "codec \<Rightarrow> guard_env \<Rightarrow> u64 \<Rightarrow> string \<Rightarrow> string \<Rightarrow> string option \<Rightarrow> u64 \<Rightarrow> bool \<Rightarrow> store \<Rightarrow>
     (string + bool \<times> u64) \<times> store" where
  "cmd_lease_claim cd e now gid tid agent_id secs force st =
     (case replayed_todo cd now gid tid st of
        Inl err \<Rightarrow> (Inl err, st)
      | Inr t \<Rightarrow>
          (let agent = (case agent_id of None \<Rightarrow> ''default-agent'' | Some a \<Rightarrow> a) in
           if t_status t \<noteq> Open then (Inl ''task lease requires an open todo'', st)
           else case try_claim_todo_with_workspace cd e now gid tid agent secs None force st of
             (Inl err, st') \<Rightarrow> (Inl err, st')
           | (Inr c, st') \<Rightarrow>
               (if \<not> cr_claimed c
                then (Inl ''todo already has an active lease held by another agent'', st')
                else case normalize_ttl secs of
                  Inl err \<Rightarrow> (Inl err, st')
                | Inr ttl \<Rightarrow> (Inr (cr_stolen c, now + ttl), st'))))"

text \<open>the event-sourced lease refines the lease state machine: whatever the renew, release or expire
  command appends, replaying it, at any clock, leaves the todo exactly as the operation left it in
  memory; and when the command appends nothing or fails, the operation left the todo as it was.\<close>

theorem lease_commands_refine:
  assumes "find_todo g tid = Some t"
  shows "case lease_change sub gid tid agent secs now t of
      Inr (Some ev) \<Rightarrow> \<exists>g'. apply_event later ev g = Some g'
                           \<and> find_todo g' tid = Some (lease_result sub agent secs now t)
    | _ \<Rightarrow> lease_result sub agent secs now t = t"
proof -
  have replay: "\<exists>g'. apply_event later \<lparr>ev_kind = k, ev_goal_id = gid, ev_ts = now\<rparr> g = Some g' \<and> find_todo g' tid = Some u"
    if "k = TodoRenewed tid agent x \<and> u = renew_replayed now agent x t
        \<or> k = TodoReleased tid agent \<and> u = release_replayed now agent t
        \<or> k = TodoExpired tid \<and> u = expire_replayed now t" for k x u
  proof -
    have "\<exists>g'. apply_kind later gid now k g = Some g'" using that by (auto simp: apply_kind_def)
    then show ?thesis
      using find_todo_apply [of later gid now k g _ tid t] assms that by (auto simp: apply_event_def)
  qed
  show ?thesis
  proof (cases sub)
    case SubRenew
    have "u = renew_replayed now agent x t"
      if "lease_renew agent secs now t = Inr (op, u)" "t_lease_expires_at u = Some x" for op u x
      using that by (auto simp: lease_renew_def renew_replayed_def kernel_simps
          split: sum.splits lease_status.splits if_splits)
    moreover have "\<exists>x. t_lease_expires_at u = Some x" if "lease_renew agent secs now t = Inr (op, u)" for op u
      using that by (auto simp: lease_renew_def split: sum.splits lease_status.splits if_splits)
    ultimately show ?thesis
      using replay by (fastforce simp: SubRenew lease_change_def lease_result_def split: sum.split)
  next
    case SubRelease
    then show ?thesis
      using replay [of "TodoReleased tid agent"]
      by (auto simp: lease_change_def lease_result_def lease_release_def release_replayed_def
          drop_lease_def kernel_simps split: lease_status.split)
  next
    case SubExpire
    then show ?thesis
      using replay [of "TodoExpired tid"]
      by (auto simp: lease_change_def lease_result_def lease_expire_def expire_replayed_def
          drop_lease_def kernel_simps split: lease_status.split)
  qed
qed

text \<open>Expiring is not atomic: a command that saw an expired lease appends its event even when another
  agent has claimed the todo in the meantime, and replaying it drops the fresh claim, which its holder was
  granted until a later time.\<close>

theorem late_expiry_drops_fresh_claim:
  assumes "find_todo g tid = Some t" "lease_change SubExpire gid tid a secs now t = Inr (Some ev)"
    and "claims_on e gid tid ttl pid now b g = Some g1"
  shows "\<exists>u g2. find_todo g1 tid = Some u \<and> t_claimed_by u = Some b \<and> t_lease_expires_at u = Some (now + ttl)
    \<and> apply_event later ev g1 = Some g2
    \<and> find_todo g2 tid = Some (u\<lparr>t_claimed_by := None, t_lease_expires_at := None, t_updated_at := now\<rparr>)"
proof -
  have ev: "ev = \<lparr>ev_kind = TodoExpired tid, ev_goal_id = gid, ev_ts = now\<rparr>"
    using assms(2) by (auto simp: lease_change_def split: sum.splits if_splits)
  obtain u where u: "find_todo g1 tid = Some u" "t_claimed_by u = Some b" "t_lease_expires_at u = Some (now + ttl)"
    using assms(3) by (elim claims_on_Some) simp
  obtain g2 where g2: "apply_event later ev g1 = Some g2"
    by (simp add: ev apply_event_def apply_kind_def)
  have "find_todo g2 tid = Some (expire_replayed now u)"
    using find_todo_apply [OF g2 [unfolded apply_event_def] u(1)] by (simp add: ev)
  then show ?thesis using u g2 by (simp add: expire_replayed_def)
qed

section \<open>Concrete claims\<close>

lemma digests_differ:
  "take 16 (content_digest ''a'') \<noteq> take 16 (content_digest ''t'')"
  "take 16 (content_digest ''r'') \<noteq> take 16 (content_digest ''t'')"
  "take 16 (content_digest ''a'') \<noteq> take 16 (content_digest ''r'')"
  by code_simp+

definition demo_todo_goal :: goal where
  "demo_todo_goal = the (apply_all 5 [demo_add] (goal_new 5 ''g'' ''o'' ''/r''))"

lemma demo_todo_verdict:
  "claim_verdict_of demo_guard demo_todo_goal ''T1'' ''ann'' 5 False = Inr (Granted False [] False)"
  by code_simp

lemma claim_decision_exact_witness:
  "\<not> held_by_live_peer demo_guard ''ann'' 5 (the (find_todo demo_todo_goal ''T1''))"
  using demo_todo_verdict claim_decision_exact
    [of demo_guard demo_todo_goal "''T1''" "''ann''" 5 False False "[]" False] by auto

lemma claim_race_single_winner_witness:
  "\<exists>a. set (fst (lc.race 60 demo_guard (Some 7) ''g'' ''T1'' 5 [''ann'', ''bob'', ''ann''] demo_todo_goal)) \<subseteq> {a}"
  by (rule claim_race_single_winner) (simp_all add: pid_answers_def demo_guard_def)

lemma lease_commands_refine_witness:
  "\<exists>ev g'. lease_change SubRelease ''g'' ''T1'' ''ann'' 0 6
             (take_lease ''ann'' 60 7 5 (the (find_todo demo_todo_goal ''T1''))) = Inr (Some ev)
     \<and> apply_event 9 ev (on_todo ''T1'' (take_lease ''ann'' 60 7 5) demo_todo_goal) = Some g'
     \<and> (\<exists>u. find_todo g' ''T1'' = Some u \<and> t_claimed_by u = None)"
proof -
  define g where "g = on_todo ''T1'' (take_lease ''ann'' 60 7 5) demo_todo_goal"
  define t where "t = take_lease ''ann'' 60 7 5 (the (find_todo demo_todo_goal ''T1''))"
  have t: "find_todo g ''T1'' = Some t" unfolding g_def t_def by code_simp
  have active: "lease_status_of t 6 = Active ''ann'' 65" by (simp add: t_def kernel_simps)
  define ev :: event where "ev = \<lparr>ev_kind = TodoReleased ''T1'' ''ann'', ev_goal_id = ''g'', ev_ts = 6\<rparr>"
  have c: "lease_change SubRelease ''g'' ''T1'' ''ann'' 0 6 t = Inr (Some ev)"
    "lease_result SubRelease ''ann'' 0 6 t = drop_lease 6 t"
    by (simp_all add: lease_change_def lease_result_def lease_release_def active ev_def)
  show ?thesis
    using lease_commands_refine [OF t, where sub = SubRelease and gid = "''g''" and agent = "''ann''"
        and secs = 0 and now = 6 and later = 9] c
    by (auto simp: g_def t_def drop_lease_def)
qed

lemma demo_todo_found: "\<exists>t. find_todo demo_todo_goal ''T1'' = Some t"
proof -
  have "find_todo demo_todo_goal ''T1'' \<noteq> None" by code_simp
  then show ?thesis by simp
qed

lemma late_expiry_drops_fresh_claim_witness:
  "\<exists>g1 g2 u. claims_on demo_guard ''g'' ''T1'' 60 None 70 ''bob''
               (on_todo ''T1'' (take_lease ''ann'' 60 7 5) demo_todo_goal) = Some g1
     \<and> apply_event 71 \<lparr>ev_kind = TodoExpired ''T1'', ev_goal_id = ''g'', ev_ts = 70\<rparr> g1 = Some g2
     \<and> find_todo g2 ''T1'' = Some u \<and> t_claimed_by u = None"
proof -
  define g where "g = on_todo ''T1'' (take_lease ''ann'' 60 7 5) demo_todo_goal"
  define t where "t = take_lease ''ann'' 60 7 5 (the (find_todo demo_todo_goal ''T1''))"
  have t: "find_todo g ''T1'' = Some t" unfolding g_def t_def by code_simp
  have "lease_status_of t 70 = Expired ''ann'' 65" by (simp add: t_def kernel_simps)
  then have c: "lease_change SubExpire ''g'' ''T1'' ''ann'' 0 70 t
      = Inr (Some \<lparr>ev_kind = TodoExpired ''T1'', ev_goal_id = ''g'', ev_ts = 70\<rparr>)"
    by (simp add: lease_change_def lease_expire_def)
  have "claim_verdict_of demo_guard g ''T1'' ''bob'' 70 False = Inr (Granted True [] False)"
    unfolding g_def by code_simp
  then obtain g1 where "claims_on demo_guard ''g'' ''T1'' 60 None 70 ''bob'' g = Some g1"
    by (simp add: claims_on_def apply_event_def apply_kind_def claim_event_def)
  with late_expiry_drops_fresh_claim [OF t c this, of 71] show ?thesis by (auto simp: g_def)
qed

text \<open>The demo store with the lines of some table events.\<close>

definition demo_lines :: "string list \<Rightarrow> store" where
  "demo_lines ls =
     write_events ''g'' (concat (map (\<lambda>l. l @ [newline_char]) ls)) demo_store"

definition table_stored :: "string \<Rightarrow> stored_event" where
  "table_stored l = kernel_stored table_codec (the (table_event l))"

lemma table_stored_line:
  assumes "l \<in> {''t'', ''a'', ''r''}"
  shows "reads_back table_codec (table_stored l)" "line_of table_codec (table_stored l) = l @ [newline_char]"
    "sd_event_id (table_stored l) = ''evt-'' @ take 16 (content_digest l)"
proof -
  obtain ev where ev: "table_event l = Some ev" using assms by (auto simp: table_event_def)
  show "reads_back table_codec (table_stored l)"
    using table_reads_back [OF ev] by (simp add: table_stored_def ev)
  show "line_of table_codec (table_stored l) = l @ [newline_char]"
    "sd_event_id (table_stored l) = ''evt-'' @ take 16 (content_digest l)"
    using table_labels [OF ev]
    by (simp_all add: table_stored_def ev line_of_def table_codec_def kernel_stored_def derive_event_id_def)
qed

lemma demo_lines_text: "events_text ''g'' (demo_lines ls) = concat (map (\<lambda>l. l @ [newline_char]) ls)"
  by (simp add: demo_lines_def events_text_def write_events_def)

lemma demo_lines_read:
  assumes "set ls \<subseteq> {''t'', ''a'', ''r''}" "distinct ls"
  shows "store_events table_codec ''g'' (demo_lines ls) = Inr (map table_stored ls)"
proof -
  have "inj_on (\<lambda>l. sd_event_id (table_stored l)) {''t'', ''a'', ''r''}"
    using digests_differ by (auto simp: inj_on_def table_stored_line(3))
  from inj_on_subset [OF this assms(1)] have "distinct (map sd_event_id (map table_stored ls))"
    using assms(2) by (simp add: distinct_map comp_def)
  moreover have "concat (map (\<lambda>l. l @ [newline_char]) ls)
      = [] @ concat (map (line_of table_codec) (map table_stored ls))"
    using assms(1) by (auto simp: table_stored_line(2) subset_iff intro!: arg_cong [where f = concat])
  ultimately show ?thesis
    using assms(1) parse_ledger_entries [of table_codec _ "[]" "[]" "map table_stored ls"]
    by (auto simp: store_events_text demo_lines_text terminated_def table_stored_line(1) subset_iff)
qed

lemma demo_lines_terminated: "terminated (events_text ''g'' (demo_lines ls))"
  by (cases ls rule: rev_cases) (simp_all add: demo_lines_text terminated_def)

lemma demo_lines_entry: "registry_entry_of (demo_lines ls) ''g'' = Some (hd (st_registry demo_store))"
  by (simp add: demo_lines_def) (simp add: registry_entry_of_def demo_store_def)

lemma demo_claim_entry:
  "claim_entries table_codec ''g'' ''T1'' ''ann'' (5 + 60) None [] False 5 = [table_stored ''a'']"
  by (simp add: claim_entries_def table_stored_def table_event_def claim_event_def)

lemma demo_ttl: "normalize_ttl 60 = Inr 60"
  by (simp add: normalize_ttl_def MAX_TASK_LEASE_TTL_SECONDS_def)

lemma demo_valid: "valid_goal_id ''g''"
  by (simp add: valid_goal_id_def is_ascii_alphanumeric_def)

lemma table_stored_events:
  "sd_event (table_stored ''t'') = demo_add"
  "sd_event (table_stored ''a'') = \<lparr>ev_kind = TodoClaimed ''T1'' ''ann'' 65 None, ev_goal_id = ''g'', ev_ts = 5\<rparr>"
  "sd_event (table_stored ''r'') = \<lparr>ev_kind = TodoReleased ''T1'' ''ann'', ev_goal_id = ''g'', ev_ts = 5\<rparr>"
  by (simp_all add: table_stored_def kernel_stored_def demo_add_def table_event_def)

lemma demo_fold:
  "fold_ledger now (hd (st_registry demo_store)) es = apply_all now (map sd_event es) (goal_new now ''g'' ''o'' ''/r'')"
  by (simp add: fold_ledger_def demo_store_def)

lemma claim_excludes_peers_witness:
  "\<exists>st'. try_claim_todo_with_workspace table_codec demo_guard 5 ''g'' ''T1'' ''ann'' 60 None False (demo_lines [''t''])
           = (Inr \<lparr>cr_claimed = True, cr_stolen = False\<rparr>, st')
    \<and> (\<forall>c. fst (try_claim_todo_with_workspace table_codec demo_guard 64 ''g'' ''T1'' ''bob'' 0 None True st') = Inr c
          \<longrightarrow> \<not> cr_claimed c)"
proof -
  have es: "store_events table_codec ''g'' (demo_lines [''t'']) = Inr [table_stored ''t'']"
    using demo_lines_read [of "[''t'']"] by simp
  obtain g where "apply_all 5 [demo_add] (goal_new 5 ''g'' ''o'' ''/r'') = Some g"
    by (simp add: demo_add_def table_event_def apply_event_def apply_kind_def)
  then have g: "claim_goal table_codec 5 ''g'' (demo_lines [''t'']) = Some demo_todo_goal"
    by (simp add: claim_goal_def demo_lines_entry es demo_fold table_stored_events demo_todo_goal_def
        del: apply_all.simps)
  have fresh: "\<forall>s \<in> set [table_stored ''a'']. reads_back table_codec s
      \<and> sd_event_id s \<notin> effective_id table_codec ` set [table_stored ''t'']"
    using digests_differ table_stored_line [of "''a''"] table_stored_line [of "''t''"] effective_id_line
    by auto
  have d: "distinct (map sd_event_id [table_stored ''a''])" by simp
  note win = claim_excludes_peers [OF g demo_valid demo_ttl demo_todo_verdict demo_claim_entry [symmetric] es
      demo_lines_terminated d fresh]
  from win obtain st' where st': "try_claim_todo_with_workspace table_codec demo_guard 5 ''g'' ''T1'' ''ann'' 60 None False
      (demo_lines [''t'']) = (Inr \<lparr>cr_claimed = True, cr_stolen = False\<rparr>, st')"
    "\<forall>e' later b secs' pid' force'. b \<noteq> ''ann'' \<and> later < 5 + 60 \<and> pid_answers e' None \<longrightarrow>
         (\<exists>r st''. try_claim_todo_with_workspace table_codec e' later ''g'' ''T1'' b secs' pid' force' st' = (r, st'')
            \<and> (\<forall>c. r = Inr c \<longrightarrow> \<not> cr_claimed c)
            \<and> store_events table_codec ''g'' st'' = Inr ([table_stored ''t''] @ [table_stored ''a'']))"
    by (elim exE conjE) (rule that)
  have "''bob'' \<noteq> ''ann'' \<and> (64 :: nat) < 5 + 60 \<and> pid_answers demo_guard None" by (simp add: pid_answers_def)
  from st'(2) [rule_format, OF this, of 0 None True] obtain r st'' where
    "try_claim_todo_with_workspace table_codec demo_guard 64 ''g'' ''T1'' ''bob'' 0 None True st' = (r, st'')"
    "\<forall>c. r = Inr c \<longrightarrow> \<not> cr_claimed c" by (elim exE conjE) (rule that)
  then show ?thesis by (intro exI [of _ st'] conjI st'(1)) simp
qed

definition demo_released_goal :: goal where
  "demo_released_goal =
     the (apply_all 5 (map sd_event (map table_stored [''t'', ''a'', ''r''])) (goal_new 5 ''g'' ''o'' ''/r''))"

lemma same_second_reclaim_lost_witness:
  "\<exists>st'. try_claim_todo_with_workspace table_codec demo_guard 5 ''g'' ''T1'' ''ann'' 60 None False
             (demo_lines [''t'', ''a'', ''r'']) = (Inr \<lparr>cr_claimed = True, cr_stolen = False\<rparr>, st')
    \<and> store_events table_codec ''g'' st' = Inr (map table_stored [''t'', ''a'', ''r''])"
proof -
  have es: "store_events table_codec ''g'' (demo_lines [''t'', ''a'', ''r'']) = Inr (map table_stored [''t'', ''a'', ''r''])"
    by (rule demo_lines_read) simp_all
  obtain g where "apply_all 5 (map sd_event (map table_stored [''t'', ''a'', ''r''])) (goal_new 5 ''g'' ''o'' ''/r'') = Some g"
    by (simp add: table_stored_events demo_add_def table_event_def apply_event_def apply_kind_def)
  then have g: "claim_goal table_codec 5 ''g'' (demo_lines [''t'', ''a'', ''r'']) = Some demo_released_goal"
    by (simp only: claim_goal_def demo_lines_entry es demo_fold demo_released_goal_def
        option.case sum.case prod.case option.sel)
  have "claim_verdict_of demo_guard
      (the (apply_all 5 [the (table_event ''t''), the (table_event ''a''), the (table_event ''r'')]
              (goal_new 5 ''g'' ''o'' ''/r''))) ''T1'' ''ann'' 5 False = Inr (Granted False [] False)"
    by code_simp
  then have v: "claim_verdict_of demo_guard demo_released_goal ''T1'' ''ann'' 5 False = Inr (Granted False [] False)"
    by (simp only: demo_released_goal_def table_stored_def kernel_stored_def stored_event.simps list.map)
  have s: "table_stored ''a'' = kernel_stored table_codec (claim_event ''g'' ''T1'' ''ann'' (5 + 60) None 5)"
    by (simp add: table_stored_def table_event_def claim_event_def)
  show ?thesis
    using same_second_reclaim_lost [OF g demo_valid demo_ttl v s table_stored_line(1) es demo_lines_terminated]
    by auto
qed

end
