(* ===== verification/Delivery.thy ===== *)
theory Delivery
  imports Ledger
begin

text \<open>
  Delivery and its verification: the batch scale and the outcome of a run and the two streaks over
  a history (\<open>work_items/delivery.rs\<close>), the outcome of a delivery and the follow-through of an
  unverified one (\<open>work_items/delivery_outcome.rs\<close>), the evidence floor of a completion and its
  bounded tails (\<open>completion.rs\<close>), and the verdict of a validator process (\<open>validator.rs\<close>).

  \<open>lc\<close> is Unicode lowering (\<open>str::to_lowercase\<close>) where the code lowers text an operator wrote;
  searches for the fixed words of the code use \<open>lower\<close>. \<open>lossy\<close> is \<open>String::from_utf8_lossy\<close>.
\<close>

section \<open>Batch scale and outcome of a run\<close>

datatype delivery_batch_scale =
  TestOnly | SingleSurface | MultiSurface | Implementation | UnknownScale

fun batch_scale_label :: "delivery_batch_scale \<Rightarrow> string" where
  "batch_scale_label TestOnly = ''test_only''"
| "batch_scale_label SingleSurface = ''single_surface''"
| "batch_scale_label MultiSurface = ''multi_surface''"
| "batch_scale_label Implementation = ''implementation''"
| "batch_scale_label UnknownScale = ''unknown''"

datatype delivery_outcome =
  OutcomeProgress | SurfaceOnly | OutcomeGap | NotConfigured | UnknownOutcome

fun outcome_label :: "delivery_outcome \<Rightarrow> string" where
  "outcome_label OutcomeProgress = ''outcome_progress''"
| "outcome_label SurfaceOnly = ''surface_only''"
| "outcome_label OutcomeGap = ''outcome_gap''"
| "outcome_label NotConfigured = ''not_configured''"
| "outcome_label UnknownOutcome = ''unknown''"

definition is_progress_outcome :: "delivery_outcome \<Rightarrow> bool" where
  "is_progress_outcome out \<longleftrightarrow> out = OutcomeProgress"

definition TEST_ONLY_HINTS :: "string list" where
  "TEST_ONLY_HINTS = [''test-only'', ''test_only'', ''unit test'', ''isolated test'']"

definition MULTI_SURFACE_HINTS :: "string list" where
  "MULTI_SURFACE_HINTS =
     [''multi-surface'', ''multi_surface'', ''multiple surfaces'', ''across surfaces'']"

definition IMPLEMENTATION_HINTS :: "string list" where
  "IMPLEMENTATION_HINTS = [''implementation'', ''implemented'']"

definition evidence_text :: "(string \<Rightarrow> string) \<Rightarrow> run_record \<Rightarrow> string" where
  "evidence_text lc r = lc (trim (r_terminal_state r @ '' '' @ r_evidence r))"

definition mentions :: "string list \<Rightarrow> string \<Rightarrow> bool" where
  "mentions hints text \<longleftrightarrow> list_ex (\<lambda>h. contains_str h text) hints"

definition delivery_batch_scale_for_run ::
  "(string \<Rightarrow> string) \<Rightarrow> run_record \<Rightarrow> delivery_batch_scale" where
  "delivery_batch_scale_for_run lc r =
     (let text = evidence_text lc r in
      if mentions TEST_ONLY_HINTS text then TestOnly
      else if mentions MULTI_SURFACE_HINTS text then MultiSurface
      else if mentions IMPLEMENTATION_HINTS text then Implementation
      else if text = [] then UnknownScale
      else SingleSurface)"

definition delivery_outcome_for_run ::
  "(string \<Rightarrow> string) \<Rightarrow> run_record \<Rightarrow> string list \<Rightarrow> string list \<Rightarrow> delivery_outcome" where
  "delivery_outcome_for_run lc r markers surface =
     (let text = evidence_text lc r in
      if markers = [] \<and> surface = [] then NotConfigured
      else if mentions (map lc surface) text then SurfaceOnly
      else if mentions (map lc markers) text then OutcomeProgress
      else OutcomeGap)"

definition outcome_floor_configured :: "string list \<Rightarrow> string list \<Rightarrow> bool" where
  "outcome_floor_configured markers surface \<longleftrightarrow> markers \<noteq> [] \<or> surface \<noteq> []"

text \<open>Runs come newest first. The two loops count until they break.\<close>

fun gap_runs ::
  "(string \<Rightarrow> string) \<Rightarrow> string list \<Rightarrow> string list \<Rightarrow> run_record list \<Rightarrow> u32 \<Rightarrow> u32" where
  "gap_runs lc markers surface [] streak = streak"
| "gap_runs lc markers surface (r # rs) streak =
     (let out = delivery_outcome_for_run lc r markers surface in
      if is_progress_outcome out \<or> out = NotConfigured then streak
      else gap_runs lc markers surface rs (streak + 1))"

definition outcome_gap_streak ::
  "(string \<Rightarrow> string) \<Rightarrow> run_record list \<Rightarrow> string list \<Rightarrow> string list \<Rightarrow> u32" where
  "outcome_gap_streak lc runs markers surface =
     (if \<not> outcome_floor_configured markers surface then 0
      else gap_runs lc markers surface runs 0)"

fun small_runs :: "(string \<Rightarrow> string) \<Rightarrow> run_record list \<Rightarrow> u32 \<Rightarrow> u32" where
  "small_runs lc [] streak = streak"
| "small_runs lc (r # rs) streak =
     (let scale = delivery_batch_scale_for_run lc r in
      if \<not> (scale = SingleSurface \<or> scale = TestOnly) then streak
      else small_runs lc rs (streak + 1))"

definition small_delivery_batch_scale_streak :: "(string \<Rightarrow> string) \<Rightarrow> run_record list \<Rightarrow> u32" where
  "small_delivery_batch_scale_streak lc runs = small_runs lc runs 0"

section \<open>The outcome of a delivery\<close>

definition DELIVERY_OUTCOME_CHOICES :: "string list" where
  "DELIVERY_OUTCOME_CHOICES = [OUTCOME_DELIVERED, OUTCOME_VERIFIED, OUTCOME_FAILED, OUTCOME_REWORK]"

definition DEFAULT_FOLLOWTHROUGH_TURNS :: u32 where
  "DEFAULT_FOLLOWTHROUGH_TURNS = 3"

definition normalize_outcome :: "string \<Rightarrow> string option" where
  "normalize_outcome value =
     (let v = lower (trim value) in
      if v = OUTCOME_DELIVERED then Some OUTCOME_DELIVERED
      else if v = OUTCOME_VERIFIED then Some OUTCOME_VERIFIED
      else if v = OUTCOME_FAILED then Some OUTCOME_FAILED
      else if v = OUTCOME_REWORK then Some OUTCOME_REWORK
      else None)"

definition is_resolution :: "string \<Rightarrow> bool" where
  "is_resolution out \<longleftrightarrow> out = OUTCOME_VERIFIED \<or> out = OUTCOME_FAILED \<or> out = OUTCOME_REWORK"

definition validate_transition :: "delivery_state option \<Rightarrow> string \<Rightarrow> string + unit" where
  "validate_transition current nxt =
     (let cur = map_option d_outcome current in
      if cur = None \<and> nxt = OUTCOME_DELIVERED then Inr ()
      else if (cur = Some OUTCOME_FAILED \<or> cur = Some OUTCOME_REWORK) \<and> nxt = OUTCOME_DELIVERED
      then Inr ()
      else if cur = Some OUTCOME_DELIVERED \<and> nxt = OUTCOME_DELIVERED
      then Inl (''already delivered and pending verification '' @ em_dash
                @ '' resolve it with verified/failed/rework first'')
      else if cur = Some OUTCOME_VERIFIED \<and> nxt = OUTCOME_DELIVERED
      then Inl (''already verified '' @ em_dash
                @ '' the delivery is closed; open a new todo for new work'')
      else if cur = Some OUTCOME_DELIVERED \<and> is_resolution nxt then Inr ()
      else if is_resolution nxt
      then Inl (case cur of
                  None \<Rightarrow> ''no pending delivery for this todo (nothing was delivered yet)''
                | Some c \<Rightarrow> ''delivery is already resolved as `'' @ c @ ''`'')
      else Inl (''unknown outcome `'' @ nxt @ ''` (choices: ''
                @ join '', '' DELIVERY_OUTCOME_CHOICES @ '')''))"

record overdue_delivery =
  od_todo_id :: string
  od_delivered_turn :: u32
  od_turns_overdue :: u32
  od_todo_text :: string

definition overdue_deliveries :: "goal \<Rightarrow> u32 \<Rightarrow> u32 \<Rightarrow> overdue_delivery list" where
  "overdue_deliveries g current_turn threshold =
     (if current_turn = 0 then []
      else sort_key od_delivered_turn
        (List.map_filter
          (\<lambda>d. (let elapsed = current_turn - d_delivered_turn d in
                if elapsed \<ge> threshold
                then Some \<lparr>od_todo_id = d_todo_id d, od_delivered_turn = d_delivered_turn d,
                           od_turns_overdue = elapsed,
                           od_todo_text = (case find_todo g (d_todo_id d) of
                                             None \<Rightarrow> [] | Some t \<Rightarrow> t_text t)\<rparr>
                else None))
          (filter (\<lambda>d. d_outcome d = OUTCOME_DELIVERED \<and> d_followthrough_todo_id d = None)
             (g_delivery_states g))))"

definition followthrough_todo_text :: "overdue_delivery \<Rightarrow> string" where
  "followthrough_todo_text od =
     ''Follow-through: verify the delivery of '' @ od_todo_id od @ '' '' @ em_dash @ '' `''
     @ od_todo_text od @ ''` (delivered at turn '' @ dec (od_delivered_turn od)
     @ '', unverified for '' @ dec (od_turns_overdue od)
     @ '' turns; resolve via `future goal delivery record --todo-id '' @ od_todo_id od
     @ '' --outcome verified|failed|rework`)''"

section \<open>The evidence of a completion\<close>

definition missing_tokens :: "(string \<Rightarrow> string) \<Rightarrow> string \<Rightarrow> string \<Rightarrow> string list" where
  "missing_tokens lc acceptance evidence =
     filter (\<lambda>token. token \<noteq> [] \<and> \<not> contains_str (lc token) (lc evidence))
       (map trim (split_on CHR '','' acceptance))"

definition evidence_error :: "(string \<Rightarrow> string) \<Rightarrow> todo \<Rightarrow> string \<Rightarrow> string option" where
  "evidence_error lc t evidence0 =
     (let evidence = trim evidence0 in
      if t_class t \<noteq> Advancement then None
      else if evidence = []
      then Some (''todo '' @ t_id t
                 @ '' needs non-empty --evidence (artifacts, results and verification); --force is a manual operator override only'')
      else case t_acceptance t of
        None \<Rightarrow> None
      | Some acceptance \<Rightarrow>
          (let missing = missing_tokens lc acceptance evidence in
           if missing = [] then None
           else Some (''todo '' @ t_id t @ '' acceptance contract unmet: evidence must contain [''
                      @ acceptance @ ''] (missing: ['' @ join '', '' missing
                      @ '']); repair the handoff, not the criteria'')))"

definition check_record :: "(string \<Rightarrow> string) \<Rightarrow> todo \<Rightarrow> run_record \<Rightarrow> run_record" where
  "check_record lc t r =
     (if r_terminal_state r = ''completed'' \<and> r_error r = None
      then r\<lparr>r_error := evidence_error lc t (r_evidence r)\<rparr> else r)"

text \<open>The first character boundary at or after a byte index.\<close>

definition ceil_char_boundary :: "string \<Rightarrow> nat \<Rightarrow> nat" where
  "ceil_char_boundary s i =
     (if i \<ge> length s then length s else i + length (takeWhile is_continuation (drop i s)))"

definition tail :: "string \<Rightarrow> nat \<Rightarrow> string" where
  "tail text max_bytes =
     (if length text \<le> max_bytes then text
      else if max_bytes < length ellipsis then []
      else ellipsis
           @ drop (ceil_char_boundary text (length text - (max_bytes - length ellipsis))) text)"

definition pending_others :: "goal \<Rightarrow> string \<Rightarrow> usize" where
  "pending_others g tid =
     length (filter (\<lambda>t. t_id t \<noteq> tid \<and> \<not> (t_status t = Done \<or> t_status t = Superseded))
       (g_todos g))"

section \<open>The verdict of a validator\<close>

definition OUTPUT_BYTES :: usize where
  "OUTPUT_BYTES = 16384"

definition COULD_NOT_RUN_PREFIX :: string where
  "COULD_NOT_RUN_PREFIX = ''validator could not run''"

definition could_not_run :: "task_validation \<Rightarrow> bool" where
  "could_not_run receipt \<longleftrightarrow> starts_with COULD_NOT_RUN_PREFIX (v_summary receipt)"

definition shell_could_not_run :: "(string \<Rightarrow> string) \<Rightarrow> int \<Rightarrow> string \<Rightarrow> bool" where
  "shell_could_not_run lossy code stderr \<longleftrightarrow>
     code = 126 \<or> code = 127 \<or> code = 9009
     \<or> code = 2 \<and> contains_str ''syntax error'' (lower (lossy stderr))"

text \<open>\<open>drain\<close>: the bytes kept of what a pipe yields, one read after the other (a read of no bytes
  ends it).\<close>

fun drain_from :: "string \<Rightarrow> string list \<Rightarrow> string" where
  "drain_from retained [] = retained"
| "drain_from retained (chunk # chunks) =
     (if chunk = [] then retained
      else (let r = retained @ chunk in
            drain_from (if length r > OUTPUT_BYTES then drop (length r - OUTPUT_BYTES) r else r) chunks))"

definition drain :: "string list \<Rightarrow> string" where
  "drain chunks = drain_from [] chunks"

text \<open>\<open>validate\<close>, given what running the command produced: an error, or its exit code (none when a
  signal killed it) and what was kept of its two streams.\<close>

definition validate ::
  "(string \<Rightarrow> string) \<Rightarrow> string \<Rightarrow> string + int option \<times> string \<times> string \<Rightarrow> task_validation" where
  "validate lossy command result =
     (let (st, summary, exit) =
        (case result of
           Inr (code, stdout, stderr) \<Rightarrow>
             (let output = ''stdout (tail):'' @ newline @ lossy stdout @ newline
                           @ ''stderr (tail):'' @ newline @ lossy stderr in
              if code = Some 0
              then (Passed, ''validator passed (exit 0)'' @ newline @ output, code)
              else case code of
                Some c \<Rightarrow>
                  (if shell_could_not_run lossy c stderr
                   then (Failed, COULD_NOT_RUN_PREFIX @ '': the shell could not start the command (exit ''
                           @ dec_int c @ '') '' @ em_dash
                           @ '' this is not a verdict on the artifact; fix the --verify command''
                           @ newline @ output, code)
                   else (Failed, ''validator exited '' @ dec_int c @ '' '' @ em_dash
                           @ '' repair output, not acceptance criteria'' @ newline @ output, code))
              | None \<Rightarrow>
                  (Failed, ''validator exited '' @ dec_int (- 1) @ '' '' @ em_dash
                     @ '' repair output, not acceptance criteria'' @ newline @ output, code))
         | Inl err \<Rightarrow> (Inconclusive, ''validator failed to run: '' @ err, None));
          recovery = (if st \<noteq> Passed then Some RepairRequired else None)
      in task_validation_receipt st command summary recovery exit)"

section \<open>The streaks\<close>

lemma gap_runs_eq:
  "gap_runs lc markers surface rs n
   = n + length (takeWhile (\<lambda>r. delivery_outcome_for_run lc r markers surface
                                \<notin> {OutcomeProgress, NotConfigured}) rs)"
  by (induction rs arbitrary: n) (auto simp: is_progress_outcome_def Let_def)

lemma small_runs_eq:
  "small_runs lc rs n
   = n + length (takeWhile (\<lambda>r. delivery_batch_scale_for_run lc r \<in> {SingleSurface, TestOnly}) rs)"
  by (induction rs arbitrary: n) (auto simp: Let_def)

lemma not_configured_iff:
  "delivery_outcome_for_run lc r markers surface = NotConfigured
   \<longleftrightarrow> \<not> outcome_floor_configured markers surface"
  by (auto simp: delivery_outcome_for_run_def outcome_floor_configured_def Let_def)

lemma progress_iff:
  "delivery_outcome_for_run lc r markers surface = OutcomeProgress
   \<longleftrightarrow> (\<exists>h \<in> set markers. contains_str (lc h) (evidence_text lc r))
       \<and> \<not> (\<exists>h \<in> set surface. contains_str (lc h) (evidence_text lc r))"
  by (auto simp: delivery_outcome_for_run_def mentions_def list_ex_iff Let_def)

text \<open>The outcome-gap streak is the number of newest runs before the first one that made progress,
  where a run makes progress when its lowered evidence holds a progress marker and no surface-only hint;
  without a configured floor it is 0.\<close>

theorem outcome_gap_streak_exact:
  "outcome_gap_streak lc runs markers surface
   = (if markers = [] \<and> surface = [] then 0
      else length (takeWhile (\<lambda>r. \<not> ((\<exists>h \<in> set markers. contains_str (lc h) (evidence_text lc r))
             \<and> \<not> (\<exists>h \<in> set surface. contains_str (lc h) (evidence_text lc r)))) runs))"
proof (cases "markers = [] \<and> surface = []")
  case False
  then have "delivery_outcome_for_run lc r markers surface \<noteq> NotConfigured" for r
    by (auto simp: not_configured_iff outcome_floor_configured_def)
  then have "outcome_gap_streak lc runs markers surface
      = length (takeWhile (\<lambda>r. delivery_outcome_for_run lc r markers surface \<noteq> OutcomeProgress) runs)"
    using False by (simp add: outcome_gap_streak_def gap_runs_eq outcome_floor_configured_def)
  then show ?thesis by (simp only: progress_iff if_not_P [OF False])
qed (simp add: outcome_gap_streak_def outcome_floor_configured_def)

section \<open>Tails\<close>

lemma ceil_char_boundary_drop:
  "i \<le> length s \<Longrightarrow> drop (ceil_char_boundary s i) s = dropWhile is_continuation (drop i s)"
proof (cases "i = length s")
  case False
  moreover assume "i \<le> length s"
  ultimately have "ceil_char_boundary s i = i + length (takeWhile is_continuation (drop i s))"
    by (simp add: ceil_char_boundary_def)
  then show ?thesis
    by (metis add.commute drop_drop dropWhile_eq_drop)
qed (simp add: ceil_char_boundary_def)

lemma continuation_run:
  "0 < i \<Longrightarrow> \<forall>u \<in> set (chars s). length u \<le> 4 \<Longrightarrow>
     length (takeWhile is_continuation (drop i s)) \<le> 3"
proof (induction s arbitrary: i rule: chars.induct)
  case (2 c cs)
  define tw where "tw = takeWhile is_continuation cs"
  define dw where "dw = dropWhile is_continuation cs"
  have cs: "cs = tw @ dw" by (simp add: tw_def dw_def)
  have tw: "\<forall>b \<in> set tw. is_continuation b" "length tw \<le> 3"
    using 2(3) by (auto simp: tw_def dest: set_takeWhileD)
  have stop: "takeWhile is_continuation dw = []"
    unfolding dw_def by (induction cs) auto
  show ?case
  proof (cases "i - 1 \<le> length tw")
    case True
    have "takeWhile is_continuation (drop (i - 1) cs) = drop (i - 1) tw"
      using True tw(1) stop by (simp add: cs takeWhile_append2 in_set_dropD)
    then show ?thesis using 2(2) tw(2) by (simp add: drop_Cons')
  next
    case False
    have "drop i (c # cs) = drop (i - 1 - length tw) dw"
      using 2(2) False by (simp add: drop_Cons' cs)
    then show ?thesis using 2(1)[of "i - 1 - length tw"] 2(3) False by (simp add: dw_def)
  qed
qed simp

lemma length_ellipsis [simp]: "length ellipsis = 3"
  by (simp add: ellipsis_def)

lemma tail_long:
  assumes "n < length s" "3 \<le> n"
  shows "tail s n = ellipsis @ dropWhile is_continuation (drop (length s - (n - 3)) s)"
  using assms by (simp add: tail_def ceil_char_boundary_drop)

text \<open>A bounded tail never exceeds its byte bound; a text that fits is kept whole; otherwise the tail
  is the ellipsis mark and a suffix of the text that starts at a character boundary and, in a text whose
  characters have at most four bytes, gives up at most three bytes of the bound.\<close>

theorem tail_bounded:
  "length (tail s n) \<le> n
   \<and> (length s \<le> n \<longrightarrow> tail s n = s)
   \<and> (n < length s \<and> 3 \<le> n \<longrightarrow>
        (\<exists>before rest. s = before @ rest \<and> tail s n = ellipsis @ rest
           \<and> (rest = [] \<or> \<not> is_continuation (hd rest))
           \<and> ((\<forall>u \<in> set (chars s). length u \<le> 4) \<longrightarrow> n \<le> length (tail s n) + 3)))"
proof (intro conjI impI)
  show "length (tail s n) \<le> n"
  proof (cases "n < length s \<and> 3 \<le> n")
    case True
    have "length (dropWhile is_continuation (drop (length s - (n - 3)) s)) \<le> n - 3"
      using True by (intro order_trans [OF length_dropWhile_le]) simp
    then have "3 + length (dropWhile is_continuation (drop (length s - (n - 3)) s)) \<le> n"
      using True by linarith
    then show ?thesis using True by (simp only: tail_long length_append length_ellipsis)
  qed (auto simp: tail_def)
  show "length s \<le> n \<Longrightarrow> tail s n = s" by (simp add: tail_def)
next
  assume *: "n < length s \<and> 3 \<le> n"
  define i where "i = length s - (n - 3)"
  define rest where "rest = dropWhile is_continuation (drop i s)"
  have i: "0 < i" "length (drop i s) = n - 3" using * by (auto simp: i_def)
  have split: "s = (take i s @ takeWhile is_continuation (drop i s)) @ rest"
    by (simp add: rest_def)
  have "rest = [] \<or> \<not> is_continuation (hd rest)"
    unfolding rest_def using hd_dropWhile by blast
  moreover have "n \<le> length (tail s n) + 3" if "\<forall>u \<in> set (chars s). length u \<le> 4"
  proof -
    have "length (drop i s) = length (takeWhile is_continuation (drop i s)) + length rest"
      by (metis rest_def length_append takeWhile_dropWhile_id)
    moreover have "length (tail s n) = 3 + length rest"
      using * by (simp only: tail_long length_append length_ellipsis rest_def i_def)
    ultimately show ?thesis using continuation_run [OF i(1) that] i(2) * by linarith
  qed
  ultimately show "\<exists>before rest. s = before @ rest \<and> tail s n = ellipsis @ rest
           \<and> (rest = [] \<or> \<not> is_continuation (hd rest))
           \<and> ((\<forall>u \<in> set (chars s). length u \<le> 4) \<longrightarrow> n \<le> length (tail s n) + 3)"
    using split * tail_long [of n s] unfolding rest_def i_def by blast
qed

lemma tail_bounded_witness:
  "tail ''abc'' 5 = ''abc'' \<and> (\<exists>before rest. ''abcdefgh'' = before @ rest \<and> tail ''abcdefgh'' 5 = ellipsis @ rest)"
  using tail_bounded [of "''abc''" 5] tail_bounded [of "''abcdefgh''" 5] by auto

section \<open>The evidence floor\<close>

text \<open>an advancement todo completes on its evidence exactly when the evidence is not blank and, when
  an acceptance contract is declared, every non-blank token of it occurs in the evidence whatever the
  case; other classes need no evidence.\<close>

theorem evidence_floor_exact:
  "evidence_error lc t evidence = None \<longleftrightarrow>
     t_class t \<noteq> Advancement
     \<or> \<not> blank evidence
       \<and> (\<forall>acceptance token. t_acceptance t = Some acceptance \<and> token \<in> set (split_on CHR '','' acceptance)
            \<and> \<not> blank token \<longrightarrow> (\<exists>a b. lc (trim evidence) = a @ lc (trim token) @ b))"
  by (auto simp: evidence_error_def missing_tokens_def blank_def filter_eq_Nil_iff contains_str_iff
      Let_def split: option.splits)

section \<open>Validators\<close>

lemma drain_from_eq:
  "drain_from (keep_last OUTPUT_BYTES acc) chunks
   = keep_last OUTPUT_BYTES (acc @ concat (takeWhile (\<lambda>c. c \<noteq> []) chunks))"
proof (induction chunks arbitrary: acc)
  case (Cons c cs)
  have "drain_from (keep_last OUTPUT_BYTES acc) (c # cs)
        = drain_from (keep_last OUTPUT_BYTES (acc @ c)) cs" if "c \<noteq> []"
  proof -
    have "(if length r > OUTPUT_BYTES then drop (length r - OUTPUT_BYTES) r else r) = keep_last OUTPUT_BYTES r" for r :: string
      by (simp add: keep_last_def)
    with that keep_last_append_keep_last [of OUTPUT_BYTES acc c] show ?thesis
      by (simp add: Let_def)
  qed
  then show ?case using Cons.IH [of "acc @ c"] by (cases "c = []") auto
qed simp

lemma drain_exact: "drain chunks = keep_last OUTPUT_BYTES (concat (takeWhile (\<lambda>c. c \<noteq> []) chunks))"
  using drain_from_eq [of "[]" chunks] by (simp add: drain_def keep_last_def)

text \<open>the receipt of a validator is ok exactly when the command exited with 0; it says that the
  validator never ran exactly when the shell could not start the command (exit 126, 127 or 9009, or exit 2
  with a syntax error on its error stream), which still counts as a failure; a recovery is named whenever
  the validator did not pass.\<close>

theorem validator_receipt_exact:
  "(v_ok (validate lossy command result) \<longleftrightarrow> (\<exists>out err. result = Inr (Some 0, out, err)))
   \<and> (could_not_run (validate lossy command result) \<longleftrightarrow>
        (\<exists>c out err. result = Inr (Some c, out, err) \<and> shell_could_not_run lossy c err))
   \<and> (could_not_run (validate lossy command result) \<longrightarrow> v_status (validate lossy command result) = Failed)
   \<and> (v_recovery_kind (validate lossy command result) = None \<longleftrightarrow> v_ok (validate lossy command result))"
proof -
  have ran: "\<not> shell_could_not_run lossy 0 err" for err by (simp add: shell_could_not_run_def)
  note rules = validate_def task_validation_receipt_def could_not_run_def Let_def starts_with_def
    COULD_NOT_RUN_PREFIX_def
  show ?thesis
  proof (cases result)
    case (Inl err)
    then show ?thesis by (simp add: rules)
  next
    case (Inr r)
    obtain code out err where r: "r = (code, out, err)" by (cases r)
    show ?thesis
    proof (cases code)
      case None
      then show ?thesis using Inr r by (simp add: rules)
    next
      case (Some c)
      then show ?thesis
        using Inr r ran by (cases "c = 0"; cases "shell_could_not_run lossy c err") (simp_all add: rules)
    qed
  qed
qed

section \<open>Concrete instances\<close>

definition demo_delivered_todo :: todo where
  "demo_delivered_todo = (advancement 0 ''T1'' ''w'')\<lparr>t_acceptance := Some ''Scored, '' \<rparr>"

lemma evidence_floor_exact_witness:
  "evidence_error ascii_lower demo_delivered_todo ''attempt SCORED 1'' = None"
proof (subst evidence_floor_exact, intro disjI2 conjI allI impI)
  show "\<not> blank ''attempt SCORED 1''" by code_simp
next
  fix acceptance token
  assume *: "t_acceptance demo_delivered_todo = Some acceptance
    \<and> token \<in> set (split_on CHR '','' acceptance) \<and> \<not> blank token"
  have "acceptance = ''Scored, ''" using * by (simp add: demo_delivered_todo_def)
  then have "token = ''Scored'' \<or> token = '' ''" using * by simp
  moreover have "blank '' ''" by code_simp
  ultimately have "token = ''Scored''" using * by blast
  moreover have "ascii_lower (trim ''attempt SCORED 1'') = ''attempt '' @ ascii_lower (trim ''Scored'') @ '' 1''"
    by code_simp
  ultimately show "\<exists>a b. ascii_lower (trim ''attempt SCORED 1'') = a @ ascii_lower (trim token) @ b"
    by blast
qed

lemma validator_receipt_exact_witness:
  "v_status (validate (\<lambda>s. s) ''make'' (Inr (Some 127, [], []))) = Failed"
proof -
  have "shell_could_not_run (\<lambda>s. s) 127 []" by (simp add: shell_could_not_run_def)
  then have "could_not_run (validate (\<lambda>s. s) ''make'' (Inr (Some 127, [], [])))"
    using validator_receipt_exact [of "\<lambda>s. s" "''make''" "Inr (Some 127, [], [])"] by blast
  then show ?thesis
    using validator_receipt_exact [of "\<lambda>s. s" "''make''" "Inr (Some 127, [], [])"] by blast
qed

end
