(* ===== verification/Executor.thy ===== *)
theory Executor
  imports Delivery
begin

text \<open>
  The bounded turn: what surrounds the agent call in \<open>executor.rs\<close> (evidence truncation, failure
  classification, retry bounds, the tautology check of validators, the writeback of a turn) and the
  message the turn starts from (\<open>turn_envelope.rs\<close>).
\<close>

section \<open>Truncated evidence\<close>

text \<open>The last character boundary at or before a byte index.\<close>

definition floor_char_boundary :: "string \<Rightarrow> nat \<Rightarrow> nat" where
  "floor_char_boundary s i =
     (if i \<ge> length s then length s
      else i - length (takeWhile is_continuation (rev (take (i + 1) s))))"

text \<open>A bound too small for the mark makes the subtraction underflow: \<open>None\<close>.\<close>

definition truncate_evidence :: "string \<Rightarrow> nat \<Rightarrow> string option" where
  "truncate_evidence text limit =
     (if length text \<le> limit then Some text
      else (let head_bytes = limit * 3 div 4 in
            if limit - head_bytes < length ellipsis then None
            else (let tail_bytes = limit - head_bytes - length ellipsis;
                      head = take (floor_char_boundary text head_bytes) text;
                      tail_start = floor_char_boundary text (length text - tail_bytes)
                  in Some (head @ ellipsis @ drop tail_start text))))"

section \<open>Failure classification\<close>

definition RATE_LIMIT_BACKOFF_SECS :: u64 where "RATE_LIMIT_BACKOFF_SECS = 45"
definition DEFAULT_MAX_INCOMPLETE_RETRIES :: u32 where "DEFAULT_MAX_INCOMPLETE_RETRIES = 3"
definition DEFAULT_MAX_TRANSPORT_RETRIES :: u32 where "DEFAULT_MAX_TRANSPORT_RETRIES = 3"

definition is_rate_limit_error :: "string option \<Rightarrow> bool" where
  "is_rate_limit_error err \<longleftrightarrow>
     (case err of
        None \<Rightarrow> False
      | Some e \<Rightarrow> mentions [''429'', ''rate limit'', ''rate-limited'', ''overloaded''] (lower e))"

definition TRANSPORT_MARKERS :: "string list" where
  "TRANSPORT_MARKERS =
     [''decoding response body'', ''upstream_disconnected'', ''upstream disconnected'',
      ''stream was idle'', ''connection reset'', ''connection closed'', ''unexpected eof'',
      ''error reading a body'', ''broken pipe'', ''reset by peer'', ''event stream gap'',
      ''agent restarted'', ''interrupted by an agent restart'']"

definition is_transport_error :: "string option \<Rightarrow> bool" where
  "is_transport_error err \<longleftrightarrow>
     (case err of None \<Rightarrow> False | Some e \<Rightarrow> mentions TRANSPORT_MARKERS (lower e))"

definition is_infra_recoverable_error :: "string option \<Rightarrow> bool" where
  "is_infra_recoverable_error err \<longleftrightarrow> is_rate_limit_error err \<or> is_transport_error err"

definition classify_failure :: "run_record \<Rightarrow> failure_kind" where
  "classify_failure r =
     (let rest =
        (if r_terminal_state r = ''error''
         then (if is_infra_recoverable_error (r_error r) then InfraRecoverable else HardError)
         else if r_terminal_state r = ''completed''
         then (if r_error r \<noteq> None then HardError else NoFailure)
         else InfraRecoverable)
      in case r_validation r of
           Some v \<Rightarrow>
             (if \<not> v_ok v
              then (if v_status v = Failed then ScienceVerifyFailed else InfraRecoverable)
              else rest)
         | None \<Rightarrow> rest)"

definition turn_succeeded :: "run_record \<Rightarrow> bool" where
  "turn_succeeded r \<longleftrightarrow>
     r_terminal_state r = ''completed'' \<and> r_error r = None
     \<and> (case r_validation r of None \<Rightarrow> True | Some v \<Rightarrow> v_ok v)"

definition no_progress_idle_secs :: "u64 \<Rightarrow> u64 option \<Rightarrow> u64 \<Rightarrow> u64 \<Rightarrow> u64 option" where
  "no_progress_idle_secs turn_start last_write now threshold =
     (let idle = now - (case last_write of None \<Rightarrow> turn_start | Some w \<Rightarrow> w) in
      if idle \<ge> threshold then Some idle else None)"

definition dquote2 :: string where
  "dquote2 = [CHR 0x22, CHR 0x22]"

definition squote2 :: string where
  "squote2 = [CHR 0x27, CHR 0x27]"

definition validator_tautology :: "string \<Rightarrow> string option" where
  "validator_tautology cmd =
     (if contains_str (''-n '' @ dquote2) cmd \<or> contains_str (''-n '' @ squote2) cmd
      then Some (''`-n '' @ dquote2 @ ''` is always false '' @ em_dash
        @ '' a command substitution expanded to empty before the shell ran it, so the verify gate can never pass; assert a concrete file path or content instead'')
      else if contains_str (''-z '' @ dquote2) cmd \<or> contains_str (''-z '' @ squote2) cmd
      then Some (''`-z '' @ dquote2 @ ''` is always true '' @ em_dash
        @ '' the verify gate passes regardless of output; use a concrete `test -f <file>` / content assertion'')
      else None)"

section \<open>Retries\<close>

definition incomplete_streak :: "run_record list \<Rightarrow> string \<Rightarrow> u32" where
  "incomplete_streak history tid =
     length (takeWhile (\<lambda>r. r_todo_id r = tid \<and> r_terminal_state r = ''incomplete'') (rev history))
       mod 2 ^ 32"

definition transport_failure_streak :: "run_record list \<Rightarrow> string \<Rightarrow> u32" where
  "transport_failure_streak history tid =
     length (takeWhile (\<lambda>r. r_todo_id r = tid \<and> r_terminal_state r = ''error''
                            \<and> is_transport_error (r_error r)) (rev history)) mod 2 ^ 32"

definition incomplete_continue_note :: "u32 \<Rightarrow> u32 \<Rightarrow> string \<Rightarrow> string option" where
  "incomplete_continue_note streak max_retries tid =
     (if max_retries = 0 \<or> streak \<ge> max_retries then None
      else Some (''CONTINUE: your previous turn for todo '' @ tid
        @ '' ended INCOMPLETE (the model stream was truncated mid-reply). Pick up exactly where you left off ''
        @ em_dash @ '' do not restart work that already completed. (incomplete attempt ''
        @ dec streak @ ''/'' @ dec max_retries @ '')''))"

section \<open>The writeback of a turn\<close>

text \<open>\<open>None\<close> when rescheduling a monitor panics. \<open>completion\<close> holds the closure intent of the caller.\<close>

definition writeback_poll :: "u64 \<Rightarrow> run_record \<Rightarrow> bool \<Rightarrow> goal \<Rightarrow> goal option" where
  "writeback_poll now r changed g =
     (case find_todo g (r_todo_id r) of
        None \<Rightarrow> Some g
      | Some m \<Rightarrow>
          (if changed
           then Some ((on_todo (r_todo_id r)
                        (\<lambda>t. t\<lparr>t_consecutive_no_change := 0, t_status := Done\<rparr>) g)
                      \<lparr>g_history := g_history g @ [r]\<rparr>)
           else map_option
                  (\<lambda>due. on_todo (r_todo_id r)
                     (\<lambda>t. t\<lparr>t_consecutive_no_change := t_consecutive_no_change t + 1,
                            t_resume_when := Some due\<rparr>) g)
                  (epoch_plus_secs (next_poll_due_epoch now (t_monitor_cadence m)))))"

definition writeback_turn ::
  "u64 \<Rightarrow> run_record \<Rightarrow> (bool \<times> string list) option \<Rightarrow> goal \<Rightarrow> goal" where
  "writeback_turn now r completion g =
     (let g1 =
        (if turn_succeeded r
         then (let (no_follow_up, successors) =
                     (case completion of None \<Rightarrow> (True, []) | Some c \<Rightarrow> c)
               in on_todo (r_todo_id r) (todo_complete now no_follow_up successors) g)
         else if classify_failure r \<noteq> InfraRecoverable
         then on_todo (r_todo_id r) (\<lambda>t. t\<lparr>t_failed_attempts := t_failed_attempts t + 1\<rparr>) g
         else g);
          material = (r_tools r \<noteq> [] \<and> \<not> blank (r_evidence r))
      in g1\<lparr>g_outcome_streak := (if material then 0 else g_outcome_streak g1 + 1),
            g_history := g_history g1 @ [r]\<rparr>)"

definition writeback ::
  "(string \<Rightarrow> string) \<Rightarrow> u64 \<Rightarrow> run_record \<Rightarrow> bool option \<Rightarrow> (bool \<times> string list) option \<Rightarrow> goal
     \<Rightarrow> goal option" where
  "writeback lc now r0 monitor_changed completion g =
     (let r = (case find_todo g (r_todo_id r0) of None \<Rightarrow> r0 | Some t \<Rightarrow> check_record lc t r0) in
      case monitor_changed of
        Some changed \<Rightarrow> writeback_poll now r changed g
      | None \<Rightarrow> Some (writeback_turn now r completion g))"

section \<open>The turn envelope\<close>

definition TURN_ENVELOPE_SCHEMA_VERSION :: string where
  "TURN_ENVELOPE_SCHEMA_VERSION = ''future_goal_turn_envelope_v0''"

definition GOAL_MEMORY_SEMANTIC_EVENTS :: nat where "GOAL_MEMORY_SEMANTIC_EVENTS = 5"
definition GOAL_MEMORY_ERROR_CHARS :: nat where "GOAL_MEMORY_ERROR_CHARS = 200"
definition UPSTREAM_EVIDENCE_CHARS :: nat where "UPSTREAM_EVIDENCE_CHARS = 1200"

definition run_failed :: "run_record \<Rightarrow> bool" where
  "run_failed r \<longleftrightarrow>
     (case r_failure_kind r of
        Some k \<Rightarrow> k \<noteq> NoFailure
      | None \<Rightarrow> r_terminal_state r \<noteq> ''completed'')"

definition run_failure_label :: "run_record \<Rightarrow> string" where
  "run_failure_label r =
     (case r_failure_kind r of
        Some k \<Rightarrow> failure_label k
      | None \<Rightarrow> ''legacy `'' @ r_terminal_state r @ ''` (unclassified)'')"

definition failure_context :: "goal \<Rightarrow> todo \<Rightarrow> string option" where
  "failure_context g t =
     (let failures = filter (\<lambda>r. r_todo_id r = t_id t \<and> run_failed r) (g_history g) in
      if failures = [] then None
      else (let l = last failures in
        Some (''prior attempts on this todo: '' @ dec (length failures) @ '' failed; last = ''
          @ run_failure_label l
          @ (case r_error l of
               Some err \<Rightarrow> '': '' @ truncate_chars err GOAL_MEMORY_ERROR_CHARS
             | None \<Rightarrow>
                 (case r_validation l of
                    Some v \<Rightarrow>
                      (if \<not> v_ok v
                       then '': verify gate '' @ v_validator_kind v @ '' rejected (exit ''
                            @ dec_int (case v_exit_code v of None \<Rightarrow> - 1 | Some c \<Rightarrow> c) @ ''): ''
                            @ the (truncate_evidence (v_summary v) 1600)
                       else [])
                  | None \<Rightarrow> []))
          @ (case t_validator t of
               None \<Rightarrow> [] | Some cmd \<Rightarrow> ''; --verify '' @ cmd @ '' must exit 0 to complete''))))"

definition semantic_line :: "semantic_event \<Rightarrow> string" where
  "semantic_line e =
     (case se_todo_id e of
        Some i \<Rightarrow> ''- '' @ se_kind e @ '' ['' @ i @ ''] '' @ se_summary e
      | None \<Rightarrow> ''- '' @ se_kind e @ '' '' @ se_summary e)"

definition compose_goal_memory :: "goal \<Rightarrow> todo \<Rightarrow> string" where
  "compose_goal_memory g t =
     (let blocks =
        (case failure_context g t of None \<Rightarrow> [] | Some l \<Rightarrow> [l])
        @ (if g_semantic_history g = [] then []
           else [''recent goal history:'' @ newline
                 @ join newline (rev (map semantic_line
                     (take GOAL_MEMORY_SEMANTIC_EVENTS (rev (g_semantic_history g)))))])
      in if blocks = [] then []
         else newline @ ''Prior activity:'' @ newline @ concat (map (\<lambda>b. b @ newline) blocks))"

fun status_debug :: "todo_status \<Rightarrow> string" where
  "status_debug Open = ''Open''"
| "status_debug Done = ''Done''"
| "status_debug Superseded = ''Superseded''"
| "status_debug Deferred = ''Deferred''"
| "status_debug Blocked = ''Blocked''"

definition upstream_predecessors :: "goal \<Rightarrow> string \<Rightarrow> todo list" where
  "upstream_predecessors g ids =
     filter (\<lambda>p. t_status p = Done \<or> t_status p = Superseded)
       (List.map_filter (find_todo g) (listed_ids ids))"

definition per_source :: "nat \<Rightarrow> nat" where
  "per_source n = UPSTREAM_EVIDENCE_CHARS div max n 1"

definition upstream_snippet :: "nat \<Rightarrow> todo \<Rightarrow> string" where
  "upstream_snippet limit p =
     (if limit \<ge> 12
      then the (truncate_evidence
                  (trim (case t_evidence p of None \<Rightarrow> ''[no evidence recorded]'' | Some e \<Rightarrow> e)) limit)
      else [])"

definition upstream_entry :: "nat \<Rightarrow> todo \<Rightarrow> string" where
  "upstream_entry limit p =
     ''upstream '' @ t_id p @ '': '' @ upstream_snippet limit p @ '' [status='' @ status_debug (t_status p) @ '']''"

definition compose_upstream_evidence :: "goal \<Rightarrow> todo \<Rightarrow> string" where
  "compose_upstream_evidence g t =
     (case t_blocked_by_gate t of
        None \<Rightarrow> []
      | Some ids \<Rightarrow>
          (let predecessors = upstream_predecessors g ids;
               entries = map (upstream_entry (per_source (length predecessors))) predecessors
           in if entries = [] then []
              else newline
                @ ''Upstream evidence: (summaries only; read referenced artifacts, not just these snippets)''
                @ newline @ ''Full source evidence: future goal status --goal '' @ g_goal_id g
                @ '' --format json (source IDs below). Superseded sources are not verified results.''
                @ newline @ concat (map (\<lambda>e. e @ newline) entries)))"

text \<open>The gate ids are looked up as they stand between the commas, not trimmed.\<close>

definition resolved_decisions :: "goal \<Rightarrow> string \<Rightarrow> string list" where
  "resolved_decisions g ids =
     List.map_filter (\<lambda>p. map_option (\<lambda>d. t_id p @ '': '' @ d) (t_decision p))
       (filter (\<lambda>p. t_status p = Done)
          (List.map_filter (find_todo g) (split_on CHR '','' ids)))"

definition box_dash :: string where
  "box_dash = [CHR 0xE2, CHR 0x94, CHR 0x80, CHR 0xE2, CHR 0x94, CHR 0x80]"

definition compose_turn_envelope :: "guard_env \<Rightarrow> goal \<Rightarrow> todo \<Rightarrow> run_record option \<Rightarrow> string" where
  "compose_turn_envelope e g t prev =
     (let writer = (case t_claimed_by t of
                      Some a \<Rightarrow> a
                    | None \<Rightarrow> (case t_owner t of Some a \<Rightarrow> a | None \<Rightarrow> []));
          scopes = todo_workspaces e g writer t;
          decisions = (case t_blocked_by_gate t of
                         None \<Rightarrow> [] | Some ids \<Rightarrow> resolved_decisions g ids);
          signals = todo_signals g t
      in box_dash @ '' '' @ TURN_ENVELOPE_SCHEMA_VERSION @ '' '' @ box_dash @ newline
         @ ''goal: '' @ g_goal_id g @ '' | objective: '' @ g_objective g @ newline
         @ ''execution: cadence='' @ x_cadence (g_execution_profile g)
         @ '' spend_rule='' @ x_spend_rule (g_execution_profile g) @ newline
         @ newline
         @ ''TODO '' @ t_id t @ '': '' @ t_text t @ newline
         @ (if scopes \<noteq> []
            then ''Declared write set (coordination contract, not a filesystem sandbox): ''
                 @ join '', '' scopes @ newline
                 @ ''Stay within these paths, including logs/caches; if additional writes are needed, stop and ask the supervisor to revise the plan.''
                 @ newline
            else [])
         @ (case t_acceptance t of
              None \<Rightarrow> []
            | Some a \<Rightarrow> ''Acceptance contract (do not silently weaken): '' @ a @ newline)
         @ (case t_validator t of
              None \<Rightarrow> []
            | Some v \<Rightarrow> ''Machine verification: '' @ v @ newline
                        @ ''A manual completion is a reviewed override, not a machine pass.'' @ newline)
         @ (if decisions \<noteq> []
            then newline @ ''Resolved gate decision(s): '' @ join ''; '' decisions @ newline else [])
         @ compose_upstream_evidence g t
         @ (case prev of
              None \<Rightarrow> []
            | Some p \<Rightarrow> newline @ ''Evidence from the previous turn (todo '' @ r_todo_id p @ ''):''
                        @ newline @ truncate_chars (r_evidence p) 1200)
         @ compose_goal_memory g t
         @ (if signals \<noteq> [] then newline @ ''signals: '' @ join '' '' signals @ newline else [])
         @ newline @ newline @ ''Complete the todo and report what you did and observed.''
         @ newline @ ''On completion, declare the successor todo or --no-follow-up.''
         @ newline @ ''Handoff: identify artifacts and paths, new evidence versus the previous attempt, rejected approaches, uncertainties and the next useful check. Activity alone is not progress; budget exhaustion is not successful completion.'')"

definition compose_turn_message :: "guard_env \<Rightarrow> goal \<Rightarrow> todo \<Rightarrow> run_record option \<Rightarrow> string" where
  "compose_turn_message e g t prev = compose_turn_envelope e g t prev"

section \<open>Truncation\<close>

lemma floor_char_boundary_le: "floor_char_boundary s i \<le> i"
  by (simp add: floor_char_boundary_def)

lemma floor_char_boundary_ge:
  assumes "\<forall>u \<in> set (chars s). length u \<le> 4" "i < length s"
  shows "i \<le> floor_char_boundary s i + 3"
proof (rule ccontr)
  define run where "run = takeWhile is_continuation (rev (take (i + 1) s))"
  assume "\<not> i \<le> floor_char_boundary s i + 3"
  then have big: "4 \<le> length run" "4 \<le> i"
    using assms(2) by (auto simp: floor_char_boundary_def run_def)
  have cont: "is_continuation (s ! (i - k))" if "k < 4" for k
  proof -
    have len: "length (take (i + 1) s) = i + 1" using assms(2) by simp
    have "run ! k = rev (take (i + 1) s) ! k"
      using that big unfolding run_def by (intro takeWhile_nth) simp
    also have "\<dots> = take (i + 1) s ! (i - k)"
      using len that big(2) by (simp only: rev_nth) simp
    also have "\<dots> = s ! (i - k)" by simp
    finally have "run ! k = s ! (i - k)" .
    moreover have "is_continuation (run ! k)"
    proof -
      have "run ! k \<in> set run" using that big by (intro nth_mem) simp
      then show ?thesis unfolding run_def by (rule set_takeWhileD [THEN conjunct2])
    qed
    ultimately show ?thesis by simp
  qed
  have "is_continuation (s ! (i - 3 + j))" if "j < 4" for j
    using cont [of "3 - j"] that big(2) by (simp add: algebra_simps)
  then have "4 \<le> length (takeWhile is_continuation (drop (i - 3) s))"
    using assms(2) big(2) by (intro length_takeWhile_less_P_nth) auto
  then show False
    using continuation_run [of "i - 3" s] assms(1) big(2) by auto
qed

lemma truncate_evidence_long:
  assumes "limit < length s" "12 \<le> limit"
  defines "h \<equiv> floor_char_boundary s (limit * 3 div 4)"
    and "t \<equiv> floor_char_boundary s (length s - (limit - limit * 3 div 4 - 3))"
  shows "truncate_evidence s limit = Some (take h s @ ellipsis @ drop t s)"
  using assms by (simp add: truncate_evidence_def Let_def)

definition demo_cjk :: string where
  "demo_cjk = 
     [CHR 0xE6, CHR 0x97, CHR 0xA5, CHR 0xE6, CHR 0x97, CHR 0xA5, CHR 0xE6, CHR 0x97, CHR 0xA5,
      CHR 0xE6, CHR 0x97, CHR 0xA5, CHR 0xE6, CHR 0x97, CHR 0xA5, CHR 0xE6, CHR 0x97, CHR 0xA5]"

text \<open>truncating evidence to a bound of at least 12 bytes never fails and keeps a text that fits; a
  longer text of characters of at most four bytes becomes a prefix, the ellipsis mark and a suffix of at
  least the suffix share of the bound; the result exceeds the bound by at most three bytes, and does
  exceed it: the suffix is cut at the character boundary before its share, not after it.\<close>

theorem truncate_evidence_overshoot:
  "(12 \<le> limit \<and> (\<forall>u \<in> set (chars s). length u \<le> 4) \<longrightarrow>
      (\<exists>out. truncate_evidence s limit = Some out \<and> length out \<le> limit + 3
         \<and> (length s \<le> limit \<longrightarrow> out = s)
         \<and> (limit < length s \<longrightarrow>
              (\<exists>before gap after. s = before @ gap @ after \<and> out = before @ ellipsis @ after
                 \<and> limit - limit * 3 div 4 - 3 \<le> length after))))
   \<and> (\<exists>out. truncate_evidence demo_cjk 16 = Some out \<and> length out = 18)"
proof (intro conjI impI)
  assume asm: "12 \<le> limit \<and> (\<forall>u \<in> set (chars s). length u \<le> 4)"
  show "\<exists>out. truncate_evidence s limit = Some out \<and> length out \<le> limit + 3
         \<and> (length s \<le> limit \<longrightarrow> out = s)
         \<and> (limit < length s \<longrightarrow>
              (\<exists>before gap after. s = before @ gap @ after \<and> out = before @ ellipsis @ after
                 \<and> limit - limit * 3 div 4 - 3 \<le> length after))"
  proof (cases "length s \<le> limit")
    case True
    then show ?thesis by (simp add: truncate_evidence_def)
  next
    case False
    define head_bytes where "head_bytes = limit * 3 div 4"
    define tail_bytes where "tail_bytes = limit - head_bytes - 3"
    define h where "h = floor_char_boundary s head_bytes"
    define t where "t = floor_char_boundary s (length s - tail_bytes)"
    have sizes: "head_bytes + tail_bytes + 3 = limit" "12 \<le> limit"
      using asm by (auto simp: head_bytes_def tail_bytes_def)
    have out: "truncate_evidence s limit = Some (take h s @ ellipsis @ drop t s)"
      using False sizes(2) unfolding h_def t_def head_bytes_def tail_bytes_def
      by (intro truncate_evidence_long) auto
    have h: "h \<le> head_bytes" by (simp add: h_def floor_char_boundary_le)
    have t: "t \<le> length s - tail_bytes" by (simp add: t_def floor_char_boundary_le)
    have near: "length s - tail_bytes \<le> t + 3"
    proof (cases "tail_bytes = 0")
      case True
      then show ?thesis by (simp add: t_def floor_char_boundary_def)
    next
      case tail: False
      then show ?thesis
        unfolding t_def using asm sizes False by (intro floor_char_boundary_ge) auto
    qed
    have "h \<le> t" using h near sizes False by linarith
    then have "drop t s = drop (t - h) (drop h s)" by simp
    then have "s = take h s @ take (t - h) (drop h s) @ drop t s"
      by (metis append_take_drop_id)
    moreover have "length (take h s @ ellipsis @ drop t s) \<le> limit + 3"
      using h near sizes False by simp
    moreover have "tail_bytes \<le> length (drop t s)"
      using t sizes False by simp
    ultimately show ?thesis
      using out False unfolding tail_bytes_def head_bytes_def
      by (intro exI [of _ "take h s @ ellipsis @ drop t s"]) blast
  qed
next
  show "\<exists>out. truncate_evidence demo_cjk 16 = Some out \<and> length out = 18"
    by (simp add: truncate_evidence_def floor_char_boundary_def demo_cjk_def is_continuation_def Let_def)
qed

lemma truncate_evidence_overshoot_witness:
  "\<exists>out. truncate_evidence demo_cjk 16 = Some out \<and> length out \<le> 19"
proof -
  have "\<forall>u \<in> set (chars demo_cjk). length u \<le> 4"
    by (simp add: demo_cjk_def is_continuation_def)
  then show ?thesis
    using truncate_evidence_overshoot [of 16 demo_cjk] by auto
qed

lemma truncate_evidence_total:
  "12 \<le> limit \<Longrightarrow> \<exists>out. truncate_evidence s limit = Some out"
  by (auto simp: truncate_evidence_def Let_def)

section \<open>The upstream evidence\<close>

lemma upstream_predecessors_set:
  "p \<in> set (upstream_predecessors g ids) \<longleftrightarrow>
     (\<exists>i \<in> set (listed_ids ids). find_todo g i = Some p) \<and> (t_status p = Done \<or> t_status p = Superseded)"
  by (force simp: upstream_predecessors_def List.map_filter_def)

lemma per_source_budget: "n * per_source n \<le> UPSTREAM_EVIDENCE_CHARS"
  by (cases "n = 0") (auto simp: per_source_def UPSTREAM_EVIDENCE_CHARS_def max_def intro: order_trans [OF times_div_less_eq_dividend])

section \<open>Outcomes of turns\<close>

lemma succeeded_iff_no_failure: "turn_succeeded r \<longleftrightarrow> classify_failure r = NoFailure"
  by (auto simp: turn_succeeded_def classify_failure_def Let_def split: option.splits if_splits)

lemma charged_iff:
  "classify_failure r \<in> {ScienceVerifyFailed, HardError} \<longleftrightarrow>
     \<not> turn_succeeded r \<and> classify_failure r \<noteq> InfraRecoverable"
  unfolding succeeded_iff_no_failure by (cases "classify_failure r") auto

lemma check_record_succeeded:
  "turn_succeeded (check_record lc t r) \<longleftrightarrow> turn_succeeded r \<and> evidence_error lc t (r_evidence r) = None"
  by (auto simp: turn_succeeded_def check_record_def)

lemma check_record_frame:
  "r_todo_id (check_record lc t r) = r_todo_id r" "r_tools (check_record lc t r) = r_tools r"
  "r_evidence (check_record lc t r) = r_evidence r"
  by (simp_all add: check_record_def)

lemma find_todo_on: "(\<And>t. t_id (f t) = t_id t) \<Longrightarrow> find_todo (on_todo i f g) i = map_option f (find_todo g i)"
  unfolding find_todo_def on_todo_def by (simp add: find_update_first_same)

lemma find_todo_history: "find_todo (g\<lparr>g_outcome_streak := a, g_history := b\<rparr>) i = find_todo g i"
  by (simp add: find_todo_def)

text \<open>the writeback of a turn (not a monitor poll) completes the todo exactly when the turn succeeded and
  its evidence meets the todo's floor, charges the repair budget by one exactly for a rejected verification
  or a hard error and never for an infrastructure failure, and always appends the checked record; the
  classification of a record is \<open>NoFailure\<close> exactly for a successful turn.\<close>

theorem writeback_turn_exact:
  assumes "find_todo g (r_todo_id r) = Some t"
  shows "\<exists>g' t'. writeback lc now r None completion g = Some g'
    \<and> find_todo g' (r_todo_id r) = Some t'
    \<and> (if turn_succeeded r \<and> evidence_error lc t (r_evidence r) = None
       then t_status t' = Done else t_status t' = t_status t)
    \<and> t_failed_attempts t' = t_failed_attempts t
        + (if classify_failure (check_record lc t r) \<in> {ScienceVerifyFailed, HardError} then 1 else 0)
    \<and> (t_failed_attempts t' = t_failed_attempts t \<or> t_status t' = t_status t)
    \<and> g_history g' = g_history g @ [check_record lc t r]
    \<and> (turn_succeeded r \<longleftrightarrow> classify_failure r = NoFailure)"
proof -
  define r' where "r' = check_record lc t r"
  have wb: "writeback lc now r None completion g = Some (writeback_turn now r' completion g)"
    using assms by (simp add: writeback_def r'_def)
  obtain nf succ where c: "(case completion of None \<Rightarrow> (True, []) | Some c \<Rightarrow> c) = (nf, succ)"
    by (cases "case completion of None \<Rightarrow> (True, []) | Some c \<Rightarrow> c")
  have id: "r_todo_id r' = r_todo_id r" by (simp add: r'_def check_record_frame)
  have complete: "t_id (todo_complete now nf succ u) = t_id u" for u by (simp add: todo_complete_def)
  let ?charged = "classify_failure r' \<in> {ScienceVerifyFailed, HardError}"
  define u where "u = (if turn_succeeded r' then todo_complete now nf succ t
      else if ?charged then t\<lparr>t_failed_attempts := t_failed_attempts t + 1\<rparr> else t)"
  have found: "find_todo (writeback_turn now r' completion g) (r_todo_id r) = Some u"
    using assms by (cases "classify_failure r'")
      (simp_all add: writeback_turn_def c id find_todo_history find_todo_on complete u_def
        succeeded_iff_no_failure [of r'] Let_def)
  have hist: "g_history (writeback_turn now r' completion g) = g_history g @ [r']"
    by (simp add: writeback_turn_def c on_todo_def Let_def)
  have "turn_succeeded r' \<Longrightarrow> classify_failure r' = NoFailure"
    by (simp add: succeeded_iff_no_failure)
  moreover have "turn_succeeded r' \<longleftrightarrow> turn_succeeded r \<and> evidence_error lc t (r_evidence r) = None"
    by (simp add: r'_def check_record_succeeded)
  ultimately show ?thesis
    using wb found hist succeeded_iff_no_failure [of r] unfolding r'_def [symmetric]
    by (cases "turn_succeeded r'") (auto simp: u_def todo_complete_def)
qed

section \<open>Bounded retries\<close>

text \<open>retries of truncated turns are bounded: after any history, once a todo's last turns ended
  incomplete as often as the retry bound allows, no continue note is issued and the run stops; before
  that, and only for a positive bound, there is one.\<close>

theorem incomplete_retries_bounded:
  assumes "length (history @ turns) < 2 ^ 32" "length turns = n"
    and "\<forall>r \<in> set turns. r_todo_id r = tid \<and> r_terminal_state r = ''incomplete''"
    and "history = [] \<or> r_todo_id (last history) \<noteq> tid \<or> r_terminal_state (last history) \<noteq> ''incomplete''"
  shows "incomplete_continue_note (incomplete_streak (history @ turns) tid) bound tid = None
    \<longleftrightarrow> bound \<le> n"
proof -
  let ?p = "\<lambda>r. r_todo_id r = tid \<and> r_terminal_state r = ''incomplete''"
  have "takeWhile ?p (rev history) = []"
    using assms(4) by (cases history rule: rev_cases) auto
  moreover have "takeWhile ?p (rev turns @ rev history) = rev turns @ takeWhile ?p (rev history)"
    using assms(3) by (intro takeWhile_append2) simp
  ultimately have "takeWhile ?p (rev (history @ turns)) = rev turns" by simp
  then have "incomplete_streak (history @ turns) tid = n"
    using assms(1,2) by (simp only: incomplete_streak_def) simp
  then show ?thesis by (auto simp: incomplete_continue_note_def)
qed

section \<open>Concrete turns\<close>

definition demo_run :: "string \<Rightarrow> run_record" where
  "demo_run terminal =
     \<lparr>r_agent_id = None, r_turn = 1, r_todo_id = ''T1'', r_run_id = ''r1'', r_validation = None,
      r_terminal_state = terminal, r_error = None, r_tokens_in_delta = 0, r_tokens_out_delta = 0,
      r_cost_delta = 0, r_tools = [], r_evidence = [], r_recorded_at = 0, r_spend_source = None,
      r_failure_kind = None, r_truncation = None\<rparr>"

definition demo_turn_goal :: goal where
  "demo_turn_goal = (goal_new 0 ''g'' ''o'' ''/r'')\<lparr>g_todos := [advancement 0 ''T1'' ''w'']\<rparr>"

lemma writeback_turn_exact_witness:
  "\<exists>g' t'. writeback ascii_lower 9 (demo_run ''completed'') None None demo_turn_goal = Some g'
     \<and> find_todo g' ''T1'' = Some t' \<and> t_status t' = Open"
proof -
  have found: "find_todo demo_turn_goal (r_todo_id (demo_run ''completed'')) = Some (advancement 0 ''T1'' ''w'')"
    by (simp add: demo_turn_goal_def demo_run_def find_todo_def advancement_def todo_new_def)
  have missing: "evidence_error ascii_lower (advancement 0 ''T1'' ''w'') (r_evidence (demo_run ''completed'')) \<noteq> None"
    by (simp add: evidence_error_def demo_run_def advancement_def todo_new_def trim_def)
  have start: "t_status (advancement 0 ''T1'' ''w'') = Open" "r_todo_id (demo_run ''completed'') = ''T1''"
    by (simp_all add: advancement_def todo_new_def demo_run_def)
  show ?thesis
    using writeback_turn_exact [OF found, of ascii_lower 9 None] missing start by auto
qed

lemma incomplete_retries_bounded_witness:
  "incomplete_continue_note (incomplete_streak [demo_run ''completed'', demo_run ''incomplete''] ''T1'') 1 ''T1'' = None"
  using incomplete_retries_bounded [of "[demo_run ''completed'']" "[demo_run ''incomplete'']" 1 "''T1''" 1]
  by (simp add: demo_run_def)

end
