(* ===== verification/Console.thy ===== *)
theory Console
  imports Claim Executor
begin

text \<open>
  The commands of \<open>console.rs\<close> that change a goal: flag parsing, then replay, checks, the events a
  command appends, and the refreshed Next Action line.

  A command takes its argument list and returns its error or unit with the new store. \<open>prog\<close> is the
  invocation name in hints, \<open>clk\<close> the time of the call, \<open>lc\<close> is \<open>str::to_lowercase\<close>, \<open>fresh\<close> the id that
  \<open>gen_id\<close> returned. The best-effort projection file \<open>ACTIVE_GOAL_STATE.md\<close>, what a command prints and the
  supervision sweep some commands end with are outside the store.
\<close>

section \<open>Flags\<close>

definition is_flag :: "string \<Rightarrow> bool" where
  "is_flag a \<longleftrightarrow> starts_with ''--'' a"

definition VALUELESS :: "string list" where
  "VALUELESS =
     [''--no-follow-up'', ''--anonymous'', ''--detach'', ''--interrupt'', ''--once'', ''--no-title'',
      ''--force-workspace'', ''--help'', ''-h'']"

fun parse_pairs :: "string list \<Rightarrow> (string \<times> string) list" where
  "parse_pairs [] = []"
| "parse_pairs [k] = (if is_flag k then [(k, ''true'')] else [])"
| "parse_pairs (k # v # rest) =
     (if is_flag k
      then (if k \<in> set VALUELESS \<or> is_flag v then (k, ''true'') # parse_pairs (v # rest)
            else (k, v) # parse_pairs rest)
      else parse_pairs (v # rest))"

text \<open>A later occurrence of a flag overwrites an earlier one.\<close>

definition flag :: "(string \<times> string) list \<Rightarrow> string \<Rightarrow> string option" where
  "flag ps k = map_of (rev ps) k"

definition reject_unknown_flags :: "string \<Rightarrow> string list \<Rightarrow> string list \<Rightarrow> string + unit" where
  "reject_unknown_flags prog args known =
     (case find (\<lambda>a. \<not> (\<not> is_flag a \<or> a = ''--help'' \<or> a = ''--include-experimental'')
                     \<and> a \<notin> set known) args of
        None \<Rightarrow> Inr ()
      | Some a \<Rightarrow> Inl (''unknown flag `'' @ a @ ''` (try `'' @ prog @ '' --help`)''))"

fun wants_json :: "string list \<Rightarrow> bool" where
  "wants_json [] \<longleftrightarrow> False"
| "wants_json (a # rest) \<longleftrightarrow>
     a = ''--json''
     \<or> (a = ''--format'' \<and> (case rest of [] \<Rightarrow> False | b # _ \<Rightarrow> b = ''json''))
     \<or> wants_json rest"

section \<open>Errors in sequence\<close>

text \<open>The \<open>?\<close> operator on steps that change the store, beside \<open>and_then\<close> on values.\<close>

definition require :: "'a option \<Rightarrow> string \<Rightarrow> string + 'a" where
  "require x err = (case x of None \<Rightarrow> Inl err | Some v \<Rightarrow> Inr v)"

lemma require_Inr [simp]: "require x err = Inr v \<longleftrightarrow> x = Some v"
  by (simp add: require_def split: option.splits)

definition check :: "bool \<Rightarrow> string \<Rightarrow> string + unit" where
  "check ok err = (if ok then Inr () else Inl err)"

lemma check_Inr [simp]: "check ok err = Inr u \<longleftrightarrow> ok"
  by (simp add: check_def)

type_synonym step = "store \<Rightarrow> (string + unit) \<times> store"

fun run_steps :: "step list \<Rightarrow> step" where
  "run_steps [] st = (Inr (), st)"
| "run_steps (f # fs) st =
     (case f st of (Inl err, st') \<Rightarrow> (Inl err, st') | (Inr _, st') \<Rightarrow> run_steps fs st')"

definition append_step :: "codec \<Rightarrow> sys_time \<Rightarrow> event \<Rightarrow> step" where
  "append_step cd clk ev st =
     (case store_append cd (secs_of clk) ev st of
        (Inl err, st') \<Rightarrow> (Inl err, st') | (Inr _, st') \<Rightarrow> (Inr (), st'))"

text \<open>\<open>store.append(..).ok()\<close>: a failed append is dropped.\<close>

definition append_ignoring :: "codec \<Rightarrow> sys_time \<Rightarrow> event \<Rightarrow> step" where
  "append_ignoring cd clk ev st = (Inr (), snd (store_append cd (secs_of clk) ev st))"

definition append_change_step :: "codec \<Rightarrow> sys_time \<Rightarrow> event \<Rightarrow> step" where
  "append_change_step cd clk ev st =
     (case append_todo_change cd (secs_of clk) ev st of
        (Inl err, st') \<Rightarrow> (Inl err, st') | (Inr _, st') \<Rightarrow> (Inr (), st'))"

definition goal_not_found :: "string \<Rightarrow> string" where
  "goal_not_found gid = ''goal '' @ gid @ '' not found''"

definition replayed_goal :: "codec \<Rightarrow> sys_time \<Rightarrow> string \<Rightarrow> store \<Rightarrow> string + goal" where
  "replayed_goal cd clk gid st =
     and_then (replay_store cd (secs_of clk) gid st) (\<lambda>g. require g (goal_not_found gid))"

text \<open>A command: what it decided on the replayed goal, then its steps.\<close>

definition perform :: "string + step list \<Rightarrow> step" where
  "perform plan st = (case plan of Inl err \<Rightarrow> (Inl err, st) | Inr steps \<Rightarrow> run_steps steps st)"

section \<open>The Next Action line\<close>

definition sorted_strings :: "string list \<Rightarrow> string list" where
  "sorted_strings xs = remdups_adj (sort xs)"

definition next_action_text :: "goal \<Rightarrow> sys_time \<Rightarrow> string" where
  "next_action_text g clk =
     (let (claimable, owner_scoped) = pending_advancement_owner_aware_at g clk in
      case claimable of
        t # _ \<Rightarrow> t_text t
      | [] \<Rightarrow>
          (if owner_scoped \<noteq> []
           then dec (length owner_scoped) @ '' owner-scoped todo(s) await their owning agent(s): ''
                @ join '', '' (sorted_strings (List.map_filter t_owner owner_scoped))
           else ''all todos complete; no further action''))"

definition set_next_action_step :: "sys_time \<Rightarrow> string \<Rightarrow> string \<Rightarrow> step" where
  "set_next_action_step clk gid na st =
     (case set_next_action (secs_of clk) gid na st of Inl err \<Rightarrow> (Inl err, st) | Inr st' \<Rightarrow> (Inr (), st'))"

definition refresh_next_action :: "codec \<Rightarrow> sys_time \<Rightarrow> string \<Rightarrow> step" where
  "refresh_next_action cd clk gid st =
     (case replayed_goal cd clk gid st of
        Inl err \<Rightarrow> (Inl err, st)
      | Inr g \<Rightarrow> set_next_action_step clk gid (next_action_text g clk) st)"

abbreviation ev_of :: "sys_time \<Rightarrow> string \<Rightarrow> event_kind \<Rightarrow> event" where
  "ev_of clk gid k \<equiv> \<lparr>ev_kind = k, ev_goal_id = gid, ev_ts = secs_of clk\<rparr>"

text \<open>The split of a comma-separated flag value.\<close>

definition csv :: "string \<Rightarrow> string list" where
  "csv v = map trim (split_on CHR '','' v)"

definition nonempty_csv :: "string \<Rightarrow> string list" where
  "nonempty_csv v = filter (\<lambda>s. s \<noteq> []) (csv v)"

section \<open>Completing a todo\<close>

definition latest_turn :: "goal \<Rightarrow> u32" where
  "latest_turn g = fold max (map r_turn (g_history g)) 0"

definition next_seq :: "goal \<Rightarrow> string \<Rightarrow> u32" where
  "next_seq g tid = (case find_delivery g tid of None \<Rightarrow> 1 | Some d \<Rightarrow> d_seq d + 1)"

definition delivered_event :: "sys_time \<Rightarrow> string \<Rightarrow> goal \<Rightarrow> string \<Rightarrow> string option \<Rightarrow> u32 \<Rightarrow> event" where
  "delivered_event clk gid g tid note turn =
     ev_of clk gid (DeliveryOutcomeRecorded tid OUTCOME_DELIVERED note turn (next_seq g tid))"

definition completion_basis :: "bool \<Rightarrow> todo \<Rightarrow> string" where
  "completion_basis force t =
     (if force then ''operator_override''
      else if t_validator t \<noteq> None then ''manual_review; machine validator NOT executed''
      else ''manual_review'')"


definition completion_events ::
  "sys_time \<Rightarrow> string \<Rightarrow> goal \<Rightarrow> todo \<Rightarrow> bool \<Rightarrow> string option \<Rightarrow> string option \<Rightarrow> bool \<Rightarrow> event list" where
  "completion_events clk gid g t no_follow_up successor evidence force =
     ev_of clk gid (TodoCompleted (t_id t) no_follow_up (case successor of None \<Rightarrow> [] | Some s \<Rightarrow> [s]) evidence)
     # (if t_class t = Advancement
        then [delivered_event clk gid g (t_id t)
                (Some (''completion_basis='' @ completion_basis force t)) (latest_turn g)]
        else [])"


text \<open>\<open>record_delivery_if_advancement\<close>, after a run completed the todo.\<close>

definition record_delivery_if_advancement ::
  "codec \<Rightarrow> sys_time \<Rightarrow> goal \<Rightarrow> string \<Rightarrow> string \<Rightarrow> u32 \<Rightarrow> step" where
  "record_delivery_if_advancement cd clk g gid tid turn st =
     (if (case find_todo g tid of None \<Rightarrow> False | Some t \<Rightarrow> t_class t = Advancement)
      then append_step cd clk (delivered_event clk gid g tid None turn) st
      else (Inr (), st))"

section \<open>Deliveries\<close>

definition not_found_in :: "string \<Rightarrow> string \<Rightarrow> string" where
  "not_found_in tid gid = ''todo '' @ tid @ '' not found in goal '' @ gid"

definition followup_to_close :: "goal \<Rightarrow> string \<Rightarrow> string option" where
  "followup_to_close g tid =
     (case Option.bind (find_delivery g tid) d_followthrough_todo_id of
        None \<Rightarrow> None
      | Some f \<Rightarrow>
          (case find_todo g f of
             None \<Rightarrow> None
           | Some t \<Rightarrow> if t_status t \<noteq> Done then Some f else None))"

definition delivery_record_events ::
  "sys_time \<Rightarrow> string \<Rightarrow> goal \<Rightarrow> string \<Rightarrow> string \<Rightarrow> string option \<Rightarrow> event list" where
  "delivery_record_events clk gid g tid out note =
     ev_of clk gid (DeliveryOutcomeRecorded tid out note (latest_turn g) (next_seq g tid))
     # (if is_resolution out
        then (case followup_to_close g tid of
                None \<Rightarrow> []
              | Some f \<Rightarrow>
                  [ev_of clk gid (TodoCompleted f True []
                     (Some (''delivery '' @ tid @ '' '' @ right_arrow @ '' '' @ out)))])
        else [])"

definition delivery_record_plan ::
  "sys_time \<Rightarrow> string \<Rightarrow> goal \<Rightarrow> string \<Rightarrow> string \<Rightarrow> string option \<Rightarrow> string + event list" where
  "delivery_record_plan clk gid g tid out note =
     (if find_todo g tid = None then Inl (not_found_in tid gid)
      else (case validate_transition (find_delivery g tid) out of
              Inl err \<Rightarrow> Inl (''delivery '' @ tid @ '': '' @ err)
            | Inr _ \<Rightarrow> Inr (delivery_record_events clk gid g tid out note)))"

definition cmd_delivery_record :: "codec \<Rightarrow> string \<Rightarrow> sys_time \<Rightarrow> string list \<Rightarrow> step" where
  "cmd_delivery_record cd prog clk args st =
     perform
       (and_then (reject_unknown_flags prog args [''--goal'', ''--note'', ''--outcome'', ''--todo-id''])
        (\<lambda>_. let fl = flag (parse_pairs args) in
         and_then (require (fl ''--goal'') ''--goal required'') (\<lambda>gid.
         and_then (require (fl ''--todo-id'') ''--todo-id required'') (\<lambda>tid.
         and_then (require (fl ''--outcome'') ''--outcome required'') (\<lambda>raw.
         and_then (require (normalize_outcome raw)
                     (''--outcome must be one of: '' @ join '', '' DELIVERY_OUTCOME_CHOICES)) (\<lambda>out.
         and_then (replayed_goal cd clk gid st) (\<lambda>g.
         and_then (delivery_record_plan clk gid g tid out (fl ''--note'')) (\<lambda>evs.
           Inr (map (append_step cd clk) evs))))))))) st"

text \<open>The coordination todo of one overdue delivery, under the id \<open>gen_id\<close> returned.\<close>

definition followthrough_todo :: "sys_time \<Rightarrow> string \<Rightarrow> overdue_delivery \<Rightarrow> u32 \<Rightarrow> u32 \<Rightarrow> todo" where
  "followthrough_todo clk fresh od current_turn threshold =
     (coordination clk fresh (followthrough_todo_text od))
       \<lparr>t_note := Some (''auto-created by outcome_followthrough (source '' @ od_todo_id od
                        @ '', turn '' @ dec current_turn @ '', threshold '' @ dec threshold @ '')'')\<rparr>"

definition followthrough_events_of ::
  "sys_time \<Rightarrow> string \<Rightarrow> u32 \<Rightarrow> u32 \<Rightarrow> overdue_delivery \<times> string \<Rightarrow> event list" where
  "followthrough_events_of clk gid current_turn threshold p =
     [ev_of clk gid (TodoAdded (followthrough_todo clk (snd p) (fst p) current_turn threshold)),
      ev_of clk gid (FollowthroughCreated (od_todo_id (fst p)) (snd p) (od_turns_overdue (fst p)))]"

text \<open>\<open>ids\<close>: the ids the successive calls of \<open>gen_id\<close> return, at least one for each delivery.\<close>

definition followthrough_events ::
  "sys_time \<Rightarrow> string \<Rightarrow> goal \<Rightarrow> u32 \<Rightarrow> string list \<Rightarrow> event list" where
  "followthrough_events clk gid g threshold ids =
     concat (map (followthrough_events_of clk gid (latest_turn g) threshold)
       (zip (overdue_deliveries g (latest_turn g) threshold) ids))"

definition run_followthrough_check ::
  "codec \<Rightarrow> sys_time \<Rightarrow> string list \<Rightarrow> string \<Rightarrow> u32 \<Rightarrow> step" where
  "run_followthrough_check cd clk ids gid threshold st =
     perform (and_then (replayed_goal cd clk gid st) (\<lambda>g.
       Inr (map (append_step cd clk) (followthrough_events clk gid g threshold ids)))) st"

definition parse_u32 :: "string \<Rightarrow> u32 option" where
  "parse_u32 s = (case parse_u64 s of Some n \<Rightarrow> if n < 2 ^ 32 then Some n else None | None \<Rightarrow> None)"

text \<open>Each \<open>--turns\<close> that parses replaces the one before; one that does not leaves it.\<close>

definition turns_of :: "string list \<Rightarrow> u32" where
  "turns_of args =
     foldl (\<lambda>n (k, v). if k = ''--turns'' then (case parse_u32 v of None \<Rightarrow> n | Some m \<Rightarrow> m) else n)
       DEFAULT_FOLLOWTHROUGH_TURNS (parse_pairs args)"

definition cmd_delivery_followthrough ::
  "codec \<Rightarrow> string \<Rightarrow> sys_time \<Rightarrow> string list \<Rightarrow> string list \<Rightarrow> step" where
  "cmd_delivery_followthrough cd prog clk ids args st =
     (case (and_then (reject_unknown_flags prog args [''--goal'', ''--turns''])
              (\<lambda>_. let fl = flag (parse_pairs args) in
               and_then (require (fl ''--goal'') ''--goal required'') (\<lambda>gid.
                 Inr (gid, turns_of args)))) of
        Inl err \<Rightarrow> (Inl err, st)
      | Inr (gid, turns) \<Rightarrow> run_followthrough_check cd clk ids gid turns st)"

section \<open>Gates, archive, supersede\<close>

definition cmd_gate :: "codec \<Rightarrow> string \<Rightarrow> sys_time \<Rightarrow> string list \<Rightarrow> step" where
  "cmd_gate cd prog clk args st =
     perform
       (and_then (reject_unknown_flags prog args [''--decision'', ''--goal'', ''--note'', ''--todo-id''])
        (\<lambda>_. let fl = flag (parse_pairs args) in
         and_then (require (fl ''--goal'') ''--goal required'') (\<lambda>gid.
         and_then (require (fl ''--todo-id'') ''--todo-id required'') (\<lambda>tid.
         and_then (require (fl ''--decision'') ''--decision required'') (\<lambda>decision.
         and_then (replayed_goal cd clk gid st) (\<lambda>g.
         and_then (require (find_todo g tid) (not_found_in tid gid)) (\<lambda>t.
         and_then (check (t_class t = UserGate)
           (''todo '' @ tid @ '' is not a user_gate '' @ em_dash
            @ '' gate resolve only applies to user_gate todos'')) (\<lambda>_.
           Inr [append_step cd clk (ev_of clk gid (GateResolved tid decision (fl ''--note''))),
                refresh_next_action cd clk gid])))))))) st"

definition cmd_todo_archive :: "codec \<Rightarrow> string \<Rightarrow> sys_time \<Rightarrow> string list \<Rightarrow> step" where
  "cmd_todo_archive cd prog clk args st =
     perform
       (and_then (reject_unknown_flags prog args [''--goal'', ''--todo-id''])
        (\<lambda>_. let fl = flag (parse_pairs args) in
         and_then (require (fl ''--goal'') ''--goal required'') (\<lambda>gid.
         and_then (require (fl ''--todo-id'') ''--todo-id required'') (\<lambda>tid.
         and_then (replayed_goal cd clk gid st) (\<lambda>g.
           Inr [append_ignoring cd clk (ev_of clk gid (TodoArchived tid)),
                refresh_next_action cd clk gid]))))) st"

definition supersede_check :: "string \<Rightarrow> goal \<Rightarrow> string \<Rightarrow> string + unit" where
  "supersede_check gid g tid =
     (case find_todo g tid of
        None \<Rightarrow> Inl (not_found_in tid gid)
      | Some t \<Rightarrow>
          (if t_status t = Done
           then Inl (''todo '' @ tid @ '' is already done '' @ em_dash
                     @ '' supersede only applies to unfinished todos'')
           else Inr ()))"

text \<open>Up to the signal that stops the holder's worker.\<close>

definition cmd_todo_supersede :: "codec \<Rightarrow> string \<Rightarrow> sys_time \<Rightarrow> string list \<Rightarrow> step" where
  "cmd_todo_supersede cd prog clk args st =
     perform
       (and_then (reject_unknown_flags prog args [''--goal'', ''--reason'', ''--todo-id''])
        (\<lambda>_. let fl = flag (parse_pairs args) in
         and_then (require (fl ''--goal'') ''--goal required'') (\<lambda>gid.
         and_then (require (fl ''--todo-id'') ''--todo-id required'') (\<lambda>tid.
         and_then (replayed_goal cd clk gid st) (\<lambda>g.
         and_then (supersede_check gid g tid) (\<lambda>_.
           Inr [append_step cd clk (ev_of clk gid (TodoSuperseded tid)),
                refresh_next_action cd clk gid])))))) st"

section \<open>Updating a todo\<close>

datatype resume_when = DeferSecs u64 | TextHint string

definition parse_resume_when :: "string \<Rightarrow> resume_when" where
  "parse_resume_when value =
     (case parse_u64 (trim value) of Some secs \<Rightarrow> DeferSecs secs | None \<Rightarrow> TextHint value)"

definition epoch_millis :: "sys_time \<Rightarrow> u64" where
  "epoch_millis clk = (if clk < 0 then 0 else nat (clk div 1000000))"

definition blocks_error :: string where
  "blocks_error = ''--blocks requires a comma-separated todo id list (bare `--blocks` reads as `true`)''"

definition priority_check :: "string option \<Rightarrow> string + unit" where
  "priority_check p =
     (case p of
        None \<Rightarrow> Inr ()
      | Some v \<Rightarrow> check (upper v = ''P0'' \<or> upper v = ''P1'' \<or> upper v = ''P2'')
                    (''unknown --priority `'' @ v @ ''` (P0|P1|P2)''))"

definition update_blocks :: "string option \<Rightarrow> string list option" where
  "update_blocks v = map_option (\<lambda>b. if blank b then [] else nonempty_csv (trim b)) v"

definition update_patch :: "sys_time \<Rightarrow> (string \<Rightarrow> string option) \<Rightarrow> todo_patch" where
  "update_patch clk fl =
     (let (rw, at_ms) =
        (case fl ''--resume-when'' of
           None \<Rightarrow> (None, None)
         | Some v \<Rightarrow>
             (case parse_resume_when v of
                DeferSecs secs \<Rightarrow>
                  (Some (''defer:'' @ dec secs),
                   Some (saturating_add_u64 (epoch_millis clk) (saturating_mul_u64 secs 1000)))
              | TextHint text \<Rightarrow> (Some text, None)))
      in \<lparr>up_text = fl ''--text'', up_status = fl ''--status'', up_evidence = fl ''--evidence'',
          up_note = fl ''--note'', up_priority = fl ''--priority'', up_resume_when = rw,
          up_blocks = update_blocks (fl ''--blocks''), up_acceptance = fl ''--acceptance'',
          up_owner = fl ''--owner'', up_resume_at_ms = at_ms\<rparr>)"

definition done_update_error :: string where
  "done_update_error = ''todo update --status done is not allowed '' @ em_dash
     @ '' use `todo complete --no-follow-up|--successor` (completion policy, successor, and no-follow-up contracts are enforced)''"

definition cmd_todo_update :: "codec \<Rightarrow> string \<Rightarrow> sys_time \<Rightarrow> string list \<Rightarrow> step" where
  "cmd_todo_update cd prog clk args st =
     perform
       (and_then (reject_unknown_flags prog args
          [''--acceptance'', ''--blocks'', ''--evidence'', ''--goal'', ''--note'', ''--owner'',
           ''--priority'', ''--resume-when'', ''--status'', ''--text'', ''--todo-id''])
        (\<lambda>_. let fl = flag (parse_pairs args) in
         and_then (require (fl ''--goal'') ''--goal required'') (\<lambda>gid.
         and_then (require (fl ''--todo-id'') ''--todo-id required'') (\<lambda>tid.
         and_then (check (case update_blocks (fl ''--blocks'') of
                            None \<Rightarrow> True | Some ids \<Rightarrow> ''true'' \<notin> set ids) blocks_error) (\<lambda>_.
         and_then (priority_check (fl ''--priority'')) (\<lambda>_.
         and_then (replayed_goal cd clk gid st) (\<lambda>g.
         and_then (check (find_todo g tid \<noteq> None) (not_found_in tid gid)) (\<lambda>_.
         and_then (check (fl ''--status'' \<noteq> Some ''done'') done_update_error) (\<lambda>_.
           Inr [append_change_step cd clk
                  \<lparr>ev_kind = TodoUpdated tid (update_patch clk fl), ev_goal_id = gid,
                   ev_ts = epoch_millis clk div 1000\<rparr>,
                refresh_next_action cd clk gid]))))))))) st"

section \<open>Adding a todo\<close>

text \<open>The walk up the parents of a new todo: \<open>depth\<close> levels so far.\<close>

function check_ancestors :: "string \<Rightarrow> goal \<Rightarrow> string option \<Rightarrow> nat \<Rightarrow> string + unit" where
  "check_ancestors gid g None depth = Inr ()"
| "check_ancestors gid g (Some i) depth =
     (case find_todo g i of
        None \<Rightarrow> Inl (''parent todo '' @ i @ '' not found in goal '' @ gid)
      | Some p \<Rightarrow>
          (if depth + 1 > 3 then Inl ''todo hierarchy supports at most 3 levels''
           else check_ancestors gid g (t_parent_id p) (depth + 1)))"
  by pat_completeness auto
termination by (relation "measure (\<lambda>(gid, g, p, depth). 4 - depth)") auto

definition valid_combo :: "string \<Rightarrow> string \<Rightarrow> bool" where
  "valid_combo role cls \<longleftrightarrow>
     role = ''agent'' \<and> cls \<in> set [''advancement'', ''monitor'', ''blocker'', ''coordination'']
     \<or> cls = ''user_gate'' \<or> role = ''user'' \<and> cls = ''user_action''"

text \<open>\<open>SystemTime::now() + Duration::from_secs(n)\<close>: a panic when the sum is out of range.\<close>

definition after_secs :: "sys_time \<Rightarrow> u64 \<Rightarrow> string + sys_time" where
  "after_secs clk n =
     (if clk div 1000000000 + int n \<le> i64_max then Inr (clk + time_of_secs n) else Inl panic_error)"

function trim_start_matches :: "string \<Rightarrow> string \<Rightarrow> string" where
  "trim_start_matches tag s =
     (if tag \<noteq> [] \<and> starts_with tag s then trim_start_matches tag (drop (length tag) s) else s)"
  by pat_completeness auto
termination
  by (relation "measure (\<lambda>(tag, s). length s)")
    (auto simp: starts_with_def, metis append_Nil2 diff_less length_greater_0_conv list.size(3) take_eq_Nil2)

declare trim_start_matches.simps [simp del]

definition new_todo_of :: "sys_time \<Rightarrow> string \<Rightarrow> string \<Rightarrow> string \<Rightarrow> string \<Rightarrow> string option \<Rightarrow> string list \<Rightarrow> todo" where
  "new_todo_of clk fresh role cls text question blocks =
     (if role = ''agent'' \<and> cls = ''advancement'' then advancement clk fresh text
      else if role = ''agent'' \<and> cls = ''monitor'' then monitor clk fresh text 60000000000
      else if cls = ''user_gate''
      then user_gate clk fresh (case question of None \<Rightarrow> text | Some q \<Rightarrow> q) blocks
      else if role = ''user'' \<and> cls = ''user_action'' then user_action clk fresh text
      else if role = ''agent'' \<and> cls = ''blocker'' then blocker clk fresh text blocks
      else if role = ''agent'' \<and> cls = ''coordination'' then coordination clk fresh text
      else advancement clk fresh text)"

definition tag_priority :: "string \<Rightarrow> todo \<Rightarrow> todo" where
  "tag_priority p t =
     (let pr = patch_priority p;
          tag = ''['' @ priority_display pr @ ''] '';
          t1 = t\<lparr>t_priority := pr\<rparr>
      in if starts_with tag (t_text t1) then t1
         else (let t2 = t1\<lparr>t_text := tag @ t_text t1\<rparr> in
               if t_title t2 = trim_start_matches tag (t_text t2) \<or> starts_with tag (t_title t2)
               then t2\<lparr>t_title := tag @ trim_start_matches tag (t_title t2)\<rparr> else t2))"

text \<open>The flags applied in order; the three that set a deadline may panic.\<close>

definition defer_by_condition :: "sys_time \<Rightarrow> string option \<Rightarrow> todo \<Rightarrow> string + todo" where
  "defer_by_condition clk rw t =
     (case rw of
        None \<Rightarrow> Inr t
      | Some v \<Rightarrow>
          and_then (after_secs clk (case parse_resume_when v of DeferSecs n \<Rightarrow> n | TextHint _ \<Rightarrow> 3600))
            (\<lambda>due. Inr (t\<lparr>t_resume_when_text := Some v, t_status := Deferred, t_resume_when := Some due\<rparr>)))"

definition defer_by_secs :: "sys_time \<Rightarrow> u64 \<Rightarrow> todo \<Rightarrow> string + todo" where
  "defer_by_secs clk n t =
     (if n > 0
      then and_then (after_secs clk n) (\<lambda>due. Inr (t\<lparr>t_status := Deferred, t_resume_when := Some due\<rparr>))
      else Inr t)"

definition apply_cadence :: "sys_time \<Rightarrow> string option \<Rightarrow> todo \<Rightarrow> string + todo" where
  "apply_cadence clk c t =
     (case c of
        None \<Rightarrow> Inr t
      | Some v \<Rightarrow>
          (let t1 = t\<lparr>t_monitor_cadence := Some v\<rparr> in
           case monitor_cadence_secs v of
             None \<Rightarrow> Inr t1
           | Some secs \<Rightarrow> and_then (after_secs clk secs) (\<lambda>due. Inr (t1\<lparr>t_resume_when := Some due\<rparr>))))"

definition some_or :: "'a option \<Rightarrow> 'a option \<Rightarrow> 'a option" where
  "some_or x y = (case x of None \<Rightarrow> y | Some v \<Rightarrow> Some v)"

definition built_todo ::
  "sys_time \<Rightarrow> string \<Rightarrow> (string \<Rightarrow> string option) \<Rightarrow> string \<Rightarrow> string \<Rightarrow> string \<Rightarrow> string list \<Rightarrow> string + todo" where
  "built_todo clk fresh fl role cls text blocks =
     (let t0 = (new_todo_of clk fresh role cls text (fl ''--gate-question'') blocks)
                 \<lparr>t_parent_id := fl ''--parent''\<rparr>;
          t1 = (case fl ''--owner'' of None \<Rightarrow> t0 | Some a \<Rightarrow> owned_by a t0);
          t2 = blocking blocks t1;
          global = (fl ''--global-gate'' \<noteq> None);
          t3 = t2\<lparr>t_goal_bound := fl ''--goal-bound'' \<noteq> None \<or> global \<and> t_class t2 = UserGate,
                  t_global_gate := global\<rparr>
      in and_then (defer_by_condition clk (fl ''--resume-when'') t3) (\<lambda>t4.
         let t5 = t4\<lparr>t_note := some_or (fl ''--note'') (t_note t4)\<rparr> in
         and_then (defer_by_secs clk (case Option.bind (fl ''--defer-secs'') parse_u64 of None \<Rightarrow> 0 | Some n \<Rightarrow> n) t5)
           (\<lambda>t6.
         let t7 = (case fl ''--priority'' of None \<Rightarrow> t6 | Some p \<Rightarrow> tag_priority p t6);
             t8 = t7\<lparr>t_action_kind := some_or (fl ''--action-kind'') (t_action_kind t7),
                     t_validator := some_or (fl ''--verify'') (t_validator t7),
                     t_acceptance := some_or (fl ''--acceptance'') (t_acceptance t7),
                     t_max_validation_attempts :=
                       (case Option.bind (fl ''--max-validation-attempts'') parse_u32 of
                          None \<Rightarrow> t_max_validation_attempts t7 | Some n \<Rightarrow> max n 1),
                     t_monitor_target := some_or (fl ''--monitor-target'') (t_monitor_target t7),
                     t_monitor_policy := some_or (fl ''--monitor-policy'') (t_monitor_policy t7)\<rparr>
         in and_then (apply_cadence clk (fl ''--cadence'') t8) (\<lambda>t9.
         let t10 = (case fl ''--title'' of None \<Rightarrow> t9 | Some v \<Rightarrow> t9\<lparr>t_title := v\<rparr>) in
         Inr (t10\<lparr>t_task_repository := some_or (fl ''--task-repository'') (t_task_repository t10),
                  t_continuation_policy :=
                    some_or (fl ''--continuation-policy'') (t_continuation_policy t10),
                  t_required_write_scope :=
                    (case fl ''--required-write-scope'' of
                       None \<Rightarrow> t_required_write_scope t10 | Some v \<Rightarrow> csv v)\<rparr>)))))"

definition combo_error :: "string \<Rightarrow> string \<Rightarrow> string" where
  "combo_error role cls =
     ''unknown --role/--class combo `'' @ role @ ''`/`'' @ cls
     @ ''` (agent: advancement|monitor|blocker|coordination; user_gate: any role; user: user_action)''"

definition cmd_todo_add :: "codec \<Rightarrow> string \<Rightarrow> sys_time \<Rightarrow> string \<Rightarrow> string list \<Rightarrow> step" where
  "cmd_todo_add cd prog clk fresh args st =
     perform
       (and_then (reject_unknown_flags prog args
          [''--acceptance'', ''--action-kind'', ''--blocks'', ''--cadence'', ''--class'',
           ''--continuation-policy'', ''--defer-secs'', ''--gate-question'', ''--global-gate'', ''--goal'',
           ''--goal-bound'', ''--max-validation-attempts'', ''--monitor-policy'', ''--monitor-target'',
           ''--note'', ''--owner'', ''--parent'', ''--priority'', ''--required-write-scope'',
           ''--resume-when'', ''--role'', ''--task-repository'', ''--text'', ''--title'', ''--verify''])
        (\<lambda>_. let fl = flag (parse_pairs args);
                 role = (case fl ''--role'' of None \<Rightarrow> ''agent'' | Some r \<Rightarrow> r);
                 cls = (case fl ''--class'' of None \<Rightarrow> ''advancement'' | Some c \<Rightarrow> c);
                 blocks = (case fl ''--blocks'' of None \<Rightarrow> [] | Some b \<Rightarrow> nonempty_csv b) in
         and_then (require (fl ''--goal'') ''--goal required'') (\<lambda>gid.
         and_then (require (fl ''--text'') ''--text required'') (\<lambda>text.
         and_then (check (\<not> blank text) ''--text must be non-empty'') (\<lambda>_.
         and_then (check (valid_combo role cls) (combo_error role cls)) (\<lambda>_.
         and_then (priority_check (fl ''--priority'')) (\<lambda>_.
         and_then (check (''true'' \<notin> set blocks) blocks_error) (\<lambda>_.
         and_then (replayed_goal cd clk gid st) (\<lambda>g.
         and_then (check_ancestors gid g (fl ''--parent'') 1) (\<lambda>_.
         and_then (built_todo clk fresh fl role cls text blocks) (\<lambda>t.
           Inr [append_change_step cd clk (ev_of clk gid (TodoAdded t)),
                refresh_next_action cd clk gid]))))))))))) st"

section \<open>Claiming a todo\<close>

definition cmd_todo_claim :: "codec \<Rightarrow> guard_env \<Rightarrow> string \<Rightarrow> sys_time \<Rightarrow> string list \<Rightarrow> step" where
  "cmd_todo_claim cd e prog clk args st =
     perform
       (and_then (reject_unknown_flags prog args
          [''--agent-id'', ''--force'', ''--goal'', ''--lease-secs'', ''--todo-id''])
        (\<lambda>_. let fl = flag (parse_pairs args);
                 agent = (case fl ''--agent-id'' of None \<Rightarrow> ''default-agent'' | Some a \<Rightarrow> a);
                 secs = (case fl ''--lease-secs'' of
                           None \<Rightarrow> 3600
                         | Some v \<Rightarrow> (case parse_u64 v of None \<Rightarrow> 3600 | Some n \<Rightarrow> n));
                 force = (fl ''--force'' \<noteq> None) in
         and_then (require (fl ''--goal'') ''--goal required'') (\<lambda>gid.
         and_then (require (fl ''--todo-id'') ''--todo-id required'') (\<lambda>tid.
         and_then (replayed_goal cd clk gid st) (\<lambda>g.
         and_then (check (is_registered_agent g (Some agent))
           (''agent `'' @ agent @ ''` is not registered for goal '' @ gid @ '' '' @ em_dash @ '' `'' @ prog
            @ '' agent register --goal '' @ gid @ '' --agent-id '' @ agent @ ''` first'')) (\<lambda>_.
         and_then (require (find_todo g tid) (not_found_in tid gid)) (\<lambda>t.
         and_then (check (t_status t = Open) (''todo '' @ tid @ '' cannot be claimed: not open'')) (\<lambda>_.
           Inr [\<lambda>st. (case try_claim_todo_with_workspace cd e (secs_of clk) gid tid agent secs None force st of
                         (Inl err, st') \<Rightarrow> (Inl err, st')
                       | (Inr c, st') \<Rightarrow>
                           (check (cr_claimed c)
                              (''todo '' @ tid @ '' cannot be claimed: another agent holds a live lease''), st')),
                refresh_next_action cd clk gid])))))))) st"

section \<open>Agents, authority, profile\<close>

definition parse_workspaces :: "guard_env \<Rightarrow> string \<Rightarrow> string \<Rightarrow> string list" where
  "parse_workspaces e cwd raw = map (normalize_workspace_path e cwd) (nonempty_csv raw)"

text \<open>\<open>cmd_agent\<close> without a subcommand, or with \<open>register\<close> or \<open>onboard\<close>.\<close>

definition cmd_agent_event ::
  "codec \<Rightarrow> guard_env \<Rightarrow> string \<Rightarrow> string \<Rightarrow> sys_time \<Rightarrow> (string \<Rightarrow> string list \<Rightarrow> event_kind) \<Rightarrow> string list
     \<Rightarrow> step" where
  "cmd_agent_event cd e cwd prog clk k args st =
     perform
       (and_then (reject_unknown_flags prog args [''--agent-id'', ''--goal'', ''--workspace''])
        (\<lambda>_. let fl = flag (parse_pairs args);
                 workspaces = (case fl ''--workspace'' of None \<Rightarrow> [] | Some v \<Rightarrow> parse_workspaces e cwd v) in
         and_then (require (fl ''--goal'') ''--goal required'') (\<lambda>gid.
         and_then (require (fl ''--agent-id'') ''--agent-id required'') (\<lambda>agent.
         and_then (replayed_goal cd clk gid st) (\<lambda>_.
           Inr [append_step cd clk (ev_of clk gid (k agent workspaces))]))))) st"

definition cmd_agent ::
  "codec \<Rightarrow> guard_env \<Rightarrow> string \<Rightarrow> string \<Rightarrow> sys_time \<Rightarrow> string list \<Rightarrow> step" where
  "cmd_agent cd e cwd prog clk args st =
     (case args of
        [] \<Rightarrow> cmd_agent_event cd e cwd prog clk AgentRegistered args st
      | word # rest \<Rightarrow>
          (if word = ''onboard''
           then cmd_agent_event cd e cwd prog clk (\<lambda>a ws. AgentOnboarded a [] ws) rest st
           else if word = ''list'' then (Inr (), st)
           else if word \<noteq> ''register'' \<and> \<not> starts_with ''-'' word
           then (Inl (''unknown agent subcommand `'' @ word @ ''` (try `'' @ prog @ '' agent --help`)''), st)
           else cmd_agent_event cd e cwd prog clk AgentRegistered args st))"

definition cmd_authority :: "codec \<Rightarrow> string \<Rightarrow> sys_time \<Rightarrow> string list \<Rightarrow> step" where
  "cmd_authority cd prog clk args st =
     perform
       (and_then (reject_unknown_flags prog args [''--goal'', ''--require-approval'', ''--write-scope''])
        (\<lambda>_. let fl = flag (parse_pairs args) in
         and_then (require (fl ''--goal'') ''--goal required'') (\<lambda>gid.
         and_then (replayed_goal cd clk gid st) (\<lambda>g.
           Inr [append_ignoring cd clk (ev_of clk gid (AuthoritySet
                  (case fl ''--write-scope'' of None \<Rightarrow> au_write_scope (g_authority g) | Some v \<Rightarrow> csv v)
                  (case fl ''--require-approval'' of
                     None \<Rightarrow> au_requires_approval (g_authority g) | Some v \<Rightarrow> csv v)))])))) st"

definition cmd_profile :: "codec \<Rightarrow> string \<Rightarrow> sys_time \<Rightarrow> string list \<Rightarrow> step" where
  "cmd_profile cd prog clk args st =
     perform
       (case args of
          sub # rest \<Rightarrow>
            (if sub \<noteq> ''set'' then Inl ''profile subcommand must be `set`''
             else and_then (reject_unknown_flags prog rest [''--goal'', ''--outcome-floor''])
              (\<lambda>_. let fl = flag (parse_pairs rest) in
               and_then (require (fl ''--goal'') ''--goal required'') (\<lambda>gid.
               and_then (replayed_goal cd clk gid st) (\<lambda>g.
               and_then (case fl ''--outcome-floor'' of
                           None \<Rightarrow> Inr (x_outcome_floor_streak_threshold (g_execution_profile g))
                         | Some v \<Rightarrow> require (parse_u32 v) ''--outcome-floor must be a number'') (\<lambda>n.
                 Inr [append_ignoring cd clk (ev_of clk gid (ProfileSet n))])))))
        | [] \<Rightarrow> Inl ''profile subcommand must be `set`'') st"

section \<open>Replan\<close>

text \<open>Every \<open>--delta-kind\<close>, in order.\<close>

definition delta_kinds_of :: "string list \<Rightarrow> string list" where
  "delta_kinds_of args = map snd (filter (\<lambda>p. fst p = ''--delta-kind'') (parse_pairs args))"

definition replan_ack_check :: "(string list \<Rightarrow> string) \<Rightarrow> string list \<Rightarrow> string + unit" where
  "replan_ack_check dbg kinds =
     (if kinds = []
      then Inl ''replan ack requires --delta-kind (vision_patch|no_followup|successor_or_supersede|runnable_todo_set|...)''
      else if \<not> list_ex delta_kind_changes_frontier kinds
      then Inl (''--delta-kind must change the machine-visible frontier; got '' @ dbg kinds)
      else Inr ())"

text \<open>\<open>dbg\<close> is the \<open>Debug\<close> text of a list of strings.\<close>

definition cmd_replan_ack ::
  "codec \<Rightarrow> (string list \<Rightarrow> string) \<Rightarrow> string \<Rightarrow> sys_time \<Rightarrow> string list \<Rightarrow> step" where
  "cmd_replan_ack cd dbg prog clk args st =
     perform
       (and_then (reject_unknown_flags prog args [''--delta-kind'', ''--goal''])
        (\<lambda>_. let kinds = delta_kinds_of args in
         and_then (require (flag (parse_pairs args) ''--goal'') ''--goal required'') (\<lambda>gid.
         and_then (replayed_goal cd clk gid st) (\<lambda>_.
         and_then (replan_ack_check dbg kinds) (\<lambda>_.
           Inr [append_step cd clk (ev_of clk gid (ReplanAcked kinds))]))))) st"

definition DEFAULT_REPLAN_RULE_SET_VERSION :: string where
  "DEFAULT_REPLAN_RULE_SET_VERSION = ''goal_frontier_replan_rules_v0''"

definition cmd_replan_rules_set :: "codec \<Rightarrow> string \<Rightarrow> sys_time \<Rightarrow> string list \<Rightarrow> step" where
  "cmd_replan_rules_set cd prog clk args st =
     perform
       (and_then (reject_unknown_flags prog args [''--format'', ''--goal'', ''--json'', ''--rule-ids''])
        (\<lambda>_. let fl = flag (parse_pairs args);
                 ids = (case fl ''--rule-ids'' of
                          None \<Rightarrow> [] | Some raw \<Rightarrow> if blank raw then [] else nonempty_csv raw) in
         and_then (require (fl ''--goal'') ''--goal required'') (\<lambda>gid.
         and_then (replayed_goal cd clk gid st) (\<lambda>_.
           Inr [append_step cd clk (ev_of clk gid
                  (ReplanRuleSetUpdated DEFAULT_REPLAN_RULE_SET_VERSION ids))])))) st"

section \<open>Goals and reports\<close>

definition cmd_report :: "codec \<Rightarrow> string \<Rightarrow> sys_time \<Rightarrow> string list \<Rightarrow> step" where
  "cmd_report cd prog clk args st =
     perform
       (and_then (reject_unknown_flags prog args [''--agent-id'', ''--goal'', ''--message'', ''--todo-id''])
        (\<lambda>_. let fl = flag (parse_pairs args);
                 clip = (\<lambda>v. truncate_chars (case v of None \<Rightarrow> [] | Some s \<Rightarrow> s) 128) in
         and_then (require (fl ''--goal'') ''--goal required'') (\<lambda>gid.
         and_then (require (fl ''--message'') ''--message required'') (\<lambda>message.
         and_then (replayed_goal cd clk gid st) (\<lambda>_.
           Inr [append_step cd clk (ev_of clk gid
                  (ProgressReported (clip (fl ''--agent-id'')) (clip (fl ''--todo-id''))
                     (truncate_chars message 500)))]))))) st"

definition onboarding_text :: string where
  "onboarding_text = ''[P1] Run `future goal status` for this goal and record the goal count as evidence, or declare an explicit no-follow-up rationale.''"

definition onboarding_todo :: "sys_time \<Rightarrow> string \<Rightarrow> todo" where
  "onboarding_todo clk fresh =
     (advancement clk fresh onboarding_text)
       \<lparr>t_priority := P1, t_action_kind := Some ''onboarding_connection_validation''\<rparr>"

definition register_step :: "guard_env \<Rightarrow> string \<Rightarrow> goal \<Rightarrow> step" where
  "register_step e cwd g st =
     (case register e cwd g st of Inl err \<Rightarrow> (Inl err, st) | Inr st' \<Rightarrow> (Inr (), st'))"

text \<open>\<open>goal init\<close> (the optional \<open>GOAL.md\<close> is written outside the store); \<open>here\<close> is the current
  directory, \<open>fresh_goal\<close> and \<open>fresh\<close> the two generated ids.\<close>

definition cmd_goal_init ::
  "codec \<Rightarrow> guard_env \<Rightarrow> string \<Rightarrow> string \<Rightarrow> sys_time \<Rightarrow> string \<Rightarrow> string \<Rightarrow> string list \<Rightarrow> step" where
  "cmd_goal_init cd e here prog clk fresh_goal fresh args st =
     perform
       (and_then (reject_unknown_flags prog args [''--cwd'', ''--goal-doc'', ''--goal-id'', ''--objective''])
        (\<lambda>_. let fl = flag (parse_pairs args);
                 gid = (case fl ''--goal-id'' of None \<Rightarrow> fresh_goal | Some i \<Rightarrow> i);
                 cwd = (case fl ''--cwd'' of None \<Rightarrow> here | Some c \<Rightarrow> c) in
         and_then (require (fl ''--objective'') ''goal init requires --objective'') (\<lambda>objective.
           Inr (if registered st gid then []
                else [register_step e here (goal_new (secs_of clk) gid objective cwd),
                      append_step cd clk (ev_of clk gid GoalStarted),
                      append_step cd clk (ev_of clk gid (TodoAdded (onboarding_todo clk fresh))),
                      set_next_action_step clk gid onboarding_text,
                      refresh_next_action cd clk gid])))) st"

definition cancelled_next_action :: string where
  "cancelled_next_action = ''goal cancelled '' @ em_dash @ '' automation stopped, state retained''"

text \<open>Up to the signal that stops the goal's workers.\<close>

definition cmd_goal_cancel :: "codec \<Rightarrow> string \<Rightarrow> sys_time \<Rightarrow> string list \<Rightarrow> step" where
  "cmd_goal_cancel cd prog clk args st =
     perform
       (and_then (reject_unknown_flags prog args [''--goal'', ''--reason''])
        (\<lambda>_. let fl = flag (parse_pairs args) in
         and_then (require (fl ''--goal'') ''--goal required'') (\<lambda>gid.
         and_then (replayed_goal cd clk gid st) (\<lambda>_.
           Inr [append_step cd clk (ev_of clk gid (GoalCancelled
                  (case fl ''--reason'' of None \<Rightarrow> ''cancelled by user'' | Some r \<Rightarrow> r))),
                refresh_next_action cd clk gid,
                set_next_action_step clk gid cancelled_next_action])))) st"

section \<open>Releases after a run\<close>

text \<open>\<open>release_run_claim\<close>: the todos still open that the ending run holds; failed appends are
  reported and dropped.\<close>

definition held_by_run :: "string \<Rightarrow> u32 \<Rightarrow> goal \<Rightarrow> string list" where
  "held_by_run agent pid g =
     map t_id (filter (\<lambda>t. t_status t = Open \<and> t_claimed_by t = Some agent \<and> t_holder_pid t = Some pid)
       (g_todos g))"

definition release_run_claim :: "codec \<Rightarrow> sys_time \<Rightarrow> string \<Rightarrow> string option \<Rightarrow> u32 \<Rightarrow> store \<Rightarrow> store" where
  "release_run_claim cd clk gid agent pid st =
     (case agent of
        None \<Rightarrow> st
      | Some a \<Rightarrow>
          (case replay_store cd (secs_of clk) gid st of
             Inr (Some g) \<Rightarrow>
               snd (run_steps (map (\<lambda>i. append_ignoring cd clk (ev_of clk gid (TodoReleased i a)))
                                 (held_by_run a pid g)) st)
           | _ \<Rightarrow> st))"

text \<open>\<open>release_leases_of_stopped\<close>: the live leases of agents whose worker was stopped.\<close>

definition held_by_stopped :: "string list \<Rightarrow> u64 \<Rightarrow> goal \<Rightarrow> (string \<times> string) list" where
  "held_by_stopped stopped now g =
     List.map_filter
       (\<lambda>t. (case t_claimed_by t of
               None \<Rightarrow> None
             | Some a \<Rightarrow>
                 (if a \<in> set stopped \<and> (case lease_status_of t now of Active _ _ \<Rightarrow> True | _ \<Rightarrow> False)
                  then Some (t_id t, a) else None)))
       (g_todos g)"

definition release_leases_of_stopped ::
  "codec \<Rightarrow> sys_time \<Rightarrow> string \<Rightarrow> string list \<Rightarrow> step" where
  "release_leases_of_stopped cd clk gid stopped st =
     (if stopped = [] then (Inr (), st)
      else (case replay_store cd (secs_of clk) gid st of
              Inl err \<Rightarrow> (Inl err, st)
            | Inr None \<Rightarrow> (Inr (), st)
            | Inr (Some g) \<Rightarrow>
                run_steps (map (\<lambda>p. append_step cd clk (ev_of clk gid (TodoReleased (fst p) (snd p))))
                             (held_by_stopped stopped (secs_of clk) g)) st))"

section \<open>What a delivery event changes\<close>

lemma find_delivery_frames [frame_simps]:
  "find_delivery (touch_frontier ts g) i = find_delivery g i"
  "find_delivery (record_semantic_event kind tid s ts g) i = find_delivery g i"
  "find_delivery (on_todo j f g) i = find_delivery g i"
  "find_delivery (add_replayed t g) i = find_delivery g i"
  by (simp_all add: find_delivery_def touch_frontier_def record_semantic_event_def on_todo_def
      add_replayed_def Let_def)

lemma find_delivery_id: "find_delivery g i = Some d \<Longrightarrow> d_todo_id d = i"
  by (auto simp: find_delivery_def dest: find_SomeD)

text \<open>The delivery an outcome event leaves.\<close>

definition outcome_applied ::
  "string \<Rightarrow> string \<Rightarrow> string option \<Rightarrow> u32 \<Rightarrow> u32 \<Rightarrow> u64 \<Rightarrow> delivery_state option \<Rightarrow> delivery_state" where
  "outcome_applied tid out note turn sq ts old =
     \<lparr>d_todo_id = tid, d_outcome = out,
      d_note = some_or note (Option.bind old d_note),
      d_delivered_turn = (if out = OUTCOME_DELIVERED then turn
                          else case old of None \<Rightarrow> 0 | Some d \<Rightarrow> d_delivered_turn d),
      d_followthrough_todo_id = (if out = OUTCOME_DELIVERED then None
                                 else Option.bind old d_followthrough_todo_id),
      d_seq = sq, d_updated_at = ts\<rparr>"

lemma find_append_last: "find p xs = None \<Longrightarrow> find p (xs @ [x]) = (if p x then Some x else None)"
  by (simp add: find_append)

lemma find_delivery_outcome:
  "find_delivery (apply_delivery_outcome tid out note turn sq ts g) i
   = (if i = tid then Some (outcome_applied tid out note turn sq ts (find_delivery g tid))
      else find_delivery g i)"
proof (cases "find_delivery g tid")
  case None
  then show ?thesis
    by (auto simp: apply_delivery_outcome_def find_delivery_def find_append outcome_applied_def
        some_or_def Let_def split: option.splits)
next
  case (Some d)
  then have "d_todo_id d = tid" by (rule find_delivery_id)
  with Some show ?thesis
    by (auto simp: apply_delivery_outcome_def find_delivery_def find_update_first_same
        find_update_first_other outcome_applied_def some_or_def Let_def split: option.splits)
qed

lemma find_delivery_followthrough:
  "find_delivery (apply_followthrough src f ts g) i
   = (if i = src then map_option (\<lambda>d. d\<lparr>d_followthrough_todo_id := Some f, d_updated_at := ts\<rparr>) (find_delivery g i)
      else find_delivery g i)"
  by (auto simp: apply_followthrough_def find_delivery_def find_update_first_same find_update_first_other)

lemma apply_outcome_event:
  "apply_event now (ev_of clk gid (DeliveryOutcomeRecorded tid out note turn sq)) g
   = Some (record_semantic_event KIND_DELIVERY_OUTCOME (Some tid) out (secs_of clk)
             (apply_delivery_outcome tid out note turn sq (secs_of clk) g))"
  by (simp add: apply_event_def apply_kind_def)

lemma apply_completed_event:
  "apply_event now (ev_of clk gid (TodoCompleted f nf succ ev)) g
   = Some (record_semantic_event KIND_TODO_COMPLETED (Some f) (completion_summary nf succ) (secs_of clk)
             (touch_frontier (secs_of clk)
                (on_todo f (complete_replayed now (secs_of clk) nf succ ev) g)))"
  by (simp add: apply_event_def apply_kind_def)

lemma find_todo_completed:
  "find_todo (on_todo f (complete_replayed now ts nf succ ev) g) i
   = (if i = f then map_option (complete_replayed now ts nf succ ev) (find_todo g i) else find_todo g i)"
  by (rule find_todo_on_todo) (rule identity_frames)

section \<open>Recording a verdict\<close>

text \<open>The delivery cycle: a state is nothing, pending or one of the three resolutions.\<close>

definition delivery_moves :: "(string option \<times> string) set" where
  "delivery_moves =
     {(None, ''delivered''), (Some ''failed'', ''delivered''), (Some ''rework'', ''delivered''),
      (Some ''delivered'', ''verified''), (Some ''delivered'', ''failed''), (Some ''delivered'', ''rework'')}"

lemma validate_transition_moves:
  "validate_transition cur out = Inr () \<longleftrightarrow> (map_option d_outcome cur, out) \<in> delivery_moves"
  by (cases cur)
    (auto simp: validate_transition_def delivery_moves_def is_resolution_def Let_def
      OUTCOME_DELIVERED_def OUTCOME_VERIFIED_def OUTCOME_FAILED_def OUTCOME_REWORK_def)

lemma record_effect:
  "\<exists>g'. apply_all now (delivery_record_events clk gid g tid out note) g = Some g'
    \<and> find_delivery g' tid
        = Some (outcome_applied tid out note (latest_turn g) (next_seq g tid) (secs_of clk) (find_delivery g tid))
    \<and> (\<forall>i. i \<noteq> tid \<longrightarrow> find_delivery g' i = find_delivery g i)
    \<and> (\<forall>i. find_todo g' i =
          (if is_resolution out \<and> followup_to_close g tid = Some i
           then map_option (complete_replayed now (secs_of clk) True []
                  (Some (''delivery '' @ tid @ '' '' @ right_arrow @ '' '' @ out))) (find_todo g i)
           else find_todo g i))"
  by (cases "is_resolution out"; cases "followup_to_close g tid")
    (simp_all add: delivery_record_events_def apply_outcome_event apply_completed_event frame_simps
      find_delivery_outcome find_todo_completed)

lemma record_plan_iff:
  "(\<exists>evs. delivery_record_plan clk gid g tid out note_text = Inr evs) \<longleftrightarrow>
     find_todo g tid \<noteq> None \<and> (map_option d_outcome (find_delivery g tid), out) \<in> delivery_moves"
  unfolding validate_transition_moves [symmetric]
  by (auto simp: delivery_record_plan_def split: sum.splits)

lemma record_plan_effect:
  assumes "delivery_record_plan clk gid g tid out note_text = Inr evs"
  shows "\<exists>g' d. apply_all now evs g = Some g' \<and> find_delivery g' tid = Some d
    \<and> d_outcome d = out \<and> d_seq d = next_seq g tid
    \<and> (\<forall>i. i \<noteq> tid \<longrightarrow> find_delivery g' i = find_delivery g i)
    \<and> (\<forall>f u. is_resolution out \<and> Option.bind (find_delivery g tid) d_followthrough_todo_id = Some f
          \<and> find_todo g' f = Some u \<longrightarrow> t_status u = Done \<or> t_status u = Superseded)"
proof -
  have evs: "evs = delivery_record_events clk gid g tid out note_text"
    using assms by (auto simp: delivery_record_plan_def split: if_splits sum.splits)
  obtain g' where g': "apply_all now evs g = Some g'"
    "find_delivery g' tid = Some (outcome_applied tid out note_text (latest_turn g) (next_seq g tid)
       (secs_of clk) (find_delivery g tid))"
    "\<And>i. i \<noteq> tid \<Longrightarrow> find_delivery g' i = find_delivery g i"
    "\<And>i. find_todo g' i = (if is_resolution out \<and> followup_to_close g tid = Some i
        then map_option (complete_replayed now (secs_of clk) True []
               (Some (''delivery '' @ tid @ '' '' @ right_arrow @ '' '' @ out))) (find_todo g i)
        else find_todo g i)"
    using record_effect [of now clk gid g tid out note_text] unfolding evs by blast
  have "t_status u = Done \<or> t_status u = Superseded"
    if "is_resolution out" "Option.bind (find_delivery g tid) d_followthrough_todo_id = Some f"
      "find_todo g' f = Some u" for f u
  proof (cases "followup_to_close g tid = Some f")
    case True
    then show ?thesis using that g'(4) [of f] by (auto simp: status_arms split: if_splits)
  next
    case False
    then have "find_todo g f = Some u" using that(3) g'(4) [of f] by simp
    then show ?thesis using False that(2) by (auto simp: followup_to_close_def split: if_splits)
  qed
  then show ?thesis
    using g'(1-3) by (intro exI conjI) (auto simp: outcome_applied_def)
qed

text \<open>C39: recording a verdict follows the delivery cycle: the command appends events exactly when the todo
  exists and the move is one of the cycle (a first delivery, a verdict on a pending one, a new delivery
  after failed or rework); replaying them, at any clock, gives the todo's delivery that outcome under the
  next sequence number, leaves every other delivery alone, and a verdict closes the follow-through todo the
  delivery had spawned.\<close>

theorem delivery_record_refines_cycle:
  "((\<exists>evs. delivery_record_plan clk gid g tid out note_text = Inr evs) \<longleftrightarrow>
      find_todo g tid \<noteq> None \<and> (map_option d_outcome (find_delivery g tid), out) \<in> delivery_moves)
   \<and> (delivery_record_plan clk gid g tid out note_text = Inr evs \<longrightarrow>
       (\<exists>g' d. apply_all now evs g = Some g' \<and> find_delivery g' tid = Some d
          \<and> d_outcome d = out \<and> d_seq d = next_seq g tid
          \<and> (\<forall>i. i \<noteq> tid \<longrightarrow> find_delivery g' i = find_delivery g i)
          \<and> (\<forall>f u. is_resolution out \<and> Option.bind (find_delivery g tid) d_followthrough_todo_id = Some f
                \<and> find_todo g' f = Some u \<longrightarrow> t_status u = Done \<or> t_status u = Superseded)))"
  using record_plan_iff record_plan_effect by blast

section \<open>The follow-through\<close>

lemma followthrough_pair:
  "\<exists>g'. apply_all now (followthrough_events_of clk gid ct th p) g = Some g'
    \<and> g_history g' = g_history g
    \<and> map d_todo_id (g_delivery_states g') = map d_todo_id (g_delivery_states g)
    \<and> (\<forall>i. find_delivery g' i =
          (if i = od_todo_id (fst p)
           then map_option (\<lambda>d. d\<lparr>d_followthrough_todo_id := Some (snd p), d_updated_at := secs_of clk\<rparr>) (find_delivery g i)
           else find_delivery g i))
    \<and> (\<exists>u. g_todos g' = g_todos g @ [u] \<and> t_id u = snd p \<and> t_class u = Coordination \<and> t_status u = Open)"
proof -
  let ?t = "followthrough_todo clk (snd p) (fst p) ct th"
  have t: "t_id ?t = snd p" "t_class ?t = Coordination" "t_status ?t = Open" "t_index ?t = 0"
    by (simp_all add: followthrough_todo_def coordination_def todo_new_def)
  let ?g' = "apply_followthrough (od_todo_id (fst p)) (snd p) (secs_of clk)
      (touch_frontier (secs_of clk) (add_replayed ?t g))"
  have "apply_all now (followthrough_events_of clk gid ct th p) g = Some ?g'"
    by (simp add: followthrough_events_of_def apply_event_def apply_kind_def)
  moreover have "g_history ?g' = g_history g"
    by (simp add: apply_followthrough_def touch_frontier_def add_replayed_def)
  moreover have "map d_todo_id (g_delivery_states ?g') = map d_todo_id (g_delivery_states g)"
    by (simp add: apply_followthrough_def touch_frontier_def add_replayed_def map_update_first)
  moreover have "g_todos ?g' = g_todos g @ [?t\<lparr>t_index := g_next_index g + 1\<rparr>]"
    by (simp add: todos_frames) (simp add: add_replayed_def t)
  ultimately show ?thesis
    using t by (intro exI [of _ ?g'] conjI exI [of _ "?t\<lparr>t_index := g_next_index g + 1\<rparr>"])
      (simp_all add: find_delivery_followthrough frame_simps)
qed

lemma followthrough_effect:
  "\<exists>g' new. apply_all now (concat (map (followthrough_events_of clk gid ct th) ps)) g = Some g'
    \<and> g_history g' = g_history g
    \<and> map d_todo_id (g_delivery_states g') = map d_todo_id (g_delivery_states g)
    \<and> (\<forall>i. i \<notin> od_todo_id ` fst ` set ps \<longrightarrow> find_delivery g' i = find_delivery g i)
    \<and> (\<forall>i \<in> od_todo_id ` fst ` set ps. \<forall>d. find_delivery g' i = Some d \<longrightarrow> d_followthrough_todo_id d \<noteq> None)
    \<and> (\<forall>i. map_option (\<lambda>d. (d_outcome d, d_seq d)) (find_delivery g' i)
           = map_option (\<lambda>d. (d_outcome d, d_seq d)) (find_delivery g i))
    \<and> g_todos g' = g_todos g @ new \<and> map t_id new = map snd ps
    \<and> (\<forall>t \<in> set new. t_class t = Coordination \<and> t_status t = Open)"
proof (induction ps arbitrary: g)
  case Nil
  then show ?case by simp
next
  case (Cons p ps)
  obtain g1 u where g1: "apply_all now (followthrough_events_of clk gid ct th p) g = Some g1"
    "g_history g1 = g_history g"
    "map d_todo_id (g_delivery_states g1) = map d_todo_id (g_delivery_states g)"
    "\<And>i. find_delivery g1 i =
          (if i = od_todo_id (fst p)
           then map_option (\<lambda>d. d\<lparr>d_followthrough_todo_id := Some (snd p), d_updated_at := secs_of clk\<rparr>) (find_delivery g i)
           else find_delivery g i)"
    "g_todos g1 = g_todos g @ [u]" "t_id u = snd p" "t_class u = Coordination" "t_status u = Open"
    using followthrough_pair [of now clk gid ct th p g] by (elim exE conjE) (rule that, auto)
  obtain g' new where g': "apply_all now (concat (map (followthrough_events_of clk gid ct th) ps)) g1 = Some g'"
    "g_history g' = g_history g1"
    "map d_todo_id (g_delivery_states g') = map d_todo_id (g_delivery_states g1)"
    "\<And>i. i \<notin> od_todo_id ` fst ` set ps \<Longrightarrow> find_delivery g' i = find_delivery g1 i"
    "\<And>i d. i \<in> od_todo_id ` fst ` set ps \<Longrightarrow> find_delivery g' i = Some d \<Longrightarrow> d_followthrough_todo_id d \<noteq> None"
    "\<And>i. map_option (\<lambda>d. (d_outcome d, d_seq d)) (find_delivery g' i)
         = map_option (\<lambda>d. (d_outcome d, d_seq d)) (find_delivery g1 i)"
    "g_todos g' = g_todos g1 @ new" "map t_id new = map snd ps"
    "\<And>t. t \<in> set new \<Longrightarrow> t_class t = Coordination \<and> t_status t = Open"
    using Cons.IH [of g1] by (elim exE conjE) (rule that, auto)
  have "d_followthrough_todo_id d \<noteq> None"
    if "i \<in> od_todo_id ` fst ` set (p # ps)" "find_delivery g' i = Some d" for i d
  proof (cases "i \<in> od_todo_id ` fst ` set ps")
    case True
    then show ?thesis using g'(5) that(2) by blast
  next
    case False
    then have "i = od_todo_id (fst p)" "find_delivery g1 i = Some d" using that g'(4) by auto
    then show ?thesis
      using g1(4) [of i] by (cases "find_delivery g (od_todo_id (fst p))") auto
  qed
  moreover have "map_option (\<lambda>d. (d_outcome d, d_seq d)) (find_delivery g' i)
         = map_option (\<lambda>d. (d_outcome d, d_seq d)) (find_delivery g i)" for i
    unfolding g'(6) g1(4) by (cases "find_delivery g i") auto
  moreover have "apply_all now (concat (map (followthrough_events_of clk gid ct th) (p # ps))) g = Some g'"
    using g1(1) g'(1) by (simp add: apply_all_append)
  moreover have "find_delivery g' i = find_delivery g i" if "i \<notin> od_todo_id ` fst ` set (p # ps)" for i
    using that g'(4) [of i] g1(4) [of i] by simp
  ultimately show ?case
    using g1(2,3,5-8) g'(2,3,7-9) by (intro exI [of _ g'] exI [of _ "u # new"]) auto
qed

lemma overdue_member:
  "od \<in> set (overdue_deliveries g turn th) \<longleftrightarrow>
     turn \<noteq> 0 \<and> (\<exists>d \<in> set (g_delivery_states g). d_outcome d = OUTCOME_DELIVERED
        \<and> d_followthrough_todo_id d = None \<and> th \<le> turn - d_delivered_turn d
        \<and> od = \<lparr>od_todo_id = d_todo_id d, od_delivered_turn = d_delivered_turn d,
                od_turns_overdue = turn - d_delivered_turn d,
                od_todo_text = (case find_todo g (d_todo_id d) of None \<Rightarrow> [] | Some t \<Rightarrow> t_text t)\<rparr>)"
  by (auto simp: overdue_deliveries_def map_filter_def Let_def)

lemma find_delivery_distinct:
  "distinct (map d_todo_id (g_delivery_states g)) \<Longrightarrow> d \<in> set (g_delivery_states g) \<Longrightarrow>
     find_delivery g (d_todo_id d) = Some d"
proof -
  have "distinct (map d_todo_id ds) \<Longrightarrow> d \<in> set ds \<Longrightarrow> find (\<lambda>x. d_todo_id x = d_todo_id d) ds = Some d" for ds
    by (induction ds) (auto simp: image_iff)
  then show "distinct (map d_todo_id (g_delivery_states g)) \<Longrightarrow> d \<in> set (g_delivery_states g) \<Longrightarrow> ?thesis"
    by (simp add: find_delivery_def)
qed

text \<open>The follow-through fires once for each overdue delivery: the check adds exactly one open
  coordination todo for each and no advancement work; and after replaying what it appended nothing is
  overdue any more at that turn, so running it again appends nothing.\<close>

theorem followthrough_fires_once:
  assumes "distinct (map d_todo_id (g_delivery_states g))"
    and "length (overdue_deliveries g (latest_turn g) threshold) \<le> length ids"
  shows "\<exists>g' new. apply_all now (followthrough_events clk gid g threshold ids) g = Some g'
    \<and> g_todos g' = g_todos g @ new
    \<and> length new = length (overdue_deliveries g (latest_turn g) threshold)
    \<and> (\<forall>t \<in> set new. t_class t = Coordination \<and> t_status t = Open)
    \<and> overdue_deliveries g' (latest_turn g') threshold = []
    \<and> followthrough_events clk' gid g' threshold ids' = []"
proof -
  let ?ods = "overdue_deliveries g (latest_turn g) threshold"
  let ?ps = "zip ?ods ids"
  have len: "length ?ps = length ?ods" and fsts: "map fst ?ps = ?ods"
    using assms(2) by (simp_all add: map_fst_zip_take)
  obtain g' new where g': "apply_all now (followthrough_events clk gid g threshold ids) g = Some g'"
    "g_history g' = g_history g"
    "map d_todo_id (g_delivery_states g') = map d_todo_id (g_delivery_states g)"
    "\<And>i. i \<notin> od_todo_id ` fst ` set ?ps \<Longrightarrow> find_delivery g' i = find_delivery g i"
    "\<And>i d. i \<in> od_todo_id ` fst ` set ?ps \<Longrightarrow> find_delivery g' i = Some d \<Longrightarrow> d_followthrough_todo_id d \<noteq> None"
    "g_todos g' = g_todos g @ new" "map t_id new = map snd ?ps"
    "\<forall>t \<in> set new. t_class t = Coordination \<and> t_status t = Open"
    using followthrough_effect [of now clk gid "latest_turn g" threshold ?ps g, folded followthrough_events_def]
    by (elim exE conjE) (rule that, auto)
  have turn: "latest_turn g' = latest_turn g" using g'(2) by (simp add: latest_turn_def)
  have ids: "fst ` set ?ps = set ?ods" by (metis fsts list.set_map)
  have none: "overdue_deliveries g' (latest_turn g') threshold = []"
  proof (rule ccontr)
    assume "overdue_deliveries g' (latest_turn g') threshold \<noteq> []"
    then obtain od where "od \<in> set (overdue_deliveries g' (latest_turn g') threshold)"
      by (meson list.set_sel(1))
    then obtain d where d: "d \<in> set (g_delivery_states g')" "d_outcome d = OUTCOME_DELIVERED"
      "d_followthrough_todo_id d = None" "threshold \<le> latest_turn g - d_delivered_turn d" "latest_turn g \<noteq> 0"
      unfolding overdue_member turn by blast
    have found: "find_delivery g' (d_todo_id d) = Some d"
      using assms(1) d(1) g'(3) by (intro find_delivery_distinct) simp_all
    then have fresh: "d_todo_id d \<notin> od_todo_id ` set ?ods"
      using g'(5) d(3) unfolding ids by blast
    then have "find_delivery g (d_todo_id d) = Some d"
      using g'(4) found unfolding ids by simp
    then have "d \<in> set (g_delivery_states g)" by (auto simp: find_delivery_def dest: find_SomeD)
    then have "d_todo_id d \<in> od_todo_id ` set ?ods"
      using d(2-5) by (force simp: overdue_member image_iff)
    with fresh show False by blast
  qed
  moreover have "length new = length ?ods" using g'(7) len by (metis length_map)
  ultimately show ?thesis
    using g'(1,6,8) by (intro exI [of _ g'] exI [of _ new]) (simp add: followthrough_events_def none)
qed

section \<open>Runs of delivery commands\<close>

inductive delivery_run :: "goal \<Rightarrow> goal \<Rightarrow> bool" where
  start: "delivery_run g g"
| verdict: "delivery_run g g1 \<Longrightarrow> delivery_record_plan clk gid g1 tid out note_text = Inr evs \<Longrightarrow>
     apply_all now evs g1 = Some g2 \<Longrightarrow> delivery_run g g2"
| follow: "delivery_run g g1 \<Longrightarrow>
     apply_all now (followthrough_events clk gid g1 threshold ids) g1 = Some g2 \<Longrightarrow> delivery_run g g2"

text \<open>a verified delivery stays verified under every sequence of verdicts and follow-through checks, at
  any clocks, and the sequence number of a delivery never decreases.\<close>

theorem verified_is_final:
  assumes "delivery_run g g'" "find_delivery g tid = Some d"
  shows "\<exists>d'. find_delivery g' tid = Some d' \<and> d_seq d \<le> d_seq d'
    \<and> (d_outcome d = OUTCOME_VERIFIED \<longrightarrow> d_outcome d' = OUTCOME_VERIFIED)"
  using assms
proof (induction rule: delivery_run.induct)
  case (start g)
  then show ?case by simp
next
  case (verdict g g1 clk gid i out note_text evs now g2)
  then obtain d1 where d1: "find_delivery g1 tid = Some d1" "d_seq d \<le> d_seq d1"
    "d_outcome d = OUTCOME_VERIFIED \<longrightarrow> d_outcome d1 = OUTCOME_VERIFIED" by blast
  obtain d2 where d2: "find_delivery g2 i = Some d2" "d_outcome d2 = out" "d_seq d2 = next_seq g1 i"
    "\<And>j. j \<noteq> i \<Longrightarrow> find_delivery g2 j = find_delivery g1 j"
    using record_plan_effect [OF verdict.hyps(2), of now] verdict.hyps(3) by auto
  have move: "(map_option d_outcome (find_delivery g1 i), out) \<in> delivery_moves"
    using verdict.hyps(2) record_plan_iff by blast
  show ?case
  proof (cases "i = tid")
    case True
    then have "d_outcome d1 \<noteq> OUTCOME_VERIFIED"
      using move d1(1) by (auto simp: delivery_moves_def OUTCOME_VERIFIED_def)
    then show ?thesis using True d1 d2 by (auto simp: next_seq_def)
  next
    case False
    then show ?thesis using d1 d2(4) [of tid] by auto
  qed
next
  case (follow g g1 now clk gid threshold ids g2)
  then obtain d1 where d1: "find_delivery g1 tid = Some d1" "d_seq d \<le> d_seq d1"
    "d_outcome d = OUTCOME_VERIFIED \<longrightarrow> d_outcome d1 = OUTCOME_VERIFIED" by blast
  have "map_option (\<lambda>d. (d_outcome d, d_seq d)) (find_delivery g2 tid)
      = map_option (\<lambda>d. (d_outcome d, d_seq d)) (find_delivery g1 tid)"
    using followthrough_effect [of now clk gid "latest_turn g1" threshold
        "zip (overdue_deliveries g1 (latest_turn g1) threshold) ids" g1,
        folded followthrough_events_def] follow.hyps(2)
    by auto
  then show ?case using d1 by auto
qed

section \<open>Completions\<close>

lemma completion_effect:
  assumes "find_todo g tid = Some t" "t_status t \<noteq> Superseded"
  shows "\<exists>g' t'. apply_all now (completion_events clk gid g t nf succ ev force) g = Some g'
    \<and> find_todo g' tid = Some t' \<and> t_status t' = Done \<and> t_claimed_by t' = None
    \<and> t_no_follow_up t' = nf \<and> t_successor_ids t' = (case succ of None \<Rightarrow> [] | Some s \<Rightarrow> [s])
    \<and> (\<forall>i. i \<noteq> tid \<longrightarrow> find_todo g' i = find_todo g i \<and> find_delivery g' i = find_delivery g i)
    \<and> (if t_class t = Advancement
       then \<exists>d. find_delivery g' tid = Some d \<and> d_outcome d = OUTCOME_DELIVERED
              \<and> d_followthrough_todo_id d = None \<and> d_delivered_turn d = latest_turn g
              \<and> d_seq d = next_seq g tid
       else find_delivery g' tid = find_delivery g tid)"
proof -
  have id: "t_id t = tid" using assms(1) by (auto simp: find_todo_def dest: find_SomeD)
  show ?thesis
    using assms(2)
    by (cases "t_class t = Advancement")
      (simp_all add: completion_events_def delivered_event_def apply_completed_event apply_outcome_event
        frame_simps find_delivery_outcome find_todo_completed id assms(1) outcome_applied_def
        complete_replayed_def todo_complete_def Let_def)
qed


text \<open>Completing a todo again forgets its follow-through: when a delivery had spawned a follow-through todo
  and its source todo, reopened in the meantime, is completed once more, the new delivery no longer names the
  follow-through; whatever verdict is then recorded, the follow-through todo stays open, and with it the
  goal cannot close.\<close>

theorem redelivery_orphans_followthrough:
  assumes "find_todo g tid = Some t" "t_class t = Advancement" "t_status t = Open"
    and "find_delivery g tid = Some d" "d_followthrough_todo_id d = Some f"
    and "find_todo g f = Some u" "t_status u = Open" "f \<noteq> tid"
  shows "\<exists>g1. apply_all now (completion_events clk gid g t nf succ ev force) g = Some g1
    \<and> (\<exists>evs. delivery_record_plan clk' gid g1 tid OUTCOME_VERIFIED None = Inr evs)
    \<and> (\<forall>out note_text evs g2. is_resolution out \<and> delivery_record_plan clk' gid g1 tid out note_text = Inr evs
         \<and> apply_all now' evs g1 = Some g2 \<longrightarrow> find_todo g2 f = Some u \<and> \<not> is_terminal g2)"
proof -
  obtain g1 t1 d1 where g1: "apply_all now (completion_events clk gid g t nf succ ev force) g = Some g1"
    "find_todo g1 tid = Some t1" "\<And>i. i \<noteq> tid \<Longrightarrow> find_todo g1 i = find_todo g i"
    "find_delivery g1 tid = Some d1" "d_outcome d1 = OUTCOME_DELIVERED" "d_followthrough_todo_id d1 = None"
    using completion_effect [OF assms(1), of now clk gid nf succ ev force] assms(2,3) by auto
  have "find_todo g2 f = Some u \<and> \<not> is_terminal g2"
    if "is_resolution out" "delivery_record_plan clk' gid g1 tid out note_text = Inr evs"
      "apply_all now' evs g1 = Some g2" for out note_text evs g2
  proof
    have none: "followup_to_close g1 tid = None" using g1(4,6) by (simp add: followup_to_close_def)
    have "evs = delivery_record_events clk' gid g1 tid out note_text"
      using that(2) by (auto simp: delivery_record_plan_def split: if_splits sum.splits)
    then show found: "find_todo g2 f = Some u"
      using record_effect [of now' clk' gid g1 tid out note_text] that(3) none g1(3) [OF assms(8)] assms(6)
      by auto
    then have "u \<in> set (g_todos g2)" by (auto simp: find_todo_def dest: find_SomeD)
    then show "\<not> is_terminal g2" using assms(7) unfolding is_terminal_def list_all_iff by force
  qed
  moreover have "\<exists>evs. delivery_record_plan clk' gid g1 tid OUTCOME_VERIFIED None = Inr evs"
    unfolding record_plan_iff using g1(2,4,5)
    by (simp add: delivery_moves_def OUTCOME_DELIVERED_def OUTCOME_VERIFIED_def)
  ultimately show ?thesis using g1(1) by blast
qed

section \<open>The Next Action line\<close>

text \<open>The Next Action line hides work in progress: when every live unblocked advancement todo is unowned and
  under a live lease, the line says that all todos are complete, although none of them is.\<close>

theorem next_action_hides_leased_work:
  assumes "\<forall>t \<in> set (g_todos g). t_class t = Advancement \<and> live_at clk t \<and> \<not> is_blocked_at g t clk \<longrightarrow>
      t_owner t = None \<and> claimed_by_other None (secs_of clk) t"
  shows "next_action_text g clk = ''all todos complete; no further action''"
proof -
  have "pending_advancement_owner_aware_at g clk = ([], [])"
    using assms by (auto simp: pending_advancement_owner_aware_at_def Let_def filter_eq_Nil_iff)
  then show ?thesis by (simp add: next_action_text_def)
qed

section \<open>The hierarchy\<close>

text \<open>No todo has more than two ancestors, and every parent exists.\<close>

definition three_levels :: "goal \<Rightarrow> bool" where
  "three_levels g \<longleftrightarrow>
     (\<forall>t \<in> set (g_todos g).
        case t_parent_id t of
          None \<Rightarrow> True
        | Some p \<Rightarrow>
            (case find_todo g p of
               None \<Rightarrow> False
             | Some u \<Rightarrow>
                 (case t_parent_id u of
                    None \<Rightarrow> True
                  | Some q \<Rightarrow> (case find_todo g q of None \<Rightarrow> False | Some v \<Rightarrow> t_parent_id v = None))))"

definition parent_table :: "goal \<Rightarrow> (string \<times> string option) list" where
  "parent_table g = map (\<lambda>t. (t_id t, t_parent_id t)) (g_todos g)"

definition level_ok :: "(string \<times> string option) list \<Rightarrow> string option \<Rightarrow> bool" where
  "level_ok tb p \<longleftrightarrow>
     (case p of
        None \<Rightarrow> True
      | Some i \<Rightarrow> (case map_of tb i of
                    None \<Rightarrow> False
                  | Some None \<Rightarrow> True
                  | Some (Some q) \<Rightarrow> map_of tb q = Some None))"

lemma parent_of_found: "map_option t_parent_id (find_todo g i) = map_of (parent_table g) i"
proof -
  have "map_option t_parent_id (find (\<lambda>t. t_id t = i) ts) = map_of (map (\<lambda>t. (t_id t, t_parent_id t)) ts) i" for ts
    by (induction ts) auto
  then show ?thesis by (simp add: find_todo_def parent_table_def)
qed

lemma three_levels_table:
  "three_levels g \<longleftrightarrow> (\<forall>x \<in> set (parent_table g). level_ok (parent_table g) (snd x))"
proof -
  have "(case find_todo g p of None \<Rightarrow> False
         | Some u \<Rightarrow> (case t_parent_id u of None \<Rightarrow> True
             | Some q \<Rightarrow> (case find_todo g q of None \<Rightarrow> False | Some v \<Rightarrow> t_parent_id v = None)))
      \<longleftrightarrow> level_ok (parent_table g) (Some p)" for p
    unfolding level_ok_def parent_of_found [symmetric] by (auto split: option.splits)
  moreover have "level_ok tb None" for tb by (simp add: level_ok_def)
  ultimately have eq: "(case t_parent_id t of None \<Rightarrow> True
        | Some p \<Rightarrow> (case find_todo g p of None \<Rightarrow> False
             | Some u \<Rightarrow> (case t_parent_id u of None \<Rightarrow> True
                 | Some q \<Rightarrow> (case find_todo g q of None \<Rightarrow> False | Some v \<Rightarrow> t_parent_id v = None))))
      \<longleftrightarrow> level_ok (parent_table g) (t_parent_id t)" for t
    by (cases "t_parent_id t") simp_all
  have "three_levels g \<longleftrightarrow> (\<forall>t \<in> set (g_todos g). level_ok (parent_table g) (t_parent_id t))"
    unfolding three_levels_def by (simp only: eq)
  then show ?thesis by (simp add: parent_table_def)
qed

lemma parent_table_apply:
  assumes "apply_kind now gid ts k g = Some g'"
  shows "parent_table g' = parent_table g @ (case k of TodoAdded t \<Rightarrow> [(t_id t, t_parent_id t)] | _ \<Rightarrow> [])"
proof -
  let ?h = "\<lambda>x :: string \<times> task_class \<times> string option \<times> string option. (fst x, fst (snd (snd x)))"
  have tb: "parent_table h = map ?h (map identity_of (g_todos h))" for h
    by (simp add: parent_table_def identity_of_def)
  have "map ?h (added_by k) = (case k of TodoAdded t \<Rightarrow> [(t_id t, t_parent_id t)] | _ \<Rightarrow> [])"
    by (cases k) (simp_all add: added_by_def identity_of_def)
  then show ?thesis
    unfolding tb apply_kind_identities [OF assms] map_append by simp
qed

lemma check_ancestors_level: "check_ancestors gid g p 1 = Inr () \<longleftrightarrow> level_ok (parent_table g) p"
proof -
  have third: "check_ancestors gid g q 3 = Inr () \<longleftrightarrow> q = None" for q
    by (cases q) (auto split: option.splits)
  have second: "check_ancestors gid g q 2 = Inr () \<longleftrightarrow>
      (case q of None \<Rightarrow> True
       | Some j \<Rightarrow> (case find_todo g j of None \<Rightarrow> False | Some v \<Rightarrow> t_parent_id v = None))" for q
    by (cases q) (auto simp: third split: option.splits)
  have first: "check_ancestors gid g (Some i) 1 = Inr () \<longleftrightarrow>
      (case find_todo g i of None \<Rightarrow> False | Some u \<Rightarrow> check_ancestors gid g (t_parent_id u) 2 = Inr ())" for i
    by (simp add: numeral_2_eq_2 split: option.splits)
  show ?thesis
  proof (cases p)
    case (Some i)
    show ?thesis
      unfolding Some first second level_ok_def parent_of_found [symmetric] by (auto split: option.splits)
  qed (simp add: level_ok_def)
qed

lemma level_ok_extend:
  "level_ok tb p \<Longrightarrow> (\<And>j y. map_of tb j = Some y \<Longrightarrow> map_of tb' j = Some y) \<Longrightarrow> level_ok tb' p"
  unfolding level_ok_def by (auto split: option.splits)

lemma table_levels_add:
  assumes "\<forall>x \<in> set tb. level_ok tb (snd x)" "map_of tb i = None" "level_ok tb p"
  shows "\<forall>x \<in> set (tb @ [(i, p)]). level_ok (tb @ [(i, p)]) (snd x)"
proof -
  have keep: "map_of tb j = Some y \<Longrightarrow> map_of (tb @ [(i, p)]) j = Some y" for j y
    by (simp add: map_add_def)
  have "level_ok tb q \<Longrightarrow> level_ok (tb @ [(i, p)]) q" for q
    by (erule level_ok_extend) (rule keep)
  then show ?thesis using assms(1,3) by auto
qed

lemma built_todo_ids:
  assumes "built_todo clk fresh fl role cls text blocks = Inr t"
  shows "t_id t = fresh \<and> t_parent_id t = fl ''--parent''"
proof -
  have new: "t_id (new_todo_of clk fresh role cls text q bs) = fresh" for q bs
    by (simp add: new_todo_of_def advancement_def monitor_def user_gate_def user_action_def blocker_def
        coordination_def todo_new_def blocking_def)
  have cond: "t_id t' = t_id t \<and> t_parent_id t' = t_parent_id t"
    if "defer_by_condition clk rw t = Inr t'" for rw t t'
    using that by (auto simp: defer_by_condition_def and_then_Inr split: option.splits)
  have secs: "t_id t' = t_id t \<and> t_parent_id t' = t_parent_id t" if "defer_by_secs clk n t = Inr t'" for n t t'
    using that by (auto simp: defer_by_secs_def and_then_Inr split: if_splits)
  have cad: "t_id t' = t_id t \<and> t_parent_id t' = t_parent_id t" if "apply_cadence clk c t = Inr t'" for c t t'
    using that by (auto simp: apply_cadence_def and_then_Inr Let_def split: option.splits)
  have tag: "t_id (tag_priority p t) = t_id t \<and> t_parent_id (tag_priority p t) = t_parent_id t" for p t
    by (simp add: tag_priority_def Let_def)
  have block: "t_id (blocking bs t) = t_id t \<and> t_parent_id (blocking bs t) = t_parent_id t" for bs t
    by (simp add: blocking_def)
  show ?thesis
    using assms unfolding built_todo_def Let_def and_then_Inr
    by (elim exE conjE)
      (drule cond, drule secs, drule cad,
        cases "fl ''--owner''"; cases "fl ''--priority''"; cases "fl ''--title''";
        auto simp: new tag block owned_by_def)
qed

text \<open>the todo hierarchy never exceeds three levels: every event that does not add a todo keeps it, and so
  does adding the todo any flags of \<open>todo add\<close> build, under an unused id and once its parent chain has
  passed the check.\<close>

theorem todo_hierarchy_bounded:
  assumes "three_levels g"
  shows "((\<forall>t. ev_kind e \<noteq> TodoAdded t) \<and> apply_event now e g = Some g' \<longrightarrow> three_levels g')
    \<and> (check_ancestors gid g (fl ''--parent'') 1 = Inr () \<and> find_todo g fresh = None
       \<and> built_todo clk fresh fl role cls text blocks = Inr t
       \<and> apply_event now (ev_of clk gid (TodoAdded t)) g = Some g' \<longrightarrow> three_levels g')"
proof (intro conjI impI; elim conjE)
  assume "\<forall>t. ev_kind e \<noteq> TodoAdded t" "apply_event now e g = Some g'"
  then have "parent_table g' = parent_table g"
    using parent_table_apply [of now "ev_goal_id e" "ev_ts e" "ev_kind e" g g']
    by (simp add: apply_event_def split: event_kind.splits)
  then show "three_levels g'" using assms by (simp add: three_levels_table)
next
  assume *: "check_ancestors gid g (fl ''--parent'') 1 = Inr ()" "find_todo g fresh = None"
    "built_todo clk fresh fl role cls text blocks = Inr t"
    "apply_event now (ev_of clk gid (TodoAdded t)) g = Some g'"
  have "parent_table g' = parent_table g @ [(fresh, fl ''--parent'')]"
    using parent_table_apply [of now gid "secs_of clk" "TodoAdded t" g g'] *(4) built_todo_ids [OF *(3)]
    by (simp add: apply_event_def)
  moreover have "map_of (parent_table g) fresh = None"
    using *(2) parent_of_found [of g fresh] by simp
  ultimately show "three_levels g'"
    using assms *(1) table_levels_add [of "parent_table g" fresh "fl ''--parent''"]
    unfolding three_levels_table check_ancestors_level by simp
qed

section \<open>Replan acknowledgements\<close>

lemma accepted_ack_without_delta:
  "replan_ack_check dbg [''blocker''] = Inr ()
   \<and> \<not> has_frontier_delta \<lparr>k_recorded = True, k_delta_kinds = [''blocker''], k_at = ts\<rparr>"
  by (simp add: replan_ack_check_def delta_kind_changes_frontier_def has_frontier_delta_def)

section \<open>Concrete commands\<close>

definition demo_deliveries :: "string option \<Rightarrow> goal" where
  "demo_deliveries followup =
     (goal_new 0 ''g'' ''o'' ''/r'')
       \<lparr>g_todos := [advancement 0 ''T1'' ''w'', coordination 0 ''F1'' ''verify''],
        g_history := [(demo_run ''completed'')\<lparr>r_turn := 5\<rparr>],
        g_delivery_states :=
          [\<lparr>d_todo_id = ''T1'', d_outcome = OUTCOME_DELIVERED, d_note = None, d_delivered_turn = 1,
            d_followthrough_todo_id = followup, d_seq = 1, d_updated_at = 3\<rparr>]\<rparr>"

lemma demo_deliveries_found:
  "find_todo (demo_deliveries fo) ''T1'' = Some (advancement 0 ''T1'' ''w'')"
  "find_todo (demo_deliveries fo) ''F1'' = Some (coordination 0 ''F1'' ''verify'')"
  "find_delivery (demo_deliveries fo) ''T1'' = Some
     \<lparr>d_todo_id = ''T1'', d_outcome = OUTCOME_DELIVERED, d_note = None, d_delivered_turn = 1,
      d_followthrough_todo_id = fo, d_seq = 1, d_updated_at = 3\<rparr>"
  "latest_turn (demo_deliveries fo) = 5"
  by (simp_all add: demo_deliveries_def find_todo_def find_delivery_def latest_turn_def advancement_def
      coordination_def todo_new_def)

lemma demo_verdict:
  "delivery_record_plan 9 ''g'' (demo_deliveries fo) ''T1'' ''verified'' None
   = Inr (delivery_record_events 9 ''g'' (demo_deliveries fo) ''T1'' ''verified'' None)"
  by (simp add: delivery_record_plan_def demo_deliveries_found validate_transition_def is_resolution_def
      OUTCOME_DELIVERED_def OUTCOME_VERIFIED_def OUTCOME_FAILED_def OUTCOME_REWORK_def)

lemma delivery_record_refines_cycle_witness:
  "\<exists>g' d. apply_all 9 (delivery_record_events 9 ''g'' (demo_deliveries None) ''T1'' ''verified'' None)
           (demo_deliveries None) = Some g'
     \<and> find_delivery g' ''T1'' = Some d \<and> d_outcome d = ''verified''"
  using delivery_record_refines_cycle [of 9 "''g''" "demo_deliveries None" "''T1''" "''verified''" None]
    demo_verdict [of None] by blast

lemma followthrough_fires_once_witness:
  "\<exists>g'. apply_all 9 (followthrough_events 9 ''g'' (demo_deliveries None) 3 [''N1'']) (demo_deliveries None) = Some g'
     \<and> overdue_deliveries g' (latest_turn g') 3 = []"
proof -
  have "distinct (map d_todo_id (g_delivery_states (demo_deliveries None)))"
    by (simp add: demo_deliveries_def)
  moreover have "length (overdue_deliveries (demo_deliveries None) (latest_turn (demo_deliveries None)) 3)
      \<le> length [''N1'']"
    unfolding demo_deliveries_found(4)
    by (simp add: overdue_deliveries_def List.map_filter_def Let_def) (simp add: demo_deliveries_def)
  ultimately show ?thesis
    using followthrough_fires_once [of "demo_deliveries None" 3 "[''N1'']" 9 9 "''g''"] by blast
qed

lemma verified_is_final_witness:
  "\<exists>g' d'. delivery_run (demo_deliveries None) g' \<and> find_delivery g' ''T1'' = Some d' \<and> 1 \<le> d_seq d'"
proof -
  obtain g' where g': "apply_all 9 (delivery_record_events 9 ''g'' (demo_deliveries None) ''T1'' ''verified'' None)
           (demo_deliveries None) = Some g'"
    using record_effect [of 9 9 "''g''" "demo_deliveries None" "''T1''" "''verified''" None] by blast
  have run: "delivery_run (demo_deliveries None) g'"
    using delivery_run.verdict [OF delivery_run.start demo_verdict [of None] g'] .
  show ?thesis
    using run verified_is_final [OF run demo_deliveries_found(3) [of None]] by auto
qed




lemma redelivery_orphans_followthrough_witness:
  "\<exists>g1 evs g2. apply_all 9 (completion_events 9 ''g'' (demo_deliveries (Some ''F1'')) (advancement 0 ''T1'' ''w'')
        True None None True) (demo_deliveries (Some ''F1'')) = Some g1
     \<and> delivery_record_plan 9 ''g'' g1 ''T1'' OUTCOME_VERIFIED None = Inr evs
     \<and> apply_all 9 evs g1 = Some g2 \<and> \<not> is_terminal g2"
proof -
  let ?g = "demo_deliveries (Some ''F1'')"
  note use = redelivery_orphans_followthrough [OF demo_deliveries_found(1), of "Some ''F1''" _ "''F1''"
      "coordination 0 ''F1'' ''verify''" 9 9 "''g''" True None None True 9 9]
  have "t_class (advancement 0 ''T1'' ''w'') = Advancement" "t_status (advancement 0 ''T1'' ''w'') = Open"
    "t_status (coordination 0 ''F1'' ''verify'') = Open"
    by (simp_all add: advancement_def coordination_def todo_new_def)
  then obtain g1 evs where g1:
    "apply_all 9 (completion_events 9 ''g'' ?g (advancement 0 ''T1'' ''w'') True None None True) ?g = Some g1"
    "delivery_record_plan 9 ''g'' g1 ''T1'' OUTCOME_VERIFIED None = Inr evs"
    "\<And>out note_text evs g2. is_resolution out \<Longrightarrow> delivery_record_plan 9 ''g'' g1 ''T1'' out note_text = Inr evs \<Longrightarrow>
       apply_all 9 evs g1 = Some g2 \<Longrightarrow> \<not> is_terminal g2"
    using use demo_deliveries_found(2,3) [of "Some ''F1''"] by auto
  obtain g2 where "apply_all 9 evs g1 = Some g2" using record_plan_effect [OF g1(2), of 9] by blast
  with g1 show ?thesis by (auto simp: is_resolution_def)
qed

definition demo_leased :: goal where
  "demo_leased = (goal_new 0 ''g'' ''o'' ''/r'')
     \<lparr>g_todos := [(advancement 0 ''T1'' ''w'')
        \<lparr>t_claimed_by := Some ''ann'', t_lease_expires_at := Some 100\<rparr>]\<rparr>"

lemma next_action_hides_leased_work_witness:
  "next_action_text demo_leased 9 = ''all todos complete; no further action'' \<and> \<not> is_terminal demo_leased"
proof
  show "next_action_text demo_leased 9 = ''all todos complete; no further action''"
    by (rule next_action_hides_leased_work)
      (simp add: demo_leased_def claimed_by_other_def secs_of_def advancement_def todo_new_def)
  show "\<not> is_terminal demo_leased"
    by (simp add: is_terminal_def demo_leased_def advancement_def todo_new_def)
qed

definition demo_superseding :: event where
  "demo_superseding = \<lparr>ev_kind = TodoSuperseded ''T1'', ev_goal_id = ''g'', ev_ts = 9\<rparr>"

lemma todo_hierarchy_bounded_witness:
  "three_levels (the (apply_event 9 demo_superseding (demo_deliveries None)))"
proof -
  have levels: "three_levels (demo_deliveries None)"
    by (simp add: three_levels_def demo_deliveries_def advancement_def coordination_def todo_new_def)
  have "(\<forall>t. ev_kind demo_superseding \<noteq> TodoAdded t) \<and> apply_event 9 demo_superseding (demo_deliveries None)
      = Some (the (apply_event 9 demo_superseding (demo_deliveries None)))"
    by (simp add: demo_superseding_def apply_event_def apply_kind_def)
  from mp [OF conjunct1 [OF todo_hierarchy_bounded [OF levels]] this] show ?thesis .
qed

end
