(* ===== verification/Supervision.thy ===== *)
theory Supervision
  imports Console
begin

text \<open>
  Supervision of the workers of a goal: the durable outbox of notes to the supervisor, its batches and
  the sweep that fills it (\<open>agents/supervision.rs\<close>), the steering instructions a worker still owes an
  answer to (\<open>agents/control.rs\<close>) and the lane recommendation of an agent (\<open>agents/lane.rs\<close>).

  The outbox lives in the ledger, so its decisions are functions of the event kinds read from it. The
  prompt to the supervisor's session is the parameter \<open>prompt\<close>; a batch id is a fresh UUID. How flushes,
  writers of notes, other commands and late prompts interleave is a step relation, with the lock files
  working or not; the watcher process and its loop are outside the model.
\<close>

section \<open>Notes\<close>

record sup_note =
  no_kind :: string
  no_todo :: string
  no_message :: string
  no_key :: string

definition note_kind_of :: "sup_note \<Rightarrow> event_kind" where
  "note_kind_of n = SupervisorNote (no_todo n) (no_kind n) (no_message n) (no_key n)"

text \<open>Key and message of each note in a ledger, in order.\<close>

definition notes_in :: "event_kind list \<Rightarrow> (string \<times> string) list" where
  "notes_in ks = List.map_filter
     (\<lambda>k. case k of SupervisorNote _ _ message key \<Rightarrow> Some (key, message) | _ \<Rightarrow> None) ks"

definition note_keys :: "event_kind list \<Rightarrow> string list" where
  "note_keys ks = map fst (notes_in ks)"

fun new_notes :: "string list \<Rightarrow> sup_note list \<Rightarrow> sup_note list" where
  "new_notes seen [] = []"
| "new_notes seen (n # ns) =
     (if no_key n \<in> set seen then new_notes seen ns else n # new_notes (no_key n # seen) ns)"

definition queue_kinds :: "event_kind list \<Rightarrow> sup_note list \<Rightarrow> event_kind list" where
  "queue_kinds ks notes = map note_kind_of (new_notes (note_keys ks) notes)"

abbreviation ledger_kinds :: "stored_event list \<Rightarrow> event_kind list" where
  "ledger_kinds es \<equiv> map (\<lambda>s. ev_kind (sd_event s)) es"

definition queue_many :: "codec \<Rightarrow> sys_time \<Rightarrow> string \<Rightarrow> sup_note list \<Rightarrow> step" where
  "queue_many cd clk gid notes st =
     (if notes = [] then (Inr (), st)
      else (case store_events cd gid st of
              Inl err \<Rightarrow> (Inl err, st)
            | Inr es \<Rightarrow>
                run_steps (map (\<lambda>k. append_step cd clk (ev_of clk gid k)) (queue_kinds (ledger_kinds es) notes)) st))"

section \<open>Batches\<close>

definition MAX_BATCH_NOTES :: nat where "MAX_BATCH_NOTES = 32"

record batch =
  ba_id :: string
  ba_session :: string
  ba_keys :: "string list"
  ba_message :: string

definition batches :: "event_kind list \<Rightarrow> batch list" where
  "batches ks = List.map_filter
     (\<lambda>k. case k of
            SupervisorBatchPrepared i s keys message \<Rightarrow>
              Some \<lparr>ba_id = i, ba_session = s, ba_keys = keys, ba_message = message\<rparr>
          | _ \<Rightarrow> None) ks"

definition delivered_ids :: "event_kind list \<Rightarrow> string list" where
  "delivered_ids ks = List.map_filter
     (\<lambda>k. case k of SupervisorBatchDelivered i \<Rightarrow> Some i | _ \<Rightarrow> None) ks"

definition delivered_keys :: "event_kind list \<Rightarrow> string list" where
  "delivered_keys ks = concat (map ba_keys (filter (\<lambda>b. ba_id b \<in> set (delivered_ids ks)) (batches ks)))"

text \<open>The scan over the prepared batches: the keys that need no new batch for this session, and the first
  batch of the session still to be delivered.\<close>

definition scan_batch ::
  "string \<Rightarrow> string list \<Rightarrow> string list \<Rightarrow> string list \<times> batch option \<Rightarrow> batch \<Rightarrow> string list \<times> batch option" where
  "scan_batch session delivered keys_done acc b =
     (let (assigned, pending) = acc in
      (if ba_session b = session \<or> ba_id b \<in> set delivered then assigned @ ba_keys b else assigned,
       if ba_session b = session \<and> pending = None \<and> ba_id b \<notin> set delivered
          \<and> \<not> list_all (\<lambda>k. k \<in> set keys_done) (ba_keys b)
       then Some b else pending))"

definition scan_batches :: "string \<Rightarrow> event_kind list \<Rightarrow> string list \<times> batch option" where
  "scan_batches session ks =
     foldl (scan_batch session (delivered_ids ks) (delivered_keys ks)) ([], None) (batches ks)"

fun pick_notes :: "nat \<Rightarrow> string list \<Rightarrow> (string \<times> string) list \<Rightarrow> (string \<times> string) list" where
  "pick_notes room assigned [] = []"
| "pick_notes room assigned (n # ns) =
     (if room = 0 then []
      else if fst n \<in> set assigned then pick_notes room assigned ns
      else n # pick_notes (room - 1) (fst n # assigned) ns)"

definition batch_message :: "string \<Rightarrow> (string \<times> string) list \<Rightarrow> string" where
  "batch_message gid ns =
     ''[future-goal] goal '' @ gid @ '': '' @ dec (length ns)
     @ '' event(s). Reconcile current status before acting; events may be stale. Read `future goal supervisor events --goal ''
     @ gid @ ''` for full evidence.'' @ newline
     @ join newline (map (\<lambda>n. the (truncate_evidence (snd n) 4096)) ns)"

datatype flush_decision = Idle | Retry batch | Prepare "string list" string

definition decide_flush :: "string \<Rightarrow> string \<Rightarrow> event_kind list \<Rightarrow> flush_decision" where
  "decide_flush gid session ks =
     (case scan_batches session ks of
        (_, Some b) \<Rightarrow> Retry b
      | (assigned, None) \<Rightarrow>
          (let picked = pick_notes MAX_BATCH_NOTES assigned (notes_in ks) in
           if picked = [] then Idle else Prepare (map fst picked) (batch_message gid picked)))"

text \<open>What one flush appends, when the prompt succeeds or fails.\<close>

definition flush_kinds :: "string \<Rightarrow> string \<Rightarrow> string \<Rightarrow> bool \<Rightarrow> event_kind list \<Rightarrow> event_kind list" where
  "flush_kinds gid session fresh ok ks =
     (case decide_flush gid session ks of
        Idle \<Rightarrow> []
      | Retry b \<Rightarrow> if ok then [SupervisorBatchDelivered (ba_id b)] else []
      | Prepare keys message \<Rightarrow>
          SupervisorBatchPrepared fresh session keys message
          # (if ok then [SupervisorBatchDelivered fresh] else []))"

text \<open>\<open>prompt session message key\<close> is the call to the agent, with its timeout.\<close>

definition flush ::
  "codec \<Rightarrow> sys_time \<Rightarrow> string \<Rightarrow> string \<Rightarrow> (string \<Rightarrow> string \<Rightarrow> string \<Rightarrow> string + unit) \<Rightarrow> step" where
  "flush cd clk gid fresh prompt st =
     (case replay_store cd (secs_of clk) gid st of
        Inl err \<Rightarrow> (Inl err, st)
      | Inr None \<Rightarrow> (Inr (), st)
      | Inr (Some g) \<Rightarrow>
          (case g_supervisor_session_id g of
             None \<Rightarrow> (Inr (), st)
           | Some session \<Rightarrow>
               (case store_events cd gid st of
                  Inl err \<Rightarrow> (Inl err, st)
                | Inr es \<Rightarrow>
                    (let send = (\<lambda>i message.
                           [\<lambda>st. (prompt session message (''goal-batch:'' @ i), st),
                            append_step cd clk (ev_of clk gid (SupervisorBatchDelivered i))])
                     in case decide_flush gid session (ledger_kinds es) of
                          Idle \<Rightarrow> (Inr (), st)
                        | Retry b \<Rightarrow> run_steps (send (ba_id b) (ba_message b)) st
                        | Prepare keys message \<Rightarrow>
                            run_steps
                              (append_step cd clk
                                 (ev_of clk gid (SupervisorBatchPrepared fresh session keys message))
                               # send fresh message) st))))"

definition undelivered :: "event_kind list \<Rightarrow> string list" where
  "undelivered ks = filter (\<lambda>k. k \<notin> set (delivered_keys ks)) (note_keys ks)"

definition pending_delivery :: "codec \<Rightarrow> sys_time \<Rightarrow> string \<Rightarrow> store \<Rightarrow> string + bool" where
  "pending_delivery cd clk gid st =
     (case replay_store cd (secs_of clk) gid st of
        Inl err \<Rightarrow> Inl err
      | Inr None \<Rightarrow> Inr False
      | Inr (Some _) \<Rightarrow>
          (case store_events cd gid st of
             Inl err \<Rightarrow> Inl err
           | Inr es \<Rightarrow> Inr (undelivered (ledger_kinds es) \<noteq> [])))"

section \<open>The sweep\<close>

definition TODO_DONE_NOTE_KIND :: string where "TODO_DONE_NOTE_KIND = ''todo_done''"
definition COMPLETION_REPORT_KIND :: string where "COMPLETION_REPORT_KIND = ''completed''"
definition COMPLETION_NOTE_WINDOW_SECS :: u64 where "COMPLETION_NOTE_WINDOW_SECS = 900"

definition finished_recently :: "u64 \<Rightarrow> goal \<Rightarrow> (string \<times> u64) list" where
  "finished_recently now g =
     List.map_filter
       (\<lambda>t. case t_completed_at t of
              None \<Rightarrow> None
            | Some c \<Rightarrow> if now - c > COMPLETION_NOTE_WINDOW_SECS then None else Some (t_id t, c))
       (filter (\<lambda>t. t_class t = Advancement \<and> t_status t = Done) (g_todos g))"

definition already_reported :: "event list \<Rightarrow> string \<times> u64 \<Rightarrow> bool" where
  "already_reported es c \<longleftrightarrow>
     list_ex (\<lambda>e. case ev_kind e of
                   SupervisorNote tid kind _ _ \<Rightarrow>
                     kind = COMPLETION_REPORT_KIND \<and> tid = fst c \<and> ev_ts e \<ge> snd c
                 | _ \<Rightarrow> False) es"

definition completion_note :: "string \<Rightarrow> string \<times> u64 \<Rightarrow> sup_note" where
  "completion_note gid c =
     \<lparr>no_kind = TODO_DONE_NOTE_KIND, no_todo = fst c,
      no_message = ''[future-goal] goal '' @ gid @ '': todo '' @ fst c @ '' completed '' @ em_dash
        @ '' the work landed and awaits acceptance; record verified/failed/rework. This note reports the completion, it is not a verdict.'',
      no_key = ''todo_done:'' @ fst c @ '':'' @ dec (snd c)\<rparr>"

definition completion_notes :: "string \<Rightarrow> u64 \<Rightarrow> goal \<Rightarrow> event list \<Rightarrow> sup_note list" where
  "completion_notes gid now g es =
     map (completion_note gid) (filter (\<lambda>c. \<not> already_reported es c) (finished_recently now g))"

definition record_completions :: "codec \<Rightarrow> sys_time \<Rightarrow> string \<Rightarrow> step" where
  "record_completions cd clk gid st =
     (case replay_store cd (secs_of clk) gid st of
        Inl err \<Rightarrow> (Inl err, st)
      | Inr None \<Rightarrow> (Inr (), st)
      | Inr (Some g) \<Rightarrow>
          (if finished_recently (secs_of clk) g = [] then (Inr (), st)
           else (case store_events cd gid st of
                   Inl err \<Rightarrow> (Inl err, st)
                 | Inr es \<Rightarrow>
                     queue_many cd clk gid
                       (completion_notes gid (secs_of clk) g (map sd_event es)) st)))"

definition dead_holder_note :: "string \<Rightarrow> todo \<Rightarrow> sup_note option" where
  "dead_holder_note gid t =
     (case t_holder_pid t of
        None \<Rightarrow> None
      | Some pid \<Rightarrow>
          Some \<lparr>no_kind = ''host_died'', no_todo = t_id t,
                no_message = ''[future-goal] goal '' @ gid @ '': todo '' @ t_id t
                  @ '' stopped before completion (host_died) '' @ em_dash @ '' holder pid '' @ dec pid
                  @ '' is gone; inspect then relaunch if appropriate'',
                no_key = ''host_died:'' @ t_id t @ '':'' @ dec pid @ '':''
                  @ dec (case t_lease_expires_at t of None \<Rightarrow> 0 | Some x \<Rightarrow> x)\<rparr>)"

definition verification_due_note :: "u64 \<Rightarrow> delivery_state \<Rightarrow> sup_note option" where
  "verification_due_note now d =
     (if d_outcome d = OUTCOME_DELIVERED \<and> now - d_updated_at d \<ge> 300
      then Some \<lparr>no_kind = ''verification_due'', no_todo = d_todo_id d,
                 no_message = ''Delivery '' @ d_todo_id d
                   @ '' is awaiting verification; read its artifacts and record verified/failed/rework, not another blind retry.'',
                 no_key = ''verification_due:'' @ d_todo_id d @ '':'' @ dec (d_seq d)\<rparr>
      else None)"

definition sweep_notes :: "(u32 \<Rightarrow> bool) \<Rightarrow> string \<Rightarrow> u64 \<Rightarrow> goal \<Rightarrow> sup_note list" where
  "sweep_notes alive gid now g =
     List.map_filter (dead_holder_note gid) (dead_holder_todos alive g)
     @ List.map_filter (verification_due_note now) (g_delivery_states g)"

text \<open>Each note is queued by its own call.\<close>

definition record_dead_holders :: "codec \<Rightarrow> (u32 \<Rightarrow> bool) \<Rightarrow> sys_time \<Rightarrow> string \<Rightarrow> step" where
  "record_dead_holders cd alive clk gid st =
     (case replay_store cd (secs_of clk) gid st of
        Inl err \<Rightarrow> (Inl err, st)
      | Inr None \<Rightarrow> (Inr (), st)
      | Inr (Some g) \<Rightarrow>
          run_steps (map (\<lambda>n. queue_many cd clk gid [n]) (sweep_notes alive gid (secs_of clk) g)) st)"

definition sweep :: "codec \<Rightarrow> (u32 \<Rightarrow> bool) \<Rightarrow> sys_time \<Rightarrow> string \<Rightarrow> step" where
  "sweep cd alive clk gid st =
     run_steps [record_dead_holders cd alive clk gid, record_completions cd clk gid] st"

section \<open>Steering\<close>

text \<open>Ids acknowledged by this recipient, and the instructions by scope, oldest first.\<close>

definition scan_control ::
  "string option \<Rightarrow> instruction list \<times> string list \<Rightarrow> event_kind \<Rightarrow> instruction list \<times> string list" where
  "scan_control agent acc k =
     (case k of
        ControlIssued i \<Rightarrow>
          (if in_agent_id i = None \<or> in_agent_id i = agent
           then (filter (\<lambda>old. in_agent_id old \<noteq> in_agent_id i) (fst acc) @ [i], snd acc) else acc)
      | ControlAcknowledged i a \<Rightarrow> if a = agent then (fst acc, i # snd acc) else acc
      | _ \<Rightarrow> acc)"

definition pending_instructions :: "string option \<Rightarrow> event_kind list \<Rightarrow> instruction list" where
  "pending_instructions agent ks =
     (let (instructions, acknowledged) = foldl (scan_control agent) ([], []) ks
      in filter (\<lambda>i. in_id i \<notin> set acknowledged) instructions)"

section \<open>The lane of an agent\<close>

definition AGENT_LANE_NEXT_ACTION_SCHEMA_VERSION :: string where
  "AGENT_LANE_NEXT_ACTION_SCHEMA_VERSION = ''agent_lane_next_action_v0''"

definition AGENT_LANE_PROGRESS_SCOPE :: string where
  "AGENT_LANE_PROGRESS_SCOPE = ''agent_lane''"

record agent_lane_recommendation =
  al_schema_version :: string
  al_progress_scope :: string
  al_agent_id :: string
  al_agent_lane :: string
  al_recommended_action :: "string option"
  al_classification :: string
  al_generated_at :: u64
  al_run_id :: string

text \<open>\<open>max_by_key\<close>: the last of the greatest.\<close>

definition later_run :: "run_record option \<Rightarrow> run_record \<Rightarrow> run_record option" where
  "later_run best r =
     (case best of None \<Rightarrow> Some r | Some b \<Rightarrow> if r_recorded_at b \<le> r_recorded_at r then Some r else Some b)"

definition latest_agent_lane_run :: "goal \<Rightarrow> string \<Rightarrow> run_record option" where
  "latest_agent_lane_run g agent =
     foldl later_run None (filter (\<lambda>r. r_agent_id r = Some agent) (g_history g))"

definition compact_agent_lane_recommendation :: "goal \<Rightarrow> string \<Rightarrow> agent_lane_recommendation option" where
  "compact_agent_lane_recommendation g agent =
     map_option (\<lambda>r.
       \<lparr>al_schema_version = AGENT_LANE_NEXT_ACTION_SCHEMA_VERSION,
        al_progress_scope = AGENT_LANE_PROGRESS_SCOPE, al_agent_id = agent,
        al_agent_lane = AGENT_LANE_PROGRESS_SCOPE,
        al_recommended_action =
          (if blank (r_evidence r) then None else Some (truncate_chars (r_evidence r) 220)),
        al_classification = r_terminal_state r, al_generated_at = r_recorded_at r,
        al_run_id = r_run_id r\<rparr>)
       (latest_agent_lane_run g agent)"

section \<open>The outbox as a list of events\<close>

lemma map_filter_append [simp]: "List.map_filter f (xs @ ys) = List.map_filter f xs @ List.map_filter f ys"
  by (simp add: List.map_filter_def)

named_theorems outbox_simps \<open>the reads of the outbox, one event at a time\<close>

lemma notes_in_simps [outbox_simps]:
  "notes_in [] = []"
  "notes_in (xs @ ys) = notes_in xs @ notes_in ys"
  "notes_in (SupervisorNote t k m key # xs) = (key, m) # notes_in xs"
  "notes_in (SupervisorBatchPrepared i s keys m # xs) = notes_in xs"
  "notes_in (SupervisorBatchDelivered i # xs) = notes_in xs"
  by (simp_all add: notes_in_def List.map_filter_simps)

lemma note_keys_simps [outbox_simps]:
  "note_keys [] = []"
  "note_keys (xs @ ys) = note_keys xs @ note_keys ys"
  "note_keys (SupervisorNote t k m key # xs) = key # note_keys xs"
  "note_keys (SupervisorBatchPrepared i s keys m # xs) = note_keys xs"
  "note_keys (SupervisorBatchDelivered i # xs) = note_keys xs"
  by (simp_all add: note_keys_def outbox_simps)

lemma batches_simps [outbox_simps]:
  "batches [] = []"
  "batches (xs @ ys) = batches xs @ batches ys"
  "batches (SupervisorNote t k m key # xs) = batches xs"
  "batches (SupervisorBatchPrepared i s keys m # xs) =
     \<lparr>ba_id = i, ba_session = s, ba_keys = keys, ba_message = m\<rparr> # batches xs"
  "batches (SupervisorBatchDelivered i # xs) = batches xs"
  by (simp_all add: batches_def List.map_filter_simps)

lemma delivered_ids_simps [outbox_simps]:
  "delivered_ids [] = []"
  "delivered_ids (xs @ ys) = delivered_ids xs @ delivered_ids ys"
  "delivered_ids (SupervisorNote t k m key # xs) = delivered_ids xs"
  "delivered_ids (SupervisorBatchPrepared i s keys m # xs) = delivered_ids xs"
  "delivered_ids (SupervisorBatchDelivered i # xs) = i # delivered_ids xs"
  by (simp_all add: delivered_ids_def List.map_filter_simps)

text \<open>Queueing appends each new key once.\<close>

lemma new_notes_keys:
  "distinct (map no_key (new_notes seen ns)) \<and> set (map no_key (new_notes seen ns)) = no_key ` set ns - set seen"
  by (induction seen ns rule: new_notes.induct) auto

lemma queue_kinds_reads [outbox_simps]:
  "note_keys (queue_kinds ks ns) = map no_key (new_notes (note_keys ks) ns)"
  "batches (queue_kinds ks ns) = []"
  "delivered_ids (queue_kinds ks ns) = []"
proof -
  have "note_keys (map note_kind_of xs) = map no_key xs \<and> batches (map note_kind_of xs) = []
        \<and> delivered_ids (map note_kind_of xs) = []" for xs
    by (induction xs) (simp_all add: outbox_simps note_kind_of_def)
  then show "note_keys (queue_kinds ks ns) = map no_key (new_notes (note_keys ks) ns)"
    "batches (queue_kinds ks ns) = []" "delivered_ids (queue_kinds ks ns) = []"
    by (simp_all add: queue_kinds_def)
qed

lemma new_notes_seen: "no_key ` set ns \<subseteq> set seen \<Longrightarrow> new_notes seen ns = []"
  by (induction ns) auto

lemma queue_twice: "queue_kinds (ks @ queue_kinds ks ns) ns = []"
proof -
  have "no_key ` set ns \<subseteq> set (note_keys (ks @ queue_kinds ks ns))"
    using new_notes_keys [of "note_keys ks" ns] by (auto simp: outbox_simps)
  then show ?thesis by (subst queue_kinds_def) (simp add: new_notes_seen)
qed

text \<open>The scan over the batches, as two reads.\<close>

definition wants_retry :: "string \<Rightarrow> event_kind list \<Rightarrow> batch \<Rightarrow> bool" where
  "wants_retry s ks b \<longleftrightarrow>
     ba_session b = s \<and> ba_id b \<notin> set (delivered_ids ks) \<and> \<not> set (ba_keys b) \<subseteq> set (delivered_keys ks)"

lemma scan_batches_split:
  "scan_batches s ks =
     (concat (map ba_keys (filter (\<lambda>b. ba_session b = s \<or> ba_id b \<in> set (delivered_ids ks)) (batches ks))),
      find (wants_retry s ks) (batches ks))"
proof -
  have "foldl (scan_batch s D K) (a, p) bs =
     (a @ concat (map ba_keys (filter (\<lambda>b. ba_session b = s \<or> ba_id b \<in> set D) bs)),
      case p of Some b \<Rightarrow> Some b
      | None \<Rightarrow> find (\<lambda>b. ba_session b = s \<and> ba_id b \<notin> set D \<and> \<not> set (ba_keys b) \<subseteq> set K) bs)"
    for D K a p bs
    by (induction bs arbitrary: a p)
       (auto simp: scan_batch_def list_all_iff subset_iff split: option.splits)
  then show ?thesis
    by (simp add: scan_batches_def wants_retry_def [abs_def])
qed

lemma pick_notes_spec:
  "distinct (map fst (pick_notes room assigned ns)) \<and>
   set (map fst (pick_notes room assigned ns)) \<subseteq> fst ` set ns - set assigned \<and>
   length (pick_notes room assigned ns) \<le> room"
  by (induction room assigned ns rule: pick_notes.induct) auto

lemma pick_notes_none: "pick_notes room assigned ns = [] \<longleftrightarrow> room = 0 \<or> fst ` set ns \<subseteq> set assigned"
  by (induction ns) auto

text \<open>The three outcomes of a flush.\<close>

definition assigned_to :: "string \<Rightarrow> event_kind list \<Rightarrow> string list" where
  "assigned_to s ks = fst (scan_batches s ks)"

lemma decide_flush_cases:
  obtains (retry) b where "decide_flush gid s ks = Retry b" "b \<in> set (batches ks)" "wants_retry s ks b"
  | (idle) "decide_flush gid s ks = Idle" "\<forall>b\<in>set (batches ks). \<not> wants_retry s ks b"
      "set (note_keys ks) \<subseteq> set (assigned_to s ks)"
  | (fresh) keys m where "decide_flush gid s ks = Prepare keys m" "keys \<noteq> []" "distinct keys"
      "\<forall>b\<in>set (batches ks). \<not> wants_retry s ks b"
      "set keys \<subseteq> set (note_keys ks) - set (assigned_to s ks)" "length keys \<le> MAX_BATCH_NOTES"
proof (cases "find (wants_retry s ks) (batches ks)")
  case (Some b)
  then have "b \<in> set (batches ks)" "wants_retry s ks b"
    by (auto simp: find_Some_iff)
  moreover have "decide_flush gid s ks = Retry b"
    using Some by (simp add: decide_flush_def scan_batches_split)
  ultimately show thesis by (rule retry [rotated])
next
  case None
  then have quiet: "\<forall>b\<in>set (batches ks). \<not> wants_retry s ks b"
    by (auto simp: find_None_iff)
  define picked where "picked = pick_notes MAX_BATCH_NOTES (assigned_to s ks) (notes_in ks)"
  have decide: "decide_flush gid s ks =
      (if picked = [] then Idle else Prepare (map fst picked) (batch_message gid picked))"
    using None by (simp add: decide_flush_def scan_batches_split picked_def assigned_to_def Let_def)
  show thesis
  proof (cases "picked = []")
    case True
    then have "set (note_keys ks) \<subseteq> set (assigned_to s ks)"
      by (simp add: picked_def pick_notes_none MAX_BATCH_NOTES_def note_keys_def)
    with True decide quiet show thesis by (intro idle) simp_all
  next
    case False
    with decide have "decide_flush gid s ks = Prepare (map fst picked) (batch_message gid picked)" by simp
    then show thesis
      using quiet False pick_notes_spec [of MAX_BATCH_NOTES "assigned_to s ks" "notes_in ks"]
      by (intro fresh [of "map fst picked" "batch_message gid picked"]) (simp_all add: picked_def note_keys_def)
  qed
qed

section \<open>The ledger of an outbox\<close>

definition outbox_event :: "event_kind \<Rightarrow> bool" where
  "outbox_event k \<longleftrightarrow>
     (case k of SupervisorNote _ _ _ _ \<Rightarrow> True | SupervisorBatchPrepared _ _ _ _ \<Rightarrow> True
      | SupervisorBatchDelivered _ \<Rightarrow> True | _ \<Rightarrow> False)"

definition fresh_id :: "event_kind list \<Rightarrow> string \<Rightarrow> bool" where
  "fresh_id ks i \<longleftrightarrow> i \<notin> ba_id ` set (batches ks)"

text \<open>Flushing and queueing as the steps they consist of. A flush reads the ledger and decides, then appends
  the batch, calls the agent and appends the receipt; a writer of notes reads the ledger, then appends
  what is new. Between any two of these other processes act, and a process may stop for good: an append
  fails, the prompt fails or times out, the process dies.

  \<open>ob_flushes\<close>, \<open>ob_queues\<close>: the flushes and the writers at work; \<open>ob_calls\<close>: every prompt sent, as session,
  message key and message; \<open>ob_inbox\<close>: those the sessions have taken. A prompt whose caller saw a failure may
  still arrive, at any later time; a session takes a message key once, which is how the agent treats the
  id of a client's request. \<open>locked\<close>: the lock files work, so that there is one flush and one writer at a
  time; where the file system cannot lock, both run without.\<close>

datatype flush_phase = Preparing batch | Sending batch | Acking batch

record outbox =
  ob_events :: "event_kind list"
  ob_queues :: "sup_note list list"
  ob_flushes :: "flush_phase list"
  ob_calls :: "(string \<times> string \<times> string) list"
  ob_inbox :: "(string \<times> string \<times> string) list"

definition request_key :: "string \<Rightarrow> string" where
  "request_key i = ''goal-batch:'' @ i"

definition call_of :: "batch \<Rightarrow> string \<times> string \<times> string" where
  "call_of b = (ba_session b, request_key (ba_id b), ba_message b)"

definition call_id :: "string \<times> string \<times> string \<Rightarrow> string \<times> string" where
  "call_id c = (fst c, fst (snd c))"

definition take_prompt :: "string \<times> string \<times> string \<Rightarrow> (string \<times> string \<times> string) list
    \<Rightarrow> (string \<times> string \<times> string) list" where
  "take_prompt c inbox = (if call_id c \<in> call_id ` set inbox then inbox else inbox @ [c])"

definition prepared_kind :: "batch \<Rightarrow> event_kind" where
  "prepared_kind b = SupervisorBatchPrepared (ba_id b) (ba_session b) (ba_keys b) (ba_message b)"

fun phase_batch :: "flush_phase \<Rightarrow> batch" where
  "phase_batch (Preparing b) = b" | "phase_batch (Sending b) = b" | "phase_batch (Acking b) = b"

definition unused_id :: "outbox \<Rightarrow> string \<Rightarrow> bool" where
  "unused_id x i \<longleftrightarrow> fresh_id (ob_events x) i \<and> (\<forall>ph \<in> set (ob_flushes x). ba_id (phase_batch ph) \<noteq> i)"

inductive outbox_step :: "bool \<Rightarrow> string \<Rightarrow> string set \<Rightarrow> outbox \<Rightarrow> outbox \<Rightarrow> bool" for locked gid ss where
  others: "\<not> outbox_event k \<Longrightarrow> outbox_step locked gid ss x (x\<lparr>ob_events := ob_events x @ [k]\<rparr>)"
| queue_reads: "locked \<longrightarrow> ob_queues x = []
    \<Longrightarrow> outbox_step locked gid ss x (x\<lparr>ob_queues := new_notes (note_keys (ob_events x)) ns # ob_queues x\<rparr>)"
| queue_appends: "ob_queues x = qs @ (n # ns) # rs
    \<Longrightarrow> outbox_step locked gid ss x (x\<lparr>ob_events := ob_events x @ [note_kind_of n], ob_queues := qs @ ns # rs\<rparr>)"
| queue_ends: "ob_queues x = qs @ ns # rs \<Longrightarrow> outbox_step locked gid ss x (x\<lparr>ob_queues := qs @ rs\<rparr>)"
| flush_retries: "locked \<longrightarrow> ob_flushes x = [] \<Longrightarrow> s \<in> ss \<Longrightarrow> decide_flush gid s (ob_events x) = Retry b
    \<Longrightarrow> outbox_step locked gid ss x (x\<lparr>ob_flushes := Sending b # ob_flushes x\<rparr>)"
| flush_picks: "locked \<longrightarrow> ob_flushes x = [] \<Longrightarrow> s \<in> ss \<Longrightarrow> decide_flush gid s (ob_events x) = Prepare keys message
    \<Longrightarrow> unused_id x fresh
    \<Longrightarrow> outbox_step locked gid ss x (x\<lparr>ob_flushes :=
          Preparing \<lparr>ba_id = fresh, ba_session = s, ba_keys = keys, ba_message = message\<rparr> # ob_flushes x\<rparr>)"
| prepares: "ob_flushes x = fs @ Preparing b # gs
    \<Longrightarrow> outbox_step locked gid ss x (x\<lparr>ob_events := ob_events x @ [prepared_kind b], ob_flushes := fs @ Sending b # gs\<rparr>)"
| prompts: "ob_flushes x = fs @ Sending b # gs
    \<Longrightarrow> outbox_step locked gid ss x (x\<lparr>ob_calls := ob_calls x @ [call_of b],
          ob_inbox := take_prompt (call_of b) (ob_inbox x), ob_flushes := fs @ Acking b # gs\<rparr>)"
| prompt_fails: "ob_flushes x = fs @ Sending b # gs
    \<Longrightarrow> outbox_step locked gid ss x (x\<lparr>ob_calls := ob_calls x @ [call_of b], ob_flushes := fs @ gs\<rparr>)"
| arrives: "c \<in> set (ob_calls x) \<Longrightarrow> outbox_step locked gid ss x (x\<lparr>ob_inbox := take_prompt c (ob_inbox x)\<rparr>)"
| acknowledges: "ob_flushes x = fs @ Acking b # gs
    \<Longrightarrow> outbox_step locked gid ss x (x\<lparr>ob_events := ob_events x @ [SupervisorBatchDelivered (ba_id b)], ob_flushes := fs @ gs\<rparr>)"
| flush_stops: "ob_flushes x = fs @ ph # gs \<Longrightarrow> outbox_step locked gid ss x (x\<lparr>ob_flushes := fs @ gs\<rparr>)"

definition empty_outbox :: outbox where
  "empty_outbox = \<lparr>ob_events = [], ob_queues = [], ob_flushes = [], ob_calls = [], ob_inbox = []\<rparr>"

definition outbox_reachable :: "bool \<Rightarrow> string \<Rightarrow> string set \<Rightarrow> outbox \<Rightarrow> bool" where
  "outbox_reachable locked gid ss x \<longleftrightarrow> (outbox_step locked gid ss)\<^sup>*\<^sup>* empty_outbox x"

text \<open>One flush, and one queueing, that nothing interrupts.\<close>

lemma flush_steps:
  assumes "ob_flushes x = []" "s \<in> ss" "fresh_id (ob_events x) fresh"
  shows "\<exists>x'. (outbox_step locked gid ss)\<^sup>*\<^sup>* x x' \<and> ob_flushes x' = [] \<and> ob_queues x' = ob_queues x
    \<and> ob_events x' = ob_events x @ flush_kinds gid s fresh ok (ob_events x)"
proof -
  let ?S = "outbox_step locked gid ss"
  have sent: "\<exists>x'. ?S\<^sup>*\<^sup>* y x' \<and> ob_flushes x' = [] \<and> ob_queues x' = ob_queues y
      \<and> ob_events x' = ob_events y @ (if ok then [SupervisorBatchDelivered (ba_id b)] else [])"
    if "ob_flushes y = [Sending b]" for y b
  proof (cases ok)
    case True
    let ?y = "y\<lparr>ob_calls := ob_calls y @ [call_of b], ob_inbox := take_prompt (call_of b) (ob_inbox y),
        ob_flushes := [] @ Acking b # []\<rparr>"
    have "?S y ?y" using that by (intro outbox_step.prompts) simp
    moreover have "?S ?y (?y\<lparr>ob_events := ob_events ?y @ [SupervisorBatchDelivered (ba_id b)], ob_flushes := [] @ []\<rparr>)"
      by (rule outbox_step.acknowledges) simp
    ultimately show ?thesis
      using True by (intro exI, intro conjI) (erule converse_rtranclp_into_rtranclp, erule r_into_rtranclp, simp_all)
  next
    case False
    have "?S y (y\<lparr>ob_calls := ob_calls y @ [call_of b], ob_flushes := [] @ []\<rparr>)"
      using that by (intro outbox_step.prompt_fails) simp
    then show ?thesis using False by (intro exI, intro conjI) (erule r_into_rtranclp, simp_all)
  qed
  show ?thesis
  proof (cases "decide_flush gid s (ob_events x)")
    case Idle
    then show ?thesis using assms(1) by (intro exI [of _ x]) (simp add: flush_kinds_def)
  next
    case (Retry b)
    let ?y = "x\<lparr>ob_flushes := Sending b # ob_flushes x\<rparr>"
    have step: "?S x ?y" using assms(1,2) Retry by (intro outbox_step.flush_retries) simp_all
    obtain x' where "?S\<^sup>*\<^sup>* ?y x'" "ob_flushes x' = []" "ob_queues x' = ob_queues ?y"
      "ob_events x' = ob_events ?y @ (if ok then [SupervisorBatchDelivered (ba_id b)] else [])"
      using sent [of ?y b] assms(1) by auto
    then show ?thesis
      using converse_rtranclp_into_rtranclp [of ?S, OF step] Retry
      by (intro exI [of _ x']) (simp add: flush_kinds_def)
  next
    case (Prepare keys message)
    let ?b = "\<lparr>ba_id = fresh, ba_session = s, ba_keys = keys, ba_message = message\<rparr>"
    let ?y = "x\<lparr>ob_flushes := Preparing ?b # ob_flushes x\<rparr>"
    let ?z = "?y\<lparr>ob_events := ob_events ?y @ [prepared_kind ?b], ob_flushes := [] @ Sending ?b # []\<rparr>"
    have one: "?S x ?y" using assms Prepare by (intro outbox_step.flush_picks) (simp_all add: unused_id_def)
    have two: "?S ?y ?z" using assms(1) by (intro outbox_step.prepares) simp
    obtain x' where "?S\<^sup>*\<^sup>* ?z x'" "ob_flushes x' = []" "ob_queues x' = ob_queues ?z"
      "ob_events x' = ob_events ?z @ (if ok then [SupervisorBatchDelivered (ba_id ?b)] else [])"
      using sent [of ?z ?b] by auto
    then show ?thesis
      using converse_rtranclp_into_rtranclp [of ?S, OF one converse_rtranclp_into_rtranclp [of ?S, OF two]] Prepare
      by (intro exI [of _ x']) (simp add: flush_kinds_def prepared_kind_def)
  qed
qed

lemma queue_steps:
  assumes "ob_queues x = []"
  shows "(outbox_step locked gid ss)\<^sup>*\<^sup>* x (x\<lparr>ob_events := ob_events x @ queue_kinds (ob_events x) ns\<rparr>)"
proof -
  let ?S = "outbox_step locked gid ss"
  have appended: "?S\<^sup>*\<^sup>* y (y\<lparr>ob_events := ob_events y @ map note_kind_of ms, ob_queues := []\<rparr>)"
    if "ob_queues y = [ms]" for y ms
    using that
  proof (induction ms arbitrary: y)
    case Nil
    then have "?S y (y\<lparr>ob_queues := [] @ []\<rparr>)" by (intro outbox_step.queue_ends) simp
    then show ?case by (simp add: r_into_rtranclp)
  next
    case (Cons m ms)
    let ?y = "y\<lparr>ob_events := ob_events y @ [note_kind_of m], ob_queues := [] @ ms # []\<rparr>"
    have "?S y ?y" using Cons.prems by (intro outbox_step.queue_appends) simp
    moreover have "?S\<^sup>*\<^sup>* ?y (?y\<lparr>ob_events := ob_events ?y @ map note_kind_of ms, ob_queues := []\<rparr>)"
      by (rule Cons.IH) simp
    ultimately show ?case by (auto dest: converse_rtranclp_into_rtranclp)
  qed
  let ?y = "x\<lparr>ob_queues := new_notes (note_keys (ob_events x)) ns # ob_queues x\<rparr>"
  have "?S x ?y" using assms by (intro outbox_step.queue_reads) simp
  moreover have "?S\<^sup>*\<^sup>* ?y (?y\<lparr>ob_events := ob_events ?y @ queue_kinds (ob_events x) ns, ob_queues := []\<rparr>)"
    unfolding queue_kinds_def by (rule appended) (simp add: assms)
  moreover have "?y\<lparr>ob_events := ob_events ?y @ queue_kinds (ob_events x) ns, ob_queues := []\<rparr>
      = x\<lparr>ob_events := ob_events x @ queue_kinds (ob_events x) ns\<rparr>" using assms by simp
  ultimately show ?thesis by (metis converse_rtranclp_into_rtranclp)
qed

definition outbox_wf :: "event_kind list \<Rightarrow> bool" where
  "outbox_wf ks \<longleftrightarrow>
     distinct (note_keys ks) \<and> distinct (map ba_id (batches ks))
     \<and> set (delivered_ids ks) \<subseteq> ba_id ` set (batches ks)
     \<and> (\<forall>b\<in>set (batches ks). ba_keys b \<noteq> [] \<and> length (ba_keys b) \<le> MAX_BATCH_NOTES
          \<and> distinct (ba_keys b) \<and> set (ba_keys b) \<subseteq> set (note_keys ks))"

lemma not_outbox_event [outbox_simps]:
  assumes "\<not> outbox_event k"
  shows "note_keys [k] = []" "batches [k] = []" "delivered_ids [k] = []"
  using assms
  by (cases k; simp add: outbox_event_def note_keys_def notes_in_def batches_def delivered_ids_def
      List.map_filter_simps)+

lemma flush_kinds_note_keys [outbox_simps]: "note_keys (flush_kinds gid s fresh ok ks) = []"
  by (simp add: flush_kinds_def outbox_simps split: flush_decision.split)

lemma flush_kinds_cases:
  obtains (retry) b where "b \<in> set (batches ks)" "wants_retry s ks b"
      "flush_kinds gid s fresh ok ks = (if ok then [SupervisorBatchDelivered (ba_id b)] else [])"
  | (idle) "flush_kinds gid s fresh ok ks = []" "\<forall>b\<in>set (batches ks). \<not> wants_retry s ks b"
      "set (note_keys ks) \<subseteq> set (assigned_to s ks)"
  | (fresh) keys m where "keys \<noteq> []" "distinct keys"
      "\<forall>b\<in>set (batches ks). \<not> wants_retry s ks b"
      "set keys \<subseteq> set (note_keys ks) - set (assigned_to s ks)" "length keys \<le> MAX_BATCH_NOTES"
      "flush_kinds gid s fresh ok ks =
         SupervisorBatchPrepared fresh s keys m # (if ok then [SupervisorBatchDelivered fresh] else [])"
  by (cases rule: decide_flush_cases [of gid s ks]) (auto simp: flush_kinds_def)

lemma flush_kinds_wf:
  assumes "outbox_wf ks" and "fresh_id ks fresh"
  shows "outbox_wf (ks @ flush_kinds gid s fresh ok ks)"
proof (cases rule: flush_kinds_cases [of ks s gid fresh ok])
  case (retry b)
  with assms show ?thesis by (auto simp: outbox_wf_def outbox_simps)
next
  case idle
  with assms show ?thesis by simp
next
  case (fresh keys m)
  with assms show ?thesis by (auto simp: outbox_wf_def outbox_simps fresh_id_def)
qed

text \<open>The events one step appends.\<close>

lemma appended_reads [outbox_simps]:
  "note_keys [note_kind_of n] = [no_key n]" "batches [note_kind_of n] = []" "delivered_ids [note_kind_of n] = []"
  "note_keys [prepared_kind b] = []" "batches [prepared_kind b] = [b]" "delivered_ids [prepared_kind b] = []"
  "note_keys [SupervisorBatchDelivered i] = []" "batches [SupervisorBatchDelivered i] = []"
  "delivered_ids [SupervisorBatchDelivered i] = [i]"
  by (simp_all add: note_kind_of_def prepared_kind_def outbox_simps)

lemma notes_in_keys: "note_keys ks = map fst (notes_in ks)"
  by (simp add: note_keys_def)

text \<open>A batch holds between one and 32 notes of the ledger, its message is theirs.\<close>

definition batch_ok :: "string \<Rightarrow> event_kind list \<Rightarrow> batch \<Rightarrow> bool" where
  "batch_ok gid ks b \<longleftrightarrow>
     ba_keys b \<noteq> [] \<and> length (ba_keys b) \<le> MAX_BATCH_NOTES \<and> distinct (ba_keys b)
     \<and> (\<exists>ns. set ns \<subseteq> set (notes_in ks) \<and> ba_keys b = map fst ns \<and> ba_message b = batch_message gid ns)"

lemma batch_ok_append: "batch_ok gid ks b \<Longrightarrow> batch_ok gid (ks @ xs) b"
  unfolding batch_ok_def by (auto simp: outbox_simps)

lemma batch_ok_keys: "batch_ok gid ks b \<Longrightarrow> set (ba_keys b) \<subseteq> set (note_keys ks)"
  unfolding batch_ok_def notes_in_keys by (metis image_mono list.set_map)

lemma picked_batch_ok:
  assumes "decide_flush gid s ks = Prepare keys message"
  shows "batch_ok gid ks \<lparr>ba_id = i, ba_session = t, ba_keys = keys, ba_message = message\<rparr>"
    and "set keys \<inter> set (assigned_to s ks) = {}"
proof -
  define ns where "ns = pick_notes MAX_BATCH_NOTES (assigned_to s ks) (notes_in ks)"
  have sub: "set (pick_notes room assigned xs) \<subseteq> set xs" for room assigned xs
    by (induction room assigned xs rule: pick_notes.induct) auto
  have "ns \<noteq> []" "keys = map fst ns" "message = batch_message gid ns"
    using assms by (auto simp: decide_flush_def Let_def ns_def assigned_to_def split: prod.splits option.splits if_splits)
  then show "batch_ok gid ks \<lparr>ba_id = i, ba_session = t, ba_keys = keys, ba_message = message\<rparr>"
    and "set keys \<inter> set (assigned_to s ks) = {}"
    using pick_notes_spec [of MAX_BATCH_NOTES "assigned_to s ks" "notes_in ks"] sub [of MAX_BATCH_NOTES "assigned_to s ks" "notes_in ks"]
    by (auto simp: batch_ok_def ns_def)
qed

lemma retried_batch:
  assumes "decide_flush gid s ks = Retry b"
  shows "b \<in> set (batches ks)"
  using assms by (cases rule: decide_flush_cases [of gid s ks]) auto

fun phase_ok :: "string \<Rightarrow> outbox \<Rightarrow> flush_phase \<Rightarrow> bool" where
  "phase_ok gid x (Preparing b) \<longleftrightarrow> batch_ok gid (ob_events x) b \<and> fresh_id (ob_events x) (ba_id b)"
| "phase_ok gid x (Sending b) \<longleftrightarrow> b \<in> set (batches (ob_events x))"
| "phase_ok gid x (Acking b) \<longleftrightarrow> b \<in> set (batches (ob_events x)) \<and> call_of b \<in> set (ob_inbox x)"

definition notes_ok :: "outbox \<Rightarrow> bool" where
  "notes_ok x \<longleftrightarrow> length (ob_queues x) \<le> 1
     \<and> distinct (note_keys (ob_events x) @ map no_key (concat (ob_queues x)))"

definition batches_ok :: "string \<Rightarrow> outbox \<Rightarrow> bool" where
  "batches_ok gid x \<longleftrightarrow> length (ob_flushes x) \<le> 1 \<and> (\<forall>ph \<in> set (ob_flushes x). phase_ok gid x ph)
     \<and> (\<forall>b \<in> set (batches (ob_events x)). batch_ok gid (ob_events x) b)
     \<and> distinct (map ba_id (batches (ob_events x)))
     \<and> set (delivered_ids (ob_events x)) \<subseteq> ba_id ` set (batches (ob_events x))"

definition calls_ok :: "outbox \<Rightarrow> bool" where
  "calls_ok x \<longleftrightarrow> set (ob_calls x) \<subseteq> call_of ` set (batches (ob_events x)) \<and> set (ob_inbox x) \<subseteq> set (ob_calls x)
     \<and> distinct (map call_id (ob_inbox x))
     \<and> (\<forall>b \<in> set (batches (ob_events x)). ba_id b \<in> set (delivered_ids (ob_events x)) \<longrightarrow> call_of b \<in> set (ob_inbox x))"

lemma alone: "length xs \<le> 1 \<Longrightarrow> xs = fs @ y # gs \<Longrightarrow> fs = [] \<and> gs = []"
  by (cases fs; cases gs) auto

text \<open>Writers of notes, one at a time, append each key once.\<close>

lemma notes_step:
  assumes "outbox_step True gid ss x x'" "notes_ok x"
  shows "notes_ok x'"
  using assms
proof (induction rule: outbox_step.induct)
  case (others k x)
  then show ?case by (simp add: notes_ok_def outbox_simps)
next
  case (queue_reads x ns)
  then show ?case using new_notes_keys [of "note_keys (ob_events x)" ns] by (auto simp: notes_ok_def)
next
  case (queue_appends x qs n ns rs)
  then have "qs = [] \<and> rs = []" by (intro alone) (simp_all add: notes_ok_def)
  then show ?case using queue_appends by (auto simp: notes_ok_def outbox_simps)
next
  case (queue_ends x qs ns rs)
  then have "qs = [] \<and> rs = []" by (intro alone) (simp_all add: notes_ok_def)
  then show ?case using queue_ends by (auto simp: notes_ok_def)
qed (simp_all add: notes_ok_def outbox_simps)

lemma phase_ok_same:
  "phase_ok gid x ph \<Longrightarrow> ob_events x' = ob_events x \<Longrightarrow> set (ob_inbox x) \<subseteq> set (ob_inbox x') \<Longrightarrow> phase_ok gid x' ph"
  by (cases ph) auto

lemma phase_ok_append:
  "phase_ok gid x ph \<Longrightarrow> batches xs = [] \<Longrightarrow> ob_events x' = ob_events x @ xs \<Longrightarrow> ob_inbox x' = ob_inbox x \<Longrightarrow> phase_ok gid x' ph"
  by (cases ph) (auto simp: outbox_simps batch_ok_append fresh_id_def)

lemma take_prompt_set: "set inbox \<subseteq> set (take_prompt c inbox)" "set (take_prompt c inbox) \<subseteq> insert c (set inbox)"
  by (auto simp: take_prompt_def)

lemma take_prompt_distinct: "distinct (map call_id inbox) \<Longrightarrow> distinct (map call_id (take_prompt c inbox))"
  by (auto simp: take_prompt_def)

text \<open>Within the batches of a ledger a request key means one call.\<close>

lemma call_key_inj:
  assumes "distinct (map ba_id bs)" "b \<in> set bs" "b' \<in> set bs" "call_id (call_of b) = call_id (call_of b')"
  shows "b = b'"
  using assms by (auto simp: call_id_def call_of_def request_key_def distinct_map inj_on_def)

lemma take_prompt_taken:
  assumes "batches_ok gid x" "calls_ok x" "b \<in> set (batches (ob_events x))"
  shows "call_of b \<in> set (take_prompt (call_of b) (ob_inbox x))"
proof (cases "call_id (call_of b) \<in> call_id ` set (ob_inbox x)")
  case True
  then obtain c where c: "c \<in> set (ob_inbox x)" "call_id c = call_id (call_of b)" by (metis imageE)
  then obtain b' where "b' \<in> set (batches (ob_events x))" "c = call_of b'"
    using assms(2) unfolding calls_ok_def by blast
  then have "b = b'" using call_key_inj [OF _ assms(3)] c(2) assms(1) by (simp add: batches_ok_def)
  then show ?thesis using c(1) \<open>c = call_of b'\<close> by (simp add: take_prompt_def)
qed (simp add: take_prompt_def)

text \<open>A batch that is not the flush's is left alone by every append.\<close>

lemma batches_same:
  assumes "batches_ok gid x" "batches xs = []" "ob_events x' = ob_events x @ xs"
    and "set (delivered_ids xs) \<subseteq> ba_id ` set (batches (ob_events x))"
    and "length (ob_flushes x') \<le> 1" "\<forall>ph \<in> set (ob_flushes x'). phase_ok gid x' ph"
  shows "batches_ok gid x'"
proof -
  have bs: "batches (ob_events x') = batches (ob_events x)" by (simp only: assms(2,3) batches_simps(2) append_Nil2)
  have ds: "set (delivered_ids (ob_events x')) = set (delivered_ids (ob_events x)) \<union> set (delivered_ids xs)"
    by (simp only: assms(3) delivered_ids_simps(2) set_append)
  have ok: "batch_ok gid (ob_events x') b" if "b \<in> set (batches (ob_events x))" for b
    using assms(1) that batch_ok_append [of gid "ob_events x" b xs] by (simp add: batches_ok_def assms(3))
  show ?thesis using assms(1,4-6) ok unfolding batches_ok_def bs ds by simp
qed

lemma batches_step:
  assumes "outbox_step True gid ss x x'" "batches_ok gid x" "calls_ok x"
  shows "batches_ok gid x'"
  using assms
proof (induction rule: outbox_step.induct)
  case (others k x)
  then show ?case
    by - (rule batches_same [of gid x "[k]"], auto simp: outbox_simps batches_ok_def
        intro: phase_ok_append [where xs = "[k]"])
next
  case (queue_reads x ns)
  then show ?case by (auto simp: batches_ok_def intro: phase_ok_same)
next
  case (queue_appends x qs n ns rs)
  then show ?case
    by - (rule batches_same [of gid x "[note_kind_of n]"], auto simp: outbox_simps batches_ok_def intro: phase_ok_append [where xs = "[note_kind_of n]"])
next
  case (queue_ends x qs ns rs)
  then show ?case by (auto simp: batches_ok_def intro: phase_ok_same)
next
  case (flush_retries x s b)
  then show ?case using retried_batch by (auto simp: batches_ok_def)
next
  case (flush_picks x s keys message fresh)
  then show ?case using picked_batch_ok(1) by (auto simp: batches_ok_def unused_id_def)
next
  case (prepares x fs b gs)
  then have "fs = [] \<and> gs = []" by (intro alone) (simp_all add: batches_ok_def)
  then show ?case using prepares
    by (auto simp: batches_ok_def outbox_simps batch_ok_append fresh_id_def)
next
  case (prompts x fs b gs)
  then have "fs = [] \<and> gs = []" by (intro alone) (simp_all add: batches_ok_def)
  moreover have "b \<in> set (batches (ob_events x))" using prompts(1,2) by (simp add: batches_ok_def)
  ultimately show ?case using prompts take_prompt_taken [OF prompts(2,3)] by (simp add: batches_ok_def)
next
  case (prompt_fails x fs b gs)
  then have "fs = [] \<and> gs = []" by (intro alone) (simp_all add: batches_ok_def)
  then show ?case using prompt_fails by (simp add: batches_ok_def)
next
  case (arrives c x)
  have "phase_ok gid (x\<lparr>ob_inbox := take_prompt c (ob_inbox x)\<rparr>) ph" if "phase_ok gid x ph" for ph
    using phase_ok_same [OF that, of "x\<lparr>ob_inbox := take_prompt c (ob_inbox x)\<rparr>"] by (simp add: take_prompt_set(1))
  then show ?case using arrives(2) by (simp add: batches_ok_def)
next
  case (acknowledges x fs b gs)
  then have "fs = [] \<and> gs = []" by (intro alone) (simp_all add: batches_ok_def)
  then show ?case using acknowledges
    by - (rule batches_same [of gid x "[SupervisorBatchDelivered (ba_id b)]"], auto simp: outbox_simps batches_ok_def)
next
  case (flush_stops x fs ph gs)
  then have "fs = [] \<and> gs = []" by (intro alone) (simp_all add: batches_ok_def)
  then show ?case using flush_stops by (simp add: batches_ok_def)
qed

lemma calls_same:
  assumes "calls_ok x" "batches xs = []" "ob_events x' = ob_events x @ xs" "ob_calls x' = ob_calls x" "ob_inbox x' = ob_inbox x"
    and "\<forall>b \<in> set (batches (ob_events x)). ba_id b \<in> set (delivered_ids xs) \<longrightarrow> call_of b \<in> set (ob_inbox x)"
  shows "calls_ok x'"
proof -
  have bs: "batches (ob_events x') = batches (ob_events x)" by (simp only: assms(2,3) batches_simps(2) append_Nil2)
  have ds: "set (delivered_ids (ob_events x')) = set (delivered_ids (ob_events x)) \<union> set (delivered_ids xs)"
    by (simp only: assms(3) delivered_ids_simps(2) set_append)
  show ?thesis using assms(1,6) unfolding calls_ok_def bs ds assms(4,5) by blast
qed

lemma calls_taken:
  assumes "calls_ok x" "c \<in> set cs" "ob_events x' = ob_events x" "ob_calls x' = cs" "ob_inbox x' = take_prompt c (ob_inbox x)"
    and "set (ob_calls x) \<subseteq> set cs" "set cs \<subseteq> call_of ` set (batches (ob_events x))"
  shows "calls_ok x'"
proof -
  have "set (take_prompt c (ob_inbox x)) \<subseteq> set cs"
    using take_prompt_set(2) [of c "ob_inbox x"] assms(1,2,6) by (auto simp: calls_ok_def)
  then show ?thesis
    using assms(1,7) take_prompt_set(1) [of "ob_inbox x" c] take_prompt_distinct [of "ob_inbox x" c]
    by (auto simp: calls_ok_def assms(3-5))
qed

lemma calls_step:
  assumes "outbox_step True gid ss x x'" "batches_ok gid x" "calls_ok x"
  shows "calls_ok x'"
  using assms
proof (induction rule: outbox_step.induct)
  case (others k x)
  then show ?case by - (rule calls_same [of x "[k]"], simp_all add: outbox_simps)
next
  case (queue_appends x qs n ns rs)
  then show ?case by - (rule calls_same [of x "[note_kind_of n]"], simp_all add: outbox_simps)
next
  case (prepares x fs b gs)
  then have "fresh_id (ob_events x) (ba_id b)" by (simp add: batches_ok_def)
  moreover have "set (delivered_ids (ob_events x)) \<subseteq> ba_id ` set (batches (ob_events x))"
    using prepares(2) by (simp add: batches_ok_def)
  ultimately show ?case using prepares(3) by (auto simp: calls_ok_def outbox_simps fresh_id_def)
next
  case (prompts x fs b gs)
  then have "b \<in> set (batches (ob_events x))" by (simp add: batches_ok_def)
  with prompts(3) show ?case
    by - (rule calls_taken [OF prompts(3), of "call_of b" "ob_calls x @ [call_of b]"], auto simp: calls_ok_def)
next
  case (prompt_fails x fs b gs)
  then have "b \<in> set (batches (ob_events x))" by (simp add: batches_ok_def)
  with prompt_fails(3) show ?case by (auto simp: calls_ok_def)
next
  case (arrives c x)
  then show ?case by - (rule calls_taken [OF arrives(3,1)], auto simp: calls_ok_def)
next
  case (acknowledges x fs b gs)
  then have b: "b \<in> set (batches (ob_events x))" "call_of b \<in> set (ob_inbox x)" by (simp_all add: batches_ok_def)
  have "b' = b" if "b' \<in> set (batches (ob_events x))" "ba_id b' = ba_id b" for b'
    using acknowledges(2) that b(1) by (auto simp: batches_ok_def distinct_map inj_on_def)
  then show ?case using b(2)
    by - (rule calls_same [OF acknowledges(3), of "[SupervisorBatchDelivered (ba_id b)]"], auto simp: outbox_simps)
qed (simp_all add: calls_ok_def)

lemma outbox_reachable_ok:
  assumes "outbox_reachable True gid ss x"
  shows "notes_ok x \<and> batches_ok gid x \<and> calls_ok x"
proof -
  have "(outbox_step True gid ss)\<^sup>*\<^sup>* empty_outbox x" using assms by (simp add: outbox_reachable_def)
  then show ?thesis
  proof (induction rule: rtranclp_induct)
    case base
    then show ?case by (simp add: empty_outbox_def notes_ok_def batches_ok_def calls_ok_def outbox_simps)
  next
    case (step y z)
    then show ?case using notes_step batches_step calls_step by blast
  qed
qed

lemma outbox_reachable_wf:
  assumes "outbox_reachable True gid ss x"
  shows "outbox_wf (ob_events x)"
proof -
  note ok = outbox_reachable_ok [OF assms]
  have "distinct (note_keys (ob_events x))" using ok by (simp add: notes_ok_def)
  moreover have "\<forall>b\<in>set (batches (ob_events x)). ba_keys b \<noteq> [] \<and> length (ba_keys b) \<le> MAX_BATCH_NOTES
          \<and> distinct (ba_keys b) \<and> set (ba_keys b) \<subseteq> set (note_keys (ob_events x))"
  proof (rule ballI)
    fix b assume "b \<in> set (batches (ob_events x))"
    then have "batch_ok gid (ob_events x) b" using ok by (simp add: batches_ok_def)
    then show "ba_keys b \<noteq> [] \<and> length (ba_keys b) \<le> MAX_BATCH_NOTES \<and> distinct (ba_keys b)
        \<and> set (ba_keys b) \<subseteq> set (note_keys (ob_events x))"
      using batch_ok_keys by (simp add: batch_ok_def) blast
  qed
  ultimately show ?thesis using ok by (simp add: outbox_wf_def batches_ok_def)
qed

text \<open>With one session, no key is ever in two batches.\<close>

definition keys_apart :: "string \<Rightarrow> outbox \<Rightarrow> bool" where
  "keys_apart s x \<longleftrightarrow> (\<forall>b \<in> set (batches (ob_events x)). ba_session b = s)
     \<and> distinct (concat (map ba_keys (batches (ob_events x))))
     \<and> (\<forall>b. Preparing b \<in> set (ob_flushes x) \<longrightarrow> ba_session b = s
          \<and> set (ba_keys b) \<inter> set (concat (map ba_keys (batches (ob_events x)))) = {})"

lemma keys_apart_step:
  assumes "outbox_step True gid {s} x x'" "batches_ok gid x" "keys_apart s x"
  shows "keys_apart s x'"
  using assms
proof (induction rule: outbox_step.induct)
  case (flush_picks x t keys message fresh)
  then have "set (assigned_to s (ob_events x)) = set (concat (map ba_keys (batches (ob_events x))))"
    by (auto simp: assigned_to_def scan_batches_split keys_apart_def)
  moreover have "t = s" using flush_picks(2) by simp
  ultimately have "set keys \<inter> set (concat (map ba_keys (batches (ob_events x)))) = {}"
    using picked_batch_ok(2) [OF flush_picks(3)] by simp
  then show ?case using flush_picks \<open>t = s\<close> by (auto simp: keys_apart_def)
next
  case (prepares x fs b gs)
  then have alone: "fs = [] \<and> gs = []" by (intro alone) (simp_all add: batches_ok_def)
  have "distinct (ba_keys b)" using prepares(1,2) by (simp add: batches_ok_def batch_ok_def)
  then show ?case using prepares(1,3) alone by (auto simp: keys_apart_def outbox_simps)
qed (auto simp: keys_apart_def outbox_simps)

lemma outbox_reachable_apart:
  assumes "outbox_reachable True gid {s} x"
  shows "keys_apart s x"
proof -
  have "(outbox_step True gid {s})\<^sup>*\<^sup>* empty_outbox x" using assms by (simp add: outbox_reachable_def)
  then show ?thesis
  proof (induction rule: rtranclp_induct)
    case base
    then show ?case by (simp add: empty_outbox_def keys_apart_def outbox_simps)
  next
    case (step y z)
    then have "outbox_reachable True gid {s} y" by (simp add: outbox_reachable_def)
    then show ?case using step keys_apart_step outbox_reachable_ok by blast
  qed
qed

lemma distinct_concat_one: "distinct (concat (map f ys)) \<Longrightarrow> y \<in> set ys \<Longrightarrow> distinct (f y)"
  by (induction ys) auto

lemma distinct_concat_apart:
  "distinct (concat (map f ys)) \<Longrightarrow> x \<in> set ys \<Longrightarrow> y \<in> set ys \<Longrightarrow> x \<noteq> y \<Longrightarrow> set (f x) \<inter> set (f y) = {}"
  by (induction ys) auto

lemma distinct_concat_sub:
  assumes "distinct (concat (map f ys))" "distinct xs" "set xs \<subseteq> set ys"
  shows "distinct (concat (map f xs))"
  using assms(2,3)
proof (induction xs)
  case (Cons x xs)
  have "set (f x) \<inter> set (f y) = {}" if "y \<in> set xs" for y
    using distinct_concat_apart [OF assms(1)] Cons.prems that by auto
  then show ?case using Cons distinct_concat_one [OF assms(1), of x] by auto
qed simp

lemma distinct_concat_filter: "distinct (concat (map f xs)) \<Longrightarrow> distinct (concat (map f (filter P xs)))"
  by (induction xs) auto

lemma delivered_keys_sub: "outbox_wf ks \<Longrightarrow> set (delivered_keys ks) \<subseteq> set (note_keys ks)"
  by (auto simp: outbox_wf_def delivered_keys_def)

text \<open>The keys of the notes a prompt carries.\<close>

definition prompt_keys :: "event_kind list \<Rightarrow> string \<times> string \<times> string \<Rightarrow> string list" where
  "prompt_keys ks c = concat (map ba_keys (filter (\<lambda>b. call_of b = c) (batches ks)))"

lemma filter_one: "distinct xs \<Longrightarrow> x \<in> set xs \<Longrightarrow> filter (\<lambda>y. y = x) xs = [x]"
  by (induction xs) (auto simp: filter_empty_conv)

lemma prompt_keys_call:
  assumes "distinct (map ba_id (batches ks))" "b \<in> set (batches ks)"
  shows "prompt_keys ks (call_of b) = ba_keys b"
proof -
  have "b' = b" if "b' \<in> set (batches ks)" "call_of b' = call_of b" for b'
    using that assms by (auto simp: call_of_def request_key_def distinct_map inj_on_def)
  then have "filter (\<lambda>b'. call_of b' = call_of b) (batches ks) = filter (\<lambda>b'. b' = b) (batches ks)"
    using assms(2) by (intro filter_cong) auto
  also have "\<dots> = [b]"
    using assms by (intro filter_one) (auto simp: distinct_map)
  finally show ?thesis by (simp add: prompt_keys_def)
qed

text \<open>C40: A supervisor that keeps its session is told every note at most once, and a note counts as delivered
  only once it was told. Where the lock files work, and the agent takes a request key of a session once:
  whatever commands run in between, however often notes are queued again, at whichever point a flush or a
  writer of notes fails, stops or is overtaken by others, and whenever a prompt whose caller saw a failure
  arrives after all, the prompts the session has taken carry disjoint sets of notes, each is the message of
  one to 32 notes of the ledger, and every note of an acknowledged batch is in one of them.\<close>

theorem outbox_exactly_once:
  assumes "outbox_reachable True gid {s} x"
  shows "distinct (concat (map (prompt_keys (ob_events x)) (ob_inbox x)))
    \<and> set (delivered_keys (ob_events x)) \<subseteq> set (concat (map (prompt_keys (ob_events x)) (ob_inbox x)))
    \<and> distinct (note_keys (ob_events x))
    \<and> (\<forall>c \<in> set (ob_inbox x). fst c = s \<and> (\<exists>ns. set ns \<subseteq> set (notes_in (ob_events x)) \<and> ns \<noteq> []
         \<and> length ns \<le> MAX_BATCH_NOTES \<and> prompt_keys (ob_events x) c = map fst ns \<and> snd (snd c) = batch_message gid ns))"
proof -
  note ok = outbox_reachable_ok [OF assms] and apart = outbox_reachable_apart [OF assms]
  let ?bs = "batches (ob_events x)"
  have ids: "distinct (map ba_id ?bs)" using ok by (simp add: batches_ok_def)
  have source: "\<exists>b \<in> set ?bs. c = call_of b" if "c \<in> set (ob_inbox x)" for c
    using ok that unfolding calls_ok_def by blast
  obtain cbs where cbs: "ob_inbox x = map call_of cbs" "set cbs \<subseteq> set ?bs"
  proof -
    have "\<exists>cbs. cs = map call_of cbs \<and> set cbs \<subseteq> set ?bs" if "set cs \<subseteq> set (ob_inbox x)" for cs
      using that
    proof (induction cs)
      case (Cons c cs)
      then obtain cbs where "cs = map call_of cbs" "set cbs \<subseteq> set ?bs" by auto
      moreover obtain b where "b \<in> set ?bs" "c = call_of b" using source [of c] Cons.prems by auto
      ultimately show ?case by (intro exI [of _ "b # cbs"]) simp
    qed simp
    then show thesis using that by blast
  qed
  have keys: "map (prompt_keys (ob_events x)) (ob_inbox x) = map ba_keys cbs"
    using cbs(2) prompt_keys_call [OF ids] by (auto simp: cbs(1))
  have "distinct (map call_id (ob_inbox x))" using ok by (simp add: calls_ok_def)
  then have "distinct cbs" by (simp add: cbs(1) comp_def distinct_map)
  then have once: "distinct (concat (map ba_keys cbs))"
    using apart cbs(2) by - (rule distinct_concat_sub [of ba_keys ?bs], simp_all add: keys_apart_def)
  have told: "call_of b \<in> set (ob_inbox x)" if "b \<in> set ?bs" "ba_id b \<in> set (delivered_ids (ob_events x))" for b
    using ok that unfolding calls_ok_def by blast
  have "set (delivered_keys (ob_events x)) \<subseteq> set (concat (map (prompt_keys (ob_events x)) (ob_inbox x)))"
  proof
    fix k assume "k \<in> set (delivered_keys (ob_events x))"
    then obtain b where b: "b \<in> set ?bs" "ba_id b \<in> set (delivered_ids (ob_events x))" "k \<in> set (ba_keys b)"
      by (auto simp: delivered_keys_def)
    then have "k \<in> set (prompt_keys (ob_events x) (call_of b))" by (simp add: prompt_keys_call [OF ids])
    then show "k \<in> set (concat (map (prompt_keys (ob_events x)) (ob_inbox x)))" using told [OF b(1,2)] by auto
  qed
  moreover have "fst c = s \<and> (\<exists>ns. set ns \<subseteq> set (notes_in (ob_events x)) \<and> ns \<noteq> []
         \<and> length ns \<le> MAX_BATCH_NOTES \<and> prompt_keys (ob_events x) c = map fst ns \<and> snd (snd c) = batch_message gid ns)"
    if c: "c \<in> set (ob_inbox x)" for c
  proof -
    obtain b where b: "b \<in> set ?bs" "c = call_of b" using source [OF c] by blast
    then have good: "batch_ok gid (ob_events x) b" and "ba_session b = s"
      using ok apart by (simp_all add: batches_ok_def keys_apart_def)
    from good obtain ns where "set ns \<subseteq> set (notes_in (ob_events x))" "ba_keys b = map fst ns"
      "ba_message b = batch_message gid ns" "ba_keys b \<noteq> []" "length (ba_keys b) \<le> MAX_BATCH_NOTES"
      unfolding batch_ok_def by blast
    then show ?thesis using b \<open>ba_session b = s\<close> prompt_keys_call [OF ids b(1)]
      by (intro conjI exI [of _ ns]) (simp_all add: call_of_def)
  qed
  moreover have "distinct (note_keys (ob_events x))" using ok by (simp add: notes_ok_def)
  ultimately show ?thesis using once keys by simp
qed

definition outbox_demo_note :: "string \<Rightarrow> sup_note" where
  "outbox_demo_note i = \<lparr>no_kind = ''host_died'', no_todo = i, no_message = ''m'', no_key = i\<rparr>"

abbreviation outbox_demo :: "event_kind list" where
  "outbox_demo \<equiv> queue_kinds [] [outbox_demo_note ''a'', outbox_demo_note ''b'']"

lemmas outbox_eval =
  outbox_simps queue_kinds_def note_kind_of_def outbox_demo_note_def flush_kinds_def decide_flush_def
  scan_batches_def scan_batch_def delivered_keys_def MAX_BATCH_NOTES_def

lemma outbox_demo_reachable:
  "\<exists>x. outbox_reachable True ''g'' {''s''} x \<and> ob_queues x = [] \<and> ob_flushes x = [] \<and> ob_events x = outbox_demo"
proof -
  have "outbox_reachable True ''g'' {''s''} (empty_outbox\<lparr>ob_events := ob_events empty_outbox @ outbox_demo\<rparr>)"
    unfolding outbox_reachable_def
    using queue_steps [of empty_outbox True "''g''" "{''s''}" "[outbox_demo_note ''a'', outbox_demo_note ''b'']"]
    by (simp add: empty_outbox_def)
  then show ?thesis
    by (rule_tac x = "empty_outbox\<lparr>ob_events := ob_events empty_outbox @ outbox_demo\<rparr>" in exI) (simp add: empty_outbox_def)
qed

lemma outbox_demo_flushed:
  "\<exists>x. outbox_reachable True ''g'' {''s''} x \<and> ob_flushes x = []
     \<and> ob_events x = outbox_demo @ flush_kinds ''g'' ''s'' ''u'' ok outbox_demo"
proof -
  obtain x where x: "outbox_reachable True ''g'' {''s''} x" "ob_flushes x = []" "ob_events x = outbox_demo"
    using outbox_demo_reachable by blast
  have fresh: "fresh_id (ob_events x) ''u''" by (simp add: x(3) fresh_id_def outbox_simps)
  obtain x' where "(outbox_step True ''g'' {''s''})\<^sup>*\<^sup>* x x'" "ob_flushes x' = []"
    "ob_events x' = outbox_demo @ flush_kinds ''g'' ''s'' ''u'' ok outbox_demo"
    using flush_steps [OF x(2) _ fresh, of "''s''" "{''s''}" True "''g''" ok] by (auto simp: x(3))
  then show ?thesis using x(1) unfolding outbox_reachable_def by (meson rtranclp_trans)
qed

lemma outbox_exactly_once_witness:
  "\<exists>x. outbox_reachable True ''g'' {''s''} x \<and> ob_events x = outbox_demo @ flush_kinds ''g'' ''s'' ''u'' True outbox_demo
     \<and> set [''a'', ''b''] \<subseteq> set (concat (map (prompt_keys (ob_events x)) (ob_inbox x)))
     \<and> distinct (concat (map (prompt_keys (ob_events x)) (ob_inbox x)))"
proof -
  obtain x where x: "outbox_reachable True ''g'' {''s''} x"
    "ob_events x = outbox_demo @ flush_kinds ''g'' ''s'' ''u'' True outbox_demo"
    using outbox_demo_flushed by blast
  have told: "set (delivered_keys (ob_events x)) \<subseteq> set (concat (map (prompt_keys (ob_events x)) (ob_inbox x)))"
    by (rule conjunct1 [OF conjunct2 [OF outbox_exactly_once [OF x(1)]]])
  have "delivered_keys (ob_events x) = [''a'', ''b'']" by (simp add: x(2) outbox_eval)
  note told = told [unfolded this]
  show ?thesis
    by (intro exI [of _ x] conjI) (rule x(1), rule x(2), rule told, rule conjunct1 [OF outbox_exactly_once [OF x(1)]])
qed

text \<open>Where the files cannot be locked, two flushes pick the same note and both prompts arrive, which the code
  prefers to telling nobody.\<close>

theorem lockless_flushes_repeat:
  "\<exists>x. outbox_reachable False ''g'' {''s''} x
     \<and> \<not> distinct (concat (map (prompt_keys (ob_events x)) (ob_inbox x)))"
proof -
  let ?S = "outbox_step False ''g'' {''s''}"
  let ?note = "note_kind_of (outbox_demo_note ''a'')"
  define b where "b i = \<lparr>ba_id = i, ba_session = ''s'', ba_keys = [''a''],
      ba_message = batch_message ''g'' [(''a'', ''m'')]\<rparr>" for i
  define x0 where "x0 = empty_outbox\<lparr>ob_events := [?note]\<rparr>"
  define x1 where "x1 = x0\<lparr>ob_flushes := [Preparing (b ''u'')]\<rparr>"
  define x2 where "x2 = x0\<lparr>ob_flushes := [Preparing (b ''v''), Preparing (b ''u'')]\<rparr>"
  define x3 where "x3 = x0\<lparr>ob_events := [?note, prepared_kind (b ''v'')], ob_flushes := [Sending (b ''v''), Preparing (b ''u'')]\<rparr>"
  define x4 where "x4 = x0\<lparr>ob_events := [?note, prepared_kind (b ''v''), prepared_kind (b ''u'')],
      ob_flushes := [Sending (b ''v''), Sending (b ''u'')]\<rparr>"
  define x5 where "x5 = x4\<lparr>ob_calls := [call_of (b ''v'')], ob_inbox := [call_of (b ''v'')],
      ob_flushes := [Acking (b ''v''), Sending (b ''u'')]\<rparr>"
  define x6 where "x6 = x4\<lparr>ob_calls := [call_of (b ''v''), call_of (b ''u'')],
      ob_inbox := [call_of (b ''v''), call_of (b ''u'')], ob_flushes := [Acking (b ''v''), Acking (b ''u'')]\<rparr>"
  have decide: "decide_flush ''g'' ''s'' [?note] = Prepare [''a''] (batch_message ''g'' [(''a'', ''m'')])"
    by (simp add: outbox_eval)
  have "?S\<^sup>*\<^sup>* empty_outbox x0"
    using queue_steps [of empty_outbox False "''g''" "{''s''}" "[outbox_demo_note ''a'']"]
    by (simp add: x0_def empty_outbox_def outbox_eval)
  also have "?S x0 x1"
    using outbox_step.flush_picks [of False x0 "''s''" "{''s''}" "''g''" "[''a'']" "batch_message ''g'' [(''a'', ''m'')]" "''u''"] decide
    by (simp add: x0_def x1_def b_def unused_id_def fresh_id_def outbox_simps empty_outbox_def)
  also have "?S x1 x2"
    using outbox_step.flush_picks [of False x1 "''s''" "{''s''}" "''g''" "[''a'']" "batch_message ''g'' [(''a'', ''m'')]" "''v''"] decide
    by (simp add: x0_def x1_def x2_def b_def unused_id_def fresh_id_def outbox_simps empty_outbox_def)
  also have "?S x2 x3"
    using outbox_step.prepares [of x2 "[]" "b ''v''" "[Preparing (b ''u'')]" False "''g''" "{''s''}"]
    by (simp add: x0_def x2_def x3_def)
  also have "?S x3 x4"
    using outbox_step.prepares [of x3 "[Sending (b ''v'')]" "b ''u''" "[]" False "''g''" "{''s''}"]
    by (simp add: x0_def x3_def x4_def)
  also have "?S x4 x5"
    using outbox_step.prompts [of x4 "[]" "b ''v''" "[Sending (b ''u'')]" False "''g''" "{''s''}"]
    by (simp add: x0_def x4_def x5_def take_prompt_def empty_outbox_def)
  also have "?S x5 x6"
    using outbox_step.prompts [of x5 "[Acking (b ''v'')]" "b ''u''" "[]" False "''g''" "{''s''}"]
    by (simp add: x0_def x4_def x5_def x6_def take_prompt_def empty_outbox_def call_id_def call_of_def request_key_def b_def)
  finally have "outbox_reachable False ''g'' {''s''} x6" by (simp add: outbox_reachable_def)
  moreover have "batches (ob_events x6) = [b ''v'', b ''u'']"
    by (simp add: x6_def x4_def prepared_kind_def outbox_simps note_kind_of_def b_def)
  then have "concat (map (prompt_keys (ob_events x6)) (ob_inbox x6)) = [''a'', ''a'']"
    by (simp add: prompt_keys_def x6_def call_of_def request_key_def) (simp add: b_def)
  ultimately show ?thesis by (intro exI [of _ x6]) simp
qed

section \<open>Draining\<close>

text \<open>A component that empties itself: each step an input allows keeps the invariant and, while anything
  is left, leaves less.\<close>

fun allowed :: "('s \<Rightarrow> 'i \<Rightarrow> 's) \<Rightarrow> ('s \<Rightarrow> 'i \<Rightarrow> bool) \<Rightarrow> 's \<Rightarrow> 'i list \<Rightarrow> bool" where
  "allowed step ok s [] = True"
| "allowed step ok s (i # is) = (ok s i \<and> allowed step ok (step s i) is)"

locale draining =
  fixes step :: "'s \<Rightarrow> 'i \<Rightarrow> 's"
    and ok :: "'s \<Rightarrow> 'i \<Rightarrow> bool"
    and good :: "'s \<Rightarrow> bool"
    and left :: "'s \<Rightarrow> nat"
  assumes keeps: "good s \<Longrightarrow> ok s i \<Longrightarrow> good (step s i)"
    and progress: "good s \<Longrightarrow> ok s i \<Longrightarrow> left s \<noteq> 0 \<Longrightarrow> left (step s i) < left s"
    and settled: "good s \<Longrightarrow> ok s i \<Longrightarrow> left s = 0 \<Longrightarrow> left (step s i) = 0"
begin

lemma drained:
  "good s \<Longrightarrow> allowed step ok s is \<Longrightarrow> left s \<le> length is \<Longrightarrow> left (foldl step s is) = 0"
proof (induction "is" arbitrary: s)
  case (Cons i "is")
  then have "left (step s i) \<le> length is"
    using progress [of s i] settled [of s i] by (cases "left s = 0") auto
  with Cons keeps [of s i] show ?case by simp
qed simp

end

text \<open>A flush whose prompt is accepted, for the session of the moment and a fresh batch id.\<close>

definition deliver :: "string \<Rightarrow> event_kind list \<Rightarrow> string \<times> string \<Rightarrow> event_kind list" where
  "deliver gid ks i = ks @ flush_kinds gid (fst i) (snd i) True ks"

definition fresh_for :: "event_kind list \<Rightarrow> string \<times> string \<Rightarrow> bool" where
  "fresh_for ks i \<longleftrightarrow> fresh_id ks (snd i)"

lemma delivered_keys_append:
  "set (delivered_keys ks) \<subseteq> set (delivered_keys (ks @ xs))"
  by (auto simp: delivered_keys_def outbox_simps)

lemma undelivered_empty: "undelivered ks = [] \<longleftrightarrow> set (note_keys ks) \<subseteq> set (delivered_keys ks)"
  by (auto simp: undelivered_def filter_empty_conv)

text \<open>Nothing is sent exactly when every note is in a delivered batch.\<close>

lemma idle_iff_delivered:
  assumes "outbox_wf ks"
  shows "decide_flush gid s ks = Idle \<longleftrightarrow> undelivered ks = []"
proof (cases rule: decide_flush_cases [of gid s ks])
  case (retry b)
  then obtain k where "k \<in> set (ba_keys b)" "k \<notin> set (delivered_keys ks)"
    by (auto simp: wants_retry_def)
  moreover from this retry assms have "k \<in> set (note_keys ks)" by (auto simp: outbox_wf_def)
  ultimately show ?thesis using retry by (auto simp: undelivered_empty)
next
  case idle
  have "k \<in> set (delivered_keys ks)" if "k \<in> set (note_keys ks)" for k
  proof -
    from that idle obtain b where b: "b \<in> set (batches ks)" "k \<in> set (ba_keys b)"
        "ba_session b = s \<or> ba_id b \<in> set (delivered_ids ks)"
      by (auto simp: assigned_to_def scan_batches_split)
    show ?thesis
    proof (cases "ba_id b \<in> set (delivered_ids ks)")
      case True
      with b show ?thesis by (auto simp: delivered_keys_def)
    next
      case False
      with b idle(2) have "set (ba_keys b) \<subseteq> set (delivered_keys ks)" by (auto simp: wants_retry_def)
      with b(2) show ?thesis by auto
    qed
  qed
  with idle show ?thesis by (auto simp: undelivered_empty)
next
  case (fresh keys m)
  have "set (delivered_keys ks) \<subseteq> set (assigned_to s ks)"
    by (auto simp: delivered_keys_def assigned_to_def scan_batches_split)
  with fresh show ?thesis by (cases keys) (auto simp: undelivered_empty)
qed

lemma deliver_note_keys [simp]: "note_keys (deliver gid ks i) = note_keys ks"
  by (simp add: deliver_def outbox_simps)

text \<open>A delivery is progress: some key that was outstanding is delivered.\<close>

lemma deliver_progress:
  assumes wf: "outbox_wf ks" and "fresh_for ks i" and left: "undelivered ks \<noteq> []"
  obtains k where "k \<in> set (note_keys ks)" "k \<notin> set (delivered_keys ks)"
    "k \<in> set (delivered_keys (deliver gid ks i))"
proof (cases rule: flush_kinds_cases [of ks "fst i" gid "snd i" True])
  case (retry b)
  then obtain k where "k \<in> set (ba_keys b)" "k \<notin> set (delivered_keys ks)"
    by (auto simp: wants_retry_def)
  with retry wf show thesis
    by (intro that [of k]) (auto simp: outbox_wf_def deliver_def delivered_keys_def outbox_simps)
next
  case idle
  with idle_iff_delivered [OF wf, of gid "fst i"] left show thesis
    by (auto simp: flush_kinds_def split: flush_decision.splits if_splits)
next
  case (fresh keys m)
  then obtain k where k: "k \<in> set keys" by (cases keys) auto
  have "set (delivered_keys ks) \<subseteq> set (assigned_to (fst i) ks)"
    by (auto simp: delivered_keys_def assigned_to_def scan_batches_split)
  with fresh k show thesis
    by (intro that [of k]) (auto simp: deliver_def delivered_keys_def outbox_simps)
qed

lemma undelivered_shrinks:
  assumes "outbox_wf ks" "fresh_for ks i" "undelivered ks \<noteq> []"
  shows "length (undelivered (deliver gid ks i)) < length (undelivered ks)"
proof -
  let ?D = "set (delivered_keys ks)" and ?D' = "set (delivered_keys (deliver gid ks i))"
  obtain k where k: "k \<in> set (note_keys ks)" "k \<notin> ?D" "k \<in> ?D'"
    using deliver_progress [OF assms] .
  have sub: "?D \<subseteq> ?D'" by (simp add: deliver_def delivered_keys_append)
  have "length (filter (\<lambda>x. x \<notin> ?D') xs) < length (filter (\<lambda>x. x \<notin> ?D) xs)" if "k \<in> set xs" for xs
  proof -
    have eq: "filter (\<lambda>x. x \<notin> ?D') xs = filter (\<lambda>x. x \<notin> ?D') (filter (\<lambda>x. x \<notin> ?D) xs)"
      using sub by (auto intro: filter_cong)
    have "k \<in> set (filter (\<lambda>x. x \<notin> ?D) xs)" using that k by simp
    then show ?thesis unfolding eq by (rule length_filter_less [of k]) (simp add: k(3))
  qed
  then show ?thesis using k(1) by (simp add: undelivered_def)
qed

lemma undelivered_settled: "undelivered ks = [] \<Longrightarrow> undelivered (deliver gid ks i) = []"
  using delivered_keys_append [of ks] by (auto simp: undelivered_empty deliver_def outbox_simps)

lemma deliver_wf: "outbox_wf ks \<Longrightarrow> fresh_for ks i \<Longrightarrow> outbox_wf (deliver gid ks i)"
  by (simp add: deliver_def fresh_for_def flush_kinds_wf)

interpretation outbox: draining "deliver gid" fresh_for outbox_wf "\<lambda>ks. length (undelivered ks)"
  by unfold_locales
     (simp_all add: undelivered_shrinks undelivered_settled deliver_wf)

text \<open>The outbox drains. From any ledger the commands can produce, as many accepted prompts as there
  are outstanding notes leave none, whichever sessions the supervisor registers meanwhile: a note is never
  stuck behind a batch prepared for a session that went away.\<close>

theorem outbox_drains:
  assumes "outbox_reachable True gid ss x"
    and "allowed (deliver gid) fresh_for (ob_events x) sessions"
    and "length (undelivered (ob_events x)) \<le> length sessions"
  shows "undelivered (foldl (deliver gid) (ob_events x) sessions) = []"
  using outbox.drained [OF outbox_reachable_wf [OF assms(1)] assms(2)] assms(3) by simp

lemma outbox_drains_witness:
  "undelivered (foldl (deliver ''g'')
     (outbox_demo @ flush_kinds ''g'' ''s'' ''u'' False outbox_demo) [(''t'', ''v''), (''s'', ''w'')]) = []"
proof -
  obtain x where x: "outbox_reachable True ''g'' {''s''} x"
    "ob_events x = outbox_demo @ flush_kinds ''g'' ''s'' ''u'' False outbox_demo"
    using outbox_demo_flushed by blast
  show ?thesis
    by (rule outbox_drains [OF x(1), unfolded x(2)])
      (simp_all add: outbox_eval deliver_def fresh_for_def fresh_id_def undelivered_def)
qed

text \<open>What the prepared batches do not give is exactly-once across sessions.\<close>

definition switch_ledger :: "event_kind list" where
  "switch_ledger =
     (let k1 = queue_kinds [] [outbox_demo_note ''a''];
          k2 = k1 @ flush_kinds ''g'' ''s1'' ''u'' False k1;
          k3 = k2 @ queue_kinds k2 [outbox_demo_note ''b''];
          k4 = k3 @ flush_kinds ''g'' ''s2'' ''v'' False k3;
          k5 = k4 @ flush_kinds ''g'' ''s1'' ''w'' True k4
      in k5 @ flush_kinds ''g'' ''s2'' ''x'' True k5)"

abbreviation (input) switch_note :: "string \<Rightarrow> event_kind" where
  "switch_note i \<equiv> SupervisorNote i ''host_died'' ''m'' i"

abbreviation (input) switch_batch :: "string \<Rightarrow> string \<Rightarrow> string list \<Rightarrow> event_kind" where
  "switch_batch i s keys \<equiv> SupervisorBatchPrepared i s keys (batch_message ''g'' (map (\<lambda>k. (k, ''m'')) keys))"

lemma switch_steps:
  "queue_kinds [] [outbox_demo_note ''a''] = [switch_note ''a'']"
  "flush_kinds ''g'' ''s1'' ''u'' False [switch_note ''a''] = [switch_batch ''u'' ''s1'' [''a'']]"
  "queue_kinds [switch_note ''a'', switch_batch ''u'' ''s1'' [''a'']] [outbox_demo_note ''b''] = [switch_note ''b'']"
  "flush_kinds ''g'' ''s2'' ''v'' False [switch_note ''a'', switch_batch ''u'' ''s1'' [''a''], switch_note ''b'']
   = [switch_batch ''v'' ''s2'' [''a'', ''b'']]"
  "flush_kinds ''g'' ''s1'' ''w'' True
     [switch_note ''a'', switch_batch ''u'' ''s1'' [''a''], switch_note ''b'', switch_batch ''v'' ''s2'' [''a'', ''b'']]
   = [SupervisorBatchDelivered ''u'']"
  "flush_kinds ''g'' ''s2'' ''x'' True
     [switch_note ''a'', switch_batch ''u'' ''s1'' [''a''], switch_note ''b'', switch_batch ''v'' ''s2'' [''a'', ''b''],
      SupervisorBatchDelivered ''u'']
   = [SupervisorBatchDelivered ''v'']"
  by (simp_all add: outbox_eval)

lemma switch_ledger_value:
  "switch_ledger =
     [switch_note ''a'', switch_batch ''u'' ''s1'' [''a''], switch_note ''b'', switch_batch ''v'' ''s2'' [''a'', ''b''],
      SupervisorBatchDelivered ''u'', SupervisorBatchDelivered ''v'']"
  using switch_steps by (simp add: switch_ledger_def)

text \<open>A note can reach the supervisor twice. The first session's prompt fails after its batch is
  prepared, a second session gets a batch that repeats the note beside a newer one and fails too, the first
  session comes back and its batch is delivered: the second session's batch still holds an undelivered key,
  so it is sent whole, the note that was already accepted included.\<close>

theorem session_switch_redelivers:
  "\<exists>x. outbox_reachable True ''g'' {''s1'', ''s2''} x \<and> ob_events x = switch_ledger
     \<and> delivered_keys (ob_events x) = [''a'', ''a'', ''b'']"
proof -
  let ?R = "\<lambda>ks. \<exists>x. outbox_reachable True ''g'' {''s1'', ''s2''} x \<and> ob_events x = ks \<and> ob_flushes x = [] \<and> ob_queues x = []"
  have none: "?R []" by (intro exI [of _ empty_outbox]) (simp add: outbox_reachable_def, simp add: empty_outbox_def)
  have queued: "?R (ks @ queue_kinds ks ns)" if "?R ks" for ks ns
  proof -
    from that obtain x where x: "outbox_reachable True ''g'' {''s1'', ''s2''} x" "ob_events x = ks"
      "ob_flushes x = []" "ob_queues x = []" by blast
    show ?thesis
      using x rtranclp_trans [OF _ queue_steps [OF x(4), of True "''g''" "{''s1'', ''s2''}" ns]]
      by (intro exI [of _ "x\<lparr>ob_events := ob_events x @ queue_kinds (ob_events x) ns\<rparr>"])
        (simp add: outbox_reachable_def)
  qed
  have flushed: "?R (ks @ flush_kinds ''g'' s i ok ks)" if run: "?R ks" and switch: "s \<in> {''s1'', ''s2''}" "fresh_id ks i" for ks s i ok
  proof -
    from run obtain x where x: "outbox_reachable True ''g'' {''s1'', ''s2''} x" "ob_events x = ks"
      "ob_flushes x = []" "ob_queues x = []" by blast
    obtain x' where x': "(outbox_step True ''g'' {''s1'', ''s2''})\<^sup>*\<^sup>* x x'" "ob_flushes x' = []" "ob_queues x' = []"
      "ob_events x' = ks @ flush_kinds ''g'' s i ok ks"
      using flush_steps [OF x(3) switch(1), of i True "''g''" ok] switch(2) x by auto
    show ?thesis
      using x(1) x' rtranclp_trans [OF _ x'(1)] by (intro exI [of _ x']) (simp add: outbox_reachable_def)
  qed
  have "?R switch_ledger"
    unfolding switch_ledger_def Let_def
    by (intro flushed queued queued [OF none, simplified])
      (use switch_steps in \<open>simp_all add: fresh_id_def outbox_simps\<close>)
  then show ?thesis by (auto simp: switch_ledger_value delivered_keys_def outbox_simps)
qed

section \<open>Steering instructions\<close>

definition addressed :: "string option \<Rightarrow> instruction \<Rightarrow> bool" where
  "addressed agent i \<longleftrightarrow> in_agent_id i = None \<or> in_agent_id i = agent"

definition standing :: "event_kind list \<Rightarrow> instruction \<Rightarrow> bool" where
  "standing ks i \<longleftrightarrow>
     (\<exists>pre post. ks = pre @ ControlIssued i # post
        \<and> (\<forall>j. ControlIssued j \<in> set post \<longrightarrow> in_agent_id j \<noteq> in_agent_id i))"

lemma standing_snoc:
  "standing (ks @ [k]) i \<longleftrightarrow>
     k = ControlIssued i \<or> (standing ks i \<and> (\<forall>j. k = ControlIssued j \<longrightarrow> in_agent_id j \<noteq> in_agent_id i))"
proof
  assume "standing (ks @ [k]) i"
  then obtain pre post where split: "ks @ [k] = pre @ ControlIssued i # post"
    and later: "\<forall>j. ControlIssued j \<in> set post \<longrightarrow> in_agent_id j \<noteq> in_agent_id i"
    unfolding standing_def by blast
  show "k = ControlIssued i \<or> (standing ks i \<and> (\<forall>j. k = ControlIssued j \<longrightarrow> in_agent_id j \<noteq> in_agent_id i))"
  proof (cases post rule: rev_cases)
    case Nil
    with split show ?thesis by simp
  next
    case (snoc ys y)
    with split have "ks = pre @ ControlIssued i # ys" and "k = y" by simp_all
    with later snoc show ?thesis unfolding standing_def by auto
  qed
next
  assume "k = ControlIssued i \<or> (standing ks i \<and> (\<forall>j. k = ControlIssued j \<longrightarrow> in_agent_id j \<noteq> in_agent_id i))"
  then show "standing (ks @ [k]) i"
  proof
    assume "k = ControlIssued i"
    then show ?thesis unfolding standing_def by (intro exI [of _ ks] exI [of _ "[]"]) simp
  next
    assume old: "standing ks i \<and> (\<forall>j. k = ControlIssued j \<longrightarrow> in_agent_id j \<noteq> in_agent_id i)"
    then obtain pre post where "ks = pre @ ControlIssued i # post"
      "\<forall>j. ControlIssued j \<in> set post \<longrightarrow> in_agent_id j \<noteq> in_agent_id i"
      unfolding standing_def by blast
    with old show ?thesis unfolding standing_def by (intro exI [of _ pre] exI [of _ "post @ [k]"]) auto
  qed
qed

lemma scan_control_issued:
  "scan_control agent acc (ControlIssued i) =
     (if addressed agent i then (filter (\<lambda>old. in_agent_id old \<noteq> in_agent_id i) (fst acc) @ [i], snd acc) else acc)"
  by (simp add: scan_control_def addressed_def)

lemma scan_control_spec:
  "foldl (scan_control agent) ([], []) ks = (xs, acks) \<Longrightarrow>
   set xs = {i. addressed agent i \<and> standing ks i} \<and> distinct (map in_agent_id xs)
   \<and> set acks = {i. ControlAcknowledged i agent \<in> set ks}"
proof (induction ks arbitrary: xs acks rule: rev_induct)
  case Nil
  then show ?case by (simp add: standing_def)
next
  case (snoc k ks)
  obtain ys bcks where old: "foldl (scan_control agent) ([], []) ks = (ys, bcks)" by fastforce
  note IH = snoc.IH [OF this]
  from snoc.prems old have step: "scan_control agent (ys, bcks) k = (xs, acks)" by simp
  show ?case
  proof (cases "\<exists>i. k = ControlIssued i")
    case True
    then obtain i where k: "k = ControlIssued i" by blast
    show ?thesis
    proof (cases "addressed agent i")
      case True
      with step k have xs: "xs = filter (\<lambda>old. in_agent_id old \<noteq> in_agent_id i) ys @ [i]" and "acks = bcks"
        by (simp_all add: scan_control_issued)
      moreover have "set xs = {j. addressed agent j \<and> standing (ks @ [k]) j}"
        unfolding standing_snoc k xs using IH True by auto
      ultimately show ?thesis using IH k by (auto simp: distinct_map_filter)
    next
      case False
      with step k have "xs = ys" "acks = bcks" by (simp_all add: scan_control_issued)
      moreover have "addressed agent j \<and> standing (ks @ [k]) j \<longleftrightarrow> addressed agent j \<and> standing ks j" for j
        using False unfolding standing_snoc k by (auto simp: addressed_def)
      ultimately show ?thesis using IH k by simp
    qed
  next
    case False
    then have "standing (ks @ [k]) j \<longleftrightarrow> standing ks j" for j by (simp add: standing_snoc)
    moreover have "xs = ys \<and> set acks = set bcks \<union> {i. k = ControlAcknowledged i agent}"
      using step False by (cases k) (auto simp: scan_control_def split: if_splits)
    ultimately show ?thesis using IH by auto
  qed
qed

text \<open>A worker is steered by exactly the right instructions: those addressed to it or to everyone
  that no later instruction to the same addressee replaces and that it has not acknowledged itself; there
  is at most one per addressee, and another worker's acknowledgement changes nothing.\<close>

theorem pending_instructions_exact:
  "(i \<in> set (pending_instructions agent ks) \<longleftrightarrow>
     addressed agent i \<and> standing ks i \<and> ControlAcknowledged (in_id i) agent \<notin> set ks)
   \<and> distinct (map in_agent_id (pending_instructions agent ks))"
  using scan_control_spec [of agent ks]
  by (cases "foldl (scan_control agent) ([], []) ks")
     (auto simp: pending_instructions_def distinct_map_filter)

end
