(* ===== verification/Task_Schedule.thy ===== *)
theory Task_Schedule
  imports Executor
begin

text \<open>
  Scheduled tasks: the types of \<open>types.rs\<close> and the deterministic kernel of \<open>kernel.rs\<close>, both below
  \<open>src/orchestration/tasks/src/\<close>. A task is a prompt with a trigger; the kernel computes the next slot
  of a schedule, decides what a prompt edit records, and composes the prompt of a run.

  The date library is the parameter \<open>calendar\<close>: the functions of \<open>chrono\<close> and of the task's time zone
  the code calls, on dates numbered by days and times of day in milliseconds. Instants are epoch
  milliseconds, \<open>i64\<close> values integers.
\<close>

section \<open>Types\<close>

datatype trigger_kind = TriggerManual | TriggerSchedule
datatype session_policy = PolicyNew | PolicyExisting
datatype conversation_retention = KeepConversation | DeleteConversation
datatype conversation_mode = ChatMode | WorkspaceMode
datatype run_kind = RunMain | RunManual | RunChain
datatype run_origin = FromSchedule | FromUi | FromCli | FromChain
datatype run_status = RunRunning | RunCompleted | RunFailed | RunSkipped

definition REVISION_STATUS_ACTIVE :: string where "REVISION_STATUS_ACTIVE = ''active''"
definition REVISION_STATUS_SUPERSEDED :: string where "REVISION_STATUS_SUPERSEDED = ''superseded''"
definition REVISION_SOURCE_SUPERSEDED :: string where "REVISION_SOURCE_SUPERSEDED = ''superseded''"
definition REVISION_SOURCE_ROLLBACK :: string where "REVISION_SOURCE_ROLLBACK = ''rollback''"
definition TASK_ENVELOPE_SCHEMA_VERSION :: string where
  "TASK_ENVELOPE_SCHEMA_VERSION = ''future_tasks_run_envelope_v1''"

definition FINISH_ANSWER :: string where "FINISH_ANSWER = ''answer''"
definition FINISH_EMPTY_ANSWER :: string where "FINISH_EMPTY_ANSWER = ''empty_answer''"
definition FINISH_CANCELLED :: string where "FINISH_CANCELLED = ''cancelled''"
definition FINISH_INTERRUPTED :: string where "FINISH_INTERRUPTED = ''interrupted''"
definition FINISH_TIMEOUT :: string where "FINISH_TIMEOUT = ''timeout''"
definition FINISH_PROVIDER_ERROR :: string where "FINISH_PROVIDER_ERROR = ''provider_error''"
definition FINISH_ERROR :: string where "FINISH_ERROR = ''error''"

text \<open>The stored trigger is its JSON text.\<close>

record task =
  k_id :: string
  k_name :: string
  k_enabled :: bool
  k_prompt :: string
  k_prompt_version :: int
  k_cwd :: string
  k_model_id :: "string option"
  k_thinking_level :: "string option"
  k_timezone :: "string option"
  k_session_policy :: session_policy
  k_conversation_mode :: conversation_mode
  k_thread_id :: "string option"
  k_trigger_kind :: trigger_kind
  k_trigger_json :: string
  k_next_due_at :: "int option"
  k_pending_request_at :: "int option"
  k_pending_origin :: "run_origin option"
  k_pending_actor :: "string option"
  k_session_retention :: conversation_retention
  k_created_at :: int
  k_updated_at :: int
  k_deleted_at :: "int option"

record task_run =
  n_id :: string
  n_task_id :: string
  n_kind :: run_kind
  n_origin :: run_origin
  n_actor :: "string option"
  n_due_at :: "int option"
  n_status :: run_status
  n_thread_id :: "string option"
  n_session_id :: "string option"
  n_run_id :: "string option"
  n_prompt_version :: "int option"
  n_result_summary :: "string option"
  n_feedback :: "string option"
  n_feedback_note :: "string option"
  n_started_at :: "int option"
  n_finished_at :: "int option"
  n_error_message :: "string option"
  n_finish_reason :: "string option"
  n_finish_note :: "string option"
  n_session_deleted :: bool

record prompt_revision =
  p_id :: string
  p_task_id :: string
  p_version :: int
  p_prompt :: string
  p_source :: string
  p_status :: string
  p_reason :: "string option"
  p_confidence :: "f64 option"
  p_source_run_id :: "string option"
  p_created_at :: int

section \<open>Why a run ended\<close>

definition LEGACY_PROPOSED_STATUS :: string where "LEGACY_PROPOSED_STATUS = ''proposed''"
definition RESULT_SUMMARY_CHARS :: nat where "RESULT_SUMMARY_CHARS = 2000"
definition RUN_OUTPUT_CHARS :: nat where "RUN_OUTPUT_CHARS = 16000"
definition FINISH_NOTE_CHARS :: nat where "FINISH_NOTE_CHARS = 400"

definition finish_reason_for_answer :: "string \<Rightarrow> string" where
  "finish_reason_for_answer answer = (if blank answer then FINISH_EMPTY_ANSWER else FINISH_ANSWER)"

text \<open>The code between a leading bracket and the first closing one; the whole rest when none closes it.\<close>

definition error_code_of :: "string \<Rightarrow> string" where
  "error_code_of err =
     (case err of
        [] \<Rightarrow> []
      | c # rest \<Rightarrow> if c = CHR ''['' then takeWhile (\<lambda>d. d \<noteq> CHR '']'') rest else [])"

definition finish_reason_for_error :: "string \<Rightarrow> string" where
  "finish_reason_for_error err =
     (let code = error_code_of err in
      if code \<in> set [''RUN_CANCELLED'', ''RUN_QUEUED''] then FINISH_CANCELLED
      else if code = ''INTERRUPTED_BY_RESTART'' then FINISH_INTERRUPTED
      else if code = ''RESPONSE_TIMEOUT'' then FINISH_TIMEOUT
      else if code \<in> set [''UPSTREAM_DISCONNECTED'', ''PROVIDER_CANCELLED'', ''MODEL_RESPONSE_ERROR'',
                         ''MODEL_CONTENT_FILTER'', ''MODEL_PAUSED'', ''OUTPUT_LIMIT'', ''AGENT_FAILED'']
      then FINISH_PROVIDER_ERROR
      else if code = ''RESPONSE_UNCONFIRMED'' then FINISH_INTERRUPTED
      else FINISH_ERROR)"

definition truncate_text :: "string \<Rightarrow> nat \<Rightarrow> string" where
  "truncate_text text limit =
     (if length text \<le> limit then text
      else if limit \<le> length ellipsis + 1 then take (floor_char_boundary text limit) text
      else (let budget = limit - length ellipsis;
                head_bytes = budget * 3 div 4;
                tail_bytes = budget - head_bytes
            in take (floor_char_boundary text head_bytes) text @ ellipsis
               @ drop (floor_char_boundary text (length text - tail_bytes)) text))"

definition middle_dot :: string where "middle_dot = [CHR 0xC2, CHR 0xB7]"

definition finish_note :: "nat \<Rightarrow> string option \<Rightarrow> string" where
  "finish_note answer_chars last_tool =
     truncate_text
       (''answer: '' @ dec answer_chars @ '' chars '' @ middle_dot @ '' ''
        @ (case last_tool of
             Some name \<Rightarrow> if \<not> blank name then ''last tool call: '' @ name else ''last tool call: none''
           | None \<Rightarrow> ''last tool call: none''))
       FINISH_NOTE_CHARS"

section \<open>The calendar\<close>

text \<open>\<open>c_known ms\<close>: the instant is representable; \<open>c_date\<close>, \<open>c_time\<close>: its local date and time of day in
  the task's zone; \<open>c_earliest\<close>: the earliest instant of a local date and time, none in a gap;
  \<open>c_minutes\<close>: \<open>Duration::minutes\<close> in milliseconds, none where it panics.\<close>

record calendar =
  c_known :: "int \<Rightarrow> bool"
  c_date :: "int \<Rightarrow> int"
  c_time :: "int \<Rightarrow> nat"
  c_earliest :: "int \<Rightarrow> nat \<Rightarrow> int option"
  c_weekday :: "int \<Rightarrow> nat"
  c_year :: "int \<Rightarrow> int"
  c_month :: "int \<Rightarrow> nat"
  c_day :: "int \<Rightarrow> nat"
  c_from_ymd :: "int \<Rightarrow> nat \<Rightarrow> nat \<Rightarrow> int option"
  c_parse_date :: "string \<Rightarrow> int option"
  c_parse_time :: "string \<Rightarrow> nat option"
  c_minutes :: "int \<Rightarrow> int option"

datatype schedule_mode =
    Once string string
  | Interval int int
  | Daily string
  | Weekly "string list" string
  | Monthly int string
  | Yearly u32 int string

definition weekday_num :: "string \<Rightarrow> nat option" where
  "weekday_num day =
     map_of [(''mon'', 0), (''tue'', 1), (''wed'', 2), (''thu'', 3), (''fri'', 4), (''sat'', 5), (''sun'', 6)]
       (ascii_lower day)"

definition add_months :: "int \<Rightarrow> nat \<Rightarrow> int \<Rightarrow> int \<times> nat" where
  "add_months year month delta =
     (let total = year * 12 + int month - 1 + delta in (total div 12, nat (total mod 12 + 1)))"

text \<open>The day before the first of the next month; \<open>None\<close>: the panic on an unrepresentable date.\<close>

definition days_in_month :: "calendar \<Rightarrow> int \<Rightarrow> nat \<Rightarrow> nat option" where
  "days_in_month cal year month =
     (let (y, m) = (if month = 12 then (year + 1, 1) else (year, month + 1)) in
      map_option (\<lambda>first. c_day cal (first - 1)) (c_from_ymd cal y m 1))"

definition as_u32 :: "int \<Rightarrow> nat" where
  "as_u32 z = nat (z mod 2 ^ 32)"

definition MAX_GAP_DAYS :: nat where "MAX_GAP_DAYS = 8"

text \<open>\<open>local_slot\<close>: the date itself or one of the following \<open>n\<close>.\<close>

fun local_slot :: "calendar \<Rightarrow> nat \<Rightarrow> int \<Rightarrow> nat \<Rightarrow> int option" where
  "local_slot cal n date tm =
     (case c_earliest cal date tm of
        Some i \<Rightarrow> Some i
      | None \<Rightarrow> (case n of 0 \<Rightarrow> None | Suc m \<Rightarrow> local_slot cal m (date + 1) tm))"

declare local_slot.simps [simp del]

definition next_calendar_time :: "calendar \<Rightarrow> int \<Rightarrow> nat \<Rightarrow> int option" where
  "next_calendar_time cal after tm =
     (let days = (if c_time cal after \<ge> tm then 1 else 0)
      in local_slot cal MAX_GAP_DAYS (c_date cal after + days) tm)"

section \<open>The next slot\<close>

text \<open>A candidate is \<open>None\<close> where the code panics, else perhaps an instant.\<close>

definition day_ms :: int where "day_ms = 86400000"

definition weekly_candidate :: "calendar \<Rightarrow> int \<Rightarrow> nat list \<Rightarrow> nat \<Rightarrow> int \<Rightarrow> int option option" where
  "weekly_candidate cal after day_nums tm delta =
     (if \<not> c_known cal after then Some None
      else if \<not> c_known cal (after + delta * day_ms) then None
      else (let date = c_date cal (after + delta * day_ms) in
            Some (if c_weekday cal date \<in> set day_nums then c_earliest cal date tm else None)))"

text \<open>The day clamped to the month's length, then cast to \<open>u32\<close>.\<close>

definition clamped_date :: "calendar \<Rightarrow> int \<Rightarrow> nat \<Rightarrow> int \<Rightarrow> nat \<Rightarrow> int option option" where
  "clamped_date cal y m day tm =
     (case days_in_month cal y m of
        None \<Rightarrow> None
      | Some n \<Rightarrow>
          Some (case c_from_ymd cal y m (as_u32 (min day (int n))) of
                  None \<Rightarrow> None | Some date \<Rightarrow> c_earliest cal date tm))"

definition monthly_candidate :: "calendar \<Rightarrow> int \<Rightarrow> int \<Rightarrow> nat \<Rightarrow> int \<Rightarrow> int option option" where
  "monthly_candidate cal after day tm delta =
     (if \<not> c_known cal after then Some None
      else (let d = c_date cal after; (y, m) = add_months (c_year cal d) (c_month cal d) delta
            in clamped_date cal y m day tm))"

definition yearly_candidate :: "calendar \<Rightarrow> int \<Rightarrow> u32 \<Rightarrow> int \<Rightarrow> nat \<Rightarrow> int \<Rightarrow> int option option" where
  "yearly_candidate cal after month day tm delta =
     (if \<not> (1 \<le> month \<and> month \<le> 12) \<or> day < 1 then Some None
      else if \<not> c_known cal after then Some None
      else clamped_date cal (c_year cal (c_date cal after) + delta) month day tm)"

text \<open>The first of the candidates for \<open>delta = 0, \<dots>, n\<close> after the instant.\<close>

definition first_after :: "int \<Rightarrow> int option option list \<Rightarrow> int option option" where
  "first_after after cands =
     (if None \<in> set cands then None
      else (let later = filter (\<lambda>c. c > after) (List.map_filter (\<lambda>c. case c of Some x \<Rightarrow> x | None \<Rightarrow> None) cands)
            in Some (if later = [] then None else Some (Min (set later)))))"

definition later_only :: "int \<Rightarrow> int option \<Rightarrow> int option" where
  "later_only after due = (case due of Some d \<Rightarrow> if d > after then Some d else None | None \<Rightarrow> None)"

text \<open>Signed 64-bit arithmetic wraps, as in a release build.\<close>

definition as_i64 :: "int \<Rightarrow> int" where
  "as_i64 z = (z + 2 ^ 63) mod 2 ^ 64 - 2 ^ 63"

definition next_interval :: "int \<Rightarrow> int \<Rightarrow> int \<Rightarrow> int" where
  "next_interval step anchor0 after =
     (let anchor = (if anchor0 > 0 then anchor0 else after) in
      if anchor \<le> after then as_i64 (anchor + ((after - anchor) div step + 1) * step) else anchor)"

definition next_due_for_mode :: "calendar \<Rightarrow> schedule_mode \<Rightarrow> int \<Rightarrow> int option option" where
  "next_due_for_mode cal mode after =
     (if \<not> c_known cal after then Some None
      else (case mode of
         Once date tm \<Rightarrow>
           Some (case c_parse_date cal date of
                   None \<Rightarrow> None
                 | Some d \<Rightarrow>
                     (case c_parse_time cal tm of
                        None \<Rightarrow> None | Some t \<Rightarrow> later_only after (c_earliest cal d t)))
       | Interval every_minutes anchor \<Rightarrow>
           (case c_minutes cal every_minutes of
              None \<Rightarrow> None | Some ms \<Rightarrow> Some (Some (next_interval (max ms 60000) anchor after)))
       | Daily tm \<Rightarrow>
           Some (case c_parse_time cal tm of
                   None \<Rightarrow> None | Some t \<Rightarrow> later_only after (next_calendar_time cal after t))
       | Weekly days tm \<Rightarrow>
           (case c_parse_time cal tm of
              None \<Rightarrow> Some None
            | Some t \<Rightarrow>
                (let day_nums = List.map_filter weekday_num days in
                 if day_nums = [] then Some None
                 else first_after after (map (weekly_candidate cal after day_nums t) [0..7])))
       | Monthly day tm \<Rightarrow>
           (case c_parse_time cal tm of
              None \<Rightarrow> Some None
            | Some t \<Rightarrow> first_after after (map (monthly_candidate cal after day t) [0..12]))
       | Yearly month day tm \<Rightarrow>
           (case c_parse_time cal tm of
              None \<Rightarrow> Some None
            | Some t \<Rightarrow> first_after after (map (yearly_candidate cal after month day t) [0..2]))))"

text \<open>\<open>read\<close> parses the stored trigger, \<open>zone\<close> is the calendar of the task's zone.\<close>

definition next_due ::
  "(string \<Rightarrow> schedule_mode option) \<Rightarrow> (task \<Rightarrow> calendar) \<Rightarrow> task \<Rightarrow> int \<Rightarrow> int option option" where
  "next_due read zone k after =
     (if \<not> k_enabled k \<or> k_deleted_at k \<noteq> None then Some None
      else (case k_trigger_kind k of
              TriggerManual \<Rightarrow> Some None
            | TriggerSchedule \<Rightarrow>
                (case read (k_trigger_json k) of
                   None \<Rightarrow> Some None | Some mode \<Rightarrow> next_due_for_mode (zone k) mode after)))"

section \<open>Time zones\<close>

text \<open>\<open>parse\<close> is the zone database: exact names first, then names in any case. The zone of a task is its
  stored one, the host's, or the fallback.\<close>

definition FALLBACK_TIMEZONE :: string where "FALLBACK_TIMEZONE = ''Asia/Shanghai''"

definition parse_timezone :: "(string \<Rightarrow> 'z option) \<Rightarrow> (string \<Rightarrow> 'z option) \<Rightarrow> string \<Rightarrow> 'z option" where
  "parse_timezone exact insensitive name =
     (let n = trim name in
      if n = [] then None else (case exact n of Some z \<Rightarrow> Some z | None \<Rightarrow> insensitive n))"

definition default_timezone :: "(string \<Rightarrow> 'z option) \<Rightarrow> string option \<Rightarrow> 'z \<Rightarrow> 'z" where
  "default_timezone parse host fallback =
     (case Option.bind host parse of Some z \<Rightarrow> z | None \<Rightarrow> fallback)"

definition task_timezone :: "(string \<Rightarrow> 'z option) \<Rightarrow> string option \<Rightarrow> 'z \<Rightarrow> task \<Rightarrow> 'z" where
  "task_timezone parse host fallback k =
     (case Option.bind (k_timezone k) parse of
        Some z \<Rightarrow> z | None \<Rightarrow> default_timezone parse host fallback)"

definition resolve_timezone ::
  "(string \<Rightarrow> 'z option) \<Rightarrow> string option \<Rightarrow> 'z \<Rightarrow> ('z \<Rightarrow> string) \<Rightarrow> string option \<Rightarrow> string" where
  "resolve_timezone parse host fallback name raw =
     name (case Option.bind raw parse of
             Some z \<Rightarrow> z | None \<Rightarrow> default_timezone parse host fallback)"

section \<open>Conversations and prompt versions\<close>

definition deletes_run_conversation :: "task \<Rightarrow> bool" where
  "deletes_run_conversation k \<longleftrightarrow>
     k_session_retention k = DeleteConversation \<and> k_session_policy k = PolicyNew"

text \<open>\<open>id1\<close>, \<open>id2\<close>: the ids the two calls of \<open>new_revision_id\<close> return.\<close>

definition prompt_change_revisions ::
  "task \<Rightarrow> prompt_revision list \<Rightarrow> string \<Rightarrow> string \<Rightarrow> string option \<Rightarrow> int \<Rightarrow> string \<Rightarrow> string
     \<Rightarrow> prompt_revision list" where
  "prompt_change_revisions k history new_prompt source reason at id1 id2 =
     (if new_prompt = k_prompt k then []
      else (let recorded =
              list_ex (\<lambda>r. p_version r = k_prompt_version k \<and> p_status r \<noteq> LEGACY_PROPOSED_STATUS) history
            in (if \<not> recorded
                then [\<lparr>p_id = id1, p_task_id = k_id k, p_version = k_prompt_version k,
                       p_prompt = k_prompt k, p_source = REVISION_SOURCE_SUPERSEDED,
                       p_status = REVISION_STATUS_SUPERSEDED, p_reason = None, p_confidence = None,
                       p_source_run_id = None, p_created_at = at\<rparr>]
                else [])
               @ [\<lparr>p_id = id2, p_task_id = k_id k, p_version = k_prompt_version k + 1,
                   p_prompt = new_prompt, p_source = source, p_status = REVISION_STATUS_ACTIVE,
                   p_reason = reason, p_confidence = None, p_source_run_id = None,
                   p_created_at = at\<rparr>]))"

section \<open>The prompt of a run\<close>

fun run_kind_label :: "run_kind \<Rightarrow> string" where
  "run_kind_label RunMain = ''main''"
| "run_kind_label RunManual = ''manual''"
| "run_kind_label RunChain = ''chain''"

definition trigger_label :: "task \<Rightarrow> string" where
  "trigger_label k =
     (case k_trigger_kind k of TriggerManual \<Rightarrow> ''manual'' | TriggerSchedule \<Rightarrow> k_trigger_json k)"

definition run_settings_line :: "string \<Rightarrow> task \<Rightarrow> string" where
  "run_settings_line zone_name k =
     join '' | ''
       ((if \<not> blank (k_cwd k) then [''cwd='' @ trim (k_cwd k)] else [])
        @ [''timezone='' @ zone_name,
           ''conversation='' @ (case k_conversation_mode k of ChatMode \<Rightarrow> ''chat'' | WorkspaceMode \<Rightarrow> ''workspace''),
           (case k_session_policy k of
              PolicyNew \<Rightarrow> ''session=new (fresh conversation per run)''
            | PolicyExisting \<Rightarrow>
                ''session=existing (one conversation kept across runs, appended with no pre-run compaction)''),
           ''model='' @ (case k_model_id k of None \<Rightarrow> ''(app default)'' | Some m \<Rightarrow> m),
           ''thinking='' @ (case k_thinking_level k of None \<Rightarrow> ''(app default)'' | Some m \<Rightarrow> m)])"

text \<open>\<open>stamp\<close> prints an instant in the task's zone, empty when it is unrepresentable.\<close>

definition compose_envelope_header ::
  "(int \<Rightarrow> string) \<Rightarrow> string \<Rightarrow> task \<Rightarrow> run_kind \<Rightarrow> int option \<Rightarrow> int option \<Rightarrow> string" where
  "compose_envelope_header stamp zone_name k kind due occurrence =
     box_dash @ '' '' @ TASK_ENVELOPE_SCHEMA_VERSION @ '' '' @ box_dash @ newline
     @ ''task: '' @ k_name k @ '' | id: '' @ k_id k @ '' | prompt-version: '' @ dec_int (k_prompt_version k)
     @ newline
     @ ''run: kind='' @ run_kind_label kind
     @ (case due of
          None \<Rightarrow> [] | Some d \<Rightarrow> if stamp d \<noteq> [] then '' | due='' @ stamp d else [])
     @ (case occurrence of None \<Rightarrow> [] | Some n \<Rightarrow> '' | occurrence='' @ dec_int n)
     @ newline
     @ ''trigger: '' @ trigger_label k @ newline
     @ ''run settings: '' @ run_settings_line zone_name k @ newline
     @ newline"

definition INSTRUCTION_BANNER :: string where
  "INSTRUCTION_BANNER = ''Instruction:'' @ newline"

definition COMPLETION_CONTRACT :: string where
  "COMPLETION_CONTRACT =
     newline @ newline @ ''Completion contract:'' @ newline
     @ ''- This run is unattended: nobody answers mid-run. Make a reasonable choice, record it, and carry on ''
     @ em_dash @ '' do not end by asking a question.'' @ newline
     @ ''- Close with a short report: it becomes this run'' @ [CHR 0x27]
     @ ''s summary. State what you did, the artifacts and paths, what is new versus earlier runs, and what is still uncertain.''
     @ newline"

definition compose_run_prompt ::
  "(int \<Rightarrow> string) \<Rightarrow> string \<Rightarrow> task \<Rightarrow> run_kind \<Rightarrow> int option \<Rightarrow> int option \<Rightarrow> int \<Rightarrow> string" where
  "compose_run_prompt stamp zone_name k kind due occurrence started_at =
     compose_envelope_header stamp zone_name k kind
       (case due of Some d \<Rightarrow> Some d | None \<Rightarrow> Some started_at) occurrence
     @ INSTRUCTION_BANNER @ k_prompt k @ COMPLETION_CONTRACT"

section \<open>Every slot lies in the future\<close>

lemma first_after_SomeD:
  assumes "first_after after cands = Some (Some d)"
  shows "after < d \<and> Some (Some d) \<in> set cands
    \<and> (\<forall>c. Some (Some c) \<in> set cands \<and> after < c \<longrightarrow> d \<le> c)"
proof -
  define later where "later = filter (\<lambda>c. c > after)
    (List.map_filter (\<lambda>c. case c of Some x \<Rightarrow> x | None \<Rightarrow> None) cands)"
  have mem: "c \<in> set later \<longleftrightarrow> Some (Some c) \<in> set cands \<and> after < c" for c
    by (force simp: later_def List.map_filter_def split: option.splits)
  from assms have later: "later \<noteq> []" "d = Min (set later)"
    by (auto simp: first_after_def Let_def later_def [symmetric] split: if_splits)
  then have "d \<in> set later" by simp
  moreover have "d \<le> c" if "c \<in> set later" for c using that later by simp
  ultimately show ?thesis using mem by blast
qed

lemma first_after_None:
  assumes "first_after after cands = Some None"
  shows "None \<notin> set cands \<and> (\<forall>c. Some (Some c) \<in> set cands \<longrightarrow> c \<le> after)"
  using assms
  by (force simp: first_after_def Let_def List.map_filter_def filter_empty_conv
      split: if_splits option.splits)

lemma later_only_Some [simp]: "later_only after due = Some d \<longleftrightarrow> due = Some d \<and> after < d"
  by (auto simp: later_only_def split: option.splits)

lemma as_i64_id: "- (2 ^ 63) \<le> z \<Longrightarrow> z < 2 ^ 63 \<Longrightarrow> as_i64 z = z"
  by (simp add: as_i64_def mod_pos_pos_trivial)

text \<open>The next point of the grid of an interval.\<close>

lemma next_interval_exact:
  assumes "0 < step" "- (2 ^ 63) \<le> after" "after + step < 2 ^ 63"
  shows "after < next_interval step anchor after
    \<and> (anchor \<le> 0 \<longrightarrow> next_interval step anchor after = after + step)
    \<and> (0 < anchor \<longrightarrow> (\<exists>n\<ge>0. next_interval step anchor after = anchor + n * step
          \<and> (n = 0 \<or> next_interval step anchor after - step \<le> after)))"
proof -
  define a where "a = (if anchor > 0 then anchor else after)"
  define q where "q = (after - a) div step"
  have split: "after - a = q * step + (after - a) mod step"
    unfolding q_def by (rule div_mult_mod_eq [symmetric])
  have "0 \<le> (after - a) mod step" "(after - a) mod step < step"
    using assms(1) by simp_all
  with split have q: "q * step \<le> after - a" "after - a < (q + 1) * step"
    by (simp_all add: algebra_simps)
  show ?thesis
  proof (cases "a \<le> after")
    case True
    then have q0: "0 \<le> q" using assms(1) by (simp add: q_def pos_imp_zdiv_nonneg_iff)
    have upper: "a + (q + 1) * step \<le> after + step" using q(1) by (simp add: algebra_simps)
    have lower: "after < a + (q + 1) * step" using q(2) by simp
    have "next_interval step anchor after = as_i64 (a + (q + 1) * step)"
      using True by (simp add: next_interval_def a_def [symmetric] q_def)
    also have "\<dots> = a + (q + 1) * step"
      using upper lower assms by (intro as_i64_id) linarith+
    finally have val: "next_interval step anchor after = a + (q + 1) * step" .
    have "anchor \<le> 0 \<Longrightarrow> q = 0" by (simp add: q_def a_def)
    then show ?thesis
      using val upper lower q0 by (auto simp: a_def intro!: exI [of _ "q + 1"])
  next
    case False
    then have "a = anchor" "0 < anchor" by (auto simp: a_def split: if_splits)
    with False show ?thesis
      by (auto simp: next_interval_def intro!: exI [of _ 0])
  qed
qed

definition interval_fits :: "calendar \<Rightarrow> schedule_mode \<Rightarrow> int \<Rightarrow> bool" where
  "interval_fits cal mode after \<longleftrightarrow>
     (case mode of
        Interval every _ \<Rightarrow>
          - (2 ^ 63) \<le> after
          \<and> (case c_minutes cal every of None \<Rightarrow> True | Some ms \<Rightarrow> after + max ms 60000 < 2 ^ 63)
      | _ \<Rightarrow> True)"

lemma mode_strictly_later:
  assumes "next_due_for_mode cal mode after = Some (Some d)" "interval_fits cal mode after"
  shows "after < d"
proof (cases mode)
  case (Once date tm)
  with assms show ?thesis
    by (auto simp: next_due_for_mode_def split: if_splits option.splits)
next
  case (Interval every anchor)
  with assms obtain ms where "c_minutes cal every = Some ms"
      and d: "d = next_interval (max ms 60000) anchor after"
    by (auto simp: next_due_for_mode_def split: if_splits option.splits)
  with assms Interval have "after + max ms 60000 < 2 ^ 63" "- (2 ^ 63) \<le> after"
    by (auto simp: interval_fits_def)
  with next_interval_exact [of "max ms 60000" after anchor] show ?thesis
    unfolding d by simp
next
  case (Daily tm)
  with assms show ?thesis
    by (auto simp: next_due_for_mode_def split: if_splits option.splits)
next
  case (Weekly days tm)
  with assms show ?thesis
    by (auto simp: next_due_for_mode_def Let_def split: if_splits option.splits dest: first_after_SomeD)
next
  case (Monthly day tm)
  with assms show ?thesis
    by (auto simp: next_due_for_mode_def split: if_splits option.splits dest: first_after_SomeD)
next
  case (Yearly month day tm)
  with assms show ?thesis
    by (auto simp: next_due_for_mode_def split: if_splits option.splits dest: first_after_SomeD)
qed

text \<open>A calendar without daylight saving: days of 24 hours from the epoch on, a fixed weekday cycle.\<close>

definition hour_ms :: int where "hour_ms = 3600000"

definition demo_times :: "string \<Rightarrow> nat option" where
  "demo_times = map_of [(''12:00'', 43200000), (''01:30'', 5400000)]"

text \<open>A zone whose offset changes from \<open>o1\<close> to \<open>o2\<close> at the instant \<open>x\<close>; dates have no months here.\<close>

definition two_offsets :: "int \<Rightarrow> int \<Rightarrow> int \<Rightarrow> calendar" where
  "two_offsets x o1 o2 =
     (let local = (\<lambda>i. i + (if i < x then o1 else o2)) in
      \<lparr>c_known = (\<lambda>_. True),
       c_date = (\<lambda>i. local i div day_ms),
       c_time = (\<lambda>i. nat (local i mod day_ms)),
       c_earliest = (\<lambda>d t. let l = d * day_ms + int t in
          if int t \<ge> day_ms then None
          else if l - o1 < x then Some (l - o1) else if l - o2 \<ge> x then Some (l - o2) else None),
       c_weekday = (\<lambda>d. nat ((d + 3) mod 7)),
       c_year = (\<lambda>_. 1970), c_month = (\<lambda>_. 1), c_day = (\<lambda>d. nat (d + 1)),
       c_from_ymd = (\<lambda>_ _ _. None), c_parse_date = (\<lambda>_. None), c_parse_time = demo_times,
       c_minutes = (\<lambda>n. if \<bar>n\<bar> < 100000000000000 then Some (n * 60000) else None)\<rparr>)"

definition demo_scheduled :: "string \<Rightarrow> task" where
  "demo_scheduled trigger =
     \<lparr>k_id = ''tsk_1'', k_name = ''n'', k_enabled = True, k_prompt = ''p'', k_prompt_version = 1,
      k_cwd = [], k_model_id = None, k_thinking_level = None, k_timezone = None,
      k_session_policy = PolicyNew, k_conversation_mode = ChatMode, k_thread_id = None,
      k_trigger_kind = TriggerSchedule, k_trigger_json = trigger, k_next_due_at = None,
      k_pending_request_at = None, k_pending_origin = None, k_pending_actor = None,
      k_session_retention = KeepConversation, k_created_at = 0, k_updated_at = 0, k_deleted_at = None\<rparr>"

text \<open>A slot is always in the future: whatever the schedule, the zone and the time it is computed at, the
  next slot is strictly later, for an interval as long as it fits 64 bits; a disabled, deleted, manual or
  unreadable task has none.\<close>

theorem next_due_strictly_later:
  assumes "next_due read zone k after = Some (Some d)"
    and "\<forall>mode. read (k_trigger_json k) = Some mode \<longrightarrow> interval_fits (zone k) mode after"
  shows "after < d \<and> k_enabled k \<and> k_deleted_at k = None \<and> k_trigger_kind k = TriggerSchedule
    \<and> (\<exists>mode. read (k_trigger_json k) = Some mode)"
  using assms mode_strictly_later
  by (auto simp: next_due_def split: if_splits trigger_kind.splits option.splits)

lemma next_due_strictly_later_witness:
  "next_due (\<lambda>s. if s = ''i'' then Some (Interval 5 1000) else None) (\<lambda>_. two_offsets 0 0 0) (demo_scheduled ''i'') 400000
     = Some (Some 601000)
   \<and> 400000 < (601000 :: int)"
proof -
  let ?read = "\<lambda>s. if s = ''i'' then Some (Interval 5 1000) else None"
  have val: "next_due ?read (\<lambda>_. two_offsets 0 0 0) (demo_scheduled ''i'') 400000 = Some (Some 601000)"
    by (simp add: next_due_def demo_scheduled_def next_due_for_mode_def two_offsets_def Let_def
        next_interval_def as_i64_def)
  have "400000 < (601000 :: int) \<and> k_enabled (demo_scheduled ''i'')"
    using next_due_strictly_later [OF val]
    by (simp add: demo_scheduled_def interval_fits_def two_offsets_def Let_def)
  with val show ?thesis by simp
qed

text \<open>An interval schedule never drifts: with a start in the past or the future the slot is a point of the
  grid of whole steps from that start, and the first one after the given time; without a start it is one
  step from then. A step is at least a minute.\<close>

theorem interval_slot_on_grid:
  assumes "c_known cal after" "c_minutes cal every = Some ms"
    and "- (2 ^ 63) \<le> after" "after + max ms 60000 < 2 ^ 63"
  shows "\<exists>d. next_due_for_mode cal (Interval every anchor) after = Some (Some d) \<and> after < d
    \<and> (anchor \<le> 0 \<longrightarrow> d = after + max ms 60000)
    \<and> (0 < anchor \<longrightarrow> (\<exists>n\<ge>0. d = anchor + n * max ms 60000 \<and> (n = 0 \<or> d - max ms 60000 \<le> after)))"
  using assms next_interval_exact [of "max ms 60000" after anchor]
  by (simp add: next_due_for_mode_def)

lemma interval_slot_on_grid_witness:
  "\<exists>d. next_due_for_mode (two_offsets 0 0 0) (Interval 5 1000) 400000 = Some (Some d) \<and> 400000 < d"
  using interval_slot_on_grid [of "two_offsets 0 0 0" 400000 5 300000 1000]
  by (auto simp: two_offsets_def Let_def)

section \<open>Daily and weekly slots\<close>

text \<open>A zone whose clock is never set back: local date and time of day grow with the instant, and the
  earliest instant of a local date and time is the instant that shows them. Gaps are allowed.\<close>

definition clock_before :: "calendar \<Rightarrow> int \<Rightarrow> int \<Rightarrow> bool" where
  "clock_before cal i j \<longleftrightarrow>
     c_date cal i < c_date cal j \<or> c_date cal i = c_date cal j \<and> c_time cal i < c_time cal j"

definition never_set_back :: "calendar \<Rightarrow> bool" where
  "never_set_back cal \<longleftrightarrow>
     (\<forall>i. c_known cal i)
     \<and> (\<forall>i j. i < j \<longrightarrow> clock_before cal i j)
     \<and> (\<forall>date tm i. c_earliest cal date tm = Some i \<longleftrightarrow> c_date cal i = date \<and> c_time cal i = tm)"

lemma never_set_backD:
  assumes "never_set_back cal"
  shows "c_known cal i" "i < j \<longleftrightarrow> clock_before cal i j"
    "c_earliest cal date tm = Some i \<longleftrightarrow> c_date cal i = date \<and> c_time cal i = tm"
proof -
  show "c_known cal i" "c_earliest cal date tm = Some i \<longleftrightarrow> c_date cal i = date \<and> c_time cal i = tm"
    using assms by (simp_all add: never_set_back_def)
  have "i < j \<Longrightarrow> clock_before cal i j" "j < i \<Longrightarrow> clock_before cal j i"
    using assms by (simp_all add: never_set_back_def)
  then show "i < j \<longleftrightarrow> clock_before cal i j"
    by (cases i j rule: linorder_cases) (auto simp: clock_before_def)
qed

lemma local_slot_first:
  "(\<exists>m\<le>n. c_earliest cal (date + int m) tm \<noteq> None) \<Longrightarrow>
   \<exists>m\<le>n. local_slot cal n date tm = c_earliest cal (date + int m) tm
     \<and> c_earliest cal (date + int m) tm \<noteq> None
     \<and> (\<forall>l<m. c_earliest cal (date + int l) tm = None)"
proof (induction n arbitrary: date)
  case 0
  then show ?case by (auto simp: local_slot.simps split: option.split)
next
  case (Suc n)
  show ?case
  proof (cases "c_earliest cal date tm")
    case (Some i)
    then show ?thesis by (intro exI [of _ 0]) (simp add: local_slot.simps)
  next
    case None
    from Suc.prems obtain m where m: "m \<le> Suc n" "c_earliest cal (date + int m) tm \<noteq> None" by blast
    with None obtain m' where "m = Suc m'" by (cases m) auto
    with m have "\<exists>m\<le>n. c_earliest cal (date + 1 + int m) tm \<noteq> None"
      by (intro exI [of _ m']) (simp add: algebra_simps)
    from Suc.IH [OF this] obtain k where k: "k \<le> n"
        "local_slot cal n (date + 1) tm = c_earliest cal (date + 1 + int k) tm"
        "c_earliest cal (date + 1 + int k) tm \<noteq> None"
        "\<forall>l<k. c_earliest cal (date + 1 + int l) tm = None" by blast
    have "c_earliest cal (date + int l) tm = None" if "l < Suc k" for l
    proof (cases l)
      case 0
      then show ?thesis using None by simp
    next
      case (Suc l')
      then show ?thesis using that k(4) by (simp add: algebra_simps)
    qed
    then show ?thesis
      using None k by (intro exI [of _ "Suc k"]) (simp add: local_slot.simps algebra_simps)
  qed
qed

definition first_day :: "calendar \<Rightarrow> int \<Rightarrow> nat \<Rightarrow> int" where
  "first_day cal after tm = c_date cal after + (if c_time cal after \<ge> tm then 1 else 0)"

lemma first_day_le:
  assumes "never_set_back cal" "after < j" "c_time cal j = tm"
  shows "first_day cal after tm \<le> c_date cal j"
  using assms never_set_backD(2) [OF assms(1), of after j]
  by (auto simp: first_day_def clock_before_def)

lemma first_day_later:
  assumes "never_set_back cal" "first_day cal after tm \<le> c_date cal j" "c_time cal j = tm"
  shows "after < j"
  using assms never_set_backD(2) [OF assms(1), of after j]
  by (auto simp: first_day_def clock_before_def split: if_splits)

text \<open>A daily task fires at every occurrence of its time: in a zone whose clock is never set back, and where the
  time exists on one of the nine days from its next occurrence on, the next slot exists and is the earliest
  later instant at which the clock shows that time; a day without it is skipped, not the schedule.\<close>

theorem daily_slot_exact:
  assumes "never_set_back cal" "c_parse_time cal text = Some tm"
    and "\<exists>m\<le>MAX_GAP_DAYS. c_earliest cal (first_day cal after tm + int m) tm \<noteq> None"
  shows "\<exists>d. next_due_for_mode cal (Daily text) after = Some (Some d) \<and> after < d \<and> c_time cal d = tm
    \<and> (\<forall>j. after < j \<and> c_time cal j = tm \<longrightarrow> d \<le> j)"
proof -
  let ?s = "first_day cal after tm"
  obtain m where m: "local_slot cal MAX_GAP_DAYS ?s tm = c_earliest cal (?s + int m) tm"
      "c_earliest cal (?s + int m) tm \<noteq> None"
      "\<forall>l<m. c_earliest cal (?s + int l) tm = None"
    using local_slot_first [OF assms(3)] by blast
  then obtain d where d: "c_earliest cal (?s + int m) tm = Some d" by blast
  note clock = never_set_backD [OF assms(1)]
  from d have at: "c_date cal d = ?s + int m" "c_time cal d = tm" by (simp_all add: clock(3))
  then have later: "after < d" by (intro first_day_later [OF assms(1)]) simp_all
  have "d \<le> j" if j: "after < j" "c_time cal j = tm" for j
  proof (rule ccontr)
    assume "\<not> d \<le> j"
    then have "clock_before cal j d" using clock(2) [of j d] by simp
    then have "c_date cal j < ?s + int m" using at j(2) by (simp add: clock_before_def)
    moreover have "?s \<le> c_date cal j" using j by (rule first_day_le [OF assms(1)])
    ultimately obtain l where l: "l < m" "c_date cal j = ?s + int l"
      using that [of "nat (c_date cal j - ?s)"] by (metis add.commute add_less_cancel_left
        diff_add_cancel int_nat_eq of_nat_less_iff zle_iff_zadd)
    then have "c_earliest cal (?s + int l) tm = Some j" using j(2) by (simp add: clock(3))
    with m(3) l(1) show False by simp
  qed
  moreover have "next_due_for_mode cal (Daily text) after = Some (Some d)"
    using assms(2) m(1) d later
    by (simp add: next_due_for_mode_def next_calendar_time_def first_day_def clock(1) Let_def)
  ultimately show ?thesis using at(2) later by blast
qed

text \<open>For a weekly schedule also: the next seven days have 24 hours each, the time exists on all of them, and
  one of the schedule's weekdays is among them.\<close>

definition plain_week :: "calendar \<Rightarrow> nat list \<Rightarrow> int \<Rightarrow> nat \<Rightarrow> bool" where
  "plain_week cal day_nums after tm \<longleftrightarrow>
     (\<forall>k\<in>{0..7}. c_date cal (after + k * day_ms) = c_date cal after + k
        \<and> c_earliest cal (c_date cal after + k) tm \<noteq> None)
     \<and> (\<exists>k\<in>{1..7}. c_weekday cal (c_date cal after + k) \<in> set day_nums)"

lemma week_candidates:
  assumes "never_set_back cal" "plain_week cal ds after tm"
  defines "cands \<equiv> map (weekly_candidate cal after ds tm) [0..7]"
  shows "None \<notin> set cands"
    and "Some (Some i) \<in> set cands \<longleftrightarrow>
      c_date cal i - c_date cal after \<in> {0..7} \<and> c_time cal i = tm \<and> c_weekday cal (c_date cal i) \<in> set ds"
proof -
  define cand where "cand = weekly_candidate cal after ds tm"
  note clock = never_set_backD(1,3) [OF assms(1)]
  have cand: "cand k = Some (if c_weekday cal (c_date cal after + k) \<in> set ds
      then c_earliest cal (c_date cal after + k) tm else None)" if "k \<in> {0..7}" for k
    using assms(2) that by (simp add: cand_def weekly_candidate_def clock Let_def plain_week_def)
  have cands: "set cands = cand ` {0..7}"
    by (simp only: cands_def cand_def set_map set_upto)
  show "None \<notin> set cands" unfolding cands by (auto simp: cand)
  show "Some (Some i) \<in> set cands \<longleftrightarrow>
      c_date cal i - c_date cal after \<in> {0..7} \<and> c_time cal i = tm \<and> c_weekday cal (c_date cal i) \<in> set ds"
  proof
    assume "Some (Some i) \<in> set cands"
    then obtain k where "k \<in> {0..7}" "cand k = Some (Some i)" unfolding cands by auto
    then show "c_date cal i - c_date cal after \<in> {0..7} \<and> c_time cal i = tm \<and> c_weekday cal (c_date cal i) \<in> set ds"
      by (auto simp: cand clock split: if_splits)
  next
    assume i: "c_date cal i - c_date cal after \<in> {0..7} \<and> c_time cal i = tm \<and> c_weekday cal (c_date cal i) \<in> set ds"
    then have "cand (c_date cal i - c_date cal after) = Some (Some i)" by (simp add: cand clock)
    then show "Some (Some i) \<in> set cands"
      unfolding cands using i by (intro image_eqI [of _ _ "c_date cal i - c_date cal after"]) simp_all
  qed
qed

lemma first_after_found:
  assumes "None \<notin> set cands" "Some (Some i) \<in> set cands" "after < i"
  obtains d where "first_after after cands = Some (Some d)"
proof -
  have "first_after after cands \<noteq> None" using assms(1) by (simp add: first_after_def Let_def)
  moreover have "first_after after cands \<noteq> Some None" using first_after_None [of after cands] assms by fastforce
  ultimately show thesis using that by auto
qed

text \<open>A weekly task fires on the right day: in a week without a change of the clock the next slot is the
  earliest later instant that falls on one of its weekdays at its time.\<close>

theorem weekly_slot_exact:
  assumes "never_set_back cal" "c_parse_time cal text = Some tm"
    and "plain_week cal (List.map_filter weekday_num days) after tm"
  shows "\<exists>d. next_due_for_mode cal (Weekly days text) after = Some (Some d) \<and> after < d
    \<and> c_time cal d = tm \<and> c_weekday cal (c_date cal d) \<in> set (List.map_filter weekday_num days)
    \<and> (\<forall>j. after < j \<and> c_time cal j = tm
          \<and> c_weekday cal (c_date cal j) \<in> set (List.map_filter weekday_num days) \<longrightarrow> d \<le> j)"
proof -
  define ds where "ds = List.map_filter weekday_num days"
  define cands where "cands = map (weekly_candidate cal after ds tm) [0..7]"
  note clock = never_set_backD [OF assms(1)]
  note week = week_candidates [OF assms(1) assms(3) [folded ds_def], folded cands_def]
  from assms(3) obtain k where k: "k \<in> {1..7}" "c_weekday cal (c_date cal after + k) \<in> set ds"
    by (auto simp: plain_week_def ds_def)
  with assms(3) obtain i where i: "c_earliest cal (c_date cal after + k) tm = Some i"
    by (fastforce simp: plain_week_def)
  with k have "Some (Some i) \<in> set cands" by (simp only: week(2)) (simp add: clock(3))
  moreover have "after < i" using i k(1) clock(2) [of after i] by (simp add: clock(3) clock_before_def)
  ultimately obtain d where first: "first_after after cands = Some (Some d)"
    using first_after_found [OF week(1)] by blast
  from first_after_SomeD [OF first] have d: "after < d" "Some (Some d) \<in> set cands"
    and least: "\<And>c. Some (Some c) \<in> set cands \<Longrightarrow> after < c \<Longrightarrow> d \<le> c" by blast+
  note at = d(2) [unfolded week(2)]
  have "d \<le> j" if j: "after < j" "c_time cal j = tm" "c_weekday cal (c_date cal j) \<in> set ds" for j
  proof (cases "c_date cal j - c_date cal after \<le> 7")
    case True
    have "c_date cal after \<le> c_date cal j"
      using j(1) clock(2) [of after j] by (auto simp: clock_before_def)
    then have "Some (Some j) \<in> set cands" using True j by (simp only: week(2)) simp
    then show ?thesis using least j(1) by blast
  next
    case False
    then have "clock_before cal d j" using at by (simp add: clock_before_def)
    then show ?thesis using clock(2) [of d j] by simp
  qed
  moreover have "ds \<noteq> []" using k(2) by auto
  then have "next_due_for_mode cal (Weekly days text) after = Some (Some d)"
    using first assms(2) by (simp add: next_due_for_mode_def clock(1) Let_def ds_def cands_def)
  ultimately show ?thesis using d(1) at unfolding ds_def by blast
qed

text \<open>The zone of the witnesses never changes its offset; the other two zones set the clock forward and back by
  one hour at 02:00 of day 3 and of day 0.\<close>

lemma two_offsets_simps [simp]:
  "c_known (two_offsets x o1 o2) i"
  "c_date (two_offsets x o1 o2) i = (i + (if i < x then o1 else o2)) div day_ms"
  "c_time (two_offsets x o1 o2) i = nat ((i + (if i < x then o1 else o2)) mod day_ms)"
  "c_earliest (two_offsets x o1 o2) date tm =
     (if int tm \<ge> day_ms then None
      else if date * day_ms + int tm - o1 < x then Some (date * day_ms + int tm - o1)
      else if date * day_ms + int tm - o2 \<ge> x then Some (date * day_ms + int tm - o2) else None)"
  "c_weekday (two_offsets x o1 o2) date = nat ((date + 3) mod 7)"
  "c_parse_time (two_offsets x o1 o2) text = demo_times text"
  by (simp_all add: two_offsets_def Let_def)

lemma day_order:
  assumes "i < j"
  shows "i div day_ms < j div day_ms
    \<or> i div day_ms = j div day_ms \<and> nat (i mod day_ms) < nat (j mod day_ms)"
proof -
  have "i div day_ms \<le> j div day_ms" using assms by (intro zdiv_mono1) (simp_all add: day_ms_def)
  moreover have "i mod day_ms < j mod day_ms" if eq: "i div day_ms = j div day_ms"
    using assms div_mult_mod_eq [of i day_ms] div_mult_mod_eq [of j day_ms] unfolding eq by linarith
  ultimately show ?thesis by (auto simp: day_ms_def)
qed

lemma day_parts: "i div day_ms = date \<and> nat (i mod day_ms) = tm \<longleftrightarrow> int tm < day_ms \<and> date * day_ms + int tm = i"
  by (auto simp: day_ms_def)

lemma spring_never_set_back:
  assumes "0 \<le> h"
  shows "never_set_back (two_offsets x 0 h)"
proof -
  define loc where "loc i = i + (if i < x then 0 else h)" for i
  have "clock_before (two_offsets x 0 h) i j" if "i < j" for i j
    using day_order [of "loc i" "loc j"] that assms by (auto simp: clock_before_def loc_def)
  moreover have "c_earliest (two_offsets x 0 h) date tm = Some i \<longleftrightarrow>
      c_date (two_offsets x 0 h) i = date \<and> c_time (two_offsets x 0 h) i = tm" for date tm i
  proof -
    have "c_date (two_offsets x 0 h) i = date \<and> c_time (two_offsets x 0 h) i = tm \<longleftrightarrow>
        int tm < day_ms \<and> date * day_ms + int tm = loc i"
      using day_parts [of "loc i" date tm] by (simp add: loc_def)
    then show ?thesis using assms by (auto simp: loc_def)
  qed
  ultimately show ?thesis by (simp add: never_set_back_def)
qed

lemma daily_slot_exact_witness:
  "\<exists>d. next_due_for_mode (two_offsets 0 0 0) (Daily ''12:00'') 50000000 = Some (Some d) \<and> 50000000 < d
     \<and> c_time (two_offsets 0 0 0) d = 43200000"
proof -
  have "\<exists>d. next_due_for_mode (two_offsets 0 0 0) (Daily ''12:00'') 50000000 = Some (Some d) \<and> 50000000 < d
     \<and> c_time (two_offsets 0 0 0) d = 43200000
     \<and> (\<forall>j. 50000000 < j \<and> c_time (two_offsets 0 0 0) j = 43200000 \<longrightarrow> d \<le> j)"
    by (rule daily_slot_exact [OF spring_never_set_back [OF order_refl]])
       (auto simp: first_day_def demo_times_def day_ms_def intro!: exI [of _ 0])
  then show ?thesis by blast
qed

lemma weekday_sun [simp]: "weekday_num ''sun'' = Some 6"
  by (simp add: weekday_num_def ascii_lower_def ascii_lower_char_def)

lemma weekly_slot_exact_witness:
  "\<exists>d. next_due_for_mode (two_offsets 0 0 0) (Weekly [''sun''] ''12:00'') 0 = Some (Some d) \<and> 0 < d
     \<and> c_weekday (two_offsets 0 0 0) (c_date (two_offsets 0 0 0) d) = 6"
proof -
  have days: "List.map_filter weekday_num [''sun''] = [6]"
    by (simp add: List.map_filter_simps)
  have "(k * day_ms) div day_ms = k" for k by (simp add: day_ms_def)
  then have week: "plain_week (two_offsets 0 0 0) (List.map_filter weekday_num [''sun'']) 0 43200000"
    unfolding days plain_week_def
    by (auto simp: day_ms_def intro!: bexI [of _ 3])
  have "c_parse_time (two_offsets 0 0 0) ''12:00'' = Some 43200000"
    by (simp add: demo_times_def)
  from weekly_slot_exact [OF spring_never_set_back [OF order_refl] this week] show ?thesis
    unfolding days by auto
qed

text \<open>The weekly search steps by 24 hours and reads the local date, so a day of 23 hours falls between two
  steps: computed within the last hour before a Sunday on which the clock is set forward, the next slot of
  a Sunday task is a week late, although the clock is never set back and the Sunday has the time.\<close>

theorem weekly_skips_short_day:
  "let cal = two_offsets (3 * day_ms + 2 * hour_ms) 0 hour_ms;
       after = 2 * day_ms + 23 * hour_ms + 1800000;
       missed = 3 * day_ms + 11 * hour_ms
   in never_set_back cal \<and> after < missed \<and> c_time cal missed = 43200000
      \<and> c_weekday cal (c_date cal missed) = 6
      \<and> next_due_for_mode cal (Weekly [''sun''] ''12:00'') after = Some (Some (missed + 7 * day_ms))"
proof -
  have upto: "[0..7] = [0, 1, 2, 3, 4, 5, 6, 7 :: int]" by (simp add: upto.simps)
  show ?thesis
    unfolding Let_def
    by (intro conjI spring_never_set_back)
       (simp_all add: next_due_for_mode_def upto weekly_candidate_def first_after_def
         Let_def demo_times_def day_ms_def hour_ms_def List.map_filter_simps)
qed

text \<open>The daily search looks at one local time only, and at its earliest instant: computed in the hour the
  clock shows a second time, before the task's time, it finds the first occurrence, which has passed, and
  answers that there is no next slot, although the time comes again within the hour and on every
  following day. The store reads that as no longer scheduled.\<close>

theorem daily_dies_in_fold:
  "let cal = two_offsets hour_ms hour_ms 0; after = hour_ms + 600000; again = hour_ms + 1800000
   in next_due_for_mode cal (Daily ''01:30'') after = Some None
      \<and> after < again \<and> c_time cal again = 5400000
      \<and> (\<forall>n\<ge>0. after < again + n * day_ms \<and> c_time cal (again + n * day_ms) = 5400000)"
proof -
  have "nat ((hour_ms + 1800000 + n * day_ms) mod day_ms) = 5400000" for n
    by (simp add: hour_ms_def day_ms_def)
  moreover have "0 \<le> n \<Longrightarrow> 0 \<le> n * day_ms" for n by (simp add: day_ms_def)
  ultimately show ?thesis
    by (auto simp: Let_def next_due_for_mode_def next_calendar_time_def demo_times_def
        later_only_def local_slot.simps MAX_GAP_DAYS_def day_ms_def hour_ms_def)
qed

section \<open>Truncation\<close>

text \<open>The shared truncation keeps a prefix and a suffix; a multi-byte character at the cut of the suffix is kept
  whole, which costs up to three bytes more than the limit.\<close>

theorem truncate_text_overshoot:
  assumes "\<forall>u \<in> set (chars s). length u \<le> 4" "5 \<le> limit"
  shows "length (truncate_text s limit) \<le> limit + 3
    \<and> (length s \<le> limit \<longrightarrow> truncate_text s limit = s)
    \<and> (limit < length s \<longrightarrow>
         (\<exists>before gap after. s = before @ gap @ after \<and> truncate_text s limit = before @ ellipsis @ after))"
proof (cases "length s \<le> limit")
  case True
  then show ?thesis by (simp add: truncate_text_def)
next
  case False
  define budget where "budget = limit - 3"
  define h where "h = floor_char_boundary s (budget * 3 div 4)"
  define tail where "tail = budget - budget * 3 div 4"
  define t where "t = floor_char_boundary s (length s - tail)"
  have sizes: "budget + 3 = limit" "0 < tail" "budget * 3 div 4 + tail = budget"
    using assms(2) by (auto simp: budget_def tail_def)
  have val: "truncate_text s limit = take h s @ ellipsis @ drop t s"
  proof -
    have "limit - length ellipsis = budget" "\<not> limit \<le> length ellipsis + 1"
      using assms(2) by (simp_all add: length_ellipsis budget_def)
    with False show ?thesis by (simp add: truncate_text_def Let_def h_def t_def tail_def)
  qed
  have h: "h \<le> budget * 3 div 4" by (simp add: h_def floor_char_boundary_le)
  have near: "length s - tail \<le> t + 3"
    unfolding t_def using assms(1) sizes False by (intro floor_char_boundary_ge) auto
  have "h \<le> t" using h near sizes False by linarith
  then have "s = take h s @ take (t - h) (drop h s) @ drop t s"
    by (metis append_take_drop_id drop_drop le_add_diff_inverse2)
  moreover have "length (truncate_text s limit) \<le> limit + 3"
    unfolding val using h near sizes False by (simp add: length_ellipsis)
  ultimately show ?thesis using val False by blast
qed

end
