(* ===== verification/Task_Store.thy ===== *)
theory Task_Store
  imports Task_Schedule "HOL-Library.Option_ord" "HOL-Library.Monad_Syntax"
begin

text \<open>
  The durable store of the scheduled tasks, \<open>src/orchestration/tasks/src/store.rs\<close>: the columns a row is
  written to and read from, and the statements on the three tables with their constraints. A table is the
  list of its rows in the order of their insertion; SQLite is trusted to execute one statement atomically
  and to refuse what violates a declared constraint, other failures of the driver are not modelled. Two
  rows that tie in every key of an \<open>ORDER BY\<close> keep that order.
\<close>

section \<open>Values and columns\<close>

datatype sql = SqlNull | SqlInt int | SqlText string | SqlReal f64

fun trigger_kind_str :: "trigger_kind \<Rightarrow> string" where
  "trigger_kind_str TriggerManual = ''manual''"
| "trigger_kind_str TriggerSchedule = ''schedule''"

definition parse_trigger_kind :: "string \<Rightarrow> trigger_kind option" where
  "parse_trigger_kind = map_of [(''manual'', TriggerManual), (''schedule'', TriggerSchedule)]"

fun conversation_mode_str :: "conversation_mode \<Rightarrow> string" where
  "conversation_mode_str ChatMode = ''chat''"
| "conversation_mode_str WorkspaceMode = ''workspace''"

definition parse_conversation_mode :: "string \<Rightarrow> conversation_mode option" where
  "parse_conversation_mode = map_of [(''chat'', ChatMode), (''workspace'', WorkspaceMode)]"

fun session_policy_str :: "session_policy \<Rightarrow> string" where
  "session_policy_str PolicyNew = ''new''"
| "session_policy_str PolicyExisting = ''existing''"

definition parse_session_policy :: "string \<Rightarrow> session_policy option" where
  "parse_session_policy = map_of [(''new'', PolicyNew), (''existing'', PolicyExisting)]"

fun session_retention_str :: "conversation_retention \<Rightarrow> string" where
  "session_retention_str KeepConversation = ''keep''"
| "session_retention_str DeleteConversation = ''delete''"

definition parse_session_retention :: "string \<Rightarrow> conversation_retention option" where
  "parse_session_retention = map_of [(''keep'', KeepConversation), (''delete'', DeleteConversation)]"

fun run_kind_str :: "run_kind \<Rightarrow> string" where
  "run_kind_str RunMain = ''main''"
| "run_kind_str RunManual = ''manual''"
| "run_kind_str RunChain = ''chain''"

definition parse_run_kind :: "string \<Rightarrow> run_kind option" where
  "parse_run_kind = map_of [(''main'', RunMain), (''manual'', RunManual), (''chain'', RunChain)]"

fun run_origin_str :: "run_origin \<Rightarrow> string" where
  "run_origin_str FromSchedule = ''schedule''"
| "run_origin_str FromUi = ''ui''"
| "run_origin_str FromCli = ''cli''"
| "run_origin_str FromChain = ''chain''"

definition parse_run_origin :: "string \<Rightarrow> run_origin option" where
  "parse_run_origin =
     map_of [(''schedule'', FromSchedule), (''ui'', FromUi), (''cli'', FromCli), (''chain'', FromChain)]"

fun run_status_str :: "run_status \<Rightarrow> string" where
  "run_status_str RunRunning = ''running''"
| "run_status_str RunCompleted = ''completed''"
| "run_status_str RunFailed = ''failed''"
| "run_status_str RunSkipped = ''skipped''"

definition parse_run_status :: "string \<Rightarrow> run_status option" where
  "parse_run_status =
     map_of [(''running'', RunRunning), (''completed'', RunCompleted), (''failed'', RunFailed),
             (''skipped'', RunSkipped)]"

text \<open>A parameter list is the values of the columns it is bound to, in their order.\<close>

definition opt_text :: "string option \<Rightarrow> sql" where
  "opt_text v = (case v of None \<Rightarrow> SqlNull | Some s \<Rightarrow> SqlText s)"

definition opt_int :: "int option \<Rightarrow> sql" where
  "opt_int v = (case v of None \<Rightarrow> SqlNull | Some n \<Rightarrow> SqlInt n)"

definition opt_real :: "f64 option \<Rightarrow> sql" where
  "opt_real v = (case v of None \<Rightarrow> SqlNull | Some x \<Rightarrow> SqlReal x)"

definition bool_int :: "bool \<Rightarrow> sql" where
  "bool_int b = SqlInt (if b then 1 else 0)"

definition TASK_COLUMNS :: "string list" where
  "TASK_COLUMNS =
     [''id'', ''name'', ''enabled'', ''prompt'', ''prompt_version'', ''cwd'', ''model_id'', ''thinking_level'',
      ''session_policy'', ''conversation_mode'', ''thread_id'', ''trigger_kind'', ''trigger_json'',
      ''next_due_at'', ''pending_request_at'', ''pending_origin'', ''pending_actor'',
      ''session_retention'', ''created_at'', ''updated_at'', ''deleted_at'', ''timezone'']"

text \<open>\<open>write_json\<close>: the trigger of a task as JSON text.\<close>

definition insert_task_values :: "(string \<Rightarrow> string) \<Rightarrow> task \<Rightarrow> sql list" where
  "insert_task_values write_json k =
     [SqlText (k_id k), SqlText (k_name k), bool_int (k_enabled k), SqlText (k_prompt k),
      SqlInt (k_prompt_version k), SqlText (k_cwd k), opt_text (k_model_id k), opt_text (k_thinking_level k),
      SqlText (session_policy_str (k_session_policy k)),
      SqlText (conversation_mode_str (k_conversation_mode k)), opt_text (k_thread_id k),
      SqlText (trigger_kind_str (k_trigger_kind k)), SqlText (write_json (k_trigger_json k)),
      opt_int (k_next_due_at k), opt_int (k_pending_request_at k),
      opt_text (map_option run_origin_str (k_pending_origin k)), opt_text (k_pending_actor k),
      SqlText (session_retention_str (k_session_retention k)), SqlInt (k_created_at k),
      SqlInt (k_updated_at k), opt_int (k_deleted_at k), opt_text (k_timezone k)]"

text \<open>The update sets every column but the id and the time of creation.\<close>

definition UPDATE_TASK_COLUMNS :: "string list" where
  "UPDATE_TASK_COLUMNS =
     [''name'', ''enabled'', ''prompt'', ''prompt_version'', ''cwd'', ''model_id'', ''thinking_level'',
      ''session_policy'', ''conversation_mode'', ''thread_id'', ''trigger_kind'', ''trigger_json'',
      ''next_due_at'', ''pending_request_at'', ''pending_origin'', ''pending_actor'',
      ''session_retention'', ''updated_at'', ''deleted_at'', ''timezone'']"

definition update_task_values :: "(string \<Rightarrow> string) \<Rightarrow> task \<Rightarrow> sql list" where
  "update_task_values write_json k =
     [SqlText (k_name k), bool_int (k_enabled k), SqlText (k_prompt k),
      SqlInt (k_prompt_version k), SqlText (k_cwd k), opt_text (k_model_id k), opt_text (k_thinking_level k),
      SqlText (session_policy_str (k_session_policy k)),
      SqlText (conversation_mode_str (k_conversation_mode k)), opt_text (k_thread_id k),
      SqlText (trigger_kind_str (k_trigger_kind k)), SqlText (write_json (k_trigger_json k)),
      opt_int (k_next_due_at k), opt_int (k_pending_request_at k),
      opt_text (map_option run_origin_str (k_pending_origin k)), opt_text (k_pending_actor k),
      SqlText (session_retention_str (k_session_retention k)),
      SqlInt (k_updated_at k), opt_int (k_deleted_at k), opt_text (k_timezone k)]"

definition RUN_COLUMNS :: "string list" where
  "RUN_COLUMNS =
     [''id'', ''task_id'', ''kind'', ''origin'', ''actor'', ''due_at'', ''status'', ''thread_id'', ''session_id'',
      ''run_id'', ''prompt_version'', ''result_summary'', ''feedback'', ''feedback_note'',
      ''started_at'', ''finished_at'', ''error_message'', ''session_deleted'', ''finish_reason'',
      ''finish_note'']"

definition INSERT_RUN_COLUMNS :: "string list" where
  "INSERT_RUN_COLUMNS = RUN_COLUMNS @ [''owner'']"

definition insert_run_values :: "task_run \<Rightarrow> string option \<Rightarrow> sql list" where
  "insert_run_values n owner =
     [SqlText (n_id n), SqlText (n_task_id n), SqlText (run_kind_str (n_kind n)),
      SqlText (run_origin_str (n_origin n)), opt_text (n_actor n), opt_int (n_due_at n),
      SqlText (run_status_str (n_status n)), opt_text (n_thread_id n), opt_text (n_session_id n),
      opt_text (n_run_id n), opt_int (n_prompt_version n), opt_text (n_result_summary n),
      opt_text (n_feedback n), opt_text (n_feedback_note n), opt_int (n_started_at n),
      opt_int (n_finished_at n), opt_text (n_error_message n), bool_int (n_session_deleted n),
      opt_text (n_finish_reason n), opt_text (n_finish_note n), opt_text owner]"

text \<open>The update sets every column but the id, the task, the owner and the saved answer.\<close>

definition UPDATE_RUN_COLUMNS :: "string list" where
  "UPDATE_RUN_COLUMNS =
     [''kind'', ''origin'', ''actor'', ''due_at'', ''status'', ''thread_id'', ''session_id'',
      ''run_id'', ''prompt_version'', ''result_summary'', ''feedback'', ''feedback_note'',
      ''started_at'', ''finished_at'', ''error_message'', ''session_deleted'', ''finish_reason'',
      ''finish_note'']"

definition update_run_values :: "task_run \<Rightarrow> sql list" where
  "update_run_values n =
     [SqlText (run_kind_str (n_kind n)),
      SqlText (run_origin_str (n_origin n)), opt_text (n_actor n), opt_int (n_due_at n),
      SqlText (run_status_str (n_status n)), opt_text (n_thread_id n), opt_text (n_session_id n),
      opt_text (n_run_id n), opt_int (n_prompt_version n), opt_text (n_result_summary n),
      opt_text (n_feedback n), opt_text (n_feedback_note n), opt_int (n_started_at n),
      opt_int (n_finished_at n), opt_text (n_error_message n), bool_int (n_session_deleted n),
      opt_text (n_finish_reason n), opt_text (n_finish_note n)]"

definition REVISION_COLUMNS :: "string list" where
  "REVISION_COLUMNS =
     [''id'', ''task_id'', ''version'', ''prompt'', ''source'', ''status'', ''reason'', ''confidence'',
      ''source_run_id'', ''created_at'']"

definition insert_revision_values :: "prompt_revision \<Rightarrow> sql list" where
  "insert_revision_values p =
     [SqlText (p_id p), SqlText (p_task_id p), SqlInt (p_version p), SqlText (p_prompt p),
      SqlText (p_source p), SqlText (p_status p), opt_text (p_reason p), opt_real (p_confidence p),
      opt_text (p_source_run_id p), SqlInt (p_created_at p)]"

text \<open>A stored row gives a column's value by name; a query selects values by name, and the reader takes them
  by position. \<open>None\<close>: the driver's error on a value of another type.\<close>

type_synonym sql_row = "(string \<times> sql) list"

definition select_columns :: "string list \<Rightarrow> sql_row \<Rightarrow> sql list" where
  "select_columns cols row = map (\<lambda>c. case map_of row c of Some v \<Rightarrow> v | None \<Rightarrow> SqlNull) cols"

definition assign_columns :: "string list \<Rightarrow> sql list \<Rightarrow> sql_row \<Rightarrow> sql_row" where
  "assign_columns cols vals row =
     map (\<lambda>(c, v). (c, case map_of (zip cols vals) c of Some w \<Rightarrow> w | None \<Rightarrow> v)) row"

fun get_text :: "sql \<Rightarrow> string option" where
  "get_text (SqlText s) = Some s" | "get_text _ = None"

fun get_int :: "sql \<Rightarrow> int option" where
  "get_int (SqlInt n) = Some n" | "get_int _ = None"

fun get_opt_text :: "sql \<Rightarrow> string option option" where
  "get_opt_text SqlNull = Some None" | "get_opt_text (SqlText s) = Some (Some s)" | "get_opt_text _ = None"

fun get_opt_int :: "sql \<Rightarrow> int option option" where
  "get_opt_int SqlNull = Some None" | "get_opt_int (SqlInt n) = Some (Some n)" | "get_opt_int _ = None"

fun get_opt_real :: "sql \<Rightarrow> f64 option option" where
  "get_opt_real SqlNull = Some None" | "get_opt_real (SqlReal x) = Some (Some x)" | "get_opt_real _ = None"

definition get_or :: "(string \<Rightarrow> 'a option) \<Rightarrow> 'a \<Rightarrow> sql \<Rightarrow> 'a option" where
  "get_or parse fallback v = map_option (\<lambda>s. case parse s of Some x \<Rightarrow> x | None \<Rightarrow> fallback) (get_text v)"

text \<open>\<open>read_json\<close>: the stored trigger read back, \<open>null\<close> when it is no JSON.\<close>

definition task_from_row :: "(string \<Rightarrow> string) \<Rightarrow> sql list \<Rightarrow> task option" where
  "task_from_row read_json row =
     do { id \<leftarrow> get_text (row ! 0); name \<leftarrow> get_text (row ! 1); enabled \<leftarrow> get_int (row ! 2);
          prompt \<leftarrow> get_text (row ! 3); version \<leftarrow> get_int (row ! 4); cwd \<leftarrow> get_text (row ! 5);
          model \<leftarrow> get_opt_text (row ! 6); thinking \<leftarrow> get_opt_text (row ! 7);
          policy \<leftarrow> get_or parse_session_policy PolicyNew (row ! 8);
          mode \<leftarrow> get_or parse_conversation_mode WorkspaceMode (row ! 9);
          thread \<leftarrow> get_opt_text (row ! 10);
          kind \<leftarrow> get_or parse_trigger_kind TriggerManual (row ! 11);
          trigger \<leftarrow> get_text (row ! 12); due \<leftarrow> get_opt_int (row ! 13);
          pending \<leftarrow> get_opt_int (row ! 14); origin \<leftarrow> get_opt_text (row ! 15);
          actor \<leftarrow> get_opt_text (row ! 16);
          retention \<leftarrow> get_or parse_session_retention KeepConversation (row ! 17);
          created \<leftarrow> get_int (row ! 18); updated \<leftarrow> get_int (row ! 19);
          deleted \<leftarrow> get_opt_int (row ! 20); zone \<leftarrow> get_opt_text (row ! 21);
          Some \<lparr>k_id = id, k_name = name, k_enabled = (enabled \<noteq> 0), k_prompt = prompt,
                k_prompt_version = version, k_cwd = cwd, k_model_id = model, k_thinking_level = thinking,
                k_timezone = zone, k_session_policy = policy, k_conversation_mode = mode,
                k_thread_id = thread, k_trigger_kind = kind, k_trigger_json = read_json trigger,
                k_next_due_at = due, k_pending_request_at = pending,
                k_pending_origin = Option.bind origin parse_run_origin, k_pending_actor = actor,
                k_session_retention = retention, k_created_at = created, k_updated_at = updated,
                k_deleted_at = deleted\<rparr> }"

definition run_from_row :: "sql list \<Rightarrow> task_run option" where
  "run_from_row row =
     do { id \<leftarrow> get_text (row ! 0); task_id \<leftarrow> get_text (row ! 1);
          kind \<leftarrow> get_or parse_run_kind RunMain (row ! 2);
          origin \<leftarrow> get_or parse_run_origin FromSchedule (row ! 3);
          actor \<leftarrow> get_opt_text (row ! 4); due \<leftarrow> get_opt_int (row ! 5);
          status \<leftarrow> get_or parse_run_status RunFailed (row ! 6);
          thread \<leftarrow> get_opt_text (row ! 7); session \<leftarrow> get_opt_text (row ! 8);
          run_id \<leftarrow> get_opt_text (row ! 9); version \<leftarrow> get_opt_int (row ! 10);
          summary \<leftarrow> get_opt_text (row ! 11); feedback \<leftarrow> get_opt_text (row ! 12);
          feedback_note \<leftarrow> get_opt_text (row ! 13); started \<leftarrow> get_opt_int (row ! 14);
          finished \<leftarrow> get_opt_int (row ! 15); err \<leftarrow> get_opt_text (row ! 16);
          deleted \<leftarrow> get_int (row ! 17); reason \<leftarrow> get_opt_text (row ! 18);
          finish \<leftarrow> get_opt_text (row ! 19);
          Some \<lparr>n_id = id, n_task_id = task_id, n_kind = kind, n_origin = origin, n_actor = actor,
                n_due_at = due, n_status = status, n_thread_id = thread, n_session_id = session,
                n_run_id = run_id, n_prompt_version = version, n_result_summary = summary,
                n_feedback = feedback, n_feedback_note = feedback_note, n_started_at = started,
                n_finished_at = finished, n_error_message = err, n_finish_reason = reason,
                n_finish_note = finish, n_session_deleted = (deleted \<noteq> 0)\<rparr> }"

definition revision_from_row :: "sql list \<Rightarrow> prompt_revision option" where
  "revision_from_row row =
     do { id \<leftarrow> get_text (row ! 0); task_id \<leftarrow> get_text (row ! 1); version \<leftarrow> get_int (row ! 2);
          prompt \<leftarrow> get_text (row ! 3); source \<leftarrow> get_text (row ! 4); status \<leftarrow> get_text (row ! 5);
          reason \<leftarrow> get_opt_text (row ! 6); confidence \<leftarrow> get_opt_real (row ! 7);
          source_run \<leftarrow> get_opt_text (row ! 8); created \<leftarrow> get_int (row ! 9);
          Some \<lparr>p_id = id, p_task_id = task_id, p_version = version, p_prompt = prompt, p_source = source,
                p_status = status, p_reason = reason, p_confidence = confidence,
                p_source_run_id = source_run, p_created_at = created\<rparr> }"

section \<open>What is written is read back\<close>

lemma labels_parse [simp]:
  "parse_trigger_kind (trigger_kind_str tk) = Some tk"
  "parse_conversation_mode (conversation_mode_str cm) = Some cm"
  "parse_session_policy (session_policy_str sp) = Some sp"
  "parse_session_retention (session_retention_str sr) = Some sr"
  "parse_run_kind (run_kind_str rk) = Some rk"
  "parse_run_origin (run_origin_str ro) = Some ro"
  "parse_run_status (run_status_str rs) = Some rs"
  subgoal by (cases tk) (simp_all add: parse_trigger_kind_def)
  subgoal by (cases cm) (simp_all add: parse_conversation_mode_def)
  subgoal by (cases sp) (simp_all add: parse_session_policy_def)
  subgoal by (cases sr) (simp_all add: parse_session_retention_def)
  subgoal by (cases rk) (simp_all add: parse_run_kind_def)
  subgoal by (cases ro) (simp_all add: parse_run_origin_def)
  subgoal by (cases rs) (simp_all add: parse_run_status_def)
  done

lemma column_values [simp]:
  "get_opt_text (opt_text t) = Some t" "get_opt_int (opt_int i) = Some i"
  "get_opt_real (opt_real x) = Some x"
  "get_int (bool_int b) = Some (if b then 1 else 0)"
  "get_or parse fb (SqlText s) = Some (case parse s of Some y \<Rightarrow> y | None \<Rightarrow> fb)"
  "Option.bind (map_option run_origin_str og) parse_run_origin = og"
  by (cases og; simp add: opt_text_def opt_int_def opt_real_def bool_int_def get_or_def split: option.splits)+

lemma bool_of_int [simp]: "((if b then 1 else 0 :: int) \<noteq> 0) = b"
  by simp

definition task_row :: "(string \<Rightarrow> string) \<Rightarrow> task \<Rightarrow> sql_row" where
  "task_row write_json k = zip TASK_COLUMNS (insert_task_values write_json k)"

text \<open>The row of a run also has the saved answer, which no insertion names and \<open>set_run_output\<close> writes.\<close>

definition run_row_columns :: "task_run \<Rightarrow> string option \<Rightarrow> string option \<Rightarrow> sql_row" where
  "run_row_columns n owner answer =
     zip (INSERT_RUN_COLUMNS @ [''result_text'']) (insert_run_values n owner @ [opt_text answer])"

definition revision_row :: "prompt_revision \<Rightarrow> sql_row" where
  "revision_row p = zip REVISION_COLUMNS (insert_revision_values p)"

lemma map_of_zip_nth:
  assumes "distinct cols" "length cols = length vals" "i < length cols"
  shows "map_of (zip cols vals) (cols ! i) = Some (vals ! i)"
  using assms by (simp add: map_of_zip_nth)

lemma select_prefix:
  assumes "distinct cols" "length cols = length vals"
  shows "select_columns (take n cols) (zip cols vals) = take n vals"
  using assms by (intro nth_equalityI) (simp_all add: select_columns_def map_of_zip_nth)

lemma select_all:
  assumes "distinct cols" "length cols = length vals"
  shows "select_columns cols (zip cols vals) = vals"
  using select_prefix [OF assms, of "length cols"] assms(2) by simp

lemma assign_zip:
  "length cols = length vals \<Longrightarrow>
   assign_columns cols' vals' (zip cols vals)
     = zip cols (map (\<lambda>(c, v). case map_of (zip cols' vals') c of Some w \<Rightarrow> w | None \<Rightarrow> v) (zip cols vals))"
  by (induction cols vals rule: list_induct2) (simp_all add: assign_columns_def)

lemma distinct_columns:
  "distinct TASK_COLUMNS" "distinct INSERT_RUN_COLUMNS" "distinct REVISION_COLUMNS"
  by (simp_all add: TASK_COLUMNS_def INSERT_RUN_COLUMNS_def RUN_COLUMNS_def REVISION_COLUMNS_def)

lemma column_lengths:
  "length (insert_task_values w k) = length TASK_COLUMNS"
  "length (insert_run_values n owner) = length INSERT_RUN_COLUMNS"
  "length (insert_revision_values p) = length REVISION_COLUMNS"
  by (simp_all add: TASK_COLUMNS_def insert_task_values_def INSERT_RUN_COLUMNS_def RUN_COLUMNS_def
      insert_run_values_def REVISION_COLUMNS_def insert_revision_values_def)

lemma run_row_shape:
  "distinct (INSERT_RUN_COLUMNS @ [''result_text''])"
  "length (insert_run_values n owner @ [opt_text answer]) = length (INSERT_RUN_COLUMNS @ [''result_text''])"
  by (simp_all add: INSERT_RUN_COLUMNS_def RUN_COLUMNS_def insert_run_values_def)

lemma run_prefix: "RUN_COLUMNS = take 20 (INSERT_RUN_COLUMNS @ [''result_text''])"
  by (simp add: INSERT_RUN_COLUMNS_def RUN_COLUMNS_def)

lemma task_from_values:
  "read (write (k_trigger_json k)) = k_trigger_json k \<Longrightarrow> task_from_row read (insert_task_values write k) = Some k"
  by (simp add: task_from_row_def insert_task_values_def)

lemma run_from_values: "run_from_row (take 20 (insert_run_values n owner @ [opt_text answer])) = Some n"
  by (simp add: run_from_row_def insert_run_values_def)

lemma revision_from_values: "revision_from_row (insert_revision_values p) = Some p"
  by (simp add: revision_from_row_def insert_revision_values_def)

lemma updated_task_values:
  "assign_columns UPDATE_TASK_COLUMNS (update_task_values write k') (task_row write k)
     = task_row write (k'\<lparr>k_id := k_id k, k_created_at := k_created_at k\<rparr>)"
  unfolding task_row_def assign_zip [OF column_lengths(1) [symmetric]]
  by (simp add: TASK_COLUMNS_def insert_task_values_def UPDATE_TASK_COLUMNS_def update_task_values_def)

lemma updated_run_values:
  "assign_columns UPDATE_RUN_COLUMNS (update_run_values n') (run_row_columns n owner answer)
     = run_row_columns (n'\<lparr>n_id := n_id n, n_task_id := n_task_id n\<rparr>) owner answer"
  unfolding run_row_columns_def assign_zip [OF run_row_shape(2) [symmetric]]
  by (simp add: INSERT_RUN_COLUMNS_def RUN_COLUMNS_def insert_run_values_def UPDATE_RUN_COLUMNS_def
      update_run_values_def)

lemma saved_answer:
  "assign_columns [''result_text''] [SqlText body] (run_row_columns n owner answer)
     = run_row_columns n owner (Some body)"
  unfolding run_row_columns_def assign_zip [OF run_row_shape(2) [symmetric]]
  by (simp add: INSERT_RUN_COLUMNS_def RUN_COLUMNS_def insert_run_values_def opt_text_def)

text \<open>C32: The store reads back what it wrote: columns are selected by name and decoded by position, and for
  tasks, runs and prompt versions the decoded record is the written one, when the JSON text of the task's
  trigger reads as the trigger it was written from. An update replaces every column of a task but its id
  and its time of creation, and every column of a run but its id, its task, its owner and the answer
  saved for it; saving an answer replaces that column alone.\<close>

theorem rows_read_back:
  assumes "read (write (k_trigger_json k)) = k_trigger_json k" "read (write (k_trigger_json k')) = k_trigger_json k'"
  shows "task_from_row read (select_columns TASK_COLUMNS (task_row write k)) = Some k
   \<and> task_from_row read (select_columns TASK_COLUMNS
        (assign_columns UPDATE_TASK_COLUMNS (update_task_values write k') (task_row write k)))
     = Some (k'\<lparr>k_id := k_id k, k_created_at := k_created_at k\<rparr>)
   \<and> run_from_row (select_columns RUN_COLUMNS (run_row_columns n owner answer)) = Some n
   \<and> run_from_row (select_columns RUN_COLUMNS
        (assign_columns UPDATE_RUN_COLUMNS (update_run_values n') (run_row_columns n owner answer)))
     = Some (n'\<lparr>n_id := n_id n, n_task_id := n_task_id n\<rparr>)
   \<and> select_columns [''owner'', ''result_text'']
        (assign_columns UPDATE_RUN_COLUMNS (update_run_values n') (run_row_columns n owner answer))
     = [opt_text owner, opt_text answer]
   \<and> assign_columns [''result_text''] [SqlText body] (run_row_columns n owner answer)
     = run_row_columns n owner (Some body)
   \<and> revision_from_row (select_columns REVISION_COLUMNS (revision_row p)) = Some p"
proof -
  have task: "select_columns TASK_COLUMNS (task_row write t) = insert_task_values write t" for t
    unfolding task_row_def by (intro select_all distinct_columns) (simp add: column_lengths)
  have run: "select_columns RUN_COLUMNS (run_row_columns r owner answer)
      = take 20 (insert_run_values r owner @ [opt_text answer])" for r
    unfolding run_row_columns_def run_prefix by (rule select_prefix [OF run_row_shape(1) run_row_shape(2) [symmetric]])
  have "select_columns [''owner'', ''result_text''] (run_row_columns r owner answer) = [opt_text owner, opt_text answer]" for r
    by (simp add: select_columns_def run_row_columns_def INSERT_RUN_COLUMNS_def RUN_COLUMNS_def
        insert_run_values_def)
  moreover have "select_columns REVISION_COLUMNS (revision_row p) = insert_revision_values p"
    unfolding revision_row_def by (intro select_all distinct_columns) (simp add: column_lengths)
  ultimately show ?thesis
    using assms by (simp add: updated_task_values updated_run_values saved_answer task run task_from_values
        run_from_values revision_from_values del: take_append)
qed

lemma rows_read_back_witness:
  "task_from_row tl (select_columns TASK_COLUMNS (task_row (Cons CHR 0x20) (demo_scheduled ''i''))) = Some (demo_scheduled ''i'')
   \<and> (\<forall>n. run_from_row (select_columns RUN_COLUMNS (run_row_columns n (Some ''1:a'') None)) = Some n)"
  using rows_read_back [of tl "Cons CHR 0x20" "demo_scheduled ''i''" "demo_scheduled ''i''"] by simp

section \<open>The tables\<close>

text \<open>A run's row also holds the host that claimed it and the saved answer, which no list reads.\<close>

record run_row =
  r_run :: task_run
  r_owner :: "string option"
  r_output :: "string option"

record task_db =
  b_tasks :: "task list"
  b_runs :: "run_row list"
  b_revisions :: "prompt_revision list"

datatype store_error = TaskNameTaken string string | DriverError string

definition double_quote :: string where "double_quote = [CHR 0x22]"

fun store_error_text :: "store_error \<Rightarrow> string" where
  "store_error_text (TaskNameTaken name existing_id) =
     ''a task named '' @ double_quote @ name @ double_quote @ '' already exists''
     @ (if existing_id = [] then [] else '' ('' @ existing_id @ '')'')
     @ ''; rename this one or edit that task instead''"
| "store_error_text (DriverError msg) = msg"

definition get_task :: "task_db \<Rightarrow> string \<Rightarrow> task option" where
  "get_task db rid = find (\<lambda>k. k_id k = rid) (b_tasks db)"

definition find_task_by_name :: "task_db \<Rightarrow> string \<Rightarrow> task option" where
  "find_task_by_name db name = find (\<lambda>k. k_name k = name \<and> k_deleted_at k = None) (b_tasks db)"

definition is_taken_name_error :: "string \<Rightarrow> bool" where
  "is_taken_name_error msg = contains_str ''tasks.name'' msg"

definition explain_write_error :: "task_db \<Rightarrow> string \<Rightarrow> string \<Rightarrow> store_error" where
  "explain_write_error db msg name =
     (if \<not> is_taken_name_error msg then DriverError msg
      else TaskNameTaken name (case find_task_by_name db name of Some k \<Rightarrow> k_id k | None \<Rightarrow> []))"

text \<open>The constraints of the schema: the unique index on the names of the live tasks, and the primary keys.
  Where a statement breaks two of them, the model reports the name.\<close>

definition unique_failed :: "string \<Rightarrow> string" where
  "unique_failed columns = ''UNIQUE constraint failed: '' @ columns"

definition foreign_key_failed :: string where
  "foreign_key_failed = ''FOREIGN KEY constraint failed''"

definition insert_task :: "task_db \<Rightarrow> task \<Rightarrow> store_error + task_db" where
  "insert_task db k =
     (if k_deleted_at k = None \<and> list_ex (\<lambda>t. k_name t = k_name k \<and> k_deleted_at t = None) (b_tasks db)
      then Inl (explain_write_error db (unique_failed ''tasks.name'') (k_name k))
      else if list_ex (\<lambda>t. k_id t = k_id k) (b_tasks db)
      then Inl (explain_write_error db (unique_failed ''tasks.id'') (k_name k))
      else Inr (db\<lparr>b_tasks := b_tasks db @ [k]\<rparr>))"

definition write_task :: "task \<Rightarrow> task \<Rightarrow> task" where
  "write_task k t = (if k_id t = k_id k then k\<lparr>k_created_at := k_created_at t\<rparr> else t)"

definition name_conflict :: "task_db \<Rightarrow> task \<Rightarrow> bool" where
  "name_conflict db k \<longleftrightarrow>
     list_ex (\<lambda>t. k_id t = k_id k) (b_tasks db) \<and> k_deleted_at k = None
     \<and> list_ex (\<lambda>t. k_id t \<noteq> k_id k \<and> k_name t = k_name k \<and> k_deleted_at t = None) (b_tasks db)"

definition update_task :: "task_db \<Rightarrow> task \<Rightarrow> store_error + task_db" where
  "update_task db k =
     (if name_conflict db k then Inl (explain_write_error db (unique_failed ''tasks.name'') (k_name k))
      else Inr (db\<lparr>b_tasks := map (write_task k) (b_tasks db)\<rparr>))"

text \<open>Newest first, ties by rowid.\<close>

definition list_tasks :: "task_db \<Rightarrow> bool \<Rightarrow> task list" where
  "list_tasks db include_deleted =
     rev (sort_key k_created_at (filter (\<lambda>k. include_deleted \<or> k_deleted_at k = None) (b_tasks db)))"

definition due_now :: "int \<Rightarrow> task \<Rightarrow> bool" where
  "due_now now k \<longleftrightarrow>
     k_deleted_at k = None \<and> k_enabled k
     \<and> (k_pending_request_at k \<noteq> None
        \<or> trigger_kind_str (k_trigger_kind k) = ''schedule''
          \<and> (case k_next_due_at k of None \<Rightarrow> False | Some d \<Rightarrow> d \<le> now))"

definition list_due_tasks :: "task_db \<Rightarrow> int \<Rightarrow> task list" where
  "list_due_tasks db now =
     sort_key k_next_due_at (sort_key k_created_at (filter (due_now now) (b_tasks db)))"

definition insert_run_owned :: "task_db \<Rightarrow> task_run \<Rightarrow> string option \<Rightarrow> store_error + task_db" where
  "insert_run_owned db n owner =
     (if list_ex (\<lambda>r. n_id (r_run r) = n_id n) (b_runs db) then Inl (DriverError (unique_failed ''task_runs.id''))
      else if n_due_at n \<noteq> None
              \<and> list_ex (\<lambda>r. n_task_id (r_run r) = n_task_id n \<and> n_due_at (r_run r) = n_due_at n) (b_runs db)
      then Inl (DriverError (unique_failed ''task_runs.task_id, task_runs.due_at''))
      else if \<not> list_ex (\<lambda>k. k_id k = n_task_id n) (b_tasks db) then Inl (DriverError foreign_key_failed)
      else Inr (db\<lparr>b_runs := b_runs db @ [\<lparr>r_run = n, r_owner = owner, r_output = None\<rparr>]\<rparr>))"

definition write_run :: "task_run \<Rightarrow> run_row \<Rightarrow> run_row" where
  "write_run n r =
     (if n_id (r_run r) = n_id n then r\<lparr>r_run := n\<lparr>n_task_id := n_task_id (r_run r)\<rparr>\<rparr> else r)"

definition slot_conflict :: "task_db \<Rightarrow> task_run \<Rightarrow> bool" where
  "slot_conflict db n \<longleftrightarrow>
     n_due_at n \<noteq> None
     \<and> list_ex (\<lambda>r. n_id (r_run r) = n_id n
          \<and> list_ex (\<lambda>q. n_id (r_run q) \<noteq> n_id n \<and> n_task_id (r_run q) = n_task_id (r_run r)
                \<and> n_due_at (r_run q) = n_due_at n) (b_runs db)) (b_runs db)"

definition update_run :: "task_db \<Rightarrow> task_run \<Rightarrow> store_error + task_db" where
  "update_run db n =
     (if slot_conflict db n then Inl (DriverError (unique_failed ''task_runs.task_id, task_runs.due_at''))
      else Inr (db\<lparr>b_runs := map (write_run n) (b_runs db)\<rparr>))"

definition run_output :: "task_db \<Rightarrow> string \<Rightarrow> string option" where
  "run_output db rid = Option.bind (find (\<lambda>r. n_id (r_run r) = rid) (b_runs db)) r_output"

definition set_run_output :: "task_db \<Rightarrow> string \<Rightarrow> string \<Rightarrow> task_db" where
  "set_run_output db rid answer =
     db\<lparr>b_runs := map (\<lambda>r. if n_id (r_run r) = rid then r\<lparr>r_output := Some answer\<rparr> else r) (b_runs db)\<rparr>"

definition mark_run_conversation_deleted :: "task_db \<Rightarrow> string \<Rightarrow> task_db" where
  "mark_run_conversation_deleted db rid =
     db\<lparr>b_runs := map (\<lambda>r. if n_id (r_run r) = rid
          then r\<lparr>r_run := (r_run r)\<lparr>n_thread_id := None, n_session_id := None, n_session_deleted := True\<rparr>\<rparr>
          else r) (b_runs db)\<rparr>"

definition get_run :: "task_db \<Rightarrow> string \<Rightarrow> task_run option" where
  "get_run db rid = map_option r_run (find (\<lambda>r. n_id (r_run r) = rid) (b_runs db))"

text \<open>Descending by start, a run without one last; a negative limit is no limit.\<close>

definition limit_rows :: "int \<Rightarrow> 'a list \<Rightarrow> 'a list" where
  "limit_rows n xs = (if n < 0 then xs else take (nat n) xs)"

definition list_runs_for_task :: "task_db \<Rightarrow> string \<Rightarrow> int \<Rightarrow> task_run list" where
  "list_runs_for_task db task_id limit =
     limit_rows limit
       (rev (sort_key n_started_at (rev (filter (\<lambda>n. n_task_id n = task_id) (map r_run (b_runs db))))))"

definition latest_run_for_task :: "task_db \<Rightarrow> string \<Rightarrow> task_run option" where
  "latest_run_for_task db task_id =
     (case list_runs_for_task db task_id 1 of [] \<Rightarrow> None | n # _ \<Rightarrow> Some n)"

definition is_running :: "run_row \<Rightarrow> bool" where
  "is_running r \<longleftrightarrow> run_status_str (n_status (r_run r)) = ''running''"

definition has_running_run :: "task_db \<Rightarrow> string \<Rightarrow> bool" where
  "has_running_run db task_id \<longleftrightarrow>
     length (filter (\<lambda>r. n_task_id (r_run r) = task_id \<and> is_running r) (b_runs db)) > 0"

definition running_run_owners :: "task_db \<Rightarrow> (string \<times> string option) list" where
  "running_run_owners db =
     map (\<lambda>r. (n_id (r_run r), r_owner r)) (sort_key (\<lambda>r. n_started_at (r_run r)) (filter is_running (b_runs db)))"

definition settle_failed :: "int \<Rightarrow> string \<Rightarrow> string \<Rightarrow> string \<Rightarrow> run_row \<Rightarrow> run_row" where
  "settle_failed at err reason remark r =
     r\<lparr>r_run := (r_run r)\<lparr>n_status := RunFailed, n_finished_at := Some at, n_error_message := Some err,
                         n_finish_reason := Some reason, n_finish_note := Some remark\<rparr>\<rparr>"

definition reap_running_run ::
  "task_db \<Rightarrow> string \<Rightarrow> int \<Rightarrow> string \<Rightarrow> string \<Rightarrow> string \<Rightarrow> bool \<times> task_db" where
  "reap_running_run db rid at err reason remark =
     (list_ex (\<lambda>r. n_id (r_run r) = rid \<and> is_running r) (b_runs db),
      db\<lparr>b_runs := map (\<lambda>r. if n_id (r_run r) = rid \<and> is_running r
           then settle_failed at err reason remark r else r) (b_runs db)\<rparr>)"

definition INTERRUPTED_NOTE :: string where
  "INTERRUPTED_NOTE =
     ''the tasks loop started and found this run still marked `running`: the process that ''
     @ ''claimed it is gone, so its conversation is the only record left''"

definition mark_interrupted_runs :: "task_db \<Rightarrow> int \<Rightarrow> nat \<times> task_db" where
  "mark_interrupted_runs db at =
     (length (filter is_running (b_runs db)),
      db\<lparr>b_runs := map (\<lambda>r. if is_running r
           then settle_failed at ''interrupted'' FINISH_INTERRUPTED INTERRUPTED_NOTE r else r) (b_runs db)\<rparr>)"

text \<open>A new active version demotes the older active ones of its task.\<close>

definition demote_older :: "prompt_revision \<Rightarrow> prompt_revision \<Rightarrow> prompt_revision" where
  "demote_older p q =
     (if p_status p = REVISION_STATUS_ACTIVE \<and> p_task_id q = p_task_id p
         \<and> p_version q < p_version p \<and> p_status q = ''active''
      then q\<lparr>p_status := REVISION_STATUS_SUPERSEDED\<rparr> else q)"

definition insert_revision :: "task_db \<Rightarrow> prompt_revision \<Rightarrow> store_error + task_db" where
  "insert_revision db p =
     (if list_ex (\<lambda>q. p_id q = p_id p) (b_revisions db)
      then Inl (DriverError (unique_failed ''task_prompt_revisions.id''))
      else if list_ex (\<lambda>q. p_task_id q = p_task_id p \<and> p_version q = p_version p) (b_revisions db)
      then Inl (DriverError (unique_failed ''task_prompt_revisions.task_id, task_prompt_revisions.version''))
      else if \<not> list_ex (\<lambda>k. k_id k = p_task_id p) (b_tasks db) then Inl (DriverError foreign_key_failed)
      else Inr (db\<lparr>b_revisions := map (demote_older p) (b_revisions db @ [p])\<rparr>))"

definition list_revisions :: "task_db \<Rightarrow> string \<Rightarrow> prompt_revision list" where
  "list_revisions db task_id = sort_key p_version (filter (\<lambda>p. p_task_id p = task_id) (b_revisions db))"

definition next_revision_version :: "task_db \<Rightarrow> string \<Rightarrow> int" where
  "next_revision_version db task_id =
     (case filter (\<lambda>p. p_task_id p = task_id) (b_revisions db) of
        [] \<Rightarrow> 1
      | ps \<Rightarrow> Max (set (map p_version ps)) + 1)"

section \<open>The constraints hold\<close>

text \<open>What the schema declares, as an invariant of each of the three tables.\<close>

definition tasks_ok :: "task list \<Rightarrow> bool" where
  "tasks_ok ks \<longleftrightarrow>
     distinct (map k_id ks)
     \<and> (\<forall>k \<in> set ks. \<forall>t \<in> set ks.
          k_deleted_at k = None \<and> k_deleted_at t = None \<and> k_name k = k_name t \<longrightarrow> k_id k = k_id t)"

definition runs_ok :: "string set \<Rightarrow> run_row list \<Rightarrow> bool" where
  "runs_ok ids rs \<longleftrightarrow>
     distinct (map (\<lambda>r. n_id (r_run r)) rs)
     \<and> (\<forall>r \<in> set rs. n_task_id (r_run r) \<in> ids)
     \<and> (\<forall>r \<in> set rs. \<forall>q \<in> set rs.
          n_due_at (r_run r) \<noteq> None \<and> n_due_at (r_run r) = n_due_at (r_run q)
          \<and> n_task_id (r_run r) = n_task_id (r_run q) \<longrightarrow> n_id (r_run r) = n_id (r_run q))"

definition revisions_ok :: "string set \<Rightarrow> prompt_revision list \<Rightarrow> bool" where
  "revisions_ok ids ps \<longleftrightarrow>
     distinct (map p_id ps) \<and> (\<forall>p \<in> set ps. p_task_id p \<in> ids)
     \<and> distinct (map (\<lambda>p. (p_task_id p, p_version p)) ps)"

definition db_ok :: "task_db \<Rightarrow> bool" where
  "db_ok db \<longleftrightarrow>
     tasks_ok (b_tasks db) \<and> runs_ok (k_id ` set (b_tasks db)) (b_runs db)
     \<and> revisions_ok (k_id ` set (b_tasks db)) (b_revisions db)"

lemma write_task_id [simp]: "k_id (write_task k t) = k_id t"
  by (simp add: write_task_def)

lemma write_task_ids [simp]: "map k_id (map (write_task k) ks) = map k_id ks"
  by simp

lemma write_task_id_set [simp]: "k_id ` write_task k ` ks = k_id ` ks"
  by (simp add: image_image)

lemma write_run_id [simp]:
  "n_id (r_run (write_run n r)) = n_id (r_run r)" "n_task_id (r_run (write_run n r)) = n_task_id (r_run r)"
  "r_owner (write_run n r) = r_owner r" "r_output (write_run n r) = r_output r"
  by (simp_all add: write_run_def)

lemma is_running_iff [simp]: "is_running r \<longleftrightarrow> n_status (r_run r) = RunRunning"
  by (cases "n_status (r_run r)") (simp_all add: is_running_def)

lemma tasks_okI:
  assumes "distinct (map k_id ks)"
    and "\<And>k t. k \<in> set ks \<Longrightarrow> t \<in> set ks \<Longrightarrow> k_deleted_at k = None \<Longrightarrow> k_deleted_at t = None
          \<Longrightarrow> k_name k = k_name t \<Longrightarrow> k_id k = k_id t"
  shows "tasks_ok ks"
  using assms unfolding tasks_ok_def by blast

lemma tasks_okD:
  "tasks_ok ks \<Longrightarrow> k \<in> set ks \<Longrightarrow> t \<in> set ks \<Longrightarrow> k_deleted_at k = None \<Longrightarrow> k_deleted_at t = None
   \<Longrightarrow> k_name k = k_name t \<Longrightarrow> k_id k = k_id t"
  "tasks_ok ks \<Longrightarrow> distinct (map k_id ks)"
  unfolding tasks_ok_def by blast+

lemma runs_okI:
  assumes "distinct (map (\<lambda>r. n_id (r_run r)) rs)" "\<And>r. r \<in> set rs \<Longrightarrow> n_task_id (r_run r) \<in> ids"
    and "\<And>r q. r \<in> set rs \<Longrightarrow> q \<in> set rs \<Longrightarrow> n_due_at (r_run r) \<noteq> None
          \<Longrightarrow> n_due_at (r_run r) = n_due_at (r_run q) \<Longrightarrow> n_task_id (r_run r) = n_task_id (r_run q)
          \<Longrightarrow> n_id (r_run r) = n_id (r_run q)"
  shows "runs_ok ids rs"
  using assms unfolding runs_ok_def by blast

lemma runs_okD:
  "runs_ok ids rs \<Longrightarrow> distinct (map (\<lambda>r. n_id (r_run r)) rs)"
  "runs_ok ids rs \<Longrightarrow> r \<in> set rs \<Longrightarrow> n_task_id (r_run r) \<in> ids"
  "runs_ok ids rs \<Longrightarrow> r \<in> set rs \<Longrightarrow> q \<in> set rs \<Longrightarrow> n_due_at (r_run r) \<noteq> None
    \<Longrightarrow> n_due_at (r_run r) = n_due_at (r_run q) \<Longrightarrow> n_task_id (r_run r) = n_task_id (r_run q)
    \<Longrightarrow> n_id (r_run r) = n_id (r_run q)"
  unfolding runs_ok_def by blast+

lemma tasks_ok_insert:
  assumes "tasks_ok ks" "\<forall>t \<in> set ks. k_id t \<noteq> k_id k"
    and "k_deleted_at k = None \<longrightarrow> (\<forall>t \<in> set ks. k_name t = k_name k \<longrightarrow> k_deleted_at t \<noteq> None)"
  shows "tasks_ok (ks @ [k])"
proof (rule tasks_okI)
  show "distinct (map k_id (ks @ [k]))" using tasks_okD(2) [OF assms(1)] assms(2) by auto
next
  fix s t
  assume "s \<in> set (ks @ [k])" "t \<in> set (ks @ [k])" "k_deleted_at s = None" "k_deleted_at t = None" "k_name s = k_name t"
  then show "k_id s = k_id t" using tasks_okD(1) [OF assms(1), of s t] assms(3) by auto
qed

lemma tasks_ok_write:
  assumes "tasks_ok ks"
    and "\<And>s t. s \<in> set ks \<Longrightarrow> t \<in> set ks \<Longrightarrow> k_id s = k_id k \<Longrightarrow> k_id t \<noteq> k_id k
          \<Longrightarrow> k_deleted_at k = None \<Longrightarrow> k_deleted_at t = None \<Longrightarrow> k_name t \<noteq> k_name k"
  shows "tasks_ok (map (write_task k) ks)"
proof (rule tasks_okI)
  show "distinct (map k_id (map (write_task k) ks))"
    unfolding write_task_ids using assms(1) by (rule tasks_okD)
next
  fix s' t'
  assume "s' \<in> set (map (write_task k) ks)" "t' \<in> set (map (write_task k) ks)"
  then obtain s t where mem: "s \<in> set ks" "t \<in> set ks" and eq: "s' = write_task k s" "t' = write_task k t"
    by auto
  assume live: "k_deleted_at s' = None" "k_deleted_at t' = None" "k_name s' = k_name t'"
  show "k_id s' = k_id t'"
  proof (cases "k_id s = k_id k"; cases "k_id t = k_id k")
    assume "k_id s \<noteq> k_id k" "k_id t \<noteq> k_id k"
    then show ?thesis using tasks_okD(1) [OF assms(1) mem] live by (simp add: eq write_task_def)
  next
    assume "k_id s = k_id k" "k_id t \<noteq> k_id k"
    then show ?thesis using assms(2) [OF mem] live by (simp add: eq write_task_def)
  next
    assume "k_id s \<noteq> k_id k" "k_id t = k_id k"
    then show ?thesis using assms(2) [OF mem(2,1)] live by (simp add: eq write_task_def)
  qed (simp add: eq)
qed

text \<open>A rewrite that keeps ids, tasks and slots keeps the run table's constraints.\<close>

lemma runs_ok_map:
  assumes "runs_ok ids rs"
    and "\<And>r. r \<in> set rs \<Longrightarrow> n_id (r_run (f r)) = n_id (r_run r) \<and> n_task_id (r_run (f r)) = n_task_id (r_run r)
          \<and> n_due_at (r_run (f r)) = n_due_at (r_run r)"
  shows "runs_ok ids (map f rs)"
proof (rule runs_okI)
  have "map (\<lambda>r. n_id (r_run r)) (map f rs) = map (\<lambda>r. n_id (r_run r)) rs" using assms(2) by simp
  then show "distinct (map (\<lambda>r. n_id (r_run r)) (map f rs))" by (simp only: runs_okD(1) [OF assms(1)])
next
  fix r assume "r \<in> set (map f rs)"
  then show "n_task_id (r_run r) \<in> ids" using assms(2) runs_okD(2) [OF assms(1)] by auto
next
  fix r' q'
  assume "r' \<in> set (map f rs)" "q' \<in> set (map f rs)"
  then obtain r q where "r \<in> set rs" "q \<in> set rs" "r' = f r" "q' = f q" by auto
  then show "n_due_at (r_run r') \<noteq> None \<Longrightarrow> n_due_at (r_run r') = n_due_at (r_run q')
      \<Longrightarrow> n_task_id (r_run r') = n_task_id (r_run q') \<Longrightarrow> n_id (r_run r') = n_id (r_run q')"
    using assms(2) [of r] assms(2) [of q] runs_okD(3) [OF assms(1), of r q] by simp
qed

lemma runs_ok_append:
  assumes "runs_ok ids rs" "\<forall>r \<in> set rs. n_id (r_run r) \<noteq> n_id (r_run q)" "n_task_id (r_run q) \<in> ids"
    and "\<forall>r \<in> set rs. n_due_at (r_run q) \<noteq> None \<longrightarrow>
          \<not> (n_task_id (r_run r) = n_task_id (r_run q) \<and> n_due_at (r_run r) = n_due_at (r_run q))"
  shows "runs_ok ids (rs @ [q])"
proof (rule runs_okI)
  show "distinct (map (\<lambda>r. n_id (r_run r)) (rs @ [q]))" using runs_okD(1) [OF assms(1)] assms(2) by auto
  show "\<And>r. r \<in> set (rs @ [q]) \<Longrightarrow> n_task_id (r_run r) \<in> ids" using runs_okD(2) [OF assms(1)] assms(3) by auto
next
  fix r p
  assume "r \<in> set (rs @ [q])" "p \<in> set (rs @ [q])" "n_due_at (r_run r) \<noteq> None"
    "n_due_at (r_run r) = n_due_at (r_run p)" "n_task_id (r_run r) = n_task_id (r_run p)"
  then show "n_id (r_run r) = n_id (r_run p)"
    using runs_okD(3) [OF assms(1), of r p] assms(4) by auto
qed

lemma runs_ok_write:
  assumes "runs_ok ids rs"
    and "\<And>r q. r \<in> set rs \<Longrightarrow> q \<in> set rs \<Longrightarrow> n_id (r_run r) = n_id n \<Longrightarrow> n_id (r_run q) \<noteq> n_id n
         \<Longrightarrow> n_due_at n \<noteq> None \<Longrightarrow> n_task_id (r_run q) = n_task_id (r_run r) \<Longrightarrow> n_due_at (r_run q) \<noteq> n_due_at n"
  shows "runs_ok ids (map (write_run n) rs)"
proof (rule runs_okI)
  have "map (\<lambda>r. n_id (r_run r)) (map (write_run n) rs) = map (\<lambda>r. n_id (r_run r)) rs" by simp
  then show "distinct (map (\<lambda>r. n_id (r_run r)) (map (write_run n) rs))" by (simp only: runs_okD(1) [OF assms(1)])
next
  fix r assume "r \<in> set (map (write_run n) rs)"
  then show "n_task_id (r_run r) \<in> ids" using runs_okD(2) [OF assms(1)] by auto
next
  fix r' q'
  assume "r' \<in> set (map (write_run n) rs)" "q' \<in> set (map (write_run n) rs)"
  then obtain r q where mem: "r \<in> set rs" "q \<in> set rs" and eq: "r' = write_run n r" "q' = write_run n q" by auto
  assume same: "n_due_at (r_run r') \<noteq> None" "n_due_at (r_run r') = n_due_at (r_run q')"
    "n_task_id (r_run r') = n_task_id (r_run q')"
  show "n_id (r_run r') = n_id (r_run q')"
  proof (cases "n_id (r_run r) = n_id n"; cases "n_id (r_run q) = n_id n")
    assume "n_id (r_run r) \<noteq> n_id n" "n_id (r_run q) \<noteq> n_id n"
    then show ?thesis using runs_okD(3) [OF assms(1) mem] same by (simp add: eq write_run_def)
  next
    assume "n_id (r_run r) = n_id n" "n_id (r_run q) \<noteq> n_id n"
    then show ?thesis using assms(2) [OF mem] same by (simp add: eq write_run_def)
  next
    assume "n_id (r_run r) \<noteq> n_id n" "n_id (r_run q) = n_id n"
    then show ?thesis using assms(2) [OF mem(2,1)] same by (simp add: eq write_run_def)
  qed (simp add: eq)
qed

lemma revisions_ok_insert:
  assumes "revisions_ok ids ps" "\<forall>q \<in> set ps. p_id q \<noteq> p_id p" "p_task_id p \<in> ids"
    and "\<forall>q \<in> set ps. \<not> (p_task_id q = p_task_id p \<and> p_version q = p_version p)"
    and "\<And>q. p_id (f q) = p_id q \<and> p_task_id (f q) = p_task_id q \<and> p_version (f q) = p_version q"
  shows "revisions_ok ids (map f (ps @ [p]))"
proof -
  have "map p_id (map f (ps @ [p])) = map p_id (ps @ [p])"
    "map (\<lambda>p. (p_task_id p, p_version p)) (map f (ps @ [p])) = map (\<lambda>p. (p_task_id p, p_version p)) (ps @ [p])"
    using assms(5) by simp_all
  moreover have "p_task_id q \<in> ids" if "q \<in> set (map f (ps @ [p]))" for q
    using that assms by (auto simp: revisions_ok_def)
  moreover have "distinct (map p_id (ps @ [p]))" using assms(1,2) by (auto simp: revisions_ok_def)
  moreover have "distinct (map (\<lambda>p. (p_task_id p, p_version p)) (ps @ [p]))"
    using assms(1,4) by (auto simp: revisions_ok_def)
  ultimately show ?thesis unfolding revisions_ok_def by (simp only: ball_simps) blast
qed

lemma known_task: "list_ex (\<lambda>k. k_id k = tid) ks \<longleftrightarrow> tid \<in> k_id ` set ks"
  by (auto simp: list_ex_iff)

lemma insert_task_ok:
  assumes "db_ok db" "insert_task db k = Inr db'"
  shows "db_ok db' \<and> b_tasks db' = b_tasks db @ [k] \<and> b_runs db' = b_runs db \<and> b_revisions db' = b_revisions db"
proof -
  have fresh: "\<forall>t \<in> set (b_tasks db). k_id t \<noteq> k_id k"
    "k_deleted_at k = None \<longrightarrow> (\<forall>t \<in> set (b_tasks db). k_name t = k_name k \<longrightarrow> k_deleted_at t \<noteq> None)"
    and db': "db' = db\<lparr>b_tasks := b_tasks db @ [k]\<rparr>"
    using assms(2) by (auto simp: insert_task_def list_ex_iff split: if_splits)
  have "tasks_ok (b_tasks db')" using tasks_ok_insert [OF _ fresh] assms(1) by (simp add: db' db_ok_def)
  moreover have "runs_ok (k_id ` set (b_tasks db')) (b_runs db')" "revisions_ok (k_id ` set (b_tasks db')) (b_revisions db')"
    using assms(1) by (auto simp: db' db_ok_def runs_ok_def revisions_ok_def)
  ultimately show ?thesis by (simp add: db_ok_def db')
qed

lemma update_task_ok:
  assumes "db_ok db" "update_task db k = Inr db'"
  shows "db_ok db' \<and> b_tasks db' = map (write_task k) (b_tasks db) \<and> b_runs db' = b_runs db \<and> b_revisions db' = b_revisions db"
proof -
  have free: "\<not> name_conflict db k" and db': "db' = db\<lparr>b_tasks := map (write_task k) (b_tasks db)\<rparr>"
    using assms(2) by (simp_all add: update_task_def split: if_splits)
  have "tasks_ok (b_tasks db')"
    unfolding db' using free assms(1)
    by (auto simp: name_conflict_def list_ex_iff db_ok_def intro!: tasks_ok_write)
  then show ?thesis using assms(1) by (simp add: db_ok_def db')
qed

lemma insert_run_ok:
  assumes "db_ok db" "insert_run_owned db n owner = Inr db'"
  shows "db_ok db' \<and> b_tasks db' = b_tasks db \<and> b_revisions db' = b_revisions db
    \<and> b_runs db' = b_runs db @ [\<lparr>r_run = n, r_owner = owner, r_output = None\<rparr>]
    \<and> (\<forall>r \<in> set (b_runs db). n_id (r_run r) \<noteq> n_id n)"
proof -
  have fresh: "\<forall>r \<in> set (b_runs db). n_id (r_run r) \<noteq> n_id n" "n_task_id n \<in> k_id ` set (b_tasks db)"
    "\<forall>r \<in> set (b_runs db). n_due_at n \<noteq> None \<longrightarrow> \<not> (n_task_id (r_run r) = n_task_id n \<and> n_due_at (r_run r) = n_due_at n)"
    and db': "db' = db\<lparr>b_runs := b_runs db @ [\<lparr>r_run = n, r_owner = owner, r_output = None\<rparr>]\<rparr>"
    using assms(2) by (simp_all add: insert_run_owned_def known_task split: if_splits) (auto simp: list_ex_iff)
  have "runs_ok (k_id ` set (b_tasks db')) (b_runs db')"
    unfolding db' using fresh assms(1) by (auto simp: db_ok_def intro!: runs_ok_append)
  then show ?thesis using assms(1) fresh(1) by (simp add: db_ok_def db')
qed

lemma update_run_ok:
  assumes "db_ok db" "update_run db n = Inr db'"
  shows "db_ok db' \<and> b_tasks db' = b_tasks db \<and> b_revisions db' = b_revisions db
    \<and> b_runs db' = map (write_run n) (b_runs db)"
proof -
  have free: "\<not> slot_conflict db n" and db': "db' = db\<lparr>b_runs := map (write_run n) (b_runs db)\<rparr>"
    using assms(2) by (simp_all add: update_run_def split: if_splits)
  have "runs_ok (k_id ` set (b_tasks db)) (map (write_run n) (b_runs db))"
    using assms(1) by (rule runs_ok_write [OF conjunct1 [OF conjunct2 [OF iffD1 [OF db_ok_def]]]])
       (use free in \<open>auto simp: slot_conflict_def list_ex_iff\<close>)
  then show ?thesis using assms(1) by (simp add: db_ok_def db')
qed

lemma rewrite_runs_ok:
  assumes "db_ok db" "\<And>r. r \<in> set (b_runs db) \<Longrightarrow> n_id (r_run (f r)) = n_id (r_run r)
      \<and> n_task_id (r_run (f r)) = n_task_id (r_run r) \<and> n_due_at (r_run (f r)) = n_due_at (r_run r)"
  shows "db_ok (db\<lparr>b_runs := map f (b_runs db)\<rparr>)"
  using runs_ok_map [of "k_id ` set (b_tasks db)" "b_runs db" f] assms by (simp add: db_ok_def)

lemma quiet_statements_ok:
  assumes "db_ok db"
  shows "db_ok (set_run_output db rid answer)" "db_ok (mark_run_conversation_deleted db rid)"
    "db_ok (snd (reap_running_run db rid at err reason remark))" "db_ok (snd (mark_interrupted_runs db at))"
  unfolding set_run_output_def mark_run_conversation_deleted_def reap_running_run_def mark_interrupted_runs_def snd_conv
  by (rule rewrite_runs_ok [OF assms], simp add: settle_failed_def)+

lemma demote_older_keys [simp]:
  "p_id (demote_older p q) = p_id q" "p_task_id (demote_older p q) = p_task_id q" "p_version (demote_older p q) = p_version q"
  "p_prompt (demote_older p q) = p_prompt q" "demote_older p p = p"
  by (simp_all add: demote_older_def)

lemma insert_revision_Inr:
  "insert_revision db p = Inr db' \<longleftrightarrow>
     (\<forall>q \<in> set (b_revisions db). p_id q \<noteq> p_id p)
     \<and> (\<forall>q \<in> set (b_revisions db). \<not> (p_task_id q = p_task_id p \<and> p_version q = p_version p))
     \<and> p_task_id p \<in> k_id ` set (b_tasks db)
     \<and> db' = db\<lparr>b_revisions := map (demote_older p) (b_revisions db) @ [p]\<rparr>"
  by (simp add: insert_revision_def known_task) (auto simp: list_ex_iff)

lemma insert_revision_ok:
  assumes "db_ok db" "insert_revision db p = Inr db'"
  shows "db_ok db' \<and> b_tasks db' = b_tasks db \<and> b_runs db' = b_runs db"
proof -
  note new = assms(2) [unfolded insert_revision_Inr]
  have "revisions_ok (k_id ` set (b_tasks db)) (map (demote_older p) (b_revisions db @ [p]))"
    using new assms(1) by (intro revisions_ok_insert) (simp_all add: db_ok_def)
  then show ?thesis using assms(1) new by (simp add: db_ok_def)
qed

end
