(* ===== verification/Task_Service.thy ===== *)
theory Task_Service
  imports Task_Store
begin

text \<open>
  What a user does to a scheduled task: the form service \<open>src/host/src/tasks/service.rs\<close> and the two
  operations it shares with the phone, \<open>accept_revision\<close> and \<open>apply_task_enabled\<close> of
  \<open>src/host/src/tasks.rs\<close>. Every operation opens the store, reads one task and writes it back whole; the
  answer is the task (the view built from it is presentation) or the error text, next to the tables it
  leaves, which a refused operation may have changed.

  Parameters: \<open>next\<close> is \<open>next_due\<close> of the kernel on the task's calendar (\<open>None\<close>: it panics), \<open>zone\<close> the
  time zone field of the form, and the ids and readings of the clock each call takes.
\<close>

section \<open>The form\<close>

record task_input =
  i_name :: string
  i_prompt :: string
  i_cwd :: string
  i_model_id :: "string option"
  i_thinking_level :: "string option"
  i_timezone :: "string option"
  i_session_policy :: "string option"
  i_conversation_mode :: "string option"
  i_session_retention :: "string option"
  i_trigger_kind :: "string option"
  i_trigger :: "string option"
  i_enabled :: "bool option"

definition form_conversation_mode :: "string option \<Rightarrow> conversation_mode" where
  "form_conversation_mode raw = (if raw = Some ''chat'' then ChatMode else WorkspaceMode)"

definition form_session_policy :: "string option \<Rightarrow> session_policy" where
  "form_session_policy raw = (if raw = Some ''existing'' then PolicyExisting else PolicyNew)"

definition form_session_retention :: "string option \<Rightarrow> session_policy \<Rightarrow> conversation_retention" where
  "form_session_retention raw policy =
     (if raw = Some ''delete'' \<and> policy = PolicyNew then DeleteConversation else KeepConversation)"

definition form_trigger_kind :: "string option \<Rightarrow> trigger_kind" where
  "form_trigger_kind raw = (if raw = Some ''schedule'' then TriggerSchedule else TriggerManual)"

text \<open>\<open>debug\<close> prints a string with its quotes and escapes.\<close>

definition parse_timezone_field ::
  "(string \<Rightarrow> 'z option) \<Rightarrow> string option \<Rightarrow> 'z \<Rightarrow> ('z \<Rightarrow> string) \<Rightarrow> (string \<Rightarrow> string) \<Rightarrow> string option
     \<Rightarrow> string + string option" where
  "parse_timezone_field parse host fallback name debug raw =
     (case raw of
        Some r \<Rightarrow>
          if trim r = [] then Inr (Some (resolve_timezone parse host fallback name None))
          else (case parse (trim r) of
                  Some z \<Rightarrow> Inr (Some (name z))
                | None \<Rightarrow> Inl (''unknown timezone '' @ debug (trim r) @ '': expected an IANA name like Asia/Shanghai''))
      | None \<Rightarrow> Inr (Some (resolve_timezone parse host fallback name None)))"

section \<open>Operations\<close>

type_synonym next_due_fn = "task \<Rightarrow> int \<Rightarrow> int option option"
type_synonym zone_fn = "string option \<Rightarrow> string + string option"

definition write_back :: "task_db \<Rightarrow> task \<Rightarrow> (string + task) \<times> task_db" where
  "write_back db k =
     (case update_task db k of Inl e \<Rightarrow> (Inl (store_error_text e), db) | Inr db' \<Rightarrow> (Inr k, db'))"

definition new_task :: "string \<Rightarrow> task_input \<Rightarrow> string option \<Rightarrow> int \<Rightarrow> task" where
  "new_task rid input tz now =
     \<lparr>k_id = rid, k_name = i_name input,
      k_enabled = (case i_enabled input of Some b \<Rightarrow> b | None \<Rightarrow> True),
      k_prompt = i_prompt input, k_prompt_version = 1, k_cwd = i_cwd input, k_model_id = i_model_id input,
      k_thinking_level = i_thinking_level input, k_timezone = tz,
      k_session_policy = form_session_policy (i_session_policy input),
      k_conversation_mode = form_conversation_mode (i_conversation_mode input), k_thread_id = None,
      k_trigger_kind = form_trigger_kind (i_trigger_kind input),
      k_trigger_json = (case i_trigger input of Some t \<Rightarrow> t | None \<Rightarrow> ''{}''),
      k_next_due_at = None, k_pending_request_at = None, k_pending_origin = None, k_pending_actor = None,
      k_session_retention =
        form_session_retention (i_session_retention input) (form_session_policy (i_session_policy input)),
      k_created_at = now, k_updated_at = now, k_deleted_at = None\<rparr>"

definition create_task ::
  "next_due_fn \<Rightarrow> zone_fn \<Rightarrow> string \<Rightarrow> int \<Rightarrow> task_input \<Rightarrow> task_db \<Rightarrow> (string + task) \<times> task_db" where
  "create_task next zone rid now input db =
     (case zone (i_timezone input) of
        Inl e \<Rightarrow> (Inl e, db)
      | Inr tz \<Rightarrow>
          (let k = new_task rid input tz now in
           case (if k_trigger_kind k = TriggerSchedule then next k (now - 1) else Some None) of
             None \<Rightarrow> (Inl panic_error, db)
           | Some due \<Rightarrow>
               (case insert_task db (k\<lparr>k_next_due_at := due\<rparr>) of
                  Inl e \<Rightarrow> (Inl (store_error_text e), db)
                | Inr db' \<Rightarrow> (Inr (k\<lparr>k_next_due_at := due\<rparr>), db'))))"

text \<open>The rows one prompt change records, each its own statement; the first refusal stops.\<close>

fun insert_revisions :: "task_db \<Rightarrow> prompt_revision list \<Rightarrow> store_error option \<times> task_db" where
  "insert_revisions db [] = (None, db)"
| "insert_revisions db (p # ps) =
     (case insert_revision db p of Inl e \<Rightarrow> (Some e, db) | Inr db' \<Rightarrow> insert_revisions db' ps)"

definition form_fields :: "task_input \<Rightarrow> task \<Rightarrow> task" where
  "form_fields input k =
     k\<lparr>k_name := i_name input, k_prompt := i_prompt input, k_cwd := i_cwd input,
       k_model_id := i_model_id input, k_thinking_level := i_thinking_level input\<rparr>"

definition form_choices :: "task_input \<Rightarrow> task \<Rightarrow> task" where
  "form_choices input k =
     k\<lparr>k_session_policy := form_session_policy (i_session_policy input),
       k_session_retention :=
         form_session_retention (i_session_retention input) (form_session_policy (i_session_policy input)),
       k_conversation_mode := form_conversation_mode (i_conversation_mode input),
       k_trigger_kind := form_trigger_kind (i_trigger_kind input),
       k_trigger_json := (case i_trigger input of Some t \<Rightarrow> t | None \<Rightarrow> k_trigger_json k),
       k_enabled := (case i_enabled input of Some b \<Rightarrow> b | None \<Rightarrow> k_enabled k)\<rparr>"

text \<open>The clock is read for the rows, for the time of the update and for the next slot.\<close>

definition edit_task ::
  "next_due_fn \<Rightarrow> zone_fn \<Rightarrow> string \<Rightarrow> string \<Rightarrow> int \<Rightarrow> int \<Rightarrow> int \<Rightarrow> string \<Rightarrow> task_input \<Rightarrow> task_db
     \<Rightarrow> (string + task) \<times> task_db" where
  "edit_task next zone id1 id2 at1 at2 at3 rid input db =
     (case get_task db rid of
        None \<Rightarrow> (Inl ''task not found'', db)
      | Some k \<Rightarrow>
          (let rows = (if i_prompt input \<noteq> k_prompt k
                       then prompt_change_revisions k (list_revisions db (k_id k)) (i_prompt input) ''user'' None at1 id1 id2
                       else [])
           in case (case i_timezone input of None \<Rightarrow> Inr (k_timezone k) | Some raw \<Rightarrow> zone (Some raw)) of
                Inl e \<Rightarrow> (Inl e, db)
              | Inr tz \<Rightarrow>
                  (let k1 = (form_choices input ((form_fields input k)\<lparr>k_timezone := tz\<rparr>))\<lparr>k_updated_at := at2\<rparr> in
                   case (if k_trigger_kind k1 = TriggerSchedule then next k1 (at3 - 1) else Some None) of
                     None \<Rightarrow> (Inl panic_error, db)
                   | Some due \<Rightarrow>
                       (case insert_revisions db rows of
                          (Some e, db1) \<Rightarrow> (Inl (store_error_text e), db1)
                        | (None, db1) \<Rightarrow>
                            write_back db1
                              (k1\<lparr>k_next_due_at := due,
                                  k_prompt_version := (if rows = [] then k_prompt_version k1 else p_version (last rows))\<rparr>)))))"

definition delete_task :: "int \<Rightarrow> int \<Rightarrow> string \<Rightarrow> task_db \<Rightarrow> (string + task) \<times> task_db" where
  "delete_task at1 at2 rid db =
     (case get_task db rid of
        None \<Rightarrow> (Inl ''task not found'', db)
      | Some k \<Rightarrow> write_back db (k\<lparr>k_deleted_at := Some at1, k_enabled := False, k_updated_at := at2\<rparr>))"

definition apply_task_enabled :: "next_due_fn \<Rightarrow> task \<Rightarrow> bool \<Rightarrow> int \<Rightarrow> task option" where
  "apply_task_enabled next k enabled now =
     (let k1 = k\<lparr>k_enabled := enabled\<rparr> in
      map_option (\<lambda>due. k1\<lparr>k_next_due_at := due, k_updated_at := now\<rparr>)
        (if enabled \<and> k_trigger_kind k1 = TriggerSchedule then next k1 now else Some (k_next_due_at k1)))"

definition set_task_enabled ::
  "next_due_fn \<Rightarrow> string \<Rightarrow> bool \<Rightarrow> int \<Rightarrow> task_db \<Rightarrow> (string + task) \<times> task_db" where
  "set_task_enabled next rid enabled now db =
     (case get_task db rid of
        None \<Rightarrow> (Inl ''task not found'', db)
      | Some k \<Rightarrow>
          (case apply_task_enabled next k enabled now of
             None \<Rightarrow> (Inl panic_error, db) | Some k1 \<Rightarrow> write_back db k1))"

definition run_task_now :: "string \<Rightarrow> int \<Rightarrow> int \<Rightarrow> task_db \<Rightarrow> (string + task) \<times> task_db" where
  "run_task_now rid at1 at2 db =
     (case get_task db rid of
        None \<Rightarrow> (Inl ''task not found'', db)
      | Some k \<Rightarrow>
          write_back db
            (k\<lparr>k_pending_request_at := Some at1, k_pending_origin := Some FromUi,
               k_pending_actor := Some ''user'', k_updated_at := at2\<rparr>))"

definition applied_rows ::
  "task \<Rightarrow> prompt_revision list \<Rightarrow> prompt_revision \<Rightarrow> int \<Rightarrow> string \<Rightarrow> string \<Rightarrow> prompt_revision list" where
  "applied_rows k history p at id1 id2 =
     prompt_change_revisions k history (p_prompt p) REVISION_SOURCE_ROLLBACK
       (Some (''applied revision '' @ p_id p @ '' (v'' @ dec_int (p_version p) @ '')'')) at id1 id2"

definition accept_revision ::
  "string \<Rightarrow> string \<Rightarrow> int \<Rightarrow> int \<Rightarrow> string \<Rightarrow> string \<Rightarrow> task_db \<Rightarrow> (string + task) \<times> task_db" where
  "accept_revision id1 id2 at1 at2 task_id revision_id db =
     (case get_task db task_id of
        None \<Rightarrow> (Inl ''task not found'', db)
      | Some k \<Rightarrow>
          (let history = list_revisions db task_id in
           case find (\<lambda>p. p_id p = revision_id) history of
             None \<Rightarrow> (Inl ''revision not found'', db)
           | Some p \<Rightarrow>
               (let rows = applied_rows k history p at1 id1 id2
                in if rows = [] then (Inr k, db)
                   else (case insert_revisions db rows of
                           (Some e, db1) \<Rightarrow> (Inl (store_error_text e), db1)
                         | (None, db1) \<Rightarrow>
                             write_back db1
                               (k\<lparr>k_prompt := p_prompt (last rows), k_prompt_version := p_version (last rows),
                                  k_updated_at := at2\<rparr>)))))"

section \<open>The history of a prompt\<close>

definition versions :: "task_db \<Rightarrow> string \<Rightarrow> prompt_revision list" where
  "versions db rid = filter (\<lambda>p. p_task_id p = rid) (b_revisions db)"

text \<open>Either the first prompt is still in force and nothing is recorded, or every version from the first to the
  current one is, exactly the current one is active, and it holds the task's prompt.\<close>

definition history_ok :: "task_db \<Rightarrow> task \<Rightarrow> bool" where
  "history_ok db k \<longleftrightarrow>
     (versions db (k_id k) = [] \<and> k_prompt_version k = 1
      \<or> 1 \<le> k_prompt_version k
        \<and> p_version ` set (versions db (k_id k)) = {1..k_prompt_version k}
        \<and> (\<forall>p \<in> set (versions db (k_id k)).
             p_status p \<noteq> LEGACY_PROPOSED_STATUS
             \<and> (p_status p = REVISION_STATUS_ACTIVE \<longleftrightarrow> p_version p = k_prompt_version k)
             \<and> (p_version p = k_prompt_version k \<longrightarrow> p_prompt p = k_prompt k)))"

lemma set_list_revisions [simp]: "set (list_revisions db rid) = set (versions db rid)"
  by (simp add: list_revisions_def versions_def)

lemma versions_insert:
  "insert_revision db p = Inr db' \<Longrightarrow>
   versions db' rid = map (demote_older p) (versions db rid) @ (if p_task_id p = rid then [p] else [])"
  by (auto simp: insert_revision_Inr versions_def filter_map comp_def)

lemma versions_other [simp]: "p_task_id p \<noteq> rid \<Longrightarrow> map (demote_older p) (versions db rid) = versions db rid"
  by (rule map_idI) (auto simp: versions_def demote_older_def)

text \<open>The row of the version a change leaves behind, and the row of the new one.\<close>

definition left_row :: "task \<Rightarrow> int \<Rightarrow> string \<Rightarrow> prompt_revision" where
  "left_row k at rid =
     \<lparr>p_id = rid, p_task_id = k_id k, p_version = k_prompt_version k, p_prompt = k_prompt k,
      p_source = REVISION_SOURCE_SUPERSEDED, p_status = REVISION_STATUS_SUPERSEDED, p_reason = None,
      p_confidence = None, p_source_run_id = None, p_created_at = at\<rparr>"

definition next_row :: "task \<Rightarrow> string \<Rightarrow> string \<Rightarrow> string option \<Rightarrow> int \<Rightarrow> string \<Rightarrow> prompt_revision" where
  "next_row k new_prompt source reason at rid =
     \<lparr>p_id = rid, p_task_id = k_id k, p_version = k_prompt_version k + 1, p_prompt = new_prompt,
      p_source = source, p_status = REVISION_STATUS_ACTIVE, p_reason = reason, p_confidence = None,
      p_source_run_id = None, p_created_at = at\<rparr>"

lemma row_simps [simp]:
  "p_id (left_row k at rid) = rid" "p_task_id (left_row k at rid) = k_id k"
  "p_version (left_row k at rid) = k_prompt_version k" "p_prompt (left_row k at rid) = k_prompt k"
  "p_status (left_row k at rid) = REVISION_STATUS_SUPERSEDED"
  "p_id (next_row k new source reason at rid) = rid" "p_task_id (next_row k new source reason at rid) = k_id k"
  "p_version (next_row k new source reason at rid) = k_prompt_version k + 1"
  "p_prompt (next_row k new source reason at rid) = new"
  "p_status (next_row k new source reason at rid) = REVISION_STATUS_ACTIVE"
  by (simp_all add: left_row_def next_row_def)

lemma status_names [simp]:
  "REVISION_STATUS_ACTIVE \<noteq> REVISION_STATUS_SUPERSEDED" "REVISION_STATUS_SUPERSEDED \<noteq> REVISION_STATUS_ACTIVE"
  "REVISION_STATUS_ACTIVE \<noteq> LEGACY_PROPOSED_STATUS" "REVISION_STATUS_SUPERSEDED \<noteq> LEGACY_PROPOSED_STATUS"
  by (simp_all add: REVISION_STATUS_ACTIVE_def REVISION_STATUS_SUPERSEDED_def LEGACY_PROPOSED_STATUS_def)

lemma change_rows:
  "prompt_change_revisions k history new source reason at id1 id2 =
     (if new = k_prompt k then []
      else (if list_ex (\<lambda>r. p_version r = k_prompt_version k \<and> p_status r \<noteq> LEGACY_PROPOSED_STATUS) history
            then [] else [left_row k at id1]) @ [next_row k new source reason at id2])"
  by (simp add: prompt_change_revisions_def left_row_def next_row_def Let_def)

lemma demote_older_status:
  "p_status (demote_older p q) =
     (if p_status p = REVISION_STATUS_ACTIVE \<and> p_task_id q = p_task_id p \<and> p_version q < p_version p
         \<and> p_status q = REVISION_STATUS_ACTIVE
      then REVISION_STATUS_SUPERSEDED else p_status q)"
  by (simp add: demote_older_def REVISION_STATUS_ACTIVE_def)

lemma versions_task: "p \<in> set (versions db rid) \<Longrightarrow> p_task_id p = rid \<and> p \<in> set (b_revisions db)"
  by (simp add: versions_def)

text \<open>One recorded history extended by the next version.\<close>

lemma extend_history:
  assumes vs: "p_version ` set (versions db (k_id k)) = {1..v}" "1 \<le> v" "k_prompt_version k = v"
    "\<forall>p \<in> set (versions db (k_id k)). p_status p \<noteq> LEGACY_PROPOSED_STATUS"
    and fresh: "rid \<notin> p_id ` set (b_revisions db)" "k_id k \<in> k_id ` set (b_tasks db)"
    and p_def: "p = next_row k new source reason at rid"
  shows "\<exists>db'. insert_revision db p = Inr db' \<and> b_tasks db' = b_tasks db
    \<and> versions db' (k_id k) = map (demote_older p) (versions db (k_id k)) @ [p]
    \<and> (\<forall>other. other \<noteq> k_id k \<longrightarrow> versions db' other = versions db other)
    \<and> p_version ` set (versions db' (k_id k)) = {1..v + 1}
    \<and> (\<forall>q \<in> set (versions db' (k_id k)). p_status q \<noteq> LEGACY_PROPOSED_STATUS
         \<and> (p_status q = REVISION_STATUS_ACTIVE \<longleftrightarrow> p_version q = v + 1)
         \<and> (p_version q = v + 1 \<longrightarrow> p_prompt q = new))"
proof -
  have range: "1 \<le> p_version q \<and> p_version q \<le> v" if "q \<in> set (versions db (k_id k))" for q
    using vs(1) that by (metis atLeastAtMost_iff imageI)
  have "\<not> (p_task_id q = k_id k \<and> p_version q = v + 1)" if "q \<in> set (b_revisions db)" for q
    using range [of q] that by (auto simp: versions_def)
  then obtain db' where db': "insert_revision db p = Inr db'"
    using fresh vs(3) by (auto simp: insert_revision_Inr p_def image_iff)
  have at: "versions db' (k_id k) = map (demote_older p) (versions db (k_id k)) @ [p]"
    using versions_insert [OF db'] by (simp add: p_def)
  moreover have "versions db' other = versions db other" if "other \<noteq> k_id k" for other
    using versions_insert [OF db', of other] that by (simp add: p_def)
  moreover have "p_version ` set (versions db' (k_id k)) = {1..v + 1}"
  proof -
    have "p_version ` set (versions db' (k_id k)) = insert (v + 1) (p_version ` set (versions db (k_id k)))"
      by (simp add: at p_def image_image vs(3))
    also have "\<dots> = {1..v + 1}" using vs(1,2) by auto
    finally show ?thesis .
  qed
  moreover have "p_status q \<noteq> LEGACY_PROPOSED_STATUS
      \<and> (p_status q = REVISION_STATUS_ACTIVE \<longleftrightarrow> p_version q = v + 1)
      \<and> (p_version q = v + 1 \<longrightarrow> p_prompt q = new)" if q: "q \<in> set (versions db' (k_id k))" for q
  proof (cases "q = p")
    case False
    then obtain r where r: "r \<in> set (versions db (k_id k))" "q = demote_older p r" using q by (auto simp: at)
    then show ?thesis
      using range [of r] versions_task [of r] vs(3,4) by (simp add: demote_older_status p_def)
  qed (simp add: p_def vs(3))
  moreover have "b_tasks db' = b_tasks db" using db' by (simp add: insert_revision_Inr)
  ultimately show ?thesis using db' by blast
qed

lemma insert_left_row:
  assumes "versions db (k_id k) = []" "rid \<notin> p_id ` set (b_revisions db)" "k_id k \<in> k_id ` set (b_tasks db)"
  shows "\<exists>db'. insert_revision db (left_row k at rid) = Inr db' \<and> b_tasks db' = b_tasks db
    \<and> versions db' (k_id k) = [left_row k at rid]
    \<and> (\<forall>other. other \<noteq> k_id k \<longrightarrow> versions db' other = versions db other)
    \<and> p_id ` set (b_revisions db') = insert rid (p_id ` set (b_revisions db))"
proof -
  have "\<forall>q \<in> set (b_revisions db). p_task_id q \<noteq> k_id k"
    using assms(1) by (simp add: versions_def filter_eq_Nil_iff)
  then obtain db' where db': "insert_revision db (left_row k at rid) = Inr db'"
    using assms(2,3) by (auto simp: insert_revision_Inr image_iff)
  have "versions db' (k_id k) = [left_row k at rid]"
    using versions_insert [OF db', of "k_id k"] assms(1) by simp
  moreover have "versions db' other = versions db other" if "other \<noteq> k_id k" for other
    using versions_insert [OF db', of other] that by simp
  moreover have "p_id ` set (b_revisions db') = insert rid (p_id ` set (b_revisions db))" "b_tasks db' = b_tasks db"
    using db' by (simp_all add: insert_revision_Inr image_image)
  ultimately show ?thesis using db' by blast
qed

lemma insert_revisions_db_ok:
  "db_ok db \<Longrightarrow> db_ok (snd (insert_revisions db ps)) \<and> b_tasks (snd (insert_revisions db ps)) = b_tasks db
     \<and> b_runs (snd (insert_revisions db ps)) = b_runs db"
  by (induction db ps rule: insert_revisions.induct)
     (auto split: sum.split dest: insert_revision_ok)

text \<open>What every prompt change does to a complete history.\<close>

lemma record_change:
  assumes hist: "history_ok db k" and task: "k_id k \<in> k_id ` set (b_tasks db)" and new: "new \<noteq> k_prompt k"
    and ids: "id1 \<noteq> id2" "id1 \<notin> p_id ` set (b_revisions db)" "id2 \<notin> p_id ` set (b_revisions db)"
    and rows: "rows = prompt_change_revisions k (list_revisions db (k_id k)) new source reason at id1 id2"
  shows "\<exists>db'. insert_revisions db rows = (None, db') \<and> rows \<noteq> []
    \<and> p_version (last rows) = k_prompt_version k + 1 \<and> p_prompt (last rows) = new
    \<and> (\<forall>other. other \<noteq> k_id k \<longrightarrow> versions db' other = versions db other)
    \<and> (\<forall>k'. k_id k' = k_id k \<and> k_prompt_version k' = k_prompt_version k + 1 \<and> k_prompt k' = new \<longrightarrow> history_ok db' k')
    \<and> (\<forall>q \<in> set (versions db (k_id k)). \<exists>q' \<in> set (versions db' (k_id k)).
          p_id q' = p_id q \<and> p_version q' = p_version q \<and> p_prompt q' = p_prompt q)
    \<and> (\<exists>q \<in> set (versions db' (k_id k)). p_version q = k_prompt_version k \<and> p_prompt q = k_prompt k)"
proof (cases "versions db (k_id k) = []")
  case True
  define p where "p = next_row k new source reason at id2"
  have v: "k_prompt_version k = 1" using hist True by (auto simp: history_ok_def)
  have nil: "list_revisions db (k_id k) = []"
    using True by (simp add: list_revisions_def versions_def)
  have rows': "rows = [left_row k at id1, p]" using new by (simp add: rows change_rows nil p_def)
  obtain db1 where db1: "insert_revision db (left_row k at id1) = Inr db1" "b_tasks db1 = b_tasks db"
    "versions db1 (k_id k) = [left_row k at id1]" "\<forall>other. other \<noteq> k_id k \<longrightarrow> versions db1 other = versions db other"
    "p_id ` set (b_revisions db1) = insert id1 (p_id ` set (b_revisions db))"
    using insert_left_row [OF True ids(2) task, of at] by blast
  have "\<exists>db'. insert_revision db1 p = Inr db' \<and> b_tasks db' = b_tasks db1
    \<and> versions db' (k_id k) = map (demote_older p) (versions db1 (k_id k)) @ [p]
    \<and> (\<forall>other. other \<noteq> k_id k \<longrightarrow> versions db' other = versions db1 other)
    \<and> p_version ` set (versions db' (k_id k)) = {1..1 + 1}
    \<and> (\<forall>q \<in> set (versions db' (k_id k)). p_status q \<noteq> LEGACY_PROPOSED_STATUS
         \<and> (p_status q = REVISION_STATUS_ACTIVE \<longleftrightarrow> p_version q = 1 + 1)
         \<and> (p_version q = 1 + 1 \<longrightarrow> p_prompt q = new))"
    by (rule extend_history [OF _ _ v _ _ _ p_def]) (use db1 v ids task in auto)
  then obtain db' where db': "insert_revision db1 p = Inr db'"
    "versions db' (k_id k) = map (demote_older p) (versions db1 (k_id k)) @ [p]"
    "\<forall>other. other \<noteq> k_id k \<longrightarrow> versions db' other = versions db1 other"
    "p_version ` set (versions db' (k_id k)) = {1..1 + 1}"
    "\<forall>q \<in> set (versions db' (k_id k)). p_status q \<noteq> LEGACY_PROPOSED_STATUS
         \<and> (p_status q = REVISION_STATUS_ACTIVE \<longleftrightarrow> p_version q = 1 + 1)
         \<and> (p_version q = 1 + 1 \<longrightarrow> p_prompt q = new)" by blast
  have "insert_revisions db rows = (None, db')" by (simp add: rows' db1(1) db'(1))
  moreover have "p_version (last rows) = k_prompt_version k + 1 \<and> p_prompt (last rows) = new \<and> rows \<noteq> []"
    by (simp add: rows' p_def)
  moreover have "history_ok db' k'"
    if "k_id k' = k_id k" "k_prompt_version k' = k_prompt_version k + 1" "k_prompt k' = new" for k'
    using that db'(4,5) v by (simp add: history_ok_def)
  moreover have "\<exists>q \<in> set (versions db' (k_id k)). p_version q = k_prompt_version k \<and> p_prompt q = k_prompt k"
    by (simp add: db'(2) db1(3))
  ultimately show ?thesis using db1(4) db'(3) True by simp
next
  case False
  define p where "p = next_row k new source reason at id2"
  define v where "v = k_prompt_version k"
  have full: "p_version ` set (versions db (k_id k)) = {1..v}" "1 \<le> v"
    and good: "\<forall>p \<in> set (versions db (k_id k)). p_status p \<noteq> LEGACY_PROPOSED_STATUS"
      "\<forall>p \<in> set (versions db (k_id k)). p_version p = v \<longrightarrow> p_prompt p = k_prompt k"
    using hist False by (auto simp: history_ok_def v_def)
  from full obtain q0 where q0: "q0 \<in> set (versions db (k_id k))" "p_version q0 = v" by force
  have rows': "rows = [p]"
    using new q0 good(1) by (auto simp: rows change_rows p_def list_ex_iff v_def)
  obtain db' where db': "insert_revision db p = Inr db'"
    "versions db' (k_id k) = map (demote_older p) (versions db (k_id k)) @ [p]"
    "\<forall>other. other \<noteq> k_id k \<longrightarrow> versions db' other = versions db other"
    "p_version ` set (versions db' (k_id k)) = {1..v + 1}"
    "\<forall>q \<in> set (versions db' (k_id k)). p_status q \<noteq> LEGACY_PROPOSED_STATUS
         \<and> (p_status q = REVISION_STATUS_ACTIVE \<longleftrightarrow> p_version q = v + 1)
         \<and> (p_version q = v + 1 \<longrightarrow> p_prompt q = new)"
    using extend_history [OF full v_def [symmetric] good(1) ids(3) task p_def] by blast
  have "insert_revisions db rows = (None, db')" by (simp add: rows' db'(1))
  moreover have "p_version (last rows) = k_prompt_version k + 1 \<and> p_prompt (last rows) = new \<and> rows \<noteq> []"
    by (simp add: rows' p_def)
  moreover have "history_ok db' k'"
    if "k_id k' = k_id k" "k_prompt_version k' = k_prompt_version k + 1" "k_prompt k' = new" for k'
    using that db'(4,5) full(2) by (simp add: history_ok_def v_def)
  moreover have kept: "\<forall>q \<in> set (versions db (k_id k)). \<exists>q' \<in> set (versions db' (k_id k)).
          p_id q' = p_id q \<and> p_version q' = p_version q \<and> p_prompt q' = p_prompt q"
  proof
    fix q assume "q \<in> set (versions db (k_id k))"
    then show "\<exists>q' \<in> set (versions db' (k_id k)). p_id q' = p_id q \<and> p_version q' = p_version q \<and> p_prompt q' = p_prompt q"
      by (intro bexI [of _ "demote_older p q"]) (simp_all add: db'(2))
  qed
  moreover have "\<exists>q \<in> set (versions db' (k_id k)). p_version q = k_prompt_version k \<and> p_prompt q = k_prompt k"
    using kept q0 good(2) unfolding v_def by metis
  ultimately show ?thesis using db'(3) by simp
qed

lemma find_map_same: "(\<And>x. P (f x) = P x) \<Longrightarrow> find P (map f xs) = map_option f (find P xs)"
  by (induction xs) auto

lemma get_task_update:
  "update_task db k = Inr db' \<Longrightarrow> get_task db' rid = map_option (write_task k) (get_task db rid)"
  by (auto simp: update_task_def get_task_def find_map_same split: if_splits)

lemma get_task_id: "get_task db rid = Some k \<Longrightarrow> k_id k = rid \<and> k \<in> set (b_tasks db)"
  unfolding get_task_def by (drule find_SomeD) simp

lemma write_back_Inr:
  "write_back db k = (Inr k', db') \<longleftrightarrow> k' = k \<and> update_task db k = Inr db'"
  by (auto simp: write_back_def split: sum.splits)

text \<open>The last step of an edit, after the rows of its prompt change.\<close>

lemma edit_written:
  assumes db: "db_ok db" and k: "get_task db rid = Some k" and hist: "history_ok db k"
    and ids: "id1 \<noteq> id2" "id1 \<notin> p_id ` set (b_revisions db)" "id2 \<notin> p_id ` set (b_revisions db)"
    and rows: "rows = prompt_change_revisions k (list_revisions db (k_id k)) new source reason at id1 id2"
    and run: "insert_revisions db rows = (None, db1)" "update_task db1 k' = Inr db'"
    and k': "k_id k' = k_id k" "k_created_at k' = k_created_at k" "k_prompt k' = new"
      "k_prompt_version k' = (if rows = [] then k_prompt_version k else p_version (last rows))"
  shows "db_ok db' \<and> get_task db' rid = Some k' \<and> history_ok db' k'
    \<and> k_prompt_version k' = (if new = k_prompt k then k_prompt_version k else k_prompt_version k + 1)
    \<and> (\<forall>q \<in> set (versions db rid). \<exists>q' \<in> set (versions db' rid).
          p_id q' = p_id q \<and> p_version q' = p_version q \<and> p_prompt q' = p_prompt q)
    \<and> (new \<noteq> k_prompt k \<longrightarrow>
         (\<exists>q \<in> set (versions db' rid). p_version q = k_prompt_version k \<and> p_prompt q = k_prompt k))
    \<and> (\<forall>other. other \<noteq> rid \<longrightarrow> get_task db' other = get_task db other \<and> versions db' other = versions db other)"
proof -
  note id = get_task_id [OF k]
  have known: "k_id k \<in> k_id ` set (b_tasks db)" using id by blast
  have mid: "db_ok db1" "b_tasks db1 = b_tasks db" using insert_revisions_db_ok [OF db, of rows] run(1) by simp_all
  note upd = update_task_ok [OF mid(1) run(2)]
  have vers: "versions db' = versions db1" using upd by (auto simp: versions_def)
  have same: "get_task db1 = get_task db" using mid(2) by (auto simp: get_task_def)
  have get: "get_task db' rid = Some k'"
    using get_task_update [OF run(2), of rid] k k'(1,2) by (simp add: same write_task_def)
  have others: "get_task db' other = get_task db other" if "other \<noteq> rid" for other
    using get_task_update [OF run(2), of other] that id k'(1)
    by (cases "get_task db other") (auto simp: same write_task_def dest: get_task_id)
  show ?thesis
  proof (cases "new = k_prompt k")
    case True
    then have "rows = []" by (simp add: rows change_rows)
    then have "db1 = db" using run(1) by simp
    then have "history_ok db' k'" using hist True k' \<open>rows = []\<close> vers by (simp add: history_ok_def)
    moreover have "\<forall>q \<in> set (versions db rid). \<exists>q' \<in> set (versions db' rid).
          p_id q' = p_id q \<and> p_version q' = p_version q \<and> p_prompt q' = p_prompt q"
      using vers \<open>db1 = db\<close> by auto
    ultimately show ?thesis
      using upd get others True k'(4) \<open>rows = []\<close> vers \<open>db1 = db\<close> by simp
  next
    case False
    note change = record_change [OF hist known False ids rows]
    then have step: "rows \<noteq> []" "p_version (last rows) = k_prompt_version k + 1"
      "\<forall>other. other \<noteq> k_id k \<longrightarrow> versions db1 other = versions db other"
      "\<forall>k'. k_id k' = k_id k \<and> k_prompt_version k' = k_prompt_version k + 1 \<and> k_prompt k' = new \<longrightarrow> history_ok db1 k'"
      "\<forall>q \<in> set (versions db rid). \<exists>q' \<in> set (versions db1 rid).
          p_id q' = p_id q \<and> p_version q' = p_version q \<and> p_prompt q' = p_prompt q"
      "\<exists>q \<in> set (versions db1 rid). p_version q = k_prompt_version k \<and> p_prompt q = k_prompt k"
      using run(1) id by auto
    have "history_ok db1 k'" using step(1,2,4) k' by simp
    then have "history_ok db' k'" by (simp add: history_ok_def vers)
    then show ?thesis
      unfolding vers using upd get others step False k'(4) id by simp
  qed
qed

text \<open>C31: The history of a prompt is complete: however a prompt is changed, from the form or by putting an old
  version back in force, a change bumps the version by one, records the prompt it replaces and keeps every
  recorded version; from the first version to the current one each is recorded once, and exactly the
  current one is active and holds the task's prompt. Without a change no version is made. No other task
  and no other history is touched.\<close>

theorem prompt_history_complete:
  assumes "db_ok db" "get_task db rid = Some k" "history_ok db k"
    and "id1 \<noteq> id2" "id1 \<notin> p_id ` set (b_revisions db)" "id2 \<notin> p_id ` set (b_revisions db)"
    and "edit_task next zone id1 id2 at1 at2 at3 rid input db = (Inr k', db')
      \<or> accept_revision id1 id2 at1 at2 rid revision_id db = (Inr k', db')"
  shows "db_ok db' \<and> get_task db' rid = Some k' \<and> history_ok db' k'
    \<and> k_prompt_version k' = (if k_prompt k' = k_prompt k then k_prompt_version k else k_prompt_version k + 1)
    \<and> (\<forall>q \<in> set (versions db rid). \<exists>q' \<in> set (versions db' rid).
          p_id q' = p_id q \<and> p_version q' = p_version q \<and> p_prompt q' = p_prompt q)
    \<and> (k_prompt k' \<noteq> k_prompt k \<longrightarrow>
         (\<exists>q \<in> set (versions db' rid). p_version q = k_prompt_version k \<and> p_prompt q = k_prompt k))
    \<and> (\<forall>other. other \<noteq> rid \<longrightarrow> get_task db' other = get_task db other \<and> versions db' other = versions db other)"
  using assms(7)
proof
  assume run: "edit_task next zone id1 id2 at1 at2 at3 rid input db = (Inr k', db')"
  define rows where "rows = prompt_change_revisions k (list_revisions db (k_id k)) (i_prompt input) ''user'' None at1 id1 id2"
  have "rows = (if i_prompt input \<noteq> k_prompt k then rows else [])" by (simp add: rows_def change_rows)
  with run assms(2) obtain db1 where "insert_revisions db rows = (None, db1)" "update_task db1 k' = Inr db'"
    and "k_id k' = k_id k" "k_created_at k' = k_created_at k" "k_prompt k' = i_prompt input"
      "k_prompt_version k' = (if rows = [] then k_prompt_version k else p_version (last rows))"
    unfolding rows_def
    by (auto simp: edit_task_def Let_def write_back_Inr form_choices_def form_fields_def
        split: sum.splits option.splits prod.splits if_splits)
  from edit_written [OF assms(1-6) rows_def this] show ?thesis using \<open>k_prompt k' = i_prompt input\<close> by simp
next
  assume run: "accept_revision id1 id2 at1 at2 rid revision_id db = (Inr k', db')"
  note id = get_task_id [OF assms(2)]
  from run assms(2) obtain p where p: "find (\<lambda>p. p_id p = revision_id) (list_revisions db rid) = Some p"
    by (auto simp: accept_revision_def Let_def split: option.splits)
  define rows where "rows = applied_rows k (list_revisions db (k_id k)) p at1 id1 id2"
  note rows = rows_def [unfolded applied_rows_def]
  show ?thesis
  proof (cases "rows = []")
    case True
    then have "k' = k" "db' = db"
      using run assms(2) p id by (auto simp: accept_revision_def Let_def rows_def)
    then show ?thesis using assms(1-3) by auto
  next
    case False
    then have last: "p_prompt (last rows) = p_prompt p" by (auto simp: rows change_rows split: if_splits)
    obtain db1 where "insert_revisions db rows = (None, db1)" "update_task db1 k' = Inr db'"
      and "k_id k' = k_id k" "k_created_at k' = k_created_at k" and prompt: "k_prompt k' = p_prompt p"
        and "k_prompt_version k' = (if rows = [] then k_prompt_version k else p_version (last rows))"
      using run assms(2) p id False last
      by (auto simp: accept_revision_def Let_def write_back_Inr rows_def [symmetric] split: option.splits prod.splits)
    from edit_written [OF assms(1-6) rows this] show ?thesis using prompt by simp
  qed
qed

text \<open>Once its rows are written, an edit is one write of the task.\<close>

lemma edit_after_rows:
  assumes "get_task db rid = Some k" "i_timezone input = None" "\<forall>k at. next k at \<noteq> None" "i_prompt input \<noteq> k_prompt k"
    and "insert_revisions db (prompt_change_revisions k (list_revisions db (k_id k)) (i_prompt input) ''user'' None at1 id1 id2)
           = (None, db1)"
  shows "\<exists>k'. edit_task next zone id1 id2 at1 at2 at3 rid input db = write_back db1 k'
    \<and> k_id k' = rid \<and> k_name k' = i_name input \<and> k_deleted_at k' = k_deleted_at k \<and> k_prompt k' = i_prompt input"
proof -
  define k1 where "k1 = (form_choices input ((form_fields input k)\<lparr>k_timezone := k_timezone k\<rparr>))\<lparr>k_updated_at := at2\<rparr>"
  have k1: "k_id k1 = rid" "k_name k1 = i_name input" "k_deleted_at k1 = k_deleted_at k" "k_prompt k1 = i_prompt input"
    using get_task_id [OF assms(1)] by (simp_all add: k1_def form_choices_def form_fields_def)
  obtain due where due: "(if k_trigger_kind k1 = TriggerSchedule then next k1 (at3 - 1) else Some None) = Some due"
    using assms(3) by (cases "k_trigger_kind k1 = TriggerSchedule") auto
  show ?thesis
    using assms k1
    by (simp add: edit_task_def Let_def k1_def [symmetric] due split del: if_split)
       (rule exI, rule conjI [OF refl], simp)
qed

lemma edit_accepted:
  assumes "db_ok db" "get_task db rid = Some k" "history_ok db k"
    and "id1 \<noteq> id2" "id1 \<notin> p_id ` set (b_revisions db)" "id2 \<notin> p_id ` set (b_revisions db)"
    and "i_prompt input \<noteq> k_prompt k" "i_timezone input = None" "\<forall>k at. next k at \<noteq> None"
    and "\<forall>t \<in> set (b_tasks db). k_deleted_at t = None \<and> k_name t = i_name input \<longrightarrow> k_id t = rid"
  shows "\<exists>k' db'. edit_task next zone id1 id2 at1 at2 at3 rid input db = (Inr k', db') \<and> k_prompt k' = i_prompt input"
proof -
  have known: "k_id k \<in> k_id ` set (b_tasks db)" using get_task_id [OF assms(2)] by blast
  obtain db1 where run: "insert_revisions db
      (prompt_change_revisions k (list_revisions db (k_id k)) (i_prompt input) ''user'' None at1 id1 id2) = (None, db1)"
    using record_change [OF assms(3) known assms(7) assms(4-6) refl] by blast
  obtain k' where k': "edit_task next zone id1 id2 at1 at2 at3 rid input db = write_back db1 k'"
    "k_id k' = rid" "k_name k' = i_name input" "k_prompt k' = i_prompt input"
    using edit_after_rows [OF assms(2,8,9,7) run] by blast
  have "b_tasks db1 = b_tasks db" using insert_revisions_db_ok [OF assms(1)] run by (metis snd_conv)
  then have "\<not> name_conflict db1 k'"
    using assms(10) k' by (auto simp: name_conflict_def list_ex_iff)
  then show ?thesis using k' by (simp add: write_back_def update_task_def)
qed

definition demo_db :: task_db where
  "demo_db = \<lparr>b_tasks = [demo_scheduled ''i'', (demo_scheduled ''i'')\<lparr>k_id := ''tsk_2'', k_name := ''m''\<rparr>],
              b_runs = [], b_revisions = []\<rparr>"

definition demo_input :: "string \<Rightarrow> string \<Rightarrow> task_input" where
  "demo_input name prompt =
     \<lparr>i_name = name, i_prompt = prompt, i_cwd = [], i_model_id = None, i_thinking_level = None,
      i_timezone = None, i_session_policy = None, i_conversation_mode = None, i_session_retention = None,
      i_trigger_kind = None, i_trigger = None, i_enabled = None\<rparr>"

lemma demo_db_ok:
  "db_ok demo_db" "get_task demo_db ''tsk_1'' = Some (demo_scheduled ''i'')"
  "history_ok demo_db (demo_scheduled ''i'')" "b_revisions demo_db = []"
  by (simp_all add: demo_db_def db_ok_def tasks_ok_def runs_ok_def revisions_ok_def get_task_def history_ok_def
      versions_def demo_scheduled_def)

lemma prompt_history_complete_witness:
  "\<exists>k' db'. edit_task (\<lambda>_ _. Some None) Inr ''r1'' ''r2'' 5 6 7 ''tsk_1'' (demo_input ''n'' ''q'') demo_db = (Inr k', db')
     \<and> k_prompt k' = ''q'' \<and> k_prompt_version k' = 2 \<and> history_ok db' k'"
proof -
  have "\<exists>k' db'. edit_task (\<lambda>_ _. Some None) Inr ''r1'' ''r2'' 5 6 7 ''tsk_1'' (demo_input ''n'' ''q'') demo_db = (Inr k', db')
    \<and> k_prompt k' = i_prompt (demo_input ''n'' ''q'')"
    by (rule edit_accepted [OF demo_db_ok(1-3)])
       (simp_all add: demo_db_ok(4), simp_all add: demo_input_def demo_scheduled_def demo_db_def)
  then obtain k' db' where run:
    "edit_task (\<lambda>_ _. Some None) Inr ''r1'' ''r2'' 5 6 7 ''tsk_1'' (demo_input ''n'' ''q'') demo_db = (Inr k', db')"
    and prompt: "k_prompt k' = ''q''"
    by (auto simp: demo_input_def)
  have "db_ok db' \<and> get_task db' ''tsk_1'' = Some k' \<and> history_ok db' k'
    \<and> k_prompt_version k' = (if k_prompt k' = k_prompt (demo_scheduled ''i'') then k_prompt_version (demo_scheduled ''i'')
        else k_prompt_version (demo_scheduled ''i'') + 1)
    \<and> (\<forall>q \<in> set (versions demo_db ''tsk_1''). \<exists>q' \<in> set (versions db' ''tsk_1'').
          p_id q' = p_id q \<and> p_version q' = p_version q \<and> p_prompt q' = p_prompt q)
    \<and> (k_prompt k' \<noteq> k_prompt (demo_scheduled ''i'') \<longrightarrow>
         (\<exists>q \<in> set (versions db' ''tsk_1''). p_version q = k_prompt_version (demo_scheduled ''i'')
            \<and> p_prompt q = k_prompt (demo_scheduled ''i'')))
    \<and> (\<forall>other. other \<noteq> ''tsk_1'' \<longrightarrow>
         get_task db' other = get_task demo_db other \<and> versions db' other = versions demo_db other)"
    by (rule prompt_history_complete [OF demo_db_ok(1-3) _ _ _ disjI1 [OF run]]) (simp_all add: demo_db_ok(4))
  then show ?thesis using run prompt by (auto simp: demo_scheduled_def)
qed

section \<open>A refused edit\<close>

text \<open>The rows of a prompt change are written before the task, in statements of their own. When the task is
  then refused, because the form also renames it to a name that is taken, the recorded version is ahead of
  the task's, and since the next version is computed from the task and not from the history, every later
  change of the prompt collides with it.\<close>

definition ahead :: "task_db \<Rightarrow> task \<Rightarrow> bool" where
  "ahead db k \<longleftrightarrow> (\<exists>p \<in> set (versions db (k_id k)). p_version p = k_prompt_version k + 1)"

lemma versions_grow:
  "\<exists>p \<in> set (versions db rid). p_version p = v
   \<Longrightarrow> \<exists>p \<in> set (versions (snd (insert_revisions db ps)) rid). p_version p = v"
proof (induction db ps rule: insert_revisions.induct)
  case (2 db p ps)
  show ?case
  proof (cases "insert_revision db p")
    case (Inr db1)
    obtain q where "q \<in> set (versions db rid)" "p_version q = v" using 2(2) by blast
    then have "demote_older p q \<in> set (versions db1 rid)" "p_version (demote_older p q) = v"
      by (simp_all add: versions_insert [OF Inr])
    then have "\<exists>p \<in> set (versions db1 rid). p_version p = v" by blast
    from 2(1) [OF Inr this] show ?thesis using Inr by simp
  qed (use 2(2) in simp)
qed simp

lemma ahead_refused:
  assumes "ahead db k" "new \<noteq> k_prompt k"
    and rows: "rows = prompt_change_revisions k history new source reason at id1 id2"
  shows "\<exists>e db1. insert_revisions db rows = (Some e, db1) \<and> ahead db1 k"
proof -
  define p where "p = next_row k new source reason at id2"
  have last: "\<exists>e. insert_revision d p = Inl e" if "ahead d k" for d
    using that by (auto simp: insert_revision_def p_def ahead_def versions_def list_ex_iff)
  have "rows = [p] \<or> rows = [left_row k at id1, p]" using assms(2) by (simp add: rows change_rows p_def)
  moreover have "\<exists>e. fst (insert_revisions db [p]) = Some e" using last [OF assms(1)] by auto
  moreover have "\<exists>e. fst (insert_revisions db [left_row k at id1, p]) = Some e"
  proof (cases "insert_revision db (left_row k at id1)")
    case (Inr d)
    then have "ahead d k"
      using assms(1) versions_grow [of db "k_id k" _ "[left_row k at id1]"] by (simp add: ahead_def)
    then show ?thesis using last Inr by fastforce
  qed simp
  moreover have "ahead (snd (insert_revisions db rows)) k"
    using assms(1) unfolding ahead_def by (rule versions_grow)
  ultimately show ?thesis by (metis prod.collapse)
qed

lemma ahead_edit_refused:
  assumes "db_ok db" "get_task db rid = Some k" "ahead db k" "i_prompt input \<noteq> k_prompt k"
  shows "\<exists>e db'. edit_task next zone id1 id2 at1 at2 at3 rid input db = (Inl e, db')
    \<and> db_ok db' \<and> get_task db' rid = Some k \<and> ahead db' k"
proof -
  define rows where "rows = prompt_change_revisions k (list_revisions db (k_id k)) (i_prompt input) ''user'' None at1 id1 id2"
  obtain e db1 where run: "insert_revisions db rows = (Some e, db1)" "ahead db1 k"
    using ahead_refused [OF assms(3,4) rows_def] by blast
  have "db_ok db1 \<and> get_task db1 rid = Some k"
    using insert_revisions_db_ok [OF assms(1), of rows] run(1) assms(2) by (simp add: get_task_def)
  then show ?thesis
    using run assms
    by (auto simp: edit_task_def Let_def rows_def [symmetric] split: sum.split option.split)
qed

theorem refused_rename_locks_prompt:
  assumes "db_ok db" "get_task db rid = Some k" "history_ok db k"
    and "id1 \<noteq> id2" "id1 \<notin> p_id ` set (b_revisions db)" "id2 \<notin> p_id ` set (b_revisions db)"
    and "i_prompt input \<noteq> k_prompt k" "k_deleted_at k = None" "i_timezone input = None" "\<forall>k at. next k at \<noteq> None"
    and "t \<in> set (b_tasks db)" "k_id t \<noteq> rid" "k_deleted_at t = None" "k_name t = i_name input"
  shows "\<exists>e db'. edit_task next zone id1 id2 at1 at2 at3 rid input db = (Inl e, db')
    \<and> get_task db' rid = Some k
    \<and> (\<forall>later next zone id1 id2 at1 at2 at3. i_prompt later \<noteq> k_prompt k \<longrightarrow>
         (\<exists>e' db''. edit_task next zone id1 id2 at1 at2 at3 rid later db' = (Inl e', db'')
            \<and> get_task db'' rid = Some k \<and> ahead db'' k))"
proof -
  note id = get_task_id [OF assms(2)]
  have known: "k_id k \<in> k_id ` set (b_tasks db)" using id by blast
  define rows where "rows = prompt_change_revisions k (list_revisions db (k_id k)) (i_prompt input) ''user'' None at1 id1 id2"
  obtain db1 where run: "insert_revisions db rows = (None, db1)" "rows \<noteq> []"
    "p_version (last rows) = k_prompt_version k + 1"
    "\<forall>k'. k_id k' = k_id k \<and> k_prompt_version k' = k_prompt_version k + 1 \<and> k_prompt k' = i_prompt input \<longrightarrow> history_ok db1 k'"
    "\<exists>q \<in> set (versions db1 (k_id k)). p_version q = k_prompt_version k"
    using record_change [OF assms(3) known assms(7) assms(4-6) rows_def] by blast
  have mid: "db_ok db1" "b_tasks db1 = b_tasks db" using insert_revisions_db_ok [OF assms(1), of rows] run(1) by simp_all
  have "ahead db1 k"
  proof -
    have "history_ok db1 (k\<lparr>k_prompt_version := k_prompt_version k + 1, k_prompt := i_prompt input\<rparr>)"
      using run(4) by simp
    moreover have "versions db1 (k_id k) \<noteq> []" using run(5) by auto
    ultimately have "1 \<le> k_prompt_version k + 1" "p_version ` set (versions db1 (k_id k)) = {1..k_prompt_version k + 1}"
      by (auto simp: history_ok_def)
    then have "k_prompt_version k + 1 \<in> p_version ` set (versions db1 (k_id k))" by simp
    then show ?thesis by (auto simp: ahead_def)
  qed
  moreover have get: "get_task db1 rid = Some k" using assms(2) mid(2) by (simp add: get_task_def)
  moreover obtain k' where k': "edit_task next zone id1 id2 at1 at2 at3 rid input db = write_back db1 k'"
    "k_id k' = rid" "k_name k' = i_name input" "k_deleted_at k' = None"
    using edit_after_rows [OF assms(2,9,10,7) run(1) [unfolded rows_def]] unfolding assms(8) by blast
  have "name_conflict db1 k'"
    unfolding name_conflict_def using k' assms(11-14) id mid(2) by (auto simp: list_ex_iff)
  then have "\<exists>e. edit_task next zone id1 id2 at1 at2 at3 rid input db = (Inl e, db1)"
    by (simp add: k'(1) write_back_def update_task_def)
  ultimately show ?thesis using ahead_edit_refused [OF mid(1) get] by blast
qed

section \<open>Pausing and resuming\<close>

text \<open>A resumed schedule has a real next slot: enabling a scheduled task from the panel or the phone stores it
  enabled with the slot the kernel computes, which is later than now, or with none when its schedule has
  none; pausing keeps the stored slot, but a paused or deleted task is never due, whatever its slot and
  whatever was requested.\<close>

theorem resumed_schedule_fires:
  assumes "db_ok db" "get_task db rid = Some k" "k_trigger_kind k = TriggerSchedule"
    and "set_task_enabled (next_due read zone) rid enabled now db = (Inr k', db')"
    and "\<forall>mode. read (k_trigger_json k) = Some mode \<longrightarrow> interval_fits (zone (k\<lparr>k_enabled := True\<rparr>)) mode now"
  shows "get_task db' rid = Some k' \<and> k_enabled k' = enabled
    \<and> (enabled \<longrightarrow> next_due read zone (k\<lparr>k_enabled := True\<rparr>) now = Some (k_next_due_at k')
         \<and> (\<forall>d. k_next_due_at k' = Some d \<longrightarrow> now < d))
    \<and> (\<not> enabled \<longrightarrow> k_next_due_at k' = k_next_due_at k \<and> (\<forall>at. \<not> due_now at k'))
    \<and> (\<forall>at. \<forall>t \<in> set (list_due_tasks db' at). k_enabled t \<and> k_deleted_at t = None)"
proof -
  note id = get_task_id [OF assms(2)]
  obtain due where k': "k' = k\<lparr>k_enabled := enabled, k_next_due_at := due, k_updated_at := now\<rparr>"
    and due: "(if enabled then next_due read zone (k\<lparr>k_enabled := enabled\<rparr>) now else Some (k_next_due_at k)) = Some due"
    and upd: "update_task db k' = Inr db'"
    using assms(2-4)
    by (cases enabled)
       (auto simp: set_task_enabled_def apply_task_enabled_def Let_def write_back_Inr split: option.splits)
  have "get_task db' rid = Some k'"
    using get_task_update [OF upd, of rid] assms(2) by (simp add: k' write_task_def)
  moreover have "now < d" if "enabled" "due = Some d" for d
    using due that mode_strictly_later assms(5)
    by (auto simp: next_due_def split: if_splits trigger_kind.splits option.splits)
  ultimately show ?thesis using due by (auto simp: k' due_now_def list_due_tasks_def)
qed

lemma resumed_schedule_fires_witness:
  "\<exists>k' db'. set_task_enabled (next_due (\<lambda>_. Some (Interval 5 1000)) (\<lambda>_. two_offsets 0 0 0)) ''tsk_1'' True 400000 demo_db
       = (Inr k', db') \<and> k_next_due_at k' = Some 601000"
proof -
  let ?read = "\<lambda>_. Some (Interval 5 1000)" and ?zone = "\<lambda>_. two_offsets 0 0 0"
  have due: "next_due ?read ?zone ((demo_scheduled ''i'')\<lparr>k_enabled := True\<rparr>) 400000 = Some (Some 601000)"
    by (simp add: next_due_def demo_scheduled_def next_due_for_mode_def two_offsets_def Let_def
        next_interval_def as_i64_def)
  have "\<exists>k' db'. set_task_enabled (next_due ?read ?zone) ''tsk_1'' True 400000 demo_db = (Inr k', db')"
  proof -
    have "\<not> name_conflict demo_db k'" if "k_name k' = ''n''" "k_id k' = ''tsk_1''" for k'
      using that by (simp add: name_conflict_def demo_db_def demo_scheduled_def)
    then show ?thesis
      using due
      by (simp add: set_task_enabled_def demo_db_ok(2) apply_task_enabled_def Let_def write_back_def update_task_def
          demo_scheduled_def)
  qed
  then obtain k' db' where run: "set_task_enabled (next_due ?read ?zone) ''tsk_1'' True 400000 demo_db = (Inr k', db')"
    by blast
  have "k_trigger_kind (demo_scheduled ''i'') = TriggerSchedule" by (simp add: demo_scheduled_def)
  from resumed_schedule_fires [OF demo_db_ok(1,2) this run] due run show ?thesis
    by (simp add: interval_fits_def two_offsets_def Let_def)
qed

end
