(* ===== verification/Task_Host.thy ===== *)
theory Task_Host
  imports Task_Service
begin

text \<open>
  The host that runs scheduled tasks, \<open>src/host/src/tasks.rs\<close>: the tick that reaps dead runs and claims due
  tasks, the executor that opens a conversation, settles the run and closes the conversation, and the
  guard that settles a run whose executor is dropped. The pieces act on the shared tables one after the
  other; the last part puts them together as the steps of one host, with the executors of several runs,
  the users' edits and restarts interleaved in any order. A dropped guard and the feedback command of
  \<open>src/cli/src/commands/task.rs\<close> read a row and write it back later: two steps each, with any others in
  between.

  Parameters: the agent and the conversation store (whether a conversation could be created, which session
  a thread has, what the agent answered, whether a delete succeeded), fresh ids and readings of the clock.
\<close>

section \<open>Who is due, who is dead\<close>

datatype claim_reason = ClaimExplicit | ClaimSchedule

definition candidates :: "task_db \<Rightarrow> int \<Rightarrow> (task \<times> claim_reason) list" where
  "candidates db now =
     map (\<lambda>k. (k, if k_pending_request_at k \<noteq> None then ClaimExplicit else ClaimSchedule)) (list_due_tasks db now)"

definition ORPHANED_RUN_ERROR :: string where
  "ORPHANED_RUN_ERROR = ''the host that claimed this run is gone; it was settled by a later tick''"

definition ORPHANED_RUN_NOTE :: string where
  "ORPHANED_RUN_NOTE =
     ''no live executor owned this run: its claim row was left in `running` when the host stopped ''
     @ ''(killed or crashed) mid-run, so its conversation is the only record left''"

definition orphaned :: "string \<Rightarrow> string set \<Rightarrow> string \<Rightarrow> string option \<Rightarrow> bool" where
  "orphaned me live rid owner \<longleftrightarrow>
     (case owner of Some o' \<Rightarrow> if o' = me then rid \<notin> live else True | None \<Rightarrow> True)"

definition reap_one :: "string \<Rightarrow> string set \<Rightarrow> int \<Rightarrow> string list \<times> task_db \<Rightarrow> string \<times> string option
    \<Rightarrow> string list \<times> task_db" where
  "reap_one me live now acc row =
     (if \<not> orphaned me live (fst row) (snd row) then acc
      else (let (changed, db) = reap_running_run (snd acc) (fst row) now ORPHANED_RUN_ERROR FINISH_INTERRUPTED ORPHANED_RUN_NOTE
            in (if changed then fst acc @ [fst row] else fst acc, db)))"

definition reap_orphaned_runs :: "string \<Rightarrow> string set \<Rightarrow> int \<Rightarrow> task_db \<Rightarrow> string list \<times> task_db" where
  "reap_orphaned_runs me live now db = foldl (reap_one me live now) ([], db) (running_run_owners db)"

section \<open>Claiming\<close>

definition claimed_run :: "string \<Rightarrow> task \<Rightarrow> claim_reason \<Rightarrow> int \<Rightarrow> task_run" where
  "claimed_run rid k reason now =
     \<lparr>n_id = rid, n_task_id = k_id k,
      n_kind = (case reason of ClaimExplicit \<Rightarrow> RunManual | ClaimSchedule \<Rightarrow> RunMain),
      n_origin = (case reason of
                    ClaimExplicit \<Rightarrow> (case k_pending_origin k of Some o' \<Rightarrow> o' | None \<Rightarrow> FromCli)
                  | ClaimSchedule \<Rightarrow> FromSchedule),
      n_actor = k_pending_actor k,
      n_due_at = (case reason of ClaimExplicit \<Rightarrow> None | ClaimSchedule \<Rightarrow> k_next_due_at k),
      n_status = RunRunning, n_thread_id = None, n_session_id = None, n_run_id = None,
      n_prompt_version = Some (k_prompt_version k), n_result_summary = None, n_feedback = None,
      n_feedback_note = None, n_started_at = Some now, n_finished_at = None, n_error_message = None,
      n_finish_reason = None, n_finish_note = None, n_session_deleted = False\<rparr>"

text \<open>The schedule advances only for a slot; the request is cleared either way.\<close>

definition claimed_task :: "task \<Rightarrow> int option \<Rightarrow> int \<Rightarrow> task" where
  "claimed_task k due now =
     k\<lparr>k_next_due_at := due, k_pending_request_at := None, k_pending_origin := None,
       k_pending_actor := None, k_updated_at := now\<rparr>"

definition claim :: "next_due_fn \<Rightarrow> string \<Rightarrow> string \<Rightarrow> int \<Rightarrow> task_db \<Rightarrow> task \<Rightarrow> claim_reason
    \<Rightarrow> (string + task_run) \<times> task_db" where
  "claim next me rid now db k reason =
     (let run = claimed_run rid k reason now in
      case insert_run_owned db run (Some me) of
        Inl e \<Rightarrow> (Inl (store_error_text e), db)
      | Inr db1 \<Rightarrow>
          (case (if n_kind run = RunMain then next k now else Some (k_next_due_at k)) of
             None \<Rightarrow> (Inl panic_error, db1)
           | Some due \<Rightarrow>
               (case update_task db1 (claimed_task k due now) of
                  Inl e \<Rightarrow> (Inl (store_error_text e), db1)
                | Inr db2 \<Rightarrow> (Inr run, db2))))"

section \<open>Executing one run\<close>

definition create_new_session :: "(task \<Rightarrow> string + string \<times> string) \<Rightarrow> task \<Rightarrow> string + string \<times> string" where
  "create_new_session open_conversation k =
     (if k_conversation_mode k \<noteq> ChatMode \<and> trim (k_cwd k) = []
      then Inl ''a workspace conversation needs a working directory''
      else open_conversation k)"

text \<open>\<open>threads\<close>: the conversation store; a thread may be missing, and have no agent session.\<close>

definition bound_thread ::
  "(string \<Rightarrow> string + string option option) \<Rightarrow> task \<Rightarrow> string + (string \<times> string) option" where
  "bound_thread threads k =
     (case k_thread_id k of
        None \<Rightarrow> Inr None
      | Some t \<Rightarrow>
          (case threads t of
             Inl e \<Rightarrow> Inl e
           | Inr None \<Rightarrow> Inl ''bound task thread is missing''
           | Inr (Some None) \<Rightarrow> Inl ''bound task thread has no agent session''
           | Inr (Some (Some s)) \<Rightarrow> Inr (Some (t, s))))"

definition bind_task_thread :: "task_db \<Rightarrow> task \<Rightarrow> string \<Rightarrow> int \<Rightarrow> store_error + task_db" where
  "bind_task_thread db k thread now = update_task db (k\<lparr>k_thread_id := Some thread, k_updated_at := now\<rparr>)"

definition choose_session ::
  "(task \<Rightarrow> string + string \<times> string) \<Rightarrow> (string \<Rightarrow> string + string option option) \<Rightarrow> int \<Rightarrow> task_db \<Rightarrow> task
     \<Rightarrow> (string + string \<times> string) \<times> task_db" where
  "choose_session open_conversation threads now db k =
     (case k_session_policy k of
        PolicyNew \<Rightarrow> (create_new_session open_conversation k, db)
      | PolicyExisting \<Rightarrow>
          (case bound_thread threads k of
             Inl e \<Rightarrow> (Inl e, db)
           | Inr (Some ids) \<Rightarrow> (Inr ids, db)
           | Inr None \<Rightarrow>
               (case create_new_session open_conversation k of
                  Inl e \<Rightarrow> (Inl e, db)
                | Inr ids \<Rightarrow>
                    (case bind_task_thread db k (fst ids) now of
                       Inl e \<Rightarrow> (Inl (store_error_text e), db)
                     | Inr db' \<Rightarrow> (Inr ids, db')))))"

text \<open>The run in hand carries the ids from then on, whether or not the row takes them.\<close>

definition run_session ::
  "(task \<Rightarrow> string + string \<times> string) \<Rightarrow> (string \<Rightarrow> string + string option option) \<Rightarrow> int \<Rightarrow> task_db \<Rightarrow> task
     \<Rightarrow> task_run \<Rightarrow> string option \<times> task_run \<times> task_db" where
  "run_session open_conversation threads now db k run =
     (case choose_session open_conversation threads now db k of
        (Inl e, db1) \<Rightarrow> (Some e, run, db1)
      | (Inr (t, s), db1) \<Rightarrow>
          (let run1 = run\<lparr>n_thread_id := Some t, n_session_id := Some s\<rparr> in
           case update_run db1 run1 of
             Inl e \<Rightarrow> (Some (store_error_text e), run1, db1)
           | Inr db2 \<Rightarrow> (None, run1, db2)))"

definition EMPTY_ANSWER_ERROR :: string where
  "EMPTY_ANSWER_ERROR = ''[EMPTY_ANSWER] the run finished without any answer; its turn produced no text''"

definition UNREADABLE_SESSION_NOTE :: string where
  "UNREADABLE_SESSION_NOTE =
     ''the run'' @ [CHR 0x27] @ ''s session could not be read back (the Agent may have been gone); ''
     @ ''its terminal state is in the error above''"

type_synonym answer = "string \<times> string option"

text \<open>\<open>read_back\<close>: the answer read back from a session, when it can be read. The second component is the text
  to save.\<close>

definition settled_run ::
  "task_run \<Rightarrow> string + answer \<Rightarrow> (string \<Rightarrow> answer option) \<Rightarrow> int \<Rightarrow> task_run \<times> string option" where
  "settled_run run outcome read_back now =
     (case outcome of
        Inr (body, tool) \<Rightarrow>
          (let finish = finish_reason_for_answer body in
           if finish = FINISH_EMPTY_ANSWER
           then (run\<lparr>n_status := RunFailed, n_finished_at := Some now, n_error_message := Some EMPTY_ANSWER_ERROR,
                     n_finish_reason := Some finish, n_finish_note := Some (finish_note 0 tool)\<rparr>, None)
           else (run\<lparr>n_result_summary := Some (truncate_text body RESULT_SUMMARY_CHARS), n_status := RunCompleted,
                     n_finished_at := Some now, n_error_message := None,
                     n_finish_reason := Some finish, n_finish_note := None\<rparr>, Some body))
      | Inl err \<Rightarrow>
          (run\<lparr>n_status := RunFailed, n_finished_at := Some now, n_error_message := Some err,
               n_finish_reason := Some (finish_reason_for_error err),
               n_finish_note := Some (case Option.bind (n_session_id run) read_back of
                  Some (body, tool) \<Rightarrow> finish_note (length (chars body)) tool
                | None \<Rightarrow> truncate_text UNREADABLE_SESSION_NOTE FINISH_NOTE_CHARS)\<rparr>, None))"

definition settle_run :: "task_db \<Rightarrow> task_run \<Rightarrow> string option \<Rightarrow> store_error + task_db" where
  "settle_run db run output =
     (case update_run db run of
        Inl e \<Rightarrow> Inl e
      | Inr db1 \<Rightarrow>
          Inr (case output of
                 None \<Rightarrow> db1
               | Some body \<Rightarrow> set_run_output db1 (n_id run) (truncate_text body RUN_OUTPUT_CHARS)))"

definition forget_conversation :: "task_db \<Rightarrow> task_run \<Rightarrow> task_run \<times> task_db" where
  "forget_conversation db run =
     (run\<lparr>n_session_deleted := True, n_thread_id := None, n_session_id := None\<rparr>,
      mark_run_conversation_deleted db (n_id run))"

text \<open>First the conversation of a task that keeps none, then one the run opened and left empty; \<open>deleted\<close>: the
  delete of a thread succeeded, \<open>entries\<close>: whether a session has records, when it can be told.\<close>

definition close_kept :: "(string \<Rightarrow> bool) \<Rightarrow> task \<Rightarrow> task_db \<Rightarrow> task_run \<Rightarrow> task_run \<times> task_db" where
  "close_kept deleted k db run =
     (case n_thread_id run of
        Some t \<Rightarrow> if deletes_run_conversation k \<and> deleted t then forget_conversation db run else (run, db)
      | None \<Rightarrow> (run, db))"

definition close_empty ::
  "(string \<Rightarrow> bool) \<Rightarrow> (string \<Rightarrow> bool option) \<Rightarrow> task \<Rightarrow> task_db \<Rightarrow> task_run \<Rightarrow> task_run \<times> task_db" where
  "close_empty deleted entries k db run =
     (if \<not> n_session_deleted run \<and> k_session_policy k = PolicyNew
      then (case n_session_id run of
              None \<Rightarrow> (run, db)
            | Some s \<Rightarrow>
                (if entries s = Some False
                 then (case n_thread_id run of
                         Some t \<Rightarrow> if deleted t then forget_conversation db run else (run, db)
                       | None \<Rightarrow> (run, db))
                 else (run, db)))
      else (run, db))"

definition close_conversation ::
  "(string \<Rightarrow> bool) \<Rightarrow> (string \<Rightarrow> bool option) \<Rightarrow> task \<Rightarrow> task_db \<Rightarrow> task_run \<Rightarrow> task_run \<times> task_db" where
  "close_conversation deleted entries k db run =
     (let (run1, db1) = close_kept deleted k db run in close_empty deleted entries k db1 run1)"

definition STOPPED_ERROR :: string where "STOPPED_ERROR = ''Desktop stopped before task completion''"

definition STOPPED_NOTE :: string where
  "STOPPED_NOTE =
     ''the host stopped while this run was in flight; its conversation is the only record left''"

text \<open>The guard of a dropped executor reads its run and, when it is still running, writes the whole row back
  as failed: the row it read with the fields of the settlement set.\<close>

definition interrupt_read :: "int \<Rightarrow> string \<Rightarrow> task_db \<Rightarrow> task_run option" where
  "interrupt_read now rid db =
     (case get_run db rid of
        None \<Rightarrow> None
      | Some run \<Rightarrow>
          if n_status run = RunRunning
          then Some (run\<lparr>n_status := RunFailed, n_finished_at := Some now,
                 n_error_message := Some STOPPED_ERROR, n_finish_reason := Some FINISH_INTERRUPTED,
                 n_finish_note := Some STOPPED_NOTE\<rparr>)
          else None)"

text \<open>\<open>future task feedback\<close>, a process of its own, reads a run and writes the whole row back with the
  verdict on it.\<close>

definition feedback_read :: "task_db \<Rightarrow> string \<Rightarrow> string \<Rightarrow> string option \<Rightarrow> string + task_run" where
  "feedback_read db rid verdict remark =
     (if verdict \<noteq> ''good'' \<and> verdict \<noteq> ''bad'' then Inl (''verdict must be good|bad, got '' @ verdict)
      else (case get_run db rid of
              None \<Rightarrow> Inl (''run not found: '' @ rid)
            | Some run \<Rightarrow> Inr (run\<lparr>n_feedback := Some verdict, n_feedback_note := remark\<rparr>)))"

section \<open>One host\<close>

text \<open>\<open>h_live\<close>: the registry of runs with an executor; \<open>h_jobs\<close>: the executors, each with the task as the tick
  read it and its copy of the run; \<open>h_plan\<close>: what is left of the current tick; \<open>h_guards\<close>, \<open>h_feedback\<close>: the
  rows that guards and feedback commands have read and not yet written back.\<close>

record task_host =
  h_db :: task_db
  h_me :: string
  h_live :: "string set"
  h_jobs :: "(task \<times> task_run) list"
  h_plan :: "(task \<times> claim_reason) list"
  h_guards :: "task_run list"
  h_feedback :: "task_run list"

definition tick_start :: "int \<Rightarrow> int \<Rightarrow> task_host \<Rightarrow> task_host" where
  "tick_start now1 now2 h =
     (let db = snd (reap_orphaned_runs (h_me h) (h_live h) now1 (h_db h))
      in h\<lparr>h_db := db, h_plan := candidates db now2\<rparr>)"

text \<open>A task in flight is skipped; a claim that fails ends the tick.\<close>

definition tick_next :: "next_due_fn \<Rightarrow> string \<Rightarrow> int \<Rightarrow> task_host \<Rightarrow> task_host" where
  "tick_next next rid now h =
     (case h_plan h of
        [] \<Rightarrow> h
      | (k, reason) # rest \<Rightarrow>
          (if has_running_run (h_db h) (k_id k) then h\<lparr>h_plan := rest\<rparr>
           else (case claim next (h_me h) rid now (h_db h) k reason of
                   (Inl e, db) \<Rightarrow> h\<lparr>h_db := db, h_plan := []\<rparr>
                 | (Inr run, db) \<Rightarrow>
                     h\<lparr>h_db := db, h_live := insert (n_id run) (h_live h), h_jobs := h_jobs h @ [(k, run)],
                       h_plan := rest\<rparr>)))"

definition replace_job :: "task_run \<Rightarrow> task_host \<Rightarrow> task_host" where
  "replace_job run h =
     h\<lparr>h_jobs := map (\<lambda>(k, n). (k, if n_id n = n_id run then run else n)) (h_jobs h)\<rparr>"

definition end_job :: "string \<Rightarrow> task_host \<Rightarrow> task_host" where
  "end_job rid h =
     h\<lparr>h_jobs := filter (\<lambda>(k, n). n_id n \<noteq> rid) (h_jobs h)\<rparr>"

definition job_ids :: "task_host \<Rightarrow> string set" where
  "job_ids h = (\<lambda>(k, n). n_id n) ` set (h_jobs h)"

text \<open>A user's change of a task is any write of any task's row, whole. An executor that is gone leaves the
  registry, and its guards may settle the run, in any order: one guard runs inside the executor, while it
  is registered, the other after the registration. A guard and a feedback command read the run in one
  step and write the row they read in a later one, with anything in between; \<open>fb\<close> says on which runs
  feedback is given. A restart is a new instance that first settles what is marked running: the guards
  of the old process are gone, a feedback command is not.\<close>

inductive host_step :: "next_due_fn \<Rightarrow> (task_run \<Rightarrow> bool) \<Rightarrow> task_host \<Rightarrow> task_host \<Rightarrow> bool" for "next" fb where
  start: "h_plan h = [] \<Longrightarrow> host_step next fb h (tick_start now1 now2 h)"
| next_claim: "host_step next fb h (tick_next next rid now h)"
| stop: "host_step next fb h (h\<lparr>h_plan := []\<rparr>)"
| session: "(k, run) \<in> set (h_jobs h) \<Longrightarrow> n_status run = RunRunning
    \<Longrightarrow> run_session open_conversation threads now (h_db h) k run = (e, run', db')
    \<Longrightarrow> host_step next fb h (replace_job run' (h\<lparr>h_db := db'\<rparr>))"
| settle: "(k, run) \<in> set (h_jobs h) \<Longrightarrow> n_status run = RunRunning
    \<Longrightarrow> settled_run run outcome read_back now = (run', output) \<Longrightarrow> settle_run (h_db h) run' output = Inr db'
    \<Longrightarrow> host_step next fb h (replace_job run' (h\<lparr>h_db := db'\<rparr>))"
| close: "(k, run) \<in> set (h_jobs h) \<Longrightarrow> n_status run \<noteq> RunRunning
    \<Longrightarrow> close_conversation deleted entries k (h_db h) run = (run', db')
    \<Longrightarrow> host_step next fb h (replace_job run' (h\<lparr>h_db := db'\<rparr>))"
| leave: "host_step next fb h (end_job rid h)"
| unregister: "rid \<notin> job_ids h \<Longrightarrow> host_step next fb h (h\<lparr>h_live := h_live h - {rid}\<rparr>)"
| guard_reads: "rid \<notin> job_ids h \<Longrightarrow> interrupt_read now rid (h_db h) = Some n
    \<Longrightarrow> host_step next fb h (h\<lparr>h_guards := n # h_guards h\<rparr>)"
| guard_writes: "n \<in> set (h_guards h) \<Longrightarrow> update_run (h_db h) n = Inr db'
    \<Longrightarrow> host_step next fb h (h\<lparr>h_db := db', h_guards := remove1 n (h_guards h)\<rparr>)"
| guard_fails: "host_step next fb h (h\<lparr>h_guards := remove1 n (h_guards h)\<rparr>)"
| create: "insert_task (h_db h) k = Inr db' \<Longrightarrow> host_step next fb h (h\<lparr>h_db := db'\<rparr>)"
| edit: "update_task (h_db h) k = Inr db' \<Longrightarrow> host_step next fb h (h\<lparr>h_db := db'\<rparr>)"
| history: "insert_revision (h_db h) p = Inr db' \<Longrightarrow> host_step next fb h (h\<lparr>h_db := db'\<rparr>)"
| feedback_reads: "feedback_read (h_db h) rid verdict remark = Inr n \<Longrightarrow> fb n
    \<Longrightarrow> host_step next fb h (h\<lparr>h_feedback := n # h_feedback h\<rparr>)"
| feedback_writes: "n \<in> set (h_feedback h) \<Longrightarrow> update_run (h_db h) n = Inr db'
    \<Longrightarrow> host_step next fb h (h\<lparr>h_db := db', h_feedback := remove1 n (h_feedback h)\<rparr>)"
| feedback_fails: "host_step next fb h (h\<lparr>h_feedback := remove1 n (h_feedback h)\<rparr>)"
| restart: "host_step next fb h
    \<lparr>h_db = snd (mark_interrupted_runs (h_db h) now), h_me = me', h_live = {}, h_jobs = [], h_plan = [],
     h_guards = [], h_feedback = h_feedback h\<rparr>"

inductive host_reachable :: "next_due_fn \<Rightarrow> (task_run \<Rightarrow> bool) \<Rightarrow> task_host \<Rightarrow> bool" for "next" fb where
  init: "db_ok db \<Longrightarrow> b_runs db = []
    \<Longrightarrow> host_reachable next fb \<lparr>h_db = db, h_me = me, h_live = {}, h_jobs = [], h_plan = [],
      h_guards = [], h_feedback = []\<rparr>"
| step: "host_reachable next fb h \<Longrightarrow> host_step next fb h h' \<Longrightarrow> host_reachable next fb h'"

text \<open>Feedback given only on runs that were settled when it read them.\<close>

definition is_settled :: "task_run \<Rightarrow> bool" where
  "is_settled n \<longleftrightarrow> n_status n \<noteq> RunRunning"

section \<open>What one step does to the rows\<close>

text \<open>A row keeps its identity, its slot and its owner, and once settled its status and its outcome, unless it
  failed and a write of it that was read earlier is still to come: the ids \<open>W\<close>.\<close>

definition outcome_of :: "task_run \<Rightarrow> run_status \<times> int option \<times> string option \<times> string option \<times> string option \<times> string option" where
  "outcome_of n =
     (n_status n, n_finished_at n, n_error_message n, n_finish_reason n, n_finish_note n, n_result_summary n)"

definition row_step :: "string set \<Rightarrow> run_row \<Rightarrow> run_row \<Rightarrow> bool" where
  "row_step W r r' \<longleftrightarrow>
     n_id (r_run r') = n_id (r_run r) \<and> n_task_id (r_run r') = n_task_id (r_run r)
     \<and> n_due_at (r_run r') = n_due_at (r_run r) \<and> r_owner r' = r_owner r
     \<and> (n_status (r_run r) \<noteq> RunRunning \<longrightarrow> n_status (r_run r') = n_status (r_run r)
          \<and> (n_status (r_run r) \<noteq> RunFailed \<or> n_id (r_run r) \<notin> W \<longrightarrow> outcome_of (r_run r') = outcome_of (r_run r)))"

lemma row_step_refl [simp, intro]: "row_step W r r"
  by (simp add: row_step_def)

lemma row_step_running: "row_step W r r' \<Longrightarrow> n_status (r_run r') = RunRunning \<Longrightarrow> n_status (r_run r) = RunRunning"
  by (auto simp: row_step_def)

definition one_running :: "run_row list \<Rightarrow> bool" where
  "one_running rs \<longleftrightarrow>
     (\<forall>r \<in> set rs. \<forall>q \<in> set rs. n_status (r_run r) = RunRunning \<and> n_status (r_run q) = RunRunning
        \<and> n_task_id (r_run r) = n_task_id (r_run q) \<longrightarrow> n_id (r_run r) = n_id (r_run q))"

lemma one_runningD:
  "one_running rs \<Longrightarrow> r \<in> set rs \<Longrightarrow> q \<in> set rs \<Longrightarrow> n_status (r_run r) = RunRunning
   \<Longrightarrow> n_status (r_run q) = RunRunning \<Longrightarrow> n_task_id (r_run r) = n_task_id (r_run q) \<Longrightarrow> n_id (r_run r) = n_id (r_run q)"
  unfolding one_running_def by blast

lemma one_runningI:
  assumes "\<And>r q. r \<in> set rs \<Longrightarrow> q \<in> set rs \<Longrightarrow> n_status (r_run r) = RunRunning \<Longrightarrow> n_status (r_run q) = RunRunning
    \<Longrightarrow> n_task_id (r_run r) = n_task_id (r_run q) \<Longrightarrow> n_id (r_run r) = n_id (r_run q)"
  shows "one_running rs"
  unfolding one_running_def using assms by blast

lemma row_step_keys:
  "row_step W r r' \<Longrightarrow> n_id (r_run r') = n_id (r_run r)"
  "row_step W r r' \<Longrightarrow> n_task_id (r_run r') = n_task_id (r_run r)"
  "row_step W r r' \<Longrightarrow> n_due_at (r_run r') = n_due_at (r_run r)"
  "row_step W r r' \<Longrightarrow> r_owner r' = r_owner r"
  by (simp_all add: row_step_def)

lemma one_running_map:
  assumes "one_running rs" "\<And>r. r \<in> set rs \<Longrightarrow> row_step W r (f r)"
  shows "one_running (map f rs)"
proof (rule one_runningI)
  fix r' q' assume "r' \<in> set (map f rs)" "q' \<in> set (map f rs)"
  then obtain r q where mem: "r \<in> set rs" "q \<in> set rs" and eq: "r' = f r" "q' = f q" by auto
  note step = assms(2) [OF mem(1), folded eq] assms(2) [OF mem(2), folded eq]
  assume "n_status (r_run r') = RunRunning" "n_status (r_run q') = RunRunning"
    "n_task_id (r_run r') = n_task_id (r_run q')"
  then show "n_id (r_run r') = n_id (r_run q')"
    using one_runningD [OF assms(1) mem] row_step_running [OF step(1)] row_step_running [OF step(2)]
    by (simp add: row_step_keys [OF step(1)] row_step_keys [OF step(2)])
qed

lemma one_running_append:
  assumes "one_running rs" "\<And>r. r \<in> set rs \<Longrightarrow> n_task_id (r_run r) = n_task_id (r_run q) \<Longrightarrow> n_status (r_run r) \<noteq> RunRunning"
  shows "one_running (rs @ [q])"
proof (rule one_runningI)
  fix r p
  assume "r \<in> set (rs @ [q])" "p \<in> set (rs @ [q])" "n_status (r_run r) = RunRunning" "n_status (r_run p) = RunRunning"
    "n_task_id (r_run r) = n_task_id (r_run p)"
  then show "n_id (r_run r) = n_id (r_run p)"
    using one_runningD [OF assms(1), of r p] assms(2) [of r] assms(2) [of p] by auto
qed

text \<open>An executor's copy agrees with its row.\<close>

definition owns :: "string \<Rightarrow> run_row \<Rightarrow> task_run \<Rightarrow> bool" where
  "owns me r n \<longleftrightarrow>
     n_id (r_run r) = n_id n \<and> r_owner r = Some me \<and> n_task_id (r_run r) = n_task_id n
     \<and> n_due_at (r_run r) = n_due_at n \<and> n_status (r_run r) = n_status n"

definition jobs_ok :: "string \<Rightarrow> string set \<Rightarrow> run_row list \<Rightarrow> (task \<times> task_run) list \<Rightarrow> bool" where
  "jobs_ok me live rs jobs \<longleftrightarrow>
     (\<forall>(k, n) \<in> set jobs. n_id n \<in> live \<and> (\<exists>r \<in> set rs. owns me r n))"

lemma jobs_okD: "jobs_ok me live rs jobs \<Longrightarrow> (k, n) \<in> set jobs \<Longrightarrow> n_id n \<in> live \<and> (\<exists>r \<in> set rs. owns me r n)"
  unfolding jobs_ok_def by blast

lemma jobs_okI: "(\<And>k n. (k, n) \<in> set jobs \<Longrightarrow> n_id n \<in> live \<and> (\<exists>r \<in> set rs. owns me r n)) \<Longrightarrow> jobs_ok me live rs jobs"
  unfolding jobs_ok_def by blast

text \<open>A rewrite that leaves the status of the executors' rows alone.\<close>

lemma jobs_ok_map:
  assumes "jobs_ok me live rs jobs" "\<And>r. r \<in> set rs \<Longrightarrow> row_step W r (f r)"
    and "\<And>r. r \<in> set rs \<Longrightarrow> r_owner r = Some me \<Longrightarrow> n_id (r_run r) \<in> (\<lambda>(k, n). n_id n) ` set jobs
      \<Longrightarrow> n_id (r_run r) \<in> live \<Longrightarrow> n_status (r_run (f r)) = n_status (r_run r)"
  shows "jobs_ok me live (map f rs) jobs"
proof (rule jobs_okI)
  fix k n assume job: "(k, n) \<in> set jobs"
  from jobs_okD [OF assms(1) this] obtain r where r: "n_id n \<in> live" "r \<in> set rs" "owns me r n" by blast
  moreover have "n_id n \<in> (\<lambda>(k, n). n_id n) ` set jobs" using job by force
  ultimately have "owns me (f r) n" using assms(2) [of r] assms(3) [of r] by (simp add: owns_def row_step_def)
  with r show "n_id n \<in> live \<and> (\<exists>r \<in> set (map f rs). owns me r n)" by auto
qed

text \<open>A guard's write settles as failed a run that has no executor any more; feedback writes back a run that
  was settled already.\<close>

definition same_run :: "run_row \<Rightarrow> task_run \<Rightarrow> bool" where
  "same_run r n \<longleftrightarrow>
     n_id (r_run r) = n_id n \<and> n_task_id (r_run r) = n_task_id n \<and> n_due_at (r_run r) = n_due_at n"

definition guards_ok :: "run_row list \<Rightarrow> (task \<times> task_run) list \<Rightarrow> task_run list \<Rightarrow> bool" where
  "guards_ok rs jobs ns \<longleftrightarrow>
     (\<forall>n \<in> set ns. n_status n = RunFailed \<and> n_id n \<notin> (\<lambda>(k, m). n_id m) ` set jobs
        \<and> (\<exists>r \<in> set rs. same_run r n \<and> n_status (r_run r) \<in> {RunRunning, RunFailed}))"

definition feedback_ok :: "run_row list \<Rightarrow> task_run list \<Rightarrow> bool" where
  "feedback_ok rs ns \<longleftrightarrow>
     (\<forall>n \<in> set ns. is_settled n \<and> (\<exists>r \<in> set rs. same_run r n \<and> n_status (r_run r) = n_status n
        \<and> (n_status n \<noteq> RunFailed \<longrightarrow> outcome_of (r_run r) = outcome_of n)))"

definition host_inv :: "task_host \<Rightarrow> bool" where
  "host_inv h \<longleftrightarrow>
     db_ok (h_db h) \<and> one_running (b_runs (h_db h))
     \<and> jobs_ok (h_me h) (h_live h) (b_runs (h_db h)) (h_jobs h)
     \<and> guards_ok (b_runs (h_db h)) (h_jobs h) (h_guards h) \<and> feedback_ok (b_runs (h_db h)) (h_feedback h)"

lemma host_invD:
  "host_inv h \<Longrightarrow> db_ok (h_db h)" "host_inv h \<Longrightarrow> one_running (b_runs (h_db h))"
  "host_inv h \<Longrightarrow> jobs_ok (h_me h) (h_live h) (b_runs (h_db h)) (h_jobs h)"
  "host_inv h \<Longrightarrow> guards_ok (b_runs (h_db h)) (h_jobs h) (h_guards h)"
  "host_inv h \<Longrightarrow> feedback_ok (b_runs (h_db h)) (h_feedback h)"
  by (simp_all add: host_inv_def)

lemma guards_okD:
  "guards_ok rs jobs ns \<Longrightarrow> n \<in> set ns \<Longrightarrow> n_status n = RunFailed \<and> n_id n \<notin> (\<lambda>(k, m). n_id m) ` set jobs
     \<and> (\<exists>r \<in> set rs. same_run r n \<and> n_status (r_run r) \<in> {RunRunning, RunFailed})"
  unfolding guards_ok_def by blast

text \<open>Writes that were read keep their rows under any rewrite of the rows.\<close>

lemma same_run_step: "row_step W r r' \<Longrightarrow> same_run r n \<Longrightarrow> same_run r' n"
  by (simp add: row_step_def same_run_def)

lemma feedback_ok_map:
  assumes "feedback_ok rs ns" "\<And>r. r \<in> set rs \<Longrightarrow> row_step W r (f r)"
  shows "feedback_ok (map f rs) ns"
  unfolding feedback_ok_def
proof (rule ballI)
  fix n assume "n \<in> set ns"
  then obtain r where r: "is_settled n" "r \<in> set rs" "same_run r n" "n_status (r_run r) = n_status n"
      "n_status n \<noteq> RunFailed \<longrightarrow> outcome_of (r_run r) = outcome_of n"
    using assms(1) unfolding feedback_ok_def by blast
  then have "same_run (f r) n \<and> n_status (r_run (f r)) = n_status n
      \<and> (n_status n \<noteq> RunFailed \<longrightarrow> outcome_of (r_run (f r)) = outcome_of n)"
    using assms(2) [OF r(2)] by (simp add: row_step_def same_run_def is_settled_def)
  with r(1,2) show "is_settled n \<and> (\<exists>r \<in> set (map f rs). same_run r n \<and> n_status (r_run r) = n_status n
      \<and> (n_status n \<noteq> RunFailed \<longrightarrow> outcome_of (r_run r) = outcome_of n))" by auto
qed

lemma guards_ok_map:
  assumes "guards_ok rs jobs ns" "\<And>r. r \<in> set rs \<Longrightarrow> row_step W r (f r)"
    and "\<And>r. r \<in> set rs \<Longrightarrow> n_id (r_run r) \<in> n_id ` set ns
      \<Longrightarrow> n_status (r_run (f r)) = n_status (r_run r) \<or> n_status (r_run (f r)) = RunFailed"
  shows "guards_ok (map f rs) jobs ns"
  unfolding guards_ok_def
proof (rule ballI)
  fix n assume n: "n \<in> set ns"
  from guards_okD [OF assms(1) n] obtain r where r: "n_status n = RunFailed" "n_id n \<notin> (\<lambda>(k, m). n_id m) ` set jobs"
      "r \<in> set rs" "same_run r n" "n_status (r_run r) \<in> {RunRunning, RunFailed}" by blast
  have "n_status (r_run (f r)) \<in> {RunRunning, RunFailed}"
    using assms(3) [OF r(3)] r(4,5) n by (auto simp: same_run_def)
  with r same_run_step [OF assms(2) [OF r(3)] r(4)]
  show "n_status n = RunFailed \<and> n_id n \<notin> (\<lambda>(k, m). n_id m) ` set jobs
      \<and> (\<exists>r \<in> set (map f rs). same_run r n \<and> n_status (r_run r) \<in> {RunRunning, RunFailed})" by auto
qed

lemma reads_ok_append:
  "guards_ok rs jobs ns \<Longrightarrow> guards_ok (rs @ new) jobs ns" "feedback_ok rs ms \<Longrightarrow> feedback_ok (rs @ new) ms"
  unfolding guards_ok_def feedback_ok_def by auto

lemma reads_ok_remove:
  "guards_ok rs jobs ns \<Longrightarrow> guards_ok rs jobs (remove1 n ns)" "feedback_ok rs ms \<Longrightarrow> feedback_ok rs (remove1 n ms)"
  unfolding guards_ok_def feedback_ok_def using set_remove1_subset by fastforce+

lemma same_row:
  "db_ok db \<Longrightarrow> r \<in> set (b_runs db) \<Longrightarrow> q \<in> set (b_runs db) \<Longrightarrow> n_id (r_run r) = n_id (r_run q) \<Longrightarrow> r = q"
  unfolding db_ok_def runs_ok_def distinct_map by (metis inj_onD)

subsection \<open>Reaping\<close>

definition reap_row :: "string \<Rightarrow> string set \<Rightarrow> int \<Rightarrow> (string \<times> string option) set \<Rightarrow> run_row \<Rightarrow> run_row" where
  "reap_row me live now S r =
     (if is_running r \<and> (\<exists>ow. (n_id (r_run r), ow) \<in> S \<and> orphaned me live (n_id (r_run r)) ow)
      then settle_failed now ORPHANED_RUN_ERROR FINISH_INTERRUPTED ORPHANED_RUN_NOTE r else r)"

lemma settle_failed_simps [simp]:
  "n_id (r_run (settle_failed at err reason remark r)) = n_id (r_run r)"
  "n_task_id (r_run (settle_failed at err reason remark r)) = n_task_id (r_run r)"
  "n_due_at (r_run (settle_failed at err reason remark r)) = n_due_at (r_run r)"
  "n_status (r_run (settle_failed at err reason remark r)) = RunFailed"
  "r_owner (settle_failed at err reason remark r) = r_owner r"
  by (simp_all add: settle_failed_def)

lemma reap_fold:
  "snd (foldl (reap_one me live now) acc xs)
     = (snd acc)\<lparr>b_runs := map (reap_row me live now (set xs)) (b_runs (snd acc))\<rparr>"
proof (induction xs arbitrary: acc)
  case Nil
  have "reap_row me live now (set []) = (\<lambda>r. r)" by (simp add: reap_row_def fun_eq_iff)
  then show ?case by simp
next
  case (Cons x xs)
  define mid where "mid r = (if orphaned me live (fst x) (snd x) \<and> n_id (r_run r) = fst x \<and> is_running r
      then settle_failed now ORPHANED_RUN_ERROR FINISH_INTERRUPTED ORPHANED_RUN_NOTE r else r)" for r
  have "snd (reap_one me live now acc x) = (snd acc)\<lparr>b_runs := map mid (b_runs (snd acc))\<rparr>"
  proof (cases "orphaned me live (fst x) (snd x)")
    case False
    then have "mid = (\<lambda>r. r)" by (simp add: mid_def fun_eq_iff)
    then show ?thesis using False by (simp add: reap_one_def)
  next
    case True
    then show ?thesis by (simp add: reap_one_def reap_running_run_def mid_def Let_def)
  qed
  moreover have "reap_row me live now (set xs) (mid r) = reap_row me live now (set (x # xs)) r" for r
    by (cases x) (auto simp: reap_row_def mid_def)
  ultimately show ?case using Cons [of "reap_one me live now acc x"] by (simp add: comp_def)
qed

lemma reaped_rows:
  assumes "db_ok db"
  shows "snd (reap_orphaned_runs me live now db) =
    db\<lparr>b_runs := map (\<lambda>r. if n_status (r_run r) = RunRunning \<and> orphaned me live (n_id (r_run r)) (r_owner r)
       then settle_failed now ORPHANED_RUN_ERROR FINISH_INTERRUPTED ORPHANED_RUN_NOTE r else r) (b_runs db)\<rparr>"
proof -
  have "(n_id (r_run r), ow) \<in> set (running_run_owners db) \<longleftrightarrow> ow = r_owner r"
    if r: "r \<in> set (b_runs db)" "n_status (r_run r) = RunRunning" for r ow
  proof
    assume "(n_id (r_run r), ow) \<in> set (running_run_owners db)"
    then obtain q where "q \<in> set (b_runs db)" "n_id (r_run q) = n_id (r_run r)" "ow = r_owner q"
      by (auto simp: running_run_owners_def)
    then show "ow = r_owner r" using same_row [OF assms _ r(1), of q] by simp
  next
    assume "ow = r_owner r"
    then show "(n_id (r_run r), ow) \<in> set (running_run_owners db)"
      using r by (simp add: running_run_owners_def image_iff) blast
  qed
  then have "map (reap_row me live now (set (running_run_owners db))) (b_runs db) =
    map (\<lambda>r. if n_status (r_run r) = RunRunning \<and> orphaned me live (n_id (r_run r)) (r_owner r)
       then settle_failed now ORPHANED_RUN_ERROR FINISH_INTERRUPTED ORPHANED_RUN_NOTE r else r) (b_runs db)"
    by (intro map_cong refl) (auto simp: reap_row_def)
  then show ?thesis unfolding reap_orphaned_runs_def reap_fold by simp
qed

subsection \<open>Steps\<close>

definition rows_step :: "string set \<Rightarrow> run_row list \<Rightarrow> run_row list \<Rightarrow> bool" where
  "rows_step W rs rs' \<longleftrightarrow> (\<exists>f new. rs' = map f rs @ new \<and> (\<forall>r \<in> set rs. row_step W r (f r)))"

lemma rows_stepI: "(\<And>r. r \<in> set rs \<Longrightarrow> row_step W r (f r)) \<Longrightarrow> rows_step W rs (map f rs)"
  unfolding rows_step_def by (rule exI [of _ f], rule exI [of _ "[]"]) simp

lemma rows_step_refl: "rows_step W rs rs"
  using rows_stepI [of rs W "\<lambda>r. r"] by simp

lemma rows_step_append: "rows_step W rs (rs @ new)"
  unfolding rows_step_def by (rule exI [of _ "\<lambda>r. r"], rule exI [of _ new]) simp

lemma row_step_trans: "row_step W a b \<Longrightarrow> row_step W b c \<Longrightarrow> row_step W a c"
  by (auto simp: row_step_def)

lemma rows_step_trans:
  assumes "rows_step W a b" "rows_step W b c"
  shows "rows_step W a c"
proof -
  from assms obtain f new g new' where b: "b = map f a @ new" "\<forall>r \<in> set a. row_step W r (f r)"
    and c: "c = map g b @ new'" "\<forall>r \<in> set b. row_step W r (g r)"
    unfolding rows_step_def by blast
  have "c = map (\<lambda>r. g (f r)) a @ (map g new @ new')" by (simp add: b(1) c(1))
  moreover have "row_step W r (g (f r))" if "r \<in> set a" for r
    using row_step_trans [of W r "f r" "g (f r)"] b c(2) that by simp
  ultimately show ?thesis unfolding rows_step_def by blast
qed

abbreviation h_runs :: "task_host \<Rightarrow> run_row list" where
  "h_runs h \<equiv> b_runs (h_db h)"

text \<open>The runs a write in flight may give another outcome: a guard's, and feedback that read another one.\<close>

definition in_flight :: "task_host \<Rightarrow> string set" where
  "in_flight h = n_id ` set (h_guards h)
     \<union> {rid. \<exists>n \<in> set (h_feedback h). n_id n = rid
          \<and> (\<exists>r \<in> set (h_runs h). n_id (r_run r) = rid \<and> outcome_of (r_run r) \<noteq> outcome_of n)}"

text \<open>The shape of most steps: rows are rewritten, the executors' statuses stay.\<close>

lemma rewrite_step:
  assumes "host_inv h" "db_ok db'" "b_runs db' = map f (h_runs h)"
    and "\<And>r. r \<in> set (h_runs h) \<Longrightarrow> row_step W r (f r)"
    and "\<And>r. r \<in> set (h_runs h) \<Longrightarrow> r_owner r = Some (h_me h) \<Longrightarrow> n_id (r_run r) \<in> (\<lambda>(k, n). n_id n) ` set (h_jobs h)
          \<Longrightarrow> n_id (r_run r) \<in> h_live h \<Longrightarrow> n_status (r_run (f r)) = n_status (r_run r)"
    and "\<And>r. r \<in> set (h_runs h) \<Longrightarrow> n_status (r_run (f r)) = n_status (r_run r) \<or> n_status (r_run (f r)) = RunFailed"
  shows "host_inv (h\<lparr>h_db := db'\<rparr>) \<and> rows_step W (h_runs h) (b_runs db')"
proof -
  have "one_running (map f (h_runs h))" by (rule one_running_map [OF host_invD(2) [OF assms(1)] assms(4)])
  moreover have "jobs_ok (h_me h) (h_live h) (map f (h_runs h)) (h_jobs h)"
    by (rule jobs_ok_map [OF host_invD(3) [OF assms(1)] assms(4,5)])
  moreover have "guards_ok (map f (h_runs h)) (h_jobs h) (h_guards h)"
    by (rule guards_ok_map [OF host_invD(4) [OF assms(1)] assms(4,6)])
  moreover have "feedback_ok (map f (h_runs h)) (h_feedback h)"
    by (rule feedback_ok_map [OF host_invD(5) [OF assms(1)] assms(4)])
  moreover have "rows_step W (h_runs h) (map f (h_runs h))" by (rule rows_stepI [OF assms(4)])
  ultimately show ?thesis by (simp add: host_inv_def assms(2,3))
qed

lemma quiet_step:
  assumes "host_inv h" "db_ok db'" "b_runs db' = h_runs h"
  shows "host_inv (h\<lparr>h_db := db'\<rparr>) \<and> rows_step W (h_runs h) (b_runs db')"
  using assms by (intro rewrite_step [of h db' "\<lambda>r. r"]) simp_all

lemma plan_irrelevant [simp]: "host_inv (h\<lparr>h_plan := p\<rparr>) = host_inv h"
  by (simp add: host_inv_def)

lemma tick_start_step:
  assumes "host_inv h"
  shows "host_inv (tick_start now1 now2 h) \<and> rows_step W (h_runs h) (h_runs (tick_start now1 now2 h))"
proof -
  define db where "db = snd (reap_orphaned_runs (h_me h) (h_live h) now1 (h_db h))"
  define f where "f r = (if n_status (r_run r) = RunRunning \<and> orphaned (h_me h) (h_live h) (n_id (r_run r)) (r_owner r)
       then settle_failed now1 ORPHANED_RUN_ERROR FINISH_INTERRUPTED ORPHANED_RUN_NOTE r else r)" for r
  note ok = host_invD(1) [OF assms]
  have db: "db = (h_db h)\<lparr>b_runs := map f (h_runs h)\<rparr>"
    unfolding db_def reaped_rows [OF ok] f_def ..
  have "host_inv (h\<lparr>h_db := db\<rparr>) \<and> rows_step W (h_runs h) (b_runs db)"
  proof (rule rewrite_step [OF assms])
    show "db_ok db" unfolding db by (rule rewrite_runs_ok [OF ok]) (simp add: f_def)
    show "b_runs db = map f (h_runs h)" by (simp add: db)
    show "row_step W r (f r)" for r by (simp add: f_def row_step_def)
    show "n_status (r_run (f r)) = n_status (r_run r)" if "r_owner r = Some (h_me h)" "n_id (r_run r) \<in> h_live h" for r
      using that by (simp add: f_def orphaned_def)
    show "n_status (r_run (f r)) = n_status (r_run r) \<or> n_status (r_run (f r)) = RunFailed" for r
      by (simp add: f_def)
  qed
  then show ?thesis by (simp add: tick_start_def Let_def db_def [symmetric] host_inv_def)
qed

lemma has_running_iff: "has_running_run db tid \<longleftrightarrow> (\<exists>r \<in> set (b_runs db). n_task_id (r_run r) = tid \<and> n_status (r_run r) = RunRunning)"
  by (auto simp: has_running_run_def filter_empty_conv)

text \<open>A claim adds one row, also when it then fails.\<close>

lemma claim_rows:
  assumes "db_ok db" "claim next me rid now db k reason = (res, db')"
  shows "db_ok db' \<and>
    (b_runs db' = b_runs db \<and> (\<exists>e. res = Inl e)
     \<or> b_runs db' = b_runs db @ [\<lparr>r_run = claimed_run rid k reason now, r_owner = Some me, r_output = None\<rparr>]
       \<and> ((\<exists>e. res = Inl e) \<or> res = Inr (claimed_run rid k reason now)))"
proof (cases "insert_run_owned db (claimed_run rid k reason now) (Some me)")
  case (Inl e)
  then show ?thesis using assms by (auto simp: claim_def)
next
  case (Inr db1)
  define q where "q = \<lparr>r_run = claimed_run rid k reason now, r_owner = Some me, r_output = None\<rparr>"
  have mid: "db_ok db1" "b_runs db1 = b_runs db @ [q]"
    using insert_run_ok [OF assms(1) Inr] by (simp_all add: q_def)
  define slot where "slot = (if n_kind (claimed_run rid k reason now) = RunMain then next k now else Some (k_next_due_at k))"
  show ?thesis
  proof (cases slot)
    case None
    then show ?thesis using assms(2) Inr mid by (auto simp: claim_def slot_def q_def)
  next
    case (Some due)
    show ?thesis
    proof (cases "update_task db1 (claimed_task k due now)")
      case (Inl e)
      then show ?thesis
        using assms(2) \<open>insert_run_owned _ _ _ = Inr db1\<close> Some mid by (auto simp: claim_def slot_def q_def)
    next
      case (Inr db2)
      then show ?thesis
        using assms(2) \<open>insert_run_owned _ _ _ = Inr db1\<close> Some mid update_task_ok [OF mid(1) Inr]
        by (auto simp: claim_def slot_def q_def)
    qed
  qed
qed

lemma claimed_run_simps [simp]:
  "n_id (claimed_run rid k reason now) = rid" "n_task_id (claimed_run rid k reason now) = k_id k"
  "n_status (claimed_run rid k reason now) = RunRunning"
  "n_due_at (claimed_run rid k reason now) = (case reason of ClaimExplicit \<Rightarrow> None | ClaimSchedule \<Rightarrow> k_next_due_at k)"
  by (simp_all add: claimed_run_def)

lemma jobs_ok_more: "jobs_ok me live rs jobs \<Longrightarrow> live \<subseteq> live' \<Longrightarrow> jobs_ok me live' (rs @ new) jobs"
  unfolding jobs_ok_def by fastforce

lemma tick_next_step:
  assumes "host_inv h"
  shows "host_inv (tick_next next rid now h) \<and> rows_step W (h_runs h) (h_runs (tick_next next rid now h))"
proof (cases "h_plan h")
  case Nil
  then show ?thesis using assms by (simp add: tick_next_def rows_step_refl)
next
  case (Cons c rest)
  obtain k reason where c: "c = (k, reason)" by (cases c)
  show ?thesis
  proof (cases "has_running_run (h_db h) (k_id k)")
    case True
    then show ?thesis using assms by (simp add: tick_next_def Cons c rows_step_refl)
  next
    case False
    obtain res db' where claim: "claim next (h_me h) rid now (h_db h) k reason = (res, db')"
      by (cases "claim next (h_me h) rid now (h_db h) k reason")
    define q where "q = \<lparr>r_run = claimed_run rid k reason now, r_owner = Some (h_me h), r_output = None\<rparr>"
    note rows = claim_rows [OF host_invD(1) [OF assms] claim, folded q_def]
    have free: "n_status (r_run r) \<noteq> RunRunning" if "r \<in> set (h_runs h)" "n_task_id (r_run r) = n_task_id (r_run q)" for r
      using False that by (auto simp: has_running_iff q_def)
    have one: "one_running (h_runs h @ [q])"
      by (rule one_running_append [OF host_invD(2) [OF assms] free])
    note more = jobs_ok_more [OF host_invD(3) [OF assms]]
    have fresh: "\<forall>r \<in> set (h_runs h). n_id (r_run r) \<noteq> rid" if "b_runs db' = h_runs h @ [q]" "db_ok db'"
      using that by (auto simp: db_ok_def runs_ok_def q_def)
    show ?thesis
    proof (cases res)
      case (Inl e)
      then have "host_inv (h\<lparr>h_db := db'\<rparr>) \<and> rows_step W (h_runs h) (b_runs db')"
        using rows quiet_step [OF assms, of db'] one more [OF order_refl] rows_step_append [of W "h_runs h"]
          reads_ok_append(1) [OF host_invD(4) [OF assms]] reads_ok_append(2) [OF host_invD(5) [OF assms]]
        by (auto simp: host_inv_def)
      then show ?thesis by (simp add: tick_next_def Cons c False claim Inl host_inv_def)
    next
      case (Inr n)
      then have n: "n = claimed_run rid k reason now" "b_runs db' = h_runs h @ [q]" "db_ok db'" using rows by auto
      have "jobs_ok (h_me h) (insert (n_id n) (h_live h)) (b_runs db') (h_jobs h @ [(k, n)])"
      proof (rule jobs_okI)
        fix k' n' assume "(k', n') \<in> set (h_jobs h @ [(k, n)])"
        then consider "(k', n') \<in> set (h_jobs h)" | "n' = n" by auto
        then show "n_id n' \<in> insert (n_id n) (h_live h) \<and> (\<exists>r \<in> set (b_runs db'). owns (h_me h) r n')"
        proof cases
          case 1
          then show ?thesis using jobs_okD [OF more [of "insert (n_id n) (h_live h)" "[q]"] 1] by (simp add: n(2)) blast
        next
          case 2
          then show ?thesis by (simp add: n q_def owns_def)
        qed
      qed
      moreover have "guards_ok (b_runs db') (h_jobs h @ [(k, n)]) (h_guards h)"
        using reads_ok_append(1) [OF host_invD(4) [OF assms]] fresh [OF n(2,3)]
          guards_okD [OF host_invD(4) [OF assms]]
        by (fastforce simp: guards_ok_def n(1,2) same_run_def)
      ultimately show ?thesis
        using n one rows_step_append [of W "h_runs h"] reads_ok_append(2) [OF host_invD(5) [OF assms]]
        by (simp add: tick_next_def Cons c False claim Inr host_inv_def)
    qed
  qed
qed

text \<open>An executor writes its own row, which is still running.\<close>

lemma replace_job_simps [simp]:
  "h_db (replace_job n h) = h_db h" "h_me (replace_job n h) = h_me h" "h_live (replace_job n h) = h_live h"
  "h_guards (replace_job n h) = h_guards h" "h_feedback (replace_job n h) = h_feedback h"
  by (simp_all add: replace_job_def)

lemma replaced_jobs_ok:
  assumes "jobs_ok me live rs jobs" "(k, n) \<in> set jobs"
    and "n_id n' = n_id n" "\<exists>r \<in> set rs'. owns me r n'"
    and "\<And>j m. (j, m) \<in> set jobs \<Longrightarrow> n_id m \<noteq> n_id n \<Longrightarrow> \<exists>r \<in> set rs'. owns me r m"
  shows "jobs_ok me live rs' (map (\<lambda>(k, n). (k, if n_id n = n_id n' then n' else n)) jobs)"
proof (rule jobs_okI)
  fix j m
  assume "(j, m) \<in> set (map (\<lambda>(k, n). (k, if n_id n = n_id n' then n' else n)) jobs)"
  then obtain m0 where m0: "(j, m0) \<in> set jobs" "m = (if n_id m0 = n_id n' then n' else m0)" by auto
  have "n_id n \<in> live" "n_id m0 \<in> live" using jobs_okD [OF assms(1)] assms(2) m0(1) by blast+
  then show "n_id m \<in> live \<and> (\<exists>r \<in> set rs'. owns me r m)"
    using assms(3-5) m0 by (cases "n_id m0 = n_id n'") auto
qed

lemma replaced_ids: "(\<lambda>(k, m). n_id m) ` (\<lambda>(k, m). (k, if n_id m = n_id n' then n' else m)) ` X = (\<lambda>(k, m). n_id m) ` X"
  unfolding image_image by (rule image_cong) auto

lemma replaced_guards_ok:
  "guards_ok rs jobs ns
   \<Longrightarrow> guards_ok rs (map (\<lambda>(k, m). (k, if n_id m = n_id n' then n' else m)) jobs) ns"
  unfolding guards_ok_def set_map replaced_ids .

lemma job_write_step:
  assumes "host_inv h" "(k, n) \<in> set (h_jobs h)" "n_status n = RunRunning"
    and "n_id n' = n_id n" "n_task_id n' = n_task_id n" "n_due_at n' = n_due_at n"
    and "update_run (h_db h) n' = Inr db'"
  shows "host_inv (replace_job n' (h\<lparr>h_db := db'\<rparr>)) \<and> rows_step W (h_runs h) (b_runs db')"
proof -
  note upd = update_run_ok [OF host_invD(1) [OF assms(1)] assms(7)]
  from jobs_okD [OF host_invD(3) [OF assms(1)] assms(2)] obtain r where
    r: "r \<in> set (h_runs h)" "owns (h_me h) r n" by blast
  have row: "row_step W q (write_run n' q)" if "q \<in> set (h_runs h)" for q
  proof (cases "n_id (r_run q) = n_id n")
    case True
    then have "q = r" using same_row [OF host_invD(1) [OF assms(1)] that r(1)] r(2) by (simp add: owns_def)
    then show ?thesis using r(2) assms(3-6) by (simp add: row_step_def write_run_def owns_def)
  qed (simp add: write_run_def assms(4))
  have "jobs_ok (h_me h) (h_live h) (b_runs db')
      (map (\<lambda>(k, n). (k, if n_id n = n_id n' then n' else n)) (h_jobs h))"
  proof (rule replaced_jobs_ok [OF host_invD(3) [OF assms(1)] assms(2,4)])
    have "owns (h_me h) (write_run n' r) n'" using r(2) assms(4-6) by (simp add: owns_def write_run_def)
    then show "\<exists>r \<in> set (b_runs db'). owns (h_me h) r n'" using r(1) upd by auto
    fix j m assume m: "(j, m) \<in> set (h_jobs h)" "n_id m \<noteq> n_id n"
    from jobs_okD [OF host_invD(3) [OF assms(1)] m(1)] obtain q where q: "q \<in> set (h_runs h)" "owns (h_me h) q m" by blast
    then have "write_run n' q = q" using m(2) assms(4) by (simp add: write_run_def owns_def)
    then have "q \<in> set (b_runs db')" using q(1) upd by (metis imageI image_set)
    with q(2) show "\<exists>r \<in> set (b_runs db'). owns (h_me h) r m" by blast
  qed
  moreover have "one_running (b_runs db')"
    using one_running_map [OF host_invD(2) [OF assms(1)] row] upd by simp
  moreover have "feedback_ok (b_runs db') (h_feedback h)"
    using feedback_ok_map [OF host_invD(5) [OF assms(1)] row] upd by simp
  moreover have "guards_ok (b_runs db') (map (\<lambda>(k, n). (k, if n_id n = n_id n' then n' else n)) (h_jobs h)) (h_guards h)"
  proof (rule replaced_guards_ok)
    have "n_id m \<noteq> n_id n'" if "m \<in> set (h_guards h)" for m
      using guards_okD [OF host_invD(4) [OF assms(1)] that] assms(2,4) by force
    then have other: "n_id n' \<notin> n_id ` set (h_guards h)" by (metis imageE)
    have "write_run n' q = q" if "n_id (r_run q) \<in> n_id ` set (h_guards h)" for q
      using that other by (simp add: write_run_def) metis
    then have "guards_ok (map (write_run n') (h_runs h)) (h_jobs h) (h_guards h)"
      by (intro guards_ok_map [OF host_invD(4) [OF assms(1)] row]) simp_all
    then show "guards_ok (b_runs db') (h_jobs h) (h_guards h)" using upd by simp
  qed
  moreover have "rows_step W (h_runs h) (b_runs db')" using rows_stepI [OF row] upd by simp
  ultimately show ?thesis using upd by (simp add: host_inv_def replace_job_def)
qed

text \<open>A copy that agrees with the old one in what the invariant reads.\<close>

lemma replace_same:
  assumes "host_inv h" "(k, n) \<in> set (h_jobs h)"
    and "n_id n' = n_id n" "n_task_id n' = n_task_id n" "n_due_at n' = n_due_at n" "n_status n' = n_status n"
  shows "host_inv (replace_job n' h)"
proof -
  have "jobs_ok (h_me h) (h_live h) (h_runs h) (map (\<lambda>(k, n). (k, if n_id n = n_id n' then n' else n)) (h_jobs h))"
  proof (rule replaced_jobs_ok [OF host_invD(3) [OF assms(1)] assms(2,3)])
    from jobs_okD [OF host_invD(3) [OF assms(1)] assms(2)] obtain r where "r \<in> set (h_runs h)" "owns (h_me h) r n" by blast
    then show "\<exists>r \<in> set (h_runs h). owns (h_me h) r n'" using assms(3-6) by (auto simp: owns_def)
  qed (use jobs_okD [OF host_invD(3) [OF assms(1)]] in blast)
  then show ?thesis using assms(1) replaced_guards_ok by (simp add: host_inv_def replace_job_def)
qed

lemma choose_session_ok:
  assumes "db_ok db" "choose_session open_conversation threads now db k = (res, db')"
  shows "db_ok db' \<and> b_runs db' = b_runs db"
proof (cases "db' = db")
  case False
  then obtain t where "bind_task_thread db k t now = Inr db'"
    using assms(2)
    by (auto simp: choose_session_def split: session_policy.splits sum.splits option.splits)
  then show ?thesis using update_task_ok [OF assms(1)] by (auto simp: bind_task_thread_def)
qed (use assms(1) in simp)

lemma session_step:
  assumes "host_inv h" "(k, run) \<in> set (h_jobs h)" "n_status run = RunRunning"
    and "run_session open_conversation threads now (h_db h) k run = (e, run', db')"
  shows "host_inv (replace_job run' (h\<lparr>h_db := db'\<rparr>)) \<and> rows_step W (h_runs h) (b_runs db')"
proof -
  obtain res db1 where choose: "choose_session open_conversation threads now (h_db h) k = (res, db1)"
    by (cases "choose_session open_conversation threads now (h_db h) k")
  have mid: "db_ok db1" "b_runs db1 = h_runs h"
    using choose_session_ok [OF host_invD(1) [OF assms(1)] choose] by simp_all
  define h1 where "h1 = h\<lparr>h_db := db1\<rparr>"
  have h1: "host_inv h1" "(k, run) \<in> set (h_jobs h1)" "h_db h1 = db1"
    using quiet_step [OF assms(1) mid] assms(2) by (simp_all add: h1_def)
  define run1 where "run1 = (case res of Inl _ \<Rightarrow> run | Inr ids \<Rightarrow> run\<lparr>n_thread_id := Some (fst ids), n_session_id := Some (snd ids)\<rparr>)"
  have same: "n_id run1 = n_id run" "n_task_id run1 = n_task_id run" "n_due_at run1 = n_due_at run" "n_status run1 = n_status run"
    by (simp_all add: run1_def split: sum.split)
  have cases: "run' = run1 \<and> (db' = db1 \<or> update_run db1 run1 = Inr db')"
    using assms(4) choose by (auto simp: run_session_def run1_def Let_def split: sum.splits)
  then show ?thesis
  proof (elim conjE disjE)
    assume "run' = run1" "db' = db1"
    then show ?thesis
      using replace_same [OF h1(1,2) same] by (simp add: h1_def mid(2) rows_step_refl)
  next
    assume "run' = run1" "update_run db1 run1 = Inr db'"
    then show ?thesis
      using job_write_step [OF h1(1,2) assms(3) same(1-3)] by (simp add: h1_def mid(2))
  qed
qed

lemma settled_run_same:
  "settled_run run outcome read_back now = (run', output) \<Longrightarrow>
   n_id run' = n_id run \<and> n_task_id run' = n_task_id run \<and> n_due_at run' = n_due_at run \<and> n_status run' \<noteq> RunRunning"
  by (auto simp: settled_run_def Let_def split: sum.splits if_splits)

lemma settle_step:
  assumes "host_inv h" "(k, run) \<in> set (h_jobs h)" "n_status run = RunRunning"
    and "settled_run run outcome read_back now = (run', output)" "settle_run (h_db h) run' output = Inr db'"
  shows "host_inv (replace_job run' (h\<lparr>h_db := db'\<rparr>)) \<and> rows_step W (h_runs h) (b_runs db')"
proof -
  note same = settled_run_same [OF assms(4)]
  obtain db1 where db1: "update_run (h_db h) run' = Inr db1"
    and db': "db' = (case output of None \<Rightarrow> db1 | Some body \<Rightarrow> set_run_output db1 (n_id run') (truncate_text body RUN_OUTPUT_CHARS))"
    using assms(5) by (auto simp: settle_run_def split: sum.splits)
  define h1 where "h1 = replace_job run' (h\<lparr>h_db := db1\<rparr>)"
  have one: "host_inv h1" "rows_step W (h_runs h) (b_runs db1)" "h_db h1 = db1"
    using job_write_step [OF assms(1-3) _ _ _ db1] same by (simp_all add: h1_def)
  have "host_inv (h1\<lparr>h_db := db'\<rparr>) \<and> rows_step W (b_runs db1) (b_runs db')"
  proof (cases "output")
    case None
    then show ?thesis using quiet_step [OF one(1), of db'] one host_invD(1) [OF one(1)] by (simp add: db')
  next
    case (Some body)
    have "host_inv (h1\<lparr>h_db := db'\<rparr>) \<and> rows_step W (h_runs h1) (b_runs db')"
    proof (rule rewrite_step [OF one(1)])
      show "db_ok db'" using quiet_statements_ok(1) [of db1] host_invD(1) [OF one(1)] one(3) by (simp add: db' Some)
      show "b_runs db' = map (\<lambda>r. if n_id (r_run r) = n_id run' then r\<lparr>r_output := Some (truncate_text body RUN_OUTPUT_CHARS)\<rparr> else r) (h_runs h1)"
        by (simp add: db' Some set_run_output_def one(3))
    qed (simp_all add: row_step_def outcome_of_def Let_def)
    then show ?thesis by (simp add: one(3))
  qed
  moreover have "replace_job run' (h\<lparr>h_db := db'\<rparr>) = h1\<lparr>h_db := db'\<rparr>" by (simp add: h1_def replace_job_def)
  ultimately show ?thesis using rows_step_trans [OF one(2)] by simp
qed

lemma close_conversation_cases:
  "close_conversation deleted entries k db run = (run', db') \<Longrightarrow>
   run' = run \<and> db' = db
   \<or> run' = run\<lparr>n_session_deleted := True, n_thread_id := None, n_session_id := None\<rparr>
     \<and> db' = mark_run_conversation_deleted db (n_id run)"
  by (auto simp: close_conversation_def close_kept_def close_empty_def forget_conversation_def
      split: option.splits if_splits)

lemma close_step:
  assumes "host_inv h" "(k, run) \<in> set (h_jobs h)"
    and "close_conversation deleted entries k (h_db h) run = (run', db')"
  shows "host_inv (replace_job run' (h\<lparr>h_db := db'\<rparr>)) \<and> rows_step W (h_runs h) (b_runs db')"
proof -
  have "host_inv (h\<lparr>h_db := db'\<rparr>) \<and> rows_step W (h_runs h) (b_runs db')"
    using close_conversation_cases [OF assms(3)]
  proof (elim disjE conjE)
    assume "db' = h_db h"
    then show ?thesis using quiet_step [OF assms(1) host_invD(1) [OF assms(1)]] by simp
  next
    assume db': "db' = mark_run_conversation_deleted (h_db h) (n_id run)"
    show ?thesis
    proof (rule rewrite_step [OF assms(1)])
      show "db_ok db'" unfolding db' by (rule quiet_statements_ok(2) [OF host_invD(1) [OF assms(1)]])
      show "b_runs db' = map (\<lambda>r. if n_id (r_run r) = n_id run
          then r\<lparr>r_run := (r_run r)\<lparr>n_thread_id := None, n_session_id := None, n_session_deleted := True\<rparr>\<rparr> else r) (h_runs h)"
        by (simp add: db' mark_run_conversation_deleted_def)
    qed (simp_all add: row_step_def outcome_of_def Let_def)
  qed
  moreover have "n_id run' = n_id run" "n_task_id run' = n_task_id run" "n_due_at run' = n_due_at run" "n_status run' = n_status run"
    using close_conversation_cases [OF assms(3)] by auto
  ultimately show ?thesis using replace_same [of "h\<lparr>h_db := db'\<rparr>" k run run'] assms(2) by simp
qed

lemma end_job_step: "host_inv h \<Longrightarrow> host_inv (end_job rid h)"
  by (auto simp: host_inv_def end_job_def jobs_ok_def guards_ok_def image_iff)

lemma unregister_step:
  assumes "host_inv h" "rid \<notin> job_ids h"
  shows "host_inv (h\<lparr>h_live := h_live h - {rid}\<rparr>)"
proof -
  have "jobs_ok (h_me h) (h_live h - {rid}) (h_runs h) (h_jobs h)"
    using host_invD(3) [OF assms(1)] assms(2) by (force simp: jobs_ok_def job_ids_def)
  then show ?thesis using assms(1) by (simp add: host_inv_def)
qed

lemma get_run_row:
  assumes "get_run db rid = Some n"
  obtains r where "r \<in> set (b_runs db)" "r_run r = n" "n_id n = rid"
proof -
  from assms obtain r where "find (\<lambda>r. n_id (r_run r) = rid) (b_runs db) = Some r" "r_run r = n"
    by (auto simp: get_run_def)
  then show thesis using that [of r] find_SomeD by fastforce
qed

text \<open>A guard reads a run that has no executor and is running; it writes it as failed.\<close>

lemma guard_reads_step:
  assumes "host_inv h" "rid \<notin> job_ids h" "interrupt_read now rid (h_db h) = Some n"
  shows "host_inv (h\<lparr>h_guards := n # h_guards h\<rparr>)"
proof -
  from assms(3) obtain m where m: "get_run (h_db h) rid = Some m" "n_status m = RunRunning"
    and n: "n_id n = n_id m" "n_task_id n = n_task_id m" "n_due_at n = n_due_at m" "n_status n = RunFailed"
    by (auto simp: interrupt_read_def split: option.splits if_splits)
  from m(1) obtain r where r: "r \<in> set (h_runs h)" "r_run r = m" "n_id m = rid" by (rule get_run_row)
  have "guards_ok (h_runs h) (h_jobs h) (n # h_guards h)"
    using host_invD(4) [OF assms(1)] r m(2) n assms(2)
    by (auto simp: guards_ok_def same_run_def job_ids_def intro!: bexI [of _ r])
  then show ?thesis using assms(1) by (simp add: host_inv_def)
qed

lemma in_flight_guard: "n \<in> set (h_guards h) \<Longrightarrow> n_id n \<in> in_flight h"
  by (simp add: in_flight_def)

lemma in_flight_feedback:
  "n \<in> set (h_feedback h) \<Longrightarrow> r \<in> set (h_runs h) \<Longrightarrow> n_id (r_run r) = n_id n
   \<Longrightarrow> outcome_of (r_run r) \<noteq> outcome_of n \<Longrightarrow> n_id n \<in> in_flight h"
  unfolding in_flight_def by blast

text \<open>Writing a row that was read before: the row of that id is the one read, its status as allowed.\<close>

lemma late_write_step:
  assumes "host_inv h" "update_run (h_db h) n = Inr db'"
    and "r \<in> set (h_runs h)" "same_run r n" "row_step W r (write_run n r)"
    and "r_owner r = Some (h_me h) \<Longrightarrow> n_id n \<in> (\<lambda>(k, m). n_id m) ` set (h_jobs h) \<Longrightarrow> n_status n = n_status (r_run r)"
    and "n_status n = n_status (r_run r) \<or> n_status n = RunFailed"
  shows "host_inv (h\<lparr>h_db := db'\<rparr>) \<and> rows_step W (h_runs h) (b_runs db')"
proof -
  note ok = update_run_ok [OF host_invD(1) [OF assms(1)] assms(2)]
  have only: "q = r \<or> write_run n q = q" if "q \<in> set (h_runs h)" for q
    using same_row [OF host_invD(1) [OF assms(1)] that assms(3)] assms(4)
    by (auto simp: write_run_def same_run_def)
  have st: "n_status (r_run (write_run n r)) = n_status n" "n_id (r_run r) = n_id n"
    using assms(4) by (simp_all add: write_run_def same_run_def)
  show ?thesis
  proof (rule rewrite_step [OF assms(1)])
    show "db_ok db'" "b_runs db' = map (write_run n) (h_runs h)" using ok by simp_all
  next
    fix q assume q: "q \<in> set (h_runs h)"
    show "row_step W q (write_run n q)" using only [OF q] assms(5) by auto
    show "n_status (r_run (write_run n q)) = n_status (r_run q) \<or> n_status (r_run (write_run n q)) = RunFailed"
      using only [OF q] assms(7) st(1) by auto
    assume mine: "r_owner q = Some (h_me h)" "n_id (r_run q) \<in> (\<lambda>(k, m). n_id m) ` set (h_jobs h)"
    show "n_status (r_run (write_run n q)) = n_status (r_run q)"
    proof (cases "q = r")
      case True
      have "n_status n = n_status (r_run r)" by (rule assms(6)) (use mine True st(2) in simp_all)
      then show ?thesis using st(1) True by simp
    qed (use only [OF q] in simp)
  qed
qed

lemma guard_writes_step:
  assumes "host_inv h" "n \<in> set (h_guards h)" "update_run (h_db h) n = Inr db'"
  shows "host_inv (h\<lparr>h_db := db'\<rparr>) \<and> rows_step (in_flight h) (h_runs h) (b_runs db')"
proof -
  from guards_okD [OF host_invD(4) [OF assms(1)] assms(2)] obtain r where
    r: "n_status n = RunFailed" "n_id n \<notin> (\<lambda>(k, m). n_id m) ` set (h_jobs h)" "r \<in> set (h_runs h)" "same_run r n"
      "n_status (r_run r) \<in> {RunRunning, RunFailed}" by blast
  show ?thesis
  proof (rule late_write_step [OF assms(1,3) r(3,4)])
    show "row_step (in_flight h) r (write_run n r)"
      using r in_flight_guard [OF assms(2)] by (auto simp: row_step_def write_run_def same_run_def)
  qed (use r in auto)
qed

lemma feedback_reads_step:
  assumes "host_inv h" "feedback_read (h_db h) rid verdict remark = Inr n" "is_settled n"
  shows "host_inv (h\<lparr>h_feedback := n # h_feedback h\<rparr>)"
proof -
  from assms(2) obtain m where m: "get_run (h_db h) rid = Some m"
    and n: "n_id n = n_id m" "n_task_id n = n_task_id m" "n_due_at n = n_due_at m" "n_status n = n_status m"
      "outcome_of n = outcome_of m"
    by (auto simp: feedback_read_def outcome_of_def split: option.splits if_splits)
  from m obtain r where r: "r \<in> set (h_runs h)" "r_run r = m" by (rule get_run_row)
  have "feedback_ok (h_runs h) (n # h_feedback h)"
    using host_invD(5) [OF assms(1)] r n assms(3)
    by (auto simp: feedback_ok_def same_run_def intro!: bexI [of _ r])
  then show ?thesis using assms(1) by (simp add: host_inv_def)
qed

lemma feedback_writes_step:
  assumes "host_inv h" "n \<in> set (h_feedback h)" "update_run (h_db h) n = Inr db'"
  shows "host_inv (h\<lparr>h_db := db'\<rparr>) \<and> rows_step (in_flight h) (h_runs h) (b_runs db')"
proof -
  from host_invD(5) [OF assms(1)] assms(2) obtain r where
    r: "is_settled n" "r \<in> set (h_runs h)" "same_run r n" "n_status (r_run r) = n_status n"
      "n_status n \<noteq> RunFailed \<longrightarrow> outcome_of (r_run r) = outcome_of n"
    unfolding feedback_ok_def by blast
  have kept: "outcome_of n = outcome_of (r_run r)" if "n_status n \<noteq> RunFailed \<or> n_id n \<notin> in_flight h"
    using that r in_flight_feedback [OF assms(2) r(2)] by (auto simp: same_run_def)
  show ?thesis
  proof (rule late_write_step [OF assms(1,3) r(2,3)])
    show "row_step (in_flight h) r (write_run n r)"
      using r kept by (auto simp: row_step_def write_run_def same_run_def outcome_of_def)
  qed (use r(4) in simp_all)
qed

lemma removed_reads:
  "host_inv h \<Longrightarrow> host_inv (h\<lparr>h_guards := remove1 n (h_guards h)\<rparr>)"
  "host_inv h \<Longrightarrow> host_inv (h\<lparr>h_feedback := remove1 n (h_feedback h)\<rparr>)"
  by (simp_all add: host_inv_def reads_ok_remove)

lemma restart_step:
  assumes "host_inv h" and db'_def: "db' = snd (mark_interrupted_runs (h_db h) now)"
  shows "host_inv \<lparr>h_db = db', h_me = me', h_live = {}, h_jobs = [], h_plan = [], h_guards = [],
      h_feedback = h_feedback h\<rparr> \<and> rows_step W (h_runs h) (b_runs db')"
proof -
  define f where "f r = (if is_running r then settle_failed now ''interrupted'' FINISH_INTERRUPTED INTERRUPTED_NOTE r else r)" for r
  have rows: "b_runs db' = map f (h_runs h)" by (simp add: db'_def mark_interrupted_runs_def f_def [abs_def])
  have row: "row_step V r (f r)" for r V by (simp add: f_def row_step_def)
  have "one_running (map f (h_runs h))" by (rule one_running_map [OF host_invD(2) [OF assms(1)] row])
  moreover have "db_ok db'" unfolding db'_def by (rule quiet_statements_ok(4) [OF host_invD(1) [OF assms(1)]])
  moreover have "feedback_ok (map f (h_runs h)) (h_feedback h)"
    by (rule feedback_ok_map [OF host_invD(5) [OF assms(1)] row])
  ultimately show ?thesis
    using rows_stepI [of "h_runs h" W f] row by (simp add: host_inv_def jobs_ok_def guards_ok_def rows)
qed

theorem host_step_inv:
  assumes "host_step next is_settled h h'" "host_inv h"
  shows "host_inv h' \<and> rows_step (in_flight h) (h_runs h) (h_runs h')"
  using assms
proof (induction rule: host_step.induct)
  case (start h now1 now2)
  then show ?case using tick_start_step by simp
next
  case (next_claim h rid now)
  then show ?case by (rule tick_next_step)
next
  case (stop h)
  then show ?case by (simp add: rows_step_refl)
next
  case (session k run h open_conversation threads now e run' db')
  then show ?case using session_step by simp
next
  case (settle k run h outcome read_back now run' saved db')
  then show ?case using settle_step by simp
next
  case (close k run h deleted entries run' db')
  then show ?case using close_step by simp
next
  case (leave h rid)
  then show ?case using end_job_step by (simp add: end_job_def rows_step_refl)
next
  case (unregister rid h)
  then show ?case using unregister_step by (simp add: rows_step_refl)
next
  case (guard_reads rid h now n)
  then show ?case using guard_reads_step by (simp add: rows_step_refl)
next
  case (guard_writes n h db')
  then show ?case using guard_writes_step [OF guard_writes(3,1,2)] removed_reads(1) [of "h\<lparr>h_db := db'\<rparr>"] by simp
next
  case (guard_fails h n)
  then show ?case using removed_reads by (simp add: rows_step_refl)
next
  case (create h k db')
  then show ?case using quiet_step [OF create(2), of db'] rows_step_refl insert_task_ok [OF host_invD(1) [OF create(2)] create(1)] by simp
next
  case (edit h k db')
  then show ?case using quiet_step [OF edit(2), of db'] rows_step_refl update_task_ok [OF host_invD(1) [OF edit(2)] edit(1)] by simp
next
  case (history h p db')
  then show ?case using quiet_step [OF history(2), of db'] rows_step_refl insert_revision_ok [OF host_invD(1) [OF history(2)] history(1)] by simp
next
  case (feedback_reads h rid verdict remark n)
  then show ?case using feedback_reads_step by (simp add: rows_step_refl)
next
  case (feedback_writes n h db')
  then show ?case
    using feedback_writes_step [OF feedback_writes(3,1,2)] removed_reads(2) [of "h\<lparr>h_db := db'\<rparr>"] by simp
next
  case (feedback_fails h n)
  then show ?case using removed_reads by (simp add: rows_step_refl)
next
  case (restart h now me')
  then show ?case using restart_step [OF _ refl] by simp
qed

lemma reachable_inv: "host_reachable next is_settled h \<Longrightarrow> host_inv h"
proof (induction rule: host_reachable.induct)
  case (init db me)
  then show ?case by (simp add: host_inv_def one_running_def jobs_ok_def guards_ok_def feedback_ok_def)
next
  case (step h h')
  then show ?case using host_step_inv by blast
qed

lemma tick_next_reads [simp]:
  "h_guards (tick_next next rid now h) = h_guards h" "h_feedback (tick_next next rid now h) = h_feedback h"
  by (simp_all add: tick_next_def split: list.split prod.split sum.split)

text \<open>The writes in flight: a guard's come from running rows, feedback's from the outcome they read.\<close>

lemma writes_read:
  assumes "host_step next fb h h'"
  shows "(\<forall>n \<in> set (h_guards h'). n \<in> set (h_guards h)
        \<or> (\<exists>r \<in> set (h_runs h). n_id (r_run r) = n_id n \<and> n_status (r_run r) = RunRunning))
    \<and> (\<forall>n \<in> set (h_feedback h'). n \<in> set (h_feedback h)
        \<or> (\<exists>r \<in> set (h_runs h). n_id (r_run r) = n_id n \<and> outcome_of (r_run r) = outcome_of n))"
  using assms
proof (induction rule: host_step.induct)
  case (next_claim h rid now)
  then show ?case by (simp add: tick_next_reads)
next
  case (guard_reads rid h now n)
  then obtain m where m: "get_run (h_db h) rid = Some m" "n_status m = RunRunning" "n_id n = n_id m"
    by (auto simp: interrupt_read_def split: option.splits if_splits)
  from m(1) obtain r where "r \<in> set (h_runs h)" "r_run r = m" by (rule get_run_row)
  then show ?case using m by auto
next
  case (feedback_reads h rid verdict remark n)
  then obtain m where m: "get_run (h_db h) rid = Some m" "outcome_of n = outcome_of m" "n_id n = n_id m"
    by (auto simp: feedback_read_def outcome_of_def split: option.splits if_splits)
  from m(1) obtain r where "r \<in> set (h_runs h)" "r_run r = m" by (rule get_run_row)
  then show ?case using m by auto
qed (auto simp: tick_start_def Let_def end_job_def dest: in_set_remove1)

text \<open>Whoever gives feedback on what, the keys of the tables hold.\<close>

lemma rewrite_runs_keys:
  "db_ok db \<Longrightarrow> update_run db n = Inr db' \<Longrightarrow> db_ok db'"
  using update_run_ok by blast

lemma run_session_keys:
  assumes "db_ok db" "run_session open_conversation threads now db k run = (e, run', db')"
  shows "db_ok db'"
proof -
  obtain res db1 where choose: "choose_session open_conversation threads now db k = (res, db1)"
    by (cases "choose_session open_conversation threads now db k")
  have mid: "db_ok db1" using choose_session_ok [OF assms(1) choose] by simp
  have "db' = db1 \<or> (\<exists>n. update_run db1 n = Inr db')"
    using assms(2) choose by (auto simp: run_session_def Let_def split: sum.splits)
  then show ?thesis using mid rewrite_runs_keys by blast
qed

lemma settle_run_keys: "db_ok db \<Longrightarrow> settle_run db run saved = Inr db' \<Longrightarrow> db_ok db'"
  using rewrite_runs_keys quiet_statements_ok(1)
  by (auto simp: settle_run_def split: sum.splits option.splits)

lemma tick_next_keys:
  assumes "db_ok (h_db h)"
  shows "db_ok (h_db (tick_next next rid now h))"
proof (cases "h_plan h")
  case (Cons c rest)
  obtain k reason where c: "c = (k, reason)" by (cases c)
  obtain res db' where claim: "claim next (h_me h) rid now (h_db h) k reason = (res, db')"
    by (cases "claim next (h_me h) rid now (h_db h) k reason")
  have "db_ok db'" using claim_rows [OF assms claim] by simp
  then show ?thesis using assms by (simp add: tick_next_def Cons c claim split: sum.split)
qed (use assms in \<open>simp add: tick_next_def\<close>)

lemma tick_start_keys: "db_ok (h_db h) \<Longrightarrow> db_ok (h_db (tick_start now1 now2 h))"
  by (simp add: tick_start_def Let_def reaped_rows) (rule rewrite_runs_ok, simp_all)

lemma close_keys: "db_ok db \<Longrightarrow> close_conversation deleted entries k db run = (run', db') \<Longrightarrow> db_ok db'"
  by (drule close_conversation_cases) (auto simp: quiet_statements_ok(2))

lemma host_step_keys: "host_step next fb h h' \<Longrightarrow> db_ok (h_db h) \<Longrightarrow> db_ok (h_db h')"
proof (induction rule: host_step.induct)
  case (session k run h open_conversation threads now e run' db')
  then show ?case using run_session_keys [OF session(4,3)] by simp
next
  case (settle k run h outcome read_back now run' saved db')
  then show ?case using settle_run_keys [OF settle(5,4)] by simp
next
  case (close k run h deleted entries run' db')
  then show ?case using close_keys [OF close(4,3)] by simp
next
  case (guard_writes n h db')
  then show ?case using rewrite_runs_keys [OF guard_writes(3,2)] by simp
next
  case (feedback_writes n h db')
  then show ?case using rewrite_runs_keys [OF feedback_writes(3,2)] by simp
next
  case (create h k db')
  then show ?case using insert_task_ok [OF create(2,1)] by simp
next
  case (edit h k db')
  then show ?case using update_task_ok [OF edit(2,1)] by simp
next
  case (history h p db')
  then show ?case using insert_revision_ok [OF history(2,1)] by simp
qed (simp_all add: tick_start_keys tick_next_keys end_job_def quiet_statements_ok(4))

lemma reachable_keys: "host_reachable next fb h \<Longrightarrow> db_ok (h_db h)"
  by (induction rule: host_reachable.induct) (simp_all add: host_step_keys)

section \<open>What a claim does\<close>

text \<open>C11: A claim consumes its cause: the run it returns is the row it added, running, owned by this host and
  carrying the task's prompt version; a claimed slot is written on the run and replaced by the schedule's
  next one, which is later than now, so that the task is no longer due; a claimed request leaves the
  schedule alone; the request is cleared either way, and no other task, run or history changes.\<close>

theorem claim_consumes_cause:
  assumes "db_ok db" "get_task db (k_id k) = Some k" "due_now now k"
    and "(k, reason) \<in> set (candidates db now)"
    and "claim (next_due read zone) me rid now db k reason = (Inr run, db')"
    and "\<forall>mode. read (k_trigger_json k) = Some mode \<longrightarrow> interval_fits (zone k) mode now"
  shows "run = claimed_run rid k reason now
    \<and> b_runs db' = b_runs db @ [\<lparr>r_run = run, r_owner = Some me, r_output = None\<rparr>]
    \<and> b_revisions db' = b_revisions db
    \<and> (\<exists>due. get_task db' (k_id k) = Some (claimed_task k due now)
         \<and> (k_pending_request_at k = None \<longrightarrow> n_due_at run = k_next_due_at k \<and> (\<forall>d. due = Some d \<longrightarrow> now < d)
              \<and> \<not> due_now now (claimed_task k due now))
         \<and> (k_pending_request_at k \<noteq> None \<longrightarrow> n_due_at run = None \<and> due = k_next_due_at k))
    \<and> (\<forall>other. other \<noteq> k_id k \<longrightarrow> get_task db' other = get_task db other)"
proof -
  have reason: "reason = (if k_pending_request_at k \<noteq> None then ClaimExplicit else ClaimSchedule)"
    using assms(4) by (auto simp: candidates_def)
  obtain db1 due where db1: "insert_run_owned db (claimed_run rid k reason now) (Some me) = Inr db1"
    and due: "(if n_kind (claimed_run rid k reason now) = RunMain then next_due read zone k now else Some (k_next_due_at k)) = Some due"
    and upd: "update_task db1 (claimed_task k due now) = Inr db'"
    and run: "run = claimed_run rid k reason now"
    using assms(5) by (auto simp: claim_def Let_def split: sum.splits option.splits)
  note ins = insert_run_ok [OF assms(1) db1]
  note after = update_task_ok [OF conjunct1 [OF ins] upd]
  have same: "get_task db1 = get_task db" using ins by (auto simp: get_task_def)
  have get: "get_task db' (k_id k) = Some (claimed_task k due now)"
    using get_task_update [OF upd, of "k_id k"] assms(2) by (simp add: same write_task_def claimed_task_def)
  have others: "get_task db' other = get_task db other" if "other \<noteq> k_id k" for other
    using get_task_update [OF upd, of other] that
    by (cases "get_task db other") (auto simp: same write_task_def claimed_task_def dest: get_task_id)
  have slot: "n_due_at run = (if k_pending_request_at k = None then k_next_due_at k else None)"
    by (simp add: run reason claimed_run_def)
  show ?thesis
  proof (cases "k_pending_request_at k = None")
    case True
    then have later: "now < d" if "due = Some d" for d
      using due that reason mode_strictly_later assms(6)
      by (auto simp: claimed_run_def next_due_def split: if_splits trigger_kind.splits option.splits)
    then have "\<not> due_now now (claimed_task k due now)"
      by (auto simp: due_now_def claimed_task_def split: option.splits)
    with True later slot get others run ins after show ?thesis by (intro conjI exI [of _ due]) simp_all
  next
    case False
    then have "due = k_next_due_at k" using due reason by (auto simp: claimed_run_def)
    with False slot get others run ins after show ?thesis by (intro conjI exI [of _ due]) auto
  qed
qed

section \<open>The ledger over any run of the host\<close>

text \<open>C8: One run at a time: however the ticks, the executors, the late writes of their guards, restarts and the
  users' edits interleave, no task ever has two running rows, as long as feedback is given only on runs
  that were settled when the command read them, however late it writes.\<close>

theorem one_run_at_a_time:
  assumes "host_reachable next is_settled h"
  shows "length (filter (\<lambda>r. n_task_id (r_run r) = tid \<and> is_running r) (b_runs (h_db h))) \<le> 1"
proof -
  note inv = reachable_inv [OF assms]
  define xs where "xs = filter (\<lambda>r. n_task_id (r_run r) = tid \<and> is_running r) (h_runs h)"
  have "distinct (map (\<lambda>r. n_id (r_run r)) (h_runs h))"
    using host_invD(1) [OF inv] by (simp add: db_ok_def runs_ok_def)
  then have distinct: "distinct (map (\<lambda>r. n_id (r_run r)) xs)" by (simp add: xs_def distinct_map_filter)
  have same: "n_id (r_run r) = n_id (r_run q)" if "r \<in> set xs" "q \<in> set xs" for r q
  proof -
    have "r \<in> set (h_runs h)" "q \<in> set (h_runs h)" "n_status (r_run r) = RunRunning" "n_status (r_run q) = RunRunning"
      "n_task_id (r_run r) = n_task_id (r_run q)"
      using that by (simp_all only: xs_def set_filter mem_Collect_eq is_running_iff)
    then show ?thesis by (rule one_runningD [OF host_invD(2) [OF inv]])
  qed
  have "length xs \<le> 1"
  proof (cases xs rule: remdups_adj.cases)
    case (3 a b ys)
    have "n_id (r_run a) = n_id (r_run b)" by (rule same) (simp_all only: 3 list.set insert_iff simp_thms)
    moreover have "n_id (r_run a) \<noteq> n_id (r_run b)" using distinct unfolding 3 by simp
    ultimately show ?thesis by contradiction
  qed simp_all
  then show ?thesis unfolding xs_def .
qed

lemma rows_step_mem: "rows_step W rs rs' \<Longrightarrow> r \<in> set rs \<Longrightarrow> \<exists>r' \<in> set rs'. row_step W r r'"
  unfolding rows_step_def by auto

text \<open>The outcome of a settled run that no write in flight touches is out of reach of later ones too.\<close>

definition sealed :: "task_host \<Rightarrow> run_row \<Rightarrow> bool" where
  "sealed h r \<longleftrightarrow> n_status (r_run r) \<noteq> RunRunning \<and> (n_status (r_run r) \<noteq> RunFailed \<or> n_id (r_run r) \<notin> in_flight h)"

lemma sealed_step:
  assumes "host_step next is_settled h h'" "host_inv h" "r \<in> set (h_runs h)" "r' \<in> set (h_runs h')"
    and "row_step (in_flight h) r r'" "sealed h r"
  shows "sealed h' r' \<and> outcome_of (r_run r') = outcome_of (r_run r)"
proof -
  have same: "n_id (r_run r') = n_id (r_run r)" "n_status (r_run r') = n_status (r_run r)"
      "outcome_of (r_run r') = outcome_of (r_run r)"
    using assms(5,6) by (simp_all add: row_step_def sealed_def)
  have "n_id (r_run r) \<notin> in_flight h'" if free: "n_id (r_run r) \<notin> in_flight h"
  proof
    note ok = host_invD(1) [OF assms(2)] and ok' = host_invD(1) [OF conjunct1 [OF host_step_inv [OF assms(1,2)]]]
    have settled: "n_status (r_run r) \<noteq> RunRunning" using assms(6) by (simp add: sealed_def)
    assume "n_id (r_run r) \<in> in_flight h'"
    then consider (guard) n where "n \<in> set (h_guards h')" "n_id n = n_id (r_run r)"
      | (feedback) n q where "n \<in> set (h_feedback h')" "n_id n = n_id (r_run r)" "q \<in> set (h_runs h')"
          "n_id (r_run q) = n_id (r_run r)" "outcome_of (r_run q) \<noteq> outcome_of n"
      by (auto simp: in_flight_def)
    then show False
    proof cases
      case guard
      then consider "n \<in> set (h_guards h)"
        | q where "q \<in> set (h_runs h)" "n_id (r_run q) = n_id n" "n_status (r_run q) = RunRunning"
        using writes_read [OF assms(1)] by blast
      then show False
      proof cases
        case 1
        then show False using in_flight_guard [of n h] free guard(2) by simp
      next
        case 2
        then show False using same_row [OF ok 2(1) assms(3)] guard(2) settled by simp
      qed
    next
      case feedback
      have q: "q = r'" using same_row [OF ok' feedback(3) assms(4)] feedback(4) same(1) by simp
      consider "n \<in> set (h_feedback h)"
        | p where "p \<in> set (h_runs h)" "n_id (r_run p) = n_id n" "outcome_of (r_run p) = outcome_of n"
        using writes_read [OF assms(1)] feedback(1) by blast
      then show False
      proof cases
        case 1
        then show False using in_flight_feedback [OF 1 assms(3)] free feedback(2,5) same(3) q by auto
      next
        case 2
        then show False using same_row [OF ok 2(1) assms(3)] feedback(2,5) same(3) q by simp
      qed
    qed
  qed
  then show ?thesis using assms(6) same by (auto simp: sealed_def)
qed

text \<open>C9: The ledger is final: no row of a run is ever removed, moved to another task or slot, or given to another
  host; once a run is settled its status never changes again, and neither do its end, error, reason, note
  and summary when it is completed, or when it failed and no guard or feedback command has read it and
  still has to write; over any number of steps, with feedback given only on runs that were settled when
  the command read them.\<close>

theorem settled_outcome_final:
  assumes "host_reachable next is_settled h" "(host_step next is_settled)\<^sup>*\<^sup>* h h'" "r \<in> set (b_runs (h_db h))"
  shows "\<exists>r' \<in> set (b_runs (h_db h')).
    n_id (r_run r') = n_id (r_run r) \<and> n_task_id (r_run r') = n_task_id (r_run r)
    \<and> n_due_at (r_run r') = n_due_at (r_run r) \<and> r_owner r' = r_owner r
    \<and> (n_status (r_run r) \<noteq> RunRunning \<longrightarrow> n_status (r_run r') = n_status (r_run r))
    \<and> (n_status (r_run r) = RunCompleted
         \<or> n_status (r_run r) \<noteq> RunRunning \<and> (\<forall>n \<in> set (h_guards h @ h_feedback h). n_id n \<noteq> n_id (r_run r))
       \<longrightarrow> outcome_of (r_run r') = outcome_of (r_run r))"
proof -
  from assms(2) have "host_inv h' \<and> (\<exists>r' \<in> set (h_runs h'). row_step UNIV r r'
      \<and> (sealed h r \<longrightarrow> sealed h' r' \<and> outcome_of (r_run r') = outcome_of (r_run r)))"
  proof (induction rule: rtranclp_induct)
    case base
    then show ?case using reachable_inv [OF assms(1)] assms(3) by blast
  next
    case (step h1 h2)
    then obtain r1 where r1: "host_inv h1" "r1 \<in> set (h_runs h1)" "row_step UNIV r r1"
        "sealed h r \<longrightarrow> sealed h1 r1 \<and> outcome_of (r_run r1) = outcome_of (r_run r)" by blast
    note inv = host_step_inv [OF step(2) r1(1)]
    obtain r2 where r2: "r2 \<in> set (h_runs h2)" "row_step (in_flight h1) r1 r2"
      using rows_step_mem [OF conjunct2 [OF inv] r1(2)] by blast
    have "row_step UNIV r r2" using r1(3) r2(2) by (auto simp: row_step_def)
    then show ?case using inv r1(4) r2 sealed_step [OF step(2) r1(1,2) r2] by auto
  qed
  moreover have "sealed h r" if "n_status (r_run r) = RunCompleted
      \<or> n_status (r_run r) \<noteq> RunRunning \<and> (\<forall>n \<in> set (h_guards h @ h_feedback h). n_id n \<noteq> n_id (r_run r))"
    using that by (auto simp: sealed_def in_flight_def)
  ultimately show ?thesis by (auto simp: row_step_def)
qed

text \<open>C10: A dead run never blocks its task: after the reaping of a tick the only running rows are those claimed
  by this very host whose executor is registered, exactly as they were; so a due task none of whose runs
  has a live executor is in the tick's plan and is not skipped.\<close>

theorem dead_runs_release:
  assumes "host_reachable next fb h" and h'_def: "h' = tick_start now1 now2 h"
  shows "(\<forall>r. r \<in> set (b_runs (h_db h')) \<and> n_status (r_run r) = RunRunning \<longleftrightarrow>
            r \<in> set (b_runs (h_db h)) \<and> n_status (r_run r) = RunRunning
            \<and> r_owner r = Some (h_me h) \<and> n_id (r_run r) \<in> h_live h)
    \<and> b_tasks (h_db h') = b_tasks (h_db h)
    \<and> (\<forall>k \<in> set (b_tasks (h_db h)).
         due_now now2 k \<and> (\<forall>r \<in> set (b_runs (h_db h)). n_task_id (r_run r) = k_id k \<and> r_owner r = Some (h_me h)
             \<and> n_id (r_run r) \<in> h_live h \<longrightarrow> n_status (r_run r) \<noteq> RunRunning)
         \<longrightarrow> k \<in> fst ` set (h_plan h') \<and> \<not> has_running_run (h_db h') (k_id k))"
proof -
  define f where "f r = (if n_status (r_run r) = RunRunning \<and> orphaned (h_me h) (h_live h) (n_id (r_run r)) (r_owner r)
       then settle_failed now1 ORPHANED_RUN_ERROR FINISH_INTERRUPTED ORPHANED_RUN_NOTE r else r)" for r
  have db: "h_db h' = (h_db h)\<lparr>b_runs := map f (h_runs h)\<rparr>"
    unfolding h'_def tick_start_def Let_def
    using reaped_rows [OF reachable_keys [OF assms(1)]] by (simp add: f_def)
  have "n_status (r_run (f r)) = RunRunning \<longleftrightarrow> n_status (r_run r) = RunRunning \<and> r_owner r = Some (h_me h) \<and> n_id (r_run r) \<in> h_live h" for r
    by (auto simp: f_def orphaned_def split: option.splits)
  moreover have "f r = r" if "n_status (r_run (f r)) = RunRunning" for r
    using that by (auto simp: f_def split: if_splits)
  ultimately have running: "r \<in> set (b_runs (h_db h')) \<and> n_status (r_run r) = RunRunning \<longleftrightarrow>
      r \<in> set (h_runs h) \<and> n_status (r_run r) = RunRunning \<and> r_owner r = Some (h_me h) \<and> n_id (r_run r) \<in> h_live h" for r
    by (auto simp: db image_iff) metis+
  have plan: "fst ` set (h_plan h') = {k \<in> set (b_tasks (h_db h)). due_now now2 k}"
    using db by (force simp: h'_def tick_start_def Let_def candidates_def list_due_tasks_def)
  show ?thesis
    using running unfolding plan by (auto simp: db has_running_iff)
qed

section \<open>A host at work\<close>

text \<open>One scheduled task whose slot has come; the tick claims it.\<close>

definition due_task :: task where
  "due_task = (demo_scheduled ''i'')\<lparr>k_next_due_at := Some 1\<rparr>"

lemma due_task_simps [simp]:
  "k_id due_task = ''tsk_1''" "k_name due_task = ''n''" "k_deleted_at due_task = None" "k_enabled due_task"
  "k_next_due_at due_task = Some 1" "k_pending_request_at due_task = None" "k_trigger_kind due_task = TriggerSchedule"
  "k_trigger_json due_task = ''i''"
  by (simp_all add: due_task_def demo_scheduled_def)

definition one_task_db :: task_db where
  "one_task_db = \<lparr>b_tasks = [due_task], b_runs = [], b_revisions = []\<rparr>"

lemma one_task_db_simps [simp]:
  "b_tasks one_task_db = [due_task]" "b_runs one_task_db = []" "b_revisions one_task_db = []"
  by (simp_all add: one_task_db_def)

lemma one_task_db_ok: "db_ok one_task_db"
  by (simp add: db_ok_def tasks_ok_def runs_ok_def revisions_ok_def)

lemma due_candidates: "1 \<le> now \<Longrightarrow> candidates one_task_db now = [(due_task, ClaimSchedule)]"
  by (simp add: candidates_def list_due_tasks_def due_now_def)

definition every_minute :: next_due_fn where
  "every_minute k now = Some (Some (now + 60000))"

definition idle_host :: task_host where
  "idle_host = \<lparr>h_db = one_task_db, h_me = ''1:a'', h_live = {}, h_jobs = [], h_plan = [],
     h_guards = [], h_feedback = []\<rparr>"

lemma idle_host_simps [simp]:
  "h_db idle_host = one_task_db" "h_me idle_host = ''1:a''" "h_live idle_host = {}" "h_jobs idle_host = []"
  "h_plan idle_host = []" "h_guards idle_host = []" "h_feedback idle_host = []"
  by (simp_all add: idle_host_def)

definition claimed_host :: task_host where
  "claimed_host = tick_next every_minute ''run_1'' 5 (tick_start 5 5 idle_host)"

definition claimed_row :: run_row where
  "claimed_row = \<lparr>r_run = claimed_run ''run_1'' due_task ClaimSchedule 5, r_owner = Some ''1:a'', r_output = None\<rparr>"

lemma tick_idle: "tick_start 5 5 idle_host = idle_host\<lparr>h_plan := [(due_task, ClaimSchedule)]\<rparr>"
proof -
  have "snd (reap_orphaned_runs ''1:a'' {} 5 one_task_db) = one_task_db"
    by (simp add: reaped_rows [OF one_task_db_ok])
  then show ?thesis by (simp add: tick_start_def due_candidates)
qed

lemma claimed_host_rows:
  "b_runs (h_db claimed_host) = [claimed_row]" "h_live claimed_host = {''run_1''}" "h_me claimed_host = ''1:a''"
proof -
  have none: "\<not> name_conflict (one_task_db\<lparr>b_runs := rs\<rparr>) (claimed_task due_task due now)" for rs due now
    by (simp add: name_conflict_def claimed_task_def)
  have run: "insert_run_owned one_task_db (claimed_run ''run_1'' due_task ClaimSchedule 5) (Some ''1:a'')
      = Inr (one_task_db\<lparr>b_runs := [claimed_row]\<rparr>)"
    by (simp add: insert_run_owned_def claimed_row_def)
  have "\<exists>db. claim every_minute ''1:a'' ''run_1'' 5 one_task_db due_task ClaimSchedule
      = (Inr (claimed_run ''run_1'' due_task ClaimSchedule 5), db) \<and> b_runs db = [claimed_row]"
    by (simp add: claim_def Let_def run every_minute_def update_task_def none)
  then show "b_runs (h_db claimed_host) = [claimed_row]" "h_live claimed_host = {''run_1''}" "h_me claimed_host = ''1:a''"
    unfolding claimed_host_def tick_idle by (auto simp: tick_next_def has_running_iff)
qed

lemma claimed_host_reachable: "host_reachable every_minute fb claimed_host"
proof -
  have "host_reachable every_minute fb idle_host"
    unfolding idle_host_def by (rule host_reachable.init) (simp_all add: one_task_db_ok)
  then have "host_reachable every_minute fb (tick_start 5 5 idle_host)"
    by (rule host_reachable.step) (rule host_step.start, simp)
  then show ?thesis unfolding claimed_host_def by (rule host_reachable.step) (rule host_step.next_claim)
qed

lemma claim_consumes_cause_witness:
  "\<exists>run db'. claim (next_due (\<lambda>_. Some (Interval 5 1000)) (\<lambda>_. two_offsets 0 0 0)) ''1:a'' ''run_1'' 400000
      one_task_db due_task ClaimSchedule = (Inr run, db')
    \<and> n_due_at run = Some 1 \<and> \<not> has_running_run one_task_db ''tsk_1'' \<and> has_running_run db' ''tsk_1''"
proof -
  let ?next = "next_due (\<lambda>_. Some (Interval 5 1000)) (\<lambda>_. two_offsets 0 0 0)"
  have due: "?next due_task 400000 = Some (Some 601000)"
    by (simp add: next_due_def next_due_for_mode_def two_offsets_def Let_def next_interval_def as_i64_def)
  have none: "\<not> name_conflict (one_task_db\<lparr>b_runs := rs\<rparr>) (claimed_task due_task due now)" for rs due now
    by (simp add: name_conflict_def claimed_task_def)
  have "\<exists>run db'. claim ?next ''1:a'' ''run_1'' 400000 one_task_db due_task ClaimSchedule = (Inr run, db')"
    by (simp add: claim_def Let_def insert_run_owned_def due update_task_def none)
  then obtain run db' where run: "claim ?next ''1:a'' ''run_1'' 400000 one_task_db due_task ClaimSchedule = (Inr run, db')" by blast
  have get: "get_task one_task_db (k_id due_task) = Some due_task" by (simp add: get_task_def)
  have due_now: "due_now 400000 due_task" by (simp add: due_now_def)
  have cand: "(due_task, ClaimSchedule) \<in> set (candidates one_task_db 400000)" by (simp add: due_candidates)
  from claim_consumes_cause [OF one_task_db_ok get due_now cand run] run show ?thesis
    by (auto simp: interval_fits_def two_offsets_def Let_def has_running_iff)
qed

lemma one_run_at_a_time_witness:
  "length (filter (\<lambda>r. n_task_id (r_run r) = ''tsk_1'' \<and> is_running r) (b_runs (h_db claimed_host))) \<le> 1
   \<and> claimed_row \<in> set (b_runs (h_db claimed_host)) \<and> is_running claimed_row"
  using one_run_at_a_time [OF claimed_host_reachable, of "''tsk_1''"]
  by (simp add: claimed_host_rows) (simp add: claimed_row_def)

lemma settled_outcome_final_witness:
  "\<exists>h'. host_step every_minute is_settled claimed_host h' \<and> (\<exists>r \<in> set (b_runs (h_db h')). r_owner r = Some ''1:a'')"
proof -
  define h' where "h' = end_job ''run_1'' claimed_host"
  have step: "host_step every_minute is_settled claimed_host h'" unfolding h'_def by (rule host_step.leave)
  have "claimed_row \<in> set (b_runs (h_db claimed_host))" by (simp add: claimed_host_rows)
  from settled_outcome_final [OF claimed_host_reachable r_into_rtranclp [of "host_step every_minute is_settled", OF step] this] step
  show ?thesis by (auto simp: claimed_row_def)
qed

text \<open>The executor is gone and its registration too; nothing has settled the run.\<close>

definition dead_host :: task_host where
  "dead_host = (end_job ''run_1'' claimed_host)\<lparr>h_live := {}\<rparr>"

lemma dead_host_reachable: "host_reachable every_minute fb dead_host"
proof -
  have "''run_1'' \<notin> job_ids (end_job ''run_1'' claimed_host)" by (auto simp: job_ids_def end_job_def)
  then have "host_step every_minute fb (end_job ''run_1'' claimed_host)
      ((end_job ''run_1'' claimed_host)\<lparr>h_live := h_live (end_job ''run_1'' claimed_host) - {''run_1''}\<rparr>)"
    by (rule host_step.unregister)
  then have "host_step every_minute fb (end_job ''run_1'' claimed_host) dead_host"
    by (simp add: dead_host_def end_job_def claimed_host_rows)
  with host_reachable.step [OF claimed_host_reachable host_step.leave] show ?thesis
    by (rule host_reachable.step)
qed

lemma dead_runs_release_witness:
  "host_reachable every_minute (\<lambda>n. True) dead_host
   \<and> claimed_row \<in> set (b_runs (h_db dead_host)) \<and> is_running claimed_row
   \<and> claimed_row \<notin> set (b_runs (h_db (tick_start 7 100 dead_host)))"
proof -
  have "n_status (r_run claimed_row) = RunRunning" "n_id (r_run claimed_row) \<notin> h_live dead_host"
    by (simp_all add: claimed_row_def dead_host_def)
  then have "claimed_row \<notin> set (b_runs (h_db (tick_start 7 100 dead_host)))"
    using dead_runs_release [OF dead_host_reachable refl, of 7 100] by blast
  then show ?thesis
    using dead_host_reachable claimed_host_rows(1)
    by (simp add: dead_host_def end_job_def) (simp add: claimed_row_def)
qed

section \<open>Feedback on a run in flight\<close>

text \<open>A feedback command that read a run while it was running writes it back as running, however long ago it
  was settled.\<close>

lemma claimed_host_tables:
  "h_db claimed_host = \<lparr>b_tasks = [claimed_task due_task (Some 60005) 5], b_runs = [claimed_row], b_revisions = []\<rparr>"
proof -
  have none: "\<not> name_conflict (one_task_db\<lparr>b_runs := rs\<rparr>) (claimed_task due_task due now)" for rs due now
    by (simp add: name_conflict_def claimed_task_def)
  have run: "insert_run_owned one_task_db (claimed_run ''run_1'' due_task ClaimSchedule 5) (Some ''1:a'')
      = Inr (one_task_db\<lparr>b_runs := [claimed_row]\<rparr>)"
    by (simp add: insert_run_owned_def claimed_row_def)
  have kind: "n_kind (claimed_run ''run_1'' due_task ClaimSchedule 5) = RunMain" by (simp add: claimed_run_def)
  have "claim every_minute ''1:a'' ''run_1'' 5 one_task_db due_task ClaimSchedule
      = (Inr (claimed_run ''run_1'' due_task ClaimSchedule 5),
         \<lparr>b_tasks = [claimed_task due_task (Some 60005) 5], b_runs = [claimed_row], b_revisions = []\<rparr>)"
    by (simp add: claim_def Let_def run kind every_minute_def update_task_def none write_task_def claimed_task_def)
      (simp add: one_task_db_def name_conflict_def)
  then show ?thesis
    unfolding claimed_host_def tick_idle by (simp add: tick_next_def has_running_iff)
qed

definition stale_feedback :: task_run where
  "stale_feedback = (r_run claimed_row)\<lparr>n_feedback := Some ''good'', n_feedback_note := None\<rparr>"

theorem stale_feedback_revives_run:
  "\<exists>h h'. host_reachable every_minute (\<lambda>n. True) h \<and> stale_feedback \<in> set (h_feedback h)
     \<and> map (\<lambda>r. n_status (r_run r)) (b_runs (h_db h)) = [RunFailed, RunRunning]
     \<and> host_step every_minute (\<lambda>n. True) h h'
     \<and> length (filter (\<lambda>r. n_task_id (r_run r) = ''tsk_1'' \<and> is_running r) (b_runs (h_db h'))) = 2"
proof -
  let ?reach = "host_reachable every_minute (\<lambda>n. True)"
  have get: "get_run (h_db claimed_host) ''run_1'' = Some (r_run claimed_row)"
    by (simp add: get_run_def claimed_host_rows) (simp add: claimed_row_def)
  define h1 where "h1 = claimed_host\<lparr>h_feedback := [stale_feedback]\<rparr>"
  have fb0: "h_feedback claimed_host = []" by (simp add: claimed_host_def tick_start_def Let_def)
  have "feedback_read (h_db claimed_host) ''run_1'' ''good'' None = Inr stale_feedback"
    by (simp add: feedback_read_def get stale_feedback_def)
  from host_step.feedback_reads [OF this, of "\<lambda>n. True" every_minute]
  have r1: "?reach h1" using host_reachable.step [OF claimed_host_reachable] by (simp add: fb0 h1_def)
  define row where "row = settle_failed 9 ''interrupted'' FINISH_INTERRUPTED INTERRUPTED_NOTE claimed_row"
  define k where "k = claimed_task due_task (Some 60005) 5"
  define h2 where "h2 = \<lparr>h_db = \<lparr>b_tasks = [k], b_runs = [row], b_revisions = []\<rparr>, h_me = ''2:b'', h_live = {},
      h_jobs = [], h_plan = [], h_guards = [], h_feedback = [stale_feedback]\<rparr>"
  have "snd (mark_interrupted_runs (h_db claimed_host) 9) = \<lparr>b_tasks = [k], b_runs = [row], b_revisions = []\<rparr>"
    by (simp add: mark_interrupted_runs_def claimed_host_tables row_def k_def)
      (simp add: claimed_row_def)
  then have r2: "?reach h2"
    using host_reachable.step [OF r1 host_step.restart, of 9 "''2:b''"] by (simp add: h1_def h2_def)
  define h3 where "h3 = tick_next every_minute ''run_2'' 70000 (tick_start 70000 70000 h2)"
  have r3: "?reach h3"
    unfolding h3_def by (intro host_reachable.step [OF _ host_step.next_claim] host_reachable.step [OF r2] host_step.start)
      (simp add: h2_def)
  define q where "q = \<lparr>r_run = claimed_run ''run_2'' k ClaimSchedule 70000, r_owner = Some ''2:b'', r_output = None\<rparr>"
  have rows: "n_status (r_run row) = RunFailed" "n_id (r_run row) = ''run_1''" "n_task_id (r_run row) = ''tsk_1''"
    "n_due_at (r_run row) = Some 1"
    by (simp_all add: row_def claimed_row_def)
  have kf: "k_id k = ''tsk_1''" "k_next_due_at k = Some 60005" "k_deleted_at k = None" "k_enabled k"
    "k_pending_request_at k = None" "k_name k = ''n''"
    "k_trigger_kind k = TriggerSchedule"
    by (simp_all add: k_def claimed_task_def)
  have ok2: "db_ok (h_db h2)" by (rule reachable_keys [OF r2])
  have tick2: "tick_start 70000 70000 h2 = h2\<lparr>h_plan := [(k, ClaimSchedule)]\<rparr>"
    using reaped_rows [OF ok2, of "''2:b''" "{}" 70000]
    by (simp add: tick_start_def h2_def rows candidates_def list_due_tasks_def due_now_def kf)
  have free: "\<not> has_running_run (h_db h2) ''tsk_1''" by (simp add: has_running_iff h2_def rows)
  have "insert_run_owned (h_db h2) (claimed_run ''run_2'' k ClaimSchedule 70000) (Some ''2:b'')
      = Inr ((h_db h2)\<lparr>b_runs := [row, q]\<rparr>)"
    by (simp add: insert_run_owned_def h2_def rows kf q_def)
  moreover have "n_kind (claimed_run ''run_2'' k ClaimSchedule 70000) = RunMain" by (simp add: claimed_run_def)
  moreover have "\<not> name_conflict ((h_db h2)\<lparr>b_runs := [row, q]\<rparr>) (claimed_task k due 70000)" for due
    by (simp add: name_conflict_def claimed_task_def h2_def kf)
  ultimately obtain db2 where claim2: "claim every_minute ''2:b'' ''run_2'' 70000 (h_db h2) k ClaimSchedule
      = (Inr (claimed_run ''run_2'' k ClaimSchedule 70000), db2)" "b_runs db2 = [row, q]"
    by (simp add: claim_def Let_def every_minute_def update_task_def)
  have h3: "b_runs (h_db h3) = [row, q]" "h_feedback h3 = [stale_feedback]"
    using claim2 free by (simp_all add: h3_def tick2 tick_next_def kf) (simp_all add: h2_def)
  have sf: "n_id stale_feedback = ''run_1''" "n_due_at stale_feedback = Some 1" "n_task_id stale_feedback = ''tsk_1''"
    "n_status stale_feedback = RunRunning"
    by (simp_all add: stale_feedback_def claimed_row_def)
  have qf: "n_id (r_run q) = ''run_2''" "n_task_id (r_run q) = ''tsk_1''" "n_due_at (r_run q) = Some 60005"
    "n_status (r_run q) = RunRunning"
    by (simp_all add: q_def kf)
  obtain db where db: "update_run (h_db h3) stale_feedback = Inr db"
    "b_runs db = [write_run stale_feedback row, q]"
    by (simp add: update_run_def slot_conflict_def h3 rows qf sf write_run_def)
  have step: "host_step every_minute (\<lambda>n. True) h3 (h3\<lparr>h_db := db, h_feedback := remove1 stale_feedback (h_feedback h3)\<rparr>)"
    by (rule host_step.feedback_writes [OF _ db(1)]) (simp add: h3)
  have "length (filter (\<lambda>r. n_task_id (r_run r) = ''tsk_1'' \<and> is_running r) (b_runs db)) = 2"
    by (simp add: db(2) write_run_def rows qf sf)
  then show ?thesis using r3 step h3
    by (intro exI [of _ h3] exI [of _ "h3\<lparr>h_db := db, h_feedback := remove1 stale_feedback (h_feedback h3)\<rparr>"])
      (simp add: rows qf)
qed

section \<open>The first run of a kept conversation\<close>

text \<open>The executor binds the conversation it opened by writing back the task as the tick read it, before the
  claim: the slot it claimed and the request it consumed return to the row. When the slot returns, it is
  still due; the next claim of it breaks the uniqueness of slots, and since a failed claim ends the tick,
  no task after it in the order of the slots is run in that tick or any later one. A request that returns
  is run a second time.\<close>

theorem first_kept_run_undoes_claim:
  assumes "db_ok db" "get_task db (k_id k) = Some k" "k_session_policy k = PolicyExisting" "k_thread_id k = None"
    and "claim next me rid now db k reason = (Inr run, db1)"
    and "choose_session open_conversation threads now2 db1 k = (Inr ids, db2)"
  shows "get_task db2 (k_id k) = Some (k\<lparr>k_thread_id := Some (fst ids), k_updated_at := now2\<rparr>)"
    and "due_now at (k\<lparr>k_thread_id := Some (fst ids), k_updated_at := now2\<rparr>) = due_now at k"
    and "reason = ClaimSchedule \<Longrightarrow> k_next_due_at k \<noteq> None \<Longrightarrow> rows_step W (b_runs db2) (h_runs h)
      \<Longrightarrow> h_plan h = (k3, ClaimSchedule) # rest \<Longrightarrow> k_id k3 = k_id k \<Longrightarrow> k_next_due_at k3 = k_next_due_at k
      \<Longrightarrow> tick_next next3 rid3 now3 h = h\<lparr>h_plan := []\<rparr> \<or> has_running_run (h_db h) (k_id k)"
proof -
  obtain db0 due where db0: "insert_run_owned db (claimed_run rid k reason now) (Some me) = Inr db0"
    and upd: "update_task db0 (claimed_task k due now) = Inr db1"
    using assms(5) by (auto simp: claim_def Let_def split: sum.splits option.splits)
  note ins = insert_run_ok [OF assms(1) db0]
  note after = update_task_ok [OF conjunct1 [OF ins] upd]
  have get1: "get_task db1 (k_id k) = Some (claimed_task k due now)"
    using get_task_update [OF upd, of "k_id k"] assms(2) ins
    by (simp add: write_task_def claimed_task_def get_task_def)
  have bind: "bind_task_thread db1 k (fst ids) now2 = Inr db2"
    using assms(3,4,6) by (auto simp: choose_session_def bound_thread_def split: sum.splits)
  then have bind': "update_task db1 (k\<lparr>k_thread_id := Some (fst ids), k_updated_at := now2\<rparr>) = Inr db2"
    by (simp add: bind_task_thread_def)
  show "get_task db2 (k_id k) = Some (k\<lparr>k_thread_id := Some (fst ids), k_updated_at := now2\<rparr>)"
    using get_task_update [OF bind', of "k_id k"] get1 by (simp add: write_task_def claimed_task_def)
  show "due_now at (k\<lparr>k_thread_id := Some (fst ids), k_updated_at := now2\<rparr>) = due_now at k"
    by (simp add: due_now_def)
  assume slot: "reason = ClaimSchedule" "k_next_due_at k \<noteq> None" and later: "rows_step W (b_runs db2) (h_runs h)"
    and head: "h_plan h = (k3, ClaimSchedule) # rest" "k_id k3 = k_id k" "k_next_due_at k3 = k_next_due_at k"
  define q where "q = \<lparr>r_run = claimed_run rid k reason now, r_owner = Some me, r_output = None\<rparr>"
  have "b_runs db2 = b_runs db1" using update_task_ok [OF conjunct1 [OF after] bind'] by simp
  then have "q \<in> set (b_runs db2)" using ins after by (simp add: q_def)
  then obtain r where r: "r \<in> set (h_runs h)" "row_step W q r" using rows_step_mem [OF later] by blast
  then have "n_task_id (r_run r) = k_id k3" "n_due_at (r_run r) = k_next_due_at k3"
    using head slot by (simp_all add: row_step_def q_def)
  then have "\<exists>e. insert_run_owned (h_db h) (claimed_run rid3 k3 ClaimSchedule now3) (Some (h_me h)) = Inl e"
    using r(1) slot(2) head(3) by (auto simp: insert_run_owned_def list_ex_iff)
  then show "tick_next next3 rid3 now3 h = h\<lparr>h_plan := []\<rparr> \<or> has_running_run (h_db h) (k_id k)"
    by (auto simp: tick_next_def head(1,2) claim_def)
qed

end
