(* ===== verification/Run_Queue.thy ===== *)
theory Run_Queue
  imports Goal_State Events "HOL-Library.Multiset"
begin

text \<open>
  The prompt queue of one agent session (\<open>agent/src/runtime/scheduler_queue.rs\<close>,
  \<open>run_request.rs\<close>): the FIFO of accepted runs, the prompts parked for their author, the
  active run, the window of terminal acknowledgements that makes retries idempotent, and the
  budget of entries and bytes all sessions share.

  \<open>run_queue\<close> is \<open>InMemoryRunQueue\<close> with the state behind its lock; an operation takes the shared
  \<open>queue_budget\<close> and the queue and returns both, or the error, which leaves both unchanged. What
  the code reads of its surroundings is \<open>queue_env\<close>: the JSON text of a value, SHA-256, a fresh
  UUID, the clock's RFC 3339 text, and the age in whole seconds of such a text (\<open>None\<close> when it
  does not parse). This theory has the operations and the invariant each of them keeps; the sequences
  of operations and their properties are in \<open>Queue_Runs\<close>.
\<close>

section \<open>Requests\<close>

datatype busy_policy = EnqueueIfBusy | EnqueueCoalescing | SupersedeSession

fun busy_policy_str :: "busy_policy \<Rightarrow> string" where
  "busy_policy_str EnqueueIfBusy = ''enqueue_if_busy''"
| "busy_policy_str EnqueueCoalescing = ''enqueue_coalescing''"
| "busy_policy_str SupersedeSession = ''supersede_session''"

definition parse_busy_policy :: "string \<Rightarrow> string + busy_policy" where
  "parse_busy_policy value =
     (let t = trim value in
      if t = [] \<or> t = ''enqueue_if_busy'' then Inr EnqueueIfBusy
      else if t = ''enqueue_coalescing'' then Inr EnqueueCoalescing
      else if t = ''supersede_session'' then Inr SupersedeSession
      else Inl (''unknown busy policy `'' @ t @ ''`; expected one of: ''
                @ join '', '' [''enqueue_if_busy'', ''enqueue_coalescing'', ''supersede_session'']))"

fun coalesces :: "busy_policy \<Rightarrow> bool" where
  "coalesces EnqueueCoalescing = True"
| "coalesces _ = False"

datatype accepted_state = Existing | Running | Queued

record run_ack =
  ra_run_id :: string
  ra_run_epoch :: u64
  ra_accepted_state :: accepted_state
  ra_run_sequence :: "u64 option"
  ra_queue_position :: "u64 option"

definition ack_existing :: "string \<Rightarrow> u64 \<Rightarrow> run_ack" where
  "ack_existing rid epoch = \<lparr>ra_run_id = rid, ra_run_epoch = epoch, ra_accepted_state = Existing,
     ra_run_sequence = None, ra_queue_position = None\<rparr>"

definition ack_queued :: "string \<Rightarrow> u64 \<Rightarrow> u64 \<Rightarrow> run_ack" where
  "ack_queued rid sequence position = \<lparr>ra_run_id = rid, ra_run_epoch = 0,
     ra_accepted_state = Queued, ra_run_sequence = Some sequence,
     ra_queue_position = Some position\<rparr>"

datatype queue_boundary = AfterRun | Idle

record scheduled_run =
  sr_session_id :: string
  sr_run_id :: string
  sr_run_sequence :: u64
  sr_client_request_id :: string
  sr_request_digest :: string
  sr_busy_policy :: busy_policy
  sr_payload :: json
  sr_accepted_at :: string
  sr_payload_bytes :: usize

datatype cancel_reason = Cancelled | Superseded | SessionDeleted

fun cancel_reason_str :: "cancel_reason \<Rightarrow> string" where
  "cancel_reason_str Cancelled = ''cancelled''"
| "cancel_reason_str Superseded = ''superseded''"
| "cancel_reason_str SessionDeleted = ''session_deleted''"

record terminal_ack =
  ta_run_id :: string
  ta_run_sequence :: u64
  ta_client_request_id :: string
  ta_state :: string
  ta_reason :: string

datatype run_queue_error =
    Deleting
  | PersistenceUnavailable string
  | InvalidRunId string
  | MissingClientRequestId
  | DuplicateRequestConflict string
  | DuplicateRunId string
  | SupersedeRequiresSessionOperation
  | QueueFull usize
  | RequestTooLarge usize usize
  | QueueBytesExceeded usize usize
  | GlobalQueueFull usize
  | GlobalQueueBytesExceeded usize usize
  | ActiveRunExists string
  | QueueEmpty
  | RunNotQueued string
  | RunNotActive "string option" string
  | SequenceExhausted

record request_identity =
  ri_digest :: string
  ri_run_id :: string
  ri_run_sequence :: u64

datatype park_reason = TooOld | UnknownAge

fun park_reason_str :: "park_reason \<Rightarrow> string" where
  "park_reason_str TooOld = ''stale''"
| "park_reason_str UnknownAge = ''unknown_age''"

record parked_run =
  pk_run_id :: string
  pk_reason :: park_reason

record held_run =
  hr_request :: scheduled_run
  hr_reason :: park_reason

section \<open>The state\<close>

record queue_state =
  qs_next_sequence :: u64
  qs_active :: "(scheduled_run \<times> u64) option"
  qs_queued :: "scheduled_run list"
  qs_held :: "held_run list"
  qs_queued_bytes :: usize
  qs_requests :: "string \<rightharpoonup> request_identity"
  qs_run_ids :: "string set"
  qs_terminal_acks :: "terminal_ack list"

record queue_budget =
  gb_max_count :: usize
  gb_max_bytes :: usize
  gb_count :: usize
  gb_bytes :: usize

record run_queue =
  rq_session_id :: string
  rq_capacity :: usize
  rq_max_queue_bytes :: usize
  rq_max_request_bytes :: usize
  rq_recent_ack_limit :: usize
  rq_stale_after_secs :: u64
  rq_state :: queue_state

definition DEFAULT_SESSION_QUEUE_CAPACITY :: usize where "DEFAULT_SESSION_QUEUE_CAPACITY = 128"
definition DEFAULT_SESSION_QUEUE_BYTES :: usize where
  "DEFAULT_SESSION_QUEUE_BYTES = 64 * 1024 * 1024"
definition DEFAULT_REQUEST_BYTES :: usize where "DEFAULT_REQUEST_BYTES = 16 * 1024 * 1024"
definition DEFAULT_GLOBAL_QUEUE_CAPACITY :: usize where "DEFAULT_GLOBAL_QUEUE_CAPACITY = 4096"
definition DEFAULT_GLOBAL_QUEUE_BYTES :: usize where
  "DEFAULT_GLOBAL_QUEUE_BYTES = 512 * 1024 * 1024"
definition QUEUED_RUN_STALE_AFTER :: u64 where "QUEUED_RUN_STALE_AFTER = 600"

definition new_budget :: "usize \<Rightarrow> usize \<Rightarrow> queue_budget" where
  "new_budget max_count max_bytes =
     \<lparr>gb_max_count = max_count, gb_max_bytes = max_bytes, gb_count = 0, gb_bytes = 0\<rparr>"

definition budget_defaults :: queue_budget where
  "budget_defaults = new_budget DEFAULT_GLOBAL_QUEUE_CAPACITY DEFAULT_GLOBAL_QUEUE_BYTES"

definition with_limits_and_global ::
    "string \<Rightarrow> u64 \<Rightarrow> usize \<Rightarrow> usize \<Rightarrow> usize \<Rightarrow> usize \<Rightarrow> run_queue" where
  "with_limits_and_global session_id next_sequence capacity max_queue_bytes max_request_bytes
     recent_ack_limit =
     \<lparr>rq_session_id = session_id, rq_capacity = capacity, rq_max_queue_bytes = max_queue_bytes,
      rq_max_request_bytes = max_request_bytes, rq_recent_ack_limit = recent_ack_limit,
      rq_stale_after_secs = QUEUED_RUN_STALE_AFTER,
      rq_state = \<lparr>qs_next_sequence = max next_sequence 1, qs_active = None, qs_queued = [],
        qs_held = [], qs_queued_bytes = 0, qs_requests = Map.empty, qs_run_ids = {},
        qs_terminal_acks = []\<rparr>\<rparr>"

definition new_queue :: "string \<Rightarrow> u64 \<Rightarrow> run_queue" where
  "new_queue session_id next_sequence =
     with_limits_and_global session_id next_sequence DEFAULT_SESSION_QUEUE_CAPACITY
       DEFAULT_SESSION_QUEUE_BYTES DEFAULT_REQUEST_BYTES 256"

section \<open>The shared budget\<close>

definition reserve :: "usize \<Rightarrow> queue_budget \<Rightarrow> run_queue_error + queue_budget" where
  "reserve bytes b =
     (if gb_max_count b \<le> gb_count b then Inl (GlobalQueueFull (gb_max_count b))
      else let new_bytes = saturating_add_u64 (gb_bytes b) bytes in
        if gb_max_bytes b < new_bytes then Inl (GlobalQueueBytesExceeded new_bytes (gb_max_bytes b))
        else Inr (b\<lparr>gb_count := gb_count b + 1, gb_bytes := new_bytes\<rparr>))"

text \<open>The subtraction of natural numbers is \<open>saturating_sub\<close>.\<close>

definition release :: "usize \<Rightarrow> queue_budget \<Rightarrow> queue_budget" where
  "release bytes b = b\<lparr>gb_count := gb_count b - 1, gb_bytes := gb_bytes b - bytes\<rparr>"

definition replace_queued ::
    "usize \<Rightarrow> usize \<Rightarrow> usize \<Rightarrow> queue_budget \<Rightarrow> run_queue_error + queue_budget" where
  "replace_queued released_count released_bytes new_bytes b =
     (let base_count = gb_count b - released_count;
          base_bytes = gb_bytes b - released_bytes in
      if gb_max_count b \<le> base_count then Inl (GlobalQueueFull (gb_max_count b))
      else let projected = saturating_add_u64 base_bytes new_bytes in
        if gb_max_bytes b < projected
        then Inl (GlobalQueueBytesExceeded projected (gb_max_bytes b))
        else Inr (b\<lparr>gb_count := base_count + 1, gb_bytes := projected\<rparr>))"

section \<open>Digests and acknowledgements\<close>

record queue_env =
  qe_text :: "json \<Rightarrow> string"
  qe_sha256 :: "string \<Rightarrow> string"
  qe_uuid :: string
  qe_now :: string
  qe_age :: "string \<Rightarrow> int option"

text \<open>\<open>collect::<BTreeMap>\<close>: keys in order, a later value of a key replacing an earlier one.\<close>

fun canonicalize :: "json \<Rightarrow> json" where
  "canonicalize (JObj kvs) =
     JObj (foldl (\<lambda>m (k, v). insert_field k v m) [] (map (\<lambda>(k, v). (k, canonicalize v)) kvs))"
| "canonicalize (JArr vs) = JArr (map canonicalize vs)"
| "canonicalize other = other"

definition request_digest :: "queue_env \<Rightarrow> string option \<Rightarrow> busy_policy \<Rightarrow> json \<Rightarrow> string" where
  "request_digest env requested_run_id policy payload =
     concat (map hex2 (qe_sha256 env (qe_text env (JObj
       [(''busy_policy'', JStr (busy_policy_str policy)),
        (''payload'', canonicalize payload),
        (''requested_run_id'',
         case requested_run_id of None \<Rightarrow> JNull | Some r \<Rightarrow> JStr r)]))))"

text \<open>One step of the eviction loop of \<open>remember_terminal\<close>, and the loop.\<close>

function evict_acks :: "usize \<Rightarrow> queue_state \<Rightarrow> queue_state" where
  "evict_acks limit s =
     (case qs_terminal_acks s of
        [] \<Rightarrow> s
      | evicted # rest \<Rightarrow>
          if length (evicted # rest) \<le> limit then s
          else evict_acks limit
            (s\<lparr>qs_terminal_acks := rest,
               qs_requests := (qs_requests s)(ta_client_request_id evicted := None),
               qs_run_ids := qs_run_ids s - {ta_run_id evicted}\<rparr>))"
  by pat_completeness auto
termination by (relation "measure (\<lambda>(_, s). length (qs_terminal_acks s))") auto

declare evict_acks.simps [simp del]

definition terminal_ack_of :: "string \<Rightarrow> string \<Rightarrow> scheduled_run \<Rightarrow> terminal_ack" where
  "terminal_ack_of terminal_state reason request =
     \<lparr>ta_run_id = sr_run_id request, ta_run_sequence = sr_run_sequence request,
      ta_client_request_id = sr_client_request_id request, ta_state = terminal_state,
      ta_reason = reason\<rparr>"

definition remember_terminal ::
    "string \<Rightarrow> string \<Rightarrow> usize \<Rightarrow> queue_state \<Rightarrow> scheduled_run \<Rightarrow> queue_state" where
  "remember_terminal terminal_state reason limit s request =
     evict_acks limit
       (s\<lparr>qs_terminal_acks := qs_terminal_acks s @ [terminal_ack_of terminal_state reason request]\<rparr>)"

fun find_index :: "('a \<Rightarrow> bool) \<Rightarrow> 'a list \<Rightarrow> nat option" where
  "find_index p [] = None"
| "find_index p (x # xs) = (if p x then Some 0 else map_option Suc (find_index p xs))"

definition existing_ack :: "queue_state \<Rightarrow> request_identity \<Rightarrow> run_ack" where
  "existing_ack s ident =
     (let seq = Some (ri_run_sequence ident) in
      case qs_active s of
        Some (run, epoch) \<Rightarrow>
          if sr_run_id run = ri_run_id ident
          then (ack_existing (ri_run_id ident) epoch)\<lparr>ra_run_sequence := seq\<rparr>
          else (case find_index (\<lambda>r. sr_run_id r = ri_run_id ident) (qs_queued s) of
                  Some i \<Rightarrow> (ack_existing (ri_run_id ident) 0)\<lparr>ra_run_sequence := seq,
                              ra_queue_position := Some (i + 1)\<rparr>
                | None \<Rightarrow> (ack_existing (ri_run_id ident) 0)\<lparr>ra_run_sequence := seq\<rparr>)
      | None \<Rightarrow>
          (case find_index (\<lambda>r. sr_run_id r = ri_run_id ident) (qs_queued s) of
             Some i \<Rightarrow> (ack_existing (ri_run_id ident) 0)\<lparr>ra_run_sequence := seq,
                         ra_queue_position := Some (i + 1)\<rparr>
           | None \<Rightarrow> (ack_existing (ri_run_id ident) 0)\<lparr>ra_run_sequence := seq\<rparr>))"

section \<open>Accepting\<close>

definition chosen_run_id :: "queue_env \<Rightarrow> string option \<Rightarrow> string" where
  "chosen_run_id env requested =
     (case requested of
        Some r \<Rightarrow> if r \<noteq> [] then r else ''run_'' @ qe_uuid env
      | None \<Rightarrow> ''run_'' @ qe_uuid env)"

definition unsafe_run_id :: "string \<Rightarrow> bool" where
  "unsafe_run_id rid \<longleftrightarrow>
     128 < length rid \<or> rid = []
     \<or> \<not> list_all (\<lambda>c. is_ascii_alphanumeric c \<or> c = CHR 0x5F \<or> c = CHR 0x2D) rid"

definition enter_queue ::
    "queue_env \<Rightarrow> run_queue \<Rightarrow> string \<Rightarrow> string \<Rightarrow> busy_policy \<Rightarrow> json \<Rightarrow> string \<Rightarrow> usize \<Rightarrow> usize
     \<Rightarrow> queue_state \<Rightarrow> queue_state" where
  "enter_queue env q client digest policy payload rid payload_bytes queued_bytes s =
     (let sequence = qs_next_sequence s;
          request = \<lparr>sr_session_id = rq_session_id q, sr_run_id = rid, sr_run_sequence = sequence,
            sr_client_request_id = client, sr_request_digest = digest, sr_busy_policy = policy,
            sr_payload = payload, sr_accepted_at = qe_now env, sr_payload_bytes = payload_bytes\<rparr> in
      s\<lparr>qs_next_sequence := sequence + 1,
        qs_requests := (qs_requests s)(client \<mapsto>
          \<lparr>ri_digest = digest, ri_run_id = rid, ri_run_sequence = sequence\<rparr>),
        qs_run_ids := insert rid (qs_run_ids s),
        qs_queued_bytes := queued_bytes,
        qs_queued := qs_queued s @ [request]\<rparr>)"

definition accept_run ::
    "queue_env \<Rightarrow> string \<Rightarrow> string option \<Rightarrow> busy_policy \<Rightarrow> json \<Rightarrow> queue_budget \<Rightarrow> run_queue
     \<Rightarrow> run_queue_error + (run_ack \<times> queue_budget \<times> run_queue)" where
  "accept_run env client requested policy payload b q =
     (if blank client then Inl MissingClientRequestId
      else
        let digest = request_digest env requested policy payload;
            payload_bytes = length (qe_text env payload);
            s = rq_state q in
        case qs_requests s client of
          Some ident \<Rightarrow>
            if ri_digest ident \<noteq> digest then Inl (DuplicateRequestConflict client)
            else Inr (existing_ack s ident, b, q)
        | None \<Rightarrow>
            if policy = SupersedeSession then Inl SupersedeRequiresSessionOperation
            else if rq_max_request_bytes q < payload_bytes
            then Inl (RequestTooLarge payload_bytes (rq_max_request_bytes q))
            else if rq_capacity q \<le> length (qs_queued s) then Inl (QueueFull (rq_capacity q))
            else
              let new_bytes = saturating_add_u64 (qs_queued_bytes s) payload_bytes;
                  rid = chosen_run_id env requested in
              if rq_max_queue_bytes q < new_bytes
              then Inl (QueueBytesExceeded new_bytes (rq_max_queue_bytes q))
              else if unsafe_run_id rid then Inl (InvalidRunId rid)
              else if rid \<in> qs_run_ids s then Inl (DuplicateRunId rid)
              else if u64_max \<le> qs_next_sequence s then Inl SequenceExhausted
              else case reserve payload_bytes b of
                  Inl e \<Rightarrow> Inl e
                | Inr b' \<Rightarrow>
                    let s' = enter_queue env q client digest policy payload rid payload_bytes
                               new_bytes s in
                    Inr (ack_queued rid (qs_next_sequence s) (length (qs_queued s')), b',
                         q\<lparr>rq_state := s'\<rparr>))"

definition supersede_run ::
    "queue_env \<Rightarrow> string \<Rightarrow> string option \<Rightarrow> json \<Rightarrow> queue_budget \<Rightarrow> run_queue
     \<Rightarrow> run_queue_error
        + (run_ack \<times> scheduled_run list \<times> string option \<times> queue_budget \<times> run_queue)" where
  "supersede_run env client requested payload b q =
     (if blank client then Inl MissingClientRequestId
      else
        let digest = request_digest env requested SupersedeSession payload;
            payload_bytes = length (qe_text env payload);
            s = rq_state q in
        case qs_requests s client of
          Some ident \<Rightarrow>
            if ri_digest ident \<noteq> digest then Inl (DuplicateRequestConflict client)
            else Inr (existing_ack s ident, [], None, b, q)
        | None \<Rightarrow>
            let rid = chosen_run_id env requested in
            if rq_max_request_bytes q < payload_bytes \<or> rq_max_queue_bytes q < payload_bytes
            then Inl (RequestTooLarge payload_bytes
                        (min (rq_max_request_bytes q) (rq_max_queue_bytes q)))
            else if unsafe_run_id rid then Inl (InvalidRunId rid)
            else if rid \<in> qs_run_ids s then Inl (DuplicateRunId rid)
            else if u64_max \<le> qs_next_sequence s then Inl SequenceExhausted
            else case replace_queued (length (qs_queued s)) (qs_queued_bytes s) payload_bytes b of
                Inl e \<Rightarrow> Inl e
              | Inr b' \<Rightarrow>
                  let cancelled = qs_queued s;
                      emptied = s\<lparr>qs_queued := [], qs_queued_bytes := 0\<rparr>;
                      acked = foldl (remember_terminal ''cancelled'' ''superseded''
                                       (rq_recent_ack_limit q)) emptied cancelled;
                      s' = enter_queue env q client digest SupersedeSession payload rid
                             payload_bytes payload_bytes acked in
                  Inr (ack_queued rid (qs_next_sequence s) 1, cancelled,
                       map_option (\<lambda>(run, _). sr_run_id run) (qs_active s'), b',
                       q\<lparr>rq_state := s'\<rparr>))"

section \<open>Starting, folding, finishing\<close>

definition start_next ::
    "u64 \<Rightarrow> queue_budget \<Rightarrow> run_queue
     \<Rightarrow> run_queue_error + (scheduled_run \<times> run_ack \<times> queue_budget \<times> run_queue)" where
  "start_next epoch b q =
     (let s = rq_state q in
      case qs_active s of
        Some (active, _) \<Rightarrow> Inl (ActiveRunExists (sr_run_id active))
      | None \<Rightarrow>
          (case qs_queued s of
             [] \<Rightarrow> Inl QueueEmpty
           | request # rest \<Rightarrow>
               Inr (request,
                 \<lparr>ra_run_id = sr_run_id request, ra_run_epoch = epoch, ra_accepted_state = Running,
                  ra_run_sequence = Some (sr_run_sequence request), ra_queue_position = None\<rparr>,
                 release (sr_payload_bytes request) b,
                 q\<lparr>rq_state := s\<lparr>qs_queued := rest,
                     qs_queued_bytes := qs_queued_bytes s - sr_payload_bytes request,
                     qs_active := Some (request, epoch)\<rparr>\<rparr>)))"

text \<open>The loop that counts the requests folding into the front one.\<close>

fun fold_count :: "usize \<Rightarrow> scheduled_run list \<Rightarrow> nat" where
  "fold_count remaining [] = 0"
| "fold_count remaining (r # rs) =
     (if \<not> coalesces (sr_busy_policy r) \<or> remaining < sr_payload_bytes r then 0
      else Suc (fold_count (remaining - sr_payload_bytes r) rs))"

definition drain_coalescing_after_first ::
    "queue_budget \<Rightarrow> run_queue \<Rightarrow> scheduled_run list \<times> queue_budget \<times> run_queue" where
  "drain_coalescing_after_first b q =
     (let s = rq_state q in
      case qs_queued s of
        [] \<Rightarrow> ([], b, q)
      | front # rest \<Rightarrow>
          if \<not> coalesces (sr_busy_policy front) then ([], b, q)
          else
            let count = fold_count (rq_max_request_bytes q - sr_payload_bytes front) rest in
            if count = 0 then ([], b, q)
            else
              let folded = take count rest;
                  drained = s\<lparr>qs_queued := front # drop count rest,
                    qs_queued_bytes := foldl (\<lambda>n r. n - sr_payload_bytes r) (qs_queued_bytes s) folded\<rparr>;
                  acked = foldl (remember_terminal ''terminal'' ''merged'' (rq_recent_ack_limit q))
                            drained folded in
              (folded, foldl (\<lambda>b r. release (sr_payload_bytes r) b) b folded,
               q\<lparr>rq_state := acked\<rparr>))"

definition active_id :: "queue_state \<Rightarrow> string option" where
  "active_id s = map_option (\<lambda>(run, _). sr_run_id run) (qs_active s)"

definition finish_active :: "string \<Rightarrow> run_queue \<Rightarrow> run_queue_error + run_queue" where
  "finish_active rid q =
     (let s = rq_state q in
      case qs_active s of
        Some (run, _) \<Rightarrow>
          if sr_run_id run \<noteq> rid then Inl (RunNotActive (active_id s) rid)
          else Inr (q\<lparr>rq_state := remember_terminal ''terminal'' ''settled''
                  (rq_recent_ack_limit q) (s\<lparr>qs_active := None\<rparr>) run\<rparr>)
      | None \<Rightarrow> Inl (RunNotActive None rid))"

definition release_active_payload :: "string \<Rightarrow> run_queue \<Rightarrow> run_queue" where
  "release_active_payload rid q =
     (let s = rq_state q in
      case qs_active s of
        Some (run, epoch) \<Rightarrow>
          if sr_run_id run = rid
          then q\<lparr>rq_state := s\<lparr>qs_active :=
                 Some (run\<lparr>sr_payload := JNull, sr_payload_bytes := 0\<rparr>, epoch)\<rparr>\<rparr>
          else q
      | None \<Rightarrow> q)"

section \<open>Cancelling\<close>

text \<open>\<open>position\<close> and \<open>remove\<close>: the first element the test accepts, and the list without it.\<close>

fun take_first :: "('a \<Rightarrow> bool) \<Rightarrow> 'a list \<Rightarrow> ('a \<times> 'a list) option" where
  "take_first p [] = None"
| "take_first p (x # xs) =
     (if p x then Some (x, xs) else map_option (\<lambda>(y, ys). (y, x # ys)) (take_first p xs))"

definition cancel_queued ::
    "string \<Rightarrow> cancel_reason \<Rightarrow> queue_budget \<Rightarrow> run_queue
     \<Rightarrow> run_queue_error + (scheduled_run \<times> queue_budget \<times> run_queue)" where
  "cancel_queued rid reason b q =
     (let s = rq_state q;
          finish = (\<lambda>cancelled s.
            (cancelled, release (sr_payload_bytes cancelled) b,
             q\<lparr>rq_state := remember_terminal ''cancelled'' (cancel_reason_str reason)
               (rq_recent_ack_limit q)
               (s\<lparr>qs_queued_bytes := qs_queued_bytes s - sr_payload_bytes cancelled\<rparr>) cancelled\<rparr>)) in
      case take_first (\<lambda>h. sr_run_id (hr_request h) = rid) (qs_held s) of
        Some (h, rest) \<Rightarrow> Inr (finish (hr_request h) (s\<lparr>qs_held := rest\<rparr>))
      | None \<Rightarrow>
          (case take_first (\<lambda>r. sr_run_id r = rid) (qs_queued s) of
             None \<Rightarrow> Inl (RunNotQueued rid)
           | Some (r, rest) \<Rightarrow> Inr (finish r (s\<lparr>qs_queued := rest\<rparr>))))"

definition waiting :: "queue_state \<Rightarrow> scheduled_run list" where
  "waiting s = qs_queued s @ map hr_request (qs_held s)"

definition cancel_all_queued ::
    "cancel_reason \<Rightarrow> queue_budget \<Rightarrow> run_queue \<Rightarrow> scheduled_run list \<times> queue_budget \<times> run_queue" where
  "cancel_all_queued reason b q =
     (let s = rq_state q;
          cancelled = sort_key sr_run_sequence (qs_queued s @ map hr_request (qs_held s)) in
      (cancelled, foldl (\<lambda>b r. release (sr_payload_bytes r) b) b cancelled,
       q\<lparr>rq_state := foldl (remember_terminal ''cancelled'' (cancel_reason_str reason)
                              (rq_recent_ack_limit q))
                       (s\<lparr>qs_queued := [], qs_held := [], qs_queued_bytes := 0\<rparr>) cancelled\<rparr>))"

section \<open>Parking and releasing\<close>

definition park_verdict :: "queue_env \<Rightarrow> queue_boundary \<Rightarrow> run_queue \<Rightarrow> scheduled_run \<Rightarrow> park_reason option" where
  "park_verdict env boundary q request =
     (case qe_age env (sr_accepted_at request) of
        Some age \<Rightarrow>
          if boundary = AfterRun then None
          else if int (rq_stale_after_secs q) \<le> age then Some TooOld else None
      | None \<Rightarrow> Some UnknownAge)"

text \<open>One pass of the loop: what was parked, what becomes held and what stays queued.\<close>

definition park_step ::
    "queue_env \<Rightarrow> queue_boundary \<Rightarrow> run_queue \<Rightarrow> parked_run list \<times> held_run list \<times> scheduled_run list
     \<Rightarrow> scheduled_run \<Rightarrow> parked_run list \<times> held_run list \<times> scheduled_run list" where
  "park_step env boundary q = (\<lambda>(parked, held, kept) request.
     case park_verdict env boundary q request of
       Some reason \<Rightarrow> (parked @ [\<lparr>pk_run_id = sr_run_id request, pk_reason = reason\<rparr>],
                       held @ [\<lparr>hr_request = request, hr_reason = reason\<rparr>], kept)
     | None \<Rightarrow> (parked, held, kept @ [request]))"

definition park_stale :: "queue_env \<Rightarrow> queue_boundary \<Rightarrow> run_queue \<Rightarrow> parked_run list \<times> run_queue" where
  "park_stale env boundary q =
     (let s = rq_state q;
          (parked, held, kept) = foldl (park_step env boundary q) ([], [], []) (qs_queued s) in
      (parked, q\<lparr>rq_state := s\<lparr>qs_queued := kept,
         qs_held := sort_key (\<lambda>h. sr_run_sequence (hr_request h)) (qs_held s @ held)\<rparr>\<rparr>))"

definition is_held :: "string \<Rightarrow> run_queue \<Rightarrow> bool" where
  "is_held rid q \<longleftrightarrow> list_ex (\<lambda>h. sr_run_id (hr_request h) = rid) (qs_held (rq_state q))"

definition held_reason :: "string \<Rightarrow> run_queue \<Rightarrow> park_reason option" where
  "held_reason rid q =
     map_option hr_reason (find (\<lambda>h. sr_run_id (hr_request h) = rid) (qs_held (rq_state q)))"

definition insert_in_order :: "scheduled_run \<Rightarrow> scheduled_run list \<Rightarrow> scheduled_run list" where
  "insert_in_order request rs =
     (let at = (case find_index (\<lambda>r. sr_run_sequence request < sr_run_sequence r) rs of
                  Some i \<Rightarrow> i | None \<Rightarrow> length rs) in
      take at rs @ request # drop at rs)"

definition release_held :: "queue_env \<Rightarrow> string \<Rightarrow> run_queue \<Rightarrow> run_queue_error + (scheduled_run \<times> run_queue)" where
  "release_held env rid q =
     (let s = rq_state q in
      case take_first (\<lambda>h. sr_run_id (hr_request h) = rid) (qs_held s) of
        None \<Rightarrow> Inl (RunNotQueued rid)
      | Some (h, rest) \<Rightarrow>
          let request = (hr_request h)\<lparr>sr_accepted_at := qe_now env\<rparr> in
          Inr (request, q\<lparr>rq_state := s\<lparr>qs_held := rest,
                 qs_queued := insert_in_order request (qs_queued s)\<rparr>\<rparr>))"

section \<open>Views\<close>

definition has_pending :: "run_queue \<Rightarrow> bool" where
  "has_pending q \<longleftrightarrow> qs_active (rq_state q) \<noteq> None \<or> qs_queued (rq_state q) \<noteq> []"

definition next_startable :: "run_queue \<Rightarrow> scheduled_run option" where
  "next_startable q = (case qs_queued (rq_state q) of [] \<Rightarrow> None | r # _ \<Rightarrow> Some r)"

definition queued_runs :: "run_queue \<Rightarrow> scheduled_run list" where
  "queued_runs q =
     sort_key sr_run_sequence (map hr_request (qs_held (rq_state q)) @ qs_queued (rq_state q))"

definition knows_request :: "string \<Rightarrow> run_queue \<Rightarrow> bool" where
  "knows_request client q \<longleftrightarrow> qs_requests (rq_state q) client \<noteq> None"

section \<open>Moving between the places\<close>

lemma mset_take_first:
  assumes "take_first p xs = Some (y, ys)"
  shows "mset xs = add_mset y (mset ys)" and "p y"
  using assms by (induction xs arbitrary: ys) (auto split: if_splits)

lemma take_first_split:
  "take_first p xs = Some (y, ys) \<Longrightarrow> \<exists>us vs. xs = us @ y # vs \<and> ys = us @ vs"
proof (induction xs arbitrary: ys)
  case (Cons x xs)
  show ?case
  proof (cases "p x")
    case True
    then have "x # xs = [] @ y # ys \<and> ys = [] @ ys" using Cons.prems by simp
    then show ?thesis by blast
  next
    case False
    then obtain zs where zs: "take_first p xs = Some (y, zs)" "ys = x # zs"
      using Cons.prems by auto
    then obtain us vs where "xs = us @ y # vs" "zs = us @ vs" using Cons.IH by blast
    then have "x # xs = (x # us) @ y # vs \<and> ys = (x # us) @ vs" using zs(2) by simp
    then show ?thesis by blast
  qed
qed simp

lemma sorted_remaining:
  assumes "take_first p xs = Some (y, ys)" "sorted (map f xs)"
  shows "sorted (map f ys)"
  using take_first_split [OF assms(1)] assms(2) by (auto simp: sorted_append)

lemma find_index_iff:
  "find_index p xs = Some i
   \<longleftrightarrow> i < length xs \<and> p (xs ! i) \<and> (\<forall>j < i. \<not> p (xs ! j))"
proof (induction xs arbitrary: i)
  case (Cons x xs)
  show ?case
  proof (cases i)
    case (Suc k)
    then show ?thesis using Cons [of k] by (auto simp: less_Suc_eq_0_disj)
  qed auto
qed simp

lemma find_index_None: "find_index p xs = None \<longleftrightarrow> (\<forall>x \<in> set xs. \<not> p x)"
  by (induction xs) auto

lemma mset_insert_in_order: "mset (insert_in_order r rs) = add_mset r (mset rs)"
proof -
  have "mset (take n rs @ r # drop n rs) = add_mset r (mset rs)" for n
    by (metis append_take_drop_id mset.simps(2) mset_append union_mset_add_mset_right)
  then show ?thesis by (simp add: insert_in_order_def Let_def)
qed

lemma insert_in_order_sorted:
  assumes "sorted (map sr_run_sequence rs)"
  shows "sorted (map sr_run_sequence (insert_in_order r rs))"
proof -
  obtain n where n: "insert_in_order r rs = take n rs @ r # drop n rs"
    and before: "\<forall>x \<in> set (take n rs). sr_run_sequence x \<le> sr_run_sequence r"
    and after: "drop n rs \<noteq> [] \<longrightarrow> sr_run_sequence r < sr_run_sequence (hd (drop n rs))"
  proof (cases "find_index (\<lambda>x. sr_run_sequence r < sr_run_sequence x) rs")
    case None
    then show thesis
      by (intro that [of "length rs"])
        (simp add: insert_in_order_def Let_def, auto simp: find_index_None not_less)
  next
    case (Some i)
    then have at: "i < length rs" "sr_run_sequence r < sr_run_sequence (rs ! i)"
      and "\<forall>j < i. sr_run_sequence (rs ! j) \<le> sr_run_sequence r"
      by (auto simp: find_index_iff not_less)
    then show thesis using Some
      by (intro that [of i])
        (simp add: insert_in_order_def Let_def, auto simp: in_set_conv_nth hd_drop_conv_nth)
  qed
  have split: "map sr_run_sequence rs
    = map sr_run_sequence (take n rs) @ map sr_run_sequence (drop n rs)"
    by (simp flip: map_append)
  have "sorted (map sr_run_sequence (take n rs))" "sorted (map sr_run_sequence (drop n rs))"
    "\<forall>x \<in> set (take n rs). \<forall>y \<in> set (drop n rs). sr_run_sequence x \<le> sr_run_sequence y"
    using assms unfolding split sorted_append by auto
  moreover have "\<forall>y \<in> set (drop n rs). sr_run_sequence r \<le> sr_run_sequence y"
    using calculation(2) after by (cases "drop n rs") auto
  ultimately show ?thesis using before by (auto simp: n sorted_append)
qed

lemma park_fold:
  "foldl (park_step env boundary q) (parked, held, kept) rs =
   (parked @ List.map_filter (\<lambda>r. map_option (\<lambda>reason. \<lparr>pk_run_id = sr_run_id r, pk_reason = reason\<rparr>)
                                 (park_verdict env boundary q r)) rs,
    held @ List.map_filter (\<lambda>r. map_option (\<lambda>reason. \<lparr>hr_request = r, hr_reason = reason\<rparr>)
                                 (park_verdict env boundary q r)) rs,
    kept @ filter (\<lambda>r. park_verdict env boundary q r = None) rs)"
  by (induction rs arbitrary: parked held kept)
    (auto simp: park_step_def map_filter_simps split: option.splits)

lemma map_request_filter:
  "map hr_request (List.map_filter (\<lambda>r. map_option (\<lambda>reason. \<lparr>hr_request = r, hr_reason = reason\<rparr>)
     (f r)) rs) = filter (\<lambda>r. f r \<noteq> None) rs"
  by (induction rs) (auto simp: map_filter_simps split: option.splits)

lemma park_stale_eq:
  "park_stale env boundary q =
    (List.map_filter (\<lambda>r. map_option (\<lambda>reason. \<lparr>pk_run_id = sr_run_id r, pk_reason = reason\<rparr>)
       (park_verdict env boundary q r)) (qs_queued (rq_state q)),
     q\<lparr>rq_state := (rq_state q)
       \<lparr>qs_queued := filter (\<lambda>r. park_verdict env boundary q r = None) (qs_queued (rq_state q)),
        qs_held := sort_key (\<lambda>h. sr_run_sequence (hr_request h))
          (qs_held (rq_state q) @ List.map_filter (\<lambda>r. map_option
             (\<lambda>reason. \<lparr>hr_request = r, hr_reason = reason\<rparr>) (park_verdict env boundary q r))
             (qs_queued (rq_state q)))\<rparr>\<rparr>)"
  by (simp add: park_stale_def park_fold Let_def)

section \<open>Acknowledgement window\<close>

type_synonym run_key = "string \<times> u64 \<times> string"

definition run_key :: "scheduled_run \<Rightarrow> run_key" where
  "run_key r = (sr_run_id r, sr_run_sequence r, sr_client_request_id r)"

definition ack_key :: "terminal_ack \<Rightarrow> run_key" where
  "ack_key a = (ta_run_id a, ta_run_sequence a, ta_client_request_id a)"

definition live :: "queue_state \<Rightarrow> scheduled_run list" where
  "live s = (case qs_active s of None \<Rightarrow> [] | Some (r, _) \<Rightarrow> [r]) @ waiting s"

definition remembered :: "queue_state \<Rightarrow> run_key list" where
  "remembered s = map ack_key (qs_terminal_acks s) @ map run_key (live s)"

text \<open>The request table, the set of run ids and the next sequence number agree with a list of
  runs: no two share an id, a sequence number or a client request.\<close>

definition tables_ok :: "run_key list \<Rightarrow> queue_state \<Rightarrow> bool" where
  "tables_ok ks s \<longleftrightarrow>
     distinct (map fst ks) \<and> distinct (map (fst \<circ> snd) ks) \<and> distinct (map (snd \<circ> snd) ks)
     \<and> qs_run_ids s = set (map fst ks) \<and> dom (qs_requests s) = set (map (snd \<circ> snd) ks)
     \<and> (\<forall>k \<in> set ks. fst (snd k) < qs_next_sequence s)
     \<and> (\<forall>k \<in> set ks. \<exists>i. qs_requests s (snd (snd k)) = Some i \<and> ri_run_id i = fst k
          \<and> ri_run_sequence i = fst (snd k))"

definition idents_ok :: "scheduled_run list \<Rightarrow> queue_state \<Rightarrow> bool" where
  "idents_ok rs s \<longleftrightarrow> (\<forall>r \<in> set rs. qs_requests s (sr_client_request_id r)
     = Some \<lparr>ri_digest = sr_request_digest r, ri_run_id = sr_run_id r,
             ri_run_sequence = sr_run_sequence r\<rparr>)"

lemma tables_ok_mset: "mset ks = mset ks' \<Longrightarrow> tables_ok ks s \<longleftrightarrow> tables_ok ks' s"
proof -
  assume eq: "mset ks = mset ks'"
  have same: "distinct (map f ks) \<longleftrightarrow> distinct (map f ks')" for f :: "run_key \<Rightarrow> 'x"
    using eq by (intro mset_eq_imp_distinct_iff) simp
  have sets: "set ks = set ks'" using eq by (rule mset_eq_setD)
  show ?thesis unfolding tables_ok_def set_map sets same [of fst] same [of "fst \<circ> snd"]
      same [of "snd \<circ> snd"] ..
qed

lemma tables_ok_cong:
  "qs_requests s = qs_requests s' \<Longrightarrow> qs_run_ids s = qs_run_ids s' \<Longrightarrow>
   qs_next_sequence s = qs_next_sequence s' \<Longrightarrow> tables_ok ks s \<longleftrightarrow> tables_ok ks s'"
  by (simp add: tables_ok_def)

lemma tables_okD:
  assumes "tables_ok ks s"
  shows "distinct (map fst ks)" "distinct (map (fst \<circ> snd) ks)" "distinct (map (snd \<circ> snd) ks)"
    and "qs_run_ids s = set (map fst ks)" and "dom (qs_requests s) = set (map (snd \<circ> snd) ks)"
    and "\<And>k. k \<in> set ks \<Longrightarrow> fst (snd k) < qs_next_sequence s"
    and "\<And>k. k \<in> set ks \<Longrightarrow> \<exists>i. qs_requests s (snd (snd k)) = Some i \<and> ri_run_id i = fst k
           \<and> ri_run_sequence i = fst (snd k)"
  using assms unfolding tables_ok_def by blast+

lemma tables_okI:
  assumes "distinct (map fst ks)" "distinct (map (fst \<circ> snd) ks)" "distinct (map (snd \<circ> snd) ks)"
    and "qs_run_ids s = set (map fst ks)" and "dom (qs_requests s) = set (map (snd \<circ> snd) ks)"
    and "\<And>k. k \<in> set ks \<Longrightarrow> fst (snd k) < qs_next_sequence s"
    and "\<And>k. k \<in> set ks \<Longrightarrow> \<exists>i. qs_requests s (snd (snd k)) = Some i \<and> ri_run_id i = fst k
           \<and> ri_run_sequence i = fst (snd k)"
  shows "tables_ok ks s"
  unfolding tables_ok_def using assms by blast

lemma tables_ok_drop:
  assumes "tables_ok (k # ks) s"
    and "qs_requests s' = (qs_requests s)(snd (snd k) := None)"
    and "qs_run_ids s' = qs_run_ids s - {fst k}" and "qs_next_sequence s' = qs_next_sequence s"
  shows "tables_ok ks s'"
proof -
  note ok = tables_okD [OF assms(1)]
  show ?thesis
  proof (rule tables_okI)
    show "qs_run_ids s' = set (map fst ks)" using ok(1,4) assms(3) by auto
    show "dom (qs_requests s') = set (map (snd \<circ> snd) ks)" using ok(3,5) assms(2) by auto
  next
    fix j assume j: "j \<in> set ks"
    then have "snd (snd j) \<noteq> snd (snd k)" using ok(3) by (auto simp: image_iff)
    then show "\<exists>i. qs_requests s' (snd (snd j)) = Some i \<and> ri_run_id i = fst j
        \<and> ri_run_sequence i = fst (snd j)"
      using ok(7) [of j] j assms(2) by simp
    show "fst (snd j) < qs_next_sequence s'" using ok(6) [of j] j assms(4) by simp
  qed (use ok in simp_all)
qed

definition indexed :: "scheduled_run list \<Rightarrow> queue_state \<Rightarrow> bool" where
  "indexed rs s \<longleftrightarrow>
     tables_ok (map ack_key (qs_terminal_acks s) @ map run_key rs) s \<and> idents_ok rs s"

lemma evict_frame [simp]:
  "qs_active (evict_acks l s) = qs_active s" "qs_queued (evict_acks l s) = qs_queued s"
  "qs_held (evict_acks l s) = qs_held s" "qs_queued_bytes (evict_acks l s) = qs_queued_bytes s"
  "qs_next_sequence (evict_acks l s) = qs_next_sequence s"
  by (induction l s rule: evict_acks.induct; subst evict_acks.simps; simp split: list.split)+

lemma evict_acks_bounded: "length (qs_terminal_acks (evict_acks l s)) \<le> l"
  by (induction l s rule: evict_acks.induct; subst evict_acks.simps; simp split: list.split)

lemma evict_indexed:
  assumes "indexed rs s"
  shows "indexed rs (evict_acks l s)"
  using assms
proof (induction l s rule: evict_acks.induct)
  case (1 l s)
  show ?case
  proof (cases "qs_terminal_acks s")
    case Nil
    then show ?thesis using 1(2) by (subst evict_acks.simps) simp
  next
    case (Cons a rest)
    let ?s = "s\<lparr>qs_terminal_acks := rest,
      qs_requests := (qs_requests s)(ta_client_request_id a := None),
      qs_run_ids := qs_run_ids s - {ta_run_id a}\<rparr>"
    have tab: "tables_ok (ack_key a # map ack_key rest @ map run_key rs) s"
      and ids: "idents_ok rs s" using 1(2) Cons by (simp_all add: indexed_def)
    have "tables_ok (map ack_key rest @ map run_key rs) ?s"
      by (rule tables_ok_drop [OF tab]) (simp_all add: ack_key_def)
    moreover have "idents_ok rs ?s"
      using ids tables_okD(3) [OF tab]
      by (force simp: idents_ok_def ack_key_def run_key_def image_iff)
    ultimately have "indexed rs ?s" by (simp add: indexed_def)
    then show ?thesis using 1 Cons by (subst evict_acks.simps) auto
  qed
qed

lemma remember_frame [simp]:
  "qs_active (remember_terminal t w l s r) = qs_active s"
  "qs_queued (remember_terminal t w l s r) = qs_queued s"
  "qs_held (remember_terminal t w l s r) = qs_held s"
  "qs_queued_bytes (remember_terminal t w l s r) = qs_queued_bytes s"
  "qs_next_sequence (remember_terminal t w l s r) = qs_next_sequence s"
  by (simp_all add: remember_terminal_def)

lemma remember_all_frame [simp]:
  "qs_active (foldl (remember_terminal t w l) s ds) = qs_active s"
  "qs_queued (foldl (remember_terminal t w l) s ds) = qs_queued s"
  "qs_held (foldl (remember_terminal t w l) s ds) = qs_held s"
  "qs_queued_bytes (foldl (remember_terminal t w l) s ds) = qs_queued_bytes s"
  "qs_next_sequence (foldl (remember_terminal t w l) s ds) = qs_next_sequence s"
  by (induction ds arbitrary: s) simp_all

lemma idents_ok_cong: "qs_requests s = qs_requests s' \<Longrightarrow> idents_ok rs s \<longleftrightarrow> idents_ok rs s'"
  by (simp add: idents_ok_def)

definition run_ident :: "scheduled_run \<Rightarrow> string \<times> run_key" where
  "run_ident r = (sr_request_digest r, run_key r)"

lemma idents_ok_same:
  assumes "set (map run_ident rs) = set (map run_ident rs')" "idents_ok rs s"
  shows "idents_ok rs' s"
  unfolding idents_ok_def
proof
  fix r assume "r \<in> set rs'"
  then have "run_ident r \<in> set (map run_ident rs)" unfolding assms(1) by simp
  then obtain r0 where "r0 \<in> set rs" "run_ident r0 = run_ident r" by auto
  then show "qs_requests s (sr_client_request_id r) = Some \<lparr>ri_digest = sr_request_digest r,
      ri_run_id = sr_run_id r, ri_run_sequence = sr_run_sequence r\<rparr>"
    using assms(2) by (auto simp: idents_ok_def run_ident_def run_key_def)
qed

lemma indexed_transfer:
  assumes "indexed rs s" "image_mset run_ident (mset rs) = image_mset run_ident (mset rs')"
    and "qs_terminal_acks s = qs_terminal_acks s'" "qs_requests s = qs_requests s'"
    and "qs_run_ids s = qs_run_ids s'" "qs_next_sequence s = qs_next_sequence s'"
  shows "indexed rs' s'"
proof -
  have keys: "image_mset run_key (mset rs) = image_mset run_key (mset rs')"
    using arg_cong [OF assms(2), of "image_mset snd"]
    by (simp add: run_ident_def image_mset.compositionality comp_def)
  have "mset (map ack_key (qs_terminal_acks s) @ map run_key rs)
      = mset (map ack_key (qs_terminal_acks s') @ map run_key rs')"
    using keys assms(3) by simp
  then have "tables_ok (map ack_key (qs_terminal_acks s') @ map run_key rs') s'"
    using assms(1) tables_ok_mset tables_ok_cong [OF assms(4-6)] unfolding indexed_def by metis
  moreover have "set (map run_ident rs) = set (map run_ident rs')"
    using assms(2) by (metis mset_map set_mset_mset)
  then have "idents_ok rs' s'"
    using assms(1) idents_ok_same idents_ok_cong [OF assms(4)] unfolding indexed_def by blast
  ultimately show ?thesis by (simp add: indexed_def)
qed

lemma remember_indexed:
  assumes "indexed (r # rs) s"
  shows "indexed rs (remember_terminal t w l s r)"
proof -
  let ?s = "s\<lparr>qs_terminal_acks := qs_terminal_acks s @ [terminal_ack_of t w r]\<rparr>"
  have "tables_ok (map ack_key (qs_terminal_acks s) @ run_key r # map run_key rs) s"
    and ids: "idents_ok rs s" using assms by (simp_all add: indexed_def idents_ok_def)
  then have "tables_ok (map ack_key (qs_terminal_acks s) @ run_key r # map run_key rs) ?s"
    by (subst tables_ok_cong [of ?s s]) simp_all
  then have "tables_ok (map ack_key (qs_terminal_acks ?s) @ map run_key rs) ?s"
    by (simp add: terminal_ack_of_def ack_key_def run_key_def)
  then have "indexed rs ?s" using ids by (simp add: indexed_def idents_ok_cong [of ?s s])
  then show ?thesis unfolding remember_terminal_def by (rule evict_indexed)
qed

lemma remember_all_indexed:
  "indexed (ds @ rs) s \<Longrightarrow> indexed rs (foldl (remember_terminal t w l) s ds)"
  by (induction ds arbitrary: s) (simp_all add: remember_indexed)

section \<open>The invariant of one queue\<close>

definition queue_inv :: "run_queue \<Rightarrow> bool" where
  "queue_inv q \<longleftrightarrow> indexed (live (rq_state q)) (rq_state q)
     \<and> sorted (map sr_run_sequence (qs_queued (rq_state q)))
     \<and> sorted (map (sr_run_sequence \<circ> hr_request) (qs_held (rq_state q)))
     \<and> length (qs_terminal_acks (rq_state q)) \<le> rq_recent_ack_limit q"

lemma acks_after_remember:
  "length (qs_terminal_acks (remember_terminal t w l s r)) \<le> l"
  by (simp add: remember_terminal_def evict_acks_bounded)

lemma acks_after_remember_all:
  "length (qs_terminal_acks s) \<le> l
   \<Longrightarrow> length (qs_terminal_acks (foldl (remember_terminal t w l) s ds)) \<le> l"
  by (induction ds arbitrary: s) (simp_all add: acks_after_remember)

lemma queue_invD:
  assumes "queue_inv q"
  shows "indexed (live (rq_state q)) (rq_state q)"
    and "sorted (map sr_run_sequence (qs_queued (rq_state q)))"
    and "sorted (map (sr_run_sequence \<circ> hr_request) (qs_held (rq_state q)))"
    and "length (qs_terminal_acks (rq_state q)) \<le> rq_recent_ack_limit q"
  using assms by (simp_all add: queue_inv_def)

lemma queue_invI:
  assumes "indexed rs s" "mset rs = mset (live s)"
    and "sorted (map sr_run_sequence (qs_queued s))"
    and "sorted (map (sr_run_sequence \<circ> hr_request) (qs_held s))"
    and "length (qs_terminal_acks s) \<le> rq_recent_ack_limit q"
  shows "queue_inv (q\<lparr>rq_state := s\<rparr>)"
proof -
  have "image_mset run_ident (mset rs) = image_mset run_ident (mset (live s))"
    by (simp only: assms(2))
  from indexed_transfer [OF assms(1) this refl refl refl refl] show ?thesis
    using assms(3-5) by (simp add: queue_inv_def)
qed

lemma new_queue_inv: "queue_inv (with_limits_and_global sid n cap mb mr al)"
  by (simp add: queue_inv_def with_limits_and_global_def indexed_def tables_ok_def idents_ok_def
      live_def waiting_def)

lemma enter_indexed:
  assumes "indexed rs s" "qs_requests s client = None" "rid \<notin> qs_run_ids s"
    and "s' = enter_queue env q client digest policy payload rid n m s"
  shows "indexed (rs @ [last (qs_queued s')]) s'"
proof -
  let ?r = "last (qs_queued s')"
  have tab: "tables_ok (map ack_key (qs_terminal_acks s) @ map run_key rs) s"
    and ids: "idents_ok rs s" using assms(1) by (simp_all add: indexed_def)
  note ok = tables_okD [OF tab]
  let ?ks = "map ack_key (qs_terminal_acks s) @ map run_key rs"
  have key: "run_key ?r = (rid, qs_next_sequence s, client)"
    and ident: "qs_requests s' = (qs_requests s)(client \<mapsto> \<lparr>ri_digest = sr_request_digest ?r,
      ri_run_id = rid, ri_run_sequence = qs_next_sequence s\<rparr>)"
    and rest: "qs_run_ids s' = insert rid (qs_run_ids s)" "qs_terminal_acks s' = qs_terminal_acks s"
      "qs_next_sequence s' = qs_next_sequence s + 1"
    and parts: "sr_client_request_id ?r = client" "sr_run_id ?r = rid"
      "sr_run_sequence ?r = qs_next_sequence s"
    by (simp_all add: assms(4) enter_queue_def Let_def run_key_def)
  have fresh: "client \<notin> set (map (snd \<circ> snd) ?ks)" "rid \<notin> set (map fst ?ks)"
    using assms(2,3) ok(4,5) by (metis domIff)+
  have fresh_seq: "qs_next_sequence s \<notin> set (map (fst \<circ> snd) ?ks)" using ok(6) by (metis
    (no_types, lifting) comp_apply imageE less_irrefl list.set_map)
  have "tables_ok (?ks @ [run_key ?r]) s'"
  proof (rule tables_okI)
    fix k assume k: "k \<in> set (?ks @ [run_key ?r])"
    show "fst (snd k) < qs_next_sequence s'"
      using k ok(6) [of k] by (auto simp: key rest)
    show "\<exists>i. qs_requests s' (snd (snd k)) = Some i \<and> ri_run_id i = fst k
        \<and> ri_run_sequence i = fst (snd k)"
    proof (cases "k \<in> set ?ks")
      case True
      then have "snd (snd k) \<noteq> client" using fresh(1) by (auto simp: image_iff)
      then show ?thesis using ok(7) [OF True] by (simp add: ident)
    next
      case False
      then show ?thesis using k by (simp add: key ident)
    qed
  qed (use ok fresh fresh_seq in \<open>simp_all add: key rest ident\<close>)
  moreover have "idents_ok (rs @ [?r]) s'"
    using ids fresh(1) by (auto simp: idents_ok_def ident parts run_key_def)
  ultimately show ?thesis by (simp add: indexed_def rest)
qed


section \<open>Every operation keeps the invariant\<close>

lemma reserve_Inr:
  "reserve n b = Inr b' \<longleftrightarrow> gb_count b < gb_max_count b
     \<and> saturating_add_u64 (gb_bytes b) n \<le> gb_max_bytes b
     \<and> b' = b\<lparr>gb_count := gb_count b + 1, gb_bytes := saturating_add_u64 (gb_bytes b) n\<rparr>"
  by (auto simp: reserve_def Let_def)

lemma replace_queued_Inr:
  "replace_queued c m n b = Inr b' \<longleftrightarrow> gb_count b - c < gb_max_count b
     \<and> saturating_add_u64 (gb_bytes b - m) n \<le> gb_max_bytes b
     \<and> b' = b\<lparr>gb_count := gb_count b - c + 1,
              gb_bytes := saturating_add_u64 (gb_bytes b - m) n\<rparr>"
  by (auto simp: replace_queued_def Let_def)

text \<open>What an accepted request does: nothing when it is a retry, else it joins the end.\<close>

lemma accept_run_cases:
  assumes "accept_run env client requested policy payload b q = Inr (ack, b', q')"
  obtains (retry) ident where "qs_requests (rq_state q) client = Some ident"
      "ri_digest ident = request_digest env requested policy payload"
      "ack = existing_ack (rq_state q) ident" "b' = b" "q' = q"
  | (fresh) rid n m s' where "qs_requests (rq_state q) client = None"
      "rid = chosen_run_id env requested" "rid \<notin> qs_run_ids (rq_state q)"
      "n = length (qe_text env payload)" "n \<le> rq_max_request_bytes q"
      "length (qs_queued (rq_state q)) < rq_capacity q"
      "m = saturating_add_u64 (qs_queued_bytes (rq_state q)) n" "m \<le> rq_max_queue_bytes q"
      "qs_next_sequence (rq_state q) < u64_max" "reserve n b = Inr b'"
      "s' = enter_queue env q client (request_digest env requested policy payload) policy payload
              rid n m (rq_state q)"
      "ack = ack_queued rid (qs_next_sequence (rq_state q)) (length (qs_queued s'))"
      "q' = q\<lparr>rq_state := s'\<rparr>" "policy \<noteq> SupersedeSession"
proof (cases "qs_requests (rq_state q) client")
  case None
  show thesis
    using assms None
    by (intro fresh [OF None refl _ refl _ _ refl _ _ _ refl])
      (auto simp: accept_run_def Let_def split: if_splits sum.splits)
next
  case (Some ident)
  show thesis
    using assms Some
    by (intro retry [OF Some]) (auto simp: accept_run_def Let_def split: if_splits)
qed

lemma supersede_run_cases:
  assumes "supersede_run env client requested payload b q = Inr (ack, cancelled, act, b', q')"
  obtains (retry) ident where "qs_requests (rq_state q) client = Some ident"
      "ri_digest ident = request_digest env requested SupersedeSession payload"
      "ack = existing_ack (rq_state q) ident" "cancelled = []" "b' = b" "q' = q"
  | (fresh) rid n s0 s' where "qs_requests (rq_state q) client = None"
      "rid = chosen_run_id env requested" "rid \<notin> qs_run_ids (rq_state q)"
      "n = length (qe_text env payload)" "n \<le> rq_max_request_bytes q" "n \<le> rq_max_queue_bytes q"
      "qs_next_sequence (rq_state q) < u64_max"
      "replace_queued (length (qs_queued (rq_state q))) (qs_queued_bytes (rq_state q)) n b = Inr b'"
      "cancelled = qs_queued (rq_state q)"
      "s0 = foldl (remember_terminal ''cancelled'' ''superseded'' (rq_recent_ack_limit q))
              ((rq_state q)\<lparr>qs_queued := [], qs_queued_bytes := 0\<rparr>) cancelled"
      "s' = enter_queue env q client (request_digest env requested SupersedeSession payload)
              SupersedeSession payload rid n n s0"
      "ack = ack_queued rid (qs_next_sequence (rq_state q)) 1"
      "act = active_id (rq_state q)" "q' = q\<lparr>rq_state := s'\<rparr>"
proof (cases "qs_requests (rq_state q) client")
  case None
  show thesis
    using assms None
    by (intro fresh [OF None refl _ refl _ _ _ _ _ refl refl])
      (auto simp: supersede_run_def Let_def active_id_def enter_queue_def
        split: if_splits sum.splits)
next
  case (Some ident)
  show thesis
    using assms Some
    by (intro retry [OF Some]) (auto simp: supersede_run_def Let_def split: if_splits)
qed

lemma indexed_seq_less:
  assumes "indexed rs s" "r \<in> set rs"
  shows "sr_run_sequence r < qs_next_sequence s"
  using assms tables_okD(6) [of _ s "run_key r"] by (fastforce simp: indexed_def run_key_def)

lemma indexed_distinct:
  assumes "indexed rs s"
  shows "distinct (map sr_run_id rs)" "distinct (map sr_run_sequence rs)"
    "distinct (map sr_client_request_id rs)"
proof -
  note ok = tables_okD(1-3) [OF conjunct1 [OF assms [unfolded indexed_def]]]
  show "distinct (map sr_run_id rs)" "distinct (map sr_run_sequence rs)"
    "distinct (map sr_client_request_id rs)"
    using ok by (simp_all add: run_key_def comp_def)
qed

lemma live_enter:
  assumes "s' = enter_queue env q client digest policy payload rid n m s"
  shows "mset (live s @ [last (qs_queued s')]) = mset (live s')"
    and "qs_queued s' = qs_queued s @ [last (qs_queued s')]" and "qs_held s' = qs_held s"
    and "sr_run_sequence (last (qs_queued s')) = qs_next_sequence s"
    and "sr_payload_bytes (last (qs_queued s')) = n" "qs_terminal_acks s' = qs_terminal_acks s"
    and "qs_next_sequence s' = qs_next_sequence s + 1" "qs_queued_bytes s' = m"
    and "qs_active s' = qs_active s"
  by (simp_all add: assms enter_queue_def Let_def live_def waiting_def)

lemma enter_inv:
  assumes "indexed (live s) s" "qs_requests s client = None" "rid \<notin> qs_run_ids s"
    and "sorted (map sr_run_sequence (qs_queued s))"
    and "sorted (map (sr_run_sequence \<circ> hr_request) (qs_held s))"
    and "length (qs_terminal_acks s) \<le> rq_recent_ack_limit q0"
  shows "queue_inv (q0\<lparr>rq_state := enter_queue env q client digest policy payload rid n m s\<rparr>)"
proof -
  define s' where "s' = enter_queue env q client digest policy payload rid n m s"
  note new = live_enter [OF s'_def]
  have "\<forall>r \<in> set (qs_queued s). sr_run_sequence r < qs_next_sequence s"
    using indexed_seq_less [OF assms(1)] by (simp add: live_def waiting_def)
  then have "sorted (map sr_run_sequence (qs_queued s'))"
    using assms(4) by (subst new(2)) (auto simp: sorted_append new(4) intro: less_imp_le)
  moreover have "sorted (map (sr_run_sequence \<circ> hr_request) (qs_held s'))"
    using assms(5) by (simp only: new(3))
  moreover have "length (qs_terminal_acks s') \<le> rq_recent_ack_limit q0"
    using assms(6) by (simp only: new(6))
  ultimately show ?thesis
    unfolding s'_def [symmetric]
    by (intro queue_invI [OF enter_indexed [OF assms(1-3) s'_def] new(1)])
qed

lemma accept_inv:
  assumes "queue_inv q" "accept_run env client requested policy payload b q = Inr (ack, b', q')"
  shows "queue_inv q'"
  using assms(2)
proof (cases rule: accept_run_cases)
  case (fresh rid n m s')
  then show ?thesis
    using enter_inv [OF queue_invD(1) [OF assms(1)] fresh(1,3) queue_invD(2-4) [OF assms(1)]]
    by simp
qed (use assms(1) in simp)

lemma evict_shrinks:
  "qs_requests s c = None \<Longrightarrow> qs_requests (evict_acks l s) c = None"
  "x \<notin> qs_run_ids s \<Longrightarrow> x \<notin> qs_run_ids (evict_acks l s)"
  by (induction l s rule: evict_acks.induct; subst evict_acks.simps; simp split: list.split)+

lemma remember_all_shrinks:
  "qs_requests s c = None \<Longrightarrow> qs_requests (foldl (remember_terminal t w l) s ds) c = None"
  "x \<notin> qs_run_ids s \<Longrightarrow> x \<notin> qs_run_ids (foldl (remember_terminal t w l) s ds)"
  by (induction ds arbitrary: s) (simp_all add: remember_terminal_def evict_shrinks)

text \<open>Removing runs \<open>ds\<close> from the places they wait in and remembering them as ended.\<close>

lemma removed_indexed:
  assumes "indexed (live s) s" "mset (live s) = mset (ds @ live s1)"
    and "qs_terminal_acks s1 = qs_terminal_acks s" "qs_requests s1 = qs_requests s"
    and "qs_run_ids s1 = qs_run_ids s" "qs_next_sequence s1 = qs_next_sequence s"
  shows "indexed (live s1) (foldl (remember_terminal t w l) s1 ds)"
proof -
  have "image_mset run_ident (mset (live s)) = image_mset run_ident (mset (ds @ live s1))"
    by (simp only: assms(2))
  then have "indexed (ds @ live s1) s1"
    using assms(3-6) by (intro indexed_transfer [OF assms(1)]) simp_all
  then show ?thesis by (rule remember_all_indexed)
qed

lemma live_remember_all [simp]: "live (foldl (remember_terminal t w l) s ds) = live s"
  by (simp add: live_def waiting_def)

lemma waiting_remember_all [simp]: "waiting (foldl (remember_terminal t w l) s ds) = waiting s"
  by (simp add: waiting_def)

lemma removed_inv:
  assumes "queue_inv q" "mset (live (rq_state q)) = mset (ds @ live s1)"
    and "qs_terminal_acks s1 = qs_terminal_acks (rq_state q)"
    and "qs_requests s1 = qs_requests (rq_state q)" "qs_run_ids s1 = qs_run_ids (rq_state q)"
    and "qs_next_sequence s1 = qs_next_sequence (rq_state q)"
    and "sorted (map sr_run_sequence (qs_queued s1))"
    and "sorted (map (sr_run_sequence \<circ> hr_request) (qs_held s1))"
  shows "queue_inv (q\<lparr>rq_state := foldl (remember_terminal t w (rq_recent_ack_limit q)) s1 ds\<rparr>)"
proof -
  let ?s = "foldl (remember_terminal t w (rq_recent_ack_limit q)) s1 ds"
  have "indexed (live ?s) ?s"
    using removed_indexed [OF queue_invD(1) [OF assms(1)] assms(2-6)] by simp
  moreover have "length (qs_terminal_acks ?s) \<le> rq_recent_ack_limit q"
    using queue_invD(4) [OF assms(1)] by (intro acks_after_remember_all) (simp add: assms(3))
  ultimately show ?thesis using assms(7,8) by (simp add: queue_inv_def)
qed

lemma supersede_inv:
  assumes "queue_inv q"
    and "supersede_run env client requested payload b q = Inr (ack, cancelled, act, b', q')"
  shows "queue_inv q'"
  using assms(2)
proof (cases rule: supersede_run_cases)
  case (fresh rid n s0 s')
  let ?s = "(rq_state q)\<lparr>qs_queued := [], qs_queued_bytes := 0\<rparr>"
  have "queue_inv (q\<lparr>rq_state := s0\<rparr>)"
    unfolding fresh(10)
    by (rule removed_inv [OF assms(1)])
      (use queue_invD(3) [OF assms(1)] in \<open>simp_all add: fresh(9) live_def waiting_def split: option.split\<close>)
  note inv = queue_invD [OF this, simplified]
  have "qs_requests s0 client = None" "rid \<notin> qs_run_ids s0"
    unfolding fresh(10) using fresh(1,3) by (auto intro!: remember_all_shrinks)
  then show ?thesis
    unfolding fresh(11,14) by (intro enter_inv inv)
qed (use assms(1) in simp)

lemma start_next_Inr:
  "start_next epoch b q = Inr (request, ack, b', q') \<longleftrightarrow>
     (\<exists>rest. qs_active (rq_state q) = None \<and> qs_queued (rq_state q) = request # rest
       \<and> ack = \<lparr>ra_run_id = sr_run_id request, ra_run_epoch = epoch, ra_accepted_state = Running,
                ra_run_sequence = Some (sr_run_sequence request), ra_queue_position = None\<rparr>
       \<and> b' = release (sr_payload_bytes request) b
       \<and> q' = q\<lparr>rq_state := (rq_state q)\<lparr>qs_queued := rest,
            qs_queued_bytes := qs_queued_bytes (rq_state q) - sr_payload_bytes request,
            qs_active := Some (request, epoch)\<rparr>\<rparr>)"
  by (auto simp: start_next_def Let_def split: option.splits list.splits)

lemma start_inv:
  assumes "queue_inv q" "start_next epoch b q = Inr (request, ack, b', q')"
  shows "queue_inv q'"
proof -
  obtain rest where at: "qs_active (rq_state q) = None" "qs_queued (rq_state q) = request # rest"
    and q': "q' = q\<lparr>rq_state := (rq_state q)\<lparr>qs_queued := rest,
            qs_queued_bytes := qs_queued_bytes (rq_state q) - sr_payload_bytes request,
            qs_active := Some (request, epoch)\<rparr>\<rparr>" (is "q' = q\<lparr>rq_state := ?s\<rparr>")
    using assms(2) by (auto simp: start_next_Inr)
  note inv = queue_invD [OF assms(1)]
  have "mset (live (rq_state q)) = mset ([] @ live ?s)" by (simp add: live_def waiting_def at)
  from removed_inv [OF assms(1) this] show ?thesis
    unfolding q' using inv(2,3) by (simp add: at)
qed

lemma drain_front:
  assumes "qs_queued (rq_state q) = front # rest"
  shows "drain_coalescing_after_first b q =
    (let n = (if coalesces (sr_busy_policy front)
              then fold_count (rq_max_request_bytes q - sr_payload_bytes front) rest else 0);
         folded = take n rest;
         s1 = (rq_state q)\<lparr>qs_queued := front # drop n rest,
           qs_queued_bytes := foldl (\<lambda>n r. n - sr_payload_bytes r) (qs_queued_bytes (rq_state q)) folded\<rparr> in
     (folded, foldl (\<lambda>b r. release (sr_payload_bytes r) b) b folded,
      q\<lparr>rq_state := foldl (remember_terminal ''terminal'' ''merged'' (rq_recent_ack_limit q)) s1 folded\<rparr>))"
proof -
  have same: "q = q\<lparr>rq_state := (rq_state q)\<lparr>qs_queued := front # rest,
      qs_queued_bytes := qs_queued_bytes (rq_state q)\<rparr>\<rparr>"
    by (simp flip: assms)
  show ?thesis
  proof (cases "coalesces (sr_busy_policy front)
      \<and> fold_count (rq_max_request_bytes q - sr_payload_bytes front) rest \<noteq> 0")
    case True
    then show ?thesis
      by (simp only: drain_coalescing_after_first_def Let_def assms list.case if_True if_False
        simp_thms)
  next
    case False
    then have "drain_coalescing_after_first b q = ([], b, q)"
      by (auto simp: drain_coalescing_after_first_def assms Let_def)
    moreover have "(if coalesces (sr_busy_policy front)
        then fold_count (rq_max_request_bytes q - sr_payload_bytes front) rest else 0) = 0"
      using False by auto
    ultimately show ?thesis using same by (simp only: Let_def take_0 drop_0 foldl_Nil)
  qed
qed

lemma mset_take_drop: "mset (take n xs) + mset (drop n xs) = mset xs"
  by (metis append_take_drop_id mset_append)

lemma drain_cases:
  assumes "drain_coalescing_after_first b q = (folded, b', q')"
  obtains (quiet) "qs_queued (rq_state q) = []" "folded = []" "b' = b" "q' = q"
  | (front) front rest n s1 where "qs_queued (rq_state q) = front # rest"
      "n = (if coalesces (sr_busy_policy front)
            then fold_count (rq_max_request_bytes q - sr_payload_bytes front) rest else 0)"
      "folded = take n rest"
      "s1 = (rq_state q)\<lparr>qs_queued := front # drop n rest,
         qs_queued_bytes := foldl (\<lambda>n r. n - sr_payload_bytes r) (qs_queued_bytes (rq_state q)) (take n rest)\<rparr>"
      "b' = foldl (\<lambda>b r. release (sr_payload_bytes r) b) b (take n rest)"
      "q' = q\<lparr>rq_state :=
         foldl (remember_terminal ''terminal'' ''merged'' (rq_recent_ack_limit q)) s1 (take n rest)\<rparr>"
proof (cases "qs_queued (rq_state q)")
  case Nil
  then have "drain_coalescing_after_first b q = ([], b, q)"
    by (simp add: drain_coalescing_after_first_def)
  then have none: "folded = []" "b' = b" "q' = q" using assms by simp_all
  show thesis by (rule that(1) [OF Nil none])
next
  case (Cons front rest)
  note parts = assms [unfolded drain_front [OF Cons] Let_def prod.inject]
  show thesis
    by (rule that(2) [OF Cons refl conjunct1 [OF parts, symmetric] refl
          conjunct1 [OF conjunct2 [OF parts], symmetric]
          conjunct2 [OF conjunct2 [OF parts], symmetric]])
qed

lemma drain_inv:
  assumes "queue_inv q" "drain_coalescing_after_first b q = (folded, b', q')"
  shows "queue_inv q'"
  using assms(2)
proof (cases rule: drain_cases)
  case quiet
  then show ?thesis using assms(1) by simp
next
  case (front front rest n s1)
  have "mset (live (rq_state q)) = mset (take n rest @ live s1)"
    using mset_take_drop [of n rest] by (simp add: live_def waiting_def front(1,3,4))
  moreover have "sorted (map sr_run_sequence (qs_queued s1))"
    using queue_invD(2) [OF assms(1)] sorted_wrt_drop [of "(\<le>)" "map sr_run_sequence rest" n]
    by (auto simp: front(1,4) drop_map dest: in_set_dropD)
  ultimately show ?thesis
    unfolding front(6) using queue_invD(3) [OF assms(1)]
    by (intro removed_inv [OF assms(1)]) (simp_all add: front(4))
qed

lemma finish_active_Inr:
  "finish_active rid q = Inr q' \<longleftrightarrow>
     (\<exists>run epoch. qs_active (rq_state q) = Some (run, epoch) \<and> sr_run_id run = rid
       \<and> q' = q\<lparr>rq_state := remember_terminal ''terminal'' ''settled'' (rq_recent_ack_limit q)
                (rq_state q\<lparr>qs_active := None\<rparr>) run\<rparr>)"
  by (auto simp: finish_active_def Let_def split: option.splits if_splits)

lemma finish_inv:
  assumes "queue_inv q" "finish_active rid q = Inr q'"
  shows "queue_inv q'"
proof -
  obtain run epoch where at: "qs_active (rq_state q) = Some (run, epoch)"
    and q': "q' = q\<lparr>rq_state := foldl (remember_terminal ''terminal'' ''settled'' (rq_recent_ack_limit q))
                (rq_state q\<lparr>qs_active := None\<rparr>) [run]\<rparr>"
    using assms(2) by (auto simp: finish_active_Inr)
  show ?thesis
    unfolding q' using queue_invD(2,3) [OF assms(1)]
    by (intro removed_inv [OF assms(1)]) (simp_all add: live_def waiting_def at)
qed

lemma release_payload_inv:
  assumes "queue_inv q"
  shows "queue_inv (release_active_payload rid q)"
proof (cases "qs_active (rq_state q)")
  case None
  then show ?thesis using assms by (simp add: release_active_payload_def)
next
  case (Some a)
  obtain run epoch where a: "a = (run, epoch)" by (cases a)
  let ?s = "rq_state q\<lparr>qs_active := Some (run\<lparr>sr_payload := JNull, sr_payload_bytes := 0\<rparr>, epoch)\<rparr>"
  have "indexed (live ?s) ?s"
    by (rule indexed_transfer [OF queue_invD(1) [OF assms]])
      (simp_all add: live_def waiting_def Some a run_ident_def run_key_def)
  then have "queue_inv (q\<lparr>rq_state := ?s\<rparr>)" using queue_invD(2-4) [OF assms]
    by (simp add: queue_inv_def)
  then show ?thesis using assms Some a by (simp add: release_active_payload_def Let_def)
qed

lemma cancel_queued_cases:
  assumes "cancel_queued rid reason b q = Inr (cancelled, b', q')"
  obtains s1 where "mset (waiting (rq_state q)) = add_mset cancelled (mset (waiting s1))"
    "qs_active s1 = qs_active (rq_state q)" "sr_run_id cancelled = rid"
    "qs_terminal_acks s1 = qs_terminal_acks (rq_state q)"
    "qs_requests s1 = qs_requests (rq_state q)" "qs_run_ids s1 = qs_run_ids (rq_state q)"
    "qs_next_sequence s1 = qs_next_sequence (rq_state q)"
    "sorted (map sr_run_sequence (qs_queued (rq_state q))) \<Longrightarrow> sorted (map sr_run_sequence (qs_queued s1))"
    "sorted (map (sr_run_sequence \<circ> hr_request) (qs_held (rq_state q)))
       \<Longrightarrow> sorted (map (sr_run_sequence \<circ> hr_request) (qs_held s1))"
    "qs_queued_bytes s1 = qs_queued_bytes (rq_state q) - sr_payload_bytes cancelled"
    "b' = release (sr_payload_bytes cancelled) b"
    "q' = q\<lparr>rq_state := foldl (remember_terminal ''cancelled'' (cancel_reason_str reason)
             (rq_recent_ack_limit q)) s1 [cancelled]\<rparr>"
proof -
  let ?s = "rq_state q"
  consider (held) h rest where
      "take_first (\<lambda>h. sr_run_id (hr_request h) = rid) (qs_held ?s) = Some (h, rest)"
    | (queued) r rest where "take_first (\<lambda>h. sr_run_id (hr_request h) = rid) (qs_held ?s) = None"
      "take_first (\<lambda>r. sr_run_id r = rid) (qs_queued ?s) = Some (r, rest)"
    using assms by (auto simp: cancel_queued_def Let_def split: option.splits)
  then show thesis
  proof cases
    case held
    note found = mset_take_first [OF held]
    have "sorted (map f rest)" if "sorted (map f (qs_held ?s))" for f :: "held_run \<Rightarrow> nat"
      using sorted_remaining [OF held that] .
    then show thesis using assms held found
      by (intro that [of "?s\<lparr>qs_held := rest,
             qs_queued_bytes := qs_queued_bytes ?s - sr_payload_bytes cancelled\<rparr>"])
        (auto simp: cancel_queued_def Let_def waiting_def)
  next
    case queued
    note found = mset_take_first [OF queued(2)]
    have "sorted (map f rest)" if "sorted (map f (qs_queued ?s))" for f :: "scheduled_run \<Rightarrow> nat"
      using sorted_remaining [OF queued(2) that] .
    then show thesis using assms queued found
      by (intro that [of "?s\<lparr>qs_queued := rest,
             qs_queued_bytes := qs_queued_bytes ?s - sr_payload_bytes cancelled\<rparr>"])
        (auto simp: cancel_queued_def Let_def waiting_def)
  qed
qed

lemma cancel_inv:
  assumes "queue_inv q" "cancel_queued rid reason b q = Inr (cancelled, b', q')"
  shows "queue_inv q'"
  using assms(2)
proof (cases rule: cancel_queued_cases)
  case (1 s1)
  have "mset (live (rq_state q)) = mset ([cancelled] @ live s1)"
    using 1(1,2) by (simp add: live_def)
  then show ?thesis
    unfolding 1(12) using queue_invD(2,3) [OF assms(1)] 1(4-9)
    by (intro removed_inv [OF assms(1)]) simp_all
qed

lemma cancel_all_inv:
  assumes "queue_inv q" "cancel_all_queued reason b q = (cancelled, b', q')"
  shows "queue_inv q'"
proof -
  have q': "q' = q\<lparr>rq_state := foldl (remember_terminal ''cancelled'' (cancel_reason_str reason)
      (rq_recent_ack_limit q)) (rq_state q\<lparr>qs_queued := [], qs_held := [], qs_queued_bytes := 0\<rparr>)
      cancelled\<rparr>" and "cancelled = sort_key sr_run_sequence (waiting (rq_state q))"
    using assms(2) by (auto simp: cancel_all_queued_def Let_def waiting_def)
  then show ?thesis
    unfolding q' by (intro removed_inv [OF assms(1)]) (simp_all add: live_def waiting_def)
qed

lemma park_moves:
  assumes "park_stale env boundary q = (parked, q')"
  shows "mset (waiting (rq_state q')) = mset (waiting (rq_state q))"
    and "q' = q\<lparr>rq_state := (rq_state q)\<lparr>qs_queued := qs_queued (rq_state q'),
                 qs_held := qs_held (rq_state q')\<rparr>\<rparr>"
    and "sorted (map sr_run_sequence (qs_queued (rq_state q)))
         \<Longrightarrow> sorted (map sr_run_sequence (qs_queued (rq_state q')))"
    and "sorted (map (sr_run_sequence \<circ> hr_request) (qs_held (rq_state q')))"
proof -
  let ?v = "park_verdict env boundary q"
  let ?fresh = "List.map_filter (\<lambda>r. map_option (\<lambda>reason. \<lparr>hr_request = r, hr_reason = reason\<rparr>) (?v r))
    (qs_queued (rq_state q))"
  have q': "q' = q\<lparr>rq_state := (rq_state q)
       \<lparr>qs_queued := filter (\<lambda>r. ?v r = None) (qs_queued (rq_state q)),
        qs_held := sort_key (\<lambda>h. sr_run_sequence (hr_request h)) (qs_held (rq_state q) @ ?fresh)\<rparr>\<rparr>"
    using assms by (simp add: park_stale_eq)
  have "image_mset hr_request (mset ?fresh) = mset (filter (\<lambda>r. ?v r \<noteq> None) (qs_queued (rq_state q)))"
    using map_request_filter [of ?v "qs_queued (rq_state q)"] by (metis mset_map)
  moreover have "mset (filter (\<lambda>r. ?v r = None) rs) + mset (filter (\<lambda>r. ?v r \<noteq> None) rs) = mset rs" for rs
    by (induction rs) auto
  ultimately show "mset (waiting (rq_state q')) = mset (waiting (rq_state q))"
    by (simp add: q' waiting_def)
  show "q' = q\<lparr>rq_state := (rq_state q)\<lparr>qs_queued := qs_queued (rq_state q'),
                 qs_held := qs_held (rq_state q')\<rparr>\<rparr>" by (simp add: q')
  show "sorted (map (sr_run_sequence \<circ> hr_request) (qs_held (rq_state q')))"
    using sorted_sort_key [of "\<lambda>h. sr_run_sequence (hr_request h)"] by (simp add: q' comp_def)
  assume "sorted (map sr_run_sequence (qs_queued (rq_state q)))"
  then show "sorted (map sr_run_sequence (qs_queued (rq_state q')))"
    by (simp add: q' sorted_filter)
qed


lemma park_inv:
  assumes "queue_inv q" "park_stale env boundary q = (parked, q')"
  shows "queue_inv q'"
proof -
  note moves = park_moves [OF assms(2)]
  define s' where "s' = rq_state q'"
  have s': "s' = (rq_state q)\<lparr>qs_queued := qs_queued s', qs_held := qs_held s'\<rparr>"
    using moves(2) unfolding s'_def by (metis run_queue.select_convs(7) run_queue.surjective
      run_queue.update_convs(7))
  have q': "q' = q\<lparr>rq_state := foldl (remember_terminal [] [] (rq_recent_ack_limit q)) s' []\<rparr>"
    using moves(2) s' by (simp add: s'_def)
  have frame: "qs_active s' = qs_active (rq_state q)"
    "qs_terminal_acks s' = qs_terminal_acks (rq_state q)"
    "qs_requests s' = qs_requests (rq_state q)" "qs_run_ids s' = qs_run_ids (rq_state q)"
    "qs_next_sequence s' = qs_next_sequence (rq_state q)"
    by (subst s', simp)+
  have "mset (live (rq_state q)) = mset ([] @ live s')"
    using moves(1) frame(1) by (simp add: live_def s'_def)
  moreover have "sorted (map sr_run_sequence (qs_queued s'))"
    "sorted (map (sr_run_sequence \<circ> hr_request) (qs_held s'))"
    using moves(3,4) queue_invD(2) [OF assms(1)] by (simp_all add: s'_def)
  ultimately show ?thesis
    by (subst q') (intro removed_inv [OF assms(1)] frame)
qed

lemma release_held_cases:
  assumes "release_held env rid q = Inr (request, q')"
  obtains h rest where "take_first (\<lambda>h. sr_run_id (hr_request h) = rid) (qs_held (rq_state q)) = Some (h, rest)"
    "request = (hr_request h)\<lparr>sr_accepted_at := qe_now env\<rparr>"
    "q' = q\<lparr>rq_state := rq_state q\<lparr>qs_held := rest,
             qs_queued := insert_in_order request (qs_queued (rq_state q))\<rparr>\<rparr>"
  using assms by (auto simp: release_held_def Let_def split: option.splits)

lemma release_inv:
  assumes "queue_inv q" "release_held env rid q = Inr (request, q')"
  shows "queue_inv q'"
  using assms(2)
proof (cases rule: release_held_cases)
  case (1 h rest)
  let ?s = "rq_state q\<lparr>qs_held := rest, qs_queued := insert_in_order request (qs_queued (rq_state q))\<rparr>"
  have "image_mset run_ident (mset (live (rq_state q))) = image_mset run_ident (mset (live ?s))"
    using mset_take_first(1) [OF 1(1)]
    by (simp add: live_def waiting_def mset_insert_in_order 1(2) run_ident_def run_key_def)
  then have "indexed (live ?s) ?s"
    by (intro indexed_transfer [OF queue_invD(1) [OF assms(1)]]) simp_all
  moreover have "sorted (map (sr_run_sequence \<circ> hr_request) rest)"
    using sorted_remaining [OF 1(1) queue_invD(3) [OF assms(1)]] .
  ultimately show ?thesis
    using insert_in_order_sorted [OF queue_invD(2) [OF assms(1)]] queue_invD(4) [OF assms(1)]
    by (simp add: queue_inv_def 1(3))
qed

end
