(* ===== verification/Run_Control.thy ===== *)
theory Run_Control
  imports Prelude
begin

text \<open>
  The execution ownership of one agent session (\<open>agent/src/runtime/run_state.rs\<close>,
  \<open>session_runtime.rs\<close>): the lifecycle of the active run and its lease, cooperative
  cancellation and its timer, the task slot with its completion monitor.

  \<open>run_control\<close> is \<open>RunControl\<close> with the state behind its lock and its atomics; the two
  interruption targets of a run (a channel and a flag) are numbers, and what was sent and raised
  is kept in the state. \<open>session_runtime\<close> is \<open>SessionRuntime\<close>; each of its operations is one
  step, except that the cancellation timer and the completion monitor read the control state and
  act on it in two steps, because they release the control lock in between (the monitor keeps the
  task lock, so the operations that take that lock wait). Proved in \<open>Run_Ownership\<close>: a lease that is not the active
  one changes nothing, a user's stop is never reclassified, a run past its cancellation point
  never returns to it, no two runs own the session at once, and the slot is never left with an
  orphan; and the window of the timer in which it overwrites a run that is already finalizing.
\<close>

section \<open>The state\<close>

datatype run_phase =
  Starting | Running | Cancelling | CancellationStuck | PersistenceDegraded | Finalizing

fun run_phase_str :: "run_phase \<Rightarrow> string" where
  "run_phase_str Starting = ''starting''"
| "run_phase_str Running = ''running''"
| "run_phase_str Cancelling = ''cancelling''"
| "run_phase_str CancellationStuck = ''cancellation_stuck''"
| "run_phase_str PersistenceDegraded = ''persistence_degraded''"
| "run_phase_str Finalizing = ''finalizing''"

record run_lease =
  le_run_id :: string
  le_epoch :: u64
  le_run_sequence :: "u64 option"

record run_snapshot =
  sn_run_id :: string
  sn_epoch :: u64
  sn_run_sequence :: "u64 option"
  sn_phase :: run_phase

datatype cancellation_cause = User | SystemShutdown

record active_run =
  ar_lease :: run_lease
  ar_client_request_id :: string
  ar_phase :: run_phase
  ar_interrupt_tx :: "nat option"
  ar_interrupt_flag :: "nat option"
  ar_cancellation :: "cancellation_cause option"

record run_control =
  rc_epoch :: u64
  rc_active :: "active_run option"
  rc_recent_requests :: "(string \<times> run_lease) list"
  rc_is_streaming :: bool
  rc_active_tasks :: usize
  rc_stale_epoch_drops :: u64
  rc_persistence_degraded :: u64
  rc_sent :: "nat list"
  rc_raised :: "nat set"

definition new_control :: run_control where
  "new_control = \<lparr>rc_epoch = 0, rc_active = None, rc_recent_requests = [], rc_is_streaming = False,
     rc_active_tasks = 0, rc_stale_epoch_drops = 0, rc_persistence_degraded = 0,
     rc_sent = [], rc_raised = {}\<rparr>"

text \<open>\<open>wrapping_add(1)\<close>, and the wrapping \<open>fetch_sub(1)\<close> of the atomics.\<close>

definition wrapping_succ :: "u64 \<Rightarrow> u64" where
  "wrapping_succ n = (n + 1) mod 2 ^ 64"

definition wrapping_pred :: "u64 \<Rightarrow> u64" where
  "wrapping_pred n = (n + (2 ^ 64 - 1)) mod 2 ^ 64"

section \<open>Beginning a run\<close>

definition already_accepted :: "run_control \<Rightarrow> string \<Rightarrow> bool" where
  "already_accepted c client \<longleftrightarrow> client \<noteq> []
     \<and> ((case rc_active c of
           None \<Rightarrow> False
         | Some a \<Rightarrow> ar_client_request_id a = client \<and> ar_phase a \<noteq> CancellationStuck)
        \<or> list_ex (\<lambda>(request_id, _). request_id = client) (rc_recent_requests c))"

text \<open>\<open>generated\<close> is what \<open>generate_id\<close> returns.\<close>

definition begin_with_sequence ::
    "string \<Rightarrow> string option \<Rightarrow> string option \<Rightarrow> u64 option \<Rightarrow> run_control
     \<Rightarrow> string + (run_lease \<times> run_control)" where
  "begin_with_sequence generated requested client_request_id sequence c =
     (let client = (case client_request_id of None \<Rightarrow> [] | Some r \<Rightarrow> r) in
      if already_accepted c client
      then Inl (''client request `'' @ client @ ''` was already accepted'')
      else
        let healed = (case rc_active c of
              Some a \<Rightarrow>
                if ar_phase a = CancellationStuck
                then Inr (c\<lparr>rc_active := None, rc_is_streaming := False,
                            rc_active_tasks := wrapping_pred (rc_active_tasks c)\<rparr>)
                else Inl (''agent run '' @ le_run_id (ar_lease a) @ '' is ''
                          @ run_phase_str (ar_phase a)
                          @ ''; wait for it to finish before starting another run'')
            | None \<Rightarrow> Inr c) in
        case healed of
          Inl e \<Rightarrow> Inl e
        | Inr c \<Rightarrow>
            let epoch = max (wrapping_succ (rc_epoch c)) 1;
                lease = \<lparr>le_run_id = (case requested of
                             Some r \<Rightarrow> if r \<noteq> [] then r else generated | None \<Rightarrow> generated),
                         le_epoch = epoch, le_run_sequence = sequence\<rparr> in
            Inr (lease,
              c\<lparr>rc_epoch := epoch,
                rc_active := Some \<lparr>ar_lease = lease, ar_client_request_id = client,
                  ar_phase = Starting, ar_interrupt_tx = None, ar_interrupt_flag = None,
                  ar_cancellation = None\<rparr>,
                rc_is_streaming := True,
                rc_active_tasks := wrapping_succ (rc_active_tasks c)\<rparr>))"

section \<open>Operations under a lease\<close>

definition stale :: "run_control \<Rightarrow> bool \<times> run_control" where
  "stale c = (False, c\<lparr>rc_stale_epoch_drops := wrapping_succ (rc_stale_epoch_drops c)\<rparr>)"

definition install_cancellation ::
    "run_lease \<Rightarrow> nat \<Rightarrow> nat \<Rightarrow> run_control \<Rightarrow> bool \<times> run_control" where
  "install_cancellation lease tx flag c =
     (case rc_active c of
        None \<Rightarrow> stale c
      | Some a \<Rightarrow>
          if ar_lease a \<noteq> lease then stale c
          else
            let pending = ar_phase a = Cancelling \<or> ar_phase a = CancellationStuck;
                c1 = (if pending
                      then c\<lparr>rc_raised := insert flag (rc_raised c), rc_sent := rc_sent c @ [tx]\<rparr>
                      else c) in
            (True, c1\<lparr>rc_active := Some (a\<lparr>ar_interrupt_tx := Some tx, ar_interrupt_flag := Some flag,
                        ar_phase := (if ar_phase a = Starting then Running else ar_phase a)\<rparr>)\<rparr>))"

fun abortable :: "run_phase \<Rightarrow> bool" where
  "abortable Starting = True"
| "abortable Running = True"
| "abortable Cancelling = True"
| "abortable _ = False"

definition nonempty :: "string option \<Rightarrow> string option" where
  "nonempty value = (case value of Some v \<Rightarrow> if v \<noteq> [] then Some v else None | None \<Rightarrow> None)"

definition validate_run_id :: "string \<Rightarrow> string option \<Rightarrow> string + unit" where
  "validate_run_id active_run_id expected_run_id =
     (case nonempty expected_run_id of
        Some expected \<Rightarrow>
          if expected \<noteq> active_run_id
          then Inl (''run `'' @ expected @ ''` is no longer active; current run is `''
                    @ active_run_id @ ''`'')
          else Inr ()
      | None \<Rightarrow> Inr ())"

definition snapshot_of :: "active_run \<Rightarrow> run_snapshot" where
  "snapshot_of a = \<lparr>sn_run_id = le_run_id (ar_lease a), sn_epoch = le_epoch (ar_lease a),
     sn_run_sequence = le_run_sequence (ar_lease a), sn_phase = ar_phase a\<rparr>"

definition snapshot :: "run_control \<Rightarrow> run_snapshot option" where
  "snapshot c = map_option snapshot_of (rc_active c)"

definition cancel_expected ::
    "string option \<Rightarrow> bool \<Rightarrow> run_control \<Rightarrow> string + (run_snapshot option \<times> run_control)" where
  "cancel_expected expected system_interruption c =
     (case rc_active c of
        None \<Rightarrow>
          (case nonempty expected of
             Some e \<Rightarrow> Inl (''run `'' @ e @ ''` is no longer active'')
           | None \<Rightarrow> Inr (None, c))
      | Some a \<Rightarrow>
          (case validate_run_id (le_run_id (ar_lease a)) expected of
             Inl e \<Rightarrow> Inl e
           | Inr _ \<Rightarrow>
               if \<not> abortable (ar_phase a) then Inr (None, c)
               else
                 let a' = a\<lparr>ar_cancellation := Some (
                            if system_interruption \<and> ar_cancellation a \<noteq> Some User
                            then SystemShutdown else User),
                          ar_phase := Cancelling\<rparr> in
                 Inr (Some (snapshot_of a'),
                   c\<lparr>rc_active := Some a',
                     rc_sent := rc_sent c @ (case ar_interrupt_tx a of None \<Rightarrow> [] | Some t \<Rightarrow> [t]),
                     rc_raised := rc_raised c \<union> set_option (ar_interrupt_flag a)\<rparr>)))"

definition abort_expected ::
    "string option \<Rightarrow> run_control \<Rightarrow> string + (run_snapshot option \<times> run_control)" where
  "abort_expected expected c = cancel_expected expected False c"

definition control_interrupt_for_shutdown ::
    "run_control \<Rightarrow> string + (run_snapshot option \<times> run_control)" where
  "control_interrupt_for_shutdown c = cancel_expected None True c"

definition cancellation_kind :: "run_lease \<Rightarrow> run_control \<Rightarrow> cancellation_cause option" where
  "cancellation_kind lease c =
     (case rc_active c of
        None \<Rightarrow> None
      | Some a \<Rightarrow> if ar_lease a = lease then ar_cancellation a else None)"

definition begin_finalizing :: "run_lease \<Rightarrow> run_control \<Rightarrow> bool \<times> run_control" where
  "begin_finalizing lease c =
     (case rc_active c of
        None \<Rightarrow> stale c
      | Some a \<Rightarrow>
          if ar_lease a \<noteq> lease then stale c
          else (True, c\<lparr>rc_active := Some (a\<lparr>ar_phase := Finalizing\<rparr>)\<rparr>))"

definition mark_stuck :: "run_lease \<Rightarrow> run_control \<Rightarrow> bool \<times> run_control" where
  "mark_stuck lease c =
     (case rc_active c of
        None \<Rightarrow> (False, c)
      | Some a \<Rightarrow>
          if ar_lease a \<noteq> lease then (False, c)
          else (True, c\<lparr>rc_active := Some (a\<lparr>ar_phase := CancellationStuck\<rparr>)\<rparr>))"

definition mark_persistence_degraded :: "run_lease \<Rightarrow> run_control \<Rightarrow> bool \<times> run_control" where
  "mark_persistence_degraded lease c =
     (case rc_active c of
        None \<Rightarrow> (False, c)
      | Some a \<Rightarrow>
          if ar_lease a \<noteq> lease then (False, c)
          else if ar_phase a = PersistenceDegraded then (True, c)
          else (True, c\<lparr>rc_active := Some (a\<lparr>ar_phase := PersistenceDegraded\<rparr>),
                 rc_persistence_degraded := wrapping_succ (rc_persistence_degraded c)\<rparr>))"

definition finish :: "run_lease \<Rightarrow> run_control \<Rightarrow> bool \<times> run_control" where
  "finish lease c =
     (case rc_active c of
        None \<Rightarrow> stale c
      | Some a \<Rightarrow>
          if ar_lease a \<noteq> lease then stale c
          else (True, c\<lparr>rc_active := None,
                 rc_recent_requests :=
                   (if ar_client_request_id a = [] then rc_recent_requests c
                    else keep_last 64
                      (rc_recent_requests c @ [(ar_client_request_id a, ar_lease a)])),
                 rc_is_streaming := False,
                 rc_active_tasks := wrapping_pred (rc_active_tasks c)\<rparr>))"

definition recover_degraded :: "run_lease \<Rightarrow> run_control \<Rightarrow> bool \<times> run_control" where
  "recover_degraded lease c =
     (case rc_active c of
        None \<Rightarrow> (False, c)
      | Some a \<Rightarrow>
          if ar_lease a \<noteq> lease \<or> ar_phase a \<noteq> PersistenceDegraded then (False, c)
          else finish lease (c\<lparr>rc_active := Some (a\<lparr>ar_phase := Finalizing\<rparr>)\<rparr>))"

definition is_terminal_unrecoverable :: "run_control \<Rightarrow> bool" where
  "is_terminal_unrecoverable c =
     (case rc_active c of
        None \<Rightarrow> False
      | Some a \<Rightarrow> ar_phase a = CancellationStuck \<or> ar_phase a = PersistenceDegraded)"

definition request_lease :: "string \<Rightarrow> run_control \<Rightarrow> run_lease option" where
  "request_lease client c =
     (if client = [] then None
      else let recent = map_option snd (find (\<lambda>(request_id, _). request_id = client)
                          (rc_recent_requests c)) in
        case rc_active c of
          Some a \<Rightarrow> if ar_client_request_id a = client then Some (ar_lease a) else recent
        | None \<Rightarrow> recent)"

section \<open>The session runtime\<close>

text \<open>What the completion monitor decided, with the lease it decided for.\<close>

datatype monitor_plan = Finish | Stick | Leave

record session_runtime =
  rt_control :: run_control
  rt_task :: "run_lease option"
  rt_timer :: "run_lease option"
  rt_due_timers :: "run_lease list"
  rt_monitor :: "monitor_plan option"
  rt_completions :: "run_lease list"

definition new_runtime :: session_runtime where
  "new_runtime = \<lparr>rt_control = new_control, rt_task = None, rt_timer = None, rt_due_timers = [],
     rt_monitor = None, rt_completions = []\<rparr>"

definition runtime_begin ::
    "string \<Rightarrow> string option \<Rightarrow> string option \<Rightarrow> u64 option \<Rightarrow> session_runtime
     \<Rightarrow> string + (run_lease \<times> session_runtime)" where
  "runtime_begin generated requested client sequence t =
     (case rt_task t of
        Some lease \<Rightarrow> Inl (''runtime task '' @ le_run_id lease @ '' at epoch '' @ dec (le_epoch lease)
                           @ '' has not exited'')
      | None \<Rightarrow>
          (case begin_with_sequence generated requested client sequence (rt_control t) of
             Inl e \<Rightarrow> Inl e
           | Inr (lease, c) \<Rightarrow> Inr (lease, t\<lparr>rt_control := c\<rparr>)))"

text \<open>A cancellation arms the acknowledgement timer, aborting the one armed before.\<close>

definition request_cancellation ::
    "string option \<Rightarrow> bool \<Rightarrow> session_runtime \<Rightarrow> string + session_runtime" where
  "request_cancellation expected system_interruption t =
     (case (if system_interruption then control_interrupt_for_shutdown (rt_control t)
            else abort_expected expected (rt_control t)) of
        Inl e \<Rightarrow> Inl e
      | Inr (None, c) \<Rightarrow> Inr (t\<lparr>rt_control := c\<rparr>)
      | Inr (Some s, c) \<Rightarrow>
          Inr (t\<lparr>rt_control := c,
                 rt_timer := Some \<lparr>le_run_id = sn_run_id s, le_epoch = sn_epoch s,
                                   le_run_sequence = sn_run_sequence s\<rparr>\<rparr>))"

definition stop_cancellation_timer :: "session_runtime \<Rightarrow> session_runtime" where
  "stop_cancellation_timer t = t\<lparr>rt_timer := None\<rparr>"

definition holds_lease :: "run_lease \<Rightarrow> run_snapshot \<Rightarrow> bool" where
  "holds_lease lease s \<longleftrightarrow> sn_run_id s = le_run_id lease \<and> sn_epoch s = le_epoch lease"

text \<open>The 30 seconds are over: the timer looks at the control state and, when its run is still
  cancelling, goes on to mark it (\<open>rt_due_timers\<close>).\<close>

definition timer_check :: "session_runtime \<Rightarrow> session_runtime" where
  "timer_check t =
     (case rt_timer t of
        None \<Rightarrow> t
      | Some lease \<Rightarrow>
          (case snapshot (rt_control t) of
             Some s \<Rightarrow>
               if holds_lease lease s \<and> sn_phase s = Cancelling
               then t\<lparr>rt_timer := None, rt_due_timers := rt_due_timers t @ [lease]\<rparr>
               else t\<lparr>rt_timer := None\<rparr>
           | None \<Rightarrow> t\<lparr>rt_timer := None\<rparr>))"

definition timer_mark :: "session_runtime \<Rightarrow> session_runtime" where
  "timer_mark t =
     (case rt_due_timers t of
        [] \<Rightarrow> t
      | lease # rest \<Rightarrow>
          t\<lparr>rt_due_timers := rest, rt_control := snd (mark_stuck lease (rt_control t))\<rparr>)"

definition runtime_finish :: "run_lease \<Rightarrow> session_runtime \<Rightarrow> bool \<times> session_runtime" where
  "runtime_finish lease t =
     (if rt_task t \<noteq> None then (False, t)
      else let (ok, c) = finish lease (rt_control t) in (ok, t\<lparr>rt_control := c\<rparr>))"

definition recover_persistence_degraded :: "run_lease \<Rightarrow> session_runtime \<Rightarrow> bool \<times> session_runtime" where
  "recover_persistence_degraded lease t =
     (if rt_task t \<noteq> None then (False, t)
      else let (recovered, c) = recover_degraded lease (rt_control t) in
        (recovered, t\<lparr>rt_control := c,
           rt_completions := rt_completions t @ (if recovered then [lease] else [])\<rparr>))"

definition finish_cancelled_fault :: "run_lease \<Rightarrow> session_runtime \<Rightarrow> bool \<times> session_runtime" where
  "finish_cancelled_fault lease t =
     (if rt_task t \<noteq> None
         \<or> \<not> (case snapshot (rt_control t) of
                Some s \<Rightarrow> holds_lease lease s
                  \<and> (sn_phase s = CancellationStuck \<or> sn_phase s = PersistenceDegraded)
              | None \<Rightarrow> False)
      then (False, t)
      else
        let (finished, c) = finish lease (rt_control t);
            t1 = t\<lparr>rt_control := c\<rparr> in
        if finished
        then (True, (stop_cancellation_timer t1)\<lparr>rt_completions := rt_completions t1 @ [lease]\<rparr>)
        else (False, t1))"

definition spawn_task :: "run_lease \<Rightarrow> session_runtime \<Rightarrow> string + session_runtime" where
  "spawn_task lease t =
     (case rt_task t of
        Some owned \<Rightarrow> Inl (''runtime already owns task '' @ le_run_id owned @ '' at epoch ''
                           @ dec (le_epoch owned))
      | None \<Rightarrow> Inr (t\<lparr>rt_task := Some lease\<rparr>))"

text \<open>The run's task has ended (\<open>failed\<close>: it panicked or was aborted). The monitor takes the task
  lock and decides; then it acts, clears the slot and reports a completed run.\<close>

definition monitor_check :: "bool \<Rightarrow> session_runtime \<Rightarrow> session_runtime" where
  "monitor_check failed t =
     (case rt_task t of
        None \<Rightarrow> t
      | Some lease \<Rightarrow> t\<lparr>rt_monitor := Some
          (if failed then Stick
           else case snapshot (rt_control t) of
               None \<Rightarrow> Leave
             | Some s \<Rightarrow>
                 if \<not> holds_lease lease s then Leave
                 else if sn_phase s = Finalizing then Finish
                 else if sn_phase s = CancellationStuck \<or> sn_phase s = PersistenceDegraded then Leave
                 else Stick)\<rparr>)"

definition monitor_act :: "session_runtime \<Rightarrow> session_runtime" where
  "monitor_act t =
     (case (rt_task t, rt_monitor t) of
        (Some lease, Some plan) \<Rightarrow>
          let (completed, c) = (case plan of
                Finish \<Rightarrow> finish lease (rt_control t)
              | Stick \<Rightarrow> (False, snd (mark_stuck lease (rt_control t)))
              | Leave \<Rightarrow> (False, rt_control t)) in
          t\<lparr>rt_control := c, rt_task := None, rt_monitor := None,
            rt_completions := rt_completions t @ (if completed then [lease] else [])\<rparr>
      | _ \<Rightarrow> t)"

end
