(* ===== verification/Session_Queue.thy ===== *)
theory Session_Queue
  imports Run_Queue Run_Control
begin

text \<open>
  How an agent session drives its prompt queue and its runtime (\<open>agent/src/rpc/session.rs\<close>,
  \<open>session_prompt.rs\<close>): accepting a prompt, starting the next one at a boundary with the folding
  of what waits behind it, the wake-up after a run, releasing and cancelling.

  \<open>agent_session\<close> holds the queue with its share of the budget, the runtime and the execution
  settings frozen for every accepted run. What one call finds outside is a \<open>session_gate\<close>: the
  environment of the queue, whether the service admits work, the persistence error, what the
  receipt store answers, how a payload reads, whether the parts of a start around the lifecycle
  calls succeed (settings, workspace and history before it, persisting the message after it), and
  what the checks of a Fusion run find (its source, context window, workspace, settings and store),
  with the run's interrupt channel and flag. \<open>as_handled\<close> counts the completions the wake-up worker has received. What is proved of it
  is in \<open>Session_Runs\<close>.
\<close>

section \<open>Payloads\<close>

record run_settings =
  rs_settings_schema_version :: u32
  rs_fusion_enabled :: bool
  rs_model :: string
  rs_thinking_level :: string
  rs_cwd :: string
  rs_auto_compaction :: bool
  rs_auto_retry :: bool
  rs_no_context_files :: bool
  rs_permission_level :: string
  rs_sandbox_tier :: "string option"

record prompt_payload =
  pp_message :: string
  pp_model_context :: string
  pp_images :: "json list"
  pp_attachments :: "json list"
  pp_settings :: run_settings

definition blank_line :: string where
  "blank_line = newline @ newline"

definition push_paragraph :: "string \<Rightarrow> string \<Rightarrow> string" where
  "push_paragraph message trailing =
     (if message \<noteq> [] \<and> trailing \<noteq> [] then message @ blank_line @ trailing
      else message @ trailing)"

definition merge_payload :: "prompt_payload \<Rightarrow> prompt_payload \<Rightarrow> prompt_payload" where
  "merge_payload payload trailing =
     \<lparr>pp_message = push_paragraph (pp_message payload) (pp_message trailing),
      pp_model_context = push_paragraph (pp_model_context payload) (pp_model_context trailing),
      pp_images = pp_images payload @ pp_images trailing,
      pp_attachments = pp_attachments payload @ pp_attachments trailing,
      pp_settings = (pp_settings payload)\<lparr>rs_fusion_enabled :=
        rs_fusion_enabled (pp_settings payload) \<or> rs_fusion_enabled (pp_settings trailing)\<rparr>\<rparr>"

fun merge_all :: "(json \<Rightarrow> prompt_payload option) \<Rightarrow> prompt_payload \<Rightarrow> scheduled_run list \<Rightarrow> prompt_payload option" where
  "merge_all decode payload [] = Some payload"
| "merge_all decode payload (r # rs) =
     (case decode (sr_payload r) of
        None \<Rightarrow> None
      | Some trailing \<Rightarrow> merge_all decode (merge_payload payload trailing) rs)"

section \<open>The session\<close>

datatype session_error = QueueError run_queue_error | StartFailed string

text \<open>What \<open>inner_execution\<close> says of the source of an inner session of a Fusion.\<close>

record inner_execution =
  ie_context_window :: nat
  ie_root :: string
  ie_idle_timeout :: bool

record session_gate =
  sg_env :: queue_env
  sg_precheck :: "session_error + run_ack option"
  sg_admits :: bool
  sg_closed :: bool
  sg_persistence_error :: "string option"
  sg_settles :: bool
  sg_records :: bool
  sg_cancels :: "string \<Rightarrow> bool"
  sg_decode :: "json \<Rightarrow> prompt_payload option"
  sg_prepares :: bool
  sg_generated :: string
  sg_persists :: bool
  sg_inner :: "string + inner_execution option"
  sg_live_window :: "string \<Rightarrow> nat"
  sg_canonical :: "string \<Rightarrow> string + string"
  sg_without_deadline :: "string + unit"
  sg_fusion_settings :: "string + bool"
  sg_fusion_available :: bool
  sg_storage_identity :: "string + unit"
  sg_fusion_store :: "string + unit"
  sg_channel :: nat
  sg_flag :: nat

text \<open>The message a run starts with: the prompt it answers, under the identity of the run, with
  the queued runs whose prompts were folded into it.\<close>

record user_message =
  um_run_id :: string
  um_coalesced_run_ids :: "string list"
  um_payload :: prompt_payload

record agent_session =
  as_budget :: queue_budget
  as_queue :: run_queue
  as_runtime :: session_runtime
  as_snapshots :: "string \<rightharpoonup> run_settings"
  as_messages :: "user_message list"
  as_ephemeral :: bool
  as_created_by :: string
  as_handled :: nat

abbreviation session_active :: "agent_session \<Rightarrow> (scheduled_run \<times> u64) option" where
  "session_active s \<equiv> qs_active (rq_state (as_queue s))"

abbreviation session_queued :: "agent_session \<Rightarrow> scheduled_run list" where
  "session_queued s \<equiv> qs_queued (rq_state (as_queue s))"

text \<open>The settings of the last run of a list that has some, taken out of the table; \<open>front\<close> is
  what was found for the runs before.\<close>

fun take_snapshots ::
    "(string \<rightharpoonup> run_settings) \<Rightarrow> run_settings option \<Rightarrow> scheduled_run list
     \<Rightarrow> run_settings option \<times> (string \<rightharpoonup> run_settings)" where
  "take_snapshots table found [] = (found, table)"
| "take_snapshots table found (r # rs) =
     take_snapshots (table(sr_run_id r := None))
       (case table (sr_run_id r) of Some settings \<Rightarrow> Some settings | None \<Rightarrow> found) rs"

definition drop_failed_finish :: "string \<Rightarrow> run_queue \<Rightarrow> run_queue" where
  "drop_failed_finish rid q = (case finish_active rid q of Inl e \<Rightarrow> q | Inr q' \<Rightarrow> q')"

definition drop_failed_cancel ::
    "string \<Rightarrow> queue_budget \<Rightarrow> run_queue \<Rightarrow> queue_budget \<times> run_queue" where
  "drop_failed_cancel rid b q =
     (case cancel_queued rid Cancelled b q of Inl e \<Rightarrow> (b, q) | Inr (r, b', q') \<Rightarrow> (b', q'))"

definition abandon_lease :: "run_lease \<Rightarrow> session_runtime \<Rightarrow> session_runtime" where
  "abandon_lease lease t =
     snd (runtime_finish lease (t\<lparr>rt_control := snd (begin_finalizing lease (rt_control t))\<rparr>))"

text \<open>The context of a Fusion, set up once the run has begun and its message is persisted.\<close>

definition inner_scope :: "session_gate \<Rightarrow> run_settings \<Rightarrow> string + unit" where
  "inner_scope g settings =
     and_then (sg_inner g) (\<lambda>source.
       case source of
         None \<Rightarrow> Inl ''Fusion session is missing its immutable source''
       | Some execution \<Rightarrow>
           let live_window = sg_live_window g (rs_model settings) in
           if \<not> (live_window > 0 \<and> ie_context_window execution > 0 \<and> ie_context_window execution \<le> live_window)
           then Inl ''Fusion context capacity changed or is unknown; request was not sent''
           else
             and_then (sg_canonical g (ie_root execution)) (\<lambda>root.
             and_then (sg_canonical g (rs_cwd settings)) (\<lambda>cwd.
               if root \<noteq> cwd then Inl ''Fusion session workspace differs from snapshot''
               else if ie_idle_timeout execution then sg_without_deadline g else Inr ())))"

definition parent_scope :: "session_gate \<Rightarrow> string + unit" where
  "parent_scope g =
     and_then (sg_fusion_settings g) (\<lambda>enabled.
       if \<not> enabled then Inl ''Fusion is disabled in settings''
       else if \<not> sg_fusion_available g then Inl ''Fusion host is unavailable''
       else and_then (sg_storage_identity g) (\<lambda>_. sg_fusion_store g))"

definition fusion_scope :: "session_gate \<Rightarrow> string \<Rightarrow> run_settings \<Rightarrow> string + unit" where
  "fusion_scope g created_by settings =
     (if created_by = ''fusion'' then inner_scope g settings
      else if rs_fusion_enabled settings then parent_scope g else Inr ())"

text \<open>The lifecycle part of \<open>prompt_internal\<close> for a scheduled run. The errors of \<open>fusion_scope\<close> return
  with \<open>?\<close>: nothing gives the lease of the run back.\<close>

definition prompt_scheduled ::
    "session_gate \<Rightarrow> prompt_payload \<Rightarrow> string list \<Rightarrow> scheduled_run \<Rightarrow> agent_session
     \<Rightarrow> (session_error + run_lease) \<times> agent_session" where
  "prompt_scheduled g payload coalesced request s =
     (if \<not> sg_prepares g then (Inl (StartFailed ''run could not be prepared''), s)
      else case runtime_begin (sg_generated g) (Some (sr_run_id request))
             (Some (sr_client_request_id request)) (Some (sr_run_sequence request)) (as_runtime s) of
        Inl e \<Rightarrow> (Inl (StartFailed e), s)
      | Inr (lease, t) \<Rightarrow>
          (case start_next (le_epoch lease) (as_budget s) (as_queue s) of
             Inl e \<Rightarrow> (Inl (QueueError e), s\<lparr>as_runtime := abandon_lease lease t\<rparr>)
           | Inr (started, ack, b, q) \<Rightarrow>
               if sr_run_id started \<noteq> sr_run_id request
               then (Inl (StartFailed (''scheduler FIFO mismatch: expected '' @ sr_run_id request
                          @ '', started '' @ sr_run_id started)),
                     s\<lparr>as_runtime := abandon_lease lease t, as_budget := b, as_queue := q\<rparr>)
               else
                 let q1 = release_active_payload (sr_run_id request) q;
                     message = \<lparr>um_run_id = le_run_id lease, um_coalesced_run_ids = coalesced,
                       um_payload = payload\<rparr>;
                     failed = (\<lambda>t. s\<lparr>as_runtime := abandon_lease lease t, as_budget := b,
                       as_queue := drop_failed_finish (le_run_id lease) q1\<rparr>) in
                 if \<not> as_ephemeral s \<and> \<not> sg_persists g
                 then (Inl (StartFailed ''accepted message could not be persisted''), failed t)
                 else case fusion_scope g (as_created_by s) (pp_settings payload) of
                     Inl e \<Rightarrow> (Inl (StartFailed e), s\<lparr>as_runtime := t, as_budget := b, as_queue := q1,
                       as_messages := as_messages s @ [message]\<rparr>)
                   | Inr _ \<Rightarrow>
                       let t1 = t\<lparr>rt_control := snd (install_cancellation lease (sg_channel g) (sg_flag g)
                             (rt_control t))\<rparr> in
                       (case spawn_task lease t1 of
                          Inl e \<Rightarrow> (Inl (StartFailed e), (failed t1)\<lparr>as_messages := as_messages s @ [message]\<rparr>)
                        | Inr t' \<Rightarrow>
                            (Inr lease, s\<lparr>as_runtime := t', as_budget := b, as_queue := q1,
                               as_messages := as_messages s @ [message]\<rparr>))))"

text \<open>The merged payload under the settings of the last folded request.\<close>

definition under_settings :: "run_settings \<Rightarrow> prompt_payload \<Rightarrow> prompt_payload" where
  "under_settings settings merged = merged\<lparr>pp_settings :=
     settings\<lparr>rs_fusion_enabled := rs_fusion_enabled (pp_settings merged)\<rparr>\<rparr>"

definition start_next_scheduled_at ::
    "session_gate \<Rightarrow> queue_boundary \<Rightarrow> agent_session \<Rightarrow> (session_error + run_lease) \<times> agent_session" where
  "start_next_scheduled_at g boundary s =
     (if \<not> sg_admits g then (Inl (StartFailed ''service is not accepting work''), s)
      else case sg_persistence_error g of
        Some e \<Rightarrow> (Inl (QueueError (PersistenceUnavailable e)), s)
      | None \<Rightarrow>
          let s1 = s\<lparr>as_queue := snd (park_stale (sg_env g) boundary (as_queue s))\<rparr> in
          case next_startable (as_queue s1) of
            None \<Rightarrow> (Inl (StartFailed ''there is no queued run to start''), s1)
          | Some request \<Rightarrow>
              (case sg_decode g (sr_payload request) of
                 None \<Rightarrow> (Inl (StartFailed ''payload could not be read''), s1)
               | Some payload \<Rightarrow>
                   let (folded, b, q) = drain_coalescing_after_first (as_budget s1) (as_queue s1);
                       s2 = s1\<lparr>as_budget := b, as_queue := q\<rparr> in
                   case merge_all (sg_decode g) payload folded of
                     None \<Rightarrow> (Inl (StartFailed ''payload could not be read''), s2)
                   | Some merged \<Rightarrow>
                       let (found, table) = take_snapshots (as_snapshots s2) None (request # folded);
                           s3 = s2\<lparr>as_snapshots := table\<rparr> in
                       case found of
                         None \<Rightarrow> (Inl (StartFailed ''accepted run snapshot is unavailable''), s3)
                       | Some settings \<Rightarrow>
                           prompt_scheduled g (under_settings settings merged)
                             (map sr_run_id folded) request s3))"

section \<open>After a run\<close>

text \<open>What follows a start that failed in the wake-up loop; \<open>next\<close> was at the front before it.\<close>

definition after_failed_start :: "scheduled_run \<Rightarrow> agent_session \<Rightarrow> agent_session" where
  "after_failed_start next s =
     (if is_held (sr_run_id next) (as_queue s) then s
      else
        let s1 = (if map_option (\<lambda>(run, _). sr_run_id run) (session_active s) = Some (sr_run_id next)
                  then s\<lparr>as_queue := drop_failed_finish (sr_run_id next) (as_queue s)\<rparr>
                  else let (b, q) = drop_failed_cancel (sr_run_id next) (as_budget s) (as_queue s) in
                    s\<lparr>as_budget := b, as_queue := q\<rparr>) in
        s1\<lparr>as_snapshots := (as_snapshots s1)(sr_run_id next := None)\<rparr>)"

text \<open>The loop of \<open>on_scheduled_run_finished\<close>; the gates answer its iterations one after the
  other.\<close>

partial_function (option) dequeue_loop :: "(nat \<Rightarrow> session_gate) \<Rightarrow> agent_session \<Rightarrow> agent_session option" where
  "dequeue_loop gates s =
     (case next_startable (as_queue s) of
        None \<Rightarrow> Some s
      | Some next \<Rightarrow>
          (case start_next_scheduled_at (gates 0) AfterRun s of
             (Inr lease, s') \<Rightarrow> Some s'
           | (Inl e, s') \<Rightarrow> dequeue_loop (\<lambda>n. gates (Suc n)) (after_failed_start next s')))"

definition pauses :: "session_gate \<Rightarrow> agent_session \<Rightarrow> bool" where
  "pauses g s \<longleftrightarrow> sg_persistence_error g \<noteq> None
     \<or> \<not> as_ephemeral s \<and> snapshot (rt_control (as_runtime s)) = None \<and> rt_task (as_runtime s) = None
       \<and> \<not> sg_settles g"

definition on_scheduled_run_finished ::
    "session_gate \<Rightarrow> (nat \<Rightarrow> session_gate) \<Rightarrow> run_lease \<Rightarrow> agent_session \<Rightarrow> agent_session option" where
  "on_scheduled_run_finished g gates finished s =
     (if pauses g s then Some s
      else
        let s1 = (if session_active s \<noteq> None
                  then s\<lparr>as_queue := drop_failed_finish (le_run_id finished) (as_queue s)\<rparr> else s) in
        if sg_closed g then Some s1 else dequeue_loop gates s1)"

section \<open>Accepting, releasing, cancelling\<close>

fun drop_superseded ::
    "session_gate \<Rightarrow> string \<Rightarrow> scheduled_run list \<Rightarrow> agent_session \<Rightarrow> bool \<times> agent_session" where
  "drop_superseded g rid [] s = (True, s)"
| "drop_superseded g rid (r # rs) s =
     (if \<not> as_ephemeral s \<and> \<not> sg_cancels g (sr_run_id r)
      then let (b, q) = drop_failed_cancel rid (as_budget s) (as_queue s) in
        (False, s\<lparr>as_budget := b, as_queue := q\<rparr>)
      else drop_superseded g rid rs (s\<lparr>as_snapshots := (as_snapshots s)(sr_run_id r := None)\<rparr>))"

definition running_ack :: "run_lease \<Rightarrow> run_ack" where
  "running_ack lease = \<lparr>ra_run_id = le_run_id lease, ra_run_epoch = le_epoch lease,
     ra_accepted_state = accepted_state.Running, ra_run_sequence = le_run_sequence lease,
     ra_queue_position = None\<rparr>"

text \<open>Admission into the queue, by the policy.\<close>

definition admit_prompt ::
    "session_gate \<Rightarrow> string \<Rightarrow> string option \<Rightarrow> busy_policy \<Rightarrow> json \<Rightarrow> agent_session
     \<Rightarrow> run_queue_error + (run_ack \<times> scheduled_run list \<times> string option \<times> queue_budget \<times> run_queue)" where
  "admit_prompt g client requested policy payload s =
     (if policy = SupersedeSession
      then supersede_run (sg_env g) client requested payload (as_budget s) (as_queue s)
      else case accept_run (sg_env g) client requested policy payload (as_budget s) (as_queue s) of
          Inl e \<Rightarrow> Inl e | Inr (ack, b, q) \<Rightarrow> Inr (ack, [], None, b, q))"

definition after_admission ::
    "session_gate \<Rightarrow> run_ack \<Rightarrow> agent_session \<Rightarrow> (session_error + run_ack) \<times> agent_session" where
  "after_admission g ack s =
     (if snapshot (rt_control (as_runtime s)) \<noteq> None then (Inr ack, s)
      else if rt_task (as_runtime s) \<noteq> None \<or> session_active s \<noteq> None then (Inr ack, s)
      else case start_next_scheduled_at g Idle s of
          (Inr lease, s') \<Rightarrow> (Inr (running_ack lease), s')
        | (Inl e, s') \<Rightarrow>
            let s1 = (if map_option (\<lambda>(run, _). sr_run_id run) (session_active s') = Some (ra_run_id ack)
                      then s'\<lparr>as_queue := drop_failed_finish (ra_run_id ack) (as_queue s')\<rparr>
                      else let (b, q) = drop_failed_cancel (ra_run_id ack) (as_budget s') (as_queue s') in
                        s'\<lparr>as_budget := b, as_queue := q\<rparr>) in
            (Inl e, s1\<lparr>as_snapshots := (as_snapshots s1)(ra_run_id ack := None)\<rparr>))"

definition enqueue_prompt ::
    "session_gate \<Rightarrow> string \<Rightarrow> string option \<Rightarrow> busy_policy \<Rightarrow> json \<Rightarrow> run_settings \<Rightarrow> agent_session
     \<Rightarrow> (session_error + run_ack) \<times> agent_session" where
  "enqueue_prompt g client requested policy payload settings s =
     (case sg_precheck g of
        Inl e \<Rightarrow> (Inl e, s)
      | Inr (Some ack) \<Rightarrow> (Inr ack, s)
      | Inr None \<Rightarrow>
          let queue_only = snapshot (rt_control (as_runtime s)) \<noteq> None
                \<or> rt_task (as_runtime s) \<noteq> None \<or> session_active s \<noteq> None in
          case admit_prompt g client requested policy payload s of
            Inl e \<Rightarrow> (Inl (QueueError e), s)
          | Inr (ack, superseded, superseded_active, b, q) \<Rightarrow>
              let s1 = s\<lparr>as_budget := b, as_queue := q\<rparr> in
              if ra_accepted_state ack = Existing then (Inr ack, s1)
              else if queue_only \<and> \<not> as_ephemeral s \<and> \<not> sg_records g
              then let (b, q) = drop_failed_cancel (ra_run_id ack) b q in
                (Inl (StartFailed ''receipt could not be recorded''), s1\<lparr>as_budget := b, as_queue := q\<rparr>)
              else
                let (ok, s2) = drop_superseded g (ra_run_id ack) superseded s1 in
                if \<not> ok then (Inl (StartFailed ''receipt could not be cancelled''), s2)
                else
                  let s3 = s2\<lparr>as_snapshots := (as_snapshots s2)(ra_run_id ack \<mapsto> settings)\<rparr>;
                      s4 = (case snapshot (rt_control (as_runtime s3)) of
                          Some active \<Rightarrow>
                            if policy = SupersedeSession
                            then (case request_cancellation (Some (sn_run_id active)) False (as_runtime s3) of
                                Inl e \<Rightarrow> s3 | Inr t \<Rightarrow> s3\<lparr>as_runtime := t\<rparr>)
                            else s3
                        | None \<Rightarrow> s3) in
                  after_admission g ack s4)"

definition release_queued_run ::
    "session_gate \<Rightarrow> string \<Rightarrow> agent_session \<Rightarrow> (run_queue_error + unit) \<times> agent_session" where
  "release_queued_run g rid s =
     (case release_held (sg_env g) rid (as_queue s) of
        Inl e \<Rightarrow> (Inl e, s)
      | Inr (r, q) \<Rightarrow>
          let s1 = s\<lparr>as_queue := q\<rparr> in
          if session_active s1 = None then (Inr (), snd (start_next_scheduled_at g Idle s1))
          else (Inr (), s1))"

definition cancel_queued_run ::
    "session_gate \<Rightarrow> string \<Rightarrow> cancel_reason \<Rightarrow> agent_session
     \<Rightarrow> (run_queue_error + scheduled_run) \<times> agent_session" where
  "cancel_queued_run g rid reason s =
     (if \<not> as_ephemeral s \<and> list_ex (\<lambda>r. sr_run_id r = rid) (queued_runs (as_queue s))
         \<and> \<not> sg_cancels g rid
      then (Inl (PersistenceUnavailable ''receipt could not be cancelled''), s)
      else case cancel_queued rid reason (as_budget s) (as_queue s) of
          Inl e \<Rightarrow> (Inl e, s)
        | Inr (r, b, q) \<Rightarrow>
            (Inr r, s\<lparr>as_budget := b, as_queue := q, as_snapshots := (as_snapshots s)(rid := None)\<rparr>))"

definition cancel_all_queued_runs ::
    "cancel_reason \<Rightarrow> agent_session \<Rightarrow> scheduled_run list \<times> agent_session" where
  "cancel_all_queued_runs reason s =
     (let (cancelled, b, q) = cancel_all_queued reason (as_budget s) (as_queue s) in
      (cancelled, s\<lparr>as_budget := b, as_queue := q,
        as_snapshots := (\<lambda>rid. if rid \<in> sr_run_id ` set cancelled then None else as_snapshots s rid)\<rparr>))"

section \<open>The wake-up worker\<close>

definition new_session :: "queue_budget \<Rightarrow> string \<Rightarrow> u64 \<Rightarrow> bool \<Rightarrow> string \<Rightarrow> agent_session" where
  "new_session b session_id next_sequence ephemeral created_by =
     \<lparr>as_budget = b, as_queue = new_queue session_id next_sequence, as_runtime = new_runtime,
      as_snapshots = Map.empty, as_messages = [], as_ephemeral = ephemeral,
      as_created_by = created_by, as_handled = 0\<rparr>"

definition unhandled :: "agent_session \<Rightarrow> run_lease list" where
  "unhandled s = drop (as_handled s) (rt_completions (as_runtime s))"

text \<open>One completion received from the channel; None when the channel is empty.\<close>

definition scheduler_wake ::
    "session_gate \<Rightarrow> (nat \<Rightarrow> session_gate) \<Rightarrow> agent_session \<Rightarrow> agent_session option" where
  "scheduler_wake g gates s =
     (case unhandled s of
        [] \<Rightarrow> None
      | lease # _ \<Rightarrow> on_scheduled_run_finished g gates lease (s\<lparr>as_handled := as_handled s + 1\<rparr>))"

end
