(* ===== verification/Queue_Runs.thy ===== *)
theory Queue_Runs
  imports Run_Queue
begin

text \<open>
  Sequences of operations on the prompt queues of \<open>Run_Queue\<close>. \<open>exec_op\<close> is one call of the
  queue's interface, with the runs it hands to the agent and the runs it ends without starting;
  \<open>queue_run\<close> is what one queue can reach, other sessions changing the shared budget in
  between; \<open>hub_run\<close> is what all queues and their budget can reach. Proved: no accepted prompt
  is lost or started twice; a retried request is answered with the run it already has; folding
  takes the longest prefix that fits; the budget counts exactly what waits, as long as no prompt
  is parked when the queue is superseded; and the two ways parked prompts escape the limits.
\<close>

section \<open>One call\<close>

datatype queue_op =
    OpAccept string "string option" busy_policy json
  | OpSupersede string "string option" json
  | OpStart u64
  | OpFold
  | OpFinish string
  | OpCancel string cancel_reason
  | OpCancelAll cancel_reason
  | OpPark queue_boundary
  | OpRelease string
  | OpDropPayload string

type_synonym op_result =
  "scheduled_run list \<times> scheduled_run list \<times> queue_budget \<times> run_queue"

fun exec_op :: "queue_env \<Rightarrow> queue_op \<Rightarrow> queue_budget \<Rightarrow> run_queue \<Rightarrow> op_result" where
  "exec_op env (OpAccept client requested policy payload) b q =
     (case accept_run env client requested policy payload b q of
        Inl e \<Rightarrow> ([], [], b, q) | Inr (ack, b', q') \<Rightarrow> ([], [], b', q'))"
| "exec_op env (OpSupersede client requested payload) b q =
     (case supersede_run env client requested payload b q of
        Inl e \<Rightarrow> ([], [], b, q) | Inr (ack, cancelled, act, b', q') \<Rightarrow> ([], cancelled, b', q'))"
| "exec_op env (OpStart epoch) b q =
     (case start_next epoch b q of
        Inl e \<Rightarrow> ([], [], b, q) | Inr (request, ack, b', q') \<Rightarrow> ([request], [], b', q'))"
| "exec_op env OpFold b q =
     (let (folded, b', q') = drain_coalescing_after_first b q in ([], folded, b', q'))"
| "exec_op env (OpFinish rid) b q =
     (case finish_active rid q of Inl e \<Rightarrow> ([], [], b, q) | Inr q' \<Rightarrow> ([], [], b, q'))"
| "exec_op env (OpCancel rid reason) b q =
     (case cancel_queued rid reason b q of
        Inl e \<Rightarrow> ([], [], b, q) | Inr (cancelled, b', q') \<Rightarrow> ([], [cancelled], b', q'))"
| "exec_op env (OpCancelAll reason) b q =
     (let (cancelled, b', q') = cancel_all_queued reason b q in ([], cancelled, b', q'))"
| "exec_op env (OpPark boundary) b q = ([], [], b, snd (park_stale env boundary q))"
| "exec_op env (OpRelease rid) b q =
     (case release_held env rid q of Inl e \<Rightarrow> ([], [], b, q) | Inr (request, q') \<Rightarrow> ([], [], b, q'))"
| "exec_op env (OpDropPayload rid) b q = ([], [], b, release_active_payload rid q)"

inductive queue_run :: "run_queue \<Rightarrow> run_queue \<Rightarrow> scheduled_run list \<Rightarrow> scheduled_run list \<Rightarrow> bool"
  for q0 where
  opened: "queue_run q0 q0 [] []"
| step: "queue_run q0 q started dropped \<Longrightarrow> exec_op env op b q = (st, dr, b', q')
    \<Longrightarrow> queue_run q0 q' (started @ st) (dropped @ dr)"

section \<open>What a call does to the waiting runs\<close>

text \<open>A run's sequence number and size.\<close>

definition weight :: "scheduled_run \<Rightarrow> u64 \<times> usize" where
  "weight r = (sr_run_sequence r, sr_payload_bytes r)"

abbreviation weights :: "scheduled_run list \<Rightarrow> (u64 \<times> usize) multiset" where
  "weights rs \<equiv> image_mset weight (mset rs)"

text \<open>The call admits nothing: what starts, what ends and what waits is what waited.\<close>

definition moved :: "run_queue \<Rightarrow> scheduled_run list \<Rightarrow> scheduled_run list \<Rightarrow> run_queue \<Rightarrow> bool" where
  "moved q st dr q' \<longleftrightarrow>
     weights (st @ dr @ waiting (rq_state q')) = weights (waiting (rq_state q))
     \<and> qs_next_sequence (rq_state q') = qs_next_sequence (rq_state q)"

text \<open>The call admits one run, of the next sequence number and size \<open>n\<close>.\<close>

definition admitted :: "usize \<Rightarrow> run_queue \<Rightarrow> scheduled_run list \<Rightarrow> run_queue \<Rightarrow> bool" where
  "admitted n q dr q' \<longleftrightarrow>
     weights (dr @ waiting (rq_state q'))
       = add_mset (qs_next_sequence (rq_state q), n) (weights (waiting (rq_state q)))
     \<and> qs_next_sequence (rq_state q') = qs_next_sequence (rq_state q) + 1
     \<and> n \<le> rq_max_request_bytes q"

lemma movedI:
  "mset (waiting (rq_state q)) = mset (st @ dr @ waiting (rq_state q'))
   \<Longrightarrow> qs_next_sequence (rq_state q') = qs_next_sequence (rq_state q) \<Longrightarrow> moved q st dr q'"
  by (simp add: moved_def)

lemma moved_refl: "moved q [] [] q" by (simp add: moved_def)

lemma accept_admits:
  assumes "accept_run env client requested policy payload b q = Inr (ack, b', q')"
  shows "(b' = b \<and> q' = q) \<or> admitted (length (qe_text env payload)) q [] q'"
  using assms
proof (cases rule: accept_run_cases)
  case (fresh rid n m s')
  note new = live_enter [OF fresh(11)]
  have "mset (waiting s') = add_mset (last (qs_queued s')) (mset (waiting (rq_state q)))"
    unfolding waiting_def new(3) by (subst new(2)) simp
  then show ?thesis
    using new(4,5,7) fresh(4,5) by (simp add: fresh(13) admitted_def weight_def)
qed simp

lemma supersede_admits:
  assumes "supersede_run env client requested payload b q = Inr (ack, dr, act, b', q')"
  shows "(dr = [] \<and> b' = b \<and> q' = q) \<or> admitted (length (qe_text env payload)) q dr q'"
  using assms
proof (cases rule: supersede_run_cases)
  case (fresh rid n s0 s')
  note new = live_enter [OF fresh(11)]
  have s0: "qs_queued s0 = []" "qs_held s0 = qs_held (rq_state q)"
    "qs_next_sequence s0 = qs_next_sequence (rq_state q)"
    unfolding fresh(10) by simp_all
  have "mset (dr @ waiting s') = add_mset (last (qs_queued s')) (mset (waiting (rq_state q)))"
    unfolding waiting_def new(3) fresh(9) by (subst new(2)) (simp add: s0)
  then have "weights (dr @ waiting s')
      = add_mset (weight (last (qs_queued s'))) (weights (waiting (rq_state q)))"
    by (metis image_mset_add_mset)
  then show ?thesis
    using new(4,5,7) s0(3) fresh(4,5) by (simp add: fresh(14) admitted_def weight_def)
qed simp

lemma start_moves: "start_next epoch b q = Inr (r, ack, b', q') \<Longrightarrow> moved q [r] [] q'"
  by (auto simp: start_next_Inr waiting_def intro!: movedI)

lemma drain_moves:
  assumes "drain_coalescing_after_first b q = (folded, b', q')"
  shows "moved q [] folded q'"
  using assms
proof (cases rule: drain_cases)
  case (front front rest n s1)
  have "mset (take n rest) + mset (drop n rest) = mset rest" by (rule mset_take_drop)
  then show ?thesis
    unfolding front(6) by (intro movedI) (simp_all add: waiting_def front(1,3,4))
qed (simp add: moved_refl)

lemma finish_moves: "finish_active rid q = Inr q' \<Longrightarrow> moved q [] [] q'"
  by (auto simp: finish_active_Inr waiting_def intro!: movedI)

lemma cancel_moves:
  assumes "cancel_queued rid reason b q = Inr (r, b', q')"
  shows "moved q [] [r] q'"
  using assms
proof (cases rule: cancel_queued_cases)
  case (1 s1)
  then show ?thesis unfolding 1(12)
    by (intro movedI) (simp_all del: foldl_Cons foldl_Nil)
qed

lemma cancel_all_moves:
  "cancel_all_queued reason b q = (dr, b', q') \<Longrightarrow> moved q [] dr q'"
  by (auto simp: cancel_all_queued_def Let_def waiting_def intro!: movedI)

lemma park_moved:
  assumes "park_stale env boundary q = (parked, q')"
  shows "moved q [] [] q'"
proof (rule movedI)
  show "qs_next_sequence (rq_state q') = qs_next_sequence (rq_state q)"
    by (subst park_moves(2) [OF assms]) simp
qed (simp add: park_moves(1) [OF assms])

lemma release_moves:
  assumes "release_held env rid q = Inr (request, q')"
  shows "moved q [] [] q'"
  using assms
proof (cases rule: release_held_cases)
  case (1 h rest)
  then show ?thesis using mset_take_first(1) [OF 1(1)]
    by (simp add: moved_def waiting_def mset_insert_in_order weight_def)
qed

lemma release_payload_moves: "moved q [] [] (release_active_payload rid q)"
  by (auto simp: moved_def release_active_payload_def Let_def waiting_def split: option.split)

lemma exec_moves:
  assumes "exec_op env op b q = (st, dr, b', q')"
  shows "moved q st dr q' \<or> (\<exists>n. st = [] \<and> admitted n q dr q')"
proof (cases op)
  case (OpAccept client requested policy payload)
  then show ?thesis using assms
    by (auto simp: moved_refl split: sum.splits dest!: accept_admits)
next
  case (OpSupersede client requested payload)
  then show ?thesis using assms
    by (auto simp: moved_refl split: sum.splits dest!: supersede_admits)
next
  case (OpPark boundary)
  then show ?thesis using assms park_moved [of env boundary q] by (simp add: prod_eq_iff)
qed (use assms in \<open>auto simp: moved_refl release_payload_moves split: sum.splits prod.splits
      dest: start_moves drain_moves finish_moves cancel_moves cancel_all_moves release_moves\<close>)

lemma exec_inv:
  assumes "queue_inv q" "exec_op env op b q = (st, dr, b', q')"
  shows "queue_inv q'"
proof (cases op)
  case (OpPark boundary)
  then show ?thesis using assms park_inv [OF assms(1), of env boundary] by (simp add: prod_eq_iff)
qed (use assms release_payload_inv [OF assms(1)] in \<open>auto split: sum.splits prod.splits
      dest: accept_inv supersede_inv start_inv drain_inv finish_inv cancel_inv cancel_all_inv
        release_inv\<close>)

lemma queue_run_inv: "queue_run q0 q started dropped \<Longrightarrow> queue_inv q0 \<Longrightarrow> queue_inv q"
  by (induction rule: queue_run.induct) (auto dest: exec_inv)

section \<open>Nothing accepted is lost or started twice\<close>

lemma weights_sequences:
  "weights xs = M \<Longrightarrow> mset (map sr_run_sequence xs) = image_mset fst M"
  by (auto simp: weight_def image_mset.compositionality comp_def)

lemma exec_sequences:
  assumes "exec_op env op b q = (st, dr, b', q')"
  shows "mset (map sr_run_sequence (st @ dr @ waiting (rq_state q')))
      = mset (map sr_run_sequence (waiting (rq_state q)))
        + mset [qs_next_sequence (rq_state q)..<qs_next_sequence (rq_state q')]"
    and "qs_next_sequence (rq_state q) \<le> qs_next_sequence (rq_state q')"
proof -
  from exec_moves [OF assms]
  have "mset (map sr_run_sequence (st @ dr @ waiting (rq_state q')))
      = mset (map sr_run_sequence (waiting (rq_state q)))
        + mset [qs_next_sequence (rq_state q)..<qs_next_sequence (rq_state q')]
    \<and> qs_next_sequence (rq_state q) \<le> qs_next_sequence (rq_state q')"
  proof
    assume m: "moved q st dr q'"
    then show ?thesis
      using weights_sequences [of "st @ dr @ waiting (rq_state q')"]
        weights_sequences [of "waiting (rq_state q)", OF refl]
      unfolding moved_def by (metis add_0_right less_irrefl mset.simps(1) order_refl upt_conv_Nil)
  next
    assume "\<exists>n. st = [] \<and> admitted n q dr q'"
    then obtain n where "st = []" "admitted n q dr q'" by blast
    then show ?thesis
      using weights_sequences [of "dr @ waiting (rq_state q')"]
        weights_sequences [of "waiting (rq_state q)", OF refl]
      by (simp add: admitted_def)
  qed
  then show "mset (map sr_run_sequence (st @ dr @ waiting (rq_state q')))
      = mset (map sr_run_sequence (waiting (rq_state q)))
        + mset [qs_next_sequence (rq_state q)..<qs_next_sequence (rq_state q')]"
    and "qs_next_sequence (rq_state q) \<le> qs_next_sequence (rq_state q')" by simp_all
qed

lemma upt_add_mset: "a \<le> b \<Longrightarrow> b \<le> c \<Longrightarrow> mset [a..<b] + mset [b..<c] = mset [a..<c]"
  by (metis le_Suc_ex mset_append upt_add_eq_append)

lemma run_sequences:
  assumes "queue_run q0 q started dropped"
  shows "mset (map sr_run_sequence (started @ dropped @ waiting (rq_state q)))
      = mset (map sr_run_sequence (waiting (rq_state q0)))
        + mset [qs_next_sequence (rq_state q0)..<qs_next_sequence (rq_state q)]
    \<and> qs_next_sequence (rq_state q0) \<le> qs_next_sequence (rq_state q)"
  using assms
proof induction
  case (step q started dropped env op b st dr b' q')
  let ?start = "qs_next_sequence (rq_state q0)" and ?n = "qs_next_sequence (rq_state q)"
    and ?n' = "qs_next_sequence (rq_state q')"
  note seqs = exec_sequences [OF step(2)]
  have "mset (map sr_run_sequence ((started @ st) @ (dropped @ dr) @ waiting (rq_state q')))
      = mset (map sr_run_sequence started) + mset (map sr_run_sequence dropped)
        + mset (map sr_run_sequence (st @ dr @ waiting (rq_state q')))"
    by simp
  also have "\<dots> = mset (map sr_run_sequence (started @ dropped @ waiting (rq_state q))) + mset [?n..<?n']"
    unfolding seqs(1) by simp
  also have "\<dots> = mset (map sr_run_sequence (waiting (rq_state q0))) + (mset [?start..<?n] + mset [?n..<?n'])"
    by (simp only: conjunct1 [OF step.IH] add.assoc)
  also have "mset [?start..<?n] + mset [?n..<?n'] = mset [?start..<?n']"
    using step.IH seqs(2) by (intro upt_add_mset) simp_all
  finally show ?case using step.IH seqs(2) by simp
qed simp

text \<open>C22: No accepted prompt is lost and none runs twice: in everything a session's queue can
  reach, the sequence numbers handed out so far are exactly those of the runs that were started,
  the runs that ended without starting (cancelled, superseded or folded into another), and the
  runs a client still sees waiting, each once; and the unparked ones are in the order of their
  acceptance, so that the next to start is the oldest.\<close>

theorem every_accepted_run_once:
  assumes "queue_run (with_limits_and_global session_id n capacity max_bytes max_request acks)
             q started dropped"
  shows "mset (map sr_run_sequence (started @ dropped @ queued_runs q))
           = mset [max n 1..<qs_next_sequence (rq_state q)]
         \<and> sorted_wrt (<) (map sr_run_sequence (qs_queued (rq_state q)))"
proof
  have "mset (queued_runs q) = mset (waiting (rq_state q))"
    by (simp add: queued_runs_def waiting_def)
  then have "image_mset sr_run_sequence (mset (queued_runs q))
      = image_mset sr_run_sequence (mset (waiting (rq_state q)))" by (rule arg_cong)
  then show "mset (map sr_run_sequence (started @ dropped @ queued_runs q))
      = mset [max n 1..<qs_next_sequence (rq_state q)]"
    using run_sequences [OF assms]
    by (simp add: with_limits_and_global_def waiting_def image_mset.compositionality comp_def
      del: mset_upt)
  have "queue_inv q" using queue_run_inv [OF assms new_queue_inv] .
  note inv = queue_invD [OF this]
  have "distinct (map sr_run_sequence (qs_queued (rq_state q)))"
    using indexed_distinct(2) [OF inv(1)] by (simp add: live_def waiting_def)
  then show "sorted_wrt (<) (map sr_run_sequence (qs_queued (rq_state q)))"
    using inv(2) by (simp add: strict_sorted_iff)
qed

section \<open>Retries\<close>

lemma find_index_unique:
  assumes "distinct (map f xs)" "i < length xs" "f (xs ! i) = y"
  shows "find_index (\<lambda>x. f x = y) xs = Some i"
proof -
  have "f (xs ! j) \<noteq> y" if "j < i" for j
    using nth_eq_iff_index_eq [OF assms(1), of j i] that assms(2,3) by auto
  then show ?thesis using assms(2,3) by (simp add: find_index_iff)
qed

lemma existing_ack_parts:
  "ra_run_id (existing_ack s ident) = ri_run_id ident"
  "ra_run_sequence (existing_ack s ident) = Some (ri_run_sequence ident)"
  "ra_accepted_state (existing_ack s ident) = Existing"
  by (auto simp: existing_ack_def ack_existing_def Let_def split: option.splits)

text \<open>A retried prompt is answered with the run it already has: for every run a reachable
  queue holds (active, queued or parked), an accept or a supersede under its client request id
  changes nothing; with the same content it returns that run's id and sequence number, its place
  in the queue when it is queued and its epoch when it is active, and with other content it is
  refused.\<close>

theorem retry_answers_same_run:
  assumes "queue_run (with_limits_and_global session_id n capacity max_bytes max_request acks)
             q started dropped"
    and "r \<in> set (live (rq_state q))" "\<not> blank (sr_client_request_id r)"
  shows "\<exists>ack. ra_run_id ack = sr_run_id r \<and> ra_run_sequence ack = Some (sr_run_sequence r)
      \<and> ra_accepted_state ack = Existing
      \<and> (\<forall>epoch. qs_active (rq_state q) = Some (r, epoch) \<longrightarrow> ra_run_epoch ack = epoch)
      \<and> (\<forall>i < length (qs_queued (rq_state q)). qs_queued (rq_state q) ! i = r
           \<longrightarrow> ra_queue_position ack = Some (i + 1))
      \<and> accept_run env (sr_client_request_id r) requested policy payload b q
        = (if request_digest env requested policy payload = sr_request_digest r
           then Inr (ack, b, q) else Inl (DuplicateRequestConflict (sr_client_request_id r)))
      \<and> supersede_run env (sr_client_request_id r) requested payload b q
        = (if request_digest env requested SupersedeSession payload = sr_request_digest r
           then Inr (ack, [], None, b, q)
           else Inl (DuplicateRequestConflict (sr_client_request_id r)))"
proof -
  let ?s = "rq_state q"
  let ?ident = "\<lparr>ri_digest = sr_request_digest r, ri_run_id = sr_run_id r,
    ri_run_sequence = sr_run_sequence r\<rparr>"
  note inv = queue_invD(1) [OF queue_run_inv [OF assms(1) new_queue_inv]]
  have known: "qs_requests ?s (sr_client_request_id r) = Some ?ident"
    using inv assms(2) by (simp add: indexed_def idents_ok_def)
  note ids = indexed_distinct(1) [OF inv]
  have epoch: "ra_run_epoch (existing_ack ?s ?ident) = e" if "qs_active ?s = Some (r, e)" for e
    using that by (simp add: existing_ack_def ack_existing_def)
  have place: "ra_queue_position (existing_ack ?s ?ident) = Some (i + 1)"
    if i: "i < length (qs_queued ?s)" "qs_queued ?s ! i = r" for i
  proof -
    have "r \<in> set (qs_queued ?s)" using i nth_mem by fastforce
    then have "sr_run_id a \<noteq> sr_run_id r" if "qs_active ?s = Some (a, e)" for a e
      using ids that by (auto simp: live_def waiting_def image_iff)
    moreover have "find_index (\<lambda>x. sr_run_id x = sr_run_id r) (qs_queued ?s) = Some i"
      using ids i by (intro find_index_unique) (auto simp: live_def waiting_def)
    ultimately show ?thesis
      by (cases "qs_active ?s") (auto simp: existing_ack_def ack_existing_def Let_def)
  qed
  show ?thesis
    using known assms(3) epoch place
    by (intro exI [of _ "existing_ack ?s ?ident"])
      (auto simp: existing_ack_parts accept_run_def supersede_run_def)
qed

section \<open>Folding\<close>

definition sizes :: "scheduled_run list \<Rightarrow> usize" where
  "sizes rs = sum_list (map sr_payload_bytes rs)"

lemma sizes_simps [simp]:
  "sizes [] = 0" "sizes (r # rs) = sr_payload_bytes r + sizes rs"
  "sizes (xs @ ys) = sizes xs + sizes ys"
  by (simp_all add: sizes_def)

lemma sizes_mset: "mset xs = mset ys \<Longrightarrow> sizes xs = sizes ys"
  unfolding sizes_def by (metis mset_map sum_mset_sum_list)

lemma fold_count_spec:
  "fold_count room rs \<le> length rs
   \<and> list_all (\<lambda>r. coalesces (sr_busy_policy r)) (take (fold_count room rs) rs)
   \<and> sizes (take (fold_count room rs) rs) \<le> room
   \<and> (fold_count room rs < length rs \<longrightarrow>
        \<not> coalesces (sr_busy_policy (rs ! fold_count room rs))
        \<or> room < sizes (take (fold_count room rs) rs) + sr_payload_bytes (rs ! fold_count room rs))"
proof (induction room rs rule: fold_count.induct)
  case (2 room r rs)
  show ?case
  proof (cases "coalesces (sr_busy_policy r) \<and> sr_payload_bytes r \<le> room")
    case True
    then show ?thesis using 2 by auto
  qed auto
qed simp

text \<open>Folding takes the longest prefix that may be answered together: the runs folded into
  the front of the queue are those directly behind it, in order; all of them and the front opted
  in, and together they fit into one request; the rest stays queued in order; and folding stopped
  only at a run that did not opt in or would not fit.\<close>

theorem folding_takes_longest_prefix:
  assumes "qs_queued (rq_state q) = front # rest"
    and "sr_payload_bytes front \<le> rq_max_request_bytes q"
    and "drain_coalescing_after_first b q = (folded, b', q')"
  shows "folded = take (length folded) rest
    \<and> qs_queued (rq_state q') = front # drop (length folded) rest
    \<and> (folded \<noteq> [] \<longrightarrow> list_all (\<lambda>r. coalesces (sr_busy_policy r)) (front # folded))
    \<and> sizes (front # folded) \<le> rq_max_request_bytes q
    \<and> (coalesces (sr_busy_policy front) \<and> length folded < length rest \<longrightarrow>
         \<not> coalesces (sr_busy_policy (rest ! length folded))
         \<or> rq_max_request_bytes q
             < sizes (front # folded) + sr_payload_bytes (rest ! length folded))"
proof -
  let ?room = "rq_max_request_bytes q - sr_payload_bytes front"
  define n where "n = (if coalesces (sr_busy_policy front) then fold_count ?room rest else 0)"
  have n: "folded = take n rest" "n \<le> length rest"
    and q': "qs_queued (rq_state q') = front # drop n rest"
    using assms(3) fold_count_spec [of ?room rest] unfolding drain_front [OF assms(1)]
    by (auto simp: n_def Let_def)
  then have len: "length folded = n" by simp
  show ?thesis
  proof (cases "coalesces (sr_busy_policy front)")
    case True
    then have at: "n = fold_count ?room rest" by (simp add: n_def)
    show ?thesis
      using fold_count_spec [of ?room rest, folded at] q' assms(2) True
      unfolding len by (auto simp: n(1))
  next
    case False
    then have "n = 0" by (simp add: n_def)
    then show ?thesis using q' n assms(2) False unfolding len by simp
  qed
qed

section \<open>Parking\<close>

lemma park_verdict_after_run:
  "park_verdict env AfterRun q r = (if qe_age env (sr_accepted_at r) = None then Some UnknownAge else None)"
  by (simp add: park_verdict_def split: option.split)

text \<open>A long run never ages out what was written during it, and a released prompt is not
  parked straight back: at the boundary after a run only prompts whose acceptance time cannot be
  read are parked; at an idle boundary also those that waited the limit of seconds or longer; and
  a prompt its author released stays in line at any boundary while its new stamp reads as younger
  than that.\<close>

theorem parking_exact:
  shows "qs_queued (rq_state (snd (park_stale env boundary q)))
      = filter (\<lambda>r. case qe_age env (sr_accepted_at r) of None \<Rightarrow> False
                    | Some age \<Rightarrow> boundary = AfterRun \<or> age < int (rq_stale_after_secs q))
          (qs_queued (rq_state q))
    \<and> (case release_held env rid q of Inl e \<Rightarrow> True
       | Inr (r, q') \<Rightarrow> qe_age later (qe_now env) = Some age \<and> age < int (rq_stale_after_secs q)
           \<longrightarrow> r \<in> set (qs_queued (rq_state (snd (park_stale later boundary q')))))"
proof
  have "park_verdict env boundary q r = None \<longleftrightarrow> (case qe_age env (sr_accepted_at r) of None \<Rightarrow> False
          | Some age \<Rightarrow> boundary = AfterRun \<or> age < int (rq_stale_after_secs q))" for r
    by (auto simp: park_verdict_def not_le split: option.split)
  then show "qs_queued (rq_state (snd (park_stale env boundary q)))
      = filter (\<lambda>r. case qe_age env (sr_accepted_at r) of None \<Rightarrow> False
                    | Some age \<Rightarrow> boundary = AfterRun \<or> age < int (rq_stale_after_secs q))
          (qs_queued (rq_state q))"
    by (simp add: park_stale_eq)
  show "case release_held env rid q of Inl e \<Rightarrow> True
     | Inr (r, q') \<Rightarrow> qe_age later (qe_now env) = Some age \<and> age < int (rq_stale_after_secs q)
         \<longrightarrow> r \<in> set (qs_queued (rq_state (snd (park_stale later boundary q'))))"
  proof (cases "release_held env rid q")
    case (Inr p)
    obtain r q' where p: "p = (r, q')" by (cases p)
    show ?thesis unfolding Inr p sum.case prod.case
    proof
      assume young: "qe_age later (qe_now env) = Some age \<and> age < int (rq_stale_after_secs q)"
      obtain h :: held_run and rest where q': "q' = q\<lparr>rq_state := rq_state q\<lparr>qs_held := rest,
             qs_queued := insert_in_order r (qs_queued (rq_state q))\<rparr>\<rparr>"
        and r: "r = (hr_request h)\<lparr>sr_accepted_at := qe_now env\<rparr>"
        using Inr unfolding p by (elim release_held_cases) (rule that)
      have "r \<in> set (insert_in_order r (qs_queued (rq_state q)))"
        by (metis mset_insert_in_order set_mset_mset union_single_eq_member)
      moreover have "park_verdict later boundary q' r = None"
        using young by (simp add: park_verdict_def r q')
      ultimately show "r \<in> set (qs_queued (rq_state (snd (park_stale later boundary q'))))"
        by (simp add: park_stale_eq q')
    qed
  qed simp
qed

section \<open>The budget\<close>

definition accounted :: "run_queue \<Rightarrow> bool" where
  "accounted q \<longleftrightarrow> qs_queued_bytes (rq_state q) = sizes (waiting (rq_state q))
     \<and> qs_queued_bytes (rq_state q) \<le> rq_max_queue_bytes q"

text \<open>The budget is what the others wait with, and this queue's own share.\<close>

definition budget_ok :: "usize \<Rightarrow> usize \<Rightarrow> queue_budget \<Rightarrow> run_queue \<Rightarrow> bool" where
  "budget_ok c m b q \<longleftrightarrow> gb_count b = c + length (waiting (rq_state q))
     \<and> gb_bytes b = m + sizes (waiting (rq_state q))
     \<and> gb_count b \<le> gb_max_count b \<and> gb_bytes b \<le> gb_max_bytes b"

definition same_limits :: "queue_budget \<Rightarrow> run_queue \<Rightarrow> queue_budget \<Rightarrow> run_queue \<Rightarrow> bool" where
  "same_limits b q b' q' \<longleftrightarrow> gb_max_count b' = gb_max_count b \<and> gb_max_bytes b' = gb_max_bytes b
     \<and> rq_max_queue_bytes q' = rq_max_queue_bytes q"

text \<open>A queue that is superseded has no parked prompts (or knows the request already).\<close>

fun clean_op :: "queue_op \<Rightarrow> run_queue \<Rightarrow> bool" where
  "clean_op (OpSupersede client requested payload) q \<longleftrightarrow>
     qs_held (rq_state q) = [] \<or> knows_request client q"
| "clean_op _ q \<longleftrightarrow> True"

lemma release_all:
  "foldl (\<lambda>b r. release (sr_payload_bytes r) b) b ds
   = b\<lparr>gb_count := gb_count b - length ds, gb_bytes := gb_bytes b - sizes ds\<rparr>"
  by (induction ds arbitrary: b) (simp_all add: release_def diff_diff_eq)

lemma subtract_all: "foldl (\<lambda>n r. n - sr_payload_bytes r) m ds = m - sizes ds"
  by (induction ds arbitrary: m) (simp_all add: diff_diff_eq)

definition books_kept :: "usize \<Rightarrow> usize \<Rightarrow> queue_budget \<Rightarrow> run_queue \<Rightarrow> queue_budget \<Rightarrow> run_queue \<Rightarrow> bool" where
  "books_kept c m b q b' q' \<longleftrightarrow> accounted q' \<and> budget_ok c m b' q' \<and> same_limits b q b' q'"

lemma books_removed:
  assumes "accounted q" "budget_ok c m b q"
    and "mset (waiting (rq_state q)) = mset (ds @ waiting (rq_state q'))"
    and "b' = foldl (\<lambda>b r. release (sr_payload_bytes r) b) b ds"
    and "qs_queued_bytes (rq_state q') = qs_queued_bytes (rq_state q) - sizes ds"
    and "rq_max_queue_bytes q' = rq_max_queue_bytes q"
  shows "books_kept c m b q b' q'"
proof -
  have "sizes (waiting (rq_state q)) = sizes ds + sizes (waiting (rq_state q'))"
    using sizes_mset [OF assms(3)] by simp
  moreover have "length (waiting (rq_state q)) = length ds + length (waiting (rq_state q'))"
    using mset_eq_length [OF assms(3)] by simp
  ultimately show ?thesis
    using assms(1,2,5,6)
    by (simp add: books_kept_def accounted_def budget_ok_def same_limits_def assms(4) release_all)
qed

lemma sat_add_exact: "saturating_add_u64 a b \<le> l \<Longrightarrow> l < u64_max \<Longrightarrow> saturating_add_u64 a b = a + b"
  by (simp add: saturating_add_u64_def min_def split: if_splits)

lemma books_accept:
  assumes "accounted q" "budget_ok c m b q" "rq_max_queue_bytes q < u64_max"
    and "gb_max_bytes b < u64_max"
    and "accept_run env client requested policy payload b q = Inr (ack, b', q')"
  shows "books_kept c m b q b' q'"
  using assms(5)
proof (cases rule: accept_run_cases)
  case retry
  then show ?thesis using assms(1,2) by (simp add: books_kept_def same_limits_def)
next
  case (fresh rid n mm s')
  note new = live_enter [OF fresh(11)]
  have w: "mset (waiting s') = mset (last (qs_queued s') # waiting (rq_state q))"
    unfolding waiting_def new(3) by (subst new(2)) simp
  have "sizes (waiting s') = n + sizes (waiting (rq_state q))"
    "length (waiting s') = 1 + length (waiting (rq_state q))"
    using sizes_mset [OF w] mset_eq_length [OF w] new(5) by simp_all
  moreover have "mm = qs_queued_bytes (rq_state q) + n"
    using fresh(7,8) assms(3) sat_add_exact by metis
  moreover have "b' = b\<lparr>gb_count := gb_count b + 1, gb_bytes := gb_bytes b + n\<rparr>"
    "gb_count b < gb_max_count b" "gb_bytes b + n \<le> gb_max_bytes b"
    using fresh(10) assms(4) sat_add_exact [of "gb_bytes b" n] by (auto simp: reserve_Inr)
  ultimately show ?thesis
    using assms(1,2) fresh(8) new(8)
    by (simp add: books_kept_def accounted_def budget_ok_def same_limits_def fresh(13))
qed

lemma books_supersede:
  assumes "accounted q" "budget_ok c m b q" "gb_max_bytes b < u64_max"
    and "qs_held (rq_state q) = [] \<or> knows_request client q"
    and "supersede_run env client requested payload b q = Inr (ack, dr, act, b', q')"
  shows "books_kept c m b q b' q'"
  using assms(5)
proof (cases rule: supersede_run_cases)
  case retry
  then show ?thesis using assms(1,2) by (simp add: books_kept_def same_limits_def)
next
  case (fresh rid n s0 s')
  note new = live_enter [OF fresh(11)]
  have held: "qs_held (rq_state q) = []" using assms(4) fresh(1) by (simp add: knows_request_def)
  have s0: "qs_queued s0 = []" "qs_held s0 = []" unfolding fresh(10) by (simp_all add: held)
  have "waiting s' = [last (qs_queued s')]"
    unfolding waiting_def new(3) s0 by (subst new(2)) (simp add: s0)
  then have "sizes (waiting s') = n" "length (waiting s') = 1" using new(5) by simp_all
  moreover have "length (waiting (rq_state q)) = length (qs_queued (rq_state q))"
    by (simp add: waiting_def held)
  moreover have "b' = b\<lparr>gb_count := gb_count b - length (qs_queued (rq_state q)) + 1,
      gb_bytes := gb_bytes b - qs_queued_bytes (rq_state q) + n\<rparr>"
    "gb_count b - length (qs_queued (rq_state q)) < gb_max_count b"
    "gb_bytes b - qs_queued_bytes (rq_state q) + n \<le> gb_max_bytes b"
    using fresh(8) assms(3) sat_add_exact [of "gb_bytes b - qs_queued_bytes (rq_state q)" n]
    by (auto simp: replace_queued_Inr)
  ultimately show ?thesis
    using assms(1,2) fresh(6) new(8)
    by (simp add: books_kept_def accounted_def budget_ok_def same_limits_def fresh(14))
qed


lemma books_cancel_all:
  assumes "accounted q" "budget_ok c m b q" "cancel_all_queued reason b q = (dr, b', q')"
  shows "books_kept c m b q b' q'"
proof (rule books_removed [OF assms(1,2)])
  note eqs = assms(3) [unfolded cancel_all_queued_def Let_def prod.inject]
  have dr: "mset dr = mset (waiting (rq_state q))"
    using eqs by (auto simp: waiting_def simp flip: mset_map)
  then have all: "sizes dr = sizes (waiting (rq_state q))" by (rule sizes_mset)
  have w: "waiting (rq_state q') = []" "qs_queued_bytes (rq_state q') = 0"
    "rq_max_queue_bytes q' = rq_max_queue_bytes q"
    using eqs by (auto simp: waiting_def)
  then show "mset (waiting (rq_state q)) = mset (dr @ waiting (rq_state q'))" using dr by simp
  show "qs_queued_bytes (rq_state q') = qs_queued_bytes (rq_state q) - sizes dr"
    using assms(1) w(2) all by (simp add: accounted_def)
  show "rq_max_queue_bytes q' = rq_max_queue_bytes q" by (rule w(3))
  show "b' = foldl (\<lambda>b r. release (sr_payload_bytes r) b) b dr" using eqs by auto
qed

lemma books_same:
  assumes "accounted q" "budget_ok c m b q"
    and "sizes (waiting (rq_state q')) = sizes (waiting (rq_state q))"
    and "length (waiting (rq_state q')) = length (waiting (rq_state q))"
    and "qs_queued_bytes (rq_state q') = qs_queued_bytes (rq_state q)"
    and "rq_max_queue_bytes q' = rq_max_queue_bytes q"
  shows "books_kept c m b q b q'"
  using assms by (simp add: books_kept_def accounted_def budget_ok_def same_limits_def)

lemma books_start:
  assumes "accounted q" "budget_ok c m b q" "start_next epoch b q = Inr (r, ack, b', q')"
  shows "books_kept c m b q b' q'"
  using assms(3)
  by (intro books_removed [OF assms(1,2), of "[r]"]) (auto simp: start_next_Inr waiting_def)

lemma books_drain:
  assumes "accounted q" "budget_ok c m b q" "drain_coalescing_after_first b q = (folded, b', q')"
  shows "books_kept c m b q b' q'"
  using assms(3)
proof (cases rule: drain_cases)
  case quiet
  then show ?thesis using assms(1,2) by (simp add: books_kept_def same_limits_def)
next
  case (front front rest n s1)
  have "mset (take n rest) + mset (drop n rest) = mset rest" by (rule mset_take_drop)
  then show ?thesis
    by (intro books_removed [OF assms(1,2), of "take n rest"])
      (simp_all add: front(1,4,5,6) waiting_def subtract_all)
qed

lemma books_cancel:
  assumes "accounted q" "budget_ok c m b q" "cancel_queued rid reason b q = Inr (r, b', q')"
  shows "books_kept c m b q b' q'"
  using assms(3)
proof (cases rule: cancel_queued_cases)
  case (1 s1)
  then show ?thesis
    by (intro books_removed [OF assms(1,2), of "[r]"]) (simp_all add: waiting_def)
qed

lemma books_park:
  assumes "accounted q" "budget_ok c m b q" "park_stale env boundary q = (parked, q')"
  shows "books_kept c m b q b q'"
proof (rule books_same [OF assms(1,2)])
  note moves = park_moves [OF assms(3)]
  show "sizes (waiting (rq_state q')) = sizes (waiting (rq_state q))"
    "length (waiting (rq_state q')) = length (waiting (rq_state q))"
    using sizes_mset [OF moves(1)] mset_eq_length [OF moves(1)] by simp_all
qed (subst park_moves(2) [OF assms(3)], simp)+

lemma books_release:
  assumes "accounted q" "budget_ok c m b q" "release_held env rid q = Inr (r, q')"
  shows "books_kept c m b q b q'"
  using assms(3)
proof (cases rule: release_held_cases)
  case (1 h rest)
  note held = mset_take_first(1) [OF 1(1)]
  have "sizes (insert_in_order r (qs_queued (rq_state q))) = sr_payload_bytes r + sizes (qs_queued (rq_state q))"
    using sizes_mset [OF mset_insert_in_order [of r "qs_queued (rq_state q)", folded mset.simps(2)]]
    by simp
  moreover have "mset (map hr_request (qs_held (rq_state q))) = mset (map hr_request (h # rest))"
    using held by (metis image_mset_add_mset mset.simps(2) mset_map)
  then have "sizes (map hr_request (qs_held (rq_state q))) = sr_payload_bytes r + sizes (map hr_request rest)"
    "length (qs_held (rq_state q)) = 1 + length rest"
    using sizes_mset mset_eq_length 1(2) by fastforce+
  moreover have "length (insert_in_order r (qs_queued (rq_state q))) = 1 + length (qs_queued (rq_state q))"
    using mset_eq_length [OF mset_insert_in_order [of r "qs_queued (rq_state q)", folded mset.simps(2)]]
    by simp
  ultimately show ?thesis
    unfolding 1(3) by (intro books_same [OF assms(1,2)]) (simp_all add: waiting_def)
qed

lemma books_unchanged:
  assumes "accounted q" "budget_ok c m b q"
  shows "books_kept c m b q b q"
  using assms by (simp add: books_kept_def same_limits_def)

lemma exec_books:
  assumes "accounted q" "budget_ok c m b q" "rq_max_queue_bytes q < u64_max"
    and "gb_max_bytes b < u64_max" "clean_op op q" "exec_op env op b q = (st, dr, b', q')"
  shows "books_kept c m b q b' q'"
proof (cases op)
  case (OpSupersede client requested payload)
  then have "qs_held (rq_state q) = [] \<or> knows_request client q" using assms(5) by simp
  from books_supersede [OF assms(1,2,4) this] show ?thesis
    using assms(6) OpSupersede books_unchanged [OF assms(1,2)] by (auto split: sum.splits)
next
  case (OpPark boundary)
  then show ?thesis using assms(6) books_park [OF assms(1,2), of env boundary]
    by (simp add: prod_eq_iff)
next
  case (OpDropPayload rid)
  have "books_kept c m b q b (release_active_payload rid q)"
    by (intro books_same [OF assms(1,2)])
      (auto simp: release_active_payload_def Let_def waiting_def split: option.split)
  then show ?thesis using assms(6) OpDropPayload by simp
next
  case (OpFinish rid)
  have "books_kept c m b q b q1" if "finish_active rid q = Inr q1" for q1
    using that by (intro books_same [OF assms(1,2)]) (auto simp: finish_active_Inr waiting_def)
  then show ?thesis using assms(6) OpFinish books_unchanged [OF assms(1,2)]
    by (auto split: sum.splits)
qed (use assms(6) books_unchanged [OF assms(1,2)] in \<open>auto split: sum.splits prod.splits
      dest: books_accept [OF assms(1-4)] books_start [OF assms(1,2)] books_drain [OF assms(1,2)]
        books_cancel [OF assms(1,2)] books_cancel_all [OF assms(1,2)] books_release [OF assms(1,2)]\<close>)

section \<open>All sessions\<close>

inductive hub_run :: "queue_budget \<Rightarrow> queue_budget \<Rightarrow> run_queue list \<Rightarrow> bool" for b0 where
  empty: "hub_run b0 b0 []"
| open_session: "hub_run b0 b qs \<Longrightarrow>
    hub_run b0 b (qs @ [with_limits_and_global session_id n capacity max_bytes max_request acks])"
| call: "hub_run b0 b qs \<Longrightarrow> i < length qs \<Longrightarrow> clean_op op (qs ! i)
    \<Longrightarrow> exec_op env op b (qs ! i) = (st, dr, b', q') \<Longrightarrow> hub_run b0 b' (qs[i := q'])"

definition waiting_count :: "run_queue list \<Rightarrow> nat" where
  "waiting_count qs = (\<Sum>q\<leftarrow>qs. length (waiting (rq_state q)))"

definition waiting_bytes :: "run_queue list \<Rightarrow> nat" where
  "waiting_bytes qs = (\<Sum>q\<leftarrow>qs. sizes (waiting (rq_state q)))"

lemma sum_list_split_nth:
  fixes f :: "'a \<Rightarrow> nat"
  assumes "i < length xs"
  shows "\<exists>c. (\<Sum>x\<leftarrow>xs. f x) = c + f (xs ! i) \<and> (\<forall>y. (\<Sum>x\<leftarrow>xs[i := y]. f x) = c + f y)"
proof -
  let ?c = "(\<Sum>x\<leftarrow>take i xs. f x) + (\<Sum>x\<leftarrow>drop (Suc i) xs. f x)"
  have "(\<Sum>x\<leftarrow>xs. f x) = ?c + f (xs ! i)"
    using arg_cong [OF id_take_nth_drop [OF assms], of "\<lambda>l. \<Sum>x\<leftarrow>l. f x"] by simp
  moreover have "(\<Sum>x\<leftarrow>xs[i := y]. f x) = ?c + f y" for y
    by (simp add: upd_conv_take_nth_drop [OF assms])
  ultimately show ?thesis by blast
qed

definition hub_ok :: "queue_budget \<Rightarrow> queue_budget \<Rightarrow> run_queue list \<Rightarrow> bool" where
  "hub_ok b0 b qs \<longleftrightarrow> (\<forall>q \<in> set qs. accounted q)
     \<and> gb_count b = waiting_count qs \<and> gb_bytes b = waiting_bytes qs
     \<and> gb_count b \<le> gb_max_count b \<and> gb_bytes b \<le> gb_max_bytes b
     \<and> gb_max_count b = gb_max_count b0 \<and> gb_max_bytes b = gb_max_bytes b0"

lemma hub_call_ok:
  assumes "hub_ok b0 b qs" "i < length qs" "rq_max_queue_bytes (qs ! i) < u64_max"
    and "gb_max_bytes b0 < u64_max" "clean_op op (qs ! i)"
    and "exec_op env op b (qs ! i) = (st, dr, b', q')"
  shows "hub_ok b0 b' (qs[i := q']) \<and> rq_max_queue_bytes q' = rq_max_queue_bytes (qs ! i)"
proof -
  obtain c where c: "waiting_count qs = c + length (waiting (rq_state (qs ! i)))"
    "waiting_count (qs[i := q']) = c + length (waiting (rq_state q'))"
    using sum_list_split_nth [OF assms(2), of "\<lambda>q. length (waiting (rq_state q))"]
    unfolding waiting_count_def by blast
  obtain m where m: "waiting_bytes qs = m + sizes (waiting (rq_state (qs ! i)))"
    "waiting_bytes (qs[i := q']) = m + sizes (waiting (rq_state q'))"
    using sum_list_split_nth [OF assms(2), of "\<lambda>q. sizes (waiting (rq_state q))"]
    unfolding waiting_bytes_def by blast
  have ok: "accounted (qs ! i)" "budget_ok c m b (qs ! i)" "gb_max_bytes b < u64_max"
    using assms(1,2,4) c(1) m(1) by (simp_all add: hub_ok_def budget_ok_def)
  have "books_kept c m b (qs ! i) b' q'"
    using exec_books [OF ok(1,2) assms(3) ok(3) assms(5,6)] .
  moreover have "\<forall>q \<in> set (qs[i := q']). accounted q" if "accounted q'"
    using that assms(1) set_update_subset_insert [of qs i q'] by (auto simp: hub_ok_def)
  ultimately show ?thesis
    using assms(1) c(2) m(2)
    by (simp add: hub_ok_def books_kept_def budget_ok_def same_limits_def)
qed

lemma exec_state:
  assumes "exec_op env op b q = (st, dr, b', q')"
  shows "\<exists>s. q' = q\<lparr>rq_state := s\<rparr>"
proof -
  have same: "\<exists>s. q = q\<lparr>rq_state := s\<rparr>" by (rule exI [of _ "rq_state q"]) simp
  show ?thesis
  proof (cases op)
    case (OpAccept client requested policy payload)
    then show ?thesis using assms same by (auto split: sum.splits elim!: accept_run_cases)
  next
    case (OpSupersede client requested payload)
    then show ?thesis using assms same by (auto split: sum.splits elim!: supersede_run_cases)
  next
    case (OpStart epoch)
    then show ?thesis using assms same by (auto simp: start_next_Inr split: sum.splits)
  next
    case OpFold
    then show ?thesis using assms same by (auto split: prod.splits elim!: drain_cases)
  next
    case (OpFinish rid)
    then show ?thesis using assms same by (auto simp: finish_active_Inr split: sum.splits)
  next
    case (OpCancel rid reason)
    then show ?thesis using assms same by (auto split: sum.splits elim!: cancel_queued_cases)
  next
    case (OpCancelAll reason)
    then show ?thesis using assms by (auto simp: cancel_all_queued_def Let_def)
  next
    case (OpPark boundary)
    then show ?thesis using assms by (auto simp: park_stale_eq)
  next
    case (OpRelease rid)
    then show ?thesis using assms same by (auto split: sum.splits elim!: release_held_cases)
  next
    case (OpDropPayload rid)
    then show ?thesis using assms same
      by (auto simp: release_active_payload_def Let_def split: option.splits if_splits)
  qed
qed

lemma hub_run_ok:
  assumes "hub_run b0 b qs" "hub_ok b0 b0 []" "gb_max_bytes b0 < u64_max"
    and "\<forall>q \<in> set qs. rq_max_queue_bytes q < u64_max"
  shows "hub_ok b0 b qs"
  using assms(1,4)
proof induction
  case empty
  show ?case by (rule assms(2))
next
  case (open_session b qs session_id n capacity max_bytes max_request acks)
  then have "hub_ok b0 b qs" by simp
  then show ?case
    by (auto simp: hub_ok_def waiting_count_def waiting_bytes_def accounted_def
        with_limits_and_global_def waiting_def)
next
  case (call b qs i op env st dr b' q')
  obtain s where "q' = (qs ! i)\<lparr>rq_state := s\<rparr>" using exec_state [OF call(4)] by blast
  then have lim: "rq_max_queue_bytes q' = rq_max_queue_bytes (qs ! i)" by simp
  have below: "\<forall>q \<in> set qs. rq_max_queue_bytes q < u64_max"
  proof
    fix q assume "q \<in> set qs"
    then obtain j where j: "j < length qs" "q = qs ! j" by (auto simp: in_set_conv_nth)
    then have "qs[i := q'] ! j \<in> set (qs[i := q'])" by (intro nth_mem) simp
    then show "rq_max_queue_bytes q < u64_max"
      using call.prems j lim by (cases "j = i") auto
  qed
  have "qs ! i \<in> set qs" using call.hyps(2) by (rule nth_mem)
  then show ?case
    using hub_call_ok [OF call.IH [OF below] call.hyps(2) _ assms(3) call.hyps(3,4)] below by blast
qed

text \<open>C23: The budget the sessions share counts exactly what waits: in everything the hub can
  reach, with byte limits below the largest \<open>usize\<close> and no queue superseded while it holds parked
  prompts, the budget's count and bytes are the sums over all queued and parked prompts of all
  sessions, both stay within their limits, and each queue's own byte count is the size of what
  waits in it and within its limit.\<close>

theorem shared_budget_exact:
  assumes "hub_run (new_budget max_count max_bytes) b qs" "max_bytes < u64_max"
    and "\<forall>q \<in> set qs. rq_max_queue_bytes q < u64_max"
  shows "gb_count b = (\<Sum>q\<leftarrow>qs. length (queued_runs q))
    \<and> gb_bytes b = (\<Sum>q\<leftarrow>qs. sizes (queued_runs q))
    \<and> gb_count b \<le> max_count \<and> gb_bytes b \<le> max_bytes
    \<and> (\<forall>q \<in> set qs. qs_queued_bytes (rq_state q) = sizes (queued_runs q)
         \<and> qs_queued_bytes (rq_state q) \<le> rq_max_queue_bytes q)"
proof -
  have "hub_ok (new_budget max_count max_bytes) b qs"
    by (rule hub_run_ok [OF assms(1) _ _ assms(3)])
      (simp_all add: hub_ok_def new_budget_def waiting_count_def waiting_bytes_def assms(2))
  moreover have view: "mset (queued_runs q) = mset (waiting (rq_state q))" for q
    by (simp add: queued_runs_def waiting_def)
  then have "sizes (queued_runs q) = sizes (waiting (rq_state q))"
    "length (queued_runs q) = length (waiting (rq_state q))" for q
    using sizes_mset [OF view] mset_eq_length [OF view] by simp_all
  ultimately show ?thesis
    by (auto simp: hub_ok_def accounted_def waiting_count_def waiting_bytes_def new_budget_def)
qed

section \<open>Parked prompts and the limits\<close>

text \<open>Superseding a queue that holds parked prompts gives their bytes back although they keep
  waiting: afterwards both the session's byte count and the shared budget are short by exactly
  the size of the parked prompts (and cancelling one of those later gives its bytes back again,
  out of what other sessions reserved).\<close>

theorem superseding_forgets_parked_bytes:
  assumes "accounted q" "budget_ok c m b q" "gb_max_bytes b < u64_max"
    and "\<not> knows_request client q"
    and "supersede_run env client requested payload b q = Inr (ack, cancelled, active, b', q')"
  shows "qs_held (rq_state q') = qs_held (rq_state q)
    \<and> qs_queued_bytes (rq_state q') + sizes (map hr_request (qs_held (rq_state q)))
        = sizes (queued_runs q')
    \<and> gb_bytes b' + sizes (map hr_request (qs_held (rq_state q))) = m + sizes (queued_runs q')
    \<and> gb_count b' = c + length (queued_runs q')"
  using assms(5)
proof (cases rule: supersede_run_cases)
  case retry
  then show ?thesis using assms(4) by (simp add: knows_request_def)
next
  case (fresh rid n s0 s')
  note new = live_enter [OF fresh(11)]
  have s0: "qs_queued s0 = []" "qs_held s0 = qs_held (rq_state q)"
    unfolding fresh(10) by simp_all
  define l where "l = last (qs_queued s')"
  have queued: "qs_queued s' = [l]"
    using new(2) unfolding s0(1) append_Nil l_def .
  have held: "qs_held s' = qs_held (rq_state q)" by (simp only: new(3) s0)
  have "mset (queued_runs q') = mset (l # map hr_request (qs_held (rq_state q)))"
    by (simp add: queued_runs_def fresh(14) queued held)
  then have all: "sizes (queued_runs q') = n + sizes (map hr_request (qs_held (rq_state q)))"
    "length (queued_runs q') = 1 + length (qs_held (rq_state q))"
    using sizes_mset mset_eq_length new(5) unfolding l_def by fastforce+
  have "gb_count b = c + length (qs_queued (rq_state q)) + length (qs_held (rq_state q))"
    "gb_bytes b = m + qs_queued_bytes (rq_state q)"
    using assms(1,2) by (simp_all add: budget_ok_def accounted_def waiting_def)
  moreover have "b' = b\<lparr>gb_count := gb_count b - length (qs_queued (rq_state q)) + 1,
      gb_bytes := gb_bytes b - qs_queued_bytes (rq_state q) + n\<rparr>"
    using fresh(8) assms(3) sat_add_exact [of "gb_bytes b - qs_queued_bytes (rq_state q)" n]
    by (auto simp: replace_queued_Inr)
  ultimately show ?thesis using all new(8) by (simp add: fresh(14) held)
qed

section \<open>A small session\<close>

definition session_env :: queue_env where
  "session_env = \<lparr>qe_text = (\<lambda>v. case v of JStr s \<Rightarrow> s | _ \<Rightarrow> ''null''), qe_sha256 = (\<lambda>_. ''d''),
     qe_uuid = ''u'', qe_now = ''t'', qe_age = (\<lambda>_. Some 700)\<rparr>"

definition demo_budget :: queue_budget where
  "demo_budget = new_budget 8 100"

definition demo_queue :: run_queue where
  "demo_queue = with_limits_and_global ''s'' 1 1 64 64 4"

definition demo_request :: "string \<Rightarrow> string \<Rightarrow> u64 \<Rightarrow> string \<Rightarrow> scheduled_run" where
  "demo_request client rid n msg = \<lparr>sr_session_id = ''s'', sr_run_id = rid, sr_run_sequence = n,
     sr_client_request_id = client,
     sr_request_digest = request_digest session_env (Some rid) EnqueueCoalescing (JStr msg),
     sr_busy_policy = EnqueueCoalescing, sr_payload = JStr msg, sr_accepted_at = ''t'',
     sr_payload_bytes = length msg\<rparr>"

lemma demo_request_simps [simp]:
  "sr_run_id (demo_request client rid n msg) = rid"
  "sr_run_sequence (demo_request client rid n msg) = n"
  "sr_client_request_id (demo_request client rid n msg) = client"
  "sr_payload_bytes (demo_request client rid n msg) = length msg"
  "sr_busy_policy (demo_request client rid n msg) = EnqueueCoalescing"
  "sr_accepted_at (demo_request client rid n msg) = ''t''"
  by (simp_all add: demo_request_def)

definition demo_state :: "scheduled_run list \<Rightarrow> held_run list \<Rightarrow> queue_state" where
  "demo_state queued held = \<lparr>qs_next_sequence = 2, qs_active = None, qs_queued = queued,
     qs_held = held, qs_queued_bytes = 5,
     qs_requests = [''c1'' \<mapsto> \<lparr>ri_digest = request_digest session_env (Some ''r1'') EnqueueCoalescing (JStr ''hello''),
       ri_run_id = ''r1'', ri_run_sequence = 1\<rparr>],
     qs_run_ids = {''r1''}, qs_terminal_acks = []\<rparr>"

lemma demo_state_simps [simp]:
  "qs_next_sequence (demo_state rs hs) = 2" "qs_active (demo_state rs hs) = None"
  "qs_queued (demo_state rs hs) = rs" "qs_held (demo_state rs hs) = hs"
  "qs_queued_bytes (demo_state rs hs) = 5" "qs_run_ids (demo_state rs hs) = {''r1''}"
  "qs_terminal_acks (demo_state rs hs) = []"
  by (simp_all add: demo_state_def)

lemma demo_names: "\<not> blank ''c1''" "\<not> blank ''c2''" "\<not> unsafe_run_id ''r1''" "\<not> unsafe_run_id ''r2''"
  by code_simp+

abbreviation demo_first :: scheduled_run where
  "demo_first \<equiv> demo_request ''c1'' ''r1'' 1 ''hello''"

abbreviation demo_queued :: run_queue where
  "demo_queued \<equiv> demo_queue\<lparr>rq_state := demo_state [demo_first] []\<rparr>"

lemma demo_accepted:
  "accept_run session_env ''c1'' (Some ''r1'') EnqueueCoalescing (JStr ''hello'') demo_budget demo_queue
   = Inr (ack_queued ''r1'' 1 1, demo_budget\<lparr>gb_count := 1, gb_bytes := 5\<rparr>, demo_queued)"
  by (simp add: accept_run_def demo_names demo_queue_def with_limits_and_global_def demo_budget_def
      new_budget_def reserve_def chosen_run_id_def saturating_add_u64_def u64_max_def
      enter_queue_def demo_request_def demo_state_def Let_def)
    (simp add: session_env_def)

lemma accepted_run: "queue_run demo_queue demo_queued [] []"
  using queue_run.step [OF queue_run.opened [of demo_queue], of session_env
      "OpAccept ''c1'' (Some ''r1'') EnqueueCoalescing (JStr ''hello'')" demo_budget]
  by (simp add: demo_accepted)


theorem every_accepted_run_once_witness:
  "mset (map sr_run_sequence ([] @ [] @ queued_runs demo_queued)) = mset [1..<2]
   \<and> sorted_wrt (<) (map sr_run_sequence (qs_queued (rq_state demo_queued)))"
  using every_accepted_run_once [OF accepted_run [unfolded demo_queue_def]] by (simp add: demo_queue_def)

theorem retry_answers_same_run_witness:
  "\<exists>ack. ra_run_id ack = ''r1'' \<and> ra_queue_position ack = Some 1
     \<and> accept_run session_env ''c1'' (Some ''r1'') EnqueueCoalescing (JStr ''hello'') demo_budget demo_queued
       = Inr (ack, demo_budget, demo_queued)"
proof -
  have "demo_first \<in> set (live (rq_state demo_queued))" by (simp add: live_def waiting_def)
  moreover have "\<not> blank (sr_client_request_id demo_first)" by (simp add: demo_names)
  moreover have "sr_request_digest demo_first
      = request_digest session_env (Some ''r1'') EnqueueCoalescing (JStr ''hello'')"
    by (simp add: demo_request_def)
  ultimately show ?thesis
    using retry_answers_same_run [OF accepted_run [unfolded demo_queue_def], of demo_first session_env "Some ''r1''"
        EnqueueCoalescing "JStr ''hello''" demo_budget]
    unfolding demo_queue_def [symmetric] by auto
qed

abbreviation demo_burst :: run_queue where
  "demo_burst \<equiv> demo_queue\<lparr>rq_state := demo_state
     [demo_first, demo_request ''c2'' ''r2'' 2 ''more'', demo_request ''c3'' ''r3'' 3 ''last''] []\<rparr>"

theorem folding_takes_longest_prefix_witness:
  "fst (drain_coalescing_after_first demo_budget demo_burst)
     = [demo_request ''c2'' ''r2'' 2 ''more'', demo_request ''c3'' ''r3'' 3 ''last'']
   \<and> sizes (demo_first # fst (drain_coalescing_after_first demo_budget demo_burst)) \<le> 64"
proof -
  obtain folded b' q' where d: "drain_coalescing_after_first demo_budget demo_burst = (folded, b', q')"
    by (rule prod_cases3)
  have "folded = [demo_request ''c2'' ''r2'' 2 ''more'', demo_request ''c3'' ''r3'' 3 ''last'']"
    using d by (simp add: drain_coalescing_after_first_def demo_queue_def with_limits_and_global_def Let_def)
  moreover have "sizes (demo_first # folded) \<le> 64"
    using folding_takes_longest_prefix [OF _ _ d] by (simp add: demo_queue_def with_limits_and_global_def)
  ultimately show ?thesis using d by simp
qed

abbreviation parked_queue :: run_queue where
  "parked_queue \<equiv> demo_queue\<lparr>rq_state := demo_state [] [\<lparr>hr_request = demo_first, hr_reason = TooOld\<rparr>]\<rparr>"

lemma demo_parked: "park_stale session_env Idle demo_queued = ([\<lparr>pk_run_id = ''r1'', pk_reason = TooOld\<rparr>], parked_queue)"
  by (simp add: park_stale_eq park_verdict_def map_filter_simps demo_queue_def with_limits_and_global_def
      QUEUED_RUN_STALE_AFTER_def demo_state_def) (simp add: session_env_def)

theorem parking_exact_witness:
  "\<exists>r q'. release_held session_env ''r1'' parked_queue = Inr (r, q')
     \<and> r \<in> set (qs_queued (rq_state (snd (park_stale (session_env\<lparr>qe_age := \<lambda>_. Some 5\<rparr>) Idle q'))))"
proof -
  obtain r q' where "release_held session_env ''r1'' parked_queue = Inr (r, q')"
    by (simp add: release_held_def Let_def)
  then show ?thesis
    using parking_exact [where env = session_env and boundary = Idle and q = parked_queue
        and rid = "''r1''" and later = "session_env\<lparr>qe_age := \<lambda>_. Some 5\<rparr>" and age = 5]
    by (simp add: demo_queue_def with_limits_and_global_def QUEUED_RUN_STALE_AFTER_def)
qed

lemma demo_hub: "hub_run demo_budget (demo_budget\<lparr>gb_count := 1, gb_bytes := 5\<rparr>) [demo_queued]"
proof -
  have "hub_run demo_budget demo_budget [demo_queue]"
    using hub_run.open_session [OF hub_run.empty [of demo_budget], of "''s''" 1 1 64 64 4]
    by (simp add: demo_queue_def)
  from hub_run.call [OF this, of 0 "OpAccept ''c1'' (Some ''r1'') EnqueueCoalescing (JStr ''hello'')" session_env]
  show ?thesis by (simp add: demo_accepted)
qed

theorem shared_budget_exact_witness:
  "gb_count (demo_budget\<lparr>gb_count := 1, gb_bytes := 5\<rparr>) = (\<Sum>q\<leftarrow>[demo_queued]. length (queued_runs q))
   \<and> (\<Sum>q\<leftarrow>[demo_queued]. sizes (queued_runs q)) = 5"
  using shared_budget_exact [OF demo_hub [unfolded demo_budget_def]]
  by (simp add: u64_max_def demo_queue_def with_limits_and_global_def)

lemma demo_superseded:
  "\<exists>b' q'. supersede_run session_env ''c2'' (Some ''r2'') (JStr ''hi'')
      (demo_budget\<lparr>gb_count := 1, gb_bytes := 5\<rparr>) parked_queue
    = Inr (ack_queued ''r2'' 2 1, [], None, b', q')"
  by (simp add: supersede_run_def demo_names demo_queue_def with_limits_and_global_def demo_budget_def
      new_budget_def replace_queued_def chosen_run_id_def saturating_add_u64_def u64_max_def
      enter_queue_def demo_state_def Let_def)
    (simp add: session_env_def)

theorem superseding_forgets_parked_bytes_witness:
  "\<exists>ack b' q'. supersede_run session_env ''c2'' (Some ''r2'') (JStr ''hi'')
      (demo_budget\<lparr>gb_count := 1, gb_bytes := 5\<rparr>) parked_queue = Inr (ack, [], None, b', q')
    \<and> gb_bytes b' + 5 = sizes (queued_runs q') \<and> qs_queued_bytes (rq_state q') + 5 = sizes (queued_runs q')"
proof -
  obtain b' q' where s: "supersede_run session_env ''c2'' (Some ''r2'') (JStr ''hi'')
      (demo_budget\<lparr>gb_count := 1, gb_bytes := 5\<rparr>) parked_queue
    = Inr (ack_queued ''r2'' 2 1, [], None, b', q')"
    using demo_superseded by blast
  have "accounted parked_queue" "budget_ok 0 0 (demo_budget\<lparr>gb_count := 1, gb_bytes := 5\<rparr>) parked_queue"
    "gb_max_bytes (demo_budget\<lparr>gb_count := 1, gb_bytes := 5\<rparr>) < u64_max"
    "\<not> knows_request ''c2'' parked_queue"
    by (simp_all add: accounted_def budget_ok_def waiting_def demo_queue_def with_limits_and_global_def
        demo_budget_def new_budget_def u64_max_def knows_request_def demo_state_def)
  from superseding_forgets_parked_bytes [OF this s] s show ?thesis by simp
qed

text \<open>Parked prompts are not counted by the limit on a session's queue either: with room for one
  prompt, one parked and one accepted behind it, releasing the parked one puts two in line.\<close>

lemma parked_prompts_escape_capacity:
  assumes "length (qs_queued (rq_state q)) = rq_capacity q" "is_held rid q"
  shows "\<exists>r q'. release_held env rid q = Inr (r, q')
    \<and> length (qs_queued (rq_state q')) = rq_capacity q' + 1"
proof -
  have "take_first (\<lambda>h. sr_run_id (hr_request h) = rid) hs \<noteq> None"
    if "list_ex (\<lambda>h. sr_run_id (hr_request h) = rid) hs" for hs
    using that by (induction hs) (auto split: option.splits)
  then obtain h rest where
    h: "take_first (\<lambda>h. sr_run_id (hr_request h) = rid) (qs_held (rq_state q)) = Some (h, rest)"
    using assms(2) unfolding is_held_def by fastforce
  show ?thesis
    using assms(1) mset_eq_length [OF mset_insert_in_order [of _ "qs_queued (rq_state q)", folded mset.simps(2)]]
    by (simp add: release_held_def h Let_def)
qed

end
