(* ===== verification/Run_Ownership.thy ===== *)
theory Run_Ownership
  imports Run_Control
begin

text \<open>
  What sequences of operations on one session runtime (\<open>Run_Control\<close>) keep: the step relation, the
  invariants of the lifecycle, and the properties built on them.
\<close>

section \<open>Steps\<close>

text \<open>The operations under a lease that only take the control lock.\<close>

datatype control_op =
    Install run_lease nat nat
  | BeginFinalizing run_lease
  | MarkStuck run_lease
  | MarkDegraded run_lease

fun exec_control :: "control_op \<Rightarrow> run_control \<Rightarrow> bool \<times> run_control" where
  "exec_control (Install lease tx flag) c = install_cancellation lease tx flag c"
| "exec_control (BeginFinalizing lease) c = begin_finalizing lease c"
| "exec_control (MarkStuck lease) c = mark_stuck lease c"
| "exec_control (MarkDegraded lease) c = mark_persistence_degraded lease c"

text \<open>The two only the run's own task performs: they are over once its monitor has the exit.\<close>

fun task_op :: "control_op \<Rightarrow> bool" where
  "task_op (Install _ _ _) = True"
| "task_op (BeginFinalizing _) = True"
| "task_op _ = False"

text \<open>The operations that take the task lock wait while the monitor holds it, and the session
  spawns the task of the run that is active.\<close>

inductive quiet_step :: "session_runtime \<Rightarrow> session_runtime \<Rightarrow> bool" where
  control: "task_op op \<longrightarrow> rt_monitor t = None \<Longrightarrow> exec_control op (rt_control t) = (ok, c)
    \<Longrightarrow> quiet_step t (t\<lparr>rt_control := c\<rparr>)"
| cancels: "request_cancellation expected system t = Inr t' \<Longrightarrow> quiet_step t t'"
| timer_stops: "quiet_step t (stop_cancellation_timer t)"
| timer_fires: "quiet_step t (timer_check t)"
| timer_marks: "quiet_step t (timer_mark t)"
| finishes: "rt_monitor t = None \<Longrightarrow> runtime_finish lease t = (ok, t') \<Longrightarrow> quiet_step t t'"
| recovers: "rt_monitor t = None \<Longrightarrow> recover_persistence_degraded lease t = (ok, t')
    \<Longrightarrow> quiet_step t t'"
| fault_finishes: "rt_monitor t = None \<Longrightarrow> finish_cancelled_fault lease t = (ok, t')
    \<Longrightarrow> quiet_step t t'"
| spawns: "rt_monitor t = None \<Longrightarrow> map_option ar_lease (rc_active (rt_control t)) = Some lease
    \<Longrightarrow> spawn_task lease t = Inr t' \<Longrightarrow> quiet_step t t'"
| exits: "rt_monitor t = None \<Longrightarrow> quiet_step t (monitor_check failed t)"
| monitors: "quiet_step t (monitor_act t)"

text \<open>Everything a session does: quiet steps, and beginnings, each granting a lease.\<close>

inductive runtime_steps :: "session_runtime \<Rightarrow> run_lease list \<Rightarrow> session_runtime \<Rightarrow> bool" for t0 where
  none: "runtime_steps t0 [] t0"
| quiet: "runtime_steps t0 ls t \<Longrightarrow> quiet_step t t' \<Longrightarrow> runtime_steps t0 ls t'"
| begins: "runtime_steps t0 ls t \<Longrightarrow> rt_monitor t = None
    \<Longrightarrow> runtime_begin generated requested client sequence t = Inr (lease, t')
    \<Longrightarrow> runtime_steps t0 (ls @ [lease]) t'"

section \<open>What one operation does to the active run\<close>

text \<open>The session is left to nobody, or the same run goes on: a user's stop stays one, and a run
  past its cancellation point stays past it.\<close>

definition past_point :: "run_phase \<Rightarrow> bool" where
  "past_point p \<longleftrightarrow> \<not> abortable p"

definition same_run :: "active_run option \<Rightarrow> active_run option \<Rightarrow> bool" where
  "same_run a a' \<longleftrightarrow> (case a' of None \<Rightarrow> True
     | Some y \<Rightarrow> (case a of None \<Rightarrow> False
         | Some x \<Rightarrow> ar_lease y = ar_lease x \<and> ar_client_request_id y = ar_client_request_id x
             \<and> (ar_cancellation x = Some User \<longrightarrow> ar_cancellation y = Some User)
             \<and> (past_point (ar_phase x) \<longrightarrow> past_point (ar_phase y)
                  \<and> ar_cancellation y = ar_cancellation x)))"

lemma same_run_refl [simp]: "same_run a a"
  by (simp add: same_run_def split: option.split)

lemma same_run_None [simp]: "same_run a None"
  by (simp add: same_run_def)

lemma same_run_trans: "same_run a b \<Longrightarrow> same_run b c \<Longrightarrow> same_run a c"
  by (auto simp: same_run_def split: option.splits)

lemma past_point_iff: "past_point p \<longleftrightarrow> p = Finalizing \<or> p = CancellationStuck \<or> p = PersistenceDegraded"
  by (cases p) (simp_all add: past_point_def)

text \<open>The books of the control state: the flag and the counter say whether a run is active.\<close>

definition control_ok :: "run_control \<Rightarrow> bool" where
  "control_ok c \<longleftrightarrow> (rc_is_streaming c \<longleftrightarrow> rc_active c \<noteq> None)
     \<and> rc_active_tasks c = (if rc_active c = None then 0 else 1)
     \<and> length (rc_recent_requests c) \<le> 64
     \<and> (case rc_active c of None \<Rightarrow> True | Some a \<Rightarrow> le_epoch (ar_lease a) = rc_epoch c)"

definition kept :: "run_control \<Rightarrow> run_control \<Rightarrow> bool" where
  "kept c c' \<longleftrightarrow> (control_ok c \<longrightarrow> control_ok c') \<and> same_run (rc_active c) (rc_active c')
     \<and> rc_epoch c' = rc_epoch c"

lemma kept_refl [simp]: "kept c c" by (simp add: kept_def)

lemma kept_trans: "kept a b \<Longrightarrow> kept b c \<Longrightarrow> kept a c"
  by (auto simp: kept_def intro: same_run_trans)

lemmas kept_defs = kept_def control_ok_def same_run_def past_point_def stale_def

lemma install_kept: "install_cancellation lease tx flag c = (ok, c') \<Longrightarrow> kept c c'"
  by (auto simp: install_cancellation_def Let_def kept_defs split: option.splits if_splits)

lemma begin_finalizing_kept: "begin_finalizing lease c = (ok, c') \<Longrightarrow> kept c c'"
  by (auto simp: begin_finalizing_def kept_defs split: option.splits if_splits)

lemma mark_stuck_kept: "mark_stuck lease c = (ok, c') \<Longrightarrow> kept c c'"
  by (auto simp: mark_stuck_def kept_defs split: option.splits if_splits)

lemma mark_degraded_kept: "mark_persistence_degraded lease c = (ok, c') \<Longrightarrow> kept c c'"
  by (auto simp: mark_persistence_degraded_def kept_defs split: option.splits if_splits)

lemma wrapping_pred_1: "wrapping_pred (Suc 0) = 0" "wrapping_succ 0 = 1"
  by (simp_all add: wrapping_pred_def wrapping_succ_def)

lemma finish_kept: "finish lease c = (ok, c') \<Longrightarrow> kept c c'"
  by (auto simp: finish_def kept_defs wrapping_pred_1 split: option.splits if_splits)

lemma cancel_kept: "cancel_expected expected system c = Inr (s, c') \<Longrightarrow> kept c c'"
  by (auto simp: cancel_expected_def Let_def kept_defs split: option.splits sum.splits if_splits)

lemma exec_control_kept: "exec_control op c = (ok, c') \<Longrightarrow> kept c c'"
  by (cases op) (auto dest: install_kept begin_finalizing_kept mark_stuck_kept mark_degraded_kept)

lemma recover_kept: "recover_degraded lease c = (ok, c') \<Longrightarrow> kept c c'"
  by (auto simp: recover_degraded_def finish_def kept_defs wrapping_pred_1
      split: option.splits if_splits)

section \<open>The slot\<close>

abbreviation active_lease :: "run_control \<Rightarrow> run_lease option" where
  "active_lease c \<equiv> map_option ar_lease (rc_active c)"

definition slot_ok :: "session_runtime \<Rightarrow> bool" where
  "slot_ok t \<longleftrightarrow> (rt_task t = None \<or> active_lease (rt_control t) = rt_task t)
     \<and> (rt_monitor t \<noteq> None \<longrightarrow> rt_task t \<noteq> None)
     \<and> (rt_monitor t = Some Leave \<longrightarrow> is_terminal_unrecoverable (rt_control t))"

definition runtime_inv :: "session_runtime \<Rightarrow> bool" where
  "runtime_inv t \<longleftrightarrow> control_ok (rt_control t) \<and> slot_ok t"

text \<open>An operation on the control state the monitor may be waiting behind.\<close>

definition steady :: "run_control \<Rightarrow> run_control \<Rightarrow> bool" where
  "steady c c' \<longleftrightarrow> kept c c' \<and> active_lease c' = active_lease c
     \<and> (is_terminal_unrecoverable c \<longrightarrow> is_terminal_unrecoverable c')"

lemma mark_stuck_steady: "steady c (snd (mark_stuck lease c))"
  using mark_stuck_kept [of lease c "fst (mark_stuck lease c)" "snd (mark_stuck lease c)"]
  by (auto simp: steady_def mark_stuck_def is_terminal_unrecoverable_def split: option.split)

lemma cancel_steady:
  assumes "cancel_expected expected system c = Inr (s, c')"
  shows "steady c c'"
  using cancel_kept [OF assms] assms
  by (auto simp: steady_def cancel_expected_def is_terminal_unrecoverable_def Let_def
      split: option.splits sum.splits if_splits)

lemma exec_control_steady:
  assumes "exec_control op c = (ok, c')" "\<not> task_op op"
  shows "steady c c'"
  using exec_control_kept [OF assms(1)] assms
  by (cases op) (auto simp: steady_def mark_stuck_def mark_persistence_degraded_def
      is_terminal_unrecoverable_def split: option.splits if_splits)

lemma exec_control_lease: "exec_control op c = (ok, c') \<Longrightarrow> active_lease c' = active_lease c"
  by (cases op) (auto simp: install_cancellation_def begin_finalizing_def mark_stuck_def
      mark_persistence_degraded_def stale_def Let_def split: option.splits if_splits)

lemma request_cancellation_Inr:
  assumes "request_cancellation expected system t = Inr t'"
  obtains c timer where "steady (rt_control t) c" "t' = t\<lparr>rt_control := c, rt_timer := timer\<rparr>"
proof -
  have "\<exists>s c. cancel_expected (if system then None else expected) system (rt_control t) = Inr (s, c)
      \<and> (\<exists>timer. t' = t\<lparr>rt_control := c, rt_timer := timer\<rparr>)"
    using assms by (auto simp: request_cancellation_def control_interrupt_for_shutdown_def
        abort_expected_def split: if_splits sum.splits option.splits)
      (metis session_runtime.surjective session_runtime.update_convs(1,3))+
  then show thesis using that cancel_steady by blast
qed

text \<open>What a step that grants no lease does.\<close>

lemma steady_inv:
  assumes "runtime_inv t" "steady (rt_control t) (rt_control t')"
    and "rt_task t' = rt_task t" "rt_monitor t' = rt_monitor t"
  shows "runtime_inv t'"
  using assms by (auto simp: runtime_inv_def slot_ok_def steady_def kept_def)

lemma free_inv:
  assumes "runtime_inv t" "kept (rt_control t) (rt_control t')"
    and "rt_task t' = None" "rt_monitor t' = None"
  shows "runtime_inv t'"
  using assms by (auto simp: runtime_inv_def slot_ok_def kept_def)

lemma timer_check_frame [simp]:
  "rt_control (timer_check t) = rt_control t" "rt_task (timer_check t) = rt_task t"
  "rt_monitor (timer_check t) = rt_monitor t"
  by (auto simp: timer_check_def split: option.split)

lemma timer_mark_frame [simp]:
  "rt_task (timer_mark t) = rt_task t" "rt_monitor (timer_mark t) = rt_monitor t"
  by (auto simp: timer_mark_def split: list.split)

lemma timer_mark_steady: "steady (rt_control t) (rt_control (timer_mark t))"
  by (cases "rt_due_timers t") (simp_all add: timer_mark_def mark_stuck_steady, simp add: steady_def)

lemma runtime_finish_moves:
  assumes "runtime_finish lease t = (ok, t')"
  shows "kept (rt_control t) (rt_control t')" "rt_monitor t' = rt_monitor t" "rt_task t' = rt_task t"
    and "rt_task t = None \<or> t' = t"
  using assms finish_kept [of lease "rt_control t"]
  by (auto simp: runtime_finish_def split: if_splits prod.splits)

lemma recover_moves:
  assumes "recover_persistence_degraded lease t = (ok, t')"
  shows "kept (rt_control t) (rt_control t')" "rt_monitor t' = rt_monitor t" "rt_task t' = rt_task t"
    and "rt_task t = None \<or> t' = t"
  using assms recover_kept [of lease "rt_control t"]
  by (auto simp: recover_persistence_degraded_def split: if_splits prod.splits)

lemma fault_moves:
  assumes "finish_cancelled_fault lease t = (ok, t')"
  shows "kept (rt_control t) (rt_control t')" "rt_monitor t' = rt_monitor t" "rt_task t' = rt_task t"
    and "rt_task t = None \<or> t' = t"
  using assms finish_kept [of lease "rt_control t"]
  by (auto simp: finish_cancelled_fault_def stop_cancellation_timer_def Let_def
      split: if_splits prod.splits)

lemma monitor_act_moves:
  assumes "slot_ok t" "rt_monitor t \<noteq> None"
  shows "kept (rt_control t) (rt_control (monitor_act t))"
    and "rt_task (monitor_act t) = None" "rt_monitor (monitor_act t) = None"
proof -
  obtain lease plan where at: "rt_task t = Some lease" "rt_monitor t = Some plan"
    using assms by (auto simp: slot_ok_def)
  show "rt_task (monitor_act t) = None" "rt_monitor (monitor_act t) = None"
    by (auto simp: monitor_act_def at split: prod.split)
  show "kept (rt_control t) (rt_control (monitor_act t))"
    using finish_kept [of lease "rt_control t"] mark_stuck_steady [of "rt_control t" lease]
    by (cases plan) (auto simp: monitor_act_def at steady_def split: prod.split)
qed

lemma monitor_act_idle: "rt_monitor t = None \<Longrightarrow> monitor_act t = t"
  by (simp add: monitor_act_def split: option.split)

lemma monitor_check_inv:
  assumes "runtime_inv t"
  shows "runtime_inv (monitor_check failed t)"
proof (cases "rt_task t")
  case None
  then show ?thesis using assms by (simp add: monitor_check_def)
next
  case (Some lease)
  then have "active_lease (rt_control t) = Some lease"
    using assms by (auto simp: runtime_inv_def slot_ok_def)
  then obtain a where a: "rc_active (rt_control t) = Some a" "ar_lease a = lease" by auto
  then have "holds_lease lease (snapshot_of a)" by (simp add: holds_lease_def snapshot_of_def)
  then show ?thesis
    using assms Some a
    by (auto simp: monitor_check_def runtime_inv_def slot_ok_def snapshot_def
        is_terminal_unrecoverable_def snapshot_of_def)
qed

text \<open>Beginning grants a lease of the next epoch, on a session nobody owns.\<close>

lemma begin_Inr:
  assumes "begin_with_sequence generated requested client sequence c = Inr (lease, c')"
  shows "rc_active c = None \<or> (\<exists>a. rc_active c = Some a \<and> ar_phase a = CancellationStuck)"
    and "active_lease c' = Some lease" "le_epoch lease = max (wrapping_succ (rc_epoch c)) 1"
    and "rc_epoch c' = le_epoch lease" "control_ok c \<Longrightarrow> control_ok c'"
  using assms
  by (auto simp: begin_with_sequence_def control_ok_def wrapping_pred_1 Let_def
      split: option.splits if_splits)

lemma runtime_begin_Inr:
  assumes "runtime_begin generated requested client sequence t = Inr (lease, t')"
  obtains c where "rt_task t = None" "t' = t\<lparr>rt_control := c\<rparr>"
    "begin_with_sequence generated requested client sequence (rt_control t) = Inr (lease, c)"
  using assms by (auto simp: runtime_begin_def split: option.splits sum.splits)

lemma spawn_inv:
  assumes "runtime_inv t" "rt_monitor t = None" "active_lease (rt_control t) = Some lease"
    and "spawn_task lease t = Inr t'"
  shows "runtime_inv t'"
  using assms by (auto simp: runtime_inv_def slot_ok_def spawn_task_def split: option.splits)

lemma monitor_check_control [simp]: "rt_control (monitor_check failed t) = rt_control t"
  by (simp add: monitor_check_def split: option.split)

lemma quiet_step_kept:
  assumes "quiet_step t t'" "runtime_inv t"
  shows "runtime_inv t' \<and> kept (rt_control t) (rt_control t')"
  using assms
proof cases
  case (control op ok c)
  note k = exec_control_kept [OF control(3)]
  show ?thesis
  proof (cases "task_op op")
    case True
    then show ?thesis
      using assms(2) control k exec_control_lease [OF control(3)]
      by (auto simp: runtime_inv_def slot_ok_def kept_def)
  next
    case False
    have "runtime_inv t'"
      using exec_control_steady [OF control(3) False]
      by (intro steady_inv [OF assms(2)]) (simp_all add: control(1))
    then show ?thesis using k by (simp add: control(1))
  qed
next
  case (cancels expected system)
  then obtain c timer where c: "steady (rt_control t) c" "t' = t\<lparr>rt_control := c, rt_timer := timer\<rparr>"
    by (rule request_cancellation_Inr)
  have "runtime_inv t'" by (rule steady_inv [OF assms(2)]) (simp_all add: c)
  then show ?thesis using c by (simp add: steady_def)
next
  case timer_marks
  have "runtime_inv t'"
    by (rule steady_inv [OF assms(2)]) (simp_all add: timer_marks timer_mark_steady)
  then show ?thesis using timer_mark_steady [of t] by (simp add: timer_marks steady_def)
next
  case (finishes lease ok)
  note m = runtime_finish_moves [OF finishes(2)]
  show ?thesis using m finishes(1) assms(2) by (cases "rt_task t") (auto intro: free_inv [of t])
next
  case (recovers lease ok)
  note m = recover_moves [OF recovers(2)]
  show ?thesis using m recovers(1) assms(2) by (cases "rt_task t") (auto intro: free_inv [of t])
next
  case (fault_finishes lease ok)
  note m = fault_moves [OF fault_finishes(2)]
  show ?thesis using m fault_finishes(1) assms(2) by (cases "rt_task t") (auto intro: free_inv [of t])
next
  case (spawns lease)
  then show ?thesis using spawn_inv [OF assms(2) spawns(1,2,3)]
    by (auto simp: spawn_task_def split: option.splits)
next
  case monitors
  show ?thesis
  proof (cases "rt_monitor t = None")
    case False
    have "slot_ok t" using assms(2) by (simp add: runtime_inv_def)
    from monitor_act_moves [OF this False] show ?thesis
      using free_inv [OF assms(2)] monitors by blast
  qed (simp add: assms(2) monitor_act_idle monitors)
next
  case timer_stops
  then show ?thesis using assms(2)
    by (simp add: stop_cancellation_timer_def runtime_inv_def slot_ok_def)
next
  case timer_fires
  then show ?thesis using assms(2) by (simp add: runtime_inv_def slot_ok_def)
next
  case (exits failed)
  then show ?thesis using monitor_check_inv [OF assms(2)] by simp
qed

lemma begin_step_inv:
  assumes "runtime_begin generated requested client sequence t = Inr (lease, t')"
    and "runtime_inv t" "rt_monitor t = None"
  shows "runtime_inv t'"
proof -
  obtain c where c: "rt_task t = None" "t' = t\<lparr>rt_control := c\<rparr>"
    "begin_with_sequence generated requested client sequence (rt_control t) = Inr (lease, c)"
    using assms(1) by (rule runtime_begin_Inr)
  then show ?thesis using assms(2,3) begin_Inr(5) [OF c(3)]
    by (auto simp: runtime_inv_def slot_ok_def)
qed

lemma steps_inv: "runtime_steps t0 ls t \<Longrightarrow> runtime_inv t0 \<Longrightarrow> runtime_inv t"
  by (induction rule: runtime_steps.induct) (auto dest: quiet_step_kept begin_step_inv)

lemma new_runtime_inv: "runtime_inv new_runtime"
  by (simp add: runtime_inv_def control_ok_def slot_ok_def new_runtime_def new_control_def)


section \<open>One owner\<close>

text \<open>C24: A session has one owner: in everything its runtime can reach, the streaming flag and the
  task counter say exactly whether a run is active, the task in the slot is the active run's, and
  a new run is granted only when the slot is empty and the last run has released the session or
  is stuck with its task gone; the window of finished requests never exceeds 64.\<close>

theorem session_owned_once:
  assumes "runtime_steps new_runtime ls t"
  shows "(rc_is_streaming (rt_control t) \<longleftrightarrow> rc_active (rt_control t) \<noteq> None)
    \<and> rc_active_tasks (rt_control t) = (if rc_active (rt_control t) = None then 0 else 1)
    \<and> length (rc_recent_requests (rt_control t)) \<le> 64
    \<and> (rt_task t \<noteq> None \<longrightarrow> map_option ar_lease (rc_active (rt_control t)) = rt_task t)
    \<and> (\<forall>generated requested client sequence lease t'.
         runtime_begin generated requested client sequence t = Inr (lease, t') \<longrightarrow>
         rt_task t = None
         \<and> (\<forall>a. rc_active (rt_control t) = Some a \<longrightarrow> ar_phase a = CancellationStuck)
         \<and> map_option ar_lease (rc_active (rt_control t')) = Some lease)"
proof -
  have inv: "runtime_inv t" using steps_inv [OF assms new_runtime_inv] .
  have "rt_task t = None
      \<and> (\<forall>a. rc_active (rt_control t) = Some a \<longrightarrow> ar_phase a = CancellationStuck)
      \<and> active_lease (rt_control t') = Some lease"
    if b: "runtime_begin generated requested client sequence t = Inr (lease, t')"
    for generated requested client sequence lease t'
  proof -
    obtain c where c: "rt_task t = None" "t' = t\<lparr>rt_control := c\<rparr>"
      "begin_with_sequence generated requested client sequence (rt_control t) = Inr (lease, c)"
      using b by (rule runtime_begin_Inr)
    then show ?thesis using begin_Inr(1,2) [OF c(3)] by auto
  qed
  moreover have "rt_task t \<noteq> None \<longrightarrow> active_lease (rt_control t) = rt_task t"
    using inv by (auto simp: runtime_inv_def slot_ok_def)
  moreover have "control_ok (rt_control t)" using inv by (simp add: runtime_inv_def)
  ultimately show ?thesis unfolding control_ok_def by presburger
qed

section \<open>Fencing\<close>

lemma epochs_counted:
  assumes "runtime_steps new_runtime ls t" "length ls < 2 ^ 64"
  shows "rc_epoch (rt_control t) = length ls \<and> map le_epoch ls = [1..<length ls + 1]
    \<and> (\<forall>a. rc_active (rt_control t) = Some a \<longrightarrow> ls \<noteq> [] \<and> ar_lease a = last ls)"
  using assms
proof (induction rule: runtime_steps.induct)
  case none
  show ?case by (simp add: new_runtime_def new_control_def)
next
  case (begins ls t generated requested client sequence lease t')
  obtain c where c: "t' = t\<lparr>rt_control := c\<rparr>"
    "begin_with_sequence generated requested client sequence (rt_control t) = Inr (lease, c)"
    using begins(3) by (rule runtime_begin_Inr)
  have "le_epoch lease = length ls + 1"
    using begin_Inr(3) [OF c(2)] begins.IH begins.prems by (simp add: wrapping_succ_def)
  then show ?case
    using begin_Inr(2,4) [OF c(2)] begins.IH begins.prems by (auto simp: c(1))
next
  case (quiet ls t t')
  have "kept (rt_control t) (rt_control t')"
    using quiet_step_kept [OF quiet(2) steps_inv [OF quiet(1) new_runtime_inv]] by simp
  then show ?case using quiet.IH quiet.prems
    by (auto simp: kept_def same_run_def split: option.splits)
qed

lemma last_epoch:
  assumes "map le_epoch ls = [1..<length ls + 1]" "lease \<in> set (butlast ls)"
  shows "le_epoch lease < le_epoch (last ls)"
proof -
  obtain i where i: "i < length ls - 1" "lease = ls ! i"
    using assms(2) by (auto simp: in_set_conv_nth nth_butlast)
  have "le_epoch (ls ! j) = j + 1" if "j < length ls" for j
    using arg_cong [OF assms(1), of "\<lambda>l. l ! j"] that by (simp del: upt_Suc)
  from this [of i] this [of "length ls - 1"] show ?thesis
    using i by (cases ls rule: rev_cases) (auto simp: last_conv_nth)
qed

text \<open>C25: A lease that has been succeeded is fenced off for good: once a session has granted a
  later run (fewer than 2^64 of them), every operation that takes a lease is refused under an earlier
  one and leaves the active run, its phase and the runtime's slot as they are. Spawning compares no
  lease; the code spawns under the lease it was just granted only.\<close>

theorem succeeded_lease_fenced:
  assumes "runtime_steps new_runtime ls t" "length ls < 2 ^ 64" "lease \<in> set (butlast ls)"
  shows "\<not> fst (install_cancellation lease tx flag (rt_control t))
    \<and> \<not> fst (begin_finalizing lease (rt_control t))
    \<and> \<not> fst (mark_persistence_degraded lease (rt_control t))
    \<and> \<not> fst (mark_stuck lease (rt_control t))
    \<and> \<not> fst (runtime_finish lease t)
    \<and> \<not> fst (recover_persistence_degraded lease t)
    \<and> \<not> fst (finish_cancelled_fault lease t)
    \<and> rc_active (snd (install_cancellation lease tx flag (rt_control t))) = rc_active (rt_control t)
    \<and> rc_active (snd (begin_finalizing lease (rt_control t))) = rc_active (rt_control t)
    \<and> snd (mark_persistence_degraded lease (rt_control t)) = rt_control t
    \<and> snd (mark_stuck lease (rt_control t)) = rt_control t
    \<and> rc_active (rt_control (snd (runtime_finish lease t))) = rc_active (rt_control t)
    \<and> rc_active (rt_control (snd (recover_persistence_degraded lease t))) = rc_active (rt_control t)
    \<and> rc_active (rt_control (snd (finish_cancelled_fault lease t))) = rc_active (rt_control t)"
proof -
  note counted = epochs_counted [OF assms(1,2)]
  have fenced: "ar_lease a \<noteq> lease" "\<not> holds_lease lease (snapshot_of a)"
    if "rc_active (rt_control t) = Some a" for a
    using that counted last_epoch [of ls lease] assms(3)
    by (auto simp: holds_lease_def snapshot_of_def)
  then show ?thesis
    by (cases "rc_active (rt_control t)")
      (auto simp: install_cancellation_def begin_finalizing_def mark_persistence_degraded_def
        mark_stuck_def runtime_finish_def recover_persistence_degraded_def recover_degraded_def
        finish_def stale_def finish_cancelled_fault_def snapshot_def)
qed


section \<open>Cancellation\<close>

lemma steps_same_run:
  assumes "runtime_steps t0 ls t" "runtime_inv t0" "ls = []"
  shows "same_run (rc_active (rt_control t0)) (rc_active (rt_control t))"
  using assms
proof (induction rule: runtime_steps.induct)
  case (quiet ls t t')
  then show ?case
    using quiet_step_kept [OF quiet(2) steps_inv [OF quiet(1,4)]]
    by (auto simp: kept_def intro: same_run_trans)
qed simp_all

text \<open>C26: A user's stop wins and the point of no return is one: in whatever order cancellations,
  shutdown requests, timers, the run's task and its monitor act, until the session begins another
  run the active run is the same one or none; once a user stopped it, it never counts as
  interrupted by the system (and so as resumable); and once it is finalizing, stuck or degraded,
  no cancellation changes what it counts as or returns it to cancelling.\<close>

theorem user_stop_wins:
  assumes "runtime_steps new_runtime ls t" "runtime_steps t [] t'"
    and "rc_active (rt_control t') = Some a'"
  shows "\<exists>a. rc_active (rt_control t) = Some a \<and> ar_lease a' = ar_lease a
    \<and> (cancellation_kind (ar_lease a) (rt_control t) = Some User
         \<longrightarrow> cancellation_kind (ar_lease a) (rt_control t') = Some User)
    \<and> (ar_phase a \<in> {Finalizing, CancellationStuck, PersistenceDegraded}
         \<longrightarrow> ar_phase a' \<in> {Finalizing, CancellationStuck, PersistenceDegraded}
           \<and> cancellation_kind (ar_lease a) (rt_control t') = cancellation_kind (ar_lease a) (rt_control t))"
proof -
  have "same_run (rc_active (rt_control t)) (Some a')"
    using steps_same_run [OF assms(2) steps_inv [OF assms(1) new_runtime_inv] refl] assms(3) by simp
  then obtain a where a: "rc_active (rt_control t) = Some a" "ar_lease a' = ar_lease a"
    "ar_cancellation a = Some User \<longrightarrow> ar_cancellation a' = Some User"
    "past_point (ar_phase a) \<longrightarrow> past_point (ar_phase a') \<and> ar_cancellation a' = ar_cancellation a"
    by (auto simp: same_run_def split: option.splits)
  then show ?thesis using assms(3)
    by (intro exI [of _ a]) (auto simp: cancellation_kind_def past_point_iff)
qed

text \<open>Stopping reaches the run: a cancellation of a run that has not passed its point marks it
  cancelling, sends on its channel and raises its flag; of a run that has not installed them yet
  it is delivered when they are installed; and of a run that has passed it changes nothing.\<close>

theorem cancellation_delivered:
  assumes "rc_active c = Some a" "expected = None \<or> expected = Some (le_run_id (ar_lease a))"
    and "cancel_expected expected system c = Inr (s, c')"
  shows "if ar_phase a \<in> {Finalizing, CancellationStuck, PersistenceDegraded} then s = None \<and> c' = c
    else map_option sn_phase s = Some Cancelling
      \<and> (\<forall>tx flag. ar_interrupt_tx a = Some tx \<and> ar_interrupt_flag a = Some flag
           \<longrightarrow> tx \<in> set (rc_sent c') \<and> flag \<in> rc_raised c')
      \<and> (\<forall>tx flag. tx \<in> set (rc_sent (snd (install_cancellation (ar_lease a) tx flag c')))
           \<and> flag \<in> rc_raised (snd (install_cancellation (ar_lease a) tx flag c')))"
proof -
  have "abortable (ar_phase a) \<longleftrightarrow> ar_phase a \<notin> {Finalizing, CancellationStuck, PersistenceDegraded}"
    by (cases "ar_phase a") simp_all
  then show ?thesis
    using assms by (auto simp: cancel_expected_def Let_def snapshot_of_def install_cancellation_def
        split: sum.splits if_splits)
qed

section \<open>The monitor\<close>

text \<open>C27: The session is never left with an orphan: when the monitor of a run's task has acted,
  the slot is empty and either nobody owns the session or its run is stuck or degraded, which a
  client is told; the run is reported as completed exactly when it was released; and nobody but
  the run that was in the slot is affected.\<close>

theorem monitor_leaves_no_orphan:
  assumes "runtime_steps new_runtime ls t" "rt_monitor t \<noteq> None"
  shows "rt_task (monitor_act t) = None \<and> rt_monitor (monitor_act t) = None
    \<and> (rc_active (rt_control (monitor_act t)) = None
         \<or> is_terminal_unrecoverable (rt_control (monitor_act t)))
    \<and> rt_completions (monitor_act t) = rt_completions t
         @ (if rc_active (rt_control (monitor_act t)) = None then [the (rt_task t)] else [])"
proof -
  have inv: "slot_ok t" using steps_inv [OF assms(1) new_runtime_inv] by (simp add: runtime_inv_def)
  obtain lease plan where at: "rt_task t = Some lease" "rt_monitor t = Some plan"
    using inv assms(2) by (auto simp: slot_ok_def)
  obtain a where a: "rc_active (rt_control t) = Some a" "ar_lease a = lease"
    using inv at by (auto simp: slot_ok_def)
  have "plan = Leave \<longrightarrow> is_terminal_unrecoverable (rt_control t)" using inv at by (simp add: slot_ok_def)
  then show ?thesis
    by (cases plan) (auto simp: monitor_act_def at a finish_def mark_stuck_def is_terminal_unrecoverable_def)
qed

section \<open>Faults\<close>

text \<open>A stuck session heals and a degraded one does not: with the task gone, the next prompt is
  accepted exactly when the session's run is stuck and the request is not one already finished
  (so the retry of the stuck request goes through), and no prompt is accepted over a run that is
  degraded, finalizing or alive.\<close>

theorem only_stuck_session_heals:
  assumes "rc_active (rt_control t) = Some a" "rt_task t = None"
  shows "(\<exists>granted. runtime_begin generated requested (Some client) sequence t = Inr granted)
    \<longleftrightarrow> ar_phase a = CancellationStuck
        \<and> (client = [] \<or> client \<notin> fst ` set (rc_recent_requests (rt_control t)))"
  using assms
  by (force simp: runtime_begin_def begin_with_sequence_def already_accepted_def Let_def list_ex_iff
      image_iff split: option.splits)

text \<open>The acknowledgement timer reads the phase and marks the run in two steps, so a run that
  acknowledges its cancellation in between is overwritten: it finalizes, the timer marks it stuck
  all the same, and its monitor then leaves the session taken and reports no completion.\<close>

theorem late_timer_overwrites_finalizing:
  assumes "rc_active (rt_control t) = Some a" "ar_phase a = Cancelling"
    and "rt_timer t = Some (ar_lease a)" "rt_due_timers t = []" "rt_task t = Some (ar_lease a)"
    and "timer_check t = t1"
    and "begin_finalizing (ar_lease a) (rt_control t1) = (ok, c)"
    and "monitor_act (monitor_check False (timer_mark (t1\<lparr>rt_control := c\<rparr>))) = t2"
  shows "ok \<and> map_option ar_phase (rc_active c) = Some Finalizing
    \<and> map_option ar_phase (rc_active (rt_control t2)) = Some CancellationStuck
    \<and> rt_task t2 = None \<and> rt_completions t2 = rt_completions t"
proof -
  have t1: "t1 = t\<lparr>rt_timer := None, rt_due_timers := [ar_lease a]\<rparr>"
    using assms(1-4,6)
    by (simp add: timer_check_def snapshot_def snapshot_of_def holds_lease_def)
  have c: "ok" "c = (rt_control t)\<lparr>rc_active := Some (a\<lparr>ar_phase := Finalizing\<rparr>)\<rparr>"
    using assms(1,7) by (auto simp: t1 begin_finalizing_def)
  show ?thesis
    using assms(5,8)
    by (auto simp: t1 c timer_mark_def mark_stuck_def monitor_check_def monitor_act_def
        snapshot_def snapshot_of_def holds_lease_def)
qed

section \<open>A small session\<close>

definition demo_lease :: "nat \<Rightarrow> run_lease" where
  "demo_lease n = \<lparr>le_run_id = ''r'', le_epoch = n, le_run_sequence = Some n\<rparr>"

definition demo_run_at :: "nat \<Rightarrow> run_phase \<Rightarrow> cancellation_cause option \<Rightarrow> active_run" where
  "demo_run_at n p cause = \<lparr>ar_lease = demo_lease n, ar_client_request_id = [], ar_phase = p,
     ar_interrupt_tx = None, ar_interrupt_flag = None, ar_cancellation = cause\<rparr>"

lemma demo_run_simps [simp]:
  "ar_lease (demo_run_at n p cause) = demo_lease n" "ar_phase (demo_run_at n p cause) = p"
  "ar_cancellation (demo_run_at n p cause) = cause"
  "ar_client_request_id (demo_run_at n p cause) = []"
  "ar_interrupt_tx (demo_run_at n p cause) = None" "ar_interrupt_flag (demo_run_at n p cause) = None"
  "le_run_id (demo_lease n) = ''r''" "le_epoch (demo_lease n) = n"
  by (simp_all add: demo_run_at_def demo_lease_def)

definition demo_control :: "nat \<Rightarrow> active_run option \<Rightarrow> run_control" where
  "demo_control n a = new_control\<lparr>rc_epoch := n, rc_active := a, rc_is_streaming := (a \<noteq> None),
     rc_active_tasks := (if a = None then 0 else 1)\<rparr>"

definition demo_runtime :: "nat \<Rightarrow> active_run option \<Rightarrow> session_runtime" where
  "demo_runtime n a = new_runtime\<lparr>rt_control := demo_control n a\<rparr>"

lemma demo_runtime_simps [simp]:
  "rt_control (demo_runtime n a) = demo_control n a" "rt_task (demo_runtime n a) = None"
  "rt_monitor (demo_runtime n a) = None" "rt_timer (demo_runtime n a) = None"
  "rc_active (demo_control n a) = a" "rc_epoch (demo_control n a) = n"
  "rc_recent_requests (demo_control n a) = []"
  "rc_active_tasks (demo_control n a) = (if a = None then 0 else 1)"
  by (simp_all add: demo_runtime_def demo_control_def new_runtime_def new_control_def)

lemma demo_begins:
  "n < 3 \<Longrightarrow> runtime_begin ''g'' (Some ''r'') None (Some (n + 1)) (demo_runtime n None)
   = Inr (demo_lease (n + 1), demo_runtime (n + 1) (Some (demo_run_at (n + 1) Starting None)))"
  by (simp add: runtime_begin_def begin_with_sequence_def already_accepted_def demo_lease_def
      demo_run_at_def demo_runtime_def demo_control_def new_runtime_def new_control_def wrapping_succ_def
      Let_def)

lemma demo_finishes:
  "runtime_finish (demo_lease n) (demo_runtime n (Some (demo_run_at n p cause)))
   = (True, demo_runtime n None)"
  by (simp add: runtime_finish_def finish_def demo_run_at_def demo_runtime_def demo_control_def
      new_runtime_def new_control_def wrapping_pred_1)

lemma demo_new: "new_runtime = demo_runtime 0 None"
  by (simp add: demo_runtime_def demo_control_def new_runtime_def new_control_def)

lemma demo_one: "runtime_steps new_runtime [demo_lease 1] (demo_runtime 1 (Some (demo_run_at 1 Starting None)))"
  using runtime_steps.begins [OF runtime_steps.none _ demo_begins [of 0]]
  by (simp add: demo_new)

lemma demo_two:
  "runtime_steps new_runtime [demo_lease 1, demo_lease 2] (demo_runtime 2 (Some (demo_run_at 2 Starting None)))"
proof -
  have "runtime_steps new_runtime [demo_lease 1] (demo_runtime 1 None)"
    by (rule runtime_steps.quiet [OF demo_one]) (rule quiet_step.finishes [OF _ demo_finishes], simp)
  from runtime_steps.begins [OF this _ demo_begins [of 1]] show ?thesis by (simp add: numeral_2_eq_2)
qed

theorem session_owned_once_witness:
  "rc_active_tasks (rt_control (demo_runtime 1 (Some (demo_run_at 1 Starting None)))) = 1"
  using session_owned_once [OF demo_one] by simp

theorem succeeded_lease_fenced_witness:
  "\<not> fst (finish_cancelled_fault (demo_lease 1) (demo_runtime 2 (Some (demo_run_at 2 Starting None))))"
  using succeeded_lease_fenced [OF demo_two, of "demo_lease 1"] by simp

lemma demo_cancels:
  "cancel_expected expected system (demo_control n (Some (demo_run_at n Starting cause)))
   = (case validate_run_id ''r'' expected of Inl e \<Rightarrow> Inl e
      | Inr _ \<Rightarrow> let x = demo_run_at n Cancelling (Some (if system \<and> cause \<noteq> Some User then SystemShutdown else User))
                 in Inr (Some (snapshot_of x), demo_control n (Some x)))"
  by (auto simp: cancel_expected_def demo_control_def demo_run_at_def demo_lease_def new_control_def
      Let_def split: sum.split)

theorem user_stop_wins_witness:
  "\<exists>t t'. runtime_steps new_runtime [demo_lease 1] t \<and> runtime_steps t [] t'
     \<and> cancellation_kind (demo_lease 1) (rt_control t) = Some User
     \<and> cancellation_kind (demo_lease 1) (rt_control t') = Some User"
proof -
  define t where "t = (demo_runtime 1 (Some (demo_run_at 1 Cancelling (Some User))))\<lparr>rt_timer := Some (demo_lease 1)\<rparr>"
  have "request_cancellation None False (demo_runtime 1 (Some (demo_run_at 1 Starting None))) = Inr t"
    by (simp add: request_cancellation_def abort_expected_def demo_cancels validate_run_id_def nonempty_def
        Let_def t_def snapshot_of_def) (simp add: demo_lease_def demo_runtime_def)
  then have run: "runtime_steps new_runtime [demo_lease 1] t"
    by (intro runtime_steps.quiet [OF demo_one] quiet_step.cancels)
  obtain t' where c: "request_cancellation None True t = Inr t'"
    and a': "rc_active (rt_control t') = Some (demo_run_at 1 Cancelling (Some User))"
    by (simp add: request_cancellation_def control_interrupt_for_shutdown_def cancel_expected_def
        validate_run_id_def nonempty_def Let_def t_def demo_run_at_def)
  have later: "runtime_steps t [] t'"
    by (rule runtime_steps.quiet [OF runtime_steps.none quiet_step.cancels [OF c]])
  have at: "rc_active (rt_control t) = Some (demo_run_at 1 Cancelling (Some User))"
    by (simp add: t_def)
  have stopped: "cancellation_kind (demo_lease 1) (rt_control t) = Some User"
    by (simp add: at cancellation_kind_def)
  have "cancellation_kind (demo_lease 1) (rt_control t') = Some User"
    using user_stop_wins [OF run later a'] stopped by (simp add: at)
  then show ?thesis using run later stopped by blast
qed

theorem cancellation_delivered_witness:
  "5 \<in> rc_raised (snd (install_cancellation (demo_lease 1) 4 5
     (demo_control 1 (Some (demo_run_at 1 Cancelling (Some User))))))"
  using cancellation_delivered [where c = "demo_control 1 (Some (demo_run_at 1 Starting None))"
      and a = "demo_run_at 1 Starting None" and expected = None and system = False]
  by (simp add: demo_cancels validate_run_id_def nonempty_def Let_def)

lemma demo_monitored:
  "runtime_steps new_runtime [demo_lease 1]
     ((demo_runtime 1 (Some (demo_run_at 1 Starting None)))\<lparr>rt_task := Some (demo_lease 1), rt_monitor := Some Stick\<rparr>)"
proof -
  have "runtime_steps new_runtime [demo_lease 1]
      ((demo_runtime 1 (Some (demo_run_at 1 Starting None)))\<lparr>rt_task := Some (demo_lease 1)\<rparr>)"
    by (rule runtime_steps.quiet [OF demo_one], rule quiet_step.spawns [of _ "demo_lease 1"])
      (simp_all add: spawn_task_def)
  from runtime_steps.quiet [OF this quiet_step.exits [of _ True]] show ?thesis
    by (simp add: monitor_check_def)
qed

theorem monitor_leaves_no_orphan_witness:
  "rt_task (monitor_act ((demo_runtime 1 (Some (demo_run_at 1 Starting None)))
     \<lparr>rt_task := Some (demo_lease 1), rt_monitor := Some Stick\<rparr>)) = None"
  using monitor_leaves_no_orphan [OF demo_monitored] by simp

theorem only_stuck_session_heals_witness:
  "\<exists>granted. runtime_begin ''g'' None (Some ''c'') None
     (demo_runtime 1 (Some (demo_run_at 1 CancellationStuck (Some User)))) = Inr granted"
  using only_stuck_session_heals [of "demo_runtime 1 (Some (demo_run_at 1 CancellationStuck (Some User)))"
      "demo_run_at 1 CancellationStuck (Some User)" "''g''" None "''c''" None]
  by simp

theorem late_timer_overwrites_finalizing_witness:
  "\<exists>t :: session_runtime. map_option ar_phase (rc_active (rt_control t)) = Some CancellationStuck
     \<and> rt_task t = None"
proof -
  define t where "t = (demo_runtime 1 (Some (demo_run_at 1 Cancelling (Some User))))
      \<lparr>rt_timer := Some (demo_lease 1), rt_task := Some (demo_lease 1)\<rparr>"
  have "rt_due_timers t = []" by (simp add: t_def demo_runtime_def new_runtime_def)
  moreover obtain ok c where
    "begin_finalizing (ar_lease (demo_run_at 1 Cancelling (Some User))) (rt_control (timer_check t)) = (ok, c)"
    by fastforce
  ultimately have "map_option ar_phase (rc_active (rt_control (monitor_act (monitor_check False
      (timer_mark ((timer_check t)\<lparr>rt_control := c\<rparr>)))))) = Some CancellationStuck
    \<and> rt_task (monitor_act (monitor_check False (timer_mark ((timer_check t)\<lparr>rt_control := c\<rparr>)))) = None"
    using late_timer_overwrites_finalizing [of t "demo_run_at 1 Cancelling (Some User)", OF _ _ _ _ _ refl _ refl]
    by (simp add: t_def)
  then show ?thesis by blast
qed

end
