(* ===== verification/Session_Start.thy ===== *)
theory Session_Start
  imports Session_Queue Queue_Runs Run_Ownership
begin

text \<open>
  What one call of the session scheduling of \<open>Session_Queue\<close> does: the ways a start goes, the queue
  every call keeps well-formed, a start with the queue and the runtime at rest, the end of the
  wake-up loop, and what the run that starts is given.
\<close>

section \<open>The queue shrinks with every failed start\<close>

lemma length_park_stale:
  "length (qs_queued (rq_state (snd (park_stale env boundary q)))) \<le> length (qs_queued (rq_state q))"
  by (simp add: park_stale_eq)

lemma park_stale_keeps_front:
  assumes "length (qs_queued (rq_state (snd (park_stale env boundary q)))) = length (qs_queued (rq_state q))"
  shows "qs_queued (rq_state (snd (park_stale env boundary q))) = qs_queued (rq_state q)"
proof -
  have "filter (\<lambda>r. park_verdict env boundary q r = None) rs = rs"
    if "length (filter (\<lambda>r. park_verdict env boundary q r = None) rs) = length rs" for rs
    using that by (metis filter_id_conv length_filter_less less_irrefl)
  then show ?thesis using assms by (simp add: park_stale_eq)
qed

lemma length_take_first: "take_first p xs = Some (y, ys) \<Longrightarrow> length xs = Suc (length ys)"
  by (induction xs arbitrary: ys) (auto split: if_splits)

lemma take_first_None: "take_first p xs = None \<longleftrightarrow> \<not> list_ex p xs"
  by (induction xs) auto

lemma finish_active_queued [simp]:
  "qs_queued (rq_state (drop_failed_finish rid q)) = qs_queued (rq_state q)"
  by (auto simp: drop_failed_finish_def finish_active_Inr split: sum.split)

lemma drop_failed_cancel_queued:
  assumes "drop_failed_cancel rid b q = (b', q')"
  shows "length (qs_queued (rq_state q')) \<le> length (qs_queued (rq_state q))"
    and "\<not> is_held rid q \<Longrightarrow> \<exists>r \<in> set (qs_queued (rq_state q)). sr_run_id r = rid
      \<Longrightarrow> length (qs_queued (rq_state q')) < length (qs_queued (rq_state q))"
proof -
  let ?h = "take_first (\<lambda>h. sr_run_id (hr_request h) = rid) (qs_held (rq_state q))"
  let ?q = "take_first (\<lambda>r. sr_run_id r = rid) (qs_queued (rq_state q))"
  show "length (qs_queued (rq_state q')) \<le> length (qs_queued (rq_state q))"
    using assms by (auto simp: drop_failed_cancel_def cancel_queued_def Let_def
        split: option.splits sum.splits dest: length_take_first)
  assume "\<not> is_held rid q" "\<exists>r \<in> set (qs_queued (rq_state q)). sr_run_id r = rid"
  then have "?h = None" "?q \<noteq> None"
    by (auto simp: is_held_def take_first_None list_ex_iff)
  then obtain r rest where "?h = None" "?q = Some (r, rest)" by auto
  then show "length (qs_queued (rq_state q')) < length (qs_queued (rq_state q))"
    using assms by (auto simp: drop_failed_cancel_def cancel_queued_def Let_def dest: length_take_first)
qed


lemma prompt_scheduled_queued:
  assumes "prompt_scheduled g payload coalesced request s = (res, s')"
  shows "session_queued s' = session_queued s
    \<or> (session_queued s \<noteq> [] \<and> session_queued s' = tl (session_queued s))"
  using assms
  by (auto simp: prompt_scheduled_def start_next_Inr Let_def release_active_payload_def
      split: if_splits sum.splits option.splits)

lemma drain_queued:
  assumes "drain_coalescing_after_first b q = (folded, b', q')" "qs_queued (rq_state q) = front # rest"
  shows "qs_queued (rq_state q') = front # drop (length folded) rest \<and> folded = take (length folded) rest"
  using assms unfolding drain_front [OF assms(2)] Let_def
  by (auto simp: min_def)

abbreviation parked :: "session_gate \<Rightarrow> queue_boundary \<Rightarrow> agent_session \<Rightarrow> agent_session" where
  "parked g boundary s \<equiv> s\<lparr>as_queue := snd (park_stale (sg_env g) boundary (as_queue s))\<rparr>"

text \<open>The ways a start goes: it stops before folding, after folding, or at the lifecycle calls.\<close>

lemma start_shape:
  assumes "start_next_scheduled_at g boundary s = (res, s')"
  obtains (early) e where "res = Inl e" "s' = s \<or> s' = parked g boundary s"
  | (unread) e front rest folded b q where "res = Inl e"
      "session_queued (parked g boundary s) = front # rest"
      "drain_coalescing_after_first (as_budget s) (as_queue (parked g boundary s)) = (folded, b, q)"
      "s' = s\<lparr>as_budget := b, as_queue := q\<rparr>"
  | (unfrozen) e front rest folded b q table where "res = Inl e"
      "session_queued (parked g boundary s) = front # rest"
      "drain_coalescing_after_first (as_budget s) (as_queue (parked g boundary s)) = (folded, b, q)"
      "take_snapshots (as_snapshots s) None (front # folded) = (None, table)"
      "s' = s\<lparr>as_budget := b, as_queue := q, as_snapshots := table\<rparr>"
  | (prompted) front rest folded b q table settings payload merged where
      "session_queued (parked g boundary s) = front # rest"
      "drain_coalescing_after_first (as_budget s) (as_queue (parked g boundary s)) = (folded, b, q)"
      "take_snapshots (as_snapshots s) None (front # folded) = (Some settings, table)"
      "sg_decode g (sr_payload front) = Some payload" "merge_all (sg_decode g) payload folded = Some merged"
      "prompt_scheduled g (under_settings settings merged) (map sr_run_id folded) front
         (s\<lparr>as_budget := b, as_queue := q, as_snapshots := table\<rparr>) = (res, s')"
proof (cases "sg_admits g \<and> sg_persistence_error g = None")
  case False
  have "(\<exists>e. res = Inl e) \<and> s' = s"
    using assms False by (auto simp: start_next_scheduled_at_def split: if_splits option.splits)
  then show thesis using early by blast
next
  case True
  show thesis
  proof (cases "session_queued (parked g boundary s)")
    case Nil
    then have "res = Inl (StartFailed ''there is no queued run to start'') \<and> s' = parked g boundary s"
      using assms True by (simp add: start_next_scheduled_at_def next_startable_def)
    then show thesis using early by blast
  next
    case (Cons front rest)
    then have at_front: "next_startable (as_queue (parked g boundary s)) = Some front"
      by (simp add: next_startable_def)
    show thesis
    proof (cases "sg_decode g (sr_payload front)")
      case None
      then have "res = Inl (StartFailed ''payload could not be read'') \<and> s' = parked g boundary s"
        using assms True at_front by (simp add: start_next_scheduled_at_def)
      then show thesis using early by blast
    next
      case (Some payload)
      obtain folded b q where
        d: "drain_coalescing_after_first (as_budget s) (as_queue (parked g boundary s)) = (folded, b, q)"
        by (rule prod_cases3)
      obtain found table where
        f: "take_snapshots (as_snapshots s) None (front # folded) = (found, table)"
        by (rule prod.exhaust)
      show thesis
      proof (cases "merge_all (sg_decode g) payload folded")
        case None
        then have "res = Inl (StartFailed ''payload could not be read'')
            \<and> s' = s\<lparr>as_budget := b, as_queue := q\<rparr>"
          using assms True at_front Some d by (simp add: start_next_scheduled_at_def)
        then show thesis using unread [OF _ Cons d] by blast
      next
        case merged: (Some merged)
        show thesis
        proof (cases found)
          case None
          then have "res = Inl (StartFailed ''accepted run snapshot is unavailable'')
              \<and> s' = s\<lparr>as_budget := b, as_queue := q, as_snapshots := table\<rparr>"
            using assms True at_front Some d merged f
            by (simp add: start_next_scheduled_at_def del: take_snapshots.simps)
          then show thesis using unfrozen [OF _ Cons d, of _ table] f None by blast
        next
          case settings: (Some settings)
          then have "prompt_scheduled g (under_settings settings merged) (map sr_run_id folded) front
              (s\<lparr>as_budget := b, as_queue := q, as_snapshots := table\<rparr>) = (res, s')"
            using assms True at_front Some d merged f
            by (simp add: start_next_scheduled_at_def del: take_snapshots.simps)
          then show thesis using prompted [OF Cons d] f settings Some merged by blast
        qed
      qed
    qed
  qed
qed

section \<open>The queue of a session stays well-formed\<close>

definition queue_good :: "run_queue \<Rightarrow> bool" where
  "queue_good q \<longleftrightarrow> queue_inv q \<and> [] \<notin> qs_run_ids (rq_state q)"

lemma remember_no_id:
  "x \<notin> qs_run_ids s \<Longrightarrow> x \<notin> qs_run_ids (remember_terminal t w l s r)"
  using remember_all_shrinks(2) [of x s t w l "[r]"] by simp

lemma park_good: "queue_good q \<Longrightarrow> queue_good (snd (park_stale env boundary q))"
  using park_inv [of q env boundary "fst (park_stale env boundary q)"]
  by (simp add: queue_good_def) (simp add: park_stale_eq)

lemma drain_good:
  assumes "queue_good q" "drain_coalescing_after_first b q = (folded, b', q')"
  shows "queue_good q'"
proof -
  have "[] \<notin> qs_run_ids (rq_state q')"
    using assms(2)
  proof (cases rule: drain_cases)
    case quiet
    then show ?thesis using assms(1) by (simp add: queue_good_def)
  next
    case (front front rest n s1)
    then show ?thesis using assms(1) by (simp add: queue_good_def remember_all_shrinks(2))
  qed
  then show ?thesis using drain_inv [OF _ assms(2)] assms(1) by (simp add: queue_good_def)
qed

lemma start_good: "queue_good q \<Longrightarrow> start_next epoch b q = Inr (r, ack, b', q') \<Longrightarrow> queue_good q'"
  using start_inv [of q epoch b r ack b' q'] by (auto simp: queue_good_def start_next_Inr)

lemma release_payload_good: "queue_good q \<Longrightarrow> queue_good (release_active_payload rid q)"
  using release_payload_inv [of q rid]
  by (auto simp: queue_good_def release_active_payload_def Let_def split: option.splits)

lemma drop_failed_finish_good: "queue_good q \<Longrightarrow> queue_good (drop_failed_finish rid q)"
  using finish_inv [of q rid]
  by (auto simp: queue_good_def drop_failed_finish_def finish_active_Inr remember_no_id
      split: sum.splits)

lemma cancel_good:
  assumes "queue_good q" "cancel_queued rid reason b q = Inr (r, b', q')"
  shows "queue_good q'"
proof -
  have "[] \<notin> qs_run_ids (rq_state q')"
    using assms(2)
  proof (cases rule: cancel_queued_cases)
    case (1 s1)
    then show ?thesis using assms(1) by (simp add: queue_good_def remember_no_id)
  qed
  then show ?thesis using cancel_inv [OF _ assms(2)] assms(1) by (simp add: queue_good_def)
qed

lemma drop_failed_cancel_good:
  "queue_good q \<Longrightarrow> drop_failed_cancel rid b q = (b', q') \<Longrightarrow> queue_good q'"
  by (auto simp: drop_failed_cancel_def intro: cancel_good split: sum.splits)

lemma cancel_all_good:
  assumes "queue_good q" "cancel_all_queued reason b q = (rs, b', q')"
  shows "queue_good q'"
  using cancel_all_inv [OF _ assms(2)] assms
  by (auto simp: queue_good_def cancel_all_queued_def Let_def remember_all_shrinks(2))

lemma release_held_good:
  "queue_good q \<Longrightarrow> release_held env rid q = Inr (r, q') \<Longrightarrow> queue_good q'"
  using release_inv [of q env rid r q'] by (auto simp: queue_good_def elim: release_held_cases)

lemma chosen_not_empty: "\<not> unsafe_run_id rid \<Longrightarrow> rid \<noteq> []"
  by (simp add: unsafe_run_id_def)

lemma accept_good:
  assumes "queue_good q" "accept_run env client requested policy payload b q = Inr (ack, b', q')"
  shows "queue_good q'"
proof -
  have "[] \<notin> qs_run_ids (rq_state q')"
    using assms(1,2) by (auto simp: accept_run_def queue_good_def enter_queue_def Let_def
        unsafe_run_id_def split: option.splits if_splits sum.splits)
  then show ?thesis using accept_inv [OF _ assms(2)] assms(1) by (simp add: queue_good_def)
qed

lemma supersede_good:
  assumes "queue_good q" "supersede_run env client requested payload b q = Inr (ack, cs, act, b', q')"
  shows "queue_good q'"
proof -
  have "[] \<notin> qs_run_ids (rq_state q')"
    using assms(1,2) by (auto simp: supersede_run_def queue_good_def enter_queue_def Let_def
        unsafe_run_id_def remember_all_shrinks(2) split: option.splits if_splits sum.splits)
  then show ?thesis using supersede_inv [OF _ assms(2)] assms(1) by (simp add: queue_good_def)
qed

lemma good_ids:
  assumes "queue_good q"
  shows "distinct (map sr_run_id (live (rq_state q)))"
    and "r \<in> set (live (rq_state q)) \<Longrightarrow> sr_run_id r \<noteq> []"
proof -
  have ind: "indexed (live (rq_state q)) (rq_state q)"
    using assms by (simp add: queue_good_def queue_inv_def)
  then show "distinct (map sr_run_id (live (rq_state q)))" by (rule indexed_distinct)
  assume "r \<in> set (live (rq_state q))"
  then have "sr_run_id r \<in> qs_run_ids (rq_state q)"
    using ind tables_okD(4) [of _ "rq_state q"]
    by (force simp: indexed_def run_key_def)
  then show "sr_run_id r \<noteq> []" using assms by (auto simp: queue_good_def)
qed

lemma prompt_scheduled_good:
  assumes "queue_good (as_queue s)" "prompt_scheduled g payload coalesced request s = (res, s')"
  shows "queue_good (as_queue s')"
proof -
  have "queue_good (drop_failed_finish rid (release_active_payload rid' q))" if "queue_good q" for rid rid' q
    using that by (intro drop_failed_finish_good release_payload_good)
  then show ?thesis
    using assms start_good [OF assms(1)]
    by (auto simp: prompt_scheduled_def Let_def release_payload_good split: if_splits sum.splits)
qed

lemma start_keeps_good:
  assumes "start_next_scheduled_at g boundary s = (res, s')" "queue_good (as_queue s)"
  shows "queue_good (as_queue s')"
  using assms(1)
proof (cases rule: start_shape)
  case (early e)
  then show ?thesis using assms(2) park_good by auto
next
  case (unread e front rest folded b q)
  then show ?thesis using drain_good [OF _ unread(3)] park_good assms(2) by simp
next
  case (unfrozen e front rest folded b q table)
  then show ?thesis using drain_good [OF _ unfrozen(3)] park_good assms(2) by simp
next
  case (prompted front rest folded b q table settings payload merged)
  have "queue_good q" using drain_good [OF _ prompted(2)] park_good assms(2) by simp
  then show ?thesis using prompt_scheduled_good [OF _ prompted(6)] by simp
qed

text \<open>A failed start leaves fewer prompts, or the one at the front where it was.\<close>

lemma failed_start_front:
  assumes "start_next_scheduled_at g boundary s = (res, s')" "session_queued s = front # rest"
  shows "length (session_queued s') < length (session_queued s)
    \<or> length (session_queued s') \<le> length (session_queued s) \<and> front \<in> set (session_queued s')"
proof (cases "length (session_queued (parked g boundary s)) = length (session_queued s)")
  case True
  then have same: "session_queued (parked g boundary s) = front # rest"
    using park_stale_keeps_front [of "sg_env g" boundary "as_queue s"] assms(2) by simp
  have drained: "qs_queued (rq_state q) = front # drop (length folded) rest"
    if "drain_coalescing_after_first (as_budget s) (as_queue (parked g boundary s)) = (folded, b, q)"
    for folded b q
    using drain_queued [OF that same] by simp
  show ?thesis
    using assms(1)
  proof (cases rule: start_shape)
    case (early e)
    then show ?thesis using same assms(2) by auto
  next
    case (unread e front' rest' folded b q)
    then show ?thesis using drained [OF unread(3)] assms(2) by simp
  next
    case (unfrozen e front' rest' folded b q table)
    then show ?thesis using drained [OF unfrozen(3)] assms(2) by simp
  next
    case (prompted front' rest' folded b q table settings payload merged)
    then show ?thesis
      using prompt_scheduled_queued [OF prompted(6)] drained [OF prompted(2)] assms(2) by auto
  qed
next
  case False
  then have less: "length (session_queued (parked g boundary s)) < length (session_queued s)"
    using length_park_stale [of "sg_env g" boundary "as_queue s"] by simp
  have drained: "length (qs_queued (rq_state q)) \<le> length (session_queued (parked g boundary s))"
    if "drain_coalescing_after_first (as_budget s) (as_queue (parked g boundary s)) = (folded, b, q)"
      "session_queued (parked g boundary s) = front' # rest'"
    for folded b q front' rest'
    using drain_queued [OF that(1,2)] that(2) by simp
  show ?thesis
    using assms(1)
  proof (cases rule: start_shape)
    case (early e)
    then show ?thesis using less assms(2) by auto
  next
    case (unread e front' rest' folded b q)
    then show ?thesis using drained [OF unread(3,2)] less by simp
  next
    case (unfrozen e front' rest' folded b q table)
    then show ?thesis using drained [OF unfrozen(3,2)] less by simp
  next
    case (prompted front' rest' folded b q table settings payload merged)
    then show ?thesis
      using prompt_scheduled_queued [OF prompted(6)] drained [OF prompted(2,1)] less by auto
  qed
qed

lemma after_failed_start_good: "queue_good (as_queue s) \<Longrightarrow> queue_good (as_queue (after_failed_start r s))"
  by (auto simp: after_failed_start_def Let_def drop_failed_finish_good drop_failed_cancel_good
      split: prod.split)

lemma after_failed_start_shrinks:
  assumes "queue_good (as_queue s)"
  shows "length (session_queued (after_failed_start r s)) \<le> length (session_queued s)"
    and "r \<in> set (session_queued s) \<Longrightarrow>
      length (session_queued (after_failed_start r s)) < length (session_queued s)"
proof -
  show "length (session_queued (after_failed_start r s)) \<le> length (session_queued s)"
    by (auto simp: after_failed_start_def Let_def split: prod.split dest: drop_failed_cancel_queued(1))
  assume r: "r \<in> set (session_queued s)"
  have ids: "distinct (map sr_run_id (live (rq_state (as_queue s))))"
    by (rule good_ids(1) [OF assms])
  have "\<not> is_held (sr_run_id r) (as_queue s)"
    using ids r by (auto simp: is_held_def list_ex_iff live_def waiting_def image_iff)
  moreover have "map_option (\<lambda>(run, _). sr_run_id run) (session_active s) \<noteq> Some (sr_run_id r)"
    using ids r by (auto simp: live_def waiting_def image_iff)
  ultimately show "length (session_queued (after_failed_start r s)) < length (session_queued s)"
    using r by (auto simp: after_failed_start_def Let_def split: prod.split
        dest: drop_failed_cancel_queued(2))
qed

lemma failed_start_shrinks:
  assumes "start_next_scheduled_at g boundary s = (Inl e, s')" "next_startable (as_queue s) = Some front"
    and "queue_good (as_queue s)"
  shows "length (session_queued (after_failed_start front s')) < length (session_queued s)"
proof -
  obtain rest where front: "session_queued s = front # rest"
    using assms(2) by (auto simp: next_startable_def split: list.splits)
  have good: "queue_good (as_queue s')" by (rule start_keeps_good [OF assms(1,3)])
  show ?thesis
    using failed_start_front [OF assms(1) front] after_failed_start_shrinks [OF good, of front]
    by auto
qed

section \<open>Starting from rest\<close>

definition at_rest :: "agent_session \<Rightarrow> bool" where
  "at_rest s \<longleftrightarrow> session_active s = None \<and> rc_active (rt_control (as_runtime s)) = None
     \<and> rt_task (as_runtime s) = None"

text \<open>A run that has begun and has no task: nothing of the run is left that could end it.\<close>

definition stranded :: "agent_session \<Rightarrow> bool" where
  "stranded s \<longleftrightarrow> (\<exists>a. rc_active (rt_control (as_runtime s)) = Some a \<and> ar_phase a = Starting)
     \<and> rt_task (as_runtime s) = None"

definition runs_lease :: "run_lease \<Rightarrow> agent_session \<Rightarrow> bool" where
  "runs_lease lease s \<longleftrightarrow> active_lease (rt_control (as_runtime s)) = Some lease
     \<and> (\<exists>r. session_active s = Some (r, le_epoch lease) \<and> sr_run_id r = le_run_id lease)"

definition same_books :: "session_runtime \<Rightarrow> session_runtime \<Rightarrow> bool" where
  "same_books t t' \<longleftrightarrow> (control_ok (rt_control t) \<longrightarrow> control_ok (rt_control t'))
     \<and> rt_monitor t' = rt_monitor t \<and> rt_completions t' = rt_completions t"

lemma same_books_refl [simp]: "same_books t t" by (simp add: same_books_def)

lemma same_books_trans: "same_books a b \<Longrightarrow> same_books b c \<Longrightarrow> same_books a c"
  by (simp add: same_books_def)

lemma abandon_lease_idle:
  assumes "active_lease (rt_control t) = Some lease" "rt_task t = None"
  shows "rc_active (rt_control (abandon_lease lease t)) = None"
    and "rt_task (abandon_lease lease t) = None" "same_books t (abandon_lease lease t)"
proof -
  obtain a where a: "rc_active (rt_control t) = Some a" "ar_lease a = lease" using assms(1) by auto
  let ?c = "snd (begin_finalizing lease (rt_control t))"
  have c: "?c = (rt_control t)\<lparr>rc_active := Some (a\<lparr>ar_phase := Finalizing\<rparr>)\<rparr>"
    using a by (simp add: begin_finalizing_def)
  have ended: "fst (finish lease ?c)" "rc_active (snd (finish lease ?c)) = None"
    using a by (simp_all add: c finish_def)
  have t': "abandon_lease lease t = t\<lparr>rt_control := snd (finish lease ?c)\<rparr>"
    using assms(2) by (simp add: abandon_lease_def runtime_finish_def split_beta)
  show "rc_active (rt_control (abandon_lease lease t)) = None" "rt_task (abandon_lease lease t) = None"
    using ended(2) assms(2) by (simp_all add: t')
  have "kept (rt_control t) ?c" by (metis begin_finalizing_kept prod.collapse)
  then have "kept (rt_control t) (snd (finish lease ?c))"
    using finish_kept [of lease ?c] kept_trans by (metis prod.collapse)
  then show "same_books t (abandon_lease lease t)"
    by (simp add: same_books_def t' kept_def)
qed

definition started_from :: "scheduled_run \<Rightarrow> run_lease \<Rightarrow> bool" where
  "started_from request lease \<longleftrightarrow> le_run_id lease = sr_run_id request
     \<and> le_run_sequence lease = Some (sr_run_sequence request)"

lemma begin_scheduled_lease:
  assumes "runtime_begin generated (Some rid) (Some client) (Some n) t = Inr (lease, t')" "rid \<noteq> []"
  shows "le_run_id lease = rid \<and> le_run_sequence lease = Some n \<and> rt_task t' = None
    \<and> active_lease (rt_control t') = Some lease \<and> same_books t t'
    \<and> t' = t\<lparr>rt_control := rt_control t'\<rparr>
    \<and> (\<exists>a. rc_active (rt_control t') = Some a \<and> ar_phase a = Starting)"
  using assms(1)
proof (cases rule: runtime_begin_Inr)
  case (1 c)
  have "le_run_id lease = rid" "le_run_sequence lease = Some n"
    using 1(3) assms(2) by (auto simp: begin_with_sequence_def Let_def split: if_splits option.splits)
  moreover have "\<exists>a. rc_active c = Some a \<and> ar_phase a = Starting"
    using 1(3) by (auto simp: begin_with_sequence_def Let_def split: if_splits option.splits)
  ultimately show ?thesis using 1(1,2) begin_Inr(2,5) [OF 1(3)] by (simp add: same_books_def)
qed

lemma install_keeps:
  fixes t lease tx flag
  defines "t' \<equiv> t\<lparr>rt_control := snd (install_cancellation lease tx flag (rt_control t))\<rparr>"
  shows "active_lease (rt_control t') = active_lease (rt_control t)" "same_books t t'"
    "rt_task t' = rt_task t"
proof -
  have op: "exec_control (Install lease tx flag) (rt_control t)
      = (fst (install_cancellation lease tx flag (rt_control t)), rt_control t')"
    by (simp add: t'_def)
  show "active_lease (rt_control t') = active_lease (rt_control t)" by (rule exec_control_lease [OF op])
  show "same_books t t'" using exec_control_kept [OF op] by (simp add: same_books_def kept_def t'_def)
  show "rt_task t' = rt_task t" by (simp add: t'_def)
qed

text \<open>With the queue and the runtime at rest, a start takes the front or leaves both at rest, or the
  checks of a Fusion run fail and leave the run stranded.\<close>

lemma prompt_scheduled_from_rest:
  assumes "prompt_scheduled g payload coalesced request s = (res, s')"
    and "at_rest s" "session_queued s = request # rest" "sr_run_id request \<noteq> []"
  shows "case res of
      Inl e \<Rightarrow> at_rest s' \<or> stranded s' \<and> (\<exists>e. fusion_scope g (as_created_by s) (pp_settings payload) = Inl e)
    | Inr lease \<Rightarrow> runs_lease lease s' \<and> started_from request lease
        \<and> rt_task (as_runtime s') = Some lease \<and> session_queued s' = rest
        \<and> as_messages s' = as_messages s @ [\<lparr>um_run_id = sr_run_id request,
            um_coalesced_run_ids = coalesced, um_payload = payload\<rparr>]" (is ?started)
    and "same_books (as_runtime s) (as_runtime s')" (is ?books)
proof -
  have idle: "rc_active (rt_control (as_runtime s)) = None" "rt_task (as_runtime s) = None"
    "session_active s = None" using assms(2) by (simp_all add: at_rest_def)
  have "?started \<and> ?books"
  proof (cases "sg_prepares g")
    case False
    then show ?thesis using assms(1,2) by (auto simp: prompt_scheduled_def)
  next
    case prepared: True
    show ?thesis
    proof (cases "runtime_begin (sg_generated g) (Some (sr_run_id request))
        (Some (sr_client_request_id request)) (Some (sr_run_sequence request)) (as_runtime s)")
      case (Inl e)
      then show ?thesis using assms(1,2) prepared by (auto simp: prompt_scheduled_def)
    next
      case (Inr granted)
      obtain lease t where at: "granted = (lease, t)" by (rule prod.exhaust)
      note begun = begin_scheduled_lease [OF Inr [unfolded at] assms(4)]
      have gone: "rc_active (rt_control (abandon_lease lease t)) = None"
        "rt_task (abandon_lease lease t) = None" "same_books (as_runtime s) (abandon_lease lease t)"
        using abandon_lease_idle [of t lease] begun by (auto simp: same_books_def)
      obtain ack b q where started: "start_next (le_epoch lease) (as_budget s) (as_queue s)
          = Inr (request, ack, b, q)"
        and q: "q = (as_queue s)\<lparr>rq_state := (rq_state (as_queue s))\<lparr>qs_queued := rest,
            qs_queued_bytes := qs_queued_bytes (rq_state (as_queue s)) - sr_payload_bytes request,
            qs_active := Some (request, le_epoch lease)\<rparr>\<rparr>"
        using idle(3) assms(3) by (simp add: start_next_def Let_def)
      let ?q = "release_active_payload (sr_run_id request) q"
      have act: "qs_active (rq_state ?q)
          = Some (request\<lparr>sr_payload := JNull, sr_payload_bytes := 0\<rparr>, le_epoch lease)"
        "qs_queued (rq_state ?q) = rest"
        by (simp_all add: q release_active_payload_def)
      have off: "qs_active (rq_state (drop_failed_finish (le_run_id lease) ?q)) = None"
        using act begun by (simp add: drop_failed_finish_def finish_active_def Let_def)
      define t1 where "t1 = t\<lparr>rt_control := snd (install_cancellation lease (sg_channel g) (sg_flag g)
          (rt_control t))\<rparr>"
      note installed = install_keeps [where t = t and lease = lease and tx = "sg_channel g" and flag = "sg_flag g", folded t1_def]
      have spawned: "spawn_task lease t1 = Inr (t1\<lparr>rt_task := Some lease\<rparr>)"
        using begun installed(3) by (simp add: spawn_task_def)
      show ?thesis
      proof (cases "\<not> as_ephemeral s \<and> \<not> sg_persists g")
        case True
        then show ?thesis
          using assms(1) prepared Inr at started off gone
          by (auto simp: prompt_scheduled_def at_rest_def Let_def)
      next
        case persisted: False
        show ?thesis
        proof (cases "fusion_scope g (as_created_by s) (pp_settings payload)")
          case (Inl e)
          then have "res = Inl (StartFailed e)" "as_runtime s' = t"
            using assms(1) prepared \<open>runtime_begin _ _ _ _ _ = Inr granted\<close> at started persisted
            by (auto simp: prompt_scheduled_def Let_def)
          then show ?thesis using begun Inl by (simp add: stranded_def)
        next
          case (Inr ready)
          then have "res = Inr lease" "s' = s\<lparr>as_runtime := t1\<lparr>rt_task := Some lease\<rparr>,
              as_budget := b, as_queue := ?q, as_messages := as_messages s @
                [\<lparr>um_run_id = le_run_id lease, um_coalesced_run_ids = coalesced, um_payload = payload\<rparr>]\<rparr>"
            using assms(1) prepared \<open>runtime_begin _ _ _ _ _ = Inr granted\<close> at started spawned persisted
            by (auto simp: prompt_scheduled_def Let_def t1_def)
          then show ?thesis
            using act begun installed same_books_trans [of "as_runtime s" t t1]
            by (simp add: runs_lease_def started_from_def same_books_def)
        qed
      qed
    qed
  qed
  then show ?started ?books by blast+
qed

lemma prompt_scheduled_frame:
  "prompt_scheduled g payload coalesced request s = (res, s') \<Longrightarrow>
   as_handled s' = as_handled s \<and> as_ephemeral s' = as_ephemeral s \<and> as_created_by s' = as_created_by s
   \<and> as_snapshots s' = as_snapshots s"
  by (auto simp: prompt_scheduled_def Let_def split: if_splits sum.splits)

lemma start_frame:
  assumes "start_next_scheduled_at g boundary s = (res, s')"
  shows "as_handled s' = as_handled s \<and> as_ephemeral s' = as_ephemeral s \<and> as_created_by s' = as_created_by s"
  using assms by (cases rule: start_shape) (auto dest: prompt_scheduled_frame)

lemma parked_active [simp]:
  "qs_active (rq_state (snd (park_stale env boundary q))) = qs_active (rq_state q)"
  by (simp add: park_stale_eq)

lemma drained_active:
  "drain_coalescing_after_first b q = (folded, b', q') \<Longrightarrow> qs_active (rq_state q') = qs_active (rq_state q)"
  by (erule drain_cases) simp_all

definition lively :: "agent_session \<Rightarrow> run_lease \<Rightarrow> bool" where
  "lively s lease \<longleftrightarrow> runs_lease lease s \<and> rt_task (as_runtime s) = Some lease"

lemma start_from_rest:
  assumes "start_next_scheduled_at g boundary s = (res, s')" "at_rest s" "queue_good (as_queue s)"
  shows "(case res of
      Inl e \<Rightarrow> at_rest s' \<or> stranded s' \<and> (\<exists>settings e. fusion_scope g (as_created_by s) settings = Inl e)
    | Inr lease \<Rightarrow> lively s' lease)
    \<and> same_books (as_runtime s) (as_runtime s')"
  using assms(1)
proof (cases rule: start_shape)
  case (early e)
  then show ?thesis using assms(2) by (auto simp: at_rest_def)
next
  case (unread e front rest folded b q)
  then show ?thesis using assms(2) drained_active [OF unread(3)] by (simp add: at_rest_def)
next
  case (unfrozen e front rest folded b q table)
  then show ?thesis using assms(2) drained_active [OF unfrozen(3)] by (simp add: at_rest_def)
next
  case (prompted front rest folded b q table settings payload merged)
  let ?s = "s\<lparr>as_budget := b, as_queue := q, as_snapshots := table\<rparr>"
  have good: "queue_good q" using drain_good [OF _ prompted(2)] park_good assms(3) by simp
  have rest: "at_rest ?s" using assms(2) drained_active [OF prompted(2)] by (simp add: at_rest_def)
  have front: "session_queued ?s = front # drop (length folded) rest"
    using drain_queued [OF prompted(2), of front rest] prompted(1) by simp
  have "sr_run_id front \<noteq> []"
    using good_ids(2) [OF good, of front] front by (simp add: live_def waiting_def)
  from prompt_scheduled_from_rest [OF prompted(6) rest front this]
  show ?thesis by (auto simp: lively_def split: sum.splits)
qed

text \<open>A stranded run refuses every start.\<close>

lemma stranded_starts_nothing:
  assumes "start_next_scheduled_at g boundary s = (res, s')" "stranded s"
  shows "(\<exists>e. res = Inl e) \<and> as_runtime s' = as_runtime s \<and> as_messages s' = as_messages s"
  using assms(1)
proof (cases rule: start_shape)
  case (prompted front rest folded b q table settings payload merged)
  have "\<exists>e. runtime_begin generated (Some rid) client sequence (as_runtime s) = Inl e" for generated rid client sequence
    using assms(2) by (auto simp: stranded_def runtime_begin_def begin_with_sequence_def Let_def)
  then have "\<exists>e. runtime_begin (sg_generated g) (Some (sr_run_id front)) (Some (sr_client_request_id front))
      (Some (sr_run_sequence front)) (as_runtime s) = Inl e" by blast
  then show ?thesis using prompted(6) by (auto simp: prompt_scheduled_def split: if_splits)
qed auto

lemma drop_failed_cancel_active [simp]:
  "qs_active (rq_state (snd (drop_failed_cancel rid b q))) = qs_active (rq_state q)"
  by (auto simp: drop_failed_cancel_def split: sum.split elim!: cancel_queued_cases)

lemma after_failed_start_rest:
  "at_rest s \<Longrightarrow> at_rest (after_failed_start r s)"
  "as_runtime (after_failed_start r s) = as_runtime s"
  "as_handled (after_failed_start r s) = as_handled s"
  "as_messages (after_failed_start r s) = as_messages s"
  "as_created_by (after_failed_start r s) = as_created_by s"
  by (auto simp: after_failed_start_def at_rest_def Let_def split: prod.split)
    (metis drop_failed_cancel_active snd_conv)

lemma stranded_after_failed [simp]: "stranded (after_failed_start r s) = stranded s"
  by (simp add: stranded_def after_failed_start_rest(2))

text \<open>The loop drops every prompt behind a stranded run.\<close>

lemma dequeue_stranded:
  assumes "queue_good (as_queue s)" "stranded s"
  shows "\<exists>s'. dequeue_loop gates s = Some s' \<and> queue_good (as_queue s') \<and> session_queued s' = []
    \<and> as_runtime s' = as_runtime s \<and> as_messages s' = as_messages s \<and> as_handled s' = as_handled s"
  using assms
proof (induction "length (session_queued s)" arbitrary: s gates rule: less_induct)
  case less
  show ?case
  proof (cases "next_startable (as_queue s)")
    case None
    then show ?thesis using less.prems by (simp add: dequeue_loop.simps next_startable_def split: list.splits)
  next
    case (Some front)
    obtain res s1 where started: "start_next_scheduled_at (gates 0) AfterRun s = (res, s1)"
      by (rule prod.exhaust)
    obtain e where res: "res = Inl e" "as_runtime s1 = as_runtime s" "as_messages s1 = as_messages s"
      using stranded_starts_nothing [OF started less.prems(2)] by blast
    let ?s2 = "after_failed_start front s1"
    have step: "dequeue_loop gates s = dequeue_loop (\<lambda>n. gates (Suc n)) ?s2"
      using Some started res(1) by (simp add: dequeue_loop.simps [of gates])
    have "stranded ?s2" using less.prems(2) res(2) by (simp add: stranded_def after_failed_start_rest(2))
    moreover have "queue_good (as_queue ?s2)"
      using start_keeps_good [OF started less.prems(1)] by (rule after_failed_start_good)
    moreover have "length (session_queued ?s2) < length (session_queued s)"
      using failed_start_shrinks [OF _ Some less.prems(1)] started res(1) by simp
    ultimately obtain s' where "dequeue_loop (\<lambda>n. gates (Suc n)) ?s2 = Some s'" "queue_good (as_queue s')"
      "session_queued s' = []" "as_runtime s' = as_runtime ?s2" "as_messages s' = as_messages ?s2"
      "as_handled s' = as_handled ?s2"
      using less.hyps by blast
    then show ?thesis
      using step res start_frame [OF started] by (simp add: after_failed_start_rest(2-4))
  qed
qed

lemma dequeue_total:
  assumes "queue_good (as_queue s)" "at_rest s"
  shows "\<exists>s'. dequeue_loop gates s = Some s' \<and> queue_good (as_queue s')
    \<and> same_books (as_runtime s) (as_runtime s') \<and> as_handled s' = as_handled s
    \<and> (at_rest s' \<and> session_queued s' = [] \<or> (\<exists>lease. lively s' lease)
       \<or> stranded s' \<and> session_queued s' = []
         \<and> (\<exists>n settings e. fusion_scope (gates n) (as_created_by s) settings = Inl e))"
  using assms
proof (induction "length (session_queued s)" arbitrary: s gates rule: less_induct)
  case less
  show ?case
  proof (cases "next_startable (as_queue s)")
    case None
    then have "session_queued s = []" by (simp add: next_startable_def split: list.splits)
    then show ?thesis using less.prems None by (simp add: dequeue_loop.simps)
  next
    case (Some front)
    obtain res s1 where started: "start_next_scheduled_at (gates 0) AfterRun s = (res, s1)"
      by (rule prod.exhaust)
    note from_rest = start_from_rest [OF started less.prems(2,1)]
    note frame = start_frame [OF started]
    have good: "queue_good (as_queue s1)" by (rule start_keeps_good [OF started less.prems(1)])
    show ?thesis
    proof (cases res)
      case (Inr lease)
      then show ?thesis
        using Some started from_rest good frame
        by (auto simp: dequeue_loop.simps [of gates])
    next
      case (Inl e)
      let ?s2 = "after_failed_start front s1"
      have step: "dequeue_loop gates s = dequeue_loop (\<lambda>n. gates (Suc n)) ?s2"
        using Some started Inl by (simp add: dequeue_loop.simps [of gates])
      have good2: "queue_good (as_queue ?s2)" using good by (rule after_failed_start_good)
      consider "at_rest s1" | (stuck) settings e where "stranded s1"
          "fusion_scope (gates 0) (as_created_by s) settings = Inl e"
        using from_rest Inl by auto
      then show ?thesis
      proof cases
        case 1
        have "at_rest ?s2" using 1 by (rule after_failed_start_rest(1))
        moreover have "length (session_queued ?s2) < length (session_queued s)"
          using failed_start_shrinks [OF _ Some less.prems(1)] started Inl by simp
        ultimately obtain s' where "dequeue_loop (\<lambda>n. gates (Suc n)) ?s2 = Some s'"
          "queue_good (as_queue s')" "same_books (as_runtime ?s2) (as_runtime s')"
          "as_handled s' = as_handled ?s2"
          "at_rest s' \<and> session_queued s' = [] \<or> (\<exists>lease. lively s' lease)
           \<or> stranded s' \<and> session_queued s' = []
             \<and> (\<exists>n settings e. fusion_scope (gates (Suc n)) (as_created_by ?s2) settings = Inl e)"
          using less.hyps good2 by blast
        then show ?thesis
          using step from_rest frame same_books_trans
          by (auto simp: after_failed_start_rest(2,3,5))
      next
        case stuck
        then obtain s' where "dequeue_loop (\<lambda>n. gates (Suc n)) ?s2 = Some s'" "queue_good (as_queue s')"
          "session_queued s' = []" "as_runtime s' = as_runtime ?s2" "as_handled s' = as_handled ?s2"
          using dequeue_stranded [OF good2, of "\<lambda>n. gates (Suc n)"] by auto
        then show ?thesis
          using step from_rest frame stuck
          by (auto simp: after_failed_start_rest(2,3) stranded_def)
      qed
    qed
  qed
qed

section \<open>What a run is given\<close>

text \<open>The paragraphs that are not empty, with a blank line between them.\<close>

definition paragraphs :: "string list \<Rightarrow> string" where
  "paragraphs xs = join blank_line (filter (\<lambda>x. x \<noteq> []) xs)"

lemma join_Cons: "xs \<noteq> [] \<Longrightarrow> join sep (x # xs) = x @ sep @ join sep xs"
  by (cases xs) simp_all

lemma paragraphs_push: "paragraphs (push_paragraph m t # ms) = paragraphs (m # t # ms)"
  by (cases "filter (\<lambda>x. x \<noteq> []) ms = []") (auto simp: paragraphs_def push_paragraph_def join_Cons)

lemma merge_all_parts:
  "merge_all decode p rs = Some m \<Longrightarrow> \<exists>ps. map (\<lambda>r. decode (sr_payload r)) rs = map Some ps
    \<and> paragraphs [pp_message m] = paragraphs (map pp_message (p # ps))
    \<and> paragraphs [pp_model_context m] = paragraphs (map pp_model_context (p # ps))
    \<and> pp_images m = concat (map pp_images (p # ps))
    \<and> pp_attachments m = concat (map pp_attachments (p # ps))
    \<and> (rs_fusion_enabled (pp_settings m) \<longleftrightarrow> (\<exists>x \<in> set (p # ps). rs_fusion_enabled (pp_settings x)))"
proof (induction rs arbitrary: p)
  case Nil
  then show ?case by auto
next
  case (Cons r rs)
  then obtain t where t: "decode (sr_payload r) = Some t" "merge_all decode (merge_payload p t) rs = Some m"
    by (auto split: option.splits)
  obtain ps where ps: "map (\<lambda>r. decode (sr_payload r)) rs = map Some ps"
    "paragraphs [pp_message m] = paragraphs (map pp_message (merge_payload p t # ps))"
    "paragraphs [pp_model_context m] = paragraphs (map pp_model_context (merge_payload p t # ps))"
    "pp_images m = concat (map pp_images (merge_payload p t # ps))"
    "pp_attachments m = concat (map pp_attachments (merge_payload p t # ps))"
    "rs_fusion_enabled (pp_settings m)
       \<longleftrightarrow> (\<exists>x \<in> set (merge_payload p t # ps). rs_fusion_enabled (pp_settings x))"
    using Cons.IH [OF t(2)] by blast
  show ?case
    by (rule exI [of _ "t # ps"])
      (use ps t(1) in \<open>simp add: merge_payload_def paragraphs_push; blast\<close>)
qed

lemma paragraphs_single [simp]: "paragraphs [x] = x"
  by (simp add: paragraphs_def)

lemma map_filter_same:
  "(\<And>x. x \<in> set xs \<Longrightarrow> f x = g x) \<Longrightarrow> List.map_filter f xs = List.map_filter g xs"
  by (induction xs) (simp_all add: map_filter_simps split: option.split)

lemma take_snapshots_last:
  "distinct (map sr_run_id rs) \<Longrightarrow> fst (take_snapshots table found rs)
     = (let xs = List.map_filter (\<lambda>r. table (sr_run_id r)) rs in if xs = [] then found else Some (last xs))"
proof (induction rs arbitrary: table found)
  case Nil
  then show ?case by (simp add: map_filter_simps)
next
  case (Cons r rs)
  have "List.map_filter (\<lambda>x. (table(sr_run_id r := None)) (sr_run_id x)) rs
      = List.map_filter (\<lambda>x. table (sr_run_id x)) rs"
    using Cons.prems by (intro map_filter_same) (auto simp: image_iff)
  then show ?case using Cons by (auto simp: Let_def map_filter_simps split: option.split)
qed

text \<open>C17: A run answers every prompt folded into it: when a start succeeds, the run has the identity
  of the prompt at the front, the prompts folded are those directly behind it, in queue order, what
  stays queued is the rest, and the message the run starts with holds the text and the context of
  all of them as paragraphs, all their images and attachments, and names the folded runs. It runs
  under the settings frozen last among them, with fusion on when any of them asked for it.\<close>

theorem started_run_answers_all_folded:
  assumes "at_rest s" "queue_good (as_queue s)"
    and "start_next_scheduled_at g boundary s = (Inr lease, s')"
  shows "\<exists>front folded payloads m.
      filter (\<lambda>r. park_verdict (sg_env g) boundary (as_queue s) r = None) (session_queued s)
        = front # folded @ session_queued s'
    \<and> started_from front lease \<and> lively s' lease
    \<and> map (\<lambda>r. sg_decode g (sr_payload r)) (front # folded) = map Some payloads
    \<and> as_messages s' = as_messages s @ [\<lparr>um_run_id = sr_run_id front,
        um_coalesced_run_ids = map sr_run_id folded, um_payload = m\<rparr>]
    \<and> pp_message m = paragraphs (map pp_message payloads)
    \<and> pp_model_context m = paragraphs (map pp_model_context payloads)
    \<and> pp_images m = concat (map pp_images payloads)
    \<and> pp_attachments m = concat (map pp_attachments payloads)
    \<and> pp_settings m = (last (List.map_filter (\<lambda>r. as_snapshots s (sr_run_id r)) (front # folded)))
        \<lparr>rs_fusion_enabled := \<exists>p \<in> set payloads. rs_fusion_enabled (pp_settings p)\<rparr>"
  using assms(3)
proof (cases rule: start_shape)
  case (prompted front rest folded b q table settings payload merged)
  let ?s = "s\<lparr>as_budget := b, as_queue := q, as_snapshots := table\<rparr>"
  let ?m = "under_settings settings merged"
  have parked: "queue_good (as_queue (parked g boundary s))" using park_good assms(2) by simp
  have good: "queue_good q" using drain_good [OF parked prompted(2)] .
  have drained: "session_queued ?s = front # drop (length folded) rest" "folded = take (length folded) rest"
    using drain_queued [OF prompted(2,1)] by simp_all
  have rest: "at_rest ?s" using assms(1) drained_active [OF prompted(2)] by (simp add: at_rest_def)
  have "sr_run_id front \<noteq> []"
    using good_ids(2) [OF good, of front] drained(1) by (simp add: live_def waiting_def)
  note started = prompt_scheduled_from_rest(1) [OF prompted(6) rest drained(1) this]
  have queue: "filter (\<lambda>r. park_verdict (sg_env g) boundary (as_queue s) r = None) (session_queued s)
      = front # folded @ session_queued s'"
    using prompted(1) drained(2) started by (simp add: park_stale_eq) (metis append_take_drop_id)
  have "distinct (map sr_run_id (session_queued (parked g boundary s)))"
    using good_ids(1) [OF parked] by (simp add: live_def waiting_def)
  then have "distinct (map sr_run_id (front # rest))" unfolding prompted(1) .
  then have "distinct (map sr_run_id (front # folded))"
    using drained(2) by (metis distinct_take list.simps(9) take_Suc_Cons take_map)
  from take_snapshots_last [OF this, of "as_snapshots s" None]
  have settings: "settings = last (List.map_filter (\<lambda>r. as_snapshots s (sr_run_id r)) (front # folded))"
    using prompted(3) by (simp add: Let_def split: if_splits)
  obtain ps where ps: "map (\<lambda>r. sg_decode g (sr_payload r)) folded = map Some ps"
    "pp_message merged = paragraphs (map pp_message (payload # ps))"
    "pp_model_context merged = paragraphs (map pp_model_context (payload # ps))"
    "pp_images merged = concat (map pp_images (payload # ps))"
    "pp_attachments merged = concat (map pp_attachments (payload # ps))"
    "rs_fusion_enabled (pp_settings merged) \<longleftrightarrow> (\<exists>x \<in> set (payload # ps). rs_fusion_enabled (pp_settings x))"
    using merge_all_parts [OF prompted(5)] by auto
  show ?thesis
  proof (intro exI conjI)
    show "map (\<lambda>r. sg_decode g (sr_payload r)) (front # folded) = map Some (payload # ps)"
      using ps(1) prompted(4) by simp
    show "as_messages s' = as_messages s @ [\<lparr>um_run_id = sr_run_id front,
        um_coalesced_run_ids = map sr_run_id folded, um_payload = ?m\<rparr>]"
      using started by simp
    show "pp_settings ?m = (last (List.map_filter (\<lambda>r. as_snapshots s (sr_run_id r)) (front # folded)))
        \<lparr>rs_fusion_enabled := \<exists>p \<in> set (payload # ps). rs_fusion_enabled (pp_settings p)\<rparr>"
      using ps(6) settings by (simp add: under_settings_def)
  qed (use queue started ps in \<open>simp_all add: under_settings_def lively_def\<close>)
qed simp_all

section \<open>A small session\<close>

definition demo_settings :: run_settings where
  "demo_settings = \<lparr>rs_settings_schema_version = 1, rs_fusion_enabled = False, rs_model = ''m'',
     rs_thinking_level = ''default'', rs_cwd = ''w'', rs_auto_compaction = True, rs_auto_retry = True,
     rs_no_context_files = False, rs_permission_level = ''all'', rs_sandbox_tier = None\<rparr>"

definition demo_gate :: session_gate where
  "demo_gate = \<lparr>sg_env = session_env\<lparr>qe_age := (\<lambda>_. Some 5)\<rparr>, sg_precheck = Inr None, sg_admits = True,
     sg_closed = False, sg_persistence_error = None, sg_settles = True, sg_records = True,
     sg_cancels = (\<lambda>_. True),
     sg_decode = (\<lambda>v. case v of JStr t \<Rightarrow> Some \<lparr>pp_message = t, pp_model_context = [], pp_images = [],
        pp_attachments = [], pp_settings = demo_settings\<rparr> | _ \<Rightarrow> None),
     sg_prepares = True, sg_generated = ''g'', sg_persists = True, sg_inner = Inr None,
     sg_live_window = (\<lambda>_. 0), sg_canonical = Inr, sg_without_deadline = Inr (),
     sg_fusion_settings = Inr False, sg_fusion_available = True, sg_storage_identity = Inr (),
     sg_fusion_store = Inr (), sg_channel = 0, sg_flag = 0\<rparr>"

lemma demo_gate_simps [simp]:
  "sg_precheck demo_gate = Inr None" "sg_admits demo_gate" "\<not> sg_closed demo_gate"
  "sg_persistence_error demo_gate = None" "sg_settles demo_gate" "sg_prepares demo_gate"
  "sg_persists demo_gate" "sg_generated demo_gate = ''g''"
  "qe_age (sg_env demo_gate) = (\<lambda>_. Some 5)" "qe_now (sg_env demo_gate) = ''t''"
  "qe_text (sg_env demo_gate) (JStr t) = t"
  "sg_decode demo_gate (JStr t) = Some \<lparr>pp_message = t, pp_model_context = [], pp_images = [],
        pp_attachments = [], pp_settings = demo_settings\<rparr>"
  by (simp_all add: demo_gate_def session_env_def)

abbreviation demo_session :: agent_session where
  "demo_session \<equiv> new_session demo_budget ''s'' 1 True ''gui''"

definition burst_session :: agent_session where
  "burst_session = demo_session\<lparr>as_snapshots := [''r1'' \<mapsto> demo_settings, ''r2'' \<mapsto> demo_settings\<lparr>rs_model := ''n''\<rparr>],
     as_queue := (as_queue demo_session)\<lparr>rq_state :=
       \<lparr>qs_next_sequence = 3, qs_active = None,
        qs_queued = [demo_request ''c1'' ''r1'' 1 ''hello'', demo_request ''c2'' ''r2'' 2 ''more''],
        qs_held = [], qs_queued_bytes = 9,
        qs_requests = [''c1'' \<mapsto> \<lparr>ri_digest = sr_request_digest (demo_request ''c1'' ''r1'' 1 ''hello''),
             ri_run_id = ''r1'', ri_run_sequence = 1\<rparr>,
           ''c2'' \<mapsto> \<lparr>ri_digest = sr_request_digest (demo_request ''c2'' ''r2'' 2 ''more''),
             ri_run_id = ''r2'', ri_run_sequence = 2\<rparr>],
        qs_run_ids = {''r1'', ''r2''}, qs_terminal_acks = []\<rparr>\<rparr>\<rparr>"

lemma burst_good: "queue_good (as_queue burst_session)"
  by (auto simp: queue_good_def queue_inv_def indexed_def tables_ok_def idents_ok_def live_def
      waiting_def run_key_def burst_session_def)

lemma demo_request_payload [simp]: "sr_payload (demo_request client rid n msg) = JStr msg"
  by (simp add: demo_request_def)

lemmas demo_start_simps = start_next_scheduled_at_def park_stale_eq park_verdict_def
  next_startable_def drain_coalescing_after_first_def QUEUED_RUN_STALE_AFTER_def new_session_def
  new_queue_def with_limits_and_global_def DEFAULT_REQUEST_BYTES_def
  prompt_scheduled_def runtime_begin_def begin_with_sequence_def already_accepted_def new_runtime_def
  new_control_def start_next_def release_active_payload_def spawn_task_def fusion_scope_def
  under_settings_def install_cancellation_def merge_payload_def demo_settings_def Let_def

lemma burst_starts:
  "\<exists>lease s'. start_next_scheduled_at demo_gate Idle burst_session = (Inr lease, s') \<and> session_queued s' = []"
  by (simp add: demo_start_simps burst_session_def)

theorem started_run_answers_all_folded_witness:
  "\<exists>lease s' m. start_next_scheduled_at demo_gate Idle burst_session = (Inr lease, s')
     \<and> as_messages s' = [\<lparr>um_run_id = ''r1'', um_coalesced_run_ids = [''r2''], um_payload = m\<rparr>]
     \<and> pp_message m = ''hello'' @ blank_line @ ''more'' \<and> rs_model (pp_settings m) = ''n''"
proof -
  obtain lease s' where start: "start_next_scheduled_at demo_gate Idle burst_session = (Inr lease, s')"
    and none_left: "session_queued s' = []" using burst_starts by blast
  have "at_rest burst_session"
    by (simp add: at_rest_def burst_session_def new_session_def new_runtime_def new_control_def)
  from started_run_answers_all_folded [OF this burst_good start] obtain front folded payloads m where
    queue: "filter (\<lambda>r. park_verdict (sg_env demo_gate) Idle (as_queue burst_session) r = None)
        (session_queued burst_session) = front # folded @ session_queued s'"
    and payloads: "map (\<lambda>r. sg_decode demo_gate (sr_payload r)) (front # folded) = map Some payloads"
    and message: "as_messages s' = as_messages burst_session @ [\<lparr>um_run_id = sr_run_id front,
        um_coalesced_run_ids = map sr_run_id folded, um_payload = m\<rparr>]"
    and texts: "pp_message m = paragraphs (map pp_message payloads)"
    and settings: "pp_settings m
        = (last (List.map_filter (\<lambda>r. as_snapshots burst_session (sr_run_id r)) (front # folded)))
        \<lparr>rs_fusion_enabled := \<exists>p \<in> set payloads. rs_fusion_enabled (pp_settings p)\<rparr>"
    by blast
  have runs: "front = demo_request ''c1'' ''r1'' 1 ''hello''" "folded = [demo_request ''c2'' ''r2'' 2 ''more'']"
    using queue none_left
    by (simp_all add: burst_session_def park_verdict_def new_session_def new_queue_def
        with_limits_and_global_def QUEUED_RUN_STALE_AFTER_def)
  have "rs_model (pp_settings m) = ''n''"
    using settings by (simp add: runs burst_session_def map_filter_simps)
  moreover have "pp_message m = ''hello'' @ blank_line @ ''more''"
    using payloads texts by (auto simp: runs paragraphs_def)
  ultimately show ?thesis
    using start message by (simp add: runs burst_session_def new_session_def)
qed

end
