(* ===== verification/Session_Runs.thy ===== *)
theory Session_Runs
  imports Session_Start
begin

text \<open>
  Sequences of calls of a session (\<open>Session_Queue\<close>) interleaved with the background steps of its
  runtime: the queue and the runtime agree on the run that is active, a wake-up starts a prompt or
  empties the queue, and two ways in which a session gets stuck.
\<close>

section \<open>Steps of a session\<close>

text \<open>What goes on in the runtime while no call of the session runs: the operations of the run's
  task, cancellation and its timer, the recoveries and the monitor.\<close>

inductive background :: "session_runtime \<Rightarrow> session_runtime \<Rightarrow> bool" where
  control: "task_op op \<longrightarrow> rt_monitor t = None \<Longrightarrow> exec_control op (rt_control t) = (ok, c)
    \<Longrightarrow> background t (t\<lparr>rt_control := c\<rparr>)"
| cancels: "request_cancellation expected system t = Inr t' \<Longrightarrow> background t t'"
| timer_stops: "background t (stop_cancellation_timer t)"
| timer_fires: "background t (timer_check t)"
| timer_marks: "background t (timer_mark t)"
| recovers: "rt_monitor t = None \<Longrightarrow> recover_persistence_degraded lease t = (ok, t')
    \<Longrightarrow> background t t'"
| fault_finishes: "rt_monitor t = None \<Longrightarrow> finish_cancelled_fault lease t = (ok, t')
    \<Longrightarrow> background t t'"
| exits: "rt_monitor t = None \<Longrightarrow> background t (monitor_check failed t)"
| monitors: "background t (monitor_act t)"

text \<open>One call of the session, under its write lock, or one background step; the flag marks a
  wake-up that paused and a call that left a run stranded. A call that takes the runtime's task lock
  waits for the monitor.\<close>

inductive session_step :: "bool \<Rightarrow> agent_session \<Rightarrow> agent_session \<Rightarrow> bool" where
  enqueues: "rt_monitor (as_runtime s) = None
    \<Longrightarrow> enqueue_prompt g client requested policy payload settings s = (res, s')
    \<Longrightarrow> session_step (stranded s') s s'"
| releases: "rt_monitor (as_runtime s) = None \<Longrightarrow> release_queued_run g rid s = (res, s')
    \<Longrightarrow> session_step (stranded s') s s'"
| cancels: "cancel_queued_run g rid reason s = (res, s') \<Longrightarrow> session_step False s s'"
| cancels_all: "cancel_all_queued_runs reason s = (rs, s') \<Longrightarrow> session_step False s s'"
| wakes: "rt_monitor (as_runtime s) = None \<Longrightarrow> scheduler_wake g gates s = Some s'
    \<Longrightarrow> session_step (pauses g s \<or> stranded s') s s'"
| runs: "background (as_runtime s) t \<Longrightarrow> session_step False s (s\<lparr>as_runtime := t\<rparr>)"

inductive session_steps :: "agent_session \<Rightarrow> bool list \<Rightarrow> agent_session \<Rightarrow> bool" for s0 where
  none: "session_steps s0 [] s0"
| step: "session_steps s0 ps s \<Longrightarrow> session_step p s s' \<Longrightarrow> session_steps s0 (ps @ [p]) s'"

section \<open>The queue and the runtime agree\<close>

definition winding_up :: "run_lease \<Rightarrow> agent_session \<Rightarrow> bool" where
  "winding_up lease s \<longleftrightarrow> rc_active (rt_control (as_runtime s)) = None \<and> rt_task (as_runtime s) = None
     \<and> (\<exists>r. session_active s = Some (r, le_epoch lease) \<and> sr_run_id r = le_run_id lease)"

text \<open>At rest on both sides; or the queue's active run is the runtime's; or it has ended in the
  runtime and its completion is the one the worker has not handled.\<close>

definition agrees :: "agent_session \<Rightarrow> bool" where
  "agrees s \<longleftrightarrow> queue_good (as_queue s) \<and> runtime_inv (as_runtime s)
     \<and> as_handled s \<le> length (rt_completions (as_runtime s))
     \<and> (at_rest s \<and> unhandled s = [] \<or> (\<exists>lease. runs_lease lease s \<and> unhandled s = [])
        \<or> (\<exists>lease. winding_up lease s \<and> unhandled s = [lease]))"

lemma free_slot:
  "runtime_inv t \<Longrightarrow> rc_active (rt_control t) = None \<Longrightarrow> rt_task t = None \<and> rt_monitor t = None"
  by (auto simp: runtime_inv_def slot_ok_def)

lemma quiet_agrees:
  assumes "agrees s" "session_active s' = session_active s" "as_handled s' = as_handled s"
    and "queue_good (as_queue s')" "runtime_inv (as_runtime s')"
    and "active_lease (rt_control (as_runtime s')) = active_lease (rt_control (as_runtime s))"
    and "rt_completions (as_runtime s') = rt_completions (as_runtime s)"
  shows "agrees s'"
proof -
  have un: "unhandled s' = unhandled s" using assms(3,7) by (simp add: unhandled_def)
  have ended: "rc_active (rt_control (as_runtime s')) = None \<and> rt_task (as_runtime s') = None"
    if "rc_active (rt_control (as_runtime s)) = None"
    using that assms(6) free_slot [OF assms(5)] by auto
  have "(at_rest s \<longrightarrow> at_rest s') \<and> (runs_lease lease s \<longrightarrow> runs_lease lease s')
      \<and> (winding_up lease s \<longrightarrow> winding_up lease s')" for lease
    using ended assms(2,6) by (auto simp: at_rest_def runs_lease_def winding_up_def)
  then show ?thesis using assms(1,3-5,7) un unfolding agrees_def by (auto; blast)
qed

lemma finish_reports:
  assumes "active_lease c = Some lease"
  shows "finish lease c = (True, snd (finish lease c))" "rc_active (snd (finish lease c)) = None"
  using assms by (auto simp: finish_def)

text \<open>A background step keeps the active run, or ends it and reports it.\<close>

definition reported :: "session_runtime \<Rightarrow> session_runtime \<Rightarrow> bool" where
  "reported t t' \<longleftrightarrow> active_lease (rt_control t') = active_lease (rt_control t)
        \<and> rt_completions t' = rt_completions t
     \<or> (\<exists>lease. active_lease (rt_control t) = Some lease \<and> rc_active (rt_control t') = None
          \<and> rt_completions t' = rt_completions t @ [lease])"

lemma background_quiet: "background t t' \<Longrightarrow> quiet_step t t'"
  by (induction rule: background.induct) (auto intro: quiet_step.intros)

lemma recover_reports: "recover_persistence_degraded lease t = (ok, t') \<Longrightarrow> reported t t'"
  by (auto simp: recover_persistence_degraded_def recover_degraded_def reported_def finish_def
      split: if_splits option.splits prod.splits)

lemma fault_reports: "finish_cancelled_fault lease t = (ok, t') \<Longrightarrow> reported t t'"
  by (auto simp: finish_cancelled_fault_def reported_def finish_def stale_def stop_cancellation_timer_def
      split: if_splits option.splits prod.splits)

lemma monitor_reports:
  assumes "slot_ok t"
  shows "reported t (monitor_act t)"
proof (cases "rt_monitor t")
  case None
  then show ?thesis by (simp add: monitor_act_idle reported_def)
next
  case (Some plan)
  then obtain lease where at: "rt_task t = Some lease" "active_lease (rt_control t) = Some lease"
    using assms by (auto simp: slot_ok_def)
  have kept: "active_lease (snd (mark_stuck lease (rt_control t))) = active_lease (rt_control t)"
    by (auto simp: mark_stuck_def split: option.split)
  show ?thesis
    using Some at kept finish_reports [OF at(2)]
    by (cases plan) (auto simp: monitor_act_def reported_def split: prod.split)
qed

lemma background_reports:
  assumes "background t t'" "runtime_inv t"
  shows "reported t t'"
  using assms
proof cases
  case (control op ok c)
  then show ?thesis using exec_control_lease [of op] by (simp add: reported_def)
next
  case (cancels expected system)
  show ?thesis
    using cancels by (rule request_cancellation_Inr) (simp add: reported_def steady_def)
next
  case timer_stops
  then show ?thesis by (simp add: reported_def stop_cancellation_timer_def)
next
  case timer_fires
  then show ?thesis by (auto simp: reported_def timer_check_def split: option.split)
next
  case timer_marks
  have "rt_completions (timer_mark t) = rt_completions t"
    by (simp add: timer_mark_def split: list.split)
  then show ?thesis using timer_marks timer_mark_steady [of t] by (simp add: reported_def steady_def)
next
  case (recovers lease ok)
  then show ?thesis by (auto dest: recover_reports)
next
  case (fault_finishes lease ok)
  then show ?thesis by (auto dest: fault_reports)
next
  case (exits failed)
  then show ?thesis by (simp add: reported_def monitor_check_def split: option.split)
next
  case monitors
  then show ?thesis using assms(2) monitor_reports by (simp add: runtime_inv_def)
qed

lemma background_agrees:
  assumes "agrees s" "background (as_runtime s) t"
  shows "agrees (s\<lparr>as_runtime := t\<rparr>)"
proof -
  have inv: "runtime_inv (as_runtime s)" using assms(1) by (simp add: agrees_def)
  have inv': "runtime_inv t"
    using quiet_step_kept [OF background_quiet [OF assms(2)] inv] by simp
  consider (same) "active_lease (rt_control t) = active_lease (rt_control (as_runtime s))"
      "rt_completions t = rt_completions (as_runtime s)"
    | (ended) lease where "active_lease (rt_control (as_runtime s)) = Some lease"
      "rc_active (rt_control t) = None" "rt_completions t = rt_completions (as_runtime s) @ [lease]"
    using background_reports [OF assms(2) inv] by (auto simp: reported_def)
  then show ?thesis
  proof cases
    case same
    then show ?thesis using assms(1) inv' by (intro quiet_agrees [OF assms(1)]) (simp_all add: agrees_def)
  next
    case (ended lease)
    then have "runs_lease lease s" "unhandled s = []"
      using assms(1) by (auto simp: agrees_def at_rest_def runs_lease_def winding_up_def)
    then have "winding_up lease (s\<lparr>as_runtime := t\<rparr>)" "unhandled (s\<lparr>as_runtime := t\<rparr>) = [lease]"
      using ended free_slot [OF inv'] assms(1)
      by (auto simp: winding_up_def runs_lease_def unhandled_def agrees_def)
    then show ?thesis using assms(1) inv' ended by (auto simp: agrees_def)
  qed
qed

lemma rest_agrees:
  assumes "queue_good (as_queue s)" "runtime_inv (as_runtime s)" "unhandled s = []"
    and "as_handled s \<le> length (rt_completions (as_runtime s))"
    and "at_rest s \<or> (\<exists>lease. lively s lease)"
  shows "agrees s"
  using assms by (auto simp: agrees_def lively_def)

lemma started_inv:
  assumes "runtime_inv (as_runtime s)" "at_rest s" "same_books (as_runtime s) (as_runtime s')"
    and "at_rest s' \<or> (\<exists>lease. lively s' lease)"
  shows "runtime_inv (as_runtime s')"
proof -
  have "rt_monitor (as_runtime s) = None" using free_slot [OF assms(1)] assms(2) by (simp add: at_rest_def)
  then show ?thesis using assms
    by (auto simp: runtime_inv_def slot_ok_def same_books_def at_rest_def lively_def runs_lease_def)
qed

lemma start_agrees:
  assumes "agrees s" "at_rest s" "start_next_scheduled_at g boundary s = (res, s')" "\<not> stranded s'"
  shows "agrees s'" and "res = Inl e \<Longrightarrow> at_rest s'"
proof -
  have good: "queue_good (as_queue s)" and inv: "runtime_inv (as_runtime s)"
    using assms(1) by (simp_all add: agrees_def)
  note from_rest = start_from_rest [OF assms(3,2) good]
  have out: "at_rest s' \<or> (\<exists>lease. lively s' lease)" using from_rest assms(4) by (auto split: sum.splits)
  have comps: "rt_completions (as_runtime s') = rt_completions (as_runtime s)"
    using from_rest by (simp add: same_books_def)
  have "unhandled s = []" "as_handled s \<le> length (rt_completions (as_runtime s))"
    using assms(1,2) by (auto simp: agrees_def at_rest_def runs_lease_def winding_up_def)
  moreover have "runtime_inv (as_runtime s')" using started_inv [OF inv assms(2) _ out] from_rest by simp
  ultimately show "agrees s'"
    using start_frame [OF assms(3)] comps out start_keeps_good [OF assms(3) good]
    by (intro rest_agrees) (simp_all add: unhandled_def)
  show "res = Inl e \<Longrightarrow> at_rest s'" using from_rest assms(4) by simp
qed

lemma drop_failed_cancel_agrees:
  assumes "agrees s" "drop_failed_cancel rid (as_budget s) (as_queue s) = (b, q)"
  shows "agrees (s\<lparr>as_budget := b, as_queue := q\<rparr>)"
  using assms drop_failed_cancel_active [of rid "as_budget s" "as_queue s"]
  by (intro quiet_agrees [OF assms(1)]) (auto simp: agrees_def intro: drop_failed_cancel_good)

lemma snapshots_agrees: "agrees s \<Longrightarrow> agrees (s\<lparr>as_snapshots := table\<rparr>)"
  by (rule quiet_agrees) (simp_all add: agrees_def)

lemma at_rest_exact:
  assumes "agrees s" "snapshot (rt_control (as_runtime s)) = None" "session_active s = None"
  shows "at_rest s \<and> unhandled s = []"
  using assms by (auto simp: agrees_def snapshot_def runs_lease_def winding_up_def)

lemma stranded_frame [simp]:
  "stranded (s\<lparr>as_queue := q\<rparr>) = stranded s" "stranded (s\<lparr>as_budget := b\<rparr>) = stranded s"
  "stranded (s\<lparr>as_snapshots := table\<rparr>) = stranded s" "stranded (s\<lparr>as_handled := n\<rparr>) = stranded s"
  by (simp_all add: stranded_def)

lemma after_admission_agrees:
  assumes "agrees s" "after_admission g ack s = (res, s')" "\<not> stranded s'"
  shows "agrees s'"
proof (cases "snapshot (rt_control (as_runtime s)) = None \<and> rt_task (as_runtime s) = None
    \<and> session_active s = None")
  case False
  then show ?thesis using assms by (auto simp: after_admission_def split: if_splits)
next
  case True
  then have rest: "at_rest s" using at_rest_exact [OF assms(1)] by simp
  obtain r s1 where started: "start_next_scheduled_at g Idle s = (r, s1)" by (rule prod.exhaust)
  have "\<not> stranded s1"
    using assms(2,3) True started by (auto simp: after_admission_def Let_def split: sum.splits if_splits prod.splits)
  note after = start_agrees [OF assms(1) rest started this]
  show ?thesis
  proof (cases r)
    case (Inr lease)
    then show ?thesis using assms(2) True started after(1) by (simp add: after_admission_def)
  next
    case (Inl e)
    then have "session_active s1 = None" using after(2) by (simp add: at_rest_def)
    then show ?thesis
      using assms(2) True started Inl after(1)
      by (auto simp: after_admission_def Let_def split: prod.splits
          intro!: snapshots_agrees drop_failed_cancel_agrees)
  qed
qed

lemma admit_cases:
  assumes "admit_prompt g client requested policy payload s = Inr (ack, dropped, act, b, q)"
  obtains (accepted) "accept_run (sg_env g) client requested policy payload (as_budget s) (as_queue s)
      = Inr (ack, b, q)"
  | (superseded) "supersede_run (sg_env g) client requested payload (as_budget s) (as_queue s)
      = Inr (ack, dropped, act, b, q)"
  using assms by (auto simp: admit_prompt_def split: if_splits sum.splits)

lemma accept_active:
  "accept_run env client requested policy payload b q = Inr (ack, b', q')
   \<Longrightarrow> qs_active (rq_state q') = qs_active (rq_state q)"
  by (erule accept_run_cases) (simp_all add: enter_queue_def Let_def)

lemma supersede_active:
  "supersede_run env client requested payload b q = Inr (ack, dropped, act, b', q')
   \<Longrightarrow> qs_active (rq_state q') = qs_active (rq_state q)"
  by (erule supersede_run_cases) (simp_all add: enter_queue_def Let_def)

lemma admit_active:
  assumes "admit_prompt g client requested policy payload s = Inr (ack, dropped, act, b, q)"
  shows "qs_active (rq_state q) = session_active s"
  using assms by (cases rule: admit_cases) (simp_all add: accept_active supersede_active)

lemma admit_frame:
  assumes "admit_prompt g client requested policy payload s = Inr (ack, dropped, act, b, q)"
    and "queue_good (as_queue s)"
  shows "queue_good q \<and> qs_active (rq_state q) = session_active s"
  using assms(1)
proof (cases rule: admit_cases)
  case accepted
  then show ?thesis using accept_good [OF assms(2) accepted] accept_active by blast
next
  case superseded
  then show ?thesis using supersede_good [OF assms(2) superseded] supersede_active by blast
qed

lemma drop_superseded_agrees:
  "agrees s \<Longrightarrow> drop_superseded g rid rs s = (ok, s') \<Longrightarrow> agrees s'"
  by (induction g rid rs s rule: drop_superseded.induct)
    (auto simp: snapshots_agrees drop_failed_cancel_agrees Let_def split: if_splits prod.splits)

text \<open>The cancellation a superseding prompt asks for.\<close>

lemma cancellation_agrees:
  assumes "agrees s" "request_cancellation expected system (as_runtime s) = Inr t"
  shows "agrees (s\<lparr>as_runtime := t\<rparr>)"
  by (rule background_agrees [OF assms(1)]) (rule background.cancels [OF assms(2)])

lemma enqueue_agrees:
  assumes "agrees s" "enqueue_prompt g client requested policy payload settings s = (res, s')"
    and "\<not> stranded s'"
  shows "agrees s'"
proof (cases "sg_precheck g")
  case (Inl e)
  then show ?thesis using assms by (simp add: enqueue_prompt_def)
next
  case (Inr known)
  show ?thesis
  proof (cases known)
    case (Some ack)
    then show ?thesis using assms Inr by (simp add: enqueue_prompt_def)
  next
    case None
    show ?thesis
    proof (cases "admit_prompt g client requested policy payload s")
      case refused: (Inl e)
      then show ?thesis using assms Inr None by (simp add: enqueue_prompt_def)
    next
      case admitted: (Inr adm)
      obtain ack dropped act b q where adm: "adm = (ack, dropped, act, b, q)" by (metis prod_cases5)
      let ?s1 = "s\<lparr>as_budget := b, as_queue := q\<rparr>"
      have s1: "agrees ?s1"
        using assms(1) admit_frame [OF admitted [unfolded adm]]
        by (intro quiet_agrees [OF assms(1)]) (simp_all add: agrees_def)
      obtain ok s2 where d: "drop_superseded g (ra_run_id ack) dropped ?s1 = (ok, s2)" by (rule prod.exhaust)
      have s2: "agrees s2" by (rule drop_superseded_agrees [OF s1 d])
      have cancelled: "agrees (s2\<lparr>as_snapshots := table, as_runtime := t\<rparr>)"
        if "request_cancellation x y (as_runtime s2) = Inr t" for table t x y
        using cancellation_agrees [OF snapshots_agrees [OF s2]] that by simp
      show ?thesis
        using assms(2,3) Inr None admitted adm d s1 s2
        by (auto simp: enqueue_prompt_def Let_def snapshots_agrees cancelled
            split: if_splits prod.splits option.splits sum.splits
            intro: drop_failed_cancel_agrees [OF s1, simplified]
            elim!: after_admission_agrees [rotated])
    qed
  qed
qed

lemma release_agrees:
  assumes "agrees s" "release_queued_run g rid s = (res, s')" "\<not> stranded s'"
  shows "agrees s'"
proof (cases "release_held (sg_env g) rid (as_queue s)")
  case (Inl e)
  then show ?thesis using assms by (simp add: release_queued_run_def)
next
  case (Inr out)
  obtain r q where out: "out = (r, q)" by (rule prod.exhaust)
  let ?s = "s\<lparr>as_queue := q\<rparr>"
  have good: "queue_good q"
    using release_held_good [OF _ Inr [unfolded out]] assms(1) by (simp add: agrees_def)
  have act: "qs_active (rq_state q) = session_active s"
    using Inr [unfolded out] by (rule release_held_cases) simp
  have s1: "agrees ?s"
    using assms(1) good act by (intro quiet_agrees [OF assms(1)]) (simp_all add: agrees_def)
  show ?thesis
  proof (cases "session_active ?s = None")
    case False
    then show ?thesis using assms(2) Inr out s1 by (auto simp: release_queued_run_def Let_def)
  next
    case True
    then have rest: "at_rest ?s" using s1 by (auto simp: agrees_def runs_lease_def winding_up_def)
    obtain r' s2 where started: "start_next_scheduled_at g Idle ?s = (r', s2)" by (rule prod.exhaust)
    then have "s' = s2" using assms(2) Inr out True by (simp add: release_queued_run_def)
    then show ?thesis using start_agrees(1) [OF s1 rest started] assms(3) by simp
  qed
qed

lemma cancel_agrees:
  assumes "agrees s" "cancel_queued_run g rid reason s = (res, s')"
  shows "agrees s'"
proof -
  have "agrees (s\<lparr>as_budget := b, as_queue := q, as_snapshots := table\<rparr>)"
    if c: "cancel_queued rid reason (as_budget s) (as_queue s) = Inr (r, b, q)" for r b q table
  proof (rule quiet_agrees [OF assms(1)])
    have "queue_good q" using assms(1) by (intro cancel_good [OF _ c]) (simp add: agrees_def)
    then show "queue_good (as_queue (s\<lparr>as_budget := b, as_queue := q, as_snapshots := table\<rparr>))" by simp
    show "session_active (s\<lparr>as_budget := b, as_queue := q, as_snapshots := table\<rparr>) = session_active s"
      using c by (rule cancel_queued_cases) simp
  qed (use assms(1) in \<open>simp_all add: agrees_def\<close>)
  then show ?thesis using assms
    by (auto simp: cancel_queued_run_def split: if_splits sum.splits)
qed

lemma cancel_all_agrees:
  assumes "agrees s" "cancel_all_queued_runs reason s = (rs, s')"
  shows "agrees s'"
proof -
  obtain ds b q where c: "cancel_all_queued reason (as_budget s) (as_queue s) = (ds, b, q)"
    by (rule prod_cases3)
  have "queue_good q" using assms(1) by (intro cancel_all_good [OF _ c]) (simp add: agrees_def)
  moreover have "qs_active (rq_state q) = session_active s"
    using c by (auto simp: cancel_all_queued_def Let_def)
  ultimately show ?thesis using assms c
    by (intro quiet_agrees [OF assms(1)]) (auto simp: cancel_all_queued_runs_def agrees_def)
qed

text \<open>The completion of the active run releases the queue.\<close>

lemma finish_releases:
  "qs_active (rq_state q) = Some (r, epoch) \<Longrightarrow> sr_run_id r = rid
   \<Longrightarrow> qs_active (rq_state (drop_failed_finish rid q)) = None"
  by (simp add: drop_failed_finish_def finish_active_def Let_def)

lemma pauses_frame [simp]: "pauses g (s\<lparr>as_handled := n\<rparr>) = pauses g s"
  by (simp add: pauses_def)

lemma wake_released:
  assumes "agrees s" "unhandled s = lease # rest"
  defines "s1 \<equiv> s\<lparr>as_handled := as_handled s + 1,
     as_queue := drop_failed_finish (le_run_id lease) (as_queue s)\<rparr>"
  shows "agrees s1" "at_rest s1" "unhandled s1 = []" "session_active s \<noteq> None"
proof -
  have up: "winding_up lease s" "rest = []"
    using assms(1,2) by (auto simp: agrees_def)
  then show act: "session_active s \<noteq> None" by (auto simp: winding_up_def)
  show rest: "at_rest s1"
    using up(1) finish_releases by (auto simp: winding_up_def at_rest_def s1_def)
  show un: "unhandled s1 = []"
    using assms(2) up(2) by (simp add: unhandled_def s1_def drop_Suc drop_tl)
  have "as_handled s < length (rt_completions (as_runtime s))"
    using assms(2) by (simp add: unhandled_def) (metis drop_all leI list.distinct(1))
  then show "agrees s1"
    using assms(1) rest un by (auto simp: agrees_def s1_def drop_failed_finish_good)
qed

lemma wake_outcome:
  assumes "agrees s" "unhandled s \<noteq> []" "\<not> pauses g s"
  shows "\<exists>s'. scheduler_wake g gates s = Some s' \<and> agrees s'
    \<and> (sg_closed g \<or> at_rest s' \<and> session_queued s' = [] \<or> (\<exists>lease. lively s' lease))
    \<or> (\<exists>s'. scheduler_wake g gates s = Some s' \<and> stranded s' \<and> session_queued s' = []
         \<and> (\<exists>n settings e. fusion_scope (gates n) (as_created_by s) settings = Inl e))"
proof -
  obtain lease rest where un: "unhandled s = lease # rest" using assms(2) by (cases "unhandled s") auto
  define s1 where "s1 = s\<lparr>as_handled := as_handled s + 1,
     as_queue := drop_failed_finish (le_run_id lease) (as_queue s)\<rparr>"
  note released = wake_released [OF assms(1) un, folded s1_def]
  have wake: "scheduler_wake g gates s = (if sg_closed g then Some s1 else dequeue_loop gates s1)"
    using un assms(3) released(4) by (simp add: scheduler_wake_def on_scheduled_run_finished_def s1_def)
  show ?thesis
  proof (cases "sg_closed g")
    case True
    then show ?thesis using wake released(1) by simp
  next
    case False
    have good: "queue_good (as_queue s1)" and inv: "runtime_inv (as_runtime s1)"
      using released(1) by (simp_all add: agrees_def)
    obtain s' where out: "dequeue_loop gates s1 = Some s'" "queue_good (as_queue s')"
        "same_books (as_runtime s1) (as_runtime s')" "as_handled s' = as_handled s1"
      and way: "at_rest s' \<and> session_queued s' = [] \<or> (\<exists>lease. lively s' lease)
        \<or> stranded s' \<and> session_queued s' = []
          \<and> (\<exists>n settings e. fusion_scope (gates n) (as_created_by s1) settings = Inl e)"
      using dequeue_total [OF good released(2)] by blast
    have "as_created_by s1 = as_created_by s" by (simp add: s1_def)
    show ?thesis
    proof (cases "at_rest s' \<or> (\<exists>lease. lively s' lease)")
      case stuck: False
      then show ?thesis using way out(1) wake False by (auto simp: s1_def)
    next
      case ends: True
      have "agrees s'"
      proof (rule rest_agrees [OF out(2) started_inv [OF inv released(2) out(3) ends] _ _ ends])
        show "unhandled s' = []" using released(3) out(3,4) by (simp add: unhandled_def same_books_def)
        show "as_handled s' \<le> length (rt_completions (as_runtime s'))"
          using released(1) out(3,4) by (simp add: agrees_def same_books_def)
      qed
      then show ?thesis using wake False out(1) way by (auto simp: s1_def)
    qed
  qed
qed

lemma step_agrees:
  assumes "session_step p s s'" "agrees s" "\<not> p"
  shows "agrees s'"
  using assms
proof cases
  case (enqueues g client requested policy payload settings res)
  then show ?thesis using assms(2,3) by (blast intro: enqueue_agrees)
next
  case (releases g rid res)
  then show ?thesis using assms(2,3) by (blast intro: release_agrees)
next
  case (cancels g rid reason res)
  then show ?thesis using assms(2) by (blast intro: cancel_agrees)
next
  case (cancels_all reason rs)
  then show ?thesis using assms(2) by (blast intro: cancel_all_agrees)
next
  case (wakes g gates)
  then have "unhandled s \<noteq> []" by (auto simp: scheduler_wake_def)
  then show ?thesis using wake_outcome [OF assms(2), of g gates] wakes assms(3) by auto
next
  case (runs t)
  then show ?thesis using background_agrees [OF assms(2)] by simp
qed

lemma new_session_agrees: "agrees (new_session b session_id n ephemeral created_by)"
  by (simp add: agrees_def new_session_def at_rest_def unhandled_def new_runtime_inv queue_good_def
      new_queue_def new_queue_inv) (simp add: with_limits_and_global_def new_runtime_def new_control_def)

lemma steps_agree:
  "session_steps s0 ps s \<Longrightarrow> agrees s0 \<Longrightarrow> True \<notin> set ps \<Longrightarrow> agrees s"
  by (induction rule: session_steps.induct) (auto intro: step_agrees)

text \<open>C15: The prompt queue and the runtime agree on the run that is active: in everything a session
  reaches without a paused wake-up and without a start that the checks of a Fusion run left stranded,
  whatever its calls and the runtime's steps interleave, the queue has
  no active run exactly when the runtime has none and no completion waits; and when the queue has one,
  the runtime runs it under the same id and epoch, or it has ended there and its completion is the
  only one the worker still has to handle.\<close>

theorem queue_and_runtime_agree:
  assumes "session_steps (new_session b session_id n ephemeral created_by) ps s" "True \<notin> set ps"
  shows "(session_active s = None \<longleftrightarrow> rc_active (rt_control (as_runtime s)) = None \<and> unhandled s = [])
    \<and> (\<forall>r epoch. session_active s = Some (r, epoch) \<longrightarrow>
         (\<exists>lease. le_run_id lease = sr_run_id r \<and> le_epoch lease = epoch
            \<and> (active_lease (rt_control (as_runtime s)) = Some lease \<and> unhandled s = []
               \<or> rc_active (rt_control (as_runtime s)) = None \<and> unhandled s = [lease])))"
proof -
  have "agrees s" using steps_agree [OF assms(1) new_session_agrees assms(2)] .
  then show ?thesis by (auto simp: agrees_def at_rest_def runs_lease_def winding_up_def)
qed

text \<open>C16: A wake-up ends, and leaves nothing waiting: from everything a session reaches without a paused
  wake-up and without a stranded run, handling a completion that does not pause returns, and unless
  the service is closed either a run has been started, which owns the task slot and is the queue's
  active run, or no prompt is queued and nothing is active, or the checks of a Fusion run failed for one
  of its starts, which is then stranded, with every prompt behind it dropped.\<close>

theorem wake_up_starts_or_empties:
  assumes "session_steps (new_session b session_id n ephemeral created_by) ps s" "True \<notin> set ps"
    and "unhandled s \<noteq> []" "\<not> pauses g s"
  shows "\<exists>s'. scheduler_wake g gates s = Some s'
    \<and> (sg_closed g
       \<or> session_queued s' = [] \<and> session_active s' = None \<and> rc_active (rt_control (as_runtime s')) = None
       \<or> (\<exists>lease r. session_active s' = Some (r, le_epoch lease) \<and> sr_run_id r = le_run_id lease
            \<and> active_lease (rt_control (as_runtime s')) = Some lease
            \<and> rt_task (as_runtime s') = Some lease)
       \<or> (\<exists>n settings e. fusion_scope (gates n) (as_created_by s) settings = Inl e)
         \<and> stranded s' \<and> session_queued s' = [])"
proof -
  have "agrees s" using steps_agree [OF assms(1) new_session_agrees assms(2)] .
  from wake_outcome [OF this assms(3,4), of gates] show ?thesis
    by (elim disjE exE conjE) (auto simp: at_rest_def lively_def runs_lease_def)
qed

section \<open>Three ways to get stuck\<close>

definition wedged :: "scheduled_run \<times> u64 \<Rightarrow> user_message list \<Rightarrow> agent_session \<Rightarrow> bool" where
  "wedged a ms s \<longleftrightarrow> runtime_inv (as_runtime s) \<and> rc_active (rt_control (as_runtime s)) = None
     \<and> session_active s = Some a \<and> unhandled s = [] \<and> as_messages s = ms"

lemma wedged_frame:
  assumes "wedged a ms s" "as_runtime s' = as_runtime s" "as_handled s' = as_handled s"
    and "session_active s' = session_active s" "as_messages s' = as_messages s"
  shows "wedged a ms s'"
  using assms by (simp add: wedged_def unhandled_def)

lemma wedged_cancel:
  assumes "wedged a ms s" "drop_failed_cancel rid (as_budget s) (as_queue s) = (b, q)"
  shows "wedged a ms (s\<lparr>as_budget := b, as_queue := q\<rparr>)"
  using drop_failed_cancel_active [of rid "as_budget s" "as_queue s"] assms(2)
  by (intro wedged_frame [OF assms(1)]) simp_all

lemma wedged_snapshots: "wedged a ms s \<Longrightarrow> wedged a ms (s\<lparr>as_snapshots := table\<rparr>)"
  by (erule wedged_frame) simp_all

lemma wedged_superseded:
  "wedged a ms s \<Longrightarrow> drop_superseded g rid rs s = (ok, s') \<Longrightarrow> wedged a ms s'"
  by (induction g rid rs s rule: drop_superseded.induct)
    (auto simp: wedged_snapshots wedged_cancel Let_def split: if_splits prod.splits)

lemma wedged_admission: "wedged a ms s \<Longrightarrow> after_admission g ack s = (res, s') \<Longrightarrow> s' = s"
  by (auto simp: after_admission_def wedged_def split: if_splits)

lemma wedged_enqueue:
  assumes "wedged a ms s"
    and "enqueue_prompt g client requested policy payload settings s = (res, s')"
  shows "wedged a ms s'"
proof (cases "sg_precheck g")
  case (Inl e)
  then show ?thesis using assms by (simp add: enqueue_prompt_def)
next
  case (Inr known)
  show ?thesis
  proof (cases known)
    case (Some ack)
    then show ?thesis using assms Inr by (simp add: enqueue_prompt_def)
  next
    case None
    show ?thesis
    proof (cases "admit_prompt g client requested policy payload s")
      case refused: (Inl e)
      then show ?thesis using assms Inr None by (simp add: enqueue_prompt_def)
    next
      case admitted: (Inr adm)
      obtain ack dropped act b q where adm: "adm = (ack, dropped, act, b, q)" by (metis prod_cases5)
      let ?s1 = "s\<lparr>as_budget := b, as_queue := q\<rparr>"
      have s1: "wedged a ms ?s1"
        using admit_active [OF admitted [unfolded adm]]
        by (intro wedged_frame [OF assms(1)]) simp_all
      obtain ok s2 where d: "drop_superseded g (ra_run_id ack) dropped ?s1 = (ok, s2)" by (rule prod.exhaust)
      have s2: "wedged a ms s2" by (rule wedged_superseded [OF s1 d])
      have idle: "snapshot (rt_control (as_runtime s2)) = None"
        using s2 by (simp add: wedged_def snapshot_def)
      show ?thesis
        using assms(2) Inr None admitted adm d s1 s2 idle wedged_snapshots [OF s2]
        by (auto simp: enqueue_prompt_def Let_def split: if_splits prod.splits
            intro: wedged_cancel [OF s1, simplified] dest: wedged_admission [rotated])
    qed
  qed
qed

lemma release_active:
  "release_held env rid q = Inr (r, q') \<Longrightarrow> qs_active (rq_state q') = qs_active (rq_state q)"
  by (erule release_held_cases) simp

lemma cancel_active:
  "cancel_queued rid reason b q = Inr (r, b', q') \<Longrightarrow> qs_active (rq_state q') = qs_active (rq_state q)"
  by (erule cancel_queued_cases) simp

lemma step_wedged:
  assumes "session_step p s s'" "wedged a ms s"
  shows "wedged a ms s'"
  using assms(1)
proof cases
  case (enqueues g client requested policy payload settings res)
  then show ?thesis using wedged_enqueue [OF assms(2)] by blast
next
  case (releases g rid res)
  then show ?thesis using assms(2) release_active [of "sg_env g" rid "as_queue s"]
    by (auto simp: release_queued_run_def Let_def wedged_def unhandled_def split: sum.splits if_splits)
next
  case (cancels g rid reason res)
  then show ?thesis using assms(2) cancel_active [of rid reason "as_budget s" "as_queue s"]
    by (auto simp: cancel_queued_run_def wedged_def unhandled_def split: sum.splits if_splits)
next
  case (cancels_all reason rs)
  then show ?thesis using assms(2)
    by (auto simp: cancel_all_queued_runs_def cancel_all_queued_def Let_def wedged_def unhandled_def)
next
  case (wakes g gates)
  then show ?thesis using assms(2) by (simp add: scheduler_wake_def wedged_def)
next
  case (runs t)
  have inv: "runtime_inv (as_runtime s)" and idle: "rc_active (rt_control (as_runtime s)) = None"
    using assms(2) by (simp_all add: wedged_def)
  have "runtime_inv t" using quiet_step_kept [OF background_quiet [OF runs(3)] inv] by simp
  then show ?thesis using background_reports [OF runs(3) inv] idle assms(2) runs(1,2)
    by (auto simp: wedged_def reported_def unhandled_def)
qed

lemma steps_wedged: "session_steps s0 ps s \<Longrightarrow> wedged a ms s0 \<Longrightarrow> wedged a ms s"
  by (induction rule: session_steps.induct) (auto intro: step_wedged)

text \<open>A paused wake-up is never made up for: once the worker handled a completion while the journal
  reported an error or a cancelled input could not be settled, the queue keeps the ended run as its
  active one through every later call and step, so no prompt is ever started again, whatever is
  enqueued, released or cancelled, and although the runtime is idle.\<close>

theorem paused_wake_up_wedges:
  assumes "session_steps (new_session b session_id n ephemeral created_by) ps s" "True \<notin> set ps"
    and "pauses g s" "scheduler_wake g gates s = Some s'" "session_steps s' ps' s''"
  shows "session_active s \<noteq> None \<and> session_active s'' = session_active s
    \<and> rc_active (rt_control (as_runtime s'')) = None \<and> as_messages s'' = as_messages s"
proof -
  have ag: "agrees s" using steps_agree [OF assms(1) new_session_agrees assms(2)] .
  obtain lease rest where un: "unhandled s = lease # rest"
    using assms(4) by (auto simp: scheduler_wake_def split: list.splits)
  have up: "winding_up lease s" "rest = []" using ag un by (auto simp: agrees_def)
  have s': "s' = s\<lparr>as_handled := as_handled s + 1\<rparr>"
    using assms(3,4) un by (simp add: scheduler_wake_def on_scheduled_run_finished_def)
  obtain a where a: "session_active s = Some a" using up(1) by (auto simp: winding_up_def)
  have "unhandled s' = []" using un up(2) by (simp add: s' unhandled_def drop_Suc drop_tl)
  then have "wedged a (as_messages s) s'"
    using ag up(1) a by (simp add: wedged_def s' agrees_def winding_up_def)
  from steps_wedged [OF assms(5) this] show ?thesis using a by (simp add: wedged_def)
qed

text \<open>A start the checks of a Fusion run end after the run has begun: the run keeps the runtime, has no
  task that could end it and no completion that could wake the queue; the wake-up drops every prompt
  still queued, and later starts are refused.\<close>

theorem failed_fusion_start_drops_queue:
  assumes "queue_good (as_queue s)" "next_startable (as_queue s) = Some front"
    and "start_next_scheduled_at (gates 0) AfterRun s = (Inl e, s1)" "stranded s1"
  shows "\<exists>s'. dequeue_loop gates s = Some s' \<and> stranded s' \<and> session_queued s' = []
    \<and> as_messages s' = as_messages s1
    \<and> (\<forall>g boundary res s''. start_next_scheduled_at g boundary s' = (res, s'') \<longrightarrow> (\<exists>e. res = Inl e))"
proof -
  have good: "queue_good (as_queue (after_failed_start front s1))"
    using start_keeps_good [OF assms(3,1)] by (rule after_failed_start_good)
  obtain s' where s': "dequeue_loop (\<lambda>n. gates (Suc n)) (after_failed_start front s1) = Some s'"
      "session_queued s' = []" "as_runtime s' = as_runtime s1" "as_messages s' = as_messages s1"
    using dequeue_stranded [OF good] assms(4) by (auto simp: after_failed_start_rest(2,4))
  have "dequeue_loop gates s = Some s'"
    using assms(2,3) s'(1) by (simp add: dequeue_loop.simps [of gates])
  moreover have stuck: "stranded s'" using assms(4) s'(3) by (simp add: stranded_def)
  ultimately show ?thesis using s'(2,4) stranded_starts_nothing [OF _ stuck] by blast
qed

section \<open>A small run\<close>

definition first_lease :: run_lease where
  "first_lease = \<lparr>le_run_id = ''r1'', le_epoch = 1, le_run_sequence = Some 1\<rparr>"

lemma demo_enqueued:
  "\<exists>r s. enqueue_prompt demo_gate ''c1'' (Some ''r1'') EnqueueIfBusy (JStr ''hello'') demo_settings demo_session
     = (Inr r, s) \<and> session_active s \<noteq> None \<and> rt_monitor (as_runtime s) = None
     \<and> rt_task (as_runtime s) = Some first_lease
     \<and> active_lease (rt_control (as_runtime s)) = Some first_lease
     \<and> rt_completions (as_runtime s) = [] \<and> as_handled s = 0"
  by (simp add: enqueue_prompt_def admit_prompt_def accept_run_def demo_names demo_budget_def
      DEFAULT_SESSION_QUEUE_CAPACITY_def DEFAULT_SESSION_QUEUE_BYTES_def snapshot_def
      new_budget_def reserve_def chosen_run_id_def saturating_add_u64_def u64_max_def
      enter_queue_def ack_queued_def demo_start_simps)
    (simp add: after_admission_def snapshot_def first_lease_def wrapping_succ_def demo_start_simps)

lemma demo_running:
  obtains s where "session_steps demo_session [False] s" "session_active s \<noteq> None"
    "rt_monitor (as_runtime s) = None" "rt_task (as_runtime s) = Some first_lease"
    "active_lease (rt_control (as_runtime s)) = Some first_lease"
    "rt_completions (as_runtime s) = []" "as_handled s = 0"
proof -
  obtain r s where s: "enqueue_prompt demo_gate ''c1'' (Some ''r1'') EnqueueIfBusy (JStr ''hello'')
      demo_settings demo_session = (Inr r, s)" "session_active s \<noteq> None"
    "rt_monitor (as_runtime s) = None" "rt_task (as_runtime s) = Some first_lease"
    "active_lease (rt_control (as_runtime s)) = Some first_lease"
    "rt_completions (as_runtime s) = []" "as_handled s = 0"
    using demo_enqueued by blast
  have "rt_monitor (as_runtime demo_session) = None" by (simp add: new_session_def new_runtime_def)
  from session_steps.step [OF session_steps.none session_step.enqueues [OF this s(1)]]
  show thesis using that s(2-) by (simp add: stranded_def)
qed

text \<open>A run's task announces its end, and the monitor reports the completion.\<close>

lemma run_ends:
  assumes "session_steps s0 ps s" "rt_monitor (as_runtime s) = None"
    and "rt_task (as_runtime s) = Some lease" "active_lease (rt_control (as_runtime s)) = Some lease"
  obtains s' where "session_steps s0 (ps @ [False, False, False]) s'"
    "session_active s' = session_active s" "as_handled s' = as_handled s" "as_ephemeral s' = as_ephemeral s"
    "rt_completions (as_runtime s') = rt_completions (as_runtime s) @ [lease]"
proof -
  obtain a where a: "rc_active (rt_control (as_runtime s)) = Some a" "ar_lease a = lease"
    using assms(4) by auto
  define c where "c = (rt_control (as_runtime s))\<lparr>rc_active := Some (a\<lparr>ar_phase := Finalizing\<rparr>)\<rparr>"
  define t1 where "t1 = (as_runtime s)\<lparr>rt_control := c\<rparr>"
  define t2 where "t2 = monitor_check False t1"
  have op: "exec_control (BeginFinalizing lease) (rt_control (as_runtime s)) = (True, c)"
    using a by (simp add: begin_finalizing_def c_def)
  have b1: "background (as_runtime s) t1"
    using background.control [OF _ op] assms(2) unfolding t1_def by blast
  have b2: "background t1 t2" unfolding t2_def by (rule background.exits) (simp add: t1_def assms(2))
  have t2: "t2 = t1\<lparr>rt_monitor := Some Finish\<rparr>"
    using assms(3) a by (simp add: t2_def t1_def c_def monitor_check_def snapshot_def snapshot_of_def
        holds_lease_def)
  have "rt_completions (monitor_act t2) = rt_completions (as_runtime s) @ [lease]"
    using assms(3) a by (simp add: t2 t1_def c_def monitor_act_def finish_def)
  moreover have "session_steps s0 (((ps @ [False]) @ [False]) @ [False]) (s\<lparr>as_runtime := monitor_act t2\<rparr>)"
    using session_step.runs [of "s\<lparr>as_runtime := t2\<rparr>" "monitor_act t2"] background.monitors
      session_step.runs [of "s\<lparr>as_runtime := t1\<rparr>" t2] b2 session_step.runs [OF b1] assms(1)
    by (intro session_steps.step) auto
  ultimately show thesis using that [of "s\<lparr>as_runtime := monitor_act t2\<rparr>"] by simp
qed

lemma demo_ended:
  obtains s where "session_steps demo_session [False, False, False, False] s"
    "session_active s \<noteq> None" "unhandled s = [first_lease]"
proof -
  obtain s where s: "session_steps demo_session [False] s" "session_active s \<noteq> None"
    "rt_monitor (as_runtime s) = None" "rt_task (as_runtime s) = Some first_lease"
    "active_lease (rt_control (as_runtime s)) = Some first_lease"
    "rt_completions (as_runtime s) = []" "as_handled s = 0"
    by (rule demo_running)
  obtain s' where "session_steps demo_session ([False] @ [False, False, False]) s'"
    "session_active s' = session_active s" "as_handled s' = as_handled s"
    "rt_completions (as_runtime s') = rt_completions (as_runtime s) @ [first_lease]"
    using run_ends [OF s(1,3,4,5)] by metis
  then show thesis using that [of s'] s by (simp add: unhandled_def)
qed

theorem queue_and_runtime_agree_witness:
  "\<exists>s. session_steps demo_session [False] s \<and> session_active s \<noteq> None
     \<and> (rc_active (rt_control (as_runtime s)) \<noteq> None \<or> unhandled s \<noteq> [])"
proof -
  obtain s where s: "session_steps demo_session [False] s" "session_active s \<noteq> None"
    by (rule demo_running)
  then show ?thesis using queue_and_runtime_agree [OF s(1)] by auto
qed

theorem wake_up_starts_or_empties_witness:
  "\<exists>s s'. session_steps demo_session [False, False, False, False] s
     \<and> scheduler_wake demo_gate (\<lambda>n. demo_gate) s = Some s'
     \<and> (session_queued s' = [] \<or> session_active s' \<noteq> None)"
proof -
  obtain s where s: "session_steps demo_session [False, False, False, False] s"
    "unhandled s = [first_lease]" by (rule demo_ended)
  have "\<not> pauses demo_gate s" by (simp add: pauses_def)
  then show ?thesis
    using wake_up_starts_or_empties [OF s(1), of demo_gate "\<lambda>n. demo_gate"] s by auto
qed

theorem paused_wake_up_wedges_witness:
  "\<exists>s s' r s''. session_steps demo_session [False, False, False, False] s
     \<and> scheduler_wake (demo_gate\<lparr>sg_persistence_error := Some ''busy''\<rparr>) (\<lambda>n. demo_gate) s = Some s'
     \<and> enqueue_prompt demo_gate ''c2'' (Some ''r2'') EnqueueIfBusy (JStr ''more'') demo_settings s' = (r, s'')
     \<and> session_active s'' \<noteq> None \<and> rc_active (rt_control (as_runtime s'')) = None
     \<and> as_messages s'' = as_messages s"
proof -
  let ?g = "demo_gate\<lparr>sg_persistence_error := Some ''busy''\<rparr>"
  obtain s where s: "session_steps demo_session [False, False, False, False] s"
    "unhandled s = [first_lease]" by (rule demo_ended)
  have p: "pauses ?g s" by (simp add: pauses_def)
  have w: "scheduler_wake ?g (\<lambda>n. demo_gate) s = Some (s\<lparr>as_handled := as_handled s + 1\<rparr>)"
    using s(2) p by (simp add: scheduler_wake_def on_scheduled_run_finished_def)
  have "rc_active (rt_control (as_runtime s)) = None"
    using steps_agree [OF s(1) new_session_agrees] s(2)
    by (auto simp: agrees_def winding_up_def)
  then have m: "rt_monitor (as_runtime (s\<lparr>as_handled := as_handled s + 1\<rparr>)) = None"
    using steps_agree [OF s(1) new_session_agrees] free_slot by (simp add: agrees_def)
  obtain r s'' where e: "enqueue_prompt demo_gate ''c2'' (Some ''r2'') EnqueueIfBusy (JStr ''more'')
      demo_settings (s\<lparr>as_handled := as_handled s + 1\<rparr>) = (r, s'')" by (rule prod.exhaust)
  have later: "session_steps (s\<lparr>as_handled := as_handled s + 1\<rparr>) ([] @ [stranded s'']) s''"
    by (rule session_steps.step [OF session_steps.none session_step.enqueues [OF m e]])
  show ?thesis using paused_wake_up_wedges [OF s(1) _ p w later] s(1) w e by auto
qed

lemma parked_queued:
  "qs_queued (rq_state (snd (park_stale env boundary q)))
   = filter (\<lambda>r. park_verdict env boundary q r = None) (qs_queued (rq_state q))"
  by (simp add: park_stale_eq)

text \<open>A release that fails to start loses the settings of the prompt: when the run of a released
  prompt cannot be prepared, the release reports success and the prompt stays queued, but the
  settings frozen for it are gone, so that no later start of the queue can run it.\<close>

theorem failed_release_loses_settings:
  assumes "session_active s = None" "session_queued s = []"
    and "release_held (sg_env g) rid (as_queue s) = Inr (r, q)"
    and "sg_admits g" "sg_persistence_error g = None" "park_verdict (sg_env g) Idle q r = None"
    and "sg_decode g (sr_payload r) \<noteq> None" "\<not> sg_prepares g"
  shows "\<exists>s'. release_queued_run g rid s = (Inr (), s') \<and> session_queued s' = [r]
    \<and> as_snapshots s' rid = None
    \<and> (\<forall>g' boundary. \<exists>e s''. start_next_scheduled_at g' boundary s' = (Inl e, s''))"
proof -
  have q: "qs_queued (rq_state q) = [r]" "qs_active (rq_state q) = None" "sr_run_id r = rid"
    using assms(1-3) by (auto elim!: release_held_cases dest: mset_take_first(2)
        simp: insert_in_order_def)
  have alone: "drain_coalescing_after_first b q' = ([], b, q')" if "qs_queued (rq_state q') = [r]" for b q'
    using that by (simp add: drain_coalescing_after_first_def Let_def)
  let ?q = "snd (park_stale (sg_env g) Idle q)"
  have kept: "qs_queued (rq_state ?q) = [r]" using q(1) assms(6) by (simp add: park_stale_eq)
  let ?s' = "s\<lparr>as_queue := ?q, as_snapshots := (as_snapshots s)(rid := None)\<rparr>"
  obtain payload where "sg_decode g (sr_payload r) = Some payload" using assms(7) by auto
  then have "snd (start_next_scheduled_at g Idle (s\<lparr>as_queue := q\<rparr>)) = ?s'"
    using assms(4,5,8) kept q(3) alone [OF kept]
    by (simp add: start_next_scheduled_at_def next_startable_def prompt_scheduled_def Let_def
        split: option.split)
  then have released: "release_queued_run g rid s = (Inr (), ?s')"
    using assms(3) q(2) by (simp add: release_queued_run_def)
  have never: "\<exists>e s''. start_next_scheduled_at g' boundary ?s' = (Inl e, s'')" for g' boundary
  proof -
    obtain res s'' where start: "start_next_scheduled_at g' boundary ?s' = (res, s'')" by (rule prod.exhaust)
    then show ?thesis
    proof (cases rule: start_shape)
      case (prompted front rest folded b q' table settings payload merged)
      have one: "session_queued (parked g' boundary ?s') = [r]"
        using prompted(1) q(1) assms(6) by (simp add: parked_queued split: if_splits)
      then have "folded = []" "front = r" using alone prompted(1,2) by auto
      then show ?thesis using prompted(3) q(3) by simp
    qed (use start in auto)
  qed
  show ?thesis using released never kept by auto
qed

theorem failed_release_loses_settings_witness:
  "\<exists>s'. release_queued_run (demo_gate\<lparr>sg_prepares := False\<rparr>) ''r1''
       (demo_session\<lparr>as_queue := parked_queue, as_snapshots := [''r1'' \<mapsto> demo_settings]\<rparr>) = (Inr (), s')
     \<and> (\<exists>e s''. start_next_scheduled_at demo_gate Idle s' = (Inl e, s''))"
proof -
  let ?s = "demo_session\<lparr>as_queue := parked_queue, as_snapshots := [''r1'' \<mapsto> demo_settings]\<rparr>"
  let ?g = "demo_gate\<lparr>sg_prepares := False\<rparr>"
  obtain r q where "release_held (sg_env ?g) ''r1'' (as_queue ?s) = Inr (r, q)" "sr_payload r = JStr ''hello''"
    "park_verdict (sg_env ?g) Idle q r = None"
    by (simp add: release_held_def park_verdict_def demo_queue_def with_limits_and_global_def
        QUEUED_RUN_STALE_AFTER_def Let_def)
  then show ?thesis
    using failed_release_loses_settings [of ?s ?g "''r1''" r q] by auto
qed

definition fusion_gate :: session_gate where
  "fusion_gate = demo_gate\<lparr>sg_decode := (\<lambda>v. Some \<lparr>pp_message = ''hello'', pp_model_context = [], pp_images = [],
     pp_attachments = [], pp_settings = demo_settings\<lparr>rs_fusion_enabled := True\<rparr>\<rparr>)\<rparr>"

theorem failed_fusion_start_drops_queue_witness:
  "\<exists>s1 s'. start_next_scheduled_at fusion_gate AfterRun burst_session
       = (Inl (StartFailed ''Fusion is disabled in settings''), s1)
     \<and> dequeue_loop (\<lambda>n. fusion_gate) burst_session = Some s' \<and> stranded s'"
proof -
  obtain s1 where s1: "start_next_scheduled_at fusion_gate AfterRun burst_session
       = (Inl (StartFailed ''Fusion is disabled in settings''), s1)" "stranded s1"
    by (simp add: demo_start_simps burst_session_def fusion_gate_def demo_gate_def parent_scope_def
        stranded_def session_env_def)
  have "next_startable (as_queue burst_session) = Some (demo_request ''c1'' ''r1'' 1 ''hello'')"
    by (simp add: next_startable_def burst_session_def)
  from failed_fusion_start_drops_queue [OF burst_good this, of "\<lambda>n. fusion_gate"] s1 show ?thesis by blast
qed

end
