(* ===== verification/Sandbox_Paths.thy ===== *)
theory Sandbox_Paths
  imports Workspace_Guard
begin

text \<open>
  The paths of the agent's approval rules (\<open>agent/src/sandbox/paths.rs\<close>) on Linux, where path
  comparison is exact. A \<open>Path\<close> is its component list, which is what \<open>==\<close>, \<open>iter\<close> and \<open>components\<close>
  see of it; \<open>path_text\<close> is its spelling. Where the code joins text, so does the model.

  \<open>std::fs::canonicalize\<close> is the parameter \<open>rp\<close>; \<open>realpath_laws\<close> says what is documented of it.
\<close>

section \<open>Operations\<close>

type_synonym path = "component list"

abbreviation path_text :: "path \<Rightarrow> string" where
  "path_text \<equiv> render_path"

definition expand_tilde_with_home :: "string \<Rightarrow> string option \<Rightarrow> string" where
  "expand_tilde_with_home p home =
     (case home of
        None \<Rightarrow> p
      | Some h \<Rightarrow>
          if p = ''~'' then h
          else (case p of
                  c # rest \<Rightarrow>
                    if c = CHR ''~'' \<and> is_absolute rest
                    then push_path h (dropWhile (\<lambda>d. d = CHR ''/'') rest) else p
                | [] \<Rightarrow> p))"

definition resolve_against :: "string option \<Rightarrow> string \<Rightarrow> string \<Rightarrow> string" where
  "resolve_against home base p =
     (let expanded = expand_tilde_with_home p home in
      if is_absolute expanded then expanded else push_path base expanded)"

definition normalize_lexically :: "path \<Rightarrow> path" where
  "normalize_lexically p = foldl lex_step [] p"

definition parent_path :: "path \<Rightarrow> path option" where
  "parent_path p = (if p = [] \<or> p = [RootDir] then None else Some (butlast p))"

text \<open>The loop of \<open>canonicalize_lenient\<close>: up to the nearest ancestor that resolves.\<close>

function climb :: "(path \<Rightarrow> path option) \<Rightarrow> path \<Rightarrow> path \<Rightarrow> component list \<Rightarrow> path" where
  "climb rp p ancestor remainder =
     (case parent_path ancestor of
        None \<Rightarrow> p
      | Some up \<Rightarrow>
          (let remainder' = (if is_normal (last ancestor) then remainder @ [last ancestor]
                             else remainder) in
           case rp up of
             Some canonical \<Rightarrow> canonical @ rev remainder'
           | None \<Rightarrow> climb rp p up remainder'))"
  by pat_completeness auto
termination
  by (relation "measure (\<lambda>(_, _, ancestor, _). length ancestor)")
    (auto simp: parent_path_def split: if_splits)

declare climb.simps [simp del]

definition canonicalize_lenient :: "(path \<Rightarrow> path option) \<Rightarrow> path \<Rightarrow> path" where
  "canonicalize_lenient rp p =
     (let p = normalize_lexically p in
      case rp p of Some canonical \<Rightarrow> canonical | None \<Rightarrow> climb rp p p [])"

definition canonicalize_existing :: "(path \<Rightarrow> path option) \<Rightarrow> path \<Rightarrow> path option" where
  "canonicalize_existing rp p = rp p"

definition component_eq :: "component \<Rightarrow> component \<Rightarrow> bool" where
  "component_eq a b \<longleftrightarrow> a = b"

definition path_within :: "path \<Rightarrow> path \<Rightarrow> bool" where
  "path_within p root \<longleftrightarrow>
     \<not> length root > length p \<and> list_all (\<lambda>(a, b). component_eq a b) (zip p root)"

definition within_any_root ::
  "(path \<Rightarrow> path option) \<Rightarrow> string option \<Rightarrow> string \<Rightarrow> string \<Rightarrow> path list \<Rightarrow> bool" where
  "within_any_root rp home base candidate roots \<longleftrightarrow>
     (let resolved = canonicalize_lenient rp (components (resolve_against home base candidate)) in
      list_ex (path_within resolved) roots)"

section \<open>Containment\<close>

lemma path_within_prefix: "path_within p root \<longleftrightarrow> prefix root p"
proof (induction root arbitrary: p)
  case (Cons r root)
  then show ?case by (cases p) (auto simp: path_within_def component_eq_def)
qed (simp add: path_within_def)

lemma path_within_refl [simp, intro]: "path_within p p"
  by (simp add: path_within_prefix)

lemma path_within_trans [trans]: "path_within p q \<Longrightarrow> path_within q r \<Longrightarrow> path_within p r"
  by (auto simp: path_within_prefix intro: prefix_order.trans)

lemma path_within_antisym: "path_within p q \<Longrightarrow> path_within q p \<Longrightarrow> p = q"
  by (auto simp: path_within_prefix)

lemma path_within_chain: "path_within p q \<Longrightarrow> path_within p r \<Longrightarrow> path_within q r \<or> path_within r q"
  unfolding path_within_prefix by (rule prefix_same_cases)

lemma path_within_chain_length:
  "path_within p q \<Longrightarrow> path_within p r \<Longrightarrow> length r \<le> length q \<Longrightarrow> path_within q r"
  unfolding path_within_prefix by (rule prefix_length_prefix)

section \<open>Canonical paths\<close>

text \<open>An absolute path without dots.\<close>

definition resolved_path :: "path \<Rightarrow> bool" where
  "resolved_path p \<longleftrightarrow> normal_form p \<and> p \<noteq> [] \<and> hd p = RootDir"

lemma resolved_pathE:
  assumes "resolved_path p"
  obtains ns where "p = RootDir # ns" "\<forall>c \<in> set ns. is_normal c \<and> wf_component c"
proof -
  have nf: "normal_form p" and ne: "p \<noteq> []" and hd: "hd p = RootDir"
    using assms by (auto simp: resolved_path_def)
  from nf show ?thesis
  proof (cases rule: normal_formE)
    case (relative k ns)
    have "RootDir \<notin> set p" using relative by (auto simp: wf_component_def)
    then show ?thesis using ne hd by (metis hd_in_set)
  qed (use that in blast)
qed

lemma resolved_pathI: "\<forall>c \<in> set ns. is_normal c \<and> wf_component c \<Longrightarrow> resolved_path (RootDir # ns)"
  by (simp add: resolved_path_def normal_form_rooted)

lemma resolved_path_append:
  assumes "resolved_path p" "\<forall>c \<in> set ns. is_normal c \<and> wf_component c"
  shows "resolved_path (p @ ns)"
  using assms by (elim resolved_pathE) (auto intro!: resolved_pathI)

lemma resolved_components: "resolved_path p \<Longrightarrow> components (path_text p) = p"
  by (simp add: resolved_path_def components_render)

lemma normalize_resolved: "resolved_path p \<Longrightarrow> normalize_lexically p = p"
  by (simp add: normalize_lexically_def normal_form_fixed resolved_path_def)

lemma normalize_absolute: "is_absolute s \<Longrightarrow> resolved_path (normalize_lexically (components s))"
  using normalize_components_normal_form [of s]
  by (simp add: resolved_path_def normalize_lexically_def)

lemma resolve_against_absolute: "is_absolute base \<Longrightarrow> is_absolute (resolve_against home base p)"
  by (cases base) (auto simp: resolve_against_def Let_def push_path_def is_absolute_def)

text \<open>What \<open>realpath\<close> documents: the root resolves to itself, a result is absolute, free of dots and
  of links, the links of a directory are resolved before its entries, and an entry can only be
  resolved in a directory that can.\<close>

definition realpath_laws :: "(path \<Rightarrow> path option) \<Rightarrow> bool" where
  "realpath_laws rp \<longleftrightarrow>
     rp [RootDir] = Some [RootDir]
     \<and> (\<forall>p q. rp p = Some q \<longrightarrow> resolved_path q \<and> rp q = Some q)
     \<and> (\<forall>p q n. rp p = Some q \<longrightarrow> rp (p @ [Normal n]) = rp (q @ [Normal n]))
     \<and> (\<forall>p n. p \<noteq> [] \<longrightarrow> rp p = None \<longrightarrow> rp (p @ [Normal n]) = None)"

lemma realpath_root: "realpath_laws rp \<Longrightarrow> rp [RootDir] = Some [RootDir]"
  unfolding realpath_laws_def by (elim conjE)

lemma realpath_results: "realpath_laws rp \<Longrightarrow> \<forall>p q. rp p = Some q \<longrightarrow> resolved_path q \<and> rp q = Some q"
  unfolding realpath_laws_def by (elim conjE)

lemma realpath_entries:
  "realpath_laws rp \<Longrightarrow> \<forall>p q n. rp p = Some q \<longrightarrow> rp (p @ [Normal n]) = rp (q @ [Normal n])"
  unfolding realpath_laws_def by (elim conjE)

lemma realpath_absent:
  "realpath_laws rp \<Longrightarrow> \<forall>p n. p \<noteq> [] \<longrightarrow> rp p = None \<longrightarrow> rp (p @ [Normal n]) = None"
  unfolding realpath_laws_def by (elim conjE)

lemmas realpath_result = realpath_results [rule_format, THEN conjunct1]
  and realpath_again = realpath_results [rule_format, THEN conjunct2]

lemma is_normalE:
  assumes "is_normal c"
  obtains n where "c = Normal n"
  using assms by (cases c) auto

lemma realpath_entry:
  assumes "realpath_laws rp" "rp p = Some q" "is_normal c"
  shows "rp (p @ [c]) = rp (q @ [c])"
  using assms(3) by (rule is_normalE) (simp only: realpath_entries [rule_format, OF assms(1,2)])

lemma realpath_missing:
  assumes "realpath_laws rp" "p \<noteq> []" "rp p = None" "\<forall>c \<in> set ns. is_normal c"
  shows "rp (p @ ns) = None"
  using assms(2-4)
proof (induction ns arbitrary: p)
  case (Cons c ns)
  have "is_normal c" using Cons.prems(3) by simp
  then obtain x where "c = Normal x" by (rule is_normalE)
  then have "rp (p @ [c]) = None"
    using realpath_absent [rule_format, OF assms(1) Cons.prems(1,2)] by simp
  then show ?case using Cons.IH [of "p @ [c]"] Cons.prems by simp
qed simp

text \<open>The nearest ancestor that resolves.\<close>

lemma nearest_existing:
  assumes "realpath_laws rp" "a \<noteq> []" "rp a \<noteq> None" "\<forall>c \<in> set ns. is_normal c"
  obtains pre rest c where "a @ ns = pre @ rest" "rp pre = Some c" "pre \<noteq> []"
    "set rest \<subseteq> set ns" "\<forall>x xs. rest = x # xs \<longrightarrow> rp (pre @ [x]) = None"
proof -
  have "\<exists>pre rest c. a @ ns = pre @ rest \<and> rp pre = Some c \<and> pre \<noteq> [] \<and> set rest \<subseteq> set ns
      \<and> (\<forall>x xs. rest = x # xs \<longrightarrow> rp (pre @ [x]) = None)"
    using assms(2-4)
  proof (induction ns arbitrary: a)
    case (Cons x ns)
    show ?case
    proof (cases "rp (a @ [x])")
      case None
      obtain y where "rp a = Some y" using Cons.prems by auto
      then have "a @ x # ns = a @ x # ns \<and> rp a = Some y \<and> a \<noteq> [] \<and> set (x # ns) \<subseteq> set (x # ns)
          \<and> (\<forall>z zs. x # ns = z # zs \<longrightarrow> rp (a @ [z]) = None)"
        using None Cons.prems by simp
      then show ?thesis by blast
    next
      case (Some c)
      then obtain pre rest d where found: "(a @ [x]) @ ns = pre @ rest" "rp pre = Some d" "pre \<noteq> []"
          "set rest \<subseteq> set ns" "\<forall>z zs. rest = z # zs \<longrightarrow> rp (pre @ [z]) = None"
        using Cons.IH [of "a @ [x]"] Cons.prems by (auto simp del: append_assoc)
      show ?thesis
        using found by (intro exI [of _ pre] exI [of _ rest] exI [of _ d]) auto
    qed
  qed auto
  then obtain pre rest c where "a @ ns = pre @ rest" "rp pre = Some c" "pre \<noteq> []"
    "set rest \<subseteq> set ns" "\<forall>x xs. rest = x # xs \<longrightarrow> rp (pre @ [x]) = None" by (elim exE conjE)
  then show ?thesis by (rule that)
qed

lemma climb_to:
  assumes "rp pre = Some c" "pre \<noteq> []" "rest \<noteq> []" "\<forall>x \<in> set rest. is_normal x"
    and "\<forall>xs. xs \<noteq> [] \<and> strict_prefix xs rest \<longrightarrow> rp (pre @ xs) = None"
  shows "climb rp p (pre @ rest) remainder = c @ rest @ rev remainder"
  using assms(3-5)
proof (induction rest arbitrary: remainder rule: rev_induct)
  case (snoc x xs)
  have up: "parent_path (pre @ xs @ [x]) = Some (pre @ xs)"
    using assms(2) by (cases pre) (auto simp: parent_path_def butlast_append)
  have x: "is_normal x" using snoc.prems by simp
  show ?case
  proof (cases "xs = []")
    case True
    then show ?thesis using up x assms(1) by (subst climb.simps) simp
  next
    case False
    then have "rp (pre @ xs) = None" using snoc.prems(3) by (auto simp: strict_prefix_def)
    moreover have "climb rp p (pre @ xs) (remainder @ [x]) = c @ xs @ rev (remainder @ [x])"
      using snoc.prems False by (intro snoc.IH) (auto simp: strict_prefix_def)
    ultimately show ?thesis using up x by (subst climb.simps) simp
  qed
qed simp

lemma lenient_split:
  assumes laws: "realpath_laws rp" and res: "resolved_path p"
  obtains pre rest c where "p = pre @ rest" "rp pre = Some c" "\<forall>x \<in> set rest. is_normal x \<and> wf_component x"
    "canonicalize_lenient rp p = c @ rest" "\<forall>x xs. rest = x # xs \<longrightarrow> rp (c @ [x]) = None"
proof -
  obtain ns where p: "p = RootDir # ns" and ns: "\<forall>x \<in> set ns. is_normal x \<and> wf_component x"
    using res by (rule resolved_pathE)
  have root: "rp [RootDir] \<noteq> None" using realpath_root [OF laws] by simp
  obtain pre rest c where split: "[RootDir] @ ns = pre @ rest" "rp pre = Some c" "pre \<noteq> []"
      "set rest \<subseteq> set ns" "\<forall>x xs. rest = x # xs \<longrightarrow> rp (pre @ [x]) = None"
    using nearest_existing [OF laws _ root, of ns] ns by blast
  have normal: "\<forall>x \<in> set rest. is_normal x \<and> wf_component x" using split(4) ns by blast
  have gone: "rp (pre @ xs) = None" if ne: "xs \<noteq> []" and pre: "prefix xs rest" for xs
  proof -
    obtain x ys where xs: "xs = x # ys" using ne by (cases xs) auto
    then obtain zs where "rest = x # ys @ zs" using pre by (auto simp: prefix_def)
    then have "rp (pre @ [x]) = None" "\<forall>y \<in> set ys. is_normal y" using split(5) normal by auto
    then show ?thesis using realpath_missing [OF laws, of "pre @ [x]" ys] by (simp add: xs)
  qed
  have lenient: "canonicalize_lenient rp p = c @ rest"
  proof (cases "rest = []")
    case True
    then show ?thesis
      using split(1,2) p normalize_resolved [OF res] by (simp add: canonicalize_lenient_def)
  next
    case False
    have "rp p = None" using gone [OF False] split(1) p by simp
    moreover have "climb rp p (pre @ rest) [] = c @ rest @ rev []"
      using split(2,3) False normal gone by (intro climb_to) (auto simp: strict_prefix_def)
    ultimately show ?thesis
      using split(1) p normalize_resolved [OF res] by (simp add: canonicalize_lenient_def)
  qed
  have "\<forall>x xs. rest = x # xs \<longrightarrow> rp (c @ [x]) = None"
    using split(2,5) normal realpath_entry [OF laws split(2)] by auto
  then show ?thesis using that split(1,2) normal lenient p by simp
qed

lemma canonical_resolved:
  assumes "realpath_laws rp" "resolved_path p"
  shows "resolved_path (canonicalize_lenient rp p)"
  using lenient_split [OF assms] realpath_result [OF assms(1)]
  by (metis resolved_path_append)

lemma canonical_again:
  assumes "realpath_laws rp" "resolved_path p"
  shows "canonicalize_lenient rp (canonicalize_lenient rp p) = canonicalize_lenient rp p"
proof -
  obtain pre rest c where split: "rp pre = Some c" "\<forall>x \<in> set rest. is_normal x \<and> wf_component x"
      "canonicalize_lenient rp p = c @ rest" "\<forall>x xs. rest = x # xs \<longrightarrow> rp (c @ [x]) = None"
    using lenient_split [OF assms] by metis
  have c: "resolved_path c" "rp c = Some c"
    using split(1) assms(1) realpath_result realpath_again by blast+
  then have res: "resolved_path (c @ rest)" using split(2) resolved_path_append by blast
  have "c \<noteq> []" using c(1) by (auto simp: resolved_path_def)
  show ?thesis
  proof (cases rest)
    case Nil
    then show ?thesis
      using c split(3) by (simp add: canonicalize_lenient_def normalize_resolved)
  next
    case (Cons x xs)
    have gone: "rp (c @ ys) = None" if ys: "ys \<noteq> []" "prefix ys rest" for ys
    proof -
      obtain zs where "ys = x # zs" "prefix zs xs" using ys Cons by (cases ys) auto
      moreover have "\<forall>z \<in> set zs. is_normal z"
        using \<open>prefix zs xs\<close> split(2) Cons by (auto simp: prefix_def)
      ultimately show ?thesis
        using realpath_missing [OF assms(1), of "c @ [x]" zs] split(4) Cons by simp
    qed
    have "rp (c @ rest) = None" using gone [of rest] Cons by simp
    moreover have "climb rp (c @ rest) (c @ rest) [] = c @ rest @ rev []"
      using c(2) \<open>c \<noteq> []\<close> Cons split(2) gone by (intro climb_to) (auto simp: strict_prefix_def)
    ultimately show ?thesis
      using split(3) res by (simp add: canonicalize_lenient_def normalize_resolved)
  qed
qed

lemma normalize_twice:
  "is_absolute s \<Longrightarrow> canonicalize_lenient rp (components s)
     = canonicalize_lenient rp (normalize_lexically (components s))"
  by (simp add: canonicalize_lenient_def normalize_resolved [OF normalize_absolute])

text \<open>The canonical form of a path as a tool gives it.\<close>

definition judged_path :: "(path \<Rightarrow> path option) \<Rightarrow> string option \<Rightarrow> string \<Rightarrow> string \<Rightarrow> path" where
  "judged_path rp home base raw =
     canonicalize_lenient rp (components (resolve_against home base raw))"

lemma judged_path_resolved:
  assumes "realpath_laws rp" "is_absolute base"
  shows "resolved_path (judged_path rp home base raw)"
    "canonicalize_lenient rp (judged_path rp home base raw) = judged_path rp home base raw"
  using assms resolve_against_absolute [OF assms(2)]
  by (simp_all add: judged_path_def normalize_twice canonical_resolved canonical_again normalize_absolute)

lemma expand_absolute: "is_absolute p \<Longrightarrow> expand_tilde_with_home p home = p"
  by (cases p) (auto simp: expand_tilde_with_home_def is_absolute_def split: option.split)

lemma root_component: "RootDir \<in> set (components s) \<Longrightarrow> is_absolute s"
  using wf_components_tail [of s]
  by (auto simp: components_def Let_def wf_component_def split: if_splits)

lemma resolved_absolute: "resolved_path q \<Longrightarrow> is_absolute (path_text q)"
  by (rule root_component) (auto simp: resolved_components elim!: resolved_pathE)

text \<open>C29: A path a tool names, relative to an absolute workspace, is judged as one absolute path free
  of dots and links, whether or not it exists; canonicalising it again, or naming it by its own
  text, gives the same path, so that the approval, the record of the approval and the later check of
  the tool speak of the same file.\<close>

theorem judged_path_is_stable:
  assumes "realpath_laws rp" "is_absolute base"
  shows "resolved_path (judged_path rp home base raw)
    \<and> canonicalize_lenient rp (judged_path rp home base raw) = judged_path rp home base raw
    \<and> components (path_text (judged_path rp home base raw)) = judged_path rp home base raw
    \<and> judged_path rp home base (path_text (judged_path rp home base raw)) = judged_path rp home base raw"
proof -
  define q where "q = judged_path rp home base raw"
  have q: "resolved_path q" "canonicalize_lenient rp q = q"
    using judged_path_resolved [OF assms] by (simp_all add: q_def)
  have "judged_path rp home base (path_text q) = q"
    using q resolved_absolute [OF q(1)] resolved_components [OF q(1)]
    by (simp add: judged_path_def resolve_against_def expand_absolute)
  then show ?thesis using q resolved_components [OF q(1)] unfolding q_def by blast
qed

text \<open>A workspace with a link out of it.\<close>

definition demo_paths :: "path list" where
  "demo_paths =
     [[RootDir], [RootDir, Normal ''ws''], [RootDir, Normal ''ws'', Normal ''src''],
      [RootDir, Normal ''etc''], [RootDir, Normal ''etc'', Normal ''passwd'']]"

definition demo_real :: "path \<Rightarrow> path option" where
  "demo_real p =
     (if p \<in> set demo_paths then Some p
      else if take 3 p = [RootDir, Normal ''ws'', Normal ''out'']
              \<and> [RootDir, Normal ''etc''] @ drop 3 p \<in> set demo_paths
           then Some ([RootDir, Normal ''etc''] @ drop 3 p) else None)"

lemma demo_paths_closed: "p @ [c] \<in> set demo_paths \<Longrightarrow> p \<noteq> [] \<Longrightarrow> p \<in> set demo_paths"
  by (auto simp: demo_paths_def append_eq_Cons_conv)

lemma demo_real_laws: "realpath_laws demo_real"
  unfolding realpath_laws_def
proof (intro conjI allI impI)
  show "demo_real [RootDir] = Some [RootDir]" by (simp add: demo_real_def demo_paths_def)
next
  fix p q assume "demo_real p = Some q"
  then have q: "q \<in> set demo_paths" by (auto simp: demo_real_def split: if_splits)
  then show "demo_real q = Some q" by (simp add: demo_real_def)
  from q show "resolved_path q"
    by (auto simp: demo_paths_def wf_component_def intro!: resolved_pathI)
next
  fix p q n assume *: "demo_real p = Some q"
  show "demo_real (p @ [Normal n]) = demo_real (q @ [Normal n])"
  proof (cases "p \<in> set demo_paths")
    case True
    then show ?thesis using * by (simp add: demo_real_def)
  next
    case False
    then have link: "take 3 p = [RootDir, Normal ''ws'', Normal ''out'']"
      and q: "q = [RootDir, Normal ''etc''] @ drop 3 p"
      using * by (auto simp: demo_real_def split: if_splits)
    then have "length p \<ge> 3" by (metis length_Cons length_take list.size(3) min.cobounded1 numeral_3_eq_3)
    moreover have "p @ [Normal n] \<notin> set demo_paths"
      using link False demo_paths_closed by fastforce
    ultimately show ?thesis using link q by (auto simp: demo_real_def)
  qed
next
  fix p n assume *: "p \<noteq> []" "demo_real p = None"
  have "p \<notin> set demo_paths" using *(2) by (auto simp: demo_real_def)
  moreover have "\<not> (take 3 (p @ [Normal n]) = [RootDir, Normal ''ws'', Normal ''out'']
      \<and> [RootDir, Normal ''etc''] @ drop 3 (p @ [Normal n]) \<in> set demo_paths)"
  proof (cases "length p \<ge> 3")
    case True
    have no: "\<not> (take 3 p = [RootDir, Normal ''ws'', Normal ''out'']
      \<and> [RootDir, Normal ''etc''] @ drop 3 p \<in> set demo_paths)"
      using *(2) \<open>p \<notin> set demo_paths\<close> by (auto simp: demo_real_def split: if_splits)
    have "take 3 (p @ [Normal n]) = take 3 p" "drop 3 (p @ [Normal n]) = drop 3 p @ [Normal n]"
      using True by simp_all
    then show ?thesis
      using no demo_paths_closed [of "[RootDir, Normal ''etc''] @ drop 3 p" "Normal n"] by auto
  next
    case False
    then have "take 3 (p @ [Normal n]) = p @ [Normal n]" by simp
    moreover have "p \<noteq> [RootDir, Normal ''ws'']"
      using \<open>p \<notin> set demo_paths\<close> by (auto simp: demo_paths_def)
    ultimately show ?thesis by (auto simp: append_eq_Cons_conv)
  qed
  ultimately show "demo_real (p @ [Normal n]) = None"
    using demo_paths_closed *(1) by (auto simp: demo_real_def)
qed

lemma judged_path_is_stable_witness:
  "judged_path demo_real (Some ''/root'') ''/ws'' ''src/../out/new/x''
     = [RootDir, Normal ''etc'', Normal ''new'', Normal ''x'']
   \<and> judged_path demo_real (Some ''/root'') ''/ws'' ''/etc/new/x''
     = [RootDir, Normal ''etc'', Normal ''new'', Normal ''x'']"
proof -
  have "judged_path demo_real (Some ''/root'') ''/ws'' ''src/../out/new/x''
        = [RootDir, Normal ''etc'', Normal ''new'', Normal ''x'']"
    by code_simp
  moreover have "path_text [RootDir, Normal ''etc'', Normal ''new'', Normal ''x''] = ''/etc/new/x''"
    by code_simp
  ultimately show ?thesis
    using judged_path_is_stable [OF demo_real_laws, of "''/ws''" "Some ''/root''" "''src/../out/new/x''"]
    by (simp add: is_absolute_def)
qed

end
