(* ===== verification/Approval_Rules.thy ===== *)
theory Approval_Rules
  imports Sandbox_Paths
begin

text \<open>
  The path approval rules of the agent (\<open>agent/src/sandbox/rules.rs\<close>) on Linux: matchers and the
  regular expression of a glob, rule files, the built-in layers, the rule set of a workspace and the
  verdict on a file access, with the grants of one command and the session rules.

  The rules of a session sit behind one shared lock; \<open>cells\<close> is the store of such lists and a rule
  set holds the index of its own. Parameters are the file system (\<open>re_realpath\<close>, \<open>re_read\<close>), the
  environment, the typed JSON decoder and \<open>re_is_match\<close>, the \<open>regex\<close> crate's search.
\<close>

section \<open>Matchers\<close>

datatype access_op = OpRead | OpWrite

datatype access = AccRead | AccWrite | AccBoth

datatype decision = Ask | Allow | Deny

fun parse_decision :: "string \<Rightarrow> decision option" where
  "parse_decision v =
     (if v = ''ask'' then Some Ask else if v = ''allow'' then Some Allow
      else if v = ''deny'' then Some Deny else None)"

definition parse_access :: "string \<Rightarrow> access" where
  "parse_access v =
     (if v = ''read'' then AccRead else if v = ''write'' then AccWrite else AccBoth)"

fun covers :: "access \<Rightarrow> access_op \<Rightarrow> bool" where
  "covers AccBoth _ = True"
| "covers AccRead op = (op = OpRead)"
| "covers AccWrite op = (op = OpWrite)"

definition covers_read :: "access \<Rightarrow> bool" where
  "covers_read a \<longleftrightarrow> a = AccRead \<or> a = AccBoth"

definition covers_write :: "access \<Rightarrow> bool" where
  "covers_write a \<longleftrightarrow> a = AccWrite \<or> a = AccBoth"

lemma covers_sides: "covers a OpRead = covers_read a" "covers a OpWrite = covers_write a"
  by (cases a; simp add: covers_read_def covers_write_def)+

text \<open>A glob carries its text and the expression compiled from it.\<close>

datatype matcher = Literal path | Subtree path path | Glob string string

record path_rule =
  pr_matcher :: matcher
  pr_access :: access
  pr_decision :: decision

record raw_rule =
  raw_path :: "string option"
  raw_access :: "string option"
  raw_action :: "string option"

datatype file_read = Contents string | Not_Found | Read_Error string

record rule_env =
  re_realpath :: "path \<Rightarrow> path option"
  re_read :: "path \<Rightarrow> file_read"
  re_is_match :: "string \<Rightarrow> string \<Rightarrow> bool"
  re_parse_json :: "string \<Rightarrow> raw_rule list option"
  re_home :: "string option"
  re_redirect :: "string option"
  re_temp_dir :: string

definition matcher_matches :: "rule_env \<Rightarrow> matcher \<Rightarrow> path \<Rightarrow> bool" where
  "matcher_matches e m p =
     (case m of
        Literal target \<Rightarrow> p = target
      | Subtree lexical canonical \<Rightarrow> path_within p lexical \<or> path_within p canonical
      | Glob pattern regex \<Rightarrow> re_is_match e regex (path_text p))"

definition rule_matches :: "rule_env \<Rightarrow> path_rule \<Rightarrow> path \<Rightarrow> access_op \<Rightarrow> bool" where
  "rule_matches e r p op \<longleftrightarrow> covers (pr_access r) op \<and> matcher_matches e (pr_matcher r) p"

text \<open>Absolute text of a pattern: \<open>resolve_against\<close> on text.\<close>

definition absolutize :: "rule_env \<Rightarrow> string \<Rightarrow> string \<Rightarrow> string" where
  "absolutize e base raw =
     (let expanded = expand_tilde_with_home raw (re_home e) in
      if is_absolute expanded then expanded else push_path base expanded)"

definition has_glob :: "string \<Rightarrow> bool" where
  "has_glob pattern \<longleftrightarrow> list_ex (\<lambda>c. c = CHR ''*'' \<or> c = CHR ''?'') pattern"

definition max_rule_pattern_bytes :: usize where
  "max_rule_pattern_bytes = 4096"

definition rule_pattern_rejection :: "string \<Rightarrow> string option" where
  "rule_pattern_rejection pattern =
     (if length pattern > max_rule_pattern_bytes
      then Some (''rule pattern is '' @ dec (length pattern) @ '' bytes, over the ''
                 @ dec max_rule_pattern_bytes
                 @ ''-byte limit; the rule is refused rather than compiled'')
      else None)"

text \<open>The loop over the characters of a glob; \<open>peek\<close> is the head of the rest.\<close>

definition drop_slash :: "string list \<Rightarrow> string list" where
  "drop_slash cs = (case cs of c # rest \<Rightarrow> if c = ''/'' then rest else cs | [] \<Rightarrow> [])"

lemma length_drop_slash: "length (drop_slash cs) \<le> length cs"
  by (auto simp: drop_slash_def split: list.split)

definition regex_specials :: "string list" where
  "regex_specials = [''.'', ''+'', ''('', '')'', ''|'', ''['', '']'', ''{'', ''}'', ''^'', ''$'', [CHR 0x5C]]"

definition any_text :: string where
  "any_text = ''(.|'' @ newline @ '')*''"

function glob_body :: "string list \<Rightarrow> string" where
  "glob_body [] = []"
| "glob_body (c # cs) =
     (if c = ''*'' then
        (if cs \<noteq> [] \<and> hd cs = ''*'' then any_text @ glob_body (drop_slash (tl cs))
         else ''[^/]*'' @ glob_body cs)
      else if c = ''?'' then ''[^/]'' @ glob_body cs
      else if c \<in> set regex_specials then [CHR 0x5C] @ c @ glob_body cs
      else c @ glob_body cs)"
  by pat_completeness auto
termination
  by (relation "measure length") (auto simp: less_Suc_eq_le intro: order.trans [OF length_drop_slash])

definition build_glob_regex :: "string \<Rightarrow> string" where
  "build_glob_regex glob = ''^'' @ glob_body (chars glob) @ ''$''"

definition glob_component :: "component \<Rightarrow> bool" where
  "glob_component c \<longleftrightarrow> has_glob (component_str c)"

definition compile_matcher :: "rule_env \<Rightarrow> string \<Rightarrow> matcher" where
  "compile_matcher e abs_pattern =
     (if \<not> has_glob abs_pattern then
        Subtree (components abs_pattern) (canonicalize_lenient (re_realpath e) (components abs_pattern))
      else
        (let cs = components abs_pattern;
             pre = takeWhile (\<lambda>c. \<not> glob_component c) cs;
             rest = dropWhile (\<lambda>c. \<not> glob_component c) cs;
             full = path_text (canonicalize_lenient (re_realpath e) pre @ rest)
         in Glob full (build_glob_regex full)))"

definition path_rule_new :: "rule_env \<Rightarrow> string \<Rightarrow> access \<Rightarrow> decision \<Rightarrow> path_rule" where
  "path_rule_new e abs_pattern a d =
     \<lparr>pr_matcher = compile_matcher e abs_pattern, pr_access = a, pr_decision = d\<rparr>"

section \<open>Rule files\<close>

definition ignored_rule :: "nat \<Rightarrow> string \<Rightarrow> string" where
  "ignored_rule index reason = ''approval rule '' @ dec (index + 1) @ '' ignored: '' @ reason"

text \<open>One entry of a rule file: an error, or its rule.\<close>

definition parse_raw_rule :: "rule_env \<Rightarrow> string \<Rightarrow> nat \<times> raw_rule \<Rightarrow> string + path_rule" where
  "parse_raw_rule e workspace entry =
     (let (index, raw) = entry;
          access = ascii_lower (trim (case raw_access raw of None \<Rightarrow> ''both'' | Some a \<Rightarrow> a));
          action = ascii_lower (trim (case raw_action raw of None \<Rightarrow> '''' | Some a \<Rightarrow> a))
      in case raw_path raw of
           None \<Rightarrow> Inl (ignored_rule index ''missing path or invalid access/action'')
         | Some p \<Rightarrow>
             if p = [] \<or> access \<notin> {''read'', ''write'', ''both''} then
               Inl (ignored_rule index ''missing path or invalid access/action'')
             else (case parse_decision action of
                     None \<Rightarrow> Inl (ignored_rule index ''missing path or invalid access/action'')
                   | Some d \<Rightarrow>
                       (case rule_pattern_rejection p of
                          Some reason \<Rightarrow> Inl (ignored_rule index reason)
                        | None \<Rightarrow> Inr (path_rule_new e (absolutize e workspace p) (parse_access access) d))))"

fun left :: "'a + 'b \<Rightarrow> 'a option" where
  "left (Inl x) = Some x"
| "left (Inr y) = None"

fun right :: "'a + 'b \<Rightarrow> 'b option" where
  "right (Inl x) = None"
| "right (Inr y) = Some y"

definition parse_rule_file_diagnostics ::
  "rule_env \<Rightarrow> string \<Rightarrow> string \<Rightarrow> string list \<Rightarrow> path_rule list option \<times> string list" where
  "parse_rule_file_diagnostics e contents workspace errors =
     (case re_parse_json e contents of
        None \<Rightarrow> (None, errors)
      | Some raws \<Rightarrow>
          (let out = map (parse_raw_rule e workspace) (List.enumerate 0 raws)
           in (Some (List.map_filter right out), errors @ List.map_filter left out)))"

definition load_rule_file_diagnostics ::
  "rule_env \<Rightarrow> path \<Rightarrow> string \<Rightarrow> string list \<Rightarrow> (string + path_rule list) \<times> string list" where
  "load_rule_file_diagnostics e file workspace errors =
     (case re_read e file of
        Contents contents \<Rightarrow>
          (let (rules, errors') = parse_rule_file_diagnostics e contents workspace errors
           in (case rules of
                 Some rs \<Rightarrow> Inr rs
               | None \<Rightarrow> Inl (''malformed rule file: '' @ path_text file), errors'))
      | Not_Found \<Rightarrow> (Inr [], errors)
      | Read_Error err \<Rightarrow> (Inl (''unreadable rule file '' @ path_text file @ '': '' @ err), errors))"

text \<open>A layer of \<open>resolve_impl\<close>: a file that cannot be used leaves the layer empty and its error.\<close>

definition load_layer ::
  "rule_env \<Rightarrow> path \<Rightarrow> string \<Rightarrow> string list \<Rightarrow> path_rule list \<times> string list" where
  "load_layer e file workspace errors =
     (case load_rule_file_diagnostics e file workspace errors of
        (Inr rules, errors') \<Rightarrow> (rules, errors')
      | (Inl err, errors') \<Rightarrow> ([], errors' @ [err]))"

section \<open>Built-in layers\<close>

definition state_roots :: "rule_env \<Rightarrow> string option \<Rightarrow> string list" where
  "state_roots e home =
     (case home of None \<Rightarrow> [] | Some h \<Rightarrow> [push_path h ''.future''])
     @ (case re_redirect e of None \<Rightarrow> [] | Some r \<Rightarrow> [r])"

definition rule_file_paths :: "rule_env \<Rightarrow> path \<Rightarrow> string option \<Rightarrow> string list" where
  "rule_file_paths e workspace home =
     push_path (path_text workspace) ''.future/approval_rule.json''
     # map (\<lambda>r. push_path r ''approval_rule.json'') (state_roots e home)"

definition credential_paths :: "rule_env \<Rightarrow> string option \<Rightarrow> string list" where
  "credential_paths e home =
     concat (map (\<lambda>cred. map (\<lambda>r. push_path r cred) (state_roots e home))
               [''agent/models.json'', ''agent-app/models.json''])"

definition builtin_overrides :: "rule_env \<Rightarrow> path \<Rightarrow> string option \<Rightarrow> path_rule list" where
  "builtin_overrides e workspace home =
     map (\<lambda>p. path_rule_new e p AccWrite Deny) (rule_file_paths e workspace home)
     @ map (\<lambda>p. path_rule_new e p AccBoth Deny) (credential_paths e home)"

definition home_secrets :: "string list" where
  "home_secrets =
     [''.ssh'', ''.gnupg'', ''.npmrc'', ''.pypirc'', ''.cargo/credentials'',
      ''.cargo/credentials.toml'', ''.gem/credentials'', ''.netrc'', ''.git-credentials'', ''.env'',
      ''.aws'', ''.azure'', ''.config/gcloud'', ''.terraform.d'', ''.kube/config'',
      ''.docker/config.json'', ''.config/gh'', ''Library/Keychains'']"

definition workspace_secrets :: "string list" where
  "workspace_secrets =
     [''.env'', ''.env.*'', ''**/*.pem'', ''**/*.key'', ''**/*.p12'', ''**/id_rsa*'']"

definition builtin_guards :: "rule_env \<Rightarrow> path \<Rightarrow> string option \<Rightarrow> path_rule list" where
  "builtin_guards e workspace home =
     (case home of
        None \<Rightarrow> []
      | Some h \<Rightarrow> map (\<lambda>rel. path_rule_new e (push_path h rel) AccBoth Ask) home_secrets)
     @ map (\<lambda>pat. path_rule_new e (absolutize e (path_text workspace) pat) AccBoth Ask) workspace_secrets"

definition temp_roots :: "rule_env \<Rightarrow> path list" where
  "temp_roots e =
     (let roots = [canonicalize_lenient (re_realpath e) (components (re_temp_dir e))];
          slash_tmp = canonicalize_lenient (re_realpath e) (components ''/tmp'')
      in if slash_tmp \<in> set roots then roots else roots @ [slash_tmp])"

section \<open>The rule set\<close>

type_synonym cells = "path_rule list list"

record rule_set =
  rs_workspace :: path
  rs_temp_roots :: "path list"
  rs_overrides :: "path_rule list"
  rs_guards :: "path_rule list"
  rs_execution :: "path_rule list"
  rs_session :: nat
  rs_workspace_rules :: "path_rule list"
  rs_user_rules :: "path_rule list"
  rs_errors :: "string list"

definition session_rules :: "cells \<Rightarrow> nat \<Rightarrow> path_rule list" where
  "session_rules cells h = (if h < length cells then cells ! h else [])"

definition future_home_opt :: "rule_env \<Rightarrow> string option" where
  "future_home_opt e =
     (case re_redirect e of
        Some d \<Rightarrow> Some d | None \<Rightarrow> map_option (\<lambda>h. push_path h ''.future'') (re_home e))"

definition resolve_impl ::
  "rule_env \<Rightarrow> path \<Rightarrow> string option \<Rightarrow> path option \<Rightarrow> nat \<Rightarrow> rule_set" where
  "resolve_impl e workspace home user_rule_file session =
     (let ws = canonicalize_lenient (re_realpath e) workspace;
          (workspace_rules, errors) =
            load_layer e (ws @ [Normal ''.future'', Normal ''approval_rule.json'']) (path_text ws) [];
          (user_rules, errors') =
            (case user_rule_file of
               Some file \<Rightarrow> load_layer e file (path_text ws) errors
             | None \<Rightarrow> ([], errors))
      in \<lparr>rs_workspace = ws, rs_temp_roots = temp_roots e,
          rs_overrides = builtin_overrides e ws home, rs_guards = builtin_guards e ws home,
          rs_execution = [], rs_session = session,
          rs_workspace_rules = workspace_rules, rs_user_rules = user_rules, rs_errors = errors'\<rparr>)"

definition resolve_with_session :: "rule_env \<Rightarrow> path \<Rightarrow> nat \<Rightarrow> rule_set" where
  "resolve_with_session e workspace session =
     resolve_impl e workspace (re_home e)
       (map_option (\<lambda>h. components (push_path h ''approval_rule.json'')) (future_home_opt e)) session"

definition resolve_rules :: "rule_env \<Rightarrow> path \<Rightarrow> cells \<Rightarrow> rule_set \<times> cells" where
  "resolve_rules e workspace cells =
     (resolve_with_session e workspace (length cells), cells @ [[]])"

definition profile_layers :: "cells \<Rightarrow> rule_set \<Rightarrow> path_rule list list" where
  "profile_layers cells rs =
     [rs_overrides rs, rs_execution rs, rs_guards rs, session_rules cells (rs_session rs),
      rs_workspace_rules rs, rs_user_rules rs]"

definition explicitly_denied :: "rule_env \<Rightarrow> cells \<Rightarrow> rule_set \<Rightarrow> path \<Rightarrow> access_op \<Rightarrow> bool" where
  "explicitly_denied e cells rs p op \<longleftrightarrow>
     list_ex (\<lambda>r. pr_decision r = Deny \<and> rule_matches e r p op) (concat (profile_layers cells rs))"

datatype write_scope = File_Scope | Subtree_Scope

record file_target =
  ft_path :: path
  ft_scope :: write_scope
  ft_access :: access

definition grant_rule :: "file_target \<Rightarrow> path_rule" where
  "grant_rule t =
     \<lparr>pr_matcher = (case ft_scope t of
                      File_Scope \<Rightarrow> Literal (ft_path t)
                    | Subtree_Scope \<Rightarrow> Subtree (ft_path t) (ft_path t)),
      pr_access = ft_access t, pr_decision = Allow\<rparr>"

text \<open>The copy of the session rules is a cell of its own.\<close>

definition with_execution_grants ::
  "file_target list \<Rightarrow> rule_set \<Rightarrow> cells \<Rightarrow> rule_set \<times> cells" where
  "with_execution_grants targets rs cells =
     (let rules = rs\<lparr>rs_session := length cells\<rparr>;
          cells' = cells @ [session_rules cells (rs_session rs)]
      in if targets = [] then (rules, cells')
         else (rules\<lparr>rs_overrides := rs_overrides rules
                       @ filter (\<lambda>r. pr_decision r = Deny) (concat (profile_layers cells rs)),
                     rs_execution := map grant_rule targets\<rparr>, cells'))"

definition push_cell :: "nat \<Rightarrow> path_rule \<Rightarrow> cells \<Rightarrow> cells" where
  "push_cell h r cells = cells[h := session_rules cells h @ [r]]"

definition add_session_rule ::
  "rule_env \<Rightarrow> string \<Rightarrow> access \<Rightarrow> decision \<Rightarrow> rule_set \<Rightarrow> cells \<Rightarrow> bool \<times> cells" where
  "add_session_rule e abs_pattern a d rs cells =
     (case rule_pattern_rejection abs_pattern of
        Some reason \<Rightarrow> (False, cells)
      | None \<Rightarrow> (True, push_cell (rs_session rs) (path_rule_new e abs_pattern a d) cells))"

definition push_session_allow ::
  "rule_env \<Rightarrow> nat \<Rightarrow> string \<Rightarrow> string \<Rightarrow> access \<Rightarrow> cells \<Rightarrow> bool \<times> cells" where
  "push_session_allow e session workspace raw_pattern a cells =
     (case rule_pattern_rejection raw_pattern of
        Some reason \<Rightarrow> (False, cells)
      | None \<Rightarrow>
          (True, push_cell session (path_rule_new e (absolutize e workspace raw_pattern) a Allow) cells))"

definition is_secret_path :: "rule_env \<Rightarrow> rule_set \<Rightarrow> path \<Rightarrow> bool" where
  "is_secret_path e rs p \<longleftrightarrow>
     list_ex (\<lambda>r. rule_matches e r p OpRead \<or> rule_matches e r p OpWrite) (rs_guards rs)"

definition fallback :: "rule_set \<Rightarrow> path \<Rightarrow> access_op \<Rightarrow> decision" where
  "fallback rs p op =
     (case op of
        OpRead \<Rightarrow> Allow
      | OpWrite \<Rightarrow>
          if path_within p (rs_workspace rs) \<or> list_ex (path_within p) (rs_temp_roots rs)
          then Allow else Ask)"

definition evaluate :: "rule_env \<Rightarrow> cells \<Rightarrow> rule_set \<Rightarrow> path \<Rightarrow> access_op \<Rightarrow> decision" where
  "evaluate e cells rs p op =
     (case find (\<lambda>r. rule_matches e r p op)
             (concat [rs_overrides rs, rs_execution rs, rs_guards rs,
                      session_rules cells (rs_session rs), rs_workspace_rules rs, rs_user_rules rs]) of
        Some r \<Rightarrow> pr_decision r
      | None \<Rightarrow> fallback rs p op)"

end
