(* ===== verification/Rule_Verdicts.thy ===== *)
theory Rule_Verdicts
  imports Approval_Rules
begin

text \<open>
  The verdicts of a rule set (\<open>Approval_Rules\<close>): the layers in order, what the built-in layers
  guarantee whatever the files, the session and a command's grants say, the exact effect of grants,
  and what a rule file can contribute.
\<close>

section \<open>First match\<close>

text \<open>Ordered rules over paths, some of them deep: they reach everything below a path they match.\<close>

locale path_rules =
  fixes hits :: "'r \<Rightarrow> path \<Rightarrow> access_op \<Rightarrow> bool"
    and verdict :: "'r \<Rightarrow> decision"
    and deep :: "'r \<Rightarrow> bool"
  assumes deep_hits: "deep r \<Longrightarrow> hits r p op \<Longrightarrow> path_within q p \<Longrightarrow> hits r q op"
begin

lemma find_split:
  assumes "find (\<lambda>r. hits r p op) rs = Some r"
  obtains xs ys where "rs = xs @ r # ys" "hits r p op" "\<forall>x \<in> set xs. \<not> hits x p op"
  using assms
proof (induction rs arbitrary: thesis)
  case (Cons a rs)
  show ?case
  proof (cases "hits a p op")
    case True
    then show ?thesis using Cons.prems(2) by (intro Cons.prems(1) [of "[]"]) auto
  next
    case False
    then have "find (\<lambda>r. hits r p op) rs = Some r" using Cons.prems(2) by simp
    then obtain xs ys where "rs = xs @ r # ys" "hits r p op" "\<forall>x \<in> set xs. \<not> hits x p op"
      using Cons.IH by blast
    then show ?thesis using False by (intro Cons.prems(1) [of "a # xs"]) auto
  qed
qed simp

lemma find_at:
  "hits r p op \<Longrightarrow> \<forall>x \<in> set xs. \<not> hits x p op \<Longrightarrow> find (\<lambda>r. hits r p op) (xs @ r # ys) = Some r"
  by (induction xs) auto

text \<open>A rule that decides below a path and reaches the path decides there too, unless an earlier rule
  that is not deep does.\<close>

lemma first_above:
  assumes below: "find (\<lambda>r. hits r q op) rs = Some r" and within: "path_within q p"
    and here: "hits r p op"
  obtains r' where "find (\<lambda>r. hits r p op) rs = Some r'" "r' = r \<or> \<not> deep r'"
proof -
  obtain xs ys where split: "rs = xs @ r # ys" "\<forall>x \<in> set xs. \<not> hits x q op"
    using below by (rule find_split)
  show ?thesis
  proof (cases "find (\<lambda>r. hits r p op) xs")
    case None
    then have "\<forall>x \<in> set xs. \<not> hits x p op" by (simp add: find_None_iff)
    then show ?thesis using here split(1) by (intro that [of r]) (simp_all add: find_at)
  next
    case (Some x)
    then obtain us vs where xs: "xs = us @ x # vs" "hits x p op" "\<forall>u \<in> set us. \<not> hits u p op"
      by (rule find_split)
    have "\<not> deep x" using xs split(2) within deep_hits [of x p op q] by auto
    moreover have "find (\<lambda>r. hits r p op) rs = Some x"
      using find_at [OF xs(2,3), of "vs @ r # ys"] by (simp add: split(1) xs(1))
    ultimately show ?thesis by (rule that [rotated, OF disjI2])
  qed
qed

end

definition deep_rule :: "path_rule \<Rightarrow> bool" where
  "deep_rule r \<longleftrightarrow> (\<exists>lexical canonical. pr_matcher r = Subtree lexical canonical)"

interpretation rules: path_rules "rule_matches e" pr_decision deep_rule for e
  by unfold_locales (auto simp: deep_rule_def rule_matches_def matcher_matches_def
      intro: path_within_trans)

section \<open>Layers\<close>

definition layers_verdict :: "rule_env \<Rightarrow> path_rule list \<Rightarrow> path \<Rightarrow> access_op \<Rightarrow> decision option" where
  "layers_verdict e layer p op = map_option pr_decision (find (\<lambda>r. rule_matches e r p op) layer)"

lemma layers_verdict_Nil [simp]: "layers_verdict e [] p op = None"
  by (simp add: layers_verdict_def)

lemma layers_verdict_append [simp]:
  "layers_verdict e (xs @ ys) p op
     = (case layers_verdict e xs p op of None \<Rightarrow> layers_verdict e ys p op | Some d \<Rightarrow> Some d)"
  by (simp add: layers_verdict_def find_append split: option.split)

lemma layers_verdict_None:
  "layers_verdict e layer p op = None \<longleftrightarrow> (\<forall>r \<in> set layer. \<not> rule_matches e r p op)"
  by (auto simp: layers_verdict_def find_None_iff)

lemma layers_verdict_uniform:
  assumes "\<forall>r \<in> set layer. pr_decision r = d"
  shows "layers_verdict e layer p op
           = (if \<exists>r \<in> set layer. rule_matches e r p op then Some d else None)"
proof (cases "find (\<lambda>r. rule_matches e r p op) layer")
  case None
  then show ?thesis by (auto simp: layers_verdict_def find_None_iff)
next
  case (Some r)
  then show ?thesis using assms find_SomeD [OF Some] by (auto simp: layers_verdict_def)
qed

lemma evaluate_layers:
  "evaluate e cells rs p op
     = (case layers_verdict e (rs_overrides rs @ rs_execution rs @ rs_guards rs) p op of
          Some d \<Rightarrow> d
        | None \<Rightarrow>
            (case layers_verdict e (session_rules cells (rs_session rs) @ rs_workspace_rules rs
                                    @ rs_user_rules rs) p op of
               Some d \<Rightarrow> d | None \<Rightarrow> fallback rs p op))"
  by (simp add: evaluate_def layers_verdict_def find_append split: option.split)

lemma session_rules_append: "h < length cells \<Longrightarrow> session_rules (cells @ cs) h = session_rules cells h"
  by (simp add: session_rules_def nth_append)

lemma session_rules_last [simp]: "session_rules (cells @ [c]) (length cells) = c"
  by (simp add: session_rules_def)

lemma session_rules_push:
  "session_rules (push_cell h r cells) k
     = (if k = h \<and> h < length cells then session_rules cells h @ [r] else session_rules cells k)"
  by (auto simp: session_rules_def push_cell_def)

lemma evaluate_session:
  "session_rules cells (rs_session rs) = session_rules cells' (rs_session rs)
     \<Longrightarrow> evaluate e cells rs p op = evaluate e cells' rs p op"
  by (simp add: evaluate_def)

section \<open>The effect of a command's grants\<close>

definition granted :: "file_target list \<Rightarrow> path \<Rightarrow> access_op \<Rightarrow> bool" where
  "granted targets p op \<longleftrightarrow>
     (\<exists>t \<in> set targets. covers (ft_access t) op
        \<and> (p = ft_path t \<or> ft_scope t = Subtree_Scope \<and> path_within p (ft_path t)))"

lemma grant_rule_matches:
  "rule_matches e (grant_rule t) p op \<longleftrightarrow> covers (ft_access t) op
     \<and> (p = ft_path t \<or> ft_scope t = Subtree_Scope \<and> path_within p (ft_path t))"
  by (auto simp: rule_matches_def grant_rule_def matcher_matches_def split: write_scope.split)

lemma grant_layer:
  "layers_verdict e (map grant_rule targets) p op = (if granted targets p op then Some Allow else None)"
proof -
  have "\<forall>r \<in> set (map grant_rule targets). pr_decision r = Allow" by (auto simp: grant_rule_def)
  from layers_verdict_uniform [OF this] show ?thesis by (auto simp: grant_rule_matches granted_def)
qed

lemma deny_layer:
  "layers_verdict e (filter (\<lambda>r. pr_decision r = Deny) (concat (profile_layers cells rs))) p op
     = (if explicitly_denied e cells rs p op then Some Deny else None)"
  by (subst layers_verdict_uniform [where d = Deny]) (auto simp: explicitly_denied_def list_ex_iff)

lemma grants_verdict:
  assumes "with_execution_grants targets rs cells = (rs', cells')" "targets \<noteq> []"
  shows "evaluate e cells' rs' p op
           = (case layers_verdict e (rs_overrides rs) p op of
                Some d \<Rightarrow> d
              | None \<Rightarrow>
                  if explicitly_denied e cells rs p op then Deny
                  else if granted targets p op then Allow
                  else evaluate e cells (rs\<lparr>rs_execution := []\<rparr>) p op)"
proof -
  have rs': "rs' = rs\<lparr>rs_session := length cells,
      rs_overrides := rs_overrides rs @ filter (\<lambda>r. pr_decision r = Deny) (concat (profile_layers cells rs)),
      rs_execution := map grant_rule targets\<rparr>"
    and cells': "cells' = cells @ [session_rules cells (rs_session rs)]"
    using assms by (auto simp: with_execution_grants_def Let_def)
  have "fallback rs' p op = fallback rs p op" "fallback (rs\<lparr>rs_execution := []\<rparr>) p op = fallback rs p op"
    by (simp_all add: rs' fallback_def split: access_op.split)
  then show ?thesis
    by (simp add: evaluate_layers rs' cells' deny_layer grant_layer split: option.split)
qed

text \<open>C18: Grants are exact: with grants, a path is decided by the built-in overrides, then by any
  explicit deny of any layer, then it is allowed if a grant covers it, and else it is decided as
  before. The grants work on a copy of the session rules: what the session adds later does not reach
  them, and the verdicts of the session do not change.\<close>

theorem grants_are_exact:
  assumes "with_execution_grants targets rs cells = (rs', cells')" "targets \<noteq> []"
    and "rs_execution rs = []" "rs_session rs < length cells"
  shows "evaluate e cells' rs' p op
           = (case layers_verdict e (rs_overrides rs) p op of
                Some d \<Rightarrow> d
              | None \<Rightarrow>
                  if explicitly_denied e cells rs p op then Deny
                  else if granted targets p op then Allow
                  else evaluate e cells rs p op)
    \<and> evaluate e (push_cell (rs_session rs) r cells') rs' p op = evaluate e cells' rs' p op
    \<and> evaluate e cells' rs p op = evaluate e cells rs p op"
proof (intro conjI)
  have "rs\<lparr>rs_execution := []\<rparr> = rs" using assms(3) by (cases rs) simp
  then show "evaluate e cells' rs' p op
           = (case layers_verdict e (rs_overrides rs) p op of
                Some d \<Rightarrow> d
              | None \<Rightarrow>
                  if explicitly_denied e cells rs p op then Deny
                  else if granted targets p op then Allow
                  else evaluate e cells rs p op)"
    using grants_verdict [OF assms(1,2), of e p op] by (simp only:)
  have new: "rs_session rs' = length cells" "cells' = cells @ [session_rules cells (rs_session rs)]"
    using assms(1,2) by (auto simp: with_execution_grants_def Let_def)
  show "evaluate e (push_cell (rs_session rs) r cells') rs' p op = evaluate e cells' rs' p op"
    using new assms(4) by (intro evaluate_session) (simp add: session_rules_push)
  show "evaluate e cells' rs p op = evaluate e cells rs p op"
    using new assms(4) by (intro evaluate_session) (simp add: session_rules_append)
qed

section \<open>The built-in layers\<close>

lemma resolve_fields:
  "rs_overrides (resolve_impl e ws home urf h) = builtin_overrides e (rs_workspace (resolve_impl e ws home urf h)) home"
  "rs_guards (resolve_impl e ws home urf h) = builtin_guards e (rs_workspace (resolve_impl e ws home urf h)) home"
  "rs_execution (resolve_impl e ws home urf h) = []"
  "rs_session (resolve_impl e ws home urf h) = h"
  "rs_workspace (resolve_impl e ws home urf h) = canonicalize_lenient (re_realpath e) ws"
  by (simp_all add: resolve_impl_def Let_def split: prod.split)

lemma overrides_deny: "\<forall>r \<in> set (builtin_overrides e ws home). pr_decision r = Deny"
  by (auto simp: builtin_overrides_def path_rule_new_def)

lemma guards_ask: "\<forall>r \<in> set (builtin_guards e ws home). pr_decision r = Ask \<and> pr_access r = AccBoth"
  by (auto simp: builtin_guards_def path_rule_new_def split: option.splits)

lemma evaluate_override:
  assumes "r \<in> set (builtin_overrides e ws home)" "rule_matches e r p op"
    and "rs_overrides rs = builtin_overrides e ws home @ extra"
  shows "evaluate e cells rs p op = Deny"
proof -
  have "layers_verdict e (builtin_overrides e ws home) p op = Some Deny"
    using layers_verdict_uniform [OF overrides_deny] assms(1,2) by auto
  then show ?thesis by (simp add: evaluate_layers assms(3))
qed

lemma grants_overrides:
  assumes "with_execution_grants targets rs cells = (rs', cells')"
  obtains extra where "rs_overrides rs' = rs_overrides rs @ extra"
  using assms that [of "[]"] by (auto simp: with_execution_grants_def Let_def split: if_splits)

lemma literal_rule_matches:
  assumes "\<not> has_glob f" "covers a op"
    and "path_within p (components f) \<or> path_within p (canonicalize_lenient (re_realpath e) (components f))"
  shows "rule_matches e (path_rule_new e f a d) p op"
  using assms by (simp add: rule_matches_def path_rule_new_def compile_matcher_def matcher_matches_def)

text \<open>C19: The rule files of the workspace and of the FutureOS homes are never writable and the model
  configuration with its keys is neither readable nor writable, under any rule file, any session
  rules and any grants of a command.\<close>

theorem app_files_stay_denied:
  assumes "rs = resolve_impl e ws home user_rule_file h"
    and "f \<in> set (rule_file_paths e (rs_workspace rs) home) \<and> op = OpWrite
         \<or> f \<in> set (credential_paths e home)"
    and "\<not> has_glob f"
    and "path_within p (canonicalize_lenient (re_realpath e) (components f))"
    and "with_execution_grants targets rs cells = (rs', cells')"
  shows "evaluate e any_cells rs p op = Deny \<and> evaluate e any_cells rs' p op = Deny"
proof -
  have over: "rs_overrides rs = builtin_overrides e (rs_workspace rs) home"
    by (simp add: assms(1) resolve_fields)
  obtain a where a: "path_rule_new e f a Deny \<in> set (builtin_overrides e (rs_workspace rs) home)"
      "covers a op"
    using assms(2)
  proof (elim disjE conjE)
    assume "f \<in> set (rule_file_paths e (rs_workspace rs) home)" "op = OpWrite"
    then show ?thesis by (intro that [of AccWrite]) (auto simp: builtin_overrides_def)
  next
    assume "f \<in> set (credential_paths e home)"
    then show ?thesis by (intro that [of AccBoth]) (auto simp: builtin_overrides_def)
  qed
  have hit: "rule_matches e (path_rule_new e f a Deny) p op"
    using assms(3,4) a(2) by (intro literal_rule_matches) auto
  obtain extra where "rs_overrides rs' = rs_overrides rs @ extra"
    using assms(5) by (rule grants_overrides)
  then show ?thesis
    using evaluate_override [OF a(1) hit] over by (metis append_Nil2)
qed

lemma secret_guard:
  assumes "is_secret_path e rs p" "rs_guards rs = builtin_guards e ws home"
  shows "layers_verdict e (rs_guards rs) p op = Some Ask"
proof -
  obtain r where r: "r \<in> set (rs_guards rs)" "rule_matches e r p OpRead \<or> rule_matches e r p OpWrite"
    using assms(1) by (auto simp: is_secret_path_def list_ex_iff)
  have "pr_access r = AccBoth" using r(1) guards_ask assms(2) by auto
  then have "rule_matches e r p op" using r(2) by (auto simp: rule_matches_def)
  moreover have "\<forall>r \<in> set (rs_guards rs). pr_decision r = Ask" using guards_ask assms(2) by auto
  ultimately show ?thesis using layers_verdict_uniform [of "rs_guards rs" Ask e p op] r(1) by auto
qed

text \<open>C20: A secret is never silently accessible: no rule file and no session rule turns the
  verdict on a guarded path into allow, for either operation; with the grants of a command it is
  allowed only where a target of the grant covers it.\<close>

theorem secrets_need_a_grant:
  assumes "rs = resolve_impl e ws home user_rule_file h" "is_secret_path e rs p"
    and "with_execution_grants targets rs cells = (rs', cells')"
  shows "evaluate e any_cells rs p op \<noteq> Allow
    \<and> (evaluate e any_cells rs' p op = Allow \<longrightarrow> granted targets p op)"
proof (intro conjI)
  have over: "layers_verdict e (rs_overrides rs @ extra) p op \<noteq> Some Allow"
    if "\<forall>r \<in> set extra. pr_decision r = Deny" for extra
  proof -
    have "\<forall>r \<in> set (rs_overrides rs @ extra). pr_decision r = Deny"
      using overrides_deny that by (auto simp: assms(1) resolve_fields)
    then show ?thesis using layers_verdict_uniform [of _ Deny] by (metis decision.distinct(5) option.inject option.distinct(1))
  qed
  have guard: "layers_verdict e (rs_guards rs) p op = Some Ask"
    using secret_guard assms(2) by (metis assms(1) resolve_fields(2))
  have exec: "rs_execution rs = []" by (simp add: assms(1) resolve_fields)
  show "evaluate e any_cells rs p op \<noteq> Allow"
    using over [of "[]"] guard exec by (auto simp: evaluate_layers split: option.split)
  obtain extra where rs': "rs_overrides rs' = rs_overrides rs @ extra" "rs_guards rs' = rs_guards rs"
      "\<forall>r \<in> set extra. pr_decision r = Deny"
      "rs_execution rs' = map grant_rule targets"
    using assms(3) exec by (auto simp: with_execution_grants_def Let_def split: if_splits)
  show "evaluate e any_cells rs' p op = Allow \<longrightarrow> granted targets p op"
    using over [OF rs'(3)] guard
    by (auto simp: evaluate_layers rs' grant_layer split: option.splits if_splits)
qed

section \<open>Rule files\<close>

lemma parse_raw_ok:
  assumes "parse_raw_rule e ws entry = Inr r"
  obtains i raw p d a where "entry = (i, raw)" "raw_path raw = Some p" "p \<noteq> []"
    "length p \<le> max_rule_pattern_bytes"
    "parse_decision (ascii_lower (trim (case raw_action raw of None \<Rightarrow> '''' | Some a \<Rightarrow> a))) = Some d"
    "r = path_rule_new e (absolutize e ws p) a d"
    "a = parse_access (ascii_lower (trim (case raw_access raw of None \<Rightarrow> ''both'' | Some a \<Rightarrow> a)))"
  using assms
  by (auto simp: parse_raw_rule_def rule_pattern_rejection_def Let_def simp del: parse_decision.simps
      split: prod.splits option.splits if_splits)

lemma left_right_length: "length (List.map_filter left xs) + length (List.map_filter right xs) = length xs"
proof (induction xs)
  case (Cons x xs)
  then show ?case by (cases x) (auto simp: map_filter_simps)
qed simp

lemma set_rights: "y \<in> set (List.map_filter right xs) \<Longrightarrow> Inr y \<in> set xs"
proof (induction xs)
  case (Cons x xs)
  then show ?case by (cases x) (auto simp: map_filter_simps)
qed simp

text \<open>A rule that an entry of the file states, in full.\<close>

definition stated_rule :: "rule_env \<Rightarrow> string \<Rightarrow> raw_rule list \<Rightarrow> path_rule \<Rightarrow> bool" where
  "stated_rule e ws raws r \<longleftrightarrow>
     (\<exists>raw \<in> set raws. \<exists>p d. raw_path raw = Some p \<and> p \<noteq> [] \<and> length p \<le> max_rule_pattern_bytes
        \<and> parse_decision (ascii_lower (trim (case raw_action raw of None \<Rightarrow> '''' | Some a \<Rightarrow> a))) = Some d
        \<and> r = path_rule_new e (absolutize e ws p)
               (parse_access (ascii_lower (trim (case raw_access raw of None \<Rightarrow> ''both'' | Some a \<Rightarrow> a)))) d)"

text \<open>C21: A rule file never fails open: every rule of its layer is one its entries state, with an
  explicit action and a bounded pattern; a file that is unreadable or malformed contributes no rule
  and one error, and each entry that is dropped leaves an error of its own, so that a layer that
  recorded no error is complete.\<close>

theorem rule_file_fails_closed:
  assumes "load_layer e file ws errors = (rules, errors')"
  shows "\<exists>extra. errors' = errors @ extra
      \<and> (case re_read e file of
           Not_Found \<Rightarrow> rules = [] \<and> extra = []
         | Read_Error err \<Rightarrow> rules = [] \<and> length extra = 1
         | Contents contents \<Rightarrow>
             (case re_parse_json e contents of
                None \<Rightarrow> rules = [] \<and> length extra = 1
              | Some raws \<Rightarrow> length rules + length extra = length raws
                  \<and> list_all (stated_rule e ws raws) rules))"
proof (cases "re_read e file")
  case (Contents contents)
  show ?thesis
  proof (cases "re_parse_json e contents")
    case None
    then show ?thesis
      using assms Contents
      by (auto simp: load_layer_def load_rule_file_diagnostics_def parse_rule_file_diagnostics_def)
  next
    case (Some raws)
    define out where "out = map (parse_raw_rule e ws) (List.enumerate 0 raws)"
    have layer: "rules = List.map_filter right out" "errors' = errors @ List.map_filter left out"
      using assms Contents Some
      by (auto simp: load_layer_def load_rule_file_diagnostics_def parse_rule_file_diagnostics_def
          Let_def out_def)
    have stated: "stated_rule e ws raws r" if "r \<in> set rules" for r
    proof -
      have "Inr r \<in> set out" using that layer(1) set_rights by simp
      then obtain entry where entry: "entry \<in> set (List.enumerate 0 raws)"
          "parse_raw_rule e ws entry = Inr r" by (auto simp: out_def)
      have "snd entry \<in> set raws"
        using entry(1) by (metis map_snd_enumerate image_eqI list.set_map)
      then show ?thesis
        using entry(2) by (elim parse_raw_ok) (auto simp: stated_rule_def simp del: parse_decision.simps)
    qed
    then have "list_all (stated_rule e ws raws) rules" by (simp add: list_all_iff)
    moreover have "length rules + length (List.map_filter left out) = length raws"
      using left_right_length [of out] by (simp add: layer out_def)
    ultimately show ?thesis using layer Contents Some by simp
  qed
qed (use assms in \<open>auto simp: load_layer_def load_rule_file_diagnostics_def\<close>)

section \<open>A workspace of its own\<close>

definition demo_entries :: "raw_rule list" where
  "demo_entries =
     [\<lparr>raw_path = Some ''dist'', raw_access = None, raw_action = Some '' Allow ''\<rparr>,
      \<lparr>raw_path = Some ''private'', raw_access = Some ''write'', raw_action = Some ''maybe''\<rparr>,
      \<lparr>raw_path = Some ''/etc'', raw_access = Some ''read'', raw_action = Some ''deny''\<rparr>]"

definition demo_env :: rule_env where
  "demo_env =
     \<lparr>re_realpath = demo_real,
      re_read = (\<lambda>f. if f = [RootDir, Normal ''ws'', Normal ''.future'', Normal ''approval_rule.json'']
                     then Contents ''rules'' else Not_Found),
      re_is_match = (\<lambda>regex text. False), re_parse_json = (\<lambda>text. Some demo_entries),
      re_home = Some ''/root'', re_redirect = None, re_temp_dir = ''/tmp''\<rparr>"

abbreviation demo_rules :: rule_set where
  "demo_rules \<equiv> resolve_impl demo_env [RootDir, Normal ''ws''] (Some ''/root'') None 0"

abbreviation ssh_dir :: path where
  "ssh_dir \<equiv> [RootDir, Normal ''root'', Normal ''.ssh'']"

abbreviation ssh_grant :: "file_target list" where
  "ssh_grant \<equiv> [\<lparr>ft_path = ssh_dir, ft_scope = Subtree_Scope, ft_access = AccRead\<rparr>]"

abbreviation etc_dir :: path where
  "etc_dir \<equiv> [RootDir, Normal ''etc'']"

definition small_rules :: rule_set where
  "small_rules =
     \<lparr>rs_workspace = [RootDir, Normal ''ws''], rs_temp_roots = [], rs_overrides = [],
      rs_guards = [\<lparr>pr_matcher = Subtree ssh_dir ssh_dir, pr_access = AccBoth, pr_decision = Ask\<rparr>],
      rs_execution = [], rs_session = 0, rs_workspace_rules = [],
      rs_user_rules = [\<lparr>pr_matcher = Subtree etc_dir etc_dir, pr_access = AccRead, pr_decision = Deny\<rparr>],
      rs_errors = []\<rparr>"

lemma grants_are_exact_witness:
  "let (rs', cells') = with_execution_grants ssh_grant small_rules [[]] in
     evaluate demo_env cells' rs' (ssh_dir @ [Normal ''config'']) OpRead = Allow
     \<and> evaluate demo_env cells' rs' (ssh_dir @ [Normal ''config'']) OpWrite = Ask
     \<and> evaluate demo_env cells' rs' (etc_dir @ [Normal ''passwd'']) OpRead = Deny
     \<and> evaluate demo_env cells' small_rules (ssh_dir @ [Normal ''config'']) OpRead = Ask"
proof -
  obtain rs' cells' where g: "with_execution_grants ssh_grant small_rules [[]] = (rs', cells')"
    by (rule prod.exhaust)
  have pre: "ssh_grant \<noteq> []" "rs_execution small_rules = []" "rs_session small_rules < length [[]]"
    by (simp_all add: small_rules_def)
  note facts = small_rules_def explicitly_denied_def profile_layers_def session_rules_def
    rule_matches_def matcher_matches_def path_within_prefix granted_def evaluate_def
  have "layers_verdict demo_env (rs_overrides small_rules) p op = None" for p op
    by (simp add: small_rules_def)
  moreover have "\<not> explicitly_denied demo_env [[]] small_rules (ssh_dir @ [Normal ''config'']) op"
    "explicitly_denied demo_env [[]] small_rules (etc_dir @ [Normal ''passwd'']) OpRead"
    "evaluate demo_env [[]] small_rules (ssh_dir @ [Normal ''config'']) op = Ask" for op
    by (cases op; simp add: facts)+
  moreover have "granted ssh_grant (ssh_dir @ [Normal ''config'']) OpRead"
    "\<not> granted ssh_grant (ssh_dir @ [Normal ''config'']) OpWrite"
    by (simp_all add: facts)
  ultimately show ?thesis
    using grants_are_exact [OF g pre] by (simp add: g del: append.simps)
qed

lemma app_files_stay_denied_witness:
  "let (rs', cells') = with_execution_grants
         [\<lparr>ft_path = [RootDir, Normal ''ws''], ft_scope = Subtree_Scope, ft_access = AccBoth\<rparr>] demo_rules [[]] in
     evaluate demo_env cells' rs' [RootDir, Normal ''ws'', Normal ''.future'', Normal ''approval_rule.json''] OpWrite
     = Deny"
proof -
  obtain rs' cells' where g: "with_execution_grants
      [\<lparr>ft_path = [RootDir, Normal ''ws''], ft_scope = Subtree_Scope, ft_access = AccBoth\<rparr>] demo_rules [[]]
      = (rs', cells')"
    by (rule prod.exhaust)
  have "''/ws/.future/approval_rule.json'' \<in> set (rule_file_paths demo_env (rs_workspace demo_rules) (Some ''/root''))"
    "\<not> has_glob ''/ws/.future/approval_rule.json''"
    "path_within [RootDir, Normal ''ws'', Normal ''.future'', Normal ''approval_rule.json'']
       (canonicalize_lenient (re_realpath demo_env) (components ''/ws/.future/approval_rule.json''))"
    by code_simp+
  then show ?thesis
    using app_files_stay_denied [OF refl _ _ _ g, of "''/ws/.future/approval_rule.json''" OpWrite] g by simp
qed

lemma secrets_need_a_grant_witness:
  "evaluate demo_env [[path_rule_new demo_env ''/root'' AccBoth Allow]] demo_rules ssh_dir OpRead \<noteq> Allow
   \<and> (let (rs', cells') = with_execution_grants ssh_grant demo_rules [[]] in
        evaluate demo_env cells' rs' (ssh_dir @ [Normal ''config'']) OpWrite \<noteq> Allow)"
proof -
  obtain rs' cells' where g: "with_execution_grants ssh_grant demo_rules [[]] = (rs', cells')"
    by (rule prod.exhaust)
  have "is_secret_path demo_env demo_rules ssh_dir"
    "is_secret_path demo_env demo_rules (ssh_dir @ [Normal ''config''])"
    by code_simp+
  moreover have "\<not> granted ssh_grant (ssh_dir @ [Normal ''config'']) OpWrite" by (simp add: granted_def)
  ultimately show ?thesis
    using secrets_need_a_grant [OF refl _ g] g by fastforce
qed

lemma rule_file_fails_closed_witness:
  "let (rules, errors) = load_layer demo_env
         [RootDir, Normal ''ws'', Normal ''.future'', Normal ''approval_rule.json''] ''/ws'' []
   in length rules = 2 \<and> length errors = 1 \<and> list_all (stated_rule demo_env ''/ws'' demo_entries) rules"
proof -
  obtain rules errors where load: "load_layer demo_env
      [RootDir, Normal ''ws'', Normal ''.future'', Normal ''approval_rule.json''] ''/ws'' [] = (rules, errors)"
    by (rule prod.exhaust)
  have "length (fst (load_layer demo_env
      [RootDir, Normal ''ws'', Normal ''.future'', Normal ''approval_rule.json''] ''/ws'' [])) = 2"
    by code_simp
  moreover have "length demo_entries = 3" by (simp add: demo_entries_def)
  ultimately show ?thesis
    using rule_file_fails_closed [OF load] load by (auto simp: demo_env_def)
qed

end
