(* ===== verification/Sandbox_Glob.thy ===== *)
theory Sandbox_Glob
  imports Rule_Verdicts
begin

text \<open>
  The three glob matchers of the agent: the expression \<open>rules.rs\<close> compiles (\<open>build_glob_regex\<close>, used by
  every verdict on a file tool), the backtracking matcher of the mount plan (\<open>linux/plan.rs\<close>) and the
  expression of the directory scan (\<open>linux/glob_scan.rs\<close>). They are one function.

  The \<open>regex\<close> crate is the parameter \<open>is_match\<close>; \<open>regex_laws\<close> says how it searches an anchored
  concatenation of the fragments that the two compilers emit.
\<close>

section \<open>The matchers of the plan and of the scan\<close>

text \<open>\<open>matches_from\<close> on the rest of the pattern and of the value; the memo table of the source only
  caches its results.\<close>

function matches_from :: "string list \<Rightarrow> string list \<Rightarrow> bool" where
  "matches_from [] v = (v = [])"
| "matches_from (c # p) v =
     (if c = ''*'' then
        if p \<noteq> [] \<and> hd p = ''*'' then
          matches_from (drop_slash (tl p)) v
          \<or> (case v of [] \<Rightarrow> False | x # w \<Rightarrow> matches_from (c # p) w)
        else matches_from p v
          \<or> (case v of [] \<Rightarrow> False | x # w \<Rightarrow> x \<noteq> ''/'' \<and> matches_from (c # p) w)
      else (case v of
              [] \<Rightarrow> False
            | x # w \<Rightarrow> (if c = ''?'' then x \<noteq> ''/'' else c = x) \<and> matches_from p w))"
  by pat_completeness auto
termination
proof (relation "measure (\<lambda>(p, v). length p + length v)", goal_cases)
  case (2 c p v)
  then show ?case using length_drop_slash [of "tl p"] by (cases p) auto
qed auto

definition glob_matches :: "string \<Rightarrow> path \<Rightarrow> bool" where
  "glob_matches pattern p = matches_from (chars pattern) (chars (path_text p))"

text \<open>\<open>regex::escape\<close> puts a backslash before each character with a meaning of its own.\<close>

definition regex_escape :: "string \<Rightarrow> string" where
  "regex_escape c =
     (if c \<in> set (regex_specials @ [''*'', ''?'', ''#'', ''&'', ''-'', ''~'']) then [CHR 0x5C] @ c else c)"

function scan_body :: "string list \<Rightarrow> string" where
  "scan_body [] = []"
| "scan_body (c # cs) =
     (if c = ''*'' \<and> cs \<noteq> [] \<and> hd cs = ''*'' then ''(?s:.*)'' @ scan_body (drop_slash (tl cs))
      else if c = ''*'' then ''[^/]*'' @ scan_body cs
      else if c = ''?'' then ''[^/]'' @ scan_body cs
      else regex_escape c @ scan_body cs)"
  by pat_completeness auto
termination
  by (relation "measure length") (auto simp: less_Suc_eq_le intro: order.trans [OF length_drop_slash])

definition scan_regex :: "string \<Rightarrow> string" where
  "scan_regex pattern = [CHR 0x5C] @ ''A'' @ scan_body (chars pattern) @ [CHR 0x5C] @ ''z''"

section \<open>Globs as fragments\<close>

datatype glob_atom = Chr string | One | Segment | Anything

function glob_atoms :: "string list \<Rightarrow> glob_atom list" where
  "glob_atoms [] = []"
| "glob_atoms (c # cs) =
     (if c = ''*'' then
        if cs \<noteq> [] \<and> hd cs = ''*'' then Anything # glob_atoms (drop_slash (tl cs))
        else Segment # glob_atoms cs
      else if c = ''?'' then One # glob_atoms cs else Chr c # glob_atoms cs)"
  by pat_completeness auto
termination
  by (relation "measure length") (auto simp: less_Suc_eq_le intro: order.trans [OF length_drop_slash])

function atoms_match :: "glob_atom list \<Rightarrow> string list \<Rightarrow> bool" where
  "atoms_match [] v = (v = [])"
| "atoms_match (Chr c # as) [] = False"
| "atoms_match (Chr c # as) (x # w) = (x = c \<and> atoms_match as w)"
| "atoms_match (One # as) [] = False"
| "atoms_match (One # as) (x # w) = (x \<noteq> ''/'' \<and> atoms_match as w)"
| "atoms_match (Segment # as) [] = atoms_match as []"
| "atoms_match (Segment # as) (x # w) =
     (atoms_match as (x # w) \<or> x \<noteq> ''/'' \<and> atoms_match (Segment # as) w)"
| "atoms_match (Anything # as) [] = atoms_match as []"
| "atoms_match (Anything # as) (x # w) =
     (atoms_match as (x # w) \<or> atoms_match (Anything # as) w)"
  by pat_completeness auto
termination
  by (relation "measure (\<lambda>(as, v). length as + length v)") auto

fun rule_fragment :: "glob_atom \<Rightarrow> string" where
  "rule_fragment (Chr c) = (if c \<in> set regex_specials then [CHR 0x5C] @ c else c)"
| "rule_fragment One = ''[^/]''"
| "rule_fragment Segment = ''[^/]*''"
| "rule_fragment Anything = any_text"

fun scan_fragment :: "glob_atom \<Rightarrow> string" where
  "scan_fragment (Chr c) = regex_escape c"
| "scan_fragment One = ''[^/]''"
| "scan_fragment Segment = ''[^/]*''"
| "scan_fragment Anything = ''(?s:.*)''"

definition rule_expression :: "glob_atom list \<Rightarrow> string" where
  "rule_expression as = ''^'' @ concat (map rule_fragment as) @ ''$''"

definition scan_expression :: "glob_atom list \<Rightarrow> string" where
  "scan_expression as = [CHR 0x5C] @ ''A'' @ concat (map scan_fragment as) @ [CHR 0x5C] @ ''z''"

text \<open>A literal fragment is one code point other than the two wildcards.\<close>

definition code_point :: "string \<Rightarrow> bool" where
  "code_point c \<longleftrightarrow> c \<noteq> [] \<and> \<not> is_continuation (hd c) \<and> list_all is_continuation (tl c)"

fun literal_atom :: "glob_atom \<Rightarrow> bool" where
  "literal_atom (Chr c) \<longleftrightarrow> code_point c \<and> c \<noteq> ''*'' \<and> c \<noteq> ''?''"
| "literal_atom _ \<longleftrightarrow> True"

text \<open>The documented meaning of the syntax: a literal or escaped character matches itself, the class
  any character but a slash, the stars repeat, and the anchors tie the match to both ends.\<close>

definition regex_laws :: "(string \<Rightarrow> string \<Rightarrow> bool) \<Rightarrow> bool" where
  "regex_laws is_match \<longleftrightarrow>
     (\<forall>as s. list_all literal_atom as \<longrightarrow>
        is_match (rule_expression as) s = atoms_match as (chars s)
        \<and> is_match (scan_expression as) s = atoms_match as (chars s))"

section \<open>They agree\<close>

lemma glob_body_atoms: "glob_body cs = concat (map rule_fragment (glob_atoms cs))"
  by (induction cs rule: glob_body.induct) auto

lemma scan_body_atoms: "scan_body cs = concat (map scan_fragment (glob_atoms cs))"
  by (induction cs rule: scan_body.induct) auto

lemma matches_from_atoms: "matches_from p v = atoms_match (glob_atoms p) v"
proof (induction p v rule: matches_from.induct)
  case (2 c p v)
  consider (stars) "c = ''*''" "p \<noteq> [] \<and> hd p = ''*''" | (star) "c = ''*''" "\<not> (p \<noteq> [] \<and> hd p = ''*'')"
    | (plain) "c \<noteq> ''*''" by blast
  then show ?case
  proof cases
    case stars
    then show ?thesis using 2(1,2) by (cases v) simp_all
  next
    case star
    then show ?thesis using 2(3,4) by (cases v) auto
  next
    case plain
    then show ?thesis using 2(5) by (cases v) auto
  qed
qed simp

definition valid_text :: "string \<Rightarrow> bool" where
  "valid_text s \<longleftrightarrow> list_all code_point (chars s)"

lemma set_drop_slash: "set (drop_slash cs) \<subseteq> set cs"
  by (auto simp: drop_slash_def split: list.splits if_splits)

lemma literal_glob_atoms: "list_all code_point cs \<Longrightarrow> list_all literal_atom (glob_atoms cs)"
proof (induction cs rule: glob_atoms.induct)
  case (2 c cs)
  have "list_all code_point (drop_slash (tl cs))"
    using 2 set_drop_slash [of "tl cs"] by (cases cs) (auto simp: list_all_iff)
  then show ?case using 2 by auto
qed simp

lemma regex_rule_pattern:
  assumes "regex_laws is_match" "valid_text pattern"
  shows "is_match (build_glob_regex pattern) s = atoms_match (glob_atoms (chars pattern)) (chars s)"
proof -
  have "list_all literal_atom (glob_atoms (chars pattern))"
    using assms(2) literal_glob_atoms by (simp add: valid_text_def)
  moreover have "build_glob_regex pattern = rule_expression (glob_atoms (chars pattern))"
    by (simp add: build_glob_regex_def rule_expression_def glob_body_atoms)
  ultimately show ?thesis using assms(1) by (simp add: regex_laws_def)
qed

lemma regex_scan_pattern:
  assumes "regex_laws is_match" "valid_text pattern"
  shows "is_match (scan_regex pattern) s = atoms_match (glob_atoms (chars pattern)) (chars s)"
proof -
  have "list_all literal_atom (glob_atoms (chars pattern))"
    using assms(2) literal_glob_atoms by (simp add: valid_text_def)
  moreover have "scan_regex pattern = scan_expression (glob_atoms (chars pattern))"
    by (simp add: scan_regex_def scan_expression_def scan_body_atoms)
  ultimately show ?thesis using assms(1) by (simp add: regex_laws_def)
qed

text \<open>C28: The file tools, the mount plan and the directory scan match the same paths: on every
  pattern, the anchored expression of the rules, the backtracking matcher of the plan and the
  anchored expression of the scan agree.\<close>

theorem glob_matchers_agree:
  assumes "regex_laws is_match" "valid_text pattern"
  shows "(is_match (build_glob_regex pattern) (path_text p) \<longleftrightarrow> glob_matches pattern p)
    \<and> (is_match (scan_regex pattern) (path_text p) \<longleftrightarrow> glob_matches pattern p)"
  using assms by (simp_all add: regex_rule_pattern regex_scan_pattern glob_matches_def matches_from_atoms)

section \<open>An expression engine for the fragments\<close>

text \<open>\<open>read_atoms\<close> reads the fragments back; the engine searches with what it has read.\<close>

function read_atoms :: "string list \<Rightarrow> glob_atom list" where
  "read_atoms cs =
     (if cs = [] \<or> cs = [''$''] \<or> cs = [[CHR 0x5C], ''z''] then []
      else if take 5 cs = [''['', ''^'', ''/'', '']'', ''*''] then Segment # read_atoms (drop 5 cs)
      else if take 4 cs = [''['', ''^'', ''/'', '']''] then One # read_atoms (drop 4 cs)
      else if take 6 cs = [''('', ''.'', ''|'', newline, '')'', ''*''] then Anything # read_atoms (drop 6 cs)
      else if take 7 cs = [''('', ''?'', ''s'', '':'', ''.'', ''*'', '')''] then Anything # read_atoms (drop 7 cs)
      else if hd cs = [CHR 0x5C] then Chr (hd (tl cs)) # read_atoms (drop 2 cs)
      else Chr (hd cs) # read_atoms (drop 1 cs))"
  by pat_completeness auto
termination
  by (relation "measure length") auto

declare read_atoms.simps [simp del]

definition fragment_match :: "string \<Rightarrow> string \<Rightarrow> bool" where
  "fragment_match regex text \<longleftrightarrow>
     atoms_match (read_atoms (drop (if starts_with ''^'' regex then 1 else 2) (chars regex))) (chars text)"

lemma chars_append: "y = [] \<or> \<not> is_continuation (hd y) \<Longrightarrow> chars (x @ y) = chars x @ chars y"
proof (induction x rule: chars.induct)
  case (2 c cs)
  have tw: "takeWhile is_continuation (cs @ y) = takeWhile is_continuation cs"
    "dropWhile is_continuation (cs @ y) = dropWhile is_continuation cs @ y"
    using 2(2) by (induction cs) (cases y; auto)+
  show ?case using 2 by (simp add: tw)
qed simp

lemma chars_code_point: "code_point c \<Longrightarrow> chars c = [c]"
  by (cases c) (auto simp: code_point_def list_all_iff takeWhile_eq_all_conv dropWhile_eq_Nil_conv)


lemma special_code_points: "list_all code_point regex_specials"
  by code_simp

lemma chars_escaped:
  assumes "code_point c" "c \<noteq> ''*''"
  shows "chars (regex_escape c) = (if regex_escape c = c then [c] else [[CHR 0x5C], c])"
proof -
  have "chars ([CHR 0x5C] @ c) = chars [CHR 0x5C] @ chars c"
    using assms(1) by (intro chars_append) (simp add: code_point_def)
  then show ?thesis using chars_code_point [OF assms(1)] by (auto simp: regex_escape_def)
qed

lemma chars_rule_fragment:
  assumes "literal_atom a"
  shows "chars (rule_fragment a)
           = (case a of
                Chr c \<Rightarrow> if c \<in> set regex_specials then [[CHR 0x5C], c] else [c]
              | One \<Rightarrow> [''['', ''^'', ''/'', '']'']
              | Segment \<Rightarrow> [''['', ''^'', ''/'', '']'', ''*'']
              | Anything \<Rightarrow> [''('', ''.'', ''|'', newline, '')'', ''*''])"
proof (cases a)
  case (Chr c)
  then have c: "code_point c" using assms by simp
  have "chars ([CHR 0x5C] @ c) = chars [CHR 0x5C] @ chars c"
    using c by (intro chars_append) (simp add: code_point_def)
  then show ?thesis using Chr chars_code_point [OF c] by simp
qed (simp_all add: any_text_def newline_def is_continuation_def)

lemma chars_scan_fragment:
  assumes "literal_atom a"
  shows "chars (scan_fragment a)
           = (case a of
                Chr c \<Rightarrow> if regex_escape c = c then [c] else [[CHR 0x5C], c]
              | One \<Rightarrow> [''['', ''^'', ''/'', '']'']
              | Segment \<Rightarrow> [''['', ''^'', ''/'', '']'', ''*'']
              | Anything \<Rightarrow> [''('', ''?'', ''s'', '':'', ''.'', ''*'', '')''])"
  using assms by (cases a) (simp_all add: chars_escaped is_continuation_def)

lemma fragment_start:
  assumes "literal_atom a"
  shows "rule_fragment a \<noteq> [] \<and> \<not> is_continuation (hd (rule_fragment a))"
    and "scan_fragment a \<noteq> [] \<and> \<not> is_continuation (hd (scan_fragment a))"
  using assms
  by (cases a; auto simp: any_text_def is_continuation_def code_point_def regex_escape_def)+

lemma chars_concat:
  assumes "\<forall>x \<in> set xs. x \<noteq> [] \<and> \<not> is_continuation (hd x)"
  shows "chars (concat xs) = concat (map chars xs)"
  using assms
proof (induction xs)
  case (Cons x xs)
  have "concat xs = [] \<or> \<not> is_continuation (hd (concat xs))"
    using Cons.prems by (cases xs) auto
  then show ?case using Cons by (simp add: chars_append)
qed simp

lemma read_rule_fragment:
  assumes "literal_atom a" "x \<noteq> ''*''"
  shows "read_atoms (chars (rule_fragment a) @ x # w) = a # read_atoms (x # w)"
  using assms
  by (cases a)
    (auto simp: chars_rule_fragment read_atoms.simps [of "_ # _"] regex_specials_def eval_nat_numeral
      simp del: rule_fragment.simps)

lemma read_scan_fragment:
  assumes "literal_atom a" "x \<noteq> ''*''"
  shows "read_atoms (chars (scan_fragment a) @ x # w) = a # read_atoms (x # w)"
  using assms
  by (cases a)
    (auto simp: chars_scan_fragment read_atoms.simps [of "_ # _"] regex_escape_def regex_specials_def
      eval_nat_numeral simp del: scan_fragment.simps split: if_splits)

text \<open>What follows a fragment is nothing that the class would read as its star.\<close>

lemma fragments_start:
  assumes "list_all literal_atom as" "ending = [''$''] \<or> ending = [[CHR 0x5C], ''z'']"
  shows "\<exists>x w. concat (map (\<lambda>a. chars (rule_fragment a)) as) @ ending = x # w \<and> x \<noteq> ''*''"
    and "\<exists>x w. concat (map (\<lambda>a. chars (scan_fragment a)) as) @ ending = x # w \<and> x \<noteq> ''*''"
proof -
  have start: "\<exists>x w. chars (rule_fragment a) = x # w \<and> x \<noteq> ''*''"
    "\<exists>x w. chars (scan_fragment a) = x # w \<and> x \<noteq> ''*''" if "literal_atom a" for a
    using that by (cases a; auto simp: chars_rule_fragment chars_scan_fragment
        simp del: rule_fragment.simps scan_fragment.simps)+
  show "\<exists>x w. concat (map (\<lambda>a. chars (rule_fragment a)) as) @ ending = x # w \<and> x \<noteq> ''*''"
  proof (cases as)
    case (Cons a bs)
    then obtain x w where "chars (rule_fragment a) = x # w" "x \<noteq> ''*''"
      using start(1) [of a] assms(1) by auto
    then show ?thesis by (simp add: Cons)
  qed (use assms(2) in auto)
  show "\<exists>x w. concat (map (\<lambda>a. chars (scan_fragment a)) as) @ ending = x # w \<and> x \<noteq> ''*''"
  proof (cases as)
    case (Cons a bs)
    then obtain x w where "chars (scan_fragment a) = x # w" "x \<noteq> ''*''"
      using start(2) [of a] assms(1) by auto
    then show ?thesis by (simp add: Cons)
  qed (use assms(2) in auto)
qed

lemma read_fragments:
  assumes "list_all literal_atom as" "ending = [''$''] \<or> ending = [[CHR 0x5C], ''z'']"
  shows "read_atoms (concat (map (\<lambda>a. chars (rule_fragment a)) as) @ ending) = as"
    and "read_atoms (concat (map (\<lambda>a. chars (scan_fragment a)) as) @ ending) = as"
proof -
  have last: "read_atoms ending = []" using assms(2) by (auto simp: read_atoms.simps)
  show "read_atoms (concat (map (\<lambda>a. chars (rule_fragment a)) as) @ ending) = as"
    using assms(1)
  proof (induction as)
    case (Cons a as)
    obtain x w where "concat (map (\<lambda>a. chars (rule_fragment a)) as) @ ending = x # w" "x \<noteq> ''*''"
      using fragments_start(1) [OF _ assms(2), of as] Cons.prems by auto
    then show ?case using Cons read_rule_fragment [of a x w] by (simp del: rule_fragment.simps)
  qed (simp add: last)
  show "read_atoms (concat (map (\<lambda>a. chars (scan_fragment a)) as) @ ending) = as"
    using assms(1)
  proof (induction as)
    case (Cons a as)
    obtain x w where "concat (map (\<lambda>a. chars (scan_fragment a)) as) @ ending = x # w" "x \<noteq> ''*''"
      using fragments_start(2) [OF _ assms(2), of as] Cons.prems by auto
    then show ?case using Cons read_scan_fragment [of a x w] by (simp del: scan_fragment.simps)
  qed (simp add: last)
qed

lemma chars_expressions:
  assumes "list_all literal_atom as"
  shows "chars (rule_expression as) = ''^'' # concat (map (\<lambda>a. chars (rule_fragment a)) as) @ [''$'']"
    and "chars (scan_expression as)
           = [CHR 0x5C] # ''A'' # concat (map (\<lambda>a. chars (scan_fragment a)) as) @ [[CHR 0x5C], ''z'']"
proof -
  have "\<forall>x \<in> set (map rule_fragment as). x \<noteq> [] \<and> \<not> is_continuation (hd x)"
    "\<forall>x \<in> set (map scan_fragment as). x \<noteq> [] \<and> \<not> is_continuation (hd x)"
    using assms fragment_start by (auto simp: list_all_iff)
  then have "\<forall>x \<in> set (''^'' # map rule_fragment as @ [''$'']). x \<noteq> [] \<and> \<not> is_continuation (hd x)"
    "\<forall>x \<in> set ([CHR 0x5C] # ''A'' # map scan_fragment as @ [[CHR 0x5C], ''z'']). x \<noteq> [] \<and> \<not> is_continuation (hd x)"
    by (auto simp: is_continuation_def)
  from this [THEN chars_concat]
  show "chars (rule_expression as) = ''^'' # concat (map (\<lambda>a. chars (rule_fragment a)) as) @ [''$'']"
    and "chars (scan_expression as)
           = [CHR 0x5C] # ''A'' # concat (map (\<lambda>a. chars (scan_fragment a)) as) @ [[CHR 0x5C], ''z'']"
    by (simp_all add: rule_expression_def scan_expression_def comp_def)
qed

lemma fragment_match_laws: "regex_laws fragment_match"
  unfolding regex_laws_def fragment_match_def
  by (simp add: chars_expressions read_fragments)
    (simp add: rule_expression_def scan_expression_def starts_with_def)

lemma glob_matchers_agree_witness:
  "fragment_match (build_glob_regex ''/ws/**/*.pem'') (path_text [RootDir, Normal ''ws'', Normal ''a'', Normal ''k.pem''])
   \<and> fragment_match (scan_regex ''/ws/**/*.pem'') (path_text [RootDir, Normal ''ws'', Normal ''a'', Normal ''k.pem''])
   \<and> \<not> fragment_match (build_glob_regex ''/ws/.env.*'') (path_text [RootDir, Normal ''ws'', Normal ''a'', Normal ''.env.x''])"
proof -
  have "valid_text ''/ws/**/*.pem''" "valid_text ''/ws/.env.*''"
    "glob_matches ''/ws/**/*.pem'' [RootDir, Normal ''ws'', Normal ''a'', Normal ''k.pem'']"
    "\<not> glob_matches ''/ws/.env.*'' [RootDir, Normal ''ws'', Normal ''a'', Normal ''.env.x'']"
    by code_simp+
  then show ?thesis using glob_matchers_agree [OF fragment_match_laws] by simp
qed

text \<open>A double star followed by a slash also stands for the start of a name: a rule for
  \<open>a/**/b\<close> covers not only \<open>b\<close> at any depth but every name that ends in \<open>b\<close>.\<close>

theorem double_star_reaches_into_names:
  assumes "regex_laws is_match"
  shows "is_match (build_glob_regex ''/ws/**/dist'') ''/ws/lib/dist''
    \<and> is_match (build_glob_regex ''/ws/**/dist'') ''/ws/dist''
    \<and> is_match (build_glob_regex ''/ws/**/dist'') ''/ws/redist''"
proof -
  have valid: "valid_text ''/ws/**/dist''" by code_simp
  show ?thesis
    by (intro conjI; subst regex_rule_pattern [OF assms valid]; code_simp)
qed

lemma double_star_reaches_into_names_witness:
  "fragment_match (build_glob_regex ''/ws/**/dist'') ''/ws/redist''"
  using double_star_reaches_into_names [OF fragment_match_laws] by simp

end
