(* ===== verification/Sandbox_Plan.thy ===== *)
theory Sandbox_Plan
  imports Sandbox_Glob
begin

text \<open>
  The mount plan of the Linux shell sandbox: the snapshot of a rule set (\<open>rules.rs\<close>), its compilation to
  writable, read-only, unreadable and reopened paths (\<open>linux/plan.rs\<close>), and the mounts in the order
  bubblewrap applies them (\<open>linux/runner.rs\<close>).

  Parameters: the file system as \<open>lstat\<close> and \<open>stat\<close> see it, the expansion of globs before the
  command (\<open>Glob_Scan\<close> models it) and the digest of the policy.
\<close>

section \<open>Order of paths\<close>

fun component_rank :: "component \<Rightarrow> nat" where
  "component_rank RootDir = 0"
| "component_rank CurDir = 1"
| "component_rank ParentDir = 2"
| "component_rank (Normal s) = 3"

fun component_name :: "component \<Rightarrow> string" where
  "component_name (Normal s) = s"
| "component_name _ = []"

lemma component_eqI: "component_rank a = component_rank b \<Longrightarrow> component_name a = component_name b \<Longrightarrow> a = b"
  by (cases a; cases b) auto

instantiation component :: linorder
begin

definition less_eq_component :: "component \<Rightarrow> component \<Rightarrow> bool" where
  "less_eq_component a b \<longleftrightarrow> component_rank a < component_rank b
     \<or> component_rank a = component_rank b \<and> component_name a \<le> component_name b"

definition less_component :: "component \<Rightarrow> component \<Rightarrow> bool" where
  "less_component a b \<longleftrightarrow> component_rank a < component_rank b
     \<or> component_rank a = component_rank b \<and> component_name a < component_name b"

instance
  by standard (auto simp: less_eq_component_def less_component_def intro: component_eqI)

end

section \<open>Snapshots\<close>

datatype rule_layer = Override | Execution | Guard | Session | Workspace | User

datatype matcher_snapshot = SLiteral path | SSubtree path path | SGlob string

record rule_snapshot =
  rn_matcher :: matcher_snapshot
  rn_access :: access
  rn_decision :: decision

record rule_set_snapshot =
  sn_workspace :: path
  sn_temp_roots :: "path list"
  sn_layers :: "(rule_layer \<times> rule_snapshot list) list"
  sn_errors :: "string list"

definition rule_snapshot_of :: "path_rule \<Rightarrow> rule_snapshot" where
  "rule_snapshot_of r =
     \<lparr>rn_matcher = (case pr_matcher r of
                      Literal p \<Rightarrow> SLiteral p
                    | Subtree lexical canonical \<Rightarrow> SSubtree lexical canonical
                    | Glob pattern regex \<Rightarrow> SGlob pattern),
      rn_access = pr_access r, rn_decision = pr_decision r\<rparr>"

definition rules_snapshot :: "cells \<Rightarrow> rule_set \<Rightarrow> rule_set_snapshot" where
  "rules_snapshot cells rs =
     \<lparr>sn_workspace = rs_workspace rs, sn_temp_roots = rs_temp_roots rs,
      sn_layers = map (\<lambda>(rules, layer). (layer, map rule_snapshot_of rules))
                    (zip (profile_layers cells rs) [Override, Execution, Guard, Session, Workspace, User]),
      sn_errors = rs_errors rs\<rparr>"

section \<open>Matching in the plan\<close>

definition access_overlap :: "access \<Rightarrow> access \<Rightarrow> bool" where
  "access_overlap l r = (case r of AccRead \<Rightarrow> covers_read l | _ \<Rightarrow> covers_write l)"

definition snapshot_hits :: "rule_snapshot \<Rightarrow> path \<Rightarrow> bool" where
  "snapshot_hits r p =
     (case rn_matcher r of
        SLiteral target \<Rightarrow> p = target
      | SSubtree lexical canonical \<Rightarrow> path_within p lexical \<or> path_within p canonical
      | SGlob pattern \<Rightarrow> glob_matches pattern p)"

definition rule_blocks :: "rule_snapshot \<Rightarrow> path \<Rightarrow> access \<Rightarrow> bool" where
  "rule_blocks r p a \<longleftrightarrow>
     \<not> (rn_decision r = Allow \<or> \<not> access_overlap (rn_access r) a) \<and> snapshot_hits r p"

definition plan_rule_matches :: "rule_snapshot \<Rightarrow> path \<Rightarrow> access \<Rightarrow> bool" where
  "plan_rule_matches r p a \<longleftrightarrow> access_overlap (rn_access r) a \<and> snapshot_hits r p"

text \<open>A rule with the index of its layer and its index there.\<close>

type_synonym flat_rule = "nat \<times> nat \<times> rule_layer \<times> rule_snapshot"

definition flat_key :: "flat_rule \<Rightarrow> nat \<times> nat" where
  "flat_key f = (fst f, fst (snd f))"

definition flat_snapshot :: "flat_rule \<Rightarrow> rule_snapshot" where
  "flat_snapshot f = snd (snd (snd f))"

definition key_less :: "nat \<times> nat \<Rightarrow> nat \<times> nat \<Rightarrow> bool" where
  "key_less a b \<longleftrightarrow> fst a < fst b \<or> fst a = fst b \<and> snd a < snd b"

definition flatten_rules :: "rule_set_snapshot \<Rightarrow> flat_rule list" where
  "flatten_rules sn =
     concat (map (\<lambda>(priority, layer, rules). map (\<lambda>(index, r). (priority, index, layer, r)) (List.enumerate 0 rules))
               (List.enumerate 0 (sn_layers sn)))"

definition effective_blocked :: "flat_rule list \<Rightarrow> path \<Rightarrow> access \<Rightarrow> bool" where
  "effective_blocked fs p a =
     (case find (\<lambda>f. plan_rule_matches (flat_snapshot f) p a) fs of
        None \<Rightarrow> False | Some f \<Rightarrow> rn_decision (flat_snapshot f) \<noteq> Allow)"

definition matched_by_earlier_rule :: "flat_rule list \<Rightarrow> nat \<times> nat \<Rightarrow> path \<Rightarrow> access \<Rightarrow> bool" where
  "matched_by_earlier_rule fs key p a =
     list_ex (\<lambda>f. key_less (flat_key f) key \<and> plan_rule_matches (flat_snapshot f) p a) fs"

definition protected_by_later_rule :: "flat_rule list \<Rightarrow> nat \<times> nat \<Rightarrow> path \<Rightarrow> access \<Rightarrow> bool" where
  "protected_by_later_rule fs key p a =
     list_ex (\<lambda>f. key_less key (flat_key f) \<and> rule_blocks (flat_snapshot f) p a) fs"

section \<open>Compilation\<close>

datatype plan_error =
  Rule_Layer_Unavailable string
| Unsafe_Path path
| Unsupported_Matcher string
| Glob_Scan_Failed string
| Mount_Limit
| Unsupported_Access_Combination path
| Missing_Reopen path
| Path_Inspection path string
| Policy_Serialization string

datatype lstat_result = Absent | Lstat_Error string | Symlink | Present

record mount_fs =
  mf_lstat :: "path \<Rightarrow> lstat_result"
  mf_stat :: "path \<Rightarrow> string option"

definition mount_path_exists :: "mount_fs \<Rightarrow> path \<Rightarrow> plan_error + bool" where
  "mount_path_exists fs p =
     (case mf_lstat fs p of
        Absent \<Rightarrow> Inr False
      | Lstat_Error err \<Rightarrow> Inl (Path_Inspection p err)
      | Symlink \<Rightarrow> (case mf_stat fs p of None \<Rightarrow> Inr True | Some err \<Rightarrow> Inl (Path_Inspection p err))
      | Present \<Rightarrow> Inr True)"

definition validate_absolute :: "path \<Rightarrow> plan_error + unit" where
  "validate_absolute p =
     (if p = [] \<or> hd p \<noteq> RootDir \<or> ParentDir \<in> set p then Inl (Unsafe_Path p) else Inr ())"

definition validate_glob :: "string \<Rightarrow> plan_error + unit" where
  "validate_glob pattern =
     and_then (validate_absolute (components pattern)) (\<lambda>_.
       if list_ex (\<lambda>c. c \<in> set ''[]{}'') pattern then Inl (Unsupported_Matcher pattern) else Inr ())"

definition expand_globs ::
  "(string list \<Rightarrow> string + (string \<Rightarrow> path list)) \<Rightarrow> string list \<Rightarrow> plan_error + (string \<Rightarrow> path list)" where
  "expand_globs scan patterns =
     and_then (fold_res (\<lambda>pattern _. validate_glob pattern) patterns ()) (\<lambda>_.
       case scan patterns of Inl code \<Rightarrow> Inl (Glob_Scan_Failed code) | Inr found \<Rightarrow> Inr found)"

record plan_state =
  ps_writable :: "path list"
  ps_read_only :: "path list"
  ps_unreadable :: "path list"
  ps_reopened :: "path list"
  ps_reopened_read_only :: "path list"
  ps_missing :: "path list"

definition apply_rule ::
  "mount_fs \<Rightarrow> flat_rule list \<Rightarrow> flat_rule \<Rightarrow> path \<Rightarrow> plan_state \<Rightarrow> plan_error + plan_state" where
  "apply_rule fs flat f p st =
     (let r = flat_snapshot f; key = flat_key f in
      case rn_decision r of
        Allow \<Rightarrow>
          (if covers_write (rn_access r) \<and> \<not> matched_by_earlier_rule flat key p AccWrite then
             (if effective_blocked flat p AccRead then Inl (Unsupported_Access_Combination p)
              else if protected_by_later_rule flat key p AccWrite then
                and_then (mount_path_exists fs p) (\<lambda>present.
                  if \<not> present then Inl (Missing_Reopen p)
                  else Inr (st\<lparr>ps_reopened := ps_reopened st @ [p]\<rparr>))
              else Inr (st\<lparr>ps_writable := ps_writable st @ [p]\<rparr>))
           else if covers_read (rn_access r) \<and> \<not> matched_by_earlier_rule flat key p AccRead
                   \<and> protected_by_later_rule flat key p AccRead then
             and_then (mount_path_exists fs p) (\<lambda>present.
               if \<not> present then Inl (Missing_Reopen p)
               else Inr (st\<lparr>ps_reopened_read_only := ps_reopened_read_only st @ [p]\<rparr>))
           else Inr st)
      | _ \<Rightarrow>
          (let blocks_read = (covers_read (rn_access r) \<and> \<not> matched_by_earlier_rule flat key p AccRead);
               blocks_write = (covers_write (rn_access r) \<and> \<not> matched_by_earlier_rule flat key p AccWrite)
           in if \<not> blocks_read \<and> \<not> blocks_write then Inr st
              else and_then (mount_path_exists fs p) (\<lambda>present.
                if \<not> present then Inr (st\<lparr>ps_missing := ps_missing st @ [p]\<rparr>)
                else if blocks_read then Inr (st\<lparr>ps_unreadable := ps_unreadable st @ [p]\<rparr>)
                else Inr (st\<lparr>ps_read_only := ps_read_only st @ [p]\<rparr>))))"

definition normalize_exact :: "'a::linorder list \<Rightarrow> 'a list" where
  "normalize_exact xs = remdups_adj (sort xs)"

definition normalize_roots :: "path list \<Rightarrow> path list" where
  "normalize_roots ps =
     foldl (\<lambda>normalized p. if list_ex (\<lambda>root. path_within p root) normalized then normalized
                           else normalized @ [p]) [] (sort_key length ps)"

text \<open>The paths a rule is applied to.\<close>

definition rule_paths ::
  "(string \<Rightarrow> path list) \<Rightarrow> rule_snapshot \<Rightarrow> plan_error + path list" where
  "rule_paths expanded r =
     (case rn_matcher r of
        SLiteral p \<Rightarrow> and_then (validate_absolute p) (\<lambda>_. Inr [p])
      | SSubtree lexical canonical \<Rightarrow>
          and_then (validate_absolute lexical) (\<lambda>_.
          and_then (validate_absolute canonical) (\<lambda>_. Inr (normalize_exact [lexical, canonical])))
      | SGlob pattern \<Rightarrow> Inr (expanded pattern))"

definition glob_pattern :: "rule_snapshot \<Rightarrow> string option" where
  "glob_pattern r = (case rn_matcher r of SGlob pattern \<Rightarrow> Some pattern | _ \<Rightarrow> None)"

fun dedup_by :: "('a \<Rightarrow> 'b) \<Rightarrow> 'a list \<Rightarrow> 'a list" where
  "dedup_by f (x # y # xs) = (if f x = f y then dedup_by f (x # xs) else x # dedup_by f (y # xs))"
| "dedup_by f xs = xs"

definition max_bwrap_args :: usize where
  "max_bwrap_args = 9000"

definition max_mounts :: usize where
  "max_mounts = (max_bwrap_args - 32) div 4"

record linux_plan =
  lp_writable_roots :: "path list"
  lp_read_only :: "path list"
  lp_unreadable :: "path list"
  lp_reopened :: "path list"
  lp_reopened_read_only :: "path list"
  lp_omitted_missing :: "path list"
  lp_dynamic_globs :: "string list"
  lp_glob_snapshots :: "(string \<times> path list) list"
  lp_policy_digest :: string

definition apply_rules ::
  "mount_fs \<Rightarrow> flat_rule list \<Rightarrow> (string \<Rightarrow> path list) \<Rightarrow> flat_rule list \<Rightarrow> plan_state \<Rightarrow> plan_error + plan_state" where
  "apply_rules fs flat expanded =
     fold_res (\<lambda>f st. and_then (rule_paths expanded (flat_snapshot f)) (\<lambda>ps.
       fold_res (apply_rule fs flat f) ps st))"

definition finish_plan ::
  "plan_state \<Rightarrow> (string \<times> path list) list \<Rightarrow> string \<Rightarrow> linux_plan" where
  "finish_plan st globs digest =
     (let unreadable = normalize_exact (ps_unreadable st);
          missing = normalize_exact (ps_missing st)
      in \<lparr>lp_writable_roots = normalize_roots (ps_writable st),
          lp_read_only = filter (\<lambda>p. p \<notin> set unreadable \<and> p \<notin> set missing)
                           (normalize_exact (ps_read_only st)),
          lp_unreadable = filter (\<lambda>p. p \<notin> set missing) unreadable,
          lp_reopened = normalize_exact (ps_reopened st),
          lp_reopened_read_only = normalize_exact (ps_reopened_read_only st),
          lp_omitted_missing = missing,
          lp_dynamic_globs = normalize_exact (map fst globs),
          lp_glob_snapshots = dedup_by fst (sort_key fst globs),
          lp_policy_digest = digest\<rparr>)"

definition mount_count :: "linux_plan \<Rightarrow> nat" where
  "mount_count p =
     length (lp_writable_roots p) + length (lp_read_only p) + length (lp_unreadable p)
     + length (lp_reopened p) + length (lp_reopened_read_only p)"

definition compile_with_cancel ::
  "(rule_set_snapshot \<Rightarrow> string + string) \<Rightarrow> mount_fs
   \<Rightarrow> (string list \<Rightarrow> string + (string \<Rightarrow> path list)) \<Rightarrow> rule_set_snapshot \<Rightarrow> plan_error + linux_plan" where
  "compile_with_cancel digest_of fs scan sn =
     (case sn_errors sn of
        err # _ \<Rightarrow> Inl (Rule_Layer_Unavailable err)
      | [] \<Rightarrow>
          and_then (validate_absolute (sn_workspace sn)) (\<lambda>_.
          and_then (fold_res (\<lambda>root _. validate_absolute root) (sn_temp_roots sn) ()) (\<lambda>_.
          (let flat = flatten_rules sn;
               patterns = List.map_filter (\<lambda>f. glob_pattern (flat_snapshot f)) flat
           in and_then (expand_globs scan patterns) (\<lambda>expanded.
              and_then (apply_rules fs flat expanded flat
                          \<lparr>ps_writable = sn_workspace sn # sn_temp_roots sn, ps_read_only = [],
                           ps_unreadable = [], ps_reopened = [], ps_reopened_read_only = [],
                           ps_missing = []\<rparr>) (\<lambda>st.
              (let plan = finish_plan st (map (\<lambda>pattern. (pattern, expanded pattern)) patterns)
               in if mount_count (plan '''') > max_mounts then Inl Mount_Limit
                  else (case digest_of sn of
                          Inl err \<Rightarrow> Inl (Policy_Serialization err)
                        | Inr digest \<Rightarrow> Inr (plan digest)))))))))"

definition compile_plan ::
  "(rule_set_snapshot \<Rightarrow> string + string) \<Rightarrow> mount_fs
   \<Rightarrow> (string list \<Rightarrow> string + (string \<Rightarrow> path list)) \<Rightarrow> bool \<Rightarrow> rule_set_snapshot
   \<Rightarrow> plan_error + linux_plan" where
  "compile_plan digest_of fs scan read_protection sn =
     (if read_protection then compile_with_cancel digest_of fs scan sn
      else compile_with_cancel digest_of fs scan
             (sn\<lparr>sn_layers := map (\<lambda>(layer, rules).
                  (layer, map (\<lambda>r. r\<lparr>rn_access := AccWrite\<rparr>) (filter (\<lambda>r. rn_access r \<noteq> AccRead) rules)))
                (sn_layers sn)\<rparr>))"

section \<open>Mounts\<close>

datatype mount_kind = Writable | Read_Only | Unreadable | Missing_Protected

record mount_request =
  mr_target :: path
  mr_kind :: mount_kind

definition mounts_of :: "mount_kind \<Rightarrow> path list \<Rightarrow> mount_request list" where
  "mounts_of k ps = map (\<lambda>p. \<lparr>mr_target = p, mr_kind = k\<rparr>) ps"

definition base_mounts :: "linux_plan \<Rightarrow> mount_request list" where
  "base_mounts p =
     mounts_of Writable (lp_writable_roots p) @ mounts_of Read_Only (lp_read_only p)
     @ mounts_of Unreadable (lp_unreadable p) @ mounts_of Read_Only (lp_reopened_read_only p)
     @ mounts_of Writable (lp_reopened p)"

definition plan_mounts :: "linux_plan \<Rightarrow> mount_request list" where
  "plan_mounts p = sort_key (\<lambda>m. length (mr_target m)) (base_mounts p)"

end
