(* ===== verification/Sandbox_Enforcement.thy ===== *)
theory Sandbox_Enforcement
  imports Sandbox_Plan
begin

text \<open>
  The mount plan of \<open>Sandbox_Plan\<close> enforces the rules: a path the mounts leave writable or readable to
  a shell command is one the rules allow without asking. The conditions of the two theorems are the
  limits of the mechanism, and the last section shows what happens beyond them.
\<close>

section \<open>The verdict of a snapshot\<close>

definition snapshot_rules :: "rule_set_snapshot \<Rightarrow> rule_snapshot list" where
  "snapshot_rules sn = concat (map snd (sn_layers sn))"

definition op_access :: "access_op \<Rightarrow> access" where
  "op_access op = (case op of OpRead \<Rightarrow> AccRead | OpWrite \<Rightarrow> AccWrite)"

lemma plan_rule_matches_op:
  "plan_rule_matches r p (op_access op) \<longleftrightarrow> covers (rn_access r) op \<and> snapshot_hits r p"
  by (cases op) (simp_all add: plan_rule_matches_def access_overlap_def op_access_def covers_sides)

lemmas plan_rule_matches_sides =
  plan_rule_matches_op [of _ _ OpRead, unfolded op_access_def access_op.case]
  plan_rule_matches_op [of _ _ OpWrite, unfolded op_access_def access_op.case]

definition snapshot_verdict :: "rule_set_snapshot \<Rightarrow> path \<Rightarrow> access_op \<Rightarrow> decision" where
  "snapshot_verdict sn p op =
     (case find (\<lambda>r. plan_rule_matches r p (op_access op)) (snapshot_rules sn) of
        Some r \<Rightarrow> rn_decision r
      | None \<Rightarrow>
          if op = OpRead \<or> path_within p (sn_workspace sn) \<or> list_ex (path_within p) (sn_temp_roots sn)
          then Allow else Ask)"

text \<open>A rule as \<open>path_rule_new\<close> and \<open>grant_rule\<close> build it.\<close>

definition compiled_rule :: "path_rule \<Rightarrow> bool" where
  "compiled_rule r \<longleftrightarrow>
     (case pr_matcher r of
        Glob pattern regex \<Rightarrow> regex = build_glob_regex pattern \<and> valid_text pattern
      | _ \<Rightarrow> True)"

lemma compiled_rule_matches:
  assumes "regex_laws (re_is_match e)" "compiled_rule r"
  shows "rule_matches e r p op \<longleftrightarrow> plan_rule_matches (rule_snapshot_of r) p (op_access op)"
  using assms glob_matchers_agree(1) [OF assms(1)]
  by (cases "pr_matcher r")
    (auto simp: rule_matches_def matcher_matches_def plan_rule_matches_op rule_snapshot_of_def
      snapshot_hits_def compiled_rule_def)

lemma snapshot_rules_of:
  "snapshot_rules (rules_snapshot cells rs) = map rule_snapshot_of (concat (profile_layers cells rs))"
  by (simp add: snapshot_rules_def rules_snapshot_def profile_layers_def)

lemma find_map: "find P (map f xs) = map_option f (find (P \<circ> f) xs)"
  by (induction xs) auto

lemma find_cong_set: "(\<And>x. x \<in> set xs \<Longrightarrow> P x = Q x) \<Longrightarrow> find P xs = find Q xs"
  by (induction xs) auto

lemma snapshot_verdict_evaluate:
  assumes "regex_laws (re_is_match e)" "\<forall>r \<in> set (concat (profile_layers cells rs)). compiled_rule r"
  shows "snapshot_verdict (rules_snapshot cells rs) p op = evaluate e cells rs p op"
proof -
  have "find (\<lambda>r. plan_rule_matches r p (op_access op)) (snapshot_rules (rules_snapshot cells rs))
      = map_option rule_snapshot_of (find (\<lambda>r. rule_matches e r p op) (concat (profile_layers cells rs)))"
    unfolding snapshot_rules_of find_map comp_def
    by (intro arg_cong [OF find_cong_set] compiled_rule_matches [OF assms(1), symmetric])
      (use assms(2) in blast)
  moreover have "rn_decision (rule_snapshot_of r) = pr_decision r" for r
    by (simp add: rule_snapshot_of_def)
  ultimately show ?thesis
    by (simp add: snapshot_verdict_def evaluate_def profile_layers_def fallback_def rules_snapshot_def
        split: option.split access_op.split)
qed

section \<open>Flat rules\<close>

definition deep_flat :: "flat_rule \<Rightarrow> bool" where
  "deep_flat f \<longleftrightarrow> (\<exists>lexical canonical. rn_matcher (flat_snapshot f) = SSubtree lexical canonical)"

abbreviation flat_hits :: "flat_rule \<Rightarrow> path \<Rightarrow> access_op \<Rightarrow> bool" where
  "flat_hits f p op \<equiv> plan_rule_matches (flat_snapshot f) p (op_access op)"

interpretation flat: path_rules flat_hits "\<lambda>f. rn_decision (flat_snapshot f)" deep_flat
  by unfold_locales (auto simp: deep_flat_def plan_rule_matches_op snapshot_hits_def
      intro: path_within_trans)

lemma flatten_snapshots: "map flat_snapshot (flatten_rules sn) = snapshot_rules sn"
proof -
  have layer: "map flat_snapshot (map (\<lambda>(i, r). (n, i, l, r)) (List.enumerate k rs)) = rs" for n l k rs
    by (induction rs arbitrary: k) (auto simp: flat_snapshot_def)
  have "map flat_snapshot (concat (map (\<lambda>(n, l, rs). map (\<lambda>(i, r). (n, i, l, r)) (List.enumerate 0 rs))
          (List.enumerate k ls))) = concat (map snd ls)" for k ls
    by (induction ls arbitrary: k) (auto simp: layer simp del: map_map)
  then show ?thesis by (simp add: flatten_rules_def snapshot_rules_def)
qed

lemma flatten_sorted: "sorted_wrt (\<lambda>f g. key_less (flat_key f) (flat_key g)) (flatten_rules sn)"
proof -
  have layer: "sorted_wrt (\<lambda>f g. key_less (flat_key f) (flat_key g))
      (map (\<lambda>(i, r). (n, i, l, r)) (List.enumerate k rs))" for n k rs and l :: rule_layer
    by (induction rs arbitrary: k) (auto simp: key_less_def flat_key_def in_set_enumerate_eq)
  have "sorted_wrt (\<lambda>f g. key_less (flat_key f) (flat_key g))
      (concat (map (\<lambda>(n, l, rs). map (\<lambda>(i, r). (n, i, l, r)) (List.enumerate 0 rs)) (List.enumerate k ls)))"
    for k and ls :: "(rule_layer \<times> rule_snapshot list) list"
  proof (induction ls arbitrary: k)
    case (Cons x ls)
    obtain l rs where "x = (l, rs)" by (cases x)
    moreover have "key_less (flat_key f) (flat_key g)"
      if "f \<in> set (map (\<lambda>(i, r). (k, i, l, r)) (List.enumerate 0 rs))"
        "g \<in> set (concat (map (\<lambda>(n, l, rs). map (\<lambda>(i, r). (n, i, l, r)) (List.enumerate 0 rs))
                         (List.enumerate (Suc k) ls)))" for f g
      using that by (auto simp: key_less_def flat_key_def in_set_enumerate_eq)
    ultimately show ?case
      using Cons [of "Suc k"] layer [of k l 0 rs] by (simp add: sorted_wrt_append)
  qed simp
  then show ?thesis by (simp add: flatten_rules_def)
qed

lemma earlier_split:
  assumes "flatten_rules sn = xs @ f # ys"
  shows "matched_by_earlier_rule (flatten_rules sn) (flat_key f) p a
           \<longleftrightarrow> (\<exists>g \<in> set xs. plan_rule_matches (flat_snapshot g) p a)"
proof -
  have sorted: "sorted_wrt (\<lambda>f g. key_less (flat_key f) (flat_key g)) (xs @ f # ys)"
    using flatten_sorted [of sn] by (simp add: assms)
  have before: "key_less (flat_key g) (flat_key f)" if "g \<in> set xs" for g
    using sorted that by (simp add: sorted_wrt_append)
  have after: "\<not> key_less (flat_key g) (flat_key f)" if "g \<in> set (f # ys)" for g
  proof -
    have "g = f \<or> key_less (flat_key f) (flat_key g)"
      using sorted that by (auto simp: sorted_wrt_append)
    then show ?thesis by (auto simp: key_less_def)
  qed
  have "g \<in> set (xs @ f # ys) \<and> key_less (flat_key g) (flat_key f) \<longleftrightarrow> g \<in> set xs" for g
    using before [of g] after [of g] by (metis Un_iff set_append)
  then show ?thesis
    unfolding matched_by_earlier_rule_def assms list_ex_iff by blast
qed

lemma flat_find:
  assumes "find (\<lambda>f. flat_hits f p op) (flatten_rules sn) = found"
  shows "snapshot_verdict sn p op
           = (case found of
                Some f \<Rightarrow> rn_decision (flat_snapshot f)
              | None \<Rightarrow>
                  if op = OpRead \<or> path_within p (sn_workspace sn) \<or> list_ex (path_within p) (sn_temp_roots sn)
                  then Allow else Ask)"
proof -
  have "find (\<lambda>r. plan_rule_matches r p (op_access op)) (snapshot_rules sn) = map_option flat_snapshot found"
    using assms by (simp add: flatten_snapshots [symmetric] find_map comp_def)
  then show ?thesis by (simp add: snapshot_verdict_def split: option.split)
qed

section \<open>Where the paths of a plan come from\<close>

abbreviation first_for :: "flat_rule list \<Rightarrow> flat_rule \<Rightarrow> path \<Rightarrow> access_op \<Rightarrow> bool" where
  "first_for flat f p op \<equiv> \<not> matched_by_earlier_rule flat (flat_key f) p (op_access op)"

text \<open>The reason for a path that is opened: an allow rule that is applied to it, covers the operation
  and has no earlier rule there; a path opened for writing is not blocked for reading.\<close>

definition opened_by ::
  "flat_rule list \<Rightarrow> (string \<Rightarrow> path list) \<Rightarrow> path \<Rightarrow> access_op \<Rightarrow> bool" where
  "opened_by flat expanded p op \<longleftrightarrow>
     (\<exists>f \<in> set flat. \<exists>ps. rule_paths expanded (flat_snapshot f) = Inr ps \<and> p \<in> set ps
        \<and> rn_decision (flat_snapshot f) = Allow \<and> covers (rn_access (flat_snapshot f)) op
        \<and> first_for flat f p op
        \<and> (op = OpWrite \<longrightarrow> \<not> effective_blocked flat p AccRead))"

definition plan_provenance ::
  "flat_rule list \<Rightarrow> (string \<Rightarrow> path list) \<Rightarrow> path list \<Rightarrow> plan_state \<Rightarrow> bool" where
  "plan_provenance flat expanded roots st \<longleftrightarrow>
     (\<forall>p \<in> set (ps_writable st). p \<in> set roots \<or> opened_by flat expanded p OpWrite)
     \<and> (\<forall>p \<in> set (ps_reopened st). opened_by flat expanded p OpWrite)
     \<and> (\<forall>p \<in> set (ps_reopened_read_only st). opened_by flat expanded p OpRead)"

definition plan_grows :: "plan_state \<Rightarrow> plan_state \<Rightarrow> bool" where
  "plan_grows st st' \<longleftrightarrow>
     set (ps_read_only st) \<subseteq> set (ps_read_only st') \<and> set (ps_unreadable st) \<subseteq> set (ps_unreadable st')
     \<and> set (ps_missing st) \<subseteq> set (ps_missing st')"

lemma plan_grows_refl [simp, intro]: "plan_grows st st"
  by (simp add: plan_grows_def)

lemma plan_grows_trans [trans]: "plan_grows a b \<Longrightarrow> plan_grows b c \<Longrightarrow> plan_grows a c"
  unfolding plan_grows_def by (elim conjE) (intro conjI; rule subset_trans; assumption)

lemma apply_rule_provenance:
  assumes "apply_rule fs flat f p st = Inr st'" "plan_provenance flat expanded roots st"
    and "f \<in> set flat" "rule_paths expanded (flat_snapshot f) = Inr ps" "p \<in> set ps"
  shows "plan_provenance flat expanded roots st'"
proof -
  have opened: "opened_by flat expanded p op"
    if "rn_decision (flat_snapshot f) = Allow" "covers (rn_access (flat_snapshot f)) op"
      "first_for flat f p op" "op = OpWrite \<longrightarrow> \<not> effective_blocked flat p AccRead" for op
    using that assms(3-5) unfolding opened_by_def by blast
  note opened_write = opened [of OpWrite, unfolded op_access_def access_op.case covers_sides]
  note opened_read = opened [of OpRead, unfolded op_access_def access_op.case covers_sides]
  show ?thesis
  proof (cases "rn_decision (flat_snapshot f)")
    case Allow
    then show ?thesis
      using assms(1,2) opened_write opened_read
      by (auto simp: apply_rule_def Let_def plan_provenance_def and_then_Inr split: if_splits)
  qed (use assms(1,2) in \<open>auto simp: apply_rule_def Let_def plan_provenance_def and_then_Inr split: if_splits\<close>)
qed

lemma apply_rule_grows: "apply_rule fs flat f p st = Inr st' \<Longrightarrow> plan_grows st st'"
  by (auto simp: apply_rule_def Let_def plan_grows_def and_then_Inr split: decision.splits if_splits)

text \<open>A rule that blocks leaves its path protected, or missing.\<close>

definition blocked_in :: "plan_state \<Rightarrow> path \<Rightarrow> access_op \<Rightarrow> bool" where
  "blocked_in st p op \<longleftrightarrow>
     p \<in> set (ps_missing st) \<or> p \<in> set (ps_unreadable st) \<or> op = OpWrite \<and> p \<in> set (ps_read_only st)"

lemma blocked_grows: "plan_grows st st' \<Longrightarrow> blocked_in st p op \<Longrightarrow> blocked_in st' p op"
  by (auto simp: plan_grows_def blocked_in_def)

lemma apply_rule_blocks:
  assumes "apply_rule fs flat f p st = Inr st'" "rn_decision (flat_snapshot f) \<noteq> Allow"
    and "covers (rn_access (flat_snapshot f)) op" "first_for flat f p op"
  shows "blocked_in st' p op"
  using assms
  by (cases op; cases "rn_decision (flat_snapshot f)")
    (auto simp: apply_rule_def Let_def blocked_in_def op_access_def covers_sides and_then_Inr
      split: if_splits)

lemma fold_res_grows:
  assumes "fold_res f xs s = Inr s'" "\<And>x s s'. f x s = Inr s' \<Longrightarrow> plan_grows s s'"
  shows "plan_grows s s'"
  by (rule fold_res_invariant [OF assms(1), where Q = "plan_grows s"])
    (use assms(2) plan_grows_trans in blast)+

lemma fold_res_step:
  assumes "fold_res f xs s = Inr s'" "x \<in> set xs" "\<And>x s s'. f x s = Inr s' \<Longrightarrow> plan_grows s s'"
  obtains t t' where "f x t = Inr t'" "plan_grows t' s'"
proof -
  obtain us vs where xs: "xs = us @ x # vs" using split_list [OF assms(2)] by blast
  obtain t where "fold_res f us s = Inr t" "fold_res f (x # vs) t = Inr s'"
    using assms(1) unfolding xs fold_res_append and_then_Inr by blast
  then obtain t' where "f x t = Inr t'" "fold_res f vs t' = Inr s'" by (auto simp: and_then_Inr)
  moreover have "plan_grows t' s'"
    using \<open>fold_res f vs t' = Inr s'\<close> assms(3) by (rule fold_res_grows)
  ultimately show ?thesis using that by blast
qed

lemma rule_step_grows:
  "and_then (rule_paths expanded (flat_snapshot f)) (\<lambda>ps. fold_res (apply_rule fs flat f) ps st) = Inr st'
     \<Longrightarrow> plan_grows st st'"
  using fold_res_grows [OF _ apply_rule_grows] by (auto simp: and_then_Inr)

lemma apply_rules_blocks:
  assumes "apply_rules fs flat expanded fs' st = Inr st'" "f \<in> set fs'"
    and "rn_decision (flat_snapshot f) \<noteq> Allow" "covers (rn_access (flat_snapshot f)) op"
    and "first_for flat f p op"
  shows "\<exists>ps. rule_paths expanded (flat_snapshot f) = Inr ps \<and> (p \<in> set ps \<longrightarrow> blocked_in st' p op)"
proof -
  from assms(1,2) obtain t t' where step:
    "and_then (rule_paths expanded (flat_snapshot f)) (\<lambda>ps. fold_res (apply_rule fs flat f) ps t) = Inr t'"
    "plan_grows t' st'"
    unfolding apply_rules_def using rule_step_grows by (rule fold_res_step)
  then obtain ps where ps: "rule_paths expanded (flat_snapshot f) = Inr ps"
      "fold_res (apply_rule fs flat f) ps t = Inr t'" by (auto simp: and_then_Inr)
  have "blocked_in st' p op" if member: "p \<in> set ps"
  proof -
    obtain u u' where "apply_rule fs flat f p u = Inr u'" "plan_grows u' t'"
      by (rule fold_res_step [OF ps(2) member apply_rule_grows])
    then show ?thesis
      using apply_rule_blocks [OF _ assms(3-5)] step(2) blocked_grows plan_grows_trans by blast
  qed
  then show ?thesis using ps(1) by blast
qed

lemma apply_rules_provenance:
  assumes "apply_rules fs flat expanded fs' st = Inr st'" "plan_provenance flat expanded roots st"
    and "set fs' \<subseteq> set flat"
  shows "plan_provenance flat expanded roots st'"
proof (rule fold_res_invariant [OF assms(1) [unfolded apply_rules_def], where Q = "plan_provenance flat expanded roots"])
  show "plan_provenance flat expanded roots st" by (rule assms(2))
next
  fix f s s'
  assume f: "f \<in> set fs'" and s: "plan_provenance flat expanded roots s"
    and step: "and_then (rule_paths expanded (flat_snapshot f)) (\<lambda>ps. fold_res (apply_rule fs flat f) ps s) = Inr s'"
  obtain ps where ps: "rule_paths expanded (flat_snapshot f) = Inr ps"
      "fold_res (apply_rule fs flat f) ps s = Inr s'" using step by (auto simp: and_then_Inr)
  show "plan_provenance flat expanded roots s'"
    by (rule fold_res_invariant [OF ps(2), where Q = "plan_provenance flat expanded roots"])
      (use s f assms(3) ps(1) apply_rule_provenance in blast)+
qed

section \<open>Reading a compiled plan\<close>

abbreviation sn_patterns :: "rule_set_snapshot \<Rightarrow> string list" where
  "sn_patterns sn \<equiv> List.map_filter (\<lambda>f. glob_pattern (flat_snapshot f)) (flatten_rules sn)"

abbreviation sn_roots :: "rule_set_snapshot \<Rightarrow> path list" where
  "sn_roots sn \<equiv> sn_workspace sn # sn_temp_roots sn"

lemma compiledE:
  assumes "compile_with_cancel digest_of fs scan sn = Inr plan"
  obtains expanded st digest where "scan (sn_patterns sn) = Inr expanded"
    "apply_rules fs (flatten_rules sn) expanded (flatten_rules sn)
       \<lparr>ps_writable = sn_roots sn, ps_read_only = [], ps_unreadable = [], ps_reopened = [],
        ps_reopened_read_only = [], ps_missing = []\<rparr> = Inr st"
    "plan = finish_plan st (map (\<lambda>pattern. (pattern, expanded pattern)) (sn_patterns sn)) digest"
    "sn_errors sn = []" "mount_count plan \<le> max_mounts"
proof -
  have no_error: "sn_errors sn = []"
    using assms by (auto simp: compile_with_cancel_def split: list.splits)
  define globs where "globs = (\<lambda>expanded :: string \<Rightarrow> path list. map (\<lambda>pattern. (pattern, expanded pattern)) (sn_patterns sn))"
  obtain expanded st where
    expands: "expand_globs scan (sn_patterns sn) = Inr expanded" and
    applies: "apply_rules fs (flatten_rules sn) expanded (flatten_rules sn)
       \<lparr>ps_writable = sn_roots sn, ps_read_only = [], ps_unreadable = [], ps_reopened = [],
        ps_reopened_read_only = [], ps_missing = []\<rparr> = Inr st" and
    rest: "(if mount_count (finish_plan st (globs expanded) '''') > max_mounts then Inl Mount_Limit
            else (case digest_of sn of
                    Inl err \<Rightarrow> Inl (Policy_Serialization err)
                  | Inr digest \<Rightarrow> Inr (finish_plan st (globs expanded) digest))) = Inr plan"
    using assms unfolding compile_with_cancel_def Let_def no_error globs_def
    by (simp only: list.case and_then_Inr) blast
  obtain digest where plan: "plan = finish_plan st (globs expanded) digest"
    and small: "mount_count (finish_plan st (globs expanded) '''') \<le> max_mounts"
    using rest by (auto simp: not_less split: if_splits sum.splits)
  have "mount_count plan \<le> max_mounts"
    using small by (simp add: plan mount_count_def finish_plan_def Let_def)
  moreover have "scan (sn_patterns sn) = Inr expanded"
    using expands by (auto simp: expand_globs_def and_then_Inr split: sum.splits)
  ultimately show ?thesis
    using that applies plan no_error by (simp add: globs_def)
qed

lemma mem_normalize_exact [simp]: "set (normalize_exact xs) = set xs"
  by (simp add: normalize_exact_def)

lemma normalize_roots_subset: "set (normalize_roots ps) \<subseteq> set ps"
proof -
  have "set (foldl (\<lambda>normalized p. if list_ex (\<lambda>root. path_within p root) normalized then normalized
          else normalized @ [p]) acc qs) \<subseteq> set acc \<union> set qs" for acc qs
  proof (induction qs arbitrary: acc)
    case (Cons q qs)
    show ?case
      using Cons.IH [of acc] Cons.IH [of "acc @ [q]"] by (cases "list_ex (\<lambda>root. path_within q root) acc") auto
  qed simp
  from this [of "[]" "sort_key length ps"] show ?thesis by (simp add: normalize_roots_def)
qed

section \<open>The view of a command\<close>

text \<open>Bubblewrap starts from a read-only root and mounts in order: the last mount on a path decides how
  everything below it appears, until a deeper one. Nobody enters a directory masked as unreadable.\<close>

definition last_mount :: "mount_request list \<Rightarrow> path \<Rightarrow> mount_request option" where
  "last_mount mounts p =
     (let ms = filter (\<lambda>m. path_within p (mr_target m)) mounts in
      if ms = [] then None else Some (last ms))"

definition shell_writable :: "mount_request list \<Rightarrow> path \<Rightarrow> bool" where
  "shell_writable mounts p \<longleftrightarrow>
     (case last_mount mounts p of None \<Rightarrow> False | Some m \<Rightarrow> mr_kind m = Writable)"

definition masked :: "mount_request list \<Rightarrow> path \<Rightarrow> bool" where
  "masked mounts q \<longleftrightarrow>
     (let ms = filter (\<lambda>m. mr_target m = q) mounts in ms \<noteq> [] \<and> mr_kind (last ms) = Unreadable)"

definition shell_readable :: "mount_request list \<Rightarrow> path \<Rightarrow> bool" where
  "shell_readable mounts p \<longleftrightarrow> \<not> list_ex (masked mounts) (prefixes p)"

lemma last_filter: "xs \<noteq> [] \<Longrightarrow> P (last xs) \<Longrightarrow> last (filter P xs) = last xs"
  by (induction xs rule: rev_induct) auto

lemma last_sort_key:
  assumes "xs \<noteq> []"
  shows "last (sort_key f xs) = last (filter (\<lambda>x. f x = f (last (sort_key f xs))) xs)"
    and "x \<in> set xs \<Longrightarrow> f x \<le> f (last (sort_key f xs))"
proof -
  let ?ys = "sort_key f xs"
  have ne: "?ys \<noteq> []" using assms by (metis set_empty set_sort)
  have "last ?ys = last (filter (\<lambda>x. f x = f (last ?ys)) ?ys)"
    using last_filter [OF ne, of "\<lambda>x. f x = f (last ?ys)"] by simp
  then show "last ?ys = last (filter (\<lambda>x. f x = f (last ?ys)) xs)"
    by (simp only: sort_key_stable)
  show "x \<in> set xs \<Longrightarrow> f x \<le> f (last ?ys)"
  proof -
    assume "x \<in> set xs"
    then obtain i where i: "i < length ?ys" "?ys ! i = x" by (metis in_set_conv_nth set_sort)
    have "map f ?ys ! i \<le> map f ?ys ! (length ?ys - 1)"
      using i sorted_sort_key [of f xs] by (intro sorted_nth_mono) auto
    then show "f x \<le> f (last ?ys)" using i ne by (simp add: last_conv_nth)
  qed
qed

lemma top_mount:
  assumes "last_mount (plan_mounts plan) p = Some m"
  shows "path_within p (mr_target m)"
    and "m = last (filter (\<lambda>n. mr_target n = mr_target m) (base_mounts plan))" "m \<in> set (base_mounts plan)"
    and "n \<in> set (base_mounts plan) \<Longrightarrow> path_within p (mr_target n) \<Longrightarrow> path_within (mr_target m) (mr_target n)"
proof -
  let ?cover = "\<lambda>n. path_within p (mr_target n)" and ?len = "\<lambda>n. length (mr_target n)"
  define ms where "ms = filter ?cover (base_mounts plan)"
  have sorted: "filter ?cover (plan_mounts plan) = sort_key ?len ms"
    unfolding plan_mounts_def ms_def by (rule filter_sort)
  have ne: "ms \<noteq> []" and m: "m = last (sort_key ?len ms)"
    using assms sorted by (auto simp: last_mount_def Let_def split: if_splits)
  have mem: "m \<in> set ms" using ne m by (metis last_in_set set_empty set_sort)
  then show within: "path_within p (mr_target m)" and "m \<in> set (base_mounts plan)"
    by (auto simp: ms_def)
  have deepest: "path_within (mr_target m) (mr_target n)" if n: "n \<in> set ms" for n
  proof -
    have "?len n \<le> ?len m" using last_sort_key(2) [OF ne n, of ?len] m by simp
    moreover have "path_within p (mr_target n)" using n by (simp only: ms_def set_filter mem_Collect_eq)
    ultimately show ?thesis using within path_within_chain_length by blast
  qed
  then show "n \<in> set (base_mounts plan) \<Longrightarrow> path_within p (mr_target n) \<Longrightarrow> path_within (mr_target m) (mr_target n)"
    by (simp add: ms_def)
  have "mr_target n = mr_target m" if "n \<in> set ms" "?len n = ?len m" for n
    using deepest [OF that(1)] that(2) by (auto simp: path_within_prefix prefix_def)
  then have "filter (\<lambda>n. ?len n = ?len m) ms = filter (\<lambda>n. mr_target n = mr_target m) ms"
    by (auto intro!: filter_cong)
  moreover have "filter (\<lambda>n. mr_target n = mr_target m) ms = filter (\<lambda>n. mr_target n = mr_target m) (base_mounts plan)"
    using within by (auto simp: ms_def intro!: filter_cong)
  ultimately show "m = last (filter (\<lambda>n. mr_target n = mr_target m) (base_mounts plan))"
    using last_sort_key(1) [OF ne, of ?len] m by simp
qed

lemma mounts_at: "filter (\<lambda>n. mr_target n = t) (plan_mounts plan) = filter (\<lambda>n. mr_target n = t) (base_mounts plan)"
proof -
  have narrow: "filter (\<lambda>n. mr_target n = t) ms = filter (\<lambda>n. mr_target n = t) (filter (\<lambda>n. length (mr_target n) = length t) ms)"
    for ms by (auto intro!: filter_cong)
  show ?thesis
    unfolding plan_mounts_def by (subst (1 2) narrow) (simp only: sort_key_stable)
qed

lemma mounts_of_at:
  "filter (\<lambda>n. mr_target n = t) (mounts_of k ps) = mounts_of k (filter (\<lambda>p. p = t) ps)"
  by (simp add: mounts_of_def filter_map comp_def)

lemma last_mounts_of: "ps \<noteq> [] \<Longrightarrow> mr_kind (last (xs @ mounts_of k ps)) = k"
  by (simp add: mounts_of_def last_map)

lemma last_mounts_only: "ps \<noteq> [] \<Longrightarrow> mr_kind (last (mounts_of k ps)) = k"
  using last_mounts_of [of ps "[]" k] by simp

lemma mounts_of_Nil [simp]: "mounts_of k ps = [] \<longleftrightarrow> ps = []"
  by (simp add: mounts_of_def)

text \<open>At one target the mounts come in a fixed order of kinds.\<close>

lemma kind_at:
  assumes "filter (\<lambda>n. mr_target n = t) (base_mounts plan) \<noteq> []"
  shows "mr_kind (last (filter (\<lambda>n. mr_target n = t) (base_mounts plan)))
    = (if t \<in> set (lp_reopened plan) then Writable
       else if t \<in> set (lp_reopened_read_only plan) then Read_Only
       else if t \<in> set (lp_unreadable plan) then Unreadable
       else if t \<in> set (lp_read_only plan) then Read_Only else Writable)"
proof -
  have none: "filter (\<lambda>p. p = t) ps = [] \<longleftrightarrow> t \<notin> set ps" for ps by (auto simp: filter_empty_conv)
  show ?thesis
    using assms by (auto simp: base_mounts_def mounts_of_at none last_append last_mounts_only)
qed

section \<open>Enforcement\<close>

text \<open>The limits of the mechanism at a path: what is allowed by name reaches no further than the path
  itself, globs only restrict, and every ancestor of the path that a restricting glob matches was
  there when the globs were expanded.\<close>

definition exact_allow :: "path \<Rightarrow> rule_snapshot \<Rightarrow> bool" where
  "exact_allow p r \<longleftrightarrow>
     rn_decision r = Allow \<longrightarrow>
       (case rn_matcher r of
          SGlob pattern \<Rightarrow> False
        | SLiteral target \<Rightarrow> path_within p target \<longrightarrow> p = target
        | SSubtree lexical canonical \<Rightarrow> True)"

definition scan_sees :: "(string list \<Rightarrow> string + (string \<Rightarrow> path list)) \<Rightarrow> path \<Rightarrow> bool" where
  "scan_sees scan p \<longleftrightarrow>
     (\<forall>patterns found. scan patterns = Inr found \<longrightarrow>
        (\<forall>pattern \<in> set patterns. \<forall>q \<in> set (prefixes p). glob_matches pattern q \<longrightarrow> q \<in> set (found pattern)))"

lemma pattern_scanned:
  "f \<in> set (flatten_rules sn) \<Longrightarrow> rn_matcher (flat_snapshot f) = SGlob pattern
     \<Longrightarrow> pattern \<in> set (sn_patterns sn)"
  by (force simp: map_filter_def glob_pattern_def)

text \<open>The path at which the rule that blocks \<open>p\<close> is enforced.\<close>

lemma blocked_at:
  assumes compiled: "scan (sn_patterns sn) = Inr expanded"
    "apply_rules fs (flatten_rules sn) expanded (flatten_rules sn) st0 = Inr st"
    and exact: "\<forall>r \<in> set (snapshot_rules sn). exact_allow p r" and sees: "scan_sees scan p"
    and first: "find (\<lambda>f. flat_hits f p op) (flatten_rules sn) = Some f"
    and blocks: "rn_decision (flat_snapshot f) \<noteq> Allow"
  obtains P f0 where "path_within p P" "flat_hits f P op" "deep_flat f \<or> P = p"
    "find (\<lambda>f. flat_hits f P op) (flatten_rules sn) = Some f0" "rn_decision (flat_snapshot f0) \<noteq> Allow"
    "blocked_in st P op"
proof -
  have seen: "q \<in> set (expanded pattern)"
    if "g \<in> set (flatten_rules sn)" "rn_matcher (flat_snapshot g) = SGlob pattern"
      "glob_matches pattern q" "path_within p q" for g pattern q
    using that sees compiled(1) pattern_scanned [OF that(1,2)]
    by (auto simp: scan_sees_def path_within_prefix)
  have f: "f \<in> set (flatten_rules sn)" "flat_hits f p op" using find_SomeD [OF first] by auto
  obtain P where P: "path_within p P" "flat_hits f P op" "deep_flat f \<or> P = p"
    "\<And>ps. rule_paths expanded (flat_snapshot f) = Inr ps \<Longrightarrow> P \<in> set ps"
  proof (cases "rn_matcher (flat_snapshot f)")
    case (SSubtree l c)
    have "path_within p l \<or> path_within p c"
      using f(2) SSubtree by (simp add: plan_rule_matches_op snapshot_hits_def)
    then obtain P where "P \<in> {l, c}" "path_within p P" by blast
    then show ?thesis
      using f(2) SSubtree
      by (intro that [of P])
        (auto simp: plan_rule_matches_op snapshot_hits_def deep_flat_def rule_paths_def and_then_Inr)
  next
    case (SLiteral t)
    then show ?thesis
      using f(2) by (intro that [of p]) (auto simp: plan_rule_matches_op snapshot_hits_def rule_paths_def and_then_Inr)
  next
    case (SGlob pattern)
    then show ?thesis
      using f seen [OF f(1) SGlob]
      by (intro that [of p]) (auto simp: plan_rule_matches_op snapshot_hits_def rule_paths_def)
  qed
  obtain f0 where f0: "find (\<lambda>f. flat_hits f P op) (flatten_rules sn) = Some f0" "f0 = f \<or> \<not> deep_flat f0"
    using flat.first_above [OF first P(1,2)] by blast
  have mem: "f0 \<in> set (flatten_rules sn)" "flat_hits f0 P op" using find_SomeD [OF f0(1)] by auto
  have snap: "exact_allow p (flat_snapshot f0)"
    using mem(1) exact by (auto simp: flatten_snapshots [symmetric])
  have deny: "rn_decision (flat_snapshot f0) \<noteq> Allow"
  proof
    assume allow: "rn_decision (flat_snapshot f0) = Allow"
    then have "f0 \<noteq> f" "\<not> deep_flat f0" using f0(2) blocks by auto
    then obtain t where t: "rn_matcher (flat_snapshot f0) = SLiteral t"
      using snap allow by (auto simp: exact_allow_def deep_flat_def split: matcher_snapshot.splits)
    then have "P = t" "p = t"
      using mem(2) snap allow P(1) by (auto simp: exact_allow_def plan_rule_matches_op snapshot_hits_def)
    then show False using f0(1) first \<open>f0 \<noteq> f\<close> by simp
  qed
  have here: "P \<in> set ps" if "rule_paths expanded (flat_snapshot f0) = Inr ps" for ps
  proof (cases "f0 = f")
    case False
    then have "\<not> deep_flat f0" using f0(2) by simp
    then show ?thesis
      using that mem seen [OF mem(1) _ _ P(1)]
      by (auto simp: deep_flat_def rule_paths_def and_then_Inr plan_rule_matches_op snapshot_hits_def
          split: matcher_snapshot.splits)
  qed (use that P(4) in simp)
  obtain xs ys where split: "flatten_rules sn = xs @ f0 # ys" "\<forall>x \<in> set xs. \<not> flat_hits x P op"
    by (rule flat.find_split [OF f0(1)])
  have "first_for (flatten_rules sn) f0 P op"
    unfolding earlier_split [OF split(1)] using split(2) by blast
  moreover have "covers (rn_access (flat_snapshot f0)) op" using mem(2) by (simp add: plan_rule_matches_op)
  ultimately have "blocked_in st P op"
    using apply_rules_blocks [OF compiled(2) mem(1) deny] here by blast
  then show ?thesis by (rule that [OF P(1-3) f0(1) deny])
qed

text \<open>What is opened at a path is allowed there, and first.\<close>

lemma opened_first:
  assumes "opened_by (flatten_rules sn) expanded t op"
    and "\<forall>r \<in> set (snapshot_rules sn). exact_allow p r" "path_within p t"
  obtains f where "find (\<lambda>f. flat_hits f t op) (flatten_rules sn) = Some f"
    "rn_decision (flat_snapshot f) = Allow" "deep_flat f \<or> p = t"
proof -
  obtain f ps where f: "f \<in> set (flatten_rules sn)" "rule_paths expanded (flat_snapshot f) = Inr ps"
      "t \<in> set ps" "rn_decision (flat_snapshot f) = Allow" "covers (rn_access (flat_snapshot f)) op"
      "first_for (flatten_rules sn) f t op"
    using assms(1) unfolding opened_by_def by blast
  have "exact_allow p (flat_snapshot f)" using f(1) assms(2) by (auto simp: flatten_snapshots [symmetric])
  then have "(deep_flat f \<or> p = t) \<and> snapshot_hits (flat_snapshot f) t"
    using f(2-4) assms(3)
    by (auto simp: exact_allow_def deep_flat_def rule_paths_def and_then_Inr snapshot_hits_def
        split: matcher_snapshot.splits)
  then have hit: "flat_hits f t op" "deep_flat f \<or> p = t" using f(5) by (simp_all add: plan_rule_matches_op)
  obtain xs ys where split: "flatten_rules sn = xs @ f # ys" using split_list [OF f(1)] by blast
  then have "\<forall>x \<in> set xs. \<not> flat_hits x t op" using f(6) earlier_split [OF split] by simp
  then have "find (\<lambda>f. flat_hits f t op) (flatten_rules sn) = Some f"
    using flat.find_at hit(1) split by simp
  then show ?thesis using that f(4) hit(2) by blast
qed

lemma blocked_final:
  assumes "plan = finish_plan st globs digest" "blocked_in st P op" "P \<notin> set (lp_omitted_missing plan)"
  shows "P \<in> set (lp_unreadable plan) \<or> op = OpWrite \<and> P \<in> set (lp_read_only plan)"
  using assms by (auto simp: finish_plan_def Let_def blocked_in_def)

lemma opened_final:
  assumes "plan = finish_plan st globs digest" "plan_provenance flat expanded roots st"
  shows "t \<in> set (lp_writable_roots plan) \<Longrightarrow> t \<in> set roots \<or> opened_by flat expanded t OpWrite"
    and "t \<in> set (lp_reopened plan) \<Longrightarrow> opened_by flat expanded t OpWrite"
    and "t \<in> set (lp_reopened_read_only plan) \<Longrightarrow> opened_by flat expanded t OpRead"
  using assms normalize_roots_subset [of "ps_writable st"]
  by (auto simp: finish_plan_def Let_def plan_provenance_def)

lemma base_mount_targets:
  "t \<in> set (lp_unreadable plan) \<or> t \<in> set (lp_read_only plan) \<Longrightarrow> \<exists>n \<in> set (base_mounts plan). mr_target n = t"
  by (auto simp: base_mounts_def mounts_of_def bex_Un)

lemma writable_mount:
  assumes "m \<in> set (base_mounts plan)" "mr_kind m = Writable"
    and "m = last (filter (\<lambda>n. mr_target n = mr_target m) (base_mounts plan))"
  shows "mr_target m \<in> set (lp_reopened plan)
    \<or> mr_target m \<in> set (lp_writable_roots plan) \<and> mr_target m \<notin> set (lp_unreadable plan)
      \<and> mr_target m \<notin> set (lp_read_only plan)"
proof -
  have "filter (\<lambda>n. mr_target n = mr_target m) (base_mounts plan) \<noteq> []"
    using assms(1) by (auto simp: filter_empty_conv)
  then have "mr_target m \<in> set (lp_reopened plan)
      \<or> mr_target m \<notin> set (lp_unreadable plan) \<and> mr_target m \<notin> set (lp_read_only plan)"
    using kind_at [of "mr_target m" plan] assms(2,3) by (metis mount_kind.distinct(1,3))
  moreover have "mr_target m \<in> set (lp_reopened plan) \<or> mr_target m \<in> set (lp_writable_roots plan)"
    using assms(1,2) by (auto simp: base_mounts_def mounts_of_def)
  ultimately show ?thesis by blast
qed

text \<open>Where a path that a rule blocks is nevertheless opened from above or below: nowhere.\<close>

lemma opened_not_blocked:
  assumes "opened_by (flatten_rules sn) expanded t op" "path_within p t"
    and "\<forall>r \<in> set (snapshot_rules sn). exact_allow p r"
    and "find (\<lambda>f. flat_hits f p op) (flatten_rules sn) = Some f" "rn_decision (flat_snapshot f) \<noteq> Allow"
  shows "\<not> flat_hits f t op"
proof
  assume hit: "flat_hits f t op"
  obtain g where g: "find (\<lambda>f. flat_hits f t op) (flatten_rules sn) = Some g"
      "rn_decision (flat_snapshot g) = Allow" "deep_flat g \<or> p = t"
    using assms(1,3,2) by (rule opened_first)
  obtain r where "find (\<lambda>f. flat_hits f t op) (flatten_rules sn) = Some r" "r = f \<or> \<not> deep_flat r"
    using assms(4,2) hit by (rule flat.first_above)
  then have "g = f \<or> \<not> deep_flat g" using g(1) by simp
  then show False using g assms(4,5) by auto
qed

lemma shell_write_verdict:
  assumes compile: "compile_with_cancel digest_of fs scan sn = Inr plan"
    and exact: "\<forall>r \<in> set (snapshot_rules sn). exact_allow p r" and sees: "scan_sees scan p"
    and present: "\<forall>m \<in> set (lp_omitted_missing plan). \<not> path_within p m"
    and roots: "\<forall>root \<in> set (sn_roots sn). path_within p root \<longrightarrow> snapshot_verdict sn root OpWrite = Allow"
    and shell: "shell_writable (plan_mounts plan) p"
  shows "snapshot_verdict sn p OpWrite = Allow"
proof (rule ccontr)
  assume no: "snapshot_verdict sn p OpWrite \<noteq> Allow"
  obtain expanded st digest where scanned: "scan (sn_patterns sn) = Inr expanded"
    and applied: "apply_rules fs (flatten_rules sn) expanded (flatten_rules sn)
       \<lparr>ps_writable = sn_roots sn, ps_read_only = [], ps_unreadable = [], ps_reopened = [],
        ps_reopened_read_only = [], ps_missing = []\<rparr> = Inr st"
    and plan: "plan = finish_plan st (map (\<lambda>pattern. (pattern, expanded pattern)) (sn_patterns sn)) digest"
    using compile by (rule compiledE)
  have prov: "plan_provenance (flatten_rules sn) expanded (sn_roots sn) st"
    by (rule apply_rules_provenance [OF applied]) (simp_all add: plan_provenance_def)
  obtain m where m: "last_mount (plan_mounts plan) p = Some m" "mr_kind m = Writable"
    using shell by (auto simp: shell_writable_def split: option.splits)
  define t where "t = mr_target m"
  have within: "path_within p t" using top_mount(1) [OF m(1)] by (simp add: t_def)
  have kinds: "t \<in> set (lp_reopened plan) \<or> t \<in> set (lp_writable_roots plan)
      \<and> t \<notin> set (lp_unreadable plan) \<and> t \<notin> set (lp_read_only plan)"
    unfolding t_def using writable_mount top_mount(2,3) [OF m(1)] m(2) by blast
  have origin: "opened_by (flatten_rules sn) expanded t OpWrite \<or> t \<in> set (sn_roots sn)"
    using kinds opened_final(1,2) [OF plan prov] by blast
  show False
  proof (cases "find (\<lambda>f. flat_hits f p OpWrite) (flatten_rules sn)")
    case None
    then have outside: "\<not> path_within p root" if "root \<in> set (sn_roots sn)" for root
      using no flat_find [OF None] that by (auto simp: list_ex_iff split: if_splits)
    then have "opened_by (flatten_rules sn) expanded t OpWrite" using origin within by blast
    then obtain g where g: "find (\<lambda>f. flat_hits f t OpWrite) (flatten_rules sn) = Some g" "deep_flat g \<or> p = t"
      using exact within by (rule opened_first)
    have "g \<in> set (flatten_rules sn)" "flat_hits g t OpWrite" using find_SomeD [OF g(1)] by auto
    then have "flat_hits g p OpWrite" using g(2) flat.deep_hits within by blast
    then show False using None \<open>g \<in> set (flatten_rules sn)\<close> unfolding find_None_iff by blast
  next
    case (Some f)
    have blocks: "rn_decision (flat_snapshot f) \<noteq> Allow" using no flat_find [OF Some] by simp
    obtain P f0 where P: "path_within p P" "flat_hits f P OpWrite" "deep_flat f \<or> P = p"
      "find (\<lambda>f. flat_hits f P OpWrite) (flatten_rules sn) = Some f0" "rn_decision (flat_snapshot f0) \<noteq> Allow"
      "blocked_in st P OpWrite"
      using scanned applied exact sees Some blocks by (rule blocked_at)
    have final: "P \<in> set (lp_unreadable plan) \<or> P \<in> set (lp_read_only plan)"
      using blocked_final [OF plan P(6)] present P(1) by blast
    then have below: "path_within t P"
      using base_mount_targets top_mount(4) [OF m(1)] P(1) unfolding t_def by metis
    show False
    proof (cases "t = P")
      case True
      then have "opened_by (flatten_rules sn) expanded P OpWrite"
        using kinds final opened_final(2) [OF plan prov] by blast
      then obtain g where "find (\<lambda>f. flat_hits f P OpWrite) (flatten_rules sn) = Some g"
          "rn_decision (flat_snapshot g) = Allow"
        using exact P(1) by (rule opened_first)
      then show False using P(4,5) by simp
    next
      case False
      then have "deep_flat f" using P(3) within below path_within_antisym by blast
      then have hit: "flat_hits f t OpWrite" using flat.deep_hits P(2) below by blast
      then have "t \<in> set (sn_roots sn)" using origin opened_not_blocked [OF _ within exact Some blocks] by blast
      then have allow: "snapshot_verdict sn t OpWrite = Allow" using roots within by blast
      obtain r where r: "find (\<lambda>f. flat_hits f t OpWrite) (flatten_rules sn) = Some r" "r = f \<or> \<not> deep_flat r"
        using Some within hit by (rule flat.first_above)
      have "rn_decision (flat_snapshot r) = Allow" using allow flat_find [OF r(1)] by simp
      moreover have "r \<in> set (flatten_rules sn)" "flat_hits r t OpWrite" using find_SomeD [OF r(1)] by auto
      ultimately have "p = t"
        using r(2) blocks exact within flatten_snapshots [of sn, symmetric]
        by (fastforce simp: exact_allow_def deep_flat_def plan_rule_matches_op snapshot_hits_def
            split: matcher_snapshot.splits)
      then show False using allow no by simp
    qed
  qed
qed

lemma shell_read_verdict:
  assumes compile: "compile_with_cancel digest_of fs scan sn = Inr plan"
    and exact: "\<forall>r \<in> set (snapshot_rules sn). exact_allow p r" and sees: "scan_sees scan p"
    and present: "\<forall>m \<in> set (lp_omitted_missing plan). \<not> path_within p m"
    and shell: "shell_readable (plan_mounts plan) p"
  shows "snapshot_verdict sn p OpRead = Allow"
proof (rule ccontr)
  assume no: "snapshot_verdict sn p OpRead \<noteq> Allow"
  obtain expanded st digest where scanned: "scan (sn_patterns sn) = Inr expanded"
    and applied: "apply_rules fs (flatten_rules sn) expanded (flatten_rules sn)
       \<lparr>ps_writable = sn_roots sn, ps_read_only = [], ps_unreadable = [], ps_reopened = [],
        ps_reopened_read_only = [], ps_missing = []\<rparr> = Inr st"
    and plan: "plan = finish_plan st (map (\<lambda>pattern. (pattern, expanded pattern)) (sn_patterns sn)) digest"
    using compile by (rule compiledE)
  have prov: "plan_provenance (flatten_rules sn) expanded (sn_roots sn) st"
    by (rule apply_rules_provenance [OF applied]) (simp_all add: plan_provenance_def)
  obtain f where f: "find (\<lambda>f. flat_hits f p OpRead) (flatten_rules sn) = Some f"
      "rn_decision (flat_snapshot f) \<noteq> Allow"
    using no flat_find [OF refl, where sn = sn and p = p and op = OpRead]
    by (cases "find (\<lambda>f. flat_hits f p OpRead) (flatten_rules sn)") auto
  obtain P f0 where P: "path_within p P"
    "find (\<lambda>f. flat_hits f P OpRead) (flatten_rules sn) = Some f0" "rn_decision (flat_snapshot f0) \<noteq> Allow"
    "blocked_in st P OpRead"
    using scanned applied exact sees f by (rule blocked_at)
  have unreadable: "P \<in> set (lp_unreadable plan)"
    using blocked_final [OF plan P(4)] present P(1) by auto
  have "\<not> opened_by (flatten_rules sn) expanded P OpRead"
    using opened_first [OF _ exact P(1)] P(2,3) by (metis option.inject)
  moreover have "\<not> opened_by (flatten_rules sn) expanded P OpWrite"
    using P(2,3) by (auto simp: opened_by_def effective_blocked_def op_access_def)
  ultimately have "P \<notin> set (lp_reopened plan)" "P \<notin> set (lp_reopened_read_only plan)"
    using opened_final(2,3) [OF plan prov] by blast+
  moreover have "filter (\<lambda>n. mr_target n = P) (base_mounts plan) \<noteq> []"
    using base_mount_targets unreadable by (fastforce simp: filter_empty_conv)
  ultimately have "masked (plan_mounts plan) P"
    using kind_at [of P plan] unreadable by (simp add: masked_def mounts_at)
  then show False
    using shell P(1) by (auto simp: shell_readable_def list_ex_iff path_within_prefix)
qed

text \<open>C13: The shell sandbox enforces the rules for writing: a path that the mounts of a compiled plan
  leave writable is one whose verdict is allow. This holds within the limits of mounts: no allowance
  is a glob and a literal one reaches nothing below its target, the globs were expanded with the
  path's ancestors present, no protected path above, missing when the plan was made, was left out of
  it, and the workspace and temporary roots above the path are themselves writable under the rules.\<close>

theorem shell_writes_only_what_rules_allow:
  assumes "compile_with_cancel digest_of fs scan (rules_snapshot cells rs) = Inr plan"
    and "regex_laws (re_is_match e)" "\<forall>r \<in> set (concat (profile_layers cells rs)). compiled_rule r"
    and "\<forall>r \<in> set (snapshot_rules (rules_snapshot cells rs)). exact_allow p r" "scan_sees scan p"
    and "\<forall>m \<in> set (lp_omitted_missing plan). \<not> path_within p m"
    and "\<forall>root \<in> set (rs_workspace rs # rs_temp_roots rs).
           path_within p root \<longrightarrow> evaluate e cells rs root OpWrite = Allow"
    and "shell_writable (plan_mounts plan) p"
  shows "evaluate e cells rs p OpWrite = Allow"
proof -
  have roots: "sn_roots (rules_snapshot cells rs) = rs_workspace rs # rs_temp_roots rs"
    by (simp add: rules_snapshot_def)
  show ?thesis
    using shell_write_verdict [OF assms(1,4,5,6) _ assms(8)] assms(7)
    unfolding roots snapshot_verdict_evaluate [OF assms(2,3)] by blast
qed

text \<open>The shell sandbox enforces the rules for reading: a path that no mask of a compiled plan
  hides is one whose verdict is allow, within the same limits; the roots need no condition.\<close>

theorem shell_reads_only_what_rules_allow:
  assumes "compile_with_cancel digest_of fs scan (rules_snapshot cells rs) = Inr plan"
    and "regex_laws (re_is_match e)" "\<forall>r \<in> set (concat (profile_layers cells rs)). compiled_rule r"
    and "\<forall>r \<in> set (snapshot_rules (rules_snapshot cells rs)). exact_allow p r" "scan_sees scan p"
    and "\<forall>m \<in> set (lp_omitted_missing plan). \<not> path_within p m"
    and "shell_readable (plan_mounts plan) p"
  shows "evaluate e cells rs p OpRead = Allow"
  using shell_read_verdict [OF assms(1,4,5,6,7)]
  unfolding snapshot_verdict_evaluate [OF assms(2,3)] .

section \<open>A workspace with an opened directory in a protected one\<close>

abbreviation home_ws :: path where
  "home_ws \<equiv> [RootDir, Normal ''home'', Normal ''ws'']"

abbreviation vendor_dir :: path where
  "vendor_dir \<equiv> home_ws @ [Normal ''vendor'']"

definition path_rule_at :: "path \<Rightarrow> access \<Rightarrow> decision \<Rightarrow> path_rule" where
  "path_rule_at p a d = \<lparr>pr_matcher = Subtree p p, pr_access = a, pr_decision = d\<rparr>"

definition vendor_rules :: rule_set where
  "vendor_rules =
     \<lparr>rs_workspace = home_ws, rs_temp_roots = [], rs_overrides = [],
      rs_guards = [path_rule_at (home_ws @ [Normal ''.env'']) AccBoth Ask],
      rs_execution = [], rs_session = 0, rs_workspace_rules =
        [path_rule_at (vendor_dir @ [Normal ''ok'']) AccWrite Allow, path_rule_at vendor_dir AccWrite Deny],
      rs_user_rules = [], rs_errors = []\<rparr>"

definition all_present :: mount_fs where
  "all_present = \<lparr>mf_lstat = \<lambda>p. Present, mf_stat = \<lambda>p. None\<rparr>"

definition glob_env :: rule_env where
  "glob_env = demo_env\<lparr>re_is_match := fragment_match\<rparr>"

abbreviation no_globs :: "string list \<Rightarrow> string + (string \<Rightarrow> path list)" where
  "no_globs \<equiv> \<lambda>patterns. if patterns = [] then Inr (\<lambda>pattern. []) else Inl ''glob_scan_io_error''"

text \<open>A plan from its flat rules and what the scan found.\<close>

lemma fold_res_checks: "\<forall>x \<in> set xs. f x = Inr () \<Longrightarrow> fold_res (\<lambda>x _. f x) xs () = Inr ()"
  by (induction xs) auto

lemma compile_scanned:
  assumes "sn_errors sn = []" "\<forall>root \<in> set (sn_roots sn). validate_absolute root = Inr ()"
    and "flatten_rules sn = flat" "List.map_filter (\<lambda>f. glob_pattern (flat_snapshot f)) flat = patterns"
    and "\<forall>pattern \<in> set patterns. validate_glob pattern = Inr ()" "scan patterns = Inr expanded"
    and "apply_rules fs flat expanded flat
       \<lparr>ps_writable = sn_roots sn, ps_read_only = [], ps_unreadable = [], ps_reopened = [],
        ps_reopened_read_only = [], ps_missing = []\<rparr> = Inr st"
    and "mount_count (finish_plan st (map (\<lambda>pattern. (pattern, expanded pattern)) patterns) '''') \<le> 10"
  shows "compile_with_cancel (\<lambda>sn. Inr digest) fs scan sn
    = Inr (finish_plan st (map (\<lambda>pattern. (pattern, expanded pattern)) patterns) digest)"
proof -
  have "fold_res (\<lambda>root _. validate_absolute root) (sn_temp_roots sn) () = Inr ()"
    "fold_res (\<lambda>pattern _. validate_glob pattern) patterns () = Inr ()"
    using assms(2,5) by (simp_all add: fold_res_checks)
  then show ?thesis
    using assms
    by (simp add: compile_with_cancel_def expand_globs_def Let_def max_mounts_def max_bwrap_args_def)
qed

lemma compile_literal:
  assumes "sn_errors sn = []" "\<forall>root \<in> set (sn_roots sn). validate_absolute root = Inr ()"
    and "flatten_rules sn = flat" "List.map_filter (\<lambda>f. glob_pattern (flat_snapshot f)) flat = []"
    and "apply_rules fs flat (\<lambda>pattern. []) flat
       \<lparr>ps_writable = sn_roots sn, ps_read_only = [], ps_unreadable = [], ps_reopened = [],
        ps_reopened_read_only = [], ps_missing = []\<rparr> = Inr st"
    and "mount_count (finish_plan st [] '''') \<le> 10"
  shows "compile_with_cancel (\<lambda>sn. Inr digest) fs no_globs sn = Inr (finish_plan st [] digest)"
  using compile_scanned [of sn flat "[]" no_globs "\<lambda>pattern. []" fs st digest] assms by simp

lemma normalize_exact_same [simp]: "normalize_exact [p, p] = [p]"
  by (simp add: normalize_exact_def)

lemmas plan_simps = rule_paths_def validate_absolute_def apply_rule_def Let_def flat_snapshot_def
  flat_key_def matched_by_earlier_rule_def key_less_def plan_rule_matches_def access_overlap_def
  covers_read_def covers_write_def snapshot_hits_def path_within_prefix effective_blocked_def
  protected_by_later_rule_def rule_blocks_def mount_path_exists_def all_present_def

definition vendor_flat :: "flat_rule list" where
  "vendor_flat =
     [(2, 0, Guard, \<lparr>rn_matcher = SSubtree (home_ws @ [Normal ''.env'']) (home_ws @ [Normal ''.env'']),
                     rn_access = AccBoth, rn_decision = Ask\<rparr>),
      (4, 0, Workspace, \<lparr>rn_matcher = SSubtree (vendor_dir @ [Normal ''ok'']) (vendor_dir @ [Normal ''ok'']),
                         rn_access = AccWrite, rn_decision = Allow\<rparr>),
      (4, 1, Workspace, \<lparr>rn_matcher = SSubtree vendor_dir vendor_dir,
                         rn_access = AccWrite, rn_decision = Deny\<rparr>)]"

lemma vendor_plan:
  "compile_with_cancel (\<lambda>sn. Inr ''digest'') all_present no_globs (rules_snapshot [[]] vendor_rules)
     = Inr (finish_plan
              \<lparr>ps_writable = [home_ws], ps_read_only = [vendor_dir],
               ps_unreadable = [home_ws @ [Normal ''.env'']], ps_reopened = [vendor_dir @ [Normal ''ok'']],
               ps_reopened_read_only = [], ps_missing = []\<rparr> [] ''digest'')"
proof (rule compile_literal)
  show "sn_errors (rules_snapshot [[]] vendor_rules) = []" by (simp add: rules_snapshot_def vendor_rules_def)
  show "\<forall>root \<in> set (sn_roots (rules_snapshot [[]] vendor_rules)). validate_absolute root = Inr ()"
    by (simp add: rules_snapshot_def vendor_rules_def validate_absolute_def)
  show "flatten_rules (rules_snapshot [[]] vendor_rules) = vendor_flat" by code_simp
  show "List.map_filter (\<lambda>f. glob_pattern (flat_snapshot f)) vendor_flat = []" by code_simp
  have roots: "sn_roots (rules_snapshot [[]] vendor_rules) = [home_ws]"
    by (simp add: rules_snapshot_def vendor_rules_def)
  show "apply_rules all_present vendor_flat (\<lambda>pattern. []) vendor_flat
      \<lparr>ps_writable = sn_roots (rules_snapshot [[]] vendor_rules), ps_read_only = [], ps_unreadable = [],
       ps_reopened = [], ps_reopened_read_only = [], ps_missing = []\<rparr>
    = Inr \<lparr>ps_writable = [home_ws], ps_read_only = [vendor_dir],
           ps_unreadable = [home_ws @ [Normal ''.env'']], ps_reopened = [vendor_dir @ [Normal ''ok'']],
           ps_reopened_read_only = [], ps_missing = []\<rparr>"
    by (simp add: roots apply_rules_def vendor_flat_def plan_simps)
  show "mount_count (finish_plan
          \<lparr>ps_writable = [home_ws], ps_read_only = [vendor_dir],
           ps_unreadable = [home_ws @ [Normal ''.env'']], ps_reopened = [vendor_dir @ [Normal ''ok'']],
           ps_reopened_read_only = [], ps_missing = []\<rparr> [] '''') \<le> 10"
    by code_simp
qed

lemma no_globs_see: "scan_sees no_globs p"
  by (simp add: scan_sees_def)

lemma vendor_compiled: "\<forall>r \<in> set (concat (profile_layers [[]] vendor_rules)). compiled_rule r"
  by (simp add: profile_layers_def vendor_rules_def session_rules_def compiled_rule_def path_rule_at_def)

lemma vendor_exact: "\<forall>r \<in> set (snapshot_rules (rules_snapshot [[]] vendor_rules)). exact_allow p r"
  by (simp add: snapshot_rules_of profile_layers_def vendor_rules_def session_rules_def exact_allow_def
      rule_snapshot_of_def path_rule_at_def)

definition vendor_mounts :: "mount_request list" where
  "vendor_mounts =
     mounts_of Writable [home_ws] @ mounts_of Read_Only [vendor_dir]
     @ mounts_of Unreadable [home_ws @ [Normal ''.env'']] @ mounts_of Writable [vendor_dir @ [Normal ''ok'']]"

lemma vendor_plan_mounts:
  "plan_mounts (finish_plan
     \<lparr>ps_writable = [home_ws], ps_read_only = [vendor_dir],
      ps_unreadable = [home_ws @ [Normal ''.env'']], ps_reopened = [vendor_dir @ [Normal ''ok'']],
      ps_reopened_read_only = [], ps_missing = []\<rparr> [] ''digest'') = vendor_mounts"
  by code_simp

lemma vendor_present:
  "lp_omitted_missing (finish_plan
     \<lparr>ps_writable = [home_ws], ps_read_only = [vendor_dir],
      ps_unreadable = [home_ws @ [Normal ''.env'']], ps_reopened = [vendor_dir @ [Normal ''ok'']],
      ps_reopened_read_only = [], ps_missing = []\<rparr> [] ''digest'') = []"
  by (simp add: finish_plan_def Let_def normalize_exact_def)

lemma glob_env_laws: "regex_laws (re_is_match glob_env)"
  by (simp add: glob_env_def fragment_match_laws)

lemma shell_writes_only_what_rules_allow_witness:
  "evaluate glob_env [[]] vendor_rules (vendor_dir @ [Normal ''ok'', Normal ''x'']) OpWrite = Allow
   \<and> evaluate glob_env [[]] vendor_rules (home_ws @ [Normal ''src'']) OpWrite = Allow"
proof -
  have root: "evaluate glob_env [[]] vendor_rules home_ws OpWrite = Allow"
    by (simp add: evaluate_def vendor_rules_def session_rules_def rule_matches_def matcher_matches_def
        path_rule_at_def path_within_prefix fallback_def)
  have writable: "shell_writable vendor_mounts (vendor_dir @ [Normal ''ok'', Normal ''x''])"
    "shell_writable vendor_mounts (home_ws @ [Normal ''src''])"
    by code_simp+
  note enforced = shell_writes_only_what_rules_allow
      [OF vendor_plan glob_env_laws vendor_compiled vendor_exact no_globs_see, unfolded vendor_plan_mounts vendor_present]
  show ?thesis
    using enforced root writable by (auto simp: vendor_rules_def)
qed

lemma shell_reads_only_what_rules_allow_witness:
  "evaluate glob_env [[]] vendor_rules (vendor_dir @ [Normal ''x'']) OpRead = Allow"
proof -
  have "shell_readable vendor_mounts (vendor_dir @ [Normal ''x''])" by code_simp
  then show ?thesis
    using shell_reads_only_what_rules_allow
      [OF vendor_plan glob_env_laws vendor_compiled vendor_exact no_globs_see, unfolded vendor_plan_mounts vendor_present]
    by simp
qed

section \<open>Beyond the limits\<close>

text \<open>A rule that asks for or denies writes in a directory above the workspace is not enforced in the
  workspace: its writable root is mounted unconditionally and lies deeper.\<close>

definition wide_rules :: rule_set where
  "wide_rules =
     \<lparr>rs_workspace = home_ws, rs_temp_roots = [], rs_overrides = [], rs_guards = [], rs_execution = [],
      rs_session = 0, rs_workspace_rules = [],
      rs_user_rules = [path_rule_at [RootDir, Normal ''home''] AccWrite Deny], rs_errors = []\<rparr>"

lemma wide_plan:
  "compile_with_cancel (\<lambda>sn. Inr ''digest'') all_present no_globs (rules_snapshot [[]] wide_rules)
     = Inr (finish_plan
              \<lparr>ps_writable = [home_ws], ps_read_only = [[RootDir, Normal ''home'']], ps_unreadable = [],
               ps_reopened = [], ps_reopened_read_only = [], ps_missing = []\<rparr> [] ''digest'')"
proof (rule compile_literal [OF _ _ refl])
  show "sn_errors (rules_snapshot [[]] wide_rules) = []" by (simp add: rules_snapshot_def wide_rules_def)
  have roots: "sn_roots (rules_snapshot [[]] wide_rules) = [home_ws]"
    by (simp add: rules_snapshot_def wide_rules_def)
  then show "\<forall>root \<in> set (sn_roots (rules_snapshot [[]] wide_rules)). validate_absolute root = Inr ()"
    by (simp add: validate_absolute_def)
  have flat: "flatten_rules (rules_snapshot [[]] wide_rules)
      = [(5, 0, User, \<lparr>rn_matcher = SSubtree [RootDir, Normal ''home''] [RootDir, Normal ''home''],
                       rn_access = AccWrite, rn_decision = Deny\<rparr>)]"
    by code_simp
  show "List.map_filter (\<lambda>f. glob_pattern (flat_snapshot f)) (flatten_rules (rules_snapshot [[]] wide_rules)) = []"
    unfolding flat by code_simp
  show "apply_rules all_present (flatten_rules (rules_snapshot [[]] wide_rules)) (\<lambda>pattern. [])
      (flatten_rules (rules_snapshot [[]] wide_rules))
      \<lparr>ps_writable = sn_roots (rules_snapshot [[]] wide_rules), ps_read_only = [], ps_unreadable = [],
       ps_reopened = [], ps_reopened_read_only = [], ps_missing = []\<rparr>
    = Inr \<lparr>ps_writable = [home_ws], ps_read_only = [[RootDir, Normal ''home'']], ps_unreadable = [],
           ps_reopened = [], ps_reopened_read_only = [], ps_missing = []\<rparr>"
    unfolding flat roots by (simp add: apply_rules_def plan_simps)
  show "mount_count (finish_plan
          \<lparr>ps_writable = [home_ws], ps_read_only = [[RootDir, Normal ''home'']], ps_unreadable = [],
           ps_reopened = [], ps_reopened_read_only = [], ps_missing = []\<rparr> [] '''') \<le> 10"
    by code_simp
qed

theorem wide_deny_is_not_mounted:
  "evaluate glob_env [[]] wide_rules (home_ws @ [Normal ''x'']) OpWrite = Deny
   \<and> (\<exists>plan. compile_with_cancel (\<lambda>sn. Inr ''digest'') all_present no_globs (rules_snapshot [[]] wide_rules)
               = Inr plan
        \<and> shell_writable (plan_mounts plan) (home_ws @ [Normal ''x'']))"
proof -
  have "evaluate glob_env [[]] wide_rules (home_ws @ [Normal ''x'']) OpWrite = Deny"
    by (simp add: evaluate_def wide_rules_def session_rules_def rule_matches_def matcher_matches_def
        path_rule_at_def path_within_prefix)
  moreover have "shell_writable (plan_mounts (finish_plan
      \<lparr>ps_writable = [home_ws], ps_read_only = [[RootDir, Normal ''home'']], ps_unreadable = [],
       ps_reopened = [], ps_reopened_read_only = [], ps_missing = []\<rparr> [] ''digest'')) (home_ws @ [Normal ''x''])"
    by code_simp
  ultimately show ?thesis using wide_plan by blast
qed

end
