(* ===== verification/Glob_Scan.thy ===== *)
theory Glob_Scan
  imports Sandbox_Plan
begin

text \<open>
  The directory scan that expands the globs of a mount plan (\<open>linux/glob_scan.rs\<close>): patterns grouped by
  their static root, one walk of the tree per group that descends only where some pattern can still
  match, and the budgets that end it with an error.

  The directory tree is a parameter (\<open>walkdir\<close> yields it in order, without following links); the
  clock and cancellation are the parameter \<open>sc_stops\<close>, asked once per check. An error is its code.
\<close>

section \<open>Trees\<close>

text \<open>A link carries what its canonicalisation gives; a broken entry is one that cannot be read.\<close>

datatype fs_node =
  File_Node
| Link_Node "path option"
| Dir_Node "(string \<times> fs_node) list"
| Broken_Node

datatype root_status = Root_Absent | Root_Error | Root_Node fs_node

record scan_env =
  sc_is_match :: "string \<Rightarrow> string \<Rightarrow> bool"
  sc_compiles :: "string \<Rightarrow> bool"
  sc_root :: "path \<Rightarrow> root_status"
  sc_stops :: "nat \<Rightarrow> string option"

section \<open>Patterns\<close>

record scan_pattern =
  pt_text :: string
  pt_prefixes :: "string list"
  pt_recursive :: bool
  pt_depth :: nat

definition scan_root :: "string \<Rightarrow> path" where
  "scan_root pattern = takeWhile (\<lambda>c. \<not> glob_component c) (components pattern)"

definition pattern_parts :: "string \<Rightarrow> string list" where
  "pattern_parts text = map component_str (drop (length (scan_root text)) (components text))"

definition pattern_prefixes :: "string list \<Rightarrow> string list" where
  "pattern_prefixes parts =
     (let plain = takeWhile (\<lambda>part. \<not> contains_str ''**'' part) parts in
      map (\<lambda>i. join ''/'' (take (Suc i) plain)) [0 ..< length plain])"

definition compile_pattern :: "scan_env \<Rightarrow> string \<Rightarrow> string + scan_pattern" where
  "compile_pattern e text =
     (let parts = pattern_parts text; prefixes = pattern_prefixes parts in
      if list_all (\<lambda>p. sc_compiles e (scan_regex p)) (prefixes @ [text])
      then Inr \<lparr>pt_text = text, pt_prefixes = prefixes,
                pt_recursive = list_ex (contains_str ''**'') parts, pt_depth = length parts\<rparr>
      else Inl ''glob_scan_pattern_invalid'')"

definition can_descend :: "scan_env \<Rightarrow> scan_pattern \<Rightarrow> string list \<Rightarrow> bool" where
  "can_descend e pt relative =
     (let depth = length relative; checked = min depth (length (pt_prefixes pt)) in
      if \<not> pt_recursive pt \<and> depth \<ge> pt_depth pt then False
      else if depth = 0 then True
      else if checked = 0 then True
      else sc_is_match e (scan_regex (pt_prefixes pt ! (checked - 1))) (join ''/'' (take checked relative)))"

section \<open>The walk\<close>

definition max_matches :: usize where
  "max_matches = 2048"

definition max_depth :: usize where
  "max_depth = 64"

definition max_patterns :: usize where
  "max_patterns = 256"

definition max_result_bytes :: usize where
  "max_result_bytes = 4 * 1024 * 1024"

record scan_state =
  st_checks :: nat
  st_visited :: nat
  st_found :: "string \<Rightarrow> path list"
  st_unique :: "path list"
  st_bytes :: nat

definition budget_check :: "scan_env \<Rightarrow> scan_state \<Rightarrow> string + scan_state" where
  "budget_check e st =
     (case sc_stops e (st_checks st) of
        Some code \<Rightarrow> Inl code
      | None \<Rightarrow> Inr (st\<lparr>st_checks := st_checks st + 1\<rparr>))"

definition record_match :: "string \<Rightarrow> path \<Rightarrow> scan_state \<Rightarrow> string + scan_state" where
  "record_match text p st =
     (if p \<in> set (st_found st text) then Inr st
      else
        (let st' = st\<lparr>st_found := (st_found st)(text := st_found st text @ [p]),
                      st_bytes := st_bytes st + length (path_text p) + length text,
                      st_unique := List.insert p (st_unique st)\<rparr>
         in if length (st_unique st') > max_matches then Inl ''glob_scan_match_limit''
            else if st_bytes st' > max_result_bytes then Inl ''glob_scan_result_bytes_limit''
            else Inr st'))"

definition entry_path :: "path \<Rightarrow> string list \<Rightarrow> path" where
  "entry_path root names = root @ map Normal names"

definition match_entry ::
  "scan_env \<Rightarrow> path \<Rightarrow> string list \<Rightarrow> fs_node \<Rightarrow> scan_pattern \<Rightarrow> scan_state \<Rightarrow> string + scan_state" where
  "match_entry e root names node pt st =
     and_then (budget_check e st) (\<lambda>st.
       if \<not> pt_recursive pt \<and> length names \<noteq> pt_depth pt then Inr st
       else if \<not> sc_is_match e (scan_regex (pt_text pt)) (path_text (entry_path root names)) then Inr st
       else (case node of
               Link_Node None \<Rightarrow> Inl ''glob_scan_io_error''
             | Link_Node (Some target) \<Rightarrow>
                 fold_res (record_match (pt_text pt)) [entry_path root names, target] st
             | _ \<Rightarrow> fold_res (record_match (pt_text pt)) [entry_path root names] st))"

definition visit_entry ::
  "scan_env \<Rightarrow> path \<Rightarrow> scan_pattern list \<Rightarrow> string list \<Rightarrow> fs_node \<Rightarrow> scan_state \<Rightarrow> string + scan_state" where
  "visit_entry e root pats names node st =
     and_then (budget_check e st) (\<lambda>st.
       if node = Broken_Node then Inl ''glob_scan_io_error''
       else
         and_then (budget_check e (st\<lparr>st_visited := st_visited st + 1\<rparr>)) (\<lambda>st.
           if names = [] \<and> (\<exists>target. node = Link_Node target) then Inl ''glob_scan_io_error''
           else fold_res (match_entry e root names node) pats st))"

fun walk_node ::
  "scan_env \<Rightarrow> path \<Rightarrow> scan_pattern list \<Rightarrow> string list \<Rightarrow> fs_node \<Rightarrow> scan_state \<Rightarrow> string + scan_state"
and walk_entries ::
  "scan_env \<Rightarrow> path \<Rightarrow> scan_pattern list \<Rightarrow> string list \<Rightarrow> (string \<times> fs_node) list \<Rightarrow> scan_state
   \<Rightarrow> string + scan_state" where
  "walk_node e root pats names node st =
     (case visit_entry e root pats names node st of
        Inl code \<Rightarrow> Inl code
      | Inr st' \<Rightarrow>
          (case node of
             Dir_Node entries \<Rightarrow>
               if list_ex (\<lambda>pt. can_descend e pt names) pats then
                 (if length names \<ge> max_depth then Inl ''glob_scan_depth_limit''
                  else walk_entries e root pats names entries st')
               else Inr st'
           | _ \<Rightarrow> Inr st'))"
| "walk_entries e root pats names [] st = Inr st"
| "walk_entries e root pats names ((name, node) # rest) st =
     (case walk_node e root pats (names @ [name]) node st of
        Inl code \<Rightarrow> Inl code
      | Inr st' \<Rightarrow> walk_entries e root pats names rest st')"

text \<open>One group; the loop checks once more when the walker is exhausted, and again after it.\<close>

definition scan_group ::
  "scan_env \<Rightarrow> path \<times> scan_pattern list \<Rightarrow> scan_state \<Rightarrow> string + scan_state" where
  "scan_group e grp st =
     (let (root, pats) = grp in
      and_then (budget_check e st) (\<lambda>st.
        case sc_root e root of
          Root_Absent \<Rightarrow> Inr st
        | Root_Error \<Rightarrow> Inl ''glob_scan_io_error''
        | Root_Node node \<Rightarrow>
            and_then (walk_node e root pats [] node st) (\<lambda>st.
            and_then (budget_check e st) (budget_check e))))"

section \<open>Grouping\<close>

text \<open>\<open>groups.entry(root).or_default().push(compiled)\<close>; the map is in the order of its roots.\<close>

fun add_to_group :: "path \<Rightarrow> scan_pattern \<Rightarrow> (path \<times> scan_pattern list) list
    \<Rightarrow> (path \<times> scan_pattern list) list" where
  "add_to_group root pt [] = [(root, [pt])]"
| "add_to_group root pt ((r, pts) # groups) =
     (if r = root then (r, pts @ [pt]) # groups
      else if root < r then (root, [pt]) # (r, pts) # groups
      else (r, pts) # add_to_group root pt groups)"

record group_state =
  gp_scan :: scan_state
  gp_seen :: "string list"
  gp_groups :: "(path \<times> scan_pattern list) list"

definition add_pattern :: "scan_env \<Rightarrow> string \<Rightarrow> group_state \<Rightarrow> string + group_state" where
  "add_pattern e text g =
     and_then (budget_check e (gp_scan g)) (\<lambda>st.
       if text \<in> set (gp_seen g) then Inr (g\<lparr>gp_scan := st\<rparr>)
       else if length (gp_seen g) \<ge> max_patterns then Inl ''glob_scan_pattern_limit''
       else and_then (compile_pattern e text) (\<lambda>pt.
         Inr (g\<lparr>gp_scan := st, gp_seen := gp_seen g @ [text],
               gp_groups := add_to_group (scan_root text) pt (gp_groups g)\<rparr>)))"

definition scan_globs :: "scan_env \<Rightarrow> string list \<Rightarrow> string + (string \<Rightarrow> path list)" where
  "scan_globs e patterns =
     and_then (fold_res (add_pattern e) patterns
                 \<lparr>gp_scan = \<lparr>st_checks = 0, st_visited = 0, st_found = (\<lambda>text. []), st_unique = [], st_bytes = 0\<rparr>,
                  gp_seen = [], gp_groups = []\<rparr>) (\<lambda>g.
     and_then (fold_res (scan_group e) (gp_groups g) (gp_scan g)) (\<lambda>st.
       Inr (\<lambda>text. sort (st_found st text))))"

section \<open>The reference\<close>

text \<open>Every entry of a tree, with its names from the root.\<close>

fun tree_entries :: "string list \<Rightarrow> fs_node \<Rightarrow> (string list \<times> fs_node) list"
and list_entries :: "string list \<Rightarrow> (string \<times> fs_node) list \<Rightarrow> (string list \<times> fs_node) list" where
  "tree_entries names node =
     (names, node) # (case node of Dir_Node entries \<Rightarrow> list_entries names entries | _ \<Rightarrow> [])"
| "list_entries names [] = []"
| "list_entries names ((name, node) # rest) =
     tree_entries (names @ [name]) node @ list_entries names rest"

definition matched_paths :: "scan_env \<Rightarrow> string \<Rightarrow> path list" where
  "matched_paths e text =
     (case sc_root e (scan_root text) of
        Root_Node node \<Rightarrow>
          concat (map (\<lambda>(names, n).
              if sc_is_match e (scan_regex text) (path_text (entry_path (scan_root text) names))
              then entry_path (scan_root text) names
                   # (case n of Link_Node (Some target) \<Rightarrow> [target] | _ \<Rightarrow> [])
              else []) (tree_entries [] node))
      | _ \<Rightarrow> [])"

end
