(* ===== verification/Scan_Exact.thy ===== *)
theory Scan_Exact
  imports Glob_Scan
begin

text \<open>
  The scan of \<open>Glob_Scan\<close> finds what it would find without pruning: a successful scan returns, for each
  pattern, exactly the entries of the whole tree that the pattern matches, with the targets of the
  links among them.
\<close>

section \<open>Matching by segments\<close>

fun segs :: "string list list \<Rightarrow> string list" where
  "segs [] = []"
| "segs [x] = x"
| "segs (x # y # ys) = x @ ''/'' # segs (y # ys)"

lemma segs_Cons: "ys \<noteq> [] \<Longrightarrow> segs (x # ys) = x @ ''/'' # segs ys"
  by (cases ys) auto

lemma split_Cons: "(\<exists>u v. x # w = u @ v \<and> P u v) \<longleftrightarrow> P [] (x # w) \<or> (\<exists>u v. w = u @ v \<and> P (x # u) v)"
proof
  assume "\<exists>u v. x # w = u @ v \<and> P u v"
  then obtain u v where "x # w = u @ v" "P u v" by blast
  then show "P [] (x # w) \<or> (\<exists>u v. w = u @ v \<and> P (x # u) v)" by (cases u) auto
next
  assume "P [] (x # w) \<or> (\<exists>u v. w = u @ v \<and> P (x # u) v)"
  then show "\<exists>u v. x # w = u @ v \<and> P u v" by (metis append_Cons append_Nil)
qed

lemma atoms_match_append:
  "atoms_match (as @ bs) v \<longleftrightarrow> (\<exists>u w. v = u @ w \<and> atoms_match as u \<and> atoms_match bs w)"
  by (induction as v rule: atoms_match.induct) (auto simp: split_Cons)

text \<open>Within a segment: no slash, and no two stars in a row.\<close>

fun no_double :: "string list \<Rightarrow> bool" where
  "no_double (a # b # cs) \<longleftrightarrow> \<not> (a = ''*'' \<and> b = ''*'') \<and> no_double (b # cs)"
| "no_double [] \<longleftrightarrow> True"
| "no_double [a] \<longleftrightarrow> True"

definition plain_part :: "string list \<Rightarrow> bool" where
  "plain_part xs \<longleftrightarrow> no_double xs \<and> ''/'' \<notin> set xs"

fun segment_atom :: "glob_atom \<Rightarrow> bool" where
  "segment_atom (Chr c) \<longleftrightarrow> c \<noteq> ''/''"
| "segment_atom Anything \<longleftrightarrow> False"
| "segment_atom _ \<longleftrightarrow> True"

lemma glob_atoms_append:
  "no_double xs \<Longrightarrow> ys = [] \<or> hd ys \<noteq> ''*'' \<Longrightarrow> glob_atoms (xs @ ys) = glob_atoms xs @ glob_atoms ys"
proof (induction xs rule: no_double.induct)
  case (1 a b cs)
  then have "glob_atoms ((b # cs) @ ys) = glob_atoms (b # cs) @ glob_atoms ys" by simp
  then show ?case
    using 1(2) glob_atoms.simps(2) [of a "(b # cs) @ ys"] glob_atoms.simps(2) [of a "b # cs"]
    by (auto simp del: glob_atoms.simps)
next
  case (3 a)
  then show ?case by (cases ys) auto
qed simp

lemma plain_atoms: "plain_part xs \<Longrightarrow> list_all segment_atom (glob_atoms xs)"
  unfolding plain_part_def by (induction xs rule: no_double.induct) auto

lemma segment_match_free: "atoms_match as v \<Longrightarrow> list_all segment_atom as \<Longrightarrow> ''/'' \<notin> set v"
  by (induction as v rule: atoms_match.induct) auto

lemma slash_split:
  "a @ s # b = u @ s # w \<Longrightarrow> s \<notin> set a \<Longrightarrow> s \<notin> set u \<Longrightarrow> a = u \<and> b = w"
proof (induction a arbitrary: u)
  case (Cons x a)
  then show ?case by (cases u) auto
qed (auto simp: Cons_eq_append_conv)

lemma segs_free: "''/'' \<notin> set (segs ns) \<Longrightarrow> length ns \<le> 1"
  by (cases ns rule: segs.cases) auto

text \<open>A plain part in front of others matches exactly the first name.\<close>

lemma match_first:
  assumes "atoms_match (glob_atoms (segs (p # qs))) (segs ns)" "plain_part p" "qs \<noteq> []"
    and "\<forall>n \<in> set ns. ''/'' \<notin> set n"
  obtains n ns' where "ns = n # ns'" "ns' \<noteq> []" "atoms_match (glob_atoms p) n"
    "atoms_match (glob_atoms (segs qs)) (segs ns')"
proof -
  have "glob_atoms (segs (p # qs)) = glob_atoms p @ Chr ''/'' # glob_atoms (segs qs)"
    using assms(2,3) by (simp add: segs_Cons glob_atoms_append plain_part_def)
  then obtain u w where u: "segs ns = u @ w" "atoms_match (glob_atoms p) u"
      "atoms_match (Chr ''/'' # glob_atoms (segs qs)) w"
    using assms(1) by (auto simp: atoms_match_append)
  then obtain w' where w: "w = ''/'' # w'" "atoms_match (glob_atoms (segs qs)) w'"
    by (cases w) auto
  have free: "''/'' \<notin> set u" using u(2) plain_atoms [OF assms(2)] by (rule segment_match_free)
  obtain n ns' where ns: "ns = n # ns'" using u(1) w(1) by (cases ns) auto
  have "ns' \<noteq> []" using u(1) w(1) ns assms(4) by auto
  moreover have "u = n \<and> w' = segs ns'"
    using u(1) w(1) ns assms(4) free \<open>ns' \<noteq> []\<close> slash_split [of n "''/''" "segs ns'" u w']
    by (auto simp: segs_Cons)
  ultimately show ?thesis using that ns u(2) w(2) by blast
qed

lemma match_parts:
  assumes "atoms_match (glob_atoms (segs (ps @ qs))) (segs ns)" "\<forall>p \<in> set ps. plain_part p" "qs \<noteq> []"
    and "\<forall>n \<in> set ns. ''/'' \<notin> set n"
  shows "length ps \<le> length ns \<and> (ps \<noteq> [] \<longrightarrow> length ps < length ns)
    \<and> list_all2 (\<lambda>p. atoms_match (glob_atoms p)) ps (take (length ps) ns)
    \<and> atoms_match (glob_atoms (segs qs)) (segs (drop (length ps) ns))"
  using assms
proof (induction ps arbitrary: ns)
  case (Cons p ps)
  obtain n ns' where ns: "ns = n # ns'" "ns' \<noteq> []" "atoms_match (glob_atoms p) n"
      "atoms_match (glob_atoms (segs (ps @ qs))) (segs ns')"
  proof (rule match_first)
    show "atoms_match (glob_atoms (segs (p # ps @ qs))) (segs ns)" using Cons.prems(1) by simp
    show "plain_part p" "ps @ qs \<noteq> []" "\<forall>n \<in> set ns. ''/'' \<notin> set n" using Cons.prems by simp_all
  qed
  have rest: "length ps \<le> length ns' \<and> (ps \<noteq> [] \<longrightarrow> length ps < length ns')
    \<and> list_all2 (\<lambda>p. atoms_match (glob_atoms p)) ps (take (length ps) ns')
    \<and> atoms_match (glob_atoms (segs qs)) (segs (drop (length ps) ns'))"
    using ns(1,4) Cons.prems(2-4) by (intro Cons.IH) simp_all
  have "length ns' > 0" using ns(2) by simp
  then show ?case using rest ns(3) unfolding ns(1) by (cases "ps = []") simp_all
qed simp

text \<open>And parts that match name by name match together.\<close>

lemma match_together:
  assumes "list_all2 (\<lambda>p. atoms_match (glob_atoms p)) ps ns" "\<forall>p \<in> set ps. plain_part p"
  shows "atoms_match (glob_atoms (segs ps)) (segs ns)"
  using assms
proof (induction ps ns rule: list_all2_induct)
  case (Cons p ps n ns)
  show ?case
  proof (cases "ps = []")
    case False
    then have "ns \<noteq> []" using Cons(2) by auto
    then have "glob_atoms (segs (p # ps)) = glob_atoms p @ Chr ''/'' # glob_atoms (segs ps)"
      "segs (n # ns) = n @ ''/'' # segs ns"
      using False Cons.prems by (simp_all add: segs_Cons glob_atoms_append plain_part_def)
    moreover have "atoms_match (Chr ''/'' # glob_atoms (segs ps)) (''/'' # segs ns)"
      using Cons.IH Cons.prems by simp
    ultimately show ?thesis
      using Cons.hyps(1) by (simp only: atoms_match_append) blast
  qed (use Cons.hyps in simp)
qed simp

section \<open>Texts by segments\<close>

definition good_name :: "string \<Rightarrow> bool" where
  "good_name x \<longleftrightarrow> x \<noteq> [] \<and> x \<noteq> ''.'' \<and> x \<noteq> ''..'' \<and> CHR ''/'' \<notin> set x \<and> valid_text x"

lemma good_name_wf: "good_name x \<Longrightarrow> wf_component (Normal x)"
  by (simp add: good_name_def wf_component_def)

lemma good_name_start: "good_name x \<Longrightarrow> x \<noteq> [] \<and> \<not> is_continuation (hd x)"
  by (cases x) (auto simp: good_name_def valid_text_def code_point_def)

lemma good_name_free: "good_name x \<Longrightarrow> ''/'' \<notin> set (chars x)"
proof
  assume "good_name x" "''/'' \<in> set (chars x)"
  then have "CHR ''/'' \<in> set (concat (chars x))"
    unfolding set_concat by (intro UN_I [of "''/''"]) simp_all
  then show False using \<open>good_name x\<close> by (simp add: good_name_def)
qed

lemma chars_join:
  assumes "\<forall>x \<in> set xs. good_name x"
  shows "chars (join ''/'' xs) = segs (map chars xs)"
  using assms
proof (induction xs rule: induct_list012)
  case (3 x y ys)
  have start: "join ''/'' (y # ys) \<noteq> [] \<and> \<not> is_continuation (hd (join ''/'' (y # ys)))"
    using 3(3) good_name_start [of y] by (cases ys) auto
  have "chars (''/'' @ join ''/'' (y # ys)) = chars ''/'' @ chars (join ''/'' (y # ys))"
    using start by (intro chars_append) simp
  moreover have "chars (x @ ''/'' @ join ''/'' (y # ys)) = chars x @ chars (''/'' @ join ''/'' (y # ys))"
    by (intro chars_append) (simp add: is_continuation_def)
  ultimately show ?case using 3 by simp
qed auto

lemma path_text_names:
  assumes "\<forall>x \<in> set xs. good_name x"
  shows "path_text (RootDir # map Normal xs) = ''/'' @ join ''/'' xs"
proof (cases "xs = []")
  case True
  then show ?thesis by (simp add: render_path_def push_path_def)
next
  case False
  have "render_path (RootDir # map Normal xs) = foldl push_path ''/'' (map component_str (map Normal xs))"
    by (simp add: render_path_def push_path_def is_absolute_def)
  also have "\<dots> = ''/'' @ join ''/'' (map component_str (map Normal xs))"
    using assms False good_name_wf by (intro render_relative(2)) auto
  finally show ?thesis by (simp add: comp_def)
qed

lemma chars_path_text:
  assumes "\<forall>x \<in> set xs. good_name x"
  shows "chars (path_text (RootDir # map Normal xs)) = ''/'' # segs (map chars xs)"
proof -
  have "chars (''/'' @ join ''/'' xs) = chars ''/'' @ chars (join ''/'' xs)"
  proof (rule chars_append)
    show "join ''/'' xs = [] \<or> \<not> is_continuation (hd (join ''/'' xs))"
      using assms good_name_start by (cases xs rule: remdups_adj.cases) fastforce+
  qed
  then show ?thesis using assms by (simp add: path_text_names chars_join)
qed

section \<open>Patterns by segments\<close>

text \<open>A pattern as the rules render it: clean names, the first ones without wildcards.\<close>

definition clean_pattern :: "string \<Rightarrow> string list \<Rightarrow> string list \<Rightarrow> bool" where
  "clean_pattern text roots parts \<longleftrightarrow>
     text = path_text (RootDir # map Normal (roots @ parts))
     \<and> (\<forall>x \<in> set (roots @ parts). good_name x) \<and> (\<forall>x \<in> set roots. \<not> has_glob x)
     \<and> roots \<noteq> [] \<and> parts \<noteq> [] \<and> has_glob (hd parts)"

abbreviation double :: "string \<Rightarrow> bool" where
  "double \<equiv> contains_str ''**''"

lemma double_adjacent: "\<not> no_double xs \<Longrightarrow> double (concat xs)"
proof (induction xs rule: no_double.induct)
  case (1 a b cs)
  show ?case
  proof (cases "a = ''*'' \<and> b = ''*''")
    case True
    then have "concat (a # b # cs) = [] @ ''**'' @ concat cs" by simp
    then show ?thesis unfolding contains_str_iff by blast
  next
    case False
    then have "double (concat (b # cs))" using 1 by auto
    then obtain u v where "concat (b # cs) = u @ ''**'' @ v" unfolding contains_str_iff by blast
    then have "concat (a # b # cs) = (a @ u) @ ''**'' @ v" by simp
    then show ?thesis unfolding contains_str_iff by blast
  qed
qed simp_all

lemma plain_name: "good_name x \<Longrightarrow> \<not> double x \<Longrightarrow> plain_part (chars x)"
  using double_adjacent [of "chars x"] good_name_free by (auto simp: plain_part_def)

lemma glob_free_plain: "\<not> has_glob x \<Longrightarrow> \<not> double x"
proof
  assume "\<not> has_glob x" "double x"
  then obtain u v where "x = u @ ''**'' @ v" unfolding contains_str_iff by blast
  then have "CHR ''*'' \<in> set x" by simp
  then show False using \<open>\<not> has_glob x\<close> by (auto simp: has_glob_def list_ex_iff)
qed

lemma code_points_segs: "\<forall>x \<in> set xs. list_all code_point x \<Longrightarrow> list_all code_point (segs xs)"
proof (induction xs rule: segs.induct)
  case (3 x y ys)
  have "code_point ''/''" by (simp add: code_point_def is_continuation_def)
  then show ?case using 3 by simp
qed simp_all

lemma valid_join:
  assumes "\<forall>x \<in> set xs. good_name x"
  shows "valid_text (join ''/'' xs)"
proof -
  have "\<forall>x \<in> set (map chars xs). list_all code_point x"
    using assms by (auto simp: good_name_def valid_text_def)
  then show ?thesis unfolding valid_text_def chars_join [OF assms] by (rule code_points_segs)
qed

lemma resolved_names: "\<forall>x \<in> set xs. good_name x \<Longrightarrow> resolved_path (RootDir # map Normal xs)"
  by (rule resolved_pathI) (auto intro: good_name_wf)

lemma takeWhile_split:
  "\<forall>x \<in> set xs. P x \<Longrightarrow> ys = [] \<or> \<not> P (hd ys) \<Longrightarrow> takeWhile P (xs @ ys) = xs"
  by (cases ys) auto

lemma clean_patternD:
  assumes "clean_pattern text roots parts"
  shows "scan_root text = RootDir # map Normal roots" "pattern_parts text = parts" "valid_text text"
proof -
  have good: "\<forall>x \<in> set (roots @ parts). good_name x" using assms unfolding clean_pattern_def by blast
  have comps: "components text = (RootDir # map Normal roots) @ map Normal parts"
    using assms resolved_components [OF resolved_names [OF good]] by (simp add: clean_pattern_def)
  have "takeWhile (\<lambda>c. \<not> glob_component c) ((RootDir # map Normal roots) @ map Normal parts)
      = RootDir # map Normal roots"
    using assms
    by (intro takeWhile_split) (auto simp: clean_pattern_def glob_component_def has_glob_def hd_map)
  then show root: "scan_root text = RootDir # map Normal roots" by (simp add: scan_root_def comps)
  show "pattern_parts text = parts" by (simp add: pattern_parts_def root comps comp_def)
  have "chars text = ''/'' # segs (map chars (roots @ parts))"
    using assms chars_path_text [OF good] by (simp add: clean_pattern_def)
  moreover have "list_all code_point (segs (map chars (roots @ parts)))"
    using good by (intro code_points_segs) (auto simp: good_name_def valid_text_def)
  ultimately show "valid_text text"
    by (simp add: valid_text_def code_point_def is_continuation_def)
qed

lemma plain_parts:
  "\<forall>x \<in> set xs. good_name x \<Longrightarrow> \<forall>x \<in> set xs. \<not> double x \<Longrightarrow> \<forall>p \<in> set (map chars xs). plain_part p"
  by (auto intro: plain_name)

text \<open>The pattern on the names below its root.\<close>

definition rel_match :: "string list \<Rightarrow> string list \<Rightarrow> bool" where
  "rel_match parts names \<longleftrightarrow> atoms_match (glob_atoms (segs (map chars parts))) (segs (map chars names))"

lemma scan_match_rel:
  assumes "regex_laws (sc_is_match e)" "clean_pattern text roots parts" "\<forall>x \<in> set names. good_name x"
    and "sc_is_match e (scan_regex text) (path_text (entry_path (scan_root text) names))"
  shows "rel_match parts names \<and> names \<noteq> []"
proof -
  have good: "\<forall>x \<in> set (roots @ parts). good_name x" "\<forall>x \<in> set (roots @ names). good_name x"
    using assms(2,3) by (auto simp: clean_pattern_def)
  have shape: "text = path_text (RootDir # map Normal (roots @ parts))" "roots \<noteq> []"
    using assms(2) by (simp_all add: clean_pattern_def)
  have entry: "entry_path (scan_root text) names = RootDir # map Normal (roots @ names)"
    using clean_patternD(1) [OF assms(2)] by (simp add: entry_path_def)
  have "atoms_match (glob_atoms (chars text)) (chars (path_text (entry_path (scan_root text) names)))"
    using assms(4) regex_scan_pattern [OF assms(1) clean_patternD(3) [OF assms(2)]] by simp
  then have "atoms_match (glob_atoms (''/'' # segs (map chars (roots @ parts))))
      (''/'' # segs (map chars (roots @ names)))"
    unfolding entry chars_path_text [OF good(2)] arg_cong [OF shape(1), of chars] chars_path_text [OF good(1)] .
  then have "atoms_match (glob_atoms (segs (map chars roots @ map chars parts)))
      (segs (map chars (roots @ names)))"
    by simp
  moreover have "\<forall>p \<in> set (map chars roots). plain_part p"
    using assms(2) glob_free_plain by (intro plain_parts) (auto simp: clean_pattern_def)
  moreover have "\<forall>n \<in> set (map chars (roots @ names)). ''/'' \<notin> set n"
    using good(2) by (auto dest: good_name_free)
  moreover have "map chars parts \<noteq> []" using assms(2) by (simp add: clean_pattern_def)
  ultimately have "(map chars roots \<noteq> [] \<longrightarrow> length (map chars roots) < length (map chars (roots @ names)))
      \<and> atoms_match (glob_atoms (segs (map chars parts)))
          (segs (drop (length (map chars roots)) (map chars (roots @ names))))"
    using match_parts by blast
  then show ?thesis using shape(2) by (auto simp: rel_match_def)
qed

lemma rel_match_depth:
  assumes "rel_match parts names" "names \<noteq> []" "parts \<noteq> []" "\<forall>x \<in> set (parts @ names). good_name x"
    and "\<forall>x \<in> set parts. \<not> double x"
  shows "length names = length parts"
proof -
  define ps q where "ps = map chars (butlast parts)" and "q = chars (last parts)"
  have parts: "map chars parts = ps @ [q]"
    unfolding ps_def q_def using append_butlast_last_id [OF assms(3)]
    by (metis list.simps(8,9) map_append)
  have plain: "\<forall>p \<in> set (ps @ [q]). plain_part p"
    unfolding parts [symmetric] using assms(4,5) by (intro plain_parts) auto
  have free: "\<forall>n \<in> set (map chars names). ''/'' \<notin> set n"
    using assms(4) by (auto dest: good_name_free)
  have "length ps \<le> length (map chars names)" "ps \<noteq> [] \<longrightarrow> length ps < length (map chars names)"
    "atoms_match (glob_atoms (segs [q])) (segs (drop (length ps) (map chars names)))"
    using match_parts [OF assms(1) [unfolded rel_match_def parts] _ _ free] plain by simp_all
  moreover from this(3) have "''/'' \<notin> set (segs (drop (length ps) (map chars names)))"
    using plain plain_atoms segment_match_free by simp
  then have "length (drop (length ps) (map chars names)) \<le> 1" by (rule segs_free)
  ultimately have "length names = Suc (length ps)"
    using assms(2) by (cases "ps = []") (auto simp: le_Suc_eq)
  then show ?thesis using arg_cong [OF parts, of length] by simp
qed

lemma rel_match_prefix:
  assumes "rel_match parts names" "\<forall>x \<in> set (parts @ names). good_name x"
    and "\<forall>x \<in> set (take n parts). \<not> double x" "n < length parts"
  shows "rel_match (take n parts) (take n names)"
proof -
  have split: "map chars parts = map chars (take n parts) @ map chars (drop n parts)"
    by (simp add: map_append [symmetric] del: map_append)
  have plain: "\<forall>p \<in> set (map chars (take n parts)). plain_part p"
    using assms(2,3) by (intro plain_parts) (auto dest: in_set_takeD)
  have free: "\<forall>n \<in> set (map chars names). ''/'' \<notin> set n"
    using assms(2) by (auto dest: good_name_free)
  have "list_all2 (\<lambda>p. atoms_match (glob_atoms p)) (map chars (take n parts))
      (take (length (map chars (take n parts))) (map chars names))"
    using match_parts [of "map chars (take n parts)" "map chars (drop n parts)" "map chars names"]
      assms(1,4) plain free unfolding rel_match_def split by (simp del: length_take)
  moreover have "take (length (map chars (take n parts))) (map chars names) = map chars (take n names)"
    using assms(4) by (simp add: take_map)
  ultimately show ?thesis using match_together plain unfolding rel_match_def by metis
qed

lemma compile_patternD:
  assumes "compile_pattern e text = Inr pt" "clean_pattern text roots parts"
  shows "pt = \<lparr>pt_text = text, pt_prefixes = pattern_prefixes parts,
               pt_recursive = list_ex double parts, pt_depth = length parts\<rparr>"
  using assms clean_patternD(2) by (auto simp: compile_pattern_def Let_def split: if_splits)

lemma descends_to_match:
  assumes laws: "regex_laws (sc_is_match e)" and pt: "compile_pattern e text = Inr pt"
    and clean: "clean_pattern text roots parts" and good: "\<forall>x \<in> set (ns @ ms). good_name x" and ms: "ms \<noteq> []"
    and match: "sc_is_match e (scan_regex text) (path_text (entry_path (scan_root text) (ns @ ms)))"
  shows "can_descend e pt ns"
proof -
  have rel: "rel_match parts (ns @ ms)" using scan_match_rel [OF laws clean good match] by blast
  have goods: "\<forall>x \<in> set (parts @ ns @ ms). good_name x" "parts \<noteq> []"
    using good clean by (auto simp: clean_pattern_def)
  define plain where "plain = takeWhile (\<lambda>part. \<not> double part) parts"
  define checked where "checked = min (length ns) (length plain)"
  have shallow: "length ns < length parts" if "\<not> list_ex double parts"
  proof -
    have "length (ns @ ms) = length parts"
      using rel_match_depth [OF rel _ goods(2)] goods(1) that ms by (auto simp: list_ex_iff)
    then show ?thesis using ms by (cases ms) auto
  qed
  have plain_take: "plain = take (length plain) parts"
    unfolding plain_def by (rule takeWhile_eq_take)
  have less: "checked < length parts"
  proof (cases "list_ex double parts")
    case True
    then obtain x where "x \<in> set parts" "double x" by (auto simp: list_ex_iff)
    then have "plain \<noteq> parts" unfolding plain_def by (metis takeWhile_eq_all_conv)
    then have "length plain < length parts"
      using plain_take by (metis linorder_not_le take_all)
    then show ?thesis by (simp add: checked_def)
  qed (use shallow in \<open>simp add: checked_def\<close>)
  have "take checked (take (length plain) parts) = take checked parts"
    by (simp add: checked_def min_def)
  then have same: "take checked plain = take checked parts" using plain_take by simp
  have "\<forall>x \<in> set (take checked parts). \<not> double x"
    unfolding same [symmetric] by (auto simp: plain_def dest!: in_set_takeD set_takeWhileD)
  then have "rel_match (take checked parts) (take checked (ns @ ms))"
    using rel goods less by (intro rel_match_prefix) auto
  moreover have "take checked (ns @ ms) = take checked ns" by (simp add: checked_def)
  ultimately have sub: "rel_match (take checked plain) (take checked ns)"
    by (simp only: same)
  have "sc_is_match e (scan_regex (pt_prefixes pt ! (checked - 1))) (join ''/'' (take checked ns))" if "checked \<noteq> 0"
  proof -
    have "pt_prefixes pt ! (checked - 1) = join ''/'' (take checked plain)"
    proof -
      have "checked - 1 < length plain" "Suc (checked - 1) = checked"
        using that min.cobounded2 [of "length ns" "length plain"] unfolding checked_def by linarith+
      then have "pattern_prefixes parts ! (checked - 1) = join ''/'' (take checked plain)"
        by (simp add: pattern_prefixes_def Let_def plain_def [symmetric])
      then show ?thesis using compile_patternD [OF pt clean] by simp
    qed
    moreover have "\<forall>x \<in> set (take checked plain). good_name x" "\<forall>x \<in> set (take checked ns). good_name x"
      using goods(1) by (auto simp: same dest: in_set_takeD)
    ultimately show ?thesis
      using sub regex_scan_pattern [OF laws valid_join] by (simp add: rel_match_def chars_join)
  qed
  moreover have "length (pt_prefixes pt) = length plain"
    using compile_patternD [OF pt clean] by (simp add: pattern_prefixes_def Let_def plain_def)
  ultimately show ?thesis
    using shallow compile_patternD [OF pt clean]
    by (auto simp: can_descend_def Let_def checked_def)
qed

section \<open>The walk finds every entry\<close>

abbreviation found :: "scan_state \<Rightarrow> string \<Rightarrow> path set" where
  "found st t \<equiv> set (st_found st t)"

definition entry_hits :: "scan_env \<Rightarrow> path \<Rightarrow> scan_pattern \<Rightarrow> string list \<Rightarrow> fs_node \<Rightarrow> path set" where
  "entry_hits e root pt names node =
     (if \<not> pt_recursive pt \<and> length names \<noteq> pt_depth pt then {}
      else if \<not> sc_is_match e (scan_regex (pt_text pt)) (path_text (entry_path root names)) then {}
      else insert (entry_path root names) (case node of Link_Node (Some target) \<Rightarrow> {target} | _ \<Rightarrow> {}))"

definition group_hits ::
  "scan_env \<Rightarrow> path \<Rightarrow> scan_pattern list \<Rightarrow> string \<Rightarrow> string list \<Rightarrow> fs_node \<Rightarrow> path set" where
  "group_hits e root pats t names node =
     (\<Union>pt \<in> set pats. if pt_text pt = t then entry_hits e root pt names node else {})"

lemma fold_res_union:
  assumes "fold_res f xs s = Inr s'" "\<And>x s s'. x \<in> set xs \<Longrightarrow> f x s = Inr s' \<Longrightarrow> g s' = g s \<union> h x"
  shows "g s' = g s \<union> (\<Union>x \<in> set xs. h x)"
  using assms
proof (induction xs arbitrary: s)
  case (Cons x xs)
  then obtain t where "f x s = Inr t" "fold_res f xs t = Inr s'" by (auto simp: and_then_Inr)
  moreover have "g t = g s \<union> h x" by (rule Cons.prems(2)) (simp_all add: calculation)
  moreover have "g s' = g t \<union> (\<Union>x \<in> set xs. h x)"
    by (rule Cons.IH [OF calculation(2)]) (simp add: Cons.prems(2))
  ultimately show ?case by (simp add: Un_assoc)
qed simp

lemma budget_found: "budget_check e st = Inr st' \<Longrightarrow> st_found st' = st_found st"
  by (auto simp: budget_check_def split: option.splits)

lemma record_found:
  "record_match text p st = Inr st' \<Longrightarrow> found st' t = found st t \<union> (if text = t then {p} else {})"
  by (auto simp: record_match_def Let_def split: if_splits)

lemma match_found:
  assumes "match_entry e root names node pt st = Inr st'"
  shows "found st' t = found st t \<union> (if pt_text pt = t then entry_hits e root pt names node else {})"
proof -
  obtain u where u: "budget_check e st = Inr u" "st_found u = st_found st"
    using assms budget_found by (auto simp: match_entry_def and_then_Inr)
  show ?thesis
  proof (cases "\<not> pt_recursive pt \<and> length names \<noteq> pt_depth pt
      \<or> \<not> sc_is_match e (scan_regex (pt_text pt)) (path_text (entry_path root names))")
    case True
    then show ?thesis using assms u by (auto simp: match_entry_def entry_hits_def split: if_splits)
  next
    case False
    define ps where "ps = entry_path root names # (case node of Link_Node (Some target) \<Rightarrow> [target] | _ \<Rightarrow> [])"
    have "fold_res (record_match (pt_text pt)) ps u = Inr st'"
      using False assms u by (auto simp: match_entry_def ps_def split: fs_node.splits option.splits if_splits)
    then have "found st' t = found u t \<union> (\<Union>p \<in> set ps. if pt_text pt = t then {p} else {})"
      by (rule fold_res_union) (rule record_found)
    moreover have "entry_hits e root pt names node = set ps"
      using False by (auto simp: entry_hits_def ps_def split: fs_node.splits option.splits)
    ultimately show ?thesis using u(2) by auto
  qed
qed

lemma visit_found:
  assumes "visit_entry e root pats names node st = Inr st'"
  shows "found st' t = found st t \<union> group_hits e root pats t names node"
proof -
  obtain u where u: "fold_res (match_entry e root names node) pats u = Inr st'" "st_found u = st_found st"
    using assms by (auto simp: visit_entry_def and_then_Inr dest!: budget_found split: if_splits)
  have "found st' t = found u t \<union> (\<Union>pt \<in> set pats. if pt_text pt = t then entry_hits e root pt names node else {})"
    by (rule fold_res_union [OF u(1)]) (rule match_found)
  then show ?thesis by (simp add: group_hits_def u(2))
qed

text \<open>Where a pattern has a hit below, the walk descends.\<close>

definition prunes_safely :: "scan_env \<Rightarrow> path \<Rightarrow> scan_pattern list \<Rightarrow> bool" where
  "prunes_safely e root pats \<longleftrightarrow>
     (\<forall>pt \<in> set pats. \<forall>ns ms n. (\<forall>x \<in> set (ns @ ms). good_name x) \<longrightarrow> ms \<noteq> []
        \<longrightarrow> entry_hits e root pt (ns @ ms) n \<noteq> {} \<longrightarrow> can_descend e pt ns)"

lemma entries_below:
  "(ns, n) \<in> set (tree_entries names node) \<Longrightarrow> \<exists>ms. ns = names @ ms"
  "(ns, n) \<in> set (list_entries names es) \<Longrightarrow> \<exists>ms. ms \<noteq> [] \<and> ns = names @ ms"
proof (induction names node and names es rule: tree_entries_list_entries.induct)
  case (1 names node)
  then show ?case by (cases node) auto
next
  case (3 names name node rest)
  then show ?case by fastforce
qed simp

definition good_entries :: "(string list \<times> fs_node) list \<Rightarrow> bool" where
  "good_entries es \<longleftrightarrow> (\<forall>(names, node) \<in> set es. \<forall>x \<in> set names. good_name x)"

lemma walk_found:
  "walk_node e root pats names node st = Inr st' \<Longrightarrow> prunes_safely e root pats
     \<Longrightarrow> good_entries (tree_entries names node)
     \<Longrightarrow> found st' t = found st t \<union> (\<Union>(ns, n) \<in> set (tree_entries names node). group_hits e root pats t ns n)"
  "walk_entries e root pats names es st = Inr st' \<Longrightarrow> prunes_safely e root pats
     \<Longrightarrow> good_entries (list_entries names es)
     \<Longrightarrow> found st' t = found st t \<union> (\<Union>(ns, n) \<in> set (list_entries names es). group_hits e root pats t ns n)"
proof (induction e root pats names node st and e root pats names es st arbitrary: st' and st'
    rule: walk_node_walk_entries.induct)
  case (1 e root pats names node st)
  obtain u where u: "visit_entry e root pats names node st = Inr u"
    using 1(2) by (auto split: sum.splits)
  note here = visit_found [OF u, of t]
  show ?case
  proof (cases node)
    case (Dir_Node es)
    show ?thesis
    proof (cases "list_ex (\<lambda>pt. can_descend e pt names) pats")
      case True
      then have walk: "walk_entries e root pats names es u = Inr st'" "length names < max_depth"
        using 1(2) u Dir_Node by (auto split: if_splits)
      have "good_entries (list_entries names es)" using 1(4) Dir_Node by (simp add: good_entries_def)
      then have "found st' t = found u t \<union> (\<Union>(ns, n) \<in> set (list_entries names es). group_hits e root pats t ns n)"
        using walk True 1(3) by (intro 1(1) [OF u Dir_Node]) auto
      then show ?thesis using here Dir_Node by auto
    next
      case False
      then have "st' = u" using 1(2) u Dir_Node by auto
      moreover have "group_hits e root pats t ns n = {}" if below: "(ns, n) \<in> set (list_entries names es)" for ns n
      proof -
        have "\<exists>ms. ms \<noteq> [] \<and> ns = names @ ms" using entries_below(2) [OF below] .
        then obtain ms where ns: "ms \<noteq> []" "ns = names @ ms" by blast
        have "\<forall>x \<in> set ns. good_name x" using 1(4) Dir_Node below by (auto simp: good_entries_def)
        then have "entry_hits e root pt ns n = {}" if "pt \<in> set pats" for pt
          using False 1(3) that ns unfolding prunes_safely_def list_ex_iff by blast
        then show ?thesis by (simp add: group_hits_def)
      qed
      ultimately show ?thesis using here Dir_Node by auto
    qed
  qed (use 1(2) u here in auto)
next
  case (3 e root pats names name node rest st)
  obtain u where u: "walk_node e root pats (names @ [name]) node st = Inr u"
      "walk_entries e root pats names rest u = Inr st'"
    using 3(3) by (auto split: sum.splits)
  have "good_entries (tree_entries (names @ [name]) node)" "good_entries (list_entries names rest)"
    using 3(5) by (auto simp: good_entries_def)
  then show ?case using 3(1) [OF u(1) 3(4)] 3(2) [OF u 3(4)] by (simp add: Un_assoc)
qed simp

section \<open>The groups hold every pattern\<close>

definition members :: "(path \<times> scan_pattern list) list \<Rightarrow> (path \<times> scan_pattern) set" where
  "members groups = (\<Union>(root, pts) \<in> set groups. Pair root ` set pts)"

definition compiled_of :: "scan_env \<Rightarrow> string \<Rightarrow> (path \<times> scan_pattern) set" where
  "compiled_of e t = (case compile_pattern e t of Inr pt \<Rightarrow> {(scan_root t, pt)} | Inl _ \<Rightarrow> {})"

lemma members_add: "members (add_to_group root pt groups) = insert (root, pt) (members groups)"
  by (induction root pt groups rule: add_to_group.induct) (auto simp: members_def)

definition filled :: "(path \<times> scan_pattern list) list \<Rightarrow> bool" where
  "filled groups \<longleftrightarrow> (\<forall>grp \<in> set groups. snd grp \<noteq> [])"

lemma filled_add: "filled groups \<Longrightarrow> filled (add_to_group root pt groups)"
  by (induction root pt groups rule: add_to_group.induct) (auto simp: filled_def)

definition grouped :: "scan_env \<Rightarrow> group_state \<Rightarrow> bool" where
  "grouped e g \<longleftrightarrow>
     st_found (gp_scan g) = (\<lambda>t. []) \<and> filled (gp_groups g)
     \<and> members (gp_groups g) = (\<Union>t \<in> set (gp_seen g). compiled_of e t)
     \<and> (\<forall>t \<in> set (gp_seen g). \<exists>pt. compile_pattern e t = Inr pt)"

lemma add_pattern_grouped: "add_pattern e t g = Inr g' \<Longrightarrow> grouped e g \<Longrightarrow> grouped e g'"
  by (auto simp: add_pattern_def and_then_Inr grouped_def members_add filled_add compiled_of_def
      dest: budget_found split: if_splits)

lemma add_pattern_seen: "add_pattern e t g = Inr g' \<Longrightarrow> set (gp_seen g') = set (gp_seen g) \<union> {t}"
  by (cases "t \<in> set (gp_seen g)") (auto simp: add_pattern_def and_then_Inr split: if_splits)

text \<open>The hits of one pattern of a group.\<close>

definition member_hits :: "scan_env \<Rightarrow> string \<Rightarrow> path \<times> scan_pattern \<Rightarrow> path set" where
  "member_hits e t m =
     (case sc_root e (fst m) of
        Root_Node node \<Rightarrow>
          (\<Union>(ns, n) \<in> set (tree_entries [] node). if pt_text (snd m) = t then entry_hits e (fst m) (snd m) ns n else {})
      | _ \<Rightarrow> {})"

lemma scan_group_found:
  assumes "scan_group e (root, pats) st = Inr st'" "prunes_safely e root pats"
    and "\<And>node. sc_root e root = Root_Node node \<Longrightarrow> good_entries (tree_entries [] node)"
  shows "found st' t = found st t \<union> (\<Union>pt \<in> set pats. member_hits e t (root, pt))"
proof -
  obtain u where u: "budget_check e st = Inr u" "st_found u = st_found st"
    using assms(1) budget_found by (auto simp: scan_group_def and_then_Inr)
  show ?thesis
  proof (cases "sc_root e root")
    case (Root_Node node)
    then obtain v where v: "walk_node e root pats [] node u = Inr v" "st_found st' = st_found v"
      using assms(1) u budget_found by (auto simp: scan_group_def and_then_Inr)
    have "found v t = found u t \<union> (\<Union>(ns, n) \<in> set (tree_entries [] node). group_hits e root pats t ns n)"
      by (rule walk_found(1) [OF v(1) assms(2) assms(3) [OF Root_Node]])
    also have "(\<Union>(ns, n) \<in> set (tree_entries [] node). group_hits e root pats t ns n)
        = (\<Union>pt \<in> set pats. member_hits e t (root, pt))"
      unfolding group_hits_def member_hits_def split_def
      by (simp only: Root_Node root_status.case fst_conv snd_conv) (rule SUP_commute)
    finally show ?thesis using v(2) u(2) by simp
  qed (use assms(1) u in \<open>auto simp: scan_group_def member_hits_def\<close>)
qed

section \<open>The scan is the reference\<close>

text \<open>A clean pattern with a root below \<open>/\<close>, over a tree of clean names.\<close>

definition scannable :: "scan_env \<Rightarrow> string \<Rightarrow> bool" where
  "scannable e text \<longleftrightarrow>
     (\<exists>roots parts. clean_pattern text roots parts)
     \<and> (\<forall>node. sc_root e (scan_root text) = Root_Node node \<longrightarrow> good_entries (tree_entries [] node))"

lemma compiled_text: "compile_pattern e text = Inr pt \<Longrightarrow> pt_text pt = text"
  by (auto simp: compile_pattern_def Let_def split: if_splits)

lemma clean_hits:
  assumes "regex_laws (sc_is_match e)" "compile_pattern e text = Inr pt" "clean_pattern text roots parts"
    and good: "\<forall>x \<in> set names. good_name x"
  shows "entry_hits e (scan_root text) pt names n =
     (if sc_is_match e (scan_regex text) (path_text (entry_path (scan_root text) names))
      then insert (entry_path (scan_root text) names) (case n of Link_Node (Some target) \<Rightarrow> {target} | _ \<Rightarrow> {})
      else {})"
proof -
  have "length names = pt_depth pt"
    if "\<not> pt_recursive pt" "sc_is_match e (scan_regex text) (path_text (entry_path (scan_root text) names))"
  proof -
    have "rel_match parts names" "names \<noteq> []" using scan_match_rel [OF assms(1,3) good that(2)] by blast+
    moreover have "\<forall>x \<in> set parts. \<not> double x" "parts \<noteq> []" "\<forall>x \<in> set (parts @ names). good_name x"
      using that(1) compile_patternD [OF assms(2,3)] assms(3) good by (auto simp: list_ex_iff clean_pattern_def)
    ultimately show ?thesis using rel_match_depth compile_patternD [OF assms(2,3)] by simp
  qed
  then show ?thesis by (auto simp: entry_hits_def compiled_text [OF assms(2)])
qed

lemma groups_prune_safely:
  assumes "regex_laws (sc_is_match e)"
    and "\<And>pt. pt \<in> set pats \<Longrightarrow>
      \<exists>text roots parts. compile_pattern e text = Inr pt \<and> scan_root text = root \<and> clean_pattern text roots parts"
  shows "prunes_safely e root pats"
  unfolding prunes_safely_def
proof (intro ballI allI impI)
  fix pt ns ms n
  assume pt: "pt \<in> set pats" and good: "\<forall>x \<in> set (ns @ ms). good_name x"
    and below: "ms \<noteq> []" "entry_hits e root pt (ns @ ms) n \<noteq> {}"
  obtain src roots parts where clean: "compile_pattern e src = Inr pt" "scan_root src = root"
      "clean_pattern src roots parts"
    using assms(2) [OF pt] by blast
  have "sc_is_match e (scan_regex src) (path_text (entry_path (scan_root src) (ns @ ms)))"
    using below(2) clean_hits [OF assms(1) clean(1,3) good] clean(2) by (auto split: if_splits)
  then show "can_descend e pt ns" by (rule descends_to_match [OF assms(1) clean(1,3) good below(1)])
qed

lemma member_hits_reference:
  assumes "regex_laws (sc_is_match e)" "compile_pattern e text = Inr pt" "scannable e text"
  shows "member_hits e text (scan_root text, pt) = set (matched_paths e text)"
proof (cases "sc_root e (scan_root text)")
  case (Root_Node node)
  obtain roots parts where clean: "clean_pattern text roots parts" using assms(3) by (auto simp: scannable_def)
  have hits: "entry_hits e (scan_root text) pt ns n
      = set (if sc_is_match e (scan_regex text) (path_text (entry_path (scan_root text) ns))
             then entry_path (scan_root text) ns # (case n of Link_Node (Some target) \<Rightarrow> [target] | _ \<Rightarrow> [])
             else [])" if below: "(ns, n) \<in> set (tree_entries [] node)" for ns n
  proof -
    have "\<forall>x \<in> set ns. good_name x"
      using assms(3) Root_Node below by (auto simp: scannable_def good_entries_def simp del: tree_entries.simps)
    then show ?thesis
      using clean_hits [OF assms(1,2) clean] by (auto split: fs_node.splits option.splits)
  qed
  show ?thesis
    unfolding member_hits_def matched_paths_def fst_conv snd_conv Root_Node root_status.case
      compiled_text [OF assms(2)] set_concat set_map image_image if_P [OF refl]
  proof (rule SUP_cong [OF refl])
    fix x
    assume "x \<in> set (tree_entries [] node)"
    then show "(case x of (ns, n) \<Rightarrow> entry_hits e (scan_root text) pt ns n)
        = set (case x of (ns, n) \<Rightarrow>
            if sc_is_match e (scan_regex text) (path_text (entry_path (scan_root text) ns))
            then entry_path (scan_root text) ns # (case n of Link_Node (Some target) \<Rightarrow> [target] | _ \<Rightarrow> [])
            else [])"
      using hits [of "fst x" "snd x"] by (simp only: prod.collapse split_def)
  qed
qed (simp_all add: member_hits_def matched_paths_def)

lemma compiled_hits:
  assumes "regex_laws (sc_is_match e)" "compile_pattern e text = Inr pt" "scannable e text"
  shows "(\<Union>m \<in> compiled_of e text. member_hits e t m) = (if text = t then set (matched_paths e t) else {})"
proof -
  have "compiled_of e text = {(scan_root text, pt)}" by (simp add: compiled_of_def assms(2))
  moreover have "member_hits e t (scan_root text, pt) = {}" if "text \<noteq> t"
    using that compiled_text [OF assms(2)] by (auto simp: member_hits_def split: root_status.splits)
  ultimately show ?thesis using member_hits_reference [OF assms] by auto
qed

text \<open>What grouping leaves: every pattern compiled, in the group of its root, and nothing else.\<close>

definition groups_for :: "scan_env \<Rightarrow> string list \<Rightarrow> (path \<times> scan_pattern list) list \<Rightarrow> bool" where
  "groups_for e patterns groups \<longleftrightarrow>
     members groups = (\<Union>t \<in> set patterns. compiled_of e t)
     \<and> (\<forall>t \<in> set patterns. \<exists>pt. compile_pattern e t = Inr pt) \<and> filled groups"

lemma groups_for_patterns:
  assumes g: "fold_res (add_pattern e) patterns
        \<lparr>gp_scan = \<lparr>st_checks = 0, st_visited = 0, st_found = (\<lambda>text. []), st_unique = [], st_bytes = 0\<rparr>,
         gp_seen = [], gp_groups = []\<rparr> = Inr g"
  shows "groups_for e patterns (gp_groups g) \<and> st_found (gp_scan g) = (\<lambda>t. [])"
proof -
  have "grouped e g"
  proof (rule fold_res_invariant [OF g])
    show "grouped e g'" if "grouped e s" "add_pattern e x s = Inr g'" for x s g'
      using add_pattern_grouped that by blast
  qed (simp add: grouped_def members_def filled_def)
  moreover have "set (gp_seen g) = set patterns"
    using fold_res_union [OF g, of "\<lambda>g. set (gp_seen g)" "\<lambda>t. {t}"] add_pattern_seen by auto
  ultimately show ?thesis by (auto simp: grouped_def groups_for_def)
qed

lemma groups_for_member:
  assumes "groups_for e patterns groups" "(root, pts) \<in> set groups" "pt \<in> set pts"
  shows "\<exists>src. src \<in> set patterns \<and> compile_pattern e src = Inr pt \<and> scan_root src = root"
proof -
  have "(root, pt) \<in> members groups" using assms(2,3) by (auto simp: members_def)
  then obtain src where src: "src \<in> set patterns" "(root, pt) \<in> compiled_of e src"
    using assms(1) unfolding groups_for_def by blast
  obtain c where "compile_pattern e src = Inr c" using assms(1) src(1) unfolding groups_for_def by blast
  then show ?thesis using src by (intro exI [of _ src]) (simp add: compiled_of_def)
qed

lemma scan_groups_found:
  assumes groups: "groups_for e patterns groups" and st: "fold_res (scan_group e) groups s0 = Inr st"
    and laws: "regex_laws (sc_is_match e)" and clean: "\<forall>text \<in> set patterns. scannable e text"
  shows "found st t = found s0 t \<union> (\<Union>grp \<in> set groups. \<Union>pt \<in> set (snd grp). member_hits e t (fst grp, pt))"
proof (rule fold_res_union [OF st])
  fix grp s s'
  assume grp: "grp \<in> set groups" "scan_group e grp s = Inr s'"
  obtain root pts where [simp]: "grp = (root, pts)" by (cases grp)
  have "prunes_safely e root pts"
    using groups_for_member [OF groups] grp(1) clean
    by (intro groups_prune_safely [OF laws]) (fastforce simp: scannable_def)
  moreover have "good_entries (tree_entries [] node)" if "sc_root e root = Root_Node node" for node
  proof -
    have "pts \<noteq> []" using grp(1) groups by (auto simp: groups_for_def filled_def)
    then obtain src where "src \<in> set patterns" "scan_root src = root"
      using groups_for_member [OF groups, of root pts "hd pts"] grp(1) by auto
    then show ?thesis using clean that unfolding scannable_def by blast
  qed
  ultimately show "found s' t = found s t \<union> (\<Union>pt \<in> set (snd grp). member_hits e t (fst grp, pt))"
    using scan_group_found [of e root pts s s' t] grp(2) by (simp del: tree_entries.simps)
qed

lemma groups_for_hits:
  assumes groups: "groups_for e patterns groups" and t: "t \<in> set patterns"
    and laws: "regex_laws (sc_is_match e)" and clean: "\<forall>text \<in> set patterns. scannable e text"
  shows "(\<Union>grp \<in> set groups. \<Union>pt \<in> set (snd grp). member_hits e t (fst grp, pt)) = set (matched_paths e t)"
proof -
  have "(\<Union>grp \<in> set groups. \<Union>pt \<in> set (snd grp). member_hits e t (fst grp, pt))
      = (\<Union>m \<in> members groups. member_hits e t m)"
    by (simp only: members_def UN_UN_flatten split_def image_image)
  also have "\<dots> = (\<Union>src \<in> set patterns. \<Union>m \<in> compiled_of e src. member_hits e t m)"
    using groups unfolding groups_for_def by (simp only: UN_UN_flatten)
  also have "\<dots> = (\<Union>src \<in> set patterns. if src = t then set (matched_paths e t) else {})"
  proof (rule SUP_cong [OF refl])
    fix src
    assume src: "src \<in> set patterns"
    obtain pt where "compile_pattern e src = Inr pt" using groups src unfolding groups_for_def by blast
    then show "(\<Union>m \<in> compiled_of e src. member_hits e t m) = (if src = t then set (matched_paths e t) else {})"
      using compiled_hits [OF laws] clean src by blast
  qed
  also have "\<dots> = set (matched_paths e t)" using t by auto
  finally show ?thesis .
qed

lemma glob_scan_finds:
  assumes scan: "scan_globs e patterns = Inr result"
    and laws: "regex_laws (sc_is_match e)"
    and clean: "\<forall>text \<in> set patterns. scannable e text"
    and t: "t \<in> set patterns"
  shows "set (result t) = set (matched_paths e t) \<and> sorted (result t)"
proof -
  obtain g st where patterns: "fold_res (add_pattern e) patterns
        \<lparr>gp_scan = \<lparr>st_checks = 0, st_visited = 0, st_found = (\<lambda>text. []), st_unique = [], st_bytes = 0\<rparr>,
         gp_seen = [], gp_groups = []\<rparr> = Inr g"
      and st: "fold_res (scan_group e) (gp_groups g) (gp_scan g) = Inr st"
      and result: "result = (\<lambda>text. sort (st_found st text))"
    using scan by (auto simp: scan_globs_def and_then_Inr)
  have g: "groups_for e patterns (gp_groups g)" "st_found (gp_scan g) = (\<lambda>t. [])"
    using groups_for_patterns [OF patterns] by simp_all
  have "found st t = set (matched_paths e t)"
    using scan_groups_found [OF g(1) st laws clean] groups_for_hits [OF g(1) t laws clean] g(2) by simp
  then show ?thesis by (simp add: result)
qed

text \<open>C14: A scan that succeeds has found, for each of its patterns, exactly the entries of the tree that
  the pattern's regex matches, and for a matching link its target too: neither the pruning of
  directories, nor the depth shortcut, nor the grouping of patterns by root loses or adds a path. The
  result of each pattern is in order. The patterns are as the rules render them: an absolute clean
  path whose names before the first wildcard are not empty, over trees whose names are valid text.
  Under the root directory alone the scan is not exact: \<open>/*\<close> matches the root, which is not returned.\<close>

theorem glob_scan_exact:
  assumes scan: "scan_globs e patterns = Inr result"
    and laws: "regex_laws (sc_is_match e)"
    and clean: "\<forall>text \<in> set patterns. scannable e text"
  shows "\<forall>text \<in> set patterns.
    set (result text) = set (matched_paths e text) \<and> sorted (result text)"
  using glob_scan_finds [OF assms] by blast

definition pem_scan :: scan_env where
  "pem_scan =
     \<lparr>sc_is_match = fragment_match, sc_compiles = (\<lambda>regex. True),
      sc_root = (\<lambda>root. Root_Node (Dir_Node
        [(''a.pem'', File_Node), (''k.key'', File_Node), (''sub'', Dir_Node [(''c.pem'', File_Node)]),
         (''b.pem'', Link_Node (Some [RootDir, Normal ''key'']))])),
      sc_stops = (\<lambda>n. None)\<rparr>"

lemma pem_matches:
  "fragment_match (scan_regex ''/ws/*.pem'') ''/ws/a.pem''" "fragment_match (scan_regex ''/ws/*.pem'') ''/ws/b.pem''"
  "\<not> fragment_match (scan_regex ''/ws/*.pem'') ''/ws/k.key''" "\<not> fragment_match (scan_regex ''/ws/*.pem'') ''/ws''"
  "\<not> fragment_match (scan_regex ''/ws/*.pem'') ''/ws/sub''"
  "\<not> fragment_match (scan_regex ''/ws/*.pem'') ''/ws/sub/c.pem''"
  by code_simp+

lemma pem_pattern: "scan_root ''/ws/*.pem'' = [RootDir, Normal ''ws'']" "pattern_parts ''/ws/*.pem'' = [''*.pem'']"
  "pattern_prefixes [''*.pem''] = [''*.pem'']" "\<not> double ''*.pem''"
  "path_text [RootDir, Normal ''ws'', Normal ''a.pem''] = ''/ws/a.pem''"
  "path_text [RootDir, Normal ''ws'', Normal ''b.pem''] = ''/ws/b.pem''"
  "path_text [RootDir, Normal ''ws'', Normal ''k.key''] = ''/ws/k.key''"
  "path_text [RootDir, Normal ''ws'', Normal ''sub''] = ''/ws/sub''"
  "path_text [RootDir, Normal ''ws''] = ''/ws''" "path_text [RootDir, Normal ''key''] = ''/key''"
  "path_text [RootDir, Normal ''ws'', Normal ''sub'', Normal ''c.pem''] = ''/ws/sub/c.pem''"
  by code_simp+

lemma pem_scannable: "scannable pem_scan ''/ws/*.pem''"
proof -
  have "clean_pattern ''/ws/*.pem'' [''ws''] [''*.pem'']" by code_simp
  moreover have "good_entries (tree_entries [] (Dir_Node
        [(''a.pem'', File_Node), (''k.key'', File_Node), (''sub'', Dir_Node [(''c.pem'', File_Node)]),
         (''b.pem'', Link_Node (Some [RootDir, Normal ''key'']))]))"
    by code_simp
  ultimately show ?thesis unfolding scannable_def by (auto simp: pem_scan_def)
qed

lemma pem_scan_ends: "\<exists>result. scan_globs pem_scan [''/ws/*.pem''] = Inr result"
  by (simp add: scan_globs_def add_pattern_def compile_pattern_def budget_check_def pem_scan_def pem_pattern
      Let_def scan_group_def visit_entry_def match_entry_def record_match_def entry_path_def pem_matches
      can_descend_def max_matches_def max_result_bytes_def max_patterns_def max_depth_def
      starts_with_def)

lemma glob_scan_exact_witness:
  "\<exists>result. scan_globs pem_scan [''/ws/*.pem''] = Inr result
     \<and> [RootDir, Normal ''key''] \<in> set (result ''/ws/*.pem'')
     \<and> [RootDir, Normal ''ws'', Normal ''k.key''] \<notin> set (result ''/ws/*.pem'')"
proof -
  obtain result where scan: "scan_globs pem_scan [''/ws/*.pem''] = Inr result" using pem_scan_ends by blast
  have "regex_laws (sc_is_match pem_scan)" by (simp add: pem_scan_def fragment_match_laws)
  then have "set (result ''/ws/*.pem'') = set (matched_paths pem_scan ''/ws/*.pem'')"
    using glob_scan_exact [OF scan] pem_scannable by simp
  also have "matched_paths pem_scan ''/ws/*.pem'' =
      [[RootDir, Normal ''ws'', Normal ''a.pem''], [RootDir, Normal ''ws'', Normal ''b.pem''], [RootDir, Normal ''key'']]"
    by code_simp
  finally show ?thesis using scan by auto
qed

end
