(* ===== verification/Scan_Protects.thy ===== *)
theory Scan_Protects
  imports Sandbox_Enforcement Scan_Exact
begin

text \<open>
  The mount plan compiled with the real directory scan: what the file tools refuse, the shell cannot
  reach, for every path whose matching ancestors were in the scanned trees.
\<close>

section \<open>The scan as the plan's glob expansion\<close>

definition in_tree :: "scan_env \<Rightarrow> path \<Rightarrow> path \<Rightarrow> bool" where
  "in_tree e root q \<longleftrightarrow>
     (\<exists>node names n. sc_root e root = Root_Node node \<and> (names, n) \<in> set (tree_entries [] node)
        \<and> q = entry_path root names)"

lemma in_tree_matched:
  assumes "regex_laws (sc_is_match e)" "scannable e pattern" "in_tree e (scan_root pattern) q"
    and "glob_matches pattern q"
  shows "q \<in> set (matched_paths e pattern)"
proof -
  obtain node names n where tree: "sc_root e (scan_root pattern) = Root_Node node"
      "(names, n) \<in> set (tree_entries [] node)" "q = entry_path (scan_root pattern) names"
    using assms(3) by (auto simp: in_tree_def)
  have "valid_text pattern" using assms(2) clean_patternD(3) by (auto simp: scannable_def)
  then have "sc_is_match e (scan_regex pattern) (path_text q)"
    using assms(1,4) by (simp add: regex_scan_pattern glob_matches_def matches_from_atoms)
  then show ?thesis using tree by (force simp: matched_paths_def simp del: tree_entries.simps)
qed

text \<open>A plan asks the scan one question.\<close>

lemma compile_one_scan:
  "scan (sn_patterns sn) = scan' (sn_patterns sn)
     \<Longrightarrow> compile_with_cancel digest_of fs scan sn = compile_with_cancel digest_of fs scan' sn"
  unfolding compile_with_cancel_def expand_globs_def Let_def by (cases "sn_errors sn") simp_all

definition asked_once :: "'a list \<Rightarrow> ('a list \<Rightarrow> string + 'b) \<Rightarrow> 'a list \<Rightarrow> string + 'b" where
  "asked_once patterns scan = (\<lambda>asked. if asked = patterns then scan patterns else Inl ''glob_scan_io_error'')"

lemma asked_scan_sees:
  assumes "regex_laws (sc_is_match e)" "\<forall>pattern \<in> set patterns. scannable e pattern"
    and "\<forall>pattern \<in> set patterns. \<forall>q \<in> set (prefixes p). glob_matches pattern q \<longrightarrow> in_tree e (scan_root pattern) q"
  shows "scan_sees (asked_once patterns (scan_globs e)) p"
  unfolding scan_sees_def
proof (intro allI impI ballI)
  fix asked result pattern q
  assume "asked_once patterns (scan_globs e) asked = Inr result"
  then have scan: "scan_globs e patterns = Inr result" "asked = patterns"
    by (auto simp: asked_once_def split: if_splits)
  assume "pattern \<in> set asked" "q \<in> set (prefixes p)" "glob_matches pattern q"
  then show "q \<in> set (result pattern)"
    using glob_scan_finds [OF scan(1) assms(1,2)] in_tree_matched [OF assms(1)] assms(2,3) scan(2) by blast
qed

text \<open>C12: The shell sandbox and the directory scan together enforce the rules, within the limits of
  mounts: with the globs expanded by the scan of the trees, a path the mounts leave readable is one
  the file tools may read, and a path they leave writable is one they may write when the workspace and
  temporary roots above it are themselves writable under the rules. The limits: no allowance is a
  glob, and a literal one reaches nothing below its target; every pattern can be scanned and every
  ancestor of the path that it matches was in the scanned tree (a file created later is not seen);
  and no protected path above, missing when the plan was made, was left out of it.\<close>

theorem scanned_shell_keeps_the_rules:
  assumes "compile_with_cancel digest_of fs (scan_globs se) (rules_snapshot cells rs) = Inr plan"
    and "regex_laws (re_is_match e)" "regex_laws (sc_is_match se)"
    and "\<forall>r \<in> set (concat (profile_layers cells rs)). compiled_rule r"
    and "\<forall>r \<in> set (snapshot_rules (rules_snapshot cells rs)). exact_allow p r"
    and "\<forall>pattern \<in> set (sn_patterns (rules_snapshot cells rs)). scannable se pattern
           \<and> (\<forall>q \<in> set (prefixes p). glob_matches pattern q \<longrightarrow> in_tree se (scan_root pattern) q)"
    and "\<forall>m \<in> set (lp_omitted_missing plan). \<not> path_within p m"
  shows "(shell_readable (plan_mounts plan) p \<longrightarrow> evaluate e cells rs p OpRead = Allow)
    \<and> (shell_writable (plan_mounts plan) p
        \<longrightarrow> (\<forall>root \<in> set (rs_workspace rs # rs_temp_roots rs).
               path_within p root \<longrightarrow> evaluate e cells rs root OpWrite = Allow)
        \<longrightarrow> evaluate e cells rs p OpWrite = Allow)"
proof -
  define sn where "sn = rules_snapshot cells rs"
  have compile: "compile_with_cancel digest_of fs (asked_once (sn_patterns sn) (scan_globs se)) sn = Inr plan"
    using assms(1) compile_one_scan [of "scan_globs se" sn "asked_once (sn_patterns sn) (scan_globs se)"]
    by (simp add: sn_def asked_once_def)
  have sees: "scan_sees (asked_once (sn_patterns sn) (scan_globs se)) p"
    using assms(3,6) by (intro asked_scan_sees) (auto simp: sn_def)
  have roots: "sn_roots sn = rs_workspace rs # rs_temp_roots rs" by (simp add: sn_def rules_snapshot_def)
  note verdict = snapshot_verdict_evaluate [OF assms(2,4), folded sn_def]
  show ?thesis
    using shell_read_verdict [OF compile assms(5) [folded sn_def] sees assms(7)]
      shell_write_verdict [OF compile assms(5) [folded sn_def] sees assms(7)]
    unfolding verdict roots by blast
qed

section \<open>A workspace with keys\<close>

abbreviation pem_ws :: path where
  "pem_ws \<equiv> [RootDir, Normal ''ws'']"

definition pem_rules :: "decision \<Rightarrow> rule_set" where
  "pem_rules d =
     \<lparr>rs_workspace = pem_ws, rs_temp_roots = [], rs_overrides = [], rs_guards = [], rs_execution = [],
      rs_session = 0, rs_workspace_rules = [],
      rs_user_rules = [\<lparr>pr_matcher = Glob ''/ws/*.pem'' (build_glob_regex ''/ws/*.pem''),
                        pr_access = AccBoth, pr_decision = d\<rparr>],
      rs_errors = []\<rparr>"

definition pem_flat :: "decision \<Rightarrow> flat_rule" where
  "pem_flat d = (5, 0, User, \<lparr>rn_matcher = SGlob ''/ws/*.pem'', rn_access = AccBoth, rn_decision = d\<rparr>)"

lemma pem_snapshot:
  "sn_errors (rules_snapshot [[]] (pem_rules d)) = []" "sn_roots (rules_snapshot [[]] (pem_rules d)) = [pem_ws]"
  "flatten_rules (rules_snapshot [[]] (pem_rules d)) = [pem_flat d]"
  "sn_patterns (rules_snapshot [[]] (pem_rules d)) = [''/ws/*.pem'']"
  by (simp_all add: rules_snapshot_def pem_rules_def flatten_rules_def profile_layers_def session_rules_def
      rule_snapshot_of_def pem_flat_def glob_pattern_def flat_snapshot_def)

lemma pem_pattern_of: "glob_pattern (flat_snapshot (pem_flat d)) = Some ''/ws/*.pem''"
  by (simp add: glob_pattern_def flat_snapshot_def pem_flat_def)

lemma pem_glob_valid: "validate_glob ''/ws/*.pem'' = Inr ()"
  by code_simp

lemma pem_glob_hits:
  "glob_matches ''/ws/*.pem'' (pem_ws @ [Normal ''a.pem''])" "glob_matches ''/ws/*.pem'' (pem_ws @ [Normal ''b.pem''])"
  "\<not> glob_matches ''/ws/*.pem'' [RootDir, Normal ''key'']"
  by code_simp+

definition pem_found :: "path list" where
  "pem_found = [[RootDir, Normal ''key''], pem_ws @ [Normal ''a.pem''], pem_ws @ [Normal ''b.pem'']]"

lemma pem_sorted: "sort [pem_ws @ [Normal ''a.pem''], pem_ws @ [Normal ''b.pem''], [RootDir, Normal ''key'']] = pem_found"
  by code_simp

lemma pem_result:
  "\<exists>result. scan_globs pem_scan [''/ws/*.pem''] = Inr result \<and> result ''/ws/*.pem'' = pem_found"
  unfolding pem_sorted [symmetric]
  by (simp add: scan_globs_def add_pattern_def compile_pattern_def budget_check_def pem_scan_def pem_pattern
      Let_def scan_group_def visit_entry_def match_entry_def record_match_def entry_path_def pem_matches
      can_descend_def max_matches_def max_result_bytes_def max_patterns_def max_depth_def
      starts_with_def)

lemma pem_plan:
  assumes "apply_rules all_present [pem_flat d] (\<lambda>pattern. pem_found) [pem_flat d]
       \<lparr>ps_writable = [pem_ws], ps_read_only = [], ps_unreadable = [], ps_reopened = [],
        ps_reopened_read_only = [], ps_missing = []\<rparr> = Inr st"
    and "mount_count (finish_plan st [(''/ws/*.pem'', pem_found)] '''') \<le> 10"
  shows "compile_with_cancel (\<lambda>sn. Inr ''digest'') all_present (scan_globs pem_scan) (rules_snapshot [[]] (pem_rules d))
     = Inr (finish_plan st [(''/ws/*.pem'', pem_found)] ''digest'')"
proof -
  obtain result where result: "scan_globs pem_scan [''/ws/*.pem''] = Inr result" "result ''/ws/*.pem'' = pem_found"
    using pem_result by blast
  have "rn_matcher (flat_snapshot (pem_flat d)) = SGlob ''/ws/*.pem''"
    by (simp add: pem_flat_def flat_snapshot_def)
  then have "apply_rules all_present [pem_flat d] result [pem_flat d] st0
      = apply_rules all_present [pem_flat d] (\<lambda>pattern. pem_found) [pem_flat d] st0" for st0
    by (cases "fold_res (apply_rule all_present [pem_flat d] (pem_flat d)) pem_found st0")
      (simp_all add: apply_rules_def rule_paths_def result(2))
  then show ?thesis
    using compile_scanned [of "rules_snapshot [[]] (pem_rules d)" "[pem_flat d]" "[''/ws/*.pem'']"
        "scan_globs pem_scan" result all_present st "''digest''"] assms result
    by (simp add: pem_snapshot pem_pattern_of map_filter_simps pem_glob_valid validate_absolute_def)
qed

lemma pem_denied:
  "apply_rules all_present [pem_flat Ask] (\<lambda>pattern. pem_found) [pem_flat Ask]
     \<lparr>ps_writable = [pem_ws], ps_read_only = [], ps_unreadable = [], ps_reopened = [],
      ps_reopened_read_only = [], ps_missing = []\<rparr>
   = Inr \<lparr>ps_writable = [pem_ws], ps_read_only = [], ps_unreadable = pem_found, ps_reopened = [],
      ps_reopened_read_only = [], ps_missing = []\<rparr>"
  by (simp add: apply_rules_def pem_flat_def pem_found_def plan_simps)

lemma pem_allowed:
  "apply_rules all_present [pem_flat Allow] (\<lambda>pattern. pem_found) [pem_flat Allow]
     \<lparr>ps_writable = [pem_ws], ps_read_only = [], ps_unreadable = [], ps_reopened = [],
      ps_reopened_read_only = [], ps_missing = []\<rparr>
   = Inr \<lparr>ps_writable = pem_ws # pem_found, ps_read_only = [], ps_unreadable = [], ps_reopened = [],
      ps_reopened_read_only = [], ps_missing = []\<rparr>"
  by (simp add: apply_rules_def pem_flat_def pem_found_def plan_simps pem_glob_hits [simplified])

lemma scanned_shell_keeps_the_rules_witness:
  "\<exists>plan. compile_with_cancel (\<lambda>sn. Inr ''digest'') all_present (scan_globs pem_scan)
             (rules_snapshot [[]] (pem_rules Ask)) = Inr plan
     \<and> \<not> shell_readable (plan_mounts plan) (pem_ws @ [Normal ''a.pem''])"
proof -
  define plan where "plan = finish_plan
     \<lparr>ps_writable = [pem_ws], ps_read_only = [], ps_unreadable = pem_found, ps_reopened = [],
      ps_reopened_read_only = [], ps_missing = []\<rparr> [(''/ws/*.pem'', pem_found)] ''digest''"
  have plan: "compile_with_cancel (\<lambda>sn. Inr ''digest'') all_present (scan_globs pem_scan)
      (rules_snapshot [[]] (pem_rules Ask)) = Inr plan"
    unfolding plan_def by (rule pem_plan [OF pem_denied]) code_simp
  have laws: "regex_laws (re_is_match glob_env)" "regex_laws (sc_is_match pem_scan)"
    by (simp_all add: glob_env_laws pem_scan_def fragment_match_laws)
  have rules: "concat (profile_layers [[]] (pem_rules Ask)) = rs_user_rules (pem_rules Ask)"
    by (simp add: profile_layers_def pem_rules_def session_rules_def)
  have "valid_text ''/ws/*.pem''" by code_simp
  then have compiled: "\<forall>r \<in> set (concat (profile_layers [[]] (pem_rules Ask))). compiled_rule r"
    unfolding rules by (simp add: pem_rules_def compiled_rule_def)
  have exact: "\<forall>r \<in> set (snapshot_rules (rules_snapshot [[]] (pem_rules Ask))). exact_allow p r" for p
    unfolding snapshot_rules_of rules by (simp add: pem_rules_def exact_allow_def rule_snapshot_of_def)
  have "in_tree pem_scan pem_ws (pem_ws @ [Normal ''a.pem''])"
    unfolding in_tree_def pem_scan_def by (intro exI [of _ "[''a.pem'']"] exI) (auto simp: entry_path_def)
  moreover have "prefixes (pem_ws @ [Normal ''a.pem'']) =
      [[], [RootDir], pem_ws, pem_ws @ [Normal ''a.pem'']]" by simp
  moreover have "\<not> glob_matches ''/ws/*.pem'' []" "\<not> glob_matches ''/ws/*.pem'' [RootDir]"
    "\<not> glob_matches ''/ws/*.pem'' pem_ws"
    by code_simp+
  ultimately have seen: "\<forall>pattern \<in> set (sn_patterns (rules_snapshot [[]] (pem_rules Ask))).
      scannable pem_scan pattern \<and> (\<forall>q \<in> set (prefixes (pem_ws @ [Normal ''a.pem''])).
        glob_matches pattern q \<longrightarrow> in_tree pem_scan (scan_root pattern) q)"
    unfolding pem_snapshot by (simp add: pem_pattern_of map_filter_simps pem_scannable pem_pattern)
  have present: "lp_omitted_missing plan = []" by (simp add: plan_def finish_plan_def Let_def normalize_exact_def)
  have "evaluate glob_env [[]] (pem_rules Ask) (pem_ws @ [Normal ''a.pem'']) OpRead = Ask"
  proof -
    have "re_is_match glob_env (build_glob_regex ''/ws/*.pem'') (path_text (pem_ws @ [Normal ''a.pem'']))"
      unfolding glob_env_def by code_simp
    then show ?thesis
      by (simp add: evaluate_def pem_rules_def session_rules_def rule_matches_def matcher_matches_def)
  qed
  then show ?thesis
    using scanned_shell_keeps_the_rules [OF plan laws compiled exact seen] plan present by auto
qed

section \<open>An allowance through a link\<close>

text \<open>The scan reports the target of a matching link beside the link, which is what a protection
  needs; an allowing glob opens the target too. In \<open>pem_scan\<close>, \<open>/ws/b.pem\<close> is a link to \<open>/key\<close>, and a rule allows
  \<open>/ws/*.pem\<close>: the shell may write below \<open>/key\<close>, where the file tools ask.\<close>

theorem glob_allow_opens_link_target:
  "evaluate glob_env [[]] (pem_rules Allow) [RootDir, Normal ''key'', Normal ''x''] OpWrite = Ask
   \<and> (\<exists>plan. compile_with_cancel (\<lambda>sn. Inr ''digest'') all_present (scan_globs pem_scan)
               (rules_snapshot [[]] (pem_rules Allow)) = Inr plan
        \<and> shell_writable (plan_mounts plan) [RootDir, Normal ''key'', Normal ''x''])"
proof -
  have "\<not> re_is_match glob_env (build_glob_regex ''/ws/*.pem'') (path_text [RootDir, Normal ''key'', Normal ''x''])"
    unfolding glob_env_def by code_simp
  then have "evaluate glob_env [[]] (pem_rules Allow) [RootDir, Normal ''key'', Normal ''x''] OpWrite = Ask"
    by (simp add: evaluate_def pem_rules_def session_rules_def rule_matches_def matcher_matches_def
        path_within_prefix fallback_def)
  moreover have "compile_with_cancel (\<lambda>sn. Inr ''digest'') all_present (scan_globs pem_scan)
      (rules_snapshot [[]] (pem_rules Allow)) = Inr (finish_plan
        \<lparr>ps_writable = pem_ws # pem_found, ps_read_only = [], ps_unreadable = [], ps_reopened = [],
         ps_reopened_read_only = [], ps_missing = []\<rparr> [(''/ws/*.pem'', pem_found)] ''digest'')"
    by (rule pem_plan [OF pem_allowed]) code_simp
  moreover have "shell_writable (plan_mounts (finish_plan
        \<lparr>ps_writable = pem_ws # pem_found, ps_read_only = [], ps_unreadable = [], ps_reopened = [],
         ps_reopened_read_only = [], ps_missing = []\<rparr> [(''/ws/*.pem'', pem_found)] ''digest''))
      [RootDir, Normal ''key'', Normal ''x'']"
    by code_simp
  ultimately show ?thesis by blast
qed

end
