(* ===== verification/Spec2Isabelle.thy ===== *)
theory Spec2Isabelle
  imports Decision Supervision Task_Host Session_Runs Scan_Protects
begin

text \<open>
  \<^bold>\<open>The goal control plane, the scheduled tasks, the session scheduling and the path sandbox of FutureOS.\<close>

  FutureOS runs long-lived goals: a goal is a ledger of todos that several agents work on. The
  control plane (\<open>src/orchestration/goal/src/\<close>) decides, each time an agent asks, what that
  agent should do next: deliver one todo, ask the user, poll a monitor, replan, wait or stop. The
  decision is a pure function of the replayed goal, the clock and the asking agent. Next to it the
  host runs scheduled tasks: prompts with a trigger, kept in a database, claimed by a tick and executed
  in a conversation. Below both, the agent runs prompts: each session keeps the accepted ones in a queue
  and executes one run at a time, under a lease that fences off the runs before it. What a run may touch is
  decided by path rules: a verdict for each file a tool names, and mounts for a shell command. This
  development models and verifies the four. The rest of the repository (the model loop and the tools of
  the agent, command line, channels, user interfaces) is a client of them or carries I/O and is outside
  the development.

  \<^bold>\<open>Theories and code.\<close> Paths without \<open>src/\<close> are below
  \<open>src/orchestration/goal/src/\<close>.

  \<^item> \<open>Prelude\<close>: machine types, UTF-8 strings as byte strings, the part of the Rust standard
    library the code uses (\<open>trim\<close>, \<open>split\<close>, decimal printing, saturating arithmetic, stable
    sorting), and the fact collections \<open>kernel_simps\<close> and friends.
  \<^item> \<open>Goal_State\<close>: \<open>state.rs\<close>. The records \<open>todo\<close>, \<open>goal\<close> and their parts, the constructors
    and mutators, liveness and blocking of todos, delivery outcomes, closure.
  \<^item> \<open>Contract\<close>: \<open>contract.rs\<close>, \<open>quota/error_codes.rs\<close>, the wire names of \<open>compat.rs\<close>: the
    packet a decision emits and the codes in it.
  \<^item> \<open>Slot_Accounting\<close>: \<open>quota/slot_accounting.rs\<close>, the spend of a run history.
  \<^item> \<open>Signals\<close>: \<open>decision/oscillation.rs\<close>, \<open>decision/stall.rs\<close>, \<open>decision/monitor.rs\<close>.
  \<^item> \<open>Frontier\<close>: \<open>decision/frontier.rs\<close> and \<open>agents/scope.rs\<close>: the runnable lane of an agent
    and what an agent sees of the other agents' work.
  \<^item> \<open>Goal_Frontier\<close>: \<open>decision/goal_frontier/\<close> and \<open>work_items/replan_obligation.rs\<close>: outcome
    segments, semantic history, the terminal judgement and the replan rules.
  \<^item> \<open>Arbitration\<close>: \<open>decision/arbitration.rs\<close>: the structural checks of a packet and the
    fail-closed rewrite of one that fails them.
  \<^item> \<open>Decision\<close>: \<open>decision/mod.rs\<close> and its helpers: \<open>decide_for\<close>, step by step as the code
    has it.
  \<^item> \<open>Task_Lease\<close>: \<open>work_items/task_lease.rs\<close>: the lease of a todo, and runs of lease commands.
  \<^item> \<open>Task_Graph\<close>: \<open>work_items/task_graph.rs\<close>: dependency edges, the cycle search of a change,
    the topological sort and the validated graph.

  \<^item> \<open>Scheduler_State\<close>: \<open>scheduler/state.rs\<close> and the cadence part of
    \<open>scheduler/monitor_poll.rs\<close>: recurrence rules, cadences, the scheduler state and its
    progression, the cache of host failures.
  \<^item> \<open>Workspace_Guard\<close>: \<open>agents/workspace_guard.rs\<close>: POSIX path components, normalisation,
    overlap, and the conflicts of a write set with the live leases of other agents.
  \<^item> \<open>Events\<close>: the event type, ids and fingerprints of \<open>store.rs\<close>, the line migration of
    \<open>migration.rs\<close>, the directory names of goals.
  \<^item> \<open>Replay\<close>: \<open>apply\<close> of \<open>store.rs\<close>, one arm per event kind, and the fold.
  \<^item> \<open>Ledger\<close>: the store of \<open>store.rs\<close>: locked append, reader, verifier, registry, schema
    stamp, guarded todo changes, replay, runs, backup and restore.
  \<^item> \<open>Claim\<close>: \<open>try_claim_todo_with_workspace\<close> of \<open>store.rs\<close> and the lease commands of
    \<open>console.rs\<close>.
  \<^item> \<open>Delivery\<close>: \<open>work_items/delivery.rs\<close>, \<open>work_items/delivery_outcome.rs\<close>, \<open>completion.rs\<close>,
    \<open>validator.rs\<close>: scales and outcomes of deliveries, the delivery cycle, the evidence floor and
    the receipts of validators.
  \<^item> \<open>Executor\<close>: \<open>executor.rs\<close> and \<open>turn_envelope.rs\<close>: failure classification, retry bounds, the
    writeback of a turn, the packet a worker reads.
  \<^item> \<open>Console\<close>: the commands of \<open>console.rs\<close> that change a goal, as plans that fail or list their
    steps.
  \<^item> \<open>Supervision\<close>: \<open>agents/supervision.rs\<close>, \<open>agents/control.rs\<close>, \<open>agents/lane.rs\<close>: the outbox of
    notes to the supervisor, the sweep, the steering instructions.

  \<^item> \<open>Task_Schedule\<close>: \<open>types.rs\<close>, \<open>kernel.rs\<close> and \<open>timezone.rs\<close> of \<open>src/orchestration/tasks/src/\<close>: the
    next slot of a schedule, prompt versions, the prompt of a run.
  \<^item> \<open>Task_Store\<close>: \<open>store.rs\<close> of the same crate: columns and rows, the statements on the tables of
    tasks, runs and prompt versions, and the constraints of the schema as an invariant.
  \<^item> \<open>Task_Service\<close>: \<open>src/host/src/tasks/service.rs\<close> and the shared operations of
    \<open>src/host/src/tasks.rs\<close>: what a user does to a task.
  \<^item> \<open>Task_Host\<close>: \<open>src/host/src/tasks.rs\<close>: reaping, claims, executors and their guards, and one host
    as a step relation with the users' edits and restarts.

  \<^item> \<open>Run_Queue\<close>: \<open>scheduler_queue.rs\<close> and \<open>run_request.rs\<close> of \<open>src/agent/src/runtime/\<close>: the prompt queue
    of a session (\<open>run_queue\<close>), the budget all sessions share (\<open>queue_budget\<close>), every operation, and the
    invariant \<open>queue_inv\<close> each of them keeps.
  \<^item> \<open>Queue_Runs\<close>: sequences of queue operations of one session, and of all sessions over one budget.
  \<^item> \<open>Run_Control\<close>: \<open>run_state.rs\<close> and \<open>session_runtime.rs\<close> of the same directory: the active run and its
    lease (\<open>run_control\<close>), the task slot, the cancellation timer and the completion monitor
    (\<open>session_runtime\<close>).
  \<^item> \<open>Run_Ownership\<close>: the runtime as a step relation, its invariant, and who owns a session.
  \<^item> \<open>Session_Queue\<close>: the scheduling part of \<open>src/agent/src/rpc/session_prompt.rs\<close> and \<open>session.rs\<close>: one
    session (\<open>agent_session\<close>) over its queue and its runtime, from accepting a prompt to the wake-up after
    a run.
  \<^item> \<open>Session_Start\<close>, \<open>Session_Runs\<close>: what one call of a session does, and all interleavings of its calls
    with the steps of its runtime.

  \<^item> \<open>Sandbox_Paths\<close>: \<open>paths.rs\<close> of \<open>src/agent/src/sandbox/\<close>: resolution, canonicalisation and containment
    of paths.
  \<^item> \<open>Approval_Rules\<close>, \<open>Rule_Verdicts\<close>: \<open>rules.rs\<close> of the same directory: matchers, rule files, built-in
    layers, the rule set (\<open>rule_set\<close>, with the session rules in a store of shared cells), verdicts, session
    rules and the grants of one command; and what they decide.
  \<^item> \<open>Sandbox_Glob\<close>: the three glob matchers (\<open>rules.rs\<close>, \<open>linux/plan.rs\<close>, \<open>linux/glob_scan.rs\<close>).
  \<^item> \<open>Sandbox_Plan\<close>, \<open>Sandbox_Enforcement\<close>: \<open>linux/plan.rs\<close> and the mounts of \<open>linux/runner.rs\<close>: the snapshot
    of a rule set compiled to mounts (\<open>linux_plan\<close>), and what those mounts let a command do.
  \<^item> \<open>Glob_Scan\<close>, \<open>Scan_Exact\<close>, \<open>Scan_Protects\<close>: \<open>linux/glob_scan.rs\<close>: the bounded scan that expands the
    globs of a plan, its exactness, and the plan compiled with it.

  The file tools ask the rule set for a verdict on each path (\<open>evaluate\<close>); a shell command gets mounts
  compiled from a snapshot of the same rules. \<open>Scan_Protects\<close> relates the two.

  In the session the queue and the runtime are two machines that only the session keeps together: a start
  begins a run in the runtime and takes the front of the queue, the completion of a run reaches a worker
  that releases the queue's active run and starts the next (\<open>Session_Queue\<close>).

  The parts of a goal meet in the ledger: a command appends events under the lock (\<open>Ledger\<close>, \<open>Claim\<close>), a
  reader folds them into a goal (\<open>Replay\<close>), and the kernel decides on that goal (\<open>Decision\<close>).

  \<^bold>\<open>How the code is modelled.\<close> A struct is a record whose fields carry a short prefix
  (\<open>t_\<close> todo, \<open>g_\<close> goal, \<open>r_\<close> run record, \<open>k_\<close> scheduled task, ...), an enum a datatype. A method on \<open>&mut self\<close>
  returns the new value. \<open>Result\<close> is a sum whose left part is the error text, a panic is the
  outer \<open>None\<close>. A \<open>String\<close> is its list of UTF-8 bytes, so literals outside ASCII appear as
  named byte strings and comparison is the bytewise order of Rust. \<open>SystemTime\<close> is a signed
  number of nanoseconds since the epoch, epoch seconds and counters are naturals, with saturation,
  checks and casts written where the code has them; sums of an epoch and a TTL of at most a day are
  not wrapped. \<open>f64\<close> values the code only stores or prints are their 64 bits. Maps the code only
  looks up are maps, maps it iterates are sorted lists. What the kernel reads from its environment
  (home directory, process probe, process id, clock, UUID, time formatting) is a parameter
  (\<open>kernel_env\<close>, \<open>guard_env\<close>, \<open>alive\<close>, \<open>pid\<close>, \<open>now\<close>). The JSON serializer is the record
  \<open>codec\<close>, the date library the record \<open>calendar\<close>; a theorem that relies on what it wrote being read back says so (\<open>reads_back\<close>). A call that
  holds the file lock is one step; the lock makes concurrent calls a sequence of them. Directory
  names are those of a case-sensitive file system. A database table is the list of its rows, a statement one
  step. A call on a session holds its write lock and is one step; the runtime's cancellation timer and
  completion monitor, which look and act under separate locks, are two steps each. What a call on a queue
  or a session finds outside (JSON text, SHA-256, UUID, clock; receipts, journal health, the parts of a
  start around the lifecycle calls) is a \<open>queue_env\<close> or a \<open>session_gate\<close>. A path of the sandbox is its
  list of components. Real paths, file contents, the typed JSON of a rule file and the regex engine are
  fields of \<open>rule_env\<close>; the tree, the clock and cancellation of a scan fields of \<open>scan_env\<close>. The
  hypotheses on them are \<open>realpath_laws\<close> (a real path is absolute, without
  dots and its own real path, an entry resolves in the real directory, nothing lies below what does not
  resolve) and
  \<open>regex_laws\<close> (an anchored sequence of literals, \<open>[^/]\<close>, \<open>[^/]*\<close> and any-text groups matches the texts it
  denotes); \<open>demo_real\<close> and \<open>fragment_match\<close> satisfy them.

  \<^bold>\<open>What the theorems show.\<close>

  \<^item> Decision: \<open>decide_for\<close> implements the ordered table \<open>verdict\<close>; every packet is coherent and
    never rewritten by the arbitration; the kernel stops a goal exactly when it may; a delivery
    goes to the first strongest runnable todo of the asking agent; gates, cancelled goals and
    unknown identities are handled fail-closed; a backoff wait ends when its packet announces. A
    stalled monitor is a quiet wait, not the replan of the comments.
  \<^item> Frontier: the scoped view of an agent is a partition, and two agents never see each other's
    claims. The terminal judgement, the rule selection and the outcome segments are exact.
  \<^item> Signals: the oscillation detector fires exactly on a strictly alternating tail of delivery
    verdicts, whatever neutral records lie between. Slot accounting neither loses nor invents
    spend.
  \<^item> Leases: no other agent disturbs a live lease, a race has one winner, leases are bounded.
    The locales \<open>exclusive_lease\<close> and \<open>granting_lease\<close> state the contract once; the claims of the
    code are interpretations of them.
  \<^item> Task graph: the cycle search is exact and terminates; the topological sort is total and
    correct; an acyclic graph without open gates never deadlocks.

  \<^item> Ledger: reading is exact and collapses repetitions; an appended event reads back, and only
    as often as its content differs; guarded changes keep the dependency graph acyclic; a goal's
    directory name is safe and unique.
  \<^item> Replay: it keeps the read model well-formed, is total for ordinary cadences and does not
    depend on the reader's clock unless a todo was archived; what ends a supersession is exact.
  \<^item> Claims: the ledger claim is the third interpretation of the lease locales; its decision is
    exact, a granted claim excludes every other agent until it expires, and replaying the lease
    events refines the lease state machine. Two theorems show where this fails: a claim repeated
    within a second, and an expiry decided before a peer's claim.
  \<^item> Deliveries and commands: the evidence floor, the validator receipts, the completion check and
    the turn writeback are exact; the delivery record command refines the abstract delivery cycle, a
    verified delivery is final, the follow-through fires once; the todo hierarchy stays within three
    levels; truncation and retries are bounded.
  \<^item> Supervision: where the lock files work, a supervisor that keeps its session is told every note in
    at most one prompt, whatever fails or arrives late, and a note counts as delivered only once it was
    told; without the locks, which the code tolerates, two flushes send it twice; the outbox drains whichever sessions come and go (the locale \<open>draining\<close>, interpreted on the flush);
    a session that comes back can see a note twice; the steering instructions are exact.
  \<^item> Workspace guard and scheduler: conflicts, overlap and normalisation are exact, cadences
    round trip, the failure cache is bounded.

  \<^item> Scheduled tasks: slots lie in the future, and daily, weekly and interval slots are exact in weeks
    without a change of the clock; rows read back; the history of a prompt is complete. Over every
    interleaving of the host's steps, with the late writes of guards and of the feedback command as
    steps of their own, a task has at most one running run and the status of a settled run is final, as
    long as feedback is given on settled runs only; a dead run never blocks its task. Theorems of their
    own show where the code fails: feedback on a run in flight revives it once it is settled, the first run of a kept conversation undoes its claim, a refused rename locks a prompt,
    a weekly slot is skipped before a short day, a daily task stops in the repeated hour.
  \<^item> Queue and runtime: every accepted prompt is started, ended or waiting, exactly once; a retry is
    answered with the run it has; folding and the shared budget are exact. A session has one owner, an old
    lease changes nothing, a user's stop is never reclassified, no run is left without a task unseen.
    As long as no wake-up is paused and no Fusion check fails after a run was begun, the queue and the
    runtime agree on the active run over every interleaving, and a wake-up ends and starts what can
    start; a run answers every prompt folded into it. Theorems of their own show the
    failures: a start that fails at a Fusion check strands its run and drops the queue, superseding forgets the parked prompts, a late timer overwrites a finalizing run, a
    paused wake-up stops a session for good, a release that fails loses the settings of its prompt.
  \<^item> Sandbox: the path the gate judges is stable under judging it again; a rule file fails closed; the app's
    own files stay denied and a secret needs a grant, whatever rule files, session rules and grants say;
    grants are exact. First-match verdicts are the locale \<open>path_rules\<close>, interpreted on the rules of the
    tools and on the flat rules of a plan. The three glob matchers agree; the scan finds what an unpruned
    walk finds, from a static root below the top directory; under hypotheses on the roots and the globs
    that each theorem lists, the mounts let a command read and write only what the rules allow, on the
    plan alone and with the scan composed. Theorems of their own show where this fails: a rule above the workspace is not
    mounted in it, an allowing glob opens the target of a link, a double star ends inside a name.

  \<^bold>\<open>Not modelled.\<close> Disk and serializer errors of the store, the diagnostics sidecar of the reader,
  the list of backups and the migration of old goal directories; spawning, watching and stopping of
  processes, the run loop, the reading commands and what commands print, the HTTP and terminal
  interfaces (I/O around the kernel). Of the scheduled tasks: the calendar library and the zone database
  (parameters), opening and migrating the database, the prompt turn and the conversation store; the
  feedback command of the command line is the one writer of another process. Of the
  sandbox: the probe of bubblewrap, the helper processes and the scan after a command (processes and
  I/O), the permission requests of the model, the macOS and Windows backends; a file created after the
  scan is outside every theorem. Of the
  agent: the model loop, the tools, the journals and receipts of a session and what a start does around
  the lifecycle calls (answers of the \<open>session_gate\<close>; between two lifecycle calls of one start no other
  step is interleaved), prompts that bypass the queue (tests only), the counter of auxiliary tasks.
  The remaining crates are asynchronous code over networks, terminals and external libraries, whose
  behaviour cannot be read from the repository.

  \<^bold>\<open>Loops and fuel.\<close> No definition uses fuel. The cycle search and the leftover walk terminate by
  a measure on the nodes not seen yet; the sort is a \<open>partial_function (option)\<close> and its theorem
  states that it always returns. The eviction of acknowledgements ends by the length of the window; the
  dequeue loop of a session is a \<open>partial_function (option)\<close> too, and every failed start leaves fewer
  queued prompts, so that it returns. The scan of globs recurses over the
  tree; the budgets of the code (256 patterns, depth 64, 2048 matches, 4 MB of results) end it with an
  error, and its theorem speaks of a scan that succeeds.
\<close>

end
